(* ===== verification/Prelude.thy ===== *)
theory Prelude
  imports Main "HOL-Library.Word" "HOL-Library.Monad_Syntax"
begin

text \<open>
  Shared vocabulary of the development: machine integers, the errno values of the C library,
  the collections of facts the component proofs use, and generic lemmas on lists, maps,
  options and words.

  Conventions.
  \<^item> A kernel operation that can run into a BUG or touch a freed object returns an \<open>option\<close>:
    \<open>None\<close> is a kernel crash (\<open>BUG_ON\<close> fires, or a pointer to a freed or absent object is
    followed), \<open>Some s\<close> is the state after the operation.
  \<^item> An operation that returns an errno returns an \<open>int\<close>: \<open>0\<close> or a positive value on success and
    the negated errno on failure, as in the source.
  \<^item> Counters of the source whose wrap-around could matter are words of their C width.
\<close>

type_synonym u8 = "8 word"
type_synonym u32 = "32 word"
type_synonym u64 = "64 word"

named_theorems fuse_defs \<open>definitions of the small state updates, unfolded by the component proofs\<close>
named_theorems frame_simps \<open>which part of the state an operation leaves alone\<close>
named_theorems inv_intros \<open>preservation lemmas of the invariants\<close>

subsection \<open>Errno values\<close>

definition EPERM :: int where "EPERM = 1"
definition ENOENT :: int where "ENOENT = 2"
definition EINTR :: int where "EINTR = 4"
definition EIO :: int where "EIO = 5"
definition E2BIG :: int where "E2BIG = 7"
definition EAGAIN :: int where "EAGAIN = 11"
definition ENOMEM :: int where "ENOMEM = 12"
definition EACCES :: int where "EACCES = 13"
definition EFAULT :: int where "EFAULT = 14"
definition EBUSY :: int where "EBUSY = 16"
definition EXDEV :: int where "EXDEV = 18"
definition ENODEV :: int where "ENODEV = 19"
definition ENOTDIR :: int where "ENOTDIR = 20"
definition EINVAL :: int where "EINVAL = 22"
definition ENOTTY :: int where "ENOTTY = 25"
definition ERANGE :: int where "ERANGE = 34"
definition ENAMETOOLONG :: int where "ENAMETOOLONG = 36"
definition ENOLCK :: int where "ENOLCK = 37"
definition ENOSYS :: int where "ENOSYS = 38"
definition ENOTEMPTY :: int where "ENOTEMPTY = 39"
definition ENODATA :: int where "ENODATA = 61"
definition EOPNOTSUPP :: int where "EOPNOTSUPP = 95"
definition ECONNABORTED :: int where "ECONNABORTED = 103"
definition ENOTCONN :: int where "ENOTCONN = 107"
definition ECONNREFUSED :: int where "ECONNREFUSED = 111"
definition ESTALE :: int where "ESTALE = 116"
definition ECHILD :: int where "ECHILD = 10"
definition ERESTARTSYS :: int where "ERESTARTSYS = 512"
definition EIOCBQUEUED :: int where "EIOCBQUEUED = 529"

lemmas errno_defs = EPERM_def ENOENT_def EINTR_def EIO_def E2BIG_def EAGAIN_def ENOMEM_def
  EACCES_def EFAULT_def EBUSY_def EXDEV_def ENODEV_def ENOTDIR_def EINVAL_def ENOTTY_def
  ERANGE_def ENAMETOOLONG_def ENOLCK_def ENOSYS_def ENOTEMPTY_def ENODATA_def EOPNOTSUPP_def
  ECONNABORTED_def ENOTCONN_def ECONNREFUSED_def ESTALE_def ECHILD_def ERESTARTSYS_def
  EIOCBQUEUED_def

subsection \<open>Lists\<close>

text \<open>\<open>without r xs\<close> is \<open>list_del\<close> of the entry \<open>r\<close> on the list \<open>xs\<close>.\<close>

definition without :: "'a \<Rightarrow> 'a list \<Rightarrow> 'a list" where
  "without r xs = filter (\<lambda>x. x \<noteq> r) xs"

lemma without_Nil [simp]: "without r [] = []"
  by (simp add: without_def)

lemma without_Cons [simp]: "without r (x # xs) = (if x = r then without r xs else x # without r xs)"
  by (simp add: without_def)

lemma without_append [simp]: "without r (xs @ ys) = without r xs @ without r ys"
  by (simp add: without_def)

lemma set_without [simp]: "set (without r xs) = set xs - {r}"
  by (auto simp: without_def)

lemma distinct_without [simp]: "distinct xs \<Longrightarrow> distinct (without r xs)"
  by (simp add: without_def)

lemma without_absent [simp]: "r \<notin> set xs \<Longrightarrow> without r xs = xs"
  by (simp add: without_def filter_id_conv) blast

lemma length_without_le: "length (without r xs) \<le> length xs"
  by (simp add: without_def)

lemma without_without [simp]: "without r (without r xs) = without r xs"
  by (simp add: without_def)

lemma without_commute: "without r (without q xs) = without q (without r xs)"
  by (simp add: without_def conj_commute)

subsection \<open>Options\<close>

lemma bind_Some_iff: "Option.bind m f = Some y \<longleftrightarrow> (\<exists>x. m = Some x \<and> f x = Some y)"
  by (cases m) auto

lemma bind_Some_E:
  assumes "Option.bind m f = Some y"
  obtains x where "m = Some x" and "f x = Some y"
  using assms by (cases m) auto

lemma bind_not_None: "m = Some x \<Longrightarrow> f x \<noteq> None \<Longrightarrow> Option.bind m f \<noteq> None"
  by simp

subsection \<open>Counters of a finite set of objects\<close>

lemma card_insert_new: "finite A \<Longrightarrow> x \<notin> A \<Longrightarrow> card (insert x A) = Suc (card A)"
  by simp

lemma card_remove_mem: "finite A \<Longrightarrow> x \<in> A \<Longrightarrow> card A = Suc (card (A - {x}))"
  by (rule card.remove)

subsection \<open>Machine words\<close>

lemma unat_inc_small:
  fixes w :: "'a::len word"
  assumes "Suc (unat w) < 2 ^ LENGTH('a)"
  shows "unat (w + 1) = Suc (unat w)"
  using assms by (metis Suc_eq_plus1 unat_1 unat_add_lem unsigned_1)

lemma unat_dec_pos:
  fixes w :: "'a::len word"
  assumes "0 < unat w"
  shows "unat (w - 1) = unat w - 1"
  using assms by (metis gr_implies_not_zero unat_eq_zero unat_minus_one)

lemma word_inc_nonzero:
  fixes w :: "'a::len word"
  shows "w \<noteq> - 1 \<Longrightarrow> w + 1 \<noteq> 0"
  by (metis eq_neg_iff_add_eq_0)

lemma unat_inc_not_max:
  fixes w :: "'a::len word"
  shows "w \<noteq> - 1 \<Longrightarrow> unat (w + 1) = Suc (unat w)"
  using word_inc_nonzero [of w] by (simp add: unatSuc add.commute)

lemma unat_inc_bounded:
  fixes w v :: "'a::len word"
  assumes "w < v"
  shows "unat (w + 1) = Suc (unat w)"
proof -
  have "unat w < unat v" using assms by (simp add: word_less_nat_alt)
  moreover have "unat v < 2 ^ LENGTH('a)" by (rule unsigned_less)
  ultimately show ?thesis by (intro unat_inc_small) linarith
qed

end
