(* ===== verification/Fuse_Types.thy ===== *)
theory Fuse_Types
  imports Prelude
begin

text \<open>
  The data of the module (\<open>fuse_i.h\<close>): requests, queues, devices, files and the connection, with
  the fields the modelled code reads or writes.

  \<^item> Objects the kernel reaches through pointers live in stores of the state, maps from identifiers
    to records; \<open>None\<close> is an object that was never allocated or was freed.
  \<^item> One-bit fields of \<open>struct fuse_conn\<close> and the \<open>FR_*\<close> request bits are sets of the constructors
    that name them: a bit is set when its constructor is a member.
  \<^item> The wire format (\<open>linux/fuse.h\<close>) is not part of the repository: opcodes and notification codes
    are enumerations with distinct constructors, and the size of each wire structure is read from
    the field \<open>wire_size\<close> of the state, which no operation changes.
  \<^item> A list head of the kernel is the list of the identifiers on it; \<open>struct list_head list\<close> of a
    request is on at most one list, and \<open>list_del\<close> takes the request off whichever list it is on.
\<close>

type_synonym req_id = nat
type_synonym dev_id = nat
type_synonym ff_id = nat
type_synonym filp_id = nat
type_synonym ino_id = nat
type_synonym page_id = nat
type_synonym io_id = nat

subsection \<open>Constants of \<open>fuse_i.h\<close>\<close>

definition FUSE_MAX_PAGES_PER_REQ :: nat where "FUSE_MAX_PAGES_PER_REQ = 32"
definition FUSE_NOWRITE :: int where "FUSE_NOWRITE = - (2 ^ 31)"
definition FUSE_NAME_MAX :: nat where "FUSE_NAME_MAX = 1024"
definition FUSE_CTL_NUM_DENTRIES :: nat where "FUSE_CTL_NUM_DENTRIES = 5"
definition FUSE_REQ_INLINE_PAGES :: nat where "FUSE_REQ_INLINE_PAGES = 1"

text \<open>The pages of the build configuration (\<open>x86_64\<close>: 4 KiB pages, 64-bit \<open>long\<close>).\<close>

definition PAGE_SHIFT :: nat where "PAGE_SHIFT = 12"
definition PAGE_SIZE :: nat where "PAGE_SIZE = 4096"

lemma PAGE_SIZE_pos [simp]: "0 < PAGE_SIZE"
  by (simp add: PAGE_SIZE_def)

lemma PAGE_SIZE_shift: "PAGE_SIZE = 2 ^ PAGE_SHIFT"
  by (simp add: PAGE_SIZE_def PAGE_SHIFT_def)

subsection \<open>The wire format\<close>

datatype wire =
    W_in_header | W_out_header | W_forget_in | W_forget_one | W_batch_forget_in | W_interrupt_in
  | W_entry_out | W_attr_out | W_open_in | W_open_out | W_create_in | W_mknod_in | W_mkdir_in
  | W_rename_in | W_rename2_in | W_link_in | W_getattr_in | W_setattr_in | W_access_in
  | W_getxattr_in | W_getxattr_out | W_setxattr_in | W_statfs_out | W_init_in | W_init_out
  | W_read_in | W_write_in | W_write_out | W_release_in | W_flush_in | W_fsync_in | W_lk_in | W_lk_out
  | W_bmap_in | W_bmap_out | W_lseek_in | W_lseek_out | W_poll_in | W_poll_out | W_fallocate_in
  | W_ioctl_in | W_ioctl_out | W_dirent | W_direntplus
  | W_notify_poll_wakeup_out | W_notify_inval_inode_out | W_notify_inval_entry_out
  | W_notify_delete_out | W_notify_store_out | W_notify_retrieve_out | W_notify_retrieve_in
  | W_compat_statfs | W_compat_entry_out | W_compat_attr_out | W_compat_mknod_in | W_compat_write_in

datatype fuse_opcode =
    FUSE_LOOKUP | FUSE_FORGET | FUSE_GETATTR | FUSE_SETATTR | FUSE_READLINK | FUSE_SYMLINK
  | FUSE_MKNOD | FUSE_MKDIR | FUSE_UNLINK | FUSE_RMDIR | FUSE_RENAME | FUSE_LINK | FUSE_OPEN
  | FUSE_READ | FUSE_WRITE | FUSE_STATFS | FUSE_RELEASE | FUSE_FSYNC | FUSE_SETXATTR
  | FUSE_GETXATTR | FUSE_LISTXATTR | FUSE_REMOVEXATTR | FUSE_FLUSH | FUSE_INIT | FUSE_OPENDIR
  | FUSE_READDIR | FUSE_RELEASEDIR | FUSE_FSYNCDIR | FUSE_GETLK | FUSE_SETLK | FUSE_SETLKW
  | FUSE_ACCESS | FUSE_CREATE | FUSE_INTERRUPT | FUSE_BMAP | FUSE_DESTROY | FUSE_IOCTL | FUSE_POLL
  | FUSE_NOTIFY_REPLY | FUSE_BATCH_FORGET | FUSE_FALLOCATE | FUSE_READDIRPLUS | FUSE_RENAME2
  | FUSE_LSEEK | FUSE_NO_OPCODE

text \<open>\<open>FUSE_NO_OPCODE\<close> is the zero that \<open>memset\<close> leaves in a fresh request.\<close>

datatype fopen_flag = FOPEN_DIRECT_IO | FOPEN_KEEP_CACHE | FOPEN_NONSEEKABLE

record fuse_forget_one =
  fo_nodeid :: u64
  fo_nlookup :: u64

record fuse_in_header =
  ih_len :: nat
  ih_opcode :: fuse_opcode
  ih_unique :: u64
  ih_nodeid :: u64
  ih_uid :: u32
  ih_gid :: u32
  ih_pid :: u32

record fuse_out_header =
  oh_len :: nat
  oh_error :: int
  oh_unique :: u64

subsection \<open>Requests\<close>

text \<open>
  \<open>struct fuse_in_arg\<close> and \<open>struct fuse_arg\<close> have the same layout and the source casts one to the
  other; both are \<open>fuse_arg\<close>. The value is the sequence of bytes the pointer leads to.
\<close>

record fuse_arg =
  arg_size :: nat
  arg_value :: "u8 list"

record fuse_in =
  in_h :: fuse_in_header
  in_argpages :: bool
  in_args :: "fuse_arg list"

record fuse_out =
  out_h :: fuse_out_header
  out_argvar :: bool
  out_argpages :: bool
  out_page_zeroing :: bool
  out_page_replace :: bool
  out_args :: "fuse_arg list"

record fuse_page_desc =
  pd_length :: nat
  pd_offset :: nat

text \<open>The arguments a caller hands to \<open>fuse_simple_request\<close>.\<close>

record fuse_args =
  a_opcode :: fuse_opcode
  a_nodeid :: u64
  a_in_args :: "fuse_arg list"
  a_out_argvar :: bool
  a_out_args :: "fuse_arg list"

datatype fuse_req_flag =
    FR_ISREPLY | FR_FORCE | FR_BACKGROUND | FR_WAITING | FR_ABORTED | FR_INTERRUPTED
  | FR_LOCKED | FR_PENDING | FR_SENT | FR_FINISHED | FR_PRIVATE

text \<open>The completion callbacks a request can carry in \<open>req->end\<close>.\<close>

datatype fuse_end =
    End_init | End_release | End_retrieve | End_aio | End_readpages | End_writepage

datatype init_flag =
    FUSE_ASYNC_READ | FUSE_POSIX_LOCKS | FUSE_FILE_OPS | FUSE_ATOMIC_O_TRUNC | FUSE_EXPORT_SUPPORT
  | FUSE_BIG_WRITES | FUSE_DONT_MASK | FUSE_SPLICE_WRITE | FUSE_SPLICE_MOVE | FUSE_SPLICE_READ
  | FUSE_FLOCK_LOCKS | FUSE_HAS_IOCTL_DIR | FUSE_AUTO_INVAL_DATA | FUSE_DO_READDIRPLUS
  | FUSE_READDIRPLUS_AUTO | FUSE_ASYNC_DIO | FUSE_WRITEBACK_CACHE | FUSE_NO_OPEN_SUPPORT
  | FUSE_PARALLEL_DIROPS | FUSE_HANDLE_KILLPRIV | FUSE_POSIX_ACL

record fuse_init_in =
  ii_major :: u32
  ii_minor :: u32
  ii_max_readahead :: u32
  ii_flags :: "init_flag set"

record fuse_init_out =
  io_major :: u32
  io_minor :: u32
  io_max_readahead :: u32
  io_flags :: "init_flag set"
  io_max_background :: u32
  io_congestion_threshold :: u32
  io_max_write :: u32
  io_time_gran :: u32

record fuse_release_in =
  rel_fh :: u64
  rel_flags :: u32
  rel_flock_unlock :: bool
  rel_lock_owner :: u64

datatype fuse_write_flag = FUSE_WRITE_CACHE | FUSE_WRITE_LOCKOWNER

record fuse_write_in =
  wi_fh :: u64
  wi_offset :: u64
  wi_size :: u32
  wi_write_flags :: "fuse_write_flag set"
  wi_lock_owner :: u64
  wi_flags :: u32

text \<open>
  The union \<open>misc\<close> of a request. \<open>Misc_write\<close> carries \<open>write.in\<close> and \<open>write.next\<close>; \<open>write.out\<close> is
  the value of the output argument.
\<close>

datatype fuse_misc =
    Misc_none
  | Misc_release fuse_release_in "ino_id option"
  | Misc_init_in fuse_init_in
  | Misc_init_out fuse_init_out
  | Misc_retrieve u64 nat
  | Misc_write fuse_write_in "req_id option"

record fuse_req =
  rq_count :: int
  rq_intr_unique :: u64
  rq_flags :: "fuse_req_flag set"
  rq_in :: fuse_in
  rq_out :: fuse_out
  rq_misc :: fuse_misc
  rq_pages :: "page_id option list"
  rq_page_descs :: "fuse_page_desc list"
  rq_max_pages :: nat
  rq_num_pages :: nat
  rq_ff :: "ff_id option"
  rq_inode :: "ino_id option"
  rq_io :: "io_id option"
  rq_end :: "fuse_end option"
  rq_stolen_file :: "filp_id option"

subsection \<open>Files and queues\<close>

record fuse_file =
  ff_reserved_req :: "req_id option"
  ff_kh :: u64
  ff_fh :: u64
  ff_nodeid :: u64
  ff_count :: int
  ff_open_flags :: "fopen_flag set"
  ff_on_write_files :: bool
  ff_polled :: bool
  ff_flock :: bool

text \<open>\<open>struct file\<close>: the reference count and the \<open>fuse_file\<close> it leads to.\<close>

record filp =
  f_count :: int
  private_data :: "ff_id option"

record fuse_iqueue =
  iq_connected :: bool
  reqctr :: u64
  pending :: "req_id list"
  interrupts :: "req_id list"
  forget_list :: "fuse_forget_one list"
  forget_batch :: int

record fuse_pqueue =
  pq_connected :: bool
  processing :: "req_id list"
  io_list :: "req_id list"

record fuse_dev =
  dev_pq :: fuse_pqueue

subsection \<open>The connection\<close>

datatype fuse_conn_bit =
    Conn_error | Conn_init | Async_read | Atomic_o_trunc | Export_support | Bdi_initialized
  | Writeback_cache | Parallel_dirops | Handle_killpriv | No_open | No_fsync | No_fsyncdir
  | No_flush | No_setxattr | No_getxattr | No_listxattr | No_removexattr | No_lock | No_access
  | No_create | No_interrupt | No_bmap | No_poll | Big_writes | Dont_mask | No_flock
  | No_fallocate | No_rename2 | Auto_inval_data | Do_readdirplus | Readdirplus_auto | Async_dio
  | No_lseek | Posix_acl | Default_permissions | Allow_other

record fuse_conn =
  fc_count :: int
  dev_count :: int
  user_id :: u32
  group_id :: u32
  max_read :: u32
  max_write :: u32
  iq :: fuse_iqueue
  khctr :: u64
  max_background :: u32
  congestion_threshold :: u32
  num_background :: u32
  active_background :: u32
  bg_queue :: "req_id list"
  initialized :: bool
  blocked :: bool
  connected :: bool
  fc_bits :: "fuse_conn_bit set"
  num_waiting :: int
  minor :: u32
  ra_pages :: nat
  bdi_congested :: bool
  scramble_key :: "u32 list"
  destroy_req :: "req_id option"
  attr_version :: u64
  sb_time_gran :: "u32 option"
  devices :: "dev_id list"

text \<open>
  What a step of the kernel makes visible to other threads beside the state: wake-ups,
  signals to readers, callbacks and warnings, newest first.
\<close>

datatype event =
    Wake_reader | Wake_all_readers | Kill_fasync | Wake_blocked | Wake_all_blocked
  | Wake_all_reserved | Wake_req req_id | Wake_polls | End_callback fuse_end req_id
  | Warn | Free_conn | Free_forget fuse_forget_one

text \<open>
  The state the device code works on: the connection, the stores of requests, device instances
  and files, the identifier of the next object the allocator hands out, and the events.
  \<open>sb_time_gran\<close> is \<open>fc->sb->s_time_gran\<close>, \<open>None\<close> when \<open>fc->sb\<close> is NULL. The module globals hold the
  two module parameters and what the code reads of its environment: the capability of the
  caller, the number of pages of memory, the size of a request object and the protocol version
  the module was built against.
\<close>

record module_globals =
  max_user_bgreq :: u32
  max_user_congthresh :: u32
  cap_sys_admin :: bool
  totalram_pages :: u64
  sizeof_fuse_req :: u64
  kernel_version :: u32
  kernel_minor :: u32

record fuse_state = fuse_conn +
  reqs :: "req_id \<rightharpoonup> fuse_req"
  devs :: "dev_id \<rightharpoonup> fuse_dev"
  ffs :: "ff_id \<rightharpoonup> fuse_file"
  filps :: "filp_id \<rightharpoonup> filp"
  next_id :: nat
  wire_size :: "wire \<Rightarrow> nat"
  events :: "event list"
  glob :: module_globals

subsection \<open>Updates of one object\<close>

definition emit :: "event \<Rightarrow> fuse_state \<Rightarrow> fuse_state" where
  "emit e s = s\<lparr>events := e # events s\<rparr>"

definition upd_req :: "req_id \<Rightarrow> (fuse_req \<Rightarrow> fuse_req) \<Rightarrow> fuse_state \<Rightarrow> fuse_state" where
  "upd_req r f s = s\<lparr>reqs := (\<lambda>x. if x = r then map_option f (reqs s x) else reqs s x)\<rparr>"

definition upd_dev :: "dev_id \<Rightarrow> (fuse_pqueue \<Rightarrow> fuse_pqueue) \<Rightarrow> fuse_state \<Rightarrow> fuse_state" where
  "upd_dev d f s = s\<lparr>devs := (\<lambda>x. if x = d then map_option (dev_pq_update f) (devs s x) else devs s x)\<rparr>"

definition set_flag :: "fuse_req_flag \<Rightarrow> fuse_req \<Rightarrow> fuse_req" where
  "set_flag b q = q\<lparr>rq_flags := insert b (rq_flags q)\<rparr>"

definition clear_flag :: "fuse_req_flag \<Rightarrow> fuse_req \<Rightarrow> fuse_req" where
  "clear_flag b q = q\<lparr>rq_flags := rq_flags q - {b}\<rparr>"

definition set_out_error :: "int \<Rightarrow> fuse_req \<Rightarrow> fuse_req" where
  "set_out_error e q = q\<lparr>rq_out := (rq_out q)\<lparr>out_h := (out_h (rq_out q))\<lparr>oh_error := e\<rparr>\<rparr>\<rparr>"

text \<open>\<open>list_del (&req->list)\<close>: off the pending, background, processing or I/O list it is on.\<close>

definition pq_del :: "req_id \<Rightarrow> fuse_pqueue \<Rightarrow> fuse_pqueue" where
  "pq_del r p = p\<lparr>processing := without r (processing p), io_list := without r (io_list p)\<rparr>"

definition list_del :: "req_id \<Rightarrow> fuse_state \<Rightarrow> fuse_state" where
  "list_del r s = s\<lparr>
     iq := (iq s)\<lparr>pending := without r (pending (iq s))\<rparr>,
     bg_queue := without r (bg_queue s),
     devs := (\<lambda>d. map_option (dev_pq_update (pq_del r)) (devs s d))\<rparr>"

text \<open>\<open>list_del_init (&req->intr_entry)\<close>.\<close>

definition intr_del :: "req_id \<Rightarrow> fuse_state \<Rightarrow> fuse_state" where
  "intr_del r s = s\<lparr>iq := (iq s)\<lparr>interrupts := without r (interrupts (iq s))\<rparr>\<rparr>"

definition upd_ff :: "ff_id \<Rightarrow> (fuse_file \<Rightarrow> fuse_file) \<Rightarrow> fuse_state \<Rightarrow> fuse_state" where
  "upd_ff i f s = s\<lparr>ffs := (\<lambda>x. if x = i then map_option f (ffs s x) else ffs s x)\<rparr>"

definition upd_filp :: "filp_id \<Rightarrow> (filp \<Rightarrow> filp) \<Rightarrow> fuse_state \<Rightarrow> fuse_state" where
  "upd_filp i f s = s\<lparr>filps := (\<lambda>x. if x = i then map_option f (filps s x) else filps s x)\<rparr>"

subsection \<open>What the updates leave alone\<close>

lemma emit_frame [simp]:
  "fc_count (emit e s) = fc_count s"
  "dev_count (emit e s) = dev_count s"
  "user_id (emit e s) = user_id s"
  "group_id (emit e s) = group_id s"
  "max_read (emit e s) = max_read s"
  "max_write (emit e s) = max_write s"
  "iq (emit e s) = iq s"
  "khctr (emit e s) = khctr s"
  "max_background (emit e s) = max_background s"
  "congestion_threshold (emit e s) = congestion_threshold s"
  "num_background (emit e s) = num_background s"
  "active_background (emit e s) = active_background s"
  "bg_queue (emit e s) = bg_queue s"
  "initialized (emit e s) = initialized s"
  "blocked (emit e s) = blocked s"
  "connected (emit e s) = connected s"
  "fc_bits (emit e s) = fc_bits s"
  "num_waiting (emit e s) = num_waiting s"
  "minor (emit e s) = minor s"
  "ra_pages (emit e s) = ra_pages s"
  "bdi_congested (emit e s) = bdi_congested s"
  "scramble_key (emit e s) = scramble_key s"
  "destroy_req (emit e s) = destroy_req s"
  "attr_version (emit e s) = attr_version s"
  "sb_time_gran (emit e s) = sb_time_gran s"
  "devices (emit e s) = devices s"
  "reqs (emit e s) = reqs s"
  "devs (emit e s) = devs s"
  "ffs (emit e s) = ffs s"
  "filps (emit e s) = filps s"
  "next_id (emit e s) = next_id s"
  "wire_size (emit e s) = wire_size s"
  "glob (emit e s) = glob s"
  by (simp_all add: emit_def)

lemma upd_req_frame [simp]:
  "fc_count (upd_req r f s) = fc_count s"
  "dev_count (upd_req r f s) = dev_count s"
  "user_id (upd_req r f s) = user_id s"
  "group_id (upd_req r f s) = group_id s"
  "max_read (upd_req r f s) = max_read s"
  "max_write (upd_req r f s) = max_write s"
  "iq (upd_req r f s) = iq s"
  "khctr (upd_req r f s) = khctr s"
  "max_background (upd_req r f s) = max_background s"
  "congestion_threshold (upd_req r f s) = congestion_threshold s"
  "num_background (upd_req r f s) = num_background s"
  "active_background (upd_req r f s) = active_background s"
  "bg_queue (upd_req r f s) = bg_queue s"
  "initialized (upd_req r f s) = initialized s"
  "blocked (upd_req r f s) = blocked s"
  "connected (upd_req r f s) = connected s"
  "fc_bits (upd_req r f s) = fc_bits s"
  "num_waiting (upd_req r f s) = num_waiting s"
  "minor (upd_req r f s) = minor s"
  "ra_pages (upd_req r f s) = ra_pages s"
  "bdi_congested (upd_req r f s) = bdi_congested s"
  "scramble_key (upd_req r f s) = scramble_key s"
  "destroy_req (upd_req r f s) = destroy_req s"
  "attr_version (upd_req r f s) = attr_version s"
  "sb_time_gran (upd_req r f s) = sb_time_gran s"
  "devices (upd_req r f s) = devices s"
  "devs (upd_req r f s) = devs s"
  "ffs (upd_req r f s) = ffs s"
  "filps (upd_req r f s) = filps s"
  "next_id (upd_req r f s) = next_id s"
  "wire_size (upd_req r f s) = wire_size s"
  "events (upd_req r f s) = events s"
  "glob (upd_req r f s) = glob s"
  by (simp_all add: upd_req_def)

lemma upd_dev_frame [simp]:
  "fc_count (upd_dev d g s) = fc_count s"
  "dev_count (upd_dev d g s) = dev_count s"
  "user_id (upd_dev d g s) = user_id s"
  "group_id (upd_dev d g s) = group_id s"
  "max_read (upd_dev d g s) = max_read s"
  "max_write (upd_dev d g s) = max_write s"
  "iq (upd_dev d g s) = iq s"
  "khctr (upd_dev d g s) = khctr s"
  "max_background (upd_dev d g s) = max_background s"
  "congestion_threshold (upd_dev d g s) = congestion_threshold s"
  "num_background (upd_dev d g s) = num_background s"
  "active_background (upd_dev d g s) = active_background s"
  "bg_queue (upd_dev d g s) = bg_queue s"
  "initialized (upd_dev d g s) = initialized s"
  "blocked (upd_dev d g s) = blocked s"
  "connected (upd_dev d g s) = connected s"
  "fc_bits (upd_dev d g s) = fc_bits s"
  "num_waiting (upd_dev d g s) = num_waiting s"
  "minor (upd_dev d g s) = minor s"
  "ra_pages (upd_dev d g s) = ra_pages s"
  "bdi_congested (upd_dev d g s) = bdi_congested s"
  "scramble_key (upd_dev d g s) = scramble_key s"
  "destroy_req (upd_dev d g s) = destroy_req s"
  "attr_version (upd_dev d g s) = attr_version s"
  "sb_time_gran (upd_dev d g s) = sb_time_gran s"
  "devices (upd_dev d g s) = devices s"
  "reqs (upd_dev d g s) = reqs s"
  "ffs (upd_dev d g s) = ffs s"
  "filps (upd_dev d g s) = filps s"
  "next_id (upd_dev d g s) = next_id s"
  "wire_size (upd_dev d g s) = wire_size s"
  "events (upd_dev d g s) = events s"
  "glob (upd_dev d g s) = glob s"
  by (simp_all add: upd_dev_def)

lemma list_del_frame [simp]:
  "fc_count (list_del r s) = fc_count s"
  "dev_count (list_del r s) = dev_count s"
  "user_id (list_del r s) = user_id s"
  "group_id (list_del r s) = group_id s"
  "max_read (list_del r s) = max_read s"
  "max_write (list_del r s) = max_write s"
  "khctr (list_del r s) = khctr s"
  "max_background (list_del r s) = max_background s"
  "congestion_threshold (list_del r s) = congestion_threshold s"
  "num_background (list_del r s) = num_background s"
  "active_background (list_del r s) = active_background s"
  "initialized (list_del r s) = initialized s"
  "blocked (list_del r s) = blocked s"
  "connected (list_del r s) = connected s"
  "fc_bits (list_del r s) = fc_bits s"
  "num_waiting (list_del r s) = num_waiting s"
  "minor (list_del r s) = minor s"
  "ra_pages (list_del r s) = ra_pages s"
  "bdi_congested (list_del r s) = bdi_congested s"
  "scramble_key (list_del r s) = scramble_key s"
  "destroy_req (list_del r s) = destroy_req s"
  "attr_version (list_del r s) = attr_version s"
  "sb_time_gran (list_del r s) = sb_time_gran s"
  "devices (list_del r s) = devices s"
  "reqs (list_del r s) = reqs s"
  "ffs (list_del r s) = ffs s"
  "filps (list_del r s) = filps s"
  "next_id (list_del r s) = next_id s"
  "wire_size (list_del r s) = wire_size s"
  "events (list_del r s) = events s"
  "glob (list_del r s) = glob s"
  by (simp_all add: list_del_def)

lemma intr_del_frame [simp]:
  "fc_count (intr_del r s) = fc_count s"
  "dev_count (intr_del r s) = dev_count s"
  "user_id (intr_del r s) = user_id s"
  "group_id (intr_del r s) = group_id s"
  "max_read (intr_del r s) = max_read s"
  "max_write (intr_del r s) = max_write s"
  "khctr (intr_del r s) = khctr s"
  "max_background (intr_del r s) = max_background s"
  "congestion_threshold (intr_del r s) = congestion_threshold s"
  "num_background (intr_del r s) = num_background s"
  "active_background (intr_del r s) = active_background s"
  "bg_queue (intr_del r s) = bg_queue s"
  "initialized (intr_del r s) = initialized s"
  "blocked (intr_del r s) = blocked s"
  "connected (intr_del r s) = connected s"
  "fc_bits (intr_del r s) = fc_bits s"
  "num_waiting (intr_del r s) = num_waiting s"
  "minor (intr_del r s) = minor s"
  "ra_pages (intr_del r s) = ra_pages s"
  "bdi_congested (intr_del r s) = bdi_congested s"
  "scramble_key (intr_del r s) = scramble_key s"
  "destroy_req (intr_del r s) = destroy_req s"
  "attr_version (intr_del r s) = attr_version s"
  "sb_time_gran (intr_del r s) = sb_time_gran s"
  "devices (intr_del r s) = devices s"
  "reqs (intr_del r s) = reqs s"
  "devs (intr_del r s) = devs s"
  "ffs (intr_del r s) = ffs s"
  "filps (intr_del r s) = filps s"
  "next_id (intr_del r s) = next_id s"
  "wire_size (intr_del r s) = wire_size s"
  "events (intr_del r s) = events s"
  "glob (intr_del r s) = glob s"
  by (simp_all add: intr_del_def)

lemma upd_ff_frame [simp]:
  "fc_count (upd_ff i h s) = fc_count s"
  "dev_count (upd_ff i h s) = dev_count s"
  "user_id (upd_ff i h s) = user_id s"
  "group_id (upd_ff i h s) = group_id s"
  "max_read (upd_ff i h s) = max_read s"
  "max_write (upd_ff i h s) = max_write s"
  "iq (upd_ff i h s) = iq s"
  "khctr (upd_ff i h s) = khctr s"
  "max_background (upd_ff i h s) = max_background s"
  "congestion_threshold (upd_ff i h s) = congestion_threshold s"
  "num_background (upd_ff i h s) = num_background s"
  "active_background (upd_ff i h s) = active_background s"
  "bg_queue (upd_ff i h s) = bg_queue s"
  "initialized (upd_ff i h s) = initialized s"
  "blocked (upd_ff i h s) = blocked s"
  "connected (upd_ff i h s) = connected s"
  "fc_bits (upd_ff i h s) = fc_bits s"
  "num_waiting (upd_ff i h s) = num_waiting s"
  "minor (upd_ff i h s) = minor s"
  "ra_pages (upd_ff i h s) = ra_pages s"
  "bdi_congested (upd_ff i h s) = bdi_congested s"
  "scramble_key (upd_ff i h s) = scramble_key s"
  "destroy_req (upd_ff i h s) = destroy_req s"
  "attr_version (upd_ff i h s) = attr_version s"
  "sb_time_gran (upd_ff i h s) = sb_time_gran s"
  "devices (upd_ff i h s) = devices s"
  "reqs (upd_ff i h s) = reqs s"
  "devs (upd_ff i h s) = devs s"
  "filps (upd_ff i h s) = filps s"
  "next_id (upd_ff i h s) = next_id s"
  "wire_size (upd_ff i h s) = wire_size s"
  "events (upd_ff i h s) = events s"
  "glob (upd_ff i h s) = glob s"
  by (simp_all add: upd_ff_def)

lemma upd_filp_frame [simp]:
  "fc_count (upd_filp i h s) = fc_count s"
  "dev_count (upd_filp i h s) = dev_count s"
  "user_id (upd_filp i h s) = user_id s"
  "group_id (upd_filp i h s) = group_id s"
  "max_read (upd_filp i h s) = max_read s"
  "max_write (upd_filp i h s) = max_write s"
  "iq (upd_filp i h s) = iq s"
  "khctr (upd_filp i h s) = khctr s"
  "max_background (upd_filp i h s) = max_background s"
  "congestion_threshold (upd_filp i h s) = congestion_threshold s"
  "num_background (upd_filp i h s) = num_background s"
  "active_background (upd_filp i h s) = active_background s"
  "bg_queue (upd_filp i h s) = bg_queue s"
  "initialized (upd_filp i h s) = initialized s"
  "blocked (upd_filp i h s) = blocked s"
  "connected (upd_filp i h s) = connected s"
  "fc_bits (upd_filp i h s) = fc_bits s"
  "num_waiting (upd_filp i h s) = num_waiting s"
  "minor (upd_filp i h s) = minor s"
  "ra_pages (upd_filp i h s) = ra_pages s"
  "bdi_congested (upd_filp i h s) = bdi_congested s"
  "scramble_key (upd_filp i h s) = scramble_key s"
  "destroy_req (upd_filp i h s) = destroy_req s"
  "attr_version (upd_filp i h s) = attr_version s"
  "sb_time_gran (upd_filp i h s) = sb_time_gran s"
  "devices (upd_filp i h s) = devices s"
  "reqs (upd_filp i h s) = reqs s"
  "devs (upd_filp i h s) = devs s"
  "ffs (upd_filp i h s) = ffs s"
  "next_id (upd_filp i h s) = next_id s"
  "wire_size (upd_filp i h s) = wire_size s"
  "events (upd_filp i h s) = events s"
  "glob (upd_filp i h s) = glob s"
  by (simp_all add: upd_filp_def)

lemma emit_events [simp]: "events (emit e s) = e # events s"
  by (simp add: emit_def)

lemma reqs_upd_req [simp]:
  "reqs (upd_req r f s) x = (if x = r then map_option f (reqs s x) else reqs s x)"
  by (simp add: upd_req_def)

lemma devs_upd_dev [simp]:
  "devs (upd_dev d f s) x = (if x = d then map_option (dev_pq_update f) (devs s x) else devs s x)"
  by (simp add: upd_dev_def)

lemma ffs_upd_ff [simp]:
  "ffs (upd_ff i f s) x = (if x = i then map_option f (ffs s x) else ffs s x)"
  by (simp add: upd_ff_def)

lemma filps_upd_filp [simp]:
  "filps (upd_filp i f s) x = (if x = i then map_option f (filps s x) else filps s x)"
  by (simp add: upd_filp_def)

lemma list_del_lists [simp]:
  "pending (iq (list_del r s)) = without r (pending (iq s))"
  "iq_connected (iq (list_del r s)) = iq_connected (iq s)"
  "reqctr (iq (list_del r s)) = reqctr (iq s)"
  "interrupts (iq (list_del r s)) = interrupts (iq s)"
  "forget_list (iq (list_del r s)) = forget_list (iq s)"
  "forget_batch (iq (list_del r s)) = forget_batch (iq s)"
  "bg_queue (list_del r s) = without r (bg_queue s)"
  "devs (list_del r s) d = map_option (dev_pq_update (pq_del r)) (devs s d)"
  by (simp_all add: list_del_def)

lemma intr_del_lists [simp]:
  "pending (iq (intr_del r s)) = pending (iq s)"
  "iq_connected (iq (intr_del r s)) = iq_connected (iq s)"
  "reqctr (iq (intr_del r s)) = reqctr (iq s)"
  "interrupts (iq (intr_del r s)) = without r (interrupts (iq s))"
  "forget_list (iq (intr_del r s)) = forget_list (iq s)"
  "forget_batch (iq (intr_del r s)) = forget_batch (iq s)"
  by (simp_all add: intr_del_def)

lemma pq_del_lists [simp]:
  "processing (pq_del r p) = without r (processing p)"
  "io_list (pq_del r p) = without r (io_list p)"
  "pq_connected (pq_del r p) = pq_connected p"
  by (simp_all add: pq_del_def)

lemma flag_updates [simp]:
  "rq_flags (set_flag b q) = insert b (rq_flags q)"
  "rq_flags (clear_flag b q) = rq_flags q - {b}"
  "rq_flags (set_out_error e q) = rq_flags q"
  "rq_count (set_flag b q) = rq_count q"
  "rq_count (clear_flag b q) = rq_count q"
  "rq_count (set_out_error e q) = rq_count q"
  "rq_end (set_flag b q) = rq_end q"
  "rq_end (clear_flag b q) = rq_end q"
  "rq_end (set_out_error e q) = rq_end q"
  "rq_in (set_flag b q) = rq_in q"
  "rq_in (clear_flag b q) = rq_in q"
  "rq_in (set_out_error e q) = rq_in q"
  "rq_out (set_flag b q) = rq_out q"
  "rq_out (clear_flag b q) = rq_out q"
  "rq_stolen_file (set_flag b q) = rq_stolen_file q"
  "rq_stolen_file (clear_flag b q) = rq_stolen_file q"
  "rq_stolen_file (set_out_error e q) = rq_stolen_file q"
  "rq_intr_unique (set_flag b q) = rq_intr_unique q"
  "rq_intr_unique (clear_flag b q) = rq_intr_unique q"
  "rq_intr_unique (set_out_error e q) = rq_intr_unique q"
  "oh_error (out_h (rq_out (set_out_error e q))) = e"
  by (simp_all add: set_flag_def clear_flag_def set_out_error_def)

end
