(* ===== verification/Fuse_Request.thy ===== *)
theory Fuse_Request
  imports Fuse_Types
begin

text \<open>
  Allocation, reference counting and accounting of requests (first part of \<open>dev.c\<close>):
  \<open>fuse_request_alloc\<close> and \<open>fuse_request_free\<close>, the admission of new requests in
  \<open>__fuse_get_req\<close>, the reserved request of a file, and \<open>fuse_put_request\<close>.

  \<^item> An allocation can fail. The argument \<open>ok\<close> says for each allocation of the call, counted from 0,
    whether the allocator returns memory.
  \<^item> A thread that sleeps in \<open>wait_event\<close> does not change the state; the result \<open>Asleep\<close> is the
    thread still on the wait queue, and the caller is resumed by evaluating the second half of
    the function in the state of the wake-up.
  The invariant \<open>waiting_inv\<close> relates \<open>fc->num_waiting\<close> to the requests that carry \<open>FR_WAITING\<close>.
\<close>

type_synonym oom = "nat \<Rightarrow> bool"

text \<open>The credentials of the calling task, as \<open>fuse_req_init_context\<close> reads them.\<close>

record task =
  t_fsuid :: u32
  t_fsgid :: u32
  t_pid :: u32

subsection \<open>Allocation\<close>

definition zero_in :: fuse_in where
  "zero_in = \<lparr>in_h = \<lparr>ih_len = 0, ih_opcode = FUSE_NO_OPCODE, ih_unique = 0, ih_nodeid = 0,
     ih_uid = 0, ih_gid = 0, ih_pid = 0\<rparr>, in_argpages = False, in_args = []\<rparr>"

definition zero_out :: fuse_out where
  "zero_out = \<lparr>out_h = \<lparr>oh_len = 0, oh_error = 0, oh_unique = 0\<rparr>, out_argvar = False,
     out_argpages = False, out_page_zeroing = False, out_page_replace = False, out_args = []\<rparr>"

definition fuse_request_init :: "nat \<Rightarrow> fuse_req" where
  "fuse_request_init npages = \<lparr>
     rq_count = 1, rq_intr_unique = 0, rq_flags = {FR_PENDING}, rq_in = zero_in, rq_out = zero_out,
     rq_misc = Misc_none, rq_pages = replicate npages None,
     rq_page_descs = replicate npages \<lparr>pd_length = 0, pd_offset = 0\<rparr>,
     rq_max_pages = npages, rq_num_pages = 0, rq_ff = None, rq_inode = None, rq_io = None,
     rq_end = None, rq_stolen_file = None\<rparr>"

definition fuse_request_alloc :: "oom \<Rightarrow> nat \<Rightarrow> fuse_state \<Rightarrow> req_id option \<times> fuse_state" where
  "fuse_request_alloc ok npages s =
     (if \<not> ok 0 then (None, s)
      else if FUSE_REQ_INLINE_PAGES < npages \<and> \<not> (ok 1 \<and> ok 2) then (None, s)
      else (Some (next_id s),
            s\<lparr>reqs := (reqs s)(next_id s \<mapsto> fuse_request_init npages), next_id := Suc (next_id s)\<rparr>))"

definition fuse_request_free :: "fuse_state \<Rightarrow> req_id \<Rightarrow> fuse_state option" where
  "fuse_request_free s r =
     (case reqs s r of None \<Rightarrow> None | Some q \<Rightarrow> Some (s\<lparr>reqs := (reqs s)(r := None)\<rparr>))"

definition get_request :: "fuse_state \<Rightarrow> req_id \<Rightarrow> fuse_state option" where
  \<comment> \<open>\<open>__fuse_get_request\<close>\<close>
  "get_request s r =
     (case reqs s r of None \<Rightarrow> None
      | Some q \<Rightarrow> Some (upd_req r (rq_count_update (\<lambda>n. n + 1)) s))"

definition put_request_shared :: "fuse_state \<Rightarrow> req_id \<Rightarrow> fuse_state option" where
  \<comment> \<open>\<open>__fuse_put_request\<close>: a BUG unless another reference remains\<close>
  "put_request_shared s r =
     (case reqs s r of None \<Rightarrow> None
      | Some q \<Rightarrow> if rq_count q < 2 then None
                  else Some (upd_req r (rq_count_update (\<lambda>n. n - 1)) s))"

definition fuse_req_init_context :: "task \<Rightarrow> fuse_req \<Rightarrow> fuse_req" where
  "fuse_req_init_context cur q = q\<lparr>rq_in := (rq_in q)\<lparr>in_h := (in_h (rq_in q))\<lparr>
     ih_uid := t_fsuid cur, ih_gid := t_fsgid cur, ih_pid := t_pid cur\<rparr>\<rparr>\<rparr>"

text \<open>The bits \<open>__fuse_get_req\<close> and \<open>fuse_get_req_nofail_nopages\<close> set on the request they return.\<close>

definition mark_new :: "task \<Rightarrow> bool \<Rightarrow> fuse_req \<Rightarrow> fuse_req" where
  "mark_new cur for_background q =
     (let q1 = set_flag FR_WAITING (fuse_req_init_context cur q)
      in if for_background then set_flag FR_BACKGROUND q1 else q1)"

definition mark_nofail :: "task \<Rightarrow> fuse_req \<Rightarrow> fuse_req" where
  "mark_nofail cur q =
     clear_flag FR_BACKGROUND (set_flag FR_WAITING (fuse_req_init_context cur q))"

lemma init_context_fields [simp]:
  "rq_flags (fuse_req_init_context cur q) = rq_flags q"
  "rq_count (fuse_req_init_context cur q) = rq_count q"
  "rq_stolen_file (fuse_req_init_context cur q) = rq_stolen_file q"
  "rq_end (fuse_req_init_context cur q) = rq_end q"
  by (simp_all add: fuse_req_init_context_def)

lemma mark_fields [simp]:
  "rq_flags (mark_new cur bg q) =
     insert FR_WAITING (rq_flags q) \<union> (if bg then {FR_BACKGROUND} else {})"
  "rq_count (mark_new cur bg q) = rq_count q"
  "rq_stolen_file (mark_new cur bg q) = rq_stolen_file q"
  "rq_end (mark_new cur bg q) = rq_end q"
  "rq_flags (mark_nofail cur q) = insert FR_WAITING (rq_flags q) - {FR_BACKGROUND}"
  "rq_count (mark_nofail cur q) = rq_count q"
  "rq_stolen_file (mark_nofail cur q) = rq_stolen_file q"
  "rq_end (mark_nofail cur q) = rq_end q"
  by (auto simp: mark_new_def mark_nofail_def Let_def)

definition fuse_set_initialized :: "fuse_state \<Rightarrow> fuse_state" where
  "fuse_set_initialized s = s\<lparr>initialized := True\<rparr>"

subsection \<open>Admission of a new request\<close>

definition fuse_block_alloc :: "fuse_state \<Rightarrow> bool \<Rightarrow> bool" where
  "fuse_block_alloc s for_background \<longleftrightarrow> \<not> initialized s \<or> (for_background \<and> blocked s)"

datatype getreq = Got req_id | Err int | Asleep

definition waiting_inc :: "fuse_state \<Rightarrow> fuse_state" where
  "waiting_inc s = s\<lparr>num_waiting := num_waiting s + 1\<rparr>"

definition waiting_dec :: "fuse_state \<Rightarrow> fuse_state" where
  "waiting_dec s = s\<lparr>num_waiting := num_waiting s - 1\<rparr>"

text \<open>
  The part of \<open>__fuse_get_req\<close> from the wait on: \<open>killed\<close> is a fatal signal pending for the
  thread, which ends the wait when the condition does not hold.
\<close>

definition get_req_resume ::
    "oom \<Rightarrow> task \<Rightarrow> nat \<Rightarrow> bool \<Rightarrow> bool \<Rightarrow> fuse_state \<Rightarrow> getreq \<times> fuse_state" where
  "get_req_resume ok cur npages for_background killed s =
     (if fuse_block_alloc s for_background then
        (if killed then (Err (- EINTR), waiting_dec s) else (Asleep, s))
      else if \<not> connected s then (Err (- ENOTCONN), waiting_dec s)
      else if Conn_error \<in> fc_bits s then (Err (- ECONNREFUSED), waiting_dec s)
      else case fuse_request_alloc ok npages s of
          (None, s1) \<Rightarrow>
            (Err (- ENOMEM), waiting_dec (if for_background then emit Wake_blocked s1 else s1))
        | (Some r, s1) \<Rightarrow>
            (Got r, upd_req r (mark_new cur for_background) s1))"

definition fuse_get_req_common ::
    "oom \<Rightarrow> task \<Rightarrow> nat \<Rightarrow> bool \<Rightarrow> bool \<Rightarrow> fuse_state \<Rightarrow> getreq \<times> fuse_state" where
  \<comment> \<open>\<open>__fuse_get_req\<close>\<close>
  "fuse_get_req_common ok cur npages for_background killed s =
     get_req_resume ok cur npages for_background killed (waiting_inc s)"

definition fuse_get_req :: "oom \<Rightarrow> task \<Rightarrow> nat \<Rightarrow> bool \<Rightarrow> fuse_state \<Rightarrow> getreq \<times> fuse_state" where
  "fuse_get_req ok cur npages killed s = fuse_get_req_common ok cur npages False killed s"

definition fuse_get_req_for_background ::
    "oom \<Rightarrow> task \<Rightarrow> nat \<Rightarrow> bool \<Rightarrow> fuse_state \<Rightarrow> getreq \<times> fuse_state" where
  "fuse_get_req_for_background ok cur npages killed s =
     fuse_get_req_common ok cur npages True killed s"

subsection \<open>The reserved request of a file\<close>

text \<open>The \<open>fuse_file\<close> a \<open>struct file\<close> leads to.\<close>

definition file_ff :: "fuse_state \<Rightarrow> filp_id \<Rightarrow> ff_id option" where
  "file_ff s f = Option.bind (filps s f) (\<lambda>p. Option.bind (private_data p)
     (\<lambda>i. if ffs s i = None then None else Some i))"

text \<open>
  One pass of the loop of \<open>get_reserved_req\<close>: \<open>Inr None\<close> is the thread that goes back to
  sleep, \<open>Inr (Some r)\<close> the request taken; \<open>None\<close> a file without \<open>fuse_file\<close>.
\<close>

definition get_reserved_req ::
    "fuse_state \<Rightarrow> filp_id \<Rightarrow> (req_id option \<times> fuse_state) option" where
  "get_reserved_req s file =
     Option.bind (file_ff s file) (\<lambda>i. Option.bind (ffs s i) (\<lambda>ff.
       case ff_reserved_req ff of
         None \<Rightarrow> Some (None, s)
       | Some r \<Rightarrow>
          (case reqs s r of None \<Rightarrow> None
           | Some q \<Rightarrow> Some (Some r,
             upd_req r (rq_stolen_file_update (\<lambda>_. Some file))
               (upd_filp file (f_count_update (\<lambda>n. n + 1))
                 (upd_ff i (ff_reserved_req_update (\<lambda>_. None)) s))))))"

definition put_reserved_req :: "fuse_state \<Rightarrow> req_id \<Rightarrow> fuse_state option" where
  "put_reserved_req s r = do {
     q \<leftarrow> reqs s r;
     file \<leftarrow> rq_stolen_file q;
     i \<leftarrow> file_ff s file;
     ff \<leftarrow> ffs s i;
     (if ff_reserved_req ff \<noteq> None then None
      else Some (upd_filp file (f_count_update (\<lambda>n. n - 1))
        (emit Wake_all_reserved
          (upd_ff i (ff_reserved_req_update (\<lambda>_. Some r))
            (upd_req r (\<lambda>q. fuse_request_init (rq_max_pages q)) s)))))}"

text \<open>
  \<open>fuse_get_req_nofail_nopages\<close>, from its wait for \<open>fc->initialized\<close> on: it never fails; it
  sleeps until the connection is initialised or until the reserved request is available.
\<close>

definition get_req_nofail_resume ::
    "oom \<Rightarrow> task \<Rightarrow> filp_id \<Rightarrow> fuse_state \<Rightarrow> (getreq \<times> fuse_state) option" where
  "get_req_nofail_resume ok cur file s =
     (if \<not> initialized s then Some (Asleep, s)
      else do {
        rs \<leftarrow> (case fuse_request_alloc ok 0 s of
            (None, s1) \<Rightarrow> get_reserved_req s1 file
          | (Some r, s1) \<Rightarrow> Some (Some r, s1));
        (case rs of
           (None, s2) \<Rightarrow> Some (Asleep, s2)
         | (Some r, s2) \<Rightarrow>
             Some (Got r, upd_req r (mark_nofail cur) s2))})"

definition fuse_get_req_nofail_nopages ::
    "oom \<Rightarrow> task \<Rightarrow> filp_id \<Rightarrow> fuse_state \<Rightarrow> (getreq \<times> fuse_state) option" where
  "fuse_get_req_nofail_nopages ok cur file s = get_req_nofail_resume ok cur file (waiting_inc s)"

subsection \<open>Dropping a reference\<close>

text \<open>What the last reference does before the request is freed or returned to its file.\<close>

definition put_last_ref :: "fuse_req \<Rightarrow> req_id \<Rightarrow> fuse_state \<Rightarrow> fuse_state" where
  "put_last_ref q r s =
     (let s2 = (if FR_BACKGROUND \<in> rq_flags q \<and> \<not> blocked s then emit Wake_blocked s else s)
      in if FR_WAITING \<in> rq_flags q then waiting_dec (upd_req r (clear_flag FR_WAITING) s2) else s2)"

definition fuse_put_request :: "fuse_state \<Rightarrow> req_id \<Rightarrow> fuse_state option" where
  "fuse_put_request s r =
     (case reqs s r of None \<Rightarrow> None
      | Some q \<Rightarrow>
         let s1 = upd_req r (rq_count_update (\<lambda>n. n - 1)) s in
         if rq_count q \<noteq> 1 then Some s1
         else
           let s3 = put_last_ref q r s1
           in if rq_stolen_file q \<noteq> None then put_reserved_req s3 r else fuse_request_free s3 r)"

subsection \<open>The accounting of waiting requests\<close>

definition waiting_reqs :: "fuse_state \<Rightarrow> req_id set" where
  "waiting_reqs s = {r. \<exists>q. reqs s r = Some q \<and> FR_WAITING \<in> rq_flags q}"

text \<open>
  \<open>k\<close> threads sleep in \<open>__fuse_get_req\<close> or \<open>fuse_get_req_nofail_nopages\<close>; identifiers at and
  above \<open>next_id\<close> are fresh.
\<close>

definition waiting_inv :: "int \<Rightarrow> fuse_state \<Rightarrow> bool" where
  "waiting_inv k s \<longleftrightarrow> finite (dom (reqs s)) \<and> (\<forall>r \<ge> next_id s. reqs s r = None) \<and>
     num_waiting s = k + int (card (waiting_reqs s))"

lemma waiting_reqs_finite: "finite (dom (reqs s)) \<Longrightarrow> finite (waiting_reqs s)"
  by (rule finite_subset [of _ "dom (reqs s)"]) (auto simp: waiting_reqs_def)

lemma waiting_reqs_cong: "reqs s = reqs t \<Longrightarrow> waiting_reqs s = waiting_reqs t"
  by (simp add: waiting_reqs_def)

lemma waiting_reqs_upd_req:
  "reqs s r = Some q \<Longrightarrow> waiting_reqs (upd_req r f s) =
     (if FR_WAITING \<in> rq_flags (f q) then insert r (waiting_reqs s) else waiting_reqs s - {r})"
  by (auto simp: waiting_reqs_def split: if_splits)

lemma waiting_reqs_store:
  "waiting_reqs (s\<lparr>reqs := (reqs s)(r \<mapsto> q), next_id := n\<rparr>) =
     (if FR_WAITING \<in> rq_flags q then insert r (waiting_reqs s) else waiting_reqs s - {r})"
  by (auto simp: waiting_reqs_def split: if_splits)

lemma waiting_reqs_free: "waiting_reqs (s\<lparr>reqs := (reqs s)(r := None)\<rparr>) = waiting_reqs s - {r}"
  by (auto simp: waiting_reqs_def split: if_splits)

lemma dom_upd_req [simp]: "dom (reqs (upd_req r f s)) = dom (reqs s)"
  by (auto simp: dom_def)

lemma waiting_reqs_counter [simp]:
  "waiting_reqs (waiting_dec s) = waiting_reqs s"
  "waiting_reqs (waiting_inc s) = waiting_reqs s"
  by (simp_all add: waiting_reqs_def waiting_dec_def waiting_inc_def)

lemma waiting_mem_iff: "reqs s r = Some q \<Longrightarrow> r \<in> waiting_reqs s \<longleftrightarrow> FR_WAITING \<in> rq_flags q"
  by (simp add: waiting_reqs_def)

lemma waiting_absent: "reqs s r = None \<Longrightarrow> r \<notin> waiting_reqs s"
  by (simp add: waiting_reqs_def)

text \<open>An update of a live request that keeps \<open>FR_WAITING\<close> as it is keeps the invariant.\<close>

lemma waiting_inv_upd_same:
  assumes "waiting_inv k s" and "\<And>q. reqs s r = Some q \<Longrightarrow> FR_WAITING \<in> rq_flags (f q) \<longleftrightarrow> FR_WAITING \<in> rq_flags q"
  shows "waiting_inv k (upd_req r f s)"
proof -
  have "waiting_reqs (upd_req r f s) = waiting_reqs s"
    using assms(2) by (auto simp: waiting_reqs_def split: if_splits)
  with assms(1) show ?thesis by (simp add: waiting_inv_def)
qed

lemma waiting_inv_cong:
  "waiting_inv k s \<Longrightarrow> reqs t = reqs s \<Longrightarrow> next_id t = next_id s \<Longrightarrow> num_waiting t = num_waiting s
    \<Longrightarrow> waiting_inv k t"
  by (simp add: waiting_inv_def waiting_reqs_cong [of t s])

lemma waiting_inv_frame [simp]:
  "waiting_inv k (emit e s) = waiting_inv k s"
  "waiting_inv k (upd_ff i h s) = waiting_inv k s"
  "waiting_inv k (upd_filp i g s) = waiting_inv k s"
  "waiting_inv k (upd_dev d p s) = waiting_inv k s"
  "waiting_inv k (list_del r s) = waiting_inv k s"
  "waiting_inv k (intr_del r s) = waiting_inv k s"
  by (auto elim!: waiting_inv_cong)

lemma waiting_inv_inc: "waiting_inv k s \<Longrightarrow> waiting_inv (k + 1) (waiting_inc s)"
  by (simp add: waiting_inv_def waiting_inc_def waiting_reqs_def)

lemma waiting_inv_dec: "waiting_inv (k + 1) s \<Longrightarrow> waiting_inv k (waiting_dec s)"
  by (simp add: waiting_inv_def waiting_dec_def waiting_reqs_def)

text \<open>A request that gains the bit is one sleeper less, or one more for \<open>num_waiting\<close>.\<close>

lemma waiting_inv_set:
  assumes inv: "waiting_inv (k + 1) s" and q: "reqs s r = Some q"
    and "FR_WAITING \<notin> rq_flags q" and "FR_WAITING \<in> rq_flags (f q)"
  shows "waiting_inv k (upd_req r f s)"
proof -
  have "r \<notin> waiting_reqs s" using assms by (simp add: waiting_mem_iff)
  with assms show ?thesis
    by (auto simp: waiting_inv_def waiting_reqs_upd_req waiting_reqs_finite)
qed

lemma waiting_inv_clear:
  assumes inv: "waiting_inv k s" and q: "reqs s r = Some q"
    and "FR_WAITING \<in> rq_flags q" and "FR_WAITING \<notin> rq_flags (f q)"
  shows "waiting_inv k (waiting_dec (upd_req r f s))"
proof -
  have "r \<in> waiting_reqs s" using assms by (simp add: waiting_mem_iff)
  moreover from inv have "finite (waiting_reqs s)" by (simp add: waiting_inv_def waiting_reqs_finite)
  ultimately have "card (waiting_reqs s) = Suc (card (waiting_reqs s - {r}))"
    by (rule card_remove_mem [rotated])
  moreover have "waiting_reqs (waiting_dec (upd_req r f s)) = waiting_reqs s - {r}"
    using assms by (simp add: waiting_reqs_upd_req)
  ultimately show ?thesis
    using inv by (simp add: waiting_inv_def waiting_dec_def)
qed

lemma waiting_inv_free:
  assumes "waiting_inv k s" and "reqs s r = Some q" and "FR_WAITING \<notin> rq_flags q"
  shows "waiting_inv k (s\<lparr>reqs := (reqs s)(r := None)\<rparr>)"
proof -
  have "r \<notin> waiting_reqs s" using assms by (simp add: waiting_mem_iff)
  with assms(1) show ?thesis
    by (auto simp: waiting_inv_def waiting_reqs_free)
qed

lemma waiting_inv_alloc:
  assumes "waiting_inv k s" and "fuse_request_alloc ok n s = (res, s')"
  shows "waiting_inv k s'"
  using assms
  by (auto simp: fuse_request_alloc_def waiting_inv_def waiting_reqs_store fuse_request_init_def
      waiting_absent split: if_splits)

lemma fuse_request_alloc_Some:
  assumes "fuse_request_alloc ok n s = (Some r, s')"
  shows "r = next_id s" and "reqs s' r = Some (fuse_request_init n)"
    and "s' = s\<lparr>reqs := (reqs s)(r \<mapsto> fuse_request_init n), next_id := Suc r\<rparr>"
  using assms by (auto simp: fuse_request_alloc_def split: if_splits)

lemma fuse_request_alloc_None: "fuse_request_alloc ok n s = (None, s') \<Longrightarrow> s' = s"
  by (auto simp: fuse_request_alloc_def split: if_splits)

lemma get_req_resume_waiting:
  assumes inv: "waiting_inv (k + 1) s"
    and res: "get_req_resume ok cur n bg killed s = (res, s')"
  shows "waiting_inv (k + of_bool (res = Asleep)) s'"
proof (cases "fuse_block_alloc s bg \<or> \<not> connected s \<or> Conn_error \<in> fc_bits s")
  case True
  then show ?thesis
    using inv res waiting_inv_dec [OF inv]
    by (auto simp: get_req_resume_def split: if_splits)
next
  case False
  obtain ro s1 where alloc: "fuse_request_alloc ok n s = (ro, s1)" by force
  have inv1: "waiting_inv (k + 1) s1" using inv alloc by (rule waiting_inv_alloc)
  show ?thesis
  proof (cases ro)
    case None
    then show ?thesis
      using False res alloc waiting_inv_dec [OF inv1]
        waiting_inv_dec [of k "emit Wake_blocked s1"] inv1
      by (auto simp: get_req_resume_def split: if_splits)
  next
    case (Some r)
    note al = fuse_request_alloc_Some [OF alloc [unfolded Some]]
    show ?thesis
      using False res alloc Some al(2) waiting_inv_set [OF inv1 al(2)]
      by (auto simp: get_req_resume_def fuse_request_init_def split: if_splits)
  qed
qed


lemma fuse_get_req_common_waiting:
  assumes "waiting_inv k s" and "fuse_get_req_common ok cur n bg killed s = (res, s')"
  shows "waiting_inv (k + of_bool (res = Asleep)) s'"
  using get_req_resume_waiting [OF waiting_inv_inc [OF assms(1)]] assms(2)
  by (simp add: fuse_get_req_common_def)

lemma put_reserved_req_waiting:
  assumes "waiting_inv k s" and "reqs s r = Some q" and "FR_WAITING \<notin> rq_flags q"
    and "put_reserved_req s r = Some s'"
  shows "waiting_inv k s'"
proof -
  have "waiting_inv k (upd_req r (\<lambda>q. fuse_request_init (rq_max_pages q)) s)"
    using assms(1,2,3) by (intro waiting_inv_upd_same) (auto simp: fuse_request_init_def)
  with assms(4) show ?thesis
    by (auto simp: put_reserved_req_def bind_Some_iff split: if_splits)
qed

lemma fuse_put_request_waiting:
  assumes inv: "waiting_inv k s" and res: "fuse_put_request s r = Some s'"
  shows "waiting_inv k s'"
proof -
  obtain q where q: "reqs s r = Some q"
    using res by (auto simp: fuse_put_request_def split: option.splits)
  define s1 where "s1 = upd_req r (rq_count_update (\<lambda>n. n - 1)) s"
  define s2 where "s2 = (if FR_BACKGROUND \<in> rq_flags q \<and> \<not> blocked s1 then emit Wake_blocked s1 else s1)"
  define s3 where "s3 = (if FR_WAITING \<in> rq_flags q
    then waiting_dec (upd_req r (clear_flag FR_WAITING) s2) else s2)"
  have inv1: "waiting_inv k s1"
    unfolding s1_def by (rule waiting_inv_upd_same [OF inv]) simp
  have q1: "reqs s1 r = Some (rq_count_update (\<lambda>n. n - 1) q)" by (simp add: s1_def q)
  have inv2: "waiting_inv k s2" using inv1 by (simp add: s2_def)
  have q2: "reqs s2 r = Some (rq_count_update (\<lambda>n. n - 1) q)" by (simp add: s2_def q1)
  have inv3: "waiting_inv k s3"
  proof (cases "FR_WAITING \<in> rq_flags q")
    case True
    then show ?thesis
      using waiting_inv_clear [OF inv2 q2, of "clear_flag FR_WAITING"] by (simp add: s3_def)
  next
    case False
    then show ?thesis using inv2 by (simp add: s3_def)
  qed
  obtain q3 where q3: "reqs s3 r = Some q3" and w3: "FR_WAITING \<notin> rq_flags q3"
    by (cases "FR_WAITING \<in> rq_flags q") (auto simp: s3_def q2 waiting_dec_def)
  have step: "fuse_put_request s r = (if rq_count q \<noteq> 1 then Some s1
      else if rq_stolen_file q \<noteq> None then put_reserved_req s3 r else fuse_request_free s3 r)"
    by (simp add: fuse_put_request_def put_last_ref_def q s1_def s2_def s3_def Let_def)
  show ?thesis
    using res inv1 put_reserved_req_waiting [OF inv3 q3 w3] waiting_inv_free [OF inv3 q3 w3]
    by (auto simp: step fuse_request_free_def q3 split: if_splits)
qed

text \<open>A refused request leaves nothing behind: only a wake-up of the next waiter can remain.\<close>

lemma fuse_get_req_error_clean:
  assumes "fuse_get_req_common ok cur n bg killed s = (Err e, s')"
  shows "s' = s \<or> (e = - ENOMEM \<and> s' = emit Wake_blocked s)"
  using assms
  by (auto simp: fuse_get_req_common_def get_req_resume_def waiting_inc_def waiting_dec_def emit_def
      fuse_request_alloc_def split: if_splits)

text \<open>Getting a request and dropping it again is neutral: the request is freed, the counter back.\<close>

lemma fuse_get_put_neutral:
  assumes fresh: "reqs s (next_id s) = None"
    and get: "fuse_get_req_common ok cur n bg killed s = (Got r, s1)"
  shows "\<exists>s2. fuse_put_request s1 r = Some s2 \<and> reqs s2 = reqs s \<and> num_waiting s2 = num_waiting s"
proof -
  have "r = next_id s"
    and s1: "reqs s1 r = Some (mark_new cur bg (fuse_request_init n))"
    and other: "\<And>x. x \<noteq> r \<Longrightarrow> reqs s1 x = reqs s x"
    and nw: "num_waiting s1 = num_waiting s + 1"
    using get by (auto simp: fuse_get_req_common_def get_req_resume_def fuse_request_alloc_def
        waiting_inc_def split: if_splits)
  with fresh show ?thesis
    by (auto simp: fuse_put_request_def put_last_ref_def fuse_request_free_def s1 fuse_request_init_def
        waiting_dec_def Let_def fun_eq_iff)
qed

text \<open>
  A reserved request waits outside the accounting: it is alive, is not counted and nobody else
  holds it. Taking it counts it, and the last \<open>fuse_put_request\<close> puts it back.
\<close>

definition reserved_inv :: "fuse_state \<Rightarrow> bool" where
  "reserved_inv s \<longleftrightarrow> (\<forall>i ff r. ffs s i = Some ff \<longrightarrow> ff_reserved_req ff = Some r \<longrightarrow>
     (\<exists>q. reqs s r = Some q \<and> rq_flags q = {FR_PENDING} \<and> rq_count q = 1 \<and> rq_stolen_file q = None))"

lemma get_reserved_reqE:
  assumes "get_reserved_req s file = Some (Some r, s')"
  obtains i ff where "file_ff s file = Some i" and "ffs s i = Some ff" and "ff_reserved_req ff = Some r"
    and "reqs s r \<noteq> None"
    and "s' = upd_req r (rq_stolen_file_update (\<lambda>_. Some file))
        (upd_filp file (f_count_update (\<lambda>n. n + 1)) (upd_ff i (ff_reserved_req_update (\<lambda>_. None)) s))"
  using assms
  by (auto simp: get_reserved_req_def bind_Some_iff split: option.splits if_splits)

lemma get_reserved_req_None: "get_reserved_req s file = Some (None, s') \<Longrightarrow> s' = s"
  by (auto simp: get_reserved_req_def elim!: bind_Some_E split: option.split_asm)

lemma get_req_nofail_waiting:
  assumes inv: "waiting_inv (k + 1) s" and rinv: "reserved_inv s"
    and res: "get_req_nofail_resume ok cur file s = Some (g, s')"
  shows "waiting_inv (k + of_bool (g = Asleep)) s'"
proof (cases "initialized s")
  case False
  then show ?thesis using res inv by (auto simp: get_req_nofail_resume_def)
next
  case True
  have wait_f: "FR_WAITING \<in> rq_flags (mark_nofail cur q)" for q by simp
  obtain ro s1 where alloc: "fuse_request_alloc ok 0 s = (ro, s1)" by force
  have inv1: "waiting_inv (k + 1) s1" using inv alloc by (rule waiting_inv_alloc)
  show ?thesis
  proof (cases ro)
    case (Some r)
    note al = fuse_request_alloc_Some [OF alloc [unfolded Some]]
    show ?thesis
      using True res alloc Some waiting_inv_set [OF inv1 al(2) _ wait_f]
      by (auto simp: get_req_nofail_resume_def fuse_request_init_def)
  next
    case None
    then have s1: "s1 = s" using alloc fuse_request_alloc_None by blast
    show ?thesis
    proof (cases "\<exists>s2. get_reserved_req s file = Some (None, s2)")
      case True': True
      then have "get_reserved_req s file = Some (None, s)"
        using get_reserved_req_None by blast
      then show ?thesis
        using True res alloc None s1 inv by (auto simp: get_req_nofail_resume_def)
    next
      case False
      then obtain r s2 where g: "get_reserved_req s file = Some (Some r, s2)"
        using True res alloc None s1
        by (auto simp: get_req_nofail_resume_def bind_Some_iff split: option.splits)
      from g obtain i ff where ff: "ffs s i = Some ff" "ff_reserved_req ff = Some r"
        and s2: "s2 = upd_req r (rq_stolen_file_update (\<lambda>_. Some file))
          (upd_filp file (f_count_update (\<lambda>n. n + 1)) (upd_ff i (ff_reserved_req_update (\<lambda>_. None)) s))"
        by (elim get_reserved_reqE)
      from rinv ff obtain q where q: "reqs s r = Some q" "rq_flags q = {FR_PENDING}"
        unfolding reserved_inv_def by blast
      have inv2: "waiting_inv (k + 1) s2"
        unfolding s2 by (rule waiting_inv_upd_same) (use inv in simp_all)
      have q2: "reqs s2 r = Some (q\<lparr>rq_stolen_file := Some file\<rparr>)" by (simp add: s2 q)
      show ?thesis
        using True res alloc None s1 g waiting_inv_set [OF inv2 q2 _ wait_f] q(2)
        by (auto simp: get_req_nofail_resume_def)
    qed
  qed
qed

text \<open>The reserved request goes out and comes back: no memory is needed and none is lost.\<close>

lemma reserved_roundtrip:
  assumes rinv: "reserved_inv s" and ff: "file_ff s file = Some i" "ffs s i = Some ff"
      "ff_reserved_req ff = Some r"
    and other: "\<And>j ffj. ffs s j = Some ffj \<Longrightarrow> ff_reserved_req ffj = Some r \<Longrightarrow> j = i"
    and oom: "\<not> ok 0" and init: "initialized s"
  shows "\<exists>s1 s2. fuse_get_req_nofail_nopages ok cur file s = Some (Got r, s1) \<and>
     fuse_put_request s1 r = Some s2 \<and> num_waiting s2 = num_waiting s \<and> ffs s2 = ffs s \<and>
     filps s2 = filps s \<and> reserved_inv s2"
proof -
  obtain q where q: "reqs s r = Some q" "rq_flags q = {FR_PENDING}" "rq_count q = 1"
      "rq_stolen_file q = None"
    using rinv ff unfolding reserved_inv_def by blast
  have al: "fuse_request_alloc ok 0 t = (None, t)" for t using oom by (simp add: fuse_request_alloc_def)
  have fp: "\<exists>p. filps s file = Some p \<and> private_data p = Some i"
    using ff(1) by (auto simp: file_ff_def bind_Some_iff split: if_splits)
  then obtain p where p: "filps s file = Some p" "private_data p = Some i" by blast
  let ?g = "mark_nofail cur"
  let ?s1 = "upd_req r ?g (upd_req r (rq_stolen_file_update (\<lambda>_. Some file))
        (upd_filp file (f_count_update (\<lambda>n. n + 1)) (upd_ff i (ff_reserved_req_update (\<lambda>_. None))
          (waiting_inc s))))"
  have get: "fuse_get_req_nofail_nopages ok cur file s = Some (Got r, ?s1)"
    using init ff q p
    by (auto simp: fuse_get_req_nofail_nopages_def get_req_nofail_resume_def al get_reserved_req_def
        file_ff_def waiting_inc_def)
  have q1: "reqs ?s1 r = Some (?g (q\<lparr>rq_stolen_file := Some file\<rparr>))"
    by (simp add: q waiting_inc_def)
  have cnt: "rq_count (?g (q\<lparr>rq_stolen_file := Some file\<rparr>)) = 1"
    "rq_stolen_file (?g (q\<lparr>rq_stolen_file := Some file\<rparr>)) = Some file"
    "rq_flags (?g (q\<lparr>rq_stolen_file := Some file\<rparr>)) = {FR_PENDING, FR_WAITING}"
    using q by auto
  have put: "\<exists>s2. fuse_put_request ?s1 r = Some s2 \<and> num_waiting s2 = num_waiting s \<and>
      ffs s2 = ffs s \<and> filps s2 = filps s \<and>
      (\<forall>x. x \<noteq> r \<longrightarrow> reqs s2 x = reqs s x) \<and> (\<exists>n. reqs s2 r = Some (fuse_request_init n))"
    using ff p cnt q
    by (auto simp: fuse_put_request_def put_last_ref_def q1 Let_def put_reserved_req_def file_ff_def waiting_inc_def
        waiting_dec_def fun_eq_iff)
  then obtain s2 where s2: "fuse_put_request ?s1 r = Some s2" "num_waiting s2 = num_waiting s"
      "ffs s2 = ffs s" "filps s2 = filps s" "\<And>x. x \<noteq> r \<Longrightarrow> reqs s2 x = reqs s x"
      "\<exists>n. reqs s2 r = Some (fuse_request_init n)" by blast
  have "reserved_inv s2"
    unfolding reserved_inv_def
  proof (intro allI impI)
    fix j ffj x
    assume j: "ffs s2 j = Some ffj" "ff_reserved_req ffj = Some x"
    show "\<exists>q. reqs s2 x = Some q \<and> rq_flags q = {FR_PENDING} \<and> rq_count q = 1 \<and>
        rq_stolen_file q = None"
    proof (cases "x = r")
      case True
      then show ?thesis using s2(6) by (auto simp: fuse_request_init_def)
    next
      case False
      then show ?thesis using j rinv s2(3,5) by (simp add: reserved_inv_def)
    qed
  qed
  with get s2 show ?thesis by blast
qed

text \<open>What \<open>fuse_put_request\<close> changes: the request itself, and nothing of the queues.\<close>

lemma put_reserved_req_reqs:
  assumes "put_reserved_req s r = Some s'"
  shows "reqs s' = reqs (upd_req r (\<lambda>q. fuse_request_init (rq_max_pages q)) s)"
  using assms by (auto simp: put_reserved_req_def bind_Some_iff fun_eq_iff split: if_split_asm)

lemma put_reserved_req_rest:
  assumes "put_reserved_req s r = Some s'"
  shows "\<exists>R F P E. s' = s\<lparr>reqs := R, ffs := F, filps := P, events := E\<rparr>"
proof -
  from assms obtain f i where "s' = upd_filp f (f_count_update (\<lambda>n. n - 1)) (emit Wake_all_reserved
      (upd_ff i (ff_reserved_req_update (\<lambda>_. Some r))
        (upd_req r (\<lambda>q. fuse_request_init (rq_max_pages q)) s)))"
    by (auto simp: put_reserved_req_def bind_Some_iff split: if_split_asm)
  then have "s' = s\<lparr>reqs := reqs s', ffs := ffs s', filps := filps s', events := events s'\<rparr>"
    by (simp add: upd_filp_def emit_def upd_ff_def upd_req_def)
  then show ?thesis by blast
qed

lemma put_last_ref_rest:
  "\<exists>R N E. put_last_ref q r s = s\<lparr>reqs := R, num_waiting := N, events := E\<rparr>"
proof -
  have "put_last_ref q r s = s\<lparr>reqs := reqs (put_last_ref q r s),
     num_waiting := num_waiting (put_last_ref q r s), events := events (put_last_ref q r s)\<rparr>"
    by (simp add: put_last_ref_def Let_def emit_def waiting_dec_def upd_req_def)
  then show ?thesis by blast
qed

lemma put_last_ref_reqs: "x \<noteq> r \<Longrightarrow> reqs (put_last_ref q r s) x = reqs s x"
  by (simp add: put_last_ref_def Let_def waiting_dec_def)

text \<open>The three ways a reference is dropped.\<close>

lemma fuse_put_request_elim:
  assumes "fuse_put_request s r = Some s'"
  obtains (shared) q where "reqs s r = Some q" and "rq_count q \<noteq> 1"
      and "s' = upd_req r (rq_count_update (\<lambda>n. n - 1)) s"
  | (returned) q where "reqs s r = Some q" and "rq_count q = 1" and "rq_stolen_file q \<noteq> None"
      and "put_reserved_req (put_last_ref q r (upd_req r (rq_count_update (\<lambda>n. n - 1)) s)) r = Some s'"
  | (freed) q where "reqs s r = Some q" and "rq_count q = 1" and "rq_stolen_file q = None"
      and "fuse_request_free (put_last_ref q r (upd_req r (rq_count_update (\<lambda>n. n - 1)) s)) r = Some s'"
proof -
  obtain q where q: "reqs s r = Some q"
    using assms by (cases "reqs s r") (simp_all add: fuse_put_request_def)
  have step: "fuse_put_request s r =
      (if rq_count q \<noteq> 1 then Some (upd_req r (rq_count_update (\<lambda>n. n - 1)) s)
       else if rq_stolen_file q \<noteq> None
       then put_reserved_req (put_last_ref q r (upd_req r (rq_count_update (\<lambda>n. n - 1)) s)) r
       else fuse_request_free (put_last_ref q r (upd_req r (rq_count_update (\<lambda>n. n - 1)) s)) r)"
    by (simp add: fuse_put_request_def q Let_def)
  show ?thesis
  proof (cases "rq_count q = 1")
    case False
    then show ?thesis using assms shared [OF q] unfolding step by simp
  next
    case True
    then show ?thesis
      using assms returned [OF q True] freed [OF q True] unfolding step
      by (cases "rq_stolen_file q = None") simp_all
  qed
qed

lemma fuse_request_freeE:
  assumes "fuse_request_free s r = Some s'"
  shows "s' = s\<lparr>reqs := (reqs s)(r := None)\<rparr>" and "reqs s r \<noteq> None"
  using assms by (auto simp: fuse_request_free_def split: option.splits)

lemma fuse_put_request_rest:
  assumes "fuse_put_request s r = Some s'"
  shows "\<exists>R F P N E. s' = s\<lparr>reqs := R, ffs := F, filps := P, num_waiting := N, events := E\<rparr>"
proof -
  have s3: "\<exists>R N E. put_last_ref q r (upd_req r f s) = s\<lparr>reqs := R, num_waiting := N, events := E\<rparr>" for q f
  proof -
    obtain R N E where eq: "put_last_ref q r (upd_req r f s) =
        (upd_req r f s)\<lparr>reqs := R, num_waiting := N, events := E\<rparr>"
      using put_last_ref_rest by blast
    show ?thesis unfolding eq unfolding upd_req_def by (intro exI) simp
  qed
  from assms show ?thesis
  proof (cases rule: fuse_put_request_elim)
    case (shared q)
    then have "s' = s\<lparr>reqs := reqs s', ffs := ffs s, filps := filps s, num_waiting := num_waiting s,
        events := events s\<rparr>"
      by (simp add: upd_req_def)
    then show ?thesis by blast
  next
    case (returned q)
    let ?u = "put_last_ref q r (upd_req r (rq_count_update (\<lambda>n. n - 1)) s)"
    obtain R F P E where eq: "s' = ?u\<lparr>reqs := R, ffs := F, filps := P, events := E\<rparr>"
      using put_reserved_req_rest [OF returned(4)] by blast
    obtain R0 N0 E0 where u: "?u = s\<lparr>reqs := R0, num_waiting := N0, events := E0\<rparr>"
      using s3 by blast
    have "s' = s\<lparr>reqs := R, ffs := F, filps := P, num_waiting := N0, events := E\<rparr>"
      unfolding eq u by simp
    then show ?thesis by blast
  next
    case (freed q)
    let ?u = "put_last_ref q r (upd_req r (rq_count_update (\<lambda>n. n - 1)) s)"
    obtain R0 N0 E0 where u: "?u = s\<lparr>reqs := R0, num_waiting := N0, events := E0\<rparr>"
      using s3 by blast
    have "s' = s\<lparr>reqs := R0(r := None), ffs := ffs s, filps := filps s, num_waiting := N0, events := E0\<rparr>"
      unfolding fuse_request_freeE(1) [OF freed(4)] u by simp
    then show ?thesis by blast
  qed
qed

lemma fuse_put_request_frame:
  assumes "fuse_put_request s r = Some s'"
  shows "bg_queue s' = bg_queue s"
    and "num_background s' = num_background s"
    and "active_background s' = active_background s"
    and "max_background s' = max_background s"
    and "congestion_threshold s' = congestion_threshold s"
    and "bdi_congested s' = bdi_congested s"
    and "blocked s' = blocked s"
    and "connected s' = connected s"
    and "initialized s' = initialized s"
    and "iq s' = iq s"
    and "devs s' = devs s"
    and "devices s' = devices s"
    and "next_id s' = next_id s"
    and "fc_bits s' = fc_bits s"
    and "wire_size s' = wire_size s"
    and "glob s' = glob s"
    and "minor s' = minor s"
    and "khctr s' = khctr s"
    and "max_read s' = max_read s"
    and "max_write s' = max_write s"
    and "sb_time_gran s' = sb_time_gran s"
    and "dev_count s' = dev_count s"
    and "fc_count s' = fc_count s"
    and "attr_version s' = attr_version s"
proof -
  obtain R F P N E where "s' = s\<lparr>reqs := R, ffs := F, filps := P, num_waiting := N, events := E\<rparr>"
    using fuse_put_request_rest [OF assms] by blast
  then show "bg_queue s' = bg_queue s"
    "num_background s' = num_background s"
    "active_background s' = active_background s"
    "max_background s' = max_background s"
    "congestion_threshold s' = congestion_threshold s"
    "bdi_congested s' = bdi_congested s"
    "blocked s' = blocked s"
    "connected s' = connected s"
    "initialized s' = initialized s"
    "iq s' = iq s"
    "devs s' = devs s"
    "devices s' = devices s"
    "next_id s' = next_id s"
    "fc_bits s' = fc_bits s"
    "wire_size s' = wire_size s"
    "glob s' = glob s"
    "minor s' = minor s"
    "khctr s' = khctr s"
    "max_read s' = max_read s"
    "max_write s' = max_write s"
    "sb_time_gran s' = sb_time_gran s"
    "dev_count s' = dev_count s"
    "fc_count s' = fc_count s"
    "attr_version s' = attr_version s"
    by simp_all
qed

lemma fuse_put_request_cases:
  assumes "fuse_put_request s r = Some s'"
  obtains (shared) q where "reqs s r = Some q" and "rq_count q \<noteq> 1"
      and "reqs s' r = Some (q\<lparr>rq_count := rq_count q - 1\<rparr>)"
  | (freed) q where "reqs s r = Some q" and "rq_count q = 1" and "rq_stolen_file q = None"
      and "reqs s' r = None"
  | (returned) q n where "reqs s r = Some q" and "rq_count q = 1" and "rq_stolen_file q \<noteq> None"
      and "reqs s' r = Some (fuse_request_init n)"
  using assms
proof (cases rule: fuse_put_request_elim)
  case (shared q)
  then show ?thesis using that(1) by simp
next
  case (returned q)
  let ?u = "put_last_ref q r (upd_req r (rq_count_update (\<lambda>n. n - 1)) s)"
  have "reqs ?u r \<noteq> None"
    using returned(1) by (simp add: put_last_ref_def Let_def waiting_dec_def)
  then obtain q3 where "reqs ?u r = Some q3" by blast
  then show ?thesis
    using that(3) [OF returned(1-3)] put_reserved_req_reqs [OF returned(4)] by simp
next
  case (freed q)
  then show ?thesis using that(2) [OF freed(1-3)] fuse_request_freeE(1) [OF freed(4)] by simp
qed

lemma fuse_put_request_other:
  assumes "fuse_put_request s r = Some s'" and "x \<noteq> r"
  shows "reqs s' x = reqs s x"
  using assms(1)
proof (cases rule: fuse_put_request_elim)
  case (shared q)
  then show ?thesis using assms(2) by simp
next
  case (returned q)
  then show ?thesis using assms(2) put_reserved_req_reqs [OF returned(4)]
    by (simp add: put_last_ref_reqs)
next
  case (freed q)
  then show ?thesis using assms(2) fuse_request_freeE(1) [OF freed(4)]
    by (simp add: put_last_ref_reqs)
qed

end
