(* ===== verification/Fuse_Init.thy ===== *)
theory Fuse_Init
  imports Fuse_Request
begin

text \<open>
  Negotiation of a connection (\<open>inode.c\<close>): the initial values \<open>fuse_conn_init\<close> gives, the global
  limits of the module, and \<open>process_init_reply\<close>, the completion callback of the INIT request. The
  lemmas give the bounds the rest of the module relies on: \<open>max_write\<close> is at least a page, an
  unprivileged server cannot exceed the limits of the module, and a failed or mismatched reply
  changes nothing but the error bit.
\<close>

definition FUSE_DEFAULT_MAX_BACKGROUND :: u32 where "FUSE_DEFAULT_MAX_BACKGROUND = 12"
definition FUSE_DEFAULT_CONGESTION_THRESHOLD :: u32 where
  "FUSE_DEFAULT_CONGESTION_THRESHOLD = FUSE_DEFAULT_MAX_BACKGROUND * 3 div 4"

definition fuse_iqueue_init :: fuse_iqueue where
  "fuse_iqueue_init = \<lparr>iq_connected = True, reqctr = 0, pending = [], interrupts = [],
     forget_list = [], forget_batch = 0\<rparr>"

definition fuse_pqueue_init :: fuse_pqueue where
  "fuse_pqueue_init = \<lparr>pq_connected = True, processing = [], io_list = []\<rparr>"

text \<open>
  \<open>fuse_conn_init\<close>: the random bytes of the scramble key are an argument, and so is the rest of
  the kernel state the connection is created in.
\<close>

definition fuse_conn_init :: "u32 list \<Rightarrow> fuse_state \<Rightarrow> fuse_state" where
  "fuse_conn_init key s = s\<lparr>
     fc_count := 1, dev_count := 1, user_id := 0, group_id := 0, max_read := 0, max_write := 0,
     iq := fuse_iqueue_init, khctr := 0, max_background := FUSE_DEFAULT_MAX_BACKGROUND,
     congestion_threshold := FUSE_DEFAULT_CONGESTION_THRESHOLD,
     num_background := 0, active_background := 0, bg_queue := [], initialized := False,
     blocked := False, connected := True, fc_bits := {}, num_waiting := 0, minor := 0,
     ra_pages := 0, bdi_congested := False, scramble_key := key, destroy_req := None,
     attr_version := 1, sb_time_gran := None, devices := []\<rparr>"

subsection \<open>Global limits\<close>

definition sanitize_global_limit :: "module_globals \<Rightarrow> u32 \<Rightarrow> u32" where
  "sanitize_global_limit g limit =
     (let l = (if limit = 0
               then ucast (drop_bit 13 (push_bit PAGE_SHIFT (totalram_pages g)) div sizeof_fuse_req g)
               else limit)
      in if 2 ^ 16 \<le> l then 2 ^ 16 - 1 else l)"

text \<open>
  \<open>set_global_limit\<close>: the module parameter is parsed by \<open>param_set_uint\<close>, whose result is the
  argument (an errno or the number).
\<close>

definition set_global_limit :: "module_globals \<Rightarrow> int + u32 \<Rightarrow> u32 \<Rightarrow> int \<times> u32" where
  "set_global_limit g parsed old =
     (case parsed of Inl rv \<Rightarrow> (rv, old) | Inr v \<Rightarrow> (0, sanitize_global_limit g v))"

definition process_init_limits :: "fuse_init_out \<Rightarrow> fuse_state \<Rightarrow> fuse_state" where
  "process_init_limits arg s =
     (if io_minor arg < 13 then s
      else
        let g = glob s;
            bg = sanitize_global_limit g (max_user_bgreq g);
            ct = sanitize_global_limit g (max_user_congthresh g);
            s1 = s\<lparr>glob := g\<lparr>max_user_bgreq := bg, max_user_congthresh := ct\<rparr>\<rparr>;
            s2 = (if io_max_background arg \<noteq> 0
                  then s1\<lparr>max_background :=
                    (if \<not> cap_sys_admin g \<and> bg < io_max_background arg then bg
                     else io_max_background arg)\<rparr>
                  else s1)
        in if io_congestion_threshold arg \<noteq> 0
           then s2\<lparr>congestion_threshold :=
             (if \<not> cap_sys_admin g \<and> ct < io_congestion_threshold arg then ct
              else io_congestion_threshold arg)\<rparr>
           else s2)"

subsection \<open>The INIT reply\<close>

text \<open>The bits of the connection the flags of a reply of minor version 6 or later turn on.\<close>

definition init_reply_bits :: "u32 \<Rightarrow> init_flag set \<Rightarrow> fuse_conn_bit set" where
  "init_reply_bits mnr fl =
     (if FUSE_ASYNC_READ \<in> fl then {Async_read} else {}) \<union>
     (if FUSE_POSIX_LOCKS \<notin> fl then {No_lock} else {}) \<union>
     (if 17 \<le> mnr then (if FUSE_FLOCK_LOCKS \<notin> fl then {No_flock} else {})
      else (if FUSE_POSIX_LOCKS \<notin> fl then {No_flock} else {})) \<union>
     (if FUSE_ATOMIC_O_TRUNC \<in> fl then {Atomic_o_trunc} else {}) \<union>
     (if 9 \<le> mnr \<and> FUSE_EXPORT_SUPPORT \<in> fl then {Export_support} else {}) \<union>
     (if FUSE_BIG_WRITES \<in> fl then {Big_writes} else {}) \<union>
     (if FUSE_DONT_MASK \<in> fl then {Dont_mask} else {}) \<union>
     (if FUSE_AUTO_INVAL_DATA \<in> fl then {Auto_inval_data} else {}) \<union>
     (if FUSE_DO_READDIRPLUS \<in> fl
      then {Do_readdirplus} \<union> (if FUSE_READDIRPLUS_AUTO \<in> fl then {Readdirplus_auto} else {})
      else {}) \<union>
     (if FUSE_ASYNC_DIO \<in> fl then {Async_dio} else {}) \<union>
     (if FUSE_WRITEBACK_CACHE \<in> fl then {Writeback_cache} else {}) \<union>
     (if FUSE_PARALLEL_DIROPS \<in> fl then {Parallel_dirops} else {}) \<union>
     (if FUSE_HANDLE_KILLPRIV \<in> fl then {Handle_killpriv} else {}) \<union>
     (if FUSE_POSIX_ACL \<in> fl then {Default_permissions, Posix_acl} else {})"

text \<open>
  \<open>process_init_reply\<close>: \<open>err\<close> is \<open>req->out.h.error\<close> and \<open>arg\<close> the reply in \<open>req->misc.init_out\<close>. The
  superblock is dereferenced without a check when a time granularity or ACL support is
  negotiated: \<open>None\<close> is that NULL dereference.
\<close>

definition init_reply_needs_sb :: "fuse_init_out \<Rightarrow> bool" where
  "init_reply_needs_sb arg \<longleftrightarrow> 6 \<le> io_minor arg \<and>
     ((io_time_gran arg \<noteq> 0 \<and> io_time_gran arg \<le> 1000000000) \<or> FUSE_POSIX_ACL \<in> io_flags arg)"

definition init_reply_apply :: "fuse_init_out \<Rightarrow> fuse_state \<Rightarrow> fuse_state" where
  "init_reply_apply arg s0 =
     (let s = process_init_limits arg s0;
          bits = (if 6 \<le> io_minor arg then init_reply_bits (io_minor arg) (io_flags arg)
                  else {No_lock, No_flock});
          ra = (if 6 \<le> io_minor arg then unat (io_max_readahead arg) div PAGE_SIZE
                else unat (max_read s) div PAGE_SIZE);
          gran = (if 6 \<le> io_minor arg \<and> io_time_gran arg \<noteq> 0 \<and> io_time_gran arg \<le> 1000000000
                  then map_option (\<lambda>_. io_time_gran arg) (sb_time_gran s) else sb_time_gran s)
      in s\<lparr>fc_bits := fc_bits s \<union> bits \<union> {Conn_init},
           sb_time_gran := gran,
           ra_pages := min (ra_pages s) ra,
           minor := io_minor arg,
           max_write := max 4096 (if io_minor arg < 5 then 4096 else io_max_write arg)\<rparr>)"

definition process_init_reply :: "int \<Rightarrow> fuse_init_out \<Rightarrow> fuse_state \<Rightarrow> fuse_state option" where
  "process_init_reply err arg s =
     (if err \<noteq> 0 \<or> io_major arg \<noteq> kernel_version (glob s) then
        Some (emit Wake_all_blocked (fuse_set_initialized (s\<lparr>fc_bits := insert Conn_error (fc_bits s)\<rparr>)))
      else if init_reply_needs_sb arg \<and> sb_time_gran s = None then None
      else Some (emit Wake_all_blocked (fuse_set_initialized (init_reply_apply arg s))))"

text \<open>
  What \<open>misc.init_out\<close> reads as: the reply once it has been copied in; before that, the bytes of
  \<open>misc.init_in\<close> in the same union, whose four fields lie where those of \<open>init_out\<close> begin.
\<close>

definition misc_init_out :: "fuse_misc \<Rightarrow> fuse_init_out" where
  "misc_init_out m = (case m of
      Misc_init_out a \<Rightarrow> a
    | Misc_init_in i \<Rightarrow> \<lparr>io_major = ii_major i, io_minor = ii_minor i,
        io_max_readahead = ii_max_readahead i, io_flags = ii_flags i, io_max_background = 0,
        io_congestion_threshold = 0, io_max_write = 0, io_time_gran = 0\<rparr>
    | _ \<Rightarrow> \<lparr>io_major = 0, io_minor = 0, io_max_readahead = 0, io_flags = {}, io_max_background = 0,
        io_congestion_threshold = 0, io_max_write = 0, io_time_gran = 0\<rparr>)"

subsection \<open>Bounds\<close>

lemma sanitize_bound: "unat (sanitize_global_limit g l) < 2 ^ 16"
proof (cases "2 ^ 16 \<le> sanitize_global_limit g l")
  case False
  then have "sanitize_global_limit g l < (2 ^ 16 :: u32)" by simp
  then show ?thesis by (simp add: word_less_nat_alt)
next
  case True
  then show ?thesis
    by (auto simp: sanitize_global_limit_def Let_def word_le_nat_alt split: if_splits)
qed

lemma sanitize_idem:
  "sanitize_global_limit g l \<noteq> 0 \<Longrightarrow>
     sanitize_global_limit g (sanitize_global_limit g l) = sanitize_global_limit g l"
  using sanitize_bound [of g l]
  by (subst sanitize_global_limit_def) (auto simp: Let_def word_le_nat_alt)

lemma process_init_limits_frame [simp]:
  "reqs (process_init_limits a s) = reqs s"
  "next_id (process_init_limits a s) = next_id s"
  "num_waiting (process_init_limits a s) = num_waiting s"
  "num_background (process_init_limits a s) = num_background s"
  "active_background (process_init_limits a s) = active_background s"
  "bg_queue (process_init_limits a s) = bg_queue s"
  "iq (process_init_limits a s) = iq s"
  "devs (process_init_limits a s) = devs s"
  "ffs (process_init_limits a s) = ffs s"
  "filps (process_init_limits a s) = filps s"
  "blocked (process_init_limits a s) = blocked s"
  "connected (process_init_limits a s) = connected s"
  "fc_bits (process_init_limits a s) = fc_bits s"
  "wire_size (process_init_limits a s) = wire_size s"
  "devices (process_init_limits a s) = devices s"
  "events (process_init_limits a s) = events s"
  "fc_count (process_init_limits a s) = fc_count s"
  "dev_count (process_init_limits a s) = dev_count s"
  by (simp_all add: process_init_limits_def Let_def)

lemma init_limits_unprivileged:
  assumes "\<not> cap_sys_admin (glob s)" and "13 \<le> io_minor arg" and "io_max_background arg \<noteq> 0"
  shows "max_background (process_init_limits arg s) =
      min (io_max_background arg) (sanitize_global_limit (glob s) (max_user_bgreq (glob s)))"
    and "unat (max_background (process_init_limits arg s)) < 2 ^ 16"
proof -
  have nlt: "\<not> io_minor arg < 13" using assms(2) by simp
  show eq: "max_background (process_init_limits arg s) =
      min (io_max_background arg) (sanitize_global_limit (glob s) (max_user_bgreq (glob s)))"
    using assms(1,3) nlt by (auto simp: process_init_limits_def Let_def min_def dest: leD)
  have "unat (min (io_max_background arg) (sanitize_global_limit (glob s) (max_user_bgreq (glob s))))
      \<le> unat (sanitize_global_limit (glob s) (max_user_bgreq (glob s)))"
    by (simp add: min_def word_le_nat_alt)
  then show "unat (max_background (process_init_limits arg s)) < 2 ^ 16"
    unfolding eq using sanitize_bound by (rule le_less_trans)
qed

lemma init_apply_max_write: "4096 \<le> max_write (init_reply_apply arg s)"
  by (simp add: init_reply_apply_def Let_def)

lemma init_reply_apply_frame [simp]:
  "reqs (init_reply_apply a s) = reqs s"
  "next_id (init_reply_apply a s) = next_id s"
  "num_waiting (init_reply_apply a s) = num_waiting s"
  "num_background (init_reply_apply a s) = num_background s"
  "active_background (init_reply_apply a s) = active_background s"
  "bg_queue (init_reply_apply a s) = bg_queue s"
  "iq (init_reply_apply a s) = iq s"
  "devs (init_reply_apply a s) = devs s"
  "ffs (init_reply_apply a s) = ffs s"
  "filps (init_reply_apply a s) = filps s"
  "blocked (init_reply_apply a s) = blocked s"
  "connected (init_reply_apply a s) = connected s"
  "wire_size (init_reply_apply a s) = wire_size s"
  "devices (init_reply_apply a s) = devices s"
  "events (init_reply_apply a s) = events s"
  "fc_count (init_reply_apply a s) = fc_count s"
  "dev_count (init_reply_apply a s) = dev_count s"
  by (simp_all add: init_reply_apply_def Let_def)

lemma process_init_reply_initialized:
  "process_init_reply err arg s = Some s' \<Longrightarrow> initialized s'"
  by (auto simp: process_init_reply_def fuse_set_initialized_def split: if_splits)

lemma process_init_reply_frame:
  assumes "process_init_reply err arg s = Some s'"
  shows "reqs s' = reqs s" and "next_id s' = next_id s" and "num_waiting s' = num_waiting s"
    and "num_background s' = num_background s" and "active_background s' = active_background s"
    and "bg_queue s' = bg_queue s" and "iq s' = iq s" and "devs s' = devs s" and "ffs s' = ffs s"
    and "filps s' = filps s" and "blocked s' = blocked s" and "connected s' = connected s"
    and "wire_size s' = wire_size s" and "devices s' = devices s"
  using assms
  by (auto simp: process_init_reply_def fuse_set_initialized_def split: if_split_asm)

end
