(* ===== verification/Example_State.thy ===== *)
theory Example_State
  imports Fuse_Init
begin

text \<open>
  Concrete states the witnesses evaluate the properties on: a fresh connection as
  \<open>fuse_conn_init\<close> leaves it, with and without the answer to INIT, and with some requests and a
  device. The wire sizes are those of the 64-bit protocol.
\<close>

definition example_wire :: "wire \<Rightarrow> nat" where
  "example_wire w = (case w of
      W_in_header \<Rightarrow> 40 | W_out_header \<Rightarrow> 16 | W_forget_in \<Rightarrow> 8 | W_forget_one \<Rightarrow> 16
    | W_batch_forget_in \<Rightarrow> 8 | W_interrupt_in \<Rightarrow> 8 | W_entry_out \<Rightarrow> 128 | W_attr_out \<Rightarrow> 104
    | W_notify_poll_wakeup_out \<Rightarrow> 8 | W_notify_inval_inode_out \<Rightarrow> 24
    | W_notify_inval_entry_out \<Rightarrow> 16 | W_notify_delete_out \<Rightarrow> 24 | W_notify_store_out \<Rightarrow> 24
    | W_notify_retrieve_out \<Rightarrow> 32 | W_notify_retrieve_in \<Rightarrow> 40 | W_dirent \<Rightarrow> 24
    | W_direntplus \<Rightarrow> 152 | W_compat_statfs \<Rightarrow> 48 | W_compat_entry_out \<Rightarrow> 120
    | W_compat_attr_out \<Rightarrow> 96 | W_compat_mknod_in \<Rightarrow> 8 | W_compat_write_in \<Rightarrow> 24 | _ \<Rightarrow> 32)"

definition example_globals :: module_globals where
  "example_globals = \<lparr>max_user_bgreq = 0, max_user_congthresh = 0, cap_sys_admin = False,
     totalram_pages = 262144, sizeof_fuse_req = 392, kernel_version = 7, kernel_minor = 26\<rparr>"

definition example_blank :: fuse_state where
  "example_blank = \<lparr>fc_count = 0, dev_count = 0, user_id = 0, group_id = 0, max_read = 0,
     max_write = 0, iq = fuse_iqueue_init, khctr = 0, max_background = 0, congestion_threshold = 0,
     num_background = 0, active_background = 0, bg_queue = [], initialized = False,
     blocked = False, connected = False, fc_bits = {}, num_waiting = 0, minor = 0, ra_pages = 0,
     bdi_congested = False, scramble_key = [], destroy_req = None, attr_version = 0,
     sb_time_gran = None, devices = [], reqs = (\<lambda>_. None), devs = (\<lambda>_. None),
     ffs = (\<lambda>_. None), filps = (\<lambda>_. None), next_id = 0, wire_size = example_wire, events = [],
     glob = example_globals\<rparr>"

definition example_new :: fuse_state where
  "example_new = fuse_conn_init [1, 2, 3, 4] example_blank"

text \<open>The connection after INIT, with one device (identifier 100) and no request.\<close>

definition example_conn :: fuse_state where
  "example_conn = example_new\<lparr>initialized := True, minor := 26, max_write := 4096,
     devices := [100], devs := (\<lambda>_. None)(100 \<mapsto> \<lparr>dev_pq = fuse_pqueue_init\<rparr>), next_id := 101\<rparr>"

text \<open>A store of requests.\<close>

definition with_reqs :: "(req_id \<times> fuse_req) list \<Rightarrow> fuse_state \<Rightarrow> fuse_state" where
  "with_reqs rs s = s\<lparr>reqs := map_of rs\<rparr>"

definition req_with :: "fuse_req_flag set \<Rightarrow> fuse_req" where
  "req_with fl = (fuse_request_init 0)\<lparr>rq_flags := fl\<rparr>"

lemmas example_defs = example_wire_def example_globals_def example_blank_def example_new_def
  example_conn_def with_reqs_def req_with_def fuse_request_init_def fuse_conn_init_def
  fuse_iqueue_init_def fuse_pqueue_init_def zero_in_def zero_out_def

end
