(* ===== verification/Fuse_Queue.thy ===== *)
theory Fuse_Queue
  imports Example_State
begin

text \<open>
  The input queue and the background queue (\<open>dev.c\<close>): queueing of requests and forgets,
  \<open>flush_bg_queue\<close>, completion in \<open>request_end\<close>, interrupts, and the ways a request is sent:
  synchronously with \<open>fuse_request_send\<close> and its wait for the answer, in the background, or as
  the reply to a notification.

  \<^item> Each definition is one critical section under the lock the source takes, or a sequence of
    critical sections of one thread with nothing in between that sleeps.
  \<^item> A thread in \<open>request_wait_answer\<close> is in one of the phases of \<open>wait_phase\<close>; one evaluation of
    \<open>request_wait_answer\<close> is one pass of the scheduler over it.
  The invariants are \<open>bg_inv\<close> (the two background counters count the requests they are meant to
  count) and \<open>blocked_inv\<close> (the connection is blocked exactly at its limit).
\<close>

subsection \<open>Queueing\<close>

definition len_args :: "fuse_arg list \<Rightarrow> nat" where
  "len_args args = foldl (\<lambda>nbytes a. (nbytes + arg_size a) mod 2 ^ 32) 0 args"

definition fuse_get_unique :: "fuse_iqueue \<Rightarrow> u64 \<times> fuse_iqueue" where
  "fuse_get_unique fiq = (let n = reqctr fiq + 1 in (n, fiq\<lparr>reqctr := n\<rparr>))"

definition set_in_len :: "nat \<Rightarrow> fuse_req \<Rightarrow> fuse_req" where
  "set_in_len n q = q\<lparr>rq_in := (rq_in q)\<lparr>in_h := (in_h (rq_in q))\<lparr>ih_len := n\<rparr>\<rparr>\<rparr>"

definition set_in_unique :: "u64 \<Rightarrow> fuse_req \<Rightarrow> fuse_req" where
  "set_in_unique u q = q\<lparr>rq_in := (rq_in q)\<lparr>in_h := (in_h (rq_in q))\<lparr>ih_unique := u\<rparr>\<rparr>\<rparr>"

definition in_len :: "fuse_state \<Rightarrow> fuse_req \<Rightarrow> nat" where
  "in_len s q = (wire_size s W_in_header + len_args (in_args (rq_in q))) mod 2 ^ 32"

definition queue_request :: "req_id \<Rightarrow> fuse_state \<Rightarrow> fuse_state" where
  "queue_request r s =
     emit Kill_fasync (emit Wake_reader
       ((upd_req r (\<lambda>q. set_in_len (in_len s q) q) s)
          \<lparr>iq := (iq s)\<lparr>pending := pending (iq s) @ [r]\<rparr>\<rparr>))"

text \<open>Assign the next unique identifier to a request and queue it, under \<open>fiq->waitq.lock\<close>.\<close>

definition queue_unique :: "req_id \<Rightarrow> fuse_state \<Rightarrow> fuse_state" where
  "queue_unique r s =
     (let (u, fiq) = fuse_get_unique (iq s)
      in queue_request r (upd_req r (set_in_unique u) (s\<lparr>iq := fiq\<rparr>)))"

definition fuse_queue_forget :: "u64 \<Rightarrow> u64 \<Rightarrow> fuse_state \<Rightarrow> fuse_state" where
  "fuse_queue_forget nodeid nlookup s =
     (let forget = \<lparr>fo_nodeid = nodeid, fo_nlookup = nlookup\<rparr> in
      if iq_connected (iq s)
      then emit Kill_fasync (emit Wake_reader
             (s\<lparr>iq := (iq s)\<lparr>forget_list := forget_list (iq s) @ [forget]\<rparr>\<rparr>))
      else emit (Free_forget forget) s)"

subsection \<open>The background queue\<close>

text \<open>
  One iteration of the loop of \<open>flush_bg_queue\<close> for the first request of the queue.
\<close>

definition flush_bg_one :: "req_id \<Rightarrow> fuse_state \<Rightarrow> fuse_state" where
  "flush_bg_one r s =
     (let s1 = list_del r s
      in queue_unique r (s1\<lparr>active_background := active_background s1 + 1\<rparr>))"

lemma queue_frame [simp]:
  "bg_queue (queue_request r s) = bg_queue s"
  "bg_queue (queue_unique r s) = bg_queue s"
  by (simp_all add: queue_request_def queue_unique_def fuse_get_unique_def Let_def)

function flush_bg_queue :: "fuse_state \<Rightarrow> fuse_state option" where
  "flush_bg_queue s =
     (case bg_queue s of
        [] \<Rightarrow> Some s
      | r # rest \<Rightarrow>
          if active_background s < max_background s
          then (if reqs s r = None then None else flush_bg_queue (flush_bg_one r s))
          else Some s)"
  by pat_completeness auto
termination
proof (relation "measure (\<lambda>s. length (bg_queue s))", goal_cases)
  case 1
  show ?case by simp
next
  case (2 s r rest)
  then show ?case
    using length_without_le [of r rest] by (simp add: flush_bg_one_def Let_def)
qed

declare flush_bg_queue.simps [simp del]

subsection \<open>Completion\<close>

text \<open>
  \<open>req->end (fc, req)\<close>. The callback of INIT is \<open>process_init_reply\<close>; the others belong to
  \<open>file.c\<close> and to the notification code and work on inodes, pages and files, not on this state:
  they are recorded as the event \<open>End_callback\<close>.
\<close>

definition run_end :: "fuse_end \<Rightarrow> req_id \<Rightarrow> fuse_req \<Rightarrow> fuse_state \<Rightarrow> fuse_state option" where
  "run_end e r q s =
     (if e = End_init
      then process_init_reply (oh_error (out_h (rq_out q))) (misc_init_out (rq_misc q))
             (emit (End_callback e r) s)
      else Some (emit (End_callback e r) s))"

text \<open>
  The part of \<open>request_end\<close> for a background request, under \<open>fc->lock\<close>: \<open>end_counts\<close> is what
  precedes the flush.
\<close>

definition end_counts :: "req_id \<Rightarrow> fuse_state \<Rightarrow> fuse_state" where
  "end_counts r s =
     (let s1 = upd_req r (clear_flag FR_BACKGROUND) s;
          s2 = (if num_background s1 = max_background s1 then s1\<lparr>blocked := False\<rparr> else s1);
          s3 = (if \<not> blocked s2 then emit Wake_blocked s2 else s2);
          s4 = (if num_background s3 = congestion_threshold s3 \<and> connected s3 \<and>
                   Bdi_initialized \<in> fc_bits s3
                then s3\<lparr>bdi_congested := False\<rparr> else s3)
      in s4\<lparr>num_background := num_background s4 - 1,
            active_background := active_background s4 - 1\<rparr>)"

definition end_background :: "req_id \<Rightarrow> fuse_state \<Rightarrow> fuse_state option" where
  "end_background r s = flush_bg_queue (end_counts r s)"

definition request_end :: "fuse_state \<Rightarrow> req_id \<Rightarrow> fuse_state option" where
  "request_end s r = do {
     q \<leftarrow> reqs s r;
     if FR_FINISHED \<in> rq_flags q then Some s
     else do {
       let s1 = intr_del r (upd_req r (set_flag FR_FINISHED) s);
       let s2 = (if FR_PENDING \<in> rq_flags q then emit Warn s1 else s1);
       let s3 = (if FR_SENT \<in> rq_flags q then emit Warn s2 else s2);
       s4 \<leftarrow> (if FR_BACKGROUND \<in> rq_flags q then end_background r s3 else Some s3);
       let s5 = emit (Wake_req r) s4;
       s6 \<leftarrow> (case rq_end q of None \<Rightarrow> Some s5 | Some e \<Rightarrow> run_end e r q s5);
       fuse_put_request s6 r}}"

definition queue_interrupt :: "fuse_state \<Rightarrow> req_id \<Rightarrow> fuse_state option" where
  "queue_interrupt s r = do {
     q \<leftarrow> reqs s r;
     if FR_FINISHED \<in> rq_flags q then Some s
     else
       let s1 = (if r \<in> set (interrupts (iq s)) then s
                 else emit Wake_reader (s\<lparr>iq := (iq s)\<lparr>interrupts := interrupts (iq s) @ [r]\<rparr>\<rparr>))
       in Some (emit Kill_fasync s1)}"

subsection \<open>Waiting for the answer\<close>

text \<open>The signals pending for the requesting task: none, one it may handle, or a fatal one.\<close>

datatype sigstate = Sig_none | Sig_pending | Sig_fatal

datatype wait_phase = Wait_interruptible | Wait_killable | Wait_final | Wait_done

text \<open>
  The first phase is skipped when the server does not implement INTERRUPT, the second one for a
  request that is sent by force.
\<close>

definition wait_after_interruptible :: "fuse_req \<Rightarrow> wait_phase" where
  "wait_after_interruptible q = (if FR_FORCE \<in> rq_flags q then Wait_final else Wait_killable)"

definition wait_start :: "fuse_state \<Rightarrow> fuse_req \<Rightarrow> wait_phase" where
  "wait_start s q =
     (if No_interrupt \<notin> fc_bits s then Wait_interruptible else wait_after_interruptible q)"

definition request_wait_answer ::
    "wait_phase \<Rightarrow> sigstate \<Rightarrow> fuse_state \<Rightarrow> req_id \<Rightarrow> (wait_phase \<times> fuse_state) option" where
  "request_wait_answer ph sg s r = do {
     q \<leftarrow> reqs s r;
     (case ph of
        Wait_interruptible \<Rightarrow>
          if FR_FINISHED \<in> rq_flags q then Some (Wait_done, s)
          else if sg = Sig_none then Some (ph, s)
          else do {
            let s1 = upd_req r (set_flag FR_INTERRUPTED) s;
            s2 \<leftarrow> (if FR_SENT \<in> rq_flags q then queue_interrupt s1 r else Some s1);
            Some (wait_after_interruptible q, s2)}
      | Wait_killable \<Rightarrow>
          if FR_FINISHED \<in> rq_flags q then Some (Wait_done, s)
          else if sg \<noteq> Sig_fatal then Some (ph, s)
          else if FR_PENDING \<in> rq_flags q then do {
            s1 \<leftarrow> put_request_shared (list_del r s) r;
            Some (Wait_done, upd_req r (set_out_error (- EINTR)) s1)}
          else Some (Wait_final, s)
      | Wait_final \<Rightarrow>
          if FR_FINISHED \<in> rq_flags q then Some (Wait_done, s) else Some (ph, s)
      | Wait_done \<Rightarrow> Some (ph, s))}"

subsection \<open>Sending\<close>

text \<open>\<open>__fuse_request_send\<close> up to the wait: the phase the thread is in afterwards.\<close>

definition request_send_start :: "fuse_state \<Rightarrow> req_id \<Rightarrow> (wait_phase \<times> fuse_state) option" where
  "request_send_start s r = do {
     q \<leftarrow> reqs s r;
     if FR_BACKGROUND \<in> rq_flags q then None
     else if \<not> iq_connected (iq s) then
       Some (Wait_done, upd_req r (set_out_error (- ENOTCONN)) s)
     else do {
       s1 \<leftarrow> get_request (queue_unique r s) r;
       Some (wait_start s1 q, s1)}}"

text \<open>Count a request that is not counted as waiting yet.\<close>

definition mark_waiting :: "fuse_state \<Rightarrow> req_id \<Rightarrow> fuse_state option" where
  "mark_waiting s r = do {
     q \<leftarrow> reqs s r;
     Some (if FR_WAITING \<in> rq_flags q then s else waiting_inc (upd_req r (set_flag FR_WAITING) s))}"

definition fuse_request_send :: "fuse_state \<Rightarrow> req_id \<Rightarrow> (wait_phase \<times> fuse_state) option" where
  "fuse_request_send s r = do {
     s1 \<leftarrow> mark_waiting (upd_req r (set_flag FR_ISREPLY) s) r;
     request_send_start s1 r}"

definition fuse_request_send_background_locked :: "fuse_state \<Rightarrow> req_id \<Rightarrow> fuse_state option" where
  "fuse_request_send_background_locked s r = do {
     q \<leftarrow> reqs s r;
     if FR_BACKGROUND \<notin> rq_flags q then None
     else do {
       s1 \<leftarrow> mark_waiting s r;
       let s2 = upd_req r (set_flag FR_ISREPLY) s1;
       let s3 = s2\<lparr>num_background := num_background s2 + 1\<rparr>;
       let s4 = (if num_background s3 = max_background s3 then s3\<lparr>blocked := True\<rparr> else s3);
       let s5 = (if num_background s4 = congestion_threshold s4 \<and> Bdi_initialized \<in> fc_bits s4
                 then s4\<lparr>bdi_congested := True\<rparr> else s4);
       flush_bg_queue (s5\<lparr>bg_queue := bg_queue s5 @ [r]\<rparr>)}}"

definition fuse_request_send_background :: "fuse_state \<Rightarrow> req_id \<Rightarrow> fuse_state option" where
  "fuse_request_send_background s r = do {
     q \<leftarrow> reqs s r;
     e \<leftarrow> rq_end q;
     if connected s then fuse_request_send_background_locked s r
     else do {
       let s1 = upd_req r (set_out_error (- ENOTCONN)) s;
       s2 \<leftarrow> run_end e r (set_out_error (- ENOTCONN) q) s1;
       fuse_put_request s2 r}}"

definition fuse_request_send_notify_reply ::
    "fuse_state \<Rightarrow> req_id \<Rightarrow> u64 \<Rightarrow> (int \<times> fuse_state) option" where
  "fuse_request_send_notify_reply s r unique = do {
     q \<leftarrow> reqs s r;
     let s1 = upd_req r (set_in_unique unique) (upd_req r (clear_flag FR_ISREPLY) s);
     Some (if iq_connected (iq s) then (0, queue_request r s1) else (- ENODEV, s1))}"

subsection \<open>Simple requests\<close>

definition set_size0 :: "nat \<Rightarrow> fuse_arg list \<Rightarrow> fuse_arg list" where
  "set_size0 n as = (case as of [] \<Rightarrow> [] | a # as' \<Rightarrow> a\<lparr>arg_size := n\<rparr> # as')"

text \<open>
  The argument sizes of older protocol versions. A later \<open>if\<close> of the source sees the changes of
  an earlier one; the opcode does not change.
\<close>

definition fuse_adjust_compat :: "fuse_state \<Rightarrow> fuse_args \<Rightarrow> fuse_args" where
  "fuse_adjust_compat s args =
     (let op = a_opcode args;
          a1 = (if minor s < 4 \<and> op = FUSE_STATFS
                then a_out_args_update (set_size0 (wire_size s W_compat_statfs)) args else args);
          a2 = (if minor s < 9 then
                  (if op \<in> {FUSE_LOOKUP, FUSE_CREATE, FUSE_MKNOD, FUSE_MKDIR, FUSE_SYMLINK, FUSE_LINK}
                   then a_out_args_update (set_size0 (wire_size s W_compat_entry_out)) a1
                   else if op \<in> {FUSE_GETATTR, FUSE_SETATTR}
                   then a_out_args_update (set_size0 (wire_size s W_compat_attr_out)) a1 else a1)
                else a1)
      in if minor s < 12 then
           (if op = FUSE_CREATE then a_in_args_update (set_size0 (wire_size s W_open_in)) a2
            else if op = FUSE_MKNOD then a_in_args_update (set_size0 (wire_size s W_compat_mknod_in)) a2
            else a2)
         else a2)"

definition fill_simple :: "fuse_args \<Rightarrow> fuse_req \<Rightarrow> fuse_req" where
  "fill_simple args q = q\<lparr>
     rq_in := (rq_in q)\<lparr>in_h := (in_h (rq_in q))\<lparr>ih_opcode := a_opcode args, ih_nodeid := a_nodeid args\<rparr>,
                        in_args := a_in_args args\<rparr>,
     rq_out := (rq_out q)\<lparr>out_argvar := a_out_argvar args, out_args := a_out_args args\<rparr>\<rparr>"

text \<open>
  \<open>fuse_simple_request\<close> up to the wait for the answer, and from the end of the wait on. The
  result of the second half is the return value and the output arguments.
\<close>

definition simple_request_begin ::
    "oom \<Rightarrow> task \<Rightarrow> bool \<Rightarrow> fuse_state \<Rightarrow> fuse_args \<Rightarrow>
      (getreq \<times> wait_phase \<times> fuse_state) option" where
  "simple_request_begin ok cur killed s args =
     (case fuse_get_req ok cur 0 killed s of
        (Got r, s1) \<Rightarrow>
          map_option (\<lambda>(ph, s2). (Got r, ph, s2))
            (fuse_request_send (upd_req r (fill_simple (fuse_adjust_compat s1 args)) s1) r)
      | (g, s1) \<Rightarrow> Some (g, Wait_done, s1))"

definition simple_request_end ::
    "fuse_state \<Rightarrow> req_id \<Rightarrow> fuse_args \<Rightarrow> (int \<times> fuse_arg list \<times> fuse_state) option" where
  "simple_request_end s r args = do {
     q \<leftarrow> reqs s r;
     let err = oh_error (out_h (rq_out q));
     ret \<leftarrow> (if err = 0 \<and> a_out_argvar args
            then (case out_args (rq_out q) of [a] \<Rightarrow> Some (int (arg_size a)) | _ \<Rightarrow> None)
            else Some err);
     s1 \<leftarrow> fuse_put_request s r;
     Some (ret, out_args (rq_out q), s1)}"

definition force_forget_fill :: "fuse_state \<Rightarrow> u64 \<Rightarrow> u8 list \<Rightarrow> fuse_req \<Rightarrow> fuse_req" where
  "force_forget_fill s nodeid inarg q = clear_flag FR_ISREPLY (q\<lparr>
     rq_in := (rq_in q)\<lparr>in_h := (in_h (rq_in q))\<lparr>ih_opcode := FUSE_FORGET, ih_nodeid := nodeid\<rparr>,
                        in_args := [\<lparr>arg_size = wire_size s W_forget_in, arg_value = inarg\<rparr>]\<rparr>\<rparr>)"

text \<open>
  \<open>fuse_force_forget\<close> up to its wait; \<open>inarg\<close> is the byte image of the forget record with
  \<open>nlookup\<close> 1. The errors are ignored and the request is put afterwards.
\<close>

definition fuse_force_forget ::
    "oom \<Rightarrow> task \<Rightarrow> fuse_state \<Rightarrow> filp_id \<Rightarrow> u64 \<Rightarrow> u8 list \<Rightarrow>
      (getreq \<times> wait_phase \<times> fuse_state) option" where
  "fuse_force_forget ok cur s file nodeid inarg = do {
     gs \<leftarrow> fuse_get_req_nofail_nopages ok cur file s;
     (case gs of
        (Got r, s1) \<Rightarrow>
          map_option (\<lambda>(ph, s2). (Got r, ph, s2))
            (request_send_start (upd_req r (force_forget_fill s1 nodeid inarg) s1) r)
      | (g, s1) \<Rightarrow> Some (g, Wait_done, s1))}"

end
