(* ===== verification/Fuse_Background.thy ===== *)
theory Fuse_Background
  imports Fuse_Queue
begin

text \<open>
  What holds of the background queue: \<open>flush_bg_queue\<close> moves a prefix of the queue to the pending
  list in order and stops exactly when the queue is empty or the limit is reached; the counters
  \<open>num_background\<close> and \<open>active_background\<close> count the background requests that were sent and not
  finished, and those of them handed to the input queue (\<open>bg_inv\<close>); and as long as the limit is
  not changed the connection is blocked exactly when the number of background requests is at or
  above it (\<open>blocked_inv\<close>).
\<close>

definition counted :: "fuse_state \<Rightarrow> req_id set" where
  "counted s = {r. \<exists>q. reqs s r = Some q \<and> FR_BACKGROUND \<in> rq_flags q \<and> FR_ISREPLY \<in> rq_flags q}"

definition bg_inv :: "fuse_state \<Rightarrow> bool" where
  "bg_inv s \<longleftrightarrow> finite (dom (reqs s)) \<and> distinct (bg_queue s) \<and> set (bg_queue s) \<subseteq> counted s \<and>
     unat (num_background s) = card (counted s) \<and>
     unat (active_background s) = card (counted s - set (bg_queue s))"

definition blocked_inv :: "fuse_state \<Rightarrow> bool" where
  "blocked_inv s \<longleftrightarrow> (blocked s \<longleftrightarrow> max_background s \<le> num_background s)"

subsection \<open>What queueing changes\<close>

text \<open>Requests agree on all but the input header.\<close>

definition strip_in :: "fuse_req \<Rightarrow> fuse_req" where
  "strip_in q = q\<lparr>rq_in := zero_in\<rparr>"

definition same_reqs :: "fuse_state \<Rightarrow> fuse_state \<Rightarrow> bool" where
  "same_reqs s t \<longleftrightarrow> (\<forall>x. map_option strip_in (reqs t x) = map_option strip_in (reqs s x))"

lemma same_reqs_refl [simp]: "same_reqs s s"
  by (simp add: same_reqs_def)

lemma same_reqs_trans: "same_reqs s t \<Longrightarrow> same_reqs t u \<Longrightarrow> same_reqs s u"
  by (simp add: same_reqs_def)

lemma strip_in_eq:
  assumes "strip_in p = strip_in q"
  shows "rq_flags p = rq_flags q" and "rq_count p = rq_count q" and "rq_end p = rq_end q"
    and "rq_stolen_file p = rq_stolen_file q" and "rq_out p = rq_out q" and "rq_misc p = rq_misc q"
    and "rq_intr_unique p = rq_intr_unique q"
proof -
  obtain pc pu pf pi po pm pp pd px pn pff pino pio pe psf where p: "p = \<lparr>rq_count = pc,
     rq_intr_unique = pu, rq_flags = pf, rq_in = pi, rq_out = po, rq_misc = pm, rq_pages = pp,
     rq_page_descs = pd, rq_max_pages = px, rq_num_pages = pn, rq_ff = pff, rq_inode = pino,
     rq_io = pio, rq_end = pe, rq_stolen_file = psf\<rparr>" by (cases p) blast
  obtain qc qu qf qi qo qm qp qd qx qn qff qino qio qe qsf where q: "q = \<lparr>rq_count = qc,
     rq_intr_unique = qu, rq_flags = qf, rq_in = qi, rq_out = qo, rq_misc = qm, rq_pages = qp,
     rq_page_descs = qd, rq_max_pages = qx, rq_num_pages = qn, rq_ff = qff, rq_inode = qino,
     rq_io = qio, rq_end = qe, rq_stolen_file = qsf\<rparr>" by (cases q) blast
  from assms show "rq_flags p = rq_flags q" "rq_count p = rq_count q" "rq_end p = rq_end q"
    "rq_stolen_file p = rq_stolen_file q" "rq_out p = rq_out q" "rq_misc p = rq_misc q"
    "rq_intr_unique p = rq_intr_unique q"
    by (simp_all add: strip_in_def p q)
qed

lemma same_reqs_Some:
  assumes "same_reqs s t" and "reqs s r = Some q"
  obtains q' where "reqs t r = Some q'" and "rq_flags q' = rq_flags q" and "rq_count q' = rq_count q"
    and "rq_end q' = rq_end q" and "rq_stolen_file q' = rq_stolen_file q" and "rq_out q' = rq_out q"
    and "rq_misc q' = rq_misc q" and "rq_intr_unique q' = rq_intr_unique q"
proof -
  from assms have "map_option strip_in (reqs t r) = Some (strip_in q)"
    by (simp add: same_reqs_def)
  then obtain q' where "reqs t r = Some q'" and "strip_in q' = strip_in q" by auto
  then show ?thesis using strip_in_eq [of q' q] that by blast
qed

lemma same_reqs_dom: "same_reqs s t \<Longrightarrow> dom (reqs t) = dom (reqs s)"
  by (auto simp: same_reqs_def dom_def) (metis map_option_is_None not_None_eq)+

lemma same_reqs_sym: "same_reqs s t \<Longrightarrow> same_reqs t s"
  by (simp add: same_reqs_def)

lemma same_reqs_counted: "same_reqs s t \<Longrightarrow> counted t = counted s"
proof -
  have "counted s \<subseteq> counted t" if "same_reqs s t" for s t
    using that by (auto simp: counted_def elim: same_reqs_Some)
  then show "same_reqs s t \<Longrightarrow> counted t = counted s"
    using same_reqs_sym by blast
qed

lemma same_reqs_waiting: "same_reqs s t \<Longrightarrow> waiting_reqs t = waiting_reqs s"
proof -
  have "waiting_reqs s \<subseteq> waiting_reqs t" if "same_reqs s t" for s t
    using that by (auto simp: waiting_reqs_def elim: same_reqs_Some)
  then show "same_reqs s t \<Longrightarrow> waiting_reqs t = waiting_reqs s"
    using same_reqs_sym by blast
qed

lemma same_reqs_absent: "same_reqs s t \<Longrightarrow> reqs s x = None \<Longrightarrow> reqs t x = None"
  by (metis map_option_is_None same_reqs_def)

lemma queue_request_lists [simp]:
  "pending (iq (queue_request r s)) = pending (iq s) @ [r]"
  "interrupts (iq (queue_request r s)) = interrupts (iq s)"
  "iq_connected (iq (queue_request r s)) = iq_connected (iq s)"
  "reqctr (iq (queue_request r s)) = reqctr (iq s)"
  "forget_list (iq (queue_request r s)) = forget_list (iq s)"
  "forget_batch (iq (queue_request r s)) = forget_batch (iq s)"
  by (simp_all add: queue_request_def)

lemma queue_unique_lists [simp]:
  "pending (iq (queue_unique r s)) = pending (iq s) @ [r]"
  "interrupts (iq (queue_unique r s)) = interrupts (iq s)"
  "iq_connected (iq (queue_unique r s)) = iq_connected (iq s)"
  "reqctr (iq (queue_unique r s)) = reqctr (iq s) + 1"
  "forget_list (iq (queue_unique r s)) = forget_list (iq s)"
  "forget_batch (iq (queue_unique r s)) = forget_batch (iq s)"
  by (simp_all add: queue_unique_def fuse_get_unique_def Let_def)

lemma queue_request_frame [simp]:
  "fc_count (queue_request r s) = fc_count s"
  "dev_count (queue_request r s) = dev_count s"
  "user_id (queue_request r s) = user_id s"
  "group_id (queue_request r s) = group_id s"
  "max_read (queue_request r s) = max_read s"
  "max_write (queue_request r s) = max_write s"
  "khctr (queue_request r s) = khctr s"
  "max_background (queue_request r s) = max_background s"
  "congestion_threshold (queue_request r s) = congestion_threshold s"
  "num_background (queue_request r s) = num_background s"
  "active_background (queue_request r s) = active_background s"
  "initialized (queue_request r s) = initialized s"
  "blocked (queue_request r s) = blocked s"
  "connected (queue_request r s) = connected s"
  "fc_bits (queue_request r s) = fc_bits s"
  "num_waiting (queue_request r s) = num_waiting s"
  "minor (queue_request r s) = minor s"
  "ra_pages (queue_request r s) = ra_pages s"
  "bdi_congested (queue_request r s) = bdi_congested s"
  "scramble_key (queue_request r s) = scramble_key s"
  "destroy_req (queue_request r s) = destroy_req s"
  "attr_version (queue_request r s) = attr_version s"
  "sb_time_gran (queue_request r s) = sb_time_gran s"
  "devices (queue_request r s) = devices s"
  "devs (queue_request r s) = devs s"
  "ffs (queue_request r s) = ffs s"
  "filps (queue_request r s) = filps s"
  "next_id (queue_request r s) = next_id s"
  "wire_size (queue_request r s) = wire_size s"
  "glob (queue_request r s) = glob s"
  by (simp_all add: queue_request_def)

lemma queue_unique_frame [simp]:
  "fc_count (queue_unique r s) = fc_count s"
  "dev_count (queue_unique r s) = dev_count s"
  "user_id (queue_unique r s) = user_id s"
  "group_id (queue_unique r s) = group_id s"
  "max_read (queue_unique r s) = max_read s"
  "max_write (queue_unique r s) = max_write s"
  "khctr (queue_unique r s) = khctr s"
  "max_background (queue_unique r s) = max_background s"
  "congestion_threshold (queue_unique r s) = congestion_threshold s"
  "num_background (queue_unique r s) = num_background s"
  "active_background (queue_unique r s) = active_background s"
  "initialized (queue_unique r s) = initialized s"
  "blocked (queue_unique r s) = blocked s"
  "connected (queue_unique r s) = connected s"
  "fc_bits (queue_unique r s) = fc_bits s"
  "num_waiting (queue_unique r s) = num_waiting s"
  "minor (queue_unique r s) = minor s"
  "ra_pages (queue_unique r s) = ra_pages s"
  "bdi_congested (queue_unique r s) = bdi_congested s"
  "scramble_key (queue_unique r s) = scramble_key s"
  "destroy_req (queue_unique r s) = destroy_req s"
  "attr_version (queue_unique r s) = attr_version s"
  "sb_time_gran (queue_unique r s) = sb_time_gran s"
  "devices (queue_unique r s) = devices s"
  "devs (queue_unique r s) = devs s"
  "ffs (queue_unique r s) = ffs s"
  "filps (queue_unique r s) = filps s"
  "next_id (queue_unique r s) = next_id s"
  "wire_size (queue_unique r s) = wire_size s"
  "glob (queue_unique r s) = glob s"
  by (simp_all add: queue_unique_def fuse_get_unique_def Let_def)

lemma same_reqs_upd: "(\<And>q. strip_in (f q) = strip_in q) \<Longrightarrow> same_reqs s (upd_req r f s)"
  by (simp add: same_reqs_def option.map_comp comp_def)

lemma same_reqs_queue_request [simp]: "same_reqs s (queue_request r s)"
proof -
  have "same_reqs s (upd_req r (\<lambda>q. set_in_len (in_len s q) q) s)"
    by (rule same_reqs_upd) (simp add: set_in_len_def strip_in_def)
  then show ?thesis by (simp add: queue_request_def same_reqs_def)
qed

lemma same_reqs_queue_unique [simp]: "same_reqs s (queue_unique r s)"
proof -
  let ?u = "reqctr (iq s) + 1" and ?s1 = "s\<lparr>iq := (iq s)\<lparr>reqctr := reqctr (iq s) + 1\<rparr>\<rparr>"
  have "same_reqs ?s1 (upd_req r (set_in_unique ?u) ?s1)"
    by (rule same_reqs_upd) (simp add: set_in_unique_def strip_in_def)
  then have "same_reqs ?s1 (queue_request r (upd_req r (set_in_unique ?u) ?s1))"
    using same_reqs_queue_request same_reqs_trans by blast
  then show ?thesis by (simp add: queue_unique_def fuse_get_unique_def Let_def same_reqs_def)
qed

lemma same_reqs_flush_one [simp]: "same_reqs s (flush_bg_one r s)"
proof -
  let ?t = "(list_del r s)\<lparr>active_background := active_background (list_del r s) + 1\<rparr>"
  have "same_reqs s ?t" by (simp add: same_reqs_def)
  then show ?thesis
    using same_reqs_queue_unique [of ?t r] same_reqs_trans
    by (simp add: flush_bg_one_def Let_def)
qed


lemma flush_one_fields [simp]:
  "bg_queue (flush_bg_one r s) = without r (bg_queue s)"
  "pending (iq (flush_bg_one r s)) = without r (pending (iq s)) @ [r]"
  "interrupts (iq (flush_bg_one r s)) = interrupts (iq s)"
  "forget_list (iq (flush_bg_one r s)) = forget_list (iq s)"
  "forget_batch (iq (flush_bg_one r s)) = forget_batch (iq s)"
  "iq_connected (iq (flush_bg_one r s)) = iq_connected (iq s)"
  "reqctr (iq (flush_bg_one r s)) = reqctr (iq s) + 1"
  "active_background (flush_bg_one r s) = active_background s + 1"
  "num_background (flush_bg_one r s) = num_background s"
  "max_background (flush_bg_one r s) = max_background s"
  "blocked (flush_bg_one r s) = blocked s"
  "connected (flush_bg_one r s) = connected s"
  "initialized (flush_bg_one r s) = initialized s"
  "num_waiting (flush_bg_one r s) = num_waiting s"
  "next_id (flush_bg_one r s) = next_id s"
  "fc_bits (flush_bg_one r s) = fc_bits s"
  "ffs (flush_bg_one r s) = ffs s"
  "filps (flush_bg_one r s) = filps s"
  "wire_size (flush_bg_one r s) = wire_size s"
  "glob (flush_bg_one r s) = glob s"
  "devices (flush_bg_one r s) = devices s"
  "minor (flush_bg_one r s) = minor s"
  "congestion_threshold (flush_bg_one r s) = congestion_threshold s"
  "bdi_congested (flush_bg_one r s) = bdi_congested s"
  "dev_count (flush_bg_one r s) = dev_count s"
  "fc_count (flush_bg_one r s) = fc_count s"
  "sb_time_gran (flush_bg_one r s) = sb_time_gran s"
  "devs (flush_bg_one r s) d = map_option (dev_pq_update (pq_del r)) (devs s d)"
  by (simp_all add: flush_bg_one_def Let_def)

subsection \<open>\<open>flush_bg_queue\<close>\<close>

text \<open>One unfolding, for the three ways an iteration can go.\<close>

lemma flush_stop:
  "bg_queue s = [] \<or> \<not> active_background s < max_background s \<Longrightarrow> flush_bg_queue s = Some s"
  by (subst flush_bg_queue.simps) (auto split: list.split)

lemma flush_go:
  "bg_queue s = r # rest \<Longrightarrow> active_background s < max_background s \<Longrightarrow> reqs s r \<noteq> None \<Longrightarrow>
     flush_bg_queue s = flush_bg_queue (flush_bg_one r s)"
  by (subst flush_bg_queue.simps) auto

lemma flush_crash:
  "bg_queue s = r # rest \<Longrightarrow> active_background s < max_background s \<Longrightarrow> reqs s r = None \<Longrightarrow>
     flush_bg_queue s = None"
  by (subst flush_bg_queue.simps) simp

text \<open>
  Induction over a successful flush: a property that every iteration keeps holds at the end.
\<close>

lemma flush_induct [consumes 1, case_names stop iterate]:
  assumes run: "flush_bg_queue s = Some s'"
    and stop: "\<And>s. bg_queue s = [] \<or> \<not> active_background s < max_background s \<Longrightarrow> P s s"
    and iterate: "\<And>s s' r rest. bg_queue s = r # rest \<Longrightarrow> active_background s < max_background s \<Longrightarrow>
       reqs s r \<noteq> None \<Longrightarrow> flush_bg_queue (flush_bg_one r s) = Some s' \<Longrightarrow> P (flush_bg_one r s) s'
       \<Longrightarrow> P s s'"
  shows "P s s'"
  using run
proof (induction s rule: flush_bg_queue.induct)
  case (1 s)
  show ?case
  proof (cases "bg_queue s = [] \<or> \<not> active_background s < max_background s")
    case True
    with "1.prems" flush_stop [OF True] have "s' = s" by simp
    with stop [OF True] show ?thesis by simp
  next
    case False
    then obtain r rest where q: "bg_queue s = r # rest" and lt: "active_background s < max_background s"
      by (cases "bg_queue s") auto
    have live: "reqs s r \<noteq> None" using "1.prems" flush_crash [OF q lt] by auto
    have run': "flush_bg_queue (flush_bg_one r s) = Some s'"
      using "1.prems" flush_go [OF q lt live] by simp
    show ?thesis
      using iterate [OF q lt live run'] "1.IH" [OF q lt live run'] by blast
  qed
qed

lemma flush_same_reqs: "flush_bg_queue s = Some s' \<Longrightarrow> same_reqs s s'"
  by (induction rule: flush_induct) (auto intro: same_reqs_trans [OF same_reqs_flush_one])

lemma flush_frame:
  assumes "flush_bg_queue s = Some s'"
  shows "num_background s' = num_background s" and "max_background s' = max_background s"
    and "blocked s' = blocked s" and "connected s' = connected s" and "initialized s' = initialized s"
    and "num_waiting s' = num_waiting s" and "next_id s' = next_id s" and "fc_bits s' = fc_bits s"
    and "ffs s' = ffs s" and "filps s' = filps s" and "wire_size s' = wire_size s"
    and "glob s' = glob s" and "devices s' = devices s" and "minor s' = minor s"
    and "interrupts (iq s') = interrupts (iq s)" and "forget_list (iq s') = forget_list (iq s)"
    and "iq_connected (iq s') = iq_connected (iq s)" and "sb_time_gran s' = sb_time_gran s"
    and "dev_count s' = dev_count s" and "fc_count s' = fc_count s"
    and "forget_batch (iq s') = forget_batch (iq s)"
  using assms by (induction rule: flush_induct) simp_all

lemma flush_done:
  "flush_bg_queue s = Some s' \<Longrightarrow> bg_queue s' = [] \<or> \<not> active_background s' < max_background s'"
  by (induction rule: flush_induct) auto

lemma flush_total:
  "set (bg_queue s) \<subseteq> dom (reqs s) \<Longrightarrow> \<exists>s'. flush_bg_queue s = Some s'"
proof (induction s rule: flush_bg_queue.induct)
  case (1 s)
  show ?case
  proof (cases "bg_queue s = [] \<or> \<not> active_background s < max_background s")
    case True
    then show ?thesis using flush_stop by blast
  next
    case False
    then obtain r rest where q: "bg_queue s = r # rest" and lt: "active_background s < max_background s"
      by (cases "bg_queue s") auto
    have live: "reqs s r \<noteq> None" using "1.prems" q by auto
    have "dom (reqs (flush_bg_one r s)) = dom (reqs s)"
      by (rule same_reqs_dom) simp
    with "1.prems" q have "set (bg_queue (flush_bg_one r s)) \<subseteq> dom (reqs (flush_bg_one r s))"
      by auto
    then show ?thesis
      using "1.IH" [OF q lt live] flush_go [OF q lt live] by simp
  qed
qed

lemma flush_fifo:
  assumes "flush_bg_queue s = Some s'" and "distinct (bg_queue s)"
    and "set (bg_queue s) \<inter> set (pending (iq s)) = {}"
  shows "\<exists>moved. bg_queue s = moved @ bg_queue s' \<and> pending (iq s') = pending (iq s) @ moved \<and>
     reqctr (iq s') = reqctr (iq s) + of_nat (length moved)"
  using assms
proof (induction rule: flush_induct)
  case (stop s)
  then show ?case by (intro exI [of _ "[]"]) simp
next
  case (iterate s s' r rest)
  have "without r rest = rest" using iterate.prems(1) iterate.hyps(1) by simp
  moreover have "without r (pending (iq s)) = pending (iq s)"
    using iterate.prems(2) iterate.hyps(1) by (intro without_absent) auto
  ultimately obtain moved where "rest = moved @ bg_queue s'"
      "pending (iq s') = pending (iq s) @ [r] @ moved"
      "reqctr (iq s') = reqctr (iq s) + 1 + of_nat (length moved)"
    using iterate.IH iterate.prems iterate.hyps(1) by auto
  then show ?case
    using iterate.hyps(1) by (intro exI [of _ "r # moved"]) simp
qed

subsection \<open>The invariant of the counters\<close>

lemma counted_finite: "finite (dom (reqs s)) \<Longrightarrow> finite (counted s)"
  by (rule finite_subset [of _ "dom (reqs s)"]) (auto simp: counted_def)

lemma flush_one_bg_inv:
  assumes inv: "bg_inv s" and q: "bg_queue s = r # rest"
    and lt: "active_background s < max_background s"
  shows "bg_inv (flush_bg_one r s)"
proof -
  have cnt: "counted (flush_bg_one r s) = counted s"
    by (rule same_reqs_counted) simp
  have dom: "dom (reqs (flush_bg_one r s)) = dom (reqs s)"
    by (rule same_reqs_dom) simp
  from inv q have r: "r \<in> counted s" "r \<notin> set rest" "set rest \<subseteq> counted s" "distinct rest"
    by (auto simp: bg_inv_def)
  from inv have fin: "finite (counted s)" by (simp add: bg_inv_def counted_finite)
  have "counted s - set rest = insert r (counted s - set (bg_queue s))"
    using q r by auto
  moreover have "card (insert r (counted s - set (bg_queue s))) = Suc (card (counted s - set (bg_queue s)))"
    using fin q by (intro card_insert_disjoint) auto
  ultimately have "card (counted s - set rest) = Suc (card (counted s - set (bg_queue s)))"
    by (simp only:)
  moreover have "unat (active_background s + 1) = Suc (unat (active_background s))"
    using lt by (rule unat_inc_bounded)
  ultimately have "unat (active_background s + 1) = card (counted s - set rest)"
    using inv by (simp only: bg_inv_def)
  moreover have "without r rest = rest" using r by simp
  ultimately show ?thesis
    using inv r by (simp add: bg_inv_def cnt dom q)
qed

lemma flush_bg_inv:
  assumes "flush_bg_queue s = Some s'" and "bg_inv s"
  shows "bg_inv s'"
  using assms by (induction rule: flush_induct) (simp_all add: flush_one_bg_inv)

lemma bg_inv_cong:
  assumes "bg_inv s" and "finite (dom (reqs t))" and "counted t = counted s"
    and "bg_queue t = bg_queue s" and "num_background t = num_background s"
    and "active_background t = active_background s"
  shows "bg_inv t"
  using assms by (simp add: bg_inv_def)

lemma bg_inv_emit [simp]: "bg_inv (emit e s) = bg_inv s"
  by (simp add: bg_inv_def counted_def)

lemma bg_inv_intr_del [simp]: "bg_inv (intr_del r s) = bg_inv s"
  by (simp add: bg_inv_def counted_def)

lemma counted_upd_req:
  "reqs s r = Some q \<Longrightarrow> counted (upd_req r f s) =
     (if FR_BACKGROUND \<in> rq_flags (f q) \<and> FR_ISREPLY \<in> rq_flags (f q)
      then insert r (counted s) else counted s - {r})"
  by (auto simp: counted_def split: if_splits)

lemma counted_mem_iff:
  "reqs s r = Some q \<Longrightarrow> r \<in> counted s \<longleftrightarrow> FR_BACKGROUND \<in> rq_flags q \<and> FR_ISREPLY \<in> rq_flags q"
  by (simp add: counted_def)

lemma bg_inv_upd_same:
  assumes inv: "bg_inv s"
    and same: "\<And>q. reqs s r = Some q \<Longrightarrow>
      (FR_BACKGROUND \<in> rq_flags (f q) \<and> FR_ISREPLY \<in> rq_flags (f q)) =
      (FR_BACKGROUND \<in> rq_flags q \<and> FR_ISREPLY \<in> rq_flags q)"
  shows "bg_inv (upd_req r f s)"
proof -
  have "counted (upd_req r f s) = counted s"
    using same by (auto simp: counted_def split: if_splits)
  with inv show ?thesis by (simp add: bg_inv_def)
qed

lemma end_counts_fields [simp]:
  "reqs (end_counts r s) x = (if x = r then map_option (clear_flag FR_BACKGROUND) (reqs s x) else reqs s x)"
  "bg_queue (end_counts r s) = bg_queue s"
  "num_background (end_counts r s) = num_background s - 1"
  "active_background (end_counts r s) = active_background s - 1"
  "max_background (end_counts r s) = max_background s"
  "blocked (end_counts r s) = (blocked s \<and> num_background s \<noteq> max_background s)"
  "num_waiting (end_counts r s) = num_waiting s"
  "next_id (end_counts r s) = next_id s"
  "iq (end_counts r s) = iq s"
  "devs (end_counts r s) = devs s"
  "ffs (end_counts r s) = ffs s"
  "filps (end_counts r s) = filps s"
  "initialized (end_counts r s) = initialized s"
  "connected (end_counts r s) = connected s"
  "fc_bits (end_counts r s) = fc_bits s"
  "wire_size (end_counts r s) = wire_size s"
  "devices (end_counts r s) = devices s"
  "glob (end_counts r s) = glob s"
  "sb_time_gran (end_counts r s) = sb_time_gran s"
  by (auto simp: end_counts_def Let_def)

text \<open>The end of a background request that was handed to the input queue.\<close>

lemma end_background_bg_inv:
  assumes inv: "bg_inv s" and q: "reqs s r = Some q" and cnt: "r \<in> counted s"
    and nq: "r \<notin> set (bg_queue s)" and res: "end_background r s = Some s'"
  shows "bg_inv s'" and "r \<notin> counted s'"
proof -
  define t where "t = (upd_req r (clear_flag FR_BACKGROUND) s)
    \<lparr>num_background := num_background s - 1, active_background := active_background s - 1\<rparr>"
  have ct: "counted t = counted s - {r}"
    using counted_upd_req [OF q, of "clear_flag FR_BACKGROUND"] by (simp add: t_def counted_def)
  from inv have fin: "finite (counted s)" by (simp add: bg_inv_def counted_finite)
  have num: "card (counted s) = Suc (card (counted s - {r}))"
    using fin cnt by (rule card_remove_mem)
  have "counted s - set (bg_queue s) - {r} = counted t - set (bg_queue s)" using ct by auto
  moreover have "card (counted s - set (bg_queue s)) =
      Suc (card (counted s - set (bg_queue s) - {r}))"
    using fin cnt nq by (intro card_remove_mem) auto
  ultimately have act: "card (counted s - set (bg_queue s)) = Suc (card (counted t - set (bg_queue s)))"
    by simp
  have "unat (num_background s - 1) = card (counted t)"
    using inv num ct by (simp add: bg_inv_def unat_dec_pos)
  moreover have "unat (active_background s - 1) = card (counted t - set (bg_queue t))"
    using inv act by (simp add: bg_inv_def unat_dec_pos t_def)
  moreover have "set (bg_queue t) \<subseteq> counted t" "distinct (bg_queue t)" "finite (dom (reqs t))"
    using inv nq ct by (auto simp: bg_inv_def t_def)
  ultimately have bt: "bg_inv t" by (simp add: bg_inv_def t_def)
  have t: "reqs (end_counts r s) = reqs t" "bg_queue (end_counts r s) = bg_queue t"
      "num_background (end_counts r s) = num_background t"
      "active_background (end_counts r s) = active_background t"
    by (simp_all add: t_def fun_eq_iff)
  have same: "counted (end_counts r s) = counted t" by (simp add: counted_def t(1))
  have "bg_inv (end_counts r s)"
    using bt unfolding bg_inv_def same t .
  with res show "bg_inv s'" by (simp add: end_background_def flush_bg_inv)
  have "counted s' = counted t"
    using res same_reqs_counted [OF flush_same_reqs] same by (simp add: end_background_def)
  then show "r \<notin> counted s'" by (simp add: ct)
qed

subsection \<open>Dropping a reference, completion and sending\<close>

lemma fuse_put_request_dom:
  assumes "fuse_put_request s r = Some s'"
  shows "dom (reqs s') \<subseteq> dom (reqs s)"
proof
  fix x assume "x \<in> dom (reqs s')"
  then show "x \<in> dom (reqs s)"
  proof (cases "x = r")
    case False
    with \<open>x \<in> dom (reqs s')\<close> show ?thesis
      using fuse_put_request_other [OF assms False] by (simp add: domIff)
  next
    case True
    from assms have "r \<in> dom (reqs s)" by (cases rule: fuse_put_request_cases) auto
    with True show ?thesis by simp
  qed
qed

lemma fuse_put_request_counted:
  assumes "fuse_put_request s r = Some s'" and "r \<notin> counted s"
  shows "counted s' = counted s"
proof -
  have "r \<notin> counted s'"
    using assms(1)
  proof (cases rule: fuse_put_request_cases)
    case (shared q)
    then show ?thesis using assms(2) by (simp add: counted_def)
  qed (auto simp: counted_def fuse_request_init_def)
  moreover have "x \<in> counted s' \<longleftrightarrow> x \<in> counted s" if "x \<noteq> r" for x
    using fuse_put_request_other [OF assms(1) that] by (simp add: counted_def)
  ultimately show ?thesis using assms(2) by (metis subsetI subset_antisym)
qed

lemma fuse_put_request_bg_inv:
  assumes "bg_inv s" and "fuse_put_request s r = Some s'" and "r \<notin> counted s"
  shows "bg_inv s'"
proof (rule bg_inv_cong [OF assms(1)])
  show "finite (dom (reqs s'))"
    using fuse_put_request_dom [OF assms(2)] assms(1) by (auto simp: bg_inv_def intro: finite_subset)
qed (use fuse_put_request_counted [OF assms(2,3)] fuse_put_request_frame [OF assms(2)] in simp_all)

lemma run_end_frame:
  assumes "run_end e r q s = Some s'"
  shows "reqs s' = reqs s" and "next_id s' = next_id s" and "num_waiting s' = num_waiting s"
    and "num_background s' = num_background s" and "active_background s' = active_background s"
    and "bg_queue s' = bg_queue s" and "iq s' = iq s" and "devs s' = devs s" and "ffs s' = ffs s"
    and "filps s' = filps s" and "blocked s' = blocked s" and "connected s' = connected s"
    and "wire_size s' = wire_size s" and "devices s' = devices s"
  using assms process_init_reply_frame
  by (auto simp: run_end_def split: if_split_asm)

text \<open>A callback other than that of INIT only records that it ran.\<close>

lemma run_end_other: "e \<noteq> End_init \<Longrightarrow> run_end e r q s = Some (emit (End_callback e r) s)"
  by (simp add: run_end_def)

text \<open>The steps of \<open>request_end\<close> on a request that is not finished.\<close>

definition end_mark :: "fuse_state \<Rightarrow> req_id \<Rightarrow> fuse_req \<Rightarrow> fuse_state" where
  "end_mark s r q =
     (let s1 = intr_del r (upd_req r (set_flag FR_FINISHED) s);
          s2 = (if FR_PENDING \<in> rq_flags q then emit Warn s1 else s1)
      in if FR_SENT \<in> rq_flags q then emit Warn s2 else s2)"

lemma request_end_finished:
  "reqs s r = Some q \<Longrightarrow> FR_FINISHED \<in> rq_flags q \<Longrightarrow> request_end s r = Some s"
  by (simp add: request_end_def)

definition end_counters :: "fuse_state \<Rightarrow> req_id \<Rightarrow> fuse_req \<Rightarrow> fuse_state option" where
  "end_counters s r q =
     (if FR_BACKGROUND \<in> rq_flags q then end_background r (end_mark s r q) else Some (end_mark s r q))"

definition end_callback :: "fuse_state \<Rightarrow> req_id \<Rightarrow> fuse_req \<Rightarrow> fuse_state option" where
  "end_callback s r q =
     (case rq_end q of None \<Rightarrow> Some (emit (Wake_req r) s)
      | Some e \<Rightarrow> run_end e r q (emit (Wake_req r) s))"

lemma request_end_step:
  assumes "reqs s r = Some q" and "FR_FINISHED \<notin> rq_flags q"
  shows "request_end s r =
     Option.bind (end_counters s r q) (\<lambda>s4. Option.bind (end_callback s4 r q) (\<lambda>s6. fuse_put_request s6 r))"
  unfolding request_end_def end_counters_def end_callback_def end_mark_def Let_def
  by (simp only: assms bind.bind_lunit if_False)

lemma request_end_elim:
  assumes "request_end s r = Some s'" and "reqs s r = Some q" and "FR_FINISHED \<notin> rq_flags q"
  obtains s4 s6 where "end_counters s r q = Some s4" and "end_callback s4 r q = Some s6"
    and "fuse_put_request s6 r = Some s'"
  using assms(1) unfolding request_end_step [OF assms(2,3)] by (elim bind_Some_E)

lemma end_mark_fields [simp]:
  "reqs (end_mark s r q) x = (if x = r then map_option (set_flag FR_FINISHED) (reqs s x) else reqs s x)"
  "bg_queue (end_mark s r q) = bg_queue s"
  "num_background (end_mark s r q) = num_background s"
  "active_background (end_mark s r q) = active_background s"
  "max_background (end_mark s r q) = max_background s"
  "blocked (end_mark s r q) = blocked s"
  "connected (end_mark s r q) = connected s"
  "initialized (end_mark s r q) = initialized s"
  "num_waiting (end_mark s r q) = num_waiting s"
  "next_id (end_mark s r q) = next_id s"
  "devs (end_mark s r q) = devs s"
  "ffs (end_mark s r q) = ffs s"
  "filps (end_mark s r q) = filps s"
  "pending (iq (end_mark s r q)) = pending (iq s)"
  "iq_connected (iq (end_mark s r q)) = iq_connected (iq s)"
  "reqctr (iq (end_mark s r q)) = reqctr (iq s)"
  "interrupts (iq (end_mark s r q)) = without r (interrupts (iq s))"
  by (simp_all add: end_mark_def Let_def)

lemma end_mark_bg_inv: "bg_inv s \<Longrightarrow> bg_inv (end_mark s r q)"
  by (simp add: end_mark_def Let_def bg_inv_upd_same)

lemma end_mark_waiting_inv: "waiting_inv k s \<Longrightarrow> waiting_inv k (end_mark s r q)"
  by (simp add: end_mark_def Let_def waiting_inv_upd_same)

lemma end_mark_counted: "counted (end_mark s r q) = counted s"
  by (auto simp: counted_def split: if_splits)

text \<open>The state in which \<open>request_end\<close> drops its reference agrees with the state after the flush.\<close>

lemma request_end_callback:
  assumes "end_callback s4 r q = Some s6"
  shows "reqs s6 = reqs s4" and "next_id s6 = next_id s4" and "num_waiting s6 = num_waiting s4"
    and "num_background s6 = num_background s4" and "active_background s6 = active_background s4"
    and "bg_queue s6 = bg_queue s4" and "iq s6 = iq s4" and "devs s6 = devs s4"
    and "ffs s6 = ffs s4" and "filps s6 = filps s4" and "blocked s6 = blocked s4"
    and "connected s6 = connected s4"
  using assms run_end_frame [of _ r q "emit (Wake_req r) s4" s6]
  by (auto simp: end_callback_def split: option.split_asm)

lemma request_end_bg_inv:
  assumes inv: "bg_inv s" and q: "reqs s r = Some q" and nq: "r \<notin> set (bg_queue s)"
    and rep: "FR_BACKGROUND \<in> rq_flags q \<Longrightarrow> FR_ISREPLY \<in> rq_flags q"
    and run: "request_end s r = Some s'"
  shows "bg_inv s'"
proof (cases "FR_FINISHED \<in> rq_flags q")
  case True
  then show ?thesis using run inv request_end_finished [OF q] by simp
next
  case False
  from run q False obtain s4 s6 where bg: "end_counters s r q = Some s4"
    and cb: "end_callback s4 r q = Some s6" and put: "fuse_put_request s6 r = Some s'"
    by (rule request_end_elim)
  note same = request_end_callback [OF cb]
  have "bg_inv s4 \<and> r \<notin> counted s4"
  proof (cases "FR_BACKGROUND \<in> rq_flags q")
    case True
    have "r \<in> counted (end_mark s r q)"
      using True rep q by (simp add: end_mark_counted counted_def)
    then show ?thesis
      using end_background_bg_inv [OF end_mark_bg_inv [OF inv] _ _ _ bg [unfolded end_counters_def if_P [OF True]]] q nq by simp
  next
    case False
    then show ?thesis
      using bg q inv by (auto simp: end_counters_def end_mark_bg_inv end_mark_counted counted_def)
  qed
  moreover have "counted s6 = counted s4" by (simp add: counted_def same)
  ultimately have "bg_inv s6" and "r \<notin> counted s6"
    by (auto intro: bg_inv_cong simp: same bg_inv_def)
  then show ?thesis using put fuse_put_request_bg_inv by blast
qed

lemma end_background_waiting:
  assumes "waiting_inv k s" and "end_background r s = Some s'"
  shows "waiting_inv k s'"
proof -
  have "waiting_inv k (end_counts r s)"
    using waiting_inv_upd_same [OF assms(1), of r "clear_flag FR_BACKGROUND"]
    by (rule waiting_inv_cong) (simp_all add: fun_eq_iff)
  moreover have same: "same_reqs (end_counts r s) s'"
    using assms(2) by (simp add: end_background_def flush_same_reqs)
  ultimately show ?thesis
    using same_reqs_waiting [OF same] same_reqs_dom [OF same] same_reqs_absent [OF same]
      flush_frame [OF assms(2) [unfolded end_background_def]]
    by (simp add: waiting_inv_def)
qed

lemma request_end_waiting:
  assumes inv: "waiting_inv k s" and run: "request_end s r = Some s'"
  shows "waiting_inv k s'"
proof -
  from run obtain q where q: "reqs s r = Some q" by (auto simp: request_end_def elim: bind_Some_E)
  show ?thesis
  proof (cases "FR_FINISHED \<in> rq_flags q")
    case True
    then show ?thesis using run inv request_end_finished [OF q] by simp
  next
    case False
    from run q False obtain s4 s6 where bg: "end_counters s r q = Some s4"
      and cb: "end_callback s4 r q = Some s6" and put: "fuse_put_request s6 r = Some s'"
      by (rule request_end_elim)
    have "waiting_inv k s4"
      using bg end_background_waiting [OF end_mark_waiting_inv [OF inv]] end_mark_waiting_inv [OF inv]
      by (auto simp: end_counters_def split: if_split_asm)
    then have "waiting_inv k s6"
      by (rule waiting_inv_cong) (simp_all add: request_end_callback [OF cb])
    then show ?thesis using put by (rule fuse_put_request_waiting)
  qed
qed

text \<open>
  Blocking is exact: the end of a background request unblocks the connection precisely when the
  number of requests falls under the limit. (The reply to INIT may change the limit.)
\<close>

lemma end_counts_blocked:
  assumes "blocked_inv s" and "num_background s \<noteq> 0"
  shows "blocked_inv (end_counts r s)"
proof -
  have "unat (num_background s - 1) = unat (num_background s) - 1"
    using assms(2) by (intro unat_dec_pos) (simp add: unat_gt_0)
  moreover have "0 < unat (num_background s)" using assms(2) by (simp add: unat_gt_0)
  ultimately show ?thesis
    using assms(1) by (auto simp: blocked_inv_def word_le_nat_alt word_unat_eq_iff)
qed

lemma run_end_max_background:
  "e \<noteq> End_init \<Longrightarrow> run_end e r q s = Some s' \<Longrightarrow> max_background s' = max_background s"
  by (auto simp: run_end_def)

lemma request_end_blocked:
  assumes inv: "bg_inv s" "blocked_inv s" and q: "reqs s r = Some q"
    and rep: "FR_BACKGROUND \<in> rq_flags q \<Longrightarrow> FR_ISREPLY \<in> rq_flags q"
    and ni: "rq_end q \<noteq> Some End_init"
    and run: "request_end s r = Some s'"
  shows "blocked_inv s'"
proof (cases "FR_FINISHED \<in> rq_flags q")
  case True
  then show ?thesis using run inv request_end_finished [OF q] by simp
next
  case False
  from run q False obtain s4 s6 where bg: "end_counters s r q = Some s4"
    and cb: "end_callback s4 r q = Some s6" and put: "fuse_put_request s6 r = Some s'"
    by (rule request_end_elim)
  note same = request_end_callback [OF cb]
  have s4: "blocked_inv s4"
  proof (cases "FR_BACKGROUND \<in> rq_flags q")
    case True
    have "r \<in> counted s" using True rep q by (simp add: counted_def)
    then have "0 < card (counted s)"
      using inv(1) by (auto simp: bg_inv_def card_gt_0_iff counted_finite)
    then have "num_background (end_mark s r q) \<noteq> 0" using inv(1) by (auto simp: bg_inv_def)
    then have "blocked_inv (end_counts r (end_mark s r q))"
      using inv(2) by (intro end_counts_blocked) (simp_all add: blocked_inv_def)
    then show ?thesis
      using flush_frame [OF bg [unfolded end_counters_def if_P [OF True] end_background_def]] by (simp add: blocked_inv_def)
  next
    case False
    then show ?thesis using bg inv(2) by (auto simp: end_counters_def blocked_inv_def)
  qed
  have "max_background s6 = max_background s4"
    using cb ni run_end_max_background [of _ r q "emit (Wake_req r) s4" s6]
    by (cases "rq_end q") (auto simp: end_callback_def)
  with s4 show ?thesis
    using fuse_put_request_frame [OF put] by (simp add: blocked_inv_def same)
qed

text \<open>The state in which \<open>fuse_request_send_background_locked\<close> queues its request.\<close>

definition send_bg_counts :: "req_id \<Rightarrow> fuse_state \<Rightarrow> fuse_state" where
  "send_bg_counts r s1 =
     (let s2 = upd_req r (set_flag FR_ISREPLY) s1;
          s3 = s2\<lparr>num_background := num_background s2 + 1\<rparr>;
          s4 = (if num_background s3 = max_background s3 then s3\<lparr>blocked := True\<rparr> else s3);
          s5 = (if num_background s4 = congestion_threshold s4 \<and> Bdi_initialized \<in> fc_bits s4
                then s4\<lparr>bdi_congested := True\<rparr> else s4)
      in s5\<lparr>bg_queue := bg_queue s5 @ [r]\<rparr>)"

lemma send_bg_counts_fields [simp]:
  "reqs (send_bg_counts r s) x = (if x = r then map_option (set_flag FR_ISREPLY) (reqs s x) else reqs s x)"
  "bg_queue (send_bg_counts r s) = bg_queue s @ [r]"
  "num_background (send_bg_counts r s) = num_background s + 1"
  "active_background (send_bg_counts r s) = active_background s"
  "max_background (send_bg_counts r s) = max_background s"
  "blocked (send_bg_counts r s) = (blocked s \<or> num_background s + 1 = max_background s)"
  "num_waiting (send_bg_counts r s) = num_waiting s"
  "next_id (send_bg_counts r s) = next_id s"
  "iq (send_bg_counts r s) = iq s"
  "devs (send_bg_counts r s) = devs s"
  "ffs (send_bg_counts r s) = ffs s"
  "filps (send_bg_counts r s) = filps s"
  "connected (send_bg_counts r s) = connected s"
  "initialized (send_bg_counts r s) = initialized s"
  "devices (send_bg_counts r s) = devices s"
  by (auto simp: send_bg_counts_def Let_def)

lemma send_background_elim:
  assumes "fuse_request_send_background_locked s r = Some s'"
  obtains q s1 where "reqs s r = Some q" and "FR_BACKGROUND \<in> rq_flags q"
    and "mark_waiting s r = Some s1" and "flush_bg_queue (send_bg_counts r s1) = Some s'"
  using assms unfolding fuse_request_send_background_locked_def send_bg_counts_def Let_def
  by (elim bind_Some_E) (auto elim!: bind_Some_E split: if_split_asm)

lemma mark_waiting_fields:
  assumes "mark_waiting s r = Some s'" and "reqs s r = Some q"
  shows "reqs s' r = Some (set_flag FR_WAITING q)"
    and "\<And>x. x \<noteq> r \<Longrightarrow> reqs s' x = reqs s x"
    and "bg_queue s' = bg_queue s" and "num_background s' = num_background s"
    and "active_background s' = active_background s" and "max_background s' = max_background s"
    and "blocked s' = blocked s" and "iq s' = iq s" and "devs s' = devs s"
    and "next_id s' = next_id s" and "connected s' = connected s"
  using assms
  by (auto simp: mark_waiting_def waiting_inc_def set_flag_def insert_absorb split: if_split_asm)

lemma mark_waiting_bg_inv:
  assumes "bg_inv s" and "mark_waiting s r = Some s'"
  shows "bg_inv s'"
proof -
  from assms(2) obtain q where q: "reqs s r = Some q" by (auto simp: mark_waiting_def elim: bind_Some_E)
  have "bg_inv (upd_req r (set_flag FR_WAITING) s)" by (rule bg_inv_upd_same [OF assms(1)]) simp
  moreover have "reqs s' = reqs (upd_req r (set_flag FR_WAITING) s)"
    using mark_waiting_fields(1,2) [OF assms(2) q] q by (auto simp: fun_eq_iff)
  ultimately show ?thesis
    using mark_waiting_fields(3-5) [OF assms(2) q] by (simp add: bg_inv_def counted_def)
qed

lemma mark_waiting_inv:
  assumes "waiting_inv k s" and "mark_waiting s r = Some s'"
  shows "waiting_inv k s'"
proof -
  from assms(2) obtain q where q: "reqs s r = Some q" by (auto simp: mark_waiting_def elim: bind_Some_E)
  show ?thesis
  proof (cases "FR_WAITING \<in> rq_flags q")
    case True
    then show ?thesis using assms q by (simp add: mark_waiting_def)
  next
    case False
    have inc: "waiting_inv (k + 1) (waiting_inc s)" using assms(1) by (rule waiting_inv_inc)
    have q': "reqs (waiting_inc s) r = Some q" by (simp add: waiting_inc_def q)
    have set: "waiting_inv k (upd_req r (set_flag FR_WAITING) (waiting_inc s))"
      by (rule waiting_inv_set [OF inc q' False]) simp
    have "reqs (waiting_inc (upd_req r (set_flag FR_WAITING) s)) =
        reqs (upd_req r (set_flag FR_WAITING) (waiting_inc s))"
      by (rule ext) (simp add: waiting_inc_def)
    with set have "waiting_inv k (waiting_inc (upd_req r (set_flag FR_WAITING) s))"
      by (rule waiting_inv_cong) (simp_all add: waiting_inc_def)
    then show ?thesis using assms(2) q False by (simp add: mark_waiting_def)
  qed
qed

lemma send_background_bg_inv:
  assumes inv: "bg_inv s" and new: "r \<notin> counted s" and room: "num_background s \<noteq> - 1"
    and run: "fuse_request_send_background_locked s r = Some s'"
  shows "bg_inv s'"
proof -
  from run obtain q s1 where q: "reqs s r = Some q" and bgf: "FR_BACKGROUND \<in> rq_flags q"
    and mw: "mark_waiting s r = Some s1" and fl: "flush_bg_queue (send_bg_counts r s1) = Some s'"
    by (rule send_background_elim)
  note f = mark_waiting_fields [OF mw q]
  have inv1: "bg_inv s1" using inv mw by (rule mark_waiting_bg_inv)
  have new1: "r \<notin> counted s1" using new q f(1) by (simp add: counted_def)
  have cnt: "counted (send_bg_counts r s1) = insert r (counted s1)"
    using bgf f(1) by (auto simp: counted_def split: if_splits)
  have fin: "finite (counted s1)" using inv1 by (simp add: bg_inv_def counted_finite)
  have nq: "r \<notin> set (bg_queue s1)" using inv1 new1 by (auto simp: bg_inv_def)
  have "dom (reqs (send_bg_counts r s1)) = dom (reqs s1)"
    by (auto simp: domIff split: if_splits)
  then have domf: "finite (dom (reqs (send_bg_counts r s1)))" using inv1 by (simp add: bg_inv_def)
  have num: "unat (num_background s1 + 1) = Suc (unat (num_background s1))"
    using room f(4) by (intro unat_inc_not_max) simp
  have act: "insert r (counted s1) - insert r (set (bg_queue s1)) = counted s1 - set (bg_queue s1)"
    using new1 by auto
  have "bg_inv (send_bg_counts r s1)"
    unfolding bg_inv_def
    using domf inv1 nq new1 fin num by (auto simp: cnt bg_inv_def act)
  with fl show ?thesis by (rule flush_bg_inv)
qed

lemma same_reqs_waiting_inv:
  assumes "waiting_inv k s" and "same_reqs s t" and "next_id t = next_id s"
    and "num_waiting t = num_waiting s"
  shows "waiting_inv k t"
  using assms same_reqs_waiting [OF assms(2)] same_reqs_dom [OF assms(2)] same_reqs_absent [OF assms(2)]
  by (simp add: waiting_inv_def)

lemma send_background_waiting:
  assumes inv: "waiting_inv k s" and run: "fuse_request_send_background_locked s r = Some s'"
  shows "waiting_inv k s'"
proof -
  from run obtain q s1 where mw: "mark_waiting s r = Some s1"
    and fl: "flush_bg_queue (send_bg_counts r s1) = Some s'"
    by (rule send_background_elim)
  have "waiting_inv k (upd_req r (set_flag FR_ISREPLY) s1)"
    using mark_waiting_inv [OF inv mw] by (rule waiting_inv_upd_same) simp
  moreover have "reqs (send_bg_counts r s1) = reqs (upd_req r (set_flag FR_ISREPLY) s1)"
    by (rule ext) simp
  ultimately have "waiting_inv k (send_bg_counts r s1)"
    by (rule waiting_inv_cong) simp_all
  then show ?thesis
    using flush_same_reqs [OF fl] by (rule same_reqs_waiting_inv) (simp_all add: flush_frame [OF fl])
qed

lemma send_background_blocked:
  assumes inv: "blocked_inv s" and room: "num_background s \<noteq> - 1"
    and run: "fuse_request_send_background_locked s r = Some s'"
  shows "blocked_inv s'"
proof -
  from run obtain q s1 where q: "reqs s r = Some q" and mw: "mark_waiting s r = Some s1"
    and fl: "flush_bg_queue (send_bg_counts r s1) = Some s'"
    by (rule send_background_elim)
  note f = mark_waiting_fields [OF mw q]
  have num: "unat (num_background s + 1) = Suc (unat (num_background s))"
    using room by (rule unat_inc_not_max)
  have "blocked_inv (send_bg_counts r s1)"
    using inv num by (auto simp: blocked_inv_def f word_le_nat_alt word_unat_eq_iff)
  then show ?thesis using flush_frame(1-3) [OF fl] by (simp add: blocked_inv_def)
qed

subsection \<open>Properties\<close>

text \<open>
  C14: sending a background request keeps the accounting of the connection: \<open>num_background\<close> counts
  the background requests sent and not ended, \<open>active_background\<close> those of them that left the
  background queue, the connection is blocked exactly from its limit on, and \<open>num_waiting\<close> counts
  the requests with \<open>FR_WAITING\<close>.
\<close>

theorem send_background_accounting:
  assumes "bg_inv s" and "blocked_inv s" and "waiting_inv k s"
    and "r \<notin> counted s" and "num_background s \<noteq> - 1"
    and "fuse_request_send_background_locked s r = Some s'"
  shows "bg_inv s' \<and> blocked_inv s' \<and> waiting_inv k s'"
  using assms send_background_bg_inv send_background_blocked send_background_waiting by blast

definition example_background :: fuse_state where
  "example_background = with_reqs [(5, req_with {FR_BACKGROUND, FR_PENDING})] example_conn"

lemmas example_background_defs = example_background_def example_defs FUSE_DEFAULT_MAX_BACKGROUND_def
  FUSE_DEFAULT_CONGESTION_THRESHOLD_def

lemma send_background_accounting_witness:
  "\<exists>s'. fuse_request_send_background_locked example_background 5 = Some s' \<and>
     bg_inv s' \<and> blocked_inv s' \<and> waiting_inv 0 s' \<and> num_background example_background = 0"
proof -
  have "bg_inv example_background" and "blocked_inv example_background"
      and "waiting_inv 0 example_background" and "5 \<notin> counted example_background"
      and "num_background example_background \<noteq> - 1"
    by (auto simp: bg_inv_def blocked_inv_def waiting_inv_def waiting_reqs_def counted_def
        example_background_defs)
  moreover have "\<exists>s'. fuse_request_send_background_locked example_background 5 = Some s'"
    unfolding fuse_request_send_background_locked_def
    by (simp add: example_background_defs mark_waiting_def Let_def flush_bg_queue.simps
        waiting_inc_def upd_req_def set_flag_def)
  moreover have "num_background example_background = 0" by (simp add: example_background_defs)
  ultimately show ?thesis using send_background_accounting [of example_background 0 5] by blast
qed

end
