(* ===== verification/Fuse_Forget.thy ===== *)
theory Fuse_Forget
  imports Fuse_Background
begin

text \<open>
  The list of pending FORGET messages (\<open>struct fuse_iqueue\<close>, \<open>fuse_queue_forget\<close> and
  \<open>dequeue_forget\<close> of \<open>dev.c\<close>) at two levels: as the singly linked list with a tail pointer of the
  source, and as the list \<open>forget_list\<close> of the connection state.

  The locale \<open>forget_fifo\<close> is the contract between the list and its users: enqueueing appends,
  dequeueing removes a prefix. It is interpreted on both levels; what its users rely on (no
  message is lost, duplicated or overtaken in any run of operations) is proved once in it.
\<close>

subsection \<open>The contract\<close>

datatype 'x fifo_op = Fifo_enq 'x | Fifo_deq nat

text \<open>A run of operations: what came out, what went in, and the queue afterwards.\<close>

fun fifo_run ::
    "('x \<Rightarrow> 'q \<Rightarrow> 'a) \<Rightarrow> ('x \<Rightarrow> 'q \<Rightarrow> 'q) \<Rightarrow> (nat \<Rightarrow> 'q \<Rightarrow> 'a list \<times> 'q) \<Rightarrow> 'x fifo_op list \<Rightarrow> 'q \<Rightarrow>
       'a list \<times> 'a list \<times> 'q" where
  "fifo_run item enq deq [] q = ([], [], q)"
| "fifo_run item enq deq (Fifo_enq x # ops) q =
     (let (out, ins, q') = fifo_run item enq deq ops (enq x q) in (out, item x q # ins, q'))"
| "fifo_run item enq deq (Fifo_deq n # ops) q =
     (let (d, q1) = deq n q; (out, ins, q') = fifo_run item enq deq ops q1 in (d @ out, ins, q'))"

text \<open>Every enqueued object is fresh when it is enqueued.\<close>

fun fifo_fresh ::
    "('x \<Rightarrow> 'q \<Rightarrow> bool) \<Rightarrow> ('x \<Rightarrow> 'q \<Rightarrow> 'q) \<Rightarrow> (nat \<Rightarrow> 'q \<Rightarrow> 'a list \<times> 'q) \<Rightarrow> 'x fifo_op list \<Rightarrow> 'q \<Rightarrow> bool"
where
  "fifo_fresh fresh enq deq [] q = True"
| "fifo_fresh fresh enq deq (Fifo_enq x # ops) q = (fresh x q \<and> fifo_fresh fresh enq deq ops (enq x q))"
| "fifo_fresh fresh enq deq (Fifo_deq n # ops) q = fifo_fresh fresh enq deq ops (snd (deq n q))"

locale forget_fifo =
  fixes rep :: "'q \<Rightarrow> 'a list \<Rightarrow> bool"
    and fresh :: "'x \<Rightarrow> 'q \<Rightarrow> bool"
    and item :: "'x \<Rightarrow> 'q \<Rightarrow> 'a"
    and enq :: "'x \<Rightarrow> 'q \<Rightarrow> 'q"
    and deq :: "nat \<Rightarrow> 'q \<Rightarrow> 'a list \<times> 'q"
  assumes rep_enq: "rep q as \<Longrightarrow> fresh x q \<Longrightarrow> rep (enq x q) (as @ [item x q])"
    and rep_deq: "rep q as \<Longrightarrow> deq n q = (out, q') \<Longrightarrow> out = take n as \<and> rep q' (drop n as)"
begin

lemma run_order:
  assumes "rep q as" and "fifo_fresh fresh enq deq ops q" and "fifo_run item enq deq ops q = (out, ins, q')"
  shows "\<exists>left. rep q' left \<and> as @ ins = out @ left"
  using assms
proof (induction ops arbitrary: q as out ins q')
  case Nil
  then show ?case by auto
next
  case (Cons op ops)
  show ?case
  proof (cases op)
    case (Fifo_enq x)
    obtain out1 ins1 q1 where r: "fifo_run item enq deq ops (enq x q) = (out1, ins1, q1)"
      by (cases "fifo_run item enq deq ops (enq x q)")
    have "rep (enq x q) (as @ [item x q])" using Cons.prems Fifo_enq by (intro rep_enq) simp_all
    moreover have "fifo_fresh fresh enq deq ops (enq x q)" using Cons.prems(2) Fifo_enq by simp
    ultimately obtain left where "rep q1 left" "(as @ [item x q]) @ ins1 = out1 @ left"
      using Cons.IH [OF _ _ r] by blast
    then show ?thesis using Cons.prems(3) r Fifo_enq by auto
  next
    case (Fifo_deq n)
    obtain d q1 where dq: "deq n q = (d, q1)" by force
    obtain out2 ins2 q2 where r: "fifo_run item enq deq ops q1 = (out2, ins2, q2)"
      by (cases "fifo_run item enq deq ops q1")
    have d: "d = take n as" "rep q1 (drop n as)" using rep_deq [OF Cons.prems(1) dq] by simp_all
    moreover have "fifo_fresh fresh enq deq ops q1" using Cons.prems(2) dq Fifo_deq by simp
    ultimately obtain left where "rep q2 left" "drop n as @ ins2 = out2 @ left"
      using Cons.IH [OF _ _ r] by blast
    then have "as @ ins2 = (d @ out2) @ left"
      using d(1) by (metis append.assoc append_take_drop_id)
    then show ?thesis using Cons.prems(3) dq r Fifo_deq \<open>rep q2 left\<close> by auto
  qed
qed

end

subsection \<open>The linked list of the source\<close>

text \<open>
  \<open>fq_next\<close> is the \<open>next\<close> field of the links; address 0 is the embedded \<open>forget_list_head\<close>. The cell
  \<open>newhead\<close> points at is \<open>None\<close> for the local variable \<open>head\<close>, else the \<open>next\<close> field of a link.
\<close>

type_synonym addr = nat

record forget_queue =
  fq_next :: "addr \<Rightarrow> addr option"
  fq_one :: "addr \<Rightarrow> fuse_forget_one"
  fq_tail :: addr

definition forget_link :: "addr \<Rightarrow> forget_queue \<Rightarrow> forget_queue" where
  \<comment> \<open>the list part of \<open>fuse_queue_forget\<close>\<close>
  "forget_link a q = q\<lparr>fq_next := (fq_next q)(fq_tail q := Some a), fq_tail := a\<rparr>"

definition cell_value :: "(addr \<Rightarrow> addr option) \<Rightarrow> addr option \<Rightarrow> addr option \<Rightarrow> addr option" where
  "cell_value nx head newhead = (case newhead of None \<Rightarrow> head | Some a \<Rightarrow> nx a)"

function walk_forget ::
    "(addr \<Rightarrow> addr option) \<Rightarrow> addr option \<Rightarrow> nat \<Rightarrow> addr option \<Rightarrow> nat \<Rightarrow> addr option \<times> nat" where
  "walk_forget nx head mx newhead count =
     (if cell_value nx head newhead \<noteq> None \<and> count < mx
      then walk_forget nx head mx (cell_value nx head newhead) (Suc count)
      else (newhead, count))"
  by pat_completeness auto
termination by (relation "measure (\<lambda>(nx, head, mx, newhead, count). mx - count)") auto

declare walk_forget.simps [simp del]

definition dequeue_forget :: "nat \<Rightarrow> forget_queue \<Rightarrow> (addr option \<times> nat) \<times> forget_queue" where
  "dequeue_forget mx q =
     (let head = fq_next q 0;
          (newhead, count) = walk_forget (fq_next q) head mx None 0;
          rest = cell_value (fq_next q) head newhead;
          nx1 = (fq_next q)(0 := rest);
          (head1, nx2) = (case newhead of None \<Rightarrow> (None, nx1) | Some a \<Rightarrow> (head, nx1(a := None)))
      in ((head1, count),
          q\<lparr>fq_next := nx2, fq_tail := (if rest = None then 0 else fq_tail q)\<rparr>))"

text \<open>The loop of \<open>fuse_read_batch_forget\<close> over the links that were taken off.\<close>

fun forgets_of :: "nat \<Rightarrow> forget_queue \<Rightarrow> addr option \<Rightarrow> fuse_forget_one list" where
  "forgets_of (Suc k) q (Some a) = fq_one q a # forgets_of k q (fq_next q a)"
| "forgets_of _ q _ = []"

definition take_forgets :: "nat \<Rightarrow> forget_queue \<Rightarrow> fuse_forget_one list \<times> forget_queue" where
  "take_forgets mx q =
     (let ((head, count), q1) = dequeue_forget mx q in (forgets_of count q1 head, q1))"

fun chain :: "(addr \<Rightarrow> addr option) \<Rightarrow> addr option \<Rightarrow> addr list \<Rightarrow> bool" where
  "chain nx p [] = (p = None)"
| "chain nx p (a # as) = (p = Some a \<and> chain nx (nx a) as)"

definition links :: "forget_queue \<Rightarrow> addr list \<Rightarrow> bool" where
  "links q as \<longleftrightarrow> chain (fq_next q) (fq_next q 0) as \<and> distinct (0 # as) \<and> fq_tail q = last (0 # as)"

definition forget_rep :: "forget_queue \<Rightarrow> fuse_forget_one list \<Rightarrow> bool" where
  "forget_rep q fs \<longleftrightarrow> (\<exists>as. links q as \<and> fs = map (fq_one q) as)"

definition forget_unlinked :: "addr \<Rightarrow> forget_queue \<Rightarrow> bool" where
  "forget_unlinked a q \<longleftrightarrow> a \<noteq> 0 \<and> fq_next q a = None \<and> a \<noteq> fq_tail q \<and> (\<forall>b. fq_next q b \<noteq> Some a)"

lemma chain_mem: "chain nx p as \<Longrightarrow> a \<in> set as \<Longrightarrow> p = Some a \<or> (\<exists>b. nx b = Some a)"
  by (induction nx p as rule: chain.induct) auto

lemma chain_upd: "a \<notin> set as \<Longrightarrow> chain (nx(a := v)) p as = chain nx p as"
  by (induction nx p as rule: chain.induct) auto

lemma chain_snoc:
  assumes "chain nx (nx b) as" and "distinct (b # as)" and "a \<notin> set (b # as)" and "nx a = None"
  shows "chain (nx(last (b # as) := Some a)) ((nx(last (b # as) := Some a)) b) (as @ [a])"
  using assms
proof (induction as arbitrary: b)
  case Nil
  then show ?case by auto
next
  case (Cons c as)
  then have "nx b = Some c" "chain nx (nx c) as" by auto
  moreover have "last (c # as) \<noteq> b" using Cons.prems(2) last_in_set [of "c # as"] by auto
  ultimately show ?case using Cons by auto
qed

lemma links_enq:
  assumes "links q as" and "forget_unlinked a q"
  shows "links (forget_link a q) (as @ [a])"
proof -
  have na: "a \<notin> set (0 # as)"
    using assms chain_mem by (fastforce simp: links_def forget_unlinked_def)
  have "chain (fq_next (forget_link a q)) (fq_next (forget_link a q) 0) (as @ [a])"
    using assms na chain_snoc [of "fq_next q" 0 as a]
    by (simp add: links_def forget_link_def forget_unlinked_def)
  then show ?thesis using assms na by (auto simp: links_def forget_link_def)
qed

text \<open>The cell \<open>newhead\<close> after \<open>k\<close> steps, and where the walk ends.\<close>

definition cell_at :: "addr list \<Rightarrow> nat \<Rightarrow> addr option" where
  "cell_at as k = (if k = 0 then None else Some (as ! (k - 1)))"

lemma chain_nth:
  "chain nx p as \<Longrightarrow> k < length as \<Longrightarrow> (if k = 0 then p else nx (as ! (k - 1))) = Some (as ! k)"
proof (induction as arbitrary: p k)
  case Nil
  then show ?case by simp
next
  case (Cons a as)
  then show ?case
    using Cons.IH [of "nx a" "k - 1"] by (cases "k = 0"; cases "k = 1") auto
qed

lemma chain_end: "chain nx p as \<Longrightarrow> (if as = [] then p else nx (last as)) = None"
  by (induction nx p as rule: chain.induct) (auto split: if_splits)

lemma cell_value_at:
  assumes "chain nx p as" and "k \<le> length as"
  shows "cell_value nx p (cell_at as k) = (if k < length as then Some (as ! k) else None)"
proof (cases "k < length as")
  case True
  then show ?thesis using chain_nth [OF assms(1) True] by (auto simp: cell_value_def cell_at_def)
next
  case False
  then have "k = length as" using assms(2) by simp
  then show ?thesis
    using chain_end [OF assms(1)] by (auto simp: cell_value_def cell_at_def last_conv_nth)
qed

lemma walk_forget_spec:
  assumes "chain nx p as" and "k \<le> length as" and "k \<le> mx"
  shows "walk_forget nx p mx (cell_at as k) k = (cell_at as (min mx (length as)), min mx (length as))"
  using assms(2,3)
proof (induction "mx - k" arbitrary: k)
  case 0
  then have "k = mx" by simp
  then show ?case using 0 by (subst walk_forget.simps) simp
next
  case (Suc d)
  show ?case
  proof (cases "k < length as")
    case True
    then have "cell_value nx p (cell_at as k) = cell_at as (Suc k)"
      using cell_value_at [OF assms(1), of k] by (simp add: cell_at_def)
    then show ?thesis
      using True Suc.hyps(1) [of "Suc k"] Suc.hyps(2) Suc.prems cell_value_at [OF assms(1), of k]
      by (subst walk_forget.simps) (simp add: cell_at_def)
  next
    case False
    then have "k = length as" using Suc.prems by simp
    then show ?thesis
      using cell_value_at [OF assms(1), of k] Suc.hyps(2) by (subst walk_forget.simps) simp
  qed
qed

lemma chain_drop:
  "chain nx p as \<Longrightarrow> k \<le> length as \<Longrightarrow> chain nx (cell_value nx p (cell_at as k)) (drop k as)"
proof (induction as arbitrary: p k)
  case Nil
  then show ?case by (simp add: cell_value_def cell_at_def)
next
  case (Cons a as)
  show ?case
  proof (cases k)
    case 0
    then show ?thesis using Cons.prems by (simp add: cell_value_def cell_at_def)
  next
    case (Suc j)
    then have "chain nx (cell_value nx (nx a) (cell_at as j)) (drop j as)"
      using Cons by simp
    then show ?thesis
      using Suc Cons.prems by (cases j) (simp_all add: cell_value_def cell_at_def)
  qed
qed

lemma chain_cut:
  "chain nx p as \<Longrightarrow> distinct as \<Longrightarrow> 0 < k \<Longrightarrow> k \<le> length as \<Longrightarrow>
     chain (nx(as ! (k - 1) := None)) p (take k as)"
proof (induction as arbitrary: p k)
  case Nil
  then show ?case by simp
next
  case (Cons a as)
  show ?case
  proof (cases "k = 1")
    case True
    then show ?thesis using Cons.prems by simp
  next
    case False
    then obtain j where k: "k = Suc (Suc j)" using Cons.prems(3) by (metis One_nat_def Suc_pred neq0_conv)
    let ?cut = "nx(as ! j := None)"
    have tl: "chain ?cut (nx a) (take (Suc j) as)"
      by (rule Cons.IH [of "nx a" "Suc j", unfolded diff_Suc_1]) (use Cons.prems k in auto)
    have ne: "a \<noteq> as ! j" using Cons.prems(2,4) k nth_mem [of j as] by auto
    have at: "(a # as) ! (k - 1) = as ! j" using k by simp
    have "p = Some a" using Cons.prems(1) by simp
    then show ?thesis unfolding at k take_Suc_Cons chain.simps using tl by (simp add: ne)
  qed
qed

lemma links_dequeue:
  assumes "links q as" and "dequeue_forget mx q = ((head, count), q')"
  shows "count = min mx (length as) \<and> links q' (drop mx as) \<and>
     chain (fq_next q') head (take mx as) \<and> fq_one q' = fq_one q"
proof -
  let ?nx = "fq_next q" and ?k = "min mx (length as)"
  let ?rest = "cell_value ?nx (?nx 0) (cell_at as ?k)"
  have ch: "chain ?nx (?nx 0) as" and di: "distinct (0 # as)" and tl: "fq_tail q = last (0 # as)"
    using assms(1) by (auto simp: links_def)
  have w: "walk_forget ?nx (?nx 0) mx None 0 = (cell_at as ?k, ?k)"
    using walk_forget_spec [OF ch, of 0 mx] by (simp add: cell_at_def)
  have rest: "?rest = (if ?k < length as then Some (as ! ?k) else None)"
    by (rule cell_value_at [OF ch]) simp
  have dr: "chain ?nx ?rest (drop mx as)"
    using chain_drop [OF ch, of ?k] by (cases "mx \<le> length as") (simp_all add: min_def)
  have tk: "take ?k as = take mx as" by (simp add: min_def)
  have tail: "(if ?rest = None then 0 else fq_tail q) = last (0 # drop mx as)"
    using rest tl by (auto simp: min_def split: if_splits)
  show ?thesis
  proof (cases "?k = 0")
    case True
    then have "(head, count) = (None, 0)" and q': "q' = q\<lparr>fq_next := ?nx(0 := ?rest),
        fq_tail := (if ?rest = None then 0 else fq_tail q)\<rparr>"
      using assms(2) w by (simp_all add: dequeue_forget_def Let_def cell_at_def)
    moreover have "take mx as = []" using True by (auto simp: min_def split: if_splits)
    moreover have "0 \<notin> set (drop mx as)" using di set_drop_subset by fastforce
    ultimately show ?thesis
      using dr tail di True by (auto simp: links_def chain_upd distinct_drop)
  next
    case False
    let ?last = "as ! (?k - 1)"
    have c: "cell_at as ?k = Some ?last" using False by (simp add: cell_at_def)
    let ?q = "q\<lparr>fq_next := (?nx(0 := ?rest))(?last := None),
        fq_tail := (if ?rest = None then 0 else fq_tail q)\<rparr>"
    have "dequeue_forget mx q = ((?nx 0, ?k), ?q)"
      unfolding dequeue_forget_def Let_def w c by simp
    with assms(2) have "head = ?nx 0" and "count = ?k" and q': "q' = ?q" by auto
    moreover have "?last \<in> set (take mx as)"
    proof -
      have "?k - 1 < length (take mx as)" using False unfolding length_take min.commute [of "length as"] by linarith
      then show ?thesis by (metis nth_mem nth_take length_take min_less_iff_conj)
    qed
    moreover have dj: "set (take mx as) \<inter> set (drop mx as) = {}"
      using di by (metis append_take_drop_id distinct.simps(2) distinct_append)
    moreover have "?last \<notin> set (drop mx as)" using calculation by blast
    moreover have z: "0 \<notin> set (take mx as)" "0 \<notin> set (drop mx as)"
      using di set_take_subset set_drop_subset by fastforce+
    moreover have "chain (?nx(?last := None)) (?nx 0) (take mx as)"
      using chain_cut [OF ch, of ?k] di False tk by simp
    moreover have "((?nx(0 := ?rest))(?last := None)) = ((?nx(?last := None))(0 := ?rest))"
      using calculation by (intro fun_upd_twist) auto
    ultimately show ?thesis
      using dr tail di by (auto simp: links_def chain_upd distinct_drop)
  qed
qed

lemma forgets_of_chain: "chain (fq_next q) p as \<Longrightarrow> forgets_of (length as) q p = map (fq_one q) as"
  by (induction "fq_next q" p as rule: chain.induct) auto

lemma take_forgets_spec:
  assumes "forget_rep q fs" and "take_forgets mx q = (out, q')"
  shows "out = take mx fs \<and> forget_rep q' (drop mx fs)"
proof -
  from assms(1) obtain as where as: "links q as" "fs = map (fq_one q) as" by (auto simp: forget_rep_def)
  from assms(2) obtain head count where d: "dequeue_forget mx q = ((head, count), q')"
      and out: "out = forgets_of count q' head"
    by (auto simp: take_forgets_def split: prod.splits)
  note l = links_dequeue [OF as(1) d]
  note out
  moreover have "count = length (take mx as)" using l by simp
  ultimately show ?thesis
    using l as(2) forgets_of_chain [of q' head "take mx as"]
    by (auto simp: forget_rep_def take_map drop_map)
qed

text \<open>The linked list meets the contract.\<close>

interpretation forget_pointers: forget_fifo forget_rep forget_unlinked
    "\<lambda>a q. fq_one q a" forget_link take_forgets
proof
  fix q fs a
  assume "forget_rep q fs" "forget_unlinked a q"
  then obtain as where "links q as" "fs = map (fq_one q) as" by (auto simp: forget_rep_def)
  then show "forget_rep (forget_link a q) (fs @ [fq_one q a])"
    using links_enq [of q as a] \<open>forget_unlinked a q\<close>
    by (auto simp: forget_rep_def forget_link_def intro!: exI [of _ "as @ [a]"])
next
  fix q fs n out q'
  assume "forget_rep q fs" "take_forgets n q = (out, q')"
  then show "out = take n fs \<and> forget_rep q' (drop n fs)" by (rule take_forgets_spec)
qed

subsection \<open>The list of the connection\<close>

definition state_dequeue :: "nat \<Rightarrow> fuse_state \<Rightarrow> fuse_forget_one list \<times> fuse_state" where
  "state_dequeue n s =
     (take n (forget_list (iq s)), s\<lparr>iq := (iq s)\<lparr>forget_list := drop n (forget_list (iq s))\<rparr>\<rparr>)"

definition state_forgets :: "fuse_state \<Rightarrow> fuse_forget_one list \<Rightarrow> bool" where
  "state_forgets s fs \<longleftrightarrow> iq_connected (iq s) \<and> forget_list (iq s) = fs"

definition state_enqueue :: "fuse_forget_one \<Rightarrow> fuse_state \<Rightarrow> fuse_state" where
  "state_enqueue f s = fuse_queue_forget (fo_nodeid f) (fo_nlookup f) s"

interpretation forget_state: forget_fifo state_forgets "\<lambda>f s. True" "\<lambda>f s. f" state_enqueue state_dequeue
  by unfold_locales
    (auto simp: state_forgets_def state_enqueue_def state_dequeue_def fuse_queue_forget_def Let_def)

text \<open>
  What a server learns about a node: the lookups it is told to forget and those still queued add up
  to what was queued before and meanwhile.
\<close>

definition forgotten :: "u64 \<Rightarrow> fuse_forget_one list \<Rightarrow> nat" where
  "forgotten n fs = (\<Sum>f\<leftarrow>fs. if fo_nodeid f = n then unat (fo_nlookup f) else 0)"

lemma forgotten_append [simp]: "forgotten n (xs @ ys) = forgotten n xs + forgotten n ys"
  by (simp add: forgotten_def)

subsection \<open>Properties\<close>

text \<open>
  C17: in any run of \<open>fuse_queue_forget\<close> and \<open>dequeue_forget\<close> on the pointer structure of the source,
  started on a well-formed list, the messages leave in the order they came, none is lost or
  duplicated, and the structure stays well formed; so the lookup counts of every node are conserved.
\<close>

theorem forget_queue_conserves:
  assumes "forget_rep q fs" and "fifo_fresh forget_unlinked forget_link take_forgets ops q"
    and "fifo_run (\<lambda>a q. fq_one q a) forget_link take_forgets ops q = (out, ins, q')"
  shows "\<exists>left. forget_rep q' left \<and> fs @ ins = out @ left \<and>
     forgotten n fs + forgotten n ins = forgotten n out + forgotten n left"
proof -
  obtain left where "forget_rep q' left" and "fs @ ins = out @ left"
    using forget_pointers.run_order [OF assms] by blast
  then show ?thesis by (metis forgotten_append)
qed

definition example_forgets :: forget_queue where
  "example_forgets = \<lparr>fq_next = (\<lambda>_. None),
     fq_one = (\<lambda>a. \<lparr>fo_nodeid = of_nat a, fo_nlookup = 1\<rparr>), fq_tail = 0\<rparr>"

lemma forget_queue_conserves_witness:
  "\<exists>out ins q' left. fifo_run (\<lambda>a q. fq_one q a) forget_link take_forgets
       [Fifo_enq 1, Fifo_enq 2, Fifo_deq 1, Fifo_enq 3, Fifo_deq 5] example_forgets = (out, ins, q') \<and>
     length out = 3 \<and> forget_rep q' left \<and> ins = out @ left \<and>
     forgotten 2 ins = forgotten 2 out + forgotten 2 left"
proof -
  let ?ops = "[Fifo_enq 1, Fifo_enq 2, Fifo_deq 1, Fifo_enq 3, Fifo_deq 5]"
  have "forget_rep example_forgets []"
    by (simp add: forget_rep_def links_def example_forgets_def)
  moreover have "fifo_fresh forget_unlinked forget_link take_forgets ?ops example_forgets"
    by (simp add: forget_unlinked_def forget_link_def example_forgets_def take_forgets_def
        dequeue_forget_def walk_forget.simps cell_value_def Let_def eval_nat_numeral)
  moreover obtain out ins q' where "fifo_run (\<lambda>a q. fq_one q a) forget_link take_forgets ?ops
      example_forgets = (out, ins, q')" and "length out = 3"
    by (simp add: forget_link_def example_forgets_def take_forgets_def
        dequeue_forget_def walk_forget.simps cell_value_def Let_def eval_nat_numeral)
  ultimately show ?thesis
    using forget_queue_conserves [of example_forgets "[]" ?ops out ins q' 2]
    by (auto simp: forgotten_def)
qed

end
