(* ===== verification/Fuse_Copy.thy ===== *)
theory Fuse_Copy
  imports Fuse_Background
begin

text \<open>
  Copying a request between the kernel and the server (\<open>dev.c\<close>): \<open>struct fuse_copy_state\<close>, the
  locking of the request around each page of the server's buffer, and \<open>fuse_copy_one\<close>,
  \<open>fuse_copy_page\<close>, \<open>fuse_copy_pages\<close> and \<open>fuse_copy_args\<close>.

  \<^item> \<open>cs_write\<close> is a copy to the server. The server's buffer is an iovec, which \<open>cs_iter\<close> lists as
    the results of the coming calls of \<open>iov_iter_get_pages\<close> (an errno or the bytes of the next
    page of the buffer), or a pipe, with \<open>cs_bufs\<close> the buffers to read and \<open>cs_slots\<close> the free
    slots to write.
  \<^item> \<open>cs_win\<close> are the bytes of the mapped page that are not used yet; its length is \<open>cs->len\<close>.
    \<open>cs_pg\<close> says that a page is mapped. \<open>cs_sent\<close> collects what was written to the server.
  \<^item> Another thread can abort the connection while the request is unlocked: \<open>cs_aborts\<close> says for
    each coming call of \<open>lock_request\<close> and \<open>unlock_request\<close> whether the abort came before it.
  \<^item> \<open>None\<close> is a \<open>BUG_ON\<close>, or a use of a page that is not mapped.
\<close>

subsection \<open>State\<close>

datatype page_flag =
    PG_locked | PG_referenced | PG_uptodate | PG_lru | PG_active | PG_reclaim | PG_dirty
  | PG_writeback | PG_mlocked | PG_private | PG_reserved

text \<open>
  \<open>struct page\<close>, with the fields \<open>fuse_check_page\<close> looks at, and a buffer of a pipe: \<open>pb_confirm\<close> and
  \<open>pb_replace\<close> are the errnos \<open>pipe_buf_confirm\<close> and \<open>replace_page_cache_page\<close> fail with, 0 for success.
\<close>

record page =
  pg_data :: "u8 list"
  pg_mapcount :: nat
  pg_mapping :: bool
  pg_count :: int
  pg_flags :: "page_flag set"

record pipe_buffer =
  pb_page :: page_id
  pb_data :: "u8 list"
  pb_offset :: nat
  pb_confirm :: nat
  pb_stealable :: bool
  pb_replace :: nat

record fuse_copy_state =
  cs_write :: bool
  cs_req :: "fuse_req option"
  cs_iter :: "(int + u8 list) list"
  cs_pipe :: bool
  cs_bufs :: "pipe_buffer list"
  cs_slots :: nat
  cs_oom :: "bool list"
  cs_pg :: bool
  cs_win :: "u8 list"
  cs_move_pages :: bool
  cs_sent :: "u8 list"
  cs_mem :: "page_id \<Rightarrow> page"
  cs_aborts :: "bool list"

text \<open>\<open>fuse_copy_init\<close>, with the memory and the interference of the other threads.\<close>

definition fuse_copy_init ::
    "bool \<Rightarrow> (int + u8 list) list \<Rightarrow> (page_id \<Rightarrow> page) \<Rightarrow> bool list \<Rightarrow> fuse_copy_state" where
  "fuse_copy_init wr iter mem aborts = \<lparr>cs_write = wr, cs_req = None, cs_iter = iter, cs_pipe = False,
     cs_bufs = [], cs_slots = 0, cs_oom = [], cs_pg = False, cs_win = [], cs_move_pages = False,
     cs_sent = [], cs_mem = mem, cs_aborts = aborts\<rparr>"

subsection \<open>Locking the request\<close>

text \<open>The request as the next critical section finds it: aborted or not.\<close>

definition see_abort :: "fuse_copy_state \<Rightarrow> fuse_req \<Rightarrow> fuse_req \<times> fuse_copy_state" where
  "see_abort cs q = (case cs_aborts cs of
      [] \<Rightarrow> (q, cs)
    | a # as \<Rightarrow> (if a then set_flag FR_ABORTED q else q, cs\<lparr>cs_aborts := as\<rparr>))"

definition lock_request :: "fuse_copy_state \<Rightarrow> int \<times> fuse_copy_state" where
  "lock_request cs = (case cs_req cs of
      None \<Rightarrow> (0, cs)
    | Some q0 \<Rightarrow> (let (q, cs1) = see_abort cs q0 in
        if FR_ABORTED \<in> rq_flags q then (- ENOENT, cs1\<lparr>cs_req := Some q\<rparr>)
        else (0, cs1\<lparr>cs_req := Some (set_flag FR_LOCKED q)\<rparr>)))"

definition unlock_request :: "fuse_copy_state \<Rightarrow> int \<times> fuse_copy_state" where
  "unlock_request cs = (case cs_req cs of
      None \<Rightarrow> (0, cs)
    | Some q0 \<Rightarrow> (let (q, cs1) = see_abort cs q0 in
        if FR_ABORTED \<in> rq_flags q then (- ENOENT, cs1\<lparr>cs_req := Some q\<rparr>)
        else (0, cs1\<lparr>cs_req := Some (clear_flag FR_LOCKED q)\<rparr>)))"

subsection \<open>The next page of the server's buffer\<close>

definition fuse_copy_finish :: "fuse_copy_state \<Rightarrow> fuse_copy_state" where
  "fuse_copy_finish cs = cs\<lparr>cs_pg := False\<rparr>"

definition map_page :: "u8 list \<Rightarrow> fuse_copy_state \<Rightarrow> fuse_copy_state" where
  "map_page bs cs = cs\<lparr>cs_pg := True, cs_win := bs\<rparr>"

text \<open>The part of \<open>fuse_copy_fill\<close> between the two critical sections.\<close>

definition next_page :: "fuse_copy_state \<Rightarrow> (int \<times> fuse_copy_state) option" where
  "next_page cs =
     (if cs_pipe cs then
        (if \<not> cs_write cs then
           (case cs_bufs cs of
              [] \<Rightarrow> None
            | b # bs \<Rightarrow>
                if pb_confirm b \<noteq> 0 then Some (- int (pb_confirm b), cs)
                else Some (0, map_page (pb_data b) (cs\<lparr>cs_bufs := bs\<rparr>)))
         else if cs_slots cs = 0 then Some (- EIO, cs)
         else if cs_oom cs \<noteq> [] \<and> hd (cs_oom cs) then Some (- ENOMEM, cs\<lparr>cs_oom := tl (cs_oom cs)\<rparr>)
         else Some (0, map_page (replicate PAGE_SIZE 0)
                (cs\<lparr>cs_slots := cs_slots cs - 1, cs_oom := tl (cs_oom cs)\<rparr>)))
      else
        (case cs_iter cs of
           [] \<Rightarrow> None
         | Inl e # it \<Rightarrow> if e < 0 then Some (e, cs) else None
         | Inr bs # it \<Rightarrow>
             if bs = [] then None else Some (0, map_page bs (cs\<lparr>cs_iter := it\<rparr>))))"

definition fuse_copy_fill :: "fuse_copy_state \<Rightarrow> (int \<times> fuse_copy_state) option" where
  "fuse_copy_fill cs0 =
     (let (err, cs1) = unlock_request cs0 in
      if err \<noteq> 0 then Some (err, cs1)
      else map_option (\<lambda>(e, cs2). if e \<noteq> 0 then (e, cs2) else lock_request cs2)
             (next_page (fuse_copy_finish cs1)))"

text \<open>
  \<open>fuse_copy_do\<close> for a region of \<open>sz\<close> bytes: \<open>val\<close> is its contents, or \<open>None\<close> for the NULL pointer
  of an absent page. The result is the new contents of the bytes that were done.
\<close>

definition fuse_copy_do ::
    "fuse_copy_state \<Rightarrow> u8 list option \<Rightarrow> nat \<Rightarrow> (u8 list \<times> nat \<times> fuse_copy_state) option" where
  "fuse_copy_do cs val sz =
     (let ncpy = min sz (length (cs_win cs));
          w = take ncpy (cs_win cs);
          cs' = cs\<lparr>cs_win := drop ncpy (cs_win cs)\<rparr>
      in case val of
           None \<Rightarrow> Some (w, ncpy, if cs_write cs then cs'\<lparr>cs_sent := cs_sent cs @ w\<rparr> else cs')
         | Some v \<Rightarrow>
             if \<not> cs_pg cs then None
             else if cs_write cs then
               Some (take ncpy v, ncpy, cs'\<lparr>cs_sent := cs_sent cs @ take ncpy v\<rparr>)
             else Some (w, ncpy, cs'))"

text \<open>How much of the server's buffer is still to come, for the termination of the loops.\<close>

definition cs_left :: "fuse_copy_state \<Rightarrow> nat" where
  "cs_left cs = length (cs_iter cs) + length (cs_bufs cs) + cs_slots cs"

lemma lock_request_left [simp]:
  "cs_left (snd (lock_request cs)) = cs_left cs"
  "cs_win (snd (lock_request cs)) = cs_win cs"
  "cs_left (snd (unlock_request cs)) = cs_left cs"
  by (auto simp: lock_request_def unlock_request_def see_abort_def cs_left_def Let_def
      split: option.split list.split)

lemma next_page_left: "next_page cs = Some (0, cs') \<Longrightarrow> cs_left cs' < cs_left cs"
  by (auto simp: next_page_def map_page_def cs_left_def EIO_def ENOMEM_def
      split: if_split_asm list.split_asm sum.split_asm)

lemma fuse_copy_fill_elim:
  assumes "fuse_copy_fill cs = Some (0, cs')"
  obtains cs1 cs2 where "unlock_request cs = (0, cs1)"
    and "next_page (fuse_copy_finish cs1) = Some (0, cs2)" and "lock_request cs2 = (0, cs')"
  using assms
  by (auto simp: fuse_copy_fill_def Let_def split: prod.split_asm if_split_asm)

lemma fill_left:
  assumes "fuse_copy_fill cs = Some (0, cs')"
  shows "cs_left cs' < cs_left cs"
  using assms
proof (cases rule: fuse_copy_fill_elim)
  case (1 cs1 cs2)
  then show ?thesis
    using next_page_left [OF 1(2)] lock_request_left(1) [of cs2] lock_request_left(3) [of cs]
    by (simp add: fuse_copy_finish_def cs_left_def)
qed

subsection \<open>One value\<close>

text \<open>
  \<open>fuse_copy_one\<close>: \<open>val\<close> is the region of the kernel that is copied, and the result has its
  contents afterwards.
\<close>

function fuse_copy_one ::
    "fuse_copy_state \<Rightarrow> u8 list \<Rightarrow> (int \<times> u8 list \<times> fuse_copy_state) option" where
  "fuse_copy_one cs val =
     (if val = [] then Some (0, [], cs)
      else if cs_win cs = [] then
        (case fuse_copy_fill cs of
           None \<Rightarrow> None
         | Some (err, cs1) \<Rightarrow>
             if err \<noteq> 0 then Some (err, val, cs1)
             else
               (case fuse_copy_do cs1 (Some val) (length val) of
                  None \<Rightarrow> None
                | Some (got, n, cs2) \<Rightarrow>
                    map_option (\<lambda>(e, rest, cs3). (e, got @ rest, cs3)) (fuse_copy_one cs2 (drop n val))))
      else
        (case fuse_copy_do cs (Some val) (length val) of
           None \<Rightarrow> None
         | Some (got, n, cs2) \<Rightarrow>
             map_option (\<lambda>(e, rest, cs3). (e, got @ rest, cs3)) (fuse_copy_one cs2 (drop n val))))"
  by pat_completeness auto

lemma copy_do_left:
  "fuse_copy_do cs v n = Some (got, k, cs') \<Longrightarrow>
     cs_left cs' = cs_left cs \<and> k = min n (length (cs_win cs)) \<and> cs_win cs' = drop k (cs_win cs)"
  by (auto simp: fuse_copy_do_def cs_left_def Let_def split: option.split_asm if_split_asm)

termination fuse_copy_one
proof (relation "measures [\<lambda>(cs, val). cs_left cs, \<lambda>(cs, val). length val]", goal_cases)
  case 1
  show ?case by simp
next
  case (2 cs val f err cs1 d got y n cs2)
  then show ?case using fill_left [of cs cs1] copy_do_left [of cs1 "Some val" "length val" got n cs2] by simp
next
  case (3 cs val d got y n cs2)
  then show ?case using copy_do_left [of cs "Some val" "length val" got n cs2]
    by (cases val; cases "cs_win cs") auto
qed

declare fuse_copy_one.simps [simp del]

subsection \<open>Pages\<close>

text \<open>\<open>PAGE_FLAGS_CHECK_AT_PREP\<close> covers every flag of the enumeration.\<close>

definition fuse_check_page :: "page \<Rightarrow> bool" where
  "fuse_check_page p \<longleftrightarrow> pg_mapcount p \<noteq> 0 \<or> pg_mapping p \<or> pg_count p \<noteq> 1 \<or>
     pg_flags p - {PG_locked, PG_referenced, PG_uptodate, PG_lru, PG_active, PG_reclaim} \<noteq> {}"

definition oldpage_busy :: "page \<Rightarrow> bool" where
  "oldpage_busy p \<longleftrightarrow> pg_mapcount p \<noteq> 0 \<or> PG_private \<in> pg_flags p \<or> PG_dirty \<in> pg_flags p \<or>
     PG_writeback \<in> pg_flags p \<or> PG_mlocked \<in> pg_flags p"

definition set_page_data :: "page_id \<Rightarrow> u8 list \<Rightarrow> fuse_copy_state \<Rightarrow> fuse_copy_state" where
  "set_page_data p d cs = cs\<lparr>cs_mem := (cs_mem cs)(p := (cs_mem cs p)\<lparr>pg_data := d\<rparr>)\<rparr>"

text \<open>
  \<open>fuse_try_move_page\<close>: 1 is the fall-back to copying, with the page of the pipe mapped; on 0 the
  page of the request has been replaced by the page of the pipe.
\<close>

definition move_fallback :: "page_id \<Rightarrow> fuse_copy_state \<Rightarrow> int \<times> page_id \<times> fuse_copy_state" where
  "move_fallback pg cs =
     (let (err, cs1) = lock_request (cs\<lparr>cs_pg := True\<rparr>) in (if err \<noteq> 0 then err else 1, pg, cs1))"

definition move_commit ::
    "page_id \<Rightarrow> page_id \<Rightarrow> fuse_copy_state \<Rightarrow> (int \<times> page_id \<times> fuse_copy_state) option" where
  "move_commit pg new cs =
     (case cs_req cs of
        None \<Rightarrow> None
      | Some q0 \<Rightarrow> (let (q, cs1) = see_abort cs q0; cs2 = cs1\<lparr>cs_req := Some q\<rparr> in
          if FR_ABORTED \<in> rq_flags q then Some (- ENOENT, pg, cs2)
          else Some (0, new, cs2\<lparr>cs_win := []\<rparr>)))"

definition fuse_try_move_page ::
    "fuse_copy_state \<Rightarrow> page_id \<Rightarrow> (int \<times> page_id \<times> fuse_copy_state) option" where
  "fuse_try_move_page cs pg =
     (let (err, cs1) = unlock_request cs; cs2 = fuse_copy_finish cs1 in
      if err \<noteq> 0 then Some (err, pg, cs1)
      else case cs_bufs cs2 of
          [] \<Rightarrow> None
        | b # bs \<Rightarrow>
            if pb_confirm b \<noteq> 0 then Some (- int (pb_confirm b), pg, cs2)
            else
              let cs3 = cs2\<lparr>cs_bufs := bs, cs_win := pb_data b\<rparr>; new = pb_page b in
              if length (pb_data b) \<noteq> PAGE_SIZE \<or> \<not> pb_stealable b then Some (move_fallback pg cs3)
              else if fuse_check_page (cs_mem cs3 new) \<or> oldpage_busy (cs_mem cs3 pg)
              then Some (move_fallback pg cs3)
              else if pb_replace b \<noteq> 0 then Some (- int (pb_replace b), pg, cs3)
              else move_commit pg new (set_page_data new (pb_data b) cs3))"

definition fuse_ref_page ::
    "fuse_copy_state \<Rightarrow> page_id \<Rightarrow> nat \<Rightarrow> nat \<Rightarrow> int \<times> fuse_copy_state" where
  "fuse_ref_page cs pg offset count =
     (if cs_slots cs = 0 then (- EIO, cs)
      else let (err, cs1) = unlock_request cs in
        if err \<noteq> 0 then (err, cs1)
        else (0, (fuse_copy_finish cs1)\<lparr>cs_slots := cs_slots cs1 - 1, cs_win := [],
          cs_sent := cs_sent cs1 @ take count (drop offset (pg_data (cs_mem cs1 pg)))\<rparr>))"

text \<open>The copying part of the loop body of \<open>fuse_copy_page\<close>.\<close>

definition copy_page_bytes ::
    "fuse_copy_state \<Rightarrow> page_id option \<Rightarrow> nat \<Rightarrow> nat \<Rightarrow> (nat \<times> fuse_copy_state) option" where
  "copy_page_bytes cs pgo offset count =
     (case pgo of
        None \<Rightarrow> map_option (\<lambda>(got, n, cs1). (n, cs1)) (fuse_copy_do cs None count)
      | Some pg \<Rightarrow>
          (let old = pg_data (cs_mem cs pg) in
           map_option (\<lambda>(got, n, cs1).
               (n, if cs_write cs then cs1
                   else set_page_data pg (take offset old @ got @ drop (offset + n) old) cs1))
             (fuse_copy_do cs (Some (take count (drop offset old))) count)))"

text \<open>
  What precedes the copying when the window is empty: \<open>Some err\<close> is the result of the function,
  \<open>None\<close> goes on to copy.
\<close>

definition copy_page_next ::
    "fuse_copy_state \<Rightarrow> page_id option \<Rightarrow> nat \<Rightarrow> nat \<Rightarrow>
       (int option \<times> page_id option \<times> fuse_copy_state) option" where
  "copy_page_next cs pgo offset count =
     (if cs_move_pages cs \<and> pgo \<noteq> None \<and> offset = 0 \<and> count = PAGE_SIZE
      then map_option (\<lambda>(e, pg1, cs1). (if e \<le> 0 then Some e else None, Some pg1, cs1))
             (fuse_try_move_page cs (the pgo))
      else map_option (\<lambda>(e, cs1). (if e \<noteq> 0 then Some e else None, pgo, cs1)) (fuse_copy_fill cs))"

lemma copy_page_next_left:
  assumes "copy_page_next cs pgo offset count = Some (None, pg', cs')"
  shows "cs_left cs' < cs_left cs"
proof (cases "cs_move_pages cs \<and> pgo \<noteq> None \<and> offset = 0 \<and> count = PAGE_SIZE")
  case False
  then show ?thesis
    using assms by (auto simp: copy_page_next_def split: if_split_asm intro: fill_left)
next
  case True
  obtain e1 cs1 where u: "unlock_request cs = (e1, cs1)" by force
  then have l1: "cs_left cs1 = cs_left cs" by (metis lock_request_left(3) snd_conv)
  have fb: "move_fallback pg x = (e, pg2, y) \<Longrightarrow> cs_left y = cs_left x" for pg x e pg2 y
    using lock_request_left(1) [of "x\<lparr>cs_pg := True\<rparr>"]
    by (auto simp: move_fallback_def Let_def cs_left_def split: prod.split_asm)
  have cm: "move_commit pg new x = Some (e, pg2, y) \<Longrightarrow> e \<le> 0" for pg new x e pg2 y
    by (auto simp: move_commit_def see_abort_def Let_def ENOENT_def
        split: option.split_asm list.split_asm if_split_asm)
  from True assms obtain pg e where pg: "pgo = Some pg" "0 < e"
      and mv: "fuse_try_move_page cs pg = Some (e, the pg', cs')"
    by (fastforce simp: copy_page_next_def not_le split: if_split_asm)
  have e1: "\<not> e1 > 0"
    using u by (auto simp: unlock_request_def ENOENT_def Let_def split: option.split_asm prod.split_asm if_split_asm)
  show ?thesis
    using mv pg(2) e1 fb cm l1
    by (fastforce simp: fuse_try_move_page_def u Let_def fuse_copy_finish_def cs_left_def
        split: if_split_asm list.split_asm)
qed

text \<open>The loop of \<open>fuse_copy_page\<close>.\<close>

definition copy_page_prepare ::
    "fuse_copy_state \<Rightarrow> page_id option \<Rightarrow> nat \<Rightarrow> nat \<Rightarrow>
       (int option \<times> page_id option \<times> fuse_copy_state) option" where
  "copy_page_prepare cs pgo offset count =
     (if cs_write cs \<and> cs_pipe cs \<and> pgo \<noteq> None
      then (let (e, cs1) = fuse_ref_page cs (the pgo) offset count in Some (Some e, pgo, cs1))
      else if cs_win cs = [] then copy_page_next cs pgo offset count
      else Some (None, pgo, cs))"

function copy_page_loop ::
    "fuse_copy_state \<Rightarrow> page_id option \<Rightarrow> nat \<Rightarrow> nat \<Rightarrow> (int \<times> page_id option \<times> fuse_copy_state) option"
where
  "copy_page_loop cs pgo offset count =
     (if count = 0 then Some (0, pgo, cs)
      else case copy_page_prepare cs pgo offset count of
          None \<Rightarrow> None
        | Some (Some err, pg1, cs1) \<Rightarrow> Some (err, pg1, cs1)
        | Some (None, pg1, cs1) \<Rightarrow>
            (case copy_page_bytes cs1 pgo offset count of
               None \<Rightarrow> None
             | Some (n, cs2) \<Rightarrow> copy_page_loop cs2 pgo (offset + n) (count - n)))"
  by pat_completeness auto

lemma copy_page_bytes_left:
  assumes "copy_page_bytes cs pgo off n = Some (k, cs')"
  shows "cs_left cs' = cs_left cs \<and> k = min n (length (cs_win cs)) \<and> cs_win cs' = drop k (cs_win cs)"
proof -
  obtain v got x where d: "fuse_copy_do cs v n = Some (got, k, x)"
      and "cs_left cs' = cs_left x \<and> cs_win cs' = cs_win x"
    using assms
    by (cases pgo) (auto simp: copy_page_bytes_def Let_def set_page_data_def cs_left_def)
  then show ?thesis using copy_do_left [OF d] by simp
qed

lemma copy_page_prepare_left:
  assumes "copy_page_prepare cs pgo offset count = Some (None, pg1, cs1)"
  shows "cs_left cs1 < cs_left cs \<or> (cs1 = cs \<and> cs_win cs \<noteq> [])"
  using assms copy_page_next_left
  by (auto simp: copy_page_prepare_def Let_def split: if_split_asm prod.split_asm)

lemma copy_page_step_decreases:
  assumes "copy_page_prepare cs pgo offset count = Some (None, pg1, cs1)" and "count \<noteq> 0"
    and "copy_page_bytes cs1 pgo offset count = Some (n, cs2)"
  shows "cs_left cs2 < cs_left cs \<or> (cs_left cs2 = cs_left cs \<and> count - n < count)"
proof -
  from copy_page_bytes_left [OF assms(3)] have b: "cs_left cs2 = cs_left cs1"
    and n: "n = min count (length (cs_win cs1))" by simp_all
  from copy_page_prepare_left [OF assms(1)] show ?thesis
  proof
    assume "cs1 = cs \<and> cs_win cs \<noteq> []"
    then show ?thesis using b n assms(2) by (cases "cs_win cs") auto
  qed (simp add: b)
qed

termination copy_page_loop
  by (relation "measures [\<lambda>(cs, pg, off, n). cs_left cs, \<lambda>(cs, pg, off, n). n]")
    (auto dest: copy_page_step_decreases)

declare copy_page_loop.simps [simp del]

definition fuse_copy_page ::
    "fuse_copy_state \<Rightarrow> page_id option \<Rightarrow> nat \<Rightarrow> nat \<Rightarrow> bool \<Rightarrow>
       (int \<times> page_id option \<times> fuse_copy_state) option" where
  "fuse_copy_page cs pgo offset count zeroing =
     copy_page_loop
       (if pgo \<noteq> None \<and> zeroing \<and> count < PAGE_SIZE
        then set_page_data (the pgo) (replicate PAGE_SIZE 0) cs else cs)
       pgo offset count"

text \<open>
  \<open>fuse_copy_pages\<close>: \<open>k\<close> pages from the \<open>i\<close>-th on are left. A page that was moved replaces the page
  of the request.
\<close>

definition set_req_page :: "nat \<Rightarrow> page_id option \<Rightarrow> fuse_copy_state \<Rightarrow> fuse_copy_state" where
  "set_req_page i pgo cs =
     cs\<lparr>cs_req := map_option (\<lambda>q. q\<lparr>rq_pages := (rq_pages q)[i := pgo]\<rparr>) (cs_req cs)\<rparr>"

fun copy_pages_from ::
    "nat \<Rightarrow> nat \<Rightarrow> fuse_copy_state \<Rightarrow> nat \<Rightarrow> bool \<Rightarrow> (int \<times> fuse_copy_state) option" where
  "copy_pages_from 0 i cs nbytes zeroing = Some (0, cs)"
| "copy_pages_from (Suc k) i cs nbytes zeroing =
     (if nbytes = 0 \<and> \<not> zeroing then Some (0, cs)
      else case cs_req cs of
          None \<Rightarrow> None
        | Some q \<Rightarrow>
            if length (rq_pages q) \<le> i \<or> length (rq_page_descs q) \<le> i then None
            else
              let d = rq_page_descs q ! i; count = min nbytes (pd_length d) in
              (case fuse_copy_page cs (rq_pages q ! i) (pd_offset d) count zeroing of
                 None \<Rightarrow> None
               | Some (err, pgo, cs1) \<Rightarrow>
                   if err \<noteq> 0 then Some (err, set_req_page i pgo cs1)
                   else copy_pages_from k (Suc i) (set_req_page i pgo cs1) (nbytes - count) zeroing))"

definition fuse_copy_pages :: "fuse_copy_state \<Rightarrow> nat \<Rightarrow> bool \<Rightarrow> (int \<times> fuse_copy_state) option" where
  "fuse_copy_pages cs nbytes zeroing =
     (case cs_req cs of None \<Rightarrow> None | Some q \<Rightarrow> copy_pages_from (rq_num_pages q) 0 cs nbytes zeroing)"

text \<open>
  \<open>fuse_copy_args\<close>: the result has the arguments with their contents afterwards. An argument with
  less memory than its size is an access out of bounds.
\<close>

fun fuse_copy_args ::
    "fuse_copy_state \<Rightarrow> fuse_arg list \<Rightarrow> bool \<Rightarrow> bool \<Rightarrow> (int \<times> fuse_arg list \<times> fuse_copy_state) option"
where
  "fuse_copy_args cs [] argpages zeroing = Some (0, [], cs)"
| "fuse_copy_args cs (a # as) argpages zeroing =
     (if as = [] \<and> argpages
      then map_option (\<lambda>(e, cs1). (e, [a], cs1)) (fuse_copy_pages cs (arg_size a) zeroing)
      else if length (arg_value a) < arg_size a then None
      else case fuse_copy_one cs (take (arg_size a) (arg_value a)) of
          None \<Rightarrow> None
        | Some (err, v, cs1) \<Rightarrow>
            let a1 = a\<lparr>arg_value := v @ drop (arg_size a) (arg_value a)\<rparr> in
            if err \<noteq> 0 then Some (err, a1 # as, cs1)
            else map_option (\<lambda>(e, as1, cs2). (e, a1 # as1, cs2)) (fuse_copy_args cs1 as argpages zeroing))"

subsection \<open>What is copied\<close>

text \<open>
  The bytes the server's buffer still has; the state is ready when every coming page can be mapped
  and the current one is mapped with the request locked.
\<close>

definition cs_stream :: "fuse_copy_state \<Rightarrow> u8 list" where
  "cs_stream cs = cs_win cs @
     (if cs_pipe cs then concat (map pb_data (cs_bufs cs)) else concat (map projr (cs_iter cs)))"

definition cs_ready :: "fuse_copy_state \<Rightarrow> bool" where
  "cs_ready cs \<longleftrightarrow> (cs_pipe cs \<longrightarrow> \<not> cs_write cs) \<and>
     (\<forall>b \<in> set (cs_bufs cs). pb_confirm b = 0 \<and> pb_data b \<noteq> []) \<and>
     (\<forall>c \<in> set (cs_iter cs). isl c = False \<and> projr c \<noteq> []) \<and>
     (cs_win cs \<noteq> [] \<longrightarrow> cs_pg cs \<and> (\<forall>q. cs_req cs = Some q \<longrightarrow> FR_LOCKED \<in> rq_flags q))"

definition cs_aborted :: "fuse_copy_state \<Rightarrow> bool" where
  "cs_aborted cs \<longleftrightarrow> (\<exists>q. cs_req cs = Some q \<and> FR_ABORTED \<in> rq_flags q)"

definition cs_quiet :: "fuse_copy_state \<Rightarrow> bool" where
  "cs_quiet cs \<longleftrightarrow> \<not> cs_aborted cs \<and> True \<notin> set (cs_aborts cs)"

text \<open>Two states differ only in how far the copy has come and in the flags of the request.\<close>

definition cs_frame :: "fuse_copy_state \<Rightarrow> fuse_copy_state \<Rightarrow> bool" where
  "cs_frame cs cs' \<longleftrightarrow> cs_write cs' = cs_write cs \<and> cs_pipe cs' = cs_pipe cs \<and>
     cs_move_pages cs' = cs_move_pages cs \<and>
     map_option (rq_flags_update (\<lambda>_. {})) (cs_req cs') = map_option (rq_flags_update (\<lambda>_. {})) (cs_req cs) \<and>
     (cs_quiet cs \<longrightarrow> cs_quiet cs')"

lemma cs_frame_refl [simp]: "cs_frame cs cs"
  by (simp add: cs_frame_def)

lemma cs_frame_trans: "cs_frame a b \<Longrightarrow> cs_frame b c \<Longrightarrow> cs_frame a c"
  by (simp add: cs_frame_def)

lemma strip_flags_update [simp]:
  "rq_flags_update (\<lambda>_. {}) (set_flag b q) = rq_flags_update (\<lambda>_. {}) q"
  "rq_flags_update (\<lambda>_. {}) (clear_flag b q) = rq_flags_update (\<lambda>_. {}) q"
  by (simp_all add: set_flag_def clear_flag_def)

text \<open>One critical section on the request: it notices an abort or changes \<open>FR_LOCKED\<close>.\<close>

lemma lock_cases:
  assumes "lock_request cs = (e, cs')"
  shows "cs_frame cs cs' \<and> cs_mem cs' = cs_mem cs \<and> cs_sent cs' = cs_sent cs \<and> cs_pg cs' = cs_pg cs \<and>
    cs_win cs' = cs_win cs \<and> cs_bufs cs' = cs_bufs cs \<and> cs_iter cs' = cs_iter cs \<and>
    (e = 0 \<and> (\<forall>q. cs_req cs' = Some q \<longrightarrow> FR_LOCKED \<in> rq_flags q) \<or> e = - ENOENT \<and> cs_aborted cs')"
  using assms
  by (auto simp: lock_request_def see_abort_def cs_frame_def cs_quiet_def cs_aborted_def Let_def
      split: option.split_asm list.split_asm if_split_asm)

lemma unlock_cases:
  assumes "unlock_request cs = (e, cs')"
  shows "cs_frame cs cs' \<and> cs_mem cs' = cs_mem cs \<and> cs_sent cs' = cs_sent cs \<and> cs_pg cs' = cs_pg cs \<and>
    cs_win cs' = cs_win cs \<and> cs_bufs cs' = cs_bufs cs \<and> cs_iter cs' = cs_iter cs \<and>
    (e = 0 \<or> e = - ENOENT \<and> cs_aborted cs')"
  using assms
  by (auto simp: unlock_request_def see_abort_def cs_frame_def cs_quiet_def cs_aborted_def Let_def
      split: option.split_asm list.split_asm if_split_asm)

lemma finish_frame [simp]:
  "cs_frame cs (fuse_copy_finish cs)" "cs_stream (fuse_copy_finish cs) = cs_stream cs"
  "cs_win (fuse_copy_finish cs) = cs_win cs" "cs_mem (fuse_copy_finish cs) = cs_mem cs"
  "cs_sent (fuse_copy_finish cs) = cs_sent cs" "cs_write (fuse_copy_finish cs) = cs_write cs"
  "cs_pipe (fuse_copy_finish cs) = cs_pipe cs" "cs_req (fuse_copy_finish cs) = cs_req cs"
  "cs_iter (fuse_copy_finish cs) = cs_iter cs" "cs_bufs (fuse_copy_finish cs) = cs_bufs cs"
  by (simp_all add: fuse_copy_finish_def cs_frame_def cs_stream_def cs_quiet_def cs_aborted_def)

lemma next_page_ready:
  assumes "cs_ready cs" and "cs_win cs = []" and "cs_stream cs \<noteq> []"
  shows "\<exists>cs'. next_page cs = Some (0, cs') \<and> cs_stream cs' = cs_stream cs \<and> cs_frame cs cs' \<and>
     cs_mem cs' = cs_mem cs \<and> cs_sent cs' = cs_sent cs \<and> cs_pg cs' \<and> cs_win cs' \<noteq> [] \<and>
     set (cs_bufs cs') \<subseteq> set (cs_bufs cs) \<and> set (cs_iter cs') \<subseteq> set (cs_iter cs)"
proof (cases "cs_pipe cs")
  case True
  then show ?thesis
    using assms
    by (cases "cs_bufs cs")
      (auto simp: next_page_def cs_ready_def cs_stream_def map_page_def cs_frame_def cs_quiet_def cs_aborted_def)
next
  case False
  then show ?thesis
    using assms
    by (cases "cs_iter cs"; cases "hd (cs_iter cs)")
      (auto simp: next_page_def cs_ready_def cs_stream_def map_page_def cs_frame_def cs_quiet_def cs_aborted_def)
qed

lemma lock_stream: "lock_request cs = (e, cs') \<Longrightarrow> cs_stream cs' = cs_stream cs"
  using lock_cases [of cs e cs'] by (simp add: cs_stream_def cs_frame_def)

lemma cs_readyI:
  assumes c: "cs_ready c" and p: "cs_pipe d = cs_pipe c" and w: "cs_write d = cs_write c"
    and b: "set (cs_bufs d) \<subseteq> set (cs_bufs c)" and i: "set (cs_iter d) \<subseteq> set (cs_iter c)"
    and g: "cs_pg d" and l: "\<forall>q. cs_req d = Some q \<longrightarrow> FR_LOCKED \<in> rq_flags q"
  shows "cs_ready d"
proof -
  have "\<forall>x \<in> set (cs_bufs d). pb_confirm x = 0 \<and> pb_data x \<noteq> []"
    using c b unfolding cs_ready_def by blast
  moreover have "\<forall>x \<in> set (cs_iter d). isl x = False \<and> projr x \<noteq> []"
    using c i unfolding cs_ready_def by blast
  moreover have "cs_pipe d \<longrightarrow> \<not> cs_write d"
    using c p w by (simp add: cs_ready_def)
  ultimately show ?thesis using g l by (simp add: cs_ready_def)
qed

lemma fill_ready:
  assumes r: "cs_ready cs" and w: "cs_win cs = []" and st: "cs_stream cs \<noteq> []"
  shows "\<exists>e cs'. fuse_copy_fill cs = Some (e, cs') \<and> cs_frame cs cs' \<and> cs_mem cs' = cs_mem cs \<and>
     cs_sent cs' = cs_sent cs \<and>
     (e = 0 \<and> cs_ready cs' \<and> cs_win cs' \<noteq> [] \<and> cs_stream cs' = cs_stream cs \<or>
      e = - ENOENT \<and> cs_aborted cs')"
proof -
  obtain e1 cs1 where u: "unlock_request cs = (e1, cs1)" by force
  note uc = unlock_cases [OF u]
  show ?thesis
  proof (cases "e1 = 0")
    case False
    then show ?thesis using u uc by (auto simp: fuse_copy_fill_def)
  next
    case True
    let ?f = "fuse_copy_finish cs1"
    have same: "cs_stream ?f = cs_stream cs" using uc by (simp add: cs_stream_def cs_frame_def)
    then have f: "cs_ready ?f" "cs_win ?f = []" "cs_stream ?f \<noteq> []"
      using r w st uc by (simp_all add: cs_ready_def cs_frame_def)
    from next_page_ready [OF f] obtain cs2 where n: "next_page ?f = Some (0, cs2)"
        "cs_stream cs2 = cs_stream ?f" "cs_frame ?f cs2" "cs_mem cs2 = cs_mem ?f"
        "cs_sent cs2 = cs_sent ?f" "cs_pg cs2" "cs_win cs2 \<noteq> []" "set (cs_bufs cs2) \<subseteq> set (cs_bufs ?f)"
        "set (cs_iter cs2) \<subseteq> set (cs_iter ?f)" by blast
    obtain e cs' where l: "lock_request cs2 = (e, cs')" by force
    note lc = lock_cases [OF l]
    have fr: "cs_frame cs cs'"
      using uc lc n(3) cs_frame_trans [of cs cs1 ?f] cs_frame_trans [of cs ?f cs2] cs_frame_trans [of cs cs2 cs']
      by simp
    have run: "fuse_copy_fill cs = Some (e, cs')"
      using u n(1) l True by (simp add: fuse_copy_fill_def)
    have "cs_ready cs'" if "e = 0"
    proof -
      have "\<forall>q. cs_req cs' = Some q \<longrightarrow> FR_LOCKED \<in> rq_flags q"
        using lc that by (auto simp: ENOENT_def)
      moreover have "cs_pipe cs' = cs_pipe ?f" "cs_write cs' = cs_write ?f" "cs_pg cs'"
        using lc n(3,6) by (simp_all add: cs_frame_def)
      moreover have "set (cs_bufs cs') \<subseteq> set (cs_bufs ?f)" "set (cs_iter cs') \<subseteq> set (cs_iter ?f)"
        using lc n(8,9) by simp_all
      ultimately show ?thesis by (auto intro!: cs_readyI [OF f(1)])
    qed
    moreover have "cs_stream cs' = cs_stream cs" using lock_stream [OF l] n(2) same by simp
    ultimately show ?thesis using run fr lc n(4,5,7) uc by auto
  qed
qed

lemma copy_do_ready:
  assumes r: "cs_ready cs" and w: "cs_win cs \<noteq> []"
  shows "\<exists>got n cs'. fuse_copy_do cs (Some val) (length val) = Some (got, n, cs') \<and>
     n = min (length val) (length (cs_win cs)) \<and> cs_ready cs' \<and> cs_frame cs cs' \<and> cs_mem cs' = cs_mem cs \<and>
     cs_stream cs' = drop n (cs_stream cs) \<and>
     got = (if cs_write cs then take n val else take n (cs_stream cs)) \<and>
     cs_sent cs' = cs_sent cs @ (if cs_write cs then take n val else [])"
  using assms
  by (auto simp: fuse_copy_do_def cs_ready_def cs_stream_def cs_frame_def cs_quiet_def cs_aborted_def Let_def)

text \<open>
  Copying a value that fits: it arrives in full, in order and nothing else is touched, or the copy
  stops because the request was aborted.
\<close>

definition copy_one_ok :: "fuse_copy_state \<Rightarrow> u8 list \<Rightarrow> u8 list \<Rightarrow> fuse_copy_state \<Rightarrow> bool" where
  "copy_one_ok cs val got cs' \<longleftrightarrow> cs_ready cs' \<and> cs_stream cs' = drop (length val) (cs_stream cs) \<and>
     got = (if cs_write cs then val else take (length val) (cs_stream cs)) \<and>
     cs_sent cs' = cs_sent cs @ (if cs_write cs then val else [])"

lemma copy_one_ok_step:
  assumes "n = min (length val) (length (cs_win cs))" and "cs_stream cs2 = drop n (cs_stream cs)"
    and "got = (if cs_write cs then take n val else take n (cs_stream cs))"
    and "cs_sent cs2 = cs_sent cs @ (if cs_write cs then take n val else [])"
    and "cs_write cs2 = cs_write cs" and "copy_one_ok cs2 (drop n val) rest cs3"
  shows "copy_one_ok cs val (got @ rest) cs3"
proof -
  have "n \<le> length val" using assms(1) by simp
  then have "take n st @ take (length val - n) (drop n st) = take (length val) st" for st :: "u8 list"
    by (metis add_diff_inverse_nat not_less take_add)
  with assms \<open>n \<le> length val\<close> show ?thesis
    by (auto simp: copy_one_ok_def)
qed

definition copy_one_post :: "fuse_copy_state \<Rightarrow> u8 list \<Rightarrow> (int \<times> u8 list \<times> fuse_copy_state) option \<Rightarrow> bool" where
  "copy_one_post cs val res \<longleftrightarrow> (\<exists>e got cs'. res = Some (e, got, cs') \<and> length got = length val \<and>
     cs_frame cs cs' \<and> cs_mem cs' = cs_mem cs \<and>
     (e = 0 \<and> copy_one_ok cs val got cs' \<or> e = - ENOENT \<and> cs_aborted cs'))"

text \<open>One round of the loop when a page is mapped.\<close>

lemma copy_one_round:
  assumes r: "cs_ready c" and w: "cs_win c \<noteq> []" and fits: "length val \<le> length (cs_stream c)"
    and IH: "\<And>got n cs2. fuse_copy_do c (Some val) (length val) = Some (got, n, cs2) \<Longrightarrow> cs_ready cs2 \<Longrightarrow>
        length (drop n val) \<le> length (cs_stream cs2) \<Longrightarrow>
        copy_one_post cs2 (drop n val) (fuse_copy_one cs2 (drop n val))"
  shows "copy_one_post c val (case fuse_copy_do c (Some val) (length val) of
          None \<Rightarrow> None
        | Some (got, n, cs2) \<Rightarrow>
            map_option (\<lambda>(e, rest, cs3). (e, got @ rest, cs3)) (fuse_copy_one cs2 (drop n val)))"
proof -
  from copy_do_ready [OF r w, of val] obtain got n cs2 where
      d: "fuse_copy_do c (Some val) (length val) = Some (got, n, cs2)"
    and n: "n = min (length val) (length (cs_win c))" and r2: "cs_ready cs2" and f2: "cs_frame c cs2"
    and m2: "cs_mem cs2 = cs_mem c" and s2: "cs_stream cs2 = drop n (cs_stream c)"
    and got: "got = (if cs_write c then take n val else take n (cs_stream c))"
    and sent: "cs_sent cs2 = cs_sent c @ (if cs_write c then take n val else [])" by blast
  have "length (drop n val) \<le> length (cs_stream cs2)" using fits s2 by simp
  from IH [OF d r2 this] obtain e rest cs3 where
      o: "fuse_copy_one cs2 (drop n val) = Some (e, rest, cs3)" "length rest = length (drop n val)"
        "cs_frame cs2 cs3" "cs_mem cs3 = cs_mem cs2"
        "e = 0 \<and> copy_one_ok cs2 (drop n val) rest cs3 \<or> e = - ENOENT \<and> cs_aborted cs3"
    unfolding copy_one_post_def by blast
  have "n \<le> length (cs_stream c)" using n fits by simp
  then have len: "length (got @ rest) = length val" using got o(2) n by auto
  have "e = 0 \<Longrightarrow> copy_one_ok c val (got @ rest) cs3"
    using copy_one_ok_step [OF n s2 got sent] o(5) f2 by (simp add: cs_frame_def ENOENT_def)
  then show ?thesis
    using d o len m2 cs_frame_trans [OF f2 o(3)] by (auto simp: copy_one_post_def)
qed

lemma copy_one_ready:
  assumes "cs_ready cs" and "length val \<le> length (cs_stream cs)"
  shows "copy_one_post cs val (fuse_copy_one cs val)"
  using assms
proof (induction cs val rule: fuse_copy_one.induct)
  case (1 cs val)
  consider (empty) "val = []" | (mapped) "val \<noteq> []" "cs_win cs \<noteq> []" | (fill) "val \<noteq> []" "cs_win cs = []" by blast
  then show ?case
  proof cases
    case empty
    then show ?thesis
      using "1.prems" by (simp add: fuse_copy_one.simps copy_one_ok_def copy_one_post_def)
  next
    case mapped
    have "copy_one_post cs val (case fuse_copy_do cs (Some val) (length val) of
          None \<Rightarrow> None
        | Some (got, n, cs2) \<Rightarrow>
            map_option (\<lambda>(e, rest, cs3). (e, got @ rest, cs3)) (fuse_copy_one cs2 (drop n val)))"
      using "1.prems" mapped "1.IH"(2) by (intro copy_one_round) simp_all
    then show ?thesis using mapped by (subst fuse_copy_one.simps) simp
  next
    case fill
    have "cs_stream cs \<noteq> []" using "1.prems"(2) fill by auto
    from fill_ready [OF "1.prems"(1) fill(2) this] obtain e cs1 where
        fl: "fuse_copy_fill cs = Some (e, cs1)" "cs_frame cs cs1" "cs_mem cs1 = cs_mem cs"
          "cs_sent cs1 = cs_sent cs"
      and res: "e = 0 \<and> cs_ready cs1 \<and> cs_win cs1 \<noteq> [] \<and> cs_stream cs1 = cs_stream cs \<or>
          e = - ENOENT \<and> cs_aborted cs1" by blast
    show ?thesis
    proof (cases "e = 0")
      case True
      then have r1: "cs_ready cs1" "cs_win cs1 \<noteq> []" "cs_stream cs1 = cs_stream cs"
        using res by (auto simp: ENOENT_def)
      have "copy_one_post cs1 val (case fuse_copy_do cs1 (Some val) (length val) of
          None \<Rightarrow> None
        | Some (got, n, cs2) \<Rightarrow>
            map_option (\<lambda>(e, rest, cs3). (e, got @ rest, cs3)) (fuse_copy_one cs2 (drop n val)))"
        using "1.prems" r1 fl True "1.IH"(1) [OF fill] by (intro copy_one_round) simp_all
      then have "copy_one_post cs1 val (fuse_copy_one cs val)"
        using fill fl(1) True by (subst fuse_copy_one.simps) simp
      then show ?thesis
        using fl r1(3) cs_frame_trans [OF fl(2)]
        by (auto simp: copy_one_post_def copy_one_ok_def cs_frame_def)
    next
      case False
      then show ?thesis
        using fl res fill by (subst fuse_copy_one.simps) (simp add: copy_one_post_def)
    qed
  qed
qed

subsection \<open>Copying a page\<close>

text \<open>
  A page whose bytes \<open>offset\<close> to \<open>offset + count\<close> have been copied: on the way to the server they were
  sent and the memory is as before; on the way from the server they come from the stream and the
  rest of the page is as before.
\<close>

definition copy_page_ok ::
    "fuse_copy_state \<Rightarrow> page_id \<Rightarrow> nat \<Rightarrow> nat \<Rightarrow> fuse_copy_state \<Rightarrow> bool" where
  "copy_page_ok cs pg offset count cs' \<longleftrightarrow> cs_ready cs' \<and> cs_stream cs' = drop count (cs_stream cs) \<and>
     (let old = pg_data (cs_mem cs pg) in
      (if cs_write cs
       then cs_mem cs' = cs_mem cs \<and> cs_sent cs' = cs_sent cs @ take count (drop offset old)
       else cs_sent cs' = cs_sent cs \<and> (\<forall>x. x \<noteq> pg \<longrightarrow> cs_mem cs' x = cs_mem cs x) \<and>
         pg_data (cs_mem cs' pg) = take offset old @ take count (cs_stream cs) @ drop (offset + count) old))"

definition copy_page_post ::
    "fuse_copy_state \<Rightarrow> page_id \<Rightarrow> nat \<Rightarrow> nat \<Rightarrow> (int \<times> page_id option \<times> fuse_copy_state) option \<Rightarrow> bool"
where
  "copy_page_post cs pg offset count res \<longleftrightarrow> (\<exists>e cs'. res = Some (e, Some pg, cs') \<and> cs_frame cs cs' \<and>
     length (pg_data (cs_mem cs' pg)) = length (pg_data (cs_mem cs pg)) \<and>
     (e = 0 \<and> copy_page_ok cs pg offset count cs' \<or> e = - ENOENT \<and> cs_aborted cs'))"

lemma set_page_data_frame [simp]:
  "cs_frame cs (set_page_data p d cs)" "cs_stream (set_page_data p d cs) = cs_stream cs"
  "cs_ready (set_page_data p d cs) = cs_ready cs" "cs_sent (set_page_data p d cs) = cs_sent cs"
  "cs_write (set_page_data p d cs) = cs_write cs" "cs_pipe (set_page_data p d cs) = cs_pipe cs"
  "pg_data (cs_mem (set_page_data p d cs) p) = d" "cs_win (set_page_data p d cs) = cs_win cs"
  "x \<noteq> p \<Longrightarrow> cs_mem (set_page_data p d cs) x = cs_mem cs x"
  "cs_move_pages (set_page_data p d cs) = cs_move_pages cs"
  by (simp_all add: set_page_data_def cs_frame_def cs_stream_def cs_ready_def cs_quiet_def cs_aborted_def)

lemma copy_page_bytes_ready:
  assumes r: "cs_ready cs" and w: "cs_win cs \<noteq> []"
    and fits: "offset + count \<le> length (pg_data (cs_mem cs pg))" "count \<le> length (cs_stream cs)"
  shows "\<exists>n cs'. copy_page_bytes cs (Some pg) offset count = Some (n, cs') \<and>
     n = min count (length (cs_win cs)) \<and> cs_frame cs cs' \<and> copy_page_ok cs pg offset n cs' \<and>
     length (pg_data (cs_mem cs' pg)) = length (pg_data (cs_mem cs pg))"
proof -
  let ?old = "pg_data (cs_mem cs pg)" and ?v = "take count (drop offset (pg_data (cs_mem cs pg)))"
  have lv: "length ?v = count" using fits(1) by simp
  from copy_do_ready [OF r w, of ?v] obtain got n cs' where
      d: "fuse_copy_do cs (Some ?v) count = Some (got, n, cs')"
    and n: "n = min count (length (cs_win cs))" and r': "cs_ready cs'" and f': "cs_frame cs cs'"
    and m': "cs_mem cs' = cs_mem cs" and s': "cs_stream cs' = drop n (cs_stream cs)"
    and got: "got = (if cs_write cs then take n ?v else take n (cs_stream cs))"
    and sent: "cs_sent cs' = cs_sent cs @ (if cs_write cs then take n ?v else [])"
    unfolding lv by blast
  have nc: "n \<le> count" "n \<le> length (cs_stream cs)" using n fits(2) by simp_all
  then have tv: "take n ?v = take n (drop offset ?old)" by (simp add: min_absorb1)
  show ?thesis
  proof (cases "cs_write cs")
    case True
    then have "copy_page_bytes cs (Some pg) offset count = Some (n, cs')"
      using d by (simp add: copy_page_bytes_def)
    then show ?thesis using True n f' r' m' s' sent tv by (simp add: copy_page_ok_def Let_def)
  next
    case False
    let ?c = "set_page_data pg (take offset ?old @ got @ drop (offset + n) ?old) cs'"
    have "copy_page_bytes cs (Some pg) offset count = Some (n, ?c)"
      using d False by (simp add: copy_page_bytes_def Let_def)
    moreover have "cs_frame cs ?c" using f' cs_frame_trans set_page_data_frame(1) by blast
    moreover have "length (take offset ?old @ got @ drop (offset + n) ?old) = length ?old"
      using got False nc fits(1) by auto
    ultimately show ?thesis using False n r' m' s' sent got by (simp add: copy_page_ok_def Let_def)
  qed
qed

text \<open>A first part of a page and the rest of it make the whole.\<close>

lemma copy_page_ok_step:
  assumes n: "n \<le> count" and fits: "offset + count \<le> length (pg_data (cs_mem cs pg))"
      "count \<le> length (cs_stream cs)"
    and one: "copy_page_ok cs pg offset n cs1" and fr: "cs_frame cs cs1"
    and two: "copy_page_ok cs1 pg (offset + n) (count - n) cs2"
  shows "copy_page_ok cs pg offset count cs2"
proof -
  have wr: "cs_write cs1 = cs_write cs" using fr by (simp add: cs_frame_def)
  have split: "take n xs @ take (count - n) (drop n xs) = take count xs" for xs :: "u8 list"
    using n by (metis add_diff_inverse_nat not_less take_add)
  show ?thesis
  proof (cases "cs_write cs")
    case True
    then show ?thesis
      using one two wr n split [of "drop offset (pg_data (cs_mem cs pg))"]
      by (auto simp: copy_page_ok_def Let_def add.commute)
  next
    case False
    let ?old = "pg_data (cs_mem cs pg)" and ?mid = "pg_data (cs_mem cs1 pg)"
    have mid: "?mid = take offset ?old @ take n (cs_stream cs) @ drop (offset + n) ?old"
      using one False by (simp add: copy_page_ok_def Let_def)
    have lens: "length (take offset ?old @ take n (cs_stream cs)) = offset + n"
      using fits n by simp
    have tk: "take (offset + n) ?mid = take offset ?old @ take n (cs_stream cs)"
      unfolding mid using lens by (metis append_assoc append_eq_conv_conj)
    have dr: "drop (offset + n + (count - n)) ?mid = drop (offset + count) ?old"
    proof -
      have "drop (offset + n + (count - n)) ?mid = drop (count - n) (drop (offset + n) ?mid)"
        by (simp add: add.commute)
      also have "drop (offset + n) ?mid = drop (offset + n) ?old"
        unfolding mid using lens by (metis append_assoc append_eq_conv_conj)
      finally show ?thesis using n by (simp add: add.assoc add.commute [of count])
    qed
    have "pg_data (cs_mem cs2 pg) = take (offset + n) ?mid @ take (count - n) (cs_stream cs1) @
        drop (offset + n + (count - n)) ?mid"
      using two wr False by (simp add: copy_page_ok_def Let_def)
    also have "\<dots> = take offset ?old @ take count (cs_stream cs) @ drop (offset + count) ?old"
      unfolding tk dr using one split [of "cs_stream cs"] by (simp add: copy_page_ok_def)
    finally show ?thesis
      using one two wr False n by (auto simp: copy_page_ok_def Let_def)
  qed
qed

lemma copy_page_loop_round:
  assumes r: "cs_ready c" and w: "cs_win c \<noteq> []"
    and fits: "offset + count \<le> length (pg_data (cs_mem c pg))" "count \<le> length (cs_stream c)"
    and IH: "\<And>n c2. copy_page_bytes c (Some pg) offset count = Some (n, c2) \<Longrightarrow> cs_ready c2 \<Longrightarrow>
        cs_frame c c2 \<Longrightarrow>
        offset + n + (count - n) \<le> length (pg_data (cs_mem c2 pg)) \<Longrightarrow>
        count - n \<le> length (cs_stream c2) \<Longrightarrow>
        copy_page_post c2 pg (offset + n) (count - n) (copy_page_loop c2 (Some pg) (offset + n) (count - n))"
  shows "copy_page_post c pg offset count (case copy_page_bytes c (Some pg) offset count of
      None \<Rightarrow> None
    | Some (n, c2) \<Rightarrow> copy_page_loop c2 (Some pg) (offset + n) (count - n))"
proof -
  from copy_page_bytes_ready [OF r w fits] obtain n c2 where
      b: "copy_page_bytes c (Some pg) offset count = Some (n, c2)"
    and n: "n = min count (length (cs_win c))" and f: "cs_frame c c2"
    and ok: "copy_page_ok c pg offset n c2"
    and len: "length (pg_data (cs_mem c2 pg)) = length (pg_data (cs_mem c pg))" by blast
  have nc: "n \<le> count" using n by simp
  have "offset + n + (count - n) \<le> length (pg_data (cs_mem c2 pg))" "count - n \<le> length (cs_stream c2)"
      "cs_ready c2"
    using ok fits nc len by (simp_all add: copy_page_ok_def)
  from IH [OF b this(3) f this(1,2)] obtain e c3 where
      o: "copy_page_loop c2 (Some pg) (offset + n) (count - n) = Some (e, Some pg, c3)" "cs_frame c2 c3"
        "length (pg_data (cs_mem c3 pg)) = length (pg_data (cs_mem c2 pg))"
        "e = 0 \<and> copy_page_ok c2 pg (offset + n) (count - n) c3 \<or> e = - ENOENT \<and> cs_aborted c3"
    unfolding copy_page_post_def by blast
  have "e = 0 \<Longrightarrow> copy_page_ok c pg offset count c3"
    using copy_page_ok_step [OF nc fits ok f] o(4) by (simp add: ENOENT_def)
  then show ?thesis
    using b o len cs_frame_trans [OF f o(2)] by (auto simp: copy_page_post_def)
qed

lemma copy_page_loop_ready:
  assumes "cs_ready cs" and "\<not> cs_move_pages cs"
    and "offset + count \<le> length (pg_data (cs_mem cs pg))" and "count \<le> length (cs_stream cs)"
  shows "copy_page_post cs pg offset count (copy_page_loop cs (Some pg) offset count)"
  using assms
proof (induction cs "Some pg" offset count rule: copy_page_loop.induct)
  case (1 cs offset count)
  have noref: "\<not> (cs_write cs \<and> cs_pipe cs)" using "1.prems"(1) by (auto simp: cs_ready_def)
  consider (empty) "count = 0" | (mapped) "count \<noteq> 0" "cs_win cs \<noteq> []" | (fill) "count \<noteq> 0" "cs_win cs = []"
    by blast
  then show ?case
  proof cases
    case empty
    then show ?thesis
      using "1.prems" by (simp add: copy_page_loop.simps copy_page_post_def copy_page_ok_def Let_def)
  next
    case mapped
    have p: "copy_page_prepare cs (Some pg) offset count = Some (None, Some pg, cs)"
      using mapped noref by (auto simp: copy_page_prepare_def)
    have "copy_page_post cs pg offset count (case copy_page_bytes cs (Some pg) offset count of
        None \<Rightarrow> None
      | Some (n, c2) \<Rightarrow> copy_page_loop c2 (Some pg) (offset + n) (count - n))"
    proof (rule copy_page_loop_round)
      fix n c2
      assume b: "copy_page_bytes cs (Some pg) offset count = Some (n, c2)"
        and "cs_ready c2" "cs_frame cs c2" "offset + n + (count - n) \<le> length (pg_data (cs_mem c2 pg))" "count - n \<le> length (cs_stream c2)"
      then show "copy_page_post c2 pg (offset + n) (count - n)
          (copy_page_loop c2 (Some pg) (offset + n) (count - n))"
        using "1.hyps" [OF mapped(1) p refl refl refl b refl] "1.prems"(2)
        by (simp add: cs_frame_def)
    qed (use "1.prems" mapped in simp_all)
    then show ?thesis using mapped p by (subst copy_page_loop.simps) simp
  next
    case fill
    have "cs_stream cs \<noteq> []" using "1.prems"(4) fill by auto
    from fill_ready [OF "1.prems"(1) fill(2) this] obtain e cs1 where
        fl: "fuse_copy_fill cs = Some (e, cs1)" "cs_frame cs cs1" "cs_mem cs1 = cs_mem cs"
          "cs_sent cs1 = cs_sent cs"
      and res: "e = 0 \<and> cs_ready cs1 \<and> cs_win cs1 \<noteq> [] \<and> cs_stream cs1 = cs_stream cs \<or>
          e = - ENOENT \<and> cs_aborted cs1" by blast
    have p: "copy_page_prepare cs (Some pg) offset count =
        Some (if e \<noteq> 0 then Some e else None, Some pg, cs1)"
      using fill noref fl(1) "1.prems"(2) by (auto simp: copy_page_prepare_def copy_page_next_def)
    show ?thesis
    proof (cases "e = 0")
      case True
      then have r1: "cs_ready cs1" "cs_win cs1 \<noteq> []" "cs_stream cs1 = cs_stream cs"
        using res by (auto simp: ENOENT_def)
      have p': "copy_page_prepare cs (Some pg) offset count = Some (None, Some pg, cs1)"
        using p True by simp
      have "copy_page_post cs1 pg offset count (case copy_page_bytes cs1 (Some pg) offset count of
          None \<Rightarrow> None
        | Some (n, c2) \<Rightarrow> copy_page_loop c2 (Some pg) (offset + n) (count - n))"
      proof (rule copy_page_loop_round)
        fix n c2
        assume b: "copy_page_bytes cs1 (Some pg) offset count = Some (n, c2)"
          and "cs_ready c2" "cs_frame cs1 c2" "offset + n + (count - n) \<le> length (pg_data (cs_mem c2 pg))" "count - n \<le> length (cs_stream c2)"
        then show "copy_page_post c2 pg (offset + n) (count - n)
            (copy_page_loop c2 (Some pg) (offset + n) (count - n))"
          using "1.hyps" [OF fill(1) p' refl refl refl b refl] "1.prems"(2) fl(2)
          by (simp add: cs_frame_def)
      qed (use "1.prems" r1 fl(3) in simp_all)
      then have "copy_page_post cs1 pg offset count (copy_page_loop cs (Some pg) offset count)"
        using fill p' by (subst copy_page_loop.simps) simp
      then show ?thesis
        using fl r1(3) cs_frame_trans [OF fl(2)]
        by (auto simp: copy_page_post_def copy_page_ok_def cs_frame_def)
    next
      case False
      then show ?thesis
        using fl res fill p by (subst copy_page_loop.simps) (simp add: copy_page_post_def)
    qed
  qed
qed

subsection \<open>Copying the arguments\<close>

definition arg_bytes :: "fuse_arg \<Rightarrow> u8 list" where
  "arg_bytes a = take (arg_size a) (arg_value a)"

definition args_total :: "fuse_arg list \<Rightarrow> nat" where
  "args_total as = (\<Sum>a\<leftarrow>as. arg_size a)"

lemma args_total_simps [simp]:
  "args_total [] = 0" "args_total (a # as) = arg_size a + args_total as"
  by (simp_all add: args_total_def)

definition copy_args_ok ::
    "fuse_copy_state \<Rightarrow> fuse_arg list \<Rightarrow> fuse_arg list \<Rightarrow> fuse_copy_state \<Rightarrow> bool" where
  "copy_args_ok cs as as' cs' \<longleftrightarrow> cs_ready cs' \<and> cs_stream cs' = drop (args_total as) (cs_stream cs) \<and>
     map arg_size as' = map arg_size as \<and>
     (if cs_write cs then as' = as \<and> cs_sent cs' = cs_sent cs @ concat (map arg_bytes as)
      else cs_sent cs' = cs_sent cs \<and> concat (map arg_bytes as') = take (args_total as) (cs_stream cs))"

lemma copy_args_ready:
  assumes "cs_ready cs" and "\<forall>a \<in> set as. arg_size a \<le> length (arg_value a)"
    and "args_total as \<le> length (cs_stream cs)"
  shows "\<exists>e as' cs'. fuse_copy_args cs as False zeroing = Some (e, as', cs') \<and> cs_frame cs cs' \<and>
     cs_mem cs' = cs_mem cs \<and> (e = 0 \<and> copy_args_ok cs as as' cs' \<or> e = - ENOENT \<and> cs_aborted cs')"
  using assms
proof (induction as arbitrary: cs)
  case Nil
  then show ?case by (simp add: copy_args_ok_def)
next
  case (Cons a as)
  let ?v = "take (arg_size a) (arg_value a)"
  have lv: "length ?v = arg_size a" using Cons.prems(2) by simp
  have "length ?v \<le> length (cs_stream cs)" using Cons.prems(3) lv by simp
  from copy_one_ready [OF Cons.prems(1) this] obtain e got cs1 where
      o: "fuse_copy_one cs ?v = Some (e, got, cs1)" "length got = arg_size a" "cs_frame cs cs1"
        "cs_mem cs1 = cs_mem cs"
      "e = 0 \<and> copy_one_ok cs ?v got cs1 \<or> e = - ENOENT \<and> cs_aborted cs1"
    unfolding copy_one_post_def lv by blast
  have nlt: "\<not> length (arg_value a) < arg_size a" using Cons.prems(2) by simp
  show ?case
  proof (cases "e = 0")
    case False
    then show ?thesis using o nlt by (auto simp: Let_def)
  next
    case True
    then have ok: "copy_one_ok cs ?v got cs1" using o(5) by (simp add: ENOENT_def)
    have "cs_ready cs1" "args_total as \<le> length (cs_stream cs1)"
      using ok Cons.prems(3) lv by (simp_all add: copy_one_ok_def)
    with Cons.IH [of cs1] Cons.prems(2) obtain e2 as2 cs2 where
        t: "fuse_copy_args cs1 as False zeroing = Some (e2, as2, cs2)" "cs_frame cs1 cs2"
          "cs_mem cs2 = cs_mem cs1"
          "e2 = 0 \<and> copy_args_ok cs1 as as2 cs2 \<or> e2 = - ENOENT \<and> cs_aborted cs2" by auto
    let ?a = "a\<lparr>arg_value := got @ drop (arg_size a) (arg_value a)\<rparr>"
    have run: "fuse_copy_args cs (a # as) False zeroing = Some (e2, ?a # as2, cs2)"
      using o(1) t(1) True nlt by (simp add: Let_def)
    have "copy_args_ok cs (a # as) (?a # as2) cs2" if "e2 = 0"
    proof (cases "cs_write cs")
      case True
      then have "got = ?v" using ok by (simp add: copy_one_ok_def)
      then have "?a = a" by simp
      then show ?thesis
        using True t(4) that ok lv o(3)
        by (auto simp: copy_args_ok_def copy_one_ok_def arg_bytes_def cs_frame_def ENOENT_def add.commute)
    next
      case False
      then have "arg_bytes ?a = take (arg_size a) (cs_stream cs)"
        using ok lv o(2) by (simp add: arg_bytes_def copy_one_ok_def)
      moreover have "take (arg_size a) (cs_stream cs) @ take (args_total as) (drop (arg_size a) (cs_stream cs)) =
          take (arg_size a + args_total as) (cs_stream cs)"
        by (simp add: take_add)
      ultimately show ?thesis
        using False t(4) that ok lv o(3)
        by (auto simp: copy_args_ok_def copy_one_ok_def cs_frame_def ENOENT_def add.commute)
    qed
    then show ?thesis using run t o(3,4) cs_frame_trans [OF o(3) t(2)] by auto
  qed
qed

end
