(* ===== verification/Fuse_Dev_Read.thy ===== *)
theory Fuse_Dev_Read
  imports Fuse_Forget Fuse_Copy
begin

text \<open>
  Reading from the device (\<open>dev.c\<close>): the choice between interrupts, forgets and requests, the
  assembly of INTERRUPT, FORGET and BATCH_FORGET messages, and \<open>fuse_dev_do_read\<close>.

  \<^item> \<open>fuse_dev_do_read\<close> is three groups of critical sections: \<open>do_read_begin\<close> (wait, choose, take the
    request off the pending list, move it to the I/O list), the copy (\<open>do_read_copy\<close>, during which
    other threads run), and \<open>do_read_end\<close>. A reader that sleeps calls \<open>do_read_begin\<close> again.
  \<^item> The wire encoding is not part of the repository: \<open>wire_codec\<close> holds the functions from headers to
    bytes and back, and \<open>codec_ok\<close> says that they have the sizes of the wire structures.
\<close>

record wire_codec =
  enc_in_header :: "fuse_in_header \<Rightarrow> u8 list"
  enc_interrupt_in :: "u64 \<Rightarrow> u8 list"
  enc_forget_in :: "u64 \<Rightarrow> u8 list"
  enc_batch_forget_in :: "nat \<Rightarrow> u8 list"
  enc_forget_one :: "fuse_forget_one \<Rightarrow> u8 list"
  dec_out_header :: "u8 list \<Rightarrow> fuse_out_header"

definition codec_ok :: "wire_codec \<Rightarrow> (wire \<Rightarrow> nat) \<Rightarrow> bool" where
  "codec_ok wc sz \<longleftrightarrow> (\<forall>h. length (enc_in_header wc h) = sz W_in_header) \<and>
     (\<forall>u. length (enc_interrupt_in wc u) = sz W_interrupt_in) \<and>
     (\<forall>n. length (enc_forget_in wc n) = sz W_forget_in) \<and>
     (\<forall>n. length (enc_batch_forget_in wc n) = sz W_batch_forget_in) \<and>
     (\<forall>f. length (enc_forget_one wc f) = sz W_forget_one)"

definition forget_pending :: "fuse_state \<Rightarrow> bool" where
  "forget_pending s \<longleftrightarrow> forget_list (iq s) \<noteq> []"

definition request_pending :: "fuse_state \<Rightarrow> bool" where
  "request_pending s \<longleftrightarrow> pending (iq s) \<noteq> [] \<or> interrupts (iq s) \<noteq> [] \<or> forget_pending s"

subsection \<open>Messages assembled on demand\<close>

text \<open>Copy two values, as every message here is; then \<open>fuse_copy_finish\<close>.\<close>

definition copy_two ::
    "fuse_copy_state \<Rightarrow> u8 list \<Rightarrow> u8 list \<Rightarrow> (int \<times> fuse_copy_state) option" where
  "copy_two cs a b = do {
     (err, va, cs1) \<leftarrow> fuse_copy_one cs a;
     if err \<noteq> 0 then Some (err, cs1)
     else do {
       (err2, vb, cs2) \<leftarrow> fuse_copy_one cs1 b;
       Some (err2, cs2)}}"

definition null_header :: fuse_in_header where
  "null_header = in_h zero_in"

definition take_unique :: "fuse_state \<Rightarrow> u64 \<times> fuse_state" where
  "take_unique s = (let (u, fiq) = fuse_get_unique (iq s) in (u, s\<lparr>iq := fiq\<rparr>))"

definition fuse_read_interrupt ::
    "wire_codec \<Rightarrow> fuse_state \<Rightarrow> fuse_copy_state \<Rightarrow> nat \<Rightarrow> req_id \<Rightarrow>
       (int \<times> fuse_copy_state \<times> fuse_state) option" where
  "fuse_read_interrupt wc s cs nbytes r = do {
     q \<leftarrow> reqs s r;
     let (u, s1) = take_unique (intr_del r s);
     let s2 = upd_req r (rq_intr_unique_update (\<lambda>_. u)) s1;
     let reqsize = wire_size s W_in_header + wire_size s W_interrupt_in;
     let ih = null_header\<lparr>ih_len := reqsize, ih_opcode := FUSE_INTERRUPT, ih_unique := u\<rparr>;
     if nbytes < reqsize then Some (- EINVAL, cs, s2)
     else do {
       (err, cs1) \<leftarrow> copy_two cs (enc_in_header wc ih) (enc_interrupt_in wc (ih_unique (in_h (rq_in q))));
       Some (if err \<noteq> 0 then err else int reqsize, fuse_copy_finish cs1, s2)}}"

definition fuse_read_single_forget ::
    "wire_codec \<Rightarrow> fuse_state \<Rightarrow> fuse_copy_state \<Rightarrow> nat \<Rightarrow>
       (int \<times> fuse_copy_state \<times> fuse_state) option" where
  "fuse_read_single_forget wc s cs nbytes =
     (case state_dequeue 1 s of
        ([], _) \<Rightarrow> None
      | (forget # _, s1) \<Rightarrow>
          (let (u, s2) = take_unique s1;
               len = wire_size s W_in_header + wire_size s W_forget_in;
               ih = null_header\<lparr>ih_len := len, ih_opcode := FUSE_FORGET, ih_nodeid := fo_nodeid forget,
                      ih_unique := u\<rparr>
           in if nbytes < len then Some (- EINVAL, cs, s2)
              else map_option (\<lambda>(err, cs1). (if err \<noteq> 0 then err else int len, fuse_copy_finish cs1, s2))
                     (copy_two cs (enc_in_header wc ih) (enc_forget_in wc (fo_nlookup forget)))))"

text \<open>The loop over the forgets of a batch: every one is freed, the copy stops at an error.\<close>

fun copy_forgets ::
    "wire_codec \<Rightarrow> int \<Rightarrow> fuse_copy_state \<Rightarrow> fuse_forget_one list \<Rightarrow> (int \<times> fuse_copy_state) option" where
  "copy_forgets wc err cs [] = Some (err, cs)"
| "copy_forgets wc err cs (f # fs) =
     (if err \<noteq> 0 then copy_forgets wc err cs fs
      else case fuse_copy_one cs (enc_forget_one wc f) of
          None \<Rightarrow> None
        | Some (err1, v, cs1) \<Rightarrow> copy_forgets wc err1 cs1 fs)"

definition fuse_read_batch_forget ::
    "wire_codec \<Rightarrow> fuse_state \<Rightarrow> fuse_copy_state \<Rightarrow> nat \<Rightarrow>
       (int \<times> fuse_copy_state \<times> fuse_state) option" where
  "fuse_read_batch_forget wc s cs nbytes =
     (let (u, s1) = take_unique s;
          len = wire_size s W_in_header + wire_size s W_batch_forget_in
      in if nbytes < len then Some (- EINVAL, cs, s1)
         else
           let (forgets, s2) = state_dequeue ((nbytes - len) div wire_size s W_forget_one) s1;
               count = length forgets;
               total = len + count * wire_size s W_forget_one;
               ih = null_header\<lparr>ih_len := total, ih_opcode := FUSE_BATCH_FORGET, ih_unique := u\<rparr>
           in do {
             (err, cs1) \<leftarrow> copy_two cs (enc_in_header wc ih) (enc_batch_forget_in wc count);
             (err2, cs2) \<leftarrow> copy_forgets wc err cs1 forgets;
             Some (if err2 \<noteq> 0 then err2 else int total, fuse_copy_finish cs2, s2)})"

definition fuse_read_forget ::
    "wire_codec \<Rightarrow> fuse_state \<Rightarrow> fuse_copy_state \<Rightarrow> nat \<Rightarrow>
       (int \<times> fuse_copy_state \<times> fuse_state) option" where
  "fuse_read_forget wc s cs nbytes =
     (if forget_list (iq s) = [] then None
      else if minor s < 16 \<or> tl (forget_list (iq s)) = []
      then fuse_read_single_forget wc s cs nbytes
      else fuse_read_batch_forget wc s cs nbytes)"

subsection \<open>Choosing what to read\<close>

datatype read_pick =
    Pick_error int | Pick_sleep | Pick_interrupt req_id | Pick_forget | Pick_request req_id

text \<open>
  The first critical section of \<open>fuse_dev_do_read\<close>: \<open>nonblock\<close> is \<open>O_NONBLOCK\<close> and \<open>signal\<close> a signal
  pending for the reader. \<open>fiq->forget_batch\<close> is decremented only when a request is pending too.
\<close>

definition pick_request :: "fuse_state \<Rightarrow> read_pick \<times> fuse_state" where
  "pick_request s = (case pending (iq s) of
      [] \<Rightarrow> (Pick_sleep, s)
    | r # _ \<Rightarrow> (Pick_request r, list_del r (upd_req r (clear_flag FR_PENDING) s)))"

definition set_forget_batch :: "int \<Rightarrow> fuse_state \<Rightarrow> fuse_state" where
  "set_forget_batch b s = s\<lparr>iq := (iq s)\<lparr>forget_batch := b\<rparr>\<rparr>"

definition pick_after_interrupts :: "fuse_state \<Rightarrow> read_pick \<times> fuse_state" where
  "pick_after_interrupts s =
     (if \<not> forget_pending s then pick_request s
      else if pending (iq s) = [] then (Pick_forget, s)
      else
        let b = forget_batch (iq s); s1 = set_forget_batch (b - 1) s in
        if 0 < b then (Pick_forget, s1)
        else pick_request (if b - 1 \<le> - 8 then set_forget_batch 16 s1 else s1))"

definition read_pick :: "bool \<Rightarrow> bool \<Rightarrow> fuse_state \<Rightarrow> read_pick \<times> fuse_state" where
  "read_pick nonblock signal s =
     (if iq_connected (iq s) \<and> \<not> request_pending s
      then (if nonblock then Pick_error (- EAGAIN)
            else if signal then Pick_error (- ERESTARTSYS) else Pick_sleep, s)
      else if \<not> iq_connected (iq s) then (Pick_error (- ENODEV), s)
      else case interrupts (iq s) of
          r # _ \<Rightarrow> (Pick_interrupt r, s)
        | [] \<Rightarrow> pick_after_interrupts s)"

subsection \<open>Taking a request\<close>

definition req_len :: "fuse_req \<Rightarrow> nat" where
  "req_len q = ih_len (in_h (rq_in q))"

text \<open>A request that does not fit the buffer is answered with an error.\<close>

definition read_reject :: "fuse_state \<Rightarrow> req_id \<Rightarrow> fuse_req \<Rightarrow> fuse_state option" where
  "read_reject s r q =
     request_end (upd_req r (set_out_error
       (if ih_opcode (in_h (rq_in q)) = FUSE_SETXATTR then - E2BIG else - EIO)) s) r"

definition io_add :: "req_id \<Rightarrow> fuse_pqueue \<Rightarrow> fuse_pqueue" where
  "io_add r p = p\<lparr>io_list := r # io_list p\<rparr>"

lemma flush_queue_length:
  assumes "flush_bg_queue s = Some s'"
  shows "length (pending (iq s')) + length (bg_queue s') \<le> length (pending (iq s)) + length (bg_queue s)"
  using assms
proof (induction rule: flush_induct)
  case (stop s)
  then show ?case by simp
next
  case (iterate s s' r rest)
  have "length (pending (iq (flush_bg_one r s))) + length (bg_queue (flush_bg_one r s))
      \<le> length (pending (iq s)) + length (bg_queue s)"
    using iterate.hyps(1) length_without_le [of r "pending (iq s)"] length_without_le [of r rest] by simp
  with iterate.IH show ?case by linarith
qed

lemma request_end_length:
  assumes "request_end s r = Some s'"
  shows "length (pending (iq s')) + length (bg_queue s') \<le> length (pending (iq s)) + length (bg_queue s)"
proof -
  from assms obtain q where q: "reqs s r = Some q" by (auto simp: request_end_def elim: bind_Some_E)
  show ?thesis
  proof (cases "FR_FINISHED \<in> rq_flags q")
    case True
    then show ?thesis using assms request_end_finished [OF q] by simp
  next
    case False
    from assms q False obtain s4 s6 where bg: "end_counters s r q = Some s4"
        and cb: "end_callback s4 r q = Some s6" and put: "fuse_put_request s6 r = Some s'"
      by (rule request_end_elim)
    have "length (pending (iq s4)) + length (bg_queue s4) \<le> length (pending (iq s)) + length (bg_queue s)"
      using bg flush_queue_length [of "end_counts r (end_mark s r q)" s4]
      by (auto simp: end_counters_def end_background_def split: if_split_asm)
    then show ?thesis
      by (simp add: fuse_put_request_frame [OF put] request_end_callback [OF cb])
  qed
qed

datatype read_start =
    Start_done int | Start_sleep | Start_interrupt req_id | Start_forget | Start_copy req_id

lemma pick_request_shrinks:
  assumes "read_pick nb sg s = (Pick_request r, s1)"
  shows "length (pending (iq s1)) + length (bg_queue s1) < length (pending (iq s)) + length (bg_queue s)"
proof -
  have pr: "length (pending (iq t1)) + length (bg_queue t1) < length (pending (iq t)) + length (bg_queue t)"
    if "pick_request t = (Pick_request r, t1)" for t t1
    using that length_without_le [of r "tl (pending (iq t))"] length_without_le [of r "bg_queue t"]
    by (cases "pending (iq t)") (auto simp: pick_request_def)
  show ?thesis
    using assms pr [of s s1] pr [of "set_forget_batch (forget_batch (iq s) - 1) s" s1]
      pr [of "set_forget_batch 16 (set_forget_batch (forget_batch (iq s) - 1) s)" s1]
    by (auto simp: read_pick_def pick_after_interrupts_def set_forget_batch_def Let_def
        split: if_split_asm list.split_asm)
qed

function do_read_begin ::
    "dev_id \<Rightarrow> bool \<Rightarrow> bool \<Rightarrow> nat \<Rightarrow> fuse_state \<Rightarrow> (read_start \<times> fuse_state) option" where
  "do_read_begin d nonblock signal nbytes s =
     (case read_pick nonblock signal s of
        (Pick_error e, s1) \<Rightarrow> Some (Start_done e, s1)
      | (Pick_sleep, s1) \<Rightarrow> Some (Start_sleep, s1)
      | (Pick_interrupt r, s1) \<Rightarrow> Some (Start_interrupt r, s1)
      | (Pick_forget, s1) \<Rightarrow> Some (Start_forget, s1)
      | (Pick_request r, s1) \<Rightarrow>
          (case reqs s1 r of
             None \<Rightarrow> None
           | Some q \<Rightarrow>
               if nbytes < req_len q then
                 (case read_reject s1 r q of
                    None \<Rightarrow> None
                  | Some s2 \<Rightarrow> do_read_begin d nonblock signal nbytes s2)
               else if devs s1 d = None then None
               else Some (Start_copy r, upd_dev d (io_add r) s1)))"
  by pat_completeness auto
termination
proof (relation "measure (\<lambda>(d, nb, sg, n, s). length (pending (iq s)) + length (bg_queue s))", goal_cases)
  case 1
  show ?case by simp
next
  case (2 d nonblock signal nbytes s p1 s1 r q s2)
  then have "read_pick nonblock signal s = (Pick_request r, s1)" by simp
  then have "length (pending (iq s1)) + length (bg_queue s1) < length (pending (iq s)) + length (bg_queue s)"
    by (rule pick_request_shrinks)
  moreover have "length (pending (iq s2)) + length (bg_queue s2) \<le> length (pending (iq s1)) + length (bg_queue s1)"
    using 2 request_end_length by (fastforce simp: read_reject_def)
  ultimately show ?case by simp
qed

declare do_read_begin.simps [simp del]

subsection \<open>Copying and finishing\<close>

definition do_read_copy ::
    "wire_codec \<Rightarrow> fuse_copy_state \<Rightarrow> fuse_req \<Rightarrow> (int \<times> fuse_copy_state) option" where
  "do_read_copy wc cs q = do {
     (err, h, cs1) \<leftarrow> fuse_copy_one (cs\<lparr>cs_req := Some q\<rparr>) (enc_in_header wc (in_h (rq_in q)));
     (err2, cs2) \<leftarrow>
       (if err \<noteq> 0 then Some (err, cs1)
        else map_option (\<lambda>(e, as, cs2). (e, cs2))
               (fuse_copy_args cs1 (in_args (rq_in q)) (in_argpages (rq_in q)) False));
     Some (err2, fuse_copy_finish cs2)}"

text \<open>
  The last part of \<open>fuse_dev_do_read\<close>. \<open>do_read_move\<close> is the critical section that puts the request
  on the processing list; \<open>do_read_sent\<close> follows after \<open>fpq->lock\<close> has been dropped.
\<close>

definition processing_add :: "req_id \<Rightarrow> fuse_pqueue \<Rightarrow> fuse_pqueue" where
  "processing_add r p = (let p1 = pq_del r p in p1\<lparr>processing := processing p1 @ [r]\<rparr>)"

definition do_read_move :: "dev_id \<Rightarrow> req_id \<Rightarrow> fuse_state \<Rightarrow> fuse_state" where
  "do_read_move d r s = upd_dev d (processing_add r) s"

definition do_read_sent :: "req_id \<Rightarrow> fuse_state \<Rightarrow> fuse_state option" where
  "do_read_sent r s = do {
     q \<leftarrow> reqs s r;
     let s1 = upd_req r (set_flag FR_SENT) s;
     (if FR_INTERRUPTED \<in> rq_flags q then queue_interrupt s1 r else Some s1)}"

definition do_read_out_end :: "req_id \<Rightarrow> fuse_state \<Rightarrow> fuse_state option" where
  "do_read_out_end r s = do {
     q \<leftarrow> reqs s r;
     request_end (if FR_PRIVATE \<in> rq_flags q then s else list_del r s) r}"

definition do_read_end :: "dev_id \<Rightarrow> req_id \<Rightarrow> nat \<Rightarrow> int \<Rightarrow> fuse_state \<Rightarrow> (int \<times> fuse_state) option" where
  "do_read_end d r reqsize err s0 = do {
     q \<leftarrow> reqs s0 r;
     dev \<leftarrow> devs s0 d;
     let s = upd_req r (clear_flag FR_LOCKED) s0;
     if \<not> pq_connected (dev_pq dev) then
       map_option (\<lambda>s1. (- ENODEV, s1)) (do_read_out_end r s)
     else if err \<noteq> 0 then
       map_option (\<lambda>s1. (err, s1)) (do_read_out_end r (upd_req r (set_out_error (- EIO)) s))
     else if FR_ISREPLY \<notin> rq_flags q then
       map_option (\<lambda>s1. (int reqsize, s1)) (do_read_out_end r s)
     else map_option (\<lambda>s1. (int reqsize, s1)) (do_read_sent r (do_read_move d r s))}"

text \<open>
  \<open>fuse_dev_do_read\<close>: the result is \<open>None\<close> in the first component for a reader that went to sleep.
  \<open>env\<close> is what the other threads do to the state while the request is copied.
\<close>

definition fuse_dev_do_read ::
    "wire_codec \<Rightarrow> (fuse_state \<Rightarrow> fuse_state) \<Rightarrow> dev_id \<Rightarrow> bool \<Rightarrow> bool \<Rightarrow> fuse_copy_state \<Rightarrow> nat \<Rightarrow> fuse_state \<Rightarrow>
       (int option \<times> fuse_copy_state \<times> fuse_state) option" where
  "fuse_dev_do_read wc env d nonblock signal cs nbytes s = do {
     (st, s1) \<leftarrow> do_read_begin d nonblock signal nbytes s;
     (case st of
        Start_done e \<Rightarrow> Some (Some e, cs, s1)
      | Start_sleep \<Rightarrow> Some (None, cs, s1)
      | Start_interrupt r \<Rightarrow>
          map_option (\<lambda>(e, cs1, s2). (Some e, cs1, s2)) (fuse_read_interrupt wc s1 cs nbytes r)
      | Start_forget \<Rightarrow> map_option (\<lambda>(e, cs1, s2). (Some e, cs1, s2)) (fuse_read_forget wc s1 cs nbytes)
      | Start_copy r \<Rightarrow> do {
          q \<leftarrow> reqs s1 r;
          (err, cs1) \<leftarrow> do_read_copy wc cs q;
          (ret, s2) \<leftarrow> do_read_end d r (req_len q) err (env s1);
          Some (Some ret, cs1, s2)})}"

text \<open>\<open>fuse_dev_read\<close>: a file that is not attached to a connection, and a buffer that is no iovec.\<close>

definition fuse_dev_read ::
    "wire_codec \<Rightarrow> (fuse_state \<Rightarrow> fuse_state) \<Rightarrow> dev_id option \<Rightarrow> bool \<Rightarrow> bool \<Rightarrow> bool \<Rightarrow>
       (int + u8 list) list \<Rightarrow> (page_id \<Rightarrow> page) \<Rightarrow> bool list \<Rightarrow> nat \<Rightarrow> fuse_state \<Rightarrow>
       (int option \<times> fuse_copy_state \<times> fuse_state) option" where
  "fuse_dev_read wc env fud nonblock signal is_iovec iter mem aborts count s =
     (let cs = fuse_copy_init True iter mem aborts in
      case fud of
        None \<Rightarrow> Some (Some (- EPERM), cs, s)
      | Some d \<Rightarrow>
          if \<not> is_iovec then Some (Some (- EINVAL), cs, s)
          else fuse_dev_do_read wc env d nonblock signal cs count s)"

subsection \<open>What a reader gets\<close>

lemma cs_aborted_req [simp]: "cs_aborted (cs\<lparr>cs_req := r\<rparr>) = (\<exists>q. r = Some q \<and> FR_ABORTED \<in> rq_flags q)"
  by (simp add: cs_aborted_def)

lemma quiet_not_aborted: "cs_quiet cs \<Longrightarrow> cs_frame cs cs' \<Longrightarrow> \<not> cs_aborted cs'"
  by (simp add: cs_frame_def cs_quiet_def)

lemma copy_one_quiet:
  assumes "cs_ready cs" and "cs_quiet cs" and "length val \<le> length (cs_stream cs)"
  obtains got cs' where "fuse_copy_one cs val = Some (0, got, cs')" and "copy_one_ok cs val got cs'"
    and "cs_frame cs cs'" and "cs_mem cs' = cs_mem cs"
  using copy_one_ready [OF assms(1,3)] quiet_not_aborted [OF assms(2)]
  unfolding copy_one_post_def by blast

lemma copy_args_quiet:
  assumes "cs_ready cs" and "cs_quiet cs" and "\<forall>a \<in> set as. arg_size a \<le> length (arg_value a)"
    and "args_total as \<le> length (cs_stream cs)"
  obtains as' cs' where "fuse_copy_args cs as False z = Some (0, as', cs')" and "copy_args_ok cs as as' cs'"
    and "cs_frame cs cs'" and "cs_mem cs' = cs_mem cs"
  using copy_args_ready [OF assms(1,3,4)] quiet_not_aborted [OF assms(2)] by blast

lemma cs_frame_quiet: "cs_frame cs cs' \<Longrightarrow> cs_quiet cs \<Longrightarrow> cs_quiet cs'"
  by (simp add: cs_frame_def)

lemma do_read_copy_sent:
  assumes r: "cs_ready cs" and w: "cs_write cs" and mt: "cs_win cs = []"
    and quiet: "FR_ABORTED \<notin> rq_flags q" "True \<notin> set (cs_aborts cs)"
    and wf: "\<not> in_argpages (rq_in q)" "\<forall>a \<in> set (in_args (rq_in q)). arg_size a \<le> length (arg_value a)"
    and room: "length (enc_in_header wc (in_h (rq_in q))) + args_total (in_args (rq_in q)) \<le> length (cs_stream cs)"
  shows "\<exists>cs'. do_read_copy wc cs q = Some (0, cs') \<and>
     cs_sent cs' = cs_sent cs @ enc_in_header wc (in_h (rq_in q)) @ concat (map arg_bytes (in_args (rq_in q)))"
proof -
  let ?c = "cs\<lparr>cs_req := Some q\<rparr>" and ?h = "enc_in_header wc (in_h (rq_in q))"
  have c: "cs_ready ?c" "cs_quiet ?c" "cs_stream ?c = cs_stream cs" "cs_write ?c"
    using r w mt quiet by (auto simp: cs_ready_def cs_quiet_def cs_stream_def)
  have "length ?h \<le> length (cs_stream ?c)" using room c(3) by simp
  from copy_one_quiet [OF c(1,2) this] obtain got cs1 where
      o: "fuse_copy_one ?c ?h = Some (0, got, cs1)" "copy_one_ok ?c ?h got cs1" "cs_frame ?c cs1" by blast
  have c1: "cs_ready cs1" "cs_quiet cs1" "cs_write cs1"
    using o c by (auto simp: copy_one_ok_def cs_frame_def)
  have st1: "args_total (in_args (rq_in q)) \<le> length (cs_stream cs1)"
    using o(2) room c(3) by (simp add: copy_one_ok_def)
  from copy_args_quiet [OF c1(1,2) wf(2) st1] obtain as' cs2 where
      t: "fuse_copy_args cs1 (in_args (rq_in q)) False False = Some (0, as', cs2)"
        "copy_args_ok cs1 (in_args (rq_in q)) as' cs2" by blast
  have "do_read_copy wc cs q = Some (0, fuse_copy_finish cs2)"
    using o(1) t(1) wf(1) by (simp add: do_read_copy_def)
  moreover have "cs_sent cs2 = cs_sent cs @ ?h @ concat (map arg_bytes (in_args (rq_in q)))"
    using t(2) o(2) c1 c(4) by (simp add: copy_args_ok_def copy_one_ok_def)
  ultimately show ?thesis by simp
qed

lemma read_pick_request:
  assumes "iq_connected (iq s)" and "interrupts (iq s) = []" and "forget_list (iq s) = []"
    and "pending (iq s) = r # rest"
  shows "read_pick nb sg s = (Pick_request r, list_del r (upd_req r (clear_flag FR_PENDING) s))"
  using assms
  by (simp add: read_pick_def request_pending_def pick_after_interrupts_def forget_pending_def pick_request_def)

text \<open>The state in which the copy of the first pending request starts.\<close>

definition read_taken :: "dev_id \<Rightarrow> req_id \<Rightarrow> fuse_state \<Rightarrow> fuse_state" where
  "read_taken d r s = upd_dev d (io_add r) (list_del r (upd_req r (clear_flag FR_PENDING) s))"

lemma do_read_begin_request:
  assumes "iq_connected (iq s)" and "interrupts (iq s) = []" and "forget_list (iq s) = []"
    and "pending (iq s) = r # rest" and "reqs s r = Some q" and "req_len q \<le> nbytes" and "devs s d \<noteq> None"
  shows "do_read_begin d nb sg nbytes s = Some (Start_copy r, read_taken d r s)"
  using assms
  by (subst do_read_begin.simps)
    (auto simp: read_pick_request read_taken_def req_len_def)

lemma do_read_end_sent:
  assumes q: "reqs s r = Some q" and d: "devs s d = Some dev" "pq_connected (dev_pq dev)"
    and fl: "FR_ISREPLY \<in> rq_flags q" "FR_INTERRUPTED \<notin> rq_flags q"
  shows "\<exists>s'. do_read_end d r n 0 s = Some (int n, s') \<and>
     reqs s' r = Some (set_flag FR_SENT (clear_flag FR_LOCKED q)) \<and>
     (\<forall>x. x \<noteq> r \<longrightarrow> reqs s' x = reqs s x) \<and> iq s' = iq s \<and> bg_queue s' = bg_queue s \<and>
     devs s' d = Some (dev\<lparr>dev_pq := processing_add r (dev_pq dev)\<rparr>)"
  using assms
  by (cases dev) (auto simp: do_read_end_def do_read_sent_def do_read_move_def Let_def)

subsection \<open>Fairness of forgets and requests\<close>

definition forget_batch_inv :: "fuse_state \<Rightarrow> bool" where
  "forget_batch_inv s \<longleftrightarrow> - 8 < forget_batch (iq s) \<and> forget_batch (iq s) \<le> 16"

text \<open>
  The choices of successive readers; \<open>env\<close> is what happens to the state between two of them.
\<close>

fun pick_trace :: "nat \<Rightarrow> (fuse_state \<Rightarrow> fuse_state) \<Rightarrow> fuse_state \<Rightarrow> read_pick list" where
  "pick_trace 0 env s = []"
| "pick_trace (Suc n) env s = (let (p, s1) = read_pick False False s in p # pick_trace n env (env s1))"

text \<open>The server keeps up with interrupts, but forgets and requests are always waiting.\<close>

definition both_waiting :: "fuse_state \<Rightarrow> bool" where
  "both_waiting s \<longleftrightarrow> iq_connected (iq s) \<and> interrupts (iq s) = [] \<and> forget_list (iq s) \<noteq> [] \<and>
     pending (iq s) \<noteq> []"

definition batch_next :: "int \<Rightarrow> int" where
  "batch_next b = (if b \<le> - 7 then 16 else b - 1)"

lemma pick_both_waiting:
  assumes "both_waiting s" and "forget_batch_inv s" and "read_pick nb sg s = (p, s1)"
  shows "p = (if 0 < forget_batch (iq s) then Pick_forget else Pick_request (hd (pending (iq s))))"
    and "forget_batch (iq s1) = batch_next (forget_batch (iq s))"
  using assms
  by (auto simp: both_waiting_def read_pick_def request_pending_def pick_after_interrupts_def
      forget_pending_def pick_request_def set_forget_batch_def batch_next_def Let_def forget_batch_inv_def
      split: list.split_asm if_split_asm)

lemma batch_next_bounds: "- 8 < b \<Longrightarrow> b \<le> 16 \<Longrightarrow> - 8 < batch_next b \<and> batch_next b \<le> 16"
  by (simp add: batch_next_def)

lemma pick_trace_batch:
  assumes env: "\<And>t. both_waiting (env t) \<and> forget_batch (iq (env t)) = forget_batch (iq t)"
    and s: "both_waiting s" "forget_batch_inv s" and i: "i < n"
  shows "((\<exists>r. pick_trace n env s ! i = Pick_request r) \<longleftrightarrow> (batch_next ^^ i) (forget_batch (iq s)) \<le> 0) \<and>
    (pick_trace n env s ! i = Pick_forget \<longleftrightarrow> 0 < (batch_next ^^ i) (forget_batch (iq s)))"
  using s i
proof (induction n arbitrary: s i)
  case (Suc n)
  obtain p s1 where ps: "read_pick False False s = (p, s1)" by force
  note pk = pick_both_waiting [OF Suc.prems(1,2) ps]
  have "both_waiting (env s1)" "forget_batch_inv (env s1)"
    using env [of s1] pk(2) batch_next_bounds [of "forget_batch (iq s)"] Suc.prems(2)
    by (auto simp: forget_batch_inv_def)
  note IH = Suc.IH [OF this]
  show ?case
    using pk IH [of "i - 1"] Suc.prems(3) env [of s1] ps
    by (cases i) (simp_all add: funpow_Suc_right del: funpow.simps)
qed simp

lemma batch_countdown: "int i \<le> b + 7 \<Longrightarrow> (batch_next ^^ i) b = b - int i"
  by (induction i) (simp_all add: batch_next_def)

lemma batch_reaches:
  assumes "- 8 < b" and "b \<le> (16::int)"
  shows "\<exists>i < 17. (batch_next ^^ i) b \<le> 0" and "\<exists>i < 9. 0 < (batch_next ^^ i) b"
proof -
  have "(batch_next ^^ nat b) b \<le> 0"
    using assms batch_countdown [of "nat b" b] by simp
  moreover have "nat b < 17" using assms by simp
  ultimately show "\<exists>i < 17. (batch_next ^^ i) b \<le> 0" by blast
  have "(batch_next ^^ nat (b + 7)) b = - 7"
    using assms batch_countdown [of "nat (b + 7)" b] by simp
  then have up: "(batch_next ^^ Suc (nat (b + 7))) b = 16" by (simp add: batch_next_def)
  show "\<exists>i < 9. 0 < (batch_next ^^ i) b"
  proof (cases "0 < b")
    case True
    then show ?thesis by (intro exI [of _ 0]) simp
  next
    case False
    then have "Suc (nat (b + 7)) < 9" using assms by simp
    then show ?thesis using up by (intro exI [of _ "Suc (nat (b + 7))"]) simp
  qed
qed

lemma read_pick_forget_batch:
  assumes "forget_batch_inv s" and "read_pick nb sg s = (p, s1)"
  shows "forget_batch_inv s1"
  using assms
  by (auto simp: read_pick_def pick_after_interrupts_def pick_request_def set_forget_batch_def
      forget_batch_inv_def Let_def split: list.split_asm if_split_asm)

subsection \<open>Properties\<close>

text \<open>
  C15: a server whose buffer is large enough reads exactly the oldest pending request: the call returns
  its length, the bytes are the header followed by the arguments, and the request has left the
  pending list, is on the processing list of the device and is marked as sent.
\<close>

theorem read_delivers_request:
  assumes "iq_connected (iq s)" and "interrupts (iq s) = []" and "forget_list (iq s) = []"
    and "pending (iq s) = r # rest" and "reqs s r = Some q" and "devs s d = Some dev"
    and "pq_connected (dev_pq dev)" and "FR_ISREPLY \<in> rq_flags q" and "FR_INTERRUPTED \<notin> rq_flags q"
    and "FR_ABORTED \<notin> rq_flags q" and "\<not> in_argpages (rq_in q)"
    and "\<forall>a \<in> set (in_args (rq_in q)). arg_size a \<le> length (arg_value a)"
    and "length (enc_in_header wc (in_h (rq_in q))) + args_total (in_args (rq_in q)) \<le> length (cs_stream cs)"
    and "req_len q \<le> nbytes"
    and "cs_ready cs" and "cs_write cs" and "cs_win cs = []" and "True \<notin> set (cs_aborts cs)"
    and "\<And>t. reqs (env t) r = reqs t r \<and> devs (env t) d = devs t d \<and> pending (iq (env t)) = pending (iq t)"
  shows "\<exists>cs' s' dev'. fuse_dev_do_read wc env d nb sg cs nbytes s = Some (Some (int (req_len q)), cs', s') \<and>
     cs_sent cs' = cs_sent cs @ enc_in_header wc (in_h (rq_in q)) @ concat (map arg_bytes (in_args (rq_in q))) \<and>
     reqs s' r = Some (set_flag FR_SENT (clear_flag FR_LOCKED (clear_flag FR_PENDING q))) \<and>
     devs s' d = Some dev' \<and> r \<in> set (processing (dev_pq dev')) \<and> r \<notin> set (io_list (dev_pq dev')) \<and>
     r \<notin> set (pending (iq s'))"
proof -
  let ?t = "read_taken d r s" and ?q = "clear_flag FR_PENDING q"
  let ?dev = "dev_pq_update (io_add r) (dev_pq_update (pq_del r) dev)"
  have st: "do_read_begin d nb sg nbytes s = Some (Start_copy r, ?t)"
    using assms(1-6,14) by (intro do_read_begin_request) auto
  have qt: "reqs ?t r = Some ?q" and dt: "devs ?t d = Some ?dev"
    using assms(5,6) by (simp_all add: read_taken_def)
  obtain cs1 where cp: "do_read_copy wc cs ?q = Some (0, cs1)"
      and sent: "cs_sent cs1 = cs_sent cs @ enc_in_header wc (in_h (rq_in q)) @
        concat (map arg_bytes (in_args (rq_in q)))"
    using do_read_copy_sent [of cs ?q wc] assms(10-13,15-18) by auto
  have "pq_connected (dev_pq ?dev)" using assms(7) by (simp add: io_add_def)
  then obtain s' where en: "do_read_end d r (req_len ?q) 0 (env ?t) = Some (int (req_len ?q), s')"
      and fin: "reqs s' r = Some (set_flag FR_SENT (clear_flag FR_LOCKED ?q))"
        "iq s' = iq (env ?t)" "devs s' d = Some (?dev\<lparr>dev_pq := processing_add r (dev_pq ?dev)\<rparr>)"
    using do_read_end_sent [of "env ?t" r ?q d ?dev "req_len ?q"] assms(8,9,19) qt dt by auto
  have "fuse_dev_do_read wc env d nb sg cs nbytes s = Some (Some (int (req_len q)), cs1, s')"
    using st qt cp en by (simp add: fuse_dev_do_read_def req_len_def)
  moreover have "r \<notin> set (pending (iq s'))"
    using fin(2) assms(19) by (simp add: read_taken_def)
  ultimately show ?thesis
    using sent fin by (simp add: processing_add_def Let_def)
qed

text \<open>
  C18: neither forgets nor requests starve: however many of both wait, of any 17 successive readers one
  is given a request, and of any 9 one is given a forget.
\<close>

theorem read_fair:
  assumes "\<And>t. both_waiting (env t) \<and> forget_batch (iq (env t)) = forget_batch (iq t)"
    and "both_waiting s" and "forget_batch_inv s"
  shows "(\<exists>r. Pick_request r \<in> set (pick_trace 17 env s)) \<and> Pick_forget \<in> set (pick_trace 9 env s)"
proof -
  have len: "length (pick_trace n env s) = n" for n
    by (induction n arbitrary: s) (simp_all add: split_beta Let_def)
  have b: "- 8 < forget_batch (iq s)" "forget_batch (iq s) \<le> 16"
    using assms(3) by (simp_all add: forget_batch_inv_def)
  obtain i where "i < 17" "(batch_next ^^ i) (forget_batch (iq s)) \<le> 0" using batch_reaches(1) [OF b] by blast
  then have "\<exists>r. Pick_request r \<in> set (pick_trace 17 env s)"
    using pick_trace_batch [OF assms, of i 17] len [of 17] by (metis nth_mem)
  moreover obtain j where "j < 9" "0 < (batch_next ^^ j) (forget_batch (iq s))"
    using batch_reaches(2) [OF b] by blast
  then have "Pick_forget \<in> set (pick_trace 9 env s)"
    using pick_trace_batch [OF assms, of j 9] len [of 9] by (metis nth_mem)
  ultimately show ?thesis by blast
qed

definition example_codec :: wire_codec where
  "example_codec = \<lparr>enc_in_header = (\<lambda>h. replicate 40 (of_nat (ih_len h))),
     enc_interrupt_in = (\<lambda>u. replicate 8 (ucast u)), enc_forget_in = (\<lambda>n. replicate 8 (ucast n)),
     enc_batch_forget_in = (\<lambda>n. replicate 8 (of_nat n)),
     enc_forget_one = (\<lambda>f. replicate 16 (ucast (fo_nlookup f))),
     dec_out_header = (\<lambda>bs. \<lparr>oh_len = length bs, oh_error = 0, oh_unique = ucast (hd bs)\<rparr>)\<rparr>"

definition example_read_req :: fuse_req where
  "example_read_req = (req_with {FR_PENDING, FR_ISREPLY, FR_WAITING})\<lparr>rq_in :=
     \<lparr>in_h = null_header\<lparr>ih_len := 43, ih_opcode := FUSE_LOOKUP, ih_unique := 1\<rparr>, in_argpages = False,
      in_args = [\<lparr>arg_size = 3, arg_value = [102, 111, 0]\<rparr>]\<rparr>\<rparr>"

definition example_reading :: fuse_state where
  "example_reading = (with_reqs [(5, example_read_req)] example_conn)
     \<lparr>iq := fuse_iqueue_init\<lparr>pending := [5], reqctr := 1\<rparr>\<rparr>"

definition example_page :: page where
  "example_page = \<lparr>pg_data = replicate PAGE_SIZE 0, pg_mapcount = 0, pg_mapping = False, pg_count = 1,
     pg_flags = {}\<rparr>"

definition example_buffer :: fuse_copy_state where
  "example_buffer = fuse_copy_init True [Inr (replicate 10 0), Inr (replicate 54 0)] (\<lambda>_. example_page) []"

lemma read_delivers_request_witness:
  "\<exists>cs' s' dev'. fuse_dev_do_read example_codec (\<lambda>s. s) 100 False False example_buffer 64 example_reading =
       Some (Some 43, cs', s') \<and> cs_sent cs' = replicate 40 43 @ [102, 111, 0] \<and>
     devs s' 100 = Some dev' \<and> 5 \<in> set (processing (dev_pq dev'))"
proof -
  have len: "req_len example_read_req = 43" by (simp add: req_len_def example_read_req_def)
  have hdr: "enc_in_header example_codec (in_h (rq_in example_read_req)) = replicate 40 43"
    by (simp add: example_codec_def example_read_req_def)
  have args: "in_args (rq_in example_read_req) = [\<lparr>arg_size = 3, arg_value = [102, 111, 0]\<rparr>]"
    by (simp add: example_read_req_def)
  have pend: "pending (iq example_reading) = 5 # []"
    by (simp add: example_reading_def)
  have emp: "cs_sent example_buffer = []" by (simp add: example_buffer_def fuse_copy_init_def)
  have "\<exists>cs' s' dev'. fuse_dev_do_read example_codec (\<lambda>s. s) 100 False False example_buffer 64 example_reading =
      Some (Some (int (req_len example_read_req)), cs', s') \<and>
     cs_sent cs' = cs_sent example_buffer @ enc_in_header example_codec (in_h (rq_in example_read_req)) @
       concat (map arg_bytes (in_args (rq_in example_read_req))) \<and>
     reqs s' 5 = Some (set_flag FR_SENT (clear_flag FR_LOCKED (clear_flag FR_PENDING example_read_req))) \<and>
     devs s' 100 = Some dev' \<and> 5 \<in> set (processing (dev_pq dev')) \<and> 5 \<notin> set (io_list (dev_pq dev')) \<and>
     5 \<notin> set (pending (iq s'))"
    by (rule read_delivers_request [OF _ _ _ pend, where dev = "\<lparr>dev_pq = fuse_pqueue_init\<rparr>"])
      (simp_all add: hdr args len example_reading_def example_read_req_def example_defs
        example_buffer_def fuse_copy_init_def cs_ready_def cs_stream_def example_codec_def req_len_def)
  then show ?thesis by (auto simp: hdr args len arg_bytes_def emp)
qed

definition example_busy :: fuse_state where
  "example_busy = example_conn\<lparr>iq := fuse_iqueue_init\<lparr>pending := [5],
     forget_list := [\<lparr>fo_nodeid = 1, fo_nlookup = 1\<rparr>]\<rparr>\<rparr>"

lemma read_fair_witness:
  "(\<exists>r. Pick_request r \<in> set (pick_trace 17
       (\<lambda>t. example_busy\<lparr>iq := (iq example_busy)\<lparr>forget_batch := forget_batch (iq t)\<rparr>\<rparr>) example_busy)) \<and>
   Pick_forget \<in> set (pick_trace 9
       (\<lambda>t. example_busy\<lparr>iq := (iq example_busy)\<lparr>forget_batch := forget_batch (iq t)\<rparr>\<rparr>) example_busy)"
  by (rule read_fair)
    (simp_all add: both_waiting_def example_busy_def forget_batch_inv_def fuse_iqueue_init_def)

end
