(* ===== verification/Fuse_Dev_Write.thy ===== *)
theory Fuse_Dev_Write
  imports Fuse_Dev_Read
begin

text \<open>
  Writing to the device (\<open>dev.c\<close>): \<open>request_find\<close>, \<open>copy_out_args\<close> and \<open>fuse_dev_do_write\<close>, which takes
  the reply of the server, matches it with a request by its unique identifier, copies the output
  arguments in and ends the request.

  As in \<open>fuse_dev_do_read\<close> there are three parts: \<open>do_write_begin\<close> with the header and the critical
  section that takes the request off the processing list, the copy (during which other threads
  run), and \<open>do_write_end\<close>. A message with unique identifier 0 is a notification; what is done with
  it is the argument \<open>notify\<close>.
\<close>

subsection \<open>Finding the request\<close>

definition matches_unique :: "u64 \<Rightarrow> fuse_req \<Rightarrow> bool" where
  "matches_unique u q \<longleftrightarrow> ih_unique (in_h (rq_in q)) = u \<or> rq_intr_unique q = u"

text \<open>
  \<open>None\<close> is a freed request on the list; \<open>Some None\<close> is the NULL result.
\<close>

fun request_find :: "(req_id \<rightharpoonup> fuse_req) \<Rightarrow> req_id list \<Rightarrow> u64 \<Rightarrow> req_id option option" where
  "request_find rs [] u = Some None"
| "request_find rs (r # xs) u =
     (case rs r of
        None \<Rightarrow> None
      | Some q \<Rightarrow> if matches_unique u q then Some (Some r) else request_find rs xs u)"

subsection \<open>The output arguments\<close>

definition shrink_last :: "nat \<Rightarrow> fuse_arg list \<Rightarrow> fuse_arg list" where
  "shrink_last n as = butlast as @ [(last as)\<lparr>arg_size := arg_size (last as) - n\<rparr>]"

definition copy_out_args ::
    "(wire \<Rightarrow> nat) \<Rightarrow> fuse_copy_state \<Rightarrow> fuse_out \<Rightarrow> nat \<Rightarrow> (int \<times> fuse_out \<times> fuse_copy_state) option" where
  "copy_out_args sz cs out nbytes =
     (let hdr = sz W_out_header in
      if oh_error (out_h out) \<noteq> 0 then Some (if nbytes \<noteq> hdr then - EINVAL else 0, out, cs)
      else
        let reqsize = (hdr + len_args (out_args out)) mod 2 ^ 32; diffsize = reqsize - nbytes in
        if reqsize < nbytes \<or> (nbytes < reqsize \<and> \<not> out_argvar out) then Some (- EINVAL, out, cs)
        else if nbytes < reqsize \<and> out_args out = [] then None
        else if nbytes < reqsize \<and> arg_size (last (out_args out)) < diffsize then Some (- EINVAL, out, cs)
        else
          let args = (if nbytes < reqsize then shrink_last diffsize (out_args out) else out_args out) in
          map_option (\<lambda>(err, args1, cs1). (err, out\<lparr>out_args := args1\<rparr>, cs1))
            (fuse_copy_args cs args (out_argpages out) (out_page_zeroing out)))"

subsection \<open>\<open>fuse_dev_do_write\<close>\<close>

datatype write_start = Write_done int | Write_notify int | Write_copy req_id fuse_out_header

text \<open>The critical section on the processing list for a reply with a valid header.\<close>

definition write_take :: "dev_id \<Rightarrow> req_id \<Rightarrow> fuse_out_header \<Rightarrow> fuse_state \<Rightarrow> fuse_state" where
  "write_take d r oh s =
     upd_req r (\<lambda>q. set_flag FR_LOCKED ((clear_flag FR_SENT q)\<lparr>rq_out := (rq_out q)\<lparr>out_h := oh\<rparr>\<rparr>))
       (upd_dev d (\<lambda>p. io_add r (pq_del r p)) s)"

definition write_interrupt_reply ::
    "req_id \<Rightarrow> fuse_out_header \<Rightarrow> nat \<Rightarrow> fuse_state \<Rightarrow> (int \<times> fuse_state) option" where
  "write_interrupt_reply r oh nbytes s =
     (if nbytes \<noteq> wire_size s W_out_header then Some (- EINVAL, s)
      else if oh_error oh = - ENOSYS then Some (int nbytes, s\<lparr>fc_bits := insert No_interrupt (fc_bits s)\<rparr>)
      else if oh_error oh = - EAGAIN then map_option (\<lambda>s1. (int nbytes, s1)) (queue_interrupt s r)
      else Some (int nbytes, s))"

definition write_reply ::
    "dev_id \<Rightarrow> fuse_out_header \<Rightarrow> nat \<Rightarrow> fuse_state \<Rightarrow> (write_start \<times> fuse_state) option" where
  "write_reply d oh nbytes s =
     (if oh_error oh \<le> - 1000 \<or> 0 < oh_error oh then Some (Write_done (- EINVAL), s)
      else do {
        dev \<leftarrow> devs s d;
        if \<not> pq_connected (dev_pq dev) then Some (Write_done (- ENOENT), s)
        else do {
          found \<leftarrow> request_find (reqs s) (processing (dev_pq dev)) (oh_unique oh);
          (case found of
             None \<Rightarrow> Some (Write_done (- ENOENT), s)
           | Some r \<Rightarrow> do {
               q \<leftarrow> reqs s r;
               if rq_intr_unique q = oh_unique oh then
                 map_option (\<lambda>(e, s1). (Write_done e, s1)) (write_interrupt_reply r oh nbytes s)
               else Some (Write_copy r oh, write_take d r oh s)})}})"

definition do_write_begin ::
    "wire_codec \<Rightarrow> dev_id \<Rightarrow> fuse_copy_state \<Rightarrow> nat \<Rightarrow> fuse_state \<Rightarrow>
       (write_start \<times> fuse_copy_state \<times> fuse_state) option" where
  "do_write_begin wc d cs nbytes s =
     (if nbytes < wire_size s W_out_header then Some (Write_done (- EINVAL), cs, s)
      else do {
        (err, hb, cs1) \<leftarrow> fuse_copy_one cs (replicate (wire_size s W_out_header) 0);
        let oh = dec_out_header wc hb;
        if err \<noteq> 0 then Some (Write_done err, fuse_copy_finish cs1, s)
        else if oh_len oh \<noteq> nbytes then Some (Write_done (- EINVAL), fuse_copy_finish cs1, s)
        else if oh_unique oh = 0 then Some (Write_notify (oh_error oh), cs1, s)
        else map_option (\<lambda>(st, s1). (st, cs1, s1)) (write_reply d oh nbytes s)})"

text \<open>The copy: the request as the copy leaves it, with its output arguments and pages.\<close>

definition do_write_copy ::
    "(wire \<Rightarrow> nat) \<Rightarrow> fuse_copy_state \<Rightarrow> fuse_req \<Rightarrow> nat \<Rightarrow> (int \<times> fuse_req \<times> fuse_copy_state) option" where
  "do_write_copy sz cs q nbytes = do {
     let cs1 = cs\<lparr>cs_req := Some q,
                  cs_move_pages := cs_move_pages cs \<and> out_page_replace (rq_out q)\<rparr>;
     (err, out, cs2) \<leftarrow> copy_out_args sz cs1 (rq_out q) nbytes;
     q2 \<leftarrow> cs_req cs2;
     Some (err, q2\<lparr>rq_out := out\<rparr>, fuse_copy_finish cs2)}"

definition do_write_end :: "dev_id \<Rightarrow> req_id \<Rightarrow> nat \<Rightarrow> int \<Rightarrow> fuse_state \<Rightarrow> (int \<times> fuse_state) option" where
  "do_write_end d r nbytes err0 s0 = do {
     q \<leftarrow> reqs s0 r;
     dev \<leftarrow> devs s0 d;
     let s1 = upd_req r (clear_flag FR_LOCKED) s0;
     let err = (if \<not> pq_connected (dev_pq dev) then - ENOENT else err0);
     let s2 = (if pq_connected (dev_pq dev) \<and> err0 \<noteq> 0 then upd_req r (set_out_error (- EIO)) s1 else s1);
     let s3 = (if FR_PRIVATE \<in> rq_flags q then s2 else list_del r s2);
     s4 \<leftarrow> request_end s3 r;
     Some (if err \<noteq> 0 then err else int nbytes, s4)}"

text \<open>
  What the copy wrote into the request; its flags and the error in its header other threads may have
  changed meanwhile.
\<close>

definition write_back :: "req_id \<Rightarrow> fuse_req \<Rightarrow> fuse_state \<Rightarrow> fuse_state" where
  "write_back r q s =
     upd_req r (\<lambda>p. p\<lparr>rq_out := (rq_out p)\<lparr>out_args := out_args (rq_out q)\<rparr>, rq_pages := rq_pages q\<rparr>) s"

type_synonym notify_handler =
  "int \<Rightarrow> nat \<Rightarrow> fuse_copy_state \<Rightarrow> fuse_state \<Rightarrow> (int \<times> fuse_copy_state \<times> fuse_state) option"

definition fuse_dev_do_write ::
    "wire_codec \<Rightarrow> notify_handler \<Rightarrow> (fuse_state \<Rightarrow> fuse_state) \<Rightarrow> dev_id \<Rightarrow> fuse_copy_state \<Rightarrow> nat \<Rightarrow>
       fuse_state \<Rightarrow> (int \<times> fuse_copy_state \<times> fuse_state) option" where
  "fuse_dev_do_write wc notify env d cs nbytes s = do {
     (st, cs1, s1) \<leftarrow> do_write_begin wc d cs nbytes s;
     (case st of
        Write_done e \<Rightarrow> Some (e, fuse_copy_finish cs1, s1)
      | Write_notify code \<Rightarrow> do {
          (err, cs2, s2) \<leftarrow> notify code (nbytes - wire_size s W_out_header)
                              (cs1\<lparr>cs_move_pages := False\<rparr>) s1;
          Some (if err \<noteq> 0 then err else int nbytes, cs2, s2)}
      | Write_copy r oh \<Rightarrow> do {
          q \<leftarrow> reqs s1 r;
          (err, q2, cs2) \<leftarrow> do_write_copy (wire_size s) cs1 q nbytes;
          (ret, s2) \<leftarrow> do_write_end d r nbytes err (write_back r q2 (env s1));
          Some (ret, cs2, s2)})}"

definition fuse_dev_write ::
    "wire_codec \<Rightarrow> notify_handler \<Rightarrow> (fuse_state \<Rightarrow> fuse_state) \<Rightarrow> dev_id option \<Rightarrow> bool \<Rightarrow>
       (int + u8 list) list \<Rightarrow> (page_id \<Rightarrow> page) \<Rightarrow> bool list \<Rightarrow> nat \<Rightarrow> fuse_state \<Rightarrow>
       (int \<times> fuse_copy_state \<times> fuse_state) option" where
  "fuse_dev_write wc notify env fud is_iovec iter mem aborts count s =
     (let cs = fuse_copy_init False iter mem aborts in
      case fud of
        None \<Rightarrow> Some (- EPERM, cs, s)
      | Some d \<Rightarrow>
          if \<not> is_iovec then Some (- EINVAL, cs, s)
          else fuse_dev_do_write wc notify env d cs count s)"

text \<open>\<open>fuse_dev_poll\<close>: whether the mask has POLLERR, POLLIN and POLLOUT.\<close>

definition fuse_dev_poll :: "dev_id option \<Rightarrow> fuse_state \<Rightarrow> bool \<times> bool \<times> bool" where
  "fuse_dev_poll fud s =
     (if fud = None \<or> \<not> iq_connected (iq s) then (True, False, False)
      else (False, request_pending s, True))"

subsection \<open>Finding and sizes\<close>

lemma request_find_unique:
  assumes "r \<in> set xs" and "reqs s r = Some q" and "matches_unique u q"
    and "\<forall>x \<in> set xs. \<exists>p. reqs s x = Some p \<and> (matches_unique u p \<longrightarrow> x = r)"
  shows "request_find (reqs s) xs u = Some (Some r)"
  using assms
proof (induction xs)
  case (Cons x xs)
  then show ?case by (cases "x = r") auto
qed simp

lemma request_find_absent:
  "\<forall>x \<in> set xs. \<exists>p. rs x = Some p \<and> \<not> matches_unique u p \<Longrightarrow> request_find rs xs u = Some None"
  by (induction xs) auto

lemma request_find_sound:
  "request_find rs xs u = Some (Some r) \<Longrightarrow> r \<in> set xs \<and> (\<exists>q. rs r = Some q \<and> matches_unique u q)"
  by (induction xs) (auto split: option.split_asm if_split_asm)

lemma foldl_mod_total:
  "0 < m \<Longrightarrow> n < m \<Longrightarrow> foldl (\<lambda>nbytes a. (nbytes + arg_size a) mod m) n as = (n + args_total as) mod m"
  by (induction as arbitrary: n) (simp_all add: mod_simps add.assoc)

lemma len_args_total: "len_args as = args_total as mod 2 ^ 32"
  unfolding len_args_def by (subst foldl_mod_total) simp_all

lemma args_total_append [simp]: "args_total (as @ bs) = args_total as + args_total bs"
  by (simp add: args_total_def)

lemma shrink_last_total:
  assumes "as \<noteq> []" and "n \<le> arg_size (last as)"
  shows "args_total (shrink_last n as) + n = args_total as"
proof -
  have "args_total as = args_total (butlast as) + arg_size (last as)"
    using assms(1) args_total_append [of "butlast as" "[last as]"] by simp
  then show ?thesis using assms(2) by (simp add: shrink_last_def)
qed

text \<open>
  The arguments that are copied have exactly the size of the message, and no argument is larger than
  the caller declared it, so the copy stays within the memory of the caller.
\<close>

lemma shrink_last_bounded:
  assumes "as \<noteq> []" and "i < length as"
  shows "length (shrink_last n as) = length as"
    and "arg_size (shrink_last n as ! i) \<le> arg_size (as ! i)"
    and "arg_value (shrink_last n as ! i) = arg_value (as ! i)"
proof -
  show "length (shrink_last n as) = length as" using assms by (simp add: shrink_last_def)
  have "i = length as - 1" if "\<not> i < length as - 1" using that assms(2) by simp
  then have "arg_size (shrink_last n as ! i) \<le> arg_size (as ! i) \<and>
      arg_value (shrink_last n as ! i) = arg_value (as ! i)"
    using assms by (cases "i < length as - 1") (simp_all add: shrink_last_def nth_append nth_butlast last_conv_nth)
  then show "arg_size (shrink_last n as ! i) \<le> arg_size (as ! i)"
    and "arg_value (shrink_last n as ! i) = arg_value (as ! i)" by simp_all
qed

text \<open>The end of a synchronous request whose requester waits.\<close>

lemma request_end_sync:
  assumes q: "reqs s r = Some q" and fl: "FR_FINISHED \<notin> rq_flags q" "FR_BACKGROUND \<notin> rq_flags q"
    and e: "rq_end q = None" and c: "rq_count q = 2"
  shows "\<exists>s'. request_end s r = Some s' \<and>
     reqs s' r = Some ((set_flag FR_FINISHED q)\<lparr>rq_count := 1\<rparr>) \<and> Wake_req r \<in> set (events s')"
  using assms
  by (simp add: request_end_step end_counters_def end_callback_def fuse_put_request_def Let_def)

text \<open>When the size of a message fits the output arguments of a request.\<close>

definition reply_fits :: "(wire \<Rightarrow> nat) \<Rightarrow> fuse_out \<Rightarrow> nat \<Rightarrow> bool" where
  "reply_fits sz out nbytes \<longleftrightarrow>
     (let total = sz W_out_header + args_total (out_args out) in
      total < 2 ^ 32 \<and> sz W_out_header \<le> nbytes \<and>
      (nbytes = total \<or>
       (nbytes < total \<and> out_argvar out \<and> out_args out \<noteq> [] \<and>
        total - nbytes \<le> arg_size (last (out_args out)))))"

lemma shrink_last_values:
  assumes "as \<noteq> []" and "\<forall>a \<in> set as. arg_size a \<le> length (arg_value a)"
  shows "\<forall>a \<in> set (shrink_last n as). arg_size a \<le> length (arg_value a)"
proof
  fix a assume "a \<in> set (shrink_last n as)"
  then consider "a \<in> set (butlast as)" | "a = (last as)\<lparr>arg_size := arg_size (last as) - n\<rparr>"
    by (auto simp: shrink_last_def)
  then show "arg_size a \<le> length (arg_value a)"
  proof cases
    case 1
    then show ?thesis using assms(2) in_set_butlastD by fast
  next
    case 2
    then show ?thesis using assms last_in_set [of as] by fastforce
  qed
qed

lemma sum_arg_size: "map arg_size as' = map arg_size as \<Longrightarrow> args_total as' = args_total as"
  by (simp add: args_total_def)

lemma copy_out_args_fits:
  assumes fits: "reply_fits sz out nbytes" and err: "oh_error (out_h out) = 0"
    and np: "\<not> out_argpages out" and vals: "\<forall>a \<in> set (out_args out). arg_size a \<le> length (arg_value a)"
    and cs: "cs_ready cs" "cs_quiet cs" "\<not> cs_write cs" and st: "nbytes - sz W_out_header \<le> length (cs_stream cs)"
  shows "\<exists>args1 cs1. copy_out_args sz cs out nbytes = Some (0, out\<lparr>out_args := args1\<rparr>, cs1) \<and>
     concat (map arg_bytes args1) = take (nbytes - sz W_out_header) (cs_stream cs) \<and>
     args_total args1 = nbytes - sz W_out_header \<and> cs_frame cs cs1"
proof -
  let ?total = "sz W_out_header + args_total (out_args out)"
  let ?args = "if nbytes < ?total then shrink_last (?total - nbytes) (out_args out) else out_args out"
  have lt: "?total < 2 ^ 32" and ge: "sz W_out_header \<le> nbytes" and le: "nbytes \<le> ?total"
    using fits by (auto simp: reply_fits_def Let_def)
  have req: "(sz W_out_header + len_args (out_args out)) mod 2 ^ 32 = ?total"
    using lt by (simp add: len_args_total mod_simps)
  have short: "out_argvar out \<and> out_args out \<noteq> [] \<and> \<not> arg_size (last (out_args out)) < ?total - nbytes"
    if "nbytes < ?total"
    using fits that by (auto simp: reply_fits_def Let_def)
  have tot: "args_total ?args = nbytes - sz W_out_header"
    using short shrink_last_total [of "out_args out" "?total - nbytes"] le ge by auto
  have vals1: "\<forall>a \<in> set ?args. arg_size a \<le> length (arg_value a)"
    using short vals shrink_last_values [of "out_args out"] by auto
  have "args_total ?args \<le> length (cs_stream cs)" using tot st by simp
  from copy_args_quiet [OF cs(1,2) vals1 this] obtain as' cs' where
      run: "fuse_copy_args cs ?args False (out_page_zeroing out) = Some (0, as', cs')"
    and ok: "copy_args_ok cs ?args as' cs'" and fr: "cs_frame cs cs'" by blast
  have "copy_out_args sz cs out nbytes = Some (0, out\<lparr>out_args := as'\<rparr>, cs')"
    using err np run short le unfolding copy_out_args_def Let_def req by auto
  moreover have "concat (map arg_bytes as') = take (nbytes - sz W_out_header) (cs_stream cs)"
    using ok cs(3) tot by (simp add: copy_args_ok_def)
  moreover have "args_total as' = nbytes - sz W_out_header"
    using ok tot sum_arg_size by (metis copy_args_ok_def)
  ultimately show ?thesis using fr by blast
qed

lemma do_write_copy_fits:
  assumes fits: "reply_fits sz (rq_out q) nbytes" and err: "oh_error (out_h (rq_out q)) = 0"
    and np: "\<not> out_argpages (rq_out q)"
    and vals: "\<forall>a \<in> set (out_args (rq_out q)). arg_size a \<le> length (arg_value a)"
    and fl: "FR_LOCKED \<in> rq_flags q" "FR_ABORTED \<notin> rq_flags q"
    and cs: "cs_ready cs" "cs_req cs = None" "True \<notin> set (cs_aborts cs)" "\<not> cs_write cs"
    and st: "nbytes - sz W_out_header \<le> length (cs_stream cs)"
  shows "\<exists>q2 cs2. do_write_copy sz cs q nbytes = Some (0, q2, cs2) \<and>
     concat (map arg_bytes (out_args (rq_out q2))) = take (nbytes - sz W_out_header) (cs_stream cs) \<and>
     args_total (out_args (rq_out q2)) = nbytes - sz W_out_header \<and> rq_pages q2 = rq_pages q"
proof -
  let ?c = "cs\<lparr>cs_req := Some q, cs_move_pages := cs_move_pages cs \<and> out_page_replace (rq_out q)\<rparr>"
  have c: "cs_ready ?c" "cs_quiet ?c" "\<not> cs_write ?c" "nbytes - sz W_out_header \<le> length (cs_stream ?c)"
      "cs_stream ?c = cs_stream cs"
    using cs fl st by (auto simp: cs_ready_def cs_quiet_def cs_aborted_def cs_stream_def)
  from copy_out_args_fits [OF fits err np vals c(1-4)] obtain args1 cs1 where
      o: "copy_out_args sz ?c (rq_out q) nbytes = Some (0, (rq_out q)\<lparr>out_args := args1\<rparr>, cs1)"
      "concat (map arg_bytes args1) = take (nbytes - sz W_out_header) (cs_stream cs)"
      "args_total args1 = nbytes - sz W_out_header" "cs_frame ?c cs1"
    unfolding c(5) by blast
  from o(4) obtain q1 where q1: "cs_req cs1 = Some q1" "rq_flags_update (\<lambda>_. {}) q1 = rq_flags_update (\<lambda>_. {}) q"
    by (auto simp: cs_frame_def)
  have "rq_pages (rq_flags_update (\<lambda>_. {}) q1) = rq_pages (rq_flags_update (\<lambda>_. {}) q)" using q1(2) by simp
  then have "rq_pages q1 = rq_pages q" by simp
  then show ?thesis using o q1(1) by (auto simp: do_write_copy_def)
qed

text \<open>The header arrives, and the critical section takes the request.\<close>

lemma do_write_begin_reply:
  assumes cs: "cs_ready cs" "cs_req cs = None" "True \<notin> set (cs_aborts cs)" "\<not> cs_write cs"
    and nb: "wire_size s W_out_header \<le> nbytes" "nbytes \<le> length (cs_stream cs)"
    and oh: "dec_out_header wc (take (wire_size s W_out_header) (cs_stream cs)) = oh" "oh_len oh = nbytes"
      "oh_unique oh \<noteq> 0"
  shows "\<exists>cs1. do_write_begin wc d cs nbytes s = map_option (\<lambda>(st, s1). (st, cs1, s1)) (write_reply d oh nbytes s) \<and>
     cs_ready cs1 \<and> cs_req cs1 = None \<and> True \<notin> set (cs_aborts cs1) \<and> \<not> cs_write cs1 \<and>
     cs_stream cs1 = drop (wire_size s W_out_header) (cs_stream cs)"
proof -
  let ?z = "replicate (wire_size s W_out_header) (0::u8)"
  have q: "cs_quiet cs" using cs by (simp add: cs_quiet_def cs_aborted_def)
  have "length ?z \<le> length (cs_stream cs)" using nb by simp
  from copy_one_quiet [OF cs(1) q this] obtain got cs1 where
      o: "fuse_copy_one cs ?z = Some (0, got, cs1)" "copy_one_ok cs ?z got cs1" "cs_frame cs cs1" by blast
  have "got = take (wire_size s W_out_header) (cs_stream cs)" using o(2) cs(4) by (simp add: copy_one_ok_def)
  then have "do_write_begin wc d cs nbytes s = map_option (\<lambda>(st, s1). (st, cs1, s1)) (write_reply d oh nbytes s)"
    using o(1) nb oh by (simp add: do_write_begin_def)
  moreover have "cs_quiet cs1" using o(3) q by (rule cs_frame_quiet)
  moreover have "cs_req cs1 = None" "cs_write cs1 = cs_write cs" using o(3) cs(2) by (auto simp: cs_frame_def)
  ultimately show ?thesis using o(2) cs by (auto simp: copy_one_ok_def cs_quiet_def)
qed

lemma write_reply_take:
  assumes "- 1000 < oh_error oh" and "oh_error oh \<le> 0" and "devs s d = Some dev" and "pq_connected (dev_pq dev)"
    and "request_find (reqs s) (processing (dev_pq dev)) (oh_unique oh) = Some (Some r)"
    and "reqs s r = Some q" and "rq_intr_unique q \<noteq> oh_unique oh"
  shows "write_reply d oh nbytes s = Some (Write_copy r oh, write_take d r oh s)"
  using assms by (simp add: write_reply_def)

lemma write_take_fields:
  assumes "reqs s r = Some q" and "devs s d = Some dev"
  shows "reqs (write_take d r oh s) r =
      Some (set_flag FR_LOCKED ((clear_flag FR_SENT q)\<lparr>rq_out := (rq_out q)\<lparr>out_h := oh\<rparr>\<rparr>))"
    and "x \<noteq> r \<Longrightarrow> reqs (write_take d r oh s) x = reqs s x"
    and "\<exists>dev'. devs (write_take d r oh s) d = Some dev' \<and> pq_connected (dev_pq dev') = pq_connected (dev_pq dev)"
    and "wire_size (write_take d r oh s) = wire_size s"
  using assms by (simp_all add: write_take_def io_add_def)

lemma do_write_end_sync:
  assumes q: "reqs s r = Some q" and d: "devs s d = Some dev" "pq_connected (dev_pq dev)"
    and fl: "FR_FINISHED \<notin> rq_flags q" "FR_BACKGROUND \<notin> rq_flags q"
    and e: "rq_end q = None" and c: "rq_count q = 2"
  shows "\<exists>s' q'. do_write_end d r nbytes 0 s = Some (int nbytes, s') \<and> reqs s' r = Some q' \<and>
     rq_out q' = rq_out q \<and> rq_count q' = 1 \<and> FR_FINISHED \<in> rq_flags q' \<and> Wake_req r \<in> set (events s')"
proof -
  let ?s1 = "upd_req r (clear_flag FR_LOCKED) s" and ?q = "clear_flag FR_LOCKED q"
  let ?s3 = "if FR_PRIVATE \<in> rq_flags q then ?s1 else list_del r ?s1"
  have "reqs ?s3 r = Some ?q" using q by simp
  then obtain s' where "request_end ?s3 r = Some s'"
      "reqs s' r = Some ((set_flag FR_FINISHED ?q)\<lparr>rq_count := 1\<rparr>)" "Wake_req r \<in> set (events s')"
    using request_end_sync [of ?s3 r ?q] fl e c by auto
  then show ?thesis using q d by (simp add: do_write_end_def Let_def)
qed

subsection \<open>Messages that are refused\<close>

lemma do_write_end_bad_copy:
  assumes q: "reqs s r = Some q" and d: "devs s d = Some dev" "pq_connected (dev_pq dev)"
    and fl: "FR_FINISHED \<notin> rq_flags q" "FR_BACKGROUND \<notin> rq_flags q"
    and e: "rq_end q = None" and c: "rq_count q = 2" and err: "err \<noteq> 0"
  shows "\<exists>s' q'. do_write_end d r nbytes err s = Some (err, s') \<and> reqs s' r = Some q' \<and>
     oh_error (out_h (rq_out q')) = - EIO \<and> rq_count q' = 1 \<and> FR_FINISHED \<in> rq_flags q' \<and> Wake_req r \<in> set (events s')"
proof -
  let ?s2 = "upd_req r (set_out_error (- EIO)) (upd_req r (clear_flag FR_LOCKED) s)" and ?q = "set_out_error (- EIO) (clear_flag FR_LOCKED q)"
  let ?s3 = "if FR_PRIVATE \<in> rq_flags q then ?s2 else list_del r ?s2"
  have "reqs ?s3 r = Some ?q" using q by simp
  then obtain s' where "request_end ?s3 r = Some s'"
      "reqs s' r = Some ((set_flag FR_FINISHED ?q)\<lparr>rq_count := 1\<rparr>)" "Wake_req r \<in> set (events s')"
    using request_end_sync [of ?s3 r ?q] fl e c by auto
  moreover from this have "do_write_end d r nbytes err s = Some (err, s')" using q d err by (simp add: do_write_end_def Let_def split: if_split_asm)
  ultimately show ?thesis by (simp add: set_out_error_def set_flag_def)
qed

text \<open>A reply whose size does not suit the request: too long, too short, or an error with data.\<close>

definition reply_misfits :: "(wire \<Rightarrow> nat) \<Rightarrow> fuse_out \<Rightarrow> int \<Rightarrow> nat \<Rightarrow> bool" where
  "reply_misfits sz out err nbytes \<longleftrightarrow>
     (if err = 0 then sz W_out_header + args_total (out_args out) < 2 ^ 32 \<and> \<not> reply_fits sz out nbytes
      else nbytes \<noteq> sz W_out_header)"

lemma copy_out_args_misfits:
  assumes "reply_misfits sz out (oh_error (out_h out)) nbytes" and "sz W_out_header \<le> nbytes"
  shows "copy_out_args sz cs out nbytes = Some (- EINVAL, out, cs)"
proof (cases "oh_error (out_h out) = 0")
  case True
  let ?total = "sz W_out_header + args_total (out_args out)"
  have lt: "?total < 2 ^ 32" and no: "\<not> reply_fits sz out nbytes" using assms(1) True by (simp_all add: reply_misfits_def)
  have req: "(sz W_out_header + len_args (out_args out)) mod 2 ^ 32 = ?total"
    using lt by (simp add: len_args_total mod_simps)
  have "out_args out \<noteq> []" if "nbytes < ?total" using that assms(2) by (auto simp: args_total_def)
  then have "?total < nbytes \<or> nbytes < ?total \<and> (\<not> out_argvar out \<or> out_args out \<noteq> [] \<and> arg_size (last (out_args out)) < ?total - nbytes)"
    using no lt assms(2) by (auto simp: reply_fits_def Let_def not_less)
  then show ?thesis using True \<open>nbytes < ?total \<Longrightarrow> out_args out \<noteq> []\<close> unfolding copy_out_args_def Let_def req by force
next
  case False
  then show ?thesis using assms(1) by (simp add: copy_out_args_def reply_misfits_def)
qed

text \<open>What \<open>fuse_dev_do_write\<close> makes of the outcome of its first critical section.\<close>

lemma do_write_reply:
  assumes "do_write_begin wc d cs nbytes s = map_option (\<lambda>(st, s1). (st, cs1, s1)) (write_reply d oh nbytes s)"
  shows "write_reply d oh nbytes s = Some (Write_done e, s') \<Longrightarrow>
      fuse_dev_do_write wc notify env d cs nbytes s = Some (e, fuse_copy_finish cs1, s')"
    and "write_reply d oh nbytes s = Some (Write_copy r oh, s1) \<Longrightarrow> reqs s1 r = Some q \<Longrightarrow>
      do_write_copy (wire_size s) cs1 q nbytes = Some (err, q2, cs2) \<Longrightarrow>
      do_write_end d r nbytes err (write_back r q2 (env s1)) = Some (ret, s2) \<Longrightarrow>
      fuse_dev_do_write wc notify env d cs nbytes s = Some (ret, cs2, s2)"
  using assms by (simp_all add: fuse_dev_do_write_def)

lemma write_misfit_ends:
  assumes begin': "do_write_begin wc d cs nbytes s = map_option (\<lambda>(st, s1). (st, cs1, s1)) (write_reply d oh nbytes s)"
    and hn: "wire_size s W_out_header \<le> nbytes" and err: "- 1000 < oh_error oh" "oh_error oh \<le> 0"
    and d: "devs s d = Some dev" "pq_connected (dev_pq dev)"
    and find: "request_find (reqs s) (processing (dev_pq dev)) (oh_unique oh) = Some (Some r)"
    and q: "reqs s r = Some q" "rq_intr_unique q \<noteq> oh_unique oh"
    and fl: "FR_FINISHED \<notin> rq_flags q" "FR_BACKGROUND \<notin> rq_flags q" and e: "rq_end q = None" and c: "rq_count q = 2"
    and bad: "reply_misfits (wire_size s) (rq_out q) (oh_error oh) nbytes"
    and env: "\<And>t. reqs (env t) r = reqs t r \<and> devs (env t) d = devs t d"
  shows "\<exists>cs' s' q'. fuse_dev_do_write wc notify env d cs nbytes s = Some (- EINVAL, cs', s') \<and> reqs s' r = Some q' \<and>
     oh_error (out_h (rq_out q')) = - EIO \<and> rq_count q' = 1 \<and> FR_FINISHED \<in> rq_flags q' \<and> Wake_req r \<in> set (events s')"
proof -
  let ?q = "set_flag FR_LOCKED ((clear_flag FR_SENT q)\<lparr>rq_out := (rq_out q)\<lparr>out_h := oh\<rparr>\<rparr>)"
  let ?t = "write_take d r oh s"
  have w: "write_reply d oh nbytes s = Some (Write_copy r oh, ?t)" by (rule write_reply_take [OF err d find q])
  note tf = write_take_fields [OF q(1) d(1), where oh = oh]
  have "reply_misfits (wire_size s) (rq_out ?q) (oh_error (out_h (rq_out ?q))) nbytes"
    using bad by (simp add: reply_misfits_def reply_fits_def set_flag_def clear_flag_def split: if_split_asm)
  from copy_out_args_misfits [OF this hn]
  obtain cs2 where cp: "do_write_copy (wire_size s) cs1 ?q nbytes = Some (- EINVAL, ?q, cs2)"
    by (simp add: do_write_copy_def)
  let ?e = "write_back r ?q (env ?t)"
  have ep: "reqs ?e r = Some ?q" using tf(1) env [of ?t] by (simp add: write_back_def)
  obtain dev' where ed: "devs ?e d = Some dev'" "pq_connected (dev_pq dev')"
    using tf(3) d(2) env [of ?t] by (auto simp: write_back_def)
  obtain s' q' where en: "do_write_end d r nbytes (- EINVAL) ?e = Some (- EINVAL, s')" "reqs s' r = Some q'"
      "oh_error (out_h (rq_out q')) = - EIO" "rq_count q' = 1" "FR_FINISHED \<in> rq_flags q'" "Wake_req r \<in> set (events s')"
    using do_write_end_bad_copy [OF ep ed, of "- EINVAL" nbytes] fl e c by (auto simp: set_flag_def clear_flag_def EINVAL_def)
  show ?thesis using do_write_reply(2) [where env = env, OF begin' w tf(1) cp en(1)] en(2-) by blast
qed

lemma header_copied:
  assumes "cs_ready cs" "cs_req cs = None" "True \<notin> set (cs_aborts cs)" "\<not> cs_write cs"
    and "n \<le> nbytes" "nbytes \<le> length (cs_stream cs)"
  obtains cs1 where "fuse_copy_one cs (replicate n 0) = Some (0, take n (cs_stream cs), cs1)"
proof -
  have q: "cs_quiet cs" using assms by (simp add: cs_quiet_def cs_aborted_def)
  have "length (replicate n (0::u8)) \<le> length (cs_stream cs)" using assms by simp
  from copy_one_quiet [OF assms(1) q this] that assms(4) show ?thesis by (auto simp: copy_one_ok_def)
qed

text \<open>The messages that are refused, with the errno of each: what the documentation of the interface asks of a reply.\<close>

definition header_ok :: "fuse_state \<Rightarrow> fuse_out_header \<Rightarrow> nat \<Rightarrow> bool" where
  "header_ok s oh nbytes \<longleftrightarrow> wire_size s W_out_header \<le> nbytes \<and> oh_len oh = nbytes \<and> oh_unique oh \<noteq> 0 \<and>
     - 1000 < oh_error oh \<and> oh_error oh \<le> 0"

definition the_match :: "fuse_state \<Rightarrow> fuse_pqueue \<Rightarrow> u64 \<Rightarrow> req_id \<Rightarrow> fuse_req \<Rightarrow> bool" where
  "the_match s pq u r q \<longleftrightarrow> r \<in> set (processing pq) \<and> reqs s r = Some q \<and> matches_unique u q \<and>
     (\<forall>x\<in>set (processing pq). \<exists>p. reqs s x = Some p \<and> (matches_unique u p \<longrightarrow> x = r))"

inductive malformed :: "fuse_state \<Rightarrow> fuse_pqueue \<Rightarrow> fuse_out_header \<Rightarrow> nat \<Rightarrow> int \<Rightarrow> bool" for s pq oh nbytes where
  too_short: "nbytes < wire_size s W_out_header \<Longrightarrow> malformed s pq oh nbytes (- EINVAL)"
| bad_length: "oh_len oh \<noteq> nbytes \<Longrightarrow> malformed s pq oh nbytes (- EINVAL)"
| bad_error: "oh_unique oh \<noteq> 0 \<Longrightarrow> oh_error oh \<le> - 1000 \<or> 0 < oh_error oh \<Longrightarrow> malformed s pq oh nbytes (- EINVAL)"
| disconnected: "header_ok s oh nbytes \<Longrightarrow> \<not> pq_connected pq \<Longrightarrow> malformed s pq oh nbytes (- ENOENT)"
| unknown: "header_ok s oh nbytes \<Longrightarrow> \<forall>x\<in>set (processing pq). \<exists>p. reqs s x = Some p \<and> \<not> matches_unique (oh_unique oh) p \<Longrightarrow>
    malformed s pq oh nbytes (- ENOENT)"
| interrupt_data: "header_ok s oh nbytes \<Longrightarrow> pq_connected pq \<Longrightarrow> the_match s pq (oh_unique oh) r q \<Longrightarrow>
    rq_intr_unique q = oh_unique oh \<Longrightarrow> nbytes \<noteq> wire_size s W_out_header \<Longrightarrow> malformed s pq oh nbytes (- EINVAL)"

lemma the_match_find: "the_match s pq u r q \<Longrightarrow> request_find (reqs s) (processing pq) u = Some (Some r)"
  by (rule request_find_unique) (auto simp: the_match_def)

lemma malformed_reply:
  assumes bad: "malformed s (dev_pq dev) oh nbytes e" and ok: "wire_size s W_out_header \<le> nbytes" "oh_len oh = nbytes" "oh_unique oh \<noteq> 0"
    and dev: "devs s d = Some dev"
  shows "write_reply d oh nbytes s = Some (Write_done e, s)"
  using bad
proof cases
  case unknown
  then show ?thesis using request_find_absent [OF unknown(3)] dev by (auto simp: write_reply_def header_ok_def)
next
  case (interrupt_data r q)
  then show ?thesis using the_match_find [of s _ _ r q] dev
    by (auto simp: write_reply_def header_ok_def the_match_def write_interrupt_reply_def)
qed (use ok dev in \<open>auto simp: write_reply_def header_ok_def\<close>)

subsection \<open>Properties\<close>

text \<open>
  C3: a reply of the right size to a synchronous request is delivered: the write returns the size of
  the message, the request ends exactly once and wakes its requester, and the output arguments
  hold the bytes after the header, all of them and no others.
\<close>

theorem write_delivers_reply:
  assumes "cs_ready cs" and "cs_req cs = None" and "True \<notin> set (cs_aborts cs)" and "\<not> cs_write cs"
    and "nbytes \<le> length (cs_stream cs)"
    and "dec_out_header wc (take (wire_size s W_out_header) (cs_stream cs)) = oh" and "oh_len oh = nbytes"
    and "oh_unique oh \<noteq> 0" and "oh_error oh = 0"
    and "devs s d = Some dev" and "pq_connected (dev_pq dev)"
    and "r \<in> set (processing (dev_pq dev))" and "reqs s r = Some q"
    and "ih_unique (in_h (rq_in q)) = oh_unique oh" and "rq_intr_unique q \<noteq> oh_unique oh"
    and "\<forall>x \<in> set (processing (dev_pq dev)). \<exists>p. reqs s x = Some p \<and> (matches_unique (oh_unique oh) p \<longrightarrow> x = r)"
    and "FR_ABORTED \<notin> rq_flags q" and "FR_FINISHED \<notin> rq_flags q" and "FR_BACKGROUND \<notin> rq_flags q"
    and "rq_end q = None" and "rq_count q = 2"
    and "reply_fits (wire_size s) (rq_out q) nbytes" and "\<not> out_argpages (rq_out q)"
    and "\<forall>a \<in> set (out_args (rq_out q)). arg_size a \<le> length (arg_value a)"
    and "\<And>t. reqs (env t) r = reqs t r \<and> devs (env t) d = devs t d"
  shows "\<exists>cs' s' q'. fuse_dev_do_write wc notify env d cs nbytes s = Some (int nbytes, cs', s') \<and>
     reqs s' r = Some q' \<and> FR_FINISHED \<in> rq_flags q' \<and> rq_count q' = 1 \<and> Wake_req r \<in> set (events s') \<and>
     oh_error (out_h (rq_out q')) = 0 \<and>
     concat (map arg_bytes (out_args (rq_out q'))) =
       take (nbytes - wire_size s W_out_header) (drop (wire_size s W_out_header) (cs_stream cs))"
proof -
  let ?hdr = "wire_size s W_out_header"
  let ?q = "set_flag FR_LOCKED ((clear_flag FR_SENT q)\<lparr>rq_out := (rq_out q)\<lparr>out_h := oh\<rparr>\<rparr>)"
  let ?t = "write_take d r oh s"
  have hn: "?hdr \<le> nbytes" using assms(22) by (simp add: reply_fits_def Let_def)
  obtain cs1 where b: "do_write_begin wc d cs nbytes s =
        map_option (\<lambda>(st, s1). (st, cs1, s1)) (write_reply d oh nbytes s)"
      and cs1: "cs_ready cs1" "cs_req cs1 = None" "True \<notin> set (cs_aborts cs1)" "\<not> cs_write cs1"
        "cs_stream cs1 = drop ?hdr (cs_stream cs)"
    using do_write_begin_reply [OF assms(1-4) hn assms(5-8), of d] by blast
  have "request_find (reqs s) (processing (dev_pq dev)) (oh_unique oh) = Some (Some r)"
    using assms(12-14,16) by (intro request_find_unique) (auto simp: matches_unique_def)
  then have w: "write_reply d oh nbytes s = Some (Write_copy r oh, ?t)"
    using assms(9-11,13,15) by (intro write_reply_take) auto
  note tf = write_take_fields [OF assms(13,10), where oh = oh]
  have fits: "reply_fits (wire_size s) (rq_out ?q) nbytes"
    using assms(22) by (simp add: reply_fits_def set_flag_def clear_flag_def)
  have left: "nbytes - ?hdr \<le> length (cs_stream cs1)"
    using assms(5) cs1(5) by (simp add: diff_le_mono)
  obtain q2 cs2 where cp: "do_write_copy (wire_size s) cs1 ?q nbytes = Some (0, q2, cs2)"
      and bytes: "concat (map arg_bytes (out_args (rq_out q2))) = take (nbytes - ?hdr) (drop ?hdr (cs_stream cs))"
    using do_write_copy_fits [OF fits, of cs1] assms(9,17,23,24) cs1 left
    by (auto simp: set_flag_def clear_flag_def)
  let ?e = "write_back r q2 (env ?t)"
  let ?p = "?q\<lparr>rq_out := (rq_out ?q)\<lparr>out_args := out_args (rq_out q2)\<rparr>, rq_pages := rq_pages q2\<rparr>"
  have ep: "reqs ?e r = Some ?p" using tf(1) assms(25) [of ?t] by (simp add: write_back_def)
  obtain dev' where ed: "devs ?e d = Some dev'" "pq_connected (dev_pq dev')"
    using tf(3) assms(11) assms(25) [of ?t] by (auto simp: write_back_def)
  obtain s' q' where en: "do_write_end d r nbytes 0 ?e = Some (int nbytes, s')" "reqs s' r = Some q'"
      "rq_out q' = rq_out ?p" "rq_count q' = 1" "FR_FINISHED \<in> rq_flags q'" "Wake_req r \<in> set (events s')"
    using do_write_end_sync [OF ep ed, of nbytes] assms(18-21) by (auto simp: set_flag_def clear_flag_def)
  have "fuse_dev_do_write wc notify env d cs nbytes s = Some (int nbytes, cs2, s')"
    using b w tf(1) cp en(1) by (simp add: fuse_dev_do_write_def)
  then show ?thesis using en(2-6) bytes assms(9) by (simp add: set_flag_def)
qed

text \<open>
  C19: a malformed message is refused with its errno and changes nothing: -EINVAL when it is shorter than a header,
  when the length in the header is not its own, when the error code is not in -999..0, or when the
  reply to an interrupt carries data; -ENOENT when the device is disconnected or no request under way has its unique
  identifier. A reply with a good header and the wrong size for its request also yields -EINVAL, but that one
  does end the request, whose owner is woken and sees it fail with -EIO.
\<close>

theorem malformed_write_refused:
  assumes cs: "cs_ready cs" "cs_req cs = None" "True \<notin> set (cs_aborts cs)" "\<not> cs_write cs" "nbytes \<le> length (cs_stream cs)"
    and oh: "dec_out_header wc (take (wire_size s W_out_header) (cs_stream cs)) = oh"
    and dev: "devs s d = Some dev"
    and env: "\<And>t r. reqs (env t) r = reqs t r \<and> devs (env t) d = devs t d"
  shows "(malformed s (dev_pq dev) oh nbytes e \<longrightarrow>
      (\<exists>cs'. fuse_dev_do_write wc notify env d cs nbytes s = Some (e, cs', s))) \<and>
    (header_ok s oh nbytes \<and> pq_connected (dev_pq dev) \<and> the_match s (dev_pq dev) (oh_unique oh) r q \<and>
        rq_intr_unique q \<noteq> oh_unique oh \<and> reply_misfits (wire_size s) (rq_out q) (oh_error oh) nbytes \<and>
        rq_flags q \<inter> {FR_FINISHED, FR_BACKGROUND} = {} \<and> rq_end q = None \<and> rq_count q = 2 \<longrightarrow>
      (\<exists>cs' s' q'. fuse_dev_do_write wc notify env d cs nbytes s = Some (- EINVAL, cs', s') \<and> reqs s' r = Some q' \<and>
         oh_error (out_h (rq_out q')) = - EIO \<and> rq_count q' = 1 \<and> FR_FINISHED \<in> rq_flags q' \<and> Wake_req r \<in> set (events s')))"
proof (intro conjI impI)
  assume bad: "malformed s (dev_pq dev) oh nbytes e"
  show "\<exists>cs'. fuse_dev_do_write wc notify env d cs nbytes s = Some (e, cs', s)"
  proof (cases "wire_size s W_out_header \<le> nbytes")
    case False
    with bad have "e = - EINVAL" by (auto simp: header_ok_def elim: malformed.cases)
    then show ?thesis using False by (simp add: fuse_dev_do_write_def do_write_begin_def)
  next
    case hn: True
    show ?thesis
    proof (cases "oh_len oh = nbytes")
      case False
      with bad have "e = - EINVAL" by (auto simp: header_ok_def elim: malformed.cases)
      moreover obtain cs1 where "fuse_copy_one cs (replicate (wire_size s W_out_header) 0) = Some (0, take (wire_size s W_out_header) (cs_stream cs), cs1)"
        using header_copied [OF cs(1-4) hn cs(5)] by blast
      ultimately show ?thesis using False hn oh by (simp add: fuse_dev_do_write_def do_write_begin_def)
    next
      case len: True
      with bad hn have u: "oh_unique oh \<noteq> 0" by (auto simp: header_ok_def elim: malformed.cases)
      obtain cs1 where b: "do_write_begin wc d cs nbytes s = map_option (\<lambda>(st, s1). (st, cs1, s1)) (write_reply d oh nbytes s)"
        using do_write_begin_reply [OF cs(1-4) hn cs(5) oh len u, of d] by blast
      show ?thesis using do_write_reply(1) [OF b malformed_reply [OF bad hn len u dev]] by blast
    qed
  qed
next
  assume a: "header_ok s oh nbytes \<and> pq_connected (dev_pq dev) \<and> the_match s (dev_pq dev) (oh_unique oh) r q \<and>
        rq_intr_unique q \<noteq> oh_unique oh \<and> reply_misfits (wire_size s) (rq_out q) (oh_error oh) nbytes \<and>
        rq_flags q \<inter> {FR_FINISHED, FR_BACKGROUND} = {} \<and> rq_end q = None \<and> rq_count q = 2"
  then have h: "wire_size s W_out_header \<le> nbytes" "oh_len oh = nbytes" "oh_unique oh \<noteq> 0" "- 1000 < oh_error oh" "oh_error oh \<le> 0"
    and m: "request_find (reqs s) (processing (dev_pq dev)) (oh_unique oh) = Some (Some r)" "reqs s r = Some q"
    and q: "FR_FINISHED \<notin> rq_flags q" "FR_BACKGROUND \<notin> rq_flags q"
    using the_match_find by (auto simp: header_ok_def the_match_def)
  obtain cs1 where b: "do_write_begin wc d cs nbytes s = map_option (\<lambda>(st, s1). (st, cs1, s1)) (write_reply d oh nbytes s)"
    using do_write_begin_reply [OF cs(1-4) h(1) cs(5) oh h(2,3), of d] by blast
  show "\<exists>cs' s' q'. fuse_dev_do_write wc notify env d cs nbytes s = Some (- EINVAL, cs', s') \<and> reqs s' r = Some q' \<and>
      oh_error (out_h (rq_out q')) = - EIO \<and> rq_count q' = 1 \<and> FR_FINISHED \<in> rq_flags q' \<and> Wake_req r \<in> set (events s')"
    by (rule write_misfit_ends [OF b h(1,4,5) dev _ m _ q]) (use a env in auto)
qed

definition example_reply_codec :: wire_codec where
  "example_reply_codec = example_codec\<lparr>dec_out_header :=
     (\<lambda>bs. \<lparr>oh_len = unat (hd bs), oh_error = - int (unat (bs ! 4)), oh_unique = ucast (bs ! 8)\<rparr>)\<rparr>"

definition example_sent_req :: fuse_req where
  "example_sent_req = (req_with {FR_ISREPLY, FR_WAITING, FR_SENT})\<lparr>rq_count := 2,
     rq_in := zero_in\<lparr>in_h := null_header\<lparr>ih_unique := 1\<rparr>\<rparr>,
     rq_out := zero_out\<lparr>out_args := [\<lparr>arg_size = 3, arg_value = [0, 0, 0]\<rparr>]\<rparr>\<rparr>"

definition example_waiting :: fuse_state where
  "example_waiting = (with_reqs [(5, example_sent_req)] example_conn)
     \<lparr>devs := (\<lambda>_. None)(100 \<mapsto> \<lparr>dev_pq = fuse_pqueue_init\<lparr>processing := [5]\<rparr>\<rparr>)\<rparr>"

definition example_reply :: "u8 \<Rightarrow> fuse_copy_state" where
  "example_reply u = fuse_copy_init False
     [Inr [19, 0, 0, 0, 0, 0, 0, 0, u, 0], Inr [0, 0, 0, 0, 0, 0, 7, 8, 9]] (\<lambda>_. example_page) []"

definition example_reply_of :: "u8 \<Rightarrow> fuse_copy_state" where
  "example_reply_of n = fuse_copy_init False [Inr ([n, 0, 0, 0, 0, 0, 0, 0, 1] @ replicate (unat n - 9) 0)] (\<lambda>_. example_page) []"

lemmas example_reply_defs = example_reply_codec_def example_sent_req_def example_waiting_def
  example_reply_def example_defs fuse_copy_init_def cs_ready_def cs_stream_def null_header_def

lemma write_delivers_reply_witness:
  "\<exists>cs' s' q'. fuse_dev_do_write example_reply_codec (\<lambda>c n cs s. None) (\<lambda>s. s) 100 (example_reply 1) 19
       example_waiting = Some (19, cs', s') \<and> reqs s' 5 = Some q' \<and>
     concat (map arg_bytes (out_args (rq_out q'))) = [7, 8, 9]"
proof -
  have "\<exists>cs' s' q'. fuse_dev_do_write example_reply_codec (\<lambda>c n cs s. None) (\<lambda>s. s) 100 (example_reply 1) 19
       example_waiting = Some (int 19, cs', s') \<and>
     reqs s' 5 = Some q' \<and> FR_FINISHED \<in> rq_flags q' \<and> rq_count q' = 1 \<and> Wake_req 5 \<in> set (events s') \<and>
     oh_error (out_h (rq_out q')) = 0 \<and>
     concat (map arg_bytes (out_args (rq_out q'))) =
       take (19 - wire_size example_waiting W_out_header)
         (drop (wire_size example_waiting W_out_header) (cs_stream (example_reply 1)))"
    by (rule write_delivers_reply [where oh = "\<lparr>oh_len = 19, oh_error = 0, oh_unique = 1\<rparr>" and q = example_sent_req
          and dev = "\<lparr>dev_pq = fuse_pqueue_init\<lparr>processing := [5]\<rparr>\<rparr>"])
      (simp_all add: example_reply_defs reply_fits_def Let_def)
  then show ?thesis by (auto simp: example_reply_defs)
qed

lemma malformed_write_refused_witness:
  "(\<exists>cs'. fuse_dev_do_write example_reply_codec (\<lambda>c n cs s. None) (\<lambda>s. s) 100 (example_reply 9) 19 example_waiting =
      Some (- ENOENT, cs', example_waiting)) \<and>
   (\<exists>cs' s' q'. fuse_dev_do_write example_reply_codec (\<lambda>c n cs s. None) (\<lambda>s. s) 100 (example_reply_of 18) 18 example_waiting =
      Some (- EINVAL, cs', s') \<and> reqs s' 5 = Some q' \<and> oh_error (out_h (rq_out q')) = - EIO \<and> FR_FINISHED \<in> rq_flags q')"
proof
  let ?oh = "\<lambda>n u. \<lparr>oh_len = n, oh_error = 0, oh_unique = u\<rparr>" and ?dev = "\<lparr>dev_pq = fuse_pqueue_init\<lparr>processing := [5]\<rparr>\<rparr>"
  have "malformed example_waiting (dev_pq ?dev) (?oh 19 9) 19 (- ENOENT)"
    by (rule unknown) (simp_all add: header_ok_def example_reply_defs matches_unique_def)
  then show "\<exists>cs'. fuse_dev_do_write example_reply_codec (\<lambda>c n cs s. None) (\<lambda>s. s) 100 (example_reply 9) 19 example_waiting =
      Some (- ENOENT, cs', example_waiting)"
    using malformed_write_refused [of "example_reply 9" 19 example_reply_codec example_waiting "?oh 19 9" 100 ?dev "\<lambda>s. s" "- ENOENT" "\<lambda>c n cs s. None"]
    by (simp add: example_reply_defs)
  have "reply_misfits (wire_size example_waiting) (rq_out example_sent_req) 0 18"
    by (simp add: reply_misfits_def reply_fits_def example_reply_defs)
  moreover have "the_match example_waiting (dev_pq ?dev) 1 5 example_sent_req"
    by (simp add: the_match_def example_reply_defs matches_unique_def)
  moreover have "header_ok example_waiting (?oh 18 1) 18" by (simp add: header_ok_def example_reply_defs)
  ultimately show "\<exists>cs' s' q'. fuse_dev_do_write example_reply_codec (\<lambda>c n cs s. None) (\<lambda>s. s) 100 (example_reply_of 18) 18 example_waiting =
      Some (- EINVAL, cs', s') \<and> reqs s' 5 = Some q' \<and> oh_error (out_h (rq_out q')) = - EIO \<and> FR_FINISHED \<in> rq_flags q'"
    using malformed_write_refused [of "example_reply_of 18" 18 example_reply_codec example_waiting "?oh 18 1" 100 ?dev "\<lambda>s. s" 0 "\<lambda>c n cs s. None" 5 example_sent_req]
    by (auto simp: example_reply_defs example_reply_of_def)
qed

end
