(* ===== verification/Fuse_Abort.thy ===== *)
theory Fuse_Abort
  imports Fuse_Dev_Write
begin

text \<open>
  The end of a connection: \<open>end_requests\<close>, \<open>fuse_abort_conn\<close>, \<open>fuse_dev_release\<close>, \<open>fuse_device_clone\<close>
  (\<open>dev.c\<close>) and the references to the connection and its devices (\<open>fuse_conn_get\<close>, \<open>fuse_conn_put\<close>,
  \<open>fuse_dev_alloc\<close>, \<open>fuse_dev_free\<close> of \<open>inode.c\<close>).

  \<open>fuse_abort_conn\<close> is a critical section under \<open>fc->lock\<close> (\<open>abort_collect\<close>), which moves every request
  to one of two private lists, and the loops that end the requests on them. The main result is that
  afterwards every request that was queued is finished or freed, except those a reader or writer
  has locked; these are marked as aborted and end when they are unlocked.
\<close>

subsection \<open>Definitions\<close>

fun end_requests :: "req_id list \<Rightarrow> fuse_state \<Rightarrow> fuse_state option" where
  "end_requests [] s = Some s"
| "end_requests (r # rs) s =
     (if reqs s r = None then None
      else Option.bind
        (request_end (list_del r (upd_req r (\<lambda>q. clear_flag FR_SENT (set_out_error (- ECONNABORTED) q)) s)) r)
        (end_requests rs))"

definition abort_mark :: "fuse_req \<Rightarrow> fuse_req" where
  "abort_mark q =
     (let q1 = set_flag FR_ABORTED (set_out_error (- ECONNABORTED) q)
      in if FR_LOCKED \<in> rq_flags q then q1 else set_flag FR_PRIVATE q1)"

text \<open>The loop over the I/O list of a device; \<open>e1\<close> is the list \<open>to_end1\<close>.\<close>

fun abort_io :: "req_id list \<Rightarrow> req_id list \<Rightarrow> fuse_state \<Rightarrow> (req_id list \<times> fuse_state) option" where
  "abort_io [] e1 s = Some (e1, s)"
| "abort_io (r # rs) e1 s =
     (case reqs s r of
        None \<Rightarrow> None
      | Some q \<Rightarrow>
          let s1 = upd_req r abort_mark s in
          if FR_LOCKED \<in> rq_flags q then abort_io rs e1 s1
          else abort_io rs (r # e1) (list_del r s1))"

definition pq_disconnect :: "fuse_pqueue \<Rightarrow> fuse_pqueue" where
  "pq_disconnect p = p\<lparr>pq_connected := False\<rparr>"

definition pq_drop_processing :: "fuse_pqueue \<Rightarrow> fuse_pqueue" where
  "pq_drop_processing p = p\<lparr>processing := []\<rparr>"

fun abort_devs ::
    "dev_id list \<Rightarrow> req_id list \<Rightarrow> req_id list \<Rightarrow> fuse_state \<Rightarrow> (req_id list \<times> req_id list \<times> fuse_state) option"
where
  "abort_devs [] e1 e2 s = Some (e1, e2, s)"
| "abort_devs (d # ds) e1 e2 s =
     (case devs s d of
        None \<Rightarrow> None
      | Some dev \<Rightarrow>
          (case abort_io (io_list (dev_pq dev)) e1 (upd_dev d pq_disconnect s) of
             None \<Rightarrow> None
           | Some (e1', s1) \<Rightarrow>
               (case devs s1 d of
                  None \<Rightarrow> None
                | Some dev1 \<Rightarrow>
                    abort_devs ds e1' (processing (dev_pq dev1) @ e2) (upd_dev d pq_drop_processing s1))))"

definition clear_pending :: "req_id list \<Rightarrow> fuse_state \<Rightarrow> fuse_state" where
  "clear_pending rs s = fold (\<lambda>r. upd_req r (clear_flag FR_PENDING)) rs s"

definition drop_forgets :: "fuse_state \<Rightarrow> fuse_state" where
  "drop_forgets s = (fold (\<lambda>f. emit (Free_forget f)) (forget_list (iq s)) s)\<lparr>iq := (iq s)\<lparr>forget_list := []\<rparr>\<rparr>"

definition abort_collect :: "fuse_state \<Rightarrow> (req_id list \<times> req_id list \<times> fuse_state) option" where
  "abort_collect s = do {
     let s1 = fuse_set_initialized (s\<lparr>connected := False, blocked := False\<rparr>);
     (e1, e2, s2) \<leftarrow> abort_devs (devices s1) [] [] s1;
     s3 \<leftarrow> flush_bg_queue (s2\<lparr>max_background := - 1\<rparr>);
     let e2' = pending (iq s3) @ e2;
     let s4 = clear_pending e2' (s3\<lparr>iq := (iq s3)\<lparr>iq_connected := False, pending := []\<rparr>\<rparr>);
     let s5 = emit Wake_all_readers (drop_forgets s4);
     Some (e1, e2', emit Wake_all_blocked (emit Wake_polls (emit Kill_fasync s5)))}"

fun abort_end1 :: "req_id list \<Rightarrow> fuse_state \<Rightarrow> fuse_state option" where
  "abort_end1 [] s = Some s"
| "abort_end1 (r # rs) s =
     Option.bind (get_request s r) (\<lambda>s1. Option.bind (request_end (list_del r s1) r) (abort_end1 rs))"

definition fuse_abort_conn :: "fuse_state \<Rightarrow> fuse_state option" where
  "fuse_abort_conn s =
     (if \<not> connected s then Some s
      else do {
        (e1, e2, s1) \<leftarrow> abort_collect s;
        s2 \<leftarrow> abort_end1 e1 s1;
        end_requests e2 s2})"

subsection \<open>References to the connection\<close>

definition fuse_conn_get :: "fuse_state \<Rightarrow> fuse_state" where
  "fuse_conn_get s = s\<lparr>fc_count := fc_count s + 1\<rparr>"

text \<open>The event \<open>Free_conn\<close> is \<open>fc->release (fc)\<close>; \<open>fuse_free_conn\<close> warns when a device is left.\<close>

definition fuse_free_conn :: "fuse_state \<Rightarrow> fuse_state" where
  "fuse_free_conn s = emit Free_conn (if devices s \<noteq> [] then emit Warn s else s)"

definition fuse_conn_put :: "fuse_state \<Rightarrow> fuse_state option" where
  "fuse_conn_put s =
     (let s1 = s\<lparr>fc_count := fc_count s - 1\<rparr> in
      if fc_count s \<noteq> 1 then Some s1
      else map_option fuse_free_conn
        (case destroy_req s of None \<Rightarrow> Some s1 | Some r \<Rightarrow> fuse_request_free s1 r))"

definition fuse_dev_alloc :: "oom \<Rightarrow> fuse_state \<Rightarrow> dev_id option \<times> fuse_state" where
  "fuse_dev_alloc ok s =
     (if \<not> ok 0 then (None, s)
      else (let d = next_id s; s1 = fuse_conn_get s in
        (Some d, s1\<lparr>devs := (devs s1)(d \<mapsto> \<lparr>dev_pq = fuse_pqueue_init\<rparr>), next_id := Suc d,
                   devices := devices s1 @ [d]\<rparr>)))"

definition fuse_dev_free :: "dev_id \<Rightarrow> fuse_state \<Rightarrow> fuse_state option" where
  "fuse_dev_free d s =
     (if devs s d = None then None
      else map_option (\<lambda>s1. s1\<lparr>devs := (devs s1)(d := None)\<rparr>)
        (fuse_conn_put (s\<lparr>devices := without d (devices s)\<rparr>)))"

text \<open>\<open>fuse_dev_release\<close>: \<open>fud\<close> is \<open>None\<close> for a file without a connection.\<close>

definition fuse_dev_release :: "dev_id option \<Rightarrow> fuse_state \<Rightarrow> fuse_state option" where
  "fuse_dev_release fud s =
     (case fud of
        None \<Rightarrow> Some s
      | Some d \<Rightarrow> do {
          dev \<leftarrow> devs s d;
          let s1 = (if io_list (dev_pq dev) \<noteq> [] then emit Warn s else s);
          s2 \<leftarrow> end_requests (processing (dev_pq dev)) s1;
          let s3 = s2\<lparr>dev_count := dev_count s2 - 1\<rparr>;
          s4 \<leftarrow> (if dev_count s2 = 1 then fuse_abort_conn s3 else Some s3);
          fuse_dev_free d s4})"

text \<open>
  \<open>fuse_device_clone\<close>: \<open>private\<close> is \<open>new->private_data\<close>, and the result has its new value.
\<close>

definition fuse_device_clone ::
    "oom \<Rightarrow> dev_id option \<Rightarrow> fuse_state \<Rightarrow> int \<times> dev_id option \<times> fuse_state" where
  "fuse_device_clone ok private s =
     (if private \<noteq> None then (- EINVAL, private, s)
      else case fuse_dev_alloc ok s of
          (None, s1) \<Rightarrow> (- ENOMEM, private, s1)
        | (Some d, s1) \<Rightarrow> (0, Some d, s1\<lparr>dev_count := dev_count s1 + 1\<rparr>))"

text \<open>
  \<open>fuse_dev_ioctl\<close>: \<open>oldfd\<close> is what \<open>get_user\<close> reads (\<open>None\<close>: a fault), and \<open>fget\<close> the file behind a
  descriptor: whether it is a FUSE device of the same user namespace, and the device it leads to.
\<close>

definition fuse_dev_ioctl ::
    "oom \<Rightarrow> bool \<Rightarrow> nat option \<Rightarrow> (nat \<Rightarrow> (bool \<times> dev_id option) option) \<Rightarrow> dev_id option \<Rightarrow> fuse_state \<Rightarrow>
       int \<times> dev_id option \<times> fuse_state" where
  "fuse_dev_ioctl ok is_clone oldfd fget private s =
     (if \<not> is_clone then (- ENOTTY, private, s)
      else case oldfd of
          None \<Rightarrow> (- EFAULT, private, s)
        | Some fd \<Rightarrow>
            (case fget fd of
               Some (True, Some _) \<Rightarrow> fuse_device_clone ok private s
             | _ \<Rightarrow> (- EINVAL, private, s)))"

subsection \<open>Ending one request\<close>

definition ended :: "fuse_state \<Rightarrow> req_id \<Rightarrow> bool" where
  "ended s r \<longleftrightarrow> (\<forall>q. reqs s r = Some q \<longrightarrow> FR_FINISHED \<in> rq_flags q)"

text \<open>
  A request whose last reference can be dropped: it does not come from the reserve of a file, or
  somebody else holds it too (a request from a reserve is only sent synchronously).
\<close>

definition droppable :: "fuse_req \<Rightarrow> bool" where
  "droppable q \<longleftrightarrow> rq_stolen_file q = None \<or> rq_count q \<noteq> 1"

text \<open>What the end of one request leaves alone when the background queue is empty.\<close>

definition end_frame :: "req_id \<Rightarrow> fuse_state \<Rightarrow> fuse_state \<Rightarrow> bool" where
  "end_frame r s s' \<longleftrightarrow> (\<forall>x. x \<noteq> r \<longrightarrow> reqs s' x = reqs s x) \<and> bg_queue s' = [] \<and>
     pending (iq s') = pending (iq s) \<and> iq_connected (iq s') = iq_connected (iq s) \<and>
     forget_list (iq s') = forget_list (iq s) \<and> devs s' = devs s \<and> devices s' = devices s \<and>
     connected s' = connected s \<and> (\<not> blocked s \<longrightarrow> \<not> blocked s') \<and> dev_count s' = dev_count s \<and>
     fc_count s' = fc_count s"

lemma put_total:
  assumes "reqs s r = Some q" and "droppable q"
  shows "\<exists>s'. fuse_put_request s r = Some s'"
  using assms
  by (auto simp: fuse_put_request_def droppable_def Let_def fuse_request_free_def put_last_ref_def
      waiting_dec_def split: option.split)

lemma end_counts_frame [simp]:
  "dev_count (end_counts r s) = dev_count s" "fc_count (end_counts r s) = fc_count s"
  "devices (end_counts r s) = devices s"
  by (simp_all add: end_counts_def Let_def)

lemma end_mark_frame [simp]:
  "dev_count (end_mark s r q) = dev_count s" "fc_count (end_mark s r q) = fc_count s"
  "devices (end_mark s r q) = devices s" "forget_list (iq (end_mark s r q)) = forget_list (iq s)"
  by (simp_all add: end_mark_def Let_def)

lemma end_counters_empty:
  assumes "bg_queue s = []" and "reqs s r = Some q"
  shows "\<exists>s4. end_counters s r q = Some s4 \<and> end_frame r s s4 \<and>
     (\<exists>q4. reqs s4 r = Some q4 \<and> FR_FINISHED \<in> rq_flags q4 \<and> rq_count q4 = rq_count q \<and>
        rq_stolen_file q4 = rq_stolen_file q)"
proof -
  have "flush_bg_queue (end_counts r (end_mark s r q)) = Some (end_counts r (end_mark s r q))"
    using assms(1) by (intro flush_stop) simp
  then show ?thesis
    using assms by (simp add: end_counters_def end_background_def end_frame_def)
qed

lemma end_callback_total:
  assumes "oh_error (out_h (rq_out q)) \<noteq> 0"
  shows "\<exists>s6. end_callback s r q = Some s6 \<and> dev_count s6 = dev_count s \<and> fc_count s6 = fc_count s \<and>
     devices s6 = devices s"
  using assms
  by (cases "rq_end q")
    (auto simp: end_callback_def run_end_def process_init_reply_def fuse_set_initialized_def)

lemma request_end_abort:
  assumes q: "reqs s r = Some q" and bg: "bg_queue s = []" and err: "oh_error (out_h (rq_out q)) \<noteq> 0"
    and dr: "droppable q"
  shows "\<exists>s'. request_end s r = Some s' \<and> ended s' r \<and> end_frame r s s'"
proof (cases "FR_FINISHED \<in> rq_flags q")
  case True
  then show ?thesis
    using q bg by (simp add: request_end_finished ended_def end_frame_def)
next
  case False
  from end_counters_empty [OF bg q] obtain s4 q4 where s4: "end_counters s r q = Some s4" "end_frame r s s4"
      "reqs s4 r = Some q4" "FR_FINISHED \<in> rq_flags q4" "rq_count q4 = rq_count q"
      "rq_stolen_file q4 = rq_stolen_file q" by blast
  from end_callback_total [OF err, of s4 r] obtain s6 where s6: "end_callback s4 r q = Some s6"
      "dev_count s6 = dev_count s4" "fc_count s6 = fc_count s4" "devices s6 = devices s4" by blast
  note same = request_end_callback [OF s6(1)]
  have q6: "reqs s6 r = Some q4" using s4(3) same(1) by simp
  have "droppable q4" using dr s4(5,6) by (simp add: droppable_def)
  then obtain s' where put: "fuse_put_request s6 r = Some s'" using put_total [OF q6] by blast
  have "ended s' r"
    using put
  proof (cases rule: fuse_put_request_cases)
    case (shared p)
    then show ?thesis using q6 s4(4) by (simp add: ended_def)
  next
    case (freed p)
    then show ?thesis by (simp add: ended_def)
  next
    case (returned p n)
    then show ?thesis using q6 \<open>droppable q4\<close> by (simp add: droppable_def)
  qed
  moreover have "end_frame r s s'"
    using s4(2) s6 fuse_put_request_frame [OF put] fuse_put_request_other [OF put]
    by (simp add: end_frame_def same)
  moreover have "request_end s r = Some s'"
    using put s4(1) s6(1) by (simp add: request_end_step [OF q False])
  ultimately show ?thesis by blast
qed

lemma request_end_shared:
  assumes q: "reqs s r = Some q" and fin: "FR_FINISHED \<notin> rq_flags q" and bg: "bg_queue s = []"
    and err: "oh_error (out_h (rq_out q)) \<noteq> 0" and cnt: "rq_count q \<noteq> 1"
  shows "\<exists>s' q'. request_end s r = Some s' \<and> reqs s' r = Some q' \<and> FR_FINISHED \<in> rq_flags q' \<and>
     rq_flags q - {FR_BACKGROUND} \<subseteq> rq_flags q' \<and> rq_count q' = rq_count q - 1 \<and> devs s' = devs s"
proof -
  have fl: "flush_bg_queue (end_counts r (end_mark s r q)) = Some (end_counts r (end_mark s r q))"
    using bg by (intro flush_stop) simp
  have "\<exists>s4. end_counters s r q = Some s4 \<and> devs s4 = devs s \<and> (\<exists>q4. reqs s4 r = Some q4 \<and>
      FR_FINISHED \<in> rq_flags q4 \<and> rq_flags q - {FR_BACKGROUND} \<subseteq> rq_flags q4 \<and> rq_count q4 = rq_count q)"
    using q by (auto simp: end_counters_def end_background_def fl set_flag_def clear_flag_def)
  then obtain s4 q4 where s4: "end_counters s r q = Some s4" "devs s4 = devs s" "reqs s4 r = Some q4"
      "FR_FINISHED \<in> rq_flags q4" "rq_flags q - {FR_BACKGROUND} \<subseteq> rq_flags q4" "rq_count q4 = rq_count q"
    by blast
  from end_callback_total [OF err, of s4 r] obtain s6 where s6: "end_callback s4 r q = Some s6" by blast
  note same = request_end_callback [OF s6]
  have q6: "reqs s6 r = Some q4" using s4(3) same(1) by simp
  have "droppable q4" using cnt s4(6) by (simp add: droppable_def)
  then obtain s' where put: "fuse_put_request s6 r = Some s'" using put_total [OF q6] by blast
  have "reqs s' r = Some (q4\<lparr>rq_count := rq_count q - 1\<rparr>)"
    using put q6 cnt s4(6) by (cases rule: fuse_put_request_cases) auto
  moreover have "devs s' = devs s" using fuse_put_request_frame [OF put] s4(2) same by simp
  moreover have "request_end s r = Some s'"
    using put s4(1) s6 by (simp add: request_end_step [OF q fin])
  ultimately show ?thesis using s4(4,5) by auto
qed

subsection \<open>Ending the requests of a list\<close>

definition dev_shrink :: "fuse_state \<Rightarrow> fuse_state \<Rightarrow> bool" where
  "dev_shrink s s' \<longleftrightarrow> (\<forall>d dev. devs s d = Some dev \<longrightarrow> (\<exists>dev'. devs s' d = Some dev' \<and>
     pq_connected (dev_pq dev') = pq_connected (dev_pq dev) \<and>
     set (processing (dev_pq dev')) \<subseteq> set (processing (dev_pq dev)) \<and>
     set (io_list (dev_pq dev')) \<subseteq> set (io_list (dev_pq dev))))"

lemma dev_shrink_refl [simp]: "dev_shrink s s"
  by (simp add: dev_shrink_def)

lemma dev_shrink_same: "devs s' = devs s \<Longrightarrow> dev_shrink s s'"
  by (simp add: dev_shrink_def)

lemma dev_shrink_trans:
  assumes "dev_shrink s t" and "dev_shrink t u"
  shows "dev_shrink s u"
  unfolding dev_shrink_def
proof (intro allI impI)
  fix d dev assume "devs s d = Some dev"
  then obtain dev1 where 1: "devs t d = Some dev1" "pq_connected (dev_pq dev1) = pq_connected (dev_pq dev)"
      "set (processing (dev_pq dev1)) \<subseteq> set (processing (dev_pq dev))"
      "set (io_list (dev_pq dev1)) \<subseteq> set (io_list (dev_pq dev))"
    using assms(1) unfolding dev_shrink_def by blast
  then obtain dev2 where 2: "devs u d = Some dev2" "pq_connected (dev_pq dev2) = pq_connected (dev_pq dev1)"
      "set (processing (dev_pq dev2)) \<subseteq> set (processing (dev_pq dev1))"
      "set (io_list (dev_pq dev2)) \<subseteq> set (io_list (dev_pq dev1))"
    using assms(2) unfolding dev_shrink_def by blast
  show "\<exists>dev'. devs u d = Some dev' \<and> pq_connected (dev_pq dev') = pq_connected (dev_pq dev) \<and>
      set (processing (dev_pq dev')) \<subseteq> set (processing (dev_pq dev)) \<and>
      set (io_list (dev_pq dev')) \<subseteq> set (io_list (dev_pq dev))"
    using 1 2 by (intro exI [of _ dev2]) auto
qed

lemma dev_shrink_list_del [simp]: "dev_shrink s (list_del r s)"
  by (auto simp: dev_shrink_def)

definition quiet_frame :: "req_id set \<Rightarrow> fuse_state \<Rightarrow> fuse_state \<Rightarrow> bool" where
  "quiet_frame A s s' \<longleftrightarrow> (\<forall>x. x \<notin> A \<longrightarrow> reqs s' x = reqs s x) \<and> bg_queue s' = [] \<and>
     set (pending (iq s')) \<subseteq> set (pending (iq s)) \<and> iq_connected (iq s') = iq_connected (iq s) \<and>
     forget_list (iq s') = forget_list (iq s) \<and> dev_shrink s s' \<and> devices s' = devices s \<and>
     connected s' = connected s \<and> (\<not> blocked s \<longrightarrow> \<not> blocked s') \<and> dev_count s' = dev_count s \<and>
     fc_count s' = fc_count s"

lemma quiet_frame_trans:
  assumes "quiet_frame A s t" and "quiet_frame B t u"
  shows "quiet_frame (A \<union> B) s u"
proof -
  have "set (pending (iq u)) \<subseteq> set (pending (iq s))" using assms unfolding quiet_frame_def by blast
  moreover have "dev_shrink s u" using assms dev_shrink_trans unfolding quiet_frame_def by blast
  ultimately show ?thesis using assms unfolding quiet_frame_def by simp
qed

text \<open>One step of either loop: a preparation of the request, its removal from the lists, its end.\<close>

lemma end_step:
  assumes q: "reqs s r = Some q" and bg: "bg_queue s = []"
    and err: "oh_error (out_h (rq_out (f q))) \<noteq> 0" and dr: "droppable (f q)"
  shows "\<exists>s'. request_end (list_del r (upd_req r f s)) r = Some s' \<and> ended s' r \<and> quiet_frame {r} s s'"
proof -
  let ?t = "list_del r (upd_req r f s)"
  have "reqs ?t r = Some (f q)" "bg_queue ?t = []" using q bg by simp_all
  from request_end_abort [OF this err dr] obtain s' where
      s': "request_end ?t r = Some s'" "ended s' r" "end_frame r ?t s'" by blast
  have "dev_shrink s s'"
    using s'(3) by (intro dev_shrink_trans [of s "list_del r s" s']) (auto simp: end_frame_def dev_shrink_def)
  then have "quiet_frame {r} s s'"
    using s'(3) by (auto simp: end_frame_def quiet_frame_def)
  with s'(1,2) show ?thesis by blast
qed

lemma ended_frame: "ended s r \<Longrightarrow> quiet_frame A s s' \<Longrightarrow> r \<notin> A \<Longrightarrow> ended s' r"
  by (simp add: ended_def quiet_frame_def)

lemma end_requests_all:
  assumes "distinct rs" and "\<forall>r \<in> set rs. \<exists>q. reqs s r = Some q \<and> droppable q" and "bg_queue s = []"
  shows "\<exists>s'. end_requests rs s = Some s' \<and> (\<forall>r \<in> set rs. ended s' r) \<and> quiet_frame (set rs) s s'"
  using assms
proof (induction rs arbitrary: s)
  case Nil
  then show ?case by (simp add: quiet_frame_def)
next
  case (Cons r rs)
  let ?f = "\<lambda>q. clear_flag FR_SENT (set_out_error (- ECONNABORTED) q)"
  from Cons.prems(2) obtain q where q: "reqs s r = Some q" "droppable q" by auto
  have "oh_error (out_h (rq_out (?f q))) \<noteq> 0" by (simp add: ECONNABORTED_def)
  moreover have "droppable (?f q)" using q(2) by (simp add: droppable_def)
  ultimately obtain s1 where s1: "request_end (list_del r (upd_req r ?f s)) r = Some s1" "ended s1 r"
      "quiet_frame {r} s s1"
    using end_step [OF q(1) Cons.prems(3), of ?f] by blast
  have "\<forall>x \<in> set rs. \<exists>q. reqs s1 x = Some q \<and> droppable q"
    using Cons.prems(1,2) s1(3) by (auto simp: quiet_frame_def)
  moreover have "bg_queue s1 = []" using s1(3) by (simp add: quiet_frame_def)
  ultimately obtain s2 where s2: "end_requests rs s1 = Some s2" "\<forall>x \<in> set rs. ended s2 x"
      "quiet_frame (set rs) s1 s2"
    using Cons.IH [of s1] Cons.prems(1) by auto
  have "end_requests (r # rs) s = Some s2" using q(1) s1(1) s2(1) by simp
  moreover have "ended s2 r" using s1(2) s2(3) Cons.prems(1) ended_frame by auto
  moreover have "quiet_frame (set (r # rs)) s s2"
    using quiet_frame_trans [OF s1(3) s2(3)] by simp
  ultimately show ?case using s2(2) by auto
qed

lemma abort_end1_all:
  assumes "distinct rs" and "bg_queue s = []"
    and "\<forall>r \<in> set rs. \<exists>q. reqs s r = Some q \<and> rq_count q \<noteq> 0 \<and> oh_error (out_h (rq_out q)) \<noteq> 0"
  shows "\<exists>s'. abort_end1 rs s = Some s' \<and> (\<forall>r \<in> set rs. ended s' r) \<and> quiet_frame (set rs) s s'"
  using assms
proof (induction rs arbitrary: s)
  case Nil
  then show ?case by (simp add: quiet_frame_def)
next
  case (Cons r rs)
  let ?f = "rq_count_update (\<lambda>n. n + 1)"
  from Cons.prems(3) obtain q where q: "reqs s r = Some q" "rq_count q \<noteq> 0" "oh_error (out_h (rq_out q)) \<noteq> 0"
    by auto
  then have "oh_error (out_h (rq_out (?f q))) \<noteq> 0" "droppable (?f q)" by (simp_all add: droppable_def)
  then obtain s1 where s1: "request_end (list_del r (upd_req r ?f s)) r = Some s1" "ended s1 r"
      "quiet_frame {r} s s1"
    using end_step [OF q(1) Cons.prems(2), of ?f] by blast
  have "\<forall>x \<in> set rs. \<exists>q. reqs s1 x = Some q \<and> rq_count q \<noteq> 0 \<and> oh_error (out_h (rq_out q)) \<noteq> 0"
    using Cons.prems(1,3) s1(3) by (auto simp: quiet_frame_def)
  moreover have "bg_queue s1 = []" using s1(3) by (simp add: quiet_frame_def)
  ultimately obtain s2 where s2: "abort_end1 rs s1 = Some s2" "\<forall>x \<in> set rs. ended s2 x"
      "quiet_frame (set rs) s1 s2"
    using Cons.IH [of s1] Cons.prems(1) by auto
  have "abort_end1 (r # rs) s = Some s2" using q(1) s1(1) s2(1) by (simp add: get_request_def)
  moreover have "ended s2 r" using s1(2) s2(3) Cons.prems(1) ended_frame by auto
  moreover have "quiet_frame (set (r # rs)) s s2"
    using quiet_frame_trans [OF s1(3) s2(3)] by simp
  ultimately show ?case using s2(2) by auto
qed

subsection \<open>Collecting the requests\<close>

definition unlocked :: "fuse_state \<Rightarrow> req_id \<Rightarrow> bool" where
  "unlocked s r \<longleftrightarrow> (\<forall>q. reqs s r = Some q \<longrightarrow> FR_LOCKED \<notin> rq_flags q)"

definition without_all :: "'a list \<Rightarrow> 'a list \<Rightarrow> 'a list" where
  "without_all rs xs = filter (\<lambda>x. x \<notin> set rs) xs"

lemma without_all_simps [simp]:
  "without_all [] xs = xs" "without_all (r # rs) xs = without_all rs (without r xs)"
  "set (without_all rs xs) = set xs - set rs"
  by (auto simp: without_all_def without_def conj_commute)

lemma without_all_disjoint [simp]: "set xs \<inter> set rs = {} \<Longrightarrow> without_all rs xs = xs"
  by (auto simp: without_all_def filter_id_conv)

definition pq_del_all :: "req_id list \<Rightarrow> fuse_pqueue \<Rightarrow> fuse_pqueue" where
  "pq_del_all rs p = p\<lparr>processing := without_all rs (processing p), io_list := without_all rs (io_list p)\<rparr>"

lemma pq_del_all_simps [simp]:
  "pq_del_all [] p = p" "pq_del_all (r # rs) p = pq_del_all rs (pq_del r p)"
  "processing (pq_del_all rs p) = without_all rs (processing p)"
  "io_list (pq_del_all rs p) = without_all rs (io_list p)"
  "pq_connected (pq_del_all rs p) = pq_connected p"
  by (simp_all add: pq_del_all_def pq_del_def)

lemma pq_del_all_Cons: "pq_del_all (r # rs) = (\<lambda>p. pq_del_all rs (pq_del r p))"
  by (simp add: fun_eq_iff)

lemma abort_mark_fields [simp]:
  "rq_count (abort_mark q) = rq_count q" "rq_stolen_file (abort_mark q) = rq_stolen_file q"
  "rq_end (abort_mark q) = rq_end q" "oh_error (out_h (rq_out (abort_mark q))) = - ECONNABORTED"
  "rq_flags (abort_mark q) = rq_flags q \<union> {FR_ABORTED} \<union> (if FR_LOCKED \<in> rq_flags q then {} else {FR_PRIVATE})"
  by (auto simp: abort_mark_def Let_def)

lemma abort_io_total:
  "set rs \<subseteq> dom (reqs s) \<Longrightarrow> \<exists>e1' s'. abort_io rs e1 s = Some (e1', s')"
proof (induction rs arbitrary: e1 s)
  case (Cons r rs)
  then obtain q where q: "reqs s r = Some q" by auto
  have "set rs \<subseteq> dom (reqs (upd_req r abort_mark s))"
      "set rs \<subseteq> dom (reqs (list_del r (upd_req r abort_mark s)))"
    using Cons.prems by auto
  then show ?case using Cons.IH q by (simp add: Let_def)
qed simp

lemma filter_unlocked_other:
  assumes "r \<notin> set rs"
  shows "filter (unlocked (upd_req r f s)) rs = filter (unlocked s) rs"
    and "filter (unlocked (list_del r (upd_req r f s))) rs = filter (unlocked s) rs"
proof -
  have "reqs (upd_req r f s) x = reqs s x" if "x \<in> set rs" for x
    using assms that by (cases "x = r") auto
  then have "unlocked (upd_req r f s) x = unlocked s x" if "x \<in> set rs" for x
    using that by (simp only: unlocked_def)
  then show one: "filter (unlocked (upd_req r f s)) rs = filter (unlocked s) rs"
    by (rule filter_cong [OF refl])
  have "unlocked (list_del r (upd_req r f s)) = unlocked (upd_req r f s)"
    by (simp add: unlocked_def fun_eq_iff)
  with one show "filter (unlocked (list_del r (upd_req r f s))) rs = filter (unlocked s) rs" by simp
qed

text \<open>One round of the loop.\<close>

lemma abort_io_Cons:
  assumes "abort_io (r # rs) e1 s = Some (e1', s')"
  obtains q where "reqs s r = Some q" and "\<not> unlocked s r"
      and "abort_io rs e1 (upd_req r abort_mark s) = Some (e1', s')"
  | q where "reqs s r = Some q" and "unlocked s r"
      and "abort_io rs (r # e1) (list_del r (upd_req r abort_mark s)) = Some (e1', s')"
  using assms by (auto simp: Let_def unlocked_def split: option.split_asm if_split_asm)

lemma abort_io_reqs:
  assumes "abort_io rs e1 s = Some (e1', s')" and "distinct rs"
  shows "reqs s' x = (if x \<in> set rs then map_option abort_mark (reqs s x) else reqs s x)"
  using assms
proof (induction rs arbitrary: e1 s)
  case (Cons r rs)
  from Cons.prems(1) show ?case
  proof (cases rule: abort_io_Cons)
    case (1 q)
    show ?thesis using Cons.IH [OF 1(3)] Cons.prems(2) by (cases "x = r") simp_all
  next
    case (2 q)
    show ?thesis using Cons.IH [OF 2(3)] Cons.prems(2) by (cases "x = r") simp_all
  qed
qed simp

lemma abort_io_list:
  assumes "abort_io rs e1 s = Some (e1', s')" and "distinct rs"
  shows "e1' = rev (filter (unlocked s) rs) @ e1"
  using assms
proof (induction rs arbitrary: e1 s)
  case (Cons r rs)
  have nr: "r \<notin> set rs" using Cons.prems(2) by simp
  from Cons.prems(1) show ?case
  proof (cases rule: abort_io_Cons)
    case (1 q)
    show ?thesis using Cons.IH [OF 1(3)] Cons.prems(2) 1(2) filter_unlocked_other(1) [OF nr] by simp
  next
    case (2 q)
    show ?thesis using Cons.IH [OF 2(3)] Cons.prems(2) 2(2) filter_unlocked_other(2) [OF nr] by simp
  qed
qed simp

definition abort_io_rest :: "req_id list \<Rightarrow> fuse_state \<Rightarrow> (req_id \<rightharpoonup> fuse_req) \<Rightarrow> fuse_state" where
  "abort_io_rest rs s R = s\<lparr>reqs := R,
     iq := (iq s)\<lparr>pending := without_all rs (pending (iq s))\<rparr>,
     bg_queue := without_all rs (bg_queue s),
     devs := (\<lambda>d. map_option (dev_pq_update (pq_del_all rs)) (devs s d))\<rparr>"

lemma abort_io_state:
  assumes "abort_io rs e1 s = Some (e1', s')" and "distinct rs"
  shows "s' = abort_io_rest (filter (unlocked s) rs) s (reqs s')"
  using assms
proof (induction rs arbitrary: e1 s)
  case Nil
  then show ?case by (simp add: abort_io_rest_def option.map_ident_strong)
next
  case (Cons r rs)
  have nr: "r \<notin> set rs" using Cons.prems(2) by simp
  from Cons.prems(1) show ?case
  proof (cases rule: abort_io_Cons)
    case (1 q)
    have "s' = abort_io_rest (filter (unlocked s) rs) (upd_req r abort_mark s) (reqs s')"
      using Cons.IH [OF 1(3)] Cons.prems(2) filter_unlocked_other(1) [OF nr] by simp
    also have "\<dots> = abort_io_rest (filter (unlocked s) rs) s (reqs s')"
      by (simp add: abort_io_rest_def upd_req_def)
    finally show ?thesis using 1(2) by simp
  next
    case (2 q)
    have "s' = abort_io_rest (filter (unlocked s) rs) (list_del r (upd_req r abort_mark s)) (reqs s')"
      using Cons.IH [OF 2(3)] Cons.prems(2) filter_unlocked_other(2) [OF nr] by simp
    also have "\<dots> = abort_io_rest (r # filter (unlocked s) rs) s (reqs s')"
      by (simp add: abort_io_rest_def upd_req_def list_del_def option.map_comp comp_def pq_del_all_Cons)
    finally show ?thesis using 2(2) by simp
  qed
qed

text \<open>The lists of a device, and of all devices.\<close>

definition dev_list :: "fuse_state \<Rightarrow> dev_id \<Rightarrow> req_id list" where
  "dev_list s d = (case devs s d of None \<Rightarrow> [] | Some dev \<Rightarrow> io_list (dev_pq dev) @ processing (dev_pq dev))"

definition dev_io :: "fuse_state \<Rightarrow> dev_id \<Rightarrow> req_id list" where
  "dev_io s d = (case devs s d of None \<Rightarrow> [] | Some dev \<Rightarrow> io_list (dev_pq dev))"

definition dev_processing :: "fuse_state \<Rightarrow> dev_id \<Rightarrow> req_id list" where
  "dev_processing s d = (case devs s d of None \<Rightarrow> [] | Some dev \<Rightarrow> processing (dev_pq dev))"

lemma dev_list_split: "dev_list s d = dev_io s d @ dev_processing s d"
  by (simp add: dev_list_def dev_io_def dev_processing_def split: option.split)

text \<open>
  The invariant of the lists: a request is on at most one of the pending list, the background queue
  and the lists of the devices, and is alive.
\<close>

definition lists_inv :: "fuse_state \<Rightarrow> bool" where
  "lists_inv s \<longleftrightarrow> distinct (devices s) \<and> (\<forall>d \<in> set (devices s). devs s d \<noteq> None) \<and>
     distinct (pending (iq s) @ bg_queue s @ concat (map (dev_list s) (devices s))) \<and>
     set (pending (iq s) @ bg_queue s @ concat (map (dev_list s) (devices s))) \<subseteq> dom (reqs s)"

text \<open>What the loop over the devices \<open>ds\<close> has done.\<close>

definition abort_devs_post ::
    "dev_id list \<Rightarrow> fuse_state \<Rightarrow> req_id list \<Rightarrow> req_id list \<Rightarrow> req_id list \<Rightarrow> req_id list \<Rightarrow> fuse_state \<Rightarrow> bool"
where
  "abort_devs_post ds s e1 e2 e1' e2' s' \<longleftrightarrow>
     (let io = concat (map (dev_io s) ds) in
      set e1' = set e1 \<union> {r \<in> set io. unlocked s r} \<and>
      set e2' = set e2 \<union> set (concat (map (dev_processing s) ds)) \<and> distinct (e1' @ e2') \<and>
      (\<forall>x. reqs s' x = (if x \<in> set io then map_option abort_mark (reqs s x) else reqs s x)) \<and>
      (\<forall>d \<in> set ds. \<exists>dev. devs s' d = Some dev \<and> \<not> pq_connected (dev_pq dev) \<and> processing (dev_pq dev) = [] \<and>
         set (io_list (dev_pq dev)) = {r \<in> set (dev_io s d). \<not> unlocked s r}) \<and>
      (\<forall>d. d \<notin> set ds \<longrightarrow> set (dev_list s d) \<inter> set io = {} \<longrightarrow> devs s' d = devs s d) \<and>
      s' = s\<lparr>reqs := reqs s', devs := devs s'\<rparr>)"

lemma abort_dev_step:
  assumes dev: "devs s d = Some dev" and dist: "distinct (io_list (dev_pq dev) @ processing (dev_pq dev))"
    and live: "set (io_list (dev_pq dev)) \<subseteq> dom (reqs s)"
    and pend: "set (pending (iq s)) \<inter> set (io_list (dev_pq dev)) = {}"
    and bg: "set (bg_queue s) \<inter> set (io_list (dev_pq dev)) = {}"
  shows "\<exists>s1 dev1 s2. abort_io (io_list (dev_pq dev)) e1 (upd_dev d pq_disconnect s) =
       Some (rev (filter (unlocked s) (io_list (dev_pq dev))) @ e1, s1) \<and>
     devs s1 d = Some dev1 \<and> processing (dev_pq dev1) = processing (dev_pq dev) \<and>
     s2 = upd_dev d pq_drop_processing s1 \<and>
     (\<forall>x. reqs s2 x = (if x \<in> set (io_list (dev_pq dev)) then map_option abort_mark (reqs s x) else reqs s x)) \<and>
     (\<exists>dev2. devs s2 d = Some dev2 \<and> \<not> pq_connected (dev_pq dev2) \<and> processing (dev_pq dev2) = [] \<and>
        set (io_list (dev_pq dev2)) = {r \<in> set (io_list (dev_pq dev)). \<not> unlocked s r}) \<and>
     (\<forall>d'. d' \<noteq> d \<longrightarrow> set (dev_list s d') \<inter> set (io_list (dev_pq dev)) = {} \<longrightarrow> devs s2 d' = devs s d') \<and>
     s2 = s\<lparr>reqs := reqs s2, devs := devs s2\<rparr>"
proof -
  let ?io = "io_list (dev_pq dev)" and ?s0 = "upd_dev d pq_disconnect s"
  let ?un = "filter (unlocked s) ?io"
  have un: "unlocked ?s0 = unlocked s" by (simp add: unlocked_def fun_eq_iff)
  have dio: "distinct ?io" using dist by simp
  have "set ?io \<subseteq> dom (reqs ?s0)" using live by simp
  then obtain e1' s1 where run: "abort_io ?io e1 ?s0 = Some (e1', s1)" using abort_io_total by blast
  have e1': "e1' = rev ?un @ e1" using abort_io_list [OF run dio] un by simp
  have rq: "reqs s1 x = (if x \<in> set ?io then map_option abort_mark (reqs s x) else reqs s x)" for x
    using abort_io_reqs [OF run dio, of x] by simp
  have st: "s1 = abort_io_rest ?un ?s0 (reqs s1)" using abort_io_state [OF run dio] un by simp
  have dv: "devs s1 x = map_option (dev_pq_update (pq_del_all ?un)) (devs ?s0 x)" for x
    by (subst st) (simp add: abort_io_rest_def)
  have "without_all ?un (processing (dev_pq dev)) = processing (dev_pq dev)"
    using dist by (intro without_all_disjoint) auto
  moreover let ?dev1 = "dev_pq_update (pq_del_all ?un) (dev_pq_update pq_disconnect dev)"
  have "devs s1 d = Some ?dev1" using dv [of d] dev by simp
  ultimately obtain dev1 where dev1: "devs s1 d = Some dev1"
      "processing (dev_pq dev1) = processing (dev_pq dev)"
      "io_list (dev_pq dev1) = without_all ?un ?io" "\<not> pq_connected (dev_pq dev1)"
    using that [of ?dev1] by (simp add: pq_disconnect_def)
  let ?s2 = "upd_dev d pq_drop_processing s1"
  have other: "devs ?s2 d' = devs s d'" if "d' \<noteq> d" "set (dev_list s d') \<inter> set ?io = {}" for d'
  proof (cases "devs s d'")
    case None
    then show ?thesis using that dv [of d'] by simp
  next
    case (Some x)
    have "set (processing (dev_pq x)) \<inter> set ?un = {}" "set (io_list (dev_pq x)) \<inter> set ?un = {}"
      using that(2) Some by (auto simp: dev_list_def)
    then have "pq_del_all ?un (dev_pq x) = dev_pq x" by (simp add: pq_del_all_def)
    then show ?thesis using that(1) Some dv [of d'] by simp
  qed
  have "without_all ?un (pending (iq s)) = pending (iq s)" "without_all ?un (bg_queue s) = bg_queue s"
    using pend bg by (auto intro!: without_all_disjoint)
  then have "s1 = s\<lparr>reqs := reqs s1,
      devs := (\<lambda>x. map_option (dev_pq_update (pq_del_all ?un)) (devs ?s0 x))\<rparr>"
    using st by (simp add: abort_io_rest_def upd_dev_def)
  moreover have "devs s1 = (\<lambda>x. map_option (dev_pq_update (pq_del_all ?un)) (devs ?s0 x))"
    by (rule ext) (rule dv)
  ultimately have "s1 = s\<lparr>reqs := reqs s1, devs := devs s1\<rparr>" by (simp only:)
  then obtain R D where "s1 = s\<lparr>reqs := R, devs := D\<rparr>" by blast
  then have "?s2 = s\<lparr>reqs := reqs ?s2, devs := devs ?s2\<rparr>" by (simp add: upd_dev_def)
  moreover have "\<exists>dev2. devs ?s2 d = Some dev2 \<and> \<not> pq_connected (dev_pq dev2) \<and> processing (dev_pq dev2) = [] \<and>
        set (io_list (dev_pq dev2)) = {r \<in> set ?io. \<not> unlocked s r}"
    using dev1 by (auto simp: pq_drop_processing_def)
  ultimately show ?thesis using run e1' dev1(1,2) rq other by auto
qed

lemma unlocked_marked:
  assumes "\<forall>x. reqs s' x = (if x \<in> A then map_option abort_mark (reqs s x) else reqs s x)"
  shows "unlocked s' = unlocked s"
proof
  fix r show "unlocked s' r = unlocked s r"
    using assms by (cases "reqs s r") (simp_all add: unlocked_def)
qed

lemma abort_devs_all:
  assumes "distinct ds" and "\<forall>d \<in> set ds. devs s d \<noteq> None"
    and "distinct (e1 @ e2 @ concat (map (dev_list s) ds))"
    and "set (concat (map (dev_list s) ds)) \<subseteq> dom (reqs s)"
    and "(set (pending (iq s)) \<union> set (bg_queue s)) \<inter> set (concat (map (dev_list s) ds)) = {}"
  shows "\<exists>e1' e2' s'. abort_devs ds e1 e2 s = Some (e1', e2', s') \<and> abort_devs_post ds s e1 e2 e1' e2' s'"
  using assms
proof (induction ds arbitrary: s e1 e2)
  case Nil
  then show ?case by (simp add: abort_devs_post_def)
next
  case (Cons d ds)
  from Cons.prems(2) obtain dev where dev: "devs s d = Some dev" by auto
  let ?io = "io_list (dev_pq dev)" and ?pr = "processing (dev_pq dev)"
  let ?un = "filter (unlocked s) ?io"
  have dl: "dev_list s d = ?io @ ?pr" "dev_io s d = ?io" "dev_processing s d = ?pr"
    using dev by (simp_all add: dev_list_def dev_io_def dev_processing_def)
  have dist: "distinct (?io @ ?pr)" and live: "set ?io \<subseteq> dom (reqs s)"
    and pd: "set (pending (iq s)) \<inter> set ?io = {}" and bg: "set (bg_queue s) \<inter> set ?io = {}"
    using Cons.prems(3-5) dl by auto
  from abort_dev_step [OF dev dist live pd bg, of e1] obtain s1 dev1 s2 where
      run: "abort_io ?io e1 (upd_dev d pq_disconnect s) = Some (rev ?un @ e1, s1)"
    and dev1: "devs s1 d = Some dev1" "processing (dev_pq dev1) = ?pr"
    and s2: "s2 = upd_dev d pq_drop_processing s1"
    and rq: "\<forall>x. reqs s2 x = (if x \<in> set ?io then map_option abort_mark (reqs s x) else reqs s x)"
    and d2: "\<exists>dev2. devs s2 d = Some dev2 \<and> \<not> pq_connected (dev_pq dev2) \<and> processing (dev_pq dev2) = [] \<and>
        set (io_list (dev_pq dev2)) = {r \<in> set ?io. \<not> unlocked s r}"
    and other: "\<forall>d'. d' \<noteq> d \<longrightarrow> set (dev_list s d') \<inter> set ?io = {} \<longrightarrow> devs s2 d' = devs s d'"
    and st: "s2 = s\<lparr>reqs := reqs s2, devs := devs s2\<rparr>" by blast
  have un: "unlocked s2 = unlocked s" using rq by (rule unlocked_marked)
  have disj: "set (dev_list s d') \<inter> (set ?io \<union> set ?pr) = {}" if "d' \<in> set ds" for d'
    using Cons.prems(3) dl(1) that by auto
  have dv: "devs s2 d' = devs s d'" if "d' \<in> set ds" for d'
    using other disj [OF that] that Cons.prems(1) by auto
  then have lists: "map (dev_list s2) ds = map (dev_list s) ds" "map (dev_io s2) ds = map (dev_io s) ds"
      "map (dev_processing s2) ds = map (dev_processing s) ds"
    by (simp_all add: dev_list_def dev_io_def dev_processing_def)
  have dom: "dom (reqs s2) = dom (reqs s)"
  proof (rule set_eqI)
    fix x show "x \<in> dom (reqs s2) \<longleftrightarrow> x \<in> dom (reqs s)"
      using rq by (cases "x \<in> set ?io") (simp_all add: domIff)
  qed
  have pb: "pending (iq s2) = pending (iq s)" "bg_queue s2 = bg_queue s" by (subst st, simp)+
  have "distinct ((rev ?un @ e1) @ (?pr @ e2) @ concat (map (dev_list s2) ds))"
    unfolding lists(1) using Cons.prems(3) dl(1) by auto
  moreover have "\<forall>d' \<in> set ds. devs s2 d' \<noteq> None" using dv Cons.prems(2) by auto
  moreover have "set (concat (map (dev_list s2) ds)) \<subseteq> dom (reqs s2)"
      "(set (pending (iq s2)) \<union> set (bg_queue s2)) \<inter> set (concat (map (dev_list s2) ds)) = {}"
    unfolding lists(1) dom pb using Cons.prems(4,5) by auto
  ultimately obtain e1' e2' s' where
      rest: "abort_devs ds (rev ?un @ e1) (?pr @ e2) s2 = Some (e1', e2', s')"
    and post: "abort_devs_post ds s2 (rev ?un @ e1) (?pr @ e2) e1' e2' s'"
    using Cons.IH [of s2 "rev ?un @ e1" "?pr @ e2"] Cons.prems(1) by auto
  have all: "abort_devs (d # ds) e1 e2 s = Some (e1', e2', s')"
    using dev run dev1 s2 rest by simp
  let ?ios = "set (concat (map (dev_io s) ds))"
  note p = post [unfolded abort_devs_post_def Let_def lists un]
  have io_disj: "?ios \<inter> set ?io = {}"
    using disj by (auto simp: dev_list_split)
  have rq': "\<forall>x. reqs s' x = (if x \<in> set ?io \<union> ?ios then map_option abort_mark (reqs s x) else reqs s x)"
  proof
    fix x
    show "reqs s' x = (if x \<in> set ?io \<union> ?ios then map_option abort_mark (reqs s x) else reqs s x)"
      using p rq io_disj by (cases "x \<in> set ?io"; cases "x \<in> ?ios") auto
  qed
  have e1': "set e1' = set e1 \<union> {r \<in> set ?io \<union> ?ios. unlocked s r}" using p by auto
  have e2': "set e2' = set e2 \<union> (set ?pr \<union> set (concat (map (dev_processing s) ds)))" using p by auto
  have io2: "map (dev_io s2) ds = map (dev_io s) ds" by (rule lists)
  have dds: "\<exists>dev. devs s' d' = Some dev \<and> \<not> pq_connected (dev_pq dev) \<and> processing (dev_pq dev) = [] \<and>
         set (io_list (dev_pq dev)) = {r \<in> set (dev_io s d'). \<not> unlocked s r}" if "d' \<in> set (d # ds)" for d'
  proof (cases "d' = d")
    case False
    then have "d' \<in> set ds" using that by simp
    moreover have "dev_io s2 d' = dev_io s d'" using dv [OF \<open>d' \<in> set ds\<close>] by (simp add: dev_io_def)
    ultimately show ?thesis using p by auto
  next
    case True
    from d2 obtain dev2 where dd: "devs s2 d = Some dev2" "\<not> pq_connected (dev_pq dev2)"
        "processing (dev_pq dev2) = []" "set (io_list (dev_pq dev2)) = {r \<in> set ?io. \<not> unlocked s r}" by blast
    have "set (dev_list s2 d) \<inter> ?ios = {}" using dd io_disj by (auto simp: dev_list_def)
    then have "devs s' d = devs s2 d" using p Cons.prems(1) by simp
    then show ?thesis using True dd dl(2) by simp
  qed
  have oth: "devs s' d' = devs s d'" if "d' \<notin> set (d # ds)" "set (dev_list s d') \<inter> (set ?io \<union> ?ios) = {}" for d'
  proof -
    have "devs s2 d' = devs s d'" using other that by auto
    moreover have "set (dev_list s2 d') \<inter> ?ios = {}" using that calculation by (auto simp: dev_list_def)
    ultimately show ?thesis using p that(1) by auto
  qed
  have "s' = s2\<lparr>reqs := reqs s', devs := devs s'\<rparr>" using p by blast
  then have "s' = s\<lparr>reqs := reqs s', devs := devs s'\<rparr>" by (subst (asm) st) simp
  moreover have "distinct (e1' @ e2')" using p by blast
  ultimately have "abort_devs_post (d # ds) s e1 e2 e1' e2' s'"
    unfolding abort_devs_post_def Let_def using rq' e1' e2' dds oth dl by simp
  with all show ?case by blast
qed

subsection \<open>The critical section\<close>

lemma flush_dev_shrink: "flush_bg_queue s = Some s' \<Longrightarrow> dev_shrink s s'"
proof (induction rule: flush_induct)
  case (stop s)
  show ?case by simp
next
  case (iterate s s' r rest)
  have "dev_shrink s (flush_bg_one r s)" by (auto simp: dev_shrink_def)
  then show ?case using iterate.IH dev_shrink_trans by blast
qed

text \<open>Without a limit the whole background queue is flushed.\<close>

lemma flush_unlimited:
  assumes inv: "bg_inv s" and unl: "max_background s = - 1"
    and disj: "set (bg_queue s) \<inter> set (pending (iq s)) = {}"
  shows "\<exists>s'. flush_bg_queue s = Some s' \<and> bg_queue s' = [] \<and> pending (iq s') = pending (iq s) @ bg_queue s"
proof -
  have "set (bg_queue s) \<subseteq> dom (reqs s)" using inv by (auto simp: bg_inv_def counted_def)
  then obtain s' where run: "flush_bg_queue s = Some s'" using flush_total by blast
  have inv': "bg_inv s'" using run inv by (rule flush_bg_inv)
  have mx: "max_background s' = - 1" using flush_frame [OF run] unl by simp
  have nil: "bg_queue s' = []"
  proof (rule ccontr)
    assume ne: "bg_queue s' \<noteq> []"
    have fin: "finite (counted s')" using inv' by (simp add: bg_inv_def counted_finite)
    have "counted s' - set (bg_queue s') \<subset> counted s'"
      using ne inv' by (cases "bg_queue s'") (auto simp: bg_inv_def)
    then have "card (counted s' - set (bg_queue s')) < card (counted s')"
      by (rule psubset_card_mono [OF fin])
    then have "unat (active_background s') < unat (num_background s')"
      using inv' by (simp add: bg_inv_def)
    moreover have "unat (num_background s') \<le> unat (- 1 :: u32)"
      by (simp add: word_le_nat_alt [symmetric])
    ultimately have "active_background s' < max_background s'"
      unfolding mx word_less_nat_alt by linarith
    then show False using flush_done [OF run] ne by simp
  qed
  have "distinct (bg_queue s)" using inv by (simp add: bg_inv_def)
  from flush_fifo [OF run this disj] nil run show ?thesis by auto
qed

lemma clear_pending_reqs:
  "reqs (clear_pending rs s) x = (if x \<in> set rs then map_option (clear_flag FR_PENDING) (reqs s x) else reqs s x)"
proof (induction rs arbitrary: s)
  case Nil
  then show ?case by (simp add: clear_pending_def)
next
  case (Cons r rs)
  have idem: "clear_flag FR_PENDING (clear_flag FR_PENDING q) = clear_flag FR_PENDING q" for q
    by (simp add: clear_flag_def)
  have "clear_pending (r # rs) s = clear_pending rs (upd_req r (clear_flag FR_PENDING) s)"
    by (simp add: clear_pending_def)
  then show ?case using Cons.IH by (auto simp: option.map_comp comp_def idem)
qed

lemma clear_pending_frame [simp]:
  "bg_queue (clear_pending rs s) = bg_queue s" "iq (clear_pending rs s) = iq s"
  "devs (clear_pending rs s) = devs s" "devices (clear_pending rs s) = devices s"
  "connected (clear_pending rs s) = connected s" "blocked (clear_pending rs s) = blocked s"
  "dev_count (clear_pending rs s) = dev_count s" "fc_count (clear_pending rs s) = fc_count s"
  unfolding clear_pending_def by (induction rs arbitrary: s; simp)+

lemma fold_emit_frame:
  "\<exists>E. fold (\<lambda>f. emit (g f)) fs s = s\<lparr>events := E\<rparr>"
proof (induction fs arbitrary: s)
  case Nil
  have "fold (\<lambda>f. emit (g f)) [] s = s\<lparr>events := events s\<rparr>" by simp
  then show ?case by blast
next
  case (Cons f fs)
  from Cons.IH [of "emit (g f) s"] show ?case by (auto simp: emit_def)
qed

lemma drop_forgets_frame [simp]:
  "reqs (drop_forgets s) = reqs s" "bg_queue (drop_forgets s) = bg_queue s"
  "devs (drop_forgets s) = devs s" "devices (drop_forgets s) = devices s"
  "connected (drop_forgets s) = connected s" "blocked (drop_forgets s) = blocked s"
  "iq (drop_forgets s) = (iq s)\<lparr>forget_list := []\<rparr>"
  "dev_count (drop_forgets s) = dev_count s" "fc_count (drop_forgets s) = fc_count s"
proof -
  obtain E where "fold (\<lambda>f. emit (Free_forget f)) (forget_list (iq s)) s = s\<lparr>events := E\<rparr>"
    using fold_emit_frame by blast
  then have "drop_forgets s = s\<lparr>events := E, iq := (iq s)\<lparr>forget_list := []\<rparr>\<rparr>"
    by (simp add: drop_forgets_def)
  then show "reqs (drop_forgets s) = reqs s" "bg_queue (drop_forgets s) = bg_queue s"
    "devs (drop_forgets s) = devs s" "devices (drop_forgets s) = devices s"
    "connected (drop_forgets s) = connected s" "blocked (drop_forgets s) = blocked s"
    "iq (drop_forgets s) = (iq s)\<lparr>forget_list := []\<rparr>"
    "dev_count (drop_forgets s) = dev_count s" "fc_count (drop_forgets s) = fc_count s" by simp_all
qed

text \<open>The connection is shut: nothing is queued anywhere and every device is disconnected.\<close>

definition conn_shut :: "fuse_state \<Rightarrow> bool" where
  "conn_shut s \<longleftrightarrow> \<not> connected s \<and> \<not> blocked s \<and> \<not> iq_connected (iq s) \<and> pending (iq s) = [] \<and>
     forget_list (iq s) = [] \<and> bg_queue s = [] \<and>
     (\<forall>d \<in> set (devices s). \<exists>dev. devs s d = Some dev \<and> \<not> pq_connected (dev_pq dev) \<and> processing (dev_pq dev) = [])"

lemma conn_shut_quiet:
  assumes "conn_shut s" and "quiet_frame A s s'"
  shows "conn_shut s'"
proof -
  have "\<exists>dev. devs s' d = Some dev \<and> \<not> pq_connected (dev_pq dev) \<and> processing (dev_pq dev) = []"
    if d: "d \<in> set (devices s)" for d
  proof -
    obtain dev where "devs s d = Some dev" "\<not> pq_connected (dev_pq dev)" "processing (dev_pq dev) = []"
      using assms(1) d unfolding conn_shut_def by blast
    moreover have "dev_shrink s s'" using assms(2) by (simp add: quiet_frame_def)
    ultimately show ?thesis unfolding dev_shrink_def by fastforce
  qed
  then show ?thesis using assms by (simp add: conn_shut_def quiet_frame_def)
qed

definition all_io :: "fuse_state \<Rightarrow> req_id list" where
  "all_io s = concat (map (dev_io s) (devices s))"

definition all_processing :: "fuse_state \<Rightarrow> req_id list" where
  "all_processing s = concat (map (dev_processing s) (devices s))"

definition listed :: "fuse_state \<Rightarrow> req_id set" where
  "listed s = set (pending (iq s)) \<union> set (bg_queue s) \<union> set (all_io s) \<union> set (all_processing s)"

lemma listed_alt:
  "listed s = set (pending (iq s) @ bg_queue s @ concat (map (dev_list s) (devices s)))"
  by (auto simp: listed_def all_io_def all_processing_def dev_list_split)

text \<open>How the critical section changes a request.\<close>

definition abort_req_rel :: "bool \<Rightarrow> fuse_req \<Rightarrow> fuse_req \<Rightarrow> bool" where
  "abort_req_rel io q q' \<longleftrightarrow> rq_count q' = rq_count q \<and> rq_stolen_file q' = rq_stolen_file q \<and>
     (FR_LOCKED \<in> rq_flags q' \<longleftrightarrow> FR_LOCKED \<in> rq_flags q) \<and>
     (io \<longrightarrow> FR_ABORTED \<in> rq_flags q' \<and> oh_error (out_h (rq_out q')) = - ECONNABORTED)"

lemma same_reqs_rel:
  assumes "abort_req_rel io q q'" and "same_reqs s t" and "reqs s x = Some q'"
  shows "\<exists>q''. reqs t x = Some q'' \<and> abort_req_rel io q q''"
  using assms by (elim same_reqs_Some) (auto simp: abort_req_rel_def)

lemma abort_counted:
  assumes "\<forall>x. reqs t x = (if x \<in> A then map_option abort_mark (reqs s x) else reqs s x)"
  shows "counted t = counted s"
proof (rule set_eqI)
  fix x
  show "x \<in> counted t \<longleftrightarrow> x \<in> counted s"
    using assms by (cases "reqs s x") (simp_all add: counted_def)
qed

lemma abort_dom:
  assumes "\<forall>x. reqs t x = (if x \<in> A then map_option abort_mark (reqs s x) else reqs s x)"
  shows "dom (reqs t) = dom (reqs s)"
proof (rule set_eqI)
  fix x
  show "x \<in> dom (reqs t) \<longleftrightarrow> x \<in> dom (reqs s)"
    using assms by (cases "x \<in> A") (simp_all add: domIff)
qed

lemma abort_collect_spec:
  assumes li: "lists_inv s" and bi: "bg_inv s"
  shows "\<exists>e1 e2 t. abort_collect s = Some (e1, e2, t) \<and> conn_shut t \<and> distinct e1 \<and> distinct e2 \<and>
     set e1 \<inter> set e2 = {} \<and> set e1 = {r \<in> set (all_io s). unlocked s r} \<and>
     set e2 = set (pending (iq s)) \<union> set (bg_queue s) \<union> set (all_processing s) \<and>
     devices t = devices s \<and>
     (\<forall>x q. reqs s x = Some q \<longrightarrow> (\<exists>q'. reqs t x = Some q' \<and> abort_req_rel (x \<in> set (all_io s)) q q'))"
proof -
  let ?s1 = "fuse_set_initialized (s\<lparr>connected := False, blocked := False\<rparr>)"
  let ?lists = "concat (map (dev_list s) (devices s))"
  have dl: "dev_list ?s1 = dev_list s" "dev_io ?s1 = dev_io s" "dev_processing ?s1 = dev_processing s"
      "unlocked ?s1 = unlocked s"
    by (simp_all add: fun_eq_iff dev_list_def dev_io_def dev_processing_def unlocked_def fuse_set_initialized_def)
  have one: "devices ?s1 = devices s" "reqs ?s1 = reqs s" "devs ?s1 = devs s" "iq ?s1 = iq s"
      "bg_queue ?s1 = bg_queue s"
    by (simp_all add: fuse_set_initialized_def)
  have dist: "distinct (pending (iq s) @ bg_queue s @ ?lists)" and live: "set ?lists \<subseteq> dom (reqs s)"
    using li by (simp_all add: lists_inv_def)
  have "\<exists>e1' e2' s'. abort_devs (devices s) [] [] ?s1 = Some (e1', e2', s') \<and>
      abort_devs_post (devices s) ?s1 [] [] e1' e2' s'"
    by (rule abort_devs_all) (use li dist in \<open>auto simp: lists_inv_def dl one\<close>)
  then obtain e1 e2 s2 where ad: "abort_devs (devices s) [] [] ?s1 = Some (e1, e2, s2)"
      and post: "abort_devs_post (devices s) ?s1 [] [] e1 e2 s2" by blast
  note p = post [unfolded abort_devs_post_def Let_def dl one]
  have e1: "set e1 = {r \<in> set (all_io s). unlocked s r}" and e2: "set e2 = set (all_processing s)"
    using p by (simp_all add: all_io_def all_processing_def)
  have de: "distinct (e1 @ e2)" and st: "s2 = ?s1\<lparr>reqs := reqs s2, devs := devs s2\<rparr>"
    using p by blast+
  have rq2: "\<forall>x. reqs s2 x = (if x \<in> set (all_io s) then map_option abort_mark (reqs s x) else reqs s x)"
    using p by (simp add: all_io_def)
  have dv2: "\<forall>d \<in> set (devices s). \<exists>dev. devs s2 d = Some dev \<and> \<not> pq_connected (dev_pq dev) \<and> processing (dev_pq dev) = []"
    using p by blast
  obtain R D where sRD: "s2 = ?s1\<lparr>reqs := R, devs := D\<rparr>" using st by blast
  have f2: "pending (iq s2) = pending (iq s)" "bg_queue s2 = bg_queue s" "devices s2 = devices s"
      "connected s2 = False" "blocked s2 = False" "num_background s2 = num_background s"
      "active_background s2 = active_background s"
    unfolding sRD by (simp_all add: fuse_set_initialized_def)
  let ?s2 = "s2\<lparr>max_background := - 1\<rparr>"
  have "bg_inv ?s2"
    by (rule bg_inv_cong [OF bi])
      (use bi abort_dom [OF rq2] abort_counted [OF rq2] in \<open>simp_all add: f2 bg_inv_def counted_def\<close>)
  moreover have "set (bg_queue ?s2) \<inter> set (pending (iq ?s2)) = {}" using dist f2 by auto
  ultimately obtain s3 where fl: "flush_bg_queue ?s2 = Some s3" and bg3: "bg_queue s3 = []"
      and pd3: "pending (iq s3) = pending (iq s) @ bg_queue s"
    using flush_unlimited [of ?s2] f2 by auto
  let ?e2 = "pending (iq s3) @ e2"
  let ?s4 = "clear_pending ?e2 (s3\<lparr>iq := (iq s3)\<lparr>iq_connected := False, pending := []\<rparr>\<rparr>)"
  let ?t = "emit Wake_all_blocked (emit Wake_polls (emit Kill_fasync (emit Wake_all_readers (drop_forgets ?s4))))"
  have run: "abort_collect s = Some (e1, ?e2, ?t)"
    using ad fl by (simp add: abort_collect_def one Let_def)
  have devt: "devs ?t = devs s3" "devices ?t = devices s"
    using flush_frame(13) [OF fl] f2 by simp_all
  have dvt: "\<exists>dev. devs ?t d = Some dev \<and> \<not> pq_connected (dev_pq dev) \<and> processing (dev_pq dev) = []"
    if d: "d \<in> set (devices s)" for d
  proof -
    obtain dev where dev: "devs ?s2 d = Some dev" "\<not> pq_connected (dev_pq dev)" "processing (dev_pq dev) = []"
      using dv2 d by auto
    then obtain dev' where "devs s3 d = Some dev'" "pq_connected (dev_pq dev') = pq_connected (dev_pq dev)"
        "set (processing (dev_pq dev')) \<subseteq> set (processing (dev_pq dev))"
      using flush_dev_shrink [OF fl] unfolding dev_shrink_def by blast
    then show ?thesis using dev devt(1) by simp
  qed
  have "conn_shut ?t"
    using dvt devt flush_frame(3,4) [OF fl] f2 bg3 by (simp add: conn_shut_def)
  moreover have "distinct ?e2" "set e1 \<inter> set ?e2 = {}"
    using dist de e1 e2 pd3
    by (auto simp: all_io_def all_processing_def dev_list_split)
  moreover have "set ?e2 = set (pending (iq s)) \<union> set (bg_queue s) \<union> set (all_processing s)"
    using e2 pd3 by auto
  moreover have "\<exists>q'. reqs ?t x = Some q' \<and> abort_req_rel (x \<in> set (all_io s)) q q'"
    if q: "reqs s x = Some q" for x q
  proof -
    let ?m = "if x \<in> set (all_io s) then abort_mark q else q"
    have "reqs ?s2 x = Some ?m" using rq2 q by simp
    moreover have "abort_req_rel (x \<in> set (all_io s)) q ?m" by (simp add: abort_req_rel_def)
    ultimately obtain q3 where q3: "reqs s3 x = Some q3" "abort_req_rel (x \<in> set (all_io s)) q q3"
      using same_reqs_rel [OF _ flush_same_reqs [OF fl]] by blast
    then show ?thesis by (auto simp: clear_pending_reqs abort_req_rel_def)
  qed
  ultimately show ?thesis
    using run e1 de devt(2) by (intro exI [of _ e1] exI [of _ ?e2] exI [of _ ?t]) simp
qed

text \<open>The loops that follow the critical section.\<close>

lemma abort_conn_ends:
  assumes conn: "connected s" and li: "lists_inv s" and bi: "bg_inv s"
    and refs: "\<forall>r \<in> listed s. \<forall>q. reqs s r = Some q \<longrightarrow> 1 \<le> rq_count q \<and> droppable q"
  shows "\<exists>s'. fuse_abort_conn s = Some s' \<and> conn_shut s' \<and>
     (\<forall>r \<in> listed s. ended s' r \<or>
        (r \<in> set (all_io s) \<and> \<not> unlocked s r \<and> (\<exists>q. reqs s' r = Some q \<and> FR_ABORTED \<in> rq_flags q)))"
proof -
  from abort_collect_spec [OF li bi] obtain e1 e2 t where col: "abort_collect s = Some (e1, e2, t)"
      and shut: "conn_shut t" and d1: "distinct e1" and d2: "distinct e2" and d12: "set e1 \<inter> set e2 = {}"
      and e1: "set e1 = {r \<in> set (all_io s). unlocked s r}"
      and e2: "set e2 = set (pending (iq s)) \<union> set (bg_queue s) \<union> set (all_processing s)"
      and rel: "\<And>x q. reqs s x = Some q \<Longrightarrow> \<exists>q'. reqs t x = Some q' \<and> abort_req_rel (x \<in> set (all_io s)) q q'"
    by blast
  have live: "\<exists>q. reqs s r = Some q" if "r \<in> listed s" for r
    using li that unfolding lists_inv_def listed_alt by blast
  have sub: "set e1 \<subseteq> listed s" "set e2 \<subseteq> listed s" using e1 e2 by (auto simp: listed_def)
  have r1: "\<forall>r \<in> set e1. \<exists>q. reqs t r = Some q \<and> rq_count q \<noteq> 0 \<and> oh_error (out_h (rq_out q)) \<noteq> 0"
  proof
    fix r assume r: "r \<in> set e1"
    then obtain q where q: "reqs s r = Some q" using live sub by blast
    from rel [OF q] obtain q' where "reqs t r = Some q'" "abort_req_rel (r \<in> set (all_io s)) q q'" by blast
    moreover have "r \<in> set (all_io s)" "1 \<le> rq_count q" using r e1 refs q sub by auto
    ultimately show "\<exists>q. reqs t r = Some q \<and> rq_count q \<noteq> 0 \<and> oh_error (out_h (rq_out q)) \<noteq> 0"
      by (auto simp: abort_req_rel_def ECONNABORTED_def)
  qed
  have bg: "bg_queue t = []" using shut by (simp add: conn_shut_def)
  from abort_end1_all [OF d1 bg r1] obtain u where u: "abort_end1 e1 t = Some u"
      "\<forall>r \<in> set e1. ended u r" "quiet_frame (set e1) t u" by blast
  have r2: "\<forall>r \<in> set e2. \<exists>q. reqs u r = Some q \<and> droppable q"
  proof
    fix r assume r: "r \<in> set e2"
    then obtain q where q: "reqs s r = Some q" using live sub by blast
    from rel [OF q] obtain q' where q': "reqs t r = Some q'" "abort_req_rel (r \<in> set (all_io s)) q q'" by blast
    have "reqs u r = reqs t r" using u(3) d12 r by (auto simp: quiet_frame_def)
    moreover have "droppable q" using refs q r sub by blast
    ultimately show "\<exists>q. reqs u r = Some q \<and> droppable q"
      using q' by (simp add: abort_req_rel_def droppable_def)
  qed
  have "bg_queue u = []" using u(3) by (simp add: quiet_frame_def)
  from end_requests_all [OF d2 r2 this] obtain s' where s': "end_requests e2 u = Some s'"
      "\<forall>r \<in> set e2. ended s' r" "quiet_frame (set e2) u s'" by blast
  have run: "fuse_abort_conn s = Some s'" using conn col u(1) s'(1) by (simp add: fuse_abort_conn_def)
  have "conn_shut s'" using shut u(3) s'(3) conn_shut_quiet by blast
  moreover have "ended s' r \<or> (r \<in> set (all_io s) \<and> \<not> unlocked s r \<and>
      (\<exists>q. reqs s' r = Some q \<and> FR_ABORTED \<in> rq_flags q))" if r: "r \<in> listed s" for r
  proof -
    consider "r \<in> set e2" | "r \<in> set e1" | "r \<in> set (all_io s)" "\<not> unlocked s r" "r \<notin> set e1" "r \<notin> set e2"
      using r e1 e2 by (auto simp: listed_def)
    then show ?thesis
    proof cases
      case 1
      then show ?thesis using s'(2) by blast
    next
      case 2
      then have "ended u r" "r \<notin> set e2" using u(2) d12 by blast+
      then show ?thesis using ended_frame [OF _ s'(3)] by blast
    next
      case 3
      obtain q where q: "reqs s r = Some q" using live r by blast
      from rel [OF q] obtain q' where "reqs t r = Some q'" "abort_req_rel (r \<in> set (all_io s)) q q'" by blast
      moreover have "reqs s' r = reqs t r" using 3 u(3) s'(3) by (simp add: quiet_frame_def)
      ultimately show ?thesis using 3 by (auto simp: abort_req_rel_def)
    qed
  qed
  ultimately show ?thesis using run by blast
qed

subsection \<open>References to the connection\<close>

definition conn_same :: "fuse_state \<Rightarrow> fuse_state \<Rightarrow> bool" where
  "conn_same s s' \<longleftrightarrow> devices s' = devices s \<and> dev_count s' = dev_count s \<and> fc_count s' = fc_count s \<and>
     (\<forall>d. devs s' d = None \<longleftrightarrow> devs s d = None)"

lemma conn_same_refl [simp]: "conn_same s s"
  by (simp add: conn_same_def)

lemma conn_same_trans: "conn_same s t \<Longrightarrow> conn_same t u \<Longrightarrow> conn_same s u"
  by (simp add: conn_same_def)

lemma conn_same_updates [simp]:
  "conn_same s (upd_req r f s)" "conn_same s (list_del r s)" "conn_same s (emit e s)"
  "conn_same s (upd_dev d g s)" "conn_same s (end_mark s r q)" "conn_same s (end_counts r s)"
  "conn_same s (flush_bg_one r s)" "conn_same s (drop_forgets s)" "conn_same s (clear_pending rs s)"
  by (simp_all add: conn_same_def end_mark_def Let_def)

lemma flush_conn_same: "flush_bg_queue s = Some s' \<Longrightarrow> conn_same s s'"
proof (induction rule: flush_induct)
  case (stop s)
  show ?case by simp
next
  case (iterate s s' r rest)
  have "conn_same s (flush_bg_one r s)" by simp
  then show ?case using iterate.IH conn_same_trans by blast
qed

lemma run_end_conn_same: "run_end e r q s = Some s' \<Longrightarrow> conn_same s s'"
  by (auto simp: run_end_def process_init_reply_def fuse_set_initialized_def conn_same_def split: if_split_asm)

lemma request_end_conn_same:
  assumes "request_end s r = Some s'"
  shows "conn_same s s'"
proof -
  from assms obtain q where q: "reqs s r = Some q" by (auto simp: request_end_def elim: bind_Some_E)
  show ?thesis
  proof (cases "FR_FINISHED \<in> rq_flags q")
    case True
    then show ?thesis using assms request_end_finished [OF q] by simp
  next
    case False
    from assms q False obtain s4 s6 where bg: "end_counters s r q = Some s4"
        and cb: "end_callback s4 r q = Some s6" and put: "fuse_put_request s6 r = Some s'"
      by (rule request_end_elim)
    have "conn_same s s4"
    proof (cases "FR_BACKGROUND \<in> rq_flags q")
      case True
      then have "conn_same (end_counts r (end_mark s r q)) s4"
        using bg flush_conn_same by (simp add: end_counters_def end_background_def)
      moreover have "conn_same s (end_counts r (end_mark s r q))"
        using conn_same_trans [OF conn_same_updates(5,6)] .
      ultimately show ?thesis using conn_same_trans by blast
    next
      case False
      then have "s4 = end_mark s r q" using bg by (simp add: end_counters_def)
      then show ?thesis by simp
    qed
    moreover have "conn_same s4 s6"
    proof (cases "rq_end q")
      case None
      then show ?thesis using cb by (auto simp: end_callback_def)
    next
      case (Some e)
      then have "conn_same (emit (Wake_req r) s4) s6" using cb run_end_conn_same by (simp add: end_callback_def)
      then show ?thesis using conn_same_trans [OF conn_same_updates(3)] by blast
    qed
    moreover have "conn_same s6 s'" using fuse_put_request_frame [OF put] by (simp add: conn_same_def)
    ultimately show ?thesis using conn_same_trans by blast
  qed
qed

lemma end_requests_conn_same: "end_requests rs s = Some s' \<Longrightarrow> conn_same s s'"
proof (induction rs arbitrary: s)
  case (Cons r rs)
  let ?t = "list_del r (upd_req r (\<lambda>q. clear_flag FR_SENT (set_out_error (- ECONNABORTED) q)) s)"
  from Cons.prems obtain s1 where s1: "request_end ?t r = Some s1" "end_requests rs s1 = Some s'"
    by (auto split: if_split_asm elim: bind_Some_E)
  have "conn_same s ?t" by (simp add: conn_same_def)
  then show ?case using request_end_conn_same [OF s1(1)] Cons.IH [OF s1(2)] conn_same_trans by blast
qed simp

lemma abort_end1_conn_same: "abort_end1 rs s = Some s' \<Longrightarrow> conn_same s s'"
proof (induction rs arbitrary: s)
  case (Cons r rs)
  from Cons.prems obtain s0 s1 where s1: "get_request s r = Some s0" "request_end (list_del r s0) r = Some s1"
      "abort_end1 rs s1 = Some s'"
    unfolding abort_end1.simps by (elim bind_Some_E) blast
  have "conn_same s (list_del r s0)"
    using s1(1) by (auto simp: get_request_def conn_same_def split: option.split_asm)
  then show ?case using request_end_conn_same [OF s1(2)] Cons.IH [OF s1(3)] conn_same_trans by blast
qed simp

lemma abort_io_conn_same: "abort_io rs e1 s = Some (e1', s') \<Longrightarrow> conn_same s s'"
proof (induction rs arbitrary: e1 s)
  case (Cons r rs)
  from Cons.prems show ?case
  proof (cases rule: abort_io_Cons)
    case (1 q)
    show ?thesis using Cons.IH [OF 1(3)] by (simp add: conn_same_def)
  next
    case (2 q)
    show ?thesis using Cons.IH [OF 2(3)] by (simp add: conn_same_def)
  qed
qed simp

lemma abort_devs_conn_same: "abort_devs ds e1 e2 s = Some (e1', e2', s') \<Longrightarrow> conn_same s s'"
proof (induction ds arbitrary: e1 e2 s)
  case (Cons d ds)
  from Cons.prems obtain dev where dev: "devs s d = Some dev" by (auto split: option.split_asm)
  with Cons.prems obtain e s1 where io: "abort_io (io_list (dev_pq dev)) e1 (upd_dev d pq_disconnect s) = Some (e, s1)"
    by (auto split: option.split_asm)
  with Cons.prems dev obtain dev1 where dev1: "devs s1 d = Some dev1" by (auto split: option.split_asm)
  have ds: "abort_devs ds e (processing (dev_pq dev1) @ e2) (upd_dev d pq_drop_processing s1) = Some (e1', e2', s')"
    using Cons.prems dev io dev1 by simp
  have "conn_same s s1" using conn_same_trans [OF conn_same_updates(4) abort_io_conn_same [OF io]] .
  then have "conn_same s (upd_dev d pq_drop_processing s1)"
    using conn_same_trans conn_same_updates(4) by blast
  then show ?case using Cons.IH [OF ds] by (rule conn_same_trans)
qed simp

lemma abort_collect_conn_same:
  assumes "abort_collect s = Some (e1, e2, t)"
  shows "conn_same s t"
proof -
  let ?s1 = "fuse_set_initialized (s\<lparr>connected := False, blocked := False\<rparr>)"
  obtain e2' s2 s3 where ad: "abort_devs (devices ?s1) [] [] ?s1 = Some (e1, e2', s2)"
      and fl: "flush_bg_queue (s2\<lparr>max_background := - 1\<rparr>) = Some s3"
      and t: "t = emit Wake_all_blocked (emit Wake_polls (emit Kill_fasync (emit Wake_all_readers
        (drop_forgets (clear_pending (pending (iq s3) @ e2')
          (s3\<lparr>iq := (iq s3)\<lparr>iq_connected := False, pending := []\<rparr>\<rparr>))))))"
    using assms by (auto simp: abort_collect_def Let_def elim!: bind_Some_E)
  have "conn_same s ?s1" by (simp add: conn_same_def fuse_set_initialized_def)
  moreover have "conn_same ?s1 s2" using ad by (rule abort_devs_conn_same)
  moreover have "conn_same s2 s3" using flush_conn_same [OF fl] by (simp add: conn_same_def)
  moreover have "conn_same s3 t" by (simp add: t conn_same_def)
  ultimately show ?thesis using conn_same_trans by blast
qed

lemma abort_conn_same: "fuse_abort_conn s = Some s' \<Longrightarrow> conn_same s s'"
proof (cases "connected s")
  case True
  assume "fuse_abort_conn s = Some s'"
  with True obtain e1 e2 s1 s2 where "abort_collect s = Some (e1, e2, s1)" "abort_end1 e1 s1 = Some s2"
      "end_requests e2 s2 = Some s'"
    by (auto simp: fuse_abort_conn_def elim!: bind_Some_E)
  then show ?thesis
    by (meson abort_collect_conn_same abort_end1_conn_same end_requests_conn_same conn_same_trans)
qed (simp add: fuse_abort_conn_def)

lemma length_without_distinct:
  "distinct xs \<Longrightarrow> x \<in> set xs \<Longrightarrow> length xs = Suc (length (without x xs))"
  by (induction xs) auto

lemma fuse_conn_put_fields:
  assumes "fuse_conn_put s = Some s'"
  shows "fc_count s' = fc_count s - 1" and "devices s' = devices s" and "devs s' = devs s"
    and "dev_count s' = dev_count s" and "Free_conn \<in> set (events s') \<longleftrightarrow> fc_count s = 1 \<or> Free_conn \<in> set (events s)"
proof -
  have "fc_count s' = fc_count s - 1 \<and> devices s' = devices s \<and> devs s' = devs s \<and> dev_count s' = dev_count s \<and>
      (Free_conn \<in> set (events s') \<longleftrightarrow> fc_count s = 1 \<or> Free_conn \<in> set (events s))"
  proof (cases "fc_count s = 1")
    case False
    then show ?thesis using assms by (simp add: fuse_conn_put_def Let_def) auto
  next
    case True
    then obtain t where "s' = fuse_free_conn t" "fc_count t = 0" "devices t = devices s" "devs t = devs s"
        "dev_count t = dev_count s"
      using assms
      by (cases "destroy_req s") (auto simp: fuse_conn_put_def fuse_request_free_def Let_def split: option.split_asm)
    with True show ?thesis by (simp add: fuse_free_conn_def emit_def)
  qed
  then show "fc_count s' = fc_count s - 1" "devices s' = devices s" "devs s' = devs s" "dev_count s' = dev_count s"
      "Free_conn \<in> set (events s') \<longleftrightarrow> fc_count s = 1 \<or> Free_conn \<in> set (events s)"
    by blast+
qed

subsection \<open>Properties\<close>

text \<open>
  C1: aborting a connection completes and shuts it: no list keeps a request, every device is
  disconnected, and every request that was queued anywhere is finished or freed, except the ones a
  reader or writer of the device has locked, which are marked as aborted.
\<close>

theorem abort_ends_all:
  assumes "connected s" and "lists_inv s" and "bg_inv s"
    and "\<forall>r \<in> listed s. \<forall>q. reqs s r = Some q \<longrightarrow> 1 \<le> rq_count q \<and> droppable q"
  shows "\<exists>s'. fuse_abort_conn s = Some s' \<and> \<not> connected s' \<and> \<not> blocked s' \<and> \<not> iq_connected (iq s') \<and>
     pending (iq s') = [] \<and> forget_list (iq s') = [] \<and> bg_queue s' = [] \<and>
     (\<forall>d \<in> set (devices s'). \<exists>dev. devs s' d = Some dev \<and> \<not> pq_connected (dev_pq dev) \<and>
        processing (dev_pq dev) = []) \<and>
     (\<forall>r \<in> listed s. ended s' r \<or>
        (r \<in> set (all_io s) \<and> \<not> unlocked s r \<and> (\<exists>q. reqs s' r = Some q \<and> FR_ABORTED \<in> rq_flags q)))"
  using abort_conn_ends [OF assms] unfolding conn_shut_def by blast

definition example_aborting :: fuse_state where
  "example_aborting = (with_reqs [(1, req_with {FR_PENDING, FR_ISREPLY, FR_WAITING}),
       (2, req_with {FR_SENT, FR_ISREPLY}), (3, req_with {FR_LOCKED, FR_ISREPLY}), (4, req_with {FR_ISREPLY})]
       example_conn)
     \<lparr>iq := fuse_iqueue_init\<lparr>pending := [1]\<rparr>,
      devs := (\<lambda>_. None)(100 \<mapsto> \<lparr>dev_pq = fuse_pqueue_init\<lparr>processing := [2], io_list := [3, 4]\<rparr>\<rparr>)\<rparr>"

lemmas example_aborting_defs = example_aborting_def example_defs

lemma abort_ends_all_witness:
  "\<exists>s'. fuse_abort_conn example_aborting = Some s' \<and> \<not> connected s' \<and> pending (iq s') = [] \<and>
     ended s' 1 \<and> ended s' 2 \<and> (ended s' 4 \<or> \<not> unlocked example_aborting 4) \<and>
     (ended s' 3 \<or> (\<exists>q. reqs s' 3 = Some q \<and> FR_ABORTED \<in> rq_flags q))"
proof -
  have io: "set (all_io example_aborting) = {3, 4}" and l: "listed example_aborting = {1, 2, 3, 4}"
    by (auto simp: listed_def all_io_def all_processing_def dev_io_def dev_processing_def example_aborting_defs)
  have "connected example_aborting" by (simp add: example_aborting_defs)
  moreover have "lists_inv example_aborting"
    by (auto simp: lists_inv_def dev_list_def example_aborting_defs)
  moreover have "bg_inv example_aborting" by (auto simp: bg_inv_def counted_def example_aborting_defs)
  moreover have "\<forall>r \<in> listed example_aborting. \<forall>q. reqs example_aborting r = Some q \<longrightarrow>
      1 \<le> rq_count q \<and> droppable q"
    unfolding l by (auto simp: droppable_def example_aborting_defs)
  ultimately show ?thesis
    using abort_ends_all [of example_aborting] unfolding l io by auto
qed

text \<open>
  Closing a device file drops exactly the references it holds: afterwards the device is gone, the
  connection has one reference less, \<open>dev_count\<close> is again the number of devices, and the last
  reference is the one of the superblock (\<open>k\<close>), so that a mounted connection survives.
\<close>

theorem dev_release_refs:
  assumes "fc_count s = k + int (length (devices s))" and "dev_count s = int (length (devices s))"
    and "distinct (devices s)" and "d \<in> set (devices s)"
    and "fuse_dev_release (Some d) s = Some s'"
  shows "fc_count s' = k + int (length (devices s')) \<and> dev_count s' = int (length (devices s')) \<and>
     devices s' = without d (devices s) \<and> devs s' d = None \<and>
     (k + int (length (devices s')) = 0 \<longrightarrow> Free_conn \<in> set (events s'))"
proof -
  from assms(5) obtain dev s2 s4 where dev: "devs s d = Some dev"
    and er: "end_requests (processing (dev_pq dev)) (if io_list (dev_pq dev) \<noteq> [] then emit Warn s else s) = Some s2"
    and ab: "(if dev_count s2 = 1 then fuse_abort_conn (s2\<lparr>dev_count := dev_count s2 - 1\<rparr>)
        else Some (s2\<lparr>dev_count := dev_count s2 - 1\<rparr>)) = Some s4"
    and fr: "fuse_dev_free d s4 = Some s'"
    by (auto simp: fuse_dev_release_def Let_def elim!: bind_Some_E)
  have "conn_same s s2"
    using end_requests_conn_same [OF er] conn_same_trans [OF conn_same_updates(3)] by (auto split: if_split_asm)
  moreover have "conn_same (s2\<lparr>dev_count := dev_count s2 - 1\<rparr>) s4"
    using ab abort_conn_same by (auto split: if_split_asm)
  ultimately have s4: "devices s4 = devices s" "dev_count s4 = dev_count s - 1" "fc_count s4 = fc_count s"
    by (auto simp: conn_same_def)
  from fr obtain s5 where s5: "fuse_conn_put (s4\<lparr>devices := without d (devices s4)\<rparr>) = Some s5"
      and s': "s' = s5\<lparr>devs := (devs s5)(d := None)\<rparr>"
    by (auto simp: fuse_dev_free_def split: if_split_asm)
  note put = fuse_conn_put_fields [OF s5]
  have len: "length (devices s) = Suc (length (without d (devices s)))"
    using assms(3,4) by (rule length_without_distinct)
  show ?thesis
    using put s4 assms(1,2) len by (simp add: s')
qed

lemma dev_release_refs_witness:
  "\<exists>s'. fuse_dev_release (Some 100) (example_conn\<lparr>fc_count := 2\<rparr>) = Some s' \<and>
     fc_count s' = 1 \<and> dev_count s' = 0 \<and> devices s' = []"
proof -
  let ?s = "example_conn\<lparr>fc_count := 2\<rparr>"
  have "\<exists>s'. fuse_dev_release (Some 100) ?s = Some s'"
    by (simp add: fuse_dev_release_def example_defs fuse_abort_conn_def abort_collect_def Let_def
        fuse_set_initialized_def flush_stop upd_dev_def drop_forgets_def clear_pending_def emit_def
        fuse_dev_free_def fuse_conn_put_def pq_disconnect_def pq_drop_processing_def)
  then obtain s' where run: "fuse_dev_release (Some 100) ?s = Some s'" by blast
  have "devices ?s = [100]" "fc_count ?s = 2" "dev_count ?s = 1" by (simp_all add: example_defs)
  with dev_release_refs [of ?s 1 100 s'] run show ?thesis by simp
qed

text \<open>
  C20: a request that a reader had unlocked when the connection was aborted leaks: \<open>fuse_abort_conn\<close>
  takes a reference for the end it causes, and the reader's own \<open>request_end\<close> finds the request
  finished and returns without dropping one, so that after both the count is what it was.
\<close>

theorem aborted_request_leaks:
  assumes "reqs s r = Some q" and "FR_FINISHED \<notin> rq_flags q" and "FR_PRIVATE \<in> rq_flags q"
    and "FR_ABORTED \<in> rq_flags q" and "1 \<le> rq_count q" and "oh_error (out_h (rq_out q)) = - ECONNABORTED"
    and "bg_queue s = []" and "devs s d = Some dev" and "\<not> pq_connected (dev_pq dev)"
  shows "\<exists>s1 s2 q2. abort_end1 [r] s = Some s1 \<and> do_read_end d r n (- ENOENT) s1 = Some (- ENODEV, s2) \<and>
     reqs s2 r = Some q2 \<and> FR_FINISHED \<in> rq_flags q2 \<and> rq_count q2 = rq_count q"
proof -
  let ?q1 = "q\<lparr>rq_count := rq_count q + 1\<rparr>"
  let ?s0 = "list_del r (upd_req r (rq_count_update (\<lambda>n. n + 1)) s)"
  have q1: "reqs ?s0 r = Some ?q1" "FR_FINISHED \<notin> rq_flags ?q1" using assms(1,2) by simp_all
  obtain s1 q2 where s1: "request_end ?s0 r = Some s1" "reqs s1 r = Some q2" "FR_FINISHED \<in> rq_flags q2"
      "FR_PRIVATE \<in> rq_flags q2" "rq_count q2 = rq_count q" "devs s1 = devs ?s0"
    using request_end_shared [OF q1] assms(3-7) by (auto simp: ECONNABORTED_def)
  obtain dev1 where "devs s1 d = Some dev1" "\<not> pq_connected (dev_pq dev1)"
    using s1(6) assms(8,9) by simp
  then have "\<exists>s2 q3. do_read_end d r n (- ENOENT) s1 = Some (- ENODEV, s2) \<and> reqs s2 r = Some q3 \<and>
      FR_FINISHED \<in> rq_flags q3 \<and> rq_count q3 = rq_count q2"
    using s1(2-4) by (simp add: do_read_end_def do_read_out_end_def Let_def request_end_def)
  moreover have "abort_end1 [r] s = Some s1" using assms(1) s1(1) by (simp add: get_request_def)
  ultimately show ?thesis using s1(5) by simp
qed

definition example_leaking :: fuse_state where
  "example_leaking = (with_reqs [(4, set_out_error (- ECONNABORTED) (req_with {FR_PRIVATE, FR_ABORTED, FR_ISREPLY}))]
       example_conn)
     \<lparr>devs := (\<lambda>_. None)(100 \<mapsto> \<lparr>dev_pq = fuse_pqueue_init\<lparr>pq_connected := False\<rparr>\<rparr>)\<rparr>"

lemma aborted_request_leaks_witness:
  "\<exists>s1 s2 q2. abort_end1 [4] example_leaking = Some s1 \<and>
     do_read_end 100 4 64 (- ENOENT) s1 = Some (- ENODEV, s2) \<and>
     reqs s2 4 = Some q2 \<and> FR_FINISHED \<in> rq_flags q2 \<and> rq_count q2 = 1"
  using aborted_request_leaks [of example_leaking 4
      "set_out_error (- ECONNABORTED) (req_with {FR_PRIVATE, FR_ABORTED, FR_ISREPLY})" 100
      "\<lparr>dev_pq = fuse_pqueue_init\<lparr>pq_connected := False\<rparr>\<rparr>" 64]
  by (simp add: example_leaking_def example_defs)

end
