(* ===== verification/Fuse_Inode.thy ===== *)
theory Fuse_Inode
  imports Fuse_Abort
begin

text \<open>
  Inodes (\<open>inode.c\<close>): allocation and destruction of \<open>struct fuse_inode\<close>, the attributes a reply of the
  server carries and their versions, \<open>fuse_iget\<close> and \<open>fuse_evict_inode\<close> with the lookup counts the
  server keeps, and the invalidation of an inode by the server.

  \<^item> \<open>fuse_inode\<close> is \<open>struct fuse_inode\<close> with the fields of the embedded \<open>struct inode\<close> the module uses.
  \<^item> \<open>fuse_sb\<close> is a mounted file system: its connection, the store of inodes, and the inode hash of
    the VFS (which holds at most one hashed inode of a node id). \<open>iget5_locked\<close>, \<open>ilookup5\<close>, \<open>iput\<close> and
    \<open>make_bad_inode\<close> act on the hash and on \<open>i_count\<close> as documented in the VFS.
  \<^item> What the module asks of the page cache and of the ACL cache is recorded in \<open>vfs_calls\<close>.
\<close>

unbundle bit_operations_syntax

subsection \<open>Data\<close>

type_synonym umode = "16 word"

definition S_IFMT :: umode where "S_IFMT = 0xF000"
definition S_IFSOCK :: umode where "S_IFSOCK = 0xC000"
definition S_IFLNK :: umode where "S_IFLNK = 0xA000"
definition S_IFREG :: umode where "S_IFREG = 0x8000"
definition S_IFBLK :: umode where "S_IFBLK = 0x6000"
definition S_IFDIR :: umode where "S_IFDIR = 0x4000"
definition S_IFCHR :: umode where "S_IFCHR = 0x2000"
definition S_IFIFO :: umode where "S_IFIFO = 0x1000"
definition S_ISVTX :: umode where "S_ISVTX = 0x0200"
definition S_PERM :: umode where "S_PERM = 0x0FFF"

lemmas mode_defs = S_IFMT_def S_IFSOCK_def S_IFLNK_def S_IFREG_def S_IFBLK_def S_IFDIR_def S_IFCHR_def
  S_IFIFO_def S_ISVTX_def S_PERM_def

definition S_ISREG :: "umode \<Rightarrow> bool" where "S_ISREG m \<longleftrightarrow> m AND S_IFMT = S_IFREG"
definition S_ISDIR :: "umode \<Rightarrow> bool" where "S_ISDIR m \<longleftrightarrow> m AND S_IFMT = S_IFDIR"
definition S_ISLNK :: "umode \<Rightarrow> bool" where "S_ISLNK m \<longleftrightarrow> m AND S_IFMT = S_IFLNK"

definition S_ISSPECIAL :: "umode \<Rightarrow> bool" where
  "S_ISSPECIAL m \<longleftrightarrow> m AND S_IFMT = S_IFCHR \<or> m AND S_IFMT = S_IFBLK \<or> m AND S_IFMT = S_IFIFO \<or>
     m AND S_IFMT = S_IFSOCK"

definition fuse_valid_type :: "umode \<Rightarrow> bool" where
  "fuse_valid_type m \<longleftrightarrow> S_ISREG m \<or> S_ISDIR m \<or> S_ISLNK m \<or> S_ISSPECIAL m"

record timespec =
  tv_sec :: u64
  tv_nsec :: u32

record fuse_attr =
  at_ino :: u64
  at_size :: u64
  at_blocks :: u64
  at_atime :: timespec
  at_mtime :: timespec
  at_ctime :: timespec
  at_mode :: u32
  at_nlink :: u32
  at_uid :: u32
  at_gid :: u32
  at_rdev :: u32
  at_blksize :: u32

definition attr_umode :: "fuse_attr \<Rightarrow> umode" where
  "attr_umode a = ucast (at_mode a)"

datatype inode_flag = S_NOATIME | S_NOCMTIME | S_DEAD

datatype fuse_inode_bit = FUSE_I_ADVISE_RDPLUS | FUSE_I_INIT_RDPLUS | FUSE_I_SIZE_UNSTABLE

text \<open>The operation tables an inode can carry.\<close>

datatype inode_ops = Ops_none | Ops_file | Ops_dir | Ops_symlink | Ops_special u32 | Ops_bad

record fuse_inode =
  i_ino :: u64
  i_mode :: umode
  i_nlink :: u32
  i_uid :: u32
  i_gid :: u32
  i_blocks :: u64
  i_atime :: timespec
  i_mtime :: timespec
  i_ctime :: timespec
  i_blkbits :: nat
  i_size :: u64
  i_generation :: u32
  i_flags :: "inode_flag set"
  i_ops :: inode_ops
  i_count :: nat
  nodeid :: u64
  nlookup :: u64
  fi_forget :: bool
  i_time :: u64
  orig_i_mode :: umode
  orig_ino :: u64
  fi_attr_version :: u64
  write_files :: "ff_id list"
  queued_writes :: "req_id list"
  writectr :: int
  writepages :: "req_id list"
  fi_state :: "fuse_inode_bit set"

datatype vfs_call =
    Truncate_pagecache ino_id u64 | Invalidate_pages2 ino_id | Invalidate_range ino_id u64 u64
  | Forget_acls ino_id | Truncate_final ino_id | Free_inode ino_id
  | Use_direct_io filp_id | Nonseekable filp_id | File_update_time filp_id | Write_inode_now ino_id
  | Mark_dirty_sync ino_id | Shrink_children nat | Dont_mount nat

text \<open>\<open>sizeof_ino_t\<close> is the number of bytes of \<open>ino_t\<close> on the architecture: 4 or 8.\<close>

record fuse_sb =
  conn :: fuse_state
  inodes :: "ino_id \<rightharpoonup> fuse_inode"
  ihash :: "u64 \<rightharpoonup> ino_id"
  next_ino :: ino_id
  s_active :: bool
  s_blocksize_bits :: nat
  sizeof_ino_t :: nat
  vfs_calls :: "vfs_call list"

definition upd_inode :: "ino_id \<Rightarrow> (fuse_inode \<Rightarrow> fuse_inode) \<Rightarrow> fuse_sb \<Rightarrow> fuse_sb" where
  "upd_inode i f sb = sb\<lparr>inodes := (inodes sb)(i := map_option f (inodes sb i))\<rparr>"

definition upd_conn :: "(fuse_state \<Rightarrow> fuse_state) \<Rightarrow> fuse_sb \<Rightarrow> fuse_sb" where
  "upd_conn f sb = sb\<lparr>conn := f (conn sb)\<rparr>"

definition vfs :: "vfs_call \<Rightarrow> fuse_sb \<Rightarrow> fuse_sb" where
  "vfs c sb = sb\<lparr>vfs_calls := c # vfs_calls sb\<rparr>"

subsection \<open>Allocation and destruction\<close>

definition zero_time :: timespec where "zero_time = \<lparr>tv_sec = 0, tv_nsec = 0\<rparr>"

text \<open>
  \<open>fuse_alloc_inode\<close>: the two allocations are the inode and its forget message. The fields of the
  embedded inode are what \<open>inode_init_always\<close> of the VFS sets.
\<close>

definition new_inode :: fuse_inode where
  "new_inode = \<lparr>i_ino = 0, i_mode = 0, i_nlink = 1, i_uid = 0, i_gid = 0, i_blocks = 0, i_atime = zero_time,
     i_mtime = zero_time, i_ctime = zero_time, i_blkbits = 0, i_size = 0, i_generation = 0, i_flags = {},
     i_ops = Ops_none, i_count = 1, nodeid = 0, nlookup = 0, fi_forget = True, i_time = 0, orig_i_mode = 0,
     orig_ino = 0, fi_attr_version = 0, write_files = [], queued_writes = [], writectr = 0,
     writepages = [], fi_state = {}\<rparr>"

definition fuse_alloc_inode :: "oom \<Rightarrow> fuse_inode option" where
  "fuse_alloc_inode ok = (if ok 0 \<and> ok 1 then Some new_inode else None)"

text \<open>\<open>fuse_destroy_inode\<close>: the two \<open>BUG_ON\<close>s are \<open>None\<close>.\<close>

definition fuse_destroy_inode :: "ino_id \<Rightarrow> fuse_sb \<Rightarrow> fuse_sb option" where
  "fuse_destroy_inode i sb =
     (case inodes sb i of
        None \<Rightarrow> None
      | Some v \<Rightarrow>
          if write_files v \<noteq> [] \<or> queued_writes v \<noteq> [] then None
          else Some (vfs (Free_inode i) (sb\<lparr>inodes := (inodes sb)(i := None)\<rparr>)))"

definition fuse_evict_inode :: "ino_id \<Rightarrow> fuse_sb \<Rightarrow> fuse_sb option" where
  "fuse_evict_inode i sb =
     (case inodes sb i of
        None \<Rightarrow> None
      | Some v \<Rightarrow>
          let sb1 = vfs (Truncate_final i) sb in
          Some (if s_active sb
                then upd_inode i (\<lambda>w. w\<lparr>fi_forget := False\<rparr>)
                       (upd_conn (fuse_queue_forget (nodeid v) (nlookup v)) sb1)
                else sb1))"

text \<open>
  \<open>iput\<close> of the VFS: the last reference evicts the inode at once (\<open>drop_inode\<close> is \<open>generic_delete_inode\<close>),
  takes it out of the hash and destroys it.
\<close>

definition unhash :: "ino_id \<Rightarrow> (u64 \<rightharpoonup> ino_id) \<Rightarrow> (u64 \<rightharpoonup> ino_id)" where
  "unhash i h = (\<lambda>n. if h n = Some i then None else h n)"

definition iput :: "ino_id \<Rightarrow> fuse_sb \<Rightarrow> fuse_sb option" where
  "iput i sb =
     (case inodes sb i of
        None \<Rightarrow> None
      | Some v \<Rightarrow>
          if 1 < i_count v then Some (upd_inode i (\<lambda>w. w\<lparr>i_count := i_count w - 1\<rparr>) sb)
          else do {
            sb1 \<leftarrow> fuse_evict_inode i sb;
            fuse_destroy_inode i (sb1\<lparr>ihash := unhash i (ihash sb1)\<rparr>)})"

subsection \<open>Attributes\<close>

definition fuse_squash_ino :: "nat \<Rightarrow> u64 \<Rightarrow> u64" where
  "fuse_squash_ino sz ino64 =
     (let ino = take_bit (8 * sz) ino64 in
      if sz < 8 then take_bit (8 * sz) (ino XOR drop_bit ((8 - sz) * 8) ino64) else ino)"

fun ilog2 :: "nat \<Rightarrow> nat" where
  "ilog2 n = (if n < 2 then 0 else Suc (ilog2 (n div 2)))"

declare ilog2.simps [simp del]

definition fuse_change_attributes_common :: "ino_id \<Rightarrow> fuse_attr \<Rightarrow> u64 \<Rightarrow> fuse_sb \<Rightarrow> fuse_sb" where
  "fuse_change_attributes_common i attr attr_valid sb =
     (let c = conn sb; ver = attr_version c + 1; wb = Writeback_cache \<in> fc_bits c in
      upd_inode i (\<lambda>v.
          let mode = (i_mode v AND S_IFMT) OR (attr_umode attr AND S_PERM);
              keep = wb \<and> S_ISREG mode
          in v\<lparr>fi_attr_version := ver, i_time := attr_valid,
               i_ino := fuse_squash_ino (sizeof_ino_t sb) (at_ino attr),
               i_nlink := at_nlink attr, i_uid := at_uid attr, i_gid := at_gid attr,
               i_blocks := at_blocks attr, i_atime := at_atime attr,
               i_mtime := (if keep then i_mtime v else at_mtime attr),
               i_ctime := (if keep then i_ctime v else at_ctime attr),
               i_blkbits := (if at_blksize attr \<noteq> 0 then ilog2 (unat (at_blksize attr)) else s_blocksize_bits sb),
               orig_i_mode := mode,
               i_mode := (if Default_permissions \<in> fc_bits c then mode else mode AND NOT S_ISVTX),
               orig_ino := at_ino attr\<rparr>)
        (sb\<lparr>conn := c\<lparr>attr_version := ver\<rparr>\<rparr>))"

text \<open>
  \<open>fuse_change_attributes\<close>: \<open>ver\<close> is the version of the connection when the request for the attributes
  was sent, 0 for attributes that are always taken.
\<close>

definition attr_stale :: "fuse_inode \<Rightarrow> u64 \<Rightarrow> bool" where
  "attr_stale v ver \<longleftrightarrow> (ver \<noteq> 0 \<and> ver < fi_attr_version v) \<or> FUSE_I_SIZE_UNSTABLE \<in> fi_state v"

definition fuse_change_attributes :: "ino_id \<Rightarrow> fuse_attr \<Rightarrow> u64 \<Rightarrow> u64 \<Rightarrow> fuse_sb \<Rightarrow> fuse_sb option" where
  "fuse_change_attributes i attr attr_valid ver sb =
     (case inodes sb i of
        None \<Rightarrow> None
      | Some v \<Rightarrow>
          if attr_stale v ver then Some sb
          else
            let is_wb = Writeback_cache \<in> fc_bits (conn sb);
                reg = S_ISREG (i_mode v);
                sb1 = fuse_change_attributes_common i attr attr_valid sb;
                sb2 = (if \<not> is_wb \<or> \<not> reg then upd_inode i (\<lambda>w. w\<lparr>i_size := at_size attr\<rparr>) sb1 else sb1);
                resized = (i_size v \<noteq> at_size attr);
                inval = resized \<or> (Auto_inval_data \<in> fc_bits (conn sb) \<and> i_mtime v \<noteq> at_mtime attr)
            in Some (if is_wb \<or> \<not> reg then sb2
                     else let sb3 = (if resized then vfs (Truncate_pagecache i (at_size attr)) sb2 else sb2)
                          in if inval then vfs (Invalidate_pages2 i) sb3 else sb3))"

text \<open>\<open>fuse_init_inode\<close>; \<open>None\<close> is the \<open>BUG\<close> for an unknown type.\<close>

definition fuse_init_inode :: "fuse_attr \<Rightarrow> fuse_inode \<Rightarrow> fuse_inode option" where
  "fuse_init_inode attr v =
     (let mode = attr_umode attr AND S_IFMT;
          w = v\<lparr>i_mode := mode, i_size := at_size attr, i_mtime := at_mtime attr, i_ctime := at_ctime attr\<rparr>
      in if S_ISREG mode then Some (w\<lparr>i_ops := Ops_file\<rparr>)
         else if S_ISDIR mode then Some (w\<lparr>i_ops := Ops_dir\<rparr>)
         else if S_ISLNK mode then Some (w\<lparr>i_ops := Ops_symlink\<rparr>)
         else if S_ISSPECIAL mode then Some (w\<lparr>i_ops := Ops_special (at_rdev attr)\<rparr>)
         else None)"

subsection \<open>Looking an inode up\<close>

definition fuse_inode_eq :: "u64 \<Rightarrow> fuse_inode \<Rightarrow> bool" where
  "fuse_inode_eq n v \<longleftrightarrow> nodeid v = n"

text \<open>\<open>ilookup5\<close> and the two outcomes of \<open>iget5_locked\<close>: the hashed inode, referenced once more, or a new one.\<close>

definition ilookup5 :: "u64 \<Rightarrow> fuse_sb \<Rightarrow> (ino_id option \<times> fuse_sb)" where
  "ilookup5 n sb =
     (case ihash sb n of
        None \<Rightarrow> (None, sb)
      | Some i \<Rightarrow> (Some i, upd_inode i (\<lambda>v. v\<lparr>i_count := i_count v + 1\<rparr>) sb))"

definition fuse_inode_set :: "u64 \<Rightarrow> fuse_inode \<Rightarrow> fuse_inode" where
  "fuse_inode_set n v = v\<lparr>nodeid := n\<rparr>"

definition iget5_new :: "oom \<Rightarrow> u64 \<Rightarrow> fuse_sb \<Rightarrow> (ino_id option \<times> fuse_sb)" where
  "iget5_new ok n sb =
     (case fuse_alloc_inode ok of
        None \<Rightarrow> (None, sb)
      | Some v \<Rightarrow> (Some (next_ino sb), sb\<lparr>inodes := (inodes sb)(next_ino sb \<mapsto> fuse_inode_set n v),
          ihash := (ihash sb)(n \<mapsto> next_ino sb), next_ino := Suc (next_ino sb)\<rparr>))"

definition make_bad_inode :: "ino_id \<Rightarrow> fuse_sb \<Rightarrow> fuse_sb" where
  "make_bad_inode i sb =
     upd_inode i (\<lambda>v. v\<lparr>i_mode := S_IFREG, i_ops := Ops_bad\<rparr>) (sb\<lparr>ihash := unhash i (ihash sb)\<rparr>)"

text \<open>
  \<open>fuse_iget\<close> in its parts: the setup of a new inode, the reference of the server's lookup, and the
  function itself. An inode whose type has changed is unhashed, so that the \<open>goto retry\<close> is taken at
  most once and finds no inode.
\<close>

definition iget_setup :: "u32 \<Rightarrow> fuse_attr \<Rightarrow> bool \<Rightarrow> fuse_inode \<Rightarrow> fuse_inode option" where
  "iget_setup generation attr wb v =
     fuse_init_inode attr
       (v\<lparr>i_flags := i_flags v \<union> {S_NOATIME} \<union> (if \<not> wb \<or> \<not> S_ISREG (attr_umode attr) then {S_NOCMTIME} else {}),
          i_generation := generation\<rparr>)"

definition iget_fresh ::
    "oom \<Rightarrow> u64 \<Rightarrow> u32 \<Rightarrow> fuse_attr \<Rightarrow> fuse_sb \<Rightarrow> (ino_id option \<times> fuse_sb) option" where
  "iget_fresh ok n generation attr sb =
     (case iget5_new ok n sb of
        (None, sb1) \<Rightarrow> Some (None, sb1)
      | (Some i, sb1) \<Rightarrow>
          map_option (\<lambda>w. (Some i, sb1\<lparr>inodes := (inodes sb1)(i \<mapsto> w)\<rparr>))
            (Option.bind (inodes sb1 i) (iget_setup generation attr (Writeback_cache \<in> fc_bits (conn sb)))))"

definition iget_find ::
    "oom \<Rightarrow> u64 \<Rightarrow> u32 \<Rightarrow> fuse_attr \<Rightarrow> fuse_sb \<Rightarrow> (ino_id option \<times> fuse_sb) option" where
  "iget_find ok n generation attr sb =
     (case ilookup5 n sb of
        (None, _) \<Rightarrow> iget_fresh ok n generation attr sb
      | (Some i, sb1) \<Rightarrow> do {
          v \<leftarrow> inodes sb1 i;
          if (i_mode v XOR attr_umode attr) AND S_IFMT \<noteq> 0
          then do { sb2 \<leftarrow> iput i (make_bad_inode i sb1); iget_fresh ok n generation attr sb2 }
          else Some (Some i, sb1)})"

definition fuse_iget ::
    "oom \<Rightarrow> u64 \<Rightarrow> u32 \<Rightarrow> fuse_attr \<Rightarrow> u64 \<Rightarrow> u64 \<Rightarrow> fuse_sb \<Rightarrow> (ino_id option \<times> fuse_sb) option" where
  "fuse_iget ok n generation attr attr_valid ver sb = do {
     (found, sb1) \<leftarrow> iget_find ok n generation attr sb;
     (case found of
        None \<Rightarrow> Some (None, sb1)
      | Some i \<Rightarrow> map_option (\<lambda>sb2. (Some i, sb2))
          (fuse_change_attributes i attr attr_valid ver (upd_inode i (\<lambda>v. v\<lparr>nlookup := nlookup v + 1\<rparr>) sb1)))}"

definition fuse_get_root_inode :: "oom \<Rightarrow> u32 \<Rightarrow> fuse_sb \<Rightarrow> (ino_id option \<times> fuse_sb) option" where
  "fuse_get_root_inode ok mode sb =
     fuse_iget ok 1 0 \<lparr>at_ino = 1, at_size = 0, at_blocks = 0, at_atime = zero_time, at_mtime = zero_time,
       at_ctime = zero_time, at_mode = mode, at_nlink = 1, at_uid = 0, at_gid = 0, at_rdev = 0, at_blksize = 0\<rparr>
       0 0 sb"

subsection \<open>Invalidation by the server\<close>

definition fuse_invalidate_attr :: "ino_id \<Rightarrow> fuse_sb \<Rightarrow> fuse_sb" where
  "fuse_invalidate_attr i sb = upd_inode i (\<lambda>v. v\<lparr>i_time := 0\<rparr>) sb"

text \<open>The range of pages: \<open>offset\<close> and \<open>len\<close> are signed, and \<open>-1\<close> is the last page there can be.\<close>

definition inval_range :: "u64 \<Rightarrow> u64 \<Rightarrow> u64 \<times> u64" where
  "inval_range offset len =
     (signed_drop_bit PAGE_SHIFT offset,
      if len \<le>s 0 then - 1 else signed_drop_bit PAGE_SHIFT (offset + len - 1))"

definition fuse_reverse_inval_inode :: "u64 \<Rightarrow> u64 \<Rightarrow> u64 \<Rightarrow> fuse_sb \<Rightarrow> (int \<times> fuse_sb) option" where
  "fuse_reverse_inval_inode n offset len sb =
     (case ilookup5 n sb of
        (None, sb1) \<Rightarrow> Some (- ENOENT, sb1)
      | (Some i, sb1) \<Rightarrow>
          let sb2 = vfs (Forget_acls i) (fuse_invalidate_attr i sb1);
              sb3 = (if 0 \<le>s offset
                     then vfs (Invalidate_range i (fst (inval_range offset len)) (snd (inval_range offset len))) sb2
                     else sb2)
          in map_option (\<lambda>sb4. (0, sb4)) (iput i sb3))"

text \<open>
  \<open>fuse_get_attr_version\<close> and \<open>fuse_write_update_size\<close> (\<open>file.c\<close>): the stamp of a request for
  attributes, and the change of the size by a local write.
\<close>

definition fuse_get_attr_version :: "fuse_sb \<Rightarrow> u64" where
  "fuse_get_attr_version sb = attr_version (conn sb)"

definition fuse_write_update_size :: "ino_id \<Rightarrow> u64 \<Rightarrow> fuse_sb \<Rightarrow> (bool \<times> fuse_sb) option" where
  "fuse_write_update_size i pos sb =
     (case inodes sb i of
        None \<Rightarrow> None
      | Some v \<Rightarrow>
          let ver = attr_version (conn sb) + 1;
              grow = (i_size v <s pos)
          in Some (grow, upd_inode i (\<lambda>w. w\<lparr>fi_attr_version := ver, i_size := (if grow then pos else i_size w)\<rparr>)
                           (sb\<lparr>conn := (conn sb)\<lparr>attr_version := ver\<rparr>\<rparr>)))"

subsection \<open>File handles\<close>

record fuse_inode_handle =
  h_nodeid :: u64
  h_generation :: u32

definition FILEID_INVALID :: nat where "FILEID_INVALID = 0xff"

definition fh_words :: "fuse_inode \<Rightarrow> u32 list" where
  "fh_words v = [ucast (drop_bit 32 (nodeid v)), ucast (nodeid v AND 0xffffffff), i_generation v]"

text \<open>\<open>fuse_encode_fh\<close>: the type, the new \<open>*max_len\<close>, and the words written to \<open>fh\<close>.\<close>

definition fuse_encode_fh :: "fuse_inode \<Rightarrow> nat \<Rightarrow> fuse_inode option \<Rightarrow> nat \<times> nat \<times> u32 list" where
  "fuse_encode_fh v max_len parent =
     (let len = (if parent \<noteq> None then 6 else 3) in
      if max_len < len then (FILEID_INVALID, len, [])
      else case parent of
          None \<Rightarrow> (0x81, len, fh_words v)
        | Some p \<Rightarrow> (0x82, len, fh_words v @ fh_words p))"

datatype dentry_result = No_dentry | Dentry_error int | Dentry ino_id bool

text \<open>
  \<open>fuse_get_dentry\<close>: \<open>lookup\<close> is \<open>fuse_lookup_name\<close> of ``.'' in the node, \<open>alias_err i\<close> the error of
  \<open>d_obtain_alias\<close> (0 for success). The flag of \<open>Dentry\<close> says that the entry is marked invalid.
\<close>

type_synonym node_lookup = "u64 \<Rightarrow> fuse_sb \<Rightarrow> (int \<times> ino_id option \<times> fuse_sb) option"

definition get_dentry_found ::
    "(ino_id \<Rightarrow> int) \<Rightarrow> fuse_inode_handle \<Rightarrow> ino_id \<Rightarrow> fuse_sb \<Rightarrow> (dentry_result \<times> fuse_sb) option" where
  "get_dentry_found alias_err h i sb =
     (case inodes sb i of
        None \<Rightarrow> None
      | Some v \<Rightarrow>
          if i_generation v \<noteq> h_generation h
          then map_option (\<lambda>sb1. (Dentry_error (- ESTALE), sb1)) (iput i sb)
          else if alias_err i \<noteq> 0 then map_option (\<lambda>sb1. (Dentry_error (alias_err i), sb1)) (iput i sb)
          else Some (Dentry i (nodeid v \<noteq> 1), sb))"

definition fuse_get_dentry ::
    "node_lookup \<Rightarrow> (ino_id \<Rightarrow> int) \<Rightarrow> fuse_inode_handle \<Rightarrow> fuse_sb \<Rightarrow> (dentry_result \<times> fuse_sb) option" where
  "fuse_get_dentry lookup alias_err h sb =
     (if h_nodeid h = 0 then Some (Dentry_error (- ESTALE), sb)
      else case ilookup5 (h_nodeid h) sb of
          (Some i, sb1) \<Rightarrow> get_dentry_found alias_err h i sb1
        | (None, sb1) \<Rightarrow>
            if Export_support \<notin> fc_bits (conn sb) then Some (Dentry_error (- ESTALE), sb1)
            else do {
              (err, found, sb2) \<leftarrow> lookup (h_nodeid h) sb1;
              if err \<noteq> 0 \<and> err \<noteq> - ENOENT then Some (Dentry_error err, sb2)
              else if err \<noteq> 0 then Some (Dentry_error (- ESTALE), sb2)
              else (case found of
                  None \<Rightarrow> Some (Dentry_error (- ESTALE), sb2)
                | Some i \<Rightarrow> do {
                    v \<leftarrow> inodes sb2 i;
                    if nodeid v \<noteq> h_nodeid h
                    then map_option (\<lambda>sb3. (Dentry_error (- EIO), sb3)) (iput i sb2)
                    else get_dentry_found alias_err h i sb2})})"

definition fh_handle :: "u32 list \<Rightarrow> nat \<Rightarrow> fuse_inode_handle" where
  "fh_handle raw k = \<lparr>h_nodeid = push_bit 32 (ucast (raw ! k)) OR ucast (raw ! (k + 1)),
     h_generation = raw ! (k + 2)\<rparr>"

definition fuse_fh_to_dentry ::
    "node_lookup \<Rightarrow> (ino_id \<Rightarrow> int) \<Rightarrow> u32 list \<Rightarrow> nat \<Rightarrow> nat \<Rightarrow> fuse_sb \<Rightarrow> (dentry_result \<times> fuse_sb) option" where
  "fuse_fh_to_dentry lookup alias_err raw fh_len fh_type sb =
     (if (fh_type \<noteq> 0x81 \<and> fh_type \<noteq> 0x82) \<or> fh_len < 3 then Some (No_dentry, sb)
      else fuse_get_dentry lookup alias_err (fh_handle raw 0) sb)"

definition fuse_fh_to_parent ::
    "node_lookup \<Rightarrow> (ino_id \<Rightarrow> int) \<Rightarrow> u32 list \<Rightarrow> nat \<Rightarrow> nat \<Rightarrow> fuse_sb \<Rightarrow> (dentry_result \<times> fuse_sb) option" where
  "fuse_fh_to_parent lookup alias_err raw fh_len fh_type sb =
     (if fh_type \<noteq> 0x82 \<or> fh_len < 6 then Some (No_dentry, sb)
      else fuse_get_dentry lookup alias_err (fh_handle raw 3) sb)"

text \<open>
  \<open>fuse_get_parent\<close>: \<open>lookup\<close> is \<open>fuse_lookup_name\<close> of ``..'' in the node of the child. It can succeed
  without an inode; \<open>d_obtain_alias\<close> then returns \<open>-ESTALE\<close>.
\<close>

definition fuse_get_parent ::
    "node_lookup \<Rightarrow> (ino_id \<Rightarrow> int) \<Rightarrow> ino_id \<Rightarrow> fuse_sb \<Rightarrow> (dentry_result \<times> fuse_sb) option" where
  "fuse_get_parent lookup alias_err child sb = do {
     c \<leftarrow> inodes sb child;
     if Export_support \<notin> fc_bits (conn sb) then Some (Dentry_error (- ESTALE), sb)
     else do {
       (err, found, sb1) \<leftarrow> lookup (nodeid c) sb;
       if err \<noteq> 0 then Some (Dentry_error (if err = - ENOENT then - ESTALE else err), sb1)
       else (case found of
           None \<Rightarrow> Some (Dentry_error (- ESTALE), sb1)
         | Some i \<Rightarrow> do {
             v \<leftarrow> inodes sb1 i;
             if alias_err i \<noteq> 0 then map_option (\<lambda>sb2. (Dentry_error (alias_err i), sb2)) (iput i sb1)
             else Some (Dentry i (nodeid v \<noteq> 1), sb1)})}}"

subsection \<open>Lookup counts\<close>

definition contrib :: "u64 \<Rightarrow> fuse_inode option \<Rightarrow> u64" where
  "contrib n x = (case x of None \<Rightarrow> 0 | Some v \<Rightarrow> if nodeid v = n then nlookup v else 0)"

definition held_lookups :: "u64 \<Rightarrow> (ino_id \<rightharpoonup> fuse_inode) \<Rightarrow> u64" where
  "held_lookups n m = (\<Sum>i \<in> dom m. contrib n (m i))"

definition queued_lookups :: "u64 \<Rightarrow> fuse_forget_one list \<Rightarrow> u64" where
  "queued_lookups n fs = (\<Sum>f\<leftarrow>fs. if fo_nodeid f = n then fo_nlookup f else 0)"

text \<open>The lookups of node \<open>n\<close> the server has been told of and not asked to forget.\<close>

definition lookups :: "u64 \<Rightarrow> fuse_sb \<Rightarrow> u64" where
  "lookups n sb = held_lookups n (inodes sb) + queued_lookups n (forget_list (iq (conn sb)))"

lemma contrib_simps [simp]:
  "contrib n None = 0" "contrib n (Some v) = (if nodeid v = n then nlookup v else 0)"
  by (simp_all add: contrib_def)

lemma held_superset:
  assumes "finite A" and "dom m \<subseteq> A"
  shows "held_lookups n m = (\<Sum>i \<in> A. contrib n (m i))"
  unfolding held_lookups_def using assms
  by (intro sum.mono_neutral_left) (auto simp: dom_def)

lemma held_upd:
  assumes "finite (dom m)"
  shows "held_lookups n (m(i := x)) = held_lookups n m - contrib n (m i) + contrib n x"
proof -
  let ?A = "insert i (dom m)"
  have fin: "finite ?A" using assms by simp
  have "held_lookups n (m(i := x)) = (\<Sum>j \<in> ?A. contrib n ((m(i := x)) j))"
    by (rule held_superset [OF fin]) (auto simp: dom_def)
  also have "\<dots> = contrib n x + (\<Sum>j \<in> ?A - {i}. contrib n ((m(i := x)) j))"
    using fin by (subst sum.remove [of _ i]) auto
  also have "(\<Sum>j \<in> ?A - {i}. contrib n ((m(i := x)) j)) = (\<Sum>j \<in> ?A - {i}. contrib n (m j))"
    by (rule sum.cong) auto
  also have "\<dots> = held_lookups n m - contrib n (m i)"
    using fin by (subst held_superset [OF fin]) (auto simp: sum.remove [of _ i])
  finally show ?thesis by (simp only: add.commute)
qed

lemma held_upd_inode [simp]:
  assumes "finite (dom (inodes sb))" and "\<And>v. nodeid (f v) = nodeid v" and "\<And>v. nlookup (f v) = nlookup v"
  shows "held_lookups n ((inodes sb)(i := map_option f (inodes sb i))) = held_lookups n (inodes sb)"
  using assms by (cases "inodes sb i") (simp_all add: held_upd)

lemma queued_simps [simp]:
  "queued_lookups n (fs @ gs) = queued_lookups n fs + queued_lookups n gs"
  "queued_lookups n [] = 0"
  "queued_lookups n [f] = (if fo_nodeid f = n then fo_nlookup f else 0)"
  by (simp_all add: queued_lookups_def)

subsection \<open>The store of inodes\<close>

text \<open>An inode carries the operations of its type, and an attribute version the connection has given out.\<close>

definition ops_fit :: "fuse_inode \<Rightarrow> bool" where
  "ops_fit v \<longleftrightarrow> (case i_ops v of
      Ops_none \<Rightarrow> False
    | Ops_file \<Rightarrow> S_ISREG (i_mode v)
    | Ops_dir \<Rightarrow> S_ISDIR (i_mode v)
    | Ops_symlink \<Rightarrow> S_ISLNK (i_mode v)
    | Ops_special _ \<Rightarrow> S_ISSPECIAL (i_mode v)
    | Ops_bad \<Rightarrow> True)"

definition sb_inv :: "fuse_sb \<Rightarrow> bool" where
  "sb_inv sb \<longleftrightarrow> finite (dom (inodes sb)) \<and> (\<forall>i \<ge> next_ino sb. inodes sb i = None) \<and>
     (\<forall>n i. ihash sb n = Some i \<longrightarrow> (\<exists>v. inodes sb i = Some v \<and> nodeid v = n \<and> i_ops v \<noteq> Ops_bad)) \<and>
     (\<forall>i v. inodes sb i = Some v \<longrightarrow> 1 \<le> i_count v \<and> ops_fit v)"

lemma upd_inode_fields [simp]:
  "inodes (upd_inode i f sb) = (inodes sb)(i := map_option f (inodes sb i))"
  "conn (upd_inode i f sb) = conn sb" "ihash (upd_inode i f sb) = ihash sb"
  "next_ino (upd_inode i f sb) = next_ino sb" "s_active (upd_inode i f sb) = s_active sb"
  by (simp_all add: upd_inode_def)

lemma vfs_fields [simp]:
  "inodes (vfs c sb) = inodes sb" "conn (vfs c sb) = conn sb" "ihash (vfs c sb) = ihash sb"
  "next_ino (vfs c sb) = next_ino sb" "s_active (vfs c sb) = s_active sb"
  by (simp_all add: vfs_def)

lemma upd_conn_fields [simp]:
  "inodes (upd_conn f sb) = inodes sb" "conn (upd_conn f sb) = f (conn sb)" "ihash (upd_conn f sb) = ihash sb"
  "next_ino (upd_conn f sb) = next_ino sb" "s_active (upd_conn f sb) = s_active sb"
  by (simp_all add: upd_conn_def)

lemma sb_inv_cong:
  "inodes t = inodes sb \<Longrightarrow> ihash t = ihash sb \<Longrightarrow> next_ino t = next_ino sb \<Longrightarrow> sb_inv t = sb_inv sb"
  by (simp add: sb_inv_def)

lemma sb_inv_vfs [simp]: "sb_inv (vfs c sb) = sb_inv sb"
  by (rule sb_inv_cong) simp_all

lemma sb_inv_upd_conn [simp]: "sb_inv (upd_conn f sb) = sb_inv sb"
  by (rule sb_inv_cong) simp_all

lemma sb_invD:
  assumes "sb_inv sb"
  shows "finite (dom (inodes sb))" and "next_ino sb \<le> i \<Longrightarrow> inodes sb i = None"
    and "ihash sb n = Some i \<Longrightarrow> \<exists>v. inodes sb i = Some v \<and> nodeid v = n \<and> i_ops v \<noteq> Ops_bad"
    and "inodes sb i = Some v \<Longrightarrow> 1 \<le> i_count v \<and> ops_fit v \<and> i < next_ino sb"
  using assms unfolding sb_inv_def by (force simp: not_le [symmetric])+

text \<open>A change of one inode that keeps its node, its references and its type.\<close>

definition tame :: "(fuse_inode \<Rightarrow> fuse_inode) \<Rightarrow> bool" where
  "tame f \<longleftrightarrow> (\<forall>v. nodeid (f v) = nodeid v \<and> (1 \<le> i_count v \<longrightarrow> 1 \<le> i_count (f v)) \<and>
     i_ops (f v) = i_ops v \<and> (ops_fit v \<longrightarrow> ops_fit (f v)))"

lemma sb_inv_tame:
  assumes "sb_inv sb" and "tame f"
  shows "sb_inv (upd_inode i f sb)"
proof -
  have "\<exists>v. inodes (upd_inode i f sb) j = Some v \<and> nodeid v = n \<and> i_ops v \<noteq> Ops_bad" if "ihash sb n = Some j" for n j
    using sb_invD(3) [OF assms(1) that] assms(2) by (auto simp: tame_def)
  moreover have "1 \<le> i_count v \<and> ops_fit v" if "inodes (upd_inode i f sb) j = Some v" for j v
    using that sb_invD(4) [OF assms(1)] assms(2) by (force simp: tame_def split: if_split_asm)
  moreover have "finite (dom (inodes (upd_inode i f sb)))"
    using sb_invD(1) [OF assms(1)] by (rule rev_finite_subset) (auto simp: dom_def)
  ultimately show ?thesis
    using sb_invD(2) [OF assms(1)] by (simp add: sb_inv_def)
qed

lemma lookups_upd [simp]:
  assumes "finite (dom (inodes sb))" and "\<And>v. nodeid (f v) = nodeid v" and "\<And>v. nlookup (f v) = nlookup v"
  shows "lookups n (upd_inode i f sb) = lookups n sb"
  using assms by (simp add: lookups_def)

lemma lookups_vfs [simp]: "lookups n (vfs c sb) = lookups n sb"
  by (simp add: lookups_def)

lemma type_kept:
  "((m AND S_IFMT) OR (p AND S_PERM)) AND S_IFMT = (m :: umode) AND S_IFMT"
  "(m AND NOT S_ISVTX) AND S_IFMT = m AND S_IFMT"
  "(m AND S_IFMT) AND S_IFMT = m AND S_IFMT"
proof -
  have d: "S_PERM AND S_IFMT = 0" "NOT S_ISVTX AND S_IFMT = S_IFMT" by (simp_all add: mode_defs)
  show "((m AND S_IFMT) OR (p AND S_PERM)) AND S_IFMT = m AND S_IFMT"
    by (simp add: bit.conj_disj_distrib2 and.assoc d)
  show "(m AND NOT S_ISVTX) AND S_IFMT = m AND S_IFMT" by (simp add: and.assoc d)
qed (simp add: and.assoc)

lemma type_cong:
  assumes "m AND S_IFMT = m' AND S_IFMT"
  shows "S_ISREG m = S_ISREG m'" and "S_ISDIR m = S_ISDIR m'" and "S_ISLNK m = S_ISLNK m'"
    and "S_ISSPECIAL m = S_ISSPECIAL m'" and "fuse_valid_type m = fuse_valid_type m'"
  using assms by (simp_all add: S_ISREG_def S_ISDIR_def S_ISLNK_def S_ISSPECIAL_def fuse_valid_type_def)

lemma ops_fit_cong:
  assumes "i_mode w AND S_IFMT = i_mode v AND S_IFMT" and "i_ops w = i_ops v"
  shows "ops_fit w = ops_fit v"
  using type_cong [OF assms(1)] assms(2) by (simp add: ops_fit_def split: inode_ops.split)

lemma tame_simple:
  assumes "\<And>v. nodeid (f v) = nodeid v" and "\<And>v. 1 \<le> i_count v \<Longrightarrow> 1 \<le> i_count (f v)"
    and "\<And>v. i_ops (f v) = i_ops v" and "\<And>v. i_mode (f v) AND S_IFMT = i_mode v AND S_IFMT"
  shows "tame f"
  unfolding tame_def using assms ops_fit_cong by blast

subsection \<open>Attributes and lookups preserve the store\<close>

definition common_change :: "fuse_sb \<Rightarrow> fuse_attr \<Rightarrow> u64 \<Rightarrow> fuse_inode \<Rightarrow> fuse_inode" where
  "common_change sb attr attr_valid v =
     (let mode = (i_mode v AND S_IFMT) OR (attr_umode attr AND S_PERM);
          keep = Writeback_cache \<in> fc_bits (conn sb) \<and> S_ISREG mode
      in v\<lparr>fi_attr_version := attr_version (conn sb) + 1, i_time := attr_valid,
           i_ino := fuse_squash_ino (sizeof_ino_t sb) (at_ino attr),
           i_nlink := at_nlink attr, i_uid := at_uid attr, i_gid := at_gid attr,
           i_blocks := at_blocks attr, i_atime := at_atime attr,
           i_mtime := (if keep then i_mtime v else at_mtime attr),
           i_ctime := (if keep then i_ctime v else at_ctime attr),
           i_blkbits := (if at_blksize attr \<noteq> 0 then ilog2 (unat (at_blksize attr)) else s_blocksize_bits sb),
           orig_i_mode := mode,
           i_mode := (if Default_permissions \<in> fc_bits (conn sb) then mode else mode AND NOT S_ISVTX),
           orig_ino := at_ino attr\<rparr>)"

lemma change_common_alt:
  "fuse_change_attributes_common i attr valid sb =
     upd_inode i (common_change sb attr valid) (sb\<lparr>conn := (conn sb)\<lparr>attr_version := attr_version (conn sb) + 1\<rparr>\<rparr>)"
  by (simp add: fuse_change_attributes_common_def common_change_def [abs_def] Let_def)

lemma common_change_fields [simp]:
  "nodeid (common_change sb attr valid v) = nodeid v" "nlookup (common_change sb attr valid v) = nlookup v"
  "i_count (common_change sb attr valid v) = i_count v" "i_ops (common_change sb attr valid v) = i_ops v"
  "i_mode (common_change sb attr valid v) AND S_IFMT = i_mode v AND S_IFMT"
  "i_size (common_change sb attr valid v) = i_size v"
  "i_generation (common_change sb attr valid v) = i_generation v"
  "fi_attr_version (common_change sb attr valid v) = attr_version (conn sb) + 1"
  by (simp_all add: common_change_def Let_def type_kept)

lemma tame_common [simp]: "tame (common_change sb attr valid)"
  by (rule tame_simple) simp_all

lemma tame_updates [simp]:
  "tame (\<lambda>v. v\<lparr>i_size := k v\<rparr>)" "tame (\<lambda>v. v\<lparr>i_count := Suc (i_count v)\<rparr>)" "tame (\<lambda>v. v\<lparr>nlookup := l v\<rparr>)"
  "tame (\<lambda>v. v\<lparr>i_time := t\<rparr>)" "tame (\<lambda>v. v\<lparr>fi_forget := b\<rparr>)"
  by (rule tame_simple; simp)+

lemma sb_inv_bump [simp]: "sb_inv (sb\<lparr>conn := c\<rparr>) = sb_inv sb"
  by (rule sb_inv_cong) simp_all

text \<open>What a change of attributes does to the file system as a whole.\<close>

lemma change_attributes_spec:
  assumes "sb_inv sb" and "inodes sb i = Some v"
  shows "\<exists>sb' w. fuse_change_attributes i attr valid ver sb = Some sb' \<and> sb_inv sb' \<and>
     (\<forall>n. lookups n sb' = lookups n sb) \<and> ihash sb' = ihash sb \<and> next_ino sb' = next_ino sb \<and>
     s_active sb' = s_active sb \<and> iq (conn sb') = iq (conn sb) \<and> inodes sb' = (inodes sb)(i \<mapsto> w) \<and>
     nodeid w = nodeid v \<and> i_ops w = i_ops v \<and> i_generation w = i_generation v \<and>
     i_mode w AND S_IFMT = i_mode v AND S_IFMT"
proof (cases "attr_stale v ver")
  case True
  then show ?thesis using assms
    by (intro exI [of _ sb] exI [of _ v]) (simp add: fuse_change_attributes_def fun_upd_idem)
next
  case False
  let ?wb = "Writeback_cache \<in> fc_bits (conn sb)" and ?reg = "S_ISREG (i_mode v)"
  let ?sb1 = "fuse_change_attributes_common i attr valid sb"
  define sb2 where "sb2 = (if \<not> ?wb \<or> \<not> ?reg then upd_inode i (\<lambda>w. w\<lparr>i_size := at_size attr\<rparr>) ?sb1 else ?sb1)"
  have fin: "finite (dom (inodes sb))" using assms(1) by (rule sb_invD)
  have inv1: "sb_inv ?sb1" unfolding change_common_alt by (rule sb_inv_tame) (simp_all add: assms(1))
  have fin1: "finite (dom (inodes ?sb1))" using inv1 by (rule sb_invD)
  have l1: "lookups n ?sb1 = lookups n sb" for n
    using fin by (simp add: change_common_alt lookups_def)
  have inv2: "sb_inv sb2" unfolding sb2_def using inv1 by (simp add: sb_inv_tame)
  have l2: "lookups n sb2 = lookups n sb" for n
    unfolding sb2_def using fin1 l1 by simp
  obtain w where w: "inodes sb2 = (inodes sb)(i \<mapsto> w)" "nodeid w = nodeid v" "i_ops w = i_ops v"
      "i_generation w = i_generation v" "i_mode w AND S_IFMT = i_mode v AND S_IFMT"
    using assms(2) by (cases "?wb \<and> ?reg") (auto simp: sb2_def change_common_alt)
  obtain cs where run: "fuse_change_attributes i attr valid ver sb = Some (fold vfs cs sb2)"
  proof -
    let ?resized = "i_size v \<noteq> at_size attr"
    let ?inval = "?resized \<or> (Auto_inval_data \<in> fc_bits (conn sb) \<and> i_mtime v \<noteq> at_mtime attr)"
    have "fuse_change_attributes i attr valid ver sb = Some (fold vfs
        (if ?wb \<or> \<not> ?reg then [] else (if ?resized then [Truncate_pagecache i (at_size attr)] else []) @
           (if ?inval then [Invalidate_pages2 i] else [])) sb2)"
      using assms(2) False by (simp add: fuse_change_attributes_def Let_def sb2_def)
    then show ?thesis by (rule that)
  qed
  have keep: "inodes (fold vfs cs t) = inodes t \<and> ihash (fold vfs cs t) = ihash t \<and>
      next_ino (fold vfs cs t) = next_ino t \<and> conn (fold vfs cs t) = conn t \<and> s_active (fold vfs cs t) = s_active t \<and>
      sb_inv (fold vfs cs t) = sb_inv t \<and> lookups n (fold vfs cs t) = lookups n t" for t n
    by (induction cs arbitrary: t) simp_all
  have "ihash sb2 = ihash sb" "next_ino sb2 = next_ino sb" "s_active sb2 = s_active sb"
      "iq (conn sb2) = iq (conn sb)"
    by (simp_all add: sb2_def change_common_alt)
  then show ?thesis
    using run keep inv2 l2 w by (intro exI [of _ "fold vfs cs sb2"] exI [of _ w]) simp
qed

text \<open>What a change of attributes leaves alone.\<close>

lemma change_attributes_frame:
  assumes "inodes sb i = Some v" and "fuse_change_attributes i attr valid ver sb = Some sb'"
  shows "\<exists>w. inodes sb' = (inodes sb)(i \<mapsto> w) \<and> i_count w = i_count v \<and> write_files w = write_files v \<and>
     queued_writes w = queued_writes v"
    and "\<exists>k. conn sb' = (conn sb)\<lparr>attr_version := k\<rparr>" and "s_active sb' = s_active sb"
proof -
  have f: "i_count (common_change sb attr valid w) = i_count w" "write_files (common_change sb attr valid w) = write_files w"
    "queued_writes (common_change sb attr valid w) = queued_writes w" for w
    by (simp_all add: common_change_def Let_def)
  have "(\<exists>w. inodes sb' = (inodes sb)(i \<mapsto> w) \<and> i_count w = i_count v \<and> write_files w = write_files v \<and>
      queued_writes w = queued_writes v) \<and> (\<exists>k. conn sb' = (conn sb)\<lparr>attr_version := k\<rparr>) \<and> s_active sb' = s_active sb"
  proof (cases "attr_stale v ver")
    case True
    then have "sb' = sb" using assms by (simp add: fuse_change_attributes_def)
    then show ?thesis using assms(1)
      by (intro conjI exI [of _ v] exI [of _ "attr_version (conn sb)"]) (simp_all add: fun_upd_idem)
  next
    case False
    let ?keep = "Writeback_cache \<in> fc_bits (conn sb) \<and> S_ISREG (i_mode v)"
    let ?w = "if ?keep then common_change sb attr valid v else (common_change sb attr valid v)\<lparr>i_size := at_size attr\<rparr>"
    have "inodes sb' = (inodes sb)(i \<mapsto> ?w)"
      using assms False
      by (cases "Writeback_cache \<in> fc_bits (conn sb)"; cases "S_ISREG (i_mode v)"; cases "i_size v = at_size attr";
          cases "Auto_inval_data \<in> fc_bits (conn sb) \<and> i_mtime v \<noteq> at_mtime attr")
        (auto simp: fuse_change_attributes_def change_common_alt Let_def)
    moreover have "conn sb' = (conn sb)\<lparr>attr_version := attr_version (conn sb) + 1\<rparr> \<and> s_active sb' = s_active sb"
      using assms False
      by (cases "Writeback_cache \<in> fc_bits (conn sb)"; cases "S_ISREG (i_mode v)"; cases "i_size v = at_size attr";
          cases "Auto_inval_data \<in> fc_bits (conn sb) \<and> i_mtime v \<noteq> at_mtime attr")
        (auto simp: fuse_change_attributes_def change_common_alt Let_def)
    moreover have "i_count ?w = i_count v \<and> write_files ?w = write_files v \<and> queued_writes ?w = queued_writes v"
      by (simp add: f)
    ultimately show ?thesis by blast
  qed
  then show "\<exists>w. inodes sb' = (inodes sb)(i \<mapsto> w) \<and> i_count w = i_count v \<and> write_files w = write_files v \<and>
      queued_writes w = queued_writes v" "\<exists>k. conn sb' = (conn sb)\<lparr>attr_version := k\<rparr>" "s_active sb' = s_active sb"
    by blast+
qed

lemma fuse_init_inode_valid:
  assumes "fuse_valid_type (attr_umode attr)"
  shows "\<exists>w. fuse_init_inode attr v = Some w \<and> ops_fit w \<and> i_ops w \<noteq> Ops_bad \<and> nodeid w = nodeid v \<and>
     nlookup w = nlookup v \<and> i_count w = i_count v \<and> i_generation w = i_generation v \<and>
     i_mode w = attr_umode attr AND S_IFMT"
proof -
  have "fuse_valid_type (attr_umode attr AND S_IFMT)"
    using assms type_cong(5) [OF type_kept(3)] by blast
  then show ?thesis
    by (auto simp: fuse_init_inode_def Let_def fuse_valid_type_def ops_fit_def)
qed

lemma iget_fresh_spec:
  assumes "sb_inv sb" and "ihash sb n = None" and "fuse_valid_type (attr_umode attr)"
  shows "\<exists>found sb'. iget_fresh ok n generation attr sb = Some (found, sb') \<and> sb_inv sb' \<and>
     (\<forall>m. lookups m sb' = lookups m sb) \<and> conn sb' = conn sb \<and> s_active sb' = s_active sb \<and>
     (case found of None \<Rightarrow> \<not> (ok 0 \<and> ok 1)
      | Some i \<Rightarrow> ihash sb' n = Some i \<and> (\<exists>v. inodes sb' i = Some v \<and> nodeid v = n \<and>
          i_mode v AND S_IFMT = attr_umode attr AND S_IFMT))"
proof (cases "ok 0 \<and> ok 1")
  case False
  then have "iget_fresh ok n generation attr sb = Some (None, sb)"
    by (auto simp: iget_fresh_def iget5_new_def fuse_alloc_inode_def)
  then show ?thesis using assms(1) False by auto
next
  case True
  let ?i = "next_ino sb" and ?wb = "Writeback_cache \<in> fc_bits (conn sb)"
  have absent: "inodes sb ?i = None" using sb_invD(2) [OF assms(1)] by simp
  obtain w where w: "iget_setup generation attr ?wb (fuse_inode_set n new_inode) = Some w"
      "ops_fit w" "i_ops w \<noteq> Ops_bad" "nodeid w = n" "nlookup w = 0" "i_count w = 1"
      "i_mode w = attr_umode attr AND S_IFMT"
    using fuse_init_inode_valid [OF assms(3)]
    unfolding iget_setup_def by (force simp: fuse_inode_set_def new_inode_def)
  let ?sb' = "sb\<lparr>inodes := (inodes sb)(?i \<mapsto> w), ihash := (ihash sb)(n \<mapsto> ?i), next_ino := Suc ?i\<rparr>"
  have run: "iget_fresh ok n generation attr sb = Some (Some ?i, ?sb')"
    using True w(1) by (simp add: iget_fresh_def iget5_new_def fuse_alloc_inode_def)
  have hash: "j \<noteq> ?i" if "ihash sb m = Some j" for m j
    using sb_invD(3) [OF assms(1) that] absent by auto
  have inv: "sb_inv ?sb'"
    unfolding sb_inv_def
  proof (intro conjI allI impI)
    show "finite (dom (inodes ?sb'))" using sb_invD(1) [OF assms(1)] by simp
  next
    fix j assume "next_ino ?sb' \<le> j"
    then show "inodes ?sb' j = None" using sb_invD(2) [OF assms(1)] by simp
  next
    fix m j assume "ihash ?sb' m = Some j"
    then show "\<exists>v. inodes ?sb' j = Some v \<and> nodeid v = m \<and> i_ops v \<noteq> Ops_bad"
      using sb_invD(3) [OF assms(1)] hash w(3,4) by (auto split: if_split_asm)
  next
    fix j v assume "inodes ?sb' j = Some v"
    then show "1 \<le> i_count v" and "ops_fit v"
      using sb_invD(4) [OF assms(1)] w(2,6) by (auto split: if_split_asm)
  qed
  have "lookups m ?sb' = lookups m sb" for m
    using sb_invD(1) [OF assms(1)] absent w(5) by (simp add: lookups_def held_upd)
  with run inv w(4,7) show ?thesis by (intro exI [of _ "Some ?i"] exI [of _ ?sb']) (simp add: type_kept)
qed

lemma type_xor: "(a XOR b) AND S_IFMT = 0 \<longleftrightarrow> a AND S_IFMT = b AND (S_IFMT :: umode)"
proof
  assume h: "(a XOR b) AND S_IFMT = 0"
  have "a AND S_IFMT = ((a AND S_IFMT) XOR (b AND S_IFMT)) XOR (b AND S_IFMT)"
    by (simp add: xor.assoc)
  also have "(a AND S_IFMT) XOR (b AND S_IFMT) = 0" using h by (simp add: bit.conj_xor_distrib2)
  finally show "a AND S_IFMT = b AND S_IFMT" by simp
qed (simp add: bit.conj_xor_distrib2)

lemma sb_inv_unhash:
  assumes "sb_inv sb"
  shows "sb_inv (make_bad_inode i sb)" and "lookups n (make_bad_inode i sb) = lookups n sb"
    and "ihash sb n = Some i \<Longrightarrow> ihash (make_bad_inode i sb) n = None"
proof -
  let ?f = "\<lambda>v. v\<lparr>i_mode := S_IFREG, i_ops := Ops_bad\<rparr>"
  have fin: "finite (dom (inodes sb))" using assms by (rule sb_invD)
  have "finite (dom (inodes (make_bad_inode i sb)))"
    using fin by (rule rev_finite_subset) (auto simp: make_bad_inode_def dom_def)
  moreover have "\<exists>v. inodes (make_bad_inode i sb) j = Some v \<and> nodeid v = m \<and> i_ops v \<noteq> Ops_bad"
    if "ihash (make_bad_inode i sb) m = Some j" for m j
    using that sb_invD(3) [OF assms, of m j]
    by (auto simp: make_bad_inode_def unhash_def split: if_split_asm)
  moreover have "1 \<le> i_count v \<and> ops_fit v" if "inodes (make_bad_inode i sb) j = Some v" for j v
    using that sb_invD(4) [OF assms] by (force simp: make_bad_inode_def ops_fit_def split: if_split_asm)
  moreover have "inodes (make_bad_inode i sb) j = None" if "next_ino sb \<le> j" for j
    using that sb_invD(2) [OF assms] by (simp add: make_bad_inode_def)
  ultimately show "sb_inv (make_bad_inode i sb)" by (simp add: sb_inv_def make_bad_inode_def)
  show "lookups n (make_bad_inode i sb) = lookups n sb"
    using fin by (simp add: make_bad_inode_def lookups_def)
  show "ihash sb n = Some i \<Longrightarrow> ihash (make_bad_inode i sb) n = None"
    by (simp add: make_bad_inode_def unhash_def)
qed

lemma ilookup5_spec:
  assumes "sb_inv sb" and "ilookup5 n sb = (found, sb')"
  shows "sb_inv sb'" and "lookups m sb' = lookups m sb" and "conn sb' = conn sb" and "ihash sb' = ihash sb"
    and "next_ino sb' = next_ino sb" and "s_active sb' = s_active sb" and "found = ihash sb n"
    and "found = None \<Longrightarrow> sb' = sb"
    and "found = Some i \<Longrightarrow> \<exists>v. inodes sb i = Some v \<and> nodeid v = n \<and>
           inodes sb' = (inodes sb)(i \<mapsto> v\<lparr>i_count := i_count v + 1\<rparr>) \<and> 2 \<le> i_count v + 1"
proof -
  have fin: "finite (dom (inodes sb))" using assms(1) by (rule sb_invD)
  have "sb_inv (upd_inode i (\<lambda>v. v\<lparr>i_count := Suc (i_count v)\<rparr>) sb)" for i
    using assms(1) by (rule sb_inv_tame) simp
  with assms(2) show "sb_inv sb'"
    using assms(1) by (auto simp: ilookup5_def split: option.split_asm)
  show "lookups m sb' = lookups m sb" "conn sb' = conn sb" "ihash sb' = ihash sb" "next_ino sb' = next_ino sb"
      "s_active sb' = s_active sb" "found = ihash sb n" "found = None \<Longrightarrow> sb' = sb"
    using assms(2) fin by (auto simp: ilookup5_def split: option.split_asm)
  assume f: "found = Some i"
  then have "ihash sb n = Some i" and sb': "sb' = upd_inode i (\<lambda>v. v\<lparr>i_count := i_count v + 1\<rparr>) sb"
    using assms(2) by (auto simp: ilookup5_def split: option.split_asm)
  with sb_invD(3) [OF assms(1)] obtain v where v: "inodes sb i = Some v" "nodeid v = n" by blast
  then have "1 \<le> i_count v" using sb_invD(4) [OF assms(1)] by blast
  with v sb' show "\<exists>v. inodes sb i = Some v \<and> nodeid v = n \<and>
      inodes sb' = (inodes sb)(i \<mapsto> v\<lparr>i_count := i_count v + 1\<rparr>) \<and> 2 \<le> i_count v + 1"
    by simp
qed

text \<open>Dropping a reference that is not the last one.\<close>

lemma iput_shared:
  assumes "sb_inv sb" and "inodes sb i = Some v" and "2 \<le> i_count v"
  shows "\<exists>sb'. iput i sb = Some sb' \<and> sb_inv sb' \<and> (\<forall>n. lookups n sb' = lookups n sb) \<and> conn sb' = conn sb \<and>
     ihash sb' = ihash sb \<and> next_ino sb' = next_ino sb \<and> s_active sb' = s_active sb \<and>
     inodes sb' = (inodes sb)(i \<mapsto> v\<lparr>i_count := i_count v - 1\<rparr>)"
proof -
  let ?f = "\<lambda>v. v\<lparr>i_count := i_count v - 1\<rparr>"
  have fin: "finite (dom (inodes sb))" using assms(1) by (rule sb_invD)
  have "sb_inv (upd_inode i ?f sb)"
    unfolding sb_inv_def
  proof (intro conjI allI impI)
    show "finite (dom (inodes (upd_inode i ?f sb)))" using fin assms(2) by simp
  next
    fix j assume "next_ino (upd_inode i ?f sb) \<le> j"
    then show "inodes (upd_inode i ?f sb) j = None" using sb_invD(2) [OF assms(1)] by simp
  next
    fix m j assume "ihash (upd_inode i ?f sb) m = Some j"
    then show "\<exists>v. inodes (upd_inode i ?f sb) j = Some v \<and> nodeid v = m \<and> i_ops v \<noteq> Ops_bad"
      using sb_invD(3) [OF assms(1), of m j] by auto
  next
    fix j w assume w: "inodes (upd_inode i ?f sb) j = Some w"
    then show "1 \<le> i_count w"
      using sb_invD(4) [OF assms(1)] assms(2,3) by (auto split: if_split_asm)
    show "ops_fit w"
    proof (cases "j = i")
      case True
      then have "ops_fit w = ops_fit v" using w assms(2) by (intro ops_fit_cong) auto
      then show ?thesis using sb_invD(4) [OF assms(1,2)] by simp
    qed (use w sb_invD(4) [OF assms(1)] in auto)
  qed
  moreover have "iput i sb = Some (upd_inode i ?f sb)" using assms(2,3) by (simp add: iput_def)
  ultimately show ?thesis using fin assms(2) by (intro exI [of _ "upd_inode i ?f sb"]) simp
qed

lemma iget_find_spec:
  assumes "sb_inv sb" and "fuse_valid_type (attr_umode attr)"
  shows "\<exists>found sb'. iget_find ok n generation attr sb = Some (found, sb') \<and> sb_inv sb' \<and>
     (\<forall>m. lookups m sb' = lookups m sb) \<and> conn sb' = conn sb \<and> s_active sb' = s_active sb \<and>
     (case found of None \<Rightarrow> \<not> (ok 0 \<and> ok 1)
      | Some i \<Rightarrow> ihash sb' n = Some i \<and> (\<exists>v. inodes sb' i = Some v \<and> nodeid v = n \<and>
          i_mode v AND S_IFMT = attr_umode attr AND S_IFMT))"
proof -
  obtain found sb1 where l: "ilookup5 n sb = (found, sb1)" by force
  note spec = ilookup5_spec [OF assms(1) l]
  show ?thesis
  proof (cases found)
    case None
    then have "iget_find ok n generation attr sb = iget_fresh ok n generation attr sb"
      by (simp add: iget_find_def l)
    moreover have "ihash sb n = None" using spec(7) None by simp
    ultimately show ?thesis using iget_fresh_spec [OF assms(1) _ assms(2)] by simp
  next
    case (Some i)
    from spec(9) [OF Some] obtain v where v: "inodes sb1 i = Some v" "nodeid v = n" "2 \<le> i_count v"
      by auto
    have h1: "ihash sb1 n = Some i" using spec(4,7) Some by simp
    show ?thesis
    proof (cases "i_mode v AND S_IFMT = attr_umode attr AND S_IFMT")
      case True
      then have "iget_find ok n generation attr sb = Some (Some i, sb1)"
        using Some v(1) type_xor by (simp add: iget_find_def l)
      then show ?thesis using spec v True h1 by auto
    next
      case False
      let ?bad = "make_bad_inode i sb1"
      have b: "inodes ?bad i = Some (v\<lparr>i_mode := S_IFREG, i_ops := Ops_bad\<rparr>)" using v(1) by (simp add: make_bad_inode_def)
      have inv: "sb_inv ?bad" using sb_inv_unhash(1) [OF spec(1)] .
      obtain sb2 where sb2: "iput i ?bad = Some sb2" "sb_inv sb2" "\<forall>n. lookups n sb2 = lookups n ?bad"
          "conn sb2 = conn ?bad" "ihash sb2 = ihash ?bad" "s_active sb2 = s_active ?bad"
        using iput_shared [OF inv b] v(3) by auto
      have "ihash sb2 n = None" using sb2(5) sb_inv_unhash(3) [OF spec(1) h1] by simp
      moreover have "iget_find ok n generation attr sb = iget_fresh ok n generation attr sb2"
        using Some v(1) False sb2(1) type_xor by (simp add: iget_find_def l)
      moreover have "conn ?bad = conn sb1" "s_active ?bad = s_active sb1" by (simp_all add: make_bad_inode_def)
      ultimately show ?thesis
        using iget_fresh_spec [OF sb2(2) _ assms(2), of n ok generation] sb2(3,4,6) spec(2,3,6)
          sb_inv_unhash(2) [OF spec(1)] by auto
    qed
  qed
qed

lemma fuse_iget_spec:
  assumes "sb_inv sb" and "fuse_valid_type (attr_umode attr)"
  shows "\<exists>found sb'. fuse_iget ok n generation attr valid ver sb = Some (found, sb') \<and> sb_inv sb' \<and>
     s_active sb' = s_active sb \<and> iq (conn sb') = iq (conn sb) \<and>
     (case found of None \<Rightarrow> \<not> (ok 0 \<and> ok 1) \<and> (\<forall>m. lookups m sb' = lookups m sb)
      | Some i \<Rightarrow> ihash sb' n = Some i \<and> (\<exists>v. inodes sb' i = Some v \<and> nodeid v = n \<and>
          i_mode v AND S_IFMT = attr_umode attr AND S_IFMT) \<and>
          (\<forall>m. lookups m sb' = lookups m sb + (if m = n then 1 else 0)))"
proof -
  from iget_find_spec [OF assms, of ok n generation] obtain found sb1 where
      f: "iget_find ok n generation attr sb = Some (found, sb1)" "sb_inv sb1"
         "\<forall>m. lookups m sb1 = lookups m sb" "conn sb1 = conn sb" "s_active sb1 = s_active sb"
    and c: "case found of None \<Rightarrow> \<not> (ok 0 \<and> ok 1)
      | Some i \<Rightarrow> ihash sb1 n = Some i \<and> (\<exists>v. inodes sb1 i = Some v \<and> nodeid v = n \<and>
          i_mode v AND S_IFMT = attr_umode attr AND S_IFMT)" by blast
  show ?thesis
  proof (cases found)
    case None
    then show ?thesis using f c by (intro exI [of _ None] exI [of _ sb1]) (simp add: fuse_iget_def)
  next
    case (Some i)
    let ?g = "\<lambda>v. v\<lparr>nlookup := nlookup v + 1\<rparr>"
    let ?sb2 = "upd_inode i ?g sb1"
    from c Some obtain v where v: "ihash sb1 n = Some i" "inodes sb1 i = Some v" "nodeid v = n"
        "i_mode v AND S_IFMT = attr_umode attr AND S_IFMT" by auto
    have inv2: "sb_inv ?sb2" using f(2) by (rule sb_inv_tame) simp
    have l2: "lookups m ?sb2 = lookups m sb + (if m = n then 1 else 0)" for m
      using sb_invD(1) [OF f(2)] f(3) v(2,3) by (simp add: lookups_def held_upd)
    have at2: "inodes ?sb2 i = Some (?g v)" using v(2) by simp
    obtain sb' w where s': "fuse_change_attributes i attr valid ver ?sb2 = Some sb'" "sb_inv sb'"
        "\<forall>m. lookups m sb' = lookups m ?sb2" "ihash sb' = ihash ?sb2" "s_active sb' = s_active ?sb2"
        "iq (conn sb') = iq (conn ?sb2)" "inodes sb' = (inodes ?sb2)(i \<mapsto> w)" "nodeid w = nodeid (?g v)"
        "i_mode w AND S_IFMT = i_mode (?g v) AND S_IFMT"
      using change_attributes_spec [OF inv2 at2, of attr valid ver] by blast
    show ?thesis
      using Some f(1,4,5) s' v l2 by (intro exI [of _ "Some i"] exI [of _ sb']) (simp add: fuse_iget_def)
  qed
qed

subsection \<open>Dropping references and runs of operations\<close>

definition telling :: "fuse_sb \<Rightarrow> bool" where
  "telling sb \<longleftrightarrow> s_active sb \<and> iq_connected (iq (conn sb))"

lemma forget_queued:
  assumes "iq_connected (iq s)"
  shows "forget_list (iq (fuse_queue_forget n l s)) = forget_list (iq s) @ [\<lparr>fo_nodeid = n, fo_nlookup = l\<rparr>]"
    and "iq_connected (iq (fuse_queue_forget n l s))"
  using assms by (simp_all add: fuse_queue_forget_def Let_def)

lemma sb_inv_remove:
  assumes "sb_inv sb"
  shows "sb_inv (sb\<lparr>ihash := unhash i (ihash sb), inodes := (inodes sb)(i := None)\<rparr>)"
proof -
  let ?t = "sb\<lparr>ihash := unhash i (ihash sb), inodes := (inodes sb)(i := None)\<rparr>"
  have "finite (dom (inodes ?t))" using sb_invD(1) [OF assms] by (rule rev_finite_subset) (auto simp: dom_def)
  moreover have "\<exists>v. inodes ?t j = Some v \<and> nodeid v = m \<and> i_ops v \<noteq> Ops_bad" if "ihash ?t m = Some j" for m j
    using that sb_invD(3) [OF assms, of m j] by (auto simp: unhash_def split: if_split_asm)
  moreover have "1 \<le> i_count v \<and> ops_fit v" if "inodes ?t j = Some v" for j v
    using that sb_invD(4) [OF assms] by (force split: if_split_asm)
  ultimately show ?thesis using sb_invD(2) [OF assms] by (simp add: sb_inv_def)
qed

lemma iput_spec:
  assumes inv: "sb_inv sb" and run: "iput i sb = Some sb'" and tell: "telling sb"
  shows "sb_inv sb' \<and> telling sb' \<and> (\<forall>n. lookups n sb' = lookups n sb)"
proof -
  from run obtain v where v: "inodes sb i = Some v" by (auto simp: iput_def split: option.split_asm)
  show ?thesis
  proof (cases "1 < i_count v")
    case True
    then show ?thesis using iput_shared [OF inv v] run tell by (auto simp: telling_def)
  next
    case False
    let ?q = "fuse_queue_forget (nodeid v) (nlookup v) (conn sb)"
    let ?t = "sb\<lparr>ihash := unhash i (ihash sb), inodes := (inodes sb)(i := None)\<rparr>"
    have sb': "inodes sb' = inodes ?t" "ihash sb' = ihash ?t" "next_ino sb' = next_ino ?t" "conn sb' = ?q"
        "s_active sb' = s_active sb"
      using run v False tell
      by (auto simp: iput_def fuse_evict_inode_def fuse_destroy_inode_def telling_def Let_def upd_inode_def
          vfs_def upd_conn_def split: if_split_asm)
    have "sb_inv sb'" using sb_inv_remove [OF inv] sb_inv_cong [OF sb'(1-3)] by blast
    moreover have "lookups n sb' = lookups n sb" for n
      using forget_queued(1) [of "conn sb" "nodeid v" "nlookup v"] tell v sb_invD(1) [OF inv]
      by (simp add: lookups_def sb'(1,4) telling_def held_upd)
    moreover have "telling sb'" using forget_queued(2) tell sb'(4,5) by (simp add: telling_def)
    ultimately show ?thesis by blast
  qed
qed

lemma reverse_inval_spec:
  assumes inv: "sb_inv sb" and run: "fuse_reverse_inval_inode n offset len sb = Some (err, sb')" and tell: "telling sb"
  shows "sb_inv sb' \<and> telling sb' \<and> (\<forall>m. lookups m sb' = lookups m sb)"
proof -
  obtain found sb1 where l: "ilookup5 n sb = (found, sb1)" by force
  note spec = ilookup5_spec [OF inv l]
  have tell1: "telling sb1" using tell spec(3,6) by (simp add: telling_def)
  show ?thesis
  proof (cases found)
    case None
    then show ?thesis using run spec(8) inv tell by (simp add: fuse_reverse_inval_inode_def l)
  next
    case (Some i)
    let ?t = "vfs (Forget_acls i) (fuse_invalidate_attr i sb1)"
    let ?cs = "if 0 \<le>s offset then [Invalidate_range i (fst (inval_range offset len)) (snd (inval_range offset len))] else []"
    have t: "sb_inv ?t" "telling ?t" "lookups m ?t = lookups m sb" for m
      using sb_inv_tame [OF spec(1), of "\<lambda>v. v\<lparr>i_time := 0\<rparr>" i] tell1 spec(2) sb_invD(1) [OF spec(1)]
      by (simp_all add: fuse_invalidate_attr_def telling_def)
    have keep: "sb_inv (fold vfs ?cs ?t)" "telling (fold vfs ?cs ?t)" "lookups m (fold vfs ?cs ?t) = lookups m sb" for m
      using t by (auto simp: telling_def)
    have "iput i (fold vfs ?cs ?t) = Some sb'"
      using run Some by (simp add: fuse_reverse_inval_inode_def l Let_def split: if_split_asm)
    from iput_spec [OF keep(1) this keep(2)] show ?thesis using keep(3) by simp
  qed
qed

datatype inode_op =
    Op_iget oom u64 u32 fuse_attr u64 u64
  | Op_iput ino_id
  | Op_inval u64 u64 u64
  | Op_attr ino_id fuse_attr u64 u64
  | Op_grow ino_id u64

text \<open>One operation: the node the server has told of one more lookup, if any, and the state after it.\<close>

fun inode_step :: "inode_op \<Rightarrow> fuse_sb \<Rightarrow> (u64 option \<times> fuse_sb) option" where
  "inode_step (Op_iget ok n g a t ver) sb =
     map_option (\<lambda>(found, sb'). (map_option (\<lambda>_. n) found, sb')) (fuse_iget ok n g a t ver sb)"
| "inode_step (Op_iput i) sb = map_option (\<lambda>sb'. (None, sb')) (iput i sb)"
| "inode_step (Op_inval n off len) sb =
     map_option (\<lambda>(_, sb'). (None, sb')) (fuse_reverse_inval_inode n off len sb)"
| "inode_step (Op_attr i a t ver) sb = map_option (\<lambda>sb'. (None, sb')) (fuse_change_attributes i a t ver sb)"
| "inode_step (Op_grow i pos) sb = map_option (\<lambda>(_, sb'). (None, sb')) (fuse_write_update_size i pos sb)"

fun op_valid :: "inode_op \<Rightarrow> bool" where
  "op_valid (Op_iget ok n g a t ver) \<longleftrightarrow> fuse_valid_type (attr_umode a)"
| "op_valid _ \<longleftrightarrow> True"

fun inode_run :: "inode_op list \<Rightarrow> fuse_sb \<Rightarrow> (u64 list \<times> fuse_sb) option" where
  "inode_run [] sb = Some ([], sb)"
| "inode_run (p # ps) sb = do {
     (told, sb1) \<leftarrow> inode_step p sb;
     (rest, sb2) \<leftarrow> inode_run ps sb1;
     Some ((case told of None \<Rightarrow> rest | Some n \<Rightarrow> n # rest), sb2)}"

lemma write_update_spec:
  assumes "sb_inv sb" and "fuse_write_update_size i pos sb = Some (grow, sb')"
  shows "sb_inv sb'" and "lookups n sb' = lookups n sb" and "s_active sb' = s_active sb"
    and "iq (conn sb') = iq (conn sb)"
proof -
  let ?ver = "attr_version (conn sb) + 1" and ?c = "sb\<lparr>conn := (conn sb)\<lparr>attr_version := attr_version (conn sb) + 1\<rparr>\<rparr>"
  let ?f = "\<lambda>w. w\<lparr>fi_attr_version := ?ver, i_size := (if grow then pos else i_size w)\<rparr>"
  have sb': "sb' = upd_inode i ?f ?c"
    using assms(2) by (auto simp: fuse_write_update_size_def Let_def split: option.split_asm)
  have "tame ?f" by (rule tame_simple) simp_all
  then show "sb_inv sb'" unfolding sb' using assms(1) by (intro sb_inv_tame) simp_all
  show "lookups n sb' = lookups n sb"
    using sb_invD(1) [OF assms(1)] by (simp add: sb' lookups_def)
  show "s_active sb' = s_active sb" "iq (conn sb') = iq (conn sb)" by (simp_all add: sb')
qed

lemma inode_step_spec:
  assumes "sb_inv sb" and "telling sb" and "op_valid p" and "inode_step p sb = Some (told, sb')"
  shows "sb_inv sb' \<and> telling sb' \<and> (\<forall>n. lookups n sb' = lookups n sb + (if told = Some n then 1 else 0))"
proof (cases p)
  case (Op_iget ok n g a t ver)
  obtain found sb1 where "fuse_iget ok n g a t ver sb = Some (found, sb1)" "sb_inv sb1" "s_active sb1 = s_active sb"
      "iq (conn sb1) = iq (conn sb)"
    and "case found of None \<Rightarrow> \<not> (ok 0 \<and> ok 1) \<and> (\<forall>m. lookups m sb1 = lookups m sb)
      | Some i \<Rightarrow> ihash sb1 n = Some i \<and> (\<exists>v. inodes sb1 i = Some v \<and> nodeid v = n \<and>
          i_mode v AND S_IFMT = attr_umode a AND S_IFMT) \<and>
          (\<forall>m. lookups m sb1 = lookups m sb + (if m = n then 1 else 0))"
    using fuse_iget_spec [of sb a ok n g t ver] assms(1,3) Op_iget by auto
  then show ?thesis
    using assms(2,4) Op_iget by (cases found) (auto simp: telling_def)
next
  case (Op_iput i)
  then have "iput i sb = Some sb'" "told = None" using assms(4) by auto
  then show ?thesis using iput_spec [OF assms(1) _ assms(2)] by simp
next
  case (Op_inval n off len)
  then obtain err where "fuse_reverse_inval_inode n off len sb = Some (err, sb')" "told = None"
    using assms(4) by auto
  then show ?thesis using reverse_inval_spec [OF assms(1) _ assms(2)] by simp
next
  case (Op_attr i a t ver)
  then have run: "fuse_change_attributes i a t ver sb = Some sb'" and told: "told = None" using assms(4) by auto
  from run obtain v where "inodes sb i = Some v" by (auto simp: fuse_change_attributes_def split: option.split_asm)
  from change_attributes_spec [OF assms(1) this, of a t ver] show ?thesis
    using run told assms(2) by (auto simp: telling_def)
next
  case (Op_grow i pos)
  then obtain grow where "fuse_write_update_size i pos sb = Some (grow, sb')" "told = None" using assms(4) by auto
  then show ?thesis using write_update_spec [OF assms(1)] assms(2) by (simp add: telling_def)
qed

lemma inode_run_spec:
  assumes "sb_inv sb" and "telling sb" and "\<forall>p \<in> set ps. op_valid p" and "inode_run ps sb = Some (told, sb')"
  shows "sb_inv sb' \<and> telling sb' \<and> (\<forall>n. lookups n sb' = lookups n sb + of_nat (count_list told n))"
  using assms
proof (induction ps arbitrary: sb told)
  case (Cons p ps)
  from Cons.prems(4) obtain t sb1 rest where p: "inode_step p sb = Some (t, sb1)"
      and ps: "inode_run ps sb1 = Some (rest, sb')" and told: "told = (case t of None \<Rightarrow> rest | Some n \<Rightarrow> n # rest)"
    by (auto elim!: bind_Some_E)
  have one: "sb_inv sb1" "telling sb1" "lookups n sb1 = lookups n sb + (if t = Some n then 1 else 0)" for n
    using inode_step_spec [OF Cons.prems(1,2) _ p] Cons.prems(3) by auto
  have "sb_inv sb' \<and> telling sb' \<and> (\<forall>n. lookups n sb' = lookups n sb1 + of_nat (count_list rest n))"
    using Cons.IH [OF one(1,2) _ ps] Cons.prems(3) by auto
  then show ?case using one(3) told by (auto split: option.split)
qed simp

subsection \<open>File handles as words\<close>

lemma low_half: "n AND 0xffffffff = take_bit 32 (n :: u64)"
proof -
  have "(0xffffffff :: u64) = mask 32" by (simp add: mask_eq_exp_minus_1)
  then show ?thesis by (simp add: take_bit_eq_mask)
qed

lemma split_join_u64:
  fixes n :: u64
  defines "hi \<equiv> (ucast (drop_bit 32 n) :: u32)" and "lo \<equiv> (ucast (n AND 0xffffffff) :: u32)"
  shows "push_bit 32 (ucast hi) OR ucast lo = n"
  unfolding hi_def lo_def low_half
  by (rule bit_word_eqI) (auto simp: bit_simps)

lemma fh_handle_words:
  "fh_handle (fh_words v @ rest) 0 = \<lparr>h_nodeid = nodeid v, h_generation = i_generation v\<rparr>"
  "fh_handle (fh_words v @ fh_words p) 3 = \<lparr>h_nodeid = nodeid p, h_generation = i_generation p\<rparr>"
  by (simp_all add: fh_handle_def fh_words_def split_join_u64)

lemma get_dentry_hashed:
  assumes "sb_inv sb" and "inodes sb i = Some v" and "ihash sb (nodeid v) = Some i" and "nodeid v \<noteq> 0" and "alias_err i = 0"
  shows "\<exists>sb'. fuse_get_dentry lookup alias_err \<lparr>h_nodeid = nodeid v, h_generation = i_generation v\<rparr> sb =
     Some (Dentry i (nodeid v \<noteq> 1), sb') \<and> inodes sb' = (inodes sb)(i \<mapsto> v\<lparr>i_count := i_count v + 1\<rparr>)"
  using assms by (simp add: fuse_get_dentry_def ilookup5_def get_dentry_found_def)

subsection \<open>The range of an invalidation\<close>

lemma sint_last_byte:
  fixes offset len :: u64
  assumes "0 \<le> sint offset" and "0 < sint len" and "sint offset + sint len < 2 ^ 63"
  shows "sint (offset + len - 1) = sint offset + sint len - 1"
proof -
  let ?y = "sint offset + sint len - 1"
  have "offset + len - 1 = word_of_int ?y" by simp
  then have "sint (offset + len - 1) = signed_take_bit 63 ?y" by (simp only: sint_sbintrunc') simp
  also have "\<dots> = ?y" using assms by (intro signed_take_bit_int_eq_self) auto
  finally show ?thesis .
qed

lemma sint_page: "sint (signed_drop_bit PAGE_SHIFT x) = sint x div int PAGE_SIZE"
  by (simp add: sint_signed_drop_bit_eq PAGE_SIZE_shift drop_bit_eq_div)

subsection \<open>Properties\<close>

text \<open>
  C10: in any run of the inode operations the server's lookup counts are exact: for every node, what the
  inodes hold plus what the queue of forgets carries is what it was at the start plus one for each
  \<open>fuse_iget\<close> that returned an inode, however inodes go bad, are shared or are evicted meanwhile.
\<close>

theorem lookup_counts_exact:
  assumes "sb_inv sb" and "telling sb" and "\<forall>p \<in> set ps. op_valid p" and "inode_run ps sb = Some (told, sb')"
  shows "lookups n sb' = lookups n sb + of_nat (count_list told n)"
  using inode_run_spec [OF assms] by blast

text \<open>
  C21: \<open>fuse_iget\<close> with the attributes of a valid file type never runs into its \<open>BUG\<close>: it fails only
  when memory does, and otherwise returns the hashed inode of the node, with the type of the attributes
  and operations that fit it; the store of inodes stays well formed.
\<close>

theorem iget_well_typed:
  assumes "sb_inv sb" and "fuse_valid_type (attr_umode attr)"
  shows "\<exists>found sb'. fuse_iget ok n generation attr valid ver sb = Some (found, sb') \<and> sb_inv sb' \<and>
     (found = None \<longrightarrow> \<not> (ok 0 \<and> ok 1)) \<and>
     (\<forall>i. found = Some i \<longrightarrow> ihash sb' n = Some i \<and> (\<exists>v. inodes sb' i = Some v \<and> nodeid v = n \<and>
        i_mode v AND S_IFMT = attr_umode attr AND S_IFMT \<and> ops_fit v \<and> i_ops v \<noteq> Ops_bad))"
proof -
  obtain found sb' where run: "fuse_iget ok n generation attr valid ver sb = Some (found, sb')" and inv: "sb_inv sb'"
    and c: "case found of None \<Rightarrow> \<not> (ok 0 \<and> ok 1) \<and> (\<forall>m. lookups m sb' = lookups m sb)
      | Some i \<Rightarrow> ihash sb' n = Some i \<and> (\<exists>v. inodes sb' i = Some v \<and> nodeid v = n \<and>
          i_mode v AND S_IFMT = attr_umode attr AND S_IFMT) \<and>
          (\<forall>m. lookups m sb' = lookups m sb + (if m = n then 1 else 0))"
    using fuse_iget_spec [OF assms, of ok n generation valid ver] by blast
  have "ops_fit v \<and> i_ops v \<noteq> Ops_bad" if "ihash sb' n = Some i" "inodes sb' i = Some v" for i v
    using sb_invD(3) [OF inv that(1)] sb_invD(4) [OF inv that(2)] that(2) by auto
  with run inv c show ?thesis by (cases found) auto
qed

text \<open>
  Attributes the server sent before a local write cannot undo it: a reply stamped with a version
  from before \<open>fuse_write_update_size\<close> is ignored, so that the size, the times and every other
  attribute are those the write left.
\<close>

theorem stale_attributes_ignored:
  assumes "inodes sb i = Some v" and "ver = fuse_get_attr_version sb" and "ver \<noteq> 0" and "ver \<noteq> - 1"
    and "fuse_write_update_size i pos sb = Some (grow, sb1)"
  shows "fuse_change_attributes i attr valid ver sb1 = Some sb1 \<and>
     (\<exists>w. inodes sb1 i = Some w \<and> sint (i_size w) = max (sint (i_size v)) (sint pos))"
proof -
  have "ver < ver + 1" using assms(4) by (simp add: word_less_nat_alt unat_inc_not_max)
  then show ?thesis
    using assms
    by (auto simp: fuse_write_update_size_def fuse_change_attributes_def attr_stale_def Let_def
        fuse_get_attr_version_def word_sless_alt max_def)
qed

text \<open>
  C22: a file handle leads back to its inode: decoding what \<open>fuse_encode_fh\<close> wrote finds the inode with
  one more reference, and its parent if the handle has one.
\<close>

theorem file_handle_roundtrip:
  assumes "sb_inv sb" and "inodes sb i = Some v" and "ihash sb (nodeid v) = Some i" and "nodeid v \<noteq> 0"
    and "inodes sb j = Some p" and "ihash sb (nodeid p) = Some j" and "nodeid p \<noteq> 0"
    and "\<forall>k. alias_err k = 0" and "fuse_encode_fh v max_len (if with_parent then Some p else None) = (ty, len, fh)"
    and "(if with_parent then 6 else 3) \<le> max_len"
  shows "length fh = len \<and> len \<le> max_len \<and>
     (\<exists>sb'. fuse_fh_to_dentry lookup alias_err fh len ty sb = Some (Dentry i (nodeid v \<noteq> 1), sb') \<and>
        inodes sb' = (inodes sb)(i \<mapsto> v\<lparr>i_count := i_count v + 1\<rparr>)) \<and>
     (\<exists>sb'. fuse_fh_to_parent lookup alias_err fh len ty sb =
        Some (if with_parent then Dentry j (nodeid p \<noteq> 1) else No_dentry, sb'))"
proof -
  note found = get_dentry_hashed [OF assms(1,2,3,4), of alias_err lookup]
    get_dentry_hashed [OF assms(1,5,6,7), of alias_err lookup]
  have len: "length (fh_words x) = 3" for x by (simp add: fh_words_def)
  show ?thesis
  proof (cases with_parent)
    case True
    then have "ty = 0x82" "len = 6" "fh = fh_words v @ fh_words p"
      using assms(9,10) by (auto simp: fuse_encode_fh_def Let_def)
    then show ?thesis
      using True found assms(8,10) len
      by (auto simp: fuse_fh_to_dentry_def fuse_fh_to_parent_def fh_handle_words)
  next
    case False
    then have "ty = 0x81" "len = 3" "fh = fh_words v @ []"
      using assms(9,10) by (auto simp: fuse_encode_fh_def Let_def)
    then show ?thesis
      using False found assms(8,10) len fh_handle_words(1) [of v "[]"]
      by (auto simp: fuse_fh_to_dentry_def fuse_fh_to_parent_def)
  qed
qed

text \<open>
  The server's invalidation of a range of bytes covers exactly the pages these bytes lie on, as long
  as the range ends within the largest file offset.
\<close>

theorem inval_range_exact:
  assumes "0 \<le> sint offset" and "0 < sint len" and "sint offset + sint len < 2 ^ 63"
    and "inval_range offset len = (pg_start, pg_end)"
  shows "sint pg_start \<le> k \<and> k \<le> sint pg_end \<longleftrightarrow>
     (\<exists>b. sint offset \<le> b \<and> b < sint offset + sint len \<and> b div int PAGE_SIZE = k)"
proof -
  let ?P = "int PAGE_SIZE" and ?o = "sint offset" and ?l = "sint len"
  have P: "0 < ?P" by simp
  have f: "sint pg_start = ?o div ?P" and l: "sint pg_end = (?o + ?l - 1) div ?P"
    using assms by (auto simp: inval_range_def sint_page sint_last_byte word_sle_eq)
  show ?thesis
  proof
    assume k: "sint pg_start \<le> k \<and> k \<le> sint pg_end"
    show "\<exists>b. ?o \<le> b \<and> b < ?o + ?l \<and> b div ?P = k"
    proof (cases "?o div ?P = k")
      case True
      then show ?thesis using assms(2) by (intro exI [of _ ?o]) simp
    next
      case False
      then have "?o div ?P < k" using k f by simp
      then have "?o < k * ?P" using P zdiv_mono1 [of "k * ?P" ?o ?P] by (cases "?o < k * ?P") auto
      moreover have "k * ?P \<le> ?o + ?l - 1"
        using mult_right_mono [of k "(?o + ?l - 1) div ?P" ?P] k l P
          div_mult_mod_eq [of "?o + ?l - 1" ?P] pos_mod_sign [OF P, of "?o + ?l - 1"] by linarith
      ultimately show ?thesis using P by (intro exI [of _ "k * ?P"]) simp
    qed
  next
    assume "\<exists>b. ?o \<le> b \<and> b < ?o + ?l \<and> b div ?P = k"
    then obtain b where b: "?o \<le> b" "b \<le> ?o + ?l - 1" "b div ?P = k" by auto
    then show "sint pg_start \<le> k \<and> k \<le> sint pg_end"
      using P f l zdiv_mono1 [of ?o b ?P] zdiv_mono1 [of b "?o + ?l - 1" ?P] by auto
  qed
qed

subsection \<open>Examples\<close>

definition example_attr :: "u32 \<Rightarrow> u64 \<Rightarrow> fuse_attr" where
  "example_attr mode sz = \<lparr>at_ino = 7, at_size = sz, at_blocks = 1, at_atime = zero_time, at_mtime = zero_time,
     at_ctime = zero_time, at_mode = mode, at_nlink = 1, at_uid = 0, at_gid = 0, at_rdev = 0, at_blksize = 4096\<rparr>"

definition example_inode :: "u64 \<Rightarrow> fuse_inode" where
  "example_inode n = new_inode\<lparr>nodeid := n, i_mode := S_IFREG, i_ops := Ops_file, nlookup := 1, i_size := 100\<rparr>"

definition example_sb :: fuse_sb where
  "example_sb = \<lparr>conn = example_conn, inodes = [0 \<mapsto> example_inode 7, 1 \<mapsto> example_inode 8],
     ihash = [7 \<mapsto> 0, 8 \<mapsto> 1], next_ino = 2, s_active = True, s_blocksize_bits = 12, sizeof_ino_t = 8,
     vfs_calls = []\<rparr>"

lemmas example_sb_defs = example_sb_def example_inode_def new_inode_def example_attr_def example_defs

lemma example_sb_inv: "sb_inv example_sb" "telling example_sb"
  by (auto simp: sb_inv_def telling_def ops_fit_def S_ISREG_def mode_defs example_sb_defs split: if_split_asm)

lemma example_attr_valid: "fuse_valid_type (attr_umode (example_attr 0x81a4 n))"
  by (simp add: fuse_valid_type_def attr_umode_def S_ISREG_def mode_defs example_attr_def)

lemma lookup_counts_exact_witness:
  "\<exists>told sb'. inode_run [Op_iput 1, Op_iget (\<lambda>_. True) 8 0 (example_attr 0x81a4 9) 0 0] example_sb = Some (told, sb') \<and>
     lookups 8 sb' = lookups 8 example_sb + of_nat (count_list told 8)"
proof -
  let ?ops = "[Op_iput 1, Op_iget (\<lambda>_. True) 8 0 (example_attr 0x81a4 9) 0 0]"
  obtain sb1 where p: "iput 1 example_sb = Some sb1"
    by (simp add: iput_def fuse_evict_inode_def fuse_destroy_inode_def example_sb_defs Let_def)
  have inv: "sb_inv sb1" using iput_spec [OF example_sb_inv(1) p example_sb_inv(2)] by blast
  obtain found sb2 where "fuse_iget (\<lambda>_. True) 8 0 (example_attr 0x81a4 9) 0 0 sb1 = Some (found, sb2)"
    using fuse_iget_spec [OF inv example_attr_valid, of "\<lambda>_. True" 8 0 9 0 0] by blast
  with p obtain told sb' where run: "inode_run ?ops example_sb = Some (told, sb')" by simp
  have "\<forall>p \<in> set ?ops. op_valid p" using example_attr_valid by simp
  from lookup_counts_exact [OF example_sb_inv this run] run show ?thesis by blast
qed

lemma iget_well_typed_witness:
  "\<exists>sb' i v. fuse_iget (\<lambda>_. True) 7 0 (example_attr 0x81a4 9) 0 0 example_sb = Some (Some i, sb') \<and>
     inodes sb' i = Some v \<and> ops_fit v"
  using iget_well_typed [OF example_sb_inv(1) example_attr_valid, of "\<lambda>_. True" 7 0 9 0 0]
  by (metis not_None_eq)

lemma stale_attributes_ignored_witness:
  "\<exists>sb1. fuse_write_update_size 0 5000 example_sb = Some (True, sb1) \<and>
     fuse_change_attributes 0 (example_attr 0x81a4 100) 0 1 sb1 = Some sb1"
proof -
  have ver: "1 = fuse_get_attr_version example_sb" by (simp add: fuse_get_attr_version_def example_sb_defs)
  have v: "inodes example_sb 0 = Some (example_inode 7)" by (simp add: example_sb_def)
  obtain sb1 where run: "fuse_write_update_size 0 5000 example_sb = Some (True, sb1)"
    by (simp add: fuse_write_update_size_def Let_def example_sb_defs word_sless_alt)
  from stale_attributes_ignored [OF v ver _ _ run] run show ?thesis by auto
qed

lemma file_handle_roundtrip_witness:
  "\<exists>fh sb'. fuse_encode_fh (example_inode 7) 10 (Some (example_inode 8)) = (0x82, 6, fh) \<and>
     fuse_fh_to_dentry (\<lambda>_ _. None) (\<lambda>_. 0) fh 6 0x82 example_sb = Some (Dentry 0 True, sb')"
proof -
  obtain fh where fh: "fuse_encode_fh (example_inode 7) 10 (if True then Some (example_inode 8) else None) = (0x82, 6, fh)"
    by (simp add: fuse_encode_fh_def Let_def)
  have "nodeid (example_inode 7) = 7" "nodeid (example_inode 8) = 8" by (simp_all add: example_inode_def)
  then show ?thesis
    using file_handle_roundtrip [OF example_sb_inv(1) _ _ _ _ _ _ _ fh, of 0 1 "\<lambda>_. 0" "\<lambda>_ _. None"] fh
    by (auto simp: example_sb_def)
qed

lemma inval_range_exact_witness:
  "\<exists>pg_start pg_end. inval_range 5000 4000 = (pg_start, pg_end) \<and> (sint pg_start \<le> 2 \<and> 2 \<le> sint pg_end)"
proof -
  obtain pg_start pg_end where r: "inval_range 5000 4000 = (pg_start, pg_end)" by force
  show ?thesis
    using inval_range_exact [OF _ _ _ r, of 2] r by (auto simp: PAGE_SIZE_def intro: exI [of _ 8192])
qed

end
