(* ===== verification/Fuse_Control.thy ===== *)
theory Fuse_Control
  imports Fuse_Inode
begin

text \<open>
  The control file system (\<open>control.c\<close>): a directory per connection with the files \<open>waiting\<close>, \<open>abort\<close>,
  \<open>max_background\<close> and \<open>congestion_threshold\<close>, and what reading and writing them does.

  \<^item> \<open>ctl_fs\<close> is what \<open>fuse_mutex\<close> protects: whether the single instance is mounted
    (\<open>fuse_control_sb\<close>), its dentries, the connections and the order of \<open>fuse_conn_list\<close>.
  \<^item> A dentry whose inode could not be allocated has \<open>None\<close> for it; following that pointer is a crash.
  \<^item> \<open>ctl_dentry\<close> and \<open>ctl_ndents\<close> are the array and the counter in \<open>struct fuse_conn\<close>.
\<close>

subsection \<open>State\<close>

type_synonym conn_id = nat
type_synonym dentry_id = nat

datatype ctl_fop = Ctl_dir_ops | Ctl_waiting_ops | Ctl_abort_ops | Ctl_max_background_ops | Ctl_congestion_ops

record ctl_inode =
  ci_mode :: umode
  ci_uid :: u32
  ci_gid :: u32
  ci_nlink :: nat
  ci_fop :: ctl_fop
  ci_private :: "conn_id option"

record ctl_dent =
  cd_parent :: "dentry_id option"
  cd_name :: string
  cd_inode :: "ctl_inode option"

record ctl_conn =
  cc_fc :: fuse_state
  cc_dev :: u32
  ctl_ndents :: nat
  ctl_dentry :: "nat \<rightharpoonup> dentry_id"

record ctl_fs =
  control_sb :: bool
  root_nlink :: int
  dentries :: "dentry_id \<rightharpoonup> ctl_dent"
  next_dentry :: dentry_id
  conns :: "conn_id \<rightharpoonup> ctl_conn"
  conn_list :: "conn_id list"

definition upd_cc :: "conn_id \<Rightarrow> (ctl_conn \<Rightarrow> ctl_conn) \<Rightarrow> ctl_fs \<Rightarrow> ctl_fs" where
  "upd_cc c f ctl = ctl\<lparr>conns := (conns ctl)(c := map_option f (conns ctl c))\<rparr>"

definition upd_fc :: "(fuse_state \<Rightarrow> fuse_state) \<Rightarrow> ctl_conn \<Rightarrow> ctl_conn" where
  "upd_fc f cc = cc\<lparr>cc_fc := f (cc_fc cc)\<rparr>"

text \<open>\<open>sprintf\<close> of an unsigned number in decimal.\<close>

fun dec_digits :: "nat \<Rightarrow> string" where
  "dec_digits n = (if n < 10 then [char_of (48 + n)] else dec_digits (n div 10) @ [char_of (48 + n mod 10)])"

declare dec_digits.simps [simp del]

subsection \<open>Files\<close>

text \<open>
  \<open>fuse_ctl_file_conn_get\<close>: \<open>d\<close> is the dentry of the open file. The result is the connection, with a
  reference taken.
\<close>

definition file_private :: "dentry_id \<Rightarrow> ctl_fs \<Rightarrow> conn_id option" where
  "file_private d ctl = Option.bind (dentries ctl d) (\<lambda>e. Option.bind (cd_inode e) ci_private)"

definition fuse_ctl_file_conn_get :: "dentry_id \<Rightarrow> ctl_fs \<Rightarrow> conn_id option \<times> ctl_fs" where
  "fuse_ctl_file_conn_get d ctl =
     (case file_private d ctl of
        None \<Rightarrow> (None, ctl)
      | Some c \<Rightarrow> (Some c, upd_cc c (upd_fc fuse_conn_get) ctl))"

definition ctl_conn_put :: "conn_id \<Rightarrow> ctl_fs \<Rightarrow> ctl_fs option" where
  "ctl_conn_put c ctl = do {
     cc \<leftarrow> conns ctl c;
     s \<leftarrow> fuse_conn_put (cc_fc cc);
     Some (upd_cc c (upd_fc (\<lambda>_. s)) ctl)}"

definition fuse_conn_abort_write :: "dentry_id \<Rightarrow> nat \<Rightarrow> ctl_fs \<Rightarrow> (int \<times> ctl_fs) option" where
  "fuse_conn_abort_write d count ctl =
     (case fuse_ctl_file_conn_get d ctl of
        (None, ctl1) \<Rightarrow> Some (int count, ctl1)
      | (Some c, ctl1) \<Rightarrow> do {
          cc \<leftarrow> conns ctl1 c;
          s \<leftarrow> fuse_abort_conn (cc_fc cc);
          ctl2 \<leftarrow> ctl_conn_put c (upd_cc c (upd_fc (\<lambda>_. s)) ctl1);
          Some (int count, ctl2)})"

text \<open>\<open>simple_read_from_buffer\<close> for a buffer \<open>tmp\<close>: what is copied to the caller.\<close>

definition simple_read :: "nat \<Rightarrow> nat \<Rightarrow> string \<Rightarrow> string" where
  "simple_read len ppos tmp = take len (drop ppos tmp)"

text \<open>
  \<open>fuse_conn_waiting_read\<close>: \<open>private\<close> is the number kept in \<open>file->private_data\<close> since the read at offset
  0; the result has the bytes and its new value. A negative number has a sign.
\<close>

definition dec_int :: "int \<Rightarrow> string" where
  "dec_int n = (if n < 0 then CHR ''-'' # dec_digits (nat (- n)) else dec_digits (nat n))"

definition fuse_conn_waiting_read ::
    "dentry_id \<Rightarrow> int \<Rightarrow> nat \<Rightarrow> nat \<Rightarrow> ctl_fs \<Rightarrow> (string \<times> int \<times> ctl_fs) option" where
  "fuse_conn_waiting_read d private len ppos ctl =
     (if ppos = 0 then
        (case fuse_ctl_file_conn_get d ctl of
           (None, ctl1) \<Rightarrow> Some ([], private, ctl1)
         | (Some c, ctl1) \<Rightarrow> do {
             cc \<leftarrow> conns ctl1 c;
             let v = num_waiting (cc_fc cc);
             ctl2 \<leftarrow> ctl_conn_put c ctl1;
             Some (simple_read len ppos (dec_int v @ [CHR 0x0A]), v, ctl2)})
      else Some (simple_read len ppos (dec_int private @ [CHR 0x0A]), private, ctl))"

definition fuse_conn_limit_read :: "nat \<Rightarrow> nat \<Rightarrow> u32 \<Rightarrow> string" where
  "fuse_conn_limit_read len ppos val = simple_read len ppos (dec_digits (unat val) @ [CHR 0x0A])"

text \<open>
  \<open>fuse_conn_limit_write\<close>: \<open>t\<close> is what \<open>kstrtoul_from_user\<close> reads, an error or the number. The second
  result is the new \<open>*val\<close>, if it is set.
\<close>

definition fuse_conn_limit_write ::
    "bool \<Rightarrow> int + u64 \<Rightarrow> nat \<Rightarrow> nat \<Rightarrow> u32 \<Rightarrow> int \<times> u32 option" where
  "fuse_conn_limit_write cap t count ppos global_limit =
     (if ppos \<noteq> 0 then (- EINVAL, None)
      else case t of
          Inl err \<Rightarrow> (err, None)
        | Inr n \<Rightarrow>
            let limit = (if cap then 65535 else min 65535 global_limit) in
            if ucast limit < n then (- EINVAL, None) else (int count, Some (ucast n)))"

definition ctl_limit_read :: "(fuse_state \<Rightarrow> u32) \<Rightarrow> dentry_id \<Rightarrow> nat \<Rightarrow> nat \<Rightarrow> ctl_fs \<Rightarrow> (string \<times> ctl_fs) option" where
  "ctl_limit_read field d len ppos ctl =
     (case fuse_ctl_file_conn_get d ctl of
        (None, ctl1) \<Rightarrow> Some ([], ctl1)
      | (Some c, ctl1) \<Rightarrow> do {
          cc \<leftarrow> conns ctl1 c;
          ctl2 \<leftarrow> ctl_conn_put c ctl1;
          Some (fuse_conn_limit_read len ppos (field (cc_fc cc)), ctl2)})"

definition ctl_limit_write ::
    "(u32 \<Rightarrow> fuse_state \<Rightarrow> fuse_state) \<Rightarrow> u32 \<Rightarrow> dentry_id \<Rightarrow> bool \<Rightarrow> int + u64 \<Rightarrow> nat \<Rightarrow> nat \<Rightarrow> ctl_fs \<Rightarrow>
       (int \<times> ctl_fs) option" where
  "ctl_limit_write set_field global_limit d cap t count ppos ctl =
     (case fuse_conn_limit_write cap t count ppos global_limit of
        (ret, None) \<Rightarrow> Some (ret, ctl)
      | (ret, Some val) \<Rightarrow>
          if ret \<le> 0 then Some (ret, ctl)
          else (case fuse_ctl_file_conn_get d ctl of
              (None, ctl1) \<Rightarrow> Some (ret, ctl1)
            | (Some c, ctl1) \<Rightarrow> map_option (\<lambda>ctl2. (ret, ctl2))
                (ctl_conn_put c (upd_cc c (upd_fc (set_field val)) ctl1))))"

definition fuse_conn_max_background_read :: "dentry_id \<Rightarrow> nat \<Rightarrow> nat \<Rightarrow> ctl_fs \<Rightarrow> (string \<times> ctl_fs) option" where
  "fuse_conn_max_background_read = ctl_limit_read max_background"

definition fuse_conn_congestion_threshold_read :: "dentry_id \<Rightarrow> nat \<Rightarrow> nat \<Rightarrow> ctl_fs \<Rightarrow> (string \<times> ctl_fs) option" where
  "fuse_conn_congestion_threshold_read = ctl_limit_read congestion_threshold"

definition fuse_conn_max_background_write ::
    "module_globals \<Rightarrow> dentry_id \<Rightarrow> int + u64 \<Rightarrow> nat \<Rightarrow> nat \<Rightarrow> ctl_fs \<Rightarrow> (int \<times> ctl_fs) option" where
  "fuse_conn_max_background_write g d t count ppos ctl =
     ctl_limit_write (\<lambda>v s. s\<lparr>max_background := v\<rparr>) (max_user_bgreq g) d (cap_sys_admin g) t count ppos ctl"

definition fuse_conn_congestion_threshold_write ::
    "module_globals \<Rightarrow> dentry_id \<Rightarrow> int + u64 \<Rightarrow> nat \<Rightarrow> nat \<Rightarrow> ctl_fs \<Rightarrow> (int \<times> ctl_fs) option" where
  "fuse_conn_congestion_threshold_write g d t count ppos ctl =
     ctl_limit_write (\<lambda>v s. s\<lparr>congestion_threshold := v\<rparr>) (max_user_congthresh g) d (cap_sys_admin g) t count ppos ctl"

subsection \<open>Directories\<close>

text \<open>
  \<open>fuse_ctl_add_dentry\<close>: \<open>ok 0\<close> is the allocation of the dentry, \<open>ok 1\<close> that of the inode. \<open>None\<close> is the
  \<open>BUG_ON\<close> for a full array.
\<close>

definition fuse_ctl_add_dentry ::
    "oom \<Rightarrow> dentry_id option \<Rightarrow> conn_id \<Rightarrow> string \<Rightarrow> umode \<Rightarrow> nat \<Rightarrow> ctl_fop \<Rightarrow> ctl_fs \<Rightarrow>
       (dentry_id option \<times> ctl_fs) option" where
  "fuse_ctl_add_dentry ok parent c name mode nlink fop ctl =
     (case conns ctl c of
        None \<Rightarrow> None
      | Some cc \<Rightarrow>
          if FUSE_CTL_NUM_DENTRIES \<le> ctl_ndents cc then None
          else if \<not> ok 0 then Some (None, ctl)
          else
            let d = next_dentry ctl;
                dent = \<lparr>cd_parent = parent, cd_name = name, cd_inode = None\<rparr>;
                inode = \<lparr>ci_mode = mode, ci_uid = user_id (cc_fc cc), ci_gid = group_id (cc_fc cc),
                         ci_nlink = nlink, ci_fop = fop, ci_private = Some c\<rparr>;
                ctl1 = upd_cc c (\<lambda>x. x\<lparr>ctl_dentry := (ctl_dentry x)(ctl_ndents x \<mapsto> d), ctl_ndents := Suc (ctl_ndents x)\<rparr>)
                         (ctl\<lparr>dentries := (dentries ctl)(d \<mapsto> dent), next_dentry := Suc d\<rparr>)
            in if \<not> ok 1 then Some (None, ctl1)
               else Some (Some d, ctl1\<lparr>dentries := (dentries ctl1)(d \<mapsto> dent\<lparr>cd_inode := Some inode\<rparr>)\<rparr>))"

text \<open>The loop of \<open>fuse_ctl_remove_conn\<close> over the first \<open>n\<close> entries, from the last to the first.\<close>

fun ctl_remove_dentries :: "nat \<Rightarrow> (nat \<rightharpoonup> dentry_id) \<Rightarrow> ctl_fs \<Rightarrow> ctl_fs option" where
  "ctl_remove_dentries 0 ds ctl = Some ctl"
| "ctl_remove_dentries (Suc i) ds ctl =
     (case ds i of
        None \<Rightarrow> None
      | Some d \<Rightarrow>
          (case dentries ctl d of
             None \<Rightarrow> None
           | Some e \<Rightarrow>
               if cd_inode e = None then None
               else ctl_remove_dentries i ds (ctl\<lparr>dentries := (dentries ctl)(d := None)\<rparr>)))"

definition fuse_ctl_remove_conn :: "conn_id \<Rightarrow> ctl_fs \<Rightarrow> ctl_fs option" where
  "fuse_ctl_remove_conn c ctl =
     (if \<not> control_sb ctl then Some ctl
      else do {
        cc \<leftarrow> conns ctl c;
        ctl1 \<leftarrow> ctl_remove_dentries (ctl_ndents cc) (ctl_dentry cc) ctl;
        Some (ctl1\<lparr>root_nlink := root_nlink ctl1 - 1\<rparr>)})"

text \<open>The files of a directory, in the order they are added.\<close>

definition ctl_files :: "(string \<times> umode \<times> ctl_fop) list" where
  "ctl_files =
     [(''waiting'', S_IFREG OR 0x100, Ctl_waiting_ops), (''abort'', S_IFREG OR 0x80, Ctl_abort_ops),
      (''max_background'', S_IFREG OR 0x180, Ctl_max_background_ops),
      (''congestion_threshold'', S_IFREG OR 0x180, Ctl_congestion_ops)]"

text \<open>Adding files until one fails; the \<open>k\<close>-th entry uses the allocations \<open>2 k\<close> and \<open>2 k + 1\<close>.\<close>

fun ctl_add_files ::
    "oom \<Rightarrow> nat \<Rightarrow> dentry_id \<Rightarrow> conn_id \<Rightarrow> (string \<times> umode \<times> ctl_fop) list \<Rightarrow> ctl_fs \<Rightarrow> (bool \<times> ctl_fs) option" where
  "ctl_add_files ok k parent c [] ctl = Some (True, ctl)"
| "ctl_add_files ok k parent c ((name, mode, fop) # fs) ctl =
     (case fuse_ctl_add_dentry (\<lambda>j. ok (2 * k + j)) (Some parent) c name mode 1 fop ctl of
        None \<Rightarrow> None
      | Some (None, ctl1) \<Rightarrow> Some (False, ctl1)
      | Some (Some _, ctl1) \<Rightarrow> ctl_add_files ok (Suc k) parent c fs ctl1)"

definition ctl_add_fail :: "conn_id \<Rightarrow> ctl_fs \<Rightarrow> (int \<times> ctl_fs) option" where
  "ctl_add_fail c ctl = map_option (\<lambda>ctl1. (- ENOMEM, ctl1)) (fuse_ctl_remove_conn c ctl)"

definition fuse_ctl_add_conn :: "oom \<Rightarrow> conn_id \<Rightarrow> ctl_fs \<Rightarrow> (int \<times> ctl_fs) option" where
  "fuse_ctl_add_conn ok c ctl =
     (if \<not> control_sb ctl then Some (0, ctl)
      else do {
        cc \<leftarrow> conns ctl c;
        (parent, ctl1) \<leftarrow> fuse_ctl_add_dentry ok None c (dec_digits (unat (cc_dev cc))) (S_IFDIR OR 0x140) 2 Ctl_dir_ops
                            (ctl\<lparr>root_nlink := root_nlink ctl + 1\<rparr>);
        (case parent of
           None \<Rightarrow> ctl_add_fail c ctl1
         | Some p \<Rightarrow> do {
             (added, ctl2) \<leftarrow> ctl_add_files ok 1 p c ctl_files ctl1;
             if added then Some (0, ctl2) else ctl_add_fail c ctl2})})"

text \<open>
  \<open>fuse_ctl_fill_super\<close>: the connections that exist when the control file system is mounted; \<open>ok\<close>
  gives each its allocations, and \<open>fill\<close> is the result of \<open>simple_fill_super\<close>.
\<close>

fun ctl_add_conns :: "(conn_id \<Rightarrow> oom) \<Rightarrow> conn_id list \<Rightarrow> ctl_fs \<Rightarrow> (int \<times> ctl_fs) option" where
  "ctl_add_conns ok [] ctl = Some (0, ctl)"
| "ctl_add_conns ok (c # cs) ctl = do {
     (err, ctl1) \<leftarrow> fuse_ctl_add_conn (ok c) c ctl;
     if err \<noteq> 0 then Some (err, ctl1\<lparr>control_sb := False\<rparr>) else ctl_add_conns ok cs ctl1}"

definition fuse_ctl_fill_super :: "(conn_id \<Rightarrow> oom) \<Rightarrow> int \<Rightarrow> ctl_fs \<Rightarrow> (int \<times> ctl_fs) option" where
  "fuse_ctl_fill_super ok fill ctl =
     (if fill \<noteq> 0 then Some (fill, ctl)
      else if control_sb ctl then None
      else ctl_add_conns ok (conn_list ctl) (ctl\<lparr>control_sb := True\<rparr>))"

text \<open>\<open>fuse_ctl_kill_sb\<close>; \<open>kill_litter_super\<close> then drops every dentry of the file system.\<close>

definition fuse_ctl_kill_sb :: "ctl_fs \<Rightarrow> ctl_fs" where
  "fuse_ctl_kill_sb ctl =
     (fold (\<lambda>c. upd_cc c (\<lambda>x. x\<lparr>ctl_ndents := 0\<rparr>)) (conn_list ctl) (ctl\<lparr>control_sb := False\<rparr>))\<lparr>dentries := (\<lambda>_. None)\<rparr>"

subsection \<open>Entries of a connection\<close>

text \<open>
  \<open>ctl\<close> is \<open>ctl0\<close> with \<open>k\<close> more dentries of connection \<open>c\<close>, numbered from \<open>b\<close> on, which fill the first \<open>k\<close>
  slots of its array and lead back to it.
\<close>

definition ctl_entry :: "conn_id \<Rightarrow> ctl_dent \<Rightarrow> bool" where
  "ctl_entry c e \<longleftrightarrow> (\<exists>v. cd_inode e = Some v \<and> ci_private v = Some c)"

definition added :: "conn_id \<Rightarrow> ctl_fs \<Rightarrow> nat \<Rightarrow> ctl_fs \<Rightarrow> bool" where
  "added c ctl0 k ctl \<longleftrightarrow> (\<exists>cc0 cc. conns ctl0 c = Some cc0 \<and> conns ctl c = Some cc \<and> ctl_ndents cc = k \<and>
     cc_fc cc = cc_fc cc0 \<and> cc_dev cc = cc_dev cc0 \<and>
     (\<forall>i < k. ctl_dentry cc i = Some (next_dentry ctl0 + i))) \<and>
     next_dentry ctl = next_dentry ctl0 + k \<and> control_sb ctl = control_sb ctl0 \<and>
     conn_list ctl = conn_list ctl0 \<and> root_nlink ctl = root_nlink ctl0 + 1 \<and>
     (\<forall>x. x \<noteq> c \<longrightarrow> conns ctl x = conns ctl0 x) \<and>
     (\<forall>d. d < next_dentry ctl0 \<or> next_dentry ctl0 + k \<le> d \<longrightarrow> dentries ctl d = dentries ctl0 d) \<and>
     (\<forall>i < k. \<exists>e. dentries ctl (next_dentry ctl0 + i) = Some e \<and> ctl_entry c e)"

definition fresh_dentries :: "ctl_fs \<Rightarrow> bool" where
  "fresh_dentries ctl \<longleftrightarrow> (\<forall>d \<ge> next_dentry ctl. dentries ctl d = None)"

text \<open>An entry without an inode has been added last.\<close>

definition broken :: "conn_id \<Rightarrow> ctl_fs \<Rightarrow> bool" where
  "broken c ctl \<longleftrightarrow> control_sb ctl \<and> (\<exists>cc d e. conns ctl c = Some cc \<and> 0 < ctl_ndents cc \<and>
     ctl_dentry cc (ctl_ndents cc - 1) = Some d \<and> dentries ctl d = Some e \<and> cd_inode e = None)"

lemma broken_crashes: "broken c ctl \<Longrightarrow> fuse_ctl_remove_conn c ctl = None"
proof -
  assume "broken c ctl"
  then obtain cc d e i where "control_sb ctl" "conns ctl c = Some cc" "ctl_ndents cc = Suc i"
      "ctl_dentry cc i = Some d" "dentries ctl d = Some e" "cd_inode e = None"
    unfolding broken_def by (metis Suc_pred')
  then show ?thesis by (simp add: fuse_ctl_remove_conn_def)
qed

lemma add_dentry_step:
  assumes "added c ctl0 k ctl" and "k < 5" and "control_sb ctl0"
  shows "if \<not> ok 0 then fuse_ctl_add_dentry ok parent c name mode nlink fop ctl = Some (None, ctl)
     else if \<not> ok 1 then \<exists>ctl'. fuse_ctl_add_dentry ok parent c name mode nlink fop ctl = Some (None, ctl') \<and> broken c ctl'
     else \<exists>ctl'. fuse_ctl_add_dentry ok parent c name mode nlink fop ctl = Some (Some (next_dentry ctl), ctl') \<and>
       added c ctl0 (Suc k) ctl'"
proof -
  from assms(1) obtain cc0 cc where cc: "conns ctl0 c = Some cc0" "conns ctl c = Some cc" "ctl_ndents cc = k"
      "cc_fc cc = cc_fc cc0" "cc_dev cc = cc_dev cc0" "\<forall>i < k. ctl_dentry cc i = Some (next_dentry ctl0 + i)"
      "next_dentry ctl = next_dentry ctl0 + k"
    unfolding added_def by blast
  have room: "\<not> FUSE_CTL_NUM_DENTRIES \<le> ctl_ndents cc" using cc(3) assms(2) by (simp add: FUSE_CTL_NUM_DENTRIES_def)
  show ?thesis
  proof (cases "ok 0 \<and> ok 1")
    case False
    then show ?thesis
      using cc room assms(3) assms(1)
      by (auto simp: fuse_ctl_add_dentry_def Let_def upd_cc_def broken_def added_def)
  next
    case True
    let ?d = "next_dentry ctl"
    let ?e = "\<lparr>cd_parent = parent, cd_name = name, cd_inode = Some \<lparr>ci_mode = mode, ci_uid = user_id (cc_fc cc),
        ci_gid = group_id (cc_fc cc), ci_nlink = nlink, ci_fop = fop, ci_private = Some c\<rparr>\<rparr>"
    let ?cc = "cc\<lparr>ctl_dentry := (ctl_dentry cc)(k \<mapsto> ?d), ctl_ndents := Suc k\<rparr>"
    let ?ctl' = "ctl\<lparr>dentries := (dentries ctl)(?d \<mapsto> ?e), next_dentry := Suc ?d, conns := (conns ctl)(c \<mapsto> ?cc)\<rparr>"
    have "fuse_ctl_add_dentry ok parent c name mode nlink fop ctl = Some (Some ?d, ?ctl')"
      using True cc(2,3) room by (simp add: fuse_ctl_add_dentry_def Let_def upd_cc_def)
    moreover have "added c ctl0 (Suc k) ?ctl'"
    proof -
      have "\<forall>i < Suc k. \<exists>e. dentries ?ctl' (next_dentry ctl0 + i) = Some e \<and> ctl_entry c e"
        using assms(1) cc(7) by (auto simp: added_def ctl_entry_def less_Suc_eq)
      moreover have "\<forall>d. d < next_dentry ctl0 \<or> next_dentry ctl0 + Suc k \<le> d \<longrightarrow> dentries ?ctl' d = dentries ctl0 d"
        using assms(1) cc(7) by (auto simp: added_def)
      moreover have "\<forall>i < Suc k. ctl_dentry ?cc i = Some (next_dentry ctl0 + i)"
        using cc(6,7) by (auto simp: less_Suc_eq)
      ultimately show ?thesis using assms(1) cc by (simp add: added_def)
    qed
    ultimately show ?thesis using True by auto
  qed
qed

lemma remove_dentries_spec:
  assumes "\<forall>i < n. ds i = Some (b + i) \<and> (\<exists>e. dentries ctl (b + i) = Some e \<and> cd_inode e \<noteq> None)"
  shows "ctl_remove_dentries n ds ctl =
     Some (ctl\<lparr>dentries := (\<lambda>d. if b \<le> d \<and> d < b + n then None else dentries ctl d)\<rparr>)"
  using assms
proof (induction n arbitrary: ctl)
  case 0
  then show ?case by (simp add: not_le [symmetric])
next
  case (Suc n)
  let ?ctl1 = "ctl\<lparr>dentries := (dentries ctl)(b + n := None)\<rparr>"
  from Suc.prems obtain e where e: "ds n = Some (b + n)" "dentries ctl (b + n) = Some e" "cd_inode e \<noteq> None" by auto
  have run: "ctl_remove_dentries n ds ?ctl1 =
      Some (?ctl1\<lparr>dentries := (\<lambda>d. if b \<le> d \<and> d < b + n then None else dentries ?ctl1 d)\<rparr>)"
    using Suc.prems by (intro Suc.IH) auto
  have eq: "(\<lambda>d. if b \<le> d \<and> d < b + n then None else dentries ?ctl1 d) =
      (\<lambda>d. if b \<le> d \<and> d < b + Suc n then None else dentries ctl d)"
    by (rule ext) auto
  show ?case using e run unfolding eq by simp
qed

text \<open>Removing everything that was added restores the dentries and the link count.\<close>

lemma remove_added:
  assumes "added c ctl0 k ctl" and "control_sb ctl0" and "fresh_dentries ctl0"
  shows "\<exists>ctl'. fuse_ctl_remove_conn c ctl = Some ctl' \<and> dentries ctl' = dentries ctl0 \<and>
     root_nlink ctl' = root_nlink ctl0 \<and> conn_list ctl' = conn_list ctl0 \<and> control_sb ctl'"
proof -
  from assms(1) obtain cc where cc: "conns ctl c = Some cc" "ctl_ndents cc = k"
      "\<forall>i < k. ctl_dentry cc i = Some (next_dentry ctl0 + i)" unfolding added_def by blast
  have "\<forall>i < k. ctl_dentry cc i = Some (next_dentry ctl0 + i) \<and>
      (\<exists>e. dentries ctl (next_dentry ctl0 + i) = Some e \<and> cd_inode e \<noteq> None)"
    using assms(1) cc(3) by (fastforce simp: added_def ctl_entry_def)
  from remove_dentries_spec [OF this] have rm: "ctl_remove_dentries k (ctl_dentry cc) ctl =
      Some (ctl\<lparr>dentries := (\<lambda>d. if next_dentry ctl0 \<le> d \<and> d < next_dentry ctl0 + k then None else dentries ctl d)\<rparr>)" .
  have "(\<lambda>d. if next_dentry ctl0 \<le> d \<and> d < next_dentry ctl0 + k then None else dentries ctl d) = dentries ctl0"
    using assms(1,3) by (intro ext) (auto simp: added_def fresh_dentries_def)
  with rm show ?thesis
    using assms(1,2) cc(1,2) by (simp add: fuse_ctl_remove_conn_def added_def)
qed

lemma add_files_spec:
  assumes "added c ctl0 k ctl" and "k + length fs \<le> 5" and "control_sb ctl0"
  shows "(\<exists>ctl'. ctl_add_files ok k p c fs ctl = Some (True, ctl') \<and> added c ctl0 (k + length fs) ctl' \<and>
        (\<forall>j < length fs. ok (2 * (k + j)) \<and> ok (2 * (k + j) + 1))) \<or>
     (\<exists>j ctl'. ctl_add_files ok k p c fs ctl = Some (False, ctl') \<and> j < length fs \<and> \<not> ok (2 * (k + j)) \<and>
        (\<forall>m < j. ok (2 * (k + m)) \<and> ok (2 * (k + m) + 1)) \<and> added c ctl0 (k + j) ctl') \<or>
     (\<exists>j ctl'. ctl_add_files ok k p c fs ctl = Some (False, ctl') \<and> j < length fs \<and> ok (2 * (k + j)) \<and>
        \<not> ok (2 * (k + j) + 1) \<and> (\<forall>m < j. ok (2 * (k + m)) \<and> ok (2 * (k + m) + 1)) \<and> broken c ctl')"
  using assms
proof (induction fs arbitrary: k ctl)
  case (Cons f fs)
  obtain name mode fop where f: "f = (name, mode, fop)" by (cases f)
  have k: "k < 5" using Cons.prems(2) by simp
  note step = add_dentry_step [OF Cons.prems(1) k assms(3), of "\<lambda>j. ok (2 * k + j)" "Some p" name mode 1 fop]
  consider (no_dentry) "\<not> ok (2 * k)" | (no_inode) "ok (2 * k)" "\<not> ok (2 * k + 1)"
    | (both) "ok (2 * k)" "ok (2 * k + 1)" by blast
  then show ?case
  proof cases
    case no_dentry
    then show ?thesis using step Cons.prems(1) by (intro disjI2 disjI1 exI [of _ 0] exI [of _ ctl]) (simp add: f)
  next
    case no_inode
    then obtain ctl' where "fuse_ctl_add_dentry (\<lambda>j. ok (2 * k + j)) (Some p) c name mode 1 fop ctl = Some (None, ctl')"
        "broken c ctl'" using step by auto
    then show ?thesis using no_inode by (intro disjI2 exI [of _ 0] exI [of _ ctl']) (simp add: f)
  next
    case both
    then obtain ctl1 d where ctl1: "fuse_ctl_add_dentry (\<lambda>j. ok (2 * k + j)) (Some p) c name mode 1 fop ctl = Some (Some d, ctl1)"
        "added c ctl0 (Suc k) ctl1" using step by auto
    have run: "ctl_add_files ok k p c (f # fs) ctl = ctl_add_files ok (Suc k) p c fs ctl1" using ctl1(1) by (simp add: f)
    have room: "Suc k + length fs \<le> 5" using Cons.prems(2) by simp
    have shift: "(\<forall>m < Suc j. ok (2 * (k + m)) \<and> ok (2 * (k + m) + 1)) \<longleftrightarrow>
        (\<forall>m < j. ok (2 * (Suc k + m)) \<and> ok (2 * (Suc k + m) + 1))" for j
      using both by (auto simp: All_less_Suc2)
    from Cons.IH [OF ctl1(2) room assms(3)] show ?thesis
    proof (elim disjE exE conjE, goal_cases)
      case (1 ctl')
      then show ?case unfolding run using shift [of "length fs"] by (intro disjI1 exI [of _ ctl']) simp
    next
      case (2 j ctl')
      then show ?case unfolding run using shift [of j] by (intro disjI2 disjI1 exI [of _ "Suc j"] exI [of _ ctl']) simp
    next
      case (3 j ctl')
      then show ?case unfolding run using shift [of j] by (intro disjI2 exI [of _ "Suc j"] exI [of _ ctl']) simp
    qed
  qed
qed simp

text \<open>The first allocation that fails when the directory of a connection is built, 10 if none does.\<close>

definition first_failure :: "oom \<Rightarrow> nat \<Rightarrow> bool" where
  "first_failure ok n \<longleftrightarrow> n \<le> 10 \<and> (\<forall>m < n. ok m) \<and> (n < 10 \<longrightarrow> \<not> ok n)"

lemma first_failure_unique:
  assumes "first_failure ok n" and "\<forall>m < k. ok m" and "\<not> ok k" and "k < 10"
  shows "n = k"
  using assms by (cases n k rule: linorder_cases) (auto simp: first_failure_def)

lemma pairs_below:
  fixes ok :: oom
  assumes "\<forall>m < j. ok (2 * m) \<and> ok (2 * m + 1)"
  shows "\<forall>m < 2 * j. ok m"
proof (intro allI impI)
  fix m assume "m < 2 * j"
  then have "m div 2 < j" by simp
  then have "ok (2 * (m div 2))" "ok (2 * (m div 2) + 1)" using assms by blast+
  then show "ok m" by (cases "even m") auto
qed

lemma all_below_Suc:
  fixes ok :: oom
  assumes "ok 0" and "ok 1" and "\<forall>m < j. ok (2 * (1 + m)) \<and> ok (2 * (1 + m) + 1)"
  shows "\<forall>m < 2 * Suc j. ok m"
  using assms by (intro pairs_below) (auto simp: All_less_Suc2)

text \<open>Building the directory, in terms of the first allocation that fails.\<close>

lemma ctl_add_conn_spec:
  assumes "control_sb ctl" and "conns ctl c = Some cc" and "ctl_ndents cc = 0" and "first_failure ok n"
  shows "if n = 10 then \<exists>ctl'. fuse_ctl_add_conn ok c ctl = Some (0, ctl') \<and> added c ctl 5 ctl'
     else if even n then \<exists>k ctl'. fuse_ctl_add_conn ok c ctl = ctl_add_fail c ctl' \<and> added c ctl k ctl'
     else fuse_ctl_add_conn ok c ctl = None"
proof -
  let ?ctl = "ctl\<lparr>root_nlink := root_nlink ctl + 1\<rparr>"
  have a0: "added c ctl 0 ?ctl" using assms(2,3) by (simp add: added_def)
  let ?add = "fuse_ctl_add_dentry ok None c (dec_digits (unat (cc_dev cc))) (S_IFDIR OR 0x140) 2 Ctl_dir_ops ?ctl"
  note dir = add_dentry_step [OF a0 _ assms(1), of ok None "dec_digits (unat (cc_dev cc))" "S_IFDIR OR 0x140" 2 Ctl_dir_ops]
  consider (d) "\<not> ok 0" | (i) "ok 0" "\<not> ok 1" | (both) "ok 0" "ok 1" by blast
  then show ?thesis
  proof cases
    case d
    then have "n = 0" using first_failure_unique [OF assms(4), of 0] by simp
    moreover have "fuse_ctl_add_conn ok c ctl = ctl_add_fail c ?ctl"
      using dir d assms(1,2) by (simp add: fuse_ctl_add_conn_def)
    ultimately show ?thesis using a0 by auto
  next
    case i
    then have "n = 1" using first_failure_unique [OF assms(4), of 1] by simp
    moreover obtain ctl' where "?add = Some (None, ctl')" "broken c ctl'" using dir i by auto
    then have "fuse_ctl_add_conn ok c ctl = None"
      using assms(1,2) broken_crashes by (simp add: fuse_ctl_add_conn_def ctl_add_fail_def)
    ultimately show ?thesis by simp
  next
    case both
    then obtain ctl1 p where ctl1: "?add = Some (Some p, ctl1)" "added c ctl 1 ctl1" using dir by auto
    have run: "fuse_ctl_add_conn ok c ctl = Option.bind (ctl_add_files ok 1 p c ctl_files ctl1)
        (\<lambda>(b, ctl2). if b then Some (0, ctl2) else ctl_add_fail c ctl2)"
      using ctl1(1) assms(1,2) by (simp add: fuse_ctl_add_conn_def)
    have len: "length ctl_files = 4" by (simp add: ctl_files_def)
    have room: "1 + length ctl_files \<le> 5" using len by simp
    from add_files_spec [OF ctl1(2) room assms(1), of ok p] show ?thesis
    proof (elim disjE exE conjE, goal_cases)
      case (1 ctl')
      have "\<forall>m < 2 * Suc 4. ok m" using all_below_Suc [OF both 1(3)] unfolding len .
      then have "n = 10" using assms(4) by (auto simp: first_failure_def)
      then show ?case using 1(1,2) len by (simp add: run)
    next
      case (2 j ctl')
      have "\<forall>m < 2 * Suc j. ok m" using all_below_Suc [OF both 2(4)] .
      then have "n = 2 * Suc j" using first_failure_unique [OF assms(4)] 2(2,3) len by simp
      then show ?case using 2(1,2,5) len by (auto simp: run)
    next
      case (3 j ctl')
      have "\<forall>m < 2 * Suc j. ok m" using all_below_Suc [OF both 3(5)] .
      then have "\<forall>m < 2 * Suc j + 1. ok m" using 3(3) by (auto simp: less_Suc_eq)
      then have "n = 2 * Suc j + 1" using first_failure_unique [OF assms(4)] 3(2,4) len by simp
      then show ?case using 3(1,2,6) len broken_crashes by (simp add: run ctl_add_fail_def)
    qed
  qed
qed

subsection \<open>Limits\<close>

lemma limit_write_bound:
  assumes "fuse_conn_limit_write cap t count ppos lim = (ret, Some v)"
  shows "unat v \<le> 65535 \<and> (\<not> cap \<longrightarrow> v \<le> lim) \<and> ret = int count \<and> (\<exists>n. t = Inr n \<and> unat v = unat n)"
proof -
  let ?limit = "if cap then 65535 else min 65535 lim :: u32"
  from assms obtain n where n: "t = Inr n" "\<not> (ucast ?limit :: u64) < n" "v = ucast n" "ret = int count"
    by (auto simp: fuse_conn_limit_write_def Let_def split: sum.split_asm if_split_asm)
  have l: "unat (ucast ?limit :: u64) = unat ?limit" by (simp add: unsigned_ucast_eq take_bit_nat_eq_self order_less_le_trans [OF unsigned_less])
  have small: "unat ?limit \<le> 65535" by (simp add: min_def word_le_nat_alt)
  have le: "unat n \<le> unat ?limit" using n(2) l by (simp add: word_less_nat_alt)
  moreover have v: "unat v = unat n" using le small n(3) by (simp add: unsigned_ucast_eq take_bit_nat_eq_self)
  moreover have "v \<le> lim" if "\<not> cap"
    using that le v by (auto simp: word_le_nat_alt min_def split: if_split_asm)
  ultimately show ?thesis using n(1,4) small by auto
qed

text \<open>A reference that is taken and dropped again leaves the count, and cannot be the last one.\<close>

lemma put_after_get:
  assumes "0 < fc_count s" and "fc_count s' = fc_count s + 1"
  shows "fuse_conn_put s' = Some (s'\<lparr>fc_count := fc_count s\<rparr>)"
  using assms by (simp add: fuse_conn_put_def Let_def)

text \<open>
  A connection that is blocked although it has room for more background requests: no request that
  ends can unblock it, because \<open>request_end\<close> looks for equality with the limit.
\<close>

definition stuck_blocked :: "fuse_state \<Rightarrow> bool" where
  "stuck_blocked s \<longleftrightarrow> blocked s \<and> num_background s < max_background s"

lemma end_counts_stuck:
  assumes "stuck_blocked s" and "num_background s \<noteq> 0"
  shows "stuck_blocked (end_counts r s)"
proof -
  have "unat (num_background s - 1) = unat (num_background s) - 1"
    using assms(2) by (intro unat_dec_pos) (simp add: unat_gt_0)
  then show ?thesis using assms by (auto simp: stuck_blocked_def word_less_nat_alt)
qed

lemma request_end_stuck:
  assumes st: "stuck_blocked s" and inv: "bg_inv s" and q: "reqs s r = Some q"
    and rep: "FR_BACKGROUND \<in> rq_flags q \<Longrightarrow> FR_ISREPLY \<in> rq_flags q"
    and ni: "rq_end q \<noteq> Some End_init" and run: "request_end s r = Some s'"
  shows "stuck_blocked s'"
proof (cases "FR_FINISHED \<in> rq_flags q")
  case True
  then show ?thesis using run st request_end_finished [OF q] by simp
next
  case False
  from run q False obtain s4 s6 where bg: "end_counters s r q = Some s4"
    and cb: "end_callback s4 r q = Some s6" and put: "fuse_put_request s6 r = Some s'"
    by (rule request_end_elim)
  note same = request_end_callback [OF cb]
  have mark: "stuck_blocked (end_mark s r q)" using st by (simp add: stuck_blocked_def)
  have s4: "stuck_blocked s4"
  proof (cases "FR_BACKGROUND \<in> rq_flags q")
    case True
    have "r \<in> counted s" using True rep q by (simp add: counted_def)
    then have "0 < card (counted s)"
      using inv by (auto simp: bg_inv_def card_gt_0_iff counted_finite)
    then have "num_background (end_mark s r q) \<noteq> 0" using inv by (auto simp: bg_inv_def)
    then have "stuck_blocked (end_counts r (end_mark s r q))" using mark by (intro end_counts_stuck)
    then show ?thesis
      using flush_frame [OF bg [unfolded end_counters_def if_P [OF True] end_background_def]] by (simp add: stuck_blocked_def)
  next
    case False
    then show ?thesis using bg mark by (auto simp: end_counters_def)
  qed
  have "max_background s6 = max_background s4"
    using cb ni run_end_max_background [of _ r q "emit (Wake_req r) s4" s6]
    by (cases "rq_end q") (auto simp: end_callback_def)
  with s4 show ?thesis
    using fuse_put_request_frame [OF put] by (simp add: stuck_blocked_def same)
qed

lemma limit_write_effect:
  assumes "file_private d ctl = Some c" and "conns ctl c = Some cc" and "0 < fc_count (cc_fc cc)"
    and "\<And>v s. fc_count (set_field v s) = fc_count s"
    and "\<And>v s n. set_field v s\<lparr>fc_count := n\<rparr> = set_field v (s\<lparr>fc_count := n\<rparr>)"
    and "ctl_limit_write set_field lim d cap t count ppos ctl = Some (ret, ctl')"
    and "\<And>e. t = Inl e \<Longrightarrow> e < 0"
  shows "(ctl' = ctl \<and> ret \<le> 0) \<or>
     (\<exists>v. ret = int count \<and> unat v \<le> 65535 \<and> (\<not> cap \<longrightarrow> v \<le> lim) \<and> (\<exists>n. t = Inr n \<and> unat v = unat n) \<and>
        conns ctl' = (conns ctl)(c \<mapsto> cc\<lparr>cc_fc := set_field v (cc_fc cc)\<rparr>))"
proof (cases "fuse_conn_limit_write cap t count ppos lim")
  case (Pair r ov)
  show ?thesis
  proof (cases ov)
    case None
    then have "ctl' = ctl" "ret = r" using assms(6) Pair by (auto simp: ctl_limit_write_def)
    moreover have "r \<le> 0"
      using Pair None assms(7)
      by (force simp: fuse_conn_limit_write_def Let_def EINVAL_def split: sum.split_asm if_split_asm)
    ultimately show ?thesis by simp
  next
    case (Some v)
    note b = limit_write_bound [OF Pair [unfolded Some]]
    show ?thesis
    proof (cases "r \<le> 0")
      case True
      then show ?thesis using assms(6) Pair Some by (simp add: ctl_limit_write_def)
    next
      case False
      let ?s = "set_field v (fuse_conn_get (cc_fc cc))"
      have put: "fuse_conn_put ?s = Some (set_field v (cc_fc cc))"
      proof -
        have "fuse_conn_put ?s = Some (?s\<lparr>fc_count := fc_count (cc_fc cc)\<rparr>)"
          using assms(3,4) by (intro put_after_get) (simp_all add: fuse_conn_get_def)
        then show ?thesis by (simp add: assms(5) fuse_conn_get_def)
      qed
      have get: "fuse_ctl_file_conn_get d ctl = (Some c, upd_cc c (upd_fc fuse_conn_get) ctl)"
        by (simp add: fuse_ctl_file_conn_get_def assms(1))
      have "ctl' = ctl\<lparr>conns := (conns ctl)(c \<mapsto> cc\<lparr>cc_fc := set_field v (cc_fc cc)\<rparr>)\<rparr>" "ret = r"
        using assms(2,6) Pair Some False put
        by (auto simp: ctl_limit_write_def get ctl_conn_put_def upd_cc_def upd_fc_def)
      then show ?thesis using b by auto
    qed
  qed
qed

subsection \<open>Properties\<close>

text \<open>
  C23: writing to \<open>max_background\<close> either is refused and changes nothing, or sets exactly the number that
  was written: at most 65535, and without the capability at most the limit of the module; no
  reference to the connection is gained or lost and no other field changes.
\<close>

theorem max_background_write_bounded:
  assumes "file_private d ctl = Some c" and "conns ctl c = Some cc" and "0 < fc_count (cc_fc cc)"
    and "\<And>e. t = Inl e \<Longrightarrow> e < 0"
    and "fuse_conn_max_background_write g d t count ppos ctl = Some (ret, ctl')"
  shows "(ctl' = ctl \<and> ret \<le> 0) \<or>
     (\<exists>v. ret = int count \<and> unat v \<le> 65535 \<and> (\<not> cap_sys_admin g \<longrightarrow> v \<le> max_user_bgreq g) \<and>
        (\<exists>n. t = Inr n \<and> unat v = unat n) \<and>
        conns ctl' = (conns ctl)(c \<mapsto> cc\<lparr>cc_fc := (cc_fc cc)\<lparr>max_background := v\<rparr>\<rparr>))"
  using limit_write_effect [OF assms(1-3) _ _ assms(5) [unfolded fuse_conn_max_background_write_def] assms(4)]
  by simp

text \<open>
  C24: building the directory of a connection allocates ten objects. When all succeed the directory has
  its five entries, and removing the connection undoes exactly that. When the first failure is a
  dentry the call returns \<open>-ENOMEM\<close> and leaves no entry. When it is an inode the error path follows
  the pointer of the dentry to an inode it does not have: a crash.
\<close>

theorem ctl_add_conn_outcome:
  assumes "control_sb ctl" and "conns ctl c = Some cc" and "ctl_ndents cc = 0" and "fresh_dentries ctl"
    and "first_failure ok n"
  shows "if n = 10 then \<exists>ctl1 ctl2. fuse_ctl_add_conn ok c ctl = Some (0, ctl1) \<and>
       (\<forall>i < 5. \<exists>e. dentries ctl1 (next_dentry ctl + i) = Some e \<and> ctl_entry c e) \<and>
       fuse_ctl_remove_conn c ctl1 = Some ctl2 \<and> dentries ctl2 = dentries ctl \<and> root_nlink ctl2 = root_nlink ctl
     else if even n then \<exists>ctl1. fuse_ctl_add_conn ok c ctl = Some (- ENOMEM, ctl1) \<and>
       dentries ctl1 = dentries ctl \<and> root_nlink ctl1 = root_nlink ctl
     else fuse_ctl_add_conn ok c ctl = None"
proof -
  note spec = ctl_add_conn_spec [OF assms(1-3,5)]
  consider "n = 10" | "n \<noteq> 10" "even n" | "odd n" by blast
  then show ?thesis
  proof cases
    case 1
    then obtain ctl1 where a: "fuse_ctl_add_conn ok c ctl = Some (0, ctl1)" "added c ctl 5 ctl1" using spec by auto
    then have "\<forall>i < 5. \<exists>e. dentries ctl1 (next_dentry ctl + i) = Some e \<and> ctl_entry c e" by (simp add: added_def)
    then show ?thesis using 1 a remove_added [OF a(2) assms(1,4)] by auto
  next
    case 2
    then obtain k ctl1 where "fuse_ctl_add_conn ok c ctl = ctl_add_fail c ctl1" "added c ctl k ctl1" using spec by auto
    then show ?thesis using 2 remove_added [of c ctl k ctl1] assms(1,4) by (auto simp: ctl_add_fail_def)
  next
    case 3
    then show ?thesis using spec by (cases "n = 10") auto
  qed
qed

text \<open>
  Raising \<open>max_background\<close> on a blocked connection leaves it blocked: the new limit does
  not unblock it, a task that wants a background request goes to sleep although there is room, and no
  request that ends unblocks it either.
\<close>

theorem raised_limit_stays_blocked:
  assumes "file_private d ctl = Some c" and "conns ctl c = Some cc" and "0 < fc_count (cc_fc cc)"
    and "blocked (cc_fc cc)" and "num_background (cc_fc cc) < v" and "unat v \<le> 65535"
    and "bg_inv (cc_fc cc)" and "0 < count" and "cap_sys_admin g"
  shows "\<exists>ctl' s. fuse_conn_max_background_write g d (Inr (ucast v)) count 0 ctl = Some (int count, ctl') \<and>
     conns ctl' c = Some (cc\<lparr>cc_fc := s\<rparr>) \<and> num_background s < max_background s \<and>
     fst (fuse_get_req_for_background ok cur npages False s) = Asleep \<and>
     (\<forall>r q s'. reqs s r = Some q \<and> (FR_BACKGROUND \<in> rq_flags q \<longrightarrow> FR_ISREPLY \<in> rq_flags q) \<and>
        rq_end q \<noteq> Some End_init \<and> request_end s r = Some s' \<longrightarrow> blocked s' \<and> num_background s' < max_background s')"
proof -
  let ?s = "(cc_fc cc)\<lparr>max_background := v\<rparr>"
  have u: "unat (ucast v :: u64) = unat v"
    by (simp add: unsigned_ucast_eq take_bit_nat_eq_self order_less_le_trans [OF unsigned_less])
  have w: "ucast (ucast v :: u64) = v" by (rule bit_word_eqI) (simp add: bit_simps)
  have lw: "fuse_conn_limit_write True (Inr (ucast v)) count 0 (max_user_bgreq g) = (int count, Some v)"
    using assms(6) u w by (simp add: fuse_conn_limit_write_def word_less_nat_alt)
  have put: "fuse_conn_put ((fuse_conn_get (cc_fc cc))\<lparr>max_background := v\<rparr>) = Some ?s"
    using put_after_get [OF assms(3), of "(fuse_conn_get (cc_fc cc))\<lparr>max_background := v\<rparr>"]
    by (simp add: fuse_conn_get_def)
  obtain ctl' where run: "fuse_conn_max_background_write g d (Inr (ucast v)) count 0 ctl = Some (int count, ctl')"
      "conns ctl' c = Some (cc\<lparr>cc_fc := ?s\<rparr>)"
    using assms(1,2,8,9) lw put
    by (simp add: fuse_conn_max_background_write_def ctl_limit_write_def fuse_ctl_file_conn_get_def ctl_conn_put_def
        upd_cc_def upd_fc_def)
  have st: "stuck_blocked ?s" using assms(4,5) by (simp add: stuck_blocked_def)
  have inv: "bg_inv ?s" using assms(7) by (simp add: bg_inv_def counted_def)
  have "blocked s' \<and> num_background s' < max_background s'"
    if "reqs ?s r = Some q" "FR_BACKGROUND \<in> rq_flags q \<longrightarrow> FR_ISREPLY \<in> rq_flags q" "rq_end q \<noteq> Some End_init"
      "request_end ?s r = Some s'" for r q s'
    using request_end_stuck [OF st inv that(1) _ that(3,4)] that(2) by (simp add: stuck_blocked_def)
  moreover have "fst (fuse_get_req_for_background ok cur npages False ?s) = Asleep"
    using assms(4) by (simp add: fuse_get_req_for_background_def fuse_get_req_common_def get_req_resume_def
        fuse_block_alloc_def waiting_inc_def)
  ultimately show ?thesis using run assms(5) by (intro exI [of _ ctl'] exI [of _ ?s]) auto
qed

subsection \<open>Examples\<close>

definition example_ctl :: ctl_fs where
  "example_ctl = \<lparr>control_sb = True, root_nlink = 2,
     dentries = [0 \<mapsto> \<lparr>cd_parent = None, cd_name = ''max_background'', cd_inode = Some \<lparr>ci_mode = S_IFREG OR 0x180,
       ci_uid = 0, ci_gid = 0, ci_nlink = 1, ci_fop = Ctl_max_background_ops, ci_private = Some 1\<rparr>\<rparr>],
     next_dentry = 1,
     conns = [1 \<mapsto> \<lparr>cc_fc = example_conn\<lparr>blocked := True\<rparr>, cc_dev = 40, ctl_ndents = 0, ctl_dentry = (\<lambda>_. None)\<rparr>],
     conn_list = [1]\<rparr>"

lemma example_ctl_facts:
  "file_private 0 example_ctl = Some 1" "control_sb example_ctl" "fresh_dentries example_ctl"
  "conns example_ctl 1 = Some \<lparr>cc_fc = example_conn\<lparr>blocked := True\<rparr>, cc_dev = 40, ctl_ndents = 0, ctl_dentry = (\<lambda>_. None)\<rparr>"
  "fc_count example_conn = 1" "num_background example_conn = 0" "bg_inv (example_conn\<lparr>blocked := True\<rparr>)"
  by (auto simp: file_private_def example_ctl_def fresh_dentries_def bg_inv_def counted_def example_defs)

lemma max_background_write_bounded_witness:
  "\<exists>ret ctl'. fuse_conn_max_background_write example_globals 0 (Inr 20) 3 0 example_ctl = Some (ret, ctl') \<and>
     (ret \<le> 0 \<or> (\<exists>v :: u32. ret = 3 \<and> unat v = 20))"
proof -
  obtain ret ctl' where run: "fuse_conn_max_background_write example_globals 0 (Inr 20) 3 0 example_ctl = Some (ret, ctl')"
    by (simp add: fuse_conn_max_background_write_def ctl_limit_write_def fuse_ctl_file_conn_get_def ctl_conn_put_def
        upd_cc_def upd_fc_def example_ctl_facts fuse_conn_limit_write_def example_globals_def fuse_conn_put_def
        fuse_conn_get_def Let_def)
  show ?thesis
    using max_background_write_bounded [OF example_ctl_facts(1,4) _ _ run] run
    by (simp add: example_ctl_facts) blast
qed

lemma ctl_add_conn_outcome_witness:
  "fuse_ctl_add_conn (\<lambda>n. n \<noteq> 5) 1 example_ctl = None \<and>
   (\<exists>ctl1. fuse_ctl_add_conn (\<lambda>n. n \<noteq> 4) 1 example_ctl = Some (- ENOMEM, ctl1) \<and> dentries ctl1 = dentries example_ctl)"
  using ctl_add_conn_outcome [OF example_ctl_facts(2,4) _ example_ctl_facts(3), of "\<lambda>n. n \<noteq> 5" 5]
    ctl_add_conn_outcome [OF example_ctl_facts(2,4) _ example_ctl_facts(3), of "\<lambda>n. n \<noteq> 4" 4]
  by (auto simp: first_failure_def)

lemma raised_limit_stays_blocked_witness:
  "\<exists>ctl' s. fuse_conn_max_background_write (example_globals\<lparr>cap_sys_admin := True\<rparr>) 0 (Inr (ucast (20 :: u32))) 3 0 example_ctl =
       Some (int 3, ctl') \<and> num_background s < max_background s \<and>
     fst (fuse_get_req_for_background (\<lambda>_. True) \<lparr>t_fsuid = 0, t_fsgid = 0, t_pid = 1\<rparr> 0 False s) = Asleep"
  using raised_limit_stays_blocked [OF example_ctl_facts(1,4), of 20 3 "example_globals\<lparr>cap_sys_admin := True\<rparr>"
      "\<lambda>_. True" "\<lparr>t_fsuid = 0, t_fsgid = 0, t_pid = 1\<rparr>" 0]
  by (auto simp: example_ctl_facts)

end
