(* ===== verification/Fuse_Mount.thy ===== *)
theory Fuse_Mount
  imports Fuse_Control
begin

text \<open>
  Mounting and unmounting (\<open>inode.c\<close>): the mount options, \<open>fuse_fill_super\<close> with its error ladder, the
  INIT and DESTROY requests, \<open>fuse_put_super\<close> and \<open>fuse_kill_sb_anon\<close>.

  \<^item> \<open>mount_state\<close> is what a mount builds: the memory of the connection, the inodes of the superblock
    with the connection they lead to, the fields of the superblock, the control file system, the list
    of connections, and the number of backing devices that are set up.
  \<^item> The kernel functions a mount calls are in \<open>mount_env\<close>: the outcomes of the allocations and of
    \<open>bdi_init\<close>, \<open>bdi_register\<close> and \<open>sb_set_blocksize\<close>, and the parsing functions of the kernel's library.
  \<^item> A connection that has been freed stays in the state, marked \<open>Conn_freed\<close>; using it is \<open>None\<close>.
\<close>

subsection \<open>Mount options\<close>

datatype mount_token =
    OPT_FD | OPT_ROOTMODE | OPT_USER_ID | OPT_GROUP_ID | OPT_DEFAULT_PERMISSIONS | OPT_ALLOW_OTHER
  | OPT_MAX_READ | OPT_BLKSIZE | OPT_ERR

record fuse_mount_data =
  md_fd :: int
  md_rootmode :: u32
  md_user_id :: u32
  md_group_id :: u32
  fd_present :: bool
  rootmode_present :: bool
  user_id_present :: bool
  group_id_present :: bool
  md_default_permissions :: bool
  md_allow_other :: bool
  md_max_read :: u32
  md_blksize :: u32

text \<open>
  The library functions the options are parsed with: \<open>match_token\<close> gives the token of an option and the
  text of its argument; the others give the number an argument stands for, \<open>None\<close> for an error.
  \<open>k_kuid\<close> and \<open>k_kgid\<close> map an identifier into the initial namespace, \<open>None\<close> if it has no mapping there.
\<close>

record option_parser =
  match_token :: "string \<Rightarrow> mount_token \<times> string"
  match_int :: "string \<Rightarrow> int option"
  match_octal :: "string \<Rightarrow> int option"
  kstrtouint :: "string \<Rightarrow> int + u32"
  k_kuid :: "u32 \<Rightarrow> u32 option"
  k_kgid :: "u32 \<Rightarrow> u32 option"

text \<open>The strings \<open>strsep\<close> on commas yields until it returns NULL.\<close>

fun strsep_all :: "string \<Rightarrow> string list" where
  "strsep_all [] = [[]]"
| "strsep_all (c # cs) =
     (if c = CHR '','' then [] # strsep_all cs
      else case strsep_all cs of [] \<Rightarrow> [[c]] | t # ts \<Rightarrow> (c # t) # ts)"

definition FUSE_DEFAULT_BLKSIZE :: u32 where "FUSE_DEFAULT_BLKSIZE = 512"

definition default_mount_data :: fuse_mount_data where
  "default_mount_data = \<lparr>md_fd = 0, md_rootmode = 0, md_user_id = 0, md_group_id = 0, fd_present = False,
     rootmode_present = False, user_id_present = False, group_id_present = False, md_default_permissions = False,
     md_allow_other = False, md_max_read = - 1, md_blksize = FUSE_DEFAULT_BLKSIZE\<rparr>"

text \<open>\<open>fuse_match_uint\<close>: \<open>dup\<close> says that \<open>match_strdup\<close> found memory; in a list of options \<open>dup n\<close> says so for option \<open>n\<close>.\<close>

definition fuse_match_uint :: "option_parser \<Rightarrow> bool \<Rightarrow> string \<Rightarrow> int + u32" where
  "fuse_match_uint kp dup arg = (if dup then kstrtouint kp arg else Inl (- ENOMEM))"

text \<open>One option; \<open>None\<close> is the return value 0.\<close>

definition parse_one :: "option_parser \<Rightarrow> bool \<Rightarrow> bool \<Rightarrow> string \<Rightarrow> fuse_mount_data \<Rightarrow> fuse_mount_data option" where
  "parse_one kp dup is_bdev p d =
     (if p = [] then Some d
      else let (token, arg) = match_token kp p in
        case token of
          OPT_FD \<Rightarrow> map_option (\<lambda>v. d\<lparr>md_fd := v, fd_present := True\<rparr>) (match_int kp arg)
        | OPT_ROOTMODE \<Rightarrow>
            (case match_octal kp arg of
               None \<Rightarrow> None
             | Some v \<Rightarrow>
                 if fuse_valid_type (word_of_int v)
                 then Some (d\<lparr>md_rootmode := word_of_int v, rootmode_present := True\<rparr>) else None)
        | OPT_USER_ID \<Rightarrow>
            (case fuse_match_uint kp dup arg of
               Inl _ \<Rightarrow> None
             | Inr uv \<Rightarrow> map_option (\<lambda>u. d\<lparr>md_user_id := u, user_id_present := True\<rparr>) (k_kuid kp uv))
        | OPT_GROUP_ID \<Rightarrow>
            (case fuse_match_uint kp dup arg of
               Inl _ \<Rightarrow> None
             | Inr uv \<Rightarrow> map_option (\<lambda>u. d\<lparr>md_group_id := u, group_id_present := True\<rparr>) (k_kgid kp uv))
        | OPT_DEFAULT_PERMISSIONS \<Rightarrow> Some (d\<lparr>md_default_permissions := True\<rparr>)
        | OPT_ALLOW_OTHER \<Rightarrow> Some (d\<lparr>md_allow_other := True\<rparr>)
        | OPT_MAX_READ \<Rightarrow> map_option (\<lambda>v. d\<lparr>md_max_read := word_of_int v\<rparr>) (match_int kp arg)
        | OPT_BLKSIZE \<Rightarrow>
            (if is_bdev then map_option (\<lambda>v. d\<lparr>md_blksize := word_of_int v\<rparr>) (match_int kp arg) else None)
        | OPT_ERR \<Rightarrow> None)"

fun parse_options ::
    "option_parser \<Rightarrow> (nat \<Rightarrow> bool) \<Rightarrow> bool \<Rightarrow> string list \<Rightarrow> fuse_mount_data \<Rightarrow> fuse_mount_data option" where
  "parse_options kp dup is_bdev [] d = Some d"
| "parse_options kp dup is_bdev (p # ps) d =
     Option.bind (parse_one kp (dup 0) is_bdev p d) (parse_options kp (\<lambda>n. dup (Suc n)) is_bdev ps)"

definition options_complete :: "fuse_mount_data \<Rightarrow> bool" where
  "options_complete d \<longleftrightarrow> fd_present d \<and> rootmode_present d \<and> user_id_present d \<and> group_id_present d"

definition parse_fuse_opt :: "option_parser \<Rightarrow> (nat \<Rightarrow> bool) \<Rightarrow> string option \<Rightarrow> bool \<Rightarrow> fuse_mount_data option" where
  "parse_fuse_opt kp dup opt is_bdev =
     (case parse_options kp dup is_bdev (case opt of None \<Rightarrow> [] | Some s \<Rightarrow> strsep_all s) default_mount_data of
        None \<Rightarrow> None
      | Some d \<Rightarrow> if options_complete d then Some d else None)"

subsection \<open>State\<close>

datatype sb_flag = MS_MANDLOCK | MS_POSIXACL | MS_NOSEC | MS_I_VERSION

datatype conn_memory = Conn_unallocated | Conn_allocated | Conn_freed

record mount_file =
  mf_dev_ops :: bool
  mf_init_ns :: bool
  mf_private :: "dev_id option"
  mf_count :: int

record mount_state =
  ms_fs :: fuse_sb
  ms_memory :: conn_memory
  ms_id :: conn_id
  ms_dev :: u32
  ms_ctl :: ctl_fs
  ms_flags :: "sb_flag set"
  ms_bdev :: bool
  ms_blocksize :: nat
  ms_fs_info :: bool
  ms_root :: "ino_id option"
  ms_bdis :: int

record mount_env =
  me_parser :: option_parser
  me_ok_dup :: "nat \<Rightarrow> bool"
  me_ok_fc :: bool
  me_ok_dev :: oom
  me_ok_root :: oom
  me_ok_dentry :: bool
  me_ok_init :: oom
  me_ok_destroy :: oom
  me_ok_ctl :: oom
  me_set_blocksize :: bool
  me_bdi_init :: int
  me_bdi_register :: int
  me_key :: "u32 list"
  me_init_bytes :: "fuse_init_in \<Rightarrow> u8 list"

definition fc_of :: "mount_state \<Rightarrow> fuse_state" where "fc_of ms = conn (ms_fs ms)"

definition set_fc :: "fuse_state \<Rightarrow> mount_state \<Rightarrow> mount_state" where
  "set_fc s ms = ms\<lparr>ms_fs := (ms_fs ms)\<lparr>conn := s\<rparr>\<rparr>"

definition fput :: "mount_file \<Rightarrow> mount_file" where
  "fput f = f\<lparr>mf_count := mf_count f - 1\<rparr>"

subsection \<open>The backing device and the connection\<close>

text \<open>
  \<open>fuse_bdi_init\<close>: \<open>VM_MAX_READAHEAD\<close> is 128 (kilobytes). The backing device is set up by \<open>bdi_init\<close> and
  torn down by \<open>bdi_destroy\<close>.
\<close>

definition fuse_bdi_init :: "mount_env \<Rightarrow> mount_state \<Rightarrow> int \<times> mount_state" where
  "fuse_bdi_init e ms =
     (let ms1 = set_fc ((fc_of ms)\<lparr>ra_pages := (128 * 1024) div PAGE_SIZE\<rparr>) ms in
      if me_bdi_init e \<noteq> 0 then (me_bdi_init e, ms1)
      else
        let ms2 = set_fc ((fc_of ms1)\<lparr>fc_bits := insert Bdi_initialized (fc_bits (fc_of ms1))\<rparr>)
                    (ms1\<lparr>ms_bdis := ms_bdis ms1 + 1\<rparr>)
        in (me_bdi_register e, ms2))"

definition fuse_bdi_destroy :: "mount_state \<Rightarrow> mount_state" where
  "fuse_bdi_destroy ms =
     (if Bdi_initialized \<in> fc_bits (fc_of ms) then ms\<lparr>ms_bdis := ms_bdis ms - 1\<rparr> else ms)"

text \<open>\<open>fuse_conn_put\<close> on the connection of the mount, whose last reference frees the memory.\<close>

definition mount_conn_put :: "mount_state \<Rightarrow> mount_state option" where
  "mount_conn_put ms =
     (if ms_memory ms \<noteq> Conn_allocated then None
      else map_option
        (\<lambda>s. (set_fc s ms)\<lparr>ms_memory := (if fc_count (fc_of ms) = 1 then Conn_freed else Conn_allocated)\<rparr>)
        (fuse_conn_put (fc_of ms)))"

definition mount_dev_free :: "dev_id \<Rightarrow> mount_state \<Rightarrow> mount_state option" where
  "mount_dev_free d ms =
     (if ms_memory ms \<noteq> Conn_allocated then None
      else map_option
        (\<lambda>s. (set_fc s ms)\<lparr>ms_memory := (if fc_count (fc_of ms) = 1 then Conn_freed else Conn_allocated)\<rparr>)
        (fuse_dev_free d (fc_of ms)))"

subsection \<open>INIT and DESTROY\<close>

definition init_flags :: "init_flag set" where
  "init_flags = {FUSE_ASYNC_READ, FUSE_POSIX_LOCKS, FUSE_ATOMIC_O_TRUNC, FUSE_EXPORT_SUPPORT, FUSE_BIG_WRITES,
     FUSE_DONT_MASK, FUSE_SPLICE_WRITE, FUSE_SPLICE_MOVE, FUSE_SPLICE_READ, FUSE_FLOCK_LOCKS,
     FUSE_HAS_IOCTL_DIR, FUSE_AUTO_INVAL_DATA, FUSE_DO_READDIRPLUS, FUSE_READDIRPLUS_AUTO, FUSE_ASYNC_DIO,
     FUSE_WRITEBACK_CACHE, FUSE_NO_OPEN_SUPPORT, FUSE_PARALLEL_DIROPS, FUSE_HANDLE_KILLPRIV, FUSE_POSIX_ACL}"

definition init_in :: "fuse_state \<Rightarrow> fuse_init_in" where
  "init_in s = \<lparr>ii_major = kernel_version (glob s), ii_minor = kernel_minor (glob s),
     ii_max_readahead = of_nat (ra_pages s * PAGE_SIZE), ii_flags = init_flags\<rparr>"

definition init_fill :: "(fuse_init_in \<Rightarrow> u8 list) \<Rightarrow> fuse_state \<Rightarrow> fuse_req \<Rightarrow> fuse_req" where
  "init_fill enc s q = q\<lparr>
     rq_misc := Misc_init_in (init_in s),
     rq_in := (rq_in q)\<lparr>in_h := (in_h (rq_in q))\<lparr>ih_opcode := FUSE_INIT\<rparr>,
                        in_args := [\<lparr>arg_size = wire_size s W_init_in, arg_value = enc (init_in s)\<rparr>]\<rparr>,
     rq_out := (rq_out q)\<lparr>out_argvar := True,
                          out_args := [\<lparr>arg_size = wire_size s W_init_out,
                                        arg_value = replicate (wire_size s W_init_out) 0\<rparr>]\<rparr>,
     rq_end := Some End_init\<rparr>"

definition fuse_send_init :: "(fuse_init_in \<Rightarrow> u8 list) \<Rightarrow> req_id \<Rightarrow> fuse_state \<Rightarrow> fuse_state option" where
  "fuse_send_init enc r s = fuse_request_send_background (upd_req r (init_fill enc s) s) r"

text \<open>
  \<open>fuse_send_destroy\<close>: \<open>env\<close> is what the other threads do until the answer to the request has arrived.
\<close>

definition destroy_fill :: "fuse_req \<Rightarrow> fuse_req" where
  "destroy_fill q = clear_flag FR_BACKGROUND (set_flag FR_FORCE
     (q\<lparr>rq_in := (rq_in q)\<lparr>in_h := (in_h (rq_in q))\<lparr>ih_opcode := FUSE_DESTROY\<rparr>\<rparr>\<rparr>))"

definition fuse_send_destroy :: "(fuse_state \<Rightarrow> fuse_state) \<Rightarrow> fuse_state \<Rightarrow> fuse_state option" where
  "fuse_send_destroy env s =
     (case destroy_req s of
        None \<Rightarrow> Some s
      | Some r \<Rightarrow>
          if Conn_init \<notin> fc_bits s then Some s
          else do {
            (phase, s1) \<leftarrow> fuse_request_send (upd_req r destroy_fill (s\<lparr>destroy_req := None\<rparr>)) r;
            fuse_put_request (if phase = Wait_done then s1 else env s1) r})"

subsection \<open>\<open>fuse_fill_super\<close>\<close>

text \<open>The error ladder, from the last label to the first. \<open>dput\<close> of the root dentry drops its inode.\<close>

type_synonym fill_result = "(int \<times> mount_file option \<times> mount_state) option"

definition err_fput :: "int \<Rightarrow> mount_file \<Rightarrow> mount_state \<Rightarrow> fill_result" where
  "err_fput err f ms = Some (err, Some (fput f), ms)"

definition err_put_conn :: "int \<Rightarrow> mount_file \<Rightarrow> mount_state \<Rightarrow> fill_result" where
  "err_put_conn err f ms = Option.bind (mount_conn_put (fuse_bdi_destroy ms)) (err_fput err f)"

definition err_dev_free :: "int \<Rightarrow> mount_file \<Rightarrow> dev_id \<Rightarrow> mount_state \<Rightarrow> fill_result" where
  "err_dev_free err f d ms = Option.bind (mount_dev_free d ms) (err_put_conn err f)"

definition err_put_root :: "int \<Rightarrow> mount_file \<Rightarrow> dev_id \<Rightarrow> ino_id \<Rightarrow> mount_state \<Rightarrow> fill_result" where
  "err_put_root err f d i ms = Option.bind (iput i (ms_fs ms)) (\<lambda>sb. err_dev_free err f d (ms\<lparr>ms_fs := sb\<rparr>))"

definition err_free_init_req ::
    "int \<Rightarrow> mount_file \<Rightarrow> dev_id \<Rightarrow> ino_id \<Rightarrow> req_id \<Rightarrow> mount_state \<Rightarrow> fill_result" where
  "err_free_init_req err f d i r ms =
     Option.bind (fuse_request_free (fc_of ms) r) (\<lambda>s. err_put_root err f d i (set_fc s ms))"

text \<open>\<open>fuse_ctl_add_conn\<close> and the entry in \<open>fuse_conn_list\<close>.\<close>

definition mount_ctl_add :: "mount_env \<Rightarrow> mount_state \<Rightarrow> (int \<times> mount_state) option" where
  "mount_ctl_add e ms =
     (let ctl = (ms_ctl ms)\<lparr>conns := (conns (ms_ctl ms))(ms_id ms \<mapsto>
            \<lparr>cc_fc = fc_of ms, cc_dev = ms_dev ms, ctl_ndents = 0, ctl_dentry = (\<lambda>_. None)\<rparr>)\<rparr>
      in map_option (\<lambda>(err, ctl1). (err, ms\<lparr>ms_ctl := ctl1\<rparr>)) (fuse_ctl_add_conn (me_ok_ctl e) (ms_id ms) ctl))"

text \<open>The part under \<open>fuse_mutex\<close> and the start of INIT.\<close>

definition fill_publish ::
    "mount_env \<Rightarrow> mount_file \<Rightarrow> dev_id \<Rightarrow> ino_id \<Rightarrow> req_id \<Rightarrow> mount_state \<Rightarrow> fill_result" where
  "fill_publish e f d i r ms =
     (if mf_private f \<noteq> None then err_free_init_req (- EINVAL) f d i r ms
      else do {
        (err, ms1) \<leftarrow> mount_ctl_add e ms;
        if err \<noteq> 0 then err_free_init_req err f d i r ms1
        else do {
          let ms2 = ms1\<lparr>ms_ctl := (ms_ctl ms1)\<lparr>conn_list := conn_list (ms_ctl ms1) @ [ms_id ms1]\<rparr>, ms_root := Some i\<rparr>;
          s \<leftarrow> fuse_send_init (me_init_bytes e) r (fc_of ms2);
          Some (0, Some (fput (f\<lparr>mf_private := Some d\<rparr>)), set_fc s ms2)}})"

text \<open>The allocation of the INIT request and, for a block device, of the DESTROY request.\<close>

definition fill_requests ::
    "mount_env \<Rightarrow> mount_file \<Rightarrow> dev_id \<Rightarrow> ino_id \<Rightarrow> mount_state \<Rightarrow> fill_result" where
  "fill_requests e f d i ms =
     (case fuse_request_alloc (me_ok_init e) 0 (fc_of ms) of
        (None, s1) \<Rightarrow> err_put_root (- ENOMEM) f d i (set_fc s1 ms)
      | (Some r, s1) \<Rightarrow>
          let s2 = upd_req r (set_flag FR_BACKGROUND) s1 in
          if \<not> ms_bdev ms then fill_publish e f d i r (set_fc s2 ms)
          else (case fuse_request_alloc (me_ok_destroy e) 0 s2 of
              (None, s3) \<Rightarrow> err_free_init_req (- ENOMEM) f d i r (set_fc (s3\<lparr>destroy_req := None\<rparr>) ms)
            | (Some q, s3) \<Rightarrow> fill_publish e f d i r (set_fc (s3\<lparr>destroy_req := Some q\<rparr>) ms)))"

text \<open>The root inode and its dentry; \<open>d_make_root\<close> drops the inode when it has no memory.\<close>

definition fill_root :: "mount_env \<Rightarrow> fuse_mount_data \<Rightarrow> mount_file \<Rightarrow> dev_id \<Rightarrow> mount_state \<Rightarrow> fill_result" where
  "fill_root e md f d ms = do {
     (root, sb) \<leftarrow> fuse_get_root_inode (me_ok_root e) (md_rootmode md) (ms_fs ms);
     let ms1 = ms\<lparr>ms_fs := sb\<rparr>;
     (case root of
        None \<Rightarrow> err_dev_free (- ENOMEM) f d ms1
      | Some i \<Rightarrow>
          if \<not> me_ok_dentry e
          then Option.bind (iput i (ms_fs ms1)) (\<lambda>sb1. err_dev_free (- ENOMEM) f d (ms1\<lparr>ms_fs := sb1\<rparr>))
          else fill_requests e f d i ms1)}"

text \<open>What the options set in the connection.\<close>

definition fill_options :: "fuse_mount_data \<Rightarrow> mount_state \<Rightarrow> mount_state" where
  "fill_options md ms =
     (let s = fc_of ms;
          bits = fc_bits s \<union> (if MS_POSIXACL \<in> ms_flags ms then {Dont_mask} else {}) \<union>
            (if md_default_permissions md then {Default_permissions} else {}) \<union>
            (if md_allow_other md then {Allow_other} else {})
      in (set_fc (s\<lparr>fc_bits := bits, user_id := md_user_id md, group_id := md_group_id md,
                    max_read := max 4096 (md_max_read md)\<rparr>) ms)
           \<lparr>ms_flags := insert MS_POSIXACL (ms_flags ms), ms_fs_info := True\<rparr>)"

definition fill_conn :: "mount_env \<Rightarrow> fuse_mount_data \<Rightarrow> mount_file \<Rightarrow> mount_state \<Rightarrow> fill_result" where
  "fill_conn e md f ms =
     (if \<not> me_ok_fc e then err_fput (- ENOMEM) f ms
      else
        let ms1 = (set_fc (fuse_conn_init (me_key e) (fc_of ms)) ms)\<lparr>ms_memory := Conn_allocated\<rparr> in
        (case fuse_dev_alloc (me_ok_dev e) (fc_of ms1) of
           (None, s1) \<Rightarrow> err_put_conn (- ENOMEM) f (set_fc s1 ms1)
         | (Some d, s1) \<Rightarrow>
             let ms2 = set_fc (s1\<lparr>sb_time_gran := Some 1\<rparr>) ms1; (err, ms3) = fuse_bdi_init e ms2 in
             if err \<noteq> 0 then err_dev_free err f d ms3
             else fill_root e md f d (fill_options md ms3)))"

text \<open>The device file, and the block size.\<close>

definition fill_file ::
    "mount_env \<Rightarrow> fuse_mount_data \<Rightarrow> (int \<Rightarrow> mount_file option) \<Rightarrow> mount_state \<Rightarrow> fill_result" where
  "fill_file e md fget ms =
     (case fget (md_fd md) of
        None \<Rightarrow> Some (- EINVAL, None, ms)
      | Some f0 \<Rightarrow>
          let f = f0\<lparr>mf_count := mf_count f0 + 1\<rparr> in
          if \<not> mf_dev_ops f \<or> \<not> mf_init_ns f then err_fput (- EINVAL) f ms else fill_conn e md f ms)"

definition fill_blocksize :: "fuse_mount_data \<Rightarrow> mount_state \<Rightarrow> mount_state" where
  "fill_blocksize md ms =
     (let size = (if ms_bdev ms then unat (md_blksize md) else PAGE_SIZE);
          bits = (if ms_bdev ms then ilog2 (unat (md_blksize md)) else PAGE_SHIFT)
      in ms\<lparr>ms_blocksize := size, ms_fs := (ms_fs ms)\<lparr>s_blocksize_bits := bits\<rparr>\<rparr>)"

definition fuse_fill_super ::
    "mount_env \<Rightarrow> string option \<Rightarrow> (int \<Rightarrow> mount_file option) \<Rightarrow> mount_state \<Rightarrow> fill_result" where
  "fuse_fill_super e data fget ms =
     (if MS_MANDLOCK \<in> ms_flags ms then Some (- EINVAL, None, ms)
      else
        let ms1 = ms\<lparr>ms_flags := ms_flags ms - {MS_NOSEC, MS_I_VERSION}\<rparr> in
        case parse_fuse_opt (me_parser e) (me_ok_dup e) data (ms_bdev ms) of
          None \<Rightarrow> Some (- EINVAL, None, ms1)
        | Some md \<Rightarrow>
            if ms_bdev ms \<and> \<not> me_set_blocksize e then Some (- EINVAL, None, ms1)
            else fill_file e md fget (fill_blocksize md ms1))"

subsection \<open>Unmounting\<close>

definition mount_abort :: "mount_state \<Rightarrow> mount_state option" where
  "mount_abort ms = map_option (\<lambda>s. set_fc s ms) (fuse_abort_conn (fc_of ms))"

definition fuse_put_super :: "(fuse_state \<Rightarrow> fuse_state) \<Rightarrow> mount_state \<Rightarrow> mount_state option" where
  "fuse_put_super env ms = do {
     s \<leftarrow> fuse_send_destroy env (fc_of ms);
     ms1 \<leftarrow> mount_abort (set_fc s ms);
     ctl \<leftarrow> fuse_ctl_remove_conn (ms_id ms1)
              ((ms_ctl ms1)\<lparr>conn_list := without (ms_id ms1) (conn_list (ms_ctl ms1))\<rparr>);
     mount_conn_put (fuse_bdi_destroy (ms1\<lparr>ms_ctl := ctl\<rparr>))}"

definition fuse_umount_begin :: "mount_state \<Rightarrow> mount_state option" where
  "fuse_umount_begin ms = mount_abort ms"

text \<open>
  \<open>fuse_kill_sb_anon\<close>: \<open>s_fs_info\<close> is followed to clear \<open>fc->sb\<close>; \<open>kill_anon_super\<close> of the VFS then drops
  the root and calls \<open>put_super\<close> if there is a root. \<open>env\<close> is as for \<open>fuse_send_destroy\<close>.
\<close>

definition fuse_kill_sb_anon :: "(fuse_state \<Rightarrow> fuse_state) \<Rightarrow> mount_state \<Rightarrow> mount_state option" where
  "fuse_kill_sb_anon env ms = do {
     ms1 \<leftarrow> (if \<not> ms_fs_info ms then Some ms
             else if ms_memory ms \<noteq> Conn_allocated then None
             else Some (set_fc ((fc_of ms)\<lparr>sb_time_gran := None\<rparr>) ms));
     (case ms_root ms1 of
        None \<Rightarrow> Some ms1
      | Some i \<Rightarrow> do {
          sb \<leftarrow> iput i ((ms_fs ms1)\<lparr>s_active := False\<rparr>);
          fuse_put_super env (ms1\<lparr>ms_fs := sb, ms_root := None\<rparr>)})}"

text \<open>\<open>fuse_kill_sb_blk\<close> differs in the function of the VFS it calls last.\<close>

definition fuse_kill_sb_blk :: "(fuse_state \<Rightarrow> fuse_state) \<Rightarrow> mount_state \<Rightarrow> mount_state option" where
  "fuse_kill_sb_blk = fuse_kill_sb_anon"

definition fuse_remount_fs :: "sb_flag set \<Rightarrow> int" where
  "fuse_remount_fs flags = (if MS_MANDLOCK \<in> flags then - EINVAL else 0)"

subsection \<open>The root inode\<close>

lemma fuse_init_inode_keeps:
  assumes "fuse_init_inode attr v = Some w"
  shows "i_count w = i_count v" and "write_files w = write_files v" and "queued_writes w = queued_writes v"
  using assms by (auto simp: fuse_init_inode_def Let_def split: if_split_asm)

definition sole_inode :: "ino_id \<Rightarrow> (ino_id \<rightharpoonup> fuse_inode) \<Rightarrow> (ino_id \<rightharpoonup> fuse_inode) \<Rightarrow> bool" where
  "sole_inode i m0 m \<longleftrightarrow> m0 i = None \<and> (\<exists>v. m = m0(i \<mapsto> v) \<and> i_count v = 1 \<and> write_files v = [] \<and> queued_writes v = [])"

lemma root_inode_spec:
  assumes inv: "sb_inv sb" and h: "ihash sb 1 = None" and ty: "fuse_valid_type (ucast mode)"
  shows "\<exists>found sb'. fuse_get_root_inode ok mode sb = Some (found, sb') \<and> s_active sb' = s_active sb \<and>
     (\<exists>k. conn sb' = (conn sb)\<lparr>attr_version := k\<rparr>) \<and>
     (found = None \<longleftrightarrow> \<not> (ok 0 \<and> ok 1)) \<and>
     (case found of None \<Rightarrow> inodes sb' = inodes sb | Some i \<Rightarrow> sole_inode i (inodes sb) (inodes sb'))"
proof (cases "ok 0 \<and> ok 1")
  case False
  then have "fuse_get_root_inode ok mode sb = Some (None, sb)"
    by (auto simp: fuse_get_root_inode_def fuse_iget_def iget_find_def ilookup5_def h iget_fresh_def iget5_new_def
        fuse_alloc_inode_def)
  then show ?thesis using False by (intro exI [of _ None] exI [of _ sb]) (auto intro: exI [of _ "attr_version (conn sb)"])
next
  case True
  let ?i = "next_ino sb"
  let ?a = "\<lparr>at_ino = 1, at_size = 0, at_blocks = 0, at_atime = zero_time, at_mtime = zero_time,
       at_ctime = zero_time, at_mode = mode, at_nlink = 1, at_uid = 0, at_gid = 0, at_rdev = 0, at_blksize = 0\<rparr>"
  have absent: "inodes sb ?i = None" using sb_invD(2) [OF inv] by simp
  have "fuse_valid_type (attr_umode ?a)" using ty by (simp add: attr_umode_def)
  then obtain w where w: "iget_setup 0 ?a (Writeback_cache \<in> fc_bits (conn sb)) (fuse_inode_set 1 new_inode) = Some w"
    unfolding iget_setup_def using fuse_init_inode_valid by blast
  note keeps = fuse_init_inode_keeps [OF w [unfolded iget_setup_def]]
  let ?w = "w\<lparr>nlookup := nlookup w + 1\<rparr>"
  let ?sb1 = "sb\<lparr>inodes := (inodes sb)(?i \<mapsto> w), ihash := (ihash sb)(1 \<mapsto> ?i), next_ino := Suc ?i\<rparr>"
  let ?sb2 = "upd_inode ?i (\<lambda>v. v\<lparr>nlookup := nlookup v + 1\<rparr>) ?sb1"
  have find: "iget_find ok 1 0 ?a sb = Some (Some ?i, ?sb1)"
    using True w by (simp add: iget_find_def ilookup5_def h iget_fresh_def iget5_new_def fuse_alloc_inode_def)
  have at: "inodes ?sb2 ?i = Some ?w" by simp
  obtain sb3 where sb3: "fuse_change_attributes ?i ?a 0 0 ?sb2 = Some sb3"
    by (cases "attr_stale ?w 0") (simp_all add: fuse_change_attributes_def at Let_def)
  note fr = change_attributes_frame [OF at sb3]
  from fr(1) obtain v where v: "inodes sb3 = (inodes ?sb2)(?i \<mapsto> v)" "i_count v = i_count ?w"
      "write_files v = write_files ?w" "queued_writes v = queued_writes ?w" by blast
  have "sole_inode ?i (inodes sb) (inodes sb3)"
    using absent v keeps by (auto simp: sole_inode_def fuse_inode_set_def new_inode_def intro!: exI [of _ v])
  moreover have "fuse_get_root_inode ok mode sb = Some (Some ?i, sb3)"
    using find sb3 by (simp add: fuse_get_root_inode_def fuse_iget_def)
  ultimately show ?thesis using fr(2,3) True by (intro exI [of _ "Some ?i"] exI [of _ sb3]) simp
qed

lemma iput_sole_inactive:
  assumes "sole_inode i m0 (inodes sb)" and "\<not> s_active sb"
  shows "\<exists>sb'. iput i sb = Some sb' \<and> inodes sb' = m0 \<and> conn sb' = conn sb \<and> s_active sb' = s_active sb"
  using assms
  by (auto simp: sole_inode_def iput_def fuse_evict_inode_def fuse_destroy_inode_def Let_def fun_upd_idem)

subsection \<open>The error ladder\<close>

text \<open>
  What a mount in progress holds, relative to the state \<open>ms0\<close> it started from: the connection, and where
  they exist its device \<open>d\<close>, the root inode \<open>i\<close> and the INIT request \<open>r\<close>.
\<close>

definition own_reqs :: "req_id set \<Rightarrow> fuse_state \<Rightarrow> fuse_state \<Rightarrow> bool" where
  "own_reqs own s0 s \<longleftrightarrow>
     (\<forall>x\<in>own. reqs s0 x = None \<and> x \<in> dom (reqs s)) \<and> (\<forall>x. x \<notin> own \<longrightarrow> reqs s x = reqs s0 x)"

definition own_dev :: "dev_id option \<Rightarrow> fuse_state \<Rightarrow> fuse_state \<Rightarrow> bool" where
  "own_dev d s0 s \<longleftrightarrow> (case d of
      None \<Rightarrow> fc_count s = 1 \<and> devices s = [] \<and> devs s = devs s0
    | Some d \<Rightarrow> fc_count s = 2 \<and> devices s = [d] \<and> devs s0 d = None \<and> (\<exists>x. devs s = (devs s0)(d \<mapsto> x)))"

definition own_root :: "ino_id option \<Rightarrow> mount_state \<Rightarrow> mount_state \<Rightarrow> bool" where
  "own_root i ms0 ms \<longleftrightarrow> (case i of None \<Rightarrow> inodes (ms_fs ms) = inodes (ms_fs ms0)
     | Some i \<Rightarrow> sole_inode i (inodes (ms_fs ms0)) (inodes (ms_fs ms)))"

definition same_outside :: "mount_state \<Rightarrow> mount_state \<Rightarrow> bool" where
  "same_outside ms0 ms \<longleftrightarrow> dentries (ms_ctl ms) = dentries (ms_ctl ms0) \<and> root_nlink (ms_ctl ms) = root_nlink (ms_ctl ms0) \<and>
     conn_list (ms_ctl ms) = conn_list (ms_ctl ms0) \<and> control_sb (ms_ctl ms) = control_sb (ms_ctl ms0) \<and> 
     ms_root ms = ms_root ms0 \<and> ms_id ms = ms_id ms0"

definition building :: "dev_id option \<Rightarrow> ino_id option \<Rightarrow> req_id option \<Rightarrow> mount_state \<Rightarrow> mount_state \<Rightarrow> bool" where
  "building d i r ms0 ms \<longleftrightarrow> ms_memory ms = Conn_allocated \<and> \<not> s_active (ms_fs ms) \<and> same_outside ms0 ms \<and>
     ms_bdis ms = ms_bdis ms0 + (if Bdi_initialized \<in> fc_bits (fc_of ms) then 1 else 0) \<and>
     own_dev d (fc_of ms0) (fc_of ms) \<and> own_root i ms0 ms \<and>
     own_reqs (set_option r \<union> set_option (destroy_req (fc_of ms))) (fc_of ms0) (fc_of ms) \<and>
     (destroy_req (fc_of ms) = None \<or> destroy_req (fc_of ms) \<noteq> r)"

text \<open>Everything the mount had taken is given back.\<close>

definition released :: "mount_state \<Rightarrow> mount_state \<Rightarrow> bool" where
  "released ms0 ms \<longleftrightarrow> ms_memory ms \<noteq> Conn_allocated \<and> same_outside ms0 ms \<and> ms_bdis ms = ms_bdis ms0 \<and>
     reqs (fc_of ms) = reqs (fc_of ms0) \<and> devs (fc_of ms) = devs (fc_of ms0) \<and>
     inodes (ms_fs ms) = inodes (ms_fs ms0) \<and> (ms_fs_info ms \<noteq> ms_fs_info ms0 \<longrightarrow> ms_memory ms = Conn_freed)"

lemma fc_simps [simp]:
  "fc_of (set_fc s ms) = s" "ms_memory (set_fc s ms) = ms_memory ms" "ms_ctl (set_fc s ms) = ms_ctl ms"
  "ms_root (set_fc s ms) = ms_root ms" "ms_id (set_fc s ms) = ms_id ms" "ms_bdis (set_fc s ms) = ms_bdis ms"
  "inodes (ms_fs (set_fc s ms)) = inodes (ms_fs ms)" "s_active (ms_fs (set_fc s ms)) = s_active (ms_fs ms)"
  "ms_flags (set_fc s ms) = ms_flags ms" "ms_bdev (set_fc s ms) = ms_bdev ms" "ms_fs_info (set_fc s ms) = ms_fs_info ms"
  "ihash (ms_fs (set_fc s ms)) = ihash (ms_fs ms)" "next_ino (ms_fs (set_fc s ms)) = next_ino (ms_fs ms)"
  "fc_of (ms\<lparr>ms_memory := m\<rparr>) = fc_of ms" "fc_of (ms\<lparr>ms_bdis := b\<rparr>) = fc_of ms" "fc_of (ms\<lparr>ms_ctl := c\<rparr>) = fc_of ms"
  "fc_of (ms\<lparr>ms_fs := sb\<rparr>) = conn sb" "fc_of (ms\<lparr>ms_root := rt\<rparr>) = fc_of ms" "fc_of (ms\<lparr>ms_flags := fl\<rparr>) = fc_of ms"
  "fc_of (ms\<lparr>ms_fs_info := b2\<rparr>) = fc_of ms" "fc_of (ms\<lparr>ms_blocksize := bs\<rparr>) = fc_of ms"
  by (simp_all add: fc_of_def set_fc_def)

lemma same_outside_simps [simp]:
  "same_outside ms0 (set_fc s ms) = same_outside ms0 ms" "same_outside ms0 (ms\<lparr>ms_memory := m\<rparr>) = same_outside ms0 ms"
  "same_outside ms0 (ms\<lparr>ms_bdis := b\<rparr>) = same_outside ms0 ms" "same_outside ms0 (ms\<lparr>ms_fs := sb\<rparr>) = same_outside ms0 ms"
  "same_outside ms0 (ms\<lparr>ms_flags := fl\<rparr>) = same_outside ms0 ms"
  "same_outside ms0 (ms\<lparr>ms_fs_info := b2\<rparr>) = same_outside ms0 ms"
  by (simp_all add: same_outside_def)

lemma err_put_conn_spec:
  assumes "building None None None ms0 ms"
  shows "\<exists>ms'. err_put_conn err f ms = Some (err, Some (fput f), ms') \<and> released ms0 ms' \<and> ms_memory ms' = Conn_freed \<and>
     ms_fs_info ms' = ms_fs_info ms"
proof -
  let ?s = "fc_of ms" and ?b = "fuse_bdi_destroy ms"
  have b: "fc_of ?b = ?s" "ms_memory ?b = Conn_allocated" "ms_bdis ?b = ms_bdis ms0" "same_outside ms0 ?b"
      "inodes (ms_fs ?b) = inodes (ms_fs ms0)" "ms_fs_info ?b = ms_fs_info ms"
    using assms by (auto simp: building_def fuse_bdi_destroy_def own_root_def)
  have s: "fc_count ?s = 1" "devs ?s = devs (fc_of ms0)" using assms by (simp_all add: building_def own_dev_def)
  have "\<exists>s'. fuse_conn_put ?s = Some s' \<and> reqs s' = reqs (fc_of ms0) \<and> devs s' = devs (fc_of ms0)"
  proof (cases "destroy_req ?s")
    case None
    then have "reqs ?s = reqs (fc_of ms0)" using assms by (auto simp: building_def own_reqs_def)
    then show ?thesis using None s by (simp add: fuse_conn_put_def fuse_free_conn_def emit_def Let_def)
  next
    case (Some q)
    then have o: "own_reqs {q} (fc_of ms0) ?s" using assms by (simp add: building_def)
    then obtain x where "reqs ?s q = Some x" by (auto simp: own_reqs_def)
    moreover have "(reqs ?s)(q := None) = reqs (fc_of ms0)" using o by (auto simp: own_reqs_def fun_eq_iff)
    ultimately show ?thesis using Some s by (simp add: fuse_conn_put_def fuse_free_conn_def emit_def fuse_request_free_def Let_def)
  qed
  then obtain s' where s': "fuse_conn_put ?s = Some s'" "reqs s' = reqs (fc_of ms0)" "devs s' = devs (fc_of ms0)" by blast
  let ?ms' = "(set_fc s' ?b)\<lparr>ms_memory := Conn_freed\<rparr>"
  have "mount_conn_put ?b = Some ?ms'" using b(1,2) s(1) s'(1) by (simp add: mount_conn_put_def)
  then show ?thesis using b s' by (simp add: err_put_conn_def err_fput_def released_def)
qed

lemma err_dev_free_spec:
  assumes "building (Some d) None None ms0 ms"
  shows "\<exists>ms'. err_dev_free err f d ms = Some (err, Some (fput f), ms') \<and> released ms0 ms' \<and> ms_memory ms' = Conn_freed \<and>
     ms_fs_info ms' = ms_fs_info ms"
proof -
  let ?s = "fc_of ms"
  have s: "fc_count ?s = 2" "devices ?s = [d]" "devs (fc_of ms0) d = None" "\<exists>x. devs ?s = (devs (fc_of ms0))(d \<mapsto> x)"
    using assms by (simp_all add: building_def own_dev_def)
  let ?s' = "?s\<lparr>devices := [], fc_count := 1, devs := devs (fc_of ms0)\<rparr>"
  have del: "(devs ?s)(d := None) = devs (fc_of ms0)" using s(3,4) by (auto simp: fun_eq_iff)
  have "fuse_dev_free d ?s = Some ?s'"
    using s(1,2,4) del by (auto simp: fuse_dev_free_def fuse_conn_put_def)
  then have run: "mount_dev_free d ms = Some ((set_fc ?s' ms)\<lparr>ms_memory := Conn_allocated\<rparr>)"
    using assms s(1) by (simp add: mount_dev_free_def building_def)
  have "building None None None ms0 ((set_fc ?s' ms)\<lparr>ms_memory := Conn_allocated\<rparr>)"
    using assms by (simp add: building_def own_dev_def own_root_def own_reqs_def)
  from err_put_conn_spec [OF this, of err f] show ?thesis by (simp add: err_dev_free_def run)
qed

lemma err_put_root_spec:
  assumes "building (Some d) (Some i) None ms0 ms"
  shows "\<exists>ms'. err_put_root err f d i ms = Some (err, Some (fput f), ms') \<and> released ms0 ms' \<and> ms_memory ms' = Conn_freed \<and>
     ms_fs_info ms' = ms_fs_info ms"
proof -
  obtain sb where sb: "iput i (ms_fs ms) = Some sb" "inodes sb = inodes (ms_fs ms0)" "conn sb = fc_of ms"
      "s_active sb = s_active (ms_fs ms)"
    using iput_sole_inactive [of i "inodes (ms_fs ms0)" "ms_fs ms"] assms by (auto simp: building_def own_root_def fc_of_def)
  have "building (Some d) None None ms0 (ms\<lparr>ms_fs := sb\<rparr>)"
    using assms sb by (simp add: building_def own_root_def)
  from err_dev_free_spec [OF this, of err f] show ?thesis by (simp add: err_put_root_def sb)
qed

lemma err_free_init_req_spec:
  assumes "building (Some d) (Some i) (Some r) ms0 ms"
  shows "\<exists>ms'. err_free_init_req err f d i r ms = Some (err, Some (fput f), ms') \<and> released ms0 ms' \<and> ms_memory ms' = Conn_freed \<and>
     ms_fs_info ms' = ms_fs_info ms"
proof -
  let ?s = "fc_of ms"
  have o: "own_reqs (insert r (set_option (destroy_req ?s))) (fc_of ms0) ?s" "destroy_req ?s \<noteq> Some r"
    using assms by (auto simp: building_def)
  then obtain x where x: "reqs ?s r = Some x" by (auto simp: own_reqs_def)
  have "building (Some d) (Some i) None ms0 (set_fc (?s\<lparr>reqs := (reqs ?s)(r := None)\<rparr>) ms)"
    using assms o by (auto simp: building_def own_root_def own_dev_def own_reqs_def split: option.splits)
  from err_put_root_spec [OF this, of err f] show ?thesis by (simp add: err_free_init_req_def fuse_request_free_def x)
qed


subsection \<open>The way up\<close>

text \<open>A connection nothing has been sent on yet, and the request INIT is sent with.\<close>

definition idle_conn :: "fuse_state \<Rightarrow> bool" where
  "idle_conn s \<longleftrightarrow> connected s \<and> pending (iq s) = [] \<and> bg_queue s = [] \<and> num_background s = 0 \<and>
     active_background s = 0 \<and> num_waiting s = 0 \<and> max_background s = FUSE_DEFAULT_MAX_BACKGROUND \<and>
     congestion_threshold s = FUSE_DEFAULT_CONGESTION_THRESHOLD \<and> dev_count s = 1 \<and> \<not> initialized s"

definition init_pending :: "req_id \<Rightarrow> fuse_state \<Rightarrow> bool" where
  "init_pending r s \<longleftrightarrow> pending (iq s) = [r] \<and> num_waiting s = 1 \<and> num_background s = 1 \<and> active_background s = 1 \<and>
     bg_queue s = [] \<and> connected s \<and> \<not> initialized s \<and>
     (\<exists>q. reqs s r = Some q \<and> ih_opcode (in_h (rq_in q)) = FUSE_INIT \<and> rq_end q = Some End_init \<and>
       {FR_BACKGROUND, FR_WAITING, FR_ISREPLY, FR_PENDING} \<subseteq> rq_flags q)"

lemma flush_single:
  assumes "bg_queue s = [r]" and "active_background s = 0" and "0 < max_background s" and "reqs s r \<noteq> None"
  shows "flush_bg_queue s = Some (flush_bg_one r s)"
proof -
  have "flush_bg_queue s = flush_bg_queue (flush_bg_one r s)" using assms by (intro flush_go) auto
  also have "\<dots> = Some (flush_bg_one r s)" using assms by (intro flush_stop) simp
  finally show ?thesis .
qed

lemma flush_one_req:
  assumes "reqs s r = Some q"
  shows "\<exists>u n. reqs (flush_bg_one r s) r = Some (set_in_len n (set_in_unique u q))"
    and "x \<noteq> r \<Longrightarrow> reqs (flush_bg_one r s) x = reqs s x"
  using assms by (auto simp: flush_bg_one_def Let_def queue_unique_def fuse_get_unique_def queue_request_def
      upd_req_def list_del_def)

lemma send_init_idle:
  assumes idle: "idle_conn s" and q: "reqs s r = Some (set_flag FR_BACKGROUND (fuse_request_init 0))"
  shows "\<exists>s'. fuse_send_init enc r s = Some s' \<and> init_pending r s' \<and> (\<forall>x. x \<noteq> r \<longrightarrow> reqs s' x = reqs s x) \<and>
     fc_count s' = fc_count s \<and> dev_count s' = dev_count s \<and> devices s' = devices s \<and>
     fc_bits s' = fc_bits s \<and> dom (devs s') = dom (devs s)"
proof -
  let ?q = "init_fill enc s (set_flag FR_BACKGROUND (fuse_request_init 0))"
  let ?s0 = "upd_req r (init_fill enc s) s"
  let ?s1 = "waiting_inc (upd_req r (set_flag FR_WAITING) ?s0)"
  let ?s2 = "send_bg_counts r ?s1"
  have fl: "rq_flags ?q = {FR_PENDING, FR_BACKGROUND}" "rq_end ?q = Some End_init"
    "ih_opcode (in_h (rq_in ?q)) = FUSE_INIT"
    by (auto simp: init_fill_def set_flag_def fuse_request_init_def)
  have send: "fuse_send_init enc r s = flush_bg_queue ?s2"
    using fl idle
    by (simp add: q fuse_send_init_def fuse_request_send_background_def fuse_request_send_background_locked_def
        mark_waiting_def send_bg_counts_def idle_conn_def Let_def)
  have q2: "reqs ?s2 r = Some (set_flag FR_ISREPLY (set_flag FR_WAITING ?q))"
    by (simp add: q waiting_inc_def)
  have fl': "flush_bg_queue ?s2 = Some (flush_bg_one r ?s2)"
    using idle by (intro flush_single) (simp_all add: q waiting_inc_def idle_conn_def FUSE_DEFAULT_MAX_BACKGROUND_def)
  let ?s3 = "flush_bg_one r ?s2"
  from flush_one_req(1) [OF q2] obtain u n
    where q3: "reqs ?s3 r = Some (set_in_len n (set_in_unique u (set_flag FR_ISREPLY (set_flag FR_WAITING ?q))))" by blast
  have "init_pending r ?s3"
    using idle q3 fl by (auto simp: init_pending_def waiting_inc_def idle_conn_def set_in_len_def set_in_unique_def set_flag_def)
  moreover have "reqs ?s3 x = reqs s x" if "x \<noteq> r" for x
    using that flush_one_req(2) [OF q2] by (simp add: waiting_inc_def)
  moreover have "fc_count ?s3 = fc_count s \<and> dev_count ?s3 = dev_count s \<and> devices ?s3 = devices s \<and>
     fc_bits ?s3 = fc_bits s \<and> dom (devs ?s3) = dom (devs s)"
    by (auto simp: send_bg_counts_def waiting_inc_def Let_def dom_def)
  ultimately show ?thesis using send fl' by (intro exI [of _ ?s3]) simp
qed

text \<open>Entering the connection in the control file system, when no inode allocation fails there.\<close>

definition ctl_ready :: "oom \<Rightarrow> ctl_fs \<Rightarrow> bool" where
  "ctl_ready ok ctl \<longleftrightarrow> control_sb ctl \<longrightarrow> fresh_dentries ctl \<and> (\<exists>n. first_failure ok n \<and> even n)"

definition ctl_ok :: "mount_env \<Rightarrow> bool \<Rightarrow> bool" where
  "ctl_ok e csb \<longleftrightarrow> (csb \<longrightarrow> (\<forall>n < 10. me_ok_ctl e n))"

lemma mount_ctl_add_spec:
  assumes "ctl_ready (me_ok_ctl e) (ms_ctl ms)"
  shows "\<exists>err ctl1. mount_ctl_add e ms = Some (err, ms\<lparr>ms_ctl := ctl1\<rparr>) \<and> conn_list ctl1 = conn_list (ms_ctl ms) \<and>
     control_sb ctl1 = control_sb (ms_ctl ms) \<and> (err = 0 \<longleftrightarrow> ctl_ok e (control_sb (ms_ctl ms))) \<and>
     (err \<noteq> 0 \<longrightarrow> dentries ctl1 = dentries (ms_ctl ms) \<and> root_nlink ctl1 = root_nlink (ms_ctl ms))"
proof -
  let ?ctl = "(ms_ctl ms)\<lparr>conns := (conns (ms_ctl ms))(ms_id ms \<mapsto>
            \<lparr>cc_fc = fc_of ms, cc_dev = ms_dev ms, ctl_ndents = 0, ctl_dentry = (\<lambda>_. None)\<rparr>)\<rparr>"
  have "\<exists>err ctl1. fuse_ctl_add_conn (me_ok_ctl e) (ms_id ms) ?ctl = Some (err, ctl1) \<and> conn_list ctl1 = conn_list ?ctl \<and>
      control_sb ctl1 = control_sb ?ctl \<and> (err = 0 \<longleftrightarrow> ctl_ok e (control_sb ?ctl)) \<and> (err \<noteq> 0 \<longrightarrow> dentries ctl1 = dentries ?ctl \<and> root_nlink ctl1 = root_nlink ?ctl)"
  proof (cases "control_sb ?ctl")
    case False
    then show ?thesis by (simp add: fuse_ctl_add_conn_def ctl_ok_def)
  next
    case True
    then obtain n where n: "first_failure (me_ok_ctl e) n" "even n" and fresh: "fresh_dentries ?ctl"
      using assms by (auto simp: ctl_ready_def fresh_dentries_def)
    have cc: "conns ?ctl (ms_id ms) = Some \<lparr>cc_fc = fc_of ms, cc_dev = ms_dev ms, ctl_ndents = 0, ctl_dentry = (\<lambda>_. None)\<rparr>"
      by simp
    note spec = ctl_add_conn_spec [OF True cc _ n(1)]
    show ?thesis
    proof (cases "n = 10")
      case True
      then show ?thesis using spec n(1) by (auto simp: added_def ctl_ok_def first_failure_def)
    next
      case False
      then obtain k ctl' where "fuse_ctl_add_conn (me_ok_ctl e) (ms_id ms) ?ctl = ctl_add_fail (ms_id ms) ctl'"
          "added (ms_id ms) ?ctl k ctl'" using spec n(2) by auto
      moreover have "\<not> ctl_ok e (control_sb ?ctl)"
        using n(1) False True by (auto simp: ctl_ok_def first_failure_def intro!: exI [of _ n])
      ultimately show ?thesis using remove_added [OF _ True fresh] True by (fastforce simp: ctl_add_fail_def ENOMEM_def)
    qed
  qed
  then show ?thesis by (auto simp: mount_ctl_add_def Let_def)
qed

text \<open>The two outcomes of a mount that has taken the device file \<open>f\<close>.\<close>

definition mounted :: "mount_state \<Rightarrow> dev_id \<Rightarrow> mount_state \<Rightarrow> bool" where
  "mounted ms0 d ms \<longleftrightarrow> ms_memory ms = Conn_allocated \<and> fc_count (fc_of ms) = 2 \<and> dev_count (fc_of ms) = 1 \<and>
     devices (fc_of ms) = [d] \<and> dom (devs (fc_of ms)) = insert d (dom (devs (fc_of ms0))) \<and>
     conn_list (ms_ctl ms) = conn_list (ms_ctl ms0) @ [ms_id ms0] \<and> ms_bdis ms = ms_bdis ms0 + 1 \<and>
     (\<exists>i. ms_root ms = Some i \<and> sole_inode i (inodes (ms_fs ms0)) (inodes (ms_fs ms))) \<and>
     (\<exists>r. reqs (fc_of ms0) r = None \<and> init_pending r (fc_of ms))"

definition fill_outcome :: "mount_state \<Rightarrow> mount_file \<Rightarrow> bool \<Rightarrow> bool \<Rightarrow> fill_result \<Rightarrow> bool" where
  "fill_outcome ms0 f good info res \<longleftrightarrow> (\<exists>err f' ms'. res = Some (err, Some f', ms') \<and>
     (info \<longrightarrow> ms_fs_info ms') \<and> (err = 0 \<longleftrightarrow> good) \<and>
     (if good then \<exists>d. f' = fput (f\<lparr>mf_private := Some d\<rparr>) \<and> mounted ms0 d ms' else f' = fput f \<and> released ms0 ms'))"

lemma released_outcome:
  assumes "\<exists>ms'. res = Some (err, Some (fput f), ms') \<and> released ms0 ms' \<and> ms_memory ms' = Conn_freed \<and> ms_fs_info ms' = info"
    and "err \<noteq> 0"
  shows "fill_outcome ms0 f False info res"
  using assms by (auto simp: fill_outcome_def)

text \<open>When the steps succeed.\<close>

definition publish_ok :: "mount_env \<Rightarrow> mount_file \<Rightarrow> bool \<Rightarrow> bool" where
  "publish_ok e f csb \<longleftrightarrow> mf_private f = None \<and> ctl_ok e csb"

definition requests_ok :: "mount_env \<Rightarrow> mount_file \<Rightarrow> bool \<Rightarrow> bool \<Rightarrow> bool" where
  "requests_ok e f bdev csb \<longleftrightarrow> me_ok_init e 0 \<and> (bdev \<longrightarrow> me_ok_destroy e 0) \<and> publish_ok e f csb"

definition root_ok :: "mount_env \<Rightarrow> mount_file \<Rightarrow> bool \<Rightarrow> bool \<Rightarrow> bool" where
  "root_ok e f bdev csb \<longleftrightarrow> me_ok_root e 0 \<and> me_ok_root e 1 \<and> me_ok_dentry e \<and> requests_ok e f bdev csb"

definition bdi_ok :: "mount_env \<Rightarrow> bool" where
  "bdi_ok e \<longleftrightarrow> me_ok_fc e \<and> me_ok_dev e 0 \<and> me_bdi_init e = 0 \<and> me_bdi_register e = 0"

lemma fill_publish_spec:
  assumes b: "building (Some d) (Some i) (Some r) ms0 ms" and idle: "idle_conn (fc_of ms)"
    and bdi: "Bdi_initialized \<in> fc_bits (fc_of ms)"
    and q: "reqs (fc_of ms) r = Some (set_flag FR_BACKGROUND (fuse_request_init 0))"
    and ctl: "ctl_ready (me_ok_ctl e) (ms_ctl ms)"
  shows "fill_outcome ms0 f (publish_ok e f (control_sb (ms_ctl ms))) (ms_fs_info ms) (fill_publish e f d i r ms)"
proof (cases "mf_private f")
  case (Some x)
  then show ?thesis
    using released_outcome [OF err_free_init_req_spec [OF b, of "- EINVAL" f]]
    by (simp add: fill_publish_def publish_ok_def EINVAL_def)
next
  case None
  from mount_ctl_add_spec [OF ctl] obtain err ctl1 where add: "mount_ctl_add e ms = Some (err, ms\<lparr>ms_ctl := ctl1\<rparr>)"
      "conn_list ctl1 = conn_list (ms_ctl ms)" "control_sb ctl1 = control_sb (ms_ctl ms)"
      "err \<noteq> 0 \<longrightarrow> dentries ctl1 = dentries (ms_ctl ms) \<and> root_nlink ctl1 = root_nlink (ms_ctl ms)"
      "err = 0 \<longleftrightarrow> ctl_ok e (control_sb (ms_ctl ms))" by blast
  let ?ms1 = "ms\<lparr>ms_ctl := ctl1\<rparr>"
  show ?thesis
  proof (cases "err = 0")
    case False
    then have "building (Some d) (Some i) (Some r) ms0 ?ms1"
      using b add by (simp add: building_def same_outside_def own_root_def)
    from released_outcome [OF err_free_init_req_spec [OF this, of err f] False] show ?thesis
      using None False add(1,5) by (simp add: fill_publish_def publish_ok_def)
  next
    case True
    let ?ms2 = "?ms1\<lparr>ms_ctl := (ms_ctl ?ms1)\<lparr>conn_list := conn_list (ms_ctl ?ms1) @ [ms_id ?ms1]\<rparr>, ms_root := Some i\<rparr>"
    from send_init_idle [OF idle q, of "me_init_bytes e"] obtain s' where
        s': "fuse_send_init (me_init_bytes e) r (fc_of ms) = Some s'" "init_pending r s'" "fc_count s' = fc_count (fc_of ms)"
          "dev_count s' = dev_count (fc_of ms)" "devices s' = devices (fc_of ms)" "dom (devs s') = dom (devs (fc_of ms))"
      by blast
    have run: "fill_publish e f d i r ms = Some (0, Some (fput (f\<lparr>mf_private := Some d\<rparr>)), set_fc s' ?ms2)"
      using None True add(1) s'(1) by (simp add: fill_publish_def Let_def fc_of_def)
    have "reqs (fc_of ms0) r = None" using b by (simp add: building_def own_reqs_def)
    then have "mounted ms0 d (set_fc s' ?ms2)"
      using b s' add idle bdi
      by (auto simp: mounted_def building_def own_dev_def own_root_def idle_conn_def same_outside_def)
    then show ?thesis using run None add(5) True by (auto simp: fill_outcome_def publish_ok_def set_fc_def)
  qed
qed


definition fresh_reqs :: "fuse_state \<Rightarrow> fuse_state \<Rightarrow> bool" where
  "fresh_reqs s0 s \<longleftrightarrow> (\<forall>x \<ge> next_id s. reqs s0 x = None \<and> reqs s x = None)"

text \<open>What the steps after the backing device need of the connection.\<close>

definition ready_conn :: "mount_state \<Rightarrow> mount_state \<Rightarrow> bool" where
  "ready_conn ms0 ms \<longleftrightarrow> idle_conn (fc_of ms) \<and> Bdi_initialized \<in> fc_bits (fc_of ms) \<and> destroy_req (fc_of ms) = None \<and>
     fresh_reqs (fc_of ms0) (fc_of ms)"

lemma fill_requests_spec:
  assumes b: "building (Some d) (Some i) None ms0 ms" and rdy: "ready_conn ms0 ms"
    and ctl: "ctl_ready (me_ok_ctl e) (ms_ctl ms)"
  shows "fill_outcome ms0 f (requests_ok e f (ms_bdev ms) (control_sb (ms_ctl ms))) (ms_fs_info ms)
    (fill_requests e f d i ms)"
proof (cases "fuse_request_alloc (me_ok_init e) 0 (fc_of ms)")
  case (Pair ro s1)
  have alloc_ok: "ro = None \<longleftrightarrow> \<not> me_ok_init e 0" using Pair by (auto simp: fuse_request_alloc_def split: if_split_asm)
  show ?thesis
  proof (cases ro)
    case None
    then have "s1 = fc_of ms" using Pair fuse_request_alloc_None by blast
    then have "building (Some d) (Some i) None ms0 (set_fc s1 ms)" using b by (simp add: building_def own_root_def)
    from released_outcome [OF err_put_root_spec [OF this, of "- ENOMEM" f]] show ?thesis
      using Pair None alloc_ok by (simp add: fill_requests_def requests_ok_def ENOMEM_def)
  next
    case (Some r)
    note al = fuse_request_alloc_Some [OF Pair [unfolded Some]]
    let ?s2 = "upd_req r (set_flag FR_BACKGROUND) s1"
    let ?q = "set_flag FR_BACKGROUND (fuse_request_init 0)"
    have s2: "reqs ?s2 = (reqs (fc_of ms))(r \<mapsto> ?q)" "next_id ?s2 = Suc r"
      using al by (auto simp: upd_req_def)
    have fr: "reqs (fc_of ms0) r = None" "reqs (fc_of ms0) (Suc r) = None" "reqs (fc_of ms) (Suc r) = None"
      using rdy al(1) by (simp_all add: ready_conn_def fresh_reqs_def)
    have idle2: "idle_conn ?s2" and bits2: "Bdi_initialized \<in> fc_bits ?s2" "destroy_req ?s2 = None"
      using rdy al(3) by (simp_all add: ready_conn_def idle_conn_def)
    have b2: "building (Some d) (Some i) (Some r) ms0 (set_fc ?s2 ms)"
      using b s2 bits2 fr rdy al(3) by (auto simp: building_def own_root_def own_dev_def own_reqs_def ready_conn_def)
    show ?thesis
    proof (cases "ms_bdev ms")
      case False
      have "fill_outcome ms0 f (publish_ok e f (control_sb (ms_ctl ms))) (ms_fs_info ms) (fill_publish e f d i r (set_fc ?s2 ms))"
        using fill_publish_spec [OF b2] idle2 bits2 s2(1) ctl by simp
      then show ?thesis using Pair Some False alloc_ok by (simp add: fill_requests_def requests_ok_def)
    next
      case True
      note bdev = True
      show ?thesis
      proof (cases "fuse_request_alloc (me_ok_destroy e) 0 ?s2")
        case (Pair qo s3)
        note al2 = Pair
        have alloc_ok2: "qo = None \<longleftrightarrow> \<not> me_ok_destroy e 0"
          using al2 by (auto simp: fuse_request_alloc_def split: if_split_asm)
        show ?thesis
        proof (cases qo)
          case None
          then have "s3 = ?s2" using al2 fuse_request_alloc_None by blast
          then have "building (Some d) (Some i) (Some r) ms0 (set_fc (s3\<lparr>destroy_req := None\<rparr>) ms)"
            using b2 bits2 by (simp add: building_def own_root_def own_dev_def own_reqs_def)
          from released_outcome [OF err_free_init_req_spec [OF this, of "- ENOMEM" f]] show ?thesis
            using \<open>fuse_request_alloc (me_ok_init e) 0 (fc_of ms) = (ro, s1)\<close> Some bdev al2 None alloc_ok2
            by (simp add: fill_requests_def requests_ok_def ENOMEM_def)
        next
          case Dq: (Some q)
          note al3 = fuse_request_alloc_Some [OF al2 [unfolded Dq]]
          let ?s4 = "s3\<lparr>destroy_req := Some q\<rparr>"
          have q: "q = Suc r" using al3(1) s2(2) by simp
          have r4: "reqs ?s4 = (reqs (fc_of ms))(r \<mapsto> ?q, q \<mapsto> fuse_request_init 0)" using al3(3) s2(1) by simp
          have "idle_conn ?s4" "Bdi_initialized \<in> fc_bits ?s4" using al3(3) idle2 bits2 by (simp_all add: idle_conn_def)
          moreover have "own_reqs {r, q} (fc_of ms0) ?s4"
            using b rdy r4 q fr by (auto simp: building_def own_reqs_def ready_conn_def)
          then have "building (Some d) (Some i) (Some r) ms0 (set_fc ?s4 ms)"
            using b2 q al3(3) by (simp add: building_def own_root_def own_dev_def insert_commute)
          moreover have "reqs ?s4 r = Some ?q" using r4 q by simp
          ultimately have "fill_outcome ms0 f (publish_ok e f (control_sb (ms_ctl ms))) (ms_fs_info ms)
              (fill_publish e f d i r (set_fc ?s4 ms))"
            using ctl fill_publish_spec [of d i r ms0 "set_fc ?s4 ms"] by simp
          then show ?thesis
            using \<open>fuse_request_alloc (me_ok_init e) 0 (fc_of ms) = (ro, s1)\<close> Some bdev al2 Dq alloc_ok alloc_ok2
            by (simp add: fill_requests_def requests_ok_def)
        qed
      qed
    qed
  qed
qed

lemma fill_root_spec:
  assumes b: "building (Some d) None None ms0 ms" and rdy: "ready_conn ms0 ms"
    and ctl: "ctl_ready (me_ok_ctl e) (ms_ctl ms)" and inv: "sb_inv (ms_fs ms)" and h: "ihash (ms_fs ms) 1 = None"
    and ty: "fuse_valid_type (ucast (md_rootmode md))"
  shows "fill_outcome ms0 f (root_ok e f (ms_bdev ms) (control_sb (ms_ctl ms))) (ms_fs_info ms) (fill_root e md f d ms)"
proof -
  obtain found sb k where r: "fuse_get_root_inode (me_ok_root e) (md_rootmode md) (ms_fs ms) = Some (found, sb)"
      "s_active sb = s_active (ms_fs ms)" "conn sb = (fc_of ms)\<lparr>attr_version := k\<rparr>"
      "found = None \<longleftrightarrow> \<not> (me_ok_root e 0 \<and> me_ok_root e 1)"
      "case found of None \<Rightarrow> inodes sb = inodes (ms_fs ms) | Some i \<Rightarrow> sole_inode i (inodes (ms_fs ms)) (inodes sb)"
    using root_inode_spec [OF inv h ty, of "me_ok_root e"] by (auto simp: fc_of_def)
  let ?ms1 = "ms\<lparr>ms_fs := sb\<rparr>"
  have rdy1: "ready_conn ms0 ?ms1" using rdy r(3) by (simp add: ready_conn_def idle_conn_def fresh_reqs_def)
  have dev: "own_dev (Some d) (fc_of ms0) (conn sb)" "own_reqs {} (fc_of ms0) (conn sb)"
    using b r(3) rdy by (simp_all add: building_def own_dev_def own_reqs_def ready_conn_def)
  show ?thesis
  proof (cases found)
    case None
    then have "building (Some d) None None ms0 ?ms1" using b r dev by (simp add: building_def own_root_def own_reqs_def)
    from released_outcome [OF err_dev_free_spec [OF this, of "- ENOMEM" f]] show ?thesis
      using r(1,4) None by (auto simp: fill_root_def root_ok_def ENOMEM_def)
  next
    case (Some i)
    then have b1: "building (Some d) (Some i) None ms0 ?ms1" using b r dev by (simp add: building_def own_root_def own_reqs_def)
    show ?thesis
    proof (cases "me_ok_dentry e")
      case False
      obtain sb1 where "iput i sb = Some sb1" "inodes sb1 = inodes (ms_fs ms0)" "conn sb1 = conn sb" "s_active sb1 = s_active sb"
        using iput_sole_inactive [of i "inodes (ms_fs ms0)" sb] b1 by (auto simp: building_def own_root_def)
      moreover from this have "building (Some d) None None ms0 (?ms1\<lparr>ms_fs := sb1\<rparr>)"
        using b1 by (simp add: building_def own_root_def)
      from released_outcome [OF err_dev_free_spec [OF this, of "- ENOMEM" f]]
      have "fill_outcome ms0 f (root_ok e f (ms_bdev ms) (control_sb (ms_ctl ms))) (ms_fs_info ms)
          (err_dev_free (- ENOMEM) f d (?ms1\<lparr>ms_fs := sb1\<rparr>))"
        using False by (simp add: root_ok_def ENOMEM_def)
      ultimately show ?thesis using r(1) Some False by (simp add: fill_root_def)
    next
      case True
      from fill_requests_spec [OF b1 rdy1, of e f] ctl show ?thesis
        using r(1,4) Some True by (simp add: fill_root_def root_ok_def)
    qed
  qed
qed

text \<open>A superblock a mount can start from: inactive, without root, and with no inode hashed under the root's number.\<close>

definition mount_start :: "mount_env \<Rightarrow> mount_state \<Rightarrow> bool" where
  "mount_start e ms \<longleftrightarrow> ms_memory ms = Conn_unallocated \<and> \<not> s_active (ms_fs ms) \<and> sb_inv (ms_fs ms) \<and>
     ihash (ms_fs ms) 1 = None \<and> ctl_ready (me_ok_ctl e) (ms_ctl ms) \<and>
     (\<forall>x \<ge> next_id (fc_of ms). reqs (fc_of ms) x = None \<and> devs (fc_of ms) x = None)"

lemma conn_init_fields [simp]:
  "reqs (fuse_conn_init key s) = reqs s" "devs (fuse_conn_init key s) = devs s" "next_id (fuse_conn_init key s) = next_id s"
  "fc_count (fuse_conn_init key s) = 1" "devices (fuse_conn_init key s) = []" "destroy_req (fuse_conn_init key s) = None"
  "fc_bits (fuse_conn_init key s) = {}" "idle_conn (fuse_conn_init key s)"
  by (simp_all add: fuse_conn_init_def idle_conn_def fuse_iqueue_init_def)

lemma fill_conn_spec:
  assumes st: "mount_start e ms" and ty: "fuse_valid_type (ucast (md_rootmode md))"
  shows "fill_outcome ms f (bdi_ok e \<and> root_ok e f (ms_bdev ms) (control_sb (ms_ctl ms))) (ms_fs_info ms \<or> bdi_ok e)
    (fill_conn e md f ms)"
proof (cases "me_ok_fc e")
  case False
  then show ?thesis using st
    by (simp add: fill_conn_def err_fput_def fill_outcome_def released_def mount_start_def same_outside_def ENOMEM_def bdi_ok_def)
next
  case True
  let ?s = "fc_of ms" and ?c = "fuse_conn_init (me_key e) (fc_of ms)"
  let ?ms1 = "(set_fc ?c ms)\<lparr>ms_memory := Conn_allocated\<rparr>"
  have so: "same_outside ms ?ms1" by (simp add: same_outside_def)
  show ?thesis
  proof (cases "me_ok_dev e 0")
    case False
    then have al: "fuse_dev_alloc (me_ok_dev e) ?c = (None, ?c)" by (simp add: fuse_dev_alloc_def)
    have "building None None None ms (set_fc ?c ?ms1)"
      using st so by (simp add: building_def mount_start_def own_dev_def own_root_def own_reqs_def)
    from released_outcome [OF err_put_conn_spec [OF this, of "- ENOMEM" f]] show ?thesis
      using True False al by (simp add: fill_conn_def ENOMEM_def bdi_ok_def)
  next
    case False': True
    let ?d = "next_id ?s"
    obtain s1 where al: "fuse_dev_alloc (me_ok_dev e) ?c = (Some ?d, s1)"
      and s1: "reqs s1 = reqs ?s" "devices s1 = [?d]" "fc_count s1 = 2" "next_id s1 = Suc ?d" "destroy_req s1 = None"
        "fc_bits s1 = {}" "idle_conn s1" "\<exists>x. devs s1 = (devs ?s)(?d \<mapsto> x)"
      using False' conn_init_fields(8) [of "me_key e" ?s]
      by (auto simp: fuse_dev_alloc_def Let_def fuse_conn_get_def idle_conn_def)
    let ?ms2 = "set_fc (s1\<lparr>sb_time_gran := Some 1\<rparr>) ?ms1"
    obtain err ms3 where bi: "fuse_bdi_init e ?ms2 = (err, ms3)" by force
    have ms3: "\<exists>p b. ms3 = set_fc (s1\<lparr>sb_time_gran := Some 1, ra_pages := p, fc_bits := (if b then {Bdi_initialized} else {})\<rparr>)
        (?ms1\<lparr>ms_bdis := ms_bdis ms + (if b then 1 else 0)\<rparr>) \<and> (err = 0 \<longrightarrow> b) \<and>
        (err = 0 \<longleftrightarrow> me_bdi_init e = 0 \<and> me_bdi_register e = 0)"
      using bi s1(6)
      by (intro exI [of _ "(128 * 1024) div PAGE_SIZE"] exI [of _ "me_bdi_init e = 0"])
        (auto simp: fuse_bdi_init_def Let_def set_fc_def fc_of_def split: if_split_asm)
    then obtain p b where ms3: "ms3 = set_fc (s1\<lparr>sb_time_gran := Some 1, ra_pages := p, fc_bits := (if b then {Bdi_initialized} else {})\<rparr>)
        (?ms1\<lparr>ms_bdis := ms_bdis ms + (if b then 1 else 0)\<rparr>)" "err = 0 \<longrightarrow> b" "err = 0 \<longleftrightarrow> me_bdi_init e = 0 \<and> me_bdi_register e = 0" by blast
    have b3: "building (Some ?d) None None ms ms3"
      using st so s1 unfolding ms3 by (simp add: building_def mount_start_def own_dev_def own_root_def own_reqs_def)
    show ?thesis
    proof (cases "err = 0")
      case False
      from released_outcome [OF err_dev_free_spec [OF b3, of err f] False] show ?thesis
        using True al bi False ms3(1,3) by (auto simp: fill_conn_def bdi_ok_def Let_def)
    next
      case e0: True
      let ?ms4 = "fill_options md ms3"
      have b4: "building (Some ?d) None None ms ?ms4"
        using b3 by (auto simp: building_def fill_options_def Let_def own_root_def own_dev_def own_reqs_def)
      have r4: "ready_conn ms ?ms4"
        using st s1 ms3 e0 by (auto simp: ready_conn_def fill_options_def Let_def idle_conn_def fresh_reqs_def mount_start_def)
      have fs4: "inodes (ms_fs ?ms4) = inodes (ms_fs ms)" "ihash (ms_fs ?ms4) = ihash (ms_fs ms)"
          "next_ino (ms_fs ?ms4) = next_ino (ms_fs ms)" "ms_ctl ?ms4 = ms_ctl ms" "ms_bdev ?ms4 = ms_bdev ms" "ms_fs_info ?ms4"
        by (simp_all add: fill_options_def Let_def ms3(1) set_fc_def)
      have "fill_outcome ms f (root_ok e f (ms_bdev ms) (control_sb (ms_ctl ms))) True (fill_root e md f ?d ?ms4)"
        using fill_root_spec [OF b4 r4, of e md f] ty st fs4 sb_inv_cong [OF fs4(1,2,3)] by (simp add: mount_start_def)
      moreover have "fill_conn e md f ms = fill_root e md f ?d ?ms4"
        using True al bi e0 by (simp add: fill_conn_def Let_def)
      moreover have "bdi_ok e" using True False' ms3(3) e0 by (simp add: bdi_ok_def)
      ultimately show ?thesis by simp
    qed
  qed
qed


subsection \<open>Options\<close>

fun join_commas :: "string list \<Rightarrow> string" where
  "join_commas [] = []"
| "join_commas [p] = p"
| "join_commas (p # q # ps) = p @ CHR '','' # join_commas (q # ps)"

lemma strsep_all_spec:
  "strsep_all s \<noteq> [] \<and> join_commas (strsep_all s) = s \<and> (\<forall>p\<in>set (strsep_all s). CHR '','' \<notin> set p)"
proof (induction s)
  case (Cons c cs)
  then obtain t ts where ts: "strsep_all cs = t # ts" by (cases "strsep_all cs") auto
  then show ?case using Cons by (cases ts) auto
qed simp

text \<open>The last option of a kind in a list of options, with its argument.\<close>

definition last_arg :: "option_parser \<Rightarrow> mount_token \<Rightarrow> string list \<Rightarrow> string option" where
  "last_arg kp t ps = fold (\<lambda>p x. if p \<noteq> [] \<and> fst (match_token kp p) = t then Some (snd (match_token kp p)) else x) ps None"

text \<open>The data agree with the last option of every kind.\<close>

definition data_fits :: "option_parser \<Rightarrow> bool \<Rightarrow> (mount_token \<Rightarrow> string option) \<Rightarrow> fuse_mount_data \<Rightarrow> bool" where
  "data_fits kp is_bdev arg d \<longleftrightarrow>
     (case arg OPT_FD of None \<Rightarrow> \<not> fd_present d | Some a \<Rightarrow> fd_present d \<and> match_int kp a = Some (md_fd d)) \<and>
     (case arg OPT_ROOTMODE of None \<Rightarrow> \<not> rootmode_present d
      | Some a \<Rightarrow> rootmode_present d \<and> fuse_valid_type (ucast (md_rootmode d)) \<and>
          (\<exists>v. match_octal kp a = Some v \<and> md_rootmode d = word_of_int v)) \<and>
     (case arg OPT_USER_ID of None \<Rightarrow> \<not> user_id_present d
      | Some a \<Rightarrow> user_id_present d \<and> (\<exists>v. kstrtouint kp a = Inr v \<and> k_kuid kp v = Some (md_user_id d))) \<and>
     (case arg OPT_GROUP_ID of None \<Rightarrow> \<not> group_id_present d
      | Some a \<Rightarrow> group_id_present d \<and> (\<exists>v. kstrtouint kp a = Inr v \<and> k_kgid kp v = Some (md_group_id d))) \<and>
     (md_default_permissions d \<longleftrightarrow> arg OPT_DEFAULT_PERMISSIONS \<noteq> None) \<and>
     (md_allow_other d \<longleftrightarrow> arg OPT_ALLOW_OTHER \<noteq> None) \<and>
     (case arg OPT_MAX_READ of None \<Rightarrow> md_max_read d = - 1
      | Some a \<Rightarrow> (\<exists>v. match_int kp a = Some v \<and> md_max_read d = word_of_int v)) \<and>
     (case arg OPT_BLKSIZE of None \<Rightarrow> md_blksize d = FUSE_DEFAULT_BLKSIZE
      | Some a \<Rightarrow> is_bdev \<and> (\<exists>v. match_int kp a = Some v \<and> md_blksize d = word_of_int v)) \<and>
     arg OPT_ERR = None"

lemma parse_one_fits:
  assumes "data_fits kp is_bdev arg d" and "parse_one kp dup is_bdev p d = Some d'" and "p \<noteq> []"
  shows "data_fits kp is_bdev (arg(fst (match_token kp p) \<mapsto> snd (match_token kp p))) d'"
proof -
  obtain t a where t: "match_token kp p = (t, a)" by force
  have w: "ucast (word_of_int v :: u32) = (word_of_int v :: umode)" for v
    by (rule bit_word_eqI) (simp add: bit_simps)
  note run = assms(2) [unfolded parse_one_def if_not_P [OF assms(3)] t prod.case Let_def]
  note fits = assms(1) [unfolded data_fits_def]
  show ?thesis
  proof (cases t)
    case OPT_FD
    with run obtain v where "match_int kp a = Some v" "d' = d\<lparr>md_fd := v, fd_present := True\<rparr>" by auto
    then show ?thesis using fits by (auto simp: t data_fits_def OPT_FD cong: option.case_cong)
  next
    case OPT_ROOTMODE
    with run obtain v where "match_octal kp a = Some v" "fuse_valid_type (word_of_int v)"
        "d' = d\<lparr>md_rootmode := word_of_int v, rootmode_present := True\<rparr>"
      by (auto split: option.split_asm if_split_asm)
    then show ?thesis using fits by (auto simp: t data_fits_def OPT_ROOTMODE w cong: option.case_cong)
  next
    case OPT_USER_ID
    with run obtain v u where "kstrtouint kp a = Inr v" "k_kuid kp v = Some u" "d' = d\<lparr>md_user_id := u, user_id_present := True\<rparr>"
      by (auto simp: fuse_match_uint_def split: sum.split_asm if_split_asm)
    then show ?thesis using fits by (auto simp: t data_fits_def OPT_USER_ID cong: option.case_cong)
  next
    case OPT_GROUP_ID
    with run obtain v u where "kstrtouint kp a = Inr v" "k_kgid kp v = Some u" "d' = d\<lparr>md_group_id := u, group_id_present := True\<rparr>"
      by (auto simp: fuse_match_uint_def split: sum.split_asm if_split_asm)
    then show ?thesis using fits by (auto simp: t data_fits_def OPT_GROUP_ID cong: option.case_cong)
  next
    case OPT_DEFAULT_PERMISSIONS
    then show ?thesis using run fits by (auto simp: t data_fits_def cong: option.case_cong)
  next
    case OPT_ALLOW_OTHER
    then show ?thesis using run fits by (auto simp: t data_fits_def cong: option.case_cong)
  next
    case OPT_MAX_READ
    with run obtain v where "match_int kp a = Some v" "d' = d\<lparr>md_max_read := word_of_int v\<rparr>" by auto
    then show ?thesis using fits by (auto simp: t data_fits_def OPT_MAX_READ cong: option.case_cong)
  next
    case OPT_BLKSIZE
    with run obtain v where "is_bdev" "match_int kp a = Some v" "d' = d\<lparr>md_blksize := word_of_int v\<rparr>"
      by (auto split: if_split_asm)
    then show ?thesis using fits by (auto simp: t data_fits_def OPT_BLKSIZE cong: option.case_cong)
  next
    case OPT_ERR
    then show ?thesis using run by simp
  qed
qed

lemma parse_options_fits:
  assumes "data_fits kp is_bdev arg d" and "parse_options kp dup is_bdev ps d = Some d'"
  shows "data_fits kp is_bdev
     (\<lambda>t. fold (\<lambda>p x. if p \<noteq> [] \<and> fst (match_token kp p) = t then Some (snd (match_token kp p)) else x) ps (arg t)) d'"
  using assms
proof (induction ps arbitrary: arg d dup)
  case (Cons p ps)
  then obtain d1 where d1: "parse_one kp (dup 0) is_bdev p d = Some d1" "parse_options kp (\<lambda>n. dup (Suc n)) is_bdev ps d1 = Some d'"
    by (auto elim: bind_Some_E)
  show ?case
  proof (cases "p = []")
    case True
    then show ?thesis using Cons d1 by (simp add: parse_one_def)
  next
    case False
    let ?arg = "arg(fst (match_token kp p) \<mapsto> snd (match_token kp p))"
    have "(\<lambda>t. fold (\<lambda>p x. if p \<noteq> [] \<and> fst (match_token kp p) = t then Some (snd (match_token kp p)) else x) (p # ps) (arg t)) =
        (\<lambda>t. fold (\<lambda>p x. if p \<noteq> [] \<and> fst (match_token kp p) = t then Some (snd (match_token kp p)) else x) ps (?arg t))"
      using False by (auto simp: fun_eq_iff)
    then show ?thesis using Cons.IH [OF parse_one_fits [OF Cons.prems(1) d1(1) False] d1(2)] by simp
  qed
qed simp

lemma parse_rootmode_valid:
  assumes "parse_fuse_opt kp dup opt is_bdev = Some d"
  shows "fuse_valid_type (ucast (md_rootmode d))"
proof -
  let ?ps = "case opt of None \<Rightarrow> [] | Some s \<Rightarrow> strsep_all s"
  from assms have p: "parse_options kp dup is_bdev ?ps default_mount_data = Some d" and c: "options_complete d"
    by (auto simp: parse_fuse_opt_def split: option.split_asm if_split_asm)
  have "data_fits kp is_bdev (\<lambda>_. None) default_mount_data" by (simp add: data_fits_def default_mount_data_def)
  from parse_options_fits [OF this p] c show ?thesis
    by (auto simp: data_fits_def options_complete_def split: option.split_asm)
qed

text \<open>The outcome of a mount from its start.\<close>

definition mount_outcome :: "(int \<Rightarrow> mount_file option) \<Rightarrow> mount_state \<Rightarrow> bool \<Rightarrow> bool \<Rightarrow> fill_result \<Rightarrow> bool" where
  "mount_outcome fget ms good info res \<longleftrightarrow> (\<exists>err fo ms'. res = Some (err, fo, ms') \<and>
     (info \<longrightarrow> ms_fs_info ms') \<and> (err = 0 \<longleftrightarrow> good) \<and>
     (if good then \<exists>n f d. fget n = Some f \<and> mf_private f = None \<and> fo = Some (f\<lparr>mf_private := Some d\<rparr>) \<and> mounted ms d ms'
      else released ms ms' \<and> (fo = None \<or> (\<exists>n. fo = fget n))))"

lemma mount_outcome_mono:
  assumes "mount_outcome fget ms1 good info res" and "\<And>m. released ms1 m \<Longrightarrow> released ms m"
    and "\<And>d m. mounted ms1 d m \<Longrightarrow> mounted ms d m"
  shows "mount_outcome fget ms good info res"
  using assms unfolding mount_outcome_def by (fastforce split: if_split_asm)

definition file_ok :: "mount_env \<Rightarrow> mount_file option \<Rightarrow> bool \<Rightarrow> bool \<Rightarrow> bool" where
  "file_ok e fo bdev csb \<longleftrightarrow> (\<exists>f. fo = Some f \<and> mf_dev_ops f \<and> mf_init_ns f \<and> bdi_ok e \<and> root_ok e f bdev csb)"

definition file_valid :: "mount_file option \<Rightarrow> bool" where
  "file_valid fo \<longleftrightarrow> (\<exists>f. fo = Some f \<and> mf_dev_ops f \<and> mf_init_ns f)"

lemma ok_count [simp]:
  "root_ok e (f\<lparr>mf_count := n\<rparr>) bdev csb = root_ok e f bdev csb"
  by (simp add: root_ok_def requests_ok_def publish_ok_def)

lemma fill_file_spec:
  assumes st: "mount_start e ms" and ty: "fuse_valid_type (ucast (md_rootmode md))"
  shows "mount_outcome fget ms (file_ok e (fget (md_fd md)) (ms_bdev ms) (control_sb (ms_ctl ms)))
     (file_valid (fget (md_fd md)) \<and> bdi_ok e) (fill_file e md fget ms)"
proof (cases "file_valid (fget (md_fd md))")
  case False
  have "released ms ms" using st by (simp add: released_def mount_start_def same_outside_def)
  moreover have "fill_file e md fget ms = Some (- EINVAL, fget (md_fd md), ms)"
    using False by (auto simp: fill_file_def err_fput_def file_valid_def fput_def split: option.split)
  moreover have "\<not> file_ok e (fget (md_fd md)) (ms_bdev ms) (control_sb (ms_ctl ms))"
    using False by (auto simp: file_ok_def file_valid_def)
  ultimately show ?thesis using False unfolding mount_outcome_def by (auto simp: EINVAL_def)
next
  case True
  then obtain f0 where f0: "fget (md_fd md) = Some f0" "mf_dev_ops f0" "mf_init_ns f0" by (auto simp: file_valid_def)
  let ?f = "f0\<lparr>mf_count := mf_count f0 + 1\<rparr>"
  let ?good = "bdi_ok e \<and> root_ok e f0 (ms_bdev ms) (control_sb (ms_ctl ms))"
  have fp: "fput ?f = f0" "fput (?f\<lparr>mf_private := x\<rparr>) = f0\<lparr>mf_private := x\<rparr>" for x by (simp_all add: fput_def)
  obtain err f' ms' where o: "fill_conn e md ?f ms = Some (err, Some f', ms')" "ms_fs_info ms \<or> bdi_ok e \<longrightarrow> ms_fs_info ms'"
      "err = 0 \<longleftrightarrow> ?good"
      "if ?good then \<exists>d. f' = fput (?f\<lparr>mf_private := Some d\<rparr>) \<and> mounted ms d ms' else f' = fput ?f \<and> released ms ms'"
    using fill_conn_spec [OF st ty, of ?f] unfolding fill_outcome_def by auto
  have run: "fill_file e md fget ms = Some (err, Some f', ms')" using f0 o(1) by (simp add: fill_file_def)
  have good: "file_ok e (fget (md_fd md)) (ms_bdev ms) (control_sb (ms_ctl ms)) = ?good" using f0 by (simp add: file_ok_def)
  show ?thesis
  proof (cases ?good)
    case True
    with o(4) obtain d where "f' = f0\<lparr>mf_private := Some d\<rparr>" "mounted ms d ms'" using fp by auto
    moreover have "mf_private f0 = None" using True by (simp add: root_ok_def requests_ok_def publish_ok_def)
    ultimately have "\<exists>n f d. fget n = Some f \<and> mf_private f = None \<and> Some f' = Some (f\<lparr>mf_private := Some d\<rparr>) \<and> mounted ms d ms'"
      using f0(1) by blast
    then show ?thesis using run o(2,3) True unfolding mount_outcome_def good by (intro exI [of _ err] exI [of _ "Some f'"] exI [of _ ms']) simp
  next
    case False
    then have "f' = f0" "released ms ms'" using o(4) fp by auto
    then show ?thesis using run o(2,3) False f0(1) [symmetric] unfolding mount_outcome_def good by auto
  qed
qed

text \<open>When a mount succeeds: nothing it asks for fails, and the device file has no connection yet.\<close>

definition mount_ok :: "mount_env \<Rightarrow> string option \<Rightarrow> (int \<Rightarrow> mount_file option) \<Rightarrow> mount_state \<Rightarrow> bool" where
  "mount_ok e data fget ms \<longleftrightarrow> MS_MANDLOCK \<notin> ms_flags ms \<and> (ms_bdev ms \<longrightarrow> me_set_blocksize e) \<and>
     (\<exists>md. parse_fuse_opt (me_parser e) (me_ok_dup e) data (ms_bdev ms) = Some md \<and>
        file_ok e (fget (md_fd md)) (ms_bdev ms) (control_sb (ms_ctl ms)))"

text \<open>When it comes as far as pointing the superblock to the connection.\<close>

definition mount_points :: "mount_env \<Rightarrow> string option \<Rightarrow> (int \<Rightarrow> mount_file option) \<Rightarrow> mount_state \<Rightarrow> bool" where
  "mount_points e data fget ms \<longleftrightarrow> MS_MANDLOCK \<notin> ms_flags ms \<and> (ms_bdev ms \<longrightarrow> me_set_blocksize e) \<and> bdi_ok e \<and>
     (\<exists>md. parse_fuse_opt (me_parser e) (me_ok_dup e) data (ms_bdev ms) = Some md \<and> file_valid (fget (md_fd md)))"

lemma fill_super_spec:
  assumes "mount_start e ms"
  shows "mount_outcome fget ms (mount_ok e data fget ms) (mount_points e data fget ms) (fuse_fill_super e data fget ms)"
proof -
  let ?ms1 = "ms\<lparr>ms_flags := ms_flags ms - {MS_NOSEC, MS_I_VERSION}\<rparr>"
  let ?parsed = "parse_fuse_opt (me_parser e) (me_ok_dup e) data (ms_bdev ms)"
  have early: "mount_outcome fget ms False False (Some (- EINVAL, None, ms))"
      "mount_outcome fget ms False False (Some (- EINVAL, None, ?ms1))"
    using assms by (simp_all add: mount_outcome_def released_def mount_start_def same_outside_def fc_of_def EINVAL_def)
  show ?thesis
  proof (cases "MS_MANDLOCK \<in> ms_flags ms \<or> ?parsed = None \<or> (ms_bdev ms \<and> \<not> me_set_blocksize e)")
    case True
    then have "\<not> mount_ok e data fget ms" "\<not> mount_points e data fget ms" by (auto simp: mount_ok_def mount_points_def)
    with True show ?thesis using early by (cases ?parsed) (auto simp: fuse_fill_super_def Let_def)
  next
    case False
    then obtain md where md: "?parsed = Some md" by auto
    let ?ms2 = "fill_blocksize md ?ms1"
    have same: "fc_of ?ms2 = fc_of ms" "inodes (ms_fs ?ms2) = inodes (ms_fs ms)" "ihash (ms_fs ?ms2) = ihash (ms_fs ms)"
        "next_ino (ms_fs ?ms2) = next_ino (ms_fs ms)" "same_outside ms ?ms2" "ms_bdis ?ms2 = ms_bdis ms"
        "ms_memory ?ms2 = ms_memory ms" "ms_fs_info ?ms2 = ms_fs_info ms" "ms_bdev ?ms2 = ms_bdev ms" "ms_ctl ?ms2 = ms_ctl ms" "ms_id ?ms2 = ms_id ms" "s_active (ms_fs ?ms2) = s_active (ms_fs ms)"
      by (simp_all add: fc_of_def same_outside_def fill_blocksize_def Let_def)
    have st: "mount_start e ?ms2" using assms same sb_inv_cong [OF same(2,3,4)] by (simp add: mount_start_def)
    have "fuse_fill_super e data fget ms = fill_file e md fget ?ms2"
      using False md by (auto simp: fuse_fill_super_def Let_def)
    moreover have "released ?ms2 m \<Longrightarrow> released ms m" "mounted ?ms2 d m \<Longrightarrow> mounted ms d m" for m d
      using same by (simp_all add: released_def same_outside_def mounted_def)
    moreover have "mount_ok e data fget ms = file_ok e (fget (md_fd md)) (ms_bdev ?ms2) (control_sb (ms_ctl ?ms2))"
        "mount_points e data fget ms = (file_valid (fget (md_fd md)) \<and> bdi_ok e)"
      using False md same by (auto simp: mount_ok_def mount_points_def)
    ultimately show ?thesis
      using mount_outcome_mono [OF fill_file_spec [OF st parse_rootmode_valid [OF md], of fget]] by simp
  qed
qed

subsection \<open>Properties\<close>

text \<open>
  C25: the options that are accepted are those of the string, split at its commas: every mandatory option
  is there, no unknown option is, the block size is given to a block device only, the root has a valid
  type, and of several options of one kind the last one counts.
\<close>

theorem mount_options_parsed:
  assumes "parse_fuse_opt kp dup (Some s) is_bdev = Some d"
  shows "\<exists>ps. join_commas ps = s \<and> (\<forall>p\<in>set ps. CHR '','' \<notin> set p) \<and> data_fits kp is_bdev (\<lambda>t. last_arg kp t ps) d \<and>
     options_complete d \<and> fuse_valid_type (ucast (md_rootmode d))"
proof -
  from assms have p: "parse_options kp dup is_bdev (strsep_all s) default_mount_data = Some d" and c: "options_complete d"
    by (auto simp: parse_fuse_opt_def split: option.split_asm if_split_asm)
  have "data_fits kp is_bdev (\<lambda>_. None) default_mount_data" by (simp add: data_fits_def default_mount_data_def)
  from parse_options_fits [OF this p] have "data_fits kp is_bdev (\<lambda>t. last_arg kp t (strsep_all s)) d"
    by (simp add: last_arg_def)
  then show ?thesis using strsep_all_spec [of s] c parse_rootmode_valid [OF assms] by blast
qed

text \<open>
  C9: a mount returns, whichever of its allocations fail and whatever the other kernel functions answer, as
  long as the control file system finds memory for its inodes, and it succeeds exactly when nothing
  it asks for fails. If it fails, everything it had taken is given back: the connection, its device,
  its requests, the inodes, the backing device, the entries in the control file system and the
  reference to the device file, which stays as it was. If it succeeds, the device file leads to the
  one device of a connection that has two references, is on the list of connections, and has INIT as
  its only pending request.
\<close>

theorem mount_all_or_nothing:
  assumes "mount_start e ms"
  shows "\<exists>err fo ms'. fuse_fill_super e data fget ms = Some (err, fo, ms') \<and> (err = 0 \<longleftrightarrow> mount_ok e data fget ms) \<and>
     (if err = 0 then \<exists>n f d. fget n = Some f \<and> mf_private f = None \<and> fo = Some (f\<lparr>mf_private := Some d\<rparr>) \<and> mounted ms d ms'
      else released ms ms' \<and> (fo = None \<or> (\<exists>n. fo = fget n)))"
  using fill_super_spec [OF assms, of fget data] unfolding mount_outcome_def by (elim exE conjE) simp

text \<open>
  C26: a mount that fails after the superblock was made to point to the connection leaves that pointer
  behind: \<open>fuse_kill_sb_anon\<close>, which the kernel calls next, follows it into memory that was freed.
\<close>

theorem failed_mount_kill_uses_freed:
  assumes "mount_start e ms" and "\<not> ms_fs_info ms" and "mount_points e data fget ms" and "\<not> mount_ok e data fget ms"
  shows "\<exists>err fo ms'. fuse_fill_super e data fget ms = Some (err, fo, ms') \<and> err \<noteq> 0 \<and> ms_memory ms' = Conn_freed \<and>
     fuse_kill_sb_anon env ms' = None"
proof -
  obtain err fo ms' where run: "fuse_fill_super e data fget ms = Some (err, fo, ms')" "ms_fs_info ms'" "err \<noteq> 0" "released ms ms'"
    using fill_super_spec [OF assms(1), of fget data] assms(3,4) by (auto simp: mount_outcome_def)
  then have "ms_memory ms' = Conn_freed" using assms(2) by (simp add: released_def)
  then show ?thesis using run by (simp add: fuse_kill_sb_anon_def)
qed

subsection \<open>Examples\<close>

definition example_number :: "int \<Rightarrow> string \<Rightarrow> int" where
  "example_number base = foldl (\<lambda>n c. base * n + of_char c - 48) 0"

definition example_parser :: option_parser where
  "example_parser = \<lparr>match_token = (\<lambda>p.
       if take 3 p = ''fd='' then (OPT_FD, drop 3 p)
       else if take 9 p = ''rootmode='' then (OPT_ROOTMODE, drop 9 p)
       else if take 8 p = ''user_id='' then (OPT_USER_ID, drop 8 p)
       else if take 9 p = ''group_id='' then (OPT_GROUP_ID, drop 9 p) else (OPT_ERR, [])),
     match_int = (\<lambda>s. Some (example_number 10 s)), match_octal = (\<lambda>s. Some (example_number 8 s)),
     kstrtouint = (\<lambda>s. Inr (word_of_int (example_number 10 s))), k_kuid = Some, k_kgid = Some\<rparr>"

definition example_options :: string where
  "example_options = ''fd=3,rootmode=40000,user_id=0,fd=4,group_id=7''"

definition example_mount_env :: "bool \<Rightarrow> mount_env" where
  "example_mount_env dentry = \<lparr>me_parser = example_parser, me_ok_dup = (\<lambda>_. True), me_ok_fc = True, me_ok_dev = (\<lambda>_. True),
     me_ok_root = (\<lambda>_. True), me_ok_dentry = dentry, me_ok_init = (\<lambda>_. True), me_ok_destroy = (\<lambda>_. True),
     me_ok_ctl = (\<lambda>_. True), me_set_blocksize = True, me_bdi_init = 0, me_bdi_register = 0, me_key = [1, 2, 3, 4],
     me_init_bytes = (\<lambda>_. replicate 16 0)\<rparr>"

definition example_mount :: mount_state where
  "example_mount = \<lparr>ms_fs = \<lparr>conn = example_blank, inodes = (\<lambda>_. None), ihash = (\<lambda>_. None), next_ino = 0,
       s_active = False, s_blocksize_bits = 0, sizeof_ino_t = 8, vfs_calls = []\<rparr>,
     ms_memory = Conn_unallocated, ms_id = 1, ms_dev = 40,
     ms_ctl = \<lparr>control_sb = True, root_nlink = 2, dentries = (\<lambda>_. None), next_dentry = 0, conns = (\<lambda>_. None), conn_list = []\<rparr>,
     ms_flags = {}, ms_bdev = True, ms_blocksize = 0, ms_fs_info = False, ms_root = None, ms_bdis = 0\<rparr>"

definition example_file :: "int \<Rightarrow> mount_file option" where
  "example_file n = (if n = 4 then Some \<lparr>mf_dev_ops = True, mf_init_ns = True, mf_private = None, mf_count = 1\<rparr> else None)"

lemma example_mount_start: "mount_start (example_mount_env b) example_mount"
proof -
  have "first_failure (\<lambda>_. True) 10" by (simp add: first_failure_def)
  then have "ctl_ready (\<lambda>_. True) (ms_ctl example_mount)"
    by (auto simp: ctl_ready_def example_mount_def fresh_dentries_def intro!: exI [of _ 10])
  moreover have "sb_inv (ms_fs example_mount)" by (simp add: sb_inv_def example_mount_def)
  ultimately show ?thesis
    by (simp add: mount_start_def example_mount_env_def example_mount_def fc_of_def example_blank_def)
qed

lemma example_options_parsed:
  "map_option md_fd (parse_fuse_opt example_parser (\<lambda>_. True) (Some example_options) True) = Some 4"
  by code_simp

lemma mount_options_parsed_witness:
  "\<exists>ps d. join_commas ps = example_options \<and> data_fits example_parser True (\<lambda>t. last_arg example_parser t ps) d \<and> md_fd d = 4"
proof -
  obtain d where d: "parse_fuse_opt example_parser (\<lambda>_. True) (Some example_options) True = Some d" "md_fd d = 4"
    using example_options_parsed by auto
  then show ?thesis using mount_options_parsed [OF d(1)] by blast
qed

lemma example_mount_ok:
  "mount_ok (example_mount_env b) (Some example_options) example_file example_mount = b"
  "mount_points (example_mount_env b) (Some example_options) example_file example_mount"
proof -
  obtain d where d: "parse_fuse_opt example_parser (\<lambda>_. True) (Some example_options) True = Some d" "md_fd d = 4"
    using example_options_parsed by auto
  then show "mount_ok (example_mount_env b) (Some example_options) example_file example_mount = b"
      "mount_points (example_mount_env b) (Some example_options) example_file example_mount"
    by (simp_all add: mount_ok_def mount_points_def file_ok_def file_valid_def example_file_def example_mount_def
        example_mount_env_def bdi_ok_def root_ok_def requests_ok_def publish_ok_def ctl_ok_def)
qed

lemma mount_all_or_nothing_witness:
  "\<exists>fo ms' d. fuse_fill_super (example_mount_env True) (Some example_options) example_file example_mount = Some (0, fo, ms') \<and>
     mounted example_mount d ms'"
  using mount_all_or_nothing [OF example_mount_start, of True "Some example_options" example_file] example_mount_ok(1) [of True]
  by auto

lemma failed_mount_kill_uses_freed_witness:
  "\<exists>err fo ms'. fuse_fill_super (example_mount_env False) (Some example_options) example_file example_mount = Some (err, fo, ms') \<and>
     err \<noteq> 0 \<and> fuse_kill_sb_anon (\<lambda>s. s) ms' = None"
proof -
  have "\<not> ms_fs_info example_mount" by (simp add: example_mount_def)
  from failed_mount_kill_uses_freed [OF example_mount_start this example_mount_ok(2), of False] example_mount_ok(1) [of False]
  show ?thesis by blast
qed

end
