(* ===== verification/Fuse_Send.thy ===== *)
theory Fuse_Send
  imports Fuse_Background
begin

text \<open>
  What sending a request in the background keeps: the body of every request (all but the two fields
  of the header that queueing assigns), the other stores and flags of the connection, and the set of
  requests that are on their way to the server, to which it adds exactly the request sent. The
  components that send requests in the background (files, writeback) rest on these facts.
\<close>

definition req_body :: "fuse_req \<Rightarrow> fuse_req" where
  "req_body q = q\<lparr>rq_in := (rq_in q)\<lparr>in_h := (in_h (rq_in q))\<lparr>ih_len := 0, ih_unique := 0\<rparr>\<rparr>\<rparr>"

definition same_bodies :: "fuse_state \<Rightarrow> fuse_state \<Rightarrow> bool" where
  "same_bodies s t \<longleftrightarrow> (\<forall>x. map_option req_body (reqs t x) = map_option req_body (reqs s x))"

text \<open>Requests queued for the server, in either queue.\<close>

definition on_way :: "fuse_state \<Rightarrow> req_id set" where
  "on_way s = set (bg_queue s) \<union> set (pending (iq s))"

lemma req_body_fields:
  "rq_count (req_body q) = rq_count q" "rq_flags (req_body q) = rq_flags q" "rq_misc (req_body q) = rq_misc q"
  "rq_pages (req_body q) = rq_pages q" "rq_page_descs (req_body q) = rq_page_descs q"
  "rq_num_pages (req_body q) = rq_num_pages q" "rq_ff (req_body q) = rq_ff q" "rq_inode (req_body q) = rq_inode q"
  "rq_end (req_body q) = rq_end q" "rq_stolen_file (req_body q) = rq_stolen_file q" "rq_out (req_body q) = rq_out q"
  "rq_max_pages (req_body q) = rq_max_pages q" "rq_io (req_body q) = rq_io q"
  "in_args (rq_in (req_body q)) = in_args (rq_in q)" "in_argpages (rq_in (req_body q)) = in_argpages (rq_in q)"
  "ih_opcode (in_h (rq_in (req_body q))) = ih_opcode (in_h (rq_in q))"
  "ih_nodeid (in_h (rq_in (req_body q))) = ih_nodeid (in_h (rq_in q))"
  by (simp_all add: req_body_def)

lemma req_body_eq:
  assumes "req_body p = req_body q"
  shows "rq_count p = rq_count q" "rq_flags p = rq_flags q" "rq_misc p = rq_misc q" "rq_pages p = rq_pages q"
    "rq_num_pages p = rq_num_pages q" "rq_ff p = rq_ff q" "rq_inode p = rq_inode q" "rq_end p = rq_end q"
    "rq_stolen_file p = rq_stolen_file q" "rq_out p = rq_out q"
    "in_args (rq_in p) = in_args (rq_in q)"
    "ih_opcode (in_h (rq_in p)) = ih_opcode (in_h (rq_in q))"
    "ih_nodeid (in_h (rq_in p)) = ih_nodeid (in_h (rq_in q))"
  using assms by (metis req_body_fields)+

lemma req_body_updates [simp]:
  "req_body (set_in_len n q) = req_body q"
  "req_body (set_in_unique u q) = req_body q"
  "req_body (req_body q) = req_body q"
  "req_body (set_flag b q) = set_flag b (req_body q)"
  "req_body (clear_flag b q) = clear_flag b (req_body q)"
  "req_body (q\<lparr>rq_misc := m\<rparr>) = (req_body q)\<lparr>rq_misc := m\<rparr>"
  by (simp_all add: req_body_def set_in_len_def set_in_unique_def set_flag_def clear_flag_def)

lemma same_bodies_refl [simp]: "same_bodies s s"
  by (simp add: same_bodies_def)

lemma same_bodies_trans: "same_bodies s t \<Longrightarrow> same_bodies t u \<Longrightarrow> same_bodies s u"
  by (simp add: same_bodies_def)

lemma same_bodies_Some:
  assumes "same_bodies s t" and "reqs s x = Some q"
  obtains q' where "reqs t x = Some q'" and "req_body q' = req_body q"
proof -
  have "map_option req_body (reqs t x) = Some (req_body q)" using assms by (simp add: same_bodies_def)
  then show ?thesis using that by auto
qed

lemma same_bodies_None: "same_bodies s t \<Longrightarrow> reqs t x = None \<longleftrightarrow> reqs s x = None"
  by (metis same_bodies_def option.map_disc_iff)

lemma same_bodies_upd: "(\<And>q. req_body (f q) = req_body q) \<Longrightarrow> same_bodies s (upd_req r f s)"
  by (simp add: same_bodies_def option.map_comp comp_def)

lemma same_bodies_flush_one [simp]: "same_bodies s (flush_bg_one r s)"
  by (simp add: same_bodies_def flush_bg_one_def Let_def queue_unique_def fuse_get_unique_def
      queue_request_def option.map_comp comp_def)

lemma flush_same_bodies: "flush_bg_queue s = Some s' \<Longrightarrow> same_bodies s s'"
  by (induction rule: flush_induct) (auto intro: same_bodies_trans [OF same_bodies_flush_one])

lemma flush_on_way: "flush_bg_queue s = Some s' \<Longrightarrow> on_way s' = on_way s"
  by (induction rule: flush_induct) (auto simp: on_way_def)

text \<open>What becomes of the request that is sent, and of everything else.\<close>

definition mark_sent :: "fuse_req \<Rightarrow> fuse_req" where
  "mark_sent q = set_flag FR_ISREPLY (set_flag FR_WAITING q)"

lemma mark_sent_fields [simp]:
  "rq_flags (mark_sent q) = {FR_ISREPLY, FR_WAITING} \<union> rq_flags q" "rq_misc (mark_sent q) = rq_misc q"
  "rq_pages (mark_sent q) = rq_pages q" "rq_num_pages (mark_sent q) = rq_num_pages q" "rq_ff (mark_sent q) = rq_ff q"
  "rq_inode (mark_sent q) = rq_inode q" "rq_end (mark_sent q) = rq_end q" "rq_count (mark_sent q) = rq_count q"
  "rq_stolen_file (mark_sent q) = rq_stolen_file q" "rq_in (mark_sent q) = rq_in q" "rq_out (mark_sent q) = rq_out q"
  by (auto simp: mark_sent_def set_flag_def)

lemma mark_waiting_stores:
  assumes "mark_waiting s r = Some s'"
  shows "ffs s' = ffs s" and "filps s' = filps s" and "fc_bits s' = fc_bits s" and "wire_size s' = wire_size s"
    and "minor s' = minor s" and "max_write s' = max_write s" and "destroy_req s' = destroy_req s"
    and "attr_version s' = attr_version s" and "scramble_key s' = scramble_key s"
    and "iq s' = iq s" and "connected s' = connected s"
  using assms by (auto simp: mark_waiting_def waiting_inc_def elim!: bind_Some_E split: if_split_asm)

lemma flush_stores:
  assumes "flush_bg_queue s = Some s'"
  shows "max_write s' = max_write s" and "destroy_req s' = destroy_req s"
    and "attr_version s' = attr_version s" and "scramble_key s' = scramble_key s"
  using assms
  by (induction rule: flush_induct)
    (simp_all add: flush_bg_one_def queue_unique_def fuse_get_unique_def queue_request_def Let_def)

lemma send_bg_counts_stores:
  "fc_bits (send_bg_counts r s) = fc_bits s" "wire_size (send_bg_counts r s) = wire_size s"
  "minor (send_bg_counts r s) = minor s" "max_write (send_bg_counts r s) = max_write s"
  "destroy_req (send_bg_counts r s) = destroy_req s" "attr_version (send_bg_counts r s) = attr_version s"
  "scramble_key (send_bg_counts r s) = scramble_key s"
  by (simp_all add: send_bg_counts_def Let_def)

lemma send_background_sent:
  assumes run: "fuse_request_send_background_locked s r = Some s'" and q: "reqs s r = Some q"
  shows "\<exists>q'. reqs s' r = Some q' \<and> req_body q' = req_body (mark_sent q)"
    and "\<And>x. x \<noteq> r \<Longrightarrow> map_option req_body (reqs s' x) = map_option req_body (reqs s x)"
    and "on_way s' = insert r (on_way s)"
    and "ffs s' = ffs s" and "filps s' = filps s" and "fc_bits s' = fc_bits s" and "wire_size s' = wire_size s"
    and "minor s' = minor s" and "max_write s' = max_write s" and "destroy_req s' = destroy_req s"
    and "attr_version s' = attr_version s" and "scramble_key s' = scramble_key s"
    and "connected s' = connected s" and "next_id s' = next_id s" and "iq_connected (iq s') = iq_connected (iq s)"
    and "FR_BACKGROUND \<in> rq_flags q"
proof -
  from run obtain s1 where bg: "FR_BACKGROUND \<in> rq_flags q" and mw: "mark_waiting s r = Some s1"
    and fl: "flush_bg_queue (send_bg_counts r s1) = Some s'"
    using q by (elim send_background_elim) simp
  note m = mark_waiting_fields [OF mw q] mark_waiting_stores [OF mw]
  note sb = flush_same_bodies [OF fl]
  have "reqs (send_bg_counts r s1) r = Some (mark_sent q)" using m(1) by (simp add: mark_sent_def)
  with sb show "\<exists>q'. reqs s' r = Some q' \<and> req_body q' = req_body (mark_sent q)"
    by (elim same_bodies_Some) blast+
  show "map_option req_body (reqs s' x) = map_option req_body (reqs s x)" if "x \<noteq> r" for x
    using sb m(2) [OF that] that by (simp add: same_bodies_def)
  show "on_way s' = insert r (on_way s)"
    using flush_on_way [OF fl] m by (simp add: on_way_def)
  show "FR_BACKGROUND \<in> rq_flags q" by (rule bg)
  show "ffs s' = ffs s" "filps s' = filps s" "fc_bits s' = fc_bits s" "wire_size s' = wire_size s"
    "minor s' = minor s" "max_write s' = max_write s" "destroy_req s' = destroy_req s"
    "attr_version s' = attr_version s" "scramble_key s' = scramble_key s" "connected s' = connected s"
    "next_id s' = next_id s" "iq_connected (iq s') = iq_connected (iq s)"
    using flush_frame [OF fl] flush_stores [OF fl] m by (simp_all add: send_bg_counts_stores)
qed

lemma send_background_total:
  assumes q: "reqs s r = Some q" and bg: "FR_BACKGROUND \<in> rq_flags q" and live: "set (bg_queue s) \<subseteq> dom (reqs s)"
  shows "\<exists>s'. fuse_request_send_background_locked s r = Some s'"
proof -
  obtain s1 where mw: "mark_waiting s r = Some s1" using q by (simp add: mark_waiting_def)
  note m = mark_waiting_fields [OF mw q]
  have kept: "dom (reqs s) \<subseteq> dom (reqs (send_bg_counts r s1))" using m(1,2) by (auto simp: dom_def)
  moreover have "r \<in> dom (reqs s)" using q by blast
  ultimately have "insert r (set (bg_queue s)) \<subseteq> dom (reqs (send_bg_counts r s1))" using live by blast
  then have "set (bg_queue (send_bg_counts r s1)) \<subseteq> dom (reqs (send_bg_counts r s1))" using m(3) by simp
  then obtain s' where "flush_bg_queue (send_bg_counts r s1) = Some s'" using flush_total by blast
  moreover have "fuse_request_send_background_locked s r = flush_bg_queue (send_bg_counts r s1)"
    by (simp add: fuse_request_send_background_locked_def send_bg_counts_def q bg mw Let_def)
  ultimately show ?thesis by simp
qed

end
