(* ===== verification/Fuse_File.thy ===== *)
theory Fuse_File
  imports Fuse_Send Fuse_Inode
begin

text \<open>
  Opening and releasing files (\<open>file.c\<close>): the reference-counted \<open>struct fuse_file\<close> that stands for an
  open file of the server, the OPEN and OPENDIR requests, what an open does to the inode, the
  RELEASE request that is allocated with the file and sent when its last reference is dropped, and
  the scrambling of lock owners with XTEA.

  \<^item> \<open>ask\<close> is the exchange \<open>fuse_simple_request\<close> has with the server (modelled in \<open>Fuse_Queue\<close>): for
    given arguments and a state, the return value, the answer and the state in which it returns.
  \<^item> \<open>wait\<close> is what happens between the sending of a synchronous request and the return of
    \<open>request_wait_answer\<close> (\<open>Fuse_Queue\<close>).
  \<^item> \<open>enc\<close> is the byte image of a structure of the wire format.

  \<open>fuse_file_free\<close> frees a file nobody has a reference to; \<open>fuse_file_put\<close> is the only way the others
  are freed.
\<close>

type_synonym 'o ask = "fuse_args \<Rightarrow> fuse_sb \<Rightarrow> (int \<times> 'o \<times> fuse_sb) option"
type_synonym wait = "req_id \<Rightarrow> wait_phase \<Rightarrow> fuse_state \<Rightarrow> fuse_state option"

text \<open>Open flags of \<open>asm-generic/fcntl.h\<close> and the mode bit of \<open>linux/fs.h\<close>.\<close>

definition O_CREAT :: u32 where "O_CREAT = 0x40"
definition O_EXCL :: u32 where "O_EXCL = 0x80"
definition O_NOCTTY :: u32 where "O_NOCTTY = 0x100"
definition O_TRUNC :: u32 where "O_TRUNC = 0x200"

record fuse_open_out =
  oo_fh :: u64
  oo_open_flags :: "fopen_flag set"

text \<open>What the code reads of a \<open>struct file\<close> beside its private data.\<close>

record open_file =
  of_filp :: filp_id
  of_flags :: u32
  of_mode_write :: bool

subsection \<open>The file object\<close>

definition fuse_file_alloc :: "oom \<Rightarrow> fuse_state \<Rightarrow> ff_id option \<times> fuse_state" where
  "fuse_file_alloc ok s =
     (if \<not> ok 0 then (None, s)
      else case fuse_request_alloc (\<lambda>n. ok (Suc n)) 0 s of
          (None, s1) \<Rightarrow> (None, s1)
        | (Some r, s1) \<Rightarrow>
            let ff = next_id s1; kh = khctr s1 + 1 in
            (Some ff, s1\<lparr>khctr := kh, next_id := Suc ff, ffs := (ffs s1)(ff \<mapsto>
               \<lparr>ff_reserved_req = Some r, ff_kh = kh, ff_fh = 0, ff_nodeid = 0, ff_count = 0,
                ff_open_flags = {}, ff_on_write_files = False, ff_polled = False, ff_flock = False\<rparr>)\<rparr>))"

definition fuse_file_free :: "fuse_state \<Rightarrow> ff_id \<Rightarrow> fuse_state option" where
  "fuse_file_free s ff = do {
     f \<leftarrow> ffs s ff;
     r \<leftarrow> ff_reserved_req f;
     s1 \<leftarrow> fuse_request_free s r;
     Some (s1\<lparr>ffs := (ffs s1)(ff := None)\<rparr>)}"

definition fuse_file_get :: "fuse_state \<Rightarrow> ff_id \<Rightarrow> fuse_state option" where
  "fuse_file_get s ff =
     (if ffs s ff = None then None else Some (upd_ff ff (ff_count_update (\<lambda>n. n + 1)) s))"

text \<open>\<open>iput\<close> of a pointer that may be NULL, and the inode a RELEASE request holds.\<close>

definition iput_opt :: "ino_id option \<Rightarrow> fuse_sb \<Rightarrow> fuse_sb option" where
  "iput_opt oi sb = (case oi of None \<Rightarrow> Some sb | Some i \<Rightarrow> iput i sb)"

definition release_inode :: "fuse_req \<Rightarrow> ino_id option" where
  "release_inode q = (case rq_misc q of Misc_release _ oi \<Rightarrow> oi | _ \<Rightarrow> None)"

definition fuse_release_end :: "fuse_req \<Rightarrow> fuse_sb \<Rightarrow> fuse_sb option" where
  "fuse_release_end q sb = iput_opt (release_inode q) sb"

text \<open>
  The three ways the last reference ends. The callback of a RELEASE that could not be sent because
  the connection is gone runs inside \<open>fuse_request_send_background\<close>; its effect on the inode follows
  here.
\<close>

definition put_drop :: "fuse_req \<Rightarrow> req_id \<Rightarrow> fuse_sb \<Rightarrow> fuse_sb option" where
  "put_drop q r sb = do {
     sb1 \<leftarrow> iput_opt (release_inode q) (upd_conn (upd_req r (clear_flag FR_BACKGROUND)) sb);
     s2 \<leftarrow> fuse_put_request (conn sb1) r;
     Some (sb1\<lparr>conn := s2\<rparr>)}"

definition put_sync :: "wait \<Rightarrow> fuse_req \<Rightarrow> req_id \<Rightarrow> fuse_sb \<Rightarrow> fuse_sb option" where
  "put_sync wait q r sb = do {
     (ph, s1) \<leftarrow> fuse_request_send (upd_req r (clear_flag FR_BACKGROUND \<circ> set_flag FR_FORCE) (conn sb)) r;
     s2 \<leftarrow> wait r ph s1;
     sb2 \<leftarrow> iput_opt (release_inode q) (sb\<lparr>conn := s2\<rparr>);
     s3 \<leftarrow> fuse_put_request (conn sb2) r;
     Some (sb2\<lparr>conn := s3\<rparr>)}"

definition put_async :: "fuse_req \<Rightarrow> req_id \<Rightarrow> fuse_sb \<Rightarrow> fuse_sb option" where
  "put_async q r sb = do {
     s1 \<leftarrow> fuse_request_send_background
             (upd_req r (set_flag FR_BACKGROUND \<circ> rq_end_update (\<lambda>_. Some End_release)) (conn sb)) r;
     if connected (conn sb) then Some (sb\<lparr>conn := s1\<rparr>) else fuse_release_end q (sb\<lparr>conn := s1\<rparr>)}"

definition fuse_file_put :: "wait \<Rightarrow> ff_id \<Rightarrow> bool \<Rightarrow> fuse_sb \<Rightarrow> fuse_sb option" where
  "fuse_file_put wait ff sync sb = do {
     f \<leftarrow> ffs (conn sb) ff;
     let sb1 = upd_conn (upd_ff ff (ff_count_update (\<lambda>n. n - 1))) sb;
     if ff_count f \<noteq> 1 then Some sb1
     else do {
       r \<leftarrow> ff_reserved_req f;
       q \<leftarrow> reqs (conn sb1) r;
       sb2 \<leftarrow> (if No_open \<in> fc_bits (conn sb1) then put_drop q r sb1
              else if sync then put_sync wait q r sb1
              else put_async q r sb1);
       Some (upd_conn (\<lambda>s. s\<lparr>ffs := (ffs s)(ff := None)\<rparr>) sb2)}}"

subsection \<open>Opening\<close>

definition open_flags_sent :: "fuse_state \<Rightarrow> u32 \<Rightarrow> u32" where
  "open_flags_sent s flags =
     (let fl = flags AND NOT (O_CREAT OR O_EXCL OR O_NOCTTY) in
      if Atomic_o_trunc \<in> fc_bits s then fl else fl AND NOT O_TRUNC)"

definition fuse_send_open ::
    "fuse_open_out ask \<Rightarrow> (u32 \<Rightarrow> u8 list) \<Rightarrow> u64 \<Rightarrow> u32 \<Rightarrow> fuse_opcode \<Rightarrow> fuse_sb \<Rightarrow>
      (int \<times> fuse_open_out \<times> fuse_sb) option" where
  "fuse_send_open ask enc n flags op sb =
     ask \<lparr>a_opcode = op, a_nodeid = n,
          a_in_args = [\<lparr>arg_size = wire_size (conn sb) W_open_in,
                        arg_value = enc (open_flags_sent (conn sb) flags)\<rparr>],
          a_out_argvar = False,
          a_out_args = [\<lparr>arg_size = wire_size (conn sb) W_open_out, arg_value = []\<rparr>]\<rparr> sb"

definition set_private_data :: "filp_id \<Rightarrow> ff_id \<Rightarrow> fuse_state \<Rightarrow> fuse_state" where
  "set_private_data fp ff = upd_filp fp (private_data_update (\<lambda>_. Some ff))"

text \<open>The part of \<open>fuse_do_open\<close> that asks the server: the handle and flags of the file, or an error.\<close>

definition do_open_ask ::
    "fuse_open_out ask \<Rightarrow> (u32 \<Rightarrow> u8 list) \<Rightarrow> u64 \<Rightarrow> u32 \<Rightarrow> bool \<Rightarrow> ff_id \<Rightarrow> fuse_sb \<Rightarrow> (int \<times> fuse_sb) option" where
  "do_open_ask ask enc n flags isdir ff sb =
     (let sb1 = upd_conn (upd_ff ff (\<lambda>f. f\<lparr>ff_fh := 0, ff_open_flags := {FOPEN_KEEP_CACHE}\<rparr>)) sb in
      if No_open \<in> fc_bits (conn sb1) \<and> \<not> isdir then Some (0, sb1)
      else do {
        (err, outarg, sb2) \<leftarrow> fuse_send_open ask enc n flags (if isdir then FUSE_OPENDIR else FUSE_OPEN) sb1;
        if err = 0 then
          Some (0, upd_conn (upd_ff ff (\<lambda>f. f\<lparr>ff_fh := oo_fh outarg, ff_open_flags := oo_open_flags outarg\<rparr>)) sb2)
        else if err \<noteq> - ENOSYS \<or> isdir then do {
          s3 \<leftarrow> fuse_file_free (conn sb2) ff;
          Some (err, sb2\<lparr>conn := s3\<rparr>)}
        else Some (0, upd_conn (\<lambda>s. s\<lparr>fc_bits := insert No_open (fc_bits s)\<rparr>) sb2)})"

definition fuse_do_open ::
    "fuse_open_out ask \<Rightarrow> (u32 \<Rightarrow> u8 list) \<Rightarrow> oom \<Rightarrow> u64 \<Rightarrow> open_file \<Rightarrow> bool \<Rightarrow> fuse_sb \<Rightarrow> (int \<times> fuse_sb) option" where
  "fuse_do_open ask enc ok n file isdir sb =
     (case fuse_file_alloc ok (conn sb) of
        (None, s1) \<Rightarrow> Some (- ENOMEM, sb\<lparr>conn := s1\<rparr>)
      | (Some ff, s1) \<Rightarrow> do {
          (err, sb2) \<leftarrow> do_open_ask ask enc n (of_flags file) isdir ff (sb\<lparr>conn := s1\<rparr>);
          if err \<noteq> 0 then Some (err, sb2)
          else do {
            let s3 = upd_ff ff (\<lambda>f. f\<lparr>ff_open_flags := (if isdir then ff_open_flags f - {FOPEN_DIRECT_IO}
                                                     else ff_open_flags f), ff_nodeid := n\<rparr>) (conn sb2);
            s4 \<leftarrow> fuse_file_get s3 ff;
            Some (0, sb2\<lparr>conn := set_private_data (of_filp file) ff s4\<rparr>)}})"

definition fuse_link_write_file :: "ino_id \<Rightarrow> ff_id \<Rightarrow> fuse_sb \<Rightarrow> fuse_sb option" where
  "fuse_link_write_file i ff sb = do {
     f \<leftarrow> ffs (conn sb) ff;
     Some (if ff_on_write_files f then sb
           else upd_inode i (\<lambda>v. v\<lparr>write_files := ff # write_files v\<rparr>)
                  (upd_conn (upd_ff ff (ff_on_write_files_update (\<lambda>_. True))) sb))}"

definition open_truncates :: "fuse_state \<Rightarrow> u32 \<Rightarrow> bool" where
  "open_truncates s flags \<longleftrightarrow> Atomic_o_trunc \<in> fc_bits s \<and> flags AND O_TRUNC \<noteq> 0"

definition fuse_finish_open :: "ino_id \<Rightarrow> open_file \<Rightarrow> fuse_sb \<Rightarrow> fuse_sb option" where
  "fuse_finish_open i file sb = do {
     ff \<leftarrow> file_ff (conn sb) (of_filp file);
     f \<leftarrow> ffs (conn sb) ff;
     let sb1 = (if FOPEN_DIRECT_IO \<in> ff_open_flags f then vfs (Use_direct_io (of_filp file)) sb else sb);
     let sb2 = (if FOPEN_KEEP_CACHE \<notin> ff_open_flags f then vfs (Invalidate_pages2 i) sb1 else sb1);
     let sb3 = (if FOPEN_NONSEEKABLE \<in> ff_open_flags f then vfs (Nonseekable (of_filp file)) sb2 else sb2);
     let sb4 = (if open_truncates (conn sb3) (of_flags file)
                then let ver = attr_version (conn sb3) + 1;
                         t = fuse_invalidate_attr i (upd_inode i (\<lambda>v. v\<lparr>fi_attr_version := ver, i_size := 0\<rparr>)
                               (upd_conn (\<lambda>s. s\<lparr>attr_version := ver\<rparr>) sb3))
                     in if Writeback_cache \<in> fc_bits (conn t) then vfs (File_update_time (of_filp file)) t else t
                else sb3);
     (if of_mode_write file \<and> Writeback_cache \<in> fc_bits (conn sb4)
      then fuse_link_write_file i ff sb4 else Some sb4)}"

text \<open>
  \<open>fuse_open_common\<close> after \<open>generic_file_open\<close>, whose result is the argument \<open>gerr\<close>; the inode lock
  it takes around a truncating open is not part of the state.
\<close>

definition fuse_open_common ::
    "fuse_open_out ask \<Rightarrow> (u32 \<Rightarrow> u8 list) \<Rightarrow> oom \<Rightarrow> int \<Rightarrow> ino_id \<Rightarrow> open_file \<Rightarrow> bool \<Rightarrow> fuse_sb \<Rightarrow>
      (int \<times> fuse_sb) option" where
  "fuse_open_common ask enc ok gerr i file isdir sb =
     (if gerr \<noteq> 0 then Some (gerr, sb)
      else do {
        v \<leftarrow> inodes sb i;
        (err, sb1) \<leftarrow> fuse_do_open ask enc ok (nodeid v) file isdir sb;
        if err \<noteq> 0 then Some (err, sb1)
        else map_option (\<lambda>sb2. (0, sb2)) (fuse_finish_open i file sb1)})"

subsection \<open>Lock owners\<close>

text \<open>
  \<open>fuse_lock_owner_id\<close>: 32 rounds of XTEA with the key of the connection on the two halves of a
  pointer. \<open>xtea_round\<close> is the body of the loop.
\<close>

definition xtea_mix :: "u32 \<Rightarrow> u32" where
  "xtea_mix v = (push_bit 4 v XOR drop_bit 5 v) + v"

definition XTEA_DELTA :: u32 where "XTEA_DELTA = 0x9E3779B9"

definition xtea_round :: "u32 list \<Rightarrow> u32 \<times> u32 \<times> u32 \<Rightarrow> u32 \<times> u32 \<times> u32" where
  "xtea_round k = (\<lambda>(v0, v1, sum).
     let w0 = v0 + (xtea_mix v1 XOR (sum + k ! unat (sum AND 3)));
         sum' = sum + XTEA_DELTA;
         w1 = v1 + (xtea_mix w0 XOR (sum' + k ! unat (drop_bit 11 sum' AND 3)))
     in (w0, w1, sum'))"

definition fuse_lock_owner_id :: "u32 list \<Rightarrow> u64 \<Rightarrow> u64" where
  "fuse_lock_owner_id k v =
     (let (v0, v1, _) = (xtea_round k ^^ 32) (ucast v, ucast (drop_bit 32 v), 0)
      in ucast v0 + push_bit 32 (ucast v1))"

subsection \<open>Releasing\<close>

definition set_release_args :: "fuse_state \<Rightarrow> (fuse_release_in \<Rightarrow> u8 list) \<Rightarrow> fuse_release_in \<Rightarrow> fuse_req \<Rightarrow> fuse_req" where
  "set_release_args s enc inarg q = q\<lparr>
     rq_in := (rq_in q)\<lparr>in_args := [\<lparr>arg_size = wire_size s W_release_in, arg_value = enc inarg\<rparr>]\<rparr>\<rparr>"

text \<open>\<open>list_del (&ff->write_entry)\<close>: off the list of whichever inode holds it.\<close>

definition write_entry_del :: "ff_id \<Rightarrow> fuse_sb \<Rightarrow> fuse_sb" where
  "write_entry_del ff sb = upd_conn (upd_ff ff (ff_on_write_files_update (\<lambda>_. False)))
     (sb\<lparr>inodes := (\<lambda>i. map_option (write_files_update (without ff)) (inodes sb i))\<rparr>)"

definition release_fill ::
    "fuse_state \<Rightarrow> (fuse_release_in \<Rightarrow> u8 list) \<Rightarrow> fuse_file \<Rightarrow> u32 \<Rightarrow> fuse_opcode \<Rightarrow> fuse_req \<Rightarrow> fuse_req" where
  "release_fill s enc f flags op q =
     (let inarg = \<lparr>rel_fh = ff_fh f, rel_flags = flags, rel_flock_unlock = False, rel_lock_owner = 0\<rparr>
      in set_release_args s enc inarg (q\<lparr>rq_misc := Misc_release inarg None,
           rq_in := (rq_in q)\<lparr>in_h := (in_h (rq_in q))\<lparr>ih_opcode := op, ih_nodeid := ff_nodeid f\<rparr>\<rparr>\<rparr>))"

definition fuse_prepare_release ::
    "(fuse_release_in \<Rightarrow> u8 list) \<Rightarrow> ff_id \<Rightarrow> u32 \<Rightarrow> fuse_opcode \<Rightarrow> fuse_sb \<Rightarrow> fuse_sb option" where
  "fuse_prepare_release enc ff flags op sb = do {
     f \<leftarrow> ffs (conn sb) ff;
     r \<leftarrow> ff_reserved_req f;
     q \<leftarrow> reqs (conn sb) r;
     let sb1 = upd_conn (upd_ff ff (ff_polled_update (\<lambda>_. False))) (write_entry_del ff sb);
     Some (upd_conn (upd_req r (release_fill (conn sb1) enc f flags op)) (upd_conn (emit Wake_polls) sb1))}"

text \<open>
  \<open>fuse_release_common\<close>. \<open>owner\<close> is the address of the \<open>struct file\<close>; the value of the argument is
  a pointer to \<open>misc.release.in\<close>, so its bytes follow the structure.
\<close>

definition release_lock_fill ::
    "fuse_state \<Rightarrow> (fuse_release_in \<Rightarrow> u8 list) \<Rightarrow> u64 \<Rightarrow> fuse_req \<Rightarrow> fuse_req" where
  "release_lock_fill s enc owner q =
     (case rq_misc q of
        Misc_release inarg oi \<Rightarrow>
          let inarg' = inarg\<lparr>rel_flock_unlock := True,
                             rel_lock_owner := fuse_lock_owner_id (scramble_key s) owner\<rparr>
          in set_release_args s enc inarg' (q\<lparr>rq_misc := Misc_release inarg' oi\<rparr>)
      | _ \<Rightarrow> q)"

definition release_hold :: "ino_id option \<Rightarrow> fuse_req \<Rightarrow> fuse_req" where
  "release_hold oi q = (case rq_misc q of Misc_release inarg _ \<Rightarrow> q\<lparr>rq_misc := Misc_release inarg oi\<rparr> | _ \<Rightarrow> q)"

definition igrab :: "ino_id \<Rightarrow> fuse_sb \<Rightarrow> ino_id option \<times> fuse_sb" where
  "igrab i sb = (if inodes sb i = None then (None, sb)
                 else (Some i, upd_inode i (\<lambda>v. v\<lparr>i_count := i_count v + 1\<rparr>) sb))"

definition fuse_release_common ::
    "wait \<Rightarrow> (fuse_release_in \<Rightarrow> u8 list) \<Rightarrow> u64 \<Rightarrow> ino_id \<Rightarrow> open_file \<Rightarrow> fuse_opcode \<Rightarrow> fuse_sb \<Rightarrow> fuse_sb option" where
  "fuse_release_common wait enc owner i file op sb = do {
     p \<leftarrow> filps (conn sb) (of_filp file);
     (case private_data p of
        None \<Rightarrow> Some sb
      | Some ff \<Rightarrow> do {
          f \<leftarrow> ffs (conn sb) ff;
          r \<leftarrow> ff_reserved_req f;
          sb1 \<leftarrow> fuse_prepare_release enc ff (of_flags file) op sb;
          let sb2 = (if ff_flock f
                     then upd_conn (upd_req r (release_lock_fill (conn sb1) enc owner)) sb1 else sb1);
          let (oi, sb3) = igrab i sb2;
          fuse_file_put wait ff (destroy_req (conn sb3) \<noteq> None)
            (upd_conn (upd_req r (release_hold oi)) sb3)})}"

definition fuse_release ::
    "wait \<Rightarrow> (fuse_release_in \<Rightarrow> u8 list) \<Rightarrow> u64 \<Rightarrow> ino_id \<Rightarrow> open_file \<Rightarrow> fuse_sb \<Rightarrow> fuse_sb option" where
  "fuse_release wait enc owner i file sb =
     fuse_release_common wait enc owner i file FUSE_RELEASE
       (if Writeback_cache \<in> fc_bits (conn sb) then vfs (Write_inode_now i) sb else sb)"

definition fuse_sync_release ::
    "wait \<Rightarrow> (fuse_release_in \<Rightarrow> u8 list) \<Rightarrow> ff_id \<Rightarrow> u32 \<Rightarrow> fuse_sb \<Rightarrow> fuse_sb option" where
  "fuse_sync_release wait enc ff flags sb = do {
     f \<leftarrow> ffs (conn sb) ff;
     r \<leftarrow> ff_reserved_req f;
     sb1 \<leftarrow> fuse_prepare_release enc ff flags FUSE_RELEASE
              (if 1 < ff_count f then upd_conn (emit Warn) sb else sb);
     (ph, s2) \<leftarrow> fuse_request_send (upd_req r (clear_flag FR_BACKGROUND \<circ> set_flag FR_FORCE) (conn sb1)) r;
     s3 \<leftarrow> wait r ph s2;
     s4 \<leftarrow> fuse_put_request s3 r;
     Some (sb1\<lparr>conn := s4\<lparr>ffs := (ffs s4)(ff := None)\<rparr>\<rparr>)}"

subsection \<open>Scrambling loses nothing\<close>

text \<open>A round can be undone with the key, and the running sum does not depend on the value.\<close>

definition xtea_unround :: "u32 list \<Rightarrow> u32 \<times> u32 \<times> u32 \<Rightarrow> u32 \<times> u32 \<times> u32" where
  "xtea_unround k = (\<lambda>(w0, w1, sum').
     let v1 = w1 - (xtea_mix w0 XOR (sum' + k ! unat (drop_bit 11 sum' AND 3)));
         sum = sum' - XTEA_DELTA
     in (w0 - (xtea_mix v1 XOR (sum + k ! unat (sum AND 3))), v1, sum))"

lemma xtea_unround: "xtea_unround k (xtea_round k x) = x"
  by (cases x) (simp add: xtea_unround_def xtea_round_def Let_def)

lemma xtea_rounds_inj: "inj (xtea_round k ^^ n)"
  by (intro inj_fn inj_on_inverseI [of _ "xtea_unround k"]) (rule xtea_unround)

lemma xtea_sum: "snd (snd ((xtea_round k ^^ n) x)) = snd (snd x) + of_nat n * XTEA_DELTA"
  by (induction n) (auto simp: xtea_round_def Let_def case_prod_beta algebra_simps)

lemma join_or: "ucast a + push_bit 32 (ucast b) = (push_bit 32 (ucast b) OR ucast a :: u64)" for a b :: u32
proof -
  have "ucast a AND push_bit 32 (ucast b) = (0 :: u64)"
    by (rule bit_word_eqI) (auto simp: bit_simps dest: bit_imp_le_length)
  then show ?thesis by (simp add: disjunctive_add_eq_or or.commute)
qed

lemma halves_join:
  fixes a b :: u32
  defines "n \<equiv> (push_bit 32 (ucast b) OR ucast a :: u64)"
  shows "ucast n = a" and "ucast (drop_bit 32 n) = b"
  unfolding n_def by (rule bit_word_eqI, auto simp: bit_simps dest: bit_imp_le_length)+

lemma join_halves_u64: "push_bit 32 (ucast (ucast (drop_bit 32 n) :: u32)) OR ucast (ucast n :: u32) = (n :: u64)"
  by (rule bit_word_eqI) (auto simp: bit_simps)

lemma lock_owner_join:
  assumes "(xtea_round k ^^ 32) (ucast v, ucast (drop_bit 32 v), 0) = (v0, v1, s)"
  shows "fuse_lock_owner_id k v = (push_bit 32 (ucast v1) OR ucast v0)"
  by (simp add: fuse_lock_owner_id_def assms join_or)

lemma lock_owner_inj:
  assumes "fuse_lock_owner_id k a = fuse_lock_owner_id k b"
  shows "a = b"
proof -
  let ?f = "xtea_round k ^^ 32" and ?h = "\<lambda>v :: u64. (ucast v :: u32, ucast (drop_bit 32 v) :: u32, 0 :: u32)"
  obtain a0 a1 s where A: "?f (?h a) = (a0, a1, s)" by (cases "?f (?h a)")
  obtain b0 b1 t where B: "?f (?h b) = (b0, b1, t)" by (cases "?f (?h b)")
  have "s = t" using xtea_sum [of 32 k "?h a"] xtea_sum [of 32 k "?h b"] A B by simp
  moreover have "a0 = b0 \<and> a1 = b1"
    using assms halves_join unfolding lock_owner_join [OF A] lock_owner_join [OF B] by metis
  ultimately have "?f (?h a) = ?f (?h b)" using A B by simp
  then have "?h a = ?h b" by (rule injD [OF xtea_rounds_inj])
  then have "(ucast a :: u32) = ucast b" and "(ucast (drop_bit 32 a) :: u32) = ucast (drop_bit 32 b)"
    by (simp_all only: prod.inject)
  then show ?thesis by (metis join_halves_u64)
qed
subsection \<open>References of a file\<close>

text \<open>A run of the holders of a file, each taking a reference or dropping one.\<close>

datatype file_op = File_get | File_put

fun file_step :: "wait \<Rightarrow> ff_id \<Rightarrow> file_op \<Rightarrow> fuse_sb \<Rightarrow> fuse_sb option" where
  "file_step wait ff File_get sb = map_option (\<lambda>s. sb\<lparr>conn := s\<rparr>) (fuse_file_get (conn sb) ff)"
| "file_step wait ff File_put sb = fuse_file_put wait ff False sb"

fun file_run :: "wait \<Rightarrow> ff_id \<Rightarrow> file_op list \<Rightarrow> fuse_sb \<Rightarrow> fuse_sb option" where
  "file_run wait ff [] sb = Some sb"
| "file_run wait ff (a # as) sb = Option.bind (file_step wait ff a sb) (file_run wait ff as)"

text \<open>The number of references after a run that starts with \<open>c\<close>.\<close>

fun refs_after :: "int \<Rightarrow> file_op list \<Rightarrow> int" where
  "refs_after c [] = c"
| "refs_after c (File_get # as) = refs_after (c + 1) as"
| "refs_after c (File_put # as) = refs_after (c - 1) as"

text \<open>A file whose RELEASE is prepared and not sent.\<close>

definition release_ready :: "ff_id \<Rightarrow> fuse_file \<Rightarrow> req_id \<Rightarrow> fuse_req \<Rightarrow> fuse_sb \<Rightarrow> bool" where
  "release_ready ff f r q sb \<longleftrightarrow> ffs (conn sb) ff = Some f \<and> ff_reserved_req f = Some r \<and>
     reqs (conn sb) r = Some q \<and> r \<notin> on_way (conn sb) \<and> connected (conn sb) \<and>
     No_open \<notin> fc_bits (conn sb)"

text \<open>The RELEASE that is on its way: the prepared request, to be ended by \<open>fuse_release_end\<close>.\<close>

definition released :: "ff_id \<Rightarrow> req_id \<Rightarrow> fuse_req \<Rightarrow> fuse_sb \<Rightarrow> bool" where
  "released ff r q sb \<longleftrightarrow> ffs (conn sb) ff = None \<and> r \<in> on_way (conn sb) \<and>
     (\<exists>q'. reqs (conn sb) r = Some q' \<and> req_body q' =
        req_body (mark_sent (set_flag FR_BACKGROUND (q\<lparr>rq_end := Some End_release\<rparr>))))"

lemma on_way_upd_ff [simp]: "on_way (upd_ff ff g s) = on_way s" "on_way (upd_req r h s) = on_way s"
  by (simp_all add: on_way_def)

lemma put_shared:
  assumes "release_ready ff f r q sb" and "ff_count f \<noteq> 1"
  shows "fuse_file_put wait ff sync sb = Some (upd_conn (upd_ff ff (ff_count_update (\<lambda>n. n - 1))) sb)"
  using assms by (simp add: release_ready_def fuse_file_put_def Let_def)

lemma ready_count:
  "release_ready ff f r q sb \<Longrightarrow>
     release_ready ff (ff_count_update g f) r q (upd_conn (upd_ff ff (ff_count_update g)) sb)"
  by (simp add: release_ready_def on_way_def)

lemma put_last_sends:
  assumes F: "ffs (conn sb) ff = Some f" "ff_reserved_req f = Some r" "reqs (conn sb) r = Some q"
      "connected (conn sb)" "No_open \<notin> fc_bits (conn sb)" and one: "ff_count f = 1"
    and run: "fuse_file_put wait ff False sb = Some sb'"
  shows "released ff r q sb' \<and> on_way (conn sb') = insert r (on_way (conn sb))"
proof -
  let ?f = "set_flag FR_BACKGROUND \<circ> rq_end_update (\<lambda>_. Some End_release)"
  let ?c = "upd_req r ?f (upd_ff ff (ff_count_update (\<lambda>n. n - 1)) (conn sb))"
  from run F one obtain s1 where send: "fuse_request_send_background ?c r = Some s1"
    and sb': "conn sb' = s1\<lparr>ffs := (ffs s1)(ff := None)\<rparr>"
    by (auto simp: fuse_file_put_def put_async_def Let_def upd_conn_def elim!: bind_Some_E)
  have q: "reqs ?c r = Some (?f q)" using F(3) by simp
  have "fuse_request_send_background ?c r = fuse_request_send_background_locked ?c r"
    by (simp add: fuse_request_send_background_def F)
  with send have "fuse_request_send_background_locked ?c r = Some s1" by simp
  note sent = send_background_sent [OF this q]
  show ?thesis using sent(1,3) by (simp add: released_def sb' on_way_def comp_def)
qed

lemma put_last_runs:
  assumes F: "ffs (conn sb) ff = Some f" "ff_reserved_req f = Some r" "reqs (conn sb) r = Some q"
      "connected (conn sb)" "No_open \<notin> fc_bits (conn sb)" and one: "ff_count f = 1"
    and live: "set (bg_queue (conn sb)) \<subseteq> dom (reqs (conn sb))"
  shows "\<exists>sb'. fuse_file_put wait ff False sb = Some sb'"
proof -
  let ?f = "set_flag FR_BACKGROUND \<circ> rq_end_update (\<lambda>_. Some End_release)"
  let ?c = "upd_req r ?f (upd_ff ff (ff_count_update (\<lambda>n. n - 1)) (conn sb))"
  obtain s1 where "fuse_request_send_background_locked ?c r = Some s1"
    using send_background_total [of ?c r "?f q"] F(3) live by auto
  moreover have "fuse_request_send_background ?c r = fuse_request_send_background_locked ?c r"
    by (simp add: fuse_request_send_background_def F)
  ultimately show ?thesis using F one by (simp add: fuse_file_put_def put_async_def Let_def upd_conn_def)
qed

lemma put_last:
  assumes "release_ready ff f r q sb" and "ff_count f = 1" and "fuse_file_put wait ff False sb = Some sb'"
  shows "released ff r q sb' \<and> on_way (conn sb') = insert r (on_way (conn sb))"
  using assms by (intro put_last_sends) (simp_all add: release_ready_def)

lemma gone_crashes: "ffs (conn sb) ff = None \<Longrightarrow> file_run wait ff (a # as) sb = None"
  by (cases a) (simp_all add: fuse_file_get_def fuse_file_put_def)

text \<open>A run in which something is done with the file after its last reference was dropped.\<close>

definition used_after_last :: "int \<Rightarrow> file_op list \<Rightarrow> bool" where
  "used_after_last c ops \<longleftrightarrow> (\<exists>as a bs. ops = as @ a # bs \<and> refs_after c as = 0)"

lemma used_after_last_Nil [simp]: "\<not> used_after_last c []"
  by (simp add: used_after_last_def)

lemma used_after_last_Cons:
  assumes "0 < c"
  shows "used_after_last c (a # ops) \<longleftrightarrow> (if refs_after c [a] = 0 then ops \<noteq> [] else used_after_last (refs_after c [a]) ops)"
proof -
  define c' where "c' = refs_after c [a]"
  have step: "refs_after c (a # as) = refs_after c' as" for as by (cases a) (simp_all add: c'_def)
  have "used_after_last c (a # ops) \<longleftrightarrow> (\<exists>as b bs. ops = as @ b # bs \<and> refs_after c (a # as) = 0)"
  proof
    assume "used_after_last c (a # ops)"
    then obtain as b bs where *: "a # ops = as @ b # bs" "refs_after c as = 0" by (auto simp: used_after_last_def)
    then have "as \<noteq> []" using assms by auto
    then show "\<exists>as b bs. ops = as @ b # bs \<and> refs_after c (a # as) = 0" using * by (cases as) auto
  next
    assume "\<exists>as b bs. ops = as @ b # bs \<and> refs_after c (a # as) = 0"
    then show "used_after_last c (a # ops)" unfolding used_after_last_def by (metis append_Cons)
  qed
  then have eq: "used_after_last c (a # ops) \<longleftrightarrow> (\<exists>as b bs. ops = as @ b # bs \<and> refs_after c' as = 0)"
    by (simp only: step)
  show ?thesis unfolding c'_def [symmetric]
  proof (cases "c' = 0")
    case True
    have "used_after_last c (a # ops)" if "ops = b # bs" for b bs
      unfolding eq by (rule exI [of _ "[]"]) (use True that in simp)
    moreover have "\<not> used_after_last c [a]" if "ops = []" using eq that by simp
    ultimately show "used_after_last c (a # ops) \<longleftrightarrow> (if c' = 0 then ops \<noteq> [] else used_after_last c' ops)"
      using True by (cases ops) simp_all
  next
    case False
    then show "used_after_last c (a # ops) \<longleftrightarrow> (if c' = 0 then ops \<noteq> [] else used_after_last c' ops)"
      unfolding eq by (simp add: used_after_last_def)
  qed
qed

lemma file_run_outcome:
  assumes "release_ready ff f r q sb" and "0 < ff_count f" and "set (bg_queue (conn sb)) \<subseteq> dom (reqs (conn sb))"
  shows "case file_run wait ff ops sb of
      None \<Rightarrow> used_after_last (ff_count f) ops
    | Some sb' \<Rightarrow> \<not> used_after_last (ff_count f) ops \<and>
        (if refs_after (ff_count f) ops = 0
         then released ff r q sb' \<and> on_way (conn sb') = insert r (on_way (conn sb))
         else 0 < refs_after (ff_count f) ops \<and> on_way (conn sb') = on_way (conn sb) \<and>
           release_ready ff (f\<lparr>ff_count := refs_after (ff_count f) ops\<rparr>) r q sb')"
  using assms
proof (induction ops arbitrary: f sb)
  case Nil
  then show ?case by simp
next
  case (Cons a ops)
  note used = used_after_last_Cons [OF Cons.prems(2), of a ops]
  show ?case
  proof (cases "a = File_put \<and> ff_count f = 1")
    case True
    obtain sb1 where put: "fuse_file_put wait ff False sb = Some sb1"
      using put_last_runs [of sb ff f r q] Cons.prems True by (auto simp: release_ready_def)
    have last: "released ff r q sb1 \<and> on_way (conn sb1) = insert r (on_way (conn sb))"
      using put_last [OF Cons.prems(1) _ put] True by blast
    show ?thesis
    proof (cases ops)
      case Nil
      then show ?thesis using True put last used by simp
    next
      case (Cons b bs)
      then have "file_run wait ff ops sb1 = None" using gone_crashes last by (simp add: released_def)
      then show ?thesis using True put used Cons by simp
    qed
  next
    case False
    define g :: "int \<Rightarrow> int" where "g = (\<lambda>n. refs_after n [a])"
    let ?sb = "upd_conn (upd_ff ff (ff_count_update g)) sb"
    have step: "file_step wait ff a sb = Some ?sb" "0 < g (ff_count f)"
      using Cons.prems put_shared [OF Cons.prems(1)] False
      by (cases a; simp add: g_def fuse_file_get_def release_ready_def upd_conn_def)+
    have refs: "refs_after (ff_count f) (a # ops) = refs_after (g (ff_count f)) ops" by (cases a) (simp_all add: g_def)
    show ?thesis
      using Cons.IH [OF ready_count [OF Cons.prems(1)], of g] Cons.prems(3) step used refs
      by (simp add: g_def split: option.splits if_splits)
  qed
qed

subsection \<open>Opening and closing\<close>

text \<open>
  A server that answers OPEN with \<open>out\<close>, while the objects that exist stay as they are until the
  answer is there.
\<close>

definition keeps :: "fuse_state \<Rightarrow> fuse_state \<Rightarrow> bool" where
  "keeps s s' \<longleftrightarrow> fc_bits s' = fc_bits s \<and> filps s' = filps s \<and>
     (\<forall>x f. ffs s x = Some f \<longrightarrow> ffs s' x = Some f) \<and> (\<forall>x q. reqs s x = Some q \<longrightarrow> reqs s' x = Some q)"

definition answers :: "'o ask \<Rightarrow> 'o \<Rightarrow> bool" where
  "answers ask out \<longleftrightarrow> (\<forall>args sb. \<exists>sb'. ask args sb = Some (0, out, sb') \<and> keeps (conn sb) (conn sb'))"

lemma send_open_answered:
  "answers ask out \<Longrightarrow> \<exists>sb'. fuse_send_open ask enc n fl op sb = Some (0, out, sb') \<and> keeps (conn sb) (conn sb')"
  by (simp add: answers_def fuse_send_open_def)

text \<open>A file as a successful open leaves it.\<close>

definition opened :: "filp_id \<Rightarrow> u64 \<Rightarrow> u64 \<Rightarrow> ff_id \<Rightarrow> fuse_file \<Rightarrow> req_id \<Rightarrow> fuse_state \<Rightarrow> bool" where
  "opened fp n fh ff f r s \<longleftrightarrow> (\<exists>p. filps s fp = Some p \<and> private_data p = Some ff) \<and> ffs s ff = Some f \<and>
     ff_fh f = fh \<and> ff_nodeid f = n \<and> ff_count f = 1 \<and> \<not> ff_flock f \<and> ff_reserved_req f = Some r \<and>
     reqs s r = Some (fuse_request_init 0)"

lemma do_open_opened:
  assumes run: "fuse_do_open ask enc ok n file isdir sb = Some (0, sb1)" and ask: "answers ask out"
    and open_asked: "isdir \<or> No_open \<notin> fc_bits (conn sb)" and p: "filps (conn sb) (of_filp file) \<noteq> None"
  shows "\<exists>ff f r. opened (of_filp file) n (oo_fh out) ff f r (conn sb1)" and "fc_bits (conn sb1) = fc_bits (conn sb)"
proof -
  from run obtain ff s1 where alloc: "fuse_file_alloc ok (conn sb) = (Some ff, s1)"
    by (cases "fuse_file_alloc ok (conn sb)") (auto simp: fuse_do_open_def errno_defs split: option.split_asm)
  then obtain r where r: "reqs s1 r = Some (fuse_request_init 0)" and stores: "filps s1 = filps (conn sb)" "fc_bits s1 = fc_bits (conn sb)"
    and ff: "ffs s1 ff = Some \<lparr>ff_reserved_req = Some r, ff_kh = khctr (conn sb) + 1, ff_fh = 0, ff_nodeid = 0, ff_count = 0,
       ff_open_flags = {}, ff_on_write_files = False, ff_polled = False, ff_flock = False\<rparr>"
    by (auto simp: fuse_file_alloc_def fuse_request_alloc_def Let_def split: if_split_asm)
  let ?sb = "upd_conn (upd_ff ff (\<lambda>f. f\<lparr>ff_fh := 0, ff_open_flags := {FOPEN_KEEP_CACHE}\<rparr>)) (sb\<lparr>conn := s1\<rparr>)"
  obtain s2 where asked: "fuse_send_open ask enc n (of_flags file) (if isdir then FUSE_OPENDIR else FUSE_OPEN) ?sb = Some (0, out, s2)"
    and keep: "keeps (conn ?sb) (conn s2)"
    using send_open_answered [OF ask] by blast
  have "do_open_ask ask enc n (of_flags file) isdir ff (sb\<lparr>conn := s1\<rparr>) = Some (0,
      upd_conn (upd_ff ff (\<lambda>f. f\<lparr>ff_fh := oo_fh out, ff_open_flags := oo_open_flags out\<rparr>)) s2)"
    using open_asked asked stores by (auto simp: do_open_ask_def Let_def)
  moreover have "ffs (conn s2) ff = Some \<lparr>ff_reserved_req = Some r, ff_kh = khctr (conn sb) + 1, ff_fh = 0, ff_nodeid = 0, ff_count = 0,
       ff_open_flags = {FOPEN_KEEP_CACHE}, ff_on_write_files = False, ff_polled = False, ff_flock = False\<rparr>"
    using keep ff by (simp add: keeps_def)
  moreover have "reqs (conn s2) r = Some (fuse_request_init 0)" using keep r by (simp add: keeps_def)
  ultimately show "\<exists>ff f r. opened (of_filp file) n (oo_fh out) ff f r (conn sb1)" and "fc_bits (conn sb1) = fc_bits (conn sb)"
    using run alloc p keep stores
    by (auto simp: fuse_do_open_def fuse_file_get_def opened_def set_private_data_def keeps_def Let_def)
qed

text \<open>Without OPEN the last reference sends nothing.\<close>

lemma iput_opt_queues:
  assumes "iput_opt oi sb = Some sb'"
  shows "bg_queue (conn sb') = bg_queue (conn sb)" and "pending (iq (conn sb')) = pending (iq (conn sb))"
  using assms
  by (auto simp: iput_opt_def iput_def fuse_evict_inode_def fuse_destroy_inode_def fuse_queue_forget_def
      vfs_def upd_inode_def upd_conn_def emit_def Let_def split: option.split_asm if_split_asm elim!: bind_Some_E)

lemma put_last_dropped:
  assumes F: "ffs (conn sb) ff = Some f" "ff_reserved_req f = Some r" "reqs (conn sb) r = Some q"
      "No_open \<in> fc_bits (conn sb)" and one: "ff_count f = 1"
    and run: "fuse_file_put wait ff sync sb = Some sb'"
  shows "ffs (conn sb') ff = None \<and> bg_queue (conn sb') = bg_queue (conn sb) \<and>
     pending (iq (conn sb')) = pending (iq (conn sb))"
proof -
  let ?c = "upd_ff ff (ff_count_update (\<lambda>n. n - 1)) (conn sb)"
  from run F one obtain sb1 s2 where ip: "iput_opt (release_inode q) (sb\<lparr>conn := upd_req r (clear_flag FR_BACKGROUND) ?c\<rparr>) = Some sb1"
    and put: "fuse_put_request (conn sb1) r = Some s2" and sb': "conn sb' = s2\<lparr>ffs := (ffs s2)(ff := None)\<rparr>"
    by (auto simp: fuse_file_put_def put_drop_def Let_def upd_conn_def elim!: bind_Some_E)
  show ?thesis using iput_opt_queues [OF ip] fuse_put_request_frame [OF put] by (simp add: sb')
qed

text \<open>The state in which the close of such a file drops the reference.\<close>

definition release_in_of :: "u64 \<Rightarrow> open_file \<Rightarrow> fuse_release_in" where
  "release_in_of fh file = \<lparr>rel_fh = fh, rel_flags = of_flags file, rel_flock_unlock = False, rel_lock_owner = 0\<rparr>"

definition release_req ::
    "fuse_state \<Rightarrow> (fuse_release_in \<Rightarrow> u8 list) \<Rightarrow> u64 \<Rightarrow> u64 \<Rightarrow> open_file \<Rightarrow> fuse_opcode \<Rightarrow> ino_id option \<Rightarrow> fuse_req" where
  "release_req s enc n fh file op oi = (fuse_request_init 0)\<lparr>
     rq_misc := Misc_release (release_in_of fh file) oi,
     rq_in := zero_in\<lparr>in_h := (in_h zero_in)\<lparr>ih_opcode := op, ih_nodeid := n\<rparr>,
       in_args := [\<lparr>arg_size = wire_size s W_release_in, arg_value = enc (release_in_of fh file)\<rparr>]\<rparr>\<rparr>"

lemma release_fill_upd_ff [simp]: "release_fill (upd_ff ff g s) = release_fill s"
  by (intro ext) (simp add: release_fill_def set_release_args_def)

lemma close_opened:
  assumes op: "opened (of_filp file) n fh ff f r (conn sb)" and nd: "destroy_req (conn sb) = None"
  shows "\<exists>sb1 oi. fuse_release_common wait enc owner i file opc sb = fuse_file_put wait ff False sb1 \<and>
     dom (reqs (conn sb1)) = dom (reqs (conn sb)) \<and> bg_queue (conn sb1) = bg_queue (conn sb) \<and> pending (iq (conn sb1)) = pending (iq (conn sb)) \<and>
     connected (conn sb1) = connected (conn sb) \<and> fc_bits (conn sb1) = fc_bits (conn sb) \<and>
     ffs (conn sb1) ff = Some (f\<lparr>ff_on_write_files := False, ff_polled := False\<rparr>) \<and>
     reqs (conn sb1) r = Some (release_req (conn sb) enc n fh file opc oi)"
proof -
  obtain p where F: "filps (conn sb) (of_filp file) = Some p" "private_data p = Some ff" "ffs (conn sb) ff = Some f"
      "ff_reserved_req f = Some r" "reqs (conn sb) r = Some (fuse_request_init 0)" "\<not> ff_flock f"
      "ff_fh f = fh" "ff_nodeid f = n"
    using op by (auto simp: opened_def)
  obtain sb2 where prep: "fuse_prepare_release enc ff (of_flags file) opc sb = Some sb2"
    using F by (simp add: fuse_prepare_release_def Let_def)
  obtain oi sb3 where grab: "igrab i sb2 = (oi, sb3)" by (cases "igrab i sb2")
  have d3: "conn sb3 = conn sb2" using grab by (auto simp: igrab_def split: if_split_asm)
  let ?sb = "upd_conn (upd_req r (release_hold oi)) sb3"
  have d: "destroy_req (conn sb3) = None" using prep nd F d3
    by (auto simp: fuse_prepare_release_def write_entry_del_def upd_conn_def Let_def)
  have put: "fuse_release_common wait enc owner i file opc sb = fuse_file_put wait ff False ?sb"
    using F prep grab d by (simp add: fuse_release_common_def Let_def)
  have c2: "conn sb2 = upd_req r (release_fill (conn sb) enc f (of_flags file) opc)
     (emit Wake_polls (upd_ff ff (ff_polled_update (\<lambda>_. False)) (upd_ff ff (ff_on_write_files_update (\<lambda>_. False)) (conn sb))))"
    using prep F by (auto simp: fuse_prepare_release_def write_entry_del_def Let_def upd_conn_def)
  have "dom (reqs (conn ?sb)) = dom (reqs (conn sb)) \<and> bg_queue (conn ?sb) = bg_queue (conn sb) \<and> pending (iq (conn ?sb)) = pending (iq (conn sb)) \<and>
     connected (conn ?sb) = connected (conn sb) \<and> fc_bits (conn ?sb) = fc_bits (conn sb) \<and>
     ffs (conn ?sb) ff = Some (f\<lparr>ff_on_write_files := False, ff_polled := False\<rparr>) \<and>
     reqs (conn ?sb) r = Some (release_req (conn sb) enc n fh file opc oi)"
    using F by (simp add: c2 d3 on_way_def release_fill_def set_release_args_def release_req_def release_in_of_def
        release_hold_def fuse_request_init_def Let_def)
  with put show ?thesis by blast
qed

subsection \<open>Properties\<close>

text \<open>
  C28: what the drop of the last reference of an open file does, for a file that the server opened (OPEN is
  implemented, so \<open>no_open\<close> is not set), on a connection that is up, and references that are dropped asynchronously.
  Whatever references its holders take and drop, the file and its prepared RELEASE stay as they are while a
  reference remains; the drop of the last one, and no other, frees the file and puts the RELEASE on its way to
  the server. The run fails exactly when something is done with the file after that drop. (Where \<open>no_open\<close> is
  set the RELEASE is dropped instead, that of a directory too.)
\<close>

theorem release_sent_on_last_put:
  assumes "release_ready ff f r q sb" and "0 < ff_count f" and "set (bg_queue (conn sb)) \<subseteq> dom (reqs (conn sb))"
  shows "(file_run wait ff ops sb = None \<longleftrightarrow> (\<exists>as a bs. ops = as @ a # bs \<and> refs_after (ff_count f) as = 0)) \<and>
    (\<forall>sb'. file_run wait ff ops sb = Some sb' \<longrightarrow>
      (if refs_after (ff_count f) ops = 0
       then released ff r q sb' \<and> on_way (conn sb') = insert r (on_way (conn sb))
       else 0 < refs_after (ff_count f) ops \<and> on_way (conn sb') = on_way (conn sb) \<and>
         release_ready ff (f\<lparr>ff_count := refs_after (ff_count f) ops\<rparr>) r q sb'))"
  using file_run_outcome [OF assms, where wait = wait and ops = ops] by (auto simp: used_after_last_def split: option.split_asm)

text \<open>
  C29: a file that was opened with the server answering OPEN and is closed while the connection is up
  has a RELEASE or RELEASEDIR on its way that carries the node, the flags and exactly the handle the
  server returned.
\<close>

theorem close_sends_handle:
  assumes open_run: "fuse_do_open ask enc ok n file isdir sb = Some (0, sb1)" and ask: "answers ask out"
    and no_open: "No_open \<notin> fc_bits (conn sb)" and p: "filps (conn sb) (of_filp file) \<noteq> None"
    and up: "connected (conn sb1)" "destroy_req (conn sb1) = None"
    and live: "set (bg_queue (conn sb1)) \<subseteq> dom (reqs (conn sb1))"
  shows "\<exists>sb2 r q inarg. fuse_release_common wait enc' owner i file opc sb1 = Some sb2 \<and>
     r \<in> on_way (conn sb2) \<and> reqs (conn sb2) r = Some q \<and> rq_end q = Some End_release \<and>
     ih_opcode (in_h (rq_in q)) = opc \<and> ih_nodeid (in_h (rq_in q)) = n \<and>
     in_args (rq_in q) = [\<lparr>arg_size = wire_size (conn sb1) W_release_in, arg_value = enc' inarg\<rparr>] \<and>
     rel_fh inarg = oo_fh out \<and> rel_flags inarg = of_flags file"
proof -
  obtain ff f r where op: "opened (of_filp file) n (oo_fh out) ff f r (conn sb1)"
    using do_open_opened(1) [OF open_run ask _ p] no_open by blast
  let ?q = "release_req (conn sb1) enc' n (oo_fh out) file opc"
  obtain sb3 oi where close: "fuse_release_common wait enc' owner i file opc sb1 = fuse_file_put wait ff False sb3"
    and c3: "connected (conn sb3)" "No_open \<notin> fc_bits (conn sb3)"
    and live3: "set (bg_queue (conn sb3)) \<subseteq> dom (reqs (conn sb3))"
    and f3: "ffs (conn sb3) ff = Some (f\<lparr>ff_on_write_files := False, ff_polled := False\<rparr>)"
    and q3: "reqs (conn sb3) r = Some (?q oi)"
    using close_opened [OF op up(2)] up(1) do_open_opened(2) [OF open_run ask _ p] no_open live by metis
  obtain sb2 where put: "fuse_file_put wait ff False sb3 = Some sb2"
    using put_last_runs [OF f3 _ q3 c3 _ live3] op by (auto simp: opened_def)
  have "released ff r (?q oi) sb2"
    using put_last_sends [OF f3 _ q3 c3 _ put] op by (simp add: opened_def)
  then obtain q' where q': "reqs (conn sb2) r = Some q'" "r \<in> on_way (conn sb2)"
    "req_body q' = req_body (mark_sent (set_flag FR_BACKGROUND ((?q oi)\<lparr>rq_end := Some End_release\<rparr>)))"
    by (auto simp: released_def)
  note b = req_body_eq [OF q'(3)]
  show ?thesis
    by (intro exI [of _ sb2] exI [of _ r] exI [of _ q'] exI [of _ "release_in_of (oo_fh out) file"])
      (simp add: close put q' b set_flag_def release_req_def release_in_of_def)
qed

text \<open>
  C30: once the server answered one OPEN with ENOSYS, directories are still opened with OPENDIR, but
  closing one queues nothing: the file is freed and the handle the server returned for it is never
  released. (The comment in \<open>fuse_file_put\<close> means clients that do not implement OPEN only.)
\<close>

theorem releasedir_dropped:
  assumes open_run: "fuse_do_open ask enc ok n file True sb = Some (0, sb1)" and ask: "answers ask out"
    and no_open: "No_open \<in> fc_bits (conn sb)" and p: "filps (conn sb) (of_filp file) \<noteq> None"
    and up: "destroy_req (conn sb1) = None"
    and close: "fuse_release_common wait enc' owner i file FUSE_RELEASEDIR sb1 = Some sb2"
  shows "\<exists>ff f. ffs (conn sb1) ff = Some f \<and> ff_fh f = oo_fh out \<and> ffs (conn sb2) ff = None \<and>
     bg_queue (conn sb2) = bg_queue (conn sb1) \<and> pending (iq (conn sb2)) = pending (iq (conn sb1))"
proof -
  obtain ff f r where op: "opened (of_filp file) n (oo_fh out) ff f r (conn sb1)"
    using do_open_opened(1) [OF open_run ask _ p] by blast
  have bits: "fc_bits (conn sb1) = fc_bits (conn sb)" using do_open_opened(2) [OF open_run ask _ p] by simp
  obtain sb3 oi where same_run: "fuse_release_common wait enc' owner i file FUSE_RELEASEDIR sb1 = fuse_file_put wait ff False sb3"
    and c3: "No_open \<in> fc_bits (conn sb3)"
    and f3: "ffs (conn sb3) ff = Some (f\<lparr>ff_on_write_files := False, ff_polled := False\<rparr>)"
    and same: "bg_queue (conn sb3) = bg_queue (conn sb1)" "pending (iq (conn sb3)) = pending (iq (conn sb1))"
    and q3: "reqs (conn sb3) r = Some (release_req (conn sb1) enc' n (oo_fh out) file FUSE_RELEASEDIR oi)"
    using close_opened [OF op up] bits no_open by metis
  have put: "fuse_file_put wait ff False sb3 = Some sb2" using close same_run by simp
  have "ffs (conn sb2) ff = None \<and> bg_queue (conn sb2) = bg_queue (conn sb3) \<and> pending (iq (conn sb2)) = pending (iq (conn sb3))"
    using put_last_dropped [OF f3 _ q3 c3 _ put] op by (simp add: opened_def)
  then show ?thesis using op same by (auto simp: opened_def)
qed
text \<open>
  C31: scrambling lock owners loses nothing: whatever the key, the map from pointers to owner
  identifiers is a bijection on 64-bit values, so two files never share an owner.
\<close>

theorem lock_owner_id_bij: "bij (fuse_lock_owner_id k)"
  unfolding bij_def
proof
  show inj: "inj (fuse_lock_owner_id k)" by (rule injI) (rule lock_owner_inj)
  show "surj (fuse_lock_owner_id k)" using inj by (rule finite_UNIV_inj_surj [OF finite])
qed

text \<open>A file open for reading (identifier 200) with its reserved request 201.\<close>

definition example_ff :: fuse_file where
  "example_ff = \<lparr>ff_reserved_req = Some 201, ff_kh = 1, ff_fh = 77, ff_nodeid = 5, ff_count = 1,
     ff_open_flags = {}, ff_on_write_files = False, ff_polled = False, ff_flock = False\<rparr>"

definition example_files :: "fuse_conn_bit set \<Rightarrow> fuse_sb" where
  "example_files bits = example_sb\<lparr>conn := (conn example_sb)\<lparr>fc_bits := bits, ffs := (\<lambda>_. None)(200 \<mapsto> example_ff),
     reqs := (\<lambda>_. None)(201 \<mapsto> fuse_request_init 0), filps := (\<lambda>_. None)(300 \<mapsto> \<lparr>f_count = 1, private_data = None\<rparr>)\<rparr>\<rparr>"

lemmas example_files_defs = example_files_def example_ff_def example_sb_defs

definition example_file :: open_file where
  "example_file = \<lparr>of_filp = 300, of_flags = 0x8000, of_mode_write = False\<rparr>"

definition example_ask :: "fuse_open_out ask" where
  "example_ask args sb = Some (0, \<lparr>oo_fh = 77, oo_open_flags = {}\<rparr>, sb)"

lemma example_answers: "answers example_ask \<lparr>oo_fh = 77, oo_open_flags = {}\<rparr>"
  by (simp add: answers_def example_ask_def keeps_def)

lemma release_sent_on_last_put_witness:
  "(\<exists>sb'. file_run (\<lambda>_ _. Some) 200 [File_get, File_put, File_put] (example_files {}) = Some sb' \<and>
     released 200 201 (fuse_request_init 0) sb') \<and>
   file_run (\<lambda>_ _. Some) 200 [File_put, File_get] (example_files {}) = None"
proof -
  let ?run = "\<lambda>ops. file_run (\<lambda>_ _. Some) 200 ops (example_files {})"
  have ready: "release_ready 200 example_ff 201 (fuse_request_init 0) (example_files {})" "0 < ff_count example_ff"
    "set (bg_queue (conn (example_files {}))) \<subseteq> dom (reqs (conn (example_files {})))"
    by (simp_all add: release_ready_def example_files_defs on_way_def)
  note last = release_sent_on_last_put [OF ready, where wait = "\<lambda>_ _. Some"]
  have count: "ff_count example_ff = 1" by (simp add: example_ff_def)
  have "\<not> (\<exists>as a bs. [File_get, File_put, File_put] = as @ a # bs \<and> refs_after 1 as = 0)"
    by (auto simp: Cons_eq_append_conv)
  then obtain sb' where run: "?run [File_get, File_put, File_put] = Some sb'"
    using last [of "[File_get, File_put, File_put]"] by (auto simp: count)
  have "[File_put, File_get] = [File_put] @ File_get # [] \<and> refs_after 1 [File_put] = 0" by simp
  then have "?run [File_put, File_get] = None" using last [of "[File_put, File_get]"] unfolding count by blast
  then show ?thesis using last [of "[File_get, File_put, File_put]"] run by (simp add: count)
qed

text \<open>A file opened by \<open>fuse_do_open\<close> on that connection.\<close>

lemma example_open:
  assumes "isdir \<or> No_open \<notin> bits"
  obtains sb1 where
    "fuse_do_open example_ask (\<lambda>_. []) (\<lambda>_. True) 5 example_file isdir (example_files bits) = Some (0, sb1)"
    and "connected (conn sb1)" and "destroy_req (conn sb1) = None" and "bg_queue (conn sb1) = []"
  using assms
  by (auto simp: fuse_do_open_def do_open_ask_def fuse_send_open_def example_ask_def fuse_file_alloc_def
      fuse_request_alloc_def fuse_file_get_def example_file_def set_private_data_def upd_conn_def
      example_files_defs Let_def)

lemma close_sends_handle_witness:
  "\<exists>sb1 sb2. fuse_do_open example_ask (\<lambda>_. []) (\<lambda>_. True) 5 example_file False (example_files {}) = Some (0, sb1) \<and>
     fuse_release_common (\<lambda>_ _. Some) (\<lambda>_. []) 0 1 example_file FUSE_RELEASE sb1 = Some sb2 \<and> on_way (conn sb2) \<noteq> {}"
proof -
  obtain sb1 where op: "fuse_do_open example_ask (\<lambda>_. []) (\<lambda>_. True) 5 example_file False (example_files {}) = Some (0, sb1)"
    and up: "connected (conn sb1)" "destroy_req (conn sb1) = None" and bg: "bg_queue (conn sb1) = []"
    by (rule example_open [of False "{}"]) simp_all
  have no: "No_open \<notin> fc_bits (conn (example_files {}))" and p: "filps (conn (example_files {})) (of_filp example_file) \<noteq> None"
    by (simp_all add: example_files_defs example_file_def)
  show ?thesis using close_sends_handle [OF op example_answers no p up] op bg by fastforce
qed

lemma releasedir_dropped_witness:
  "\<exists>sb1 sb2. fuse_do_open example_ask (\<lambda>_. []) (\<lambda>_. True) 5 example_file True (example_files {No_open}) = Some (0, sb1) \<and>
     fuse_release_common (\<lambda>_ _. Some) (\<lambda>_. []) 0 1 example_file FUSE_RELEASEDIR sb1 = Some sb2 \<and>
     bg_queue (conn sb2) = bg_queue (conn sb1)"
proof -
  let ?s0 = "example_files {No_open}"
  obtain sb1 where op: "fuse_do_open example_ask (\<lambda>_. []) (\<lambda>_. True) 5 example_file True ?s0 = Some (0, sb1)"
    and nd: "destroy_req (conn sb1) = None"
    by (rule example_open [of True "{No_open}"]) simp_all
  have no: "No_open \<in> fc_bits (conn ?s0)" and p: "filps (conn ?s0) (of_filp example_file) \<noteq> None"
    by (simp_all add: example_files_defs example_file_def)
  obtain sb2 where close: "fuse_release_common (\<lambda>_ _. Some) (\<lambda>_. []) 0 1 example_file FUSE_RELEASEDIR sb1 = Some sb2"
    using op
    by (auto simp: fuse_do_open_def do_open_ask_def fuse_send_open_def example_ask_def fuse_file_alloc_def
        fuse_request_alloc_def fuse_file_get_def example_file_def set_private_data_def upd_conn_def
        example_files_defs Let_def fuse_release_common_def fuse_prepare_release_def write_entry_del_def
        release_fill_def set_release_args_def igrab_def upd_inode_def release_hold_def fuse_file_put_def
        put_drop_def iput_opt_def release_inode_def iput_def fuse_put_request_def put_last_ref_def
        fuse_request_free_def)
  show ?thesis using releasedir_dropped [OF op example_answers no p nd close] op close by blast
qed

end
