(* ===== verification/Fuse_Writeback.thy ===== *)
theory Fuse_Writeback
  imports Fuse_File
begin

text \<open>
  Writing dirty pages back to the server (\<open>file.c\<close>, with \<open>fuse_set_nowrite\<close> and its release of
  \<open>dir.c\<close>). Every page to be written is copied into a temporary page that a WRITE request owns, so
  the page cache goes on at once. The requests of an inode are on its list \<open>writepages\<close>; while
  \<open>writectr\<close> is negative (a truncation or fsync is going on) they wait on \<open>queued_writes\<close>. A page
  written again while its request is under way gets a secondary request, chained to the primary one
  by \<open>misc.write.next\<close> and sent when the primary ends.

  \<^item> \<open>frames\<close> are the temporary pages, by identifier, with their content and memory node;
    \<open>wb_stat\<close> and \<open>node_temp\<close> are the statistics of pages under writeback and of temporary pages per
    node. A page of the page cache is a \<open>cpage\<close>; \<open>pg_writeback\<close> and \<open>pg_locked\<close> hold the indices of the
    pages of the inode with that flag.
  \<^item> Page indices and file sizes are natural numbers: an index is a 64-bit offset shifted right by
    12, so index plus number of pages cannot wrap.
  \<^item> \<open>fuse_send_writepage\<close> drops \<open>fc->lock\<close> while it frees a request it does not send; the functions
    here run to their end without an interleaving there. \<open>fuse_writepages_fill\<close> is split where other
    threads matter: between its look at \<open>writepages\<close> and the decision taken on it.
  \<^item> A loop that does not end, like a crash, is \<open>None\<close>.
\<close>

record cpage =
  pg_index :: nat
  pg_data :: "u8 list"
  pg_node :: nat

record frame =
  fr_data :: "u8 list"
  fr_node :: nat

record fuse_wb =
  wb_sb :: fuse_sb
  frames :: "page_id \<rightharpoonup> frame"
  next_frame :: page_id
  wb_stat :: int
  node_temp :: "nat \<Rightarrow> int"
  wb_outs :: nat
  mapping_errors :: "int list"
  pg_writeback :: "nat set"
  pg_locked :: "nat set"
  page_wakes :: nat

type_synonym enc_write = "fuse_write_in \<Rightarrow> u8 list"

definition wconn :: "fuse_wb \<Rightarrow> fuse_state" where "wconn wb = conn (wb_sb wb)"

definition wconn_update :: "(fuse_state \<Rightarrow> fuse_state) \<Rightarrow> fuse_wb \<Rightarrow> fuse_wb" where
  "wconn_update f wb = wb\<lparr>wb_sb := upd_conn f (wb_sb wb)\<rparr>"

definition winode_update :: "ino_id \<Rightarrow> (fuse_inode \<Rightarrow> fuse_inode) \<Rightarrow> fuse_wb \<Rightarrow> fuse_wb" where
  "winode_update i f wb = wb\<lparr>wb_sb := upd_inode i f (wb_sb wb)\<rparr>"

abbreviation winode :: "fuse_wb \<Rightarrow> ino_id \<Rightarrow> fuse_inode option" where
  "winode wb i \<equiv> inodes (wb_sb wb) i"

subsection \<open>Write requests\<close>

definition zero_write_in :: fuse_write_in where
  "zero_write_in = \<lparr>wi_fh = 0, wi_offset = 0, wi_size = 0, wi_write_flags = {}, wi_lock_owner = 0, wi_flags = 0\<rparr>"

text \<open>\<open>misc.write\<close> of a request: \<open>in\<close> and \<open>next\<close>.\<close>

definition write_of :: "fuse_req \<Rightarrow> (fuse_write_in \<times> req_id option) option" where
  "write_of q = (case rq_misc q of Misc_write w nx \<Rightarrow> Some (w, nx) | _ \<Rightarrow> None)"

text \<open>The first argument points to \<open>misc.write.in\<close>, so its bytes follow a change of the structure.\<close>

definition set_write :: "enc_write \<Rightarrow> fuse_write_in \<Rightarrow> req_id option \<Rightarrow> fuse_req \<Rightarrow> fuse_req" where
  "set_write enc w nx q = q\<lparr>rq_misc := Misc_write w nx,
     rq_in := (rq_in q)\<lparr>in_args := (case in_args (rq_in q) of [] \<Rightarrow> [] | a # as \<Rightarrow> a\<lparr>arg_value := enc w\<rparr> # as)\<rparr>\<rparr>"

definition set_next :: "req_id option \<Rightarrow> fuse_req \<Rightarrow> fuse_req" where
  "set_next nx q = (case rq_misc q of Misc_write w _ \<Rightarrow> q\<lparr>rq_misc := Misc_write w nx\<rparr> | _ \<Rightarrow> q)"

definition set_arg1_size :: "nat \<Rightarrow> fuse_req \<Rightarrow> fuse_req" where
  "set_arg1_size n q = q\<lparr>rq_in := (rq_in q)\<lparr>in_args := (case in_args (rq_in q) of
     a # b # as \<Rightarrow> a # b\<lparr>arg_size := n\<rparr> # as | as \<Rightarrow> as)\<rparr>\<rparr>"

definition fuse_write_fill :: "enc_write \<Rightarrow> fuse_state \<Rightarrow> fuse_file \<Rightarrow> u64 \<Rightarrow> nat \<Rightarrow> fuse_req \<Rightarrow> fuse_req" where
  "fuse_write_fill enc s f pos count q =
     (let (w0, nx) = (case write_of q of Some wn \<Rightarrow> wn | None \<Rightarrow> (zero_write_in, None));
          w = w0\<lparr>wi_fh := ff_fh f, wi_offset := pos, wi_size := of_nat count\<rparr>
      in q\<lparr>rq_misc := Misc_write w nx,
           rq_in := (rq_in q)\<lparr>
             in_h := (in_h (rq_in q))\<lparr>ih_opcode := FUSE_WRITE, ih_nodeid := ff_nodeid f\<rparr>,
             in_args := [\<lparr>arg_size = wire_size s (if minor s < 9 then W_compat_write_in else W_write_in),
                          arg_value = enc w\<rparr>, \<lparr>arg_size = count, arg_value = []\<rparr>]\<rparr>,
           rq_out := (rq_out q)\<lparr>out_args := [\<lparr>arg_size = wire_size s W_write_out, arg_value = []\<rparr>]\<rparr>\<rparr>)"

definition first_page :: "fuse_write_in \<Rightarrow> nat" where
  "first_page w = unat (drop_bit PAGE_SHIFT (wi_offset w))"

definition page_offset :: "nat \<Rightarrow> u64" where
  "page_offset idx = of_nat (idx * PAGE_SIZE)"

text \<open>The two searches of \<open>writepages\<close>; a request of another inode is a BUG.\<close>

fun range_scan :: "fuse_state \<Rightarrow> ino_id \<Rightarrow> nat \<Rightarrow> nat \<Rightarrow> req_id list \<Rightarrow> req_id option option" where
  "range_scan s i idx_from idx_to [] = Some None"
| "range_scan s i idx_from idx_to (r # rs) = do {
     q \<leftarrow> reqs s r;
     (w, nx) \<leftarrow> write_of q;
     if rq_inode q \<noteq> Some i then None
     else if idx_from < first_page w + rq_num_pages q \<and> first_page w \<le> idx_to then Some (Some r)
     else range_scan s i idx_from idx_to rs}"

definition fuse_range_is_writeback :: "ino_id \<Rightarrow> nat \<Rightarrow> nat \<Rightarrow> fuse_wb \<Rightarrow> bool option" where
  "fuse_range_is_writeback i idx_from idx_to wb = do {
     v \<leftarrow> winode wb i;
     found \<leftarrow> range_scan (wconn wb) i idx_from idx_to (writepages v);
     Some (found \<noteq> None)}"

definition fuse_page_is_writeback :: "ino_id \<Rightarrow> nat \<Rightarrow> fuse_wb \<Rightarrow> bool option" where
  "fuse_page_is_writeback i idx wb = fuse_range_is_writeback i idx idx wb"

subsection \<open>The end of a request\<close>

text \<open>The temporary pages of a request, and their release.\<close>

definition req_frames :: "fuse_req \<Rightarrow> page_id option list" where
  "req_frames q = take (rq_num_pages q) (rq_pages q)"

fun free_frames :: "page_id option list \<Rightarrow> (page_id \<rightharpoonup> frame) \<Rightarrow> (page_id \<rightharpoonup> frame) option" where
  "free_frames [] fr = Some fr"
| "free_frames (po # ps) fr = do {
     p \<leftarrow> po;
     x \<leftarrow> fr p;
     free_frames ps (fr(p := None))}"

definition fuse_writepage_free :: "wait \<Rightarrow> fuse_req \<Rightarrow> fuse_wb \<Rightarrow> fuse_wb option" where
  "fuse_writepage_free wait q wb = do {
     fr \<leftarrow> free_frames (req_frames q) (frames wb);
     let wb1 = wb\<lparr>frames := fr\<rparr>;
     (case rq_ff q of
        None \<Rightarrow> Some wb1
      | Some ff \<Rightarrow> map_option (\<lambda>sb. wb1\<lparr>wb_sb := sb\<rparr>) (fuse_file_put wait ff False (wb_sb wb1)))}"

text \<open>The statistics of one temporary page on node \<open>n\<close> that is no longer under writeback.\<close>

definition stat_done :: "nat \<Rightarrow> fuse_wb \<Rightarrow> fuse_wb" where
  "stat_done n wb = wb\<lparr>wb_stat := wb_stat wb - 1, node_temp := (node_temp wb)(n := node_temp wb n - 1),
     wb_outs := Suc (wb_outs wb)\<rparr>"

definition stat_start :: "nat \<Rightarrow> fuse_wb \<Rightarrow> fuse_wb" where
  "stat_start n wb = wb\<lparr>wb_stat := wb_stat wb + 1, node_temp := (node_temp wb)(n := node_temp wb n + 1)\<rparr>"

fun stats_done :: "page_id option list \<Rightarrow> fuse_wb \<Rightarrow> fuse_wb option" where
  "stats_done [] wb = Some wb"
| "stats_done (po # ps) wb = do {
     p \<leftarrow> po;
     x \<leftarrow> frames wb p;
     stats_done ps (stat_done (fr_node x) wb)}"

definition fuse_writepage_finish :: "ino_id \<Rightarrow> fuse_req \<Rightarrow> req_id \<Rightarrow> fuse_wb \<Rightarrow> fuse_wb option" where
  "fuse_writepage_finish i q r wb = do {
     wb1 \<leftarrow> stats_done (req_frames q) (winode_update i (writepages_update (without r)) wb);
     Some (wb1\<lparr>page_wakes := Suc (page_wakes wb1)\<rparr>)}"

subsection \<open>Sending\<close>

text \<open>A request that is not sent: nothing of its data lies within the file, or the connection is gone.\<close>

definition send_free :: "wait \<Rightarrow> ino_id \<Rightarrow> fuse_req \<Rightarrow> req_id \<Rightarrow> fuse_wb \<Rightarrow> fuse_wb option" where
  "send_free wait i q r wb = do {
     wb1 \<leftarrow> fuse_writepage_finish i q r wb;
     wb2 \<leftarrow> fuse_writepage_free wait q wb1;
     s \<leftarrow> fuse_put_request (wconn wb2) r;
     Some (wconn_update (\<lambda>_. s) wb2)}"

definition send_write :: "enc_write \<Rightarrow> ino_id \<Rightarrow> fuse_write_in \<Rightarrow> req_id option \<Rightarrow> req_id \<Rightarrow> u32 \<Rightarrow> fuse_wb \<Rightarrow> fuse_wb option" where
  "send_write enc i w nx r n wb = do {
     s \<leftarrow> fuse_request_send_background_locked
            (upd_req r (set_arg1_size (unat n) \<circ> set_write enc (w\<lparr>wi_size := n\<rparr>) nx) (wconn wb)) r;
     Some (wconn_update (\<lambda>_. s) (winode_update i (writectr_update (\<lambda>c. c + 1)) wb))}"

text \<open>The number of bytes to send of a request when the file has \<open>file_size\<close> bytes.\<close>

definition crop_size :: "u64 \<Rightarrow> u64 \<Rightarrow> u64 \<Rightarrow> u32 option" where
  "crop_size offset data_size file_size =
     (if offset + data_size \<le> file_size then Some (ucast data_size)
      else if offset < file_size then Some (ucast (file_size - offset))
      else None)"

definition fuse_send_writepage :: "enc_write \<Rightarrow> wait \<Rightarrow> u64 \<Rightarrow> req_id \<Rightarrow> fuse_wb \<Rightarrow> fuse_wb option" where
  "fuse_send_writepage enc wait file_size r wb = do {
     q \<leftarrow> reqs (wconn wb) r;
     i \<leftarrow> rq_inode q;
     v \<leftarrow> winode wb i;
     (w, nx) \<leftarrow> write_of q;
     let data_size = of_nat (rq_num_pages q * PAGE_SIZE);
     (if \<not> connected (wconn wb) then send_free wait i q r wb
      else case crop_size (wi_offset w) data_size file_size of
          None \<Rightarrow> send_free wait i q r wb
        | Some n \<Rightarrow> send_write enc i w nx r n wb)}"

partial_function (option) flush_queued :: "enc_write \<Rightarrow> wait \<Rightarrow> u64 \<Rightarrow> ino_id \<Rightarrow> fuse_wb \<Rightarrow> fuse_wb option" where
  "flush_queued enc wait crop i wb = do {
     v \<leftarrow> winode wb i;
     (if writectr v < 0 \<or> queued_writes v = [] then Some wb
      else do {
        wb1 \<leftarrow> fuse_send_writepage enc wait crop (hd (queued_writes v))
                 (winode_update i (queued_writes_update tl) wb);
        flush_queued enc wait crop i wb1})}"

definition fuse_flush_writepages :: "enc_write \<Rightarrow> wait \<Rightarrow> ino_id \<Rightarrow> fuse_wb \<Rightarrow> fuse_wb option" where
  "fuse_flush_writepages enc wait i wb = do {
     v \<leftarrow> winode wb i;
     flush_queued enc wait (i_size v) i wb}"

subsection \<open>Completion\<close>

text \<open>One iteration of the loop of \<open>fuse_writepage_end\<close>: the next secondary request becomes a primary one.\<close>

definition promote :: "enc_write \<Rightarrow> wait \<Rightarrow> ino_id \<Rightarrow> fuse_req \<Rightarrow> fuse_write_in \<Rightarrow> req_id \<Rightarrow> req_id \<Rightarrow> fuse_wb \<Rightarrow> fuse_wb option" where
  "promote enc wait i q w r n wb = do {
     qn \<leftarrow> reqs (wconn wb) n;
     (wn, nn) \<leftarrow> write_of qn;
     ff \<leftarrow> rq_ff q;
     let s1 = upd_req n (set_next None) (upd_req r (set_next nn) (wconn wb));
     s2 \<leftarrow> fuse_file_get (upd_req n (rq_ff_update (\<lambda>_. Some ff)) s1) ff;
     fuse_send_writepage enc wait (wi_offset w + ucast (wi_size w)) n
       (winode_update i (writepages_update ((#) n)) (wconn_update (\<lambda>_. s2) wb))}"

partial_function (option) end_secondaries :: "enc_write \<Rightarrow> wait \<Rightarrow> ino_id \<Rightarrow> req_id \<Rightarrow> fuse_wb \<Rightarrow> fuse_wb option" where
  "end_secondaries enc wait i r wb = do {
     q \<leftarrow> reqs (wconn wb) r;
     (w, nx) \<leftarrow> write_of q;
     (case nx of
        None \<Rightarrow> Some wb
      | Some n \<Rightarrow> do {
          wb1 \<leftarrow> promote enc wait i q w r n wb;
          end_secondaries enc wait i r wb1})}"

definition fuse_writepage_end :: "enc_write \<Rightarrow> wait \<Rightarrow> req_id \<Rightarrow> fuse_wb \<Rightarrow> fuse_wb option" where
  "fuse_writepage_end enc wait r wb = do {
     q \<leftarrow> reqs (wconn wb) r;
     i \<leftarrow> rq_inode q;
     v \<leftarrow> winode wb i;
     let err = oh_error (out_h (rq_out q));
     let wb1 = (if err \<noteq> 0 then wb\<lparr>mapping_errors := err # mapping_errors wb\<rparr> else wb);
     wb2 \<leftarrow> end_secondaries enc wait i r wb1;
     wb3 \<leftarrow> fuse_writepage_finish i q r (winode_update i (writectr_update (\<lambda>c. c - 1)) wb2);
     fuse_writepage_free wait q wb3}"

subsection \<open>Holding writes back\<close>

text \<open>\<open>fuse_set_nowrite\<close> up to its wait for \<open>writectr = FUSE_NOWRITE\<close>, which is \<open>writes_quiet\<close>.\<close>

definition set_nowrite_start :: "ino_id \<Rightarrow> fuse_wb \<Rightarrow> fuse_wb option" where
  "set_nowrite_start i wb = do {
     v \<leftarrow> winode wb i;
     if writectr v < 0 then None
     else Some (winode_update i (writectr_update (\<lambda>c. c + FUSE_NOWRITE)) wb)}"

definition writes_quiet :: "ino_id \<Rightarrow> fuse_wb \<Rightarrow> bool" where
  "writes_quiet i wb \<longleftrightarrow> map_option writectr (winode wb i) = Some FUSE_NOWRITE"

definition fuse_release_nowrite :: "enc_write \<Rightarrow> wait \<Rightarrow> ino_id \<Rightarrow> fuse_wb \<Rightarrow> fuse_wb option" where
  "fuse_release_nowrite enc wait i wb = do {
     v \<leftarrow> winode wb i;
     if writectr v \<noteq> FUSE_NOWRITE then None
     else fuse_flush_writepages enc wait i (winode_update i (writectr_update (\<lambda>_. 0)) wb)}"

subsection \<open>One page\<close>

definition fuse_write_file_get :: "ino_id \<Rightarrow> fuse_wb \<Rightarrow> (ff_id option \<times> fuse_wb) option" where
  \<comment> \<open>\<open>__fuse_write_file_get\<close>, and the warning of \<open>fuse_write_file_get\<close> when there is no file\<close>
  "fuse_write_file_get i wb = do {
     v \<leftarrow> winode wb i;
     (case write_files v of
        [] \<Rightarrow> Some (None, wconn_update (emit Warn) wb)
      | ff # _ \<Rightarrow> map_option (\<lambda>s. (Some ff, wconn_update (\<lambda>_. s) wb)) (fuse_file_get (wconn wb) ff))}"

text \<open>\<open>alloc_page\<close>, on the memory node \<open>node\<close> the allocator picks.\<close>

definition alloc_frame :: "bool \<Rightarrow> nat \<Rightarrow> fuse_wb \<Rightarrow> page_id option \<times> fuse_wb" where
  "alloc_frame ok node wb =
     (if ok then (Some (next_frame wb), wb\<lparr>next_frame := Suc (next_frame wb),
                   frames := (frames wb)(next_frame wb \<mapsto> \<lparr>fr_data = [], fr_node = node\<rparr>)\<rparr>)
      else (None, wb))"

text \<open>\<open>copy_highpage\<close> into the temporary page \<open>p\<close>.\<close>

definition copy_page_to :: "page_id \<Rightarrow> cpage \<Rightarrow> fuse_wb \<Rightarrow> fuse_wb" where
  "copy_page_to p pg wb = wb\<lparr>frames := (frames wb)(p := map_option (fr_data_update (\<lambda>_. pg_data pg)) (frames wb p))\<rparr>"

definition set_page_writeback :: "nat \<Rightarrow> fuse_wb \<Rightarrow> fuse_wb" where
  "set_page_writeback idx wb = wb\<lparr>pg_writeback := insert idx (pg_writeback wb)\<rparr>"

definition end_page_writeback :: "nat \<Rightarrow> fuse_wb \<Rightarrow> fuse_wb" where
  "end_page_writeback idx wb = wb\<lparr>pg_writeback := pg_writeback wb - {idx}\<rparr>"

definition unlock_page :: "nat \<Rightarrow> fuse_wb \<Rightarrow> fuse_wb" where
  "unlock_page idx wb = wb\<lparr>pg_locked := pg_locked wb - {idx}\<rparr>"

definition frame_node :: "page_id \<Rightarrow> fuse_wb \<Rightarrow> nat" where
  "frame_node p wb = (case frames wb p of Some x \<Rightarrow> fr_node x | None \<Rightarrow> 0)"

text \<open>A request for writes of the page cache from page \<open>idx\<close> on.\<close>

definition cache_write :: "enc_write \<Rightarrow> fuse_state \<Rightarrow> fuse_file \<Rightarrow> ino_id \<Rightarrow> nat \<Rightarrow> fuse_req \<Rightarrow> fuse_req" where
  "cache_write enc s f i idx q =
     (let q1 = fuse_write_fill enc s f (page_offset idx) 0 (set_flag FR_BACKGROUND q);
          (w, nx) = (case write_of q1 of Some wn \<Rightarrow> wn | None \<Rightarrow> (zero_write_in, None));
          q2 = set_write enc (w\<lparr>wi_write_flags := insert FUSE_WRITE_CACHE (wi_write_flags w)\<rparr>) None q1
      in q2\<lparr>rq_in := (rq_in q2)\<lparr>in_argpages := True\<rparr>, rq_end := Some End_writepage, rq_inode := Some i\<rparr>)"

definition put_page_in :: "nat \<Rightarrow> page_id \<Rightarrow> fuse_req \<Rightarrow> fuse_req" where
  "put_page_in n p q = q\<lparr>rq_pages := (rq_pages q)[n := Some p],
     rq_page_descs := (rq_page_descs q)[n := \<lparr>pd_length = PAGE_SIZE, pd_offset = 0\<rparr>]\<rparr>"

definition fuse_writepage_locked ::
    "enc_write \<Rightarrow> wait \<Rightarrow> oom \<Rightarrow> nat \<Rightarrow> ino_id \<Rightarrow> cpage \<Rightarrow> fuse_wb \<Rightarrow> (int \<times> fuse_wb) option" where
  "fuse_writepage_locked enc wait ok node i pg wb =
     (let idx = pg_index pg; wb0 = set_page_writeback idx wb in
      case fuse_request_alloc (\<lambda>n. ok (Suc n)) 1 (wconn wb0) of
        (None, s1) \<Rightarrow> Some (- ENOMEM, end_page_writeback idx (wconn_update (\<lambda>_. s1) wb0))
      | (Some r, s1) \<Rightarrow> (case alloc_frame (ok 0) node (wconn_update (\<lambda>_. s1) wb0) of
          (None, wb1) \<Rightarrow> do {
            s2 \<leftarrow> fuse_request_free (wconn wb1) r;
            Some (- ENOMEM, end_page_writeback idx (wconn_update (\<lambda>_. s2) wb1))}
        | (Some p, wb1) \<Rightarrow> do {
            (ffo, wb2) \<leftarrow> fuse_write_file_get i wb1;
            (case ffo of
               None \<Rightarrow> do {
                 s3 \<leftarrow> fuse_request_free (wconn wb2) r;
                 Some (- EIO, end_page_writeback idx
                   ((wconn_update (\<lambda>_. s3) wb2)\<lparr>frames := (frames wb2)(p := None)\<rparr>))}
             | Some ff \<Rightarrow> do {
                 f \<leftarrow> ffs (wconn wb2) ff;
                 let s3 = upd_req r (\<lambda>q. (put_page_in 0 p (cache_write enc (wconn wb2) f i idx q))
                            \<lparr>rq_ff := Some ff, rq_num_pages := 1\<rparr>) (wconn wb2);
                 let wb3 = stat_start (frame_node p wb2) (copy_page_to p pg (wconn_update (\<lambda>_. s3) wb2));
                 wb4 \<leftarrow> fuse_flush_writepages enc wait i
                   (winode_update i (\<lambda>v. v\<lparr>writepages := r # writepages v, queued_writes := queued_writes v @ [r]\<rparr>) wb3);
                 Some (0, end_page_writeback idx wb4)})}))"

definition fuse_writepage ::
    "enc_write \<Rightarrow> wait \<Rightarrow> oom \<Rightarrow> nat \<Rightarrow> ino_id \<Rightarrow> cpage \<Rightarrow> fuse_wb \<Rightarrow> (int \<times> fuse_wb) option" where
  \<comment> \<open>redirtying the page is left to the caller's page cache\<close>
  "fuse_writepage enc wait ok node i pg wb = do {
     busy \<leftarrow> fuse_page_is_writeback i (pg_index pg) wb;
     if busy then Some (0, wb)
     else do {
       (err, wb1) \<leftarrow> fuse_writepage_locked enc wait ok node i pg wb;
       Some (err, unlock_page (pg_index pg) wb1)}}"

text \<open>
  \<open>fuse_launder_page\<close>, called for a page that is about to be thrown out of the page cache: \<open>dirty\<close> is the answer of
  \<open>clear_page_dirty_for_io\<close>, and \<open>settle\<close> is \<open>fuse_wait_on_page_writeback\<close>, which sleeps until no request on
  \<open>writepages\<close> covers the page. It does not look for such a request before it writes.
\<close>

definition fuse_launder_page ::
    "enc_write \<Rightarrow> wait \<Rightarrow> oom \<Rightarrow> nat \<Rightarrow> (nat \<Rightarrow> fuse_wb \<Rightarrow> fuse_wb option) \<Rightarrow> bool \<Rightarrow> ino_id \<Rightarrow> cpage \<Rightarrow> fuse_wb \<Rightarrow>
      (int \<times> fuse_wb) option" where
  "fuse_launder_page enc wait ok node settle dirty i pg wb =
     (if \<not> dirty then Some (0, wb)
      else do {
        (err, wb1) \<leftarrow> fuse_writepage_locked enc wait ok node i pg wb;
        if err \<noteq> 0 then Some (err, wb1) else map_option (Pair 0) (settle (pg_index pg) wb1)})"

subsection \<open>Many pages\<close>

record fill_data =
  fd_req :: "req_id option"
  fd_ff :: "ff_id option"
  fd_orig :: "nat list"

text \<open>\<open>fd_orig\<close> holds the indices of the pages collected so far.\<close>

definition fuse_writepages_send :: "enc_write \<Rightarrow> wait \<Rightarrow> ino_id \<Rightarrow> fill_data \<Rightarrow> fuse_wb \<Rightarrow> fuse_wb option" where
  "fuse_writepages_send enc wait i d wb = do {
     r \<leftarrow> fd_req d;
     ff \<leftarrow> fd_ff d;
     q \<leftarrow> reqs (wconn wb) r;
     s1 \<leftarrow> fuse_file_get (wconn wb) ff;
     wb1 \<leftarrow> fuse_flush_writepages enc wait i
       (winode_update i (queued_writes_update (\<lambda>qs. qs @ [r]))
         (wconn_update (\<lambda>_. upd_req r (rq_ff_update (\<lambda>_. Some ff)) s1) wb));
     Some (fold end_page_writeback (take (rq_num_pages q) (fd_orig d)) wb1)}"

text \<open>The walk along the chain of secondary requests for the last one of page \<open>idx\<close> alone.\<close>

partial_function (option) chain_find :: "fuse_state \<Rightarrow> ino_id \<Rightarrow> nat \<Rightarrow> req_id \<Rightarrow> req_id option \<Rightarrow> req_id option" where
  "chain_find s i idx old tmp =
     (case tmp of
        None \<Rightarrow> Some old
      | Some t \<Rightarrow> do {
          q \<leftarrow> reqs s t;
          (w, nx) \<leftarrow> write_of q;
          if rq_inode q \<noteq> Some i then None
          else chain_find s i idx (if rq_num_pages q = 1 \<and> first_page w = idx then t else old) nx})"

text \<open>
  \<open>fuse_writepage_in_flight\<close> for the request \<open>r\<close>, whose temporary page is already in place: the
  result says whether the page was taken over by an older request.
\<close>

definition flight_copy :: "wait \<Rightarrow> cpage \<Rightarrow> req_id \<Rightarrow> fuse_req \<Rightarrow> fuse_wb \<Rightarrow> fuse_wb option" where
  "flight_copy wait pg r oldq wb = do {
     p \<leftarrow> hd (rq_pages oldq);
     q \<leftarrow> reqs (wconn wb) r;
     wb1 \<leftarrow> fuse_writepage_free wait q (stat_done (pg_node pg) (copy_page_to p pg wb));
     s \<leftarrow> fuse_request_free (wconn wb1) r;
     Some (wconn_update (\<lambda>_. s) wb1)}"

definition flight_chain :: "req_id \<Rightarrow> req_id \<Rightarrow> fuse_req \<Rightarrow> fuse_wb \<Rightarrow> fuse_wb option" where
  "flight_chain r old oldq wb = do {
     (w, nx) \<leftarrow> write_of oldq;
     Some (wconn_update (upd_req old (set_next (Some r)) \<circ> upd_req r (set_next nx)) wb)}"

definition fuse_writepage_in_flight :: "wait \<Rightarrow> ino_id \<Rightarrow> cpage \<Rightarrow> req_id \<Rightarrow> fuse_wb \<Rightarrow> (bool \<times> fuse_wb) option" where
  "fuse_writepage_in_flight wait i pg r wb = do {
     v \<leftarrow> winode wb i;
     q \<leftarrow> reqs (wconn wb) r;
     if rq_num_pages q \<noteq> 0 then None
     else do {
       found \<leftarrow> range_scan (wconn wb) i (pg_index pg) (pg_index pg) (without r (writepages v));
       (case found of
          None \<Rightarrow> Some (False, winode_update i (\<lambda>v. v\<lparr>writepages := r # without r (writepages v)\<rparr>) wb)
        | Some old0 \<Rightarrow> do {
            let wb1 = wconn_update (upd_req r (rq_num_pages_update (\<lambda>_. 1)))
                        (winode_update i (writepages_update (without r)) wb);
            old \<leftarrow> chain_find (wconn wb1) i (pg_index pg) old0 (Some old0);
            oldq \<leftarrow> reqs (wconn wb1) old;
            wb2 \<leftarrow> (if rq_num_pages oldq = 1 \<and> FR_PENDING \<in> rq_flags oldq
                   then flight_copy wait pg r oldq wb1 else flight_chain r old oldq wb1);
            Some (True, wb2)})}}"

text \<open>
  \<open>fuse_writepages_fill\<close> in two halves: \<open>fill_begin\<close> up to the copy into the temporary page, with the
  answer whether the page was under writeback; \<open>fill_end\<close> from the decision taken on that answer on. In
  between the other threads run. Both leave the page locked; \<open>unlock_page\<close> follows on every path.
\<close>

definition fill_must_send :: "fuse_state \<Rightarrow> fuse_req \<Rightarrow> bool \<Rightarrow> nat list \<Rightarrow> nat \<Rightarrow> bool" where
  "fill_must_send s q is_writeback orig idx \<longleftrightarrow> rq_num_pages q \<noteq> 0 \<and>
     (is_writeback \<or> rq_num_pages q = FUSE_MAX_PAGES_PER_REQ \<or>
      unat (max_write s) < (rq_num_pages q + 1) * PAGE_SIZE \<or>
      orig ! (rq_num_pages q - 1) + 1 \<noteq> idx)"

definition fill_send :: "enc_write \<Rightarrow> wait \<Rightarrow> ino_id \<Rightarrow> bool \<Rightarrow> nat \<Rightarrow> fill_data \<Rightarrow> fuse_wb \<Rightarrow> (fill_data \<times> fuse_wb) option" where
  "fill_send enc wait i is_writeback idx d wb =
     (case fd_req d of
        None \<Rightarrow> Some (d, wb)
      | Some r \<Rightarrow> do {
          q \<leftarrow> reqs (wconn wb) r;
          if fill_must_send (wconn wb) q is_writeback (fd_orig d) idx
          then do {
            wb1 \<leftarrow> fuse_writepages_send enc wait i d wb;
            Some (d\<lparr>fd_req := None\<rparr>, wb1)}
          else Some (d, wb)})"

text \<open>The request a page goes to, a fresh one if there is none: \<open>None\<close> without memory.\<close>

definition fill_request ::
    "enc_write \<Rightarrow> oom \<Rightarrow> ino_id \<Rightarrow> nat \<Rightarrow> fill_data \<Rightarrow> fuse_wb \<Rightarrow> (req_id option \<times> fill_data \<times> fuse_wb) option" where
  "fill_request enc ok i idx d wb =
     (case fd_req d of
        Some r \<Rightarrow> Some (Some r, d, wb)
      | None \<Rightarrow> (case fuse_request_alloc ok FUSE_MAX_PAGES_PER_REQ (wconn wb) of
          (None, s1) \<Rightarrow> Some (None, d, wconn_update (\<lambda>_. s1) wb)
        | (Some r, s1) \<Rightarrow> do {
            ff \<leftarrow> fd_ff d;
            f \<leftarrow> ffs s1 ff;
            Some (Some r, d\<lparr>fd_req := Some r\<rparr>,
              winode_update i (writepages_update ((#) r))
                (wconn_update (\<lambda>_. upd_req r (cache_write enc s1 f i idx) s1) wb))}))"

definition fill_begin ::
    "enc_write \<Rightarrow> wait \<Rightarrow> oom \<Rightarrow> nat \<Rightarrow> ino_id \<Rightarrow> cpage \<Rightarrow> fill_data \<Rightarrow> fuse_wb \<Rightarrow>
      (int \<times> bool \<times> fill_data \<times> fuse_wb) option" where
  "fill_begin enc wait ok node i pg d wb = do {
     (ffo, wb1) \<leftarrow> (if fd_ff d = None then fuse_write_file_get i wb else Some (fd_ff d, wb));
     if ffo = None then Some (- EIO, False, d, wb1)
     else do {
       let d1 = d\<lparr>fd_ff := ffo\<rparr>;
       is_writeback \<leftarrow> fuse_page_is_writeback i (pg_index pg) wb1;
       (d2, wb2) \<leftarrow> fill_send enc wait i is_writeback (pg_index pg) d1 wb1;
       (case alloc_frame (ok 0) node wb2 of
          (None, wb3) \<Rightarrow> Some (- ENOMEM, is_writeback, d2, wb3)
        | (Some p, wb3) \<Rightarrow> do {
            (ro, d3, wb4) \<leftarrow> fill_request enc (\<lambda>n. ok (Suc n)) i (pg_index pg) d2 wb3;
            (case ro of
               None \<Rightarrow> Some (- ENOMEM, is_writeback, d3, wb4\<lparr>frames := (frames wb4)(p := None)\<rparr>)
             | Some r \<Rightarrow> do {
                 q \<leftarrow> reqs (wconn wb4) r;
                 Some (0, is_writeback, d3, stat_start node (copy_page_to p pg (set_page_writeback (pg_index pg)
                   (wconn_update (upd_req r (put_page_in (rq_num_pages q) p)) wb4))))})})}}"

definition fill_end :: "wait \<Rightarrow> ino_id \<Rightarrow> cpage \<Rightarrow> bool \<Rightarrow> fill_data \<Rightarrow> fuse_wb \<Rightarrow> (fill_data \<times> fuse_wb) option" where
  "fill_end wait i pg is_writeback d wb = do {
     r \<leftarrow> fd_req d;
     (taken, wb1) \<leftarrow> (if is_writeback then fuse_writepage_in_flight wait i pg r wb else Some (False, wb));
     if taken then Some (d\<lparr>fd_req := None\<rparr>, end_page_writeback (pg_index pg) wb1)
     else do {
       q \<leftarrow> reqs (wconn wb1) r;
       Some (d\<lparr>fd_orig := take (rq_num_pages q) (fd_orig d) @ [pg_index pg]\<rparr>,
             wconn_update (upd_req r (rq_num_pages_update Suc)) wb1)}}"

definition fuse_writepages_fill ::
    "enc_write \<Rightarrow> wait \<Rightarrow> oom \<Rightarrow> nat \<Rightarrow> (fuse_wb \<Rightarrow> fuse_wb) \<Rightarrow> ino_id \<Rightarrow> cpage \<Rightarrow> fill_data \<Rightarrow> fuse_wb \<Rightarrow>
      (int \<times> fill_data \<times> fuse_wb) option" where
  "fuse_writepages_fill enc wait ok node env i pg d wb = do {
     (err, is_writeback, d1, wb1) \<leftarrow> fill_begin enc wait ok node i pg d wb;
     (if err \<noteq> 0 then Some (err, d1, unlock_page (pg_index pg) wb1)
      else do {
        (d2, wb2) \<leftarrow> fill_end wait i pg is_writeback d1 (env wb1);
        Some (0, d2, unlock_page (pg_index pg) wb2)})}"

text \<open>
  \<open>fuse_writepages\<close>: \<open>walk\<close> is \<open>write_cache_pages\<close> with \<open>fuse_writepages_fill\<close> as its callback, run on
  the dirty pages of the mapping; \<open>ok\<close> is the allocation of the array of pages. After the walk the
  last request is sent, then the file is put.
\<close>

definition writepages_last :: "enc_write \<Rightarrow> wait \<Rightarrow> ino_id \<Rightarrow> int \<Rightarrow> fill_data \<Rightarrow> fuse_wb \<Rightarrow> (int \<times> fuse_wb) option" where
  "writepages_last enc wait i err d wb =
     (case fd_req d of
        None \<Rightarrow> Some (err, wb)
      | Some r \<Rightarrow> do {
          q \<leftarrow> reqs (wconn wb) r;
          (if rq_num_pages q = 0 then None
           else map_option (\<lambda>w. (0, w)) (fuse_writepages_send enc wait i d wb))})"

definition writepages_put :: "wait \<Rightarrow> fill_data \<Rightarrow> fuse_wb \<Rightarrow> fuse_wb option" where
  "writepages_put wait d wb =
     (case fd_ff d of
        None \<Rightarrow> Some wb
      | Some ff \<Rightarrow> map_option (\<lambda>sb. wb\<lparr>wb_sb := sb\<rparr>) (fuse_file_put wait ff False (wb_sb wb)))"

definition fuse_writepages ::
    "enc_write \<Rightarrow> wait \<Rightarrow> bool \<Rightarrow> (fill_data \<Rightarrow> fuse_wb \<Rightarrow> (int \<times> fill_data \<times> fuse_wb) option) \<Rightarrow>
      ino_id \<Rightarrow> fuse_wb \<Rightarrow> (int \<times> fuse_wb) option" where
  "fuse_writepages enc wait ok walk i wb = do {
     v \<leftarrow> winode wb i;
     (if i_ops v = Ops_bad then Some (- EIO, wb)
      else if \<not> ok then Some (- ENOMEM, wb)
      else do {
        (err, d, wb1) \<leftarrow> walk \<lparr>fd_req = None, fd_ff = None, fd_orig = []\<rparr> wb;
        (err2, wb2) \<leftarrow> writepages_last enc wait i err d wb1;
        map_option (\<lambda>wb3. (err2, wb3)) (writepages_put wait d wb2)})}"

end
