(* ===== verification/Writeback_Spec.thy ===== *)
theory Writeback_Spec
  imports Fuse_Types
begin

text \<open>
  The specification of writeback for one inode: requests as ranges of pages with their chain of
  secondary requests, the list of requests under way, the queue, those still being filled, and the
  write counter. The invariant says that requests under way cover disjoint ranges, that a chain holds
  one single-page request per page, within the range of its primary one, and that the counter is the
  number of requests sent, plus the bias when writes are held back. While a request \<open>e\<close> is being ended
  its secondary ones take its place one by one; \<open>pinv D E\<close> allows for that with \<open>E = Some e\<close>. The flag \<open>D\<close> asks
  that requests never share a page; without it they may, and what the invariant says of chains, of the
  queue and of the counter holds all the same.
\<close>

record preq =
  p_first :: nat
  p_num :: nat
  p_next :: "req_id option"
  p_pending :: bool

record pstate =
  pW :: "req_id set"
  pQ :: "req_id list"
  pA :: "req_id set"
  pctr :: int
  preqs :: "req_id \<rightharpoonup> preq"

primrec chain :: "(req_id \<rightharpoonup> preq) \<Rightarrow> req_id option \<Rightarrow> req_id list \<Rightarrow> bool" where
  "chain P t [] \<longleftrightarrow> t = None"
| "chain P t (c # cs) \<longleftrightarrow> t = Some c \<and> (\<exists>p. P c = Some p \<and> chain P (p_next p) cs)"

lemma chain_cong:
  assumes "\<And>c. c \<in> set cs \<Longrightarrow> P' c = P c"
  shows "chain P' t cs \<longleftrightarrow> chain P t cs"
  using assms by (induction cs arbitrary: t) auto

lemma chain_unique: "chain P t cs \<Longrightarrow> chain P t ds \<Longrightarrow> cs = ds"
  by (induction cs arbitrary: t ds) (case_tac ds; auto)+

lemma chain_None [simp]: "chain P None cs \<longleftrightarrow> cs = []"
  by (cases cs) auto

lemma chain_dom: "chain P t cs \<Longrightarrow> set cs \<subseteq> dom P"
  by (induction cs arbitrary: t) auto

definition pages :: "preq \<Rightarrow> nat set" where
  "pages p = {p_first p ..< p_first p + p_num p}"

text \<open>A chain of secondary requests of a primary one that covers the pages \<open>R\<close>.\<close>

definition secondaries :: "(req_id \<rightharpoonup> preq) \<Rightarrow> req_id set \<Rightarrow> nat set \<Rightarrow> req_id list \<Rightarrow> bool" where
  "secondaries P W R cs \<longleftrightarrow> set cs \<inter> W = {} \<and> distinct cs \<and>
     (\<forall>c\<in>set cs. \<exists>p. P c = Some p \<and> p_num p = 1 \<and> p_pending p \<and> p_first p \<in> R) \<and>
     distinct (map (\<lambda>c. p_first (the (P c))) cs)"

definition primary_ok :: "pstate \<Rightarrow> req_id \<Rightarrow> bool" where
  "primary_ok s r \<longleftrightarrow> (\<exists>p cs. preqs s r = Some p \<and> chain (preqs s) (p_next p) cs \<and>
     secondaries (preqs s) (pW s) (pages p) cs)"

text \<open>The requests the specification keeps track of: a primary one with its chain.\<close>

definition owned :: "pstate \<Rightarrow> req_id \<Rightarrow> req_id set" where
  "owned s r = insert r {c. \<exists>p cs. preqs s r = Some p \<and> chain (preqs s) (p_next p) cs \<and> c \<in> set cs}"

definition apart :: "pstate \<Rightarrow> req_id \<Rightarrow> req_id \<Rightarrow> bool" where
  "apart s x y \<longleftrightarrow> (\<forall>p q. preqs s x = Some p \<longrightarrow> preqs s y = Some q \<longrightarrow> pages p \<inter> pages q = {})"

text \<open>A secondary request of \<open>e\<close> that took its place on the list while \<open>e\<close> ends.\<close>

definition promoted :: "pstate \<Rightarrow> req_id \<Rightarrow> req_id \<Rightarrow> bool" where
  "promoted s e x \<longleftrightarrow> (\<exists>p q cs. preqs s x = Some p \<and> p_num p = 1 \<and> p_next p = None \<and>
     preqs s e = Some q \<and> chain (preqs s) (p_next q) cs \<and> p_first p \<in> pages q \<and>
     (\<forall>c\<in>set cs. p_first (the (preqs s c)) \<noteq> p_first p))"

definition sent :: "pstate \<Rightarrow> req_id set" where
  "sent s = pW s - set (pQ s) - pA s"

definition pinv :: "bool \<Rightarrow> req_id option \<Rightarrow> bool \<Rightarrow> pstate \<Rightarrow> bool" where
  "pinv D E held s \<longleftrightarrow> finite (pW s) \<and> distinct (pQ s) \<and> set (pQ s) \<subseteq> pW s \<and> pA s \<subseteq> pW s \<and>
     set (pQ s) \<inter> pA s = {} \<and> set_option E \<subseteq> sent s \<and>
     pctr s = int (card (sent s)) + (if held then FUSE_NOWRITE else 0) \<and>
     (\<forall>r\<in>pA s. \<forall>p. preqs s r = Some p \<longrightarrow> p_pending p) \<and>
     (\<forall>r\<in>pW s. primary_ok s r) \<and>
     (\<forall>x\<in>pW s. \<forall>y\<in>pW s. x \<noteq> y \<longrightarrow> owned s x \<inter> owned s y = {}) \<and>
     (D \<longrightarrow> (\<forall>x\<in>pW s - set_option E. \<forall>y\<in>pW s - set_option E. x \<noteq> y \<longrightarrow> apart s x y) \<and>
       (\<forall>e\<in>set_option E. \<forall>x\<in>pW s - {e}. apart s e x \<or> promoted s e x))"

definition live :: "pstate \<Rightarrow> req_id set" where
  "live s = (\<Union>r\<in>pW s. owned s r)"

subsection \<open>Steps\<close>

text \<open>
  The steps, by what the code does: a fresh request enters the list, is given a page, is queued, is
  sent or dropped from the queue, is chained to a primary one or given up for it; and requests that
  are not tracked, and the mark that a primary request was not read by the server yet, change at any
  time. \<open>B\<close> are the requests being filled that belong to other threads, which a step leaves alone, and
  \<open>K\<close> the pages that a step may add to a request.
\<close>

inductive pstep :: "bool \<Rightarrow> req_id set \<Rightarrow> nat set \<Rightarrow> pstate \<Rightarrow> pstate \<Rightarrow> bool" for D B K where
  Fresh: "r \<notin> pW s \<Longrightarrow> r \<notin> live s \<Longrightarrow>
    pstep D B K s (s\<lparr>pW := insert r (pW s), pA := insert r (pA s),
       preqs := (preqs s)(r \<mapsto> \<lparr>p_first = idx, p_num = 0, p_next = None, p_pending = True\<rparr>)\<rparr>)"
| Page: "r \<in> pA s \<Longrightarrow> r \<notin> B \<Longrightarrow> idx \<in> K \<Longrightarrow> preqs s r = Some p \<Longrightarrow> idx = p_first p + p_num p \<Longrightarrow>
    (\<And>x q. D \<Longrightarrow> x \<in> pW s \<Longrightarrow> preqs s x = Some q \<Longrightarrow> idx \<notin> pages q) \<Longrightarrow>
    pstep D B K s (s\<lparr>preqs := (preqs s)(r \<mapsto> p\<lparr>p_num := Suc (p_num p)\<rparr>)\<rparr>)"
| Enqueue: "r \<in> pA s \<Longrightarrow> r \<notin> B \<Longrightarrow> pstep D B K s (s\<lparr>pA := pA s - {r}, pQ := pQ s @ [r]\<rparr>)"
| Send: "0 \<le> pctr s \<Longrightarrow> pQ s = r # rest \<Longrightarrow> pstep D B K s (s\<lparr>pQ := rest, pctr := pctr s + 1\<rparr>)"
| Drop: "pQ s = r # rest \<Longrightarrow> pstep D B K s (s\<lparr>pQ := rest, pW := pW s - {r}\<rparr>)"
| Give_up: "r \<in> pA s \<Longrightarrow> r \<notin> B \<Longrightarrow> pstep D B K s (s\<lparr>pW := pW s - {r}, pA := pA s - {r}\<rparr>)"
| Chain: "r \<in> pA s \<Longrightarrow> r \<notin> B \<Longrightarrow> preqs s r = Some p \<Longrightarrow> p_num p = 0 \<Longrightarrow>
    x \<in> pW s \<Longrightarrow> x \<noteq> r \<Longrightarrow> preqs s x = Some q \<Longrightarrow> p_first p \<in> pages q \<Longrightarrow> chain (preqs s) (p_next q) cs \<Longrightarrow>
    (\<And>c. c \<in> set cs \<Longrightarrow> p_first (the (preqs s c)) \<noteq> p_first p) \<Longrightarrow>
    pstep D B K s (s\<lparr>pW := pW s - {r}, pA := pA s - {r},
      preqs := (preqs s)(r \<mapsto> p\<lparr>p_num := 1, p_next := p_next q\<rparr>, x \<mapsto> q\<lparr>p_next := Some r\<rparr>)\<rparr>)"
| Untracked: "(\<And>x. x \<in> live s \<Longrightarrow> P x = preqs s x) \<Longrightarrow> pstep D B K s (s\<lparr>preqs := P\<rparr>)"
| Read: "x \<in> sent s \<Longrightarrow> preqs s x = Some p \<Longrightarrow> pstep D B K s (s\<lparr>preqs := (preqs s)(x \<mapsto> p\<lparr>p_pending := False\<rparr>)\<rparr>)"

text \<open>The steps by which a request \<open>e\<close> ends.\<close>

inductive pend :: "req_id \<Rightarrow> pstate \<Rightarrow> pstate \<Rightarrow> bool" for e where
  Promote: "preqs s e = Some q \<Longrightarrow> p_next q = Some n \<Longrightarrow> preqs s n = Some p \<Longrightarrow>
    pend e s (s\<lparr>pW := insert n (pW s), pctr := pctr s + 1,
      preqs := (preqs s)(n \<mapsto> p\<lparr>p_next := None\<rparr>, e \<mapsto> q\<lparr>p_next := p_next p\<rparr>)\<rparr>)"
| Skip: "preqs s e = Some q \<Longrightarrow> p_next q = Some n \<Longrightarrow> preqs s n = Some p \<Longrightarrow>
    pend e s (s\<lparr>preqs := (preqs s)(e \<mapsto> q\<lparr>p_next := p_next p\<rparr>)\<rparr>)"
| Other: "(\<And>x. x \<in> live s \<Longrightarrow> P x = preqs s x) \<Longrightarrow> pend e s (s\<lparr>preqs := P\<rparr>)"


subsection \<open>Chains\<close>

lemma owned_eq: "preqs s r = Some p \<Longrightarrow> chain (preqs s) (p_next p) cs \<Longrightarrow> owned s r = insert r (set cs)"
proof -
  assume r: "preqs s r = Some p" and ch: "chain (preqs s) (p_next p) cs"
  have "c \<in> set cs" if "preqs s r = Some p'" and "chain (preqs s) (p_next p') ds" and "c \<in> set ds" for p' ds c
    using that r chain_unique [OF ch, of ds] by simp
  then have "{c. \<exists>p' ds. preqs s r = Some p' \<and> chain (preqs s) (p_next p') ds \<and> c \<in> set ds} = set cs"
    using r ch by blast
  then show "owned s r = insert r (set cs)" unfolding owned_def by (rule arg_cong)
qed

lemma primary_okE:
  assumes "primary_ok s r"
  obtains p cs where "preqs s r = Some p" and "chain (preqs s) (p_next p) cs"
    and "secondaries (preqs s) (pW s) (pages p) cs" and "owned s r = insert r (set cs)"
proof -
  from assms obtain p cs where "preqs s r = Some p" "chain (preqs s) (p_next p) cs"
      "secondaries (preqs s) (pW s) (pages p) cs"
    by (auto simp: primary_ok_def)
  then show ?thesis using that owned_eq by blast
qed

lemma primary_secondaries:
  assumes ok: "primary_ok s x" and q: "preqs s x = Some q" and ch: "chain (preqs s) (p_next q) cs"
  shows "secondaries (preqs s) (pW s) (pages q) cs"
proof -
  obtain p ds where p: "preqs s x = Some p" and ds: "chain (preqs s) (p_next p) ds"
      and sec: "secondaries (preqs s) (pW s) (pages p) ds"
    using ok by (rule primary_okE)
  have pq: "p = q" using p q by simp
  have "ds = cs" using ds ch unfolding pq by (rule chain_unique)
  with sec show ?thesis unfolding pq by simp
qed

lemma promoted_alone: "promoted s e x \<Longrightarrow> preqs s x = Some p \<Longrightarrow> chain (preqs s) (p_next p) cs \<Longrightarrow> cs = []"
  by (auto simp: promoted_def)

lemma owned_live: "r \<in> pW s \<Longrightarrow> c \<in> owned s r \<Longrightarrow> c \<in> live s"
  by (auto simp: live_def)

lemma pW_live: "r \<in> pW s \<Longrightarrow> r \<in> live s"
  by (auto simp: live_def owned_def)

lemma secondaries_cong:
  assumes "\<And>c. c \<in> set cs \<Longrightarrow> P' c = P c"
  shows "secondaries P' W R cs \<longleftrightarrow> secondaries P W R cs"
proof -
  have eq: "map (\<lambda>c. p_first (the (P' c))) cs = map (\<lambda>c. p_first (the (P c))) cs" using assms by simp
  show ?thesis unfolding secondaries_def eq using assms by simp
qed

text \<open>A primary request whose own requests stay as they are.\<close>

lemma primary_ok_keep:
  assumes ok: "primary_ok s r" and same: "\<And>x. x \<in> owned s r \<Longrightarrow> preqs t x = preqs s x"
    and new: "owned s r \<inter> pW t \<subseteq> {r}" and old: "r \<in> pW s"
  shows "primary_ok t r" and "owned t r = owned s r"
proof -
  from ok obtain p cs where r: "preqs s r = Some p" "chain (preqs s) (p_next p) cs"
      "secondaries (preqs s) (pW s) (pages p) cs" and o: "owned s r = insert r (set cs)"
    by (rule primary_okE)
  have ch: "chain (preqs t) (p_next p) cs" using r(2) same o by (subst chain_cong [of cs "preqs t" "preqs s"]) auto
  have "secondaries (preqs t) (pW s) (pages p) cs"
    using r(3) same o by (subst secondaries_cong [of cs "preqs t" "preqs s"]) auto
  moreover have "set cs \<inter> pW t = {}" using new r(3) old o by (auto simp: secondaries_def)
  ultimately have "secondaries (preqs t) (pW t) (pages p) cs" by (simp add: secondaries_def)
  moreover have "preqs t r = Some p" using same r(1) o by simp
  ultimately show ok': "primary_ok t r" using ch by (auto simp: primary_ok_def)
  show "owned t r = owned s r" using owned_eq [OF \<open>preqs t r = Some p\<close> ch] o by simp
qed

lemma primary_keep:
  "primary_ok s r \<Longrightarrow> (\<And>x. x \<in> owned s r \<Longrightarrow> preqs t x = preqs s x) \<Longrightarrow> owned s r \<inter> pW t \<subseteq> {r} \<Longrightarrow> r \<in> pW s \<Longrightarrow>
   primary_ok t r \<and> owned t r = owned s r"
  using primary_ok_keep by blast

lemma apart_sym: "apart s x y \<Longrightarrow> apart s y x"
  by (auto simp: apart_def)

lemma apart_keep: "apart s x y \<Longrightarrow> preqs t x = preqs s x \<Longrightarrow> preqs t y = preqs s y \<Longrightarrow> apart t x y"
  by (simp add: apart_def)

text \<open>Two primary requests share no request.\<close>

lemma owned_disjoint:
  "pinv D E held s \<Longrightarrow> x \<in> pW s \<Longrightarrow> y \<in> pW s \<Longrightarrow> x \<noteq> y \<Longrightarrow> owned s x \<inter> owned s y = {}"
  by (simp add: pinv_def)

lemma not_owned:
  assumes "pinv D E held s" and "x \<in> pW s" and "y \<in> pW s" and "x \<noteq> y"
  shows "x \<notin> owned s y"
proof -
  have "x \<in> owned s x" unfolding owned_def by (rule insertI1)
  then show ?thesis using owned_disjoint [OF assms] by blast
qed

subsection \<open>The steps keep the invariant\<close>

lemma pinvD:
  assumes "pinv D E held s"
  shows "finite (pW s)" and "distinct (pQ s)" and "set (pQ s) \<subseteq> pW s" and "pA s \<subseteq> pW s"
    and "set (pQ s) \<inter> pA s = {}" and "set_option E \<subseteq> sent s"
    and "pctr s = int (card (sent s)) + (if held then FUSE_NOWRITE else 0)"
    and "\<And>r p. r \<in> pA s \<Longrightarrow> preqs s r = Some p \<Longrightarrow> p_pending p"
    and "\<And>r. r \<in> pW s \<Longrightarrow> primary_ok s r"
    and "\<And>x y. D \<Longrightarrow> x \<in> pW s \<Longrightarrow> y \<in> pW s \<Longrightarrow> E \<noteq> Some x \<Longrightarrow> E \<noteq> Some y \<Longrightarrow> x \<noteq> y \<Longrightarrow> apart s x y"
    and "\<And>e x. D \<Longrightarrow> E = Some e \<Longrightarrow> x \<in> pW s \<Longrightarrow> x \<noteq> e \<Longrightarrow> apart s e x \<or> promoted s e x"
  using assms by (auto simp: pinv_def)

text \<open>Ownership that does not grow stays disjoint.\<close>

lemma owned_apart:
  assumes "pinv D E held s" and "\<And>x. x \<in> W \<Longrightarrow> x \<in> pW s \<and> owned t x \<subseteq> owned s x" and "x \<in> W" and "y \<in> W" and "x \<noteq> y"
  shows "owned t x \<inter> owned t y = {}"
  using owned_disjoint [OF assms(1), of x y] assms(2) [OF assms(3)] assms(2) [OF assms(4)] assms(5) by blast

text \<open>Removing primary requests.\<close>

lemma pinv_shrink:
  assumes inv: "pinv D None held s" and same: "preqs t = preqs s" and W: "pW t \<subseteq> pW s"
    and Q: "distinct (pQ t)" "set (pQ t) \<subseteq> pW t" and A: "pA t \<subseteq> pA s \<inter> pW t" "set (pQ t) \<inter> pA t = {}"
    and ctr: "pctr t = int (card (sent t)) + (if held then FUSE_NOWRITE else 0)"
  shows "pinv D None held t"
proof -
  note I = pinvD [OF inv]
  have "primary_ok t r" if "r \<in> pW t" for r
  proof (rule primary_ok_keep(1))
    show "primary_ok s r" using I(9) that W by blast
    then show "owned s r \<inter> pW t \<subseteq> {r}" using W by (elim primary_okE) (auto simp: secondaries_def)
  qed (use that W same in auto)
  moreover have "owned t x = owned s x" for x by (simp add: owned_def same)
  then have "owned t x \<inter> owned t y = {}" if "x \<in> pW t" "y \<in> pW t" "x \<noteq> y" for x y
    using owned_disjoint [OF inv] W that by blast
  moreover have "apart t x y" if D "x \<in> pW t" "y \<in> pW t" "x \<noteq> y" for x y
    using I(10) [of x y] that W same by (auto simp: apart_def)
  moreover have "p_pending p" if "r \<in> pA t" "preqs t r = Some p" for r p using I(8) that A same by auto
  moreover have "finite (pW t)" using I(1) W by (rule rev_finite_subset)
  ultimately show ?thesis using Q A ctr by (auto simp: pinv_def)
qed

lemma sent_card_remove: "finite (pW s) \<Longrightarrow> r \<in> sent s \<Longrightarrow> card (sent s) = Suc (card (sent s - {r}))"
  by (rule card.remove) (simp_all add: sent_def)

lemma pinv_enqueue:
  assumes inv: "pinv D None held s" and r: "r \<in> pA s"
  shows "pinv D None held (s\<lparr>pA := pA s - {r}, pQ := pQ s @ [r]\<rparr>)"
proof (rule pinv_shrink [OF inv])
  note I = pinvD [OF inv]
  have "sent (s\<lparr>pA := pA s - {r}, pQ := pQ s @ [r]\<rparr>) = sent s" using r I(5) by (auto simp: sent_def)
  then show "pctr (s\<lparr>pA := pA s - {r}, pQ := pQ s @ [r]\<rparr>) =
      int (card (sent (s\<lparr>pA := pA s - {r}, pQ := pQ s @ [r]\<rparr>))) + (if held then FUSE_NOWRITE else 0)"
    using I(7) by simp
qed (use pinvD [OF inv] r in auto)

lemma pinv_send:
  assumes inv: "pinv D None held s" and q: "pQ s = r # rest"
  shows "pinv D None held (s\<lparr>pQ := rest, pctr := pctr s + 1\<rparr>)"
proof (rule pinv_shrink [OF inv])
  note I = pinvD [OF inv]
  have "sent (s\<lparr>pQ := rest, pctr := pctr s + 1\<rparr>) = insert r (sent s)" using q I(2,3,5) by (auto simp: sent_def)
  moreover have "r \<notin> sent s" "finite (sent s)" using q I(1) by (simp_all add: sent_def)
  ultimately show "pctr (s\<lparr>pQ := rest, pctr := pctr s + 1\<rparr>) =
      int (card (sent (s\<lparr>pQ := rest, pctr := pctr s + 1\<rparr>))) + (if held then FUSE_NOWRITE else 0)"
    using I(7) by simp
qed (use pinvD [OF inv] q in auto)

lemma pinv_drop:
  assumes inv: "pinv D None held s" and q: "pQ s = r # rest"
  shows "pinv D None held (s\<lparr>pQ := rest, pW := pW s - {r}\<rparr>)"
proof (rule pinv_shrink [OF inv])
  note I = pinvD [OF inv]
  have "sent (s\<lparr>pQ := rest, pW := pW s - {r}\<rparr>) = sent s" using q by (auto simp: sent_def)
  then show "pctr (s\<lparr>pQ := rest, pW := pW s - {r}\<rparr>) =
      int (card (sent (s\<lparr>pQ := rest, pW := pW s - {r}\<rparr>))) + (if held then FUSE_NOWRITE else 0)"
    using I(7) by simp
qed (use pinvD [OF inv] q in auto)

lemma pinv_give_up:
  assumes inv: "pinv D None held s" and r: "r \<in> pA s"
  shows "pinv D None held (s\<lparr>pW := pW s - {r}, pA := pA s - {r}\<rparr>)"
proof (rule pinv_shrink [OF inv])
  note I = pinvD [OF inv]
  have "sent (s\<lparr>pW := pW s - {r}, pA := pA s - {r}\<rparr>) = sent s" using r by (auto simp: sent_def)
  then show "pctr (s\<lparr>pW := pW s - {r}, pA := pA s - {r}\<rparr>) =
      int (card (sent (s\<lparr>pW := pW s - {r}, pA := pA s - {r}\<rparr>))) + (if held then FUSE_NOWRITE else 0)"
    using I(7) by simp
qed (use pinvD [OF inv] r in auto)

text \<open>Changing requests that are not tracked, on any list.\<close>

lemma pinv_untracked:
  assumes inv: "pinv D E held s" and P: "\<And>x. x \<in> live s \<Longrightarrow> P x = preqs s x"
  shows "pinv D E held (s\<lparr>preqs := P\<rparr>)"
proof -
  let ?t = "s\<lparr>preqs := P\<rparr>"
  note I = pinvD [OF inv]
  have W: "preqs ?t x = preqs s x" if "x \<in> pW s" for x using P [OF pW_live [OF that]] by simp
  have keep: "primary_ok ?t r \<and> owned ?t r = owned s r" if "r \<in> pW s" for r
  proof (rule primary_keep)
    show "primary_ok s r" using I(9) [OF that] .
    then show "owned s r \<inter> pW ?t \<subseteq> {r}" by (elim primary_okE) (auto simp: secondaries_def)
  qed (use that P owned_live in auto)
  then have ok: "primary_ok ?t r" and own: "owned ?t r = owned s r" if "r \<in> pW s" for r using that by blast+
  have dis: "owned ?t x \<inter> owned ?t y = {}" if "x \<in> pW s" "y \<in> pW s" "x \<noteq> y" for x y
    by (rule owned_apart [OF inv, of "pW s"]) (use own that in auto)
  have ap: "apart ?t x y \<longleftrightarrow> apart s x y" if "x \<in> pW s" "y \<in> pW s" for x y
    using W that by (simp add: apart_def)
  have pr: "promoted ?t e x" if pr: "promoted s e x" and x: "x \<in> pW s" and e: "e \<in> pW s" for e x
  proof -
    from pr obtain p q cs where 1: "preqs s x = Some p" "p_num p = 1" "p_next p = None" "preqs s e = Some q"
        "chain (preqs s) (p_next q) cs" "p_first p \<in> pages q" "\<forall>c\<in>set cs. p_first (the (preqs s c)) \<noteq> p_first p"
      by (auto simp: promoted_def)
    have same: "P c = preqs s c" if "c \<in> set cs" for c
      using P owned_live [OF e] owned_eq [OF 1(4,5)] that by simp
    then have "chain P (p_next q) cs" using 1(5) chain_cong [of cs P "preqs s"] by simp
    then show ?thesis using 1 same W [OF x] W [OF e] unfolding promoted_def by (intro exI [of _ p] exI [of _ q] exI [of _ cs]) simp
  qed
  have E: "e \<in> pW s" if "E = Some e" for e using I(6) that by (auto simp: sent_def)
  have ex: "apart ?t e x \<or> promoted ?t e x" if D and "E = Some e" and "x \<in> pW s" and "x \<noteq> e" for e x
    using I(11) [OF that] ap [OF E [OF that(2)] that(3)] pr [OF _ that(3) E [OF that(2)]] by blast
  have pend: "p_pending p" if "r \<in> pA s" "preqs ?t r = Some p" for r p using I(4,8) W that by auto
  have "sent ?t = sent s" by (simp add: sent_def)
  then show ?thesis using I(1-7,10) ok ap ex pend dis unfolding pinv_def by (simp add: subset_iff)
qed

lemma pinv_fresh:
  assumes inv: "pinv D None held s" and new: "r \<notin> live s"
  shows "pinv D None held (s\<lparr>pW := insert r (pW s), pA := insert r (pA s),
     preqs := (preqs s)(r \<mapsto> \<lparr>p_first = idx, p_num = 0, p_next = None, p_pending = True\<rparr>)\<rparr>)"
    (is "pinv D None held ?t")
proof -
  note I = pinvD [OF inv]
  have rW: "r \<notin> pW s" using new pW_live by blast
  have keep: "primary_ok ?t x \<and> owned ?t x = owned s x" if x: "x \<in> pW s" for x
  proof (rule primary_keep)
    have no: "r \<notin> owned s x" using new owned_live [OF x] by blast
    show "primary_ok s x" using I(9) [OF x] .
    then have "owned s x \<inter> pW s \<subseteq> {x}" by (elim primary_okE) (auto simp: secondaries_def)
    then show "owned s x \<inter> pW ?t \<subseteq> {x}" using no by auto
    show "preqs ?t y = preqs s y" if "y \<in> owned s x" for y using that no by auto
  qed (rule x)
  then have ok: "primary_ok ?t x" and own: "owned ?t x = owned s x" if "x \<in> pW s" for x using that by blast+
  moreover have "primary_ok ?t r" by (simp add: primary_ok_def secondaries_def)
  moreover have "owned ?t x \<inter> owned ?t y = {}" if "x \<in> pW ?t" "y \<in> pW ?t" "x \<noteq> y" for x y
  proof -
    have r: "owned ?t r = {r}" using owned_eq [of ?t r _ "[]"] by simp
    have no: "r \<notin> owned s z" if "z \<in> pW s" for z using new owned_live [OF that] by blast
    show ?thesis using that own r no owned_disjoint [OF inv, of x y] by (cases "x = r"; cases "y = r") (auto simp del: fun_upd_apply)
  qed
  moreover have "apart ?t x y" if D "x \<in> pW ?t" "y \<in> pW ?t" "x \<noteq> y" for x y
    using that I(10) [of x y] by (auto simp: apart_def pages_def)
  moreover have "sent ?t = sent s" using rW by (auto simp: sent_def)
  ultimately show ?thesis using I(1-8) rW by (auto simp: pinv_def)
qed

text \<open>One primary request changes; the others and the lists stay.\<close>

lemma pinv_change:
  assumes inv: "pinv D None held s" and r: "r \<in> pW s" and p: "preqs s r = Some p"
    and t: "t = s\<lparr>preqs := (preqs s)(r \<mapsto> p')\<rparr>" and nx: "p_next p' = p_next p"
    and grow: "pages p \<subseteq> pages p'"
    and far: "\<And>x q. D \<Longrightarrow> x \<in> pW s \<Longrightarrow> x \<noteq> r \<Longrightarrow> preqs s x = Some q \<Longrightarrow> pages q \<inter> pages p' = {}"
    and pend: "r \<in> pA s \<Longrightarrow> p_pending p'"
  shows "pinv D None held t"
proof -
  note I = pinvD [OF inv]
  have keep: "primary_ok t x \<and> owned t x = owned s x" if x: "x \<in> pW s" and xr: "x \<noteq> r" for x
  proof (rule primary_keep)
    have no: "r \<notin> owned s x" using not_owned [OF inv r x xr [symmetric]] .
    show "primary_ok s x" using I(9) [OF x] .
    then show "owned s x \<inter> pW t \<subseteq> {x}" by (elim primary_okE) (auto simp: secondaries_def t)
    show "preqs t y = preqs s y" if "y \<in> owned s x" for y using that no by (auto simp: t)
  qed (rule x)
  obtain cs where c: "chain (preqs s) (p_next p) cs" "secondaries (preqs s) (pW s) (pages p) cs"
    using I(9) [OF r] p by (elim primary_okE) simp
  have nr: "r \<notin> set cs" using c(2) r by (auto simp: secondaries_def)
  have ch: "chain (preqs t) (p_next p') cs" using c(1) nr nx by (subst chain_cong [of cs _ "preqs s"]) (auto simp: t)
  moreover have "secondaries (preqs t) (pW t) (pages p) cs"
    using c(2) nr by (subst secondaries_cong [of cs _ "preqs s"]) (auto simp: t)
  then have "secondaries (preqs t) (pW t) (pages p') cs" using grow by (fastforce simp: secondaries_def)
  then have "primary_ok t r" using ch by (auto simp: primary_ok_def t)
  then have "primary_ok t x" if "x \<in> pW s" for x using keep [OF that] by (cases "x = r") simp_all
  moreover have "owned t r = owned s r"
    using owned_eq [of t r p', OF _ ch] owned_eq [OF p c(1)] by (simp add: t)
  then have "owned t x = owned s x" if "x \<in> pW s" for x using keep [OF that] by (cases "x = r") simp_all
  then have "owned t x \<inter> owned t y = {}" if "x \<in> pW s" "y \<in> pW s" "x \<noteq> y" for x y
    using owned_disjoint [OF inv that] that by simp
  moreover have "apart t x y" if D "x \<in> pW s" "y \<in> pW s" "x \<noteq> y" for x y
    using I(10) [of x y] far [of x] far [of y] that by (auto simp: apart_def t)
  moreover have "p_pending q" if "x \<in> pA t" "preqs t x = Some q" for x q
    using I(8) [of x q] that pend by (auto simp: t split: if_split_asm)
  moreover have "sent t = sent s" by (simp add: sent_def t)
  ultimately show ?thesis using I(1-7) unfolding pinv_def by (auto simp: t)
qed

lemma pinv_page:
  assumes inv: "pinv D None held s" and r: "r \<in> pA s" and p: "preqs s r = Some p"
    and free: "\<And>x q. D \<Longrightarrow> x \<in> pW s \<Longrightarrow> preqs s x = Some q \<Longrightarrow> p_first p + p_num p \<notin> pages q"
  shows "pinv D None held (s\<lparr>preqs := (preqs s)(r \<mapsto> p\<lparr>p_num := Suc (p_num p)\<rparr>)\<rparr>)"
proof (rule pinv_change [OF inv _ p refl])
  note I = pinvD [OF inv]
  show rW: "r \<in> pW s" using I(4) r by blast
  have new: "pages (p\<lparr>p_num := Suc (p_num p)\<rparr>) = insert (p_first p + p_num p) (pages p)"
    by (auto simp: pages_def)
  show "pages p \<subseteq> pages (p\<lparr>p_num := Suc (p_num p)\<rparr>)" unfolding new by blast
  show "pages q \<inter> pages (p\<lparr>p_num := Suc (p_num p)\<rparr>) = {}" if D "x \<in> pW s" "x \<noteq> r" "preqs s x = Some q" for x q
    using I(10) [of x r] free that rW p unfolding new by (auto simp: apart_def)
  show "p_pending (p\<lparr>p_num := Suc (p_num p)\<rparr>)" if "r \<in> pA s" using I(8) [OF r p] by simp
qed simp

lemma pinv_read:
  assumes inv: "pinv D None held s" and r: "x \<in> sent s" and p: "preqs s x = Some p"
  shows "pinv D None held (s\<lparr>preqs := (preqs s)(x \<mapsto> p\<lparr>p_pending := False\<rparr>)\<rparr>)"
proof (rule pinv_change [OF inv _ p refl])
  note I = pinvD [OF inv]
  have same: "pages (p\<lparr>p_pending := False\<rparr>) = pages p" by (simp add: pages_def)
  show xW: "x \<in> pW s" using r by (simp add: sent_def)
  show "pages p \<subseteq> pages (p\<lparr>p_pending := False\<rparr>)" by (simp add: same)
  show "pages q \<inter> pages (p\<lparr>p_pending := False\<rparr>) = {}" if D "y \<in> pW s" "y \<noteq> x" "preqs s y = Some q" for y q
    using I(10) [of y x] that xW p unfolding same by (auto simp: apart_def)
qed (use r in \<open>auto simp: sent_def\<close>)

lemma pinv_chain:
  assumes inv: "pinv D None held s" and r: "r \<in> pA s" and p: "preqs s r = Some p" "p_num p = 0"
    and x: "x \<in> pW s" "x \<noteq> r" and q: "preqs s x = Some q" "p_first p \<in> pages q" "chain (preqs s) (p_next q) cs"
    and new: "\<And>c. c \<in> set cs \<Longrightarrow> p_first (the (preqs s c)) \<noteq> p_first p"
  shows "pinv D None held (s\<lparr>pW := pW s - {r}, pA := pA s - {r},
      preqs := (preqs s)(r \<mapsto> p\<lparr>p_num := 1, p_next := p_next q\<rparr>, x \<mapsto> q\<lparr>p_next := Some r\<rparr>)\<rparr>)"
    (is "pinv D None held ?t")
proof -
  note I = pinvD [OF inv]
  have rW: "r \<in> pW s" using I(4) r by blast
  have keep: "primary_ok ?t y \<and> owned ?t y = owned s y" if y: "y \<in> pW s" and ne: "y \<noteq> x" "y \<noteq> r" for y
  proof (rule primary_keep)
    have no: "r \<notin> owned s y" "x \<notin> owned s y"
      using not_owned [OF inv rW y ne(2) [symmetric]] not_owned [OF inv x(1) y ne(1) [symmetric]] by blast+
    show "primary_ok s y" using I(9) [OF y] .
    then show "owned s y \<inter> pW ?t \<subseteq> {y}" by (elim primary_okE) (auto simp: secondaries_def)
    show "preqs ?t z = preqs s z" if "z \<in> owned s y" for z using that no by auto
  qed (rule y)
  have sec: "secondaries (preqs s) (pW s) (pages q) cs"
    using primary_secondaries [OF I(9) [OF x(1)] q(1,3)] .
  have out: "r \<notin> set cs" "x \<notin> set cs" using sec rW x(1) by (auto simp: secondaries_def)
  have "chain (preqs ?t) (p_next q) cs" using q(3) out by (subst chain_cong [of cs _ "preqs s"]) auto
  then have ch: "chain (preqs ?t) (Some r) (r # cs)" using x(2) by simp
  have firsts: "map (\<lambda>c. p_first (the (preqs ?t c))) cs = map (\<lambda>c. p_first (the (preqs s c))) cs"
    using out by auto
  have "secondaries (preqs ?t) (pW ?t) (pages q) (r # cs)"
    unfolding secondaries_def list.map distinct.simps firsts
    using sec out x(2) q(2) p I(8) [OF r p(1)] new by (force simp: secondaries_def)
  then have okx: "primary_ok ?t x"
    unfolding primary_ok_def using ch x by (intro exI [of _ "q\<lparr>p_next := Some r\<rparr>"] exI [of _ "r # cs"]) (simp add: pages_def)
  have sent: "sent ?t = sent s" using r by (auto simp: sent_def)
  have own_x: "owned ?t x = insert r (owned s x)"
    using owned_eq [OF q(1,3)] owned_eq [of ?t x "q\<lparr>p_next := Some r\<rparr>" "r # cs"] ch x by auto
  have no: "r \<notin> owned s y" if "y \<in> pW s" "y \<noteq> r" for y using not_owned [OF inv rW that(1)] that(2) by blast
  have "owned ?t y \<inter> owned ?t z = {}" if "y \<in> pW s" "z \<in> pW s" "y \<noteq> z" "y \<noteq> r" "z \<noteq> r" for y z
    using owned_disjoint [OF inv that(1-3)] keep [of y] keep [of z] own_x no that
    by (cases "y = x"; cases "z = x") (auto simp del: fun_upd_apply)
  moreover have "apart ?t y z" if D "y \<in> pW s" "z \<in> pW s" "y \<noteq> z" "y \<noteq> r" "z \<noteq> r" for y z
    using I(10) [of y z] that q(1) by (auto simp: apart_def pages_def)
  moreover have "p_pending z" if "y \<in> pA ?t" "preqs ?t y = Some z" for y z
    using I(8) [of y] q(1) that by (auto split: if_split_asm)
  moreover have "primary_ok ?t y" if "y \<in> pW s" "y \<noteq> r" for y using keep [OF that(1) _ that(2)] okx by blast
  ultimately show ?thesis using I(1-7) sent r unfolding pinv_def by auto
qed

lemma pstep_pinv: "pstep D B K s t \<Longrightarrow> pinv D None held s \<Longrightarrow> pinv D None held t"
  by (induction rule: pstep.induct)
    (auto simp del: One_nat_def intro: pinv_fresh pinv_page pinv_enqueue pinv_send pinv_drop pinv_give_up pinv_chain pinv_untracked pinv_read)

lemma psteps_pinv: "(pstep D B K)\<^sup>*\<^sup>* s t \<Longrightarrow> pinv D None held s \<Longrightarrow> pinv D None held t"
  by (induction rule: rtranclp_induct) (auto intro: pstep_pinv)

text \<open>What the steps leave alone: the pages covered, up to \<open>K\<close>, and the requests of the other threads.\<close>

definition covered :: "pstate \<Rightarrow> nat set" where
  "covered s = (\<Union>r\<in>pW s. \<Union>p\<in>set_option (preqs s r). pages p)"

definition shape :: "pstate \<Rightarrow> req_id \<Rightarrow> (nat \<times> nat) option" where
  "shape s r = map_option (\<lambda>p. (p_first p, p_num p)) (preqs s r)"

definition leaves :: "req_id set \<Rightarrow> nat set \<Rightarrow> pstate \<Rightarrow> pstate \<Rightarrow> bool" where
  "leaves B K s t \<longleftrightarrow> covered t \<subseteq> covered s \<union> K \<and> (\<forall>r\<in>B. r \<in> pA t \<and> shape t r = shape s r)"

lemma leaves_refl: "B \<subseteq> pA s \<Longrightarrow> leaves B K s s"
  by (auto simp: leaves_def)

lemma leaves_trans: "leaves B K s t \<Longrightarrow> leaves B K t u \<Longrightarrow> leaves B K s u"
  unfolding leaves_def by auto

lemma leavesD: "leaves B K s t \<Longrightarrow> covered t \<subseteq> covered s \<union> K" "leaves B K s t \<Longrightarrow> B \<subseteq> pA t"
  "leaves B K s t \<Longrightarrow> r \<in> B \<Longrightarrow> shape t r = shape s r"
  by (auto simp: leaves_def)

lemma coveredI: "r \<in> pW s \<Longrightarrow> preqs s r = Some p \<Longrightarrow> k \<in> pages p \<Longrightarrow> k \<in> covered s"
  by (force simp: covered_def)

lemma coveredE:
  assumes "k \<in> covered s"
  obtains r p where "r \<in> pW s" and "preqs s r = Some p" and "k \<in> pages p"
  using assms by (auto simp: covered_def)

lemma covered_mono:
  assumes "\<And>r p k. r \<in> pW t \<Longrightarrow> preqs t r = Some p \<Longrightarrow> k \<in> pages p \<Longrightarrow> k \<in> covered s \<or> k \<in> K"
  shows "covered t \<subseteq> covered s \<union> K"
  using assms by (auto elim!: coveredE)

lemma pstep_leaves:
  assumes "pstep D B K s t" and "pinv D None held s" and B: "B \<subseteq> pA s"
  shows "leaves B K s t"
proof -
  have W: "pA s \<subseteq> pW s" and Q: "set (pQ s) \<inter> pA s = {}" using pinvD(4,5) [OF assms(2)] .
  have "r \<in> pA t \<and> shape t r = shape s r" if "r \<in> B" for r using assms(1)
  proof (cases rule: pstep.cases)
    case (Untracked P)
    then show ?thesis using that B W pW_live by (auto simp: shape_def)
  next
    case (Read x p)
    then show ?thesis using that B by (auto simp: shape_def sent_def)
  qed (use that B W in \<open>auto simp: shape_def\<close>)
  moreover have "covered t \<subseteq> covered s \<union> K" using assms(1)
  proof (cases rule: pstep.cases)
    case (Fresh r idx)
    then show ?thesis by (intro covered_mono) (auto simp: pages_def intro: coveredI split: if_split_asm)
  next
    case (Page r idx p)
    have "pages (p\<lparr>p_num := Suc (p_num p)\<rparr>) = insert idx (pages p)" using Page by (auto simp: pages_def)
    then show ?thesis using Page W by (intro covered_mono) (auto intro: coveredI split: if_split_asm)
  next
    case (Chain r p x q cs)
    have "pages (q\<lparr>p_next := Some r\<rparr>) = pages q" by (simp add: pages_def)
    then show ?thesis using Chain by (intro covered_mono) (auto intro: coveredI split: if_split_asm)
  next
    case (Untracked P)
    then show ?thesis using pW_live by (intro covered_mono) (auto intro: coveredI)
  next
    case (Read x p)
    have "pages (p\<lparr>p_pending := False\<rparr>) = pages p" by (simp add: pages_def)
    then show ?thesis using Read by (intro covered_mono) (auto simp: sent_def intro: coveredI split: if_split_asm)
  qed (intro covered_mono; auto intro: coveredI)+
  ultimately show ?thesis by (simp add: leaves_def)
qed

lemma psteps_negative: "(pstep D B K)\<^sup>*\<^sup>* s t \<Longrightarrow> pctr s < 0 \<Longrightarrow> pctr t = pctr s"
proof (induction rule: rtranclp_induct)
  case (step t u)
  then show ?case by (auto elim: pstep.cases)
qed simp

lemma psteps_leaves:
  assumes "(pstep D B K)\<^sup>*\<^sup>* s t" and "pinv D None held s" and "B \<subseteq> pA s"
  shows "leaves B K s t"
  using assms
proof (induction rule: rtranclp_induct)
  case (step t u)
  then have inv: "pinv D None held t" using psteps_pinv by blast
  have old: "leaves B K s t" using step by blast
  show ?case using leaves_trans [OF old pstep_leaves [OF step(2) inv leavesD(2) [OF old]]] .
qed (rule leaves_refl)

lemma pstep_mono: "pstep D B K s t \<Longrightarrow> B' \<subseteq> B \<Longrightarrow> K \<subseteq> K' \<Longrightarrow> pstep D B' K' s t"
  by (induction rule: pstep.induct) (blast intro: pstep.intros)+

lemma psteps_mono: "(pstep D B K)\<^sup>*\<^sup>* s t \<Longrightarrow> B' \<subseteq> B \<Longrightarrow> K \<subseteq> K' \<Longrightarrow> (pstep D B' K')\<^sup>*\<^sup>* s t"
  by (induction rule: rtranclp_induct) (auto intro: pstep_mono rtranclp.rtrancl_into_rtrancl)

subsection \<open>The end of a request\<close>

lemma pinv_start_end: "pinv D None held s \<Longrightarrow> e \<in> sent s \<Longrightarrow> pinv D (Some e) held s"
  unfolding pinv_def by (auto simp: sent_def)

text \<open>The chain of \<open>e\<close> without its first request, in a state where only \<open>e\<close> changed and \<open>n\<close> left the chain.\<close>

lemma pend_shorten:
  assumes inv: "pinv D (Some e) held s" and q: "preqs s e = Some q" "p_next q = Some n" and p: "preqs s n = Some p"
    and tW: "pW t = pW s \<or> pW t = insert n (pW s)"
    and te: "preqs t e = Some (q\<lparr>p_next := p_next p\<rparr>)"
    and same: "\<And>x. x \<noteq> e \<Longrightarrow> x \<noteq> n \<Longrightarrow> preqs t x = preqs s x"
  obtains cs where "chain (preqs t) (p_next p) cs" and "secondaries (preqs t) (pW t) (pages q) cs"
    and "chain (preqs s) (Some n) (n # cs)" and "secondaries (preqs s) (pW s) (pages q) (n # cs)"
    and "e \<notin> set (n # cs)" and "n \<notin> set cs"
    and "\<And>x. x \<in> pW s \<Longrightarrow> x \<noteq> e \<Longrightarrow> primary_ok t x \<and> owned t x = owned s x \<and> n \<notin> owned s x"
    and "owned t e = insert e (set cs)" and "owned s e = insert e (insert n (set cs))"
    and "\<And>x. x \<in> pW s \<Longrightarrow> x \<noteq> e \<Longrightarrow> promoted s e x \<Longrightarrow> promoted t e x"
proof -
  note I = pinvD [OF inv]
  have eW: "e \<in> pW s" using I(6) by (simp add: sent_def)
  obtain q' ds where "preqs s e = Some q'" "chain (preqs s) (p_next q') ds" "owned s e = insert e (set ds)"
    using I(9) [OF eW] by (rule primary_okE)
  with q have ds: "chain (preqs s) (Some n) ds" and own: "owned s e = insert e (set ds)" by auto
  obtain cs where cs: "ds = n # cs" and ch: "chain (preqs s) (p_next p) cs" using ds p by (cases ds) auto
  have sec: "secondaries (preqs s) (pW s) (pages q) (n # cs)"
    using primary_secondaries [OF I(9) [OF eW] q(1)] ds cs q(2) by simp
  have out: "e \<notin> set (n # cs)" "n \<notin> set cs" using sec eW by (auto simp: secondaries_def)
  have same_cs: "preqs t c = preqs s c" if "c \<in> set cs" for c by (rule same) (use out that in auto)
  have ch_t: "chain (preqs t) (p_next p) cs" using ch same_cs by (subst chain_cong [of cs _ "preqs s"])
  have "secondaries (preqs s) (pW t) (pages q) cs" using sec tW by (auto simp: secondaries_def)
  then have sec_t: "secondaries (preqs t) (pW t) (pages q) cs"
    using same_cs by (subst secondaries_cong [of cs _ "preqs s"])
  have n_out: "n \<notin> owned s x" if x: "x \<in> pW s" "x \<noteq> e" for x
    using owned_disjoint [OF inv eW x(1)] x(2) own cs by auto
  have ok: "primary_ok t x \<and> owned t x = owned s x" if x: "x \<in> pW s" "x \<noteq> e" for x
  proof (rule primary_keep)
    have no: "e \<notin> owned s x" using not_owned [OF inv eW x(1)] x(2) by blast
    show "primary_ok s x" using I(9) [OF x(1)] .
    then have "owned s x \<inter> pW s \<subseteq> {x}" by (elim primary_okE) (auto simp: secondaries_def)
    then show "owned s x \<inter> pW t \<subseteq> {x}" using tW n_out [OF x] by auto
    show "preqs t z = preqs s z" if "z \<in> owned s x" for z using same that no n_out [OF x] by metis
  qed (rule x(1))
  have pr: "promoted t e x" if x: "x \<in> pW s" "x \<noteq> e" and pr: "promoted s e x" for x
  proof -
    have xn: "x \<noteq> n" using sec x by (auto simp: secondaries_def)
    from pr obtain px q2 cs2 where 1: "preqs s x = Some px" "p_num px = 1" "p_next px = None" "preqs s e = Some q2"
        "chain (preqs s) (p_next q2) cs2" "p_first px \<in> pages q2" "\<forall>c\<in>set cs2. p_first (the (preqs s c)) \<noteq> p_first px"
      by (auto simp: promoted_def)
    have q2: "q2 = q" using 1(4) q(1) by simp
    have "cs2 = n # cs" using 1(5) ds q(2) unfolding q2 cs by (auto intro: chain_unique)
    then have far: "\<forall>c\<in>set cs. p_first (the (preqs t c)) \<noteq> p_first px" using 1(7) same_cs by simp
    show ?thesis unfolding promoted_def
      using 1(1-3,6) q2 far ch_t te same [OF x(2) xn]
      by (intro exI [of _ px] exI [of _ "q\<lparr>p_next := p_next p\<rparr>"] exI [of _ cs]) (simp add: pages_def)
  qed
  have own_t: "owned t e = insert e (set cs)" using owned_eq [OF te] ch_t by simp
  have keep: "primary_ok t x \<and> owned t x = owned s x \<and> n \<notin> owned s x" if "x \<in> pW s" "x \<noteq> e" for x
    using ok [OF that] n_out [OF that] by blast
  have ch_s: "chain (preqs s) (Some n) (n # cs)" using ds cs by simp
  have own_s: "owned s e = insert e (insert n (set cs))" using own cs by simp
  show ?thesis using that [OF ch_t sec_t ch_s sec out keep own_t own_s pr] .
qed

lemma pend_skip:
  assumes inv: "pinv D (Some e) held s" and q: "preqs s e = Some q" "p_next q = Some n" and p: "preqs s n = Some p"
  shows "pinv D (Some e) held (s\<lparr>preqs := (preqs s)(e \<mapsto> q\<lparr>p_next := p_next p\<rparr>)\<rparr>)" (is "pinv D _ _ ?t")
proof -
  note I = pinvD [OF inv]
  obtain cs where c: "chain (preqs ?t) (p_next p) cs" "secondaries (preqs ?t) (pW ?t) (pages q) cs"
    and keep: "\<And>x. x \<in> pW s \<Longrightarrow> x \<noteq> e \<Longrightarrow> primary_ok ?t x \<and> owned ?t x = owned s x \<and> n \<notin> owned s x"
    and own: "owned ?t e = insert e (set cs)" "owned s e = insert e (insert n (set cs))"
    and pr: "\<And>x. x \<in> pW s \<Longrightarrow> x \<noteq> e \<Longrightarrow> promoted s e x \<Longrightarrow> promoted ?t e x"
    by (rule pend_shorten [OF inv q p, where t = ?t]) auto
  have "primary_ok ?t e" unfolding primary_ok_def using c by (auto simp: pages_def)
  then have ok': "primary_ok ?t x" if "x \<in> pW s" for x using keep [OF that] by (cases "x = e") simp_all
  have ap: "apart ?t x y \<longleftrightarrow> apart s x y" for x y using q(1) by (auto simp: apart_def pages_def)
  have "owned ?t x \<subseteq> owned s x" if "x \<in> pW s" for x using keep [OF that] own by (cases "x = e") (auto simp del: fun_upd_apply)
  then have dis: "owned ?t x \<inter> owned ?t y = {}" if "x \<in> pW s" "y \<in> pW s" "x \<noteq> y" for x y
    using owned_apart [OF inv, of "pW s" ?t x y] that by blast
  have ex: "apart ?t e x \<or> promoted ?t e x" if D "x \<in> pW s" "x \<noteq> e" for x
    using I(11) [OF that(1) refl that(2,3)] ap pr [OF that(2,3)] by blast
  have "sent ?t = sent s" by (simp add: sent_def)
  moreover have "p_pending z" if "y \<in> pA ?t" "preqs ?t y = Some z" for y z
    using I(6,8) that by (auto simp: sent_def split: if_split_asm)
  ultimately show ?thesis using I(1-7,10) ok' ap ex dis unfolding pinv_def by simp
qed

lemma pend_promote:
  assumes inv: "pinv D (Some e) held s" and q: "preqs s e = Some q" "p_next q = Some n" and p: "preqs s n = Some p"
  shows "pinv D (Some e) held (s\<lparr>pW := insert n (pW s), pctr := pctr s + 1,
      preqs := (preqs s)(n \<mapsto> p\<lparr>p_next := None\<rparr>, e \<mapsto> q\<lparr>p_next := p_next p\<rparr>)\<rparr>)" (is "pinv D _ _ ?t")
proof -
  note I = pinvD [OF inv]
  obtain cs where c: "chain (preqs ?t) (p_next p) cs" "secondaries (preqs ?t) (pW ?t) (pages q) cs"
    and sec: "secondaries (preqs s) (pW s) (pages q) (n # cs)" and out: "e \<notin> set (n # cs)" "n \<notin> set cs"
    and keep: "\<And>x. x \<in> pW s \<Longrightarrow> x \<noteq> e \<Longrightarrow> primary_ok ?t x \<and> owned ?t x = owned s x \<and> n \<notin> owned s x"
    and own: "owned ?t e = insert e (set cs)" "owned s e = insert e (insert n (set cs))"
    and pr: "\<And>x. x \<in> pW s \<Longrightarrow> x \<noteq> e \<Longrightarrow> promoted s e x \<Longrightarrow> promoted ?t e x"
    by (rule pend_shorten [OF inv q p, where t = ?t]) auto
  have en: "e \<noteq> n" using out by auto
  have nW: "n \<notin> pW s" and n1: "p_num p = 1" "p_first p \<in> pages q" using sec p by (auto simp: secondaries_def)
  have "p_first (the (preqs s n)) \<notin> (\<lambda>c. p_first (the (preqs s c))) ` set cs" using sec by (simp add: secondaries_def)
  then have far: "p_first (the (preqs s d)) \<noteq> p_first p" if "d \<in> set cs" for d using p that by force
  have "primary_ok ?t e" unfolding primary_ok_def using c en by (auto simp: pages_def)
  moreover have "primary_ok ?t n" unfolding primary_ok_def using en by (auto simp: secondaries_def)
  ultimately have ok': "primary_ok ?t x" if "x \<in> pW ?t" for x
    using keep [of x] that by (cases "x = e"; cases "x = n") auto
  have tn: "preqs ?t n = Some (p\<lparr>p_next := None\<rparr>)" using en by simp
  have pn: "pages (p\<lparr>p_next := None\<rparr>) = {p_first p}" using n1 by (auto simp: pages_def)
  have prn: "promoted ?t e n" unfolding promoted_def
    using en n1 c(1) far out by (intro exI [of _ "p\<lparr>p_next := None\<rparr>"] exI [of _ "q\<lparr>p_next := p_next p\<rparr>"] exI [of _ cs])
      (auto simp: pages_def)
  have ap: "apart ?t x y \<longleftrightarrow> apart s x y" for x y using q(1) p by (auto simp: apart_def pages_def)
  have own_n: "owned ?t n = {n}" using owned_eq [OF tn, of "[]"] by simp
  have dis: "owned ?t x \<inter> owned ?t y = {}" if "x \<in> pW ?t" "y \<in> pW ?t" "x \<noteq> y" for x y
  proof -
    have sub: "owned ?t z \<subseteq> owned s z - {n}" if "z \<in> pW s" for z
      using keep [OF that] own en out(2) by (cases "z = e") (auto simp del: fun_upd_apply)
    show ?thesis
    proof (cases "x = n \<or> y = n")
      case True
      then show ?thesis using that own_n sub [of x] sub [of y] by (auto simp del: fun_upd_apply)
    next
      case False
      then show ?thesis using that sub [of x] sub [of y] owned_disjoint [OF inv, of x y] by (auto simp del: fun_upd_apply)
    qed
  qed
  have apn: "apart ?t x n" if D and x: "x \<in> pW s" "x \<noteq> e" for x
  proof (cases "apart s e x")
    case True
    then show ?thesis using n1(2) q(1) x nW tn pn by (auto simp: apart_def split: if_split_asm)
  next
    case False
    then have "promoted s e x" using I(11) [OF \<open>D\<close> refl x] by blast
    then obtain px cs2 where px: "preqs s x = Some px" "p_num px = 1" and ch2: "chain (preqs s) (Some n) cs2"
        and "\<forall>c\<in>set cs2. p_first (the (preqs s c)) \<noteq> p_first px"
      using q by (auto simp: promoted_def)
    moreover have "n \<in> set cs2" using ch2 by (cases cs2) auto
    ultimately have "p_first p \<noteq> p_first px" using p by fastforce
    moreover have "pages px = {p_first px}" using px(2) by (auto simp: pages_def)
    ultimately show ?thesis using px(1) x nW tn pn by (auto simp: apart_def split: if_split_asm)
  qed
  have "sent ?t = insert n (sent s)" using nW I(3,4) by (auto simp: sent_def)
  moreover have "n \<notin> sent s" "finite (sent s)" using nW I(1) by (simp_all add: sent_def)
  ultimately have card: "card (sent ?t) = Suc (card (sent s))" "e \<in> sent ?t" using I(6) by auto
  have two: "apart ?t x y" if D "x \<in> pW ?t" "y \<in> pW ?t" "x \<noteq> e" "y \<noteq> e" "x \<noteq> y" for x y
    using that apn [of x] apn [of y] apart_sym [of ?t y n] I(10) [of x y] ap by (cases "x = n"; cases "y = n") auto
  have ex: "apart ?t e x \<or> promoted ?t e x" if D "x \<in> pW ?t" "x \<noteq> e" for x
    using I(11) [of e x] that ap prn pr [of x] by (cases "x = n") auto
  have pend: "p_pending z" if "y \<in> pA ?t" "preqs ?t y = Some z" for y z
    using I(4,6,8) that nW by (auto simp: sent_def split: if_split_asm)
  show ?thesis using I(1-5,7) card ok' two ex pend dis unfolding pinv_def by (auto simp del: fun_upd_apply)
qed

lemma pend_pinv: "pend e s t \<Longrightarrow> pinv D (Some e) held s \<Longrightarrow> pinv D (Some e) held t"
  by (induction rule: pend.induct) (auto intro: pend_promote pend_skip pinv_untracked)

lemma pends_pinv: "(pend e)\<^sup>*\<^sup>* s t \<Longrightarrow> pinv D (Some e) held s \<Longrightarrow> pinv D (Some e) held t"
  by (induction rule: rtranclp_induct) (auto intro: pend_pinv)

text \<open>A skipped request is not tracked any more.\<close>

lemma skip_untracked:
  assumes inv: "pinv D (Some e) held s" and q: "preqs s e = Some q" "p_next q = Some n" and p: "preqs s n = Some p"
  shows "n \<notin> live (s\<lparr>preqs := (preqs s)(e \<mapsto> q\<lparr>p_next := p_next p\<rparr>)\<rparr>)" (is "n \<notin> live ?t")
proof
  note I = pinvD [OF inv]
  have eW: "e \<in> pW s" using I(6) by (simp add: sent_def)
  obtain cs where c: "chain (preqs ?t) (p_next p) cs" "chain (preqs s) (Some n) (n # cs)"
      "secondaries (preqs s) (pW s) (pages q) (n # cs)" "e \<notin> set (n # cs)" "n \<notin> set cs"
    by (rule pend_shorten [OF inv q p, where t = ?t]) auto
  have own: "owned s e = insert e (set (n # cs))" by (rule owned_eq [OF q(1)]) (use q c in simp)
  have own_t: "owned ?t e = insert e (set cs)" by (rule owned_eq [where p = "q\<lparr>p_next := p_next p\<rparr>"]) (use c(1) in simp_all)
  assume "n \<in> live ?t"
  then obtain x where x: "x \<in> pW s" "n \<in> owned ?t x" by (auto simp: live_def)
  show False
  proof (cases "x = e")
    case True
    then show False using x own_t c(4,5) by auto
  next
    case False
    have no: "e \<notin> owned s x" using not_owned [OF inv eW x(1)] False by blast
    have "owned ?t x = owned s x"
    proof (rule primary_ok_keep(2))
      show "primary_ok s x" using I(9) [OF x(1)] .
      then show "owned s x \<inter> pW ?t \<subseteq> {x}" by (elim primary_okE) (auto simp: secondaries_def)
      show "preqs ?t z = preqs s z" if "z \<in> owned s x" for z using that no by auto
    qed (rule x(1))
    then show False using x own owned_disjoint [OF inv eW x(1)] False by auto
  qed
qed

lemma pend_leaves:
  assumes "pend e s t" and inv: "pinv D (Some e) held s" and B: "B \<subseteq> pA s"
  shows "leaves B {} s t"
  using assms(1)
proof (cases rule: pend.cases)
  case (Promote q n p)
  note I = pinvD [OF inv]
  have e: "e \<in> pW s" "e \<notin> pA s" using I(6) by (auto simp: sent_def)
  have sec: "secondaries (preqs s) (pW s) (pages q) (n # cs)" if "chain (preqs s) (Some n) (n # cs)" for cs
    using primary_secondaries [OF I(9) [OF e(1)] Promote(2)] that Promote(3) by simp
  obtain cs where "chain (preqs s) (Some n) (n # cs)"
    by (rule pend_shorten [OF inv Promote(2-4), where t = "s\<lparr>preqs := (preqs s)(e \<mapsto> q\<lparr>p_next := p_next p\<rparr>)\<rparr>"]) auto
  note sec = sec [OF this]
  then have n: "n \<notin> pW s" "p_num p = 1" "p_first p \<in> pages q" using Promote(4) by (auto simp: secondaries_def)
  have pg: "pages (q\<lparr>p_next := p_next p\<rparr>) = pages q" "pages (p\<lparr>p_next := None\<rparr>) = {p_first p}"
    using n by (auto simp: pages_def)
  have "covered t \<subseteq> covered s \<union> {}" unfolding Promote(1)
    using pg n e Promote(2-4) by (intro covered_mono) (auto intro: coveredI split: if_split_asm)
  moreover have "r \<in> pA t \<and> shape t r = shape s r" if "r \<in> B" for r
    using that B e n I(4) Promote by (auto simp: shape_def)
  ultimately show ?thesis by (simp add: leaves_def)
next
  case (Skip q n p)
  have e: "e \<in> pW s" "e \<notin> pA s" using pinvD(6) [OF inv] by (auto simp: sent_def)
  have pg: "pages (q\<lparr>p_next := p_next p\<rparr>) = pages q" by (simp add: pages_def)
  have "covered t \<subseteq> covered s \<union> {}" unfolding Skip(1)
    using pg Skip(2-4) by (intro covered_mono) (auto intro: coveredI split: if_split_asm)
  then show ?thesis using B e Skip by (auto simp: leaves_def shape_def)
next
  case (Other P)
  have W: "P x = preqs s x" if "x \<in> pW s" for x using Other(2) pW_live [OF that] by blast
  have "covered t \<subseteq> covered s \<union> {}" unfolding Other(1)
    using W by (intro covered_mono) (auto intro: coveredI)
  then show ?thesis using B W Other(1) pinvD(4) [OF inv] by (auto simp: leaves_def shape_def)
qed

lemma pends_leaves:
  assumes "(pend e)\<^sup>*\<^sup>* s t" and "pinv D (Some e) held s" and "B \<subseteq> pA s"
  shows "leaves B {} s t"
  using assms
proof (induction rule: rtranclp_induct)
  case (step t u)
  then have inv: "pinv D (Some e) held t" using pends_pinv by blast
  have old: "leaves B {} s t" using step by blast
  show ?case using leaves_trans [OF old pend_leaves [OF step(2) inv leavesD(2) [OF old]]] .
qed (rule leaves_refl)

lemma pinv_end:
  assumes inv: "pinv D (Some e) held s" and e: "preqs s e = Some q" "p_next q = None"
  shows "pinv D None held (s\<lparr>pW := pW s - {e}, pctr := pctr s - 1\<rparr>)" (is "pinv D _ _ ?t")
proof -
  note I = pinvD [OF inv]
  have es: "e \<in> sent s" using I(6) by simp
  have ok: "primary_ok ?t x \<and> owned ?t x = owned s x" if x: "x \<in> pW s" "x \<noteq> e" for x
  proof (rule primary_keep)
    show "primary_ok s x" using I(9) [OF x(1)] .
    then show "owned s x \<inter> pW ?t \<subseteq> {x}" by (elim primary_okE) (auto simp: secondaries_def)
  qed (use x in auto)
  have sent: "sent ?t = sent s - {e}" by (auto simp: sent_def)
  have "card (sent s) = Suc (card (sent ?t))" using sent_card_remove [OF I(1) es] by (simp add: sent)
  then have ctr: "pctr ?t = int (card (sent ?t)) + (if held then FUSE_NOWRITE else 0)" using I(7) by simp
  have dis: "owned ?t x \<inter> owned ?t y = {}" if "x \<in> pW ?t" "y \<in> pW ?t" "x \<noteq> y" for x y
    using owned_disjoint [OF inv, of x y] ok that by simp
  have two: "apart ?t x y" if D "x \<in> pW ?t" "y \<in> pW ?t" "x \<noteq> y" for x y
    using I(10) [of x y] that by (auto simp: apart_def)
  have lists: "set (pQ ?t) \<subseteq> pW ?t" "pA ?t \<subseteq> pW ?t" using I(3,4) es by (auto simp: sent_def)
  show ?thesis using I(1,2,5,8) ok ctr two lists dis unfolding pinv_def by simp
qed

subsection \<open>Holding back\<close>

lemma pinv_hold: "pinv D E False s \<Longrightarrow> pinv D E True (s\<lparr>pctr := pctr s + FUSE_NOWRITE\<rparr>)"
  by (auto simp: pinv_def primary_ok_def apart_def promoted_def sent_def owned_def)

text \<open>The counter has the value \<open>FUSE_NOWRITE\<close> only when writes are held back and none is under way.\<close>

lemma quiet_none_sent:
  assumes "pinv D E held s" and "pctr s = FUSE_NOWRITE"
  shows "held" and "sent s = {}"
proof -
  note I = pinvD [OF assms(1)]
  show held using I(7) assms(2) by (auto simp: FUSE_NOWRITE_def split: if_split_asm)
  then have "card (sent s) = 0" using I(7) assms(2) by simp
  then show "sent s = {}" using I(1) by (simp add: sent_def)
qed

lemma pinv_release:
  assumes "pinv D None held s" and "pctr s = FUSE_NOWRITE"
  shows "pinv D None False (s\<lparr>pctr := 0\<rparr>)"
proof -
  have "sent s = {}" using quiet_none_sent [OF assms] by simp
  then have "sent (s\<lparr>pctr := 0\<rparr>) = {}" by (simp add: sent_def)
  then show ?thesis using assms(1) by (auto simp: pinv_def primary_ok_def apart_def owned_def)
qed

subsection \<open>The whole specification\<close>

text \<open>
  What one atomic action of the code may do: steps on the list, the end of a request with its secondary
  ones, holding writes back, and their release with the steps that follow.
\<close>

inductive spec_step :: "bool \<Rightarrow> bool \<times> pstate \<Rightarrow> bool \<times> pstate \<Rightarrow> bool" for D where
  Move: "(pstep D {} K)\<^sup>*\<^sup>* s t \<Longrightarrow> spec_step D (held, s) (held, t)"
| Finish: "e \<in> sent s \<Longrightarrow> (pend e)\<^sup>*\<^sup>* s t \<Longrightarrow> preqs t e = Some p \<Longrightarrow> p_next p = None \<Longrightarrow>
    spec_step D (held, s) (held, t\<lparr>pW := pW t - {e}, pctr := pctr t - 1\<rparr>)"
| Hold: "spec_step D (False, s) (True, s\<lparr>pctr := pctr s + FUSE_NOWRITE\<rparr>)"
| Release: "pctr s = FUSE_NOWRITE \<Longrightarrow> (pstep D {} K)\<^sup>*\<^sup>* (s\<lparr>pctr := 0\<rparr>) t \<Longrightarrow> spec_step D (True, s) (False, t)"

text \<open>While writes are held back and none is under way, none is sent.\<close>

lemma spec_step_quiet:
  assumes "spec_step D (True, s) (True, t)" and "pctr s = FUSE_NOWRITE" and "sent s = {}"
  shows "pctr t = FUSE_NOWRITE"
  using assms(1)
proof (cases rule: spec_step.cases)
  case (Move K)
  then show ?thesis using psteps_negative [OF Move] assms(2) by (simp add: FUSE_NOWRITE_def)
next
  case (Finish e u p)
  then show ?thesis using assms(3) by simp
qed simp_all

end
