(* ===== verification/Writeback_Refine.thy ===== *)
theory Writeback_Refine
  imports Fuse_Writeback Writeback_Spec
begin

text \<open>
  The code of \<open>Fuse_Writeback\<close> implements the specification \<open>Writeback_Spec\<close>: \<open>view\<close> reads the state of
  one inode as a state of the specification, and each function of the code is a sequence of its
  steps (one simulation lemma per function). \<open>ctx_ok\<close> is what a thread knows of the request it fills.
\<close>

subsection \<open>The view\<close>

definition preq_of :: "ino_id \<Rightarrow> fuse_req \<Rightarrow> preq option" where
  "preq_of i q = (if rq_inode q = Some i then
     (case write_of q of
        Some (w, nx) \<Rightarrow> Some \<lparr>p_first = first_page w, p_num = rq_num_pages q, p_next = nx,
                            p_pending = (FR_PENDING \<in> rq_flags q)\<rparr>
      | None \<Rightarrow> None) else None)"

definition page_reqs :: "ino_id \<Rightarrow> fuse_state \<Rightarrow> req_id \<rightharpoonup> preq" where
  "page_reqs i s r = Option.bind (reqs s r) (preq_of i)"

definition view :: "ino_id \<Rightarrow> req_id set \<Rightarrow> fuse_wb \<Rightarrow> pstate" where
  "view i A wb = (let v = the (winode wb i) in
     \<lparr>pW = set (writepages v), pQ = queued_writes v, pA = A, pctr = writectr v,
      preqs = page_reqs i (wconn wb)\<rparr>)"

text \<open>
  Identifiers of requests are handed out in order, and the reserved request of a file is never a
  write request.
\<close>

definition ids_ok :: "fuse_state \<Rightarrow> bool" where
  "ids_ok s \<longleftrightarrow> (\<forall>r. reqs s r \<noteq> None \<longrightarrow> r < next_id s) \<and>
     (\<forall>ff f r. ffs s ff = Some f \<longrightarrow> ff_reserved_req f = Some r \<longrightarrow>
        r < next_id s \<and> (\<forall>q. reqs s r = Some q \<longrightarrow> write_of q = None))"

lemma ids_okD:
  assumes "ids_ok s"
  shows "reqs s r \<noteq> None \<Longrightarrow> r < next_id s"
    and "ffs s ff = Some f \<Longrightarrow> ff_reserved_req f = Some r \<Longrightarrow> r < next_id s"
    and "ffs s ff = Some f \<Longrightarrow> ff_reserved_req f = Some r \<Longrightarrow> reqs s r = Some q \<Longrightarrow> write_of q = None"
  using assms by (simp_all add: ids_ok_def)

lemma page_reqs_eq: "(\<And>x. Option.bind (reqs t x) (preq_of i) = Option.bind (reqs s x) (preq_of i)) \<Longrightarrow>
    page_reqs i t = page_reqs i s"
  by (rule ext) (simp add: page_reqs_def)

lemma preq_of_cong:
  "write_of p = write_of q \<Longrightarrow> rq_inode p = rq_inode q \<Longrightarrow> rq_num_pages p = rq_num_pages q \<Longrightarrow>
     (FR_PENDING \<in> rq_flags p) = (FR_PENDING \<in> rq_flags q) \<Longrightarrow> preq_of i p = preq_of i q"
  by (auto simp: preq_of_def split: option.split)

lemma preq_of_body: "req_body q' = req_body q \<Longrightarrow> preq_of i q' = preq_of i q" "req_body q' = req_body q \<Longrightarrow> write_of q' = write_of q"
  using req_body_eq [of q' q] by (simp_all add: preq_of_def write_of_def split: fuse_misc.split)

lemma write_of_marks [simp]:
  "write_of (mark_sent q) = write_of q" "write_of (set_flag b q) = write_of q" "write_of (clear_flag b q) = write_of q"
  "write_of (rq_count_update g q) = write_of q" "write_of (q\<lparr>rq_end := e\<rparr>) = write_of q"
  "write_of (set_out_error err q) = write_of q" "write_of (q\<lparr>rq_ff := x\<rparr>) = write_of q"
  "write_of (q\<lparr>rq_num_pages := n\<rparr>) = write_of q" "write_of (put_page_in k p q) = write_of q"
  "write_of (fuse_request_init n') = None"
  by (simp_all add: write_of_def set_flag_def clear_flag_def set_out_error_def put_page_in_def fuse_request_init_def)

lemma preq_of_marks [simp]:
  "preq_of i (mark_sent q) = preq_of i q"
  "b \<noteq> FR_PENDING \<Longrightarrow> preq_of i (set_flag b q) = preq_of i q"
  "b \<noteq> FR_PENDING \<Longrightarrow> preq_of i (clear_flag b q) = preq_of i q"
  "preq_of i (rq_count_update g q) = preq_of i q" "preq_of i (q\<lparr>rq_end := e\<rparr>) = preq_of i q"
  "preq_of i (set_out_error err q) = preq_of i q" "preq_of i (q\<lparr>rq_ff := x\<rparr>) = preq_of i q"
  "preq_of i (put_page_in k p q) = preq_of i q"
  by (auto intro!: preq_of_cong simp: set_flag_def clear_flag_def set_out_error_def put_page_in_def write_of_def
      split: fuse_misc.split)

lemma preq_of_no_write: "write_of q = None \<Longrightarrow> preq_of i q = None"
  by (simp add: preq_of_def)

text \<open>Updating one request.\<close>

lemma page_reqs_upd:
  "page_reqs i (upd_req r f s) = (page_reqs i s)(r := Option.bind (reqs s r) (\<lambda>q. preq_of i (f q)))"
  by (rule ext, cases "reqs s r") (simp_all add: page_reqs_def)

lemma page_reqs_upd_same: "(\<And>q. preq_of i (f q) = preq_of i q) \<Longrightarrow> page_reqs i (upd_req r f s) = page_reqs i s"
  by (rule ext, cases "reqs s r") (simp_all add: page_reqs_def)

lemma page_reqs_cong: "reqs t = reqs s \<Longrightarrow> page_reqs i t = page_reqs i s"
  by (rule ext) (simp add: page_reqs_def)

lemma ids_ok_cong: "reqs t = reqs s \<Longrightarrow> ffs t = ffs s \<Longrightarrow> next_id t = next_id s \<Longrightarrow> ids_ok t = ids_ok s"
  by (simp add: ids_ok_def)

lemma ids_ok_upd_req:
  assumes "ids_ok s" and "\<And>q. reqs s r = Some q \<Longrightarrow> write_of q = None \<Longrightarrow> write_of (f q) = None"
  shows "ids_ok (upd_req r f s)"
  using assms unfolding ids_ok_def by (auto split: if_split_asm)

lemma ids_ok_upd_ff:
  assumes "ids_ok s" and "\<And>f. ff_reserved_req (g f) = ff_reserved_req f"
  shows "ids_ok (upd_ff x g s)"
  using assms unfolding ids_ok_def by (auto split: if_split_asm)

subsection \<open>Operations on requests\<close>

lemma send_background_writes:
  assumes run: "fuse_request_send_background_locked s r = Some s'" and q: "reqs s r = Some q"
  shows "page_reqs i s' = page_reqs i s" and "ids_ok s \<Longrightarrow> ids_ok s'"
proof -
  note sent = send_background_sent [OF run q]
  obtain q' where q': "reqs s' r = Some q'" "req_body q' = req_body (mark_sent q)" using sent(1) by blast
  have other: "\<exists>q. reqs s x = Some q \<and> req_body y = req_body q" if "x \<noteq> r" "reqs s' x = Some y" for x y
    using sent(2) [OF that(1)] that(2) by (metis map_option_eq_Some)
  have absent: "reqs s' x = None \<longleftrightarrow> reqs s x = None" for x
    using sent(2) [of x] q q' by (cases "x = r") (simp_all, metis option.map_disc_iff)
  have origin: "\<exists>p. reqs s x = Some p \<and> preq_of i y = preq_of i p \<and> write_of y = write_of p"
    if "reqs s' x = Some y" for x y i
  proof (cases "x = r")
    case True
    then show ?thesis using that q q' preq_of_body [OF q'(2)] by auto
  next
    case False
    then show ?thesis using other [OF False that] preq_of_body by blast
  qed
  show "page_reqs i s' = page_reqs i s"
  proof (rule page_reqs_eq)
    show "Option.bind (reqs s' x) (preq_of i) = Option.bind (reqs s x) (preq_of i)" for x
      using origin absent [of x] by (cases "reqs s' x") fastforce+
  qed
  show "ids_ok s'" if ids: "ids_ok s"
    unfolding ids_ok_def
  proof (intro conjI allI impI)
    show "r < next_id s'" if "reqs s' r \<noteq> None" for r using ids that absent sent(14) by (simp add: ids_ok_def)
    show "r' < next_id s'" if "ffs s' ff = Some f" "ff_reserved_req f = Some r'" for ff f r'
      using ids that sent(4,14) unfolding ids_ok_def by auto
    show "write_of z = None" if "ffs s' ff = Some f" "ff_reserved_req f = Some r'" "reqs s' r' = Some z" for ff f r' z
      using ids that(1,2) sent(4) origin [OF that(3)] unfolding ids_ok_def by force
  qed
qed

lemma put_last_ref_stores: "next_id (put_last_ref q r s) = next_id s" "ffs (put_last_ref q r s) = ffs s"
  by (simp_all add: put_last_ref_def Let_def waiting_dec_def)

text \<open>Dropping a reference touches no other request; what it leaves of the request is no write request.\<close>

lemma put_request_writes:
  assumes run: "fuse_put_request s r = Some s'" and ids: "ids_ok s"
  shows "\<And>x. x \<noteq> r \<Longrightarrow> page_reqs i s' x = page_reqs i s x"
    and "reqs s r = Some q \<Longrightarrow> write_of q = None \<Longrightarrow> page_reqs i s' r = page_reqs i s r"
    and "ids_ok s'"
proof -
  show "page_reqs i s' x = page_reqs i s x" if "x \<noteq> r" for x
    using fuse_put_request_other [OF run that] by (simp add: page_reqs_def)
  show "page_reqs i s' r = page_reqs i s r" if q: "reqs s r = Some q" "write_of q = None"
    using run by (cases rule: fuse_put_request_cases) (use q in \<open>auto simp: page_reqs_def preq_of_no_write\<close>)
  from run show "ids_ok s'"
  proof (cases rule: fuse_put_request_elim)
    case (shared q)
    then show ?thesis using ids by (auto intro: ids_ok_upd_req)
  next
    case (freed q)
    let ?u = "put_last_ref q r (upd_req r (rq_count_update (\<lambda>n. n - 1)) s)"
    have "s' = ?u\<lparr>reqs := (reqs ?u)(r := None)\<rparr>" using fuse_request_freeE(1) [OF freed(4)] .
    then show ?thesis using ids put_last_ref_reqs [of _ r q "upd_req r (rq_count_update (\<lambda>n. n - 1)) s"]
      unfolding ids_ok_def by (auto simp: put_last_ref_stores split: if_split_asm)
  next
    case (returned q)
    let ?u = "put_last_ref q r (upd_req r (rq_count_update (\<lambda>n. n - 1)) s)"
    have R: "reqs s' x = (if x = r then map_option (\<lambda>q. fuse_request_init (rq_max_pages q)) (reqs ?u r) else reqs s x)" for x
      using put_reserved_req_reqs [OF returned(4)] put_last_ref_reqs [of x r q "upd_req r (rq_count_update (\<lambda>n. n - 1)) s"]
      by simp
    have F: "\<exists>f0. ffs s ff = Some f0 \<and> (ff_reserved_req f = ff_reserved_req f0 \<or> ff_reserved_req f = Some r)"
      if "ffs s' ff = Some f" for ff f
      using returned(4) that by (auto simp: put_reserved_req_def put_last_ref_stores elim!: bind_Some_E split: if_split_asm)
    have N: "next_id s' = next_id s" using fuse_put_request_frame [OF run] by simp
    have rN: "r < next_id s" using ids returned(1) by (simp add: ids_ok_def)
    show ?thesis unfolding ids_ok_def
    proof (intro conjI allI impI)
      show "x < next_id s'" if "reqs s' x \<noteq> None" for x
        using ids that R [of x] N rN by (cases "x = r") (auto simp: ids_ok_def)
      show "r' < next_id s'" if "ffs s' ff = Some f" "ff_reserved_req f = Some r'" for ff f r'
        using F [OF that(1)] that(2) ids N rN by (auto simp: ids_ok_def)
      show "write_of z = None" if f: "ffs s' ff = Some f" "ff_reserved_req f = Some r'" and z: "reqs s' r' = Some z" for ff f r' z
      proof (cases "r' = r")
        case True
        then show ?thesis using z R [of r] by auto
      next
        case False
        then have "reqs s r' = Some z" using z R [of r'] by simp
        moreover obtain f0 where "ffs s ff = Some f0" "ff_reserved_req f0 = Some r'"
          using F [OF f(1)] f(2) False by auto
        ultimately show ?thesis using ids_okD(3) [OF ids] by blast
      qed
    qed
  qed
qed

subsection \<open>Operations on files and inodes\<close>

text \<open>The part of an inode that writeback works on.\<close>

definition wfields :: "fuse_inode \<Rightarrow> req_id list \<times> int \<times> req_id list" where
  "wfields v = (queued_writes v, writectr v, writepages v)"

lemma queue_forget_stores [simp]:
  "reqs (fuse_queue_forget n l s) = reqs s" "ffs (fuse_queue_forget n l s) = ffs s"
  "next_id (fuse_queue_forget n l s) = next_id s" "connected (fuse_queue_forget n l s) = connected s"
  by (simp_all add: fuse_queue_forget_def Let_def)

lemma evict_writes:
  assumes run: "fuse_evict_inode j sb = Some sb'"
  shows "reqs (conn sb') = reqs (conn sb) \<and> ffs (conn sb') = ffs (conn sb) \<and> next_id (conn sb') = next_id (conn sb)"
    and "inodes sb' i = Some v' \<Longrightarrow> \<exists>v. inodes sb i = Some v \<and> wfields v' = wfields v"
  using run by (auto simp: fuse_evict_inode_def vfs_def upd_inode_def upd_conn_def wfields_def Let_def
      split: option.split_asm if_split_asm)

lemma destroy_writes:
  assumes run: "fuse_destroy_inode j sb = Some sb'"
  shows "reqs (conn sb') = reqs (conn sb) \<and> ffs (conn sb') = ffs (conn sb) \<and> next_id (conn sb') = next_id (conn sb)"
    and "inodes sb' i = Some v' \<Longrightarrow> \<exists>v. inodes sb i = Some v \<and> wfields v' = wfields v"
  using run by (auto simp: fuse_destroy_inode_def vfs_def split: option.split_asm if_split_asm)

lemma iput_writes:
  assumes run: "iput j sb = Some sb'"
  shows "reqs (conn sb') = reqs (conn sb) \<and> ffs (conn sb') = ffs (conn sb) \<and> next_id (conn sb') = next_id (conn sb)"
    and "inodes sb' i = Some v' \<Longrightarrow> \<exists>v. inodes sb i = Some v \<and> wfields v' = wfields v"
proof -
  obtain v where v: "inodes sb j = Some v" using run by (auto simp: iput_def split: option.split_asm)
  have "(reqs (conn sb') = reqs (conn sb) \<and> ffs (conn sb') = ffs (conn sb) \<and> next_id (conn sb') = next_id (conn sb)) \<and>
    (inodes sb' i = Some v' \<longrightarrow> (\<exists>v. inodes sb i = Some v \<and> wfields v' = wfields v))" for v'
  proof (cases "1 < i_count v")
    case True
    then show ?thesis using run v by (auto simp: iput_def upd_inode_def wfields_def split: if_split_asm)
  next
    case False
    then obtain sb1 where ev: "fuse_evict_inode j sb = Some sb1"
      and ds: "fuse_destroy_inode j (sb1\<lparr>ihash := unhash j (ihash sb1)\<rparr>) = Some sb'"
      using run v by (auto simp: iput_def elim: bind_Some_E)
    have "\<exists>v. inodes sb i = Some v \<and> wfields v' = wfields v" if "inodes sb' i = Some v'"
      using destroy_writes(2) [OF ds that] evict_writes(2) [OF ev, of i] by fastforce
    then show ?thesis using destroy_writes(1) [OF ds] evict_writes(1) [OF ev] by simp
  qed
  then show "reqs (conn sb') = reqs (conn sb) \<and> ffs (conn sb') = ffs (conn sb) \<and> next_id (conn sb') = next_id (conn sb)"
    and "inodes sb' i = Some v' \<Longrightarrow> \<exists>v. inodes sb i = Some v \<and> wfields v' = wfields v" by blast+
qed

lemma iput_opt_writes:
  assumes run: "iput_opt oi sb = Some sb'"
  shows "reqs (conn sb') = reqs (conn sb) \<and> ffs (conn sb') = ffs (conn sb) \<and> next_id (conn sb') = next_id (conn sb)"
    and "inodes sb' i = Some v' \<Longrightarrow> \<exists>v. inodes sb i = Some v \<and> wfields v' = wfields v"
  using run iput_writes [of _ sb sb'] by (auto simp: iput_opt_def split: option.split_asm)

text \<open>What a step of the code may do beside writeback: nothing to write requests or to the inode's part.\<close>

definition aside :: "ino_id \<Rightarrow> fuse_sb \<Rightarrow> fuse_sb \<Rightarrow> bool" where
  "aside i sb sb' \<longleftrightarrow> page_reqs i (conn sb') = page_reqs i (conn sb) \<and> (ids_ok (conn sb) \<longrightarrow> ids_ok (conn sb')) \<and>
     (\<forall>v'. inodes sb' i = Some v' \<longrightarrow> (\<exists>v. inodes sb i = Some v \<and> wfields v' = wfields v))"

lemma aside_refl [simp]: "aside i sb sb"
  by (simp add: aside_def)

lemma aside_trans: "aside i a b \<Longrightarrow> aside i b c \<Longrightarrow> aside i a c"
  unfolding aside_def by metis

lemma aside_conn: "page_reqs i s = page_reqs i (conn sb) \<Longrightarrow> (ids_ok (conn sb) \<Longrightarrow> ids_ok s) \<Longrightarrow> aside i sb (sb\<lparr>conn := s\<rparr>)"
  by (simp add: aside_def)

lemma aside_iput_opt: "iput_opt oi sb = Some sb' \<Longrightarrow> aside i sb sb'"
  using iput_opt_writes(1) [of oi sb sb'] iput_opt_writes(2) [of oi sb sb' i] page_reqs_cong [of "conn sb'" "conn sb"] ids_ok_cong [of "conn sb'" "conn sb"]
  by (auto simp: aside_def)

lemma put_request_aside:
  assumes "fuse_put_request (conn sb) r = Some s'" and "reqs (conn sb) r = Some q" and "write_of q = None"
    and "ids_ok (conn sb)"
  shows "aside i sb (sb\<lparr>conn := s'\<rparr>)"
proof (rule aside_conn)
  show "page_reqs i s' = page_reqs i (conn sb)"
  proof (rule ext)
    show "page_reqs i s' x = page_reqs i (conn sb) x" for x
      using put_request_writes(1,2) [OF assms(1,4)] assms(2,3) by (cases "x = r") auto
  qed
qed (rule put_request_writes(3) [OF assms(1)])

lemma send_background_aside:
  assumes run: "fuse_request_send_background (conn sb) r = Some s'" and q: "reqs (conn sb) r = Some q"
    and nw: "write_of q = None" and e: "rq_end q = Some e" and ids: "ids_ok (conn sb)"
  shows "aside i sb (sb\<lparr>conn := s'\<rparr>)"
proof (cases "connected (conn sb)")
  case True
  then have "fuse_request_send_background_locked (conn sb) r = Some s'"
    using run q e by (simp add: fuse_request_send_background_def)
  from send_background_writes [OF this q] show ?thesis by (intro aside_conn)
next
  case False
  let ?s1 = "upd_req r (set_out_error (- ENOTCONN)) (conn sb)"
  obtain s2 where cb: "run_end e r (set_out_error (- ENOTCONN) q) ?s1 = Some s2" and put: "fuse_put_request s2 r = Some s'"
    using run q e False by (auto simp: fuse_request_send_background_def elim: bind_Some_E)
  note same = run_end_frame [OF cb]
  have ids1: "ids_ok ?s1" using ids by (rule ids_ok_upd_req) simp
  have ids2: "ids_ok s2" using ids1 same by (simp add: ids_ok_cong [of s2 ?s1])
  have pr2: "page_reqs i s2 = page_reqs i (conn sb)"
    using page_reqs_cong [of s2 ?s1] same page_reqs_upd_same [of i "set_out_error (- ENOTCONN)"] by simp
  have "aside i (sb\<lparr>conn := s2\<rparr>) ((sb\<lparr>conn := s2\<rparr>)\<lparr>conn := s'\<rparr>)"
    using put_request_aside [of "sb\<lparr>conn := s2\<rparr>" r s'] put same q nw ids2 by simp
  moreover have "aside i sb (sb\<lparr>conn := s2\<rparr>)" using pr2 ids2 by (intro aside_conn)
  ultimately show ?thesis using aside_trans by fastforce
qed

lemma put_drop_aside:
  assumes run: "put_drop q r sb = Some sb'" and q: "reqs (conn sb) r = Some q" and nw: "write_of q = None" and ids: "ids_ok (conn sb)"
  shows "aside i sb sb'"
proof -
  let ?s0 = "upd_req r (clear_flag FR_BACKGROUND) (conn sb)"
  obtain sb1 s2 where ip: "iput_opt (release_inode q) (sb\<lparr>conn := ?s0\<rparr>) = Some sb1"
    and put: "fuse_put_request (conn sb1) r = Some s2" and sb': "sb' = sb1\<lparr>conn := s2\<rparr>"
    using run by (auto simp: put_drop_def upd_conn_def elim!: bind_Some_E)
  have 1: "aside i sb (sb\<lparr>conn := ?s0\<rparr>)" using page_reqs_upd_same [of i "clear_flag FR_BACKGROUND"]
    by (intro aside_conn) (auto intro: ids_ok_upd_req)
  have 2: "aside i (sb\<lparr>conn := ?s0\<rparr>) sb1" using ip by (rule aside_iput_opt)
  have ids1: "ids_ok (conn sb1)" using 1 2 ids by (simp add: aside_def)
  have "reqs (conn sb1) r = Some (clear_flag FR_BACKGROUND q)" using iput_opt_writes(1) [OF ip] q by simp
  from put_request_aside [OF put this _ ids1] nw have "aside i sb1 sb'" by (simp add: sb')
  with 1 2 show ?thesis using aside_trans by blast
qed

lemma put_async_aside:
  assumes run: "put_async q r sb = Some sb'" and q: "reqs (conn sb) r = Some q" and nw: "write_of q = None" and ids: "ids_ok (conn sb)"
  shows "aside i sb sb'"
proof -
  let ?f = "set_flag FR_BACKGROUND \<circ> rq_end_update (\<lambda>_. Some End_release)"
  let ?sb0 = "sb\<lparr>conn := upd_req r ?f (conn sb)\<rparr>"
  obtain s1 where send: "fuse_request_send_background (conn ?sb0) r = Some s1"
    and sb': "sb' = sb\<lparr>conn := s1\<rparr> \<or> fuse_release_end q (sb\<lparr>conn := s1\<rparr>) = Some sb'"
    using run by (auto simp: put_async_def elim!: bind_Some_E split: if_split_asm)
  have same: "preq_of i (?f q) = preq_of i q" for q by simp
  have 1: "aside i sb ?sb0" using page_reqs_upd_same [where f = ?f, OF same] ids by (intro aside_conn) (auto intro: ids_ok_upd_req)
  have "reqs (conn ?sb0) r = Some (?f q)" using q by simp
  moreover have "ids_ok (conn ?sb0)" using 1 ids by (simp add: aside_def)
  ultimately have "aside i ?sb0 (?sb0\<lparr>conn := s1\<rparr>)" using send_background_aside [OF send] nw by (simp add: set_flag_def write_of_def)
  then have 2: "aside i sb (sb\<lparr>conn := s1\<rparr>)" using 1 aside_trans by fastforce
  then show ?thesis using sb' aside_iput_opt aside_trans by (metis fuse_release_end_def)
qed

lemma file_put_aside:
  assumes run: "fuse_file_put wait ff False sb = Some sb'" and ids: "ids_ok (conn sb)"
  shows "aside i sb sb'"
proof -
  obtain f where f: "ffs (conn sb) ff = Some f" using run by (auto simp: fuse_file_put_def elim: bind_Some_E)
  let ?s1 = "upd_ff ff (ff_count_update (\<lambda>n. n - 1)) (conn sb)"
  let ?sb1 = "sb\<lparr>conn := ?s1\<rparr>"
  have 1: "aside i sb ?sb1" using page_reqs_cong [of ?s1 "conn sb"] ids_ok_upd_ff [of "conn sb"]
    by (intro aside_conn) auto
  show ?thesis
  proof (cases "ff_count f = 1")
    case False
    then show ?thesis using run f 1 by (simp add: fuse_file_put_def Let_def upd_conn_def)
  next
    case True
    then obtain r q sb2 where r: "ff_reserved_req f = Some r" and q: "reqs (conn sb) r = Some q"
      and p: "(if No_open \<in> fc_bits (conn sb) then put_drop q r ?sb1 else put_async q r ?sb1) = Some sb2"
      and sb': "sb' = sb2\<lparr>conn := (conn sb2)\<lparr>ffs := (ffs (conn sb2))(ff := None)\<rparr>\<rparr>"
      using run f by (auto simp: fuse_file_put_def Let_def upd_conn_def elim!: bind_Some_E cong: if_cong)
    have nw: "write_of q = None" using ids_okD(3) [OF ids f r q] .
    have ids1: "ids_ok (conn ?sb1)" using 1 ids by (simp add: aside_def)
    have q1: "reqs (conn ?sb1) r = Some q" using q by simp
    have 2: "aside i ?sb1 sb2" using p put_drop_aside [OF _ q1 nw ids1] put_async_aside [OF _ q1 nw ids1] by (auto split: if_split_asm)
    have "aside i sb2 sb'" unfolding sb'
      by (intro aside_conn page_reqs_cong) (auto simp: ids_ok_def split: if_split_asm)
    with 1 2 show ?thesis using aside_trans by blast
  qed
qed

subsection \<open>Sending and dropping\<close>

lemma stats_done_view: "stats_done ps wb = Some wb' \<Longrightarrow> wb_sb wb' = wb_sb wb \<and> frames wb' = frames wb"
  by (induction ps arbitrary: wb) (auto simp: stat_done_def elim!: bind_Some_E)

lemma finish_view:
  assumes "fuse_writepage_finish i q r wb = Some wb'"
  shows "wb_sb wb' = upd_inode i (writepages_update (without r)) (wb_sb wb)"
  using assms stats_done_view by (auto simp: fuse_writepage_finish_def winode_update_def Let_def elim!: bind_Some_E)

lemma free_aside:
  assumes "fuse_writepage_free wait q wb = Some wb'" and "ids_ok (wconn wb)"
  shows "aside i (wb_sb wb) (wb_sb wb')"
  using assms file_put_aside [of wait _ "wb_sb wb"]
  by (auto simp: fuse_writepage_free_def wconn_def Let_def elim!: bind_Some_E split: option.split_asm)

lemma wconn_simps [simp]:
  "wconn (wconn_update f wb) = f (wconn wb)" "wconn (winode_update i g wb) = wconn wb"
  "winode (wconn_update f wb) j = winode wb j"
  "winode (winode_update i g wb) j = (if j = i then map_option g (winode wb j) else winode wb j)"
  "wb_sb (wconn_update f wb) = upd_conn f (wb_sb wb)"
  by (simp_all add: wconn_def wconn_update_def winode_update_def upd_conn_def upd_inode_def)

lemma send_free_view:
  assumes run: "send_free wait i q r wb = Some wb'" and v: "winode wb i = Some v" and ids: "ids_ok (wconn wb)"
    and v': "winode wb' i = Some v'"
  shows "\<And>x. x \<noteq> r \<Longrightarrow> page_reqs i (wconn wb') x = page_reqs i (wconn wb) x"
    and "wfields v' = (queued_writes v, writectr v, without r (writepages v))" and "ids_ok (wconn wb')"
proof -
  obtain wb1 wb2 s where fin: "fuse_writepage_finish i q r wb = Some wb1"
    and fr: "fuse_writepage_free wait q wb1 = Some wb2" and put: "fuse_put_request (wconn wb2) r = Some s"
    and wb': "wb' = wconn_update (\<lambda>_. s) wb2"
    using run by (auto simp: send_free_def elim!: bind_Some_E)
  have c1: "wconn wb1 = wconn wb" and v1: "winode wb1 i = Some (v\<lparr>writepages := without r (writepages v)\<rparr>)"
    using finish_view [OF fin] v by (simp_all add: wconn_def)
  have as: "aside i (wb_sb wb1) (wb_sb wb2)" using free_aside [OF fr] ids c1 by simp
  then have ids2: "ids_ok (wconn wb2)" using ids c1 by (simp add: aside_def wconn_def)
  show "page_reqs i (wconn wb') x = page_reqs i (wconn wb) x" if "x \<noteq> r" for x
    using put_request_writes(1) [OF put ids2 that, of i] as c1 by (simp add: wb' aside_def wconn_def)
  have "winode wb2 i = Some v'" using v' by (simp add: wb')
  then have "wfields v' = wfields (v\<lparr>writepages := without r (writepages v)\<rparr>)" using as v1 by (auto simp: aside_def)
  then show "wfields v' = (queued_writes v, writectr v, without r (writepages v))" by (simp add: wfields_def)
  show "ids_ok (wconn wb')" using put_request_writes(3) [OF put ids2] by (simp add: wb')
qed

lemma set_write_fields:
  "write_of (set_arg1_size k (set_write enc w nx q)) = Some (w, nx)"
  "rq_inode (set_arg1_size k (set_write enc w nx q)) = rq_inode q"
  "rq_num_pages (set_arg1_size k (set_write enc w nx q)) = rq_num_pages q"
  "rq_flags (set_arg1_size k (set_write enc w nx q)) = rq_flags q"
  by (simp_all add: set_arg1_size_def set_write_def write_of_def)

lemma send_write_view:
  assumes run: "send_write enc i w nx r n wb = Some wb'" and v: "winode wb i = Some v" and ids: "ids_ok (wconn wb)"
    and q: "reqs (wconn wb) r = Some q" "write_of q = Some (w, nx)"
  shows "page_reqs i (wconn wb') = page_reqs i (wconn wb)"
    and "winode wb' i = Some (v\<lparr>writectr := writectr v + 1\<rparr>)" and "ids_ok (wconn wb')"
proof -
  let ?f = "set_arg1_size (unat n) \<circ> set_write enc (w\<lparr>wi_size := n\<rparr>) nx"
  obtain s where send: "fuse_request_send_background_locked (upd_req r ?f (wconn wb)) r = Some s"
    and wb': "wb' = wconn_update (\<lambda>_. s) (winode_update i (writectr_update (\<lambda>c. c + 1)) wb)"
    using run by (auto simp: send_write_def elim!: bind_Some_E)
  have q': "reqs (upd_req r ?f (wconn wb)) r = Some (?f q)" using q(1) by simp
  have "preq_of i (?f q) = preq_of i q"
    using q(2) set_write_fields [of "unat n" enc "w\<lparr>wi_size := n\<rparr>" nx q] by (simp add: preq_of_def first_page_def)
  then have "page_reqs i (upd_req r ?f (wconn wb)) = page_reqs i (wconn wb)"
    using q(1) by (simp add: page_reqs_upd fun_eq_iff page_reqs_def)
  then show "page_reqs i (wconn wb') = page_reqs i (wconn wb)"
    using send_background_writes(1) [OF send q'] by (simp add: wb')
  show "winode wb' i = Some (v\<lparr>writectr := writectr v + 1\<rparr>)" using v by (simp add: wb')
  have "ids_ok (upd_req r ?f (wconn wb))" using ids q by (intro ids_ok_upd_req) simp_all
  then show "ids_ok (wconn wb')" using send_background_writes(2) [OF send q'] by (simp add: wb')
qed

text \<open>The two outcomes of \<open>fuse_send_writepage\<close>.\<close>

lemma send_writepage_view:
  assumes run: "fuse_send_writepage enc wait lim r wb = Some wb'" and q: "reqs (wconn wb) r = Some q" "rq_inode q = Some i"
    and v: "winode wb i = Some v" and ids: "ids_ok (wconn wb)" and v': "winode wb' i = Some v'"
  shows "ids_ok (wconn wb')"
    and "(page_reqs i (wconn wb') = page_reqs i (wconn wb) \<and> wfields v' = (queued_writes v, writectr v + 1, writepages v)) \<or>
     ((\<forall>x. x \<noteq> r \<longrightarrow> page_reqs i (wconn wb') x = page_reqs i (wconn wb) x) \<and>
      wfields v' = (queued_writes v, writectr v, without r (writepages v)))"
proof -
  from run q v obtain w nx where w: "write_of q = Some (w, nx)"
    by (auto simp: fuse_send_writepage_def elim!: bind_Some_E)
  have "send_free wait i q r wb = Some wb' \<or> (\<exists>n. send_write enc i w nx r n wb = Some wb')"
    using run q v w by (auto simp: fuse_send_writepage_def Let_def split: if_split_asm option.split_asm)
  then consider "send_free wait i q r wb = Some wb'" | n where "send_write enc i w nx r n wb = Some wb'" by blast
  then have "ids_ok (wconn wb') \<and> ((page_reqs i (wconn wb') = page_reqs i (wconn wb) \<and> wfields v' = (queued_writes v, writectr v + 1, writepages v)) \<or>
     ((\<forall>x. x \<noteq> r \<longrightarrow> page_reqs i (wconn wb') x = page_reqs i (wconn wb) x) \<and>
      wfields v' = (queued_writes v, writectr v, without r (writepages v))))"
  proof cases
    case 1
    from send_free_view [OF this v ids v'] show ?thesis by blast
  next
    case 2
    from send_write_view [OF this v ids q(1) w] v' show ?thesis by (simp add: wfields_def)
  qed
  then show "ids_ok (wconn wb')"
    and "(page_reqs i (wconn wb') = page_reqs i (wconn wb) \<and> wfields v' = (queued_writes v, writectr v + 1, writepages v)) \<or>
     ((\<forall>x. x \<noteq> r \<longrightarrow> page_reqs i (wconn wb') x = page_reqs i (wconn wb) x) \<and>
      wfields v' = (queued_writes v, writectr v, without r (writepages v)))" by blast+
qed

text \<open>A request taken off the list is not tracked any more.\<close>

lemma removed_untracked:
  assumes inv: "pinv D None held s" and r: "r \<in> pW s" and t: "pW t = pW s - {r}" "preqs t = preqs s"
  shows "r \<notin> live t"
proof -
  have "owned t x = owned s x" for x by (simp add: owned_def t)
  then show ?thesis using not_owned [OF inv r] by (auto simp: live_def t)
qed

lemma drop_steps:
  assumes inv: "pinv D None held s" and q: "pQ s = r # rest" and P: "\<And>x. x \<noteq> r \<Longrightarrow> P x = preqs s x"
  shows "(pstep D B K)\<^sup>*\<^sup>* s (s\<lparr>pQ := rest, pW := pW s - {r}, preqs := P\<rparr>)"
proof -
  let ?t = "s\<lparr>pQ := rest, pW := pW s - {r}\<rparr>"
  have "r \<in> pW s" using pinvD(3) [OF inv] q by auto
  then have "r \<notin> live ?t" using removed_untracked [OF inv] by simp
  then have "P x = preqs ?t x" if "x \<in> live ?t" for x using P [of x] that by (cases "x = r") simp_all
  then have "pstep D B K ?t (?t\<lparr>preqs := P\<rparr>)" by (rule Untracked)
  moreover have "pstep D B K s ?t" using q by (rule Drop)
  ultimately show ?thesis by auto
qed

lemma view_eq:
  assumes "winode wb i = Some v"
  shows "view i A wb = \<lparr>pW = set (writepages v), pQ = queued_writes v, pA = A, pctr = writectr v,
     preqs = page_reqs i (wconn wb)\<rparr>"
  using assms by (simp add: view_def)

lemma tracked_request:
  assumes "pinv D E held (view i A wb)" and "r \<in> pW (view i A wb)"
  obtains q w nx where "reqs (wconn wb) r = Some q" and "rq_inode q = Some i" and "write_of q = Some (w, nx)"
    and "page_reqs i (wconn wb) r = Some \<lparr>p_first = first_page w, p_num = rq_num_pages q, p_next = nx,
           p_pending = (FR_PENDING \<in> rq_flags q)\<rparr>"
proof -
  have "primary_ok (view i A wb) r" using pinvD(9) [OF assms(1)] assms(2) .
  then obtain p where "page_reqs i (wconn wb) r = Some p" by (auto simp: primary_ok_def view_def Let_def)
  then show ?thesis using that by (auto simp: page_reqs_def preq_of_def elim!: bind_Some_E split: if_split_asm option.split_asm)
qed

text \<open>A flush takes requests off the list at most; it leaves those alone that were sent before.\<close>

definition thins :: "pstate \<Rightarrow> pstate \<Rightarrow> bool" where
  "thins s t \<longleftrightarrow> pW t \<subseteq> pW s \<and> (\<forall>x\<in>pW t. preqs t x = preqs s x) \<and> sent s \<subseteq> sent t"

lemma thins_refl [simp]: "thins s s"
  by (simp add: thins_def)

lemma thins_trans: "thins s t \<Longrightarrow> thins t u \<Longrightarrow> thins s u"
  by (fastforce simp: thins_def)

text \<open>One iteration of the flush.\<close>

lemma flush_iteration:
  assumes run: "fuse_send_writepage enc wait crop (hd (queued_writes v)) (winode_update i (queued_writes_update tl) wb) = Some wb1"
    and v: "winode wb i = Some v" and ne: "queued_writes v \<noteq> []" and pos: "0 \<le> writectr v" and ids: "ids_ok (wconn wb)"
    and v1: "winode wb1 i = Some v1" and inv: "pinv D None held (view i A wb)"
  shows "(pstep D B K)\<^sup>*\<^sup>* (view i A wb) (view i A wb1)" and "ids_ok (wconn wb1)"
    and "thins (view i A wb) (view i A wb1)"
proof -
  obtain r rest where q: "queued_writes v = r # rest" using ne by (cases "queued_writes v") auto
  have pq: "pQ (view i A wb) = r # rest" using q v by (simp add: view_eq)
  then have "r \<in> pW (view i A wb)" using pinvD(3) [OF inv] by auto
  then obtain rq where r: "reqs (wconn wb) r = Some rq" "rq_inode rq = Some i"
    using tracked_request [OF inv] by metis
  note out = send_writepage_view [OF run [unfolded q list.sel] _ r(2) _ _ v1, of "v\<lparr>queued_writes := rest\<rparr>"]
  show "ids_ok (wconn wb1)" using out(1) r(1) v q ids by simp
  have "(page_reqs i (wconn wb1) = page_reqs i (wconn wb) \<and> wfields v1 = (rest, writectr v + 1, writepages v)) \<or>
     ((\<forall>x. x \<noteq> r \<longrightarrow> page_reqs i (wconn wb1) x = page_reqs i (wconn wb) x) \<and>
      wfields v1 = (rest, writectr v, without r (writepages v)))"
    using out(2) r(1) v q ids by simp
  then have "(pstep D B K)\<^sup>*\<^sup>* (view i A wb) (view i A wb1) \<and> thins (view i A wb) (view i A wb1)"
  proof (elim disjE conjE)
    assume same: "page_reqs i (wconn wb1) = page_reqs i (wconn wb)" and f: "wfields v1 = (rest, writectr v + 1, writepages v)"
    have "view i A wb1 = (view i A wb)\<lparr>pQ := rest, pctr := pctr (view i A wb) + 1\<rparr>"
      using f same by (simp add: view_eq [OF v] view_eq [OF v1] wfields_def)
    moreover have "thins (view i A wb) ((view i A wb)\<lparr>pQ := rest, pctr := pctr (view i A wb) + 1\<rparr>)"
      using pq by (auto simp: thins_def sent_def)
    ultimately show ?thesis using r_into_rtranclp [of "pstep D B K", OF Send [OF _ pq]] pos by (simp add: view_eq [OF v])
  next
    assume same: "\<forall>x. x \<noteq> r \<longrightarrow> page_reqs i (wconn wb1) x = page_reqs i (wconn wb) x"
      and f: "wfields v1 = (rest, writectr v, without r (writepages v))"
    have "view i A wb1 = (view i A wb)\<lparr>pQ := rest, pW := pW (view i A wb) - {r}, preqs := page_reqs i (wconn wb1)\<rparr>"
      using f by (simp add: view_eq [OF v] view_eq [OF v1] wfields_def)
    moreover have "thins (view i A wb) ((view i A wb)\<lparr>pQ := rest, pW := pW (view i A wb) - {r}, preqs := page_reqs i (wconn wb1)\<rparr>)"
      using pq same by (auto simp: thins_def sent_def view_eq [OF v])
    ultimately show ?thesis using drop_steps [OF inv pq, of "page_reqs i (wconn wb1)"] same by (simp add: view_eq [OF v])
  qed
  then show "(pstep D B K)\<^sup>*\<^sup>* (view i A wb) (view i A wb1)" and "thins (view i A wb) (view i A wb1)" by blast+
qed

definition flushed :: "ino_id \<Rightarrow> fuse_wb \<Rightarrow> bool" where
  "flushed i wb \<longleftrightarrow> (\<exists>v. winode wb i = Some v \<and> (writectr v < 0 \<or> queued_writes v = []))"

lemma flush_simulates:
  assumes "flush_queued enc wait crop i wb = Some wb'"
  shows "winode wb i \<noteq> None \<and> flushed i wb' \<and> (\<forall>A held B K. ids_ok (wconn wb) \<longrightarrow> pinv D None held (view i A wb) \<longrightarrow>
     (pstep D B K)\<^sup>*\<^sup>* (view i A wb) (view i A wb') \<and> ids_ok (wconn wb') \<and> thins (view i A wb) (view i A wb'))"
  using assms
proof (induction rule: flush_queued.raw_induct [rotated, consumes 1])
  case (1 flush enc wait crop i wb wb')
  obtain v where v: "winode wb i = Some v" using "1.hyps" by (auto elim: bind_Some_E)
  show ?case
  proof (cases "writectr v < 0 \<or> queued_writes v = []")
    case True
    then have "wb' = wb" using "1.hyps" v by auto
    then show ?thesis using True v by (auto simp: flushed_def)
  next
    case False
    then obtain wb1 where send: "fuse_send_writepage enc wait crop (hd (queued_writes v)) (winode_update i (queued_writes_update tl) wb) = Some wb1"
      and rest: "flush enc wait crop i wb1 = Some wb'"
      using "1.hyps" v by (auto elim: bind_Some_E)
    note IH = "1.IH" [OF rest]
    then obtain v1 where v1: "winode wb1 i = Some v1" by auto
    have "(pstep D B K)\<^sup>*\<^sup>* (view i A wb) (view i A wb') \<and> ids_ok (wconn wb') \<and> thins (view i A wb) (view i A wb')"
      if ids: "ids_ok (wconn wb)" and inv: "pinv D None held (view i A wb)" for A held B K
    proof -
      have steps: "(pstep D B K)\<^sup>*\<^sup>* (view i A wb) (view i A wb1)" and ids1: "ids_ok (wconn wb1)" and th: "thins (view i A wb) (view i A wb1)"
        using flush_iteration [OF send v _ _ ids v1 inv] False by auto
      have "pinv D None held (view i A wb1)" using psteps_pinv [OF steps inv] .
      then show ?thesis using IH ids1 steps th by (meson rtranclp_trans thins_trans)
    qed
    then show ?thesis using IH v by blast
  qed
qed

lemma flush_view:
  assumes "fuse_flush_writepages enc wait i wb = Some wb'" and "ids_ok (wconn wb)" and "pinv D None held (view i A wb)"
  shows "(pstep D B K)\<^sup>*\<^sup>* (view i A wb) (view i A wb')" and "ids_ok (wconn wb')" and "flushed i wb'"
    and "thins (view i A wb) (view i A wb')"
  using assms flush_simulates by (fastforce simp: fuse_flush_writepages_def elim!: bind_Some_E)+

subsection \<open>The end of a request\<close>

lemma set_next_fields:
  "write_of (set_next nx q) = map_option (\<lambda>(w, _). (w, nx)) (write_of q)"
  "rq_inode (set_next nx q) = rq_inode q" "rq_num_pages (set_next nx q) = rq_num_pages q"
  "rq_flags (set_next nx q) = rq_flags q" "rq_ff (set_next nx q) = rq_ff q" "rq_pages (set_next nx q) = rq_pages q"
  by (auto simp: set_next_def write_of_def split: fuse_misc.split)

lemma preq_of_set_next: "preq_of i (set_next nx q) = map_option (p_next_update (\<lambda>_. nx)) (preq_of i q)"
  by (auto simp: preq_of_def set_next_fields split: option.split)

lemma page_reqs_Some:
  "page_reqs i s r = Some p \<longleftrightarrow> (\<exists>q w nx. reqs s r = Some q \<and> rq_inode q = Some i \<and> write_of q = Some (w, nx) \<and>
     p = \<lparr>p_first = first_page w, p_num = rq_num_pages q, p_next = nx, p_pending = (FR_PENDING \<in> rq_flags q)\<rparr>)"
  by (cases "reqs s r") (auto simp: page_reqs_def preq_of_def split: option.splits if_splits)

lemma file_get_view:
  assumes "fuse_file_get s ff = Some s'"
  shows "page_reqs i s' = page_reqs i s" and "reqs s' = reqs s" and "ids_ok s \<Longrightarrow> ids_ok s'"
  using assms ids_ok_upd_ff [of s "ff_count_update (\<lambda>n. n + 1)" ff] by (auto simp: fuse_file_get_def intro: page_reqs_cong split: if_split_asm)

text \<open>A request that ends, and the next of its chain.\<close>

lemma ending_next:
  assumes inv: "pinv D (Some e) held s" and q: "preqs s e = Some q" "p_next q = Some n"
  obtains p where "preqs s n = Some p" and "e \<noteq> n" and "n \<notin> pW s"
proof -
  note I = pinvD [OF inv]
  have eW: "e \<in> pW s" using I(6) by (simp add: sent_def)
  obtain p' cs where "preqs s e = Some p'" "chain (preqs s) (p_next p') cs" "secondaries (preqs s) (pW s) (pages p') cs"
    using I(9) [OF eW] by (rule primary_okE)
  with q have "chain (preqs s) (Some n) cs" "set cs \<inter> pW s = {}" by (auto simp: secondaries_def)
  then show ?thesis using that eW by (cases cs) auto
qed

lemma promote_view:
  assumes run: "promote enc wait i q w r n wb = Some wb1" and q: "reqs (wconn wb) r = Some q" "rq_inode q = Some i" "write_of q = Some (w, Some n)"
    and v: "winode wb i = Some v" and v1: "winode wb1 i = Some v1" and ids: "ids_ok (wconn wb)"
    and inv: "pinv D (Some r) held (view i A wb)"
  shows "(pend r)\<^sup>*\<^sup>* (view i A wb) (view i A wb1)" and "ids_ok (wconn wb1)"
proof -
  let ?s = "view i A wb" and ?P = "page_reqs i (wconn wb)"
  obtain qn wn nn ff s2 where n: "reqs (wconn wb) n = Some qn" "write_of qn = Some (wn, nn)"
    and get: "fuse_file_get (upd_req n (rq_ff_update (\<lambda>_. Some ff)) (upd_req n (set_next None) (upd_req r (set_next nn) (wconn wb)))) ff = Some s2"
    and send: "fuse_send_writepage enc wait (wi_offset w + ucast (wi_size w)) n
       (winode_update i (writepages_update ((#) n)) (wconn_update (\<lambda>_. s2) wb)) = Some wb1"
    using run by (auto simp: promote_def Let_def elim!: bind_Some_E)
  define p where "p = \<lparr>p_first = first_page wn, p_num = rq_num_pages qn, p_next = nn, p_pending = (FR_PENDING \<in> rq_flags qn)\<rparr>"
  obtain pe where pe: "?P r = Some pe" "p_next pe = Some n" using q page_reqs_Some [of i "wconn wb" r] by auto
  obtain pn where "?P n = Some pn" and rn: "r \<noteq> n" and nW: "n \<notin> pW ?s"
    by (rule ending_next [OF inv, of pe n]) (use pe v in \<open>auto simp: view_eq\<close>)
  then have pn: "?P n = Some p" and ni: "rq_inode qn = Some i" using n by (auto simp: page_reqs_Some p_def)
  have P2: "page_reqs i s2 = ?P(r \<mapsto> pe\<lparr>p_next := nn\<rparr>, n \<mapsto> p\<lparr>p_next := None\<rparr>)"
    using file_get_view(1) [OF get, of i] rn pe pn q n
    by (simp add: page_reqs_upd preq_of_set_next page_reqs_def fun_upd_twist)
  have r2: "reqs s2 n = Some (rq_ff_update (\<lambda>_. Some ff) (set_next None qn))" using file_get_view(2) [OF get] n rn by simp
  have ids2: "ids_ok s2" using ids by (intro file_get_view(3) [OF get] ids_ok_upd_req) (auto simp: set_next_fields)
  note out = send_writepage_view [OF send _ _ _ _ v1, where q = "rq_ff_update (\<lambda>_. Some ff) (set_next None qn)" and v = "v\<lparr>writepages := n # writepages v\<rparr>"]
  show "ids_ok (wconn wb1)" using out(1) r2 ni v ids2 by (simp add: set_next_fields)
  have "(page_reqs i (wconn wb1) = page_reqs i s2 \<and> wfields v1 = (queued_writes v, writectr v + 1, n # writepages v)) \<or>
     ((\<forall>x. x \<noteq> n \<longrightarrow> page_reqs i (wconn wb1) x = page_reqs i s2 x) \<and> wfields v1 = (queued_writes v, writectr v, without n (n # writepages v)))"
    using out(2) r2 ni v ids2 by (simp add: set_next_fields)
  then show "(pend r)\<^sup>*\<^sup>* ?s (view i A wb1)"
  proof (elim disjE conjE)
    assume same: "page_reqs i (wconn wb1) = page_reqs i s2" and f: "wfields v1 = (queued_writes v, writectr v + 1, n # writepages v)"
    have "view i A wb1 = ?s\<lparr>pW := insert n (pW ?s), pctr := pctr ?s + 1, preqs := (preqs ?s)(n \<mapsto> p\<lparr>p_next := None\<rparr>, r \<mapsto> pe\<lparr>p_next := p_next p\<rparr>)\<rparr>"
      using f same rn P2 by (simp add: view_eq [OF v] view_eq [OF v1] wfields_def p_def fun_upd_twist)
    moreover have "pend r ?s (?s\<lparr>pW := insert n (pW ?s), pctr := pctr ?s + 1, preqs := (preqs ?s)(n \<mapsto> p\<lparr>p_next := None\<rparr>, r \<mapsto> pe\<lparr>p_next := p_next p\<rparr>)\<rparr>)"
      using pe pn v by (intro Promote) (simp_all add: view_eq)
    ultimately show ?thesis by (metis r_into_rtranclp)
  next
    assume same: "\<forall>x. x \<noteq> n \<longrightarrow> page_reqs i (wconn wb1) x = page_reqs i s2 x"
      and f: "wfields v1 = (queued_writes v, writectr v, without n (n # writepages v))"
    let ?t = "?s\<lparr>preqs := (preqs ?s)(r \<mapsto> pe\<lparr>p_next := p_next p\<rparr>)\<rparr>"
    have pes: "preqs ?s r = Some pe" "preqs ?s n = Some p" using pe pn v by (simp_all add: view_eq)
    have "pend r ?s ?t" using pes pe(2) by (intro Skip)
    moreover have "n \<notin> live ?t" using skip_untracked [OF inv pes(1) pe(2) pes(2)] .
    then have "pend r ?t (?t\<lparr>preqs := page_reqs i (wconn wb1)\<rparr>)"
    proof (intro Other)
      show "page_reqs i (wconn wb1) x = preqs ?t x" if "n \<notin> live ?t" "x \<in> live ?t" for x
      proof -
        have "x \<noteq> n" using that by blast
        then show ?thesis using same P2 by (simp add: view_eq [OF v] p_def)
      qed
    qed
    moreover have "view i A wb1 = ?t\<lparr>preqs := page_reqs i (wconn wb1)\<rparr>"
      using f nW by (simp add: view_eq [OF v] view_eq [OF v1] wfields_def)
    ultimately show ?thesis by (metis rtranclp.simps)
  qed
qed

text \<open>No operation makes the inode appear.\<close>

lemma iput_opt_alive: "iput_opt oi sb = Some sb' \<Longrightarrow> inodes sb' i \<noteq> None \<Longrightarrow> inodes sb i \<noteq> None"
  using iput_opt_writes(2) [of oi sb sb' i] by auto

lemma file_put_alive:
  assumes "fuse_file_put wait ff False sb = Some sb'" and "inodes sb' i \<noteq> None"
  shows "inodes sb i \<noteq> None"
proof -
  have drop: "\<exists>z. inodes sb1 i = Some z" if "put_drop q r sb1 = Some sb2" "inodes sb2 i = Some y" for q r sb1 sb2 y
    using that iput_opt_alive by (fastforce simp: put_drop_def upd_conn_def elim!: bind_Some_E)
  have async: "\<exists>z. inodes sb1 i = Some z" if "put_async q r sb1 = Some sb2" "inodes sb2 i = Some y" for q r sb1 sb2 y
    using that iput_opt_alive
    by (fastforce simp: put_async_def fuse_release_end_def elim!: bind_Some_E split: if_split_asm)
  show ?thesis using assms
    by (auto simp: fuse_file_put_def Let_def upd_conn_def elim!: bind_Some_E split: if_split_asm) (auto dest: drop async)
qed

lemma finish_alive:
  assumes "fuse_writepage_finish j q r wb = Some wb'" and "winode wb' i \<noteq> None"
  shows "winode wb i \<noteq> None"
  using finish_view [OF assms(1)] assms(2) by (auto simp: upd_inode_def split: if_split_asm)

lemma free_alive:
  assumes "fuse_writepage_free wait q wb = Some wb'" and "winode wb' i \<noteq> None"
  shows "winode wb i \<noteq> None"
  using assms file_put_alive [of wait _ "wb_sb wb" _ i]
  by (auto simp: fuse_writepage_free_def Let_def elim!: bind_Some_E split: option.split_asm)

lemma send_writepage_alive:
  assumes "fuse_send_writepage enc wait lim r wb = Some wb'" and "winode wb' i \<noteq> None"
  shows "winode wb i \<noteq> None"
proof -
  have "winode wb i \<noteq> None" if "send_free wait j q r wb = Some wb'" for j q
    using that assms(2) by (auto simp: send_free_def elim!: bind_Some_E dest!: free_alive [of _ _ _ _ i] finish_alive [of _ _ _ _ _ i])
  moreover have "winode wb i \<noteq> None" if "send_write enc j w nx r n wb = Some wb'" for j w nx n
    using that assms(2) by (auto simp: send_write_def elim!: bind_Some_E split: if_split_asm)
  ultimately show ?thesis using assms(1)
    by (auto simp: fuse_send_writepage_def Let_def elim!: bind_Some_E split: if_split_asm option.split_asm)
qed

lemma promote_alive:
  assumes "promote enc wait j q w r n wb = Some wb'" and "winode wb' i \<noteq> None"
  shows "winode wb i \<noteq> None"
  using assms send_writepage_alive [of enc wait _ n _ wb' i]
  by (fastforce simp: promote_def Let_def elim!: bind_Some_E split: if_split_asm)

lemma end_secondaries_simulates:
  assumes "end_secondaries enc wait i r wb = Some wb'"
  shows "winode wb' i \<noteq> None \<longrightarrow> winode wb i \<noteq> None \<and>
    (\<forall>A held. ids_ok (wconn wb) \<longrightarrow> pinv D (Some r) held (view i A wb) \<longrightarrow>
     (pend r)\<^sup>*\<^sup>* (view i A wb) (view i A wb') \<and> ids_ok (wconn wb') \<and>
     (\<exists>p. page_reqs i (wconn wb') r = Some p \<and> p_next p = None))"
  using assms
proof (induction rule: end_secondaries.raw_induct [rotated, consumes 1])
  case (1 loop enc wait i r wb wb')
  obtain q w nx where q: "reqs (wconn wb) r = Some q" "write_of q = Some (w, nx)"
    using "1.hyps" by (auto elim!: bind_Some_E)
  show ?case
  proof (cases nx)
    case None
    then have same: "wb' = wb" using "1.hyps" q by simp
    have "\<exists>p. page_reqs i (wconn wb) r = Some p \<and> p_next p = None" if "pinv D (Some r) held (view i A wb)" for A held
    proof -
      have "r \<in> pW (view i A wb)" using pinvD(6) [OF that] by (simp add: sent_def)
      then show ?thesis using q None by (elim tracked_request [OF that]) auto
    qed
    then show ?thesis using same by blast
  next
    case (Some n)
    then obtain wb1 where pr: "promote enc wait i q w r n wb = Some wb1" and rest: "loop enc wait i r wb1 = Some wb'"
      using "1.hyps" q by (auto elim!: bind_Some_E)
    note IH = "1.IH" [OF rest]
    have v: "winode wb i \<noteq> None" if "winode wb1 i \<noteq> None" using promote_alive [OF pr that] .
    have "(pend r)\<^sup>*\<^sup>* (view i A wb) (view i A wb') \<and> ids_ok (wconn wb') \<and>
       (\<exists>p. page_reqs i (wconn wb') r = Some p \<and> p_next p = None)"
      if alive: "winode wb' i \<noteq> None" and ids: "ids_ok (wconn wb)" and inv: "pinv D (Some r) held (view i A wb)" for A held
    proof -
      obtain v1 where v1: "winode wb1 i = Some v1" using IH alive by auto
      obtain v0 where v0: "winode wb i = Some v0" using v v1 by auto
      have "r \<in> pW (view i A wb)" using pinvD(6) [OF inv] by (simp add: sent_def)
      then have qi: "rq_inode q = Some i" using q by (elim tracked_request [OF inv]) simp
      note step = promote_view [OF pr q(1) qi _ v0 v1 ids inv]
      have steps: "(pend r)\<^sup>*\<^sup>* (view i A wb) (view i A wb1)" and ids1: "ids_ok (wconn wb1)"
        using step q(2) Some by simp_all
      have inv1: "pinv D (Some r) held (view i A wb1)" using pends_pinv [OF steps inv] .
      show ?thesis using IH alive ids1 inv1 rtranclp_trans [OF steps] by blast
    qed
    then show ?thesis using v IH by blast
  qed
qed

lemma aside_view:
  assumes "aside i (wb_sb wb) (wb_sb wb')" and "winode wb' i = Some v'"
  shows "winode wb i \<noteq> None" and "view i A wb' = view i A wb"
  using assms by (auto simp: aside_def view_def wfields_def wconn_def Let_def)

lemma writepage_end_view:
  assumes run: "fuse_writepage_end enc wait r wb = Some wb'" and q: "reqs (wconn wb) r = Some q" "rq_inode q = Some i"
    and alive: "winode wb' i \<noteq> None" and ids: "ids_ok (wconn wb)" and inv: "pinv D None held (view i A wb)"
    and r: "r \<in> sent (view i A wb)"
  obtains t p where "(pend r)\<^sup>*\<^sup>* (view i A wb) t" and "preqs t r = Some p" and "p_next p = None" and "view i A wb' = t\<lparr>pW := pW t - {r}, pctr := pctr t - 1\<rparr>"
    and "ids_ok (wconn wb')" and "pinv D None held (view i A wb')" and "\<And>B. B \<subseteq> A \<Longrightarrow> leaves B {} (view i A wb) (view i A wb')"
proof -
  define wb0 where "wb0 = (if oh_error (out_h (rq_out q)) \<noteq> 0 then wb\<lparr>mapping_errors := oh_error (out_h (rq_out q)) # mapping_errors wb\<rparr> else wb)"
  obtain wb2 wb3 where sec: "end_secondaries enc wait i r wb0 = Some wb2"
    and fin: "fuse_writepage_finish i q r (winode_update i (writectr_update (\<lambda>c. c - 1)) wb2) = Some wb3"
    and fr: "fuse_writepage_free wait q wb3 = Some wb'"
    using run q that by (auto simp: fuse_writepage_end_def Let_def wb0_def elim!: bind_Some_E)
  have c0: "wconn wb0 = wconn wb" "view i A wb0 = view i A wb" by (simp_all add: wb0_def wconn_def view_def)
  have alive3: "winode wb3 i \<noteq> None" using free_alive [OF fr alive] .
  then have alive2: "winode wb2 i \<noteq> None" using finish_alive [OF fin, of i] by auto
  then obtain v2 where v2: "winode wb2 i = Some v2" by blast
  note sim = end_secondaries_simulates [OF sec]
  have inv_r: "pinv D (Some r) held (view i A wb)" using pinv_start_end [OF inv r] .
  have steps: "(pend r)\<^sup>*\<^sup>* (view i A wb) (view i A wb2)" and ids2: "ids_ok (wconn wb2)"
    and last: "\<exists>p. page_reqs i (wconn wb2) r = Some p \<and> p_next p = None"
    using sim [THEN mp, OF alive2, THEN conjunct2, rule_format, of D held A, unfolded c0, OF ids inv_r] by blast+
  have wb3: "wb_sb wb3 = upd_inode i (writepages_update (without r)) (wb_sb (winode_update i (writectr_update (\<lambda>c. c - 1)) wb2))"
    using finish_view [OF fin] .
  have c3: "wconn wb3 = wconn wb2" and v3: "winode wb3 i = Some (v2\<lparr>writectr := writectr v2 - 1, writepages := without r (writepages v2)\<rparr>)"
    using wb3 v2 by (simp_all add: wconn_def winode_update_def upd_inode_def)
  have as: "aside i (wb_sb wb3) (wb_sb wb')" using free_aside [OF fr] ids2 c3 by simp
  obtain v' where "winode wb' i = Some v'" using alive by blast
  from aside_view(2) [OF as this] have "view i A wb' = view i A wb3" .
  then have fin_view: "view i A wb' = (view i A wb2)\<lparr>pW := pW (view i A wb2) - {r}, pctr := pctr (view i A wb2) - 1\<rparr>"
    using c3 by (simp add: view_eq [OF v2] view_eq [OF v3])
  have ids': "ids_ok (wconn wb')" using as ids2 c3 by (simp add: aside_def wconn_def)
  have inv2: "pinv D (Some r) held (view i A wb2)" using pends_pinv [OF steps inv_r] .
  obtain p where p: "preqs (view i A wb2) r = Some p" "p_next p = None" using last v2 by (auto simp: view_eq)
  have inv': "pinv D None held (view i A wb')" unfolding fin_view using pinv_end [OF inv2 p] .
  have "leaves B {} (view i A wb) (view i A wb')" if B: "B \<subseteq> A" for B
  proof -
    have old: "leaves B {} (view i A wb) (view i A wb2)"
      using pends_leaves [OF steps inv_r] B by (simp add: view_def Let_def)
    have "leaves B {} (view i A wb2) (view i A wb')" unfolding fin_view
      using leavesD(2) [OF old] by (auto simp: leaves_def shape_def covered_def)
    with old show ?thesis by (rule leaves_trans)
  qed
  then show ?thesis using that steps p fin_view ids' inv' by blast
qed

text \<open>Holding writes back, and their release.\<close>

lemma set_nowrite_view:
  assumes "set_nowrite_start i wb = Some wb'"
  shows "view i A wb' = (view i A wb)\<lparr>pctr := pctr (view i A wb) + FUSE_NOWRITE\<rparr>" and "wconn wb' = wconn wb"
  using assms by (auto simp: set_nowrite_start_def view_def elim!: bind_Some_E split: if_split_asm)

lemma release_nowrite_view:
  assumes run: "fuse_release_nowrite enc wait i wb = Some wb'" and ids: "ids_ok (wconn wb)" and inv: "pinv D None held (view i A wb)"
  shows "pctr (view i A wb) = FUSE_NOWRITE" and "(pstep D B K)\<^sup>*\<^sup>* ((view i A wb)\<lparr>pctr := 0\<rparr>) (view i A wb')"
    and "ids_ok (wconn wb')" and "pinv D None False (view i A wb')" and "flushed i wb'"
proof -
  obtain v where v: "winode wb i = Some v" "writectr v = FUSE_NOWRITE"
    and fl: "fuse_flush_writepages enc wait i (winode_update i (writectr_update (\<lambda>_. 0)) wb) = Some wb'"
    using run by (auto simp: fuse_release_nowrite_def elim!: bind_Some_E split: if_split_asm)
  show q: "pctr (view i A wb) = FUSE_NOWRITE" using v by (simp add: view_eq)
  have view0: "view i A (winode_update i (writectr_update (\<lambda>_. 0)) wb) = (view i A wb)\<lparr>pctr := 0\<rparr>"
    using v by (simp add: view_eq [OF v(1)] view_eq [of "winode_update i (writectr_update (\<lambda>_. 0)) wb" i "v\<lparr>writectr := 0\<rparr>"])
  have inv0: "pinv D None False (view i A (winode_update i (writectr_update (\<lambda>_. 0)) wb))"
    unfolding view0 using pinv_release [OF inv q] .
  note out = flush_view [OF fl _ inv0]
  show "(pstep D B K)\<^sup>*\<^sup>* ((view i A wb)\<lparr>pctr := 0\<rparr>) (view i A wb')" using out(1) ids view0 by simp
  show "ids_ok (wconn wb')" "flushed i wb'" using out ids by simp_all
  show "pinv D None False (view i A wb')" using psteps_pinv [OF _ inv0] out(1) ids by simp
qed


subsection \<open>New requests\<close>

lemma view_cong: "wb_sb wb' = wb_sb wb \<Longrightarrow> view i A wb' = view i A wb"
  by (simp add: view_def wconn_def)

lemma page_marks_sb [simp]:
  "wb_sb (set_page_writeback idx wb) = wb_sb wb" "wb_sb (end_page_writeback idx wb) = wb_sb wb"
  "wb_sb (unlock_page idx wb) = wb_sb wb" "wb_sb (copy_page_to p pg wb) = wb_sb wb"
  "wb_sb (stat_start n wb) = wb_sb wb" "wb_sb (stat_done n wb) = wb_sb wb" "wb_sb (wb\<lparr>frames := fr\<rparr>) = wb_sb wb"
  by (simp_all add: set_page_writeback_def end_page_writeback_def unlock_page_def copy_page_to_def stat_start_def stat_done_def)

lemma wconn_cong: "wb_sb wb' = wb_sb wb \<Longrightarrow> wconn wb' = wconn wb"
  by (simp add: wconn_def)

lemma alloc_frame_sb: "alloc_frame ok node wb = (po, wb') \<Longrightarrow> wb_sb wb' = wb_sb wb"
  by (auto simp: alloc_frame_def split: if_split_asm)

lemma live_dom: "pinv D E held s \<Longrightarrow> live s \<subseteq> dom (preqs s)"
proof
  fix x assume inv: "pinv D E held s" and "x \<in> live s"
  then obtain r where r: "r \<in> pW s" "x \<in> owned s r" by (auto simp: live_def)
  obtain p cs where p: "preqs s r = Some p" and ch: "chain (preqs s) (p_next p) cs" and own: "owned s r = insert r (set cs)"
    using pinvD(9) [OF inv r(1)] by (rule primary_okE)
  show "x \<in> dom (preqs s)" using r(2) chain_dom [OF ch] p unfolding own by blast
qed

text \<open>The parts of the connection that writeback looks at, but for the request \<open>r\<close>.\<close>

definition stores_same :: "req_id option \<Rightarrow> fuse_state \<Rightarrow> fuse_state \<Rightarrow> bool" where
  "stores_same ro s t \<longleftrightarrow> (\<forall>x. ro \<noteq> Some x \<longrightarrow> reqs t x = reqs s x) \<and>
     (\<forall>ff f. ffs t ff = Some f \<longrightarrow> (\<exists>f0. ffs s ff = Some f0 \<and> ff_reserved_req f = ff_reserved_req f0))"

lemma stores_same_refl [simp]: "stores_same ro s s"
  by (simp add: stores_same_def)

lemma stores_same_trans: "stores_same ro s t \<Longrightarrow> stores_same ro t u \<Longrightarrow> stores_same ro s u"
  unfolding stores_same_def by metis

lemma stores_same_None: "stores_same None s t \<Longrightarrow> stores_same ro s t" "stores_same None s t \<Longrightarrow> reqs t = reqs s"
  by (auto simp: stores_same_def)

lemma stores_same_page_reqs: "stores_same ro s t \<Longrightarrow> ro \<noteq> Some x \<Longrightarrow> page_reqs i t x = page_reqs i s x"
  by (simp add: stores_same_def page_reqs_def)

lemma stores_same_upd [simp]: "stores_same (Some r) s (upd_req r f s)"
  by (simp add: stores_same_def)

lemma ids_ok_next: "ids_ok s \<Longrightarrow> reqs s (next_id s) = None"
  by (rule ccontr) (use ids_okD(1) in blast)

lemma ids_ok_fresh:
  assumes "ids_ok s" and "stores_same (Some (next_id s)) s t" and "next_id t = Suc (next_id s)"
  shows "ids_ok t"
proof -
  have old: "reqs t x = reqs s x" if "x \<noteq> next_id s" for x using assms(2) that by (simp add: stores_same_def)
  show ?thesis unfolding ids_ok_def
  proof (intro conjI allI impI)
    show "x < next_id t" if "reqs t x \<noteq> None" for x
      using old [of x] that ids_okD(1) [OF assms(1), of x] assms(3) by (cases "x = next_id s") simp_all
    show "x < next_id t" if f: "ffs t ff = Some f" "ff_reserved_req f = Some x" for ff f x
    proof -
      obtain f0 where "ffs s ff = Some f0" "ff_reserved_req f0 = Some x"
        using assms(2) f by (fastforce simp: stores_same_def)
      from ids_okD(2) [OF assms(1) this] show ?thesis using assms(3) by simp
    qed
    show "write_of q = None" if f: "ffs t ff = Some f" "ff_reserved_req f = Some x" and q: "reqs t x = Some q" for ff f x q
    proof -
      obtain f0 where f0: "ffs s ff = Some f0" "ff_reserved_req f0 = Some x"
        using assms(2) f by (fastforce simp: stores_same_def)
      then have "x \<noteq> next_id s" using ids_okD(2) [OF assms(1) f0] by simp
      then show ?thesis using ids_okD(3) [OF assms(1) f0] old q by simp
    qed
  qed
qed

lemma alloc_stores:
  assumes "fuse_request_alloc ok n s = (Some r, s1)"
  shows "r = next_id s" and "stores_same (Some r) s s1" and "next_id s1 = Suc r" and "reqs s1 r = Some (fuse_request_init n)"
  using fuse_request_alloc_Some [OF assms] by (simp_all add: stores_same_def)

lemma free_stores:
  assumes "fuse_request_free s r = Some s1"
  shows "stores_same (Some r) s s1" and "next_id s1 = next_id s" and "reqs s1 r = None"
  using assms by (auto simp: fuse_request_free_def stores_same_def split: option.split_asm)

lemma file_get_stores:
  assumes "fuse_file_get s ff = Some s1"
  shows "stores_same None s s1" and "next_id s1 = next_id s"
  using assms by (auto simp: fuse_file_get_def stores_same_def split: if_split_asm)

lemma write_file_get_stores:
  assumes "fuse_write_file_get i wb = Some (ffo, wb1)"
  shows "stores_same None (wconn wb) (wconn wb1)" and "next_id (wconn wb1) = next_id (wconn wb)" and "winode wb1 = winode wb"
proof -
  show "stores_same None (wconn wb) (wconn wb1)" "next_id (wconn wb1) = next_id (wconn wb)"
    using assms file_get_stores [of "wconn wb"]
    by (auto simp: fuse_write_file_get_def emit_def stores_same_def elim!: bind_Some_E split: list.split_asm)
  show "winode wb1 = winode wb"
    using assms by (auto simp: fuse_write_file_get_def upd_conn_def elim!: bind_Some_E split: list.split_asm)
qed

text \<open>A request that came and went.\<close>

lemma fresh_freed:
  assumes ids: "ids_ok s" and same: "stores_same (Some (next_id s)) s t" and n: "next_id t = Suc (next_id s)" and "reqs t (next_id s) = None"
  shows "page_reqs i t = page_reqs i s" and "ids_ok t"
proof -
  show "ids_ok t" using ids_ok_fresh [OF ids same n] .
  have "reqs s (next_id s) = None" using ids_ok_next [OF ids] .
  then show "page_reqs i t = page_reqs i s"
    using same assms(4) by (intro page_reqs_cong ext) (metis option.inject stores_same_def)
qed

lemma fresh_not_live:
  assumes "pinv D E held (view i A wb)" and "ids_ok (wconn wb)"
  shows "next_id (wconn wb) \<notin> live (view i A wb)"
proof
  assume "next_id (wconn wb) \<in> live (view i A wb)"
  then have "page_reqs i (wconn wb) (next_id (wconn wb)) \<noteq> None"
    using live_dom [OF assms(1)] by (auto simp: view_def Let_def)
  then show False using ids_ok_next [OF assms(2)] by (simp add: page_reqs_def)
qed


subsection \<open>Searching the list\<close>

definition overlaps :: "nat \<Rightarrow> nat \<Rightarrow> preq \<Rightarrow> bool" where
  "overlaps a b p \<longleftrightarrow> a < p_first p + p_num p \<and> p_first p \<le> b"

lemma overlaps_page: "overlaps k k p \<longleftrightarrow> k \<in> pages p"
  by (auto simp: overlaps_def pages_def)

lemma range_scan_Some:
  "range_scan s i a b rs = Some (Some r) \<Longrightarrow> r \<in> set rs \<and> (\<exists>p. page_reqs i s r = Some p \<and> overlaps a b p)"
  by (induction rs) (auto simp: page_reqs_Some overlaps_def elim!: bind_Some_E split: if_split_asm)

lemma range_scan_None:
  "range_scan s i a b rs = Some None \<Longrightarrow> r \<in> set rs \<Longrightarrow> \<exists>p. page_reqs i s r = Some p \<and> \<not> overlaps a b p"
  by (induction rs) (auto simp: page_reqs_Some overlaps_def elim!: bind_Some_E split: if_split_asm)

lemma page_is_writeback_covered:
  assumes "fuse_page_is_writeback i idx wb = Some b"
  shows "idx \<in> covered (view i A wb) \<longleftrightarrow> b"
proof -
  obtain v found where v: "winode wb i = Some v" and sc: "range_scan (wconn wb) i idx idx (writepages v) = Some found"
    and b: "b \<longleftrightarrow> found \<noteq> None"
    using assms by (auto simp: fuse_page_is_writeback_def fuse_range_is_writeback_def elim!: bind_Some_E)
  show ?thesis
  proof (cases found)
    case None
    have "idx \<notin> covered (view i A wb)"
    proof
      assume "idx \<in> covered (view i A wb)"
      then obtain r p where "r \<in> set (writepages v)" "page_reqs i (wconn wb) r = Some p" "idx \<in> pages p"
        by (auto simp: view_eq [OF v] elim!: coveredE)
      then show False using range_scan_None [OF sc [unfolded None]] by (force simp: overlaps_page)
    qed
    then show ?thesis using b None by simp
  next
    case (Some r)
    then have "idx \<in> covered (view i A wb)"
      using range_scan_Some [of "wconn wb" i idx idx "writepages v" r] sc
      by (auto simp: view_eq [OF v] overlaps_page intro!: coveredI)
    then show ?thesis using b Some by simp
  qed
qed

subsection \<open>One page\<close>

lemma first_page_offset:
  assumes "idx < 2 ^ 52" and "wi_offset w = page_offset idx"
  shows "first_page w = idx"
proof -
  have "idx * PAGE_SIZE < 2 ^ 64" using assms(1) by (simp add: PAGE_SIZE_def)
  then have "unat (page_offset idx) = idx * PAGE_SIZE"
    by (simp add: page_offset_def unat_of_nat take_bit_eq_mod del: of_nat_mult)
  then show ?thesis unfolding first_page_def assms(2) unat_drop_bit_eq
    by (simp add: drop_bit_eq_div PAGE_SIZE_def PAGE_SHIFT_def)
qed

lemma fuse_write_fill_fields:
  "\<exists>w nx. write_of (fuse_write_fill enc s f pos n q) = Some (w, nx) \<and> wi_offset w = pos"
  "rq_num_pages (fuse_write_fill enc s f pos n q) = rq_num_pages q"
  "rq_flags (fuse_write_fill enc s f pos n q) = rq_flags q"
  by (auto simp: fuse_write_fill_def write_of_def Let_def split: option.split)

lemma set_flag_fields: "rq_num_pages (set_flag b q) = rq_num_pages q" "rq_flags (set_flag b q) = insert b (rq_flags q)"
  by (simp_all add: set_flag_def)

lemma cache_write_preq:
  assumes "idx < 2 ^ 52"
  shows "preq_of i (cache_write enc s f i idx q) =
      Some \<lparr>p_first = idx, p_num = rq_num_pages q, p_next = None, p_pending = (FR_PENDING \<in> rq_flags q)\<rparr>"
proof -
  let ?q1 = "fuse_write_fill enc s f (page_offset idx) 0 (set_flag FR_BACKGROUND q)"
  obtain w nx where w: "write_of ?q1 = Some (w, nx)" "wi_offset w = page_offset idx"
    using fuse_write_fill_fields(1) by blast
  let ?q2 = "set_write enc (w\<lparr>wi_write_flags := insert FUSE_WRITE_CACHE (wi_write_flags w)\<rparr>) None ?q1"
  have "cache_write enc s f i idx q = ?q2\<lparr>rq_in := (rq_in ?q2)\<lparr>in_argpages := True\<rparr>, rq_end := Some End_writepage, rq_inode := Some i\<rparr>"
    unfolding cache_write_def Let_def w(1) by simp
  then show ?thesis
    using first_page_offset [OF assms, of "w\<lparr>wi_write_flags := insert FUSE_WRITE_CACHE (wi_write_flags w)\<rparr>"] w(2)
    by (simp add: preq_of_def write_of_def set_write_def fuse_write_fill_fields set_flag_fields)
qed

text \<open>A request for one page, in three steps of the specification.\<close>

lemma three_steps: "R a b \<Longrightarrow> R b c \<Longrightarrow> R c d \<Longrightarrow> R\<^sup>*\<^sup>* a d"
  by auto

lemma fresh_page_steps:
  assumes inv: "pinv D None held s" and new: "r \<notin> live s" and idx: "D \<longrightarrow> idx \<notin> covered s" and B: "B \<subseteq> pA s"
  shows "(pstep D B {idx})\<^sup>*\<^sup>* s (s\<lparr>pW := insert r (pW s), pQ := pQ s @ [r],
     preqs := (preqs s)(r \<mapsto> \<lparr>p_first = idx, p_num = 1, p_next = None, p_pending = True\<rparr>)\<rparr>)"
proof -
  have rW: "r \<notin> pW s" and rA: "r \<notin> pA s" and rB: "r \<notin> B" using new pW_live pinvD(4) [OF inv] B by blast+
  let ?p = "\<lparr>p_first = idx, p_num = 0, p_next = None, p_pending = True\<rparr>"
  define s1 where "s1 = s\<lparr>pW := insert r (pW s), pA := insert r (pA s), preqs := (preqs s)(r \<mapsto> ?p)\<rparr>"
  define s2 where "s2 = s1\<lparr>preqs := (preqs s1)(r \<mapsto> ?p\<lparr>p_num := Suc (p_num ?p)\<rparr>)\<rparr>"
  have 1: "pstep D B {idx} s s1" unfolding s1_def using rW new by (rule Fresh)
  have 2: "pstep D B {idx} s1 s2" unfolding s2_def
  proof (rule Page [where idx = idx])
    show "idx \<notin> pages q" if D "x \<in> pW s1" "preqs s1 x = Some q" for x q
      using that idx coveredI [of x s q idx] by (auto simp: s1_def pages_def split: if_split_asm)
  qed (use rB in \<open>simp_all add: s1_def\<close>)
  have 3: "pstep D B {idx} s2 (s2\<lparr>pA := pA s2 - {r}, pQ := pQ s2 @ [r]\<rparr>)"
    using rB by (intro Enqueue) (simp_all add: s1_def s2_def)
  have "s2\<lparr>pA := pA s2 - {r}, pQ := pQ s2 @ [r]\<rparr> = s\<lparr>pW := insert r (pW s), pQ := pQ s @ [r],
     preqs := (preqs s)(r \<mapsto> \<lparr>p_first = idx, p_num = 1, p_next = None, p_pending = True\<rparr>)\<rparr>"
    using rA by (simp add: s1_def s2_def)
  with three_steps [of "pstep D B {idx}", OF 1 2 3] show ?thesis by simp
qed

lemma fresh_freed_view:
  assumes "ids_ok (wconn wb)" and "stores_same (Some (next_id (wconn wb))) (wconn wb) (wconn wb')"
    and "next_id (wconn wb') = Suc (next_id (wconn wb))" and "reqs (wconn wb') (next_id (wconn wb)) = None"
    and "winode wb' = winode wb"
  shows "view i A wb' = view i A wb" and "ids_ok (wconn wb')"
  using fresh_freed [OF assms(1-4)] assms(5) by (simp_all add: view_def)

text \<open>The fresh request of a single page, put on the lists.\<close>

text \<open>A write of one page more, at the end of the queue.\<close>

definition page_added :: "nat \<Rightarrow> req_id \<Rightarrow> pstate \<Rightarrow> pstate \<Rightarrow> bool" where
  "page_added idx r s t \<longleftrightarrow> r \<notin> pW s \<and> t = s\<lparr>pW := insert r (pW s), pQ := pQ s @ [r],
     preqs := (preqs s)(r \<mapsto> \<lparr>p_first = idx, p_num = 1, p_next = None, p_pending = True\<rparr>)\<rparr>"

lemma single_page_steps:
  assumes ids: "ids_ok (wconn wb)" and inv: "pinv D None held (view i A wb)" and B: "B \<subseteq> A" and idx: "D \<longrightarrow> idx \<notin> covered (view i A wb)"
    and r: "r = next_id (wconn wb)" and v: "winode wb i = Some v"
    and same: "stores_same (Some r) (wconn wb) (wconn wb')" and n: "next_id (wconn wb') = Suc r"
    and q: "Option.bind (reqs (wconn wb') r) (preq_of i) = Some \<lparr>p_first = idx, p_num = 1, p_next = None, p_pending = True\<rparr>"
    and v': "winode wb' i = Some (v\<lparr>writepages := r # writepages v, queued_writes := queued_writes v @ [r]\<rparr>)"
  shows "(pstep D B {idx})\<^sup>*\<^sup>* (view i A wb) (view i A wb')" and "ids_ok (wconn wb')" and "pinv D None held (view i A wb')"
    and "page_added idx r (view i A wb) (view i A wb')"
proof -
  let ?s = "view i A wb"
  have "page_reqs i (wconn wb') = (page_reqs i (wconn wb))(r \<mapsto> \<lparr>p_first = idx, p_num = 1, p_next = None, p_pending = True\<rparr>)"
    using stores_same_page_reqs [OF same] q by (intro ext) (simp add: page_reqs_def)
  then have eq: "view i A wb' = ?s\<lparr>pW := insert r (pW ?s), pQ := pQ ?s @ [r],
     preqs := (preqs ?s)(r \<mapsto> \<lparr>p_first = idx, p_num = 1, p_next = None, p_pending = True\<rparr>)\<rparr>"
    by (simp add: view_eq [OF v] view_eq [OF v'])
  have new: "r \<notin> live ?s" using fresh_not_live [OF inv ids] r by simp
  then show "page_added idx r (view i A wb) (view i A wb')" using pW_live unfolding page_added_def eq by blast
  have "B \<subseteq> pA ?s" using B by (simp add: view_eq [OF v])
  then show steps: "(pstep D B {idx})\<^sup>*\<^sup>* ?s (view i A wb')" using fresh_page_steps [OF inv new idx, of B] eq by simp
  show "ids_ok (wconn wb')" using ids_ok_fresh [OF ids] same n r by simp
  show "pinv D None held (view i A wb')" using psteps_pinv [OF steps inv] .
qed

lemma flush_stopped:
  assumes "fuse_flush_writepages enc wait i wb = Some wb'" and "winode wb i = Some v" and "writectr v < 0"
  shows "wb' = wb"
  using assms by (simp add: fuse_flush_writepages_def flush_queued.simps)

lemma writepage_locked_view:
  assumes run: "fuse_writepage_locked enc wait ok node i pg wb = Some (err, wb')"
    and ids: "ids_ok (wconn wb)" and inv: "pinv D None held (view i A wb)" and B: "B \<subseteq> A"
    and idx: "D \<longrightarrow> pg_index pg \<notin> covered (view i A wb)" and small: "pg_index pg < 2 ^ 52"
  shows "(pstep D B {pg_index pg})\<^sup>*\<^sup>* (view i A wb) (view i A wb')" and "ids_ok (wconn wb')"
    and "err = 0 \<longrightarrow> (\<exists>r t. page_added (pg_index pg) r (view i A wb) t \<and> thins t (view i A wb') \<and> (pctr (view i A wb) < 0 \<longrightarrow> view i A wb' = t))"
proof -
  let ?idx = "pg_index pg"
  let ?added = "err = 0 \<longrightarrow> (\<exists>r t. page_added ?idx r (view i A wb) t \<and> thins t (view i A wb') \<and> (pctr (view i A wb) < 0 \<longrightarrow> view i A wb' = t))"
  define wb0 where "wb0 = set_page_writeback ?idx wb"
  have c0: "wb_sb wb0 = wb_sb wb" "wconn wb0 = wconn wb" by (simp_all add: wb0_def wconn_def)
  obtain ro s1 where al: "fuse_request_alloc (\<lambda>n. ok (Suc n)) 1 (wconn wb) = (ro, s1)" by fastforce
  have "(pstep D B {?idx})\<^sup>*\<^sup>* (view i A wb) (view i A wb') \<and> ids_ok (wconn wb') \<and> ?added"
  proof (cases ro)
    case None
    have s1: "s1 = wconn wb" using fuse_request_alloc_None [OF al [unfolded None]] .
    then have "wb' = end_page_writeback ?idx (wconn_update (\<lambda>_. wconn wb) wb0)"
      using run al None c0 by (auto simp: fuse_writepage_locked_def Let_def wb0_def [symmetric])
    then have "wb_sb wb' = wb_sb wb" using c0 by (simp add: upd_conn_def wconn_def)
    moreover have "err \<noteq> 0"
      using run al None c0 by (auto simp: fuse_writepage_locked_def Let_def wb0_def [symmetric] ENOMEM_def)
    ultimately show ?thesis using ids wconn_cong view_cong by (metis rtranclp.rtrancl_refl)
  next
    case (Some r)
    note al = al [unfolded Some] note a = alloc_stores [OF al]
    obtain po wb1 where fr: "alloc_frame (ok 0) node (wconn_update (\<lambda>_. s1) wb0) = (po, wb1)" by fastforce
    have c1: "wconn wb1 = s1" "winode wb1 = winode wb"
      using alloc_frame_sb [OF fr] c0 by (simp_all add: wconn_def upd_conn_def)
    show ?thesis
    proof (cases po)
      case None
      then obtain s2 where fq: "fuse_request_free s1 r = Some s2"
        and wb': "wb' = end_page_writeback ?idx (wconn_update (\<lambda>_. s2) wb1)" and "err \<noteq> 0"
        using run al fr c0 c1 by (auto simp: ENOMEM_def fuse_writepage_locked_def Let_def wb0_def [symmetric] elim!: bind_Some_E)
      have w: "wconn wb' = s2" "winode wb' = winode wb" using c1 by (simp_all add: wb' wconn_def upd_conn_def)
      from free_stores [OF fq] a w have "view i A wb' = view i A wb" "ids_ok (wconn wb')"
        by (intro fresh_freed_view [OF ids]; auto intro: stores_same_trans)+
      then show ?thesis using \<open>err \<noteq> 0\<close> by simp
    next
      case (Some p)
      then obtain ffo wb2 where get: "fuse_write_file_get i wb1 = Some (ffo, wb2)"
        using run al fr c0 by (auto simp: fuse_writepage_locked_def Let_def wb0_def [symmetric] elim!: bind_Some_E)
      note g = write_file_get_stores [OF get]
      have same2: "stores_same (Some r) (wconn wb) (wconn wb2)"
        using stores_same_trans [OF a(2)] stores_same_None(1) [OF g(1)] c1 by simp
      show ?thesis
      proof (cases ffo)
        case None
        then obtain s3 where fq: "fuse_request_free (wconn wb2) r = Some s3"
          and wb': "wb' = end_page_writeback ?idx ((wconn_update (\<lambda>_. s3) wb2)\<lparr>frames := (frames wb2)(p := None)\<rparr>)" and "err \<noteq> 0"
          using run al fr c0 get \<open>po = Some p\<close> by (auto simp: EIO_def fuse_writepage_locked_def Let_def wb0_def [symmetric] elim!: bind_Some_E)
        have w: "wconn wb' = s3" "winode wb' = winode wb" using c1 g by (simp_all add: wb' wconn_def upd_conn_def)
        from free_stores [OF fq] a w g(2) c1 same2 have "view i A wb' = view i A wb" "ids_ok (wconn wb')"
          by (intro fresh_freed_view [OF ids]; auto intro: stores_same_trans)+
        then show ?thesis using \<open>err \<noteq> 0\<close> by simp
      next
        case (Some ff)
        define upd where "upd f = (\<lambda>q. (put_page_in 0 p (cache_write enc (wconn wb2) f i ?idx q))\<lparr>rq_ff := Some ff, rq_num_pages := 1\<rparr>)" for f
        obtain f wb4 where f: "ffs (wconn wb2) ff = Some f"
          and fl: "fuse_flush_writepages enc wait i
                   (winode_update i (\<lambda>v. v\<lparr>writepages := r # writepages v, queued_writes := queued_writes v @ [r]\<rparr>)
                     (stat_start (frame_node p wb2) (copy_page_to p pg (wconn_update (\<lambda>_. upd_req r (upd f) (wconn wb2)) wb2)))) = Some wb4"
          and wb': "wb' = end_page_writeback ?idx wb4"
          using run al fr c0 get \<open>po = Some p\<close> Some
          by (auto simp: fuse_writepage_locked_def Let_def wb0_def [symmetric] upd_def elim!: bind_Some_E)
        let ?wb3 = "winode_update i (\<lambda>v. v\<lparr>writepages := r # writepages v, queued_writes := queued_writes v @ [r]\<rparr>)
                     (stat_start (frame_node p wb2) (copy_page_to p pg (wconn_update (\<lambda>_. upd_req r (upd f) (wconn wb2)) wb2)))"
        obtain v where v: "winode wb i = Some v" using get c1 by (auto simp: fuse_write_file_get_def elim!: bind_Some_E)
        have w3: "wconn ?wb3 = upd_req r (upd f) (wconn wb2)"
          "winode ?wb3 i = Some (v\<lparr>writepages := r # writepages v, queued_writes := queued_writes v @ [r]\<rparr>)"
          using v c1 g(3) by (simp_all add: wconn_def winode_update_def upd_conn_def upd_inode_def)
        have q: "reqs (wconn wb2) r = Some (fuse_request_init 1)" using a(4) c1 stores_same_None(2) [OF g(1)] by simp
        have "preq_of i (upd f q0) = map_option (p_num_update (\<lambda>_. 1)) (preq_of i (put_page_in 0 p (cache_write enc (wconn wb2) f i ?idx q0)))" for q0
          by (auto simp: upd_def preq_of_def write_of_def split: option.split fuse_misc.split)
        then have pq: "preq_of i (upd f (fuse_request_init 1)) = Some \<lparr>p_first = ?idx, p_num = 1, p_next = None, p_pending = True\<rparr>"
          using cache_write_preq [OF small] by (simp add: fuse_request_init_def)
        note steps = single_page_steps [OF ids inv B idx a(1) v, of ?wb3]
        have st: "stores_same (Some r) (wconn wb) (wconn ?wb3)" "next_id (wconn ?wb3) = Suc r"
          "Option.bind (reqs (wconn ?wb3) r) (preq_of i) = Some \<lparr>p_first = ?idx, p_num = 1, p_next = None, p_pending = True\<rparr>"
          using same2 w3 q pq g(2) a(3) c1 by (auto simp del: One_nat_def intro: stores_same_trans)
        note steps = steps [OF st w3(2)]
        have stop: "wb4 = ?wb3" if "pctr (view i A wb) < 0"
          using flush_stopped [OF fl w3(2)] that v by (simp add: view_eq)
        note fl = flush_view(1,2,4) [OF fl steps(2,3)]
        have "view i A wb' = view i A wb4" "wconn wb' = wconn wb4" by (simp_all add: wb' view_def wconn_def)
        then show ?thesis using rtranclp_trans [OF steps(1) fl(1)] fl(2) steps(4) fl(3) stop by auto
      qed
    qed
  qed
  then show "(pstep D B {?idx})\<^sup>*\<^sup>* (view i A wb) (view i A wb')" and "ids_ok (wconn wb')" and ?added by blast+
qed

text \<open>
  Laundering a page: with \<open>D\<close>, that is in the strict specification, only when no write of the page is under way.
\<close>

lemma launder_view:
  assumes run: "fuse_launder_page enc wait ok node (\<lambda>_. Some) dirty i pg wb = Some (err, wb')"
    and ids: "ids_ok (wconn wb)" and inv: "pinv D None held (view i A wb)" and B: "B \<subseteq> A"
    and free: "D \<longrightarrow> dirty \<longrightarrow> fuse_page_is_writeback i (pg_index pg) wb = Some False" and small: "pg_index pg < 2 ^ 52"
  shows "(pstep D B {pg_index pg})\<^sup>*\<^sup>* (view i A wb) (view i A wb')" and "ids_ok (wconn wb')"
proof -
  have "(pstep D B {pg_index pg})\<^sup>*\<^sup>* (view i A wb) (view i A wb') \<and> ids_ok (wconn wb')"
  proof (cases dirty)
    case False
    then show ?thesis using run ids by (simp add: fuse_launder_page_def)
  next
    case True
    have far: "D \<longrightarrow> pg_index pg \<notin> covered (view i A wb)" using page_is_writeback_covered free True by blast
    have "fuse_writepage_locked enc wait ok node i pg wb = Some (err, wb')"
      using True run by (auto simp: fuse_launder_page_def elim!: bind_Some_E split: if_split_asm)
    then show ?thesis using writepage_locked_view [OF _ ids inv B far small] by blast
  qed
  then show "(pstep D B {pg_index pg})\<^sup>*\<^sup>* (view i A wb) (view i A wb')" and "ids_ok (wconn wb')" by blast+
qed

lemma writepage_view:
  assumes run: "fuse_writepage enc wait ok node i pg wb = Some (err, wb')"
    and ids: "ids_ok (wconn wb)" and inv: "pinv D None held (view i A wb)" and B: "B \<subseteq> A" and small: "pg_index pg < 2 ^ 52"
  shows "(pstep D B {pg_index pg})\<^sup>*\<^sup>* (view i A wb) (view i A wb')" and "ids_ok (wconn wb')"
proof -
  obtain busy where b: "fuse_page_is_writeback i (pg_index pg) wb = Some busy"
    using run by (auto simp: fuse_writepage_def elim!: bind_Some_E)
  have "(pstep D B {pg_index pg})\<^sup>*\<^sup>* (view i A wb) (view i A wb') \<and> ids_ok (wconn wb')"
  proof (cases busy)
    case True
    then show ?thesis using run b ids by (simp add: fuse_writepage_def)
  next
    case False
    then obtain wb1 where l: "fuse_writepage_locked enc wait ok node i pg wb = Some (err, wb1)" and wb': "wb_sb wb' = wb_sb wb1"
      using run b by (auto simp: fuse_writepage_def elim!: bind_Some_E)
    have "pg_index pg \<notin> covered (view i A wb)" using page_is_writeback_covered [OF b] False by blast
    then have "D \<longrightarrow> pg_index pg \<notin> covered (view i A wb)" by blast
    note res = writepage_locked_view [OF l ids inv B this small]
    have "view i A wb' = view i A wb1" "wconn wb' = wconn wb1" using wb' by (simp_all add: view_def wconn_def)
    then show ?thesis using res by simp
  qed
  then show "(pstep D B {pg_index pg})\<^sup>*\<^sup>* (view i A wb) (view i A wb')" and "ids_ok (wconn wb')" by blast+
qed

subsection \<open>Sending a filled request\<close>

lemma fold_marks_sb: "wb_sb (fold end_page_writeback ks wb) = wb_sb wb"
  by (induction ks arbitrary: wb) simp_all

lemma writepages_send_view:
  assumes run: "fuse_writepages_send enc wait i d wb = Some wb'" and r: "fd_req d = Some r" "r \<in> A" "r \<notin> B"
    and ids: "ids_ok (wconn wb)" and inv: "pinv D None held (view i A wb)"
  shows "(pstep D B {})\<^sup>*\<^sup>* (view i A wb) (view i (A - {r}) wb')" and "ids_ok (wconn wb')" and "winode wb' i \<noteq> None"
proof -
  obtain ff q s1 wb2 where q: "reqs (wconn wb) r = Some q" and get: "fuse_file_get (wconn wb) ff = Some s1"
    and fl: "fuse_flush_writepages enc wait i
       (winode_update i (queued_writes_update (\<lambda>qs. qs @ [r]))
         (wconn_update (\<lambda>_. upd_req r (rq_ff_update (\<lambda>_. Some ff)) s1) wb)) = Some wb2"
    and wb': "wb' = fold end_page_writeback (take (rq_num_pages q) (fd_orig d)) wb2"
    using run r(1) by (auto simp: fuse_writepages_send_def elim!: bind_Some_E)
  let ?wb1 = "winode_update i (queued_writes_update (\<lambda>qs. qs @ [r]))
         (wconn_update (\<lambda>_. upd_req r (rq_ff_update (\<lambda>_. Some ff)) s1) wb)"
  obtain v where v: "winode wb i = Some v" using fl by (auto simp: fuse_flush_writepages_def elim!: bind_Some_E)
  have w1: "wconn ?wb1 = upd_req r (rq_ff_update (\<lambda>_. Some ff)) s1" "winode ?wb1 i = Some (v\<lparr>queued_writes := queued_writes v @ [r]\<rparr>)"
    using v by (simp_all add: upd_conn_def)
  have P1: "page_reqs i (wconn ?wb1) = page_reqs i (wconn wb)"
    using file_get_view(1) [OF get, of i] page_reqs_upd_same [of i "rq_ff_update (\<lambda>_. Some ff)" r s1] by (simp add: w1)
  have ids1: "ids_ok (wconn ?wb1)" using file_get_view(3) [OF get ids] unfolding w1 by (rule ids_ok_upd_req) simp
  let ?s = "view i A wb"
  have "view i (A - {r}) ?wb1 = ?s\<lparr>pA := pA ?s - {r}, pQ := pQ ?s @ [r]\<rparr>"
    using P1 by (simp add: view_eq [OF v] view_eq [OF w1(2)])
  moreover have "pstep D B {} ?s (?s\<lparr>pA := pA ?s - {r}, pQ := pQ ?s @ [r]\<rparr>)"
    using r v by (intro Enqueue) (simp_all add: view_eq)
  ultimately have step: "pstep D B {} ?s (view i (A - {r}) ?wb1)" by simp
  have inv1: "pinv D None held (view i (A - {r}) ?wb1)" using pstep_pinv [OF step inv] .
  have same: "view i (A - {r}) wb' = view i (A - {r}) wb2" "wconn wb' = wconn wb2"
    by (simp_all add: wb' view_def wconn_def fold_marks_sb)
  show "(pstep D B {})\<^sup>*\<^sup>* ?s (view i (A - {r}) wb')" unfolding same
    using converse_rtranclp_into_rtranclp [of "pstep D B {}", OF step flush_view(1) [OF fl ids1 inv1]] .
  show "ids_ok (wconn wb')" unfolding same using flush_view(2) [OF fl ids1 inv1] .
  show "winode wb' i \<noteq> None" using flush_view(3) [OF fl ids1 inv1] by (simp add: flushed_def wb' fold_marks_sb) blast
qed

subsection \<open>Filling a request\<close>

text \<open>
  What a thread knows of the request it fills: between pages that it is not empty and ends with the page
  collected last; with a page \<open>idx\<close> at hand that it goes on at \<open>idx\<close>, and that nothing else covers \<open>idx\<close>
  unless the page was found under writeback, in which case the request is empty.
\<close>

definition ctx_ok :: "pstate \<Rightarrow> fill_data \<Rightarrow> (nat \<times> bool) option \<Rightarrow> bool" where
  "ctx_ok s d cur \<longleftrightarrow> (case cur of
     None \<Rightarrow> (\<forall>r\<in>set_option (fd_req d). \<exists>a n. r \<in> pA s \<and> shape s r = Some (a, n) \<and> n \<noteq> 0 \<and>
        n \<le> length (fd_orig d) \<and> fd_orig d ! (n - 1) + 1 = a + n)
   | Some (idx, is_wb) \<Rightarrow> (\<exists>r a n. fd_req d = Some r \<and> r \<in> pA s \<and> shape s r = Some (a, n) \<and>
        n \<le> length (fd_orig d) \<and> a + n = idx \<and> (is_wb \<longrightarrow> n = 0) \<and> (\<not> is_wb \<longrightarrow> idx \<notin> covered s)))"

lemma shape_view:
  assumes "reqs (wconn wb) r = Some q"
  shows "shape (view i A wb) r = Some (a, n) \<Longrightarrow> n = rq_num_pages q \<and> (\<exists>p. page_reqs i (wconn wb) r = Some p \<and> p_first p = a \<and> p_num p = n)"
  using assms by (auto simp: shape_def view_def Let_def page_reqs_def preq_of_def split: if_split_asm option.split_asm)

lemma fill_send_view:
  assumes run: "fill_send enc wait i is_wb idx d wb = Some (d', wb')" and ok: "ctx_ok (view i A wb) d None"
    and A: "A = B \<union> set_option (fd_req d)" "set_option (fd_req d) \<inter> B = {}"
    and ids: "ids_ok (wconn wb)" and inv: "pinv D None held (view i A wb)"
  shows "(pstep D B {})\<^sup>*\<^sup>* (view i A wb) (view i (B \<union> set_option (fd_req d')) wb')" and "ids_ok (wconn wb')"
    and "fd_req d' = None \<or> (d' = d \<and> wb' = wb \<and> (\<forall>r\<in>set_option (fd_req d). \<forall>a n.
           shape (view i A wb) r = Some (a, n) \<longrightarrow> \<not> is_wb \<and> a + n = idx))"
    and "fd_ff d' = fd_ff d" and "winode wb i \<noteq> None \<Longrightarrow> winode wb' i \<noteq> None" and "ctx_ok (view i (B \<union> set_option (fd_req d')) wb') d' None"
proof -
  have all: "(pstep D B {})\<^sup>*\<^sup>* (view i A wb) (view i (B \<union> set_option (fd_req d')) wb') \<and> ids_ok (wconn wb') \<and>
     (fd_req d' = None \<or> (d' = d \<and> wb' = wb \<and> (\<forall>r\<in>set_option (fd_req d). \<forall>a n.
           shape (view i A wb) r = Some (a, n) \<longrightarrow> \<not> is_wb \<and> a + n = idx))) \<and> fd_ff d' = fd_ff d \<and>
     (winode wb i \<noteq> None \<longrightarrow> winode wb' i \<noteq> None)"
  proof (cases "fd_req d")
    case None
    then show ?thesis using run ids A by (simp add: fill_send_def)
  next
    case (Some r)
    then obtain q where q: "reqs (wconn wb) r = Some q" using run by (auto simp: fill_send_def elim!: bind_Some_E)
    obtain a n where n: "shape (view i A wb) r = Some (a, n)" "n \<noteq> 0" "fd_orig d ! (n - 1) + 1 = a + n"
      using ok Some by (auto simp: ctx_ok_def)
    have nq: "rq_num_pages q = n" using shape_view [OF q n(1)] by simp
    show ?thesis
    proof (cases "fill_must_send (wconn wb) q is_wb (fd_orig d) idx")
      case True
      then obtain wb1 where send: "fuse_writepages_send enc wait i d wb = Some wb1" and d': "d' = d\<lparr>fd_req := None\<rparr>" "wb' = wb1"
        using run Some q by (auto simp: fill_send_def elim!: bind_Some_E)
      have "A - {r} = B" "r \<in> A" "r \<notin> B" using A Some by auto
      then show ?thesis using writepages_send_view [OF send Some _ _ ids inv, of B] d' by simp
    next
      case False
      then have "d' = d" "wb' = wb" using run Some q by (auto simp: fill_send_def)
      moreover have "\<not> is_wb \<and> a + n = idx" using False n nq by (auto simp: fill_must_send_def)
      ultimately show ?thesis using ids A n Some by auto
    qed
  qed
  then show "(pstep D B {})\<^sup>*\<^sup>* (view i A wb) (view i (B \<union> set_option (fd_req d')) wb')" and "ids_ok (wconn wb')"
    and o: "fd_req d' = None \<or> (d' = d \<and> wb' = wb \<and> (\<forall>r\<in>set_option (fd_req d). \<forall>a n.
           shape (view i A wb) r = Some (a, n) \<longrightarrow> \<not> is_wb \<and> a + n = idx))" and "fd_ff d' = fd_ff d"
    and "winode wb i \<noteq> None \<Longrightarrow> winode wb' i \<noteq> None" by blast+
  show "ctx_ok (view i (B \<union> set_option (fd_req d')) wb') d' None"
    using o ok A by (auto simp: ctx_ok_def)
qed

lemma stores_same_view:
  assumes "stores_same None (wconn wb) (wconn wb')" and "next_id (wconn wb') = next_id (wconn wb)" and "winode wb' = winode wb"
  shows "view i A wb' = view i A wb" and "ids_ok (wconn wb) \<Longrightarrow> ids_ok (wconn wb')"
proof -
  have r: "reqs (wconn wb') = reqs (wconn wb)" using stores_same_None(2) [OF assms(1)] .
  show "view i A wb' = view i A wb" using page_reqs_cong [OF r, of i] assms(3) by (simp add: view_def)
  show "ids_ok (wconn wb')" if ids: "ids_ok (wconn wb)" unfolding ids_ok_def
  proof (intro conjI allI impI)
    show "x < next_id (wconn wb')" if "reqs (wconn wb') x \<noteq> None" for x
      using ids_okD(1) [OF ids, of x] that r assms(2) by simp
    fix ff f x assume f: "ffs (wconn wb') ff = Some f" "ff_reserved_req f = Some x"
    obtain f0 where f0: "ffs (wconn wb) ff = Some f0" "ff_reserved_req f0 = Some x"
      using assms(1) f by (fastforce simp: stores_same_def)
    from ids_okD(2) [OF ids f0] show "x < next_id (wconn wb')" using assms(2) by simp
    show "write_of q = None" if "reqs (wconn wb') x = Some q" for q using ids_okD(3) [OF ids f0] that r by simp
  qed
qed

lemma fill_request_view:
  assumes run: "fill_request enc ok i idx d wb = Some (ro, d', wb')" and none: "fd_req d = None"
    and ids: "ids_ok (wconn wb)" and inv: "pinv D None held (view i B wb)" and small: "idx < 2 ^ 52" and v: "winode wb i = Some v"
  shows "(ro = None \<and> d' = d \<and> wb_sb wb' = wb_sb wb) \<or>
    (\<exists>r. ro = Some r \<and> d' = d\<lparr>fd_req := Some r\<rparr> \<and> r \<notin> B \<and> pstep D B {} (view i B wb) (view i (insert r B) wb') \<and>
       ids_ok (wconn wb') \<and> shape (view i (insert r B) wb') r = Some (idx, 0))"
proof -
  obtain ro' s1 where al: "fuse_request_alloc ok FUSE_MAX_PAGES_PER_REQ (wconn wb) = (ro', s1)" by fastforce
  show ?thesis
  proof (cases ro')
    case None
    then have "s1 = wconn wb" using fuse_request_alloc_None al by blast
    then show ?thesis using run none al None by (auto simp: fill_request_def upd_conn_def wconn_def)
  next
    case (Some r)
    note al = al [unfolded Some] note a = alloc_stores [OF al]
    obtain f where out: "ro = Some r" "d' = d\<lparr>fd_req := Some r\<rparr>"
      and wb': "wb' = winode_update i (writepages_update ((#) r)) (wconn_update (\<lambda>_. upd_req r (cache_write enc s1 f i idx) s1) wb)"
      using run none al by (auto simp: fill_request_def elim!: bind_Some_E)
    have w: "wconn wb' = upd_req r (cache_write enc s1 f i idx) s1" "winode wb' i = Some (v\<lparr>writepages := r # writepages v\<rparr>)"
      using v by (simp_all add: wb' upd_conn_def)
    have pq: "preq_of i (cache_write enc s1 f i idx (fuse_request_init FUSE_MAX_PAGES_PER_REQ)) =
        Some \<lparr>p_first = idx, p_num = 0, p_next = None, p_pending = True\<rparr>"
      using cache_write_preq [OF small] by (simp add: fuse_request_init_def)
    let ?s = "view i B wb"
    have P: "page_reqs i (wconn wb') = (page_reqs i (wconn wb))(r \<mapsto> \<lparr>p_first = idx, p_num = 0, p_next = None, p_pending = True\<rparr>)"
      using stores_same_page_reqs [OF a(2)] a(4) pq by (intro ext) (simp add: w page_reqs_upd)
    have eq: "view i (insert r B) wb' = ?s\<lparr>pW := insert r (pW ?s), pA := insert r (pA ?s),
        preqs := (preqs ?s)(r \<mapsto> \<lparr>p_first = idx, p_num = 0, p_next = None, p_pending = True\<rparr>)\<rparr>"
      using P by (simp add: view_eq [OF v] view_eq [OF w(2)])
    have live: "r \<notin> live ?s" using fresh_not_live [OF inv ids] a(1) by simp
    then have W: "r \<notin> pW ?s" using pW_live by blast
    then have "r \<notin> B" using pinvD(4) [OF inv] v by (auto simp: view_eq)
    moreover have "pstep D B {} ?s (view i (insert r B) wb')" unfolding eq using W live by (rule Fresh)
    moreover have "ids_ok (wconn wb')"
      using ids_ok_fresh [OF ids] stores_same_trans [OF a(2)] a(1,3) by (simp add: w)
    moreover have "shape (view i (insert r B) wb') r = Some (idx, 0)" by (simp add: eq shape_def)
    ultimately show ?thesis using out by blast
  qed
qed

lemma put_page_view:
  assumes "wb_sb wb' = wb_sb (wconn_update (upd_req r (put_page_in k p)) wb)"
  shows "view i A wb' = view i A wb" and "ids_ok (wconn wb) \<Longrightarrow> ids_ok (wconn wb')"
proof -
  have w: "wconn wb' = upd_req r (put_page_in k p) (wconn wb)" "winode wb' = winode wb"
    using assms by (simp_all add: wconn_def upd_conn_def)
  show "view i A wb' = view i A wb" using page_reqs_upd_same [of i "put_page_in k p"] w by (simp add: view_def)
  show "ids_ok (wconn wb) \<Longrightarrow> ids_ok (wconn wb')" unfolding w(1) by (rule ids_ok_upd_req) simp_all
qed

text \<open>The request a page goes to, once the older one went out if it had to.\<close>

lemma fill_take_view:
  assumes req: "fill_request enc ok i idx d wb = Some (Some r, d', wb1)"
    and wb': "wb_sb wb' = wb_sb (wconn_update (upd_req r (put_page_in k p)) wb1)"
    and A: "A = B \<union> set_option (fd_req d)" "set_option (fd_req d) \<inter> B = {}"
    and d: "fd_req d = None \<or> ctx_ok (view i A wb) d (Some (idx, is_wb))" and far: "\<not> is_wb \<Longrightarrow> idx \<notin> covered (view i A wb)"
    and ids: "ids_ok (wconn wb)" and inv: "pinv D None held (view i A wb)" and small: "idx < 2 ^ 52" and v: "winode wb i = Some v"
  shows "(pstep D B {})\<^sup>*\<^sup>* (view i A wb) (view i (B \<union> set_option (fd_req d')) wb') \<and> ids_ok (wconn wb') \<and>
    set_option (fd_req d') \<inter> B = {} \<and> ctx_ok (view i (B \<union> set_option (fd_req d')) wb') d' (Some (idx, is_wb))"
proof (cases "fd_req d")
  case (Some r')
  then have "r' = r" "d' = d" "wb1 = wb" using req by (auto simp: fill_request_def)
  then show ?thesis using put_page_view [OF wb'] d Some A ids by simp
next
  case None
  then have AB: "A = B" using A by simp
  obtain s where d': "d' = d\<lparr>fd_req := Some r\<rparr>" and r: "r \<notin> B" and step: "pstep D B {} (view i B wb) (view i (insert r B) wb1)"
     and ids1: "ids_ok (wconn wb1)" and sh: "shape (view i (insert r B) wb1) r = Some (idx, 0)"
    using fill_request_view [OF req None ids inv [unfolded AB] small v] by auto
  have "B \<subseteq> pA (view i B wb)" by (simp add: view_def Let_def)
  with pstep_leaves [OF step inv [unfolded AB]] have "leaves B {} (view i B wb) (view i (insert r B) wb1)" .
  then have "\<not> is_wb \<Longrightarrow> idx \<notin> covered (view i (insert r B) wb1)" using far AB by (auto dest: leavesD(1))
  moreover have "r \<in> pA (view i (insert r B) wb1)" by (simp add: view_def Let_def)
  ultimately have "ctx_ok (view i (insert r B) wb1) d' (Some (idx, is_wb))" using sh by (auto simp: ctx_ok_def d')
  then show ?thesis using put_page_view [OF wb'] step r ids1 AB by (auto simp: d')
qed

lemma fill_begin_view:
  assumes run: "fill_begin enc wait ok node i pg d wb = Some (err, is_wb, d', wb')" and ctx: "ctx_ok (view i A wb) d None"
    and A: "A = B \<union> set_option (fd_req d)" "set_option (fd_req d) \<inter> B = {}"
    and ids: "ids_ok (wconn wb)" and inv: "pinv D None held (view i A wb)" and small: "pg_index pg < 2 ^ 52"
  shows "(pstep D B {})\<^sup>*\<^sup>* (view i A wb) (view i (B \<union> set_option (fd_req d')) wb')" and "ids_ok (wconn wb')"
    and "set_option (fd_req d') \<inter> B = {}"
    and "ctx_ok (view i (B \<union> set_option (fd_req d')) wb') d' (if err = 0 then Some (pg_index pg, is_wb) else None)"
proof -
  let ?post = "\<lambda>err is_wb d' wb'. (pstep D B {})\<^sup>*\<^sup>* (view i A wb) (view i (B \<union> set_option (fd_req d')) wb') \<and> ids_ok (wconn wb') \<and>
     set_option (fd_req d') \<inter> B = {} \<and>
     ctx_ok (view i (B \<union> set_option (fd_req d')) wb') d' (if err = 0 then Some (pg_index pg, is_wb) else None)"
  obtain ffo wb1 where get: "(if fd_ff d = None then fuse_write_file_get i wb else Some (fd_ff d, wb)) = Some (ffo, wb1)"
    using run by (auto simp: fill_begin_def simp del: split_paired_Ex elim!: bind_Some_E)
  have v1: "view i A wb1 = view i A wb" and ids1: "ids_ok (wconn wb1)"
    using get stores_same_view [OF write_file_get_stores] ids by (auto split: if_split_asm)
  have "?post err is_wb d' wb'"
  proof (cases ffo)
    case None
    then have "err = - EIO" "d' = d" "wb' = wb1" using run get by (auto simp: fill_begin_def)
    then show ?thesis using v1 ids1 ctx A by (simp add: EIO_def)
  next
    case (Some ff)
    let ?d1 = "d\<lparr>fd_ff := ffo\<rparr>" and ?idx = "pg_index pg"
    obtain wbk d2 wb2 where b: "fuse_page_is_writeback i ?idx wb1 = Some wbk"
      and send: "fill_send enc wait i wbk ?idx ?d1 wb1 = Some (d2, wb2)"
      using run get Some by (auto simp: fill_begin_def Let_def elim!: bind_Some_E)
    obtain po wb3 where fr: "alloc_frame (ok 0) node wb2 = (po, wb3)" by fastforce
    obtain v where v: "winode wb1 i = Some v"
      using b by (auto simp: fuse_page_is_writeback_def fuse_range_is_writeback_def elim!: bind_Some_E)
    let ?A2 = "B \<union> set_option (fd_req d2)"
    have sends: "(pstep D B {})\<^sup>*\<^sup>* (view i A wb) (view i ?A2 wb2)" "ids_ok (wconn wb2)"
       "fd_req d2 = None \<or> (d2 = ?d1 \<and> wb2 = wb1 \<and> (\<forall>r\<in>set_option (fd_req d). \<forall>a n.
           shape (view i A wb) r = Some (a, n) \<longrightarrow> \<not> wbk \<and> a + n = ?idx))" "ctx_ok (view i ?A2 wb2) d2 None"
       "winode wb1 i \<noteq> None \<Longrightarrow> winode wb2 i \<noteq> None"
    proof -
      have a1: "ctx_ok (view i A wb1) ?d1 None" using ctx v1 by (simp add: ctx_ok_def)
      have a2: "A = B \<union> set_option (fd_req ?d1)" and a3: "set_option (fd_req ?d1) \<inter> B = {}" using A by simp_all
      have a4: "pinv D None held (view i A wb1)" using inv v1 by simp
      note out = fill_send_view [OF send a1 a2 a3 ids1 a4, unfolded v1]
      show "(pstep D B {})\<^sup>*\<^sup>* (view i A wb) (view i ?A2 wb2)" "ids_ok (wconn wb2)"
        "ctx_ok (view i ?A2 wb2) d2 None" "winode wb1 i \<noteq> None \<Longrightarrow> winode wb2 i \<noteq> None"
        using out(1,2,5,6) by simp_all
      show "fd_req d2 = None \<or> (d2 = ?d1 \<and> wb2 = wb1 \<and> (\<forall>r\<in>set_option (fd_req d). \<forall>a n.
           shape (view i A wb) r = Some (a, n) \<longrightarrow> \<not> wbk \<and> a + n = ?idx))"
        using out(3) by simp
    qed
    have disj: "set_option (fd_req d2) \<inter> B = {}" using sends(3) A(2) by auto
    have sb3: "wb_sb wb3 = wb_sb wb2" using alloc_frame_sb [OF fr] .
    then have v3: "view i ?A2 wb3 = view i ?A2 wb2" "wconn wb3 = wconn wb2" by (simp_all add: view_def wconn_def)
    have inv2: "pinv D None held (view i ?A2 wb3)" using psteps_pinv [OF sends(1) inv] v3 by simp
    have alive: "winode wb3 i \<noteq> None" using sends(5) v sb3 by simp
    have "B \<subseteq> pA (view i A wb)" using A by (simp add: view_def Let_def)
    with psteps_leaves [OF sends(1) inv] have "leaves B {} (view i A wb) (view i ?A2 wb3)" using v3 by simp
    then have far: "\<not> wbk \<Longrightarrow> ?idx \<notin> covered (view i ?A2 wb3)"
      using page_is_writeback_covered [OF b, of A] v1 by (auto dest: leavesD(1))
    show ?thesis
    proof (cases po)
      case None
      then have "err = - ENOMEM" "d' = d2" "wb' = wb3"
        using run get b send fr \<open>ffo = Some ff\<close> by (auto simp: fill_begin_def Let_def)
      then show ?thesis using sends disj v3 by (simp add: ENOMEM_def)
    next
      case (Some p)
      then obtain ro d3 wb4 where req: "fill_request enc (\<lambda>n. ok (Suc n)) i ?idx d2 wb3 = Some (ro, d3, wb4)"
        using run get b send fr \<open>ffo = Some ff\<close> by (auto simp: fill_begin_def Let_def elim!: bind_Some_E)
      show ?thesis
      proof (cases ro)
        case None
        then have none: "fd_req d2 = None" using req by (auto simp: fill_request_def split: option.split_asm)
        obtain v' where v': "winode wb3 i = Some v'" using alive by blast
        have same: "d3 = d2" "wb_sb wb4 = wb_sb wb3"
          using fill_request_view [OF req none _ inv2 [unfolded none] small v'] sends(2) v3 None by (simp_all add: none)
        have "err = - ENOMEM" "d' = d3" "wb_sb wb' = wb_sb wb4"
          using run get b send fr \<open>ffo = Some ff\<close> Some req None by (auto simp: fill_begin_def Let_def)
        moreover then have "view i ?A2 wb' = view i ?A2 wb3" "wconn wb' = wconn wb3" using same by (simp_all add: view_def wconn_def)
        ultimately show ?thesis using sends disj v3 same by (simp add: ENOMEM_def)
      next
        case (Some r)
        obtain q where "reqs (wconn wb4) r = Some q"
          using run get b send fr \<open>ffo = Some ff\<close> \<open>po = Some p\<close> req Some
          by (cases "reqs (wconn wb4) r") (simp_all add: fill_begin_def Let_def)
        then have out: "err = 0" "d' = d3" "is_wb = wbk"
          and wb': "wb_sb wb' = wb_sb (wconn_update (upd_req r (put_page_in (rq_num_pages q) p)) wb4)"
          using run get b send fr \<open>ffo = Some ff\<close> \<open>po = Some p\<close> req Some by (auto simp: fill_begin_def Let_def)
        have d2: "fd_req d2 = None \<or> ctx_ok (view i ?A2 wb3) d2 (Some (?idx, wbk))"
        proof (cases "fd_req d2")
          case (Some r')
          then have "d2 = ?d1" "wb2 = wb1" and *: "\<And>a n. shape (view i A wb) r' = Some (a, n) \<Longrightarrow> \<not> wbk \<and> a + n = ?idx"
            using sends(3) by auto
          then have "view i ?A2 wb3 = view i A wb" using v1 v3 A by simp
          then show ?thesis using * sends(4) far Some v3 by (fastforce simp: ctx_ok_def)
        qed simp
        obtain v' where "winode wb3 i = Some v'" using alive by blast
        note take = fill_take_view [OF req [unfolded Some] wb' refl disj d2 far _ inv2 small this]
        show ?thesis using take sends(1,2) v3 out by (auto intro: rtranclp_trans)
      qed
    qed
  qed
  then show "(pstep D B {})\<^sup>*\<^sup>* (view i A wb) (view i (B \<union> set_option (fd_req d')) wb')" and "ids_ok (wconn wb')"
    and "set_option (fd_req d') \<inter> B = {}"
    and "ctx_ok (view i (B \<union> set_option (fd_req d')) wb') d' (if err = 0 then Some (pg_index pg, is_wb) else None)"
    by blast+
qed

subsection \<open>A page that is already under way\<close>

lemma chain_find_end:
  assumes "chain (page_reqs i s) t cs" and "chain_find s i idx old t = Some res"
  defines "match \<equiv> \<lambda>c. p_num (the (page_reqs i s c)) = 1 \<and> p_first (the (page_reqs i s c)) = idx"
  shows "(res = old \<and> (\<forall>c\<in>set cs. \<not> match c)) \<or> (res \<in> set cs \<and> match res)"
  using assms(1,2)
proof (induction cs arbitrary: t old)
  case Nil
  then show ?case by (simp add: chain_find.simps)
next
  case (Cons c cs)
  then obtain p where t: "t = Some c" and p: "page_reqs i s c = Some p" and ch: "chain (page_reqs i s) (p_next p) cs" by auto
  obtain q w nx where q: "reqs s c = Some q" "write_of q = Some (w, nx)"
    and pq: "p = \<lparr>p_first = first_page w, p_num = rq_num_pages q, p_next = nx, p_pending = (FR_PENDING \<in> rq_flags q)\<rparr>"
    using p by (auto simp: page_reqs_Some)
  have m: "match c \<longleftrightarrow> rq_num_pages q = 1 \<and> first_page w = idx" using p pq by (simp add: match_def)
  have "chain_find s i idx (if match c then c else old) nx = Some res"
    using Cons.prems(2) t q by (auto simp: chain_find.simps [of s i idx old "Some c"] m split: if_split_asm)
  from Cons.IH [OF _ this] ch pq show ?case by (auto split: if_split_asm)
qed

text \<open>The new request is given up, whatever becomes of it.\<close>

lemma give_up_steps:
  assumes inv: "pinv D None held s" and r: "r \<in> pA s" "r \<notin> B" and P: "\<And>x. x \<noteq> r \<Longrightarrow> P x = preqs s x"
  shows "(pstep D B K)\<^sup>*\<^sup>* s (s\<lparr>pW := pW s - {r}, pA := pA s - {r}, preqs := P\<rparr>)"
proof -
  define t where "t = s\<lparr>pW := pW s - {r}, pA := pA s - {r}\<rparr>"
  have "r \<in> pW s" using pinvD(4) [OF inv] r by blast
  then have "r \<notin> live t" using removed_untracked [OF inv, of r t] by (simp add: t_def)
  then have "P x = preqs t x" if "x \<in> live t" for x using P [of x] that by (cases "x = r") (simp_all add: t_def)
  then have "pstep D B K t (t\<lparr>preqs := P\<rparr>)" by (rule Untracked)
  moreover have "pstep D B K s t" unfolding t_def using r by (rule Give_up)
  ultimately show ?thesis by (auto simp: t_def)
qed

lemma flight_copy_view:
  assumes run: "flight_copy wait pg r oldq wb = Some wb'" and ids: "ids_ok (wconn wb)" and v': "winode wb' i = Some v'"
  shows "\<And>x. x \<noteq> r \<Longrightarrow> page_reqs i (wconn wb') x = page_reqs i (wconn wb) x" and "ids_ok (wconn wb')"
    and "\<exists>v. winode wb i = Some v \<and> wfields v' = wfields v"
proof -
  obtain p q wb1 s where fr: "fuse_writepage_free wait q (stat_done (pg_node pg) (copy_page_to p pg wb)) = Some wb1"
    and fq: "fuse_request_free (wconn wb1) r = Some s" and wb': "wb' = wconn_update (\<lambda>_. s) wb1"
    using run by (auto simp: flight_copy_def elim!: bind_Some_E)
  have "ids_ok (wconn (stat_done (pg_node pg) (copy_page_to p pg wb)))" using ids by (simp add: wconn_def)
  from free_aside [OF fr this, of i] have as: "aside i (wb_sb wb) (wb_sb wb1)" by simp
  then have ids1: "ids_ok (wconn wb1)" and P1: "page_reqs i (wconn wb1) = page_reqs i (wconn wb)"
    using ids by (simp_all add: aside_def wconn_def)
  note f = free_stores [OF fq]
  show "page_reqs i (wconn wb') x = page_reqs i (wconn wb) x" if "x \<noteq> r" for x
    using stores_same_page_reqs [OF f(1), of x i] that P1 by (simp add: wb')
  show "\<exists>v. winode wb i = Some v \<and> wfields v' = wfields v" using as v' by (auto simp: wb' aside_def)
  have same: "reqs s x = reqs (wconn wb1) x \<or> reqs s x = None" for x using f(1,3) by (cases "x = r") (auto simp: stores_same_def)
  show "ids_ok (wconn wb')" unfolding ids_ok_def
  proof (intro conjI allI impI)
    show "x < next_id (wconn wb')" if "reqs (wconn wb') x \<noteq> None" for x
      using ids_okD(1) [OF ids1, of x] same [of x] that f(2) by (auto simp: wb')
    fix ff fl x assume g: "ffs (wconn wb') ff = Some fl" "ff_reserved_req fl = Some x"
    obtain f0 where f0: "ffs (wconn wb1) ff = Some f0" "ff_reserved_req f0 = Some x"
      using f(1) g by (fastforce simp: stores_same_def wb')
    from ids_okD(2) [OF ids1 f0] show "x < next_id (wconn wb')" using f(2) by (simp add: wb')
    show "write_of z = None" if "reqs (wconn wb') x = Some z" for z
      using ids_okD(3) [OF ids1 f0] same [of x] that by (auto simp: wb')
  qed
qed

lemma page_reqs_set_next:
  "page_reqs i (upd_req r (set_next nx) s) = (page_reqs i s)(r := map_option (p_next_update (\<lambda>_. nx)) (page_reqs i s r))"
  by (cases "reqs s r") (simp_all add: fun_eq_iff page_reqs_upd preq_of_set_next page_reqs_def)

lemma secondaryD:
  assumes "secondaries P W R cs" and "c \<in> set cs"
  obtains p where "P c = Some p" and "p_num p = 1" and "p_pending p" and "c \<notin> W"
  using assms by (auto simp: secondaries_def)

text \<open>What the walk along a chain finds: the request at its head, or a secondary one, which is still pending.\<close>

lemma chain_find_head:
  assumes run: "chain_find s i idx x (Some x) = Some res" and x: "page_reqs i s x = Some q"
    and ch: "chain (page_reqs i s) (p_next q) cs" and sec: "secondaries (page_reqs i s) W R cs"
  shows "(res = x \<and> (\<forall>c\<in>set cs. p_first (the (page_reqs i s c)) \<noteq> idx)) \<or>
    (\<exists>p. page_reqs i s res = Some p \<and> p_num p = 1 \<and> p_pending p)"
proof -
  have "chain_find s i idx x (p_next q) = Some res"
    using run x by (auto simp: page_reqs_Some chain_find.simps [of s i idx x "Some x"])
  from chain_find_end [OF ch this]
  consider "res = x" "\<forall>c\<in>set cs. \<not> (p_num (the (page_reqs i s c)) = 1 \<and> p_first (the (page_reqs i s c)) = idx)"
    | "res \<in> set cs" by blast
  then show ?thesis
  proof cases
    case 1
    have "p_num (the (page_reqs i s c)) = 1" if "c \<in> set cs" for c using secondaryD [OF sec that] by force
    then show ?thesis using 1 by blast
  next
    case 2
    then show ?thesis by (elim secondaryD [OF sec]) blast
  qed
qed

lemma in_flight_view:
  assumes run: "fuse_writepage_in_flight wait i pg r wb = Some (taken, wb')" and r: "r \<in> A" "r \<notin> B"
    and sh: "shape (view i A wb) r = Some (pg_index pg, 0)" and ids: "ids_ok (wconn wb)" and inv: "pinv D None held (view i A wb)"
    and v': "winode wb' i = Some v'"
  shows "ids_ok (wconn wb')" and "taken \<Longrightarrow> (pstep D B {})\<^sup>*\<^sup>* (view i A wb) (view i (A - {r}) wb')"
    and "\<not> taken \<Longrightarrow> view i A wb' = view i A wb \<and> pg_index pg \<notin> covered (view i A wb)"
proof -
  let ?idx = "pg_index pg" and ?s = "view i A wb" and ?P = "page_reqs i (wconn wb)"
  obtain v q found where v: "winode wb i = Some v" and q: "reqs (wconn wb) r = Some q"
    and scan: "range_scan (wconn wb) i ?idx ?idx (without r (writepages v)) = Some found"
    using run by (auto simp: fuse_writepage_in_flight_def elim!: bind_Some_E split: if_split_asm)
  obtain p where p: "?P r = Some p" "p_first p = ?idx" "p_num p = 0" using shape_view [OF q sh] by blast
  have rW: "r \<in> set (writepages v)" using pinvD(4) [OF inv] r v by (auto simp: view_eq)
  have "ids_ok (wconn wb') \<and> (taken \<longrightarrow> (pstep D B {})\<^sup>*\<^sup>* ?s (view i (A - {r}) wb')) \<and>
    (\<not> taken \<longrightarrow> view i A wb' = ?s \<and> ?idx \<notin> covered ?s)"
  proof (cases found)
    case None
    then have out: "\<not> taken" "wb' = winode_update i (\<lambda>v. v\<lparr>writepages := r # without r (writepages v)\<rparr>) wb"
      using run v q scan by (auto simp: fuse_writepage_in_flight_def split: if_split_asm)
    then have "winode wb' i = Some (v\<lparr>writepages := r # without r (writepages v)\<rparr>)" "wconn wb' = wconn wb" using v by simp_all
    then have "view i A wb' = ?s" using rW by (auto simp: view_eq [OF v] view_eq)
    moreover have "?idx \<notin> covered ?s"
    proof
      assume "?idx \<in> covered ?s"
      then obtain x px where x: "x \<in> set (writepages v)" "?P x = Some px" "?idx \<in> pages px"
        by (auto simp: view_eq [OF v] elim!: coveredE)
      then have "x \<noteq> r" using p by (auto simp: pages_def)
      then show False using range_scan_None [OF scan [unfolded None], of x] x by (auto simp: overlaps_page)
    qed
    ultimately show ?thesis using out ids by simp
  next
    case (Some x)
    define wb1 where "wb1 = wconn_update (upd_req r (rq_num_pages_update (\<lambda>_. 1))) (winode_update i (writepages_update (without r)) wb)"
    obtain old oldq where taken: "taken" and find: "chain_find (wconn wb1) i ?idx x (Some x) = Some old"
      and oldq: "reqs (wconn wb1) old = Some oldq"
      and fin: "(if rq_num_pages oldq = 1 \<and> FR_PENDING \<in> rq_flags oldq then flight_copy wait pg r oldq wb1
          else flight_chain r old oldq wb1) = Some wb'"
      using run v q scan Some by (auto simp: fuse_writepage_in_flight_def wb1_def Let_def elim!: bind_Some_E split: if_split_asm)
    have w1: "wconn wb1 = upd_req r (rq_num_pages_update (\<lambda>_. 1)) (wconn wb)"
      "winode wb1 i = Some (v\<lparr>writepages := without r (writepages v)\<rparr>)" using v by (simp_all add: wb1_def upd_conn_def)
    have ids1: "ids_ok (wconn wb1)" unfolding w1(1) using ids by (rule ids_ok_upd_req) simp
    have P1: "page_reqs i (wconn wb1) = ?P(r \<mapsto> p\<lparr>p_num := 1\<rparr>)"
      using p(1) q by (auto simp: w1(1) page_reqs_upd page_reqs_Some preq_of_def fun_eq_iff split: option.splits)
    obtain qx where x: "x \<in> set (writepages v)" "x \<noteq> r" "?P x = Some qx" "?idx \<in> pages qx"
      using range_scan_Some [OF scan [unfolded Some]] by (auto simp: overlaps_page)
    have "primary_ok ?s x" using pinvD(9) [OF inv] x(1) v by (simp add: view_eq)
    then obtain cs where cs: "chain ?P (p_next qx) cs" "secondaries ?P (set (writepages v)) (pages qx) cs"
      using x(3) v by (auto simp: primary_ok_def view_eq)
    have r_out: "r \<notin> set cs" using cs(2) rW by (auto simp: secondaries_def)
    have same: "page_reqs i (wconn wb1) c = ?P c" if "c \<in> set cs" for c using that r_out P1 by auto
    have ch1: "chain (page_reqs i (wconn wb1)) (p_next qx) cs" using cs(1) chain_cong [OF same] by simp
    have sec1: "secondaries (page_reqs i (wconn wb1)) (set (writepages v)) (pages qx) cs"
      using cs(2) secondaries_cong [OF same] by simp
    have x1: "page_reqs i (wconn wb1) x = Some qx" using x P1 by simp
    note head = chain_find_head [OF find x1 ch1 sec1]
    show ?thesis
    proof (cases "rq_num_pages oldq = 1 \<and> FR_PENDING \<in> rq_flags oldq")
      case True
      then have cp: "flight_copy wait pg r oldq wb1 = Some wb'" using fin by simp
      note c = flight_copy_view [OF cp ids1 v']
      have f: "wfields v' = (queued_writes v, writectr v, without r (writepages v))" using c(3) w1(2) by (auto simp: wfields_def)
      have "view i (A - {r}) wb' = ?s\<lparr>pW := pW ?s - {r}, pA := pA ?s - {r}, preqs := page_reqs i (wconn wb')\<rparr>"
        using f by (simp add: view_eq [OF v] view_eq [OF v'] wfields_def)
      moreover have "(pstep D B {})\<^sup>*\<^sup>* ?s (?s\<lparr>pW := pW ?s - {r}, pA := pA ?s - {r}, preqs := page_reqs i (wconn wb')\<rparr>)"
        by (rule give_up_steps [OF inv]) (use r c(1) P1 in \<open>simp_all add: view_eq [OF v]\<close>)
      ultimately show ?thesis using taken c(2) by simp
    next
      case False
      then obtain w nx where w: "write_of oldq = Some (w, nx)"
        and wb': "wb' = wconn_update (upd_req old (set_next (Some r)) \<circ> upd_req r (set_next nx)) wb1"
        using fin by (auto simp: flight_chain_def elim!: bind_Some_E)
      have "old = x \<and> (\<forall>c\<in>set cs. p_first (the (?P c)) \<noteq> ?idx)"
        using head oldq False same by (auto simp: page_reqs_Some)
      then have old: "old = x" and far: "\<And>c. c \<in> set cs \<Longrightarrow> p_first (the (?P c)) \<noteq> ?idx" by blast+
      have nx: "p_next qx = nx" using x1 oldq w unfolding old by (auto simp: page_reqs_Some)
      have c': "wconn wb' = upd_req x (set_next (Some r)) (upd_req r (set_next nx) (wconn wb1))" by (simp add: wb' old)
      have P': "page_reqs i (wconn wb') = ?P(r \<mapsto> p\<lparr>p_num := 1, p_next := p_next qx\<rparr>, x \<mapsto> qx\<lparr>p_next := Some r\<rparr>)"
        using x(2,3) unfolding c' page_reqs_set_next P1 nx by (simp add: fun_eq_iff)
      have "winode wb' i = Some (v\<lparr>writepages := without r (writepages v)\<rparr>)" using w1(2) by (simp add: wb' upd_conn_def)
      then have eq: "view i (A - {r}) wb' = ?s\<lparr>pW := pW ?s - {r}, pA := pA ?s - {r},
          preqs := (preqs ?s)(r \<mapsto> p\<lparr>p_num := 1, p_next := p_next qx\<rparr>, x \<mapsto> qx\<lparr>p_next := Some r\<rparr>)\<rparr>"
        using P' by (simp add: view_eq [OF v] view_eq)
      have "pstep D B {} ?s (view i (A - {r}) wb')" unfolding eq
        by (rule Chain [where cs = cs]) (use r p x cs far v in \<open>simp_all add: view_eq\<close>)
      moreover have "ids_ok (wconn wb')" unfolding c' by (intro ids_ok_upd_req ids1) (simp_all add: set_next_fields)
      ultimately show ?thesis using taken by blast
    qed
  qed
  then show "ids_ok (wconn wb')" and "taken \<Longrightarrow> (pstep D B {})\<^sup>*\<^sup>* ?s (view i (A - {r}) wb')"
    and "\<not> taken \<Longrightarrow> view i A wb' = ?s \<and> ?idx \<notin> covered ?s" by blast+
qed

lemma fill_end_view:
  assumes run: "fill_end wait i pg is_wb d wb = Some (d', wb')" and ctx: "ctx_ok (view i A wb) d (Some (pg_index pg, is_wb))"
    and A: "A = B \<union> set_option (fd_req d)" "set_option (fd_req d) \<inter> B = {}"
    and ids: "ids_ok (wconn wb)" and inv: "pinv D None held (view i A wb)" and alive: "winode wb' i \<noteq> None"
  shows "(pstep D B {pg_index pg})\<^sup>*\<^sup>* (view i A wb) (view i (B \<union> set_option (fd_req d')) wb')" and "ids_ok (wconn wb')"
    and "set_option (fd_req d') \<inter> B = {}" and "ctx_ok (view i (B \<union> set_option (fd_req d')) wb') d' None"
proof -
  let ?idx = "pg_index pg" and ?s = "view i A wb"
  obtain r a n where r: "fd_req d = Some r" "r \<in> A" "shape ?s r = Some (a, n)" "n \<le> length (fd_orig d)" "a + n = ?idx"
    "is_wb \<Longrightarrow> n = 0" "\<not> is_wb \<Longrightarrow> ?idx \<notin> covered ?s"
    using ctx by (auto simp: ctx_ok_def view_def Let_def)
  have rB: "r \<notin> B" using r(1) A(2) by auto
  obtain taken wb1 where fl: "(if is_wb then fuse_writepage_in_flight wait i pg r wb else Some (False, wb)) = Some (taken, wb1)"
    using run r(1) by (auto simp: fill_end_def simp del: split_paired_Ex elim!: bind_Some_E)
  have alive1: "winode wb1 i \<noteq> None"
    using run r(1) fl alive by (auto simp: fill_end_def end_page_writeback_def elim!: bind_Some_E split: if_split_asm)
  then obtain v1 where v1: "winode wb1 i = Some v1" by blast
  have flight: "ids_ok (wconn wb1)" "taken \<Longrightarrow> (pstep D B {})\<^sup>*\<^sup>* ?s (view i (A - {r}) wb1)"
    "\<not> taken \<Longrightarrow> view i A wb1 = ?s \<and> ?idx \<notin> covered ?s"
  proof -
    have "ids_ok (wconn wb1) \<and> (taken \<longrightarrow> (pstep D B {})\<^sup>*\<^sup>* ?s (view i (A - {r}) wb1)) \<and>
      (\<not> taken \<longrightarrow> view i A wb1 = ?s \<and> ?idx \<notin> covered ?s)"
    proof (cases is_wb)
      case True
      then have "fuse_writepage_in_flight wait i pg r wb = Some (taken, wb1)" and "shape ?s r = Some (?idx, 0)" using fl r by auto
      from in_flight_view [OF this(1) r(2) rB this(2) ids inv v1] show ?thesis by blast
    next
      case False
      then show ?thesis using fl ids r(7) by auto
    qed
    then show "ids_ok (wconn wb1)" "taken \<Longrightarrow> (pstep D B {})\<^sup>*\<^sup>* ?s (view i (A - {r}) wb1)"
      "\<not> taken \<Longrightarrow> view i A wb1 = ?s \<and> ?idx \<notin> covered ?s" by blast+
  qed
  have "(pstep D B {?idx})\<^sup>*\<^sup>* ?s (view i (B \<union> set_option (fd_req d')) wb') \<and> ids_ok (wconn wb') \<and>
    set_option (fd_req d') \<inter> B = {} \<and> ctx_ok (view i (B \<union> set_option (fd_req d')) wb') d' None"
  proof (cases taken)
    case True
    then have out: "d' = d\<lparr>fd_req := None\<rparr>" "wb' = end_page_writeback ?idx wb1"
      using run r(1) fl by (auto simp: fill_end_def)
    have "A - {r} = B" using A r(1) rB by auto
    moreover have "view i B wb' = view i B wb1" "wconn wb' = wconn wb1" by (simp_all add: out view_def wconn_def)
    ultimately show ?thesis using flight True psteps_mono [of D B "{}" ?s "view i B wb1" B "{?idx}"] by (simp add: out ctx_ok_def)
  next
    case False
    then obtain q where q: "reqs (wconn wb1) r = Some q"
      and out: "d' = d\<lparr>fd_orig := take (rq_num_pages q) (fd_orig d) @ [?idx]\<rparr>" "wb' = wconn_update (upd_req r (rq_num_pages_update Suc)) wb1"
      using run r(1) fl by (auto simp: fill_end_def elim!: bind_Some_E)
    have s1: "view i A wb1 = ?s" and far: "?idx \<notin> covered ?s" using flight(3) False by blast+
    obtain p where p: "page_reqs i (wconn wb1) r = Some p" "p_first p = a" "p_num p = n" and n: "rq_num_pages q = n"
      using shape_view [OF q, of i A a n] s1 r(3) by auto
    have P': "page_reqs i (wconn wb') = (page_reqs i (wconn wb1))(r \<mapsto> p\<lparr>p_num := Suc (p_num p)\<rparr>)"
      using p(1) q by (auto simp: out(2) page_reqs_upd page_reqs_Some preq_of_def write_of_def fun_eq_iff split: option.splits fuse_misc.splits)
    have A': "B \<union> set_option (fd_req d') = A" using A r(1) by (simp add: out)
    have v': "winode wb' i = Some v1" using v1 by (simp add: out upd_conn_def)
    have pr: "preqs ?s = page_reqs i (wconn wb1)" using view_eq [OF v1, of A] s1 by simp
    have eq: "view i A wb' = ?s\<lparr>preqs := (preqs ?s)(r \<mapsto> p\<lparr>p_num := Suc (p_num p)\<rparr>)\<rparr>"
      unfolding pr using P' by (simp add: s1 [symmetric] view_eq [OF v1] view_eq [OF v'])
    have "pstep D B {?idx} ?s (view i A wb')" unfolding eq
    proof (rule Page [where idx = ?idx])
      show "r \<in> pA ?s" using r(2) by (simp add: view_def Let_def)
      show "preqs ?s r = Some p" using p(1) pr by simp
      show "?idx \<notin> pages q'" if "x \<in> pW ?s" "preqs ?s x = Some q'" for x q' using far coveredI [OF that] by blast
    qed (use rB p r(5) in simp_all)
    moreover have "ids_ok (wconn wb')" unfolding out(2) wconn_simps by (rule ids_ok_upd_req [OF flight(1)]) (simp add: write_of_def)
    moreover have "ctx_ok (view i A wb') d' None"
    proof -
      have "shape (view i A wb') r = Some (a, Suc n)" using p by (simp add: eq shape_def)
      moreover have "r \<in> pA (view i A wb')" using r(2) by (simp add: view_def Let_def)
      ultimately show ?thesis using r(1,4,5) n by (auto simp: ctx_ok_def out(1) nth_append)
    qed
    ultimately show ?thesis unfolding A' using A(2) by (simp add: out(1) r_into_rtranclp)
  qed
  then show "(pstep D B {?idx})\<^sup>*\<^sup>* ?s (view i (B \<union> set_option (fd_req d')) wb')" and "ids_ok (wconn wb')"
    and "set_option (fd_req d') \<inter> B = {}" and "ctx_ok (view i (B \<union> set_option (fd_req d')) wb') d' None" by blast+
qed

end
