(* ===== verification/Fuse_Writeback_Correct.thy ===== *)
theory Fuse_Writeback_Correct
  imports Writeback_Refine
begin

text \<open>
  Writeback of one inode as a system of threads, and its properties. \<open>wb_step\<close> are the actions of
  all threads that write back or launder pages of the inode, end its requests or hold its writes back, interleaved
  with each other and with the rest of the module.

  \<^item> \<open>sy_ctx\<close> has for each thread inside \<open>fuse_writepages\<close> its \<open>fill_data\<close> and, between the two halves of
    \<open>fuse_writepages_fill\<close>, the page at hand with the answer whether it was found under writeback. Such a page is locked.
  \<^item> \<open>sy_held\<close> says that some thread is between \<open>fuse_set_nowrite\<close> and \<open>fuse_release_nowrite\<close>; both are
    called with the lock of the inode held, so there is at most one.
  \<^item> \<open>Launder\<close> is \<open>fuse_launder_page\<close> up to the wait at its end; what happens during the wait are steps of others.
    It looks at no request on \<open>writepages\<close>. With the flag \<open>D\<close> a page is laundered only when no write of it is
    under way; without it, as the code has it, at any time. What holds for every \<open>D\<close> holds of the code as it is.
  \<^item> A request ends once it was sent; the rest of the module (\<open>Environment\<close>) changes neither the lists of
    the inode nor a write request that is tracked by them.
  \<^item> The inode stays allocated, and page indices stay below the largest file size.

  One rule is one action. The code takes the lock of the connection once in most of them, and twice in
  \<open>Write_page\<close>, which tests the page and queues the request while it holds the lock of the page. One interleaving is not
  here: \<open>fuse_send_writepage\<close> drops the lock of the connection while it frees a request that was not sent, so
  that another thread can act between two turns of \<open>fuse_flush_writepages\<close>, or within \<open>fuse_writepage_end\<close>;
  the rules take each of the two as one action.
\<close>

record wb_sys =
  sy_wb :: fuse_wb
  sy_ctx :: "nat \<rightharpoonup> fill_data \<times> (cpage \<times> bool) option"
  sy_held :: bool

definition others :: "nat set \<Rightarrow> wb_sys \<Rightarrow> req_id set" where
  "others T s = {r. \<exists>t d cur. t \<notin> T \<and> sy_ctx s t = Some (d, cur) \<and> fd_req d = Some r}"

definition locks :: "nat set \<Rightarrow> wb_sys \<Rightarrow> nat set" where
  "locks T s = {k. \<exists>t d pg b. t \<notin> T \<and> sy_ctx s t = Some (d, Some (pg, b)) \<and> k = pg_index pg}"

definition sview :: "ino_id \<Rightarrow> wb_sys \<Rightarrow> pstate" where
  "sview i s = view i (others {} s) (sy_wb s)"

definition environment :: "ino_id \<Rightarrow> wb_sys \<Rightarrow> fuse_wb \<Rightarrow> bool" where
  "environment i s wb' \<longleftrightarrow> (\<exists>v v'. winode (sy_wb s) i = Some v \<and> winode wb' i = Some v' \<and> wfields v' = wfields v) \<and>
     (\<forall>x\<in>live (sview i s). page_reqs i (wconn wb') x = page_reqs i (wconn (sy_wb s)) x) \<and>
     (ids_ok (wconn (sy_wb s)) \<longrightarrow> ids_ok (wconn wb'))"

definition read_write :: "req_id \<Rightarrow> fuse_wb \<Rightarrow> fuse_wb" where
  "read_write r = wconn_update (upd_req r (clear_flag FR_PENDING))"

definition pg_limit :: nat where "pg_limit = 2 ^ 52"

inductive wb_step :: "bool \<Rightarrow> enc_write \<Rightarrow> ino_id \<Rightarrow> wb_sys \<Rightarrow> wb_sys \<Rightarrow> bool" for D enc i where
  Write_page: "fuse_writepage enc wait ok node i pg (sy_wb s) = Some (err, wb') \<Longrightarrow> pg_index pg \<notin> locks {} s \<Longrightarrow>
    pg_index pg < pg_limit \<Longrightarrow> winode wb' i \<noteq> None \<Longrightarrow> wb_step D enc i s (s\<lparr>sy_wb := wb'\<rparr>)"
| Launder: "fuse_launder_page enc wait ok node (\<lambda>_. Some) dirty i pg (sy_wb s) = Some (err, wb') \<Longrightarrow> pg_index pg \<notin> locks {} s \<Longrightarrow>
    pg_index pg < pg_limit \<Longrightarrow> (D \<longrightarrow> dirty \<longrightarrow> fuse_page_is_writeback i (pg_index pg) (sy_wb s) = Some False) \<Longrightarrow>
    winode wb' i \<noteq> None \<Longrightarrow> wb_step D enc i s (s\<lparr>sy_wb := wb'\<rparr>)"
| Start: "sy_ctx s t = None \<Longrightarrow>
    wb_step D enc i s (s\<lparr>sy_ctx := (sy_ctx s)(t \<mapsto> (\<lparr>fd_req = None, fd_ff = None, fd_orig = []\<rparr>, None))\<rparr>)"
| Begin: "sy_ctx s t = Some (d, None) \<Longrightarrow> fill_begin enc wait ok node i pg d (sy_wb s) = Some (err, is_wb, d', wb') \<Longrightarrow>
    pg_index pg \<notin> locks {} s \<Longrightarrow> pg_index pg < pg_limit \<Longrightarrow> winode wb' i \<noteq> None \<Longrightarrow>
    wb_step D enc i s (s\<lparr>sy_wb := wb', sy_ctx := (sy_ctx s)(t \<mapsto> (d', if err = 0 then Some (pg, is_wb) else None))\<rparr>)"
| End: "sy_ctx s t = Some (d, Some (pg, is_wb)) \<Longrightarrow> fill_end wait i pg is_wb d (sy_wb s) = Some (d', wb') \<Longrightarrow>
    winode wb' i \<noteq> None \<Longrightarrow> wb_step D enc i s (s\<lparr>sy_wb := wb', sy_ctx := (sy_ctx s)(t \<mapsto> (d', None))\<rparr>)"
| Last: "sy_ctx s t = Some (d, None) \<Longrightarrow> writepages_last enc wait i err d (sy_wb s) = Some (err', wb') \<Longrightarrow>
    winode wb' i \<noteq> None \<Longrightarrow>
    wb_step D enc i s (s\<lparr>sy_wb := wb', sy_ctx := (sy_ctx s)(t \<mapsto> (d\<lparr>fd_req := None\<rparr>, None))\<rparr>)"
| Put: "sy_ctx s t = Some (d, None) \<Longrightarrow> fd_req d = None \<Longrightarrow> writepages_put wait d (sy_wb s) = Some wb' \<Longrightarrow>
    winode wb' i \<noteq> None \<Longrightarrow> wb_step D enc i s (s\<lparr>sy_wb := wb', sy_ctx := (sy_ctx s)(t := None)\<rparr>)"
| Done: "r \<in> sent (sview i s) \<Longrightarrow> fuse_writepage_end enc wait r (sy_wb s) = Some wb' \<Longrightarrow> winode wb' i \<noteq> None \<Longrightarrow>
    wb_step D enc i s (s\<lparr>sy_wb := wb'\<rparr>)"
| Hold: "\<not> sy_held s \<Longrightarrow> set_nowrite_start i (sy_wb s) = Some wb' \<Longrightarrow>
    wb_step D enc i s (s\<lparr>sy_wb := wb', sy_held := True\<rparr>)"
| Release: "sy_held s \<Longrightarrow> fuse_release_nowrite enc wait i (sy_wb s) = Some wb' \<Longrightarrow>
    wb_step D enc i s (s\<lparr>sy_wb := wb', sy_held := False\<rparr>)"
| Read: "r \<in> sent (sview i s) \<Longrightarrow> wb_step D enc i s (s\<lparr>sy_wb := read_write r (sy_wb s)\<rparr>)"
| Environment: "environment i s wb' \<Longrightarrow> wb_step D enc i s (s\<lparr>sy_wb := wb'\<rparr>)"

text \<open>Before the first dirty page: nothing is under way.\<close>

definition wb_start :: "ino_id \<Rightarrow> wb_sys \<Rightarrow> bool" where
  "wb_start i s \<longleftrightarrow> sy_ctx s = Map.empty \<and> \<not> sy_held s \<and> ids_ok (wconn (sy_wb s)) \<and>
     map_option wfields (winode (sy_wb s) i) = Some ([], 0, [])"

definition reachable :: "bool \<Rightarrow> enc_write \<Rightarrow> ino_id \<Rightarrow> wb_sys \<Rightarrow> bool" where
  "reachable D enc i s \<longleftrightarrow> (\<exists>s0. wb_start i s0 \<and> (wb_step D enc i)\<^sup>*\<^sup>* s0 s)"

subsection \<open>The invariant\<close>

definition page_at :: "(cpage \<times> bool) option \<Rightarrow> (nat \<times> bool) option" where
  "page_at = map_option (\<lambda>(pg, b). (pg_index pg, b))"

lemma page_at_simps [simp]: "page_at None = None" "page_at (Some (pg, b)) = Some (pg_index pg, b)"
  by (simp_all add: page_at_def)

definition wb_inv :: "bool \<Rightarrow> ino_id \<Rightarrow> wb_sys \<Rightarrow> bool" where
  "wb_inv D i s \<longleftrightarrow> winode (sy_wb s) i \<noteq> None \<and> ids_ok (wconn (sy_wb s)) \<and> pinv D None (sy_held s) (sview i s) \<and>
     (\<forall>t d cur. sy_ctx s t = Some (d, cur) \<longrightarrow> ctx_ok (sview i s) d (page_at cur) \<and>
        set_option (fd_req d) \<inter> others {t} s = {} \<and> (\<forall>pg b. cur = Some (pg, b) \<longrightarrow> pg_index pg \<notin> locks {t} s))"

lemma ctx_ok_leaves:
  assumes "ctx_ok s d cur" and "leaves B K s t" and "set_option (fd_req d) \<subseteq> B" and "\<And>k b. cur = Some (k, b) \<Longrightarrow> k \<notin> K"
  shows "ctx_ok t d cur"
proof -
  have s: "shape t r = shape s r" "r \<in> pA t" if "fd_req d = Some r" for r using assms(2,3) that by (auto simp: leaves_def)
  have c: "k \<notin> covered t" if "cur = Some (k, b)" "k \<notin> covered s" for k b using that assms(2) assms(4) [OF that(1)] by (auto simp: leaves_def)
  show ?thesis using assms(1) s c by (auto simp: ctx_ok_def split: option.split_asm)
qed

lemma others_split: "sy_ctx s t = Some (d, cur) \<Longrightarrow> others {} s = others {t} s \<union> set_option (fd_req d)"
  by (auto simp: others_def) (metis option.inject prod.inject)

lemma others_mono: "T \<subseteq> U \<Longrightarrow> others U s \<subseteq> others T s"
  by (auto simp: others_def)

text \<open>A step of the threads \<open>T\<close> (one or none) that leaves the requests and pages of the others alone.\<close>

lemma wb_inv_update:
  assumes inv: "wb_inv D i s" and same: "\<And>u. u \<notin> T \<Longrightarrow> sy_ctx s' u = sy_ctx s u"
    and lv: "leaves (others T s) K (sview i s) (sview i s')" and K: "K \<inter> locks T s = {}"
    and new: "\<And>u d cur. u \<in> T \<Longrightarrow> sy_ctx s' u = Some (d, cur) \<Longrightarrow> T = {u} \<and> ctx_ok (sview i s') d (page_at cur) \<and>
        set_option (fd_req d) \<inter> others T s = {} \<and> (\<forall>pg b. cur = Some (pg, b) \<longrightarrow> pg_index pg \<notin> locks T s)"
    and p: "pinv D None (sy_held s') (sview i s')" and ids: "ids_ok (wconn (sy_wb s'))" and alive: "winode (sy_wb s') i \<noteq> None"
  shows "wb_inv D i s'"
proof -
  have oT: "others T s' = others T s" and lT: "locks T s' = locks T s" using same by (auto simp: others_def locks_def)
  have "ctx_ok (sview i s') d (page_at cur) \<and> set_option (fd_req d) \<inter> others {t} s' = {} \<and>
      (\<forall>pg b. cur = Some (pg, b) \<longrightarrow> pg_index pg \<notin> locks {t} s')" if t: "sy_ctx s' t = Some (d, cur)" for t d cur
  proof (cases "t \<in> T")
    case True
    from new [OF this t] oT lT show ?thesis by blast
  next
    case False
    then have st: "sy_ctx s t = Some (d, cur)" using same t by simp
    then have old: "ctx_ok (sview i s) d (page_at cur)" "set_option (fd_req d) \<inter> others {t} s = {}"
      "\<And>pg b. cur = Some (pg, b) \<Longrightarrow> pg_index pg \<notin> locks {t} s" using inv by (auto simp: wb_inv_def)
    have mine: "set_option (fd_req d) \<subseteq> others T s" using st False by (auto simp: others_def)
    have lock: "k \<notin> K" if "page_at cur = Some (k, b)" for k b
      using K st False that by (fastforce simp: locks_def page_at_def)
    have "ctx_ok (sview i s') d (page_at cur)" using ctx_ok_leaves [OF old(1) lv mine lock] .
    moreover have "r \<notin> others {t} s'" if r: "fd_req d = Some r" for r
    proof
      assume "r \<in> others {t} s'"
      then obtain u e c where u: "u \<noteq> t" "sy_ctx s' u = Some (e, c)" "fd_req e = Some r" by (auto simp: others_def)
      show False
      proof (cases "u \<in> T")
        case True
        then show False using new [OF True u(2)] u(3) mine r by auto
      next
        case False
        then have "r \<in> others {t} s" using u same by (auto simp: others_def)
        then show False using old(2) r by auto
      qed
    qed
    moreover have "pg_index pg \<notin> locks {t} s'" if c: "cur = Some (pg, b)" for pg b
    proof
      assume "pg_index pg \<in> locks {t} s'"
      then obtain u e pg' b' where u: "u \<noteq> t" "sy_ctx s' u = Some (e, Some (pg', b'))" "pg_index pg = pg_index pg'" by (auto simp: locks_def)
      show False
      proof (cases "u \<in> T")
        case True
        have "pg_index pg \<in> locks T s" using st False c by (auto simp: locks_def)
        moreover have "pg_index pg' \<notin> locks T s" using new [OF True u(2)] by blast
        ultimately show False using u(3) by simp
      next
        case False
        then have "pg_index pg \<in> locks {t} s" using u same by (fastforce simp: locks_def)
        then show False using old(3) c by blast
      qed
    qed
    ultimately show ?thesis by auto
  qed
  then show ?thesis using p ids alive by (simp add: wb_inv_def)
qed

text \<open>A step of one thread.\<close>

lemma thread_inv:
  assumes inv: "wb_inv D i s" and t: "sy_ctx s t = Some (d, cur)"
  shows "others {} s = others {t} s \<union> set_option (fd_req d)" and "set_option (fd_req d) \<inter> others {t} s = {}"
    and "ctx_ok (sview i s) d (page_at cur)" and "\<And>pg b. cur = Some (pg, b) \<Longrightarrow> pg_index pg \<notin> locks {t} s"
    and "ids_ok (wconn (sy_wb s))" and "pinv D None (sy_held s) (view i (others {} s) (sy_wb s))"
  using inv t others_split [OF t] by (auto simp: wb_inv_def sview_def)

lemma thread_step:
  assumes inv: "wb_inv D i s" and t: "sy_ctx s t = Some (d, cur)"
    and s': "s' = s\<lparr>sy_wb := wb', sy_ctx := (sy_ctx s)(t \<mapsto> (d', cur'))\<rparr>"
    and steps: "(pstep D (others {t} s) K)\<^sup>*\<^sup>* (view i (others {} s) (sy_wb s)) (view i (others {t} s \<union> set_option (fd_req d')) wb')"
    and ids: "ids_ok (wconn wb')" and alive: "winode wb' i \<noteq> None" and K: "K \<inter> locks {t} s = {}"
    and new: "set_option (fd_req d') \<inter> others {t} s = {}"
      "ctx_ok (view i (others {t} s \<union> set_option (fd_req d')) wb') d' (page_at cur')"
      "\<And>pg b. cur' = Some (pg, b) \<Longrightarrow> pg_index pg \<notin> locks {t} s"
  shows "wb_inv D i s'" and "(pstep D {} K)\<^sup>*\<^sup>* (sview i s) (sview i s')"
proof -
  note th = thread_inv [OF inv t]
  have "others {} s' = others {t} s \<union> set_option (fd_req d')"
    using others_split [of s' t d' cur'] by (simp add: s') (auto simp: others_def)
  then have v: "sview i s' = view i (others {t} s \<union> set_option (fd_req d')) wb'" by (simp add: sview_def s')
  have "others {t} s \<subseteq> pA (view i (others {} s) (sy_wb s))" using th(1) by (simp add: view_def Let_def)
  then have lv: "leaves (others {t} s) K (sview i s) (sview i s')"
    using psteps_leaves [OF steps th(6)] v by (simp add: sview_def)
  have p: "pinv D None (sy_held s') (sview i s')" using psteps_pinv [OF steps th(6)] v by (simp add: s')
  show "wb_inv D i s'"
    by (rule wb_inv_update [OF inv _ lv K _ p]) (use new v ids alive in \<open>auto simp: s' split: if_split_asm\<close>)
  show "(pstep D {} K)\<^sup>*\<^sup>* (sview i s) (sview i s')" using psteps_mono [OF steps, of "{}" K] v by (simp add: sview_def)
qed

text \<open>A step of no thread inside \<open>fuse_writepages\<close>.\<close>

lemma outside_step:
  assumes inv: "wb_inv D i s" and s': "sy_ctx s' = sy_ctx s"
    and lv: "leaves (others {} s) K (sview i s) (sview i s')" and K: "K \<inter> locks {} s = {}"
    and p: "pinv D None (sy_held s') (sview i s')" and ids: "ids_ok (wconn (sy_wb s'))" and alive: "winode (sy_wb s') i \<noteq> None"
  shows "wb_inv D i s'"
  by (rule wb_inv_update [OF inv _ lv K _ p ids alive]) (simp_all add: s')

lemma locks_mono: "T \<subseteq> U \<Longrightarrow> locks U s \<subseteq> locks T s"
  by (auto simp: locks_def)

text \<open>The parts of the invariant at a glance.\<close>

lemma wb_invD:
  assumes "wb_inv D i s"
  shows "winode (sy_wb s) i \<noteq> None" and "ids_ok (wconn (sy_wb s))" and "pinv D None (sy_held s) (view i (others {} s) (sy_wb s))"
  using assms by (simp_all add: wb_inv_def sview_def)

lemma sview_wb: "sy_ctx s' = sy_ctx s \<Longrightarrow> sview i s' = view i (others {} s) (sy_wb s')"
  by (simp add: sview_def others_def)

lemma pA_view: "pA (view i A wb) = A"
  by (simp add: view_def Let_def)

text \<open>An atomic action of the specification that leaves the requests of all threads alone.\<close>

lemma outside_moves:
  assumes inv: "wb_inv D i s" and s': "s' = s\<lparr>sy_wb := wb'\<rparr>"
    and steps: "(pstep D (others {} s) K)\<^sup>*\<^sup>* (view i (others {} s) (sy_wb s)) (view i (others {} s) wb')"
    and ids: "ids_ok (wconn wb')" and alive: "winode wb' i \<noteq> None" and K: "K \<inter> locks {} s = {}"
  shows "wb_inv D i s' \<and> spec_step D (sy_held s, sview i s) (sy_held s', sview i s')"
proof
  note I = wb_invD [OF inv]
  have v: "sview i s' = view i (others {} s) wb'" using sview_wb [of s' s i] by (simp add: s')
  show "wb_inv D i s'"
  proof (rule outside_step [OF inv _ _ K])
    show "leaves (others {} s) K (sview i s) (sview i s')"
      using psteps_leaves [OF steps I(3)] v by (simp add: sview_def pA_view)
    show "pinv D None (sy_held s') (sview i s')" using psteps_pinv [OF steps I(3)] v by (simp add: s')
  qed (use ids alive in \<open>simp_all add: s'\<close>)
  show "spec_step D (sy_held s, sview i s) (sy_held s', sview i s')" using Move [OF psteps_mono [OF steps, of "{}" K]] v by (simp add: sview_def s')
qed

lemma read_steps:
  assumes inv: "wb_inv D i s" and r: "r \<in> sent (sview i s)"
  shows "pstep D B {} (view i (others {} s) (sy_wb s)) (view i (others {} s) (read_write r (sy_wb s)))"
    and "ids_ok (wconn (read_write r (sy_wb s)))"
proof -
  note I = wb_invD [OF inv]
  obtain v where v: "winode (sy_wb s) i = Some v" using I(1) by blast
  have r': "r \<in> sent (view i (others {} s) (sy_wb s))" using r by (simp add: sview_def)
  then have "r \<in> pW (view i (others {} s) (sy_wb s))" by (simp add: sent_def)
  then obtain q w nx where q: "reqs (wconn (sy_wb s)) r = Some q" "rq_inode q = Some i" "write_of q = Some (w, nx)"
    and p: "page_reqs i (wconn (sy_wb s)) r = Some \<lparr>p_first = first_page w, p_num = rq_num_pages q, p_next = nx,
           p_pending = (FR_PENDING \<in> rq_flags q)\<rparr>"
    by (rule tracked_request [OF I(3)])
  have "preq_of i (clear_flag FR_PENDING q) =
      Some (\<lparr>p_first = first_page w, p_num = rq_num_pages q, p_next = nx, p_pending = (FR_PENDING \<in> rq_flags q)\<rparr>\<lparr>p_pending := False\<rparr>)"
    using q by (simp add: preq_of_def write_of_def clear_flag_def)
  then have "view i (others {} s) (read_write r (sy_wb s)) = (view i (others {} s) (sy_wb s))\<lparr>preqs :=
      (preqs (view i (others {} s) (sy_wb s)))(r \<mapsto> \<lparr>p_first = first_page w, p_num = rq_num_pages q, p_next = nx,
        p_pending = (FR_PENDING \<in> rq_flags q)\<rparr>\<lparr>p_pending := False\<rparr>)\<rparr>"
    using q(1) v by (simp add: read_write_def view_eq upd_conn_def page_reqs_upd)
  then show "pstep D B {} (view i (others {} s) (sy_wb s)) (view i (others {} s) (read_write r (sy_wb s)))"
    using pstep.Read [OF r', of _ D B "{}"] p v by (simp add: view_eq)
  show "ids_ok (wconn (read_write r (sy_wb s)))" unfolding read_write_def wconn_simps
    using I(2) by (rule ids_ok_upd_req) simp
qed

lemma environment_steps:
  assumes "environment i s wb'"
  shows "pstep D B {} (view i (others {} s) (sy_wb s)) (view i (others {} s) wb')"
proof -
  obtain v v' where v: "winode (sy_wb s) i = Some v" "winode wb' i = Some v'" "wfields v' = wfields v"
    and same: "\<And>x. x \<in> live (view i (others {} s) (sy_wb s)) \<Longrightarrow> page_reqs i (wconn wb') x = page_reqs i (wconn (sy_wb s)) x"
    using assms by (auto simp: environment_def sview_def)
  let ?s = "view i (others {} s) (sy_wb s)"
  have eq: "view i (others {} s) wb' = ?s\<lparr>preqs := page_reqs i (wconn wb')\<rparr>" using v by (simp add: view_eq wfields_def)
  show ?thesis unfolding eq by (rule Untracked) (use same v(1) in \<open>simp add: view_eq\<close>)
qed

subsection \<open>Every action keeps the invariant and implements the specification\<close>

lemma thread_spec:
  assumes "wb_inv D i s" and "sy_ctx s t = Some (d, cur)"
    and "(pstep D (others {t} s) K)\<^sup>*\<^sup>* (view i (others {} s) (sy_wb s)) (view i (others {t} s \<union> set_option (fd_req d')) wb')"
    and "ids_ok (wconn wb')" and "winode wb' i \<noteq> None" and "K \<inter> locks {t} s = {}"
    and "set_option (fd_req d') \<inter> others {t} s = {}"
    and "ctx_ok (view i (others {t} s \<union> set_option (fd_req d')) wb') d' (page_at cur')"
    and "\<And>pg b. cur' = Some (pg, b) \<Longrightarrow> pg_index pg \<notin> locks {t} s"
    and s': "s' = s\<lparr>sy_wb := wb', sy_ctx := (sy_ctx s)(t \<mapsto> (d', cur'))\<rparr>"
  shows "wb_inv D i s' \<and> spec_step D (sy_held s, sview i s) (sy_held s', sview i s')"
  using thread_step(1) [OF assms(1,2) s' assms(3-9)] Move [OF thread_step(2) [OF assms(1,2) s' assms(3-9)]] by (simp add: s')

lemma page_begin_step:
  assumes inv: "wb_inv D i s" and t: "sy_ctx s t = Some (d, None)"
    and run: "fill_begin enc wait ok node i pg d (sy_wb s) = Some (err, is_wb, d', wb')"
    and lock: "pg_index pg \<notin> locks {} s" and small: "pg_index pg < pg_limit" and alive: "winode wb' i \<noteq> None"
    and s': "s' = s\<lparr>sy_wb := wb', sy_ctx := (sy_ctx s)(t \<mapsto> (d', if err = 0 then Some (pg, is_wb) else None))\<rparr>"
  shows "wb_inv D i s' \<and> spec_step D (sy_held s, sview i s) (sy_held s', sview i s')"
proof -
  note th = thread_inv [OF inv t]
  have ctx: "ctx_ok (view i (others {} s) (sy_wb s)) d None" using th(3) by (simp add: sview_def)
  note b = fill_begin_view [OF run ctx th(1,2,5,6) small [unfolded pg_limit_def]]
  have cur: "page_at (if err = 0 then Some (pg, is_wb) else None) = (if err = 0 then Some (pg_index pg, is_wb) else None)" by simp
  show ?thesis
    by (rule thread_spec [OF inv t b(1,2) alive _ b(3) _ _ s'])
      (use b(4) lock locks_mono [of "{}" "{t}" s] in \<open>auto simp: cur split: if_split_asm\<close>)
qed

lemma page_end_step:
  assumes inv: "wb_inv D i s" and t: "sy_ctx s t = Some (d, Some (pg, is_wb))"
    and run: "fill_end wait i pg is_wb d (sy_wb s) = Some (d', wb')" and alive: "winode wb' i \<noteq> None"
    and s': "s' = s\<lparr>sy_wb := wb', sy_ctx := (sy_ctx s)(t \<mapsto> (d', None))\<rparr>"
  shows "wb_inv D i s' \<and> spec_step D (sy_held s, sview i s) (sy_held s', sview i s')"
proof -
  note th = thread_inv [OF inv t]
  have ctx: "ctx_ok (view i (others {} s) (sy_wb s)) d (Some (pg_index pg, is_wb))" using th(3) by (simp add: sview_def)
  note e = fill_end_view [OF run ctx th(1,2,5,6) alive]
  show ?thesis
    by (rule thread_spec [OF inv t e(1,2) alive _ e(3) _ _ s']) (use e(4) th(4) in \<open>auto simp: page_at_def\<close>)
qed

lemma last_send_step:
  assumes inv: "wb_inv D i s" and t: "sy_ctx s t = Some (d, None)"
    and run: "writepages_last enc wait i err d (sy_wb s) = Some (err', wb')" and alive: "winode wb' i \<noteq> None"
    and s': "s' = s\<lparr>sy_wb := wb', sy_ctx := (sy_ctx s)(t \<mapsto> (d\<lparr>fd_req := None\<rparr>, None))\<rparr>"
  shows "wb_inv D i s' \<and> spec_step D (sy_held s, sview i s) (sy_held s', sview i s')"
proof -
  note th = thread_inv [OF inv t]
  have "(pstep D (others {t} s) {})\<^sup>*\<^sup>* (view i (others {} s) (sy_wb s)) (view i (others {t} s) wb') \<and> ids_ok (wconn wb')"
  proof (cases "fd_req d")
    case None
    then show ?thesis using run th(1,5) by (simp add: writepages_last_def)
  next
    case (Some r)
    then have send: "fuse_writepages_send enc wait i d (sy_wb s) = Some wb'"
      using run by (auto simp: writepages_last_def elim!: bind_Some_E split: if_split_asm)
    have "r \<in> others {} s" "r \<notin> others {t} s" "others {} s - {r} = others {t} s" using th(1,2) Some by auto
    then show ?thesis using writepages_send_view(1,2) [OF send Some _ _ th(5,6), of "others {t} s"] by simp
  qed
  then show ?thesis
    by (intro thread_spec [OF inv t _ _ alive _ _ _ _ s', of "{}"]) (auto simp: ctx_ok_def page_at_def)
qed

lemma others_idle:
  assumes "case sy_ctx s t of None \<Rightarrow> True | Some (d, _) \<Rightarrow> fd_req d = None"
  shows "others {} s = others {t} s"
proof (cases "sy_ctx s t")
  case None
  then show ?thesis unfolding others_def by (intro Collect_cong) (metis empty_iff option.distinct(1) singletonD)
next
  case (Some dc)
  then show ?thesis using assms others_split [of s t "fst dc" "snd dc"] by (simp add: case_prod_beta)
qed

lemma others_same: "(\<And>u. u \<noteq> t \<Longrightarrow> sy_ctx s' u = sy_ctx s u) \<Longrightarrow> others {t} s' = others {t} s"
  by (auto simp: others_def)

lemma put_step:
  assumes inv: "wb_inv D i s" and t: "sy_ctx s t = Some (d, None)" "fd_req d = None"
    and run: "writepages_put wait d (sy_wb s) = Some wb'" and alive: "winode wb' i \<noteq> None"
    and s': "s' = s\<lparr>sy_wb := wb', sy_ctx := (sy_ctx s)(t := None)\<rparr>"
  shows "wb_inv D i s' \<and> spec_step D (sy_held s, sview i s) (sy_held s', sview i s')"
proof -
  note I = wb_invD [OF inv]
  have as: "aside i (wb_sb (sy_wb s)) (wb_sb wb')"
    using run file_put_aside [of wait _ "wb_sb (sy_wb s)"] I(2) by (auto simp: writepages_put_def wconn_def split: option.split_asm)
  obtain v' where v': "winode wb' i = Some v'" using alive by blast
  have vw: "view i A wb' = view i A (sy_wb s)" for A using aside_view(2) [OF as v'] .
  have o: "others {} s' = others {} s"
    using others_idle [of s t] others_idle [of s' t] t others_same [of t s' s] by (simp add: s')
  have v: "sview i s' = sview i s" using vw o by (simp add: sview_def s')
  have "others {t} s \<subseteq> pA (sview i s)" using others_mono [of "{}" "{t}" s] by (simp add: sview_def pA_view)
  then have lv: "leaves (others {t} s) {} (sview i s) (sview i s')" unfolding v by (rule leaves_refl)
  have "ids_ok (wconn wb')" using as I(2) by (simp add: aside_def wconn_def)
  then have "wb_inv D i s'"
    using I(3) alive v by (intro wb_inv_update [OF inv _ lv]) (auto simp: s' sview_def split: if_split_asm)
  then show ?thesis using v Move [of D "{}" "sview i s" "sview i s"] by (simp add: s')
qed

lemma done_step:
  assumes inv: "wb_inv D i s" and r: "r \<in> sent (sview i s)" and run: "fuse_writepage_end enc wait r (sy_wb s) = Some wb'"
    and alive: "winode wb' i \<noteq> None" and s': "s' = s\<lparr>sy_wb := wb'\<rparr>"
  shows "wb_inv D i s' \<and> spec_step D (sy_held s, sview i s) (sy_held s', sview i s')"
proof -
  note I = wb_invD [OF inv]
  have r': "r \<in> sent (view i (others {} s) (sy_wb s))" using r by (simp add: sview_def)
  then obtain q where q: "reqs (wconn (sy_wb s)) r = Some q" "rq_inode q = Some i"
    using tracked_request [OF I(3), of r] by (auto simp: sent_def)
  obtain u p where steps: "(pend r)\<^sup>*\<^sup>* (view i (others {} s) (sy_wb s)) u" "preqs u r = Some p" "p_next p = None"
    and v': "view i (others {} s) wb' = u\<lparr>pW := pW u - {r}, pctr := pctr u - 1\<rparr>"
    and ids: "ids_ok (wconn wb')" and p: "pinv D None (sy_held s) (view i (others {} s) wb')"
    and lv: "\<And>B. B \<subseteq> others {} s \<Longrightarrow> leaves B {} (view i (others {} s) (sy_wb s)) (view i (others {} s) wb')"
    using writepage_end_view [OF run q alive I(2,3) r'] by blast
  have v: "sview i s' = view i (others {} s) wb'" using sview_wb [of s' s i] by (simp add: s')
  have "wb_inv D i s'" using lv [OF order_refl] v p ids alive
    by (intro outside_step [OF inv]) (auto simp: s' sview_def)
  moreover have "spec_step D (sy_held s, sview i s) (sy_held s', sview i s')" unfolding v v'
    using Finish [OF r steps(1) [folded sview_def] steps(2,3)] by (simp add: s')
  ultimately show ?thesis ..
qed

lemma hold_step:
  assumes inv: "wb_inv D i s" and free: "\<not> sy_held s" and run: "set_nowrite_start i (sy_wb s) = Some wb'"
    and s': "s' = s\<lparr>sy_wb := wb', sy_held := True\<rparr>"
  shows "wb_inv D i s' \<and> spec_step D (sy_held s, sview i s) (sy_held s', sview i s')"
proof -
  note I = wb_invD [OF inv]
  have v: "sview i s' = (sview i s)\<lparr>pctr := pctr (sview i s) + FUSE_NOWRITE\<rparr>"
    using sview_wb [of s' s i] set_nowrite_view(1) [OF run] by (simp add: s' sview_def)
  have p: "pinv D None True (sview i s')" unfolding v using pinv_hold I(3) free by (simp add: sview_def)
  have alive: "winode wb' i \<noteq> None" using run by (auto simp: set_nowrite_start_def elim!: bind_Some_E split: if_split_asm)
  have "leaves (others {} s) {} (sview i s) (sview i s')" unfolding v
    by (auto simp: leaves_def covered_def shape_def sview_def pA_view)
  then have "wb_inv D i s'" using p alive I(2) set_nowrite_view(2) [OF run]
    by (intro outside_step [OF inv]) (auto simp: s')
  then show ?thesis unfolding v using spec_step.Hold free by (simp add: s')
qed

lemma release_step:
  assumes inv: "wb_inv D i s" and held: "sy_held s" and run: "fuse_release_nowrite enc wait i (sy_wb s) = Some wb'"
    and s': "s' = s\<lparr>sy_wb := wb', sy_held := False\<rparr>"
  shows "wb_inv D i s' \<and> spec_step D (sy_held s, sview i s) (sy_held s', sview i s')"
proof -
  note I = wb_invD [OF inv]
  note r = release_nowrite_view(1) [OF run I(2,3)] release_nowrite_view(2) [OF run I(2,3), of "others {} s" "{}"]
    release_nowrite_view(3-5) [OF run I(2,3)]
  have v: "sview i s' = view i (others {} s) wb'" using sview_wb [of s' s i] by (simp add: s')
  let ?z = "(view i (others {} s) (sy_wb s))\<lparr>pctr := 0\<rparr>"
  have "leaves (others {} s) {} (view i (others {} s) (sy_wb s)) ?z"
    by (auto simp: leaves_def covered_def shape_def pA_view)
  moreover have "leaves (others {} s) {} ?z (view i (others {} s) wb')"
    using psteps_leaves [OF r(2) pinv_release [OF I(3) r(1)]] by (simp add: pA_view)
  ultimately have "leaves (others {} s) {} (sview i s) (sview i s')"
    unfolding v unfolding sview_def by (rule leaves_trans)
  moreover have "winode wb' i \<noteq> None" using r(5) by (auto simp: flushed_def)
  ultimately have "wb_inv D i s'" using r(3,4) v by (intro outside_step [OF inv]) (auto simp: s')
  moreover have "spec_step D (sy_held s, sview i s) (sy_held s', sview i s')" unfolding v
    using spec_step.Release [of "sview i s"] r(1) psteps_mono [OF r(2), of "{}" "{}"] held by (simp add: sview_def s')
  ultimately show ?thesis ..
qed

lemma wb_step_sound:
  assumes "wb_step D enc i s s'" and inv: "wb_inv D i s"
  shows "wb_inv D i s' \<and> spec_step D (sy_held s, sview i s) (sy_held s', sview i s')"
  using assms(1)
proof (cases rule: wb_step.cases)
  case (Write_page wait ok node pg err wb')
  note I = wb_invD [OF inv]
  from writepage_view [OF Write_page(2) I(2,3) order_refl] Write_page(4)
  have "(pstep D (others {} s) {pg_index pg})\<^sup>*\<^sup>* (view i (others {} s) (sy_wb s)) (view i (others {} s) wb')" "ids_ok (wconn wb')"
    by (simp_all add: pg_limit_def)
  from outside_moves [OF inv Write_page(1) this Write_page(5)] Write_page(3) show ?thesis by simp
next
  case (Launder wait ok node dirty pg err wb')
  note I = wb_invD [OF inv]
  from launder_view [OF Launder(2) I(2,3) order_refl Launder(5)] Launder(4)
  have "(pstep D (others {} s) {pg_index pg})\<^sup>*\<^sup>* (view i (others {} s) (sy_wb s)) (view i (others {} s) wb')" "ids_ok (wconn wb')"
    by (simp_all add: pg_limit_def)
  from outside_moves [OF inv Launder(1) this Launder(6)] Launder(3) show ?thesis by simp
next
  case (Start t)
  have o: "others {} s' = others {} s"
    using others_idle [of s t] others_idle [of s' t] others_same [of t s' s] Start by simp
  have v: "sview i s' = sview i s" using o by (simp add: sview_def Start(1))
  have "others {t} s \<subseteq> pA (sview i s)" using others_mono [of "{}" "{t}" s] by (simp add: sview_def pA_view)
  then have lv: "leaves (others {t} s) {} (sview i s) (sview i s')" unfolding v by (rule leaves_refl)
  have "wb_inv D i s'" using wb_invD [OF inv] v
    by (intro wb_inv_update [OF inv _ lv]) (auto simp: Start(1) sview_def ctx_ok_def split: if_split_asm)
  then show ?thesis using v Move [of D "{}" "sview i s" "sview i s"] by (simp add: Start(1))
next
  case (Begin t d wait ok node pg err is_wb d' wb')
  from page_begin_step [OF inv Begin(2-6) Begin(1)] show ?thesis .
next
  case (End t d pg is_wb wait d' wb')
  from page_end_step [OF inv End(2-4) End(1)] show ?thesis .
next
  case (Last t d wait err err' wb')
  from last_send_step [OF inv Last(2-4) Last(1)] show ?thesis .
next
  case (Put t d wait wb')
  from put_step [OF inv Put(2-5) Put(1)] show ?thesis .
next
  case (Done r wait wb')
  from done_step [OF inv Done(2-4) Done(1)] show ?thesis .
next
  case (Hold wb')
  from hold_step [OF inv Hold(2,3) Hold(1)] show ?thesis .
next
  case (Release wait wb')
  from release_step [OF inv Release(2,3) Release(1)] show ?thesis .
next
  case (Read r)
  have "winode (read_write r (sy_wb s)) i \<noteq> None" using wb_invD(1) [OF inv] by (simp add: read_write_def upd_conn_def)
  from outside_moves [OF inv Read(1) r_into_rtranclp [of "pstep D (others {} s) {}", OF read_steps(1) [OF inv Read(2)]] read_steps(2) [OF inv Read(2)] this]
  show ?thesis by simp
next
  case (Environment wb')
  have "winode wb' i \<noteq> None" "ids_ok (wconn wb')" using Environment(2) wb_invD(2) [OF inv] by (auto simp: environment_def)
  from outside_moves [OF inv Environment(1) r_into_rtranclp [of "pstep D (others {} s) {}", OF environment_steps [OF Environment(2)]] this(2,1)]
  show ?thesis by simp
qed

subsection \<open>All reachable states\<close>

lemma wb_start_inv:
  assumes "wb_start i s"
  shows "wb_inv D i s"
proof -
  obtain v where v: "winode (sy_wb s) i = Some v" "wfields v = ([], 0, [])" using assms by (auto simp: wb_start_def)
  have "others {} s = {}" using assms by (simp add: others_def wb_start_def)
  then have "sview i s = \<lparr>pW = {}, pQ = [], pA = {}, pctr = 0, preqs = page_reqs i (wconn (sy_wb s))\<rparr>"
    using v by (simp add: sview_def view_eq wfields_def)
  then have "pinv D None False (sview i s)" by (simp add: pinv_def sent_def)
  then show ?thesis using assms v by (auto simp: wb_inv_def wb_start_def)
qed

lemma reachable_inv: "reachable D enc i s \<Longrightarrow> wb_inv D i s"
proof -
  assume "reachable D enc i s"
  then obtain s0 where s0: "wb_start i s0" and run: "(wb_step D enc i)\<^sup>*\<^sup>* s0 s" by (auto simp: reachable_def)
  from run show "wb_inv D i s"
    by (induction rule: rtranclp_induct) (use wb_start_inv [OF s0] wb_step_sound in blast)+
qed

lemma reachable_step: "reachable D enc i s \<Longrightarrow> wb_step D enc i s s' \<Longrightarrow> reachable D enc i s'"
  by (auto simp: reachable_def intro: rtranclp.rtrancl_into_rtrancl)

text \<open>The writes of the inode that were sent and not ended: neither queued nor being filled.\<close>

definition sent_writes :: "ino_id \<Rightarrow> wb_sys \<Rightarrow> req_id set" where
  "sent_writes i s = {r. \<exists>v. winode (sy_wb s) i = Some v \<and> r \<in> set (writepages v) \<and> r \<notin> set (queued_writes v) \<and>
     r \<notin> others {} s}"

lemma sent_writes_view: "winode (sy_wb s) i \<noteq> None \<Longrightarrow> sent_writes i s = sent (sview i s)"
  by (auto simp: sent_writes_def sent_def sview_def view_def Let_def)

text \<open>
  C4: the counter of an inode counts its writes: in every reachable state \<open>writectr\<close> is the number of requests on
  \<open>writepages\<close> that were sent and have not ended, plus the bias while writes are held back. So it never
  goes negative without the bias, and no end of a request is lost or counted twice.
\<close>

theorem writectr_counts:
  assumes "reachable D enc i s" and "winode (sy_wb s) i = Some v"
  shows "finite (sent_writes i s) \<and>
    writectr v = int (card (sent_writes i s)) + (if sy_held s then FUSE_NOWRITE else 0)"
proof -
  note I = wb_invD [OF reachable_inv [OF assms(1)]]
  have e: "sent_writes i s = sent (view i (others {} s) (sy_wb s))" using sent_writes_view [of s i] assms(2) by (simp add: sview_def)
  show ?thesis unfolding e using pinvD(1,7) [OF I(3)] assms(2) by (simp add: view_eq sent_def)
qed

text \<open>The pages of a request.\<close>

definition write_range :: "wb_sys \<Rightarrow> req_id \<Rightarrow> nat set" where
  "write_range s r = (case reqs (wconn (sy_wb s)) r of None \<Rightarrow> {}
     | Some q \<Rightarrow> (case write_of q of None \<Rightarrow> {} | Some (w, _) \<Rightarrow> {first_page w ..< first_page w + rq_num_pages q}))"

lemma write_range_view:
  assumes "wb_inv D i s" and "winode (sy_wb s) i = Some v" and "x \<in> set (writepages v)"
  obtains p where "preqs (sview i s) x = Some p" and "write_range s x = pages p"
proof -
  note I = wb_invD [OF assms(1)]
  have "x \<in> pW (view i (others {} s) (sy_wb s))" using assms(2,3) by (simp add: view_eq)
  then show ?thesis using assms(2) that
    by (elim tracked_request [OF I(3)]) (auto simp: sview_def view_eq write_range_def pages_def)
qed

text \<open>
  C2: two writes of the page cache do not overlap as long as no page is laundered while a write of it is under way: then
  the requests on \<open>writepages\<close>, being filled, queued or sent, have disjoint ranges of pages, in whatever order
  \<open>fuse_writepage\<close>, \<open>fuse_writepages\<close>, \<open>fuse_launder_page\<close> of an idle page, the ends of requests and
  the holds come. The code does not establish the condition: what happens without it comes next.
\<close>

theorem writes_disjoint:
  assumes "reachable True enc i s" and "winode (sy_wb s) i = Some v"
    and "r \<in> set (writepages v)" and "r' \<in> set (writepages v)" and "r \<noteq> r'"
  shows "write_range s r \<inter> write_range s r' = {}"
proof -
  note inv = reachable_inv [OF assms(1)]
  obtain p where p: "preqs (sview i s) r = Some p" "write_range s r = pages p" by (rule write_range_view [OF inv assms(2,3)])
  obtain p' where p': "preqs (sview i s) r' = Some p'" "write_range s r' = pages p'" by (rule write_range_view [OF inv assms(2,4)])
  have "apart (sview i s) r r'"
    using pinvD(10) [OF wb_invD(3) [OF inv], of r r'] assms(2-5) by (simp add: view_eq sview_def)
  then show ?thesis using p p' by (simp add: apart_def)
qed

text \<open>
  C35: laundering can make two requests for one page: \<open>fuse_launder_page\<close> writes a dirty page without looking whether a write of it is under
  way. When the server has such a request \<open>x\<close>, what comes on the list is a second request for the page, beside \<open>x\<close>
  that stays; while writes are held back the new request is certainly there. (Otherwise it may be dropped at once:
  the connection is gone or the page lies beyond the file.)
\<close>

theorem launder_overlaps:
  assumes reach: "reachable False enc i s" and v: "winode (sy_wb s) i = Some v"
    and x: "x \<in> sent_writes i s" "pg_index pg \<in> write_range s x" and lock: "pg_index pg \<notin> locks {} s" "pg_index pg < pg_limit"
    and run: "fuse_launder_page enc wait ok node (\<lambda>_. Some) True i pg (sy_wb s) = Some (0, wb')" and v': "winode wb' i = Some v'"
  shows "reachable False enc i (s\<lparr>sy_wb := wb'\<rparr>) \<and> x \<in> set (writepages v') \<and> pg_index pg \<in> write_range (s\<lparr>sy_wb := wb'\<rparr>) x \<and>
    (\<forall>r\<in>set (writepages v') - set (writepages v). pg_index pg \<in> write_range (s\<lparr>sy_wb := wb'\<rparr>) r) \<and>
    (writectr v < 0 \<longrightarrow> set (writepages v') - set (writepages v) \<noteq> {})"
proof -
  let ?s' = "s\<lparr>sy_wb := wb'\<rparr>"
  note inv = reachable_inv [OF reach] note I = wb_invD [OF inv]
  have "wb_step False enc i s ?s'" using Launder [OF run lock, of False] v' by simp
  then have reach': "reachable False enc i ?s'" by (rule reachable_step [OF reach])
  note inv' = reachable_inv [OF reach']
  have sv': "sview i ?s' = view i (others {} s) wb'" using sview_wb [of ?s' s i] by simp
  have locked: "fuse_writepage_locked enc wait ok node i pg (sy_wb s) = Some (0, wb')"
    using run by (auto simp: fuse_launder_page_def elim!: bind_Some_E split: if_split_asm)
  obtain r t where add: "page_added (pg_index pg) r (sview i s) t" and th: "thins t (sview i ?s')"
    and held: "pctr (sview i s) < 0 \<longrightarrow> sview i ?s' = t"
    using writepage_locked_view(3) [OF locked I(2,3) order_refl] lock(2)
    unfolding sv' unfolding sview_def pg_limit_def by auto
  have xs: "x \<in> sent (sview i s)" using x(1) sent_writes_view [of s i] I(1) by simp
  then have xW: "x \<in> pW (sview i s)" by (simp add: sent_def)
  have xv: "x \<in> set (writepages v)" using xW v by (simp add: sview_def view_eq)
  have xr: "x \<noteq> r" using add xW by (auto simp: page_added_def)
  have "x \<in> sent t" using add xs xr by (auto simp: page_added_def sent_def)
  then have "x \<in> pW (sview i ?s')" using th by (auto simp: thins_def sent_def)
  then have xv': "x \<in> set (writepages v')" using v' by (simp add: sv' view_eq)
  have keep: "preqs (sview i ?s') y = preqs t y" "y \<in> pW t" if "y \<in> set (writepages v')" for y
    using th that v' by (auto simp: thins_def sv' view_eq)
  obtain p where p: "preqs (sview i s) x = Some p" "write_range s x = pages p" by (rule write_range_view [OF inv v xv])
  obtain p' where p': "preqs (sview i ?s') x = Some p'" "write_range ?s' x = pages p'"
    by (rule write_range_view [OF inv' _ xv']) (use v' in simp_all)
  have "p' = p" using keep(1) [OF xv'] p(1) p'(1) add xr by (simp add: page_added_def)
  then have rx: "pg_index pg \<in> write_range ?s' x" using x(2) p(2) p'(2) by simp
  have rr: "pg_index pg \<in> write_range ?s' r" if rW: "r \<in> set (writepages v')"
  proof -
    obtain q where q: "preqs (sview i ?s') r = Some q" "write_range ?s' r = pages q"
      by (rule write_range_view [OF inv' _ rW]) (use v' in simp_all)
    have "q = \<lparr>p_first = pg_index pg, p_num = 1, p_next = None, p_pending = True\<rparr>"
      using keep(1) [OF rW] q(1) add by (simp add: page_added_def)
    then show ?thesis using q(2) by (simp add: pages_def)
  qed
  have new: "y = r" if "y \<in> set (writepages v') - set (writepages v)" for y
    using keep(2) [of y] that add v by (auto simp: page_added_def sview_def view_eq)
  have "r \<in> set (writepages v') - set (writepages v)" if "writectr v < 0"
    using held that add v v' by (auto simp: page_added_def sv' sview_def view_eq)
  then show ?thesis using reach' xv' rx rr new by blast
qed

text \<open>After the release nothing waits.\<close>

lemma release_empties:
  assumes "reachable D enc i s" and "fuse_release_nowrite enc wait i (sy_wb s) = Some wb'"
  shows "\<exists>v. winode wb' i = Some v \<and> queued_writes v = [] \<and> 0 \<le> writectr v"
proof -
  note I = wb_invD [OF reachable_inv [OF assms(1)]]
  note r = release_nowrite_view(4,5) [OF assms(2) I(2,3)]
  obtain v where v: "winode wb' i = Some v" "writectr v < 0 \<or> queued_writes v = []" using r(2) by (auto simp: flushed_def)
  have "0 \<le> writectr v" using pinvD(7) [OF r(1)] v(1) by (simp add: view_eq)
  then show ?thesis using v by auto
qed

text \<open>
  C32: \<open>fuse_set_nowrite\<close> keeps its promise: when its wait is over, no write of the inode is on its way to
  the server, and none goes there before the release, whatever the other threads do. The release then leaves the queue
  of held writes empty, each one sent or dropped, and the counter without its bias.
\<close>

theorem nowrite_quiet:
  assumes "reachable D enc i s" and "writes_quiet i (sy_wb s)"
  shows "sy_held s \<and> sent_writes i s = {} \<and>
    (\<forall>s'. wb_step D enc i s s' \<and> sy_held s' \<longrightarrow> writes_quiet i (sy_wb s') \<and> sent_writes i s' = {}) \<and>
    (\<forall>wait wb'. fuse_release_nowrite enc wait i (sy_wb s) = Some wb' \<longrightarrow>
      (\<exists>v. winode wb' i = Some v \<and> queued_writes v = [] \<and> 0 \<le> writectr v))"
proof -
  have inv: "wb_inv D i s" using reachable_inv [OF assms(1)] .
  note I = wb_invD [OF inv]
  have q: "pctr (sview i s) = FUSE_NOWRITE" using assms(2) by (auto simp: writes_quiet_def sview_def view_def Let_def)
  have none: "sent (sview i s) = {}" and held: "sy_held s"
    using quiet_none_sent [of D None "sy_held s" "sview i s"] I(3) q by (simp_all add: sview_def)
  have "writes_quiet i (sy_wb s') \<and> sent_writes i s' = {}" if st: "wb_step D enc i s s'" and h: "sy_held s'" for s'
  proof -
    have inv': "wb_inv D i s'" and sp: "spec_step D (sy_held s, sview i s) (sy_held s', sview i s')" using wb_step_sound [OF st inv] by blast+
    note I' = wb_invD [OF inv']
    have "pctr (sview i s') = FUSE_NOWRITE" using spec_step_quiet [OF _ q none] sp held h by simp
    moreover from this have "sent (sview i s') = {}"
      using quiet_none_sent [of D None "sy_held s'" "sview i s'"] I'(3) by (simp add: sview_def)
    ultimately show ?thesis using sent_writes_view [OF I'(1)] I'(1) by (auto simp: writes_quiet_def sview_def view_def Let_def)
  qed
  then show ?thesis using none held sent_writes_view [OF I(1)] release_empties [OF assms(1)] by simp
qed

text \<open>
  C33: the code refines the specification: each action of \<open>wb_step\<close>, as the functions of \<open>file.c\<close>
  perform it on the lists and requests, is a step of the machine of page ranges and chains. With \<open>D\<close>, that is when no page
  is laundered while a write of it is under way, it is the machine in which two requests never share a page; without
  \<open>D\<close>, with \<open>fuse_launder_page\<close> as it is, the machine in which they may. A flush and the end of a request are
  one action each.
\<close>

theorem wb_step_refines:
  assumes "reachable D enc i s" and "wb_step D enc i s s'"
  shows "spec_step D (sy_held s, sview i s) (sy_held s', sview i s') \<and> pinv D None (sy_held s') (sview i s')"
  using wb_step_sound [OF assms(2) reachable_inv [OF assms(1)]] by (simp add: wb_inv_def)

text \<open>
  C34: the searches of the list end and never meet a BUG: in every reachable state \<open>fuse_range_is_writeback\<close> gives an
  answer for every range, and the walk along the chain of secondary requests of any write on the list comes to its end.
\<close>

theorem searches_end:
  assumes "reachable D enc i s" and "winode (sy_wb s) i = Some v" and "r \<in> set (writepages v)"
  shows "fuse_range_is_writeback i a b (sy_wb s) \<noteq> None \<and> chain_find (wconn (sy_wb s)) i idx r (Some r) \<noteq> None"
proof -
  note I = wb_invD [OF reachable_inv [OF assms(1)]]
  let ?P = "page_reqs i (wconn (sy_wb s))"
  have W: "\<exists>p cs. ?P x = Some p \<and> chain ?P (p_next p) cs" if "x \<in> set (writepages v)" for x
    using pinvD(9) [OF I(3), of x] that assms(2) by (auto simp: view_eq primary_ok_def)
  have scan: "range_scan (wconn (sy_wb s)) i a b xs \<noteq> None" if "set xs \<subseteq> set (writepages v)" for xs
    using that
  proof (induction xs)
    case (Cons x xs)
    then obtain q w nx where "reqs (wconn (sy_wb s)) x = Some q" "write_of q = Some (w, nx)" "rq_inode q = Some i"
      using W [of x] by (auto simp: page_reqs_Some)
    then show ?case using Cons by simp
  qed simp
  have find: "chain_find (wconn (sy_wb s)) i idx old t \<noteq> None" if "chain ?P t cs" for old t cs
    using that
  proof (induction cs arbitrary: old t)
    case Nil
    then show ?case by (simp add: chain_find.simps)
  next
    case (Cons c cs)
    then obtain q w nx where q: "reqs (wconn (sy_wb s)) c = Some q" "write_of q = Some (w, nx)" "rq_inode q = Some i" "chain ?P nx cs"
      and t: "t = Some c" by (auto simp: page_reqs_Some)
    show ?case using Cons.IH [OF q(4)] q t by (simp add: chain_find.simps [of _ _ _ old "Some c"])
  qed
  obtain p cs where "chain ?P (Some r) (r # cs)" using W [OF assms(3)] by auto
  from find [OF this] scan [of "writepages v"] show ?thesis using assms(2) by (auto simp: fuse_range_is_writeback_def)
qed

lemma live_drop:
  assumes inv: "pinv D None held s" and r: "r \<in> pW s" and t: "pW t = pW s - {r}" and P: "\<And>x. x \<noteq> r \<Longrightarrow> preqs t x = preqs s x"
  shows "live t \<inter> owned s r = {}"
proof -
  have "owned t x \<inter> owned s r = {}" if x: "x \<in> pW s" "x \<noteq> r" for x
  proof -
    have "owned t x = owned s x"
    proof (rule primary_ok_keep(2))
      show ok: "primary_ok s x" using pinvD(9) [OF inv x(1)] .
      then show "owned s x \<inter> pW t \<subseteq> {x}" by (elim primary_okE) (auto simp: secondaries_def t)
      show "preqs t z = preqs s z" if "z \<in> owned s x" for z using P [of z] not_owned [OF inv r x(1)] x(2) that by metis
    qed (rule x(1))
    then show ?thesis using owned_disjoint [OF inv x(1) r x(2)] by simp
  qed
  then show ?thesis by (auto simp: live_def t)
qed

text \<open>
  C36: a write that lies beyond the end of the file when its turn comes is freed without its chain: a
  secondary request \<open>n\<close> that hangs on it stays allocated, but no list and no chain of the inode leads to it
  any more, so neither it nor its page is ever freed and its page stays counted as under writeback.
\<close>

theorem truncated_write_leaks:
  assumes reach: "reachable D enc i s" and v: "winode (sy_wb s) i = Some v" "queued_writes v = r # rest"
    and q: "reqs (wconn (sy_wb s)) r = Some q" "write_of q = Some (w, Some n)"
    and beyond: "crop_size (wi_offset w) (of_nat (rq_num_pages q * PAGE_SIZE)) fsize = None"
    and run: "fuse_send_writepage enc wait fsize r (winode_update i (queued_writes_update tl) (sy_wb s)) = Some wb'"
    and alive: "winode wb' i \<noteq> None"
  shows "reqs (wconn wb') n \<noteq> None \<and> n \<notin> live (sview i (s\<lparr>sy_wb := wb'\<rparr>))"
proof -
  note I = wb_invD [OF reachable_inv [OF reach]]
  let ?s = "view i (others {} s) (sy_wb s)" and ?wb0 = "winode_update i (queued_writes_update tl) (sy_wb s)"
  have rW: "r \<in> pW ?s" using pinvD(3) [OF I(3)] v by (auto simp: view_eq)
  then have qi: "rq_inode q = Some i" using q by (elim tracked_request [OF I(3)]) simp
  have free: "send_free wait i q r ?wb0 = Some wb'"
    using run q qi v beyond by (auto simp: fuse_send_writepage_def Let_def split: if_split_asm)
  obtain v' where v': "winode wb' i = Some v'" using alive by blast
  have v0: "winode ?wb0 i = Some (v\<lparr>queued_writes := rest\<rparr>)" using v by simp
  have c0: "wconn ?wb0 = wconn (sy_wb s)" by simp
  note f = send_free_view [OF free v0 _ v', unfolded c0, OF I(2)]
  obtain pr cs where pr: "page_reqs i (wconn (sy_wb s)) r = Some pr" "p_next pr = Some n"
    using q qi by (auto simp: page_reqs_Some)
  obtain ds where ds: "chain (preqs ?s) (Some n) ds" "set ds \<inter> pW ?s = {}" "owned ?s r = insert r (set ds)"
  proof -
    obtain p ds where p: "preqs ?s r = Some p" "chain (preqs ?s) (p_next p) ds" "secondaries (preqs ?s) (pW ?s) (pages p) ds"
        "owned ?s r = insert r (set ds)"
      using pinvD(9) [OF I(3) rW] by (rule primary_okE)
    then have "p = pr" using pr(1) v by (simp add: view_eq)
    then show ?thesis using that p pr(2) by (auto simp: secondaries_def)
  qed
  have n: "n \<in> set ds" "page_reqs i (wconn (sy_wb s)) n \<noteq> None" using ds(1) v by (cases ds; auto simp: view_eq)+
  then have nr: "n \<noteq> r" using ds(2) rW by blast
  have "page_reqs i (wconn wb') n \<noteq> None" using f(1) [OF nr] n(2) by simp
  then have "reqs (wconn wb') n \<noteq> None" by (cases "reqs (wconn wb') n") (auto simp: page_reqs_def)
  moreover have "live (view i (others {} s) wb') \<inter> owned ?s r = {}"
    by (rule live_drop [OF I(3) rW]) (use f v v' in \<open>auto simp: view_eq wfields_def\<close>)
  then have "n \<notin> live (view i (others {} s) wb')" using n(1) ds(3) by blast
  ultimately show ?thesis using sview_wb [of "s\<lparr>sy_wb := wb'\<rparr>" s i] by simp
qed

subsection \<open>The lock of the page\<close>

lemma stats_done_locked: "stats_done ps wb = Some wb' \<Longrightarrow> pg_locked wb' = pg_locked wb"
  by (induction ps arbitrary: wb) (auto simp: stat_done_def elim!: bind_Some_E)

lemma conn_locked [simp]: "pg_locked (wconn_update f wb) = pg_locked wb" "pg_locked (winode_update i g wb) = pg_locked wb"
  by (simp_all add: wconn_update_def winode_update_def)

lemma finish_locked: "fuse_writepage_finish i q r wb = Some wb' \<Longrightarrow> pg_locked wb' = pg_locked wb"
  by (auto simp: fuse_writepage_finish_def elim!: bind_Some_E dest: stats_done_locked)

lemma free_locked: "fuse_writepage_free wait q wb = Some wb' \<Longrightarrow> pg_locked wb' = pg_locked wb"
  by (auto simp: fuse_writepage_free_def Let_def elim!: bind_Some_E split: option.split_asm)

lemma send_writepage_locked: "fuse_send_writepage enc wait lim r wb = Some wb' \<Longrightarrow> pg_locked wb' = pg_locked wb"
  by (auto simp: fuse_send_writepage_def send_free_def send_write_def Let_def elim!: bind_Some_E
      split: if_split_asm option.split_asm dest!: finish_locked free_locked)

lemma flush_locked: "flush_queued enc wait crop i wb = Some wb' \<Longrightarrow> pg_locked wb' = pg_locked wb"
proof (induction rule: flush_queued.raw_induct [rotated, consumes 1])
  case (1 flush enc wait crop i wb wb')
  obtain v where v: "winode wb i = Some v" using "1.hyps" by (auto elim: bind_Some_E)
  show ?case
  proof (cases "writectr v < 0 \<or> queued_writes v = []")
    case True
    then show ?thesis using "1.hyps" v by auto
  next
    case False
    then obtain wb1 where "fuse_send_writepage enc wait crop (hd (queued_writes v)) (winode_update i (queued_writes_update tl) wb) = Some wb1"
      and "flush enc wait crop i wb1 = Some wb'"
      using "1.hyps" v by (auto elim: bind_Some_E)
    then show ?thesis using "1.IH" send_writepage_locked by fastforce
  qed
qed

lemma marks_locked [simp]:
  "pg_locked (set_page_writeback k wb) = pg_locked wb" "pg_locked (end_page_writeback k wb) = pg_locked wb"
  "pg_locked (copy_page_to p pg wb) = pg_locked wb" "pg_locked (stat_start n wb) = pg_locked wb"
  by (simp_all add: set_page_writeback_def end_page_writeback_def copy_page_to_def stat_start_def)

lemma alloc_frame_locked: "alloc_frame ok node wb = (po, wb') \<Longrightarrow> pg_locked wb' = pg_locked wb"
  by (auto simp: alloc_frame_def split: if_split_asm)

lemma write_file_get_locked: "fuse_write_file_get i wb = Some (ffo, wb') \<Longrightarrow> pg_locked wb' = pg_locked wb"
  by (auto simp: fuse_write_file_get_def elim!: bind_Some_E split: list.split_asm)

lemma writepage_locked_locked: "fuse_writepage_locked enc wait ok node i pg wb = Some (err, wb') \<Longrightarrow> pg_locked wb' = pg_locked wb"
  unfolding fuse_writepage_locked_def Let_def
  by (auto simp: fuse_flush_writepages_def elim!: bind_Some_E split: prod.split_asm option.split_asm
      dest!: flush_locked alloc_frame_locked write_file_get_locked)

text \<open>
  \<open>fuse_writepage\<close> gives the lock of its page back only if it writes it: when the page is already
  under writeback it returns 0 with the page still locked, and the next thread that locks the page waits forever.
\<close>

theorem writepage_keeps_lock:
  assumes "fuse_writepage enc wait ok node i pg wb = Some (err, wb')" and "pg_index pg \<in> pg_locked wb"
  shows "pg_index pg \<in> pg_locked wb' \<longleftrightarrow> fuse_page_is_writeback i (pg_index pg) wb = Some True"
  using assms writepage_locked_locked
  by (fastforce simp: fuse_writepage_def unlock_page_def elim!: bind_Some_E split: if_split_asm)

subsection \<open>Examples\<close>

text \<open>Inode 0 with \<open>n\<close> bytes, open for writing by file 200.\<close>

definition example_wb :: "u64 \<Rightarrow> fuse_wb" where
  "example_wb n = \<lparr>wb_sb = (example_files {})\<lparr>inodes := [0 \<mapsto> (example_inode 7)\<lparr>write_files := [200], i_size := n\<rparr>],
       conn := (conn (example_files {}))\<lparr>next_id := 400, max_write := 131072\<rparr>\<rparr>,
     frames = (\<lambda>_. None), next_frame = 0, wb_stat = 0, node_temp = (\<lambda>_. 0), wb_outs = 0, mapping_errors = [],
     pg_writeback = {}, pg_locked = {}, page_wakes = 0\<rparr>"

definition example_start :: "u64 \<Rightarrow> wb_sys" where
  "example_start n = \<lparr>sy_wb = example_wb n, sy_ctx = Map.empty, sy_held = False\<rparr>"

definition example_page :: "nat \<Rightarrow> cpage" where
  "example_page k = \<lparr>pg_index = k, pg_data = [7], pg_node = 0\<rparr>"

abbreviation example_enc :: enc_write where "example_enc \<equiv> \<lambda>_. []"
abbreviation example_wait :: wait where "example_wait \<equiv> \<lambda>_ _. Some"

lemmas example_wb_defs = example_wb_def example_files_defs

lemma example_starts: "wb_start 0 (example_start n)"
  by (auto simp: wb_start_def example_start_def ids_ok_def wconn_def wfields_def write_of_def example_wb_defs split: if_split_asm)

lemma example_reachable: "reachable D enc 0 (example_start n)"
  using example_starts [of n] by (auto simp: reachable_def)

text \<open>Evaluation from the inside out: the continuation waits for its argument.\<close>

lemma bind_weak_cong: "m = m' \<Longrightarrow> Option.bind m f = Option.bind m' f"
  by simp

lemmas wb_eval = fuse_writepage_def fuse_page_is_writeback_def fuse_range_is_writeback_def
  fuse_writepage_locked_def fuse_request_alloc_def alloc_frame_def fuse_write_file_get_def fuse_file_get_def
  fuse_flush_writepages_def flush_queued.simps FUSE_NOWRITE_def wfields_def example_page_def
  set_page_writeback_def end_page_writeback_def stat_start_def copy_page_to_def unlock_page_def
  set_nowrite_start_def fill_begin_def fill_end_def fill_send_def fill_request_def fill_must_send_def
  chain_find.simps [of _ _ _ _ None] chain_find.simps [of _ _ _ _ "Some x" for x]
  fuse_writepages_send_def writepages_last_def fuse_writepage_in_flight_def flight_chain_def
  winode_update_def upd_inode_def wconn_def wconn_update_def upd_conn_def Let_def
  cache_write_def fuse_write_fill_def set_write_def write_of_def put_page_in_def set_flag_def set_next_def
  first_page_def page_offset_def PAGE_SIZE_def PAGE_SHIFT_def FUSE_MAX_PAGES_PER_REQ_def FUSE_REQ_INLINE_PAGES_def zero_write_in_def

text \<open>The actions of one thread and of a thread that holds writes back, as a function.\<close>

datatype wb_act = A_hold | A_start | A_begin nat | A_end | A_last

fun perform :: "wb_act \<Rightarrow> wb_sys \<Rightarrow> wb_sys option" where
  "perform A_hold s = (if sy_held s then None
     else map_option (\<lambda>w. s\<lparr>sy_wb := w, sy_held := True\<rparr>) (set_nowrite_start 0 (sy_wb s)))"
| "perform A_start s = (if sy_ctx s 0 \<noteq> None then None
     else Some (s\<lparr>sy_ctx := [0 \<mapsto> (\<lparr>fd_req = None, fd_ff = None, fd_orig = []\<rparr>, None)]\<rparr>))"
| "perform (A_begin k) s = (case sy_ctx s 0 of
     Some (d, None) \<Rightarrow> Option.bind (fill_begin example_enc example_wait (\<lambda>_. True) 0 0 (example_page k) d (sy_wb s))
        (\<lambda>(err, b, d', w). if winode w 0 = None \<or> \<not> k < pg_limit then None
          else Some (s\<lparr>sy_wb := w, sy_ctx := [0 \<mapsto> (d', if err = 0 then Some (example_page k, b) else None)]\<rparr>))
   | _ \<Rightarrow> None)"
| "perform A_end s = (case sy_ctx s 0 of
     Some (d, Some (pg, b)) \<Rightarrow> Option.bind (fill_end example_wait 0 pg b d (sy_wb s))
        (\<lambda>(d', w). if winode w 0 = None then None else Some (s\<lparr>sy_wb := w, sy_ctx := [0 \<mapsto> (d', None)]\<rparr>))
   | _ \<Rightarrow> None)"
| "perform A_last s = (case sy_ctx s 0 of
     Some (d, None) \<Rightarrow> Option.bind (writepages_last example_enc example_wait 0 0 d (sy_wb s))
        (\<lambda>(err, w). if winode w 0 = None then None else Some (s\<lparr>sy_wb := w, sy_ctx := [0 \<mapsto> (d\<lparr>fd_req := None\<rparr>, None)]\<rparr>))
   | _ \<Rightarrow> None)"

fun performs :: "wb_act list \<Rightarrow> wb_sys \<Rightarrow> wb_sys option" where
  "performs [] s = Some s"
| "performs (a # as) s = Option.bind (perform a s) (performs as)"

lemma perform_step:
  assumes run: "perform a s = Some s'" and lone: "\<And>t. t \<noteq> 0 \<Longrightarrow> sy_ctx s t = None"
  shows "wb_step D example_enc 0 s s'" and "\<And>t. t \<noteq> 0 \<Longrightarrow> sy_ctx s' t = None"
proof -
  have ctx: "(sy_ctx s)(0 \<mapsto> x) = [0 \<mapsto> x]" for x using lone by auto
  have free: "locks {} s = {}" if d: "sy_ctx s 0 = Some (d, None)" for d
  proof -
    have "sy_ctx s t \<noteq> Some (e, Some (pg, b))" for t e pg b using d lone [of t] by (cases "t = 0") auto
    then show ?thesis by (simp add: locks_def)
  qed
  have "wb_step D example_enc 0 s s' \<and> (\<forall>t. t \<noteq> 0 \<longrightarrow> sy_ctx s' t = None)"
  proof (cases a)
    case A_hold
    then show ?thesis using run lone wb_step.Hold [of s 0] by (auto split: if_split_asm)
  next
    case A_start
    then have "sy_ctx s 0 = None" using run by (cases "sy_ctx s 0") simp_all
    moreover have "s' = s\<lparr>sy_ctx := [0 \<mapsto> (\<lparr>fd_req = None, fd_ff = None, fd_orig = []\<rparr>, None)]\<rparr>"
      using run A_start by (simp split: if_split_asm)
    ultimately show ?thesis using Start [of s 0] by (simp add: ctx lone)
  next
    case (A_begin k)
    then obtain d err b d' w where t: "sy_ctx s 0 = Some (d, None)"
      and b: "fill_begin example_enc example_wait (\<lambda>_. True) 0 0 (example_page k) d (sy_wb s) = Some (err, b, d', w)"
      and s': "winode w 0 \<noteq> None" "k < pg_limit" "s' = s\<lparr>sy_wb := w, sy_ctx := [0 \<mapsto> (d', if err = 0 then Some (example_page k, b) else None)]\<rparr>"
      using run by (auto elim!: bind_Some_E split: option.split_asm prod.split_asm if_split_asm)
    show ?thesis using Begin [OF t b _ _ s'(1)] s'(2,3) free [OF t] by (simp add: example_page_def ctx)
  next
    case A_end
    then obtain d pg b d' w where t: "sy_ctx s 0 = Some (d, Some (pg, b))"
      and e: "fill_end example_wait 0 pg b d (sy_wb s) = Some (d', w)" and s': "winode w 0 \<noteq> None" "s' = s\<lparr>sy_wb := w, sy_ctx := [0 \<mapsto> (d', None)]\<rparr>"
      using run by (auto elim!: bind_Some_E split: option.split_asm prod.split_asm if_split_asm)
    show ?thesis using End [OF t e s'(1), where enc = example_enc] s'(2) by (simp add: ctx)
  next
    case A_last
    then obtain d err w where t: "sy_ctx s 0 = Some (d, None)"
      and l: "writepages_last example_enc example_wait 0 0 d (sy_wb s) = Some (err, w)"
      and s': "winode w 0 \<noteq> None" "s' = s\<lparr>sy_wb := w, sy_ctx := [0 \<mapsto> (d\<lparr>fd_req := None\<rparr>, None)]\<rparr>"
      using run by (auto elim!: bind_Some_E split: option.split_asm prod.split_asm if_split_asm)
    show ?thesis using Last [OF t l s'(1)] s'(2) by (simp add: ctx)
  qed
  then show "wb_step D example_enc 0 s s'" and "\<And>t. t \<noteq> 0 \<Longrightarrow> sy_ctx s' t = None" by blast+
qed

lemma performs_reachable:
  assumes "performs as s = Some s'" and "reachable D example_enc 0 s" and "\<And>t. t \<noteq> 0 \<Longrightarrow> sy_ctx s t = None"
  shows "reachable D example_enc 0 s' \<and> (\<forall>t. t \<noteq> 0 \<longrightarrow> sy_ctx s' t = None)"
  using assms
proof (induction as arbitrary: s)
  case (Cons a as)
  then obtain s1 where a: "perform a s = Some s1" and rest: "performs as s1 = Some s'" by (auto elim: bind_Some_E)
  from Cons.IH [OF rest reachable_step [OF Cons.prems(2) perform_step(1) [OF a Cons.prems(3)]] perform_step(2) [OF a Cons.prems(3)]]
  show ?case by blast
qed simp

lemma example_performs:
  assumes "performs as (example_start n) = Some s"
  shows "reachable D example_enc 0 s" and "others {} s = (case sy_ctx s 0 of None \<Rightarrow> {} | Some (d, _) \<Rightarrow> set_option (fd_req d))"
    and "\<And>t. t \<noteq> 0 \<Longrightarrow> sy_ctx s t = None"
proof -
  have r: "reachable D example_enc 0 s \<and> (\<forall>t. t \<noteq> 0 \<longrightarrow> sy_ctx s t = None)"
    by (rule performs_reachable [OF assms example_reachable]) (simp add: example_start_def)
  then show "reachable D example_enc 0 s" and "\<And>t. t \<noteq> 0 \<Longrightarrow> sy_ctx s t = None" by blast+
  have "sy_ctx s t = None" if "t \<noteq> 0" for t using r that by blast
  then have "(\<exists>t d cur. sy_ctx s t = Some (d, cur) \<and> fd_req d = Some x) \<longleftrightarrow> (\<exists>d cur. sy_ctx s 0 = Some (d, cur) \<and> fd_req d = Some x)" for x
    by (metis option.distinct(1))
  then show "others {} s = (case sy_ctx s 0 of None \<Rightarrow> {} | Some (d, _) \<Rightarrow> set_option (fd_req d))"
    by (auto simp: others_def split: option.split)
qed

lemmas wb_eval_send = fuse_send_writepage_def send_free_def send_write_def crop_size_def fuse_writepage_finish_def
  req_frames_def stat_done_def take_update_swap fuse_writepage_free_def fuse_file_put_def fuse_put_request_def
  put_last_ref_def fuse_request_free_def waiting_dec_def set_arg1_size_def fuse_request_send_background_locked_def
  mark_waiting_def flush_go flush_stop waiting_inc_def fuse_release_nowrite_def
  FUSE_DEFAULT_MAX_BACKGROUND_def FUSE_DEFAULT_CONGESTION_THRESHOLD_def
lemmas wb_evals = wb_eval wb_eval_send pg_limit_def example_start_def example_wb_defs

text \<open>One write sent; and, while writes are held back, one queued with a second one being filled.\<close>

lemma example_sent:
  obtains s v where "reachable D example_enc 0 s" and "winode (sy_wb s) 0 = Some v" and "wfields v = ([], 1, [400])"
    and "others {} s = {}" and "\<not> sy_held s"
proof -
  have "\<exists>s. performs [A_start, A_begin 2, A_end, A_last] (example_start 16384) = Some s \<and>
      map_option wfields (winode (sy_wb s) 0) = Some ([], 1, [400]) \<and> map_option (fd_req \<circ> fst) (sy_ctx s 0) = Some None \<and> \<not> sy_held s"
    by (simp add: wb_evals cong: bind_weak_cong)
  then obtain s v d c where run: "performs [A_start, A_begin 2, A_end, A_last] (example_start 16384) = Some s"
    and v: "winode (sy_wb s) 0 = Some v" "wfields v = ([], 1, [400])" and c: "sy_ctx s 0 = Some (d, c)" "fd_req d = None" and h: "\<not> sy_held s" by auto
  have "others {} s = {}" using example_performs(2) [OF run] c by simp
  then show ?thesis using that [OF example_performs(1) [OF run] v _ h] by blast
qed

lemma example_held:
  obtains s v where "reachable D example_enc 0 s" and "winode (sy_wb s) 0 = Some v"
    and "wfields v = ([400], FUSE_NOWRITE, [401, 400])" and "fuse_release_nowrite example_enc example_wait 0 (sy_wb s) \<noteq> None"
proof -
  let ?as = "[A_hold, A_start, A_begin 2, A_end, A_last, A_begin 5, A_end]"
  have "\<exists>s. performs ?as (example_start 0) = Some s \<and>
      map_option wfields (winode (sy_wb s) 0) = Some ([400], FUSE_NOWRITE, [401, 400]) \<and>
      fuse_release_nowrite example_enc example_wait 0 (sy_wb s) \<noteq> None"
    by (simp add: wb_evals cong: bind_weak_cong)
  then obtain s v where run: "performs ?as (example_start 0) = Some s"
    and v: "winode (sy_wb s) 0 = Some v" "wfields v = ([400], FUSE_NOWRITE, [401, 400])"
    and rel: "fuse_release_nowrite example_enc example_wait 0 (sy_wb s) \<noteq> None" by auto
  then show ?thesis using that [OF example_performs(1) [OF run] v] by blast
qed

lemma writectr_counts_witness:
  "\<exists>s v. reachable False example_enc 0 s \<and> winode (sy_wb s) 0 = Some v \<and> sent_writes 0 s = {400} \<and> writectr v = 1"
proof -
  obtain s v where s: "reachable False example_enc 0 s" "winode (sy_wb s) 0 = Some v" "wfields v = ([], 1, [400])" "others {} s = {}" "\<not> sy_held s"
    by (rule example_sent)
  have "sent_writes 0 s = {400}" using s(2-4) by (auto simp: sent_writes_def wfields_def)
  then show ?thesis using writectr_counts [OF s(1,2)] s by auto
qed

lemma writes_disjoint_witness:
  "\<exists>s v. reachable True example_enc 0 s \<and> winode (sy_wb s) 0 = Some v \<and> writepages v = [401, 400] \<and>
     write_range s 401 \<inter> write_range s 400 = {}"
proof -
  obtain s v where s: "reachable True example_enc 0 s" "winode (sy_wb s) 0 = Some v" "wfields v = ([400], FUSE_NOWRITE, [401, 400])"
    by (rule example_held)
  have w: "writepages v = [401, 400]" using s(3) by (simp add: wfields_def)
  show ?thesis using writes_disjoint [OF s(1,2), of 401 400] s(1,2) w by auto
qed

text \<open>What goes to the server is queued without a change to the pages of the request.\<close>

lemma flush_one_pages:
  "(\<exists>q. reqs (flush_bg_one r s) x = Some q \<and> rq_misc q = m \<and> rq_num_pages q = n) \<longleftrightarrow>
   (\<exists>q. reqs s x = Some q \<and> rq_misc q = m \<and> rq_num_pages q = n)"
  by (cases "reqs s x") (auto simp: flush_bg_one_def queue_unique_def queue_request_def set_in_len_def set_in_unique_def
      list_del_def Let_def split: prod.split)

lemma launder_overlaps_witness:
  "\<exists>s wb' v'. reachable True example_enc 0 s \<and>
     fuse_launder_page example_enc example_wait (\<lambda>_. True) 0 (\<lambda>_. Some) True 0 (example_page 2) (sy_wb s) = Some (0, wb') \<and>
     winode wb' 0 = Some v' \<and> wfields v' = ([], 2, [401, 400]) \<and>
     2 \<in> write_range (s\<lparr>sy_wb := wb'\<rparr>) 400 \<inter> write_range (s\<lparr>sy_wb := wb'\<rparr>) 401"
proof -
  let ?as = "[A_start, A_begin 2, A_end, A_last]"
  let ?run = "\<lambda>s. fuse_launder_page example_enc example_wait (\<lambda>_. True) 0 (\<lambda>_. Some) True 0 (example_page 2) (sy_wb s)"
  have "\<exists>s. performs ?as (example_start 16384) = Some s \<and> map_option wfields (winode (sy_wb s) 0) = Some ([], 1, [400]) \<and>
      map_option (\<lambda>(d, c). (fd_req d, c)) (sy_ctx s 0) = Some (None, None) \<and>
      (\<exists>w nx. (\<exists>q. reqs (wconn (sy_wb s)) 400 = Some q \<and> rq_misc q = Misc_write w nx \<and> rq_num_pages q = 1) \<and> first_page w = 2) \<and>
      (\<exists>wb'. ?run s = Some (0, wb') \<and> map_option wfields (winode wb' 0) = Some ([], 2, [401, 400]))"
    by (simp add: wb_evals fuse_launder_page_def flush_one_pages cong: bind_weak_cong)
  then obtain s v d q w nx wb' v' where s: "performs ?as (example_start 16384) = Some s"
    and v: "winode (sy_wb s) 0 = Some v" "wfields v = ([], 1, [400])" and c: "sy_ctx s 0 = Some (d, None)" "fd_req d = None"
    and q: "reqs (wconn (sy_wb s)) 400 = Some q" "rq_misc q = Misc_write w nx" "first_page w = 2" "rq_num_pages q = 1" and run: "?run s = Some (0, wb')"
    and v': "winode wb' 0 = Some v'" "wfields v' = ([], 2, [401, 400])" by auto
  have none: "others {} s = {}" using example_performs(2) [OF s] c by simp
  have x: "400 \<in> sent_writes 0 s" using v none by (simp add: sent_writes_def wfields_def)
  have "sy_ctx s t \<noteq> Some (e, Some (pg, b))" for t e pg b
    using example_performs(3) [OF s, of t] c(1) by (cases "t = 0") simp_all
  then have lock: "pg_index (example_page 2) \<notin> locks {} s" "pg_index (example_page 2) < pg_limit"
    by (simp_all add: locks_def example_page_def pg_limit_def)
  have p: "pg_index (example_page 2) \<in> write_range s 400" using q by (simp add: example_page_def write_range_def write_of_def)
  have "writepages v = [400]" "writepages v' = [401, 400]" using v(2) v'(2) by (simp_all add: wfields_def)
  then show ?thesis
    using launder_overlaps [OF example_performs(1) [OF s] v(1) x p lock run v'(1)] example_performs(1) [OF s, of True] run v'
    by (auto simp: example_page_def)
qed

lemma nowrite_quiet_witness: "\<exists>s. reachable False example_enc 0 s \<and> writes_quiet 0 (sy_wb s) \<and> sy_held s \<and> sent_writes 0 s = {}"
proof -
  obtain s v where s: "reachable False example_enc 0 s" "winode (sy_wb s) 0 = Some v" "wfields v = ([400], FUSE_NOWRITE, [401, 400])"
    by (rule example_held)
  have q: "writes_quiet 0 (sy_wb s)" using s(2,3) by (simp add: writes_quiet_def wfields_def)
  show ?thesis using nowrite_quiet [OF s(1) q] s(1) q by blast
qed

lemma wb_step_refines_witness:
  "\<exists>s'. wb_step False example_enc 0 (example_start 0) s' \<and> spec_step False (False, sview 0 (example_start 0)) (True, sview 0 s')"
proof -
  obtain s' where p: "perform A_hold (example_start 0) = Some s'" by (simp add: wb_evals)
  have st: "wb_step False example_enc 0 (example_start 0) s'" using perform_step(1) [OF p] by (simp add: example_start_def)
  have "sy_held s'" "\<not> sy_held (example_start 0)" using p by (auto simp: example_start_def)
  then show ?thesis using wb_step_refines [OF example_reachable st] st by auto
qed

lemma searches_end_witness:
  "\<exists>s. reachable False example_enc 0 s \<and> fuse_range_is_writeback 0 1 3 (sy_wb s) \<noteq> None \<and>
     chain_find (wconn (sy_wb s)) 0 2 400 (Some 400) \<noteq> None"
proof -
  obtain s v where s: "reachable False example_enc 0 s" "winode (sy_wb s) 0 = Some v" "wfields v = ([400], FUSE_NOWRITE, [401, 400])"
    by (rule example_held)
  have "400 \<in> set (writepages v)" using s(3) by (simp add: wfields_def)
  from searches_end [OF s(1,2) this] s(1) show ?thesis by blast
qed

lemma writepage_keeps_lock_witness:
  "\<exists>s wb'. reachable False example_enc 0 s \<and> fuse_writepage example_enc example_wait (\<lambda>_. True) 0 0 (example_page 2) ((sy_wb s)\<lparr>pg_locked := {2}\<rparr>) = Some (0, wb') \<and>
     2 \<in> pg_locked wb'"
proof -
  let ?as = "[A_hold, A_start, A_begin 2, A_end, A_last]"
  let ?run = "\<lambda>s. fuse_writepage example_enc example_wait (\<lambda>_. True) 0 0 (example_page 2) ((sy_wb s)\<lparr>pg_locked := {2}\<rparr>)"
  have "\<exists>s. performs ?as (example_start 0) = Some s \<and> (\<exists>wb'. ?run s = Some (0, wb')) \<and>
      fuse_page_is_writeback 0 2 ((sy_wb s)\<lparr>pg_locked := {2}\<rparr>) = Some True"
    by (simp add: wb_evals cong: bind_weak_cong)
  then obtain s wb' where s: "performs ?as (example_start 0) = Some s" and run: "?run s = Some (0, wb')"
    and b: "fuse_page_is_writeback 0 2 ((sy_wb s)\<lparr>pg_locked := {2}\<rparr>) = Some True" by auto
  have "pg_index (example_page 2) \<in> pg_locked ((sy_wb s)\<lparr>pg_locked := {2}\<rparr>)" by (simp add: example_page_def)
  from writepage_keeps_lock [OF run this] b have "2 \<in> pg_locked wb'" by (simp add: example_page_def)
  then show ?thesis using run example_performs(1) [OF s] by blast
qed

lemma truncated_write_leaks_witness:
  "\<exists>s wb'. reachable False example_enc 0 s \<and>
     fuse_send_writepage example_enc example_wait 0 400 (winode_update 0 (queued_writes_update tl) (sy_wb s)) = Some wb' \<and>
     reqs (wconn wb') 401 \<noteq> None \<and> 401 \<notin> live (sview 0 (s\<lparr>sy_wb := wb'\<rparr>))"
proof -
  let ?as = "[A_hold, A_start, A_begin 2, A_end, A_begin 3, A_end, A_last, A_begin 3, A_end]"
  let ?send = "\<lambda>s. fuse_send_writepage example_enc example_wait 0 400 (winode_update 0 (queued_writes_update tl) (sy_wb s))"
  have "\<exists>s. performs ?as (example_start 0) = Some s \<and> map_option queued_writes (winode (sy_wb s) 0) = Some [400] \<and>
     (\<exists>q w. reqs (wconn (sy_wb s)) 400 = Some q \<and> write_of q = Some (w, Some 401) \<and>
        crop_size (wi_offset w) (of_nat (rq_num_pages q * PAGE_SIZE)) 0 = None) \<and>
     (\<exists>wb'. ?send s = Some wb' \<and> winode wb' 0 \<noteq> None)"
    by (simp add: wb_evals cong: bind_weak_cong)
  then obtain s v q w wb' where run: "performs ?as (example_start 0) = Some s" and v: "winode (sy_wb s) 0 = Some v" "queued_writes v = [400]"
    and q: "reqs (wconn (sy_wb s)) 400 = Some q" "write_of q = Some (w, Some 401)"
    and crop: "crop_size (wi_offset w) (of_nat (rq_num_pages q * PAGE_SIZE)) 0 = None" and send: "?send s = Some wb'" "winode wb' 0 \<noteq> None"
    by auto
  have r: "reachable False example_enc 0 s" using example_performs(1) [OF run] .
  from truncated_write_leaks [OF r v q crop send] show ?thesis using r send by blast
qed

end
