(* ===== verification/Fuse_Dir.thy ===== *)
theory Fuse_Dir
  imports Fuse_Writeback
begin

text \<open>
  Names and directories (\<open>dir.c\<close>): looking a name up, checking a cached name, the operations that create,
  remove, rename and link names, and the invalidation of a name by the server. \<open>fuse_ns\<close> is a mounted file
  system with its dentries, which are the names the kernel has cached.

  \<^item> \<open>ask\<close> is the exchange of \<open>fuse_simple_request\<close> with the server, during which other threads run; its
    result is the return value, the structure the server answered with, and the state at the return.
  \<^item> What the code calls of the dentry cache acts as documented in the VFS. Where its outcome depends on
    parts of the cache that are not in the model, the outcome is in \<open>dcache_env\<close>. The inode locks are not
    part of the state.
  \<^item> \<open>srv_lookups\<close> is the server's side of the lookup counts: a reply that names a node counts one more,
    a FORGET it reads counts down.
  \<^item> The memory of a FORGET that is not sent is freed on every path; it is not an object of the state.
\<close>

type_synonym de_id = nat

record dentry =
  d_inode :: "ino_id option"
  d_parent :: de_id
  d_name :: "u8 list"
  d_time :: u64
  d_hashed :: bool
  d_in_lookup :: bool
  d_count :: int

record fuse_ns =
  ns_wb :: fuse_wb
  dcache :: "de_id \<rightharpoonup> dentry"
  jiffies :: u64
  srv_lookups :: "u64 \<Rightarrow> u64"

abbreviation nsb :: "fuse_ns \<Rightarrow> fuse_sb" where "nsb ns \<equiv> wb_sb (ns_wb ns)"
abbreviation nconn :: "fuse_ns \<Rightarrow> fuse_state" where "nconn ns \<equiv> conn (nsb ns)"

definition nsb_update :: "(fuse_sb \<Rightarrow> fuse_sb) \<Rightarrow> fuse_ns \<Rightarrow> fuse_ns" where
  "nsb_update f ns = ns\<lparr>ns_wb := (ns_wb ns)\<lparr>wb_sb := f (wb_sb (ns_wb ns))\<rparr>\<rparr>"

definition set_nsb :: "fuse_ns \<Rightarrow> fuse_sb \<Rightarrow> fuse_ns" where
  "set_nsb ns sb = nsb_update (\<lambda>_. sb) ns"

definition upd_dentry :: "de_id \<Rightarrow> (dentry \<Rightarrow> dentry) \<Rightarrow> fuse_ns \<Rightarrow> fuse_ns" where
  "upd_dentry d f ns = ns\<lparr>dcache := (dcache ns)(d := map_option f (dcache ns d))\<rparr>"

definition node_of :: "fuse_ns \<Rightarrow> ino_id \<Rightarrow> u64 option" where
  "node_of ns i = map_option nodeid (inodes (nsb ns) i)"

definition dentry_inode :: "fuse_ns \<Rightarrow> de_id \<Rightarrow> ino_id option" where
  "dentry_inode ns d = Option.bind (dcache ns d) d_inode"

text \<open>The structures of the requests, and of the reply that names a node.\<close>

datatype dir_msg =
    Create_in u32 umode umode
  | Mknod_in umode u32 umode
  | Mkdir_in umode umode
  | Rename_in u64
  | Rename2_in u64 bool bool
  | Link_in u64

record fuse_entry_out =
  eo_nodeid :: u64
  eo_generation :: u64
  eo_entry_valid :: u64
  eo_attr_valid :: u64
  eo_entry_valid_nsec :: u32
  eo_attr_valid_nsec :: u32
  eo_attr :: fuse_attr

type_synonym 'o dask = "fuse_args \<Rightarrow> fuse_ns \<Rightarrow> (int \<times> 'o \<times> fuse_ns) option"

text \<open>
  \<open>timespec64_to_jiffies\<close>, \<open>current_time\<close>, \<open>current_umask\<close> and \<open>IS_RDONLY\<close> of the kernel, and the byte image
  of the structures.
\<close>

record dir_env =
  ts_jiffies :: "u64 \<Rightarrow> u32 \<Rightarrow> u64"
  cur_time :: timespec
  umask :: umode
  rdonly :: bool
  enc_msg :: "dir_msg \<Rightarrow> u8 list"

subsection \<open>The dentry cache\<close>

definition dget :: "de_id \<Rightarrow> fuse_ns \<Rightarrow> fuse_ns" where
  "dget d = upd_dentry d (d_count_update (\<lambda>n. n + 1))"

definition dput :: "de_id \<Rightarrow> fuse_ns \<Rightarrow> fuse_ns" where
  "dput d = upd_dentry d (d_count_update (\<lambda>n. n - 1))"

definition d_instantiate :: "de_id \<Rightarrow> ino_id \<Rightarrow> fuse_ns \<Rightarrow> fuse_ns" where
  "d_instantiate d i = upd_dentry d (\<lambda>e. e\<lparr>d_inode := Some i\<rparr>)"

definition d_invalidate :: "de_id \<Rightarrow> fuse_ns \<Rightarrow> fuse_ns" where
  "d_invalidate d = upd_dentry d (d_hashed_update (\<lambda>_. False))"

definition ns_iput :: "ino_id \<Rightarrow> fuse_ns \<Rightarrow> fuse_ns option" where
  "ns_iput i ns = map_option (set_nsb ns) (iput i (nsb ns))"

text \<open>
  \<open>d_splice_alias\<close>: the dentry takes the inode; or the inode is a directory that has a dentry already, which
  is moved to the name and returned; or it fails. In the last two cases the reference to the inode is dropped.
\<close>

datatype splice = Splice_here | Splice_alias de_id | Splice_error int

definition d_add :: "de_id \<Rightarrow> ino_id option \<Rightarrow> fuse_ns \<Rightarrow> fuse_ns" where
  "d_add d oi = upd_dentry d (\<lambda>e. e\<lparr>d_inode := oi, d_hashed := True\<rparr>)"

definition d_move :: "de_id \<Rightarrow> de_id \<Rightarrow> fuse_ns \<Rightarrow> fuse_ns" where
  "d_move a d ns = (case dcache ns d of
      None \<Rightarrow> ns
    | Some e \<Rightarrow> upd_dentry a (\<lambda>f. f\<lparr>d_parent := d_parent e, d_name := d_name e, d_hashed := True\<rparr>) ns)"

definition d_splice_alias ::
    "splice \<Rightarrow> ino_id option \<Rightarrow> de_id \<Rightarrow> fuse_ns \<Rightarrow> ((int + de_id option) \<times> fuse_ns) option" where
  "d_splice_alias sp oi d ns =
     (case oi of
        None \<Rightarrow> Some (Inr None, d_add d None ns)
      | Some i \<Rightarrow>
          (case sp of
             Splice_here \<Rightarrow> Some (Inr None, d_add d (Some i) ns)
           | Splice_alias a \<Rightarrow> map_option (\<lambda>t. (Inr (Some a), dget a (d_move a d t))) (ns_iput i ns)
           | Splice_error e \<Rightarrow> map_option (Pair (Inl e)) (ns_iput i ns)))"

subsection \<open>Timeouts\<close>

definition fuse_dentry_settime :: "de_id \<Rightarrow> u64 \<Rightarrow> fuse_ns \<Rightarrow> fuse_ns" where
  "fuse_dentry_settime d t = upd_dentry d (d_time_update (\<lambda>_. t))"

definition NSEC_PER_SEC :: u32 where "NSEC_PER_SEC = 1000000000"

definition time_to_jiffies :: "dir_env \<Rightarrow> fuse_ns \<Rightarrow> u64 \<Rightarrow> u32 \<Rightarrow> u64" where
  "time_to_jiffies env ns sec nsec =
     (if sec \<noteq> 0 \<or> nsec \<noteq> 0 then jiffies ns + ts_jiffies env sec (min nsec (NSEC_PER_SEC - 1)) else 0)"

definition fuse_change_entry_timeout :: "dir_env \<Rightarrow> de_id \<Rightarrow> fuse_entry_out \<Rightarrow> fuse_ns \<Rightarrow> fuse_ns" where
  "fuse_change_entry_timeout env d out ns =
     fuse_dentry_settime d (time_to_jiffies env ns (eo_entry_valid out) (eo_entry_valid_nsec out)) ns"

definition entry_attr_timeout :: "dir_env \<Rightarrow> fuse_ns \<Rightarrow> fuse_entry_out \<Rightarrow> u64" where
  "entry_attr_timeout env ns out = time_to_jiffies env ns (eo_attr_valid out) (eo_attr_valid_nsec out)"

definition invalidate_attr :: "ino_id \<Rightarrow> fuse_ns \<Rightarrow> fuse_ns" where
  "invalidate_attr i = nsb_update (fuse_invalidate_attr i)"

definition fuse_invalidate_atime :: "dir_env \<Rightarrow> ino_id \<Rightarrow> fuse_ns \<Rightarrow> fuse_ns" where
  "fuse_invalidate_atime env i ns = (if rdonly env then ns else invalidate_attr i ns)"

definition fuse_invalidate_entry_cache :: "de_id \<Rightarrow> fuse_ns \<Rightarrow> fuse_ns" where
  "fuse_invalidate_entry_cache d = fuse_dentry_settime d 0"

definition fuse_invalidate_entry :: "de_id \<Rightarrow> fuse_ns \<Rightarrow> fuse_ns" where
  "fuse_invalidate_entry d ns = fuse_invalidate_entry_cache d (d_invalidate d ns)"

definition time_before64 :: "u64 \<Rightarrow> u64 \<Rightarrow> bool" where
  "time_before64 a b \<longleftrightarrow> a - b <s 0"

text \<open>\<open>fuse_use_readdirplus\<close> returns the answer and the inode with its advice taken.\<close>

definition fuse_advise_use_readdirplus :: "ino_id \<Rightarrow> fuse_ns \<Rightarrow> fuse_ns" where
  "fuse_advise_use_readdirplus i = nsb_update (upd_inode i (\<lambda>v. v\<lparr>fi_state := insert FUSE_I_ADVISE_RDPLUS (fi_state v)\<rparr>))"

definition clear_state :: "fuse_inode_bit \<Rightarrow> ino_id \<Rightarrow> fuse_ns \<Rightarrow> fuse_ns" where
  "clear_state b i = nsb_update (upd_inode i (\<lambda>v. v\<lparr>fi_state := fi_state v - {b}\<rparr>))"

definition fuse_use_readdirplus :: "ino_id \<Rightarrow> u64 \<Rightarrow> fuse_ns \<Rightarrow> (bool \<times> fuse_ns) option" where
  "fuse_use_readdirplus i pos ns = do {
     v \<leftarrow> inodes (nsb ns) i;
     Some (if Do_readdirplus \<notin> fc_bits (nconn ns) then (False, ns)
           else if Readdirplus_auto \<notin> fc_bits (nconn ns) then (True, ns)
           else if FUSE_I_ADVISE_RDPLUS \<in> fi_state v then (True, clear_state FUSE_I_ADVISE_RDPLUS i ns)
           else (pos = 0, ns))}"

subsection \<open>Looking a name up\<close>

definition name_arg :: "u8 list \<Rightarrow> fuse_arg" where
  "name_arg nm = \<lparr>arg_size = length nm + 1, arg_value = nm @ [0]\<rparr>"

definition entry_arg :: "fuse_state \<Rightarrow> fuse_arg" where
  "entry_arg s = \<lparr>arg_size = wire_size s W_entry_out, arg_value = []\<rparr>"

definition msg_arg :: "dir_env \<Rightarrow> fuse_state \<Rightarrow> wire \<Rightarrow> dir_msg \<Rightarrow> fuse_arg" where
  "msg_arg env s w m = \<lparr>arg_size = wire_size s w, arg_value = enc_msg env m\<rparr>"

definition fuse_lookup_init :: "fuse_state \<Rightarrow> u64 \<Rightarrow> u8 list \<Rightarrow> fuse_args" where
  "fuse_lookup_init s n nm = \<lparr>a_opcode = FUSE_LOOKUP, a_nodeid = n, a_in_args = [name_arg nm],
     a_out_argvar = False, a_out_args = [entry_arg s]\<rparr>"

definition invalid_nodeid :: "u64 \<Rightarrow> bool" where
  "invalid_nodeid n \<longleftrightarrow> n = 0 \<or> n = 1"

definition queue_forget :: "u64 \<Rightarrow> fuse_ns \<Rightarrow> fuse_ns" where
  "queue_forget n = nsb_update (upd_conn (fuse_queue_forget n 1))"

definition entry_iget ::
    "dir_env \<Rightarrow> oom \<Rightarrow> fuse_entry_out \<Rightarrow> u64 \<Rightarrow> fuse_ns \<Rightarrow> (ino_id option \<times> fuse_ns) option" where
  "entry_iget env ok out ver ns =
     map_option (\<lambda>(found, sb). (found, set_nsb ns sb))
       (fuse_iget ok (eo_nodeid out) (ucast (eo_generation out)) (eo_attr out) (entry_attr_timeout env ns out) ver (nsb ns))"

text \<open>
  \<open>fuse_lookup_name\<close>: the return value, the reply, the inode. The first allocation is the FORGET, the
  others those of the inode.
\<close>

definition fuse_lookup_name ::
    "dir_env \<Rightarrow> oom \<Rightarrow> fuse_entry_out dask \<Rightarrow> u64 \<Rightarrow> u8 list \<Rightarrow> fuse_ns \<Rightarrow>
      (int \<times> fuse_entry_out option \<times> ino_id option \<times> fuse_ns) option" where
  "fuse_lookup_name env ok ask n nm ns =
     (if FUSE_NAME_MAX < length nm then Some (- ENAMETOOLONG, None, None, ns)
      else if \<not> ok 0 then Some (- ENOMEM, None, None, ns)
      else do {
        let ver = fuse_get_attr_version (nsb ns);
        (err, out, ns1) \<leftarrow> ask (fuse_lookup_init (nconn ns) n nm) ns;
        if err \<noteq> 0 \<or> eo_nodeid out = 0 then Some (err, Some out, None, ns1)
        else if \<not> fuse_valid_type (attr_umode (eo_attr out)) then Some (- EIO, Some out, None, ns1)
        else do {
          (found, ns2) \<leftarrow> entry_iget env (\<lambda>k. ok (Suc k)) out ver ns1;
          (case found of
             None \<Rightarrow> Some (- ENOMEM, Some out, None, queue_forget (eo_nodeid out) ns2)
           | Some i \<Rightarrow> Some (0, Some out, Some i, ns2))}})"

definition lookup_add ::
    "dir_env \<Rightarrow> splice \<Rightarrow> ino_id \<Rightarrow> de_id \<Rightarrow> fuse_entry_out option \<Rightarrow> ino_id option \<Rightarrow> fuse_ns \<Rightarrow>
      ((int + de_id option) \<times> fuse_ns) option" where
  "lookup_add env sp dir d out found ns = do {
     (res, ns1) \<leftarrow> d_splice_alias sp found d ns;
     (case res of
        Inl e \<Rightarrow> Some (Inl e, ns1)
      | Inr newent \<Rightarrow>
          let d' = (case newent of None \<Rightarrow> d | Some a \<Rightarrow> a);
              ns2 = (case out of None \<Rightarrow> fuse_invalidate_entry_cache d' ns1
                     | Some o' \<Rightarrow> fuse_change_entry_timeout env d' o' ns1)
          in Some (Inr newent, fuse_advise_use_readdirplus dir ns2))}"

definition fuse_lookup ::
    "dir_env \<Rightarrow> oom \<Rightarrow> fuse_entry_out dask \<Rightarrow> splice \<Rightarrow> ino_id \<Rightarrow> de_id \<Rightarrow> fuse_ns \<Rightarrow>
      ((int + de_id option) \<times> fuse_ns) option" where
  "fuse_lookup env ok ask sp dir d ns = do {
     n \<leftarrow> node_of ns dir;
     e \<leftarrow> dcache ns d;
     (err, out, found, ns1) \<leftarrow> fuse_lookup_name env ok ask n (d_name e) ns;
     if err \<noteq> 0 \<and> err \<noteq> - ENOENT then Some (Inl err, ns1)
     else (case found of
         None \<Rightarrow> lookup_add env sp dir d (if err = 0 then out else None) None ns1
       | Some i \<Rightarrow> do {
           m \<leftarrow> node_of ns1 i;
           if m = 1 then map_option (Pair (Inl (- EIO))) (ns_iput i ns1)
           else lookup_add env sp dir d out (Some i) ns1})}"

subsection \<open>Checking a cached name\<close>

datatype lookup_flag = LOOKUP_RCU | LOOKUP_REVAL

definition is_bad_inode :: "fuse_inode \<Rightarrow> bool" where
  "is_bad_inode v \<longleftrightarrow> i_ops v = Ops_bad"

definition type_differs :: "fuse_entry_out \<Rightarrow> umode \<Rightarrow> bool" where
  "type_differs out m \<longleftrightarrow> (attr_umode (eo_attr out) XOR m) AND S_IFMT \<noteq> 0"

definition inc_nlookup :: "ino_id \<Rightarrow> fuse_ns \<Rightarrow> fuse_ns" where
  "inc_nlookup i = nsb_update (upd_inode i (\<lambda>v. v\<lparr>nlookup := nlookup v + 1\<rparr>))"

definition refresh_attributes ::
    "dir_env \<Rightarrow> ino_id \<Rightarrow> fuse_entry_out \<Rightarrow> u64 \<Rightarrow> fuse_ns \<Rightarrow> fuse_ns option" where
  "refresh_attributes env i out ver ns =
     map_option (set_nsb ns)
       (fuse_change_attributes i (eo_attr out) (entry_attr_timeout env ns out) ver (vfs (Forget_acls i) (nsb ns)))"

definition revalidate_request ::
    "dir_env \<Rightarrow> oom \<Rightarrow> fuse_entry_out dask \<Rightarrow> de_id \<Rightarrow> dentry \<Rightarrow> ino_id \<Rightarrow> fuse_ns \<Rightarrow> (int \<times> fuse_ns) option" where
  "revalidate_request env ok ask d e i ns =
     (if \<not> ok 0 then Some (- ENOMEM, ns)
      else do {
        let ver = fuse_get_attr_version (nsb ns);
        p \<leftarrow> dentry_inode ns (d_parent e);
        n \<leftarrow> node_of ns p;
        (err, out, ns1) \<leftarrow> ask (fuse_lookup_init (nconn ns) n (d_name e)) (dget (d_parent e) ns);
        let ns2 = dput (d_parent e) ns1;
        let ret = (if err = 0 \<and> eo_nodeid out = 0 then - ENOENT else err);
        if ret = - ENOMEM then Some (ret, ns2)
        else if ret \<noteq> 0 then Some (0, ns2)
        else do {
          v \<leftarrow> inodes (nsb ns2) i;
          if eo_nodeid out \<noteq> nodeid v then Some (0, queue_forget (eo_nodeid out) ns2)
          else if type_differs out (i_mode v) then Some (0, inc_nlookup i ns2)
          else do {
            ns3 \<leftarrow> refresh_attributes env i out ver (inc_nlookup i ns2);
            Some (1, fuse_change_entry_timeout env d out ns3)}}})"

definition revalidate_cached ::
    "dentry \<Rightarrow> ino_id \<Rightarrow> lookup_flag set \<Rightarrow> fuse_ns \<Rightarrow> (int \<times> fuse_ns) option" where
  "revalidate_cached e i flags ns = do {
     v \<leftarrow> inodes (nsb ns) i;
     if FUSE_I_INIT_RDPLUS \<notin> fi_state v then Some (1, ns)
     else if LOOKUP_RCU \<in> flags then Some (- ECHILD, ns)
     else do {
       p \<leftarrow> dentry_inode ns (d_parent e);
       Some (1, fuse_advise_use_readdirplus p (clear_state FUSE_I_INIT_RDPLUS i ns))}}"

definition fuse_dentry_revalidate ::
    "dir_env \<Rightarrow> oom \<Rightarrow> fuse_entry_out dask \<Rightarrow> de_id \<Rightarrow> lookup_flag set \<Rightarrow> fuse_ns \<Rightarrow> (int \<times> fuse_ns) option" where
  "fuse_dentry_revalidate env ok ask d flags ns = do {
     e \<leftarrow> dcache ns d;
     bad \<leftarrow> (case d_inode e of None \<Rightarrow> Some False | Some i \<Rightarrow> map_option is_bad_inode (inodes (nsb ns) i));
     if bad then Some (0, ns)
     else if time_before64 (d_time e) (jiffies ns) \<or> LOOKUP_REVAL \<in> flags then
       (case d_inode e of
          None \<Rightarrow> Some (0, ns)
        | Some i \<Rightarrow> if LOOKUP_RCU \<in> flags then Some (- ECHILD, ns)
                   else revalidate_request env ok ask d e i ns)
     else (case d_inode e of None \<Rightarrow> Some (1, ns) | Some i \<Rightarrow> revalidate_cached e i flags ns)}"

subsection \<open>Creating entries\<close>

definition masked :: "dir_env \<Rightarrow> fuse_ns \<Rightarrow> umode \<Rightarrow> umode" where
  "masked env ns mode = (if Dont_mask \<in> fc_bits (nconn ns) then mode else mode AND NOT (umask env))"

definition plain_args :: "fuse_opcode \<Rightarrow> u64 \<Rightarrow> fuse_arg list \<Rightarrow> fuse_args" where
  "plain_args op n ins = \<lparr>a_opcode = op, a_nodeid = n, a_in_args = ins, a_out_argvar = False, a_out_args = []\<rparr>"

text \<open>
  \<open>d_instantiate_no_diralias\<close> returns 0, or an error when the inode is a directory that has a dentry
  already; it has then dropped the inode. \<open>inst\<close> is its result.
\<close>

definition new_entry_found ::
    "dir_env \<Rightarrow> int \<Rightarrow> ino_id \<Rightarrow> de_id \<Rightarrow> fuse_entry_out \<Rightarrow> ino_id \<Rightarrow> fuse_ns \<Rightarrow> (int \<times> fuse_ns) option" where
  "new_entry_found env inst dir d out i ns =
     (if inst \<noteq> 0 then map_option (Pair inst) (ns_iput i ns)
      else Some (0, invalidate_attr dir (fuse_change_entry_timeout env d out (d_instantiate d i ns))))"

definition create_new_entry ::
    "dir_env \<Rightarrow> oom \<Rightarrow> fuse_entry_out dask \<Rightarrow> int \<Rightarrow> fuse_args \<Rightarrow> ino_id \<Rightarrow> de_id \<Rightarrow> umode \<Rightarrow> fuse_ns \<Rightarrow>
      (int \<times> fuse_ns) option" where
  "create_new_entry env ok ask inst args dir d mode ns =
     (if \<not> ok 0 then Some (- ENOMEM, ns)
      else do {
        n \<leftarrow> node_of ns dir;
        (err, out, ns1) \<leftarrow> ask (args\<lparr>a_nodeid := n, a_out_args := [entry_arg (nconn ns)]\<rparr>) ns;
        if err \<noteq> 0 then Some (err, ns1)
        else if invalid_nodeid (eo_nodeid out) then Some (- EIO, ns1)
        else if type_differs out mode then Some (- EIO, ns1)
        else do {
          (found, ns2) \<leftarrow> entry_iget env (\<lambda>k. ok (Suc k)) out 0 ns1;
          (case found of
             None \<Rightarrow> Some (- ENOMEM, queue_forget (eo_nodeid out) ns2)
           | Some i \<Rightarrow> new_entry_found env inst dir d out i ns2)}})"

text \<open>\<open>rdev\<close> is what \<open>new_encode_dev\<close> makes of the device.\<close>

definition fuse_mknod ::
    "dir_env \<Rightarrow> oom \<Rightarrow> fuse_entry_out dask \<Rightarrow> int \<Rightarrow> ino_id \<Rightarrow> de_id \<Rightarrow> umode \<Rightarrow> u32 \<Rightarrow> fuse_ns \<Rightarrow>
      (int \<times> fuse_ns) option" where
  "fuse_mknod env ok ask inst dir d mode rdev ns = do {
     e \<leftarrow> dcache ns d;
     let m = masked env ns mode;
     create_new_entry env ok ask inst
       (plain_args FUSE_MKNOD 0 [msg_arg env (nconn ns) W_mknod_in (Mknod_in m rdev (umask env)), name_arg (d_name e)])
       dir d m ns}"

definition fuse_create ::
    "dir_env \<Rightarrow> oom \<Rightarrow> fuse_entry_out dask \<Rightarrow> int \<Rightarrow> ino_id \<Rightarrow> de_id \<Rightarrow> umode \<Rightarrow> fuse_ns \<Rightarrow> (int \<times> fuse_ns) option" where
  "fuse_create env ok ask inst dir d mode ns = fuse_mknod env ok ask inst dir d mode 0 ns"

definition fuse_mkdir ::
    "dir_env \<Rightarrow> oom \<Rightarrow> fuse_entry_out dask \<Rightarrow> int \<Rightarrow> ino_id \<Rightarrow> de_id \<Rightarrow> umode \<Rightarrow> fuse_ns \<Rightarrow> (int \<times> fuse_ns) option" where
  "fuse_mkdir env ok ask inst dir d mode ns = do {
     e \<leftarrow> dcache ns d;
     let m = masked env ns mode;
     create_new_entry env ok ask inst
       (plain_args FUSE_MKDIR 0 [msg_arg env (nconn ns) W_mkdir_in (Mkdir_in m (umask env)), name_arg (d_name e)])
       dir d S_IFDIR ns}"

definition fuse_symlink ::
    "dir_env \<Rightarrow> oom \<Rightarrow> fuse_entry_out dask \<Rightarrow> int \<Rightarrow> ino_id \<Rightarrow> de_id \<Rightarrow> u8 list \<Rightarrow> fuse_ns \<Rightarrow> (int \<times> fuse_ns) option" where
  "fuse_symlink env ok ask inst dir d target ns = do {
     e \<leftarrow> dcache ns d;
     create_new_entry env ok ask inst (plain_args FUSE_SYMLINK 0 [name_arg (d_name e), name_arg target])
       dir d S_IFLNK ns}"

definition mark_dirty_ctime :: "dir_env \<Rightarrow> ino_id \<Rightarrow> fuse_sb \<Rightarrow> fuse_sb" where
  "mark_dirty_ctime env i sb = vfs (Mark_dirty_sync i) (upd_inode i (\<lambda>v. v\<lparr>i_ctime := cur_time env\<rparr>) sb)"

definition fuse_update_ctime :: "dir_env \<Rightarrow> ino_id \<Rightarrow> fuse_ns \<Rightarrow> fuse_ns option" where
  "fuse_update_ctime env i ns = do {
     v \<leftarrow> inodes (nsb ns) i;
     Some (if S_NOCMTIME \<in> i_flags v then ns else nsb_update (mark_dirty_ctime env i) ns)}"

text \<open>The new version and link count that unlinking and linking give an inode.\<close>

definition relink :: "(u32 \<Rightarrow> u32) \<Rightarrow> ino_id \<Rightarrow> fuse_sb \<Rightarrow> fuse_sb" where
  "relink f i sb =
     (let ver = attr_version (conn sb) + 1 in
      upd_inode i (\<lambda>v. v\<lparr>fi_attr_version := ver, i_nlink := f (i_nlink v)\<rparr>)
        (upd_conn (\<lambda>s. s\<lparr>attr_version := ver\<rparr>) sb))"

definition fuse_link ::
    "dir_env \<Rightarrow> oom \<Rightarrow> fuse_entry_out dask \<Rightarrow> int \<Rightarrow> de_id \<Rightarrow> ino_id \<Rightarrow> de_id \<Rightarrow> fuse_ns \<Rightarrow> (int \<times> fuse_ns) option" where
  "fuse_link env ok ask inst d newdir newd ns = do {
     i \<leftarrow> dentry_inode ns d;
     v \<leftarrow> inodes (nsb ns) i;
     e \<leftarrow> dcache ns newd;
     (err, ns1) \<leftarrow> create_new_entry env ok ask inst
       (plain_args FUSE_LINK 0 [msg_arg env (nconn ns) W_link_in (Link_in (nodeid v)), name_arg (d_name e)])
       newdir newd (i_mode v) ns;
     if err = 0 then map_option (Pair 0)
       (fuse_update_ctime env i (invalidate_attr i (nsb_update (relink (\<lambda>l. l + 1) i) ns1)))
     else Some (err, if err = - EINTR then invalidate_attr i ns1 else ns1)}"

subsection \<open>Create and open in one request\<close>

text \<open>
  \<open>fuse_create_open\<close>. \<open>fin\<close> is the result of \<open>finish_open\<close>; the first allocation is the FORGET, the next three
  those of the file, the others those of the inode. \<open>wait\<close> and \<open>encr\<close> belong to the RELEASE of a file that cannot be used.
\<close>

definition FILE_flags_new :: u32 where "FILE_flags_new = O_CREAT OR O_EXCL OR O_TRUNC"

definition ns_sync_release ::
    "wait \<Rightarrow> (fuse_release_in \<Rightarrow> u8 list) \<Rightarrow> ff_id \<Rightarrow> u32 \<Rightarrow> fuse_ns \<Rightarrow> fuse_ns option" where
  "ns_sync_release wait encr ff flags ns = map_option (set_nsb ns) (fuse_sync_release wait encr ff flags (nsb ns))"

definition ns_conn_do :: "(fuse_state \<Rightarrow> fuse_state option) \<Rightarrow> fuse_ns \<Rightarrow> fuse_ns option" where
  "ns_conn_do f ns = map_option (\<lambda>s. nsb_update (upd_conn (\<lambda>_. s)) ns) (f (nconn ns))"

definition create_finish ::
    "wait \<Rightarrow> (fuse_release_in \<Rightarrow> u8 list) \<Rightarrow> int \<Rightarrow> open_file \<Rightarrow> u32 \<Rightarrow> ff_id \<Rightarrow> ino_id \<Rightarrow> fuse_ns \<Rightarrow> (int \<times> fuse_ns) option" where
  "create_finish wait encr fin file flags ff i ns =
     (if fin \<noteq> 0 then map_option (Pair fin) (ns_sync_release wait encr ff flags ns)
      else do {
        ns1 \<leftarrow> ns_conn_do (\<lambda>s. fuse_file_get s ff) ns;
        let ns2 = nsb_update (upd_conn (set_private_data (of_filp file) ff)) ns1;
        sb \<leftarrow> fuse_finish_open i file (nsb ns2);
        Some (0, set_nsb ns2 sb)})"

definition create_reply ::
    "dir_env \<Rightarrow> oom \<Rightarrow> wait \<Rightarrow> (fuse_release_in \<Rightarrow> u8 list) \<Rightarrow> int \<Rightarrow> ino_id \<Rightarrow> de_id \<Rightarrow> open_file \<Rightarrow> u32 \<Rightarrow> ff_id \<Rightarrow>
      fuse_entry_out \<Rightarrow> fuse_open_out \<Rightarrow> fuse_ns \<Rightarrow> (int \<times> fuse_ns) option" where
  "create_reply env ok wait encr fin dir d file flags ff out oopen ns = do {
     let ns1 = nsb_update (upd_conn (upd_ff ff (\<lambda>f. f\<lparr>ff_fh := oo_fh oopen, ff_nodeid := eo_nodeid out,
                                                  ff_open_flags := oo_open_flags oopen\<rparr>))) ns;
     (found, ns2) \<leftarrow> entry_iget env ok out 0 ns1;
     (case found of
        None \<Rightarrow> do {
          ns3 \<leftarrow> ns_sync_release wait encr ff (flags AND NOT FILE_flags_new) ns2;
          Some (- ENOMEM, queue_forget (eo_nodeid out) ns3)}
      | Some i \<Rightarrow>
          create_finish wait encr fin file flags ff i
            (invalidate_attr dir (fuse_change_entry_timeout env d out (d_instantiate d i ns2))))}"

definition fuse_create_open ::
    "dir_env \<Rightarrow> oom \<Rightarrow> (fuse_entry_out \<times> fuse_open_out) dask \<Rightarrow> wait \<Rightarrow> (fuse_release_in \<Rightarrow> u8 list) \<Rightarrow> int \<Rightarrow>
      ino_id \<Rightarrow> de_id \<Rightarrow> open_file \<Rightarrow> u32 \<Rightarrow> umode \<Rightarrow> fuse_ns \<Rightarrow> (int \<times> fuse_ns) option" where
  "fuse_create_open env ok ask wait encr fin dir d file flags mode ns =
     (if mode AND S_IFMT \<noteq> S_IFREG then None
      else if \<not> ok 0 then Some (- ENOMEM, ns)
      else (case fuse_file_alloc (\<lambda>k. ok (Suc k)) (nconn ns) of
          (None, s1) \<Rightarrow> Some (- ENOMEM, nsb_update (upd_conn (\<lambda>_. s1)) ns)
        | (Some ff, s1) \<Rightarrow> do {
            let ns1 = nsb_update (upd_conn (\<lambda>_. s1)) ns;
            let fl = flags AND NOT O_NOCTTY;
            n \<leftarrow> node_of ns1 dir;
            e \<leftarrow> dcache ns1 d;
            (err, (out, oopen), ns2) \<leftarrow> ask \<lparr>a_opcode = FUSE_CREATE, a_nodeid = n,
                a_in_args = [msg_arg env s1 W_create_in (Create_in fl (masked env ns1 mode) (umask env)), name_arg (d_name e)],
                a_out_argvar = False,
                a_out_args = [entry_arg s1, \<lparr>arg_size = wire_size s1 W_open_out, arg_value = []\<rparr>]\<rparr> ns1;
            let bad = (\<not> S_ISREG (attr_umode (eo_attr out)) \<or> invalid_nodeid (eo_nodeid out));
            if err \<noteq> 0 \<or> bad
            then map_option (Pair (if err \<noteq> 0 then err else - EIO)) (ns_conn_do (\<lambda>s. fuse_file_free s ff) ns2)
            else create_reply env (\<lambda>k. ok (k + 4)) wait encr fin dir d file fl ff out oopen ns2}))"

text \<open>
  \<open>fuse_atomic_open\<close>. \<open>askc\<close> and \<open>askl\<close> are the exchanges of CREATE and of LOOKUP and MKNOD, \<open>ok\<close> gives the
  allocations of each of the three, \<open>FILE_CREATED\<close> is the returned flag, and \<open>finish_no_open\<close> returns 1.
\<close>

definition atomic_create ::
    "dir_env \<Rightarrow> (nat \<Rightarrow> oom) \<Rightarrow> fuse_entry_out dask \<Rightarrow> (fuse_entry_out \<times> fuse_open_out) dask \<Rightarrow> wait \<Rightarrow>
      (fuse_release_in \<Rightarrow> u8 list) \<Rightarrow> int \<Rightarrow> int \<Rightarrow> ino_id \<Rightarrow> de_id \<Rightarrow> open_file \<Rightarrow> u32 \<Rightarrow> umode \<Rightarrow> fuse_ns \<Rightarrow>
      (int \<times> fuse_ns) option" where
  "atomic_create env ok askl askc wait encr fin inst dir d file flags mode ns = do {
     (err, ns1) \<leftarrow> (if No_create \<in> fc_bits (nconn ns) then Some (- ENOSYS, ns)
                   else fuse_create_open env (ok 1) askc wait encr fin dir d file flags mode ns);
     if err = - ENOSYS then do {
       (err2, ns2) \<leftarrow> fuse_mknod env (ok 2) askl inst dir d mode 0
         (nsb_update (upd_conn (\<lambda>s. s\<lparr>fc_bits := insert No_create (fc_bits s)\<rparr>)) ns1);
       Some (if err2 = 0 then 1 else err2, ns2)}
     else Some (err, ns1)}"

definition fuse_atomic_open ::
    "dir_env \<Rightarrow> (nat \<Rightarrow> oom) \<Rightarrow> fuse_entry_out dask \<Rightarrow> (fuse_entry_out \<times> fuse_open_out) dask \<Rightarrow> wait \<Rightarrow>
      (fuse_release_in \<Rightarrow> u8 list) \<Rightarrow> splice \<Rightarrow> int \<Rightarrow> int \<Rightarrow> ino_id \<Rightarrow> de_id \<Rightarrow> open_file \<Rightarrow> u32 \<Rightarrow> umode \<Rightarrow> fuse_ns \<Rightarrow>
      (int \<times> bool \<times> fuse_ns) option" where
  "fuse_atomic_open env ok askl askc wait encr sp fin inst dir d file flags mode ns = do {
     e \<leftarrow> dcache ns d;
     (res, ns1) \<leftarrow> (if d_in_lookup e then fuse_lookup env (ok 0) askl sp dir d ns else Some (Inr None, ns));
     (case res of
        Inl err \<Rightarrow> Some (err, False, ns1)
      | Inr alias \<Rightarrow>
          let d' = (case alias of None \<Rightarrow> d | Some a \<Rightarrow> a) in
          if flags AND O_CREAT = 0 \<or> dentry_inode ns1 d' \<noteq> None then Some (1, False, ns1)
          else do {
            (err, ns2) \<leftarrow> atomic_create env ok askl askc wait encr fin inst dir d' file flags mode ns1;
            Some (err, True, if err = 1 then ns2 else (case alias of None \<Rightarrow> ns2 | Some a \<Rightarrow> dput a ns2))})}"

subsection \<open>Removing and renaming\<close>

definition fuse_unlink ::
    "dir_env \<Rightarrow> unit dask \<Rightarrow> ino_id \<Rightarrow> de_id \<Rightarrow> fuse_ns \<Rightarrow> (int \<times> fuse_ns) option" where
  "fuse_unlink env ask dir d ns = do {
     n \<leftarrow> node_of ns dir;
     e \<leftarrow> dcache ns d;
     (err, _, ns1) \<leftarrow> ask (plain_args FUSE_UNLINK n [name_arg (d_name e)]) ns;
     if err = 0 then do {
       i \<leftarrow> dentry_inode ns1 d;
       let ns2 = nsb_update (relink (\<lambda>l. if 0 < l then l - 1 else l) i) ns1;
       let ns3 = fuse_invalidate_entry_cache d (invalidate_attr dir (invalidate_attr i ns2));
       map_option (Pair 0) (fuse_update_ctime env i ns3)}
     else Some (err, if err = - EINTR then fuse_invalidate_entry d ns1 else ns1)}"

definition clear_nlink :: "ino_id \<Rightarrow> fuse_ns \<Rightarrow> fuse_ns" where
  "clear_nlink i = nsb_update (upd_inode i (\<lambda>v. v\<lparr>i_nlink := 0\<rparr>))"

definition fuse_rmdir ::
    "unit dask \<Rightarrow> ino_id \<Rightarrow> de_id \<Rightarrow> fuse_ns \<Rightarrow> (int \<times> fuse_ns) option" where
  "fuse_rmdir ask dir d ns = do {
     n \<leftarrow> node_of ns dir;
     e \<leftarrow> dcache ns d;
     (err, _, ns1) \<leftarrow> ask (plain_args FUSE_RMDIR n [name_arg (d_name e)]) ns;
     if err = 0 then do {
       i \<leftarrow> dentry_inode ns1 d;
       Some (0, fuse_invalidate_entry_cache d (invalidate_attr dir (clear_nlink i ns1)))}
     else Some (err, if err = - EINTR then fuse_invalidate_entry d ns1 else ns1)}"

datatype rename_flag = RENAME_NOREPLACE | RENAME_EXCHANGE | RENAME_WHITEOUT

text \<open>\<open>touch_renamed\<close> is what the rename does to one inode: its attributes are stale and its ctime changes.\<close>

definition touch_renamed :: "dir_env \<Rightarrow> ino_id \<Rightarrow> fuse_ns \<Rightarrow> fuse_ns option" where
  "touch_renamed env i ns = fuse_update_ctime env i (invalidate_attr i ns)"

definition rename_done ::
    "dir_env \<Rightarrow> ino_id \<Rightarrow> de_id \<Rightarrow> ino_id \<Rightarrow> de_id \<Rightarrow> bool \<Rightarrow> fuse_ns \<Rightarrow> fuse_ns option" where
  "rename_done env olddir oldd newdir newd exchange ns = do {
     i \<leftarrow> dentry_inode ns oldd;
     ns1 \<leftarrow> touch_renamed env i ns;
     ns2 \<leftarrow> (if exchange then do { j \<leftarrow> dentry_inode ns1 newd; touch_renamed env j ns1 } else Some ns1);
     let ns3 = invalidate_attr olddir ns2;
     let ns4 = (if olddir \<noteq> newdir then invalidate_attr newdir ns3 else ns3);
     (case dentry_inode ns4 newd of
        Some j \<Rightarrow>
          if exchange then Some ns4
          else fuse_update_ctime env j (fuse_invalidate_entry_cache newd (invalidate_attr j ns4))
      | None \<Rightarrow> Some ns4)}"

definition rename_interrupted :: "de_id \<Rightarrow> de_id \<Rightarrow> fuse_ns \<Rightarrow> fuse_ns" where
  "rename_interrupted oldd newd ns =
     (let ns1 = fuse_invalidate_entry oldd ns in
      if dentry_inode ns1 newd \<noteq> None then fuse_invalidate_entry newd ns1 else ns1)"

definition fuse_rename_common ::
    "dir_env \<Rightarrow> unit dask \<Rightarrow> ino_id \<Rightarrow> de_id \<Rightarrow> ino_id \<Rightarrow> de_id \<Rightarrow> rename_flag set \<Rightarrow> fuse_opcode \<Rightarrow> wire \<Rightarrow>
      (u64 \<Rightarrow> dir_msg) \<Rightarrow> fuse_ns \<Rightarrow> (int \<times> fuse_ns) option" where
  "fuse_rename_common env ask olddir oldd newdir newd flags op w msg ns = do {
     m \<leftarrow> node_of ns newdir;
     n \<leftarrow> node_of ns olddir;
     e \<leftarrow> dcache ns oldd;
     f \<leftarrow> dcache ns newd;
     (err, _, ns1) \<leftarrow> ask (plain_args op n
         [msg_arg env (nconn ns) w (msg m), name_arg (d_name e), name_arg (d_name f)]) ns;
     if err = 0 then map_option (Pair 0) (rename_done env olddir oldd newdir newd (RENAME_EXCHANGE \<in> flags) ns1)
     else Some (err, if err = - EINTR then rename_interrupted oldd newd ns1 else ns1)}"

definition fuse_rename2 ::
    "dir_env \<Rightarrow> unit dask \<Rightarrow> ino_id \<Rightarrow> de_id \<Rightarrow> ino_id \<Rightarrow> de_id \<Rightarrow> rename_flag set \<Rightarrow> fuse_ns \<Rightarrow> (int \<times> fuse_ns) option" where
  "fuse_rename2 env ask olddir oldd newdir newd flags ns =
     (if RENAME_WHITEOUT \<in> flags then Some (- EINVAL, ns)
      else if flags \<noteq> {} then
        (if No_rename2 \<in> fc_bits (nconn ns) \<or> minor (nconn ns) < 23 then Some (- EINVAL, ns)
         else do {
           (err, ns1) \<leftarrow> fuse_rename_common env ask olddir oldd newdir newd flags FUSE_RENAME2 W_rename2_in
             (\<lambda>m. Rename2_in m (RENAME_NOREPLACE \<in> flags) (RENAME_EXCHANGE \<in> flags)) ns;
           Some (if err = - ENOSYS
                 then (- EINVAL, nsb_update (upd_conn (\<lambda>s. s\<lparr>fc_bits := insert No_rename2 (fc_bits s)\<rparr>)) ns1)
                 else (err, ns1))})
      else fuse_rename_common env ask olddir oldd newdir newd {} FUSE_RENAME W_rename_in Rename_in ns)"

subsection \<open>Names invalidated by the server\<close>

text \<open>
  What the dentry cache answers: \<open>d_find_alias\<close>, \<open>d_lookup\<close> (both reference the dentry they return),
  \<open>d_mountpoint\<close>, \<open>simple_empty\<close> after \<open>shrink_dcache_parent\<close>, and whether \<open>d_delete\<close> finds the
  dentry unused, so that it drops the inode.
\<close>

record dcache_env =
  dc_alias :: "ino_id \<Rightarrow> de_id option"
  dc_lookup :: "de_id \<Rightarrow> u8 list \<Rightarrow> de_id option"
  dc_mountpoint :: "de_id \<Rightarrow> bool"
  dc_empty :: "de_id \<Rightarrow> bool"
  dc_unused :: "de_id \<Rightarrow> bool"

definition d_delete :: "dcache_env \<Rightarrow> de_id \<Rightarrow> fuse_ns \<Rightarrow> fuse_ns option" where
  "d_delete dc d ns =
     (case dentry_inode ns d of
        Some i \<Rightarrow> if dc_unused dc d then ns_iput i (upd_dentry d (d_inode_update (\<lambda>_. None)) ns)
                  else Some (d_invalidate d ns)
      | None \<Rightarrow> Some (d_invalidate d ns))"

definition inval_child ::
    "dcache_env \<Rightarrow> de_id \<Rightarrow> ino_id \<Rightarrow> u64 \<Rightarrow> fuse_ns \<Rightarrow> (int \<times> fuse_ns) option" where
  "inval_child dc d i child ns = do {
     v \<leftarrow> inodes (nsb ns) i;
     if nodeid v \<noteq> child then Some (- ENOENT, ns)
     else if dc_mountpoint dc d then Some (- EBUSY, ns)
     else do {
       let isdir = S_ISDIR (i_mode v);
       let ns1 = (if isdir then nsb_update (vfs (Shrink_children d)) ns else ns);
       if isdir \<and> \<not> dc_empty dc d then Some (- ENOTEMPTY, ns1)
       else do {
         let ns2 = (if isdir then nsb_update (upd_inode i (\<lambda>w. w\<lparr>i_flags := insert S_DEAD (i_flags w)\<rparr>)) ns1 else ns1);
         map_option (Pair 0) (d_delete dc d (clear_nlink i (nsb_update (vfs (Dont_mount d)) ns2)))}}}"

definition inval_entry_found ::
    "dcache_env \<Rightarrow> ino_id \<Rightarrow> de_id \<Rightarrow> u64 \<Rightarrow> fuse_ns \<Rightarrow> (int \<times> fuse_ns) option" where
  "inval_entry_found dc p d child ns = do {
     let ns1 = fuse_invalidate_entry d (invalidate_attr p ns);
     (err, ns2) \<leftarrow> (case dentry_inode ns1 d of
         Some i \<Rightarrow> if child \<noteq> 0 then inval_child dc d i child ns1 else Some (0, ns1)
       | None \<Rightarrow> Some (0, ns1));
     Some (err, dput d ns2)}"

definition inval_entry_locked ::
    "dcache_env \<Rightarrow> ino_id \<Rightarrow> u8 list \<Rightarrow> u64 \<Rightarrow> fuse_ns \<Rightarrow> (int \<times> fuse_ns) option" where
  "inval_entry_locked dc p nm child ns = do {
     v \<leftarrow> inodes (nsb ns) p;
     if \<not> S_ISDIR (i_mode v) then Some (- ENOTDIR, ns)
     else (case dc_alias dc p of
         None \<Rightarrow> Some (- ENOENT, ns)
       | Some a \<Rightarrow>
           (case dc_lookup dc a nm of
              None \<Rightarrow> Some (- ENOENT, dput a (dget a ns))
            | Some d \<Rightarrow> inval_entry_found dc p d child (dput a (dget d (dget a ns)))))}"

definition fuse_reverse_inval_entry ::
    "dcache_env \<Rightarrow> u64 \<Rightarrow> u64 \<Rightarrow> u8 list \<Rightarrow> fuse_ns \<Rightarrow> (int \<times> fuse_ns) option" where
  "fuse_reverse_inval_entry dc parent child nm ns =
     (case ilookup5 parent (nsb ns) of
        (None, _) \<Rightarrow> Some (- ENOENT, ns)
      | (Some p, sb1) \<Rightarrow> do {
          (err, ns1) \<leftarrow> inval_entry_locked dc p nm child (set_nsb ns sb1);
          map_option (Pair err) (ns_iput p ns1)})"

subsection \<open>Reading a symbolic link\<close>

text \<open>
  \<open>fuse_get_link\<close>: without a dentry (\<open>rcu\<close>) it fails; the answer is the length the server returned and the
  bytes. The buffer has \<open>PAGE_SIZE\<close> bytes and the zero byte is written after the answer; a longer answer is \<open>None\<close>.
\<close>

definition fuse_get_link ::
    "dir_env \<Rightarrow> oom \<Rightarrow> u8 list dask \<Rightarrow> bool \<Rightarrow> ino_id \<Rightarrow> fuse_ns \<Rightarrow> ((int + u8 list) \<times> fuse_ns) option" where
  "fuse_get_link env ok ask rcu i ns =
     (if rcu then Some (Inl (- ECHILD), ns)
      else if \<not> ok 0 then Some (Inl (- ENOMEM), ns)
      else do {
        n \<leftarrow> node_of ns i;
        (ret, bytes, ns1) \<leftarrow> ask \<lparr>a_opcode = FUSE_READLINK, a_nodeid = n, a_in_args = [], a_out_argvar = True,
            a_out_args = [\<lparr>arg_size = PAGE_SIZE - 1, arg_value = []\<rparr>]\<rparr> ns;
        let ns2 = fuse_invalidate_atime env i ns1;
        if ret < 0 then Some (Inl ret, ns2)
        else if nat ret < PAGE_SIZE then Some (Inr (take (nat ret) bytes @ [0]), ns2)
        else None})"

end
