(* ===== verification/Fuse_Attr.thy ===== *)
theory Fuse_Attr
  imports Fuse_Dir
begin

text \<open>
  Permissions and attributes (\<open>dir.c\<close>): who may use the file system, local and remote permission checks,
  GETATTR with the cached attributes, and SETATTR with truncation, during which writeback of the inode is held.

  \<^item> \<open>ask\<close> is the exchange of a request, as in \<open>Fuse_Dir\<close>.
  \<^item> \<open>generic_permission\<close>, \<open>generic_fillattr\<close> and \<open>setattr_prepare\<close> of the VFS are arguments; the last may change
    the attributes it is given.
  \<^item> \<open>waitq\<close> is what happens while \<open>fuse_set_nowrite\<close> waits for the writes that are under way. A wait that
    does not end is \<open>None\<close>.
\<close>

record cred =
  cr_uid :: u32
  cr_euid :: u32
  cr_suid :: u32
  cr_gid :: u32
  cr_egid :: u32
  cr_sgid :: u32

definition fuse_allow_current_process :: "cred \<Rightarrow> fuse_state \<Rightarrow> bool" where
  "fuse_allow_current_process c s \<longleftrightarrow> Allow_other \<in> fc_bits s \<or>
     (cr_euid c = user_id s \<and> cr_suid c = user_id s \<and> cr_uid c = user_id s \<and>
      cr_egid c = group_id s \<and> cr_sgid c = group_id s \<and> cr_gid c = group_id s)"

subsection \<open>Structures\<close>

datatype may = MAY_EXEC | MAY_WRITE | MAY_READ | MAY_ACCESS | MAY_CHDIR | MAY_NOT_BLOCK

datatype iattr_flag =
    ATTR_MODE | ATTR_UID | ATTR_GID | ATTR_SIZE | ATTR_ATIME | ATTR_MTIME | ATTR_CTIME | ATTR_ATIME_SET
  | ATTR_MTIME_SET | ATTR_FORCE | ATTR_KILL_SUID | ATTR_KILL_SGID | ATTR_FILE | ATTR_OPEN

record iattr =
  ia_valid :: "iattr_flag set"
  ia_mode :: umode
  ia_uid :: u32
  ia_gid :: u32
  ia_size :: u64
  ia_atime :: timespec
  ia_mtime :: timespec
  ia_ctime :: timespec

datatype fattr_flag =
    FATTR_MODE | FATTR_UID | FATTR_GID | FATTR_SIZE | FATTR_ATIME | FATTR_MTIME | FATTR_FH | FATTR_ATIME_NOW
  | FATTR_MTIME_NOW | FATTR_LOCKOWNER | FATTR_CTIME

record fuse_setattr_in =
  sa_valid :: "fattr_flag set"
  sa_fh :: u64
  sa_size :: u64
  sa_lock_owner :: u64
  sa_atime :: timespec
  sa_mtime :: timespec
  sa_ctime :: timespec
  sa_mode :: umode
  sa_uid :: u32
  sa_gid :: u32

datatype attr_msg =
    Getattr_in "u64 option"
  | Setattr_in fuse_setattr_in
  | Access_in "may set"

record fuse_attr_out =
  ao_attr_valid :: u64
  ao_attr_valid_nsec :: u32
  ao_attr :: fuse_attr

record kstat =
  st_ino :: u64
  st_mode :: umode
  st_nlink :: u32
  st_uid :: u32
  st_gid :: u32
  st_rdev :: u32
  st_atime :: timespec
  st_mtime :: timespec
  st_ctime :: timespec
  st_size :: u64
  st_blocks :: u64
  st_blksize :: nat

type_synonym enc_attr = "attr_msg \<Rightarrow> u8 list"

subsection \<open>Getting attributes\<close>

definition i_rdev :: "fuse_inode \<Rightarrow> u32" where
  "i_rdev v = (case i_ops v of Ops_special r \<Rightarrow> r | _ \<Rightarrow> 0)"

definition local_attr :: "fuse_inode \<Rightarrow> fuse_attr \<Rightarrow> fuse_attr" where
  "local_attr v a = a\<lparr>at_size := i_size v, at_mtime := i_mtime v, at_ctime := i_ctime v\<rparr>"

text \<open>\<open>fuse_fillattr\<close>; the device number of the file system is left out.\<close>

definition fuse_fillattr :: "fuse_sb \<Rightarrow> fuse_inode \<Rightarrow> fuse_attr \<Rightarrow> kstat" where
  "fuse_fillattr sb v attr =
     (let a = (if Writeback_cache \<in> fc_bits (conn sb) \<and> S_ISREG (i_mode v) then local_attr v attr else attr);
          blkbits = (if at_blksize a \<noteq> 0 then ilog2 (unat (at_blksize a)) else s_blocksize_bits sb)
      in \<lparr>st_ino = at_ino a, st_mode = (i_mode v AND S_IFMT) OR (attr_umode a AND S_PERM), st_nlink = at_nlink a,
          st_uid = at_uid a, st_gid = at_gid a, st_rdev = i_rdev v, st_atime = at_atime a, st_mtime = at_mtime a,
          st_ctime = at_ctime a, st_size = at_size a, st_blocks = at_blocks a, st_blksize = 2 ^ blkbits\<rparr>)"

definition attr_timeout :: "dir_env \<Rightarrow> fuse_ns \<Rightarrow> fuse_attr_out \<Rightarrow> u64" where
  "attr_timeout env ns out = time_to_jiffies env ns (ao_attr_valid out) (ao_attr_valid_nsec out)"

definition attr_args :: "enc_attr \<Rightarrow> fuse_state \<Rightarrow> fuse_opcode \<Rightarrow> u64 \<Rightarrow> wire \<Rightarrow> attr_msg \<Rightarrow> fuse_args" where
  "attr_args enc s op n w m = \<lparr>a_opcode = op, a_nodeid = n, a_in_args = [\<lparr>arg_size = wire_size s w, arg_value = enc m\<rparr>],
     a_out_argvar = False,
     a_out_args = (if op = FUSE_ACCESS then [] else [\<lparr>arg_size = wire_size s W_attr_out, arg_value = []\<rparr>])\<rparr>"

text \<open>The handle of the file that is sent along for a regular file.\<close>

definition file_handle_of :: "fuse_ns \<Rightarrow> filp_id \<Rightarrow> u64 option" where
  "file_handle_of ns fp = do {
     ff \<leftarrow> file_ff (nconn ns) fp;
     f \<leftarrow> ffs (nconn ns) ff;
     Some (ff_fh f)}"

definition getattr_handle :: "fuse_inode \<Rightarrow> filp_id option \<Rightarrow> fuse_ns \<Rightarrow> u64 option option" where
  "getattr_handle v file ns =
     (case file of
        None \<Rightarrow> Some None
      | Some fp \<Rightarrow> if S_ISREG (i_mode v) then map_option Some (file_handle_of ns fp) else Some None)"

definition attr_type_differs :: "fuse_inode \<Rightarrow> fuse_attr_out \<Rightarrow> bool" where
  "attr_type_differs v out \<longleftrightarrow> (i_mode v XOR attr_umode (ao_attr out)) AND S_IFMT \<noteq> 0"

definition getattr_reply ::
    "dir_env \<Rightarrow> ino_id \<Rightarrow> fuse_attr_out \<Rightarrow> u64 \<Rightarrow> fuse_ns \<Rightarrow> (int \<times> kstat option \<times> fuse_ns) option" where
  "getattr_reply env i out ver ns = do {
     v \<leftarrow> inodes (nsb ns) i;
     if attr_type_differs v out then Some (- EIO, None, nsb_update (make_bad_inode i) ns)
     else do {
       sb \<leftarrow> fuse_change_attributes i (ao_attr out) (attr_timeout env ns out) ver (nsb ns);
       w \<leftarrow> inodes sb i;
       Some (0, Some (fuse_fillattr sb w (ao_attr out)), set_nsb ns sb)}}"

text \<open>\<open>fuse_do_getattr\<close>; a caller without a \<open>struct kstat\<close> ignores the second result.\<close>

definition fuse_do_getattr ::
    "dir_env \<Rightarrow> enc_attr \<Rightarrow> fuse_attr_out dask \<Rightarrow> ino_id \<Rightarrow> filp_id option \<Rightarrow> fuse_ns \<Rightarrow>
      (int \<times> kstat option \<times> fuse_ns) option" where
  "fuse_do_getattr env enc ask i file ns = do {
     v \<leftarrow> inodes (nsb ns) i;
     fh \<leftarrow> getattr_handle v file ns;
     (err, out, ns1) \<leftarrow> ask (attr_args enc (nconn ns) FUSE_GETATTR (nodeid v) W_getattr_in (Getattr_in fh)) ns;
     if err \<noteq> 0 then Some (err, None, ns1)
     else getattr_reply env i out (fuse_get_attr_version (nsb ns)) ns1}"

text \<open>\<open>fuse_update_attributes\<close>: the errno, the attributes, and whether they were fetched.\<close>

definition cached_stat :: "(fuse_inode \<Rightarrow> kstat) \<Rightarrow> fuse_inode \<Rightarrow> kstat" where
  "cached_stat fill v = (fill v)\<lparr>st_mode := orig_i_mode v, st_ino := orig_ino v\<rparr>"

definition fuse_update_attributes ::
    "dir_env \<Rightarrow> enc_attr \<Rightarrow> fuse_attr_out dask \<Rightarrow> (fuse_inode \<Rightarrow> kstat) \<Rightarrow> ino_id \<Rightarrow> filp_id option \<Rightarrow> fuse_ns \<Rightarrow>
      (int \<times> kstat option \<times> bool \<times> fuse_ns) option" where
  "fuse_update_attributes env enc ask fill i file ns = do {
     v \<leftarrow> inodes (nsb ns) i;
     if time_before64 (i_time v) (jiffies ns)
     then map_option (\<lambda>(err, st, ns1). (err, st, True, ns1)) (fuse_do_getattr env enc ask i file (nsb_update (vfs (Forget_acls i)) ns))
     else Some (0, Some (cached_stat fill v), False, ns)}"

definition fuse_getattr ::
    "cred \<Rightarrow> dir_env \<Rightarrow> enc_attr \<Rightarrow> fuse_attr_out dask \<Rightarrow> (fuse_inode \<Rightarrow> kstat) \<Rightarrow> de_id \<Rightarrow> fuse_ns \<Rightarrow>
      (int \<times> kstat option \<times> fuse_ns) option" where
  "fuse_getattr c env enc ask fill d ns = do {
     i \<leftarrow> dentry_inode ns d;
     if \<not> fuse_allow_current_process c (nconn ns) then Some (- EACCES, None, ns)
     else map_option (\<lambda>(err, st, _, ns1). (err, st, ns1)) (fuse_update_attributes env enc ask fill i None ns)}"

subsection \<open>Permissions\<close>

definition fuse_access :: "enc_attr \<Rightarrow> unit dask \<Rightarrow> ino_id \<Rightarrow> may set \<Rightarrow> fuse_ns \<Rightarrow> (int \<times> fuse_ns) option" where
  "fuse_access enc ask i msk ns =
     (if MAY_NOT_BLOCK \<in> msk then None
      else if No_access \<in> fc_bits (nconn ns) then Some (0, ns)
      else do {
        v \<leftarrow> inodes (nsb ns) i;
        (err, _, ns1) \<leftarrow> ask (attr_args enc (nconn ns) FUSE_ACCESS (nodeid v) W_access_in
            (Access_in (msk \<inter> {MAY_READ, MAY_WRITE, MAY_EXEC}))) ns;
        Some (if err = - ENOSYS
              then (0, nsb_update (upd_conn (\<lambda>s. s\<lparr>fc_bits := insert No_access (fc_bits s)\<rparr>)) ns1)
              else (err, ns1))})"

definition fuse_perm_getattr ::
    "dir_env \<Rightarrow> enc_attr \<Rightarrow> fuse_attr_out dask \<Rightarrow> ino_id \<Rightarrow> may set \<Rightarrow> fuse_ns \<Rightarrow> (int \<times> fuse_ns) option" where
  "fuse_perm_getattr env enc ask i msk ns =
     (if MAY_NOT_BLOCK \<in> msk then Some (- ECHILD, ns)
      else map_option (\<lambda>(err, _, ns1). (err, ns1)) (fuse_do_getattr env enc ask i None (nsb_update (vfs (Forget_acls i)) ns)))"

definition S_IXUGO :: umode where "S_IXUGO = 0x49"

text \<open>The first part refreshes attributes that are needed and out of date; the result says whether it did.\<close>

definition permission_refresh ::
    "dir_env \<Rightarrow> enc_attr \<Rightarrow> fuse_attr_out dask \<Rightarrow> ino_id \<Rightarrow> may set \<Rightarrow> fuse_ns \<Rightarrow> (bool \<times> int \<times> fuse_ns) option" where
  "permission_refresh env enc ask i msk ns = do {
     v \<leftarrow> inodes (nsb ns) i;
     if (Default_permissions \<in> fc_bits (nconn ns) \<or> (MAY_EXEC \<in> msk \<and> S_ISREG (i_mode v))) \<and>
        time_before64 (i_time v) (jiffies ns)
     then map_option (Pair True) (fuse_perm_getattr env enc ask i msk ns)
     else Some (False, 0, ns)}"

text \<open>The check against the attributes: of the VFS, or of the execute bits alone.\<close>

definition permission_local ::
    "dir_env \<Rightarrow> enc_attr \<Rightarrow> fuse_attr_out dask \<Rightarrow> (fuse_inode \<Rightarrow> int) \<Rightarrow> bool \<Rightarrow> ino_id \<Rightarrow> may set \<Rightarrow> fuse_ns \<Rightarrow>
      (int \<times> fuse_ns) option" where
  "permission_local env enc ask check refreshed i msk ns = do {
     v \<leftarrow> inodes (nsb ns) i;
     if check v = - EACCES \<and> \<not> refreshed then do {
       (err, ns1) \<leftarrow> fuse_perm_getattr env enc ask i msk ns;
       w \<leftarrow> inodes (nsb ns1) i;
       Some (if err = 0 then check w else err, ns1)}
     else Some (check v, ns)}"

definition exec_check :: "fuse_inode \<Rightarrow> int" where
  "exec_check v = (if i_mode v AND S_IXUGO = 0 then - EACCES else 0)"

definition fuse_permission ::
    "cred \<Rightarrow> dir_env \<Rightarrow> enc_attr \<Rightarrow> fuse_attr_out dask \<Rightarrow> unit dask \<Rightarrow> (may set \<Rightarrow> fuse_inode \<Rightarrow> int) \<Rightarrow> ino_id \<Rightarrow> may set \<Rightarrow>
      fuse_ns \<Rightarrow> (int \<times> fuse_ns) option" where
  "fuse_permission c env enc ask aska gperm i msk ns =
     (if \<not> fuse_allow_current_process c (nconn ns) then Some (- EACCES, ns)
      else do {
        (refreshed, err, ns1) \<leftarrow> permission_refresh env enc ask i msk ns;
        v \<leftarrow> inodes (nsb ns1) i;
        if err \<noteq> 0 then Some (err, ns1)
        else if Default_permissions \<in> fc_bits (nconn ns1)
        then permission_local env enc ask (gperm msk) refreshed i msk ns1
        else if MAY_ACCESS \<in> msk \<or> MAY_CHDIR \<in> msk then fuse_access enc aska i msk ns1
        else if MAY_EXEC \<in> msk \<and> S_ISREG (i_mode v)
        then permission_local env enc ask exec_check refreshed i msk ns1
        else Some (0, ns1)})"

subsection \<open>Setting attributes\<close>

definition update_mtime :: "iattr_flag set \<Rightarrow> bool \<Rightarrow> bool" where
  "update_mtime ivalid trust_local_mtime \<longleftrightarrow>
     (if ATTR_MTIME_SET \<in> ivalid then True
      else if trust_local_mtime then True
      else \<not> (ATTR_SIZE \<in> ivalid \<and> (ATTR_OPEN \<in> ivalid \<or> ATTR_FILE \<in> ivalid)))"

definition fattr_if :: "bool \<Rightarrow> fattr_flag \<Rightarrow> (fuse_setattr_in \<Rightarrow> fuse_setattr_in) \<Rightarrow> fuse_setattr_in \<Rightarrow> fuse_setattr_in" where
  "fattr_if b f g a = (if b then g (a\<lparr>sa_valid := insert f (sa_valid a)\<rparr>) else a)"

definition iattr_to_fattr :: "iattr \<Rightarrow> bool \<Rightarrow> fuse_setattr_in \<Rightarrow> fuse_setattr_in" where
  "iattr_to_fattr ia trust a0 =
     (let iv = ia_valid ia;
          a1 = fattr_if (ATTR_MODE \<in> iv) FATTR_MODE (sa_mode_update (\<lambda>_. ia_mode ia)) a0;
          a2 = fattr_if (ATTR_UID \<in> iv) FATTR_UID (sa_uid_update (\<lambda>_. ia_uid ia)) a1;
          a3 = fattr_if (ATTR_GID \<in> iv) FATTR_GID (sa_gid_update (\<lambda>_. ia_gid ia)) a2;
          a4 = fattr_if (ATTR_SIZE \<in> iv) FATTR_SIZE (sa_size_update (\<lambda>_. ia_size ia)) a3;
          a5 = fattr_if (ATTR_ATIME \<in> iv) FATTR_ATIME (sa_atime_update (\<lambda>_. ia_atime ia)) a4;
          a6 = fattr_if (ATTR_ATIME \<in> iv \<and> ATTR_ATIME_SET \<notin> iv) FATTR_ATIME_NOW (\<lambda>a. a) a5;
          mt = (ATTR_MTIME \<in> iv \<and> update_mtime iv trust);
          a7 = fattr_if mt FATTR_MTIME (sa_mtime_update (\<lambda>_. ia_mtime ia)) a6;
          a8 = fattr_if (mt \<and> ATTR_MTIME_SET \<notin> iv \<and> \<not> trust) FATTR_MTIME_NOW (\<lambda>a. a) a7
      in fattr_if (ATTR_CTIME \<in> iv \<and> trust) FATTR_CTIME (sa_ctime_update (\<lambda>_. ia_ctime ia)) a8)"

definition zero_setattr :: fuse_setattr_in where
  "zero_setattr = \<lparr>sa_valid = {}, sa_fh = 0, sa_size = 0, sa_lock_owner = 0, sa_atime = zero_time, sa_mtime = zero_time,
     sa_ctime = zero_time, sa_mode = 0, sa_uid = 0, sa_gid = 0\<rparr>"

definition fuse_setattr_fill :: "enc_attr \<Rightarrow> fuse_state \<Rightarrow> fuse_inode \<Rightarrow> fuse_setattr_in \<Rightarrow> fuse_args" where
  "fuse_setattr_fill enc s v a = attr_args enc s FUSE_SETATTR (nodeid v) W_setattr_in (Setattr_in a)"

text \<open>\<open>fuse_flush_times\<close>: the times the kernel keeps go to the server.\<close>

definition fuse_flush_times ::
    "enc_attr \<Rightarrow> fuse_attr_out dask \<Rightarrow> ino_id \<Rightarrow> ff_id option \<Rightarrow> fuse_ns \<Rightarrow> (int \<times> fuse_ns) option" where
  "fuse_flush_times enc ask i off ns = do {
     v \<leftarrow> inodes (nsb ns) i;
     fh \<leftarrow> (case off of None \<Rightarrow> Some 0 | Some ff \<Rightarrow> map_option ff_fh (ffs (nconn ns) ff));
     let a1 = fattr_if True FATTR_MTIME (sa_mtime_update (\<lambda>_. i_mtime v)) zero_setattr;
     let a2 = fattr_if (23 \<le> minor (nconn ns)) FATTR_CTIME (sa_ctime_update (\<lambda>_. i_ctime v)) a1;
     let a3 = fattr_if (off \<noteq> None) FATTR_FH (sa_fh_update (\<lambda>_. fh)) a2;
     (err, _, ns1) \<leftarrow> ask (fuse_setattr_fill enc (nconn ns) v a3) ns;
     Some (err, ns1)}"

text \<open>Holding back the writes of the inode, and the bit that says its size is being changed.\<close>

definition fuse_set_nowrite :: "(ino_id \<Rightarrow> fuse_ns \<Rightarrow> fuse_ns option) \<Rightarrow> ino_id \<Rightarrow> fuse_ns \<Rightarrow> fuse_ns option" where
  "fuse_set_nowrite waitq i ns = do {
     wb \<leftarrow> set_nowrite_start i (ns_wb ns);
     ns1 \<leftarrow> waitq i (ns\<lparr>ns_wb := wb\<rparr>);
     if writes_quiet i (ns_wb ns1) then Some ns1 else None}"

definition ns_release_nowrite :: "enc_write \<Rightarrow> wait \<Rightarrow> ino_id \<Rightarrow> fuse_ns \<Rightarrow> fuse_ns option" where
  "ns_release_nowrite encw wait i ns = map_option (\<lambda>wb. ns\<lparr>ns_wb := wb\<rparr>) (fuse_release_nowrite encw wait i (ns_wb ns))"

definition set_size_unstable :: "ino_id \<Rightarrow> fuse_ns \<Rightarrow> fuse_ns" where
  "set_size_unstable i = nsb_update (upd_inode i (\<lambda>v. v\<lparr>fi_state := insert FUSE_I_SIZE_UNSTABLE (fi_state v)\<rparr>))"

text \<open>The parts of the environment \<open>fuse_do_setattr\<close> uses.\<close>

record setattr_env =
  se_env :: dir_env
  se_enc :: enc_attr
  se_ask :: "fuse_attr_out dask"
  se_encw :: enc_write
  se_wait :: wait
  se_waitq :: "ino_id \<Rightarrow> fuse_ns \<Rightarrow> fuse_ns option"
  se_prepare :: "iattr \<Rightarrow> int \<times> iattr"
  se_files :: u64

definition setattr_hold ::
    "setattr_env \<Rightarrow> bool \<Rightarrow> ino_id \<Rightarrow> iattr \<Rightarrow> fuse_ns \<Rightarrow> (iattr \<times> fuse_ns) option" where
  "setattr_hold se trust i attr ns =
     (if ATTR_SIZE \<notin> ia_valid attr then Some (attr, ns)
      else do {
        ns1 \<leftarrow> fuse_set_nowrite (se_waitq se) i ns;
        let ns2 = set_size_unstable i ns1;
        v \<leftarrow> inodes (nsb ns2) i;
        Some (if trust \<and> ia_size attr \<noteq> i_size v then attr\<lparr>ia_valid := ia_valid attr \<union> {ATTR_MTIME, ATTR_CTIME}\<rparr> else attr,
              ns2)})"

definition setattr_inarg ::
    "setattr_env \<Rightarrow> bool \<Rightarrow> iattr \<Rightarrow> filp_id option \<Rightarrow> fuse_ns \<Rightarrow> fuse_setattr_in option" where
  "setattr_inarg se trust attr file ns = do {
     fh \<leftarrow> (case file of None \<Rightarrow> Some 0 | Some fp \<Rightarrow> file_handle_of ns fp);
     let a1 = fattr_if (file \<noteq> None) FATTR_FH (sa_fh_update (\<lambda>_. fh)) (iattr_to_fattr attr trust zero_setattr);
     Some (fattr_if (ATTR_SIZE \<in> ia_valid attr) FATTR_LOCKOWNER
             (sa_lock_owner_update (\<lambda>_. fuse_lock_owner_id (scramble_key (nconn ns)) (se_files se))) a1)}"

definition setattr_error :: "setattr_env \<Rightarrow> bool \<Rightarrow> ino_id \<Rightarrow> fuse_ns \<Rightarrow> fuse_ns option" where
  "setattr_error se trunc i ns = do {
     ns1 \<leftarrow> (if trunc then ns_release_nowrite (se_encw se) (se_wait se) i ns else Some ns);
     Some (clear_state FUSE_I_SIZE_UNSTABLE i ns1)}"

definition setattr_times :: "bool \<Rightarrow> iattr \<Rightarrow> fuse_inode \<Rightarrow> fuse_inode" where
  "setattr_times trust attr v =
     (if trust then v\<lparr>i_mtime := (if ATTR_MTIME \<in> ia_valid attr then ia_mtime attr else i_mtime v),
                      i_ctime := (if ATTR_CTIME \<in> ia_valid attr then ia_ctime attr else i_ctime v)\<rparr> else v)"

text \<open>
  The critical section of a successful reply, up to the release: new attributes, then the size. The result
  has the size before.
\<close>

definition setattr_locked ::
    "setattr_env \<Rightarrow> bool \<Rightarrow> bool \<Rightarrow> bool \<Rightarrow> iattr \<Rightarrow> ino_id \<Rightarrow> fuse_attr_out \<Rightarrow> fuse_ns \<Rightarrow> (u64 \<times> fuse_ns) option" where
  "setattr_locked se is_wb trust trunc attr i out ns = do {
     let sb1 = fuse_change_attributes_common i (ao_attr out) (attr_timeout (se_env se) ns out)
                 (upd_inode i (setattr_times trust attr) (nsb ns));
     v \<leftarrow> inodes sb1 i;
     let sb2 = (if \<not> is_wb \<or> trunc \<or> \<not> S_ISREG (i_mode v)
                then upd_inode i (\<lambda>w. w\<lparr>i_size := at_size (ao_attr out)\<rparr>) sb1 else sb1);
     ns2 \<leftarrow> (if trunc then ns_release_nowrite (se_encw se) (se_wait se) i (set_nsb ns sb2) else Some (set_nsb ns sb2));
     Some (i_size v, ns2)}"

definition setattr_success ::
    "setattr_env \<Rightarrow> bool \<Rightarrow> bool \<Rightarrow> bool \<Rightarrow> iattr \<Rightarrow> ino_id \<Rightarrow> fuse_attr_out \<Rightarrow> fuse_ns \<Rightarrow> fuse_ns option" where
  "setattr_success se is_wb trust trunc attr i out ns = do {
     (oldsize, ns1) \<leftarrow> setattr_locked se is_wb trust trunc attr i out ns;
     v \<leftarrow> inodes (nsb ns1) i;
     let sz = at_size (ao_attr out);
     let ns2 = (if (trunc \<or> \<not> is_wb) \<and> S_ISREG (i_mode v) \<and> oldsize \<noteq> sz
                then nsb_update (vfs (Invalidate_pages2 i) \<circ> vfs (Truncate_pagecache i sz)) ns1 else ns1);
     Some (clear_state FUSE_I_SIZE_UNSTABLE i ns2)}"

definition setattr_send ::
    "setattr_env \<Rightarrow> bool \<Rightarrow> bool \<Rightarrow> iattr \<Rightarrow> filp_id option \<Rightarrow> ino_id \<Rightarrow> fuse_ns \<Rightarrow> (int \<times> fuse_ns) option" where
  "setattr_send se is_wb trust attr0 file i ns = do {
     let trunc = (ATTR_SIZE \<in> ia_valid attr0);
     (attr, ns1) \<leftarrow> setattr_hold se trust i attr0 ns;
     v \<leftarrow> inodes (nsb ns1) i;
     a \<leftarrow> setattr_inarg se trust attr file ns1;
     (err, out, ns2) \<leftarrow> se_ask se (fuse_setattr_fill (se_enc se) (nconn ns1) v a) ns1;
     w \<leftarrow> inodes (nsb ns2) i;
     if err \<noteq> 0 then map_option (Pair err) (setattr_error se trunc i (if err = - EINTR then invalidate_attr i ns2 else ns2))
     else if attr_type_differs w out
     then map_option (Pair (- EIO)) (setattr_error se trunc i (nsb_update (make_bad_inode i) ns2))
     else map_option (Pair 0) (setattr_success se is_wb trust trunc attr i out ns2)}"

definition fuse_do_setattr ::
    "setattr_env \<Rightarrow> de_id \<Rightarrow> iattr \<Rightarrow> filp_id option \<Rightarrow> fuse_ns \<Rightarrow> (int \<times> fuse_ns) option" where
  "fuse_do_setattr se d attr file ns = do {
     i \<leftarrow> dentry_inode ns d;
     v \<leftarrow> inodes (nsb ns) i;
     let s = nconn ns;
     let is_wb = (Writeback_cache \<in> fc_bits s);
     let trust = (is_wb \<and> S_ISREG (i_mode v));
     let (err, attr1) = se_prepare se (if Default_permissions \<in> fc_bits s then attr
                                       else attr\<lparr>ia_valid := insert ATTR_FORCE (ia_valid attr)\<rparr>);
     if err \<noteq> 0 then Some (err, ns)
     else if ATTR_OPEN \<in> ia_valid attr1 \<and> Atomic_o_trunc \<in> fc_bits s then Some (0, ns)
     else setattr_send se is_wb trust attr1 (if ATTR_OPEN \<in> ia_valid attr1 then None else file) i ns}"

text \<open>
  \<open>fuse_setattr\<close>: \<open>kill_mode\<close> recalculates the mode from fresh attributes when suid and sgid have to go. The
  file is \<open>ia_file\<close> of the attributes.
\<close>

definition S_ISUID :: umode where "S_ISUID = 0x800"
definition S_ISGID :: umode where "S_ISGID = 0x400"
definition S_IXGRP :: umode where "S_IXGRP = 0x8"

definition kill_mode :: "umode \<Rightarrow> iattr \<Rightarrow> iattr" where
  "kill_mode m attr =
     (let a1 = attr\<lparr>ia_mode := m\<rparr>;
          a2 = (if m AND S_ISUID \<noteq> 0
                then a1\<lparr>ia_valid := insert ATTR_MODE (ia_valid a1), ia_mode := ia_mode a1 AND NOT S_ISUID\<rparr> else a1)
      in if m AND (S_ISGID OR S_IXGRP) = S_ISGID OR S_IXGRP
         then a2\<lparr>ia_valid := insert ATTR_MODE (ia_valid a2), ia_mode := ia_mode a2 AND NOT S_ISGID\<rparr> else a2)"

definition setattr_kill ::
    "setattr_env \<Rightarrow> ino_id \<Rightarrow> iattr \<Rightarrow> filp_id option \<Rightarrow> fuse_ns \<Rightarrow> (int \<times> iattr \<times> fuse_ns) option" where
  "setattr_kill se i attr file ns =
     (if ATTR_KILL_SUID \<notin> ia_valid attr \<and> ATTR_KILL_SGID \<notin> ia_valid attr then Some (0, attr, ns)
      else
        let attr1 = attr\<lparr>ia_valid := ia_valid attr - {ATTR_KILL_SUID, ATTR_KILL_SGID, ATTR_MODE}\<rparr> in
        if Handle_killpriv \<in> fc_bits (nconn ns) then Some (0, attr1, ns)
        else do {
          (err, _, ns1) \<leftarrow> fuse_do_getattr (se_env se) (se_enc se) (se_ask se) i file ns;
          v \<leftarrow> inodes (nsb ns1) i;
          Some (err, if err = 0 then kill_mode (i_mode v) attr1 else attr1, ns1)})"

definition setattr_done :: "de_id \<Rightarrow> ino_id \<Rightarrow> iattr \<Rightarrow> fuse_ns \<Rightarrow> fuse_ns option" where
  "setattr_done d i attr ns = do {
     v \<leftarrow> inodes (nsb ns) i;
     let ns1 = (if Posix_acl \<in> fc_bits (nconn ns) then nsb_update (vfs (Forget_acls i)) ns else ns);
     Some (if S_ISDIR (i_mode v) \<and> ATTR_MODE \<in> ia_valid attr then fuse_invalidate_entry_cache d ns1 else ns1)}"

definition fuse_setattr ::
    "cred \<Rightarrow> setattr_env \<Rightarrow> de_id \<Rightarrow> iattr \<Rightarrow> filp_id option \<Rightarrow> fuse_ns \<Rightarrow> (int \<times> fuse_ns) option" where
  "fuse_setattr c se d attr ia_file ns = do {
     i \<leftarrow> dentry_inode ns d;
     let file = (if ATTR_FILE \<in> ia_valid attr then ia_file else None);
     if \<not> fuse_allow_current_process c (nconn ns) then Some (- EACCES, ns)
     else do {
       (err, attr1, ns1) \<leftarrow> setattr_kill se i attr file ns;
       if err \<noteq> 0 then Some (err, ns1)
       else if ia_valid attr1 = {} then Some (0, ns1)
       else do {
         (ret, ns2) \<leftarrow> fuse_do_setattr se d attr1 file ns1;
         if ret = 0 then map_option (Pair 0) (setattr_done d i attr1 ns2) else Some (ret, ns2)}}}"

end
