(* ===== verification/Fuse_Dir_Correct.thy ===== *)
theory Fuse_Dir_Correct
  imports Fuse_Dir
begin

text \<open>
  The lookup counts through the directory operations. \<open>balanced E ns\<close> says that for every node the lookups
  the server has counted are those the inodes hold, those the queued FORGETs carry, and those of the replies
  \<open>E\<close> that are in hand. The locale \<open>exchange\<close> is the contract of a request: a reply that names nodes puts them
  in hand, and whatever other threads do meanwhile keeps the balance. An operation has to end with nothing in
  hand. It is interpreted on \<open>fuse_simple_request\<close> of the model with any server.
\<close>

definition balanced :: "u64 list \<Rightarrow> fuse_ns \<Rightarrow> bool" where
  "balanced E ns \<longleftrightarrow> sb_inv (nsb ns) \<and> telling (nsb ns) \<and>
     (\<forall>n. lookups n (nsb ns) + of_nat (count_list E n) = srv_lookups ns n)"

lemma balanced_cong:
  assumes "nsb ns' = nsb ns" and "srv_lookups ns' = srv_lookups ns"
  shows "balanced E ns' = balanced E ns"
  using assms by (simp add: balanced_def)

lemma nsb_set [simp]: "nsb (set_nsb ns sb) = sb" "nsb (nsb_update f ns) = f (nsb ns)"
    "srv_lookups (set_nsb ns sb) = srv_lookups ns" "srv_lookups (nsb_update f ns) = srv_lookups ns"
    "dcache (set_nsb ns sb) = dcache ns" "dcache (nsb_update f ns) = dcache ns"
    "jiffies (set_nsb ns sb) = jiffies ns" "jiffies (nsb_update f ns) = jiffies ns"
  by (simp_all add: set_nsb_def nsb_update_def)

lemma nsb_upd_dentry [simp]: "nsb (upd_dentry d f ns) = nsb ns" "srv_lookups (upd_dentry d f ns) = srv_lookups ns"
  by (simp_all add: upd_dentry_def)

lemma balanced_upd_dentry [simp]: "balanced E (upd_dentry d f ns) = balanced E ns"
  by (rule balanced_cong) simp_all

lemma balanced_dentry [simp]:
  "balanced E (dget d ns) = balanced E ns" "balanced E (dput d ns) = balanced E ns"
  "balanced E (d_instantiate d i ns) = balanced E ns" "balanced E (d_invalidate d ns) = balanced E ns"
  "balanced E (d_add d oi ns) = balanced E ns" "balanced E (d_move a d ns) = balanced E ns"
  "balanced E (fuse_dentry_settime d t ns) = balanced E ns"
  "balanced E (fuse_change_entry_timeout env d out ns) = balanced E ns"
  "balanced E (fuse_invalidate_entry_cache d ns) = balanced E ns"
  "balanced E (fuse_invalidate_entry d ns) = balanced E ns"
  by (simp_all add: dget_def dput_def d_instantiate_def d_invalidate_def d_add_def d_move_def fuse_dentry_settime_def
      fuse_change_entry_timeout_def fuse_invalidate_entry_cache_def fuse_invalidate_entry_def split: option.split)

text \<open>A change of one inode that keeps its node, its references, its type and its lookup count.\<close>

definition count_free :: "(fuse_inode \<Rightarrow> fuse_inode) \<Rightarrow> bool" where
  "count_free f \<longleftrightarrow> tame f \<and> (\<forall>v. nlookup (f v) = nlookup v)"

lemma count_freeI:
  assumes "\<And>v. nodeid (f v) = nodeid v" and "\<And>v. i_count (f v) = i_count v" and "\<And>v. i_ops (f v) = i_ops v"
    and "\<And>v. i_mode (f v) = i_mode v" and "\<And>v. nlookup (f v) = nlookup v"
  shows "count_free f"
  unfolding count_free_def using assms by (intro conjI tame_simple) simp_all

lemma balanced_upd_inode: "count_free f \<Longrightarrow> balanced E ns \<Longrightarrow> balanced E (nsb_update (upd_inode i f) ns)"
  using sb_inv_tame [of "nsb ns" f i] sb_invD(1) [of "nsb ns"]
  by (simp add: balanced_def count_free_def telling_def tame_def)

definition same_forgets :: "fuse_state \<Rightarrow> fuse_state \<Rightarrow> bool" where
  "same_forgets s s' \<longleftrightarrow> iq_connected (iq s') = iq_connected (iq s) \<and> forget_list (iq s') = forget_list (iq s)"

lemma balanced_conn:
  assumes "balanced E ns" and "same_forgets (nconn ns) (f (nconn ns))"
  shows "balanced E (nsb_update (upd_conn f) ns)"
  using assms by (simp add: balanced_def telling_def lookups_def same_forgets_def)

lemma balanced_vfs [simp]: "balanced E (nsb_update (vfs c) ns) = balanced E ns"
  by (simp add: balanced_def telling_def)

lemma nsb_update_comp: "nsb_update (\<lambda>sb. f (g sb)) ns = nsb_update f (nsb_update g ns)"
  by (simp add: nsb_update_def)

lemma balanced_invalidate [simp]: "balanced E ns \<Longrightarrow> balanced E (invalidate_attr i ns)"
  unfolding invalidate_attr_def fuse_invalidate_attr_def [abs_def]
  by (rule balanced_upd_inode) (simp_all add: count_freeI)

lemma balanced_state [simp]:
  assumes "balanced E ns"
  shows "balanced E (fuse_advise_use_readdirplus i ns)" and "balanced E (clear_state b i ns)" and "balanced E (clear_nlink i ns)"
    and "balanced E (fuse_invalidate_atime env i ns)"
  unfolding fuse_advise_use_readdirplus_def clear_state_def clear_nlink_def fuse_invalidate_atime_def using assms
  by (auto intro!: balanced_upd_inode count_freeI)

lemma balanced_ctime:
  assumes "fuse_update_ctime env i ns = Some ns'" and "balanced E ns"
  shows "balanced E ns'"
proof -
  have "mark_dirty_ctime env i = (\<lambda>sb. vfs (Mark_dirty_sync i) (upd_inode i (\<lambda>v. v\<lparr>i_ctime := cur_time env\<rparr>) sb))"
    by (simp add: mark_dirty_ctime_def fun_eq_iff)
  then show ?thesis
    using assms by (auto simp: fuse_update_ctime_def nsb_update_comp elim!: bind_Some_E intro!: balanced_upd_inode count_freeI)
qed

lemma balanced_relink [simp]: "balanced E ns \<Longrightarrow> balanced E (nsb_update (relink f i) ns)"
proof -
  assume b: "balanced E ns"
  let ?ver = "attr_version (nconn ns) + 1"
  have "nsb_update (relink f i) ns = nsb_update (upd_inode i (\<lambda>v. v\<lparr>fi_attr_version := ?ver, i_nlink := f (i_nlink v)\<rparr>))
      (nsb_update (upd_conn (\<lambda>s. s\<lparr>attr_version := ?ver\<rparr>)) ns)"
    by (simp add: nsb_update_def relink_def Let_def)
  also have "balanced E \<dots>"
    by (intro balanced_upd_inode balanced_conn count_freeI b) (simp_all add: same_forgets_def)
  finally show ?thesis .
qed

lemma balanced_iput:
  assumes "ns_iput i ns = Some ns'" and "balanced E ns"
  shows "balanced E ns'"
  using assms iput_spec [of "nsb ns" i] by (auto simp: ns_iput_def balanced_def)

text \<open>The ways a reply leaves the hand: an inode takes its lookup, or a FORGET is queued.\<close>

lemma balanced_forget:
  assumes "balanced (n # E) ns"
  shows "balanced E (queue_forget n ns)"
proof -
  have c: "iq_connected (iq (nconn ns))" using assms by (simp add: balanced_def telling_def)
  show ?thesis
    using assms forget_queued [OF c, of n 1]
    by (auto simp: balanced_def telling_def queue_forget_def lookups_def algebra_simps split: if_split_asm)
qed

lemma balanced_iget:
  assumes b: "balanced (eo_nodeid out # E) ns" and "fuse_valid_type (attr_umode (eo_attr out))"
  obtains found ns' where "entry_iget env ok out ver ns = Some (found, ns')"
    and "balanced (if found = None then eo_nodeid out # E else E) ns'"
    and "found = None \<Longrightarrow> \<not> (ok 0 \<and> ok 1)"
    and "\<And>i. found = Some i \<Longrightarrow> node_of ns' i = Some (eo_nodeid out)"
proof -
  obtain f sb' where r: "fuse_iget ok (eo_nodeid out) (ucast (eo_generation out)) (eo_attr out)
        (entry_attr_timeout env ns out) ver (nsb ns) = Some (f, sb')" "sb_inv sb'" "s_active sb' = s_active (nsb ns)"
      "iq (conn sb') = iq (nconn ns)"
    and c: "case f of None \<Rightarrow> \<not> (ok 0 \<and> ok 1) \<and> (\<forall>m. lookups m sb' = lookups m (nsb ns))
      | Some i \<Rightarrow> ihash sb' (eo_nodeid out) = Some i \<and> (\<exists>v. inodes sb' i = Some v \<and> nodeid v = eo_nodeid out \<and>
          i_mode v AND S_IFMT = attr_umode (eo_attr out) AND S_IFMT) \<and>
          (\<forall>m. lookups m sb' = lookups m (nsb ns) + (if m = eo_nodeid out then 1 else 0))"
    using fuse_iget_spec [OF _ assms(2), of "nsb ns" ok "eo_nodeid out" "ucast (eo_generation out)" "entry_attr_timeout env ns out" ver] b
    unfolding balanced_def by blast
  show thesis
  proof (rule that)
    show "entry_iget env ok out ver ns = Some (f, set_nsb ns sb')" using r(1) by (simp add: entry_iget_def)
    show "balanced (if f = None then eo_nodeid out # E else E) (set_nsb ns sb')"
      using b r(2-4) c by (cases f) (auto simp: balanced_def telling_def algebra_simps split: if_split_asm)
    show "\<not> (ok 0 \<and> ok 1)" if "f = None" using that c by simp
    show "node_of (set_nsb ns sb') i = Some (eo_nodeid out)" if "f = Some i" for i using that c by (auto simp: node_of_def)
  qed
qed

lemma balanced_inc:
  assumes "balanced (n # E) ns" and "inodes (nsb ns) i = Some v" and "nodeid v = n"
  shows "balanced E (inc_nlookup i ns)"
proof -
  have s: "sb_inv (nsb ns)" using assms(1) by (simp add: balanced_def)
  have "tame (\<lambda>v. v\<lparr>nlookup := nlookup v + 1\<rparr>)" by simp
  from sb_inv_tame [OF s this, of i] have "sb_inv (upd_inode i (\<lambda>v. v\<lparr>nlookup := nlookup v + 1\<rparr>) (nsb ns))" .
  moreover have "lookups m (upd_inode i (\<lambda>v. v\<lparr>nlookup := nlookup v + 1\<rparr>) (nsb ns)) =
      lookups m (nsb ns) + (if m = n then 1 else 0)" for m
    using held_upd [OF sb_invD(1) [OF s], of m i "Some (v\<lparr>nlookup := nlookup v + 1\<rparr>)"] assms(2,3)
    by (simp add: lookups_def)
  ultimately show ?thesis
    using assms(1) by (auto simp: balanced_def inc_nlookup_def telling_def algebra_simps split: if_split_asm)
qed

lemma balanced_attributes:
  assumes "refresh_attributes env i out ver ns = Some ns'" and "balanced E ns"
  shows "balanced E ns'"
proof -
  obtain sb where run: "fuse_change_attributes i (eo_attr out) (entry_attr_timeout env ns out) ver (vfs (Forget_acls i) (nsb ns)) = Some sb"
      and ns': "ns' = set_nsb ns sb"
    using assms(1) by (auto simp: refresh_attributes_def)
  from run obtain v where v: "inodes (vfs (Forget_acls i) (nsb ns)) i = Some v" by (auto simp: fuse_change_attributes_def split: option.split_asm)
  from change_attributes_spec [OF _ v, of "eo_attr out" "entry_attr_timeout env ns out" ver] run assms(2) ns'
  show ?thesis by (auto simp: balanced_def telling_def)
qed

subsection \<open>The contract of a request\<close>

locale exchange =
  fixes ask :: "'o dask" and names :: "'o \<Rightarrow> u64 list"
  assumes asked: "\<not> a_out_argvar args \<Longrightarrow> balanced E ns \<Longrightarrow> ask args ns = Some (err, out, ns') \<Longrightarrow>
    balanced ((if err = 0 then names out else []) @ E) ns'"

definition entry_names :: "fuse_entry_out \<Rightarrow> u64 list" where
  "entry_names out = (if eo_nodeid out = 0 then [] else [eo_nodeid out])"

text \<open>What an operation may leave: with \<open>-EIO\<close>, one lookup of a reply it refused.\<close>

definition settled :: "u64 list \<Rightarrow> int \<Rightarrow> fuse_ns \<Rightarrow> bool" where
  "settled E err ns \<longleftrightarrow> (\<exists>L. balanced (L @ E) ns \<and> length L \<le> (if err = - EIO then 1 else 0))"

lemma settled_balanced: "balanced E ns \<Longrightarrow> settled E err ns"
  unfolding settled_def by (intro exI [of _ "[]"]) simp

lemma settled_one: "balanced (n # E) ns \<Longrightarrow> settled E (- EIO) ns"
  unfolding settled_def by (intro exI [of _ "[n]"]) simp

lemma settled_other: "settled E err ns \<Longrightarrow> err \<noteq> - EIO \<Longrightarrow> balanced E ns"
  by (auto simp: settled_def)

text \<open>The result of \<open>ERR_PTR\<close> as an errno.\<close>

definition errno_of :: "int + 'a \<Rightarrow> int" where
  "errno_of r = (case r of Inl e \<Rightarrow> e | Inr _ \<Rightarrow> 0)"

lemma balanced_splice:
  assumes "d_splice_alias sp oi d ns = Some (res, ns')" and "balanced E ns"
  shows "balanced E ns'"
  using assms balanced_iput by (auto simp: d_splice_alias_def split: option.split_asm splice.split_asm)

lemma balanced_lookup_add:
  assumes "lookup_add env sp dir d out found ns = Some (res, ns')" and "balanced E ns"
  shows "balanced E ns'"
  using assms balanced_splice
  by (auto simp: lookup_add_def Let_def elim!: bind_Some_E split: sum.split_asm option.split_asm)

lemma valid_of_type: "\<not> type_differs out m \<Longrightarrow> fuse_valid_type m \<Longrightarrow> fuse_valid_type (attr_umode (eo_attr out))"
  using type_cong(5) [of "attr_umode (eo_attr out)" m] by (simp add: type_differs_def type_xor)

locale entry_exchange = exchange ask entry_names for ask :: "fuse_entry_out dask"

context entry_exchange begin

lemma entry_asked:
  assumes "\<not> a_out_argvar args" and "balanced E ns" and "ask args ns = Some (err, out, ns')"
  shows "err \<noteq> 0 \<or> eo_nodeid out = 0 \<Longrightarrow> balanced E ns'"
    and "err = 0 \<Longrightarrow> eo_nodeid out \<noteq> 0 \<Longrightarrow> balanced (eo_nodeid out # E) ns'"
  using asked [OF assms] by (auto simp: entry_names_def split: if_split_asm)

lemma lookup_name_settled:
  assumes run: "fuse_lookup_name env ok ask n nm ns = Some (err, out, found, ns')" and b: "balanced E ns"
  shows "settled E err ns'" and "found \<noteq> None \<Longrightarrow> err = 0"
proof -
  have "settled E err ns' \<and> (found \<noteq> None \<longrightarrow> err = 0)"
  proof (cases "FUSE_NAME_MAX < length nm \<or> \<not> ok 0")
    case True
    then show ?thesis using run b by (auto simp: fuse_lookup_name_def settled_balanced split: if_split_asm)
  next
    case False
    let ?args = "fuse_lookup_init (nconn ns) n nm"
    obtain e o' ns1 where a: "ask ?args ns = Some (e, o', ns1)"
      using run False by (auto simp: fuse_lookup_name_def Let_def elim!: bind_Some_E)
    have nv: "\<not> a_out_argvar ?args" by (simp add: fuse_lookup_init_def)
    note h = entry_asked [OF nv b a]
    consider "e \<noteq> 0 \<or> eo_nodeid o' = 0" | "e = 0" "eo_nodeid o' \<noteq> 0" "\<not> fuse_valid_type (attr_umode (eo_attr o'))"
      | "e = 0" "eo_nodeid o' \<noteq> 0" "fuse_valid_type (attr_umode (eo_attr o'))" by blast
    then show ?thesis
    proof cases
      case 1
      then show ?thesis using run False a h(1) by (auto simp: fuse_lookup_name_def Let_def settled_balanced)
    next
      case 2
      then show ?thesis using run False a settled_one [OF h(2)] by (auto simp: fuse_lookup_name_def Let_def)
    next
      case 3
      from balanced_iget [OF h(2) [OF 3(1,2)] 3(3)] obtain f ns2 where
        "entry_iget env (\<lambda>k. ok (Suc k)) o' (fuse_get_attr_version (nsb ns)) ns1 = Some (f, ns2)"
        "balanced (if f = None then eo_nodeid o' # E else E) ns2" by metis
      then show ?thesis using run False a 3
        by (cases f) (auto simp: fuse_lookup_name_def Let_def intro!: settled_balanced balanced_forget)
    qed
  qed
  then show "settled E err ns'" and "found \<noteq> None \<Longrightarrow> err = 0" by blast+
qed

lemma lookup_settled:
  assumes run: "fuse_lookup env ok ask sp dir d ns = Some (res, ns')" and b: "balanced E ns"
  shows "settled E (errno_of res) ns'"
proof -
  from run obtain n e x where n: "node_of ns dir = Some n" and e: "dcache ns d = Some e"
    and x: "fuse_lookup_name env ok ask n (d_name e) ns = Some x"
    by (auto simp: fuse_lookup_def elim!: bind_Some_E)
  obtain err out found ns1 where x': "x = (err, out, found, ns1)" by (cases x)
  have name: "fuse_lookup_name env ok ask n (d_name e) ns = Some (err, out, found, ns1)" using x x' by simp
  have rest: "(if err \<noteq> 0 \<and> err \<noteq> - ENOENT then Some (Inl err, ns1)
     else (case found of
         None \<Rightarrow> lookup_add env sp dir d (if err = 0 then out else None) None ns1
       | Some i \<Rightarrow> do {
           m \<leftarrow> node_of ns1 i;
           if m = 1 then map_option (Pair (Inl (- EIO))) (ns_iput i ns1)
           else lookup_add env sp dir d out (Some i) ns1})) = Some (res, ns')"
    using run n e name by (simp add: fuse_lookup_def)
  note s = lookup_name_settled [OF name b]
  show ?thesis
  proof (cases "err \<noteq> 0 \<and> err \<noteq> - ENOENT")
    case True
    then show ?thesis using rest s(1) by (auto simp: errno_of_def)
  next
    case False
    then have "balanced E ns1" using settled_other [OF s(1)] by (auto simp: errno_defs)
    then show ?thesis using rest False
      by (auto simp: balanced_iput elim!: bind_Some_E intro!: settled_balanced dest: balanced_lookup_add
          split: option.split_asm if_split_asm)
  qed
qed

lemma revalidate_balanced:
  assumes run: "fuse_dentry_revalidate env ok ask d flags ns = Some (r, ns')" and b: "balanced E ns"
  shows "balanced E ns'"
proof (cases "\<exists>e i. revalidate_request env ok ask d e i ns = Some (r, ns')")
  case True
  then obtain e i where req: "revalidate_request env ok ask d e i ns = Some (r, ns')" by blast
  show ?thesis
  proof (cases "ok 0")
    case False
    then show ?thesis using req b by (simp add: revalidate_request_def)
  next
    case True
    from req True obtain p n err out ns1
      where a: "ask (fuse_lookup_init (nconn ns) n (d_name e)) (dget (d_parent e) ns) = Some (err, out, ns1)"
        and p: "dentry_inode ns (d_parent e) = Some p" "node_of ns p = Some n"
      by (auto simp: revalidate_request_def Let_def elim!: bind_Some_E)
    have nv: "\<not> a_out_argvar (fuse_lookup_init (nconn ns) n (d_name e))" by (simp add: fuse_lookup_init_def)
    have "balanced E (dget (d_parent e) ns)" using b by simp
    note h = entry_asked [OF nv this a]
    show ?thesis
    proof (cases "err = 0 \<and> eo_nodeid out \<noteq> 0")
      case False
      then have "balanced E ns1" using h(1) by blast
      then show ?thesis using req True a p False
        by (auto simp: revalidate_request_def Let_def errno_defs split: if_split_asm)
    next
      case hand: True
      then have h1: "balanced (eo_nodeid out # E) (dput (d_parent e) ns1)" using h(2) by simp
      from req True a p hand obtain v where v: "inodes (nsb ns1) i = Some v"
        by (auto simp: revalidate_request_def Let_def errno_defs dput_def elim!: bind_Some_E split: if_split_asm)
      show ?thesis
      proof (cases "eo_nodeid out = nodeid v")
        case False
        then show ?thesis using req True a p hand v balanced_forget [OF h1]
          by (auto simp: revalidate_request_def Let_def errno_defs dput_def)
      next
        case same: True
        have "balanced E (inc_nlookup i (dput (d_parent e) ns1))"
          by (rule balanced_inc [OF h1]) (use v same in \<open>simp_all add: dput_def\<close>)
        then show ?thesis using req True a p hand v same
          by (auto simp: revalidate_request_def Let_def errno_defs dput_def elim!: bind_Some_E
              dest: balanced_attributes split: if_split_asm)
      qed
    qed
  qed
next
  case False
  then show ?thesis using run b
    by (auto simp: fuse_dentry_revalidate_def revalidate_cached_def elim!: bind_Some_E split: if_split_asm option.split_asm)
qed

lemma new_entry_settled:
  assumes run: "create_new_entry env ok ask inst args dir d mode ns = Some (err, ns')" and b: "balanced E ns"
    and v: "fuse_valid_type mode" and nv: "\<not> a_out_argvar args"
  shows "settled E err ns'"
proof (cases "ok 0")
  case False
  then show ?thesis using run b by (simp add: create_new_entry_def settled_balanced)
next
  case True
  from run True obtain n e out ns1 where n: "node_of ns dir = Some n"
    and a: "ask (args\<lparr>a_nodeid := n, a_out_args := [entry_arg (nconn ns)]\<rparr>) ns = Some (e, out, ns1)"
    by (auto simp: create_new_entry_def elim!: bind_Some_E)
  have nv': "\<not> a_out_argvar (args\<lparr>a_nodeid := n, a_out_args := [entry_arg (nconn ns)]\<rparr>)" using nv by simp
  note h = entry_asked [OF nv' b a]
  consider "e \<noteq> 0" | "e = 0" "eo_nodeid out = 0" | "e = 0" "eo_nodeid out \<noteq> 0" "invalid_nodeid (eo_nodeid out) \<or> type_differs out mode"
    | "e = 0" "eo_nodeid out \<noteq> 0" "\<not> invalid_nodeid (eo_nodeid out)" "\<not> type_differs out mode" by blast
  then show ?thesis
  proof cases
    case 1
    then show ?thesis using run True n a h(1) by (auto simp: create_new_entry_def intro: settled_balanced)
  next
    case 2
    then show ?thesis using run True n a h(1) by (auto simp: create_new_entry_def invalid_nodeid_def intro: settled_balanced)
  next
    case 3
    then have "settled E (- EIO) ns1" using settled_one h(2) by blast
    moreover have "err = - EIO" "ns' = ns1" using run True n a 3 by (auto simp: create_new_entry_def split: if_split_asm)
    ultimately show ?thesis by simp
  next
    case 4
    from balanced_iget [OF h(2) [OF 4(1,2)] valid_of_type [OF 4(4) v]] obtain f ns2 where
      "entry_iget env (\<lambda>k. ok (Suc k)) out 0 ns1 = Some (f, ns2)" "balanced (if f = None then eo_nodeid out # E else E) ns2" by metis
    then show ?thesis using run True n a 4 balanced_iput
      by (cases f) (auto simp: create_new_entry_def new_entry_found_def intro!: settled_balanced balanced_forget split: if_split_asm)
  qed
qed

end

subsection \<open>Files opened at their creation\<close>

text \<open>
  While a RELEASE is waited for the connection stays, and no FORGET is read: a FORGET that is read leaves both sides
  of the balance.
\<close>

definition quiet_wait :: "wait \<Rightarrow> bool" where
  "quiet_wait wait \<longleftrightarrow> (\<forall>r ph s s'. wait r ph s = Some s' \<longrightarrow> same_forgets s s')"

lemma same_forgets_refl [simp]: "same_forgets s s"
  by (simp add: same_forgets_def)

lemma same_forgets_trans: "same_forgets s t \<Longrightarrow> same_forgets t u \<Longrightarrow> same_forgets s u"
  by (simp add: same_forgets_def)

lemma same_forgets_iq: "iq s' = iq s \<Longrightarrow> same_forgets s s'"
  by (simp add: same_forgets_def)

lemma same_forgets_put: "fuse_put_request s r = Some s' \<Longrightarrow> same_forgets s s'"
  by (rule same_forgets_iq)
    (auto simp: fuse_put_request_def put_last_ref_def put_reserved_req_def fuse_request_free_def waiting_dec_def Let_def
      elim!: bind_Some_E split: option.split_asm if_split_asm)

lemma same_forgets_send: "fuse_request_send s r = Some (ph, s') \<Longrightarrow> same_forgets s s'"
  by (auto simp: fuse_request_send_def mark_waiting_def request_send_start_def get_request_def waiting_inc_def same_forgets_def
      elim!: bind_Some_E split: option.split_asm if_split_asm)

lemma same_forgets_alloc: "fuse_file_alloc ok s = (found, s') \<Longrightarrow> same_forgets s s'"
  by (rule same_forgets_iq)
    (auto simp: fuse_file_alloc_def fuse_request_alloc_def Let_def split: option.split_asm if_split_asm)

lemma same_forgets_free: "fuse_file_free s ff = Some s' \<Longrightarrow> same_forgets s s'"
  by (rule same_forgets_iq)
    (auto simp: fuse_file_free_def fuse_request_free_def elim!: bind_Some_E split: option.split_asm)

lemma balanced_conn_do:
  assumes "ns_conn_do f ns = Some ns'" and "balanced E ns" and "\<And>s. f (nconn ns) = Some s \<Longrightarrow> same_forgets (nconn ns) s"
  shows "balanced E ns'"
  using assms by (auto simp: ns_conn_do_def intro!: balanced_conn)

text \<open>Changes of the file system that keep every lookup where it is.\<close>

definition calm :: "fuse_sb \<Rightarrow> fuse_sb \<Rightarrow> bool" where
  "calm sb sb' \<longleftrightarrow> (sb_inv sb \<longrightarrow> sb_inv sb' \<and> (\<forall>n. lookups n sb' = lookups n sb)) \<and> s_active sb' = s_active sb \<and>
     same_forgets (conn sb) (conn sb')"

lemma calm_refl [simp]: "calm sb sb"
  by (simp add: calm_def)

lemma calm_trans: "calm sb sb1 \<Longrightarrow> calm sb1 sb2 \<Longrightarrow> calm sb sb2"
  by (auto simp: calm_def same_forgets_def)

lemma calm_vfs [simp]: "calm sb (vfs c t) = calm sb t"
  by (simp add: calm_def)

lemma calm_conn: "same_forgets (conn sb) c \<Longrightarrow> calm sb (sb\<lparr>conn := c\<rparr>)"
  by (auto simp: calm_def lookups_def same_forgets_def)

lemma calm_upd_conn: "same_forgets (conn sb) (f (conn sb)) \<Longrightarrow> calm sb (upd_conn f sb)"
  unfolding upd_conn_def by (rule calm_conn)

lemma calm_upd_inode: "count_free f \<Longrightarrow> calm sb (upd_inode i f sb)"
  by (auto simp: calm_def count_free_def sb_inv_tame sb_invD(1) tame_def)

lemma balanced_calm: "balanced E ns \<Longrightarrow> calm (nsb ns) sb \<Longrightarrow> balanced E (set_nsb ns sb)"
  by (auto simp: balanced_def calm_def telling_def same_forgets_def)

lemma held_all:
  assumes "count_free f"
  shows "held_lookups n (\<lambda>i. map_option f (m i)) = held_lookups n m"
proof -
  have "contrib n (map_option f x) = contrib n x" for x
    using assms by (cases x) (simp_all add: count_free_def tame_def)
  moreover have "dom (\<lambda>i. map_option f (m i)) = dom m" by (auto simp: dom_def)
  ultimately show ?thesis by (simp add: held_lookups_def)
qed

lemma sb_inv_all:
  assumes "sb_inv sb" and "count_free f"
  shows "sb_inv (sb\<lparr>inodes := \<lambda>i. map_option f (inodes sb i)\<rparr>)"
proof -
  let ?t = "sb\<lparr>inodes := \<lambda>i. map_option f (inodes sb i)\<rparr>"
  have "finite (dom (inodes ?t))" using sb_invD(1) [OF assms(1)] by (rule rev_finite_subset) (auto simp: dom_def)
  moreover have "\<exists>v. inodes ?t j = Some v \<and> nodeid v = n \<and> i_ops v \<noteq> Ops_bad" if "ihash ?t n = Some j" for n j
    using that sb_invD(3) [OF assms(1), of n j] assms(2) by (auto simp: count_free_def tame_def)
  moreover have "1 \<le> i_count v \<and> ops_fit v" if "inodes ?t j = Some v" for j v
    using that sb_invD(4) [OF assms(1)] assms(2) by (force simp: count_free_def tame_def)
  ultimately show ?thesis using sb_invD(2) [OF assms(1)] by (simp add: sb_inv_def)
qed

lemma calm_all: "count_free f \<Longrightarrow> calm sb (sb\<lparr>inodes := \<lambda>i. map_option f (inodes sb i)\<rparr>)"
  by (simp add: calm_def sb_inv_all lookups_def held_all)

lemma calm_write_entry_del: "calm sb (write_entry_del ff sb)"
proof -
  have "calm sb (sb\<lparr>inodes := \<lambda>i. map_option (write_files_update (without ff)) (inodes sb i)\<rparr>)"
    by (intro calm_all count_freeI) simp_all
  then show ?thesis unfolding write_entry_del_def
    by (rule calm_trans) (intro calm_upd_conn same_forgets_iq, simp)
qed

lemma calm_prepare_release:
  assumes "fuse_prepare_release enc ff flags op sb = Some sb'"
  shows "calm sb sb'"
proof -
  obtain g where "sb' = upd_conn g (write_entry_del ff sb)" "\<And>s. iq (g s) = iq s"
    using assms by (auto simp: fuse_prepare_release_def upd_conn_def Let_def elim!: bind_Some_E)
  then show ?thesis using calm_trans [OF calm_write_entry_del calm_upd_conn] same_forgets_iq by blast
qed

lemma calm_sync_release:
  assumes run: "fuse_sync_release wait enc ff flags sb = Some sb'" and w: "quiet_wait wait"
  shows "calm sb sb'"
proof -
  from run obtain f r sb1 where f: "ffs (conn sb) ff = Some f" and r: "ff_reserved_req f = Some r"
    and prep: "fuse_prepare_release enc ff flags FUSE_RELEASE (if 1 < ff_count f then upd_conn (emit Warn) sb else sb) = Some sb1"
    by (auto simp: fuse_sync_release_def elim!: bind_Some_E)
  from run f r prep obtain ph s2 where
      send: "fuse_request_send (upd_req r (clear_flag FR_BACKGROUND \<circ> set_flag FR_FORCE) (conn sb1)) r = Some (ph, s2)"
    by (auto simp: fuse_sync_release_def elim!: bind_Some_E)
  from run f r prep send obtain s3 s4 where wt: "wait r ph s2 = Some s3" and put: "fuse_put_request s3 r = Some s4"
    and sb': "sb' = sb1\<lparr>conn := s4\<lparr>ffs := (ffs s4)(ff := None)\<rparr>\<rparr>"
    by (auto simp: fuse_sync_release_def elim!: bind_Some_E)
  have "calm sb (if 1 < ff_count f then upd_conn (emit Warn) sb else sb)"
    by (simp add: calm_upd_conn same_forgets_iq)
  then have one: "calm sb sb1" using calm_prepare_release [OF prep] calm_trans by blast
  have "same_forgets (conn sb1) s2"
    using same_forgets_send [OF send] by (simp add: same_forgets_def)
  moreover have "same_forgets s2 s4"
    using w wt same_forgets_put [OF put] by (auto simp: quiet_wait_def same_forgets_def)
  ultimately have "same_forgets (conn sb1) (s4\<lparr>ffs := (ffs s4)(ff := None)\<rparr>)" by (simp add: same_forgets_def)
  then show ?thesis unfolding sb' using calm_trans [OF one calm_conn] by blast
qed

lemma calm_link_write:
  assumes "fuse_link_write_file i ff sb = Some sb'"
  shows "calm sb sb'"
proof -
  have "calm sb (upd_inode i (\<lambda>v. v\<lparr>write_files := ff # write_files v\<rparr>)
                  (upd_conn (upd_ff ff (ff_on_write_files_update (\<lambda>_. True))) sb))"
    by (rule calm_trans [OF calm_upd_conn calm_upd_inode]) (simp_all add: same_forgets_iq count_freeI)
  then show ?thesis using assms by (auto simp: fuse_link_write_file_def elim!: bind_Some_E)
qed

lemma calm_truncating:
  "calm sb (fuse_invalidate_attr i (upd_inode i (\<lambda>v. v\<lparr>fi_attr_version := ver, i_size := 0\<rparr>)
     (upd_conn (\<lambda>s. s\<lparr>attr_version := ver\<rparr>) sb)))"
  unfolding fuse_invalidate_attr_def
  by (rule calm_trans [OF calm_trans [OF calm_upd_conn calm_upd_inode] calm_upd_inode])
    (simp_all add: same_forgets_iq count_freeI)

lemma calm_finish_open:
  assumes "fuse_finish_open i file sb = Some sb'"
  shows "calm sb sb'"
proof -
  obtain ff f where ff: "file_ff (conn sb) (of_filp file) = Some ff" "ffs (conn sb) ff = Some f"
    using assms by (auto simp: fuse_finish_open_def elim!: bind_Some_E)
  define sb3 where "sb3 = (let sb1 = (if FOPEN_DIRECT_IO \<in> ff_open_flags f then vfs (Use_direct_io (of_filp file)) sb else sb);
     sb2 = (if FOPEN_KEEP_CACHE \<notin> ff_open_flags f then vfs (Invalidate_pages2 i) sb1 else sb1)
     in if FOPEN_NONSEEKABLE \<in> ff_open_flags f then vfs (Nonseekable (of_filp file)) sb2 else sb2)"
  define sb4 where "sb4 = (if open_truncates (conn sb3) (of_flags file)
                then let ver = attr_version (conn sb3) + 1;
                         t = fuse_invalidate_attr i (upd_inode i (\<lambda>v. v\<lparr>fi_attr_version := ver, i_size := 0\<rparr>)
                               (upd_conn (\<lambda>s. s\<lparr>attr_version := ver\<rparr>) sb3))
                     in if Writeback_cache \<in> fc_bits (conn t) then vfs (File_update_time (of_filp file)) t else t
                else sb3)"
  have "calm sb sb3" by (simp add: sb3_def Let_def)
  moreover have "calm sb3 sb4" using calm_truncating by (simp add: sb4_def Let_def)
  moreover have "fuse_finish_open i file sb = (if of_mode_write file \<and> Writeback_cache \<in> fc_bits (conn sb4)
      then fuse_link_write_file i ff sb4 else Some sb4)"
    by (simp only: fuse_finish_open_def Let_def sb3_def sb4_def ff Option.bind.bind_lunit)
  then have "calm sb4 sb'" using assms calm_link_write by (simp split: if_split_asm)
  ultimately show ?thesis using calm_trans by blast
qed


text \<open>Creating and opening a file.\<close>

definition create_names :: "fuse_entry_out \<times> fuse_open_out \<Rightarrow> u64 list" where
  "create_names out = entry_names (fst out)"

locale create_exchange = exchange ask create_names for ask :: "(fuse_entry_out \<times> fuse_open_out) dask" +
  fixes wait :: wait
  assumes quiet: "quiet_wait wait"

context create_exchange begin

lemma balanced_release:
  "ns_sync_release wait encr ff flags ns = Some ns' \<Longrightarrow> balanced E ns \<Longrightarrow> balanced E ns'"
  using calm_sync_release [OF _ quiet] by (auto simp: ns_sync_release_def intro!: balanced_calm)

lemma create_finish_balanced:
  assumes run: "create_finish wait encr fin file flags ff i ns = Some (err, ns')" and b: "balanced E ns"
  shows "balanced E ns'"
proof (cases "fin = 0")
  case False
  then show ?thesis using run b by (auto simp: create_finish_def intro: balanced_release)
next
  case True
  from run True obtain ns1 sb where g: "ns_conn_do (\<lambda>s. fuse_file_get s ff) ns = Some ns1"
    and o': "fuse_finish_open i file (nsb (nsb_update (upd_conn (set_private_data (of_filp file) ff)) ns1)) = Some sb"
    and ns': "ns' = set_nsb (nsb_update (upd_conn (set_private_data (of_filp file) ff)) ns1) sb"
    by (auto simp: create_finish_def elim!: bind_Some_E)
  have "balanced E ns1"
    by (rule balanced_conn_do [OF g b]) (auto simp: fuse_file_get_def same_forgets_def split: if_split_asm)
  then have "balanced E (nsb_update (upd_conn (set_private_data (of_filp file) ff)) ns1)"
    by (rule balanced_conn) (simp add: set_private_data_def same_forgets_def)
  then show ?thesis unfolding ns' by (rule balanced_calm) (rule calm_finish_open [OF o'])
qed

lemma create_reply_balanced:
  assumes run: "create_reply env ok wait encr fin dir d file flags ff out oopen ns = Some (err, ns')"
    and b: "balanced (eo_nodeid out # E) ns" and v: "fuse_valid_type (attr_umode (eo_attr out))"
  shows "balanced E ns'"
proof -
  let ?ns1 = "nsb_update (upd_conn (upd_ff ff (\<lambda>f. f\<lparr>ff_fh := oo_fh oopen, ff_nodeid := eo_nodeid out,
                                                  ff_open_flags := oo_open_flags oopen\<rparr>))) ns"
  have "balanced (eo_nodeid out # E) ?ns1" by (rule balanced_conn [OF b]) (simp add: same_forgets_def)
  from balanced_iget [OF this v, of env ok 0] obtain found ns2 where i: "entry_iget env ok out 0 ?ns1 = Some (found, ns2)"
    "balanced (if found = None then eo_nodeid out # E else E) ns2" by metis
  show ?thesis
  proof (cases found)
    case None
    then show ?thesis using run i by (auto simp: create_reply_def elim!: bind_Some_E intro!: balanced_forget intro: balanced_release)
  next
    case (Some j)
    then show ?thesis using run i
      by (auto simp: create_reply_def elim!: bind_Some_E intro: create_finish_balanced)
  qed
qed

lemma create_open_settled:
  assumes run: "fuse_create_open env ok ask wait encr fin dir d file flags mode ns = Some (err, ns')" and b: "balanced E ns"
  shows "settled E err ns'"
proof (cases "ok 0")
  case False
  then show ?thesis using run b by (auto simp: fuse_create_open_def settled_balanced split: if_split_asm)
next
  case True
  obtain x s1 where alloc: "fuse_file_alloc (\<lambda>k. ok (Suc k)) (nconn ns) = (x, s1)" by force
  let ?ns1 = "nsb_update (upd_conn (\<lambda>_. s1)) ns"
  have b1: "balanced E ?ns1" using b same_forgets_alloc [OF alloc] by (rule balanced_conn)
  have type: "mode AND S_IFMT = S_IFREG" using run by (auto simp: fuse_create_open_def split: if_split_asm)
  show ?thesis
  proof (cases x)
    case None
    then show ?thesis using run True type alloc b1 by (simp add: fuse_create_open_def settled_balanced)
  next
    case (Some ff)
    from run True type alloc Some obtain n e where n: "node_of ?ns1 dir = Some n" and e: "dcache ?ns1 d = Some e"
      by (auto simp: fuse_create_open_def Let_def elim!: bind_Some_E)
    define args where "args = \<lparr>a_opcode = FUSE_CREATE, a_nodeid = n,
        a_in_args = [msg_arg env s1 W_create_in (Create_in (flags AND NOT O_NOCTTY) (masked env ?ns1 mode) (umask env)), name_arg (d_name e)],
        a_out_argvar = False, a_out_args = [entry_arg s1, \<lparr>arg_size = wire_size s1 W_open_out, arg_value = []\<rparr>]\<rparr>"
    from run True type alloc Some n e obtain y where "ask args ?ns1 = Some y"
      by (auto simp: fuse_create_open_def args_def Let_def elim!: bind_Some_E)
    then obtain er out oopen ns2 where a: "ask args ?ns1 = Some (er, (out, oopen), ns2)" by (cases y) auto
    have rest: "(if er \<noteq> 0 \<or> \<not> S_ISREG (attr_umode (eo_attr out)) \<or> invalid_nodeid (eo_nodeid out)
            then map_option (Pair (if er \<noteq> 0 then er else - EIO)) (ns_conn_do (\<lambda>s. fuse_file_free s ff) ns2)
            else create_reply env (\<lambda>k. ok (k + 4)) wait encr fin dir d file (flags AND NOT O_NOCTTY) ff out oopen ns2) = Some (err, ns')"
      using run True type alloc Some n e a by (auto simp: fuse_create_open_def args_def Let_def split: if_split_asm)
    have nv: "\<not> a_out_argvar args" by (simp add: args_def)
    have h: "balanced ((if er = 0 then entry_names out else []) @ E) ns2"
      using asked [OF nv b1 a] by (auto simp: create_names_def)
    show ?thesis
    proof (cases "er \<noteq> 0 \<or> \<not> S_ISREG (attr_umode (eo_attr out)) \<or> invalid_nodeid (eo_nodeid out)")
      case True
      then obtain "ns_conn_do (\<lambda>s. fuse_file_free s ff) ns2 = Some ns'" and err: "err = (if er \<noteq> 0 then er else - EIO)"
        using rest by auto
      then have "balanced ((if er = 0 then entry_names out else []) @ E) ns'"
        using balanced_conn_do h same_forgets_free by blast
      then show ?thesis using err by (auto simp: entry_names_def intro: settled_balanced settled_one split: if_split_asm)
    next
      case False
      then have "balanced (eo_nodeid out # E) ns2" using h by (simp add: entry_names_def invalid_nodeid_def)
      moreover have "fuse_valid_type (attr_umode (eo_attr out))" using False by (simp add: fuse_valid_type_def)
      ultimately show ?thesis using create_reply_balanced rest False by (auto intro!: settled_balanced)
    qed
  qed
qed

end


subsection \<open>Removing, renaming, invalidating\<close>

locale plain_exchange = exchange ask "\<lambda>_. []" for ask :: "unit dask"

context plain_exchange begin

lemma plain_asked:
  assumes "ask (plain_args op n ins) ns = Some (err, x, ns')" and "balanced E ns"
  shows "balanced E ns'"
  using asked [OF _ assms(2,1)] by (simp add: plain_args_def)

lemma unlink_balanced:
  assumes run: "fuse_unlink env ask dir d ns = Some (err, ns')" and b: "balanced E ns"
  shows "balanced E ns'"
proof -
  from run obtain n e where n: "node_of ns dir = Some n" "dcache ns d = Some e" by (auto simp: fuse_unlink_def elim!: bind_Some_E)
  with run obtain ns1 where a: "ask (plain_args FUSE_UNLINK n [name_arg (d_name e)]) ns = Some (err, (), ns1)"
    by (auto simp: fuse_unlink_def elim!: bind_Some_E split: if_split_asm)
  have rest: "(\<exists>i. err = 0 \<and> fuse_update_ctime env i (fuse_invalidate_entry_cache d (invalidate_attr dir (invalidate_attr i
        (nsb_update (relink (\<lambda>l. if 0 < l then l - 1 else l) i) ns1)))) = Some ns') \<or>
      ns' = fuse_invalidate_entry d ns1 \<or> ns' = ns1"
    using run n a by (auto simp: fuse_unlink_def elim!: bind_Some_E split: if_split_asm)
  have "balanced E ns1" using plain_asked [OF a b] .
  then show ?thesis using rest by (auto intro: balanced_ctime)
qed

lemma rmdir_balanced:
  assumes run: "fuse_rmdir ask dir d ns = Some (err, ns')" and b: "balanced E ns"
  shows "balanced E ns'"
proof -
  from run obtain n e where n: "node_of ns dir = Some n" "dcache ns d = Some e" by (auto simp: fuse_rmdir_def elim!: bind_Some_E)
  with run obtain ns1 where a: "ask (plain_args FUSE_RMDIR n [name_arg (d_name e)]) ns = Some (err, (), ns1)"
    by (auto simp: fuse_rmdir_def elim!: bind_Some_E split: if_split_asm)
  have rest: "(\<exists>i. ns' = fuse_invalidate_entry_cache d (invalidate_attr dir (clear_nlink i ns1))) \<or>
      ns' = fuse_invalidate_entry d ns1 \<or> ns' = ns1"
    using run n a by (auto simp: fuse_rmdir_def elim!: bind_Some_E split: if_split_asm)
  have "balanced E ns1" using plain_asked [OF a b] .
  then show ?thesis using rest by auto
qed

lemma touch_balanced: "touch_renamed env i ns = Some ns' \<Longrightarrow> balanced E ns \<Longrightarrow> balanced E ns'"
  by (auto simp: touch_renamed_def intro: balanced_ctime)

lemma rename_done_balanced:
  assumes run: "rename_done env olddir oldd newdir newd swap ns = Some ns'" and b: "balanced E ns"
  shows "balanced E ns'"
proof -
  from run obtain i ns1 ns2 where i: "dentry_inode ns oldd = Some i" and "touch_renamed env i ns = Some ns1"
    and 2: "(if swap then do { j \<leftarrow> dentry_inode ns1 newd; touch_renamed env j ns1 } else Some ns1) = Some ns2"
    by (auto simp: rename_done_def elim!: bind_Some_E)
  then have "balanced E ns1" using b touch_balanced by blast
  then have b2: "balanced E ns2" using 2 by (auto elim!: bind_Some_E intro: touch_balanced split: if_split_asm)
  define ns4 where "ns4 = (let ns3 = invalidate_attr olddir ns2 in if olddir \<noteq> newdir then invalidate_attr newdir ns3 else ns3)"
  have b4: "balanced E ns4" using b2 by (simp add: ns4_def Let_def)
  have "ns' = ns4 \<or> (\<exists>j. fuse_update_ctime env j (fuse_invalidate_entry_cache newd (invalidate_attr j ns4)) = Some ns')"
    using run i \<open>touch_renamed env i ns = Some ns1\<close> 2
    by (auto simp: rename_done_def ns4_def Let_def elim!: bind_Some_E split: option.split_asm if_split_asm)
  then show ?thesis using b4 by (auto intro: balanced_ctime)
qed

lemma rename_common_balanced:
  assumes "fuse_rename_common env ask olddir oldd newdir newd flags op w msg ns = Some (err, ns')" and "balanced E ns"
  shows "balanced E ns'"
  using assms
  by (auto simp: fuse_rename_common_def rename_interrupted_def Let_def elim!: bind_Some_E
      dest!: plain_asked [where E = E] rename_done_balanced [where E = E] split: if_split_asm)

lemma rename_balanced:
  assumes run: "fuse_rename2 env ask olddir oldd newdir newd flags ns = Some (err, ns')" and b: "balanced E ns"
  shows "balanced E ns'"
  using run b rename_common_balanced
  by (auto simp: fuse_rename2_def elim!: bind_Some_E intro!: balanced_conn split: if_split_asm simp: same_forgets_def)

end

lemma d_delete_balanced: "d_delete dc d ns = Some ns' \<Longrightarrow> balanced E ns \<Longrightarrow> balanced E ns'"
  by (auto simp: d_delete_def intro: balanced_iput split: option.split_asm if_split_asm)

lemma balanced_dead: "balanced E ns \<Longrightarrow> balanced E (nsb_update (upd_inode i (\<lambda>w. w\<lparr>i_flags := insert S_DEAD (i_flags w)\<rparr>)) ns)"
  by (intro balanced_upd_inode count_freeI) simp_all

lemma inval_child_balanced:
  assumes "inval_child dc d i child ns = Some (err, ns')" and "balanced E ns"
  shows "balanced E ns'"
  using assms by (auto simp: inval_child_def Let_def balanced_dead elim!: bind_Some_E
      dest!: d_delete_balanced [where E = E] split: if_split_asm)

lemma ilookup_balanced:
  assumes "ilookup5 n (nsb ns) = (found, sb)" and "balanced E ns"
  shows "balanced E (set_nsb ns sb)"
proof (rule balanced_calm [OF assms(2)])
  show "calm (nsb ns) sb"
  proof (cases "ihash (nsb ns) n")
    case None
    then show ?thesis using assms(1) by (simp add: ilookup5_def)
  next
    case (Some i)
    have "tame (\<lambda>v. v\<lparr>i_count := i_count v + 1\<rparr>)" by (rule tame_simple) simp_all
    then have "calm (nsb ns) (upd_inode i (\<lambda>v. v\<lparr>i_count := i_count v + 1\<rparr>) (nsb ns))"
      by (intro calm_upd_inode) (simp add: count_free_def)
    then show ?thesis using assms(1) Some by (simp add: ilookup5_def)
  qed
qed

lemma inval_entry_balanced:
  assumes run: "fuse_reverse_inval_entry dc parent child nm ns = Some (err, ns')" and b: "balanced E ns"
  shows "balanced E ns'"
proof -
  obtain found sb where l: "ilookup5 parent (nsb ns) = (found, sb)" by force
  have b1: "balanced E (set_nsb ns sb)" using ilookup_balanced [OF l b] .
  show ?thesis
  proof (cases found)
    case None
    then show ?thesis using run l b by (simp add: fuse_reverse_inval_entry_def)
  next
    case (Some p)
    then obtain ns1 where 1: "inval_entry_locked dc p nm child (set_nsb ns sb) = Some (err, ns1)" and put: "ns_iput p ns1 = Some ns'"
      using run l by (auto simp: fuse_reverse_inval_entry_def elim!: bind_Some_E)
    have "balanced E ns1"
      using 1 b1
      by (auto simp: inval_entry_locked_def inval_entry_found_def Let_def elim!: bind_Some_E
          dest!: inval_child_balanced [where E = E] split: if_split_asm option.split_asm)
    then show ?thesis using put balanced_iput by blast
  qed
qed

subsection \<open>The exchange of the model\<close>

text \<open>
  \<open>fuse_simple_request\<close> from its two halves in \<open>Fuse_Queue\<close>. \<open>wt\<close> is what happens until the answer is there;
  a thread that sleeps before it gets a request has not returned.
\<close>

definition fuse_simple_request ::
    "oom \<Rightarrow> task \<Rightarrow> bool \<Rightarrow> (req_id \<Rightarrow> wait_phase \<Rightarrow> fuse_ns \<Rightarrow> fuse_ns option) \<Rightarrow> (fuse_arg list \<Rightarrow> 'o) \<Rightarrow> 'o dask" where
  "fuse_simple_request ok cur killed wt decode args ns = do {
     (g, ph, s1) \<leftarrow> simple_request_begin ok cur killed (nconn ns) args;
     let ns1 = nsb_update (upd_conn (\<lambda>_. s1)) ns;
     (case g of
        Got r \<Rightarrow> do {
          ns2 \<leftarrow> wt r ph ns1;
          (ret, outs, s3) \<leftarrow> simple_request_end (nconn ns2) r args;
          Some (ret, decode outs, nsb_update (upd_conn (\<lambda>_. s3)) ns2)}
      | Err e \<Rightarrow> Some (e, decode [], ns1)
      | Asleep \<Rightarrow> None)}"

definition reply_names :: "(fuse_arg list \<Rightarrow> 'o) \<Rightarrow> ('o \<Rightarrow> u64 list) \<Rightarrow> int \<times> fuse_arg list \<Rightarrow> u64 list" where
  "reply_names decode names a = (if fst a = 0 then names (decode (snd a)) else [])"

definition reply_of :: "fuse_req \<Rightarrow> int \<times> fuse_arg list" where
  "reply_of q = (oh_error (out_h (rq_out q)), out_args (rq_out q))"

locale server =
  fixes wt :: "req_id \<Rightarrow> wait_phase \<Rightarrow> fuse_ns \<Rightarrow> fuse_ns option"
    and decode :: "fuse_arg list \<Rightarrow> 'o" and names :: "'o \<Rightarrow> u64 list"
  assumes served: "balanced E ns \<Longrightarrow> wt r ph ns = Some ns' \<Longrightarrow> reqs (nconn ns') r = Some q \<Longrightarrow>
    balanced (reply_names decode names (reply_of q) @ E) ns'"

lemma get_req_err: "fuse_get_req ok cur n killed s = (Err e, s') \<Longrightarrow> e \<noteq> 0"
  by (cases "fuse_request_alloc ok n (waiting_inc s)")
    (auto simp: fuse_get_req_def fuse_get_req_common_def get_req_resume_def errno_defs split: if_split_asm option.split_asm)

lemma same_forgets_get_req: "fuse_get_req ok cur n killed s = (g, s') \<Longrightarrow> same_forgets s s'"
  by (rule same_forgets_iq)
    (auto simp: fuse_get_req_def fuse_get_req_common_def get_req_resume_def fuse_request_alloc_def waiting_inc_def waiting_dec_def
      split: if_split_asm)

lemma simple_begin_forgets:
  assumes "simple_request_begin ok cur killed s args = Some (g, ph, s')"
  shows "same_forgets s s'" and "g = Err e \<Longrightarrow> e \<noteq> 0"
proof -
  obtain g1 s1 where g: "fuse_get_req ok cur 0 killed s = (g1, s1)" by force
  have "same_forgets s s' \<and> (g = Err e \<longrightarrow> e \<noteq> 0)"
  proof (cases g1)
    case (Got r)
    with assms g obtain ph' s2 where "fuse_request_send (upd_req r (fill_simple (fuse_adjust_compat s1 args)) s1) r = Some (ph', s2)"
      and "g = Got r" "s' = s2"
      by (auto simp: simple_request_begin_def)
    then show ?thesis using same_forgets_send same_forgets_get_req [OF g] by (auto simp: same_forgets_def)
  next
    case (Err e')
    then have "e' \<noteq> 0" using get_req_err g by blast
    then show ?thesis using assms g Err same_forgets_get_req [OF g] by (auto simp: simple_request_begin_def)
  next
    case Asleep
    then show ?thesis using assms g same_forgets_get_req [OF g] by (auto simp: simple_request_begin_def)
  qed
  then show "same_forgets s s'" and "g = Err e \<Longrightarrow> e \<noteq> 0" by blast+
qed

sublocale server \<subseteq> simple: exchange "fuse_simple_request ok cur killed wt decode" names for ok cur killed
proof
  fix args ns E err out ns'
  assume nv: "\<not> a_out_argvar args" and b: "balanced E ns" and run: "fuse_simple_request ok cur killed wt decode args ns = Some (err, out, ns')"
  from run obtain g ph s1 where st: "simple_request_begin ok cur killed (nconn ns) args = Some (g, ph, s1)"
    by (auto simp: fuse_simple_request_def elim!: bind_Some_E)
  let ?ns1 = "nsb_update (upd_conn (\<lambda>_. s1)) ns"
  have b1: "balanced E ?ns1" using b simple_begin_forgets(1) [OF st] by (rule balanced_conn)
  show "balanced ((if err = 0 then names out else []) @ E) ns'"
  proof (cases g)
    case (Got r)
    from run st Got obtain ns2 q outs s3 where wt: "wt r ph ?ns1 = Some ns2" and q: "reqs (nconn ns2) r = Some q"
      and put: "fuse_put_request (nconn ns2) r = Some s3" and res: "err = oh_error (out_h (rq_out q))" "out = decode (out_args (rq_out q))"
        "ns' = nsb_update (upd_conn (\<lambda>_. s3)) ns2"
      using nv by (auto simp: fuse_simple_request_def simple_request_end_def elim!: bind_Some_E)
    have "balanced (reply_names decode names (reply_of q) @ E) ns2" using served [OF b1 wt q] .
    then have "balanced (reply_names decode names (reply_of q) @ E) ns'"
      unfolding res by (rule balanced_conn) (rule same_forgets_put [OF put])
    then show ?thesis using res by (auto simp: reply_names_def reply_of_def)
  next
    case (Err e)
    then show ?thesis using run st b1 simple_begin_forgets(2) [OF st Err] by (auto simp: fuse_simple_request_def)
  next
    case Asleep
    then show ?thesis using run st by (simp add: fuse_simple_request_def)
  qed
qed

text \<open>
  A server as it is meant to be: it takes the request off the pending list, answers it, ends it, and counts a
  lookup for each node its answer names. \<open>reply\<close> is any function from requests to answers.
\<close>

definition answer :: "int \<times> fuse_arg list \<Rightarrow> fuse_req \<Rightarrow> fuse_req" where
  "answer a q = q\<lparr>rq_out := (rq_out q)\<lparr>out_h := (out_h (rq_out q))\<lparr>oh_error := fst a\<rparr>, out_args := snd a\<rparr>\<rparr>"

definition count_lookups :: "u64 list \<Rightarrow> fuse_ns \<Rightarrow> fuse_ns" where
  "count_lookups L ns = ns\<lparr>srv_lookups := \<lambda>n. srv_lookups ns n + of_nat (count_list L n)\<rparr>"

definition waited_for :: "fuse_req \<Rightarrow> bool" where
  "waited_for q \<longleftrightarrow> FR_BACKGROUND \<notin> rq_flags q \<and> FR_FINISHED \<notin> rq_flags q \<and> rq_end q = None \<and> rq_stolen_file q = None"

definition serve ::
    "(fuse_req \<Rightarrow> int \<times> fuse_arg list) \<Rightarrow> (fuse_arg list \<Rightarrow> 'o) \<Rightarrow> ('o \<Rightarrow> u64 list) \<Rightarrow>
      req_id \<Rightarrow> wait_phase \<Rightarrow> fuse_ns \<Rightarrow> fuse_ns option" where
  "serve reply decode names r ph ns = do {
     q \<leftarrow> reqs (nconn ns) r;
     if \<not> waited_for q then None
     else do {
       s1 \<leftarrow> request_end (upd_req r (clear_flag FR_PENDING \<circ> answer (reply q)) (list_del r (nconn ns))) r;
       Some (count_lookups (reply_names decode names (reply q)) (nsb_update (upd_conn (\<lambda>_. s1)) ns))}}"

lemma balanced_count: "balanced E ns \<Longrightarrow> balanced (L @ E) (count_lookups L ns)"
  by (simp add: balanced_def count_lookups_def)

lemma put_request_out:
  assumes "fuse_put_request s r = Some s'" and "reqs s r = Some q" and "rq_stolen_file q = None" and "reqs s' r = Some q'"
  shows "rq_out q' = rq_out q"
  using assms
  by (auto simp: fuse_put_request_def fuse_request_free_def put_last_ref_def waiting_dec_def Let_def
      split: if_split_asm option.split_asm)

lemma serve_end:
  assumes run: "request_end s r = Some s'" and q: "reqs s r = Some q" and w: "waited_for q"
  shows "same_forgets s s'" and "reqs s' r = Some q' \<Longrightarrow> rq_out q' = rq_out q"
proof -
  have f: "FR_FINISHED \<notin> rq_flags q" using w by (simp add: waited_for_def)
  from request_end_elim [OF run q f] obtain s4 s6 where c: "end_counters s r q = Some s4" "end_callback s4 r q = Some s6"
    and put: "fuse_put_request s6 r = Some s'" .
  have s6: "s6 = emit (Wake_req r) (end_mark s r q)" using c w by (simp add: end_counters_def end_callback_def waited_for_def)
  have "same_forgets s s6" by (simp add: s6 same_forgets_def end_mark_def Let_def)
  then show "same_forgets s s'" using same_forgets_put [OF put] same_forgets_trans by blast
  have "reqs s6 r = Some (set_flag FR_FINISHED q)" using q by (simp add: s6)
  from put_request_out [OF put this] w show "reqs s' r = Some q' \<Longrightarrow> rq_out q' = rq_out q"
    by (simp add: waited_for_def set_flag_def)
qed

interpretation served: server "serve reply decode names" decode names for reply decode names
proof
  fix E ns r ph ns' q
  assume b: "balanced E ns" and run: "serve reply decode names r ph ns = Some ns'" and q: "reqs (nconn ns') r = Some q"
  from run obtain q0 s1 where q0: "reqs (nconn ns) r = Some q0" "waited_for q0"
    and e: "request_end (upd_req r (clear_flag FR_PENDING \<circ> answer (reply q0)) (list_del r (nconn ns))) r = Some s1"
    and ns': "ns' = count_lookups (reply_names decode names (reply q0)) (nsb_update (upd_conn (\<lambda>_. s1)) ns)"
    by (auto simp: serve_def elim!: bind_Some_E split: if_split_asm)
  let ?q = "clear_flag FR_PENDING (answer (reply q0) q0)"
  let ?s = "upd_req r (clear_flag FR_PENDING \<circ> answer (reply q0)) (list_del r (nconn ns))"
  have "reqs ?s r = Some ?q" using q0 by simp
  moreover have "waited_for ?q" using q0(2) by (simp add: waited_for_def answer_def clear_flag_def)
  ultimately have s: "same_forgets ?s s1" "reqs s1 r = Some q \<Longrightarrow> rq_out q = rq_out ?q"
    using serve_end [OF e] by blast+
  have "reqs s1 r = Some q" using q by (simp add: ns' count_lookups_def)
  then have "reply_of q = reply q0" using s(2) by (simp add: reply_of_def answer_def clear_flag_def)
  moreover have "balanced E (nsb_update (upd_conn (\<lambda>_. s1)) ns)"
    by (rule balanced_conn [OF b]) (use s(1) in \<open>simp add: same_forgets_def\<close>)
  ultimately show "balanced (reply_names decode names (reply_of q) @ E) ns'"
    unfolding ns' by (simp add: balanced_count)
qed

subsection \<open>Runs of directory operations\<close>

text \<open>The server as the operations see it: its exchanges, and what happens while a RELEASE is waited for.\<close>

record dir_server =
  ds_entry :: "fuse_entry_out dask"
  ds_create :: "(fuse_entry_out \<times> fuse_open_out) dask"
  ds_plain :: "unit dask"
  ds_wait :: wait
  ds_encr :: "fuse_release_in \<Rightarrow> u8 list"

datatype dir_op =
    Op_lookup splice ino_id de_id
  | Op_revalidate de_id "lookup_flag set"
  | Op_mknod int ino_id de_id umode u32
  | Op_mkdir int ino_id de_id umode
  | Op_symlink int ino_id de_id "u8 list"
  | Op_link int de_id ino_id de_id
  | Op_atomic_open splice int int ino_id de_id open_file u32 umode
  | Op_unlink ino_id de_id
  | Op_rmdir ino_id de_id
  | Op_rename ino_id de_id ino_id de_id "rename_flag set"
  | Op_inval_entry dcache_env u64 u64 "u8 list"

text \<open>One operation, with the outcomes of its allocations: the errno it returns and the state.\<close>

fun dir_step :: "dir_server \<Rightarrow> dir_env \<Rightarrow> (nat \<Rightarrow> oom) \<Rightarrow> dir_op \<Rightarrow> fuse_ns \<Rightarrow> (int \<times> fuse_ns) option" where
  "dir_step srv env ok (Op_lookup sp dir d) ns =
     map_option (\<lambda>(r, ns'). (errno_of r, ns')) (fuse_lookup env (ok 0) (ds_entry srv) sp dir d ns)"
| "dir_step srv env ok (Op_revalidate d flags) ns = fuse_dentry_revalidate env (ok 0) (ds_entry srv) d flags ns"
| "dir_step srv env ok (Op_mknod inst dir d mode rdev) ns = fuse_mknod env (ok 0) (ds_entry srv) inst dir d mode rdev ns"
| "dir_step srv env ok (Op_mkdir inst dir d mode) ns = fuse_mkdir env (ok 0) (ds_entry srv) inst dir d mode ns"
| "dir_step srv env ok (Op_symlink inst dir d target) ns = fuse_symlink env (ok 0) (ds_entry srv) inst dir d target ns"
| "dir_step srv env ok (Op_link inst d newdir newd) ns = fuse_link env (ok 0) (ds_entry srv) inst d newdir newd ns"
| "dir_step srv env ok (Op_atomic_open sp fin inst dir d file flags mode) ns =
     map_option (\<lambda>(err, _, ns'). (err, ns'))
       (fuse_atomic_open env ok (ds_entry srv) (ds_create srv) (ds_wait srv) (ds_encr srv) sp fin inst dir d file flags mode ns)"
| "dir_step srv env ok (Op_unlink dir d) ns = fuse_unlink env (ds_plain srv) dir d ns"
| "dir_step srv env ok (Op_rmdir dir d) ns = fuse_rmdir (ds_plain srv) dir d ns"
| "dir_step srv env ok (Op_rename olddir oldd newdir newd flags) ns =
     fuse_rename2 env (ds_plain srv) olddir oldd newdir newd flags ns"
| "dir_step srv env ok (Op_inval_entry dc parent child nm) ns = fuse_reverse_inval_entry dc parent child nm ns"

text \<open>What the VFS guarantees of a mode: it has a file type, and the umask has only permissions.\<close>

fun op_ready :: "dir_env \<Rightarrow> dir_op \<Rightarrow> fuse_ns \<Rightarrow> bool" where
  "op_ready env (Op_mknod inst dir d mode rdev) ns \<longleftrightarrow> fuse_valid_type mode \<and> umask env AND S_IFMT = 0"
| "op_ready env (Op_atomic_open sp fin inst dir d file flags mode) ns \<longleftrightarrow> fuse_valid_type mode \<and> umask env AND S_IFMT = 0"
| "op_ready env (Op_link inst d newdir newd) ns \<longleftrightarrow>
     (\<forall>i v. dentry_inode ns d = Some i \<longrightarrow> inodes (nsb ns) i = Some v \<longrightarrow> fuse_valid_type (i_mode v))"
| "op_ready env _ ns \<longleftrightarrow> True"

text \<open>A run, with the results of its operations, last first.\<close>

inductive dir_run :: "dir_server \<Rightarrow> fuse_ns \<Rightarrow> int list \<Rightarrow> fuse_ns \<Rightarrow> bool" for srv ns where
  Start: "dir_run srv ns [] ns"
| Step: "dir_run srv ns errs ns1 \<Longrightarrow> op_ready env p ns1 \<Longrightarrow> dir_step srv env ok p ns1 = Some (err, ns2) \<Longrightarrow>
    dir_run srv ns (err # errs) ns2"

definition server_keeps :: "dir_server \<Rightarrow> bool" where
  "server_keeps srv \<longleftrightarrow> exchange (ds_entry srv) entry_names \<and> exchange (ds_create srv) create_names \<and>
     exchange (ds_plain srv) (\<lambda>_. []) \<and> quiet_wait (ds_wait srv)"

lemma server_keepsD:
  assumes "server_keeps srv"
  shows "entry_exchange (ds_entry srv)" and "create_exchange (ds_create srv) (ds_wait srv)" and "plain_exchange (ds_plain srv)"
  using assms by (simp_all add: server_keeps_def entry_exchange_def create_exchange_def create_exchange_axioms_def plain_exchange_def)

lemma masked_type:
  assumes "umask env AND S_IFMT = 0"
  shows "masked env ns mode AND S_IFMT = mode AND S_IFMT"
proof -
  have "\<not> bit (umask env AND S_IFMT) n" for n using assms by simp
  then have "\<not> bit S_IFMT n \<or> \<not> bit (umask env) n" for n by (auto simp: bit_and_iff)
  then have "(mode AND NOT (umask env)) AND S_IFMT = mode AND S_IFMT"
    by (intro bit_word_eqI) (auto simp: bit_and_iff bit_not_iff)
  then show ?thesis by (simp add: masked_def)
qed

lemma settled_trans:
  assumes "settled E err ns" and "err \<noteq> - EIO" and "balanced E ns \<Longrightarrow> settled E err' ns'"
  shows "settled E err' ns'"
  using assms settled_other by blast

lemma mknod_settled:
  assumes "entry_exchange ask" and "fuse_mknod env ok ask inst dir d mode rdev ns = Some (err, ns')" and "balanced E ns"
    and "fuse_valid_type mode" and "umask env AND S_IFMT = 0"
  shows "settled E err ns'"
proof -
  have "fuse_valid_type (masked env ns mode)" using type_cong(5) [OF masked_type [OF assms(5)]] assms(4) by blast
  then show ?thesis using assms(2) entry_exchange.new_entry_settled [OF assms(1) _ assms(3)]
    by (auto simp: fuse_mknod_def plain_args_def Let_def elim!: bind_Some_E)
qed

lemma valid_dir: "fuse_valid_type S_IFDIR" and valid_lnk: "fuse_valid_type S_IFLNK"
  by (simp_all add: fuse_valid_type_def S_ISDIR_def S_ISLNK_def mode_defs)

lemma link_settled:
  assumes ex: "entry_exchange ask" and run: "fuse_link env ok ask inst d newdir newd ns = Some (err, ns')" and b: "balanced E ns"
    and valid: "\<And>i v. dentry_inode ns d = Some i \<Longrightarrow> inodes (nsb ns) i = Some v \<Longrightarrow> fuse_valid_type (i_mode v)"
  shows "settled E err ns'"
proof -
  from run obtain i v e where i: "dentry_inode ns d = Some i" and v: "inodes (nsb ns) i = Some v" and e: "dcache ns newd = Some e"
    by (auto simp: fuse_link_def elim!: bind_Some_E)
  let ?args = "plain_args FUSE_LINK 0 [msg_arg env (nconn ns) W_link_in (Link_in (nodeid v)), name_arg (d_name e)]"
  from run i v e obtain er ns1 where new: "create_new_entry env ok ask inst ?args newdir newd (i_mode v) ns = Some (er, ns1)"
    and rest: "(if er = 0 then map_option (Pair 0)
         (fuse_update_ctime env i (invalidate_attr i (nsb_update (relink (\<lambda>l. l + 1) i) ns1)))
       else Some (er, if er = - EINTR then invalidate_attr i ns1 else ns1)) = Some (err, ns')"
    by (auto simp: fuse_link_def elim!: bind_Some_E)
  have s: "settled E er ns1"
    by (rule entry_exchange.new_entry_settled [OF ex new b valid [OF i v]]) (simp add: plain_args_def)
  show ?thesis
  proof (cases "er = 0 \<or> er = - EINTR")
    case True
    then have "balanced E ns1" using settled_other [OF s] by (auto simp: errno_defs)
    then show ?thesis using rest True by (auto intro!: settled_balanced intro: balanced_ctime split: if_split_asm)
  qed (use s rest in auto)
qed

lemma atomic_create_settled:
  assumes en: "entry_exchange askl" and cr: "create_exchange askc wait"
    and run: "atomic_create env ok askl askc wait encr fin inst dir d file flags mode ns = Some (err, ns')" and b: "balanced E ns"
    and t: "fuse_valid_type mode" "umask env AND S_IFMT = 0"
  shows "settled E err ns'"
proof -
  from run obtain e ns1 where
    c: "(if No_create \<in> fc_bits (nconn ns) then Some (- ENOSYS, ns)
         else fuse_create_open env (ok 1) askc wait encr fin dir d file flags mode ns) = Some (e, ns1)"
    by (auto simp: atomic_create_def elim!: bind_Some_E)
  have s: "settled E e ns1"
    using c b create_exchange.create_open_settled [OF cr] by (auto simp: settled_balanced split: if_split_asm)
  show ?thesis
  proof (cases "e = - ENOSYS")
    case False
    then show ?thesis using run c s by (simp add: atomic_create_def)
  next
    case True
    let ?ns2 = "nsb_update (upd_conn (\<lambda>s. s\<lparr>fc_bits := insert No_create (fc_bits s)\<rparr>)) ns1"
    have "balanced E ns1" using settled_other [OF s] True by (simp add: errno_defs)
    then have b2: "balanced E ?ns2" by (rule balanced_conn) (simp add: same_forgets_def)
    from run c True obtain e2 where m: "fuse_mknod env (ok 2) askl inst dir d mode 0 ?ns2 = Some (e2, ns')"
      and err: "err = (if e2 = 0 then 1 else e2)"
      by (auto simp: atomic_create_def elim!: bind_Some_E)
    have "settled E e2 ns'" by (rule mknod_settled [OF en m b2 t])
    then show ?thesis using settled_other settled_balanced by (auto simp: err errno_defs)
  qed
qed

lemma atomic_open_settled:
  assumes en: "entry_exchange askl" and cr: "create_exchange askc wait"
    and run: "fuse_atomic_open env ok askl askc wait encr sp fin inst dir d file flags mode ns = Some (err, made, ns')"
    and b: "balanced E ns" and t: "fuse_valid_type mode" "umask env AND S_IFMT = 0"
  shows "settled E err ns'"
proof -
  from run obtain e where e: "dcache ns d = Some e" by (auto simp: fuse_atomic_open_def elim!: bind_Some_E)
  with run obtain res ns1 where
    l: "(if d_in_lookup e then fuse_lookup env (ok 0) askl sp dir d ns else Some (Inr None, ns)) = Some (res, ns1)"
    by (auto simp: fuse_atomic_open_def elim!: bind_Some_E)
  have s: "settled E (errno_of res) ns1"
    using l b entry_exchange.lookup_settled [OF en] by (auto simp: settled_balanced split: if_split_asm)
  show ?thesis
  proof (cases res)
    case (Inl er)
    then show ?thesis using run e l s by (simp add: fuse_atomic_open_def errno_of_def)
  next
    case (Inr moved)
    then have b1: "balanced E ns1" using settled_other [OF s] by (simp add: errno_of_def errno_defs)
    let ?d = "case moved of None \<Rightarrow> d | Some a \<Rightarrow> a"
    show ?thesis
    proof (cases "flags AND O_CREAT = 0 \<or> dentry_inode ns1 ?d \<noteq> None")
      case True
      then show ?thesis using run e l Inr b1 by (auto simp: fuse_atomic_open_def Let_def settled_balanced)
    next
      case False
      with run e l Inr obtain ns2 where c: "atomic_create env ok askl askc wait encr fin inst dir ?d file flags mode ns1 = Some (err, ns2)"
        and ns': "ns' = (if err = 1 then ns2 else (case moved of None \<Rightarrow> ns2 | Some a \<Rightarrow> dput a ns2))"
        by (auto simp: fuse_atomic_open_def Let_def elim!: bind_Some_E)
      from atomic_create_settled [OF en cr c b1 t] show ?thesis
        by (auto simp: ns' settled_def split: option.split)
    qed
  qed
qed

lemma dir_step_settled:
  assumes keeps: "server_keeps srv" and run: "dir_step srv env ok p ns = Some (err, ns')" and ready: "op_ready env p ns" and b: "balanced E ns"
  shows "settled E err ns'"
proof -
  note en = server_keepsD(1) [OF keeps] and cr = server_keepsD(2) [OF keeps] and pl = server_keepsD(3) [OF keeps]
  show ?thesis
  proof (cases p)
    case Op_lookup
    then show ?thesis using run entry_exchange.lookup_settled [OF en _ b] by auto
  next
    case Op_revalidate
    then show ?thesis using run entry_exchange.revalidate_balanced [OF en _ b] by (auto intro: settled_balanced)
  next
    case Op_mknod
    then show ?thesis using run ready mknod_settled [OF en _ b] by auto
  next
    case Op_mkdir
    then show ?thesis using run entry_exchange.new_entry_settled [OF en _ b valid_dir]
      by (auto simp: fuse_mkdir_def plain_args_def Let_def elim!: bind_Some_E)
  next
    case Op_symlink
    then show ?thesis using run entry_exchange.new_entry_settled [OF en _ b valid_lnk]
      by (auto simp: fuse_symlink_def plain_args_def elim!: bind_Some_E)
  next
    case Op_link
    then show ?thesis using run ready link_settled [OF en _ b] by auto
  next
    case Op_atomic_open
    then show ?thesis using run ready atomic_open_settled [OF en cr _ b] by auto
  next
    case Op_unlink
    then show ?thesis using run plain_exchange.unlink_balanced [OF pl _ b] by (auto intro: settled_balanced)
  next
    case Op_rmdir
    then show ?thesis using run plain_exchange.rmdir_balanced [OF pl _ b] by (auto intro: settled_balanced)
  next
    case Op_rename
    then show ?thesis using run plain_exchange.rename_balanced [OF pl _ b] by (auto intro: settled_balanced)
  next
    case Op_inval_entry
    then show ?thesis using run inval_entry_balanced [OF _ b] by (auto intro: settled_balanced)
  qed
qed

subsection \<open>Properties\<close>

text \<open>
  C5: the directory operations keep the lookup counts of kernel and server in step: in any run of lookups,
  revalidations, creations, links, opens, removals, renames and invalidations, whatever the server answers and
  whichever allocations fail, the lookups the server has counted stay those the inodes hold or a queued FORGET
  carries. The only replies it does not account for are those refused with \<open>-EIO\<close>, at most one each.
\<close>

theorem dir_lookups_balanced:
  assumes "server_keeps srv" and "dir_run srv ns errs ns'" and "balanced E ns"
  shows "\<exists>L. balanced (L @ E) ns' \<and> length L \<le> count_list errs (- EIO)"
  using assms(2)
proof induction
  case Start
  then show ?case using assms(3) by (intro exI [of _ "[]"]) simp
next
  case (Step errs ns1 env p ok err ns2)
  from Step.IH obtain L where L: "balanced (L @ E) ns1" "length L \<le> count_list errs (- EIO)" by blast
  from dir_step_settled [OF assms(1) Step.hyps(3,2) L(1)] obtain K where
    "balanced (K @ L @ E) ns2" "length K \<le> (if err = - EIO then 1 else 0)" by (auto simp: settled_def)
  then show ?case using L(2) by (intro exI [of _ "K @ L"]) (auto split: if_split_asm)
qed

subsection \<open>Examples\<close>

definition example_wb_of :: "fuse_sb \<Rightarrow> fuse_wb" where
  "example_wb_of sb = \<lparr>wb_sb = sb, frames = (\<lambda>_. None), next_frame = 0, wb_stat = 0, node_temp = (\<lambda>_. 0), wb_outs = 0,
     mapping_errors = [], pg_writeback = {}, pg_locked = {}, page_wakes = 0\<rparr>"

definition example_dentry :: "ino_id option \<Rightarrow> de_id \<Rightarrow> u8 list \<Rightarrow> dentry" where
  "example_dentry oi p nm = \<lparr>d_inode = oi, d_parent = p, d_name = nm, d_time = 0, d_hashed = True, d_in_lookup = False, d_count = 1\<rparr>"

definition example_ns :: fuse_ns where
  "example_ns = \<lparr>ns_wb = example_wb_of example_sb,
     dcache = [0 \<mapsto> example_dentry (Some 0) 0 [], 1 \<mapsto> example_dentry None 0 [97], 2 \<mapsto> example_dentry (Some 1) 0 [98]],
     jiffies = 1000, srv_lookups = (\<lambda>n. lookups n example_sb)\<rparr>"

definition example_env :: dir_env where
  "example_env = \<lparr>ts_jiffies = (\<lambda>s n. s * 250), cur_time = zero_time, umask = 0, rdonly = False, enc_msg = (\<lambda>_. [])\<rparr>"

definition example_entry :: "u64 \<Rightarrow> u32 \<Rightarrow> fuse_entry_out" where
  "example_entry n mode = \<lparr>eo_nodeid = n, eo_generation = 0, eo_entry_valid = 1, eo_attr_valid = 1, eo_entry_valid_nsec = 0,
     eo_attr_valid_nsec = 0, eo_attr = example_attr mode 10\<rparr>"

text \<open>A server that answers every question for a name with node 9 of the given mode.\<close>

definition example_server :: "u32 \<Rightarrow> dir_server" where
  "example_server mode = \<lparr>ds_entry = (\<lambda>_ ns. Some (0, example_entry 9 mode, count_lookups [9] ns)),
     ds_create = (\<lambda>_ ns. Some (- ENOSYS, (example_entry 0 0, \<lparr>oo_fh = 0, oo_open_flags = {}\<rparr>), ns)),
     ds_plain = (\<lambda>_ ns. Some (0, (), ns)), ds_wait = (\<lambda>_ _ s. Some s), ds_encr = (\<lambda>_. [])\<rparr>"

lemma iget_ok:
  assumes "balanced (eo_nodeid out # E) ns" and "fuse_valid_type (attr_umode (eo_attr out))" and "ok 0" and "ok 1"
  shows "\<exists>i ns'. entry_iget env ok out ver ns = Some (Some i, ns') \<and> node_of ns' i = Some (eo_nodeid out) \<and> balanced E ns'"
proof (rule balanced_iget [OF assms(1,2), of env ok ver])
  fix found ns'
  assume "entry_iget env ok out ver ns = Some (found, ns')" "balanced (if found = None then eo_nodeid out # E else E) ns'"
    "found = None \<Longrightarrow> \<not> (ok 0 \<and> ok 1)" "\<And>i. found = Some i \<Longrightarrow> node_of ns' i = Some (eo_nodeid out)"
  then show ?thesis using assms(3,4) by (cases found) auto
qed

lemma example_server_keeps: "server_keeps (example_server mode)"
  using balanced_count [of _ _ "[9]"]
  by (auto simp: server_keeps_def example_server_def exchange_def quiet_wait_def entry_names_def example_entry_def errno_defs)

lemma example_balanced: "balanced [] example_ns"
  using example_sb_inv by (simp add: balanced_def example_ns_def example_wb_of_def)

lemma dir_lookups_balanced_witness:
  "\<exists>ns1 ns2. dir_run (example_server 0x1a4) example_ns [- EIO] ns1 \<and> dir_run (example_server 0x81a4) example_ns [0] ns2 \<and>
     (\<exists>L. balanced L ns1 \<and> length L \<le> 1) \<and> balanced [] ns2"
proof -
  have 1: "\<exists>ns'. dir_step (example_server 0x1a4) example_env (\<lambda>_ _. True) (Op_lookup Splice_here 0 1) example_ns = Some (- EIO, ns')"
    by (simp add: example_server_def fuse_lookup_def fuse_lookup_name_def node_of_def example_ns_def example_wb_of_def
        example_dentry_def example_entry_def example_attr_def example_sb_def FUSE_NAME_MAX_def count_lookups_def errno_of_def
        fuse_valid_type_def S_ISREG_def S_ISDIR_def S_ISLNK_def S_ISSPECIAL_def attr_umode_def mode_defs errno_defs Let_def)
  have 2: "\<exists>ns'. dir_step (example_server 0x81a4) example_env (\<lambda>_ _. True) (Op_lookup Splice_here 0 1) example_ns = Some (0, ns')"
  proof -
    let ?ns = "count_lookups [9] example_ns" and ?o = "example_entry 9 0x81a4"
    have b: "balanced (eo_nodeid ?o # []) ?ns" using balanced_count [OF example_balanced, of "[9]"] by (simp add: example_entry_def)
    have v: "fuse_valid_type (attr_umode (eo_attr ?o))" using example_attr_valid by (simp add: example_entry_def)
    from iget_ok [OF b v, of "\<lambda>_. True" example_env "fuse_get_attr_version example_sb"] obtain i ns' where
      i: "entry_iget example_env (\<lambda>_. True) ?o (fuse_get_attr_version example_sb) ?ns = Some (Some i, ns')" "node_of ns' i = Some 9"
      by (auto simp: example_entry_def)
    moreover have "dcache example_ns 1 = Some (example_dentry None 0 [97])" "node_of example_ns 0 = Some 7" "nsb example_ns = example_sb"
      by (simp_all add: example_ns_def node_of_def example_wb_of_def example_sb_def example_inode_def)
    ultimately show ?thesis using v
      by (simp add: example_server_def fuse_lookup_def fuse_lookup_name_def FUSE_NAME_MAX_def example_dentry_def errno_of_def
          example_entry_def lookup_add_def d_splice_alias_def Let_def)
  qed
  from 1 2 obtain ns1 ns2 where s: "dir_step (example_server 0x1a4) example_env (\<lambda>_ _. True) (Op_lookup Splice_here 0 1) example_ns = Some (- EIO, ns1)"
      "dir_step (example_server 0x81a4) example_env (\<lambda>_ _. True) (Op_lookup Splice_here 0 1) example_ns = Some (0, ns2)" by blast
  have r: "dir_run (example_server 0x1a4) example_ns [- EIO] ns1" "dir_run (example_server 0x81a4) example_ns [0] ns2"
    by (rule dir_run.Step [OF dir_run.Start _ s(1)] dir_run.Step [OF dir_run.Start _ s(2)], simp)+
  have "\<exists>L. balanced L ns1 \<and> length L \<le> 1" using dir_lookups_balanced [OF example_server_keeps r(1) example_balanced] by simp
  moreover have "balanced [] ns2"
    using dir_lookups_balanced [OF example_server_keeps r(2) example_balanced] by (auto simp: errno_defs)
  ultimately show ?thesis using r by blast
qed

end
