(* ===== verification/Fuse_Attr_Correct.thy ===== *)
theory Fuse_Attr_Correct
  imports Fuse_Attr Fuse_Dir_Correct
begin

text \<open>
  What holds of permissions and attributes: denials rest on attributes fetched in the same call, and SETATTR
  lets the writes of the inode go again on every path.
\<close>

subsection \<open>Releasing writes leaves the inode as it is\<close>

text \<open>The inodes that are left have their size and bits, and no more writes are held back.\<close>

definition mild :: "(ino_id \<rightharpoonup> fuse_inode) \<Rightarrow> (ino_id \<rightharpoonup> fuse_inode) \<Rightarrow> bool" where
  "mild m m' \<longleftrightarrow> (\<forall>j w'. m' j = Some w' \<longrightarrow> (\<exists>w. m j = Some w \<and> i_size w' = i_size w \<and> fi_state w' = fi_state w \<and>
     i_mode w' = i_mode w \<and> writectr w \<le> writectr w'))"

lemma mild_refl [simp]: "mild m m"
  by (simp add: mild_def)

lemma mild_trans: "mild m m1 \<Longrightarrow> mild m1 m2 \<Longrightarrow> mild m m2"
  unfolding mild_def by (fastforce intro: order_trans)

lemma mild_upd:
  assumes "\<And>w. i_size (f w) = i_size w" and "\<And>w. fi_state (f w) = fi_state w" and "\<And>w. i_mode (f w) = i_mode w"
    and "\<And>w. writectr w \<le> writectr (f w)"
  shows "mild m (m(i := map_option f (m i)))"
  using assms by (auto simp: mild_def)

lemma mild_remove: "mild m (m(i := None))"
  by (auto simp: mild_def)

lemma mild_iput: "iput i sb = Some sb' \<Longrightarrow> mild (inodes sb) (inodes sb')"
proof -
  assume run: "iput i sb = Some sb'"
  then obtain v where v: "inodes sb i = Some v" by (auto simp: iput_def split: option.split_asm)
  consider "inodes sb' = (inodes sb)(i := map_option (\<lambda>w. w\<lparr>i_count := i_count w - 1\<rparr>) (inodes sb i))"
    | "inodes sb' = (inodes sb)(i := None)"
    using run v by (auto simp: iput_def fuse_evict_inode_def fuse_destroy_inode_def Let_def
        elim!: bind_Some_E split: option.split_asm if_split_asm)
  then show ?thesis
  proof cases
    case 1
    then show ?thesis by (simp only:) (rule mild_upd, simp_all)
  next
    case 2
    then show ?thesis by (simp only: mild_remove)
  qed
qed

lemma mild_iput_opt: "iput_opt oi sb = Some sb' \<Longrightarrow> mild (inodes sb) (inodes sb')"
  by (auto simp: iput_opt_def mild_iput split: option.split_asm)

lemma mild_file_put:
  assumes "fuse_file_put wait ff sync sb = Some sb'"
  shows "mild (inodes sb) (inodes sb')"
proof -
  have drop: "mild (inodes t) (inodes t')" if "put_drop q r t = Some t'" for q r t t'
    using that by (auto simp: put_drop_def elim!: bind_Some_E dest!: mild_iput_opt)
  have sync: "mild (inodes t) (inodes t')" if "put_sync wait q r t = Some t'" for q r t t'
    using that by (auto simp: put_sync_def elim!: bind_Some_E dest!: mild_iput_opt)
  have async: "mild (inodes t) (inodes t')" if "put_async q r t = Some t'" for q r t t'
    using that by (auto simp: put_async_def fuse_release_end_def elim!: bind_Some_E dest!: mild_iput_opt split: if_split_asm)
  show ?thesis
    using assms
    by (auto simp: fuse_file_put_def Let_def elim!: bind_Some_E dest!: drop sync async split: if_split_asm)
qed

lemma mild_finish: "fuse_writepage_finish i q r wb = Some wb' \<Longrightarrow> mild (inodes (wb_sb wb)) (inodes (wb_sb wb'))"
proof -
  assume run: "fuse_writepage_finish i q r wb = Some wb'"
  have stats: "wb_sb t' = wb_sb t" if "stats_done ps t = Some t'" for ps t t'
    using that by (induction ps arbitrary: t) (auto simp: stat_done_def elim!: bind_Some_E)
  have "inodes (wb_sb wb') = (inodes (wb_sb wb))(i := map_option (writepages_update (without r)) (inodes (wb_sb wb) i))"
    using run stats by (auto simp: fuse_writepage_finish_def winode_update_def elim!: bind_Some_E)
  then show ?thesis by (simp only:) (rule mild_upd, simp_all)
qed

lemma mild_free: "fuse_writepage_free wait q wb = Some wb' \<Longrightarrow> mild (inodes (wb_sb wb)) (inodes (wb_sb wb'))"
  by (auto simp: fuse_writepage_free_def Let_def elim!: bind_Some_E dest!: mild_file_put split: option.split_asm)

lemma mild_send:
  assumes "fuse_send_writepage enc wait sz r wb = Some wb'"
  shows "mild (inodes (wb_sb wb)) (inodes (wb_sb wb'))"
proof -
  have free: "mild (inodes (wb_sb t)) (inodes (wb_sb t'))" if "send_free wait i q r t = Some t'" for i q r t t'
    using that by (auto simp: send_free_def wconn_update_def elim!: bind_Some_E dest!: mild_finish mild_free intro: mild_trans)
  have sent: "mild (inodes (wb_sb t)) (inodes (wb_sb t'))" if "send_write enc i w nx r n t = Some t'" for i w nx r n t t'
    using that mild_upd [of "writectr_update (\<lambda>c. c + 1)" "inodes (wb_sb t)" i]
    by (auto simp: send_write_def wconn_update_def winode_update_def elim!: bind_Some_E)
  show ?thesis
    using assms
    by (auto simp: fuse_send_writepage_def Let_def elim!: bind_Some_E dest!: free sent split: option.split_asm if_split_asm)
qed

lemma mild_flush:
  assumes "flush_queued enc wait crop i wb = Some wb'"
  shows "mild (inodes (wb_sb wb)) (inodes (wb_sb wb')) \<and>
    (\<exists>v. winode wb' i = Some v \<and> (writectr v < 0 \<or> queued_writes v = []))"
  using assms
proof (induction rule: flush_queued.raw_induct [rotated, consumes 1])
  case (1 flush enc wait crop i wb wb')
  obtain v where v: "winode wb i = Some v" using "1.hyps" by (auto elim: bind_Some_E)
  show ?case
  proof (cases "writectr v < 0 \<or> queued_writes v = []")
    case True
    then show ?thesis using "1.hyps" v by auto
  next
    case False
    then obtain wb1 where send: "fuse_send_writepage enc wait crop (hd (queued_writes v))
        (winode_update i (queued_writes_update tl) wb) = Some wb1" and rest: "flush enc wait crop i wb1 = Some wb'"
      using "1.hyps" v by (auto elim: bind_Some_E)
    have "mild (inodes (wb_sb wb)) (inodes (wb_sb (winode_update i (queued_writes_update tl) wb)))"
      using mild_upd [of "queued_writes_update tl" "inodes (wb_sb wb)" i] by (simp add: winode_update_def)
    with mild_send [OF send] "1.IH" [OF rest] show ?thesis by (blast intro: mild_trans)
  qed
qed

subsection \<open>Truncation\<close>

text \<open>No write of the inode is held back and its size is not being changed.\<close>

definition writes_held :: "ino_id \<Rightarrow> fuse_ns \<Rightarrow> bool" where
  "writes_held i ns \<longleftrightarrow> (\<exists>v. inodes (nsb ns) i = Some v \<and> writectr v < 0)"

definition writes_free :: "ino_id \<Rightarrow> fuse_ns \<Rightarrow> bool" where
  "writes_free i ns \<longleftrightarrow> \<not> writes_held i ns \<and>
     (\<forall>v. inodes (nsb ns) i = Some v \<longrightarrow> FUSE_I_SIZE_UNSTABLE \<notin> fi_state v)"

text \<open>All that were queued have been sent, and the inode has the size \<open>sz\<close>.\<close>

definition resized :: "ino_id \<Rightarrow> u64 option \<Rightarrow> fuse_ns \<Rightarrow> bool" where
  "resized i sz ns \<longleftrightarrow> (\<forall>v. inodes (nsb ns) i = Some v \<longrightarrow> queued_writes v = [] \<and> (sz = None \<or> Some (i_size v) = sz))"

definition size_of :: "ino_id \<Rightarrow> fuse_ns \<Rightarrow> u64 option" where
  "size_of i ns = map_option i_size (inodes (nsb ns) i)"

lemma release_resized:
  assumes "ns_release_nowrite encw wait i ns = Some ns'"
  shows "\<not> writes_held i ns'" and "resized i (size_of i ns) ns'"
proof -
  from assms obtain wb where run: "fuse_release_nowrite encw wait i (ns_wb ns) = Some wb" and ns': "ns' = ns\<lparr>ns_wb := wb\<rparr>"
    by (auto simp: ns_release_nowrite_def)
  then obtain v where v: "inodes (nsb ns) i = Some v" by (auto simp: fuse_release_nowrite_def elim!: bind_Some_E)
  let ?wb = "winode_update i (writectr_update (\<lambda>_. 0)) (ns_wb ns)"
  have "flush_queued encw wait (i_size v) i ?wb = Some wb"
    using run v by (auto simp: fuse_release_nowrite_def fuse_flush_writepages_def winode_update_def elim!: bind_Some_E split: if_split_asm)
  from mild_flush [OF this] obtain w where m: "mild (inodes (wb_sb ?wb)) (inodes (wb_sb wb))"
    and w: "inodes (wb_sb wb) i = Some w" "writectr w < 0 \<or> queued_writes w = []" by blast
  from m w(1) obtain u where "inodes (wb_sb ?wb) i = Some u" "i_size w = i_size u" "writectr u \<le> writectr w"
    unfolding mild_def by blast
  then have "i_size w = i_size v" "0 \<le> writectr w" using v by (auto simp: winode_update_def)
  then show "\<not> writes_held i ns'" "resized i (size_of i ns) ns'"
    using w v by (auto simp: ns' writes_held_def resized_def size_of_def)
qed

lemma clear_state_inodes [simp]:
  "inodes (nsb (clear_state b i ns)) = (inodes (nsb ns))(i := map_option (\<lambda>v. v\<lparr>fi_state := fi_state v - {b}\<rparr>) (inodes (nsb ns) i))"
  by (simp add: clear_state_def nsb_update_def)

lemma clear_frees: "writes_free i (clear_state FUSE_I_SIZE_UNSTABLE i ns) \<longleftrightarrow> \<not> writes_held i ns"
  by (cases "inodes (nsb ns) i") (simp_all add: writes_free_def writes_held_def)

lemma resized_clear [simp]: "resized i sz (clear_state b i ns) = resized i sz ns"
  by (cases "inodes (nsb ns) i") (simp_all add: resized_def)

lemma vfs_parts [simp]:
  "inodes (nsb (nsb_update (vfs c) ns)) = inodes (nsb ns)" "inodes (nsb (nsb_update (vfs c \<circ> vfs d) ns)) = inodes (nsb ns)"
  by (simp_all add: nsb_update_def)

lemma error_frees:
  assumes "setattr_error se trunc i ns = Some ns'" and "trunc \<or> \<not> writes_held i ns"
  shows "writes_free i ns'"
  using assms release_resized(1) by (auto simp: setattr_error_def clear_frees elim!: bind_Some_E split: if_split_asm)

lemma locked_resized:
  assumes run: "setattr_locked se is_wb trust trunc attr i out ns = Some (old, ns')" and nh: "trunc \<or> \<not> writes_held i ns"
  shows "\<not> writes_held i ns'" and "trunc \<Longrightarrow> resized i (Some (at_size (ao_attr out))) ns'"
proof -
  let ?sb1 = "fuse_change_attributes_common i (ao_attr out) (attr_timeout (se_env se) ns out) (upd_inode i (setattr_times trust attr) (nsb ns))"
  from run obtain v where v: "inodes ?sb1 i = Some v" unfolding setattr_locked_def Let_def by (elim bind_Some_E)
  moreover have "writectr (setattr_times trust attr w) = writectr w" for w by (simp add: setattr_times_def)
  ultimately have ctr: "writectr v < 0 \<longleftrightarrow> writes_held i ns"
    by (auto simp: fuse_change_attributes_common_def writes_held_def Let_def)
  show "\<not> writes_held i ns'"
  proof (cases trunc)
    case True
    then show ?thesis using run release_resized(1) by (auto simp: setattr_locked_def Let_def elim!: bind_Some_E)
  next
    case False
    then show ?thesis using run nh v ctr
      by (auto simp: setattr_locked_def Let_def writes_held_def set_nsb_def nsb_update_def elim!: bind_Some_E split: if_split_asm)
  qed
  assume trunc
  then obtain ns1 where "ns_release_nowrite (se_encw se) (se_wait se) i ns1 = Some ns'" and "size_of i ns1 = Some (at_size (ao_attr out))"
    using run v by (auto simp: setattr_locked_def Let_def size_of_def set_nsb_def nsb_update_def elim!: bind_Some_E)
  then show "resized i (Some (at_size (ao_attr out))) ns'" using release_resized(2) by metis
qed

lemma success_frees:
  assumes run: "setattr_success se is_wb trust trunc attr i out ns = Some ns'" and nh: "trunc \<or> \<not> writes_held i ns"
  shows "writes_free i ns'" and "trunc \<Longrightarrow> resized i (Some (at_size (ao_attr out))) ns'"
proof -
  from run obtain old ns1 v where lk: "setattr_locked se is_wb trust trunc attr i out ns = Some (old, ns1)"
    and v: "inodes (nsb ns1) i = Some v"
    by (auto simp: setattr_success_def elim!: bind_Some_E)
  obtain ns2 where same: "inodes (nsb ns2) = inodes (nsb ns1)" and ns': "ns' = clear_state FUSE_I_SIZE_UNSTABLE i ns2"
  proof (cases "(trunc \<or> \<not> is_wb) \<and> S_ISREG (i_mode v) \<and> old \<noteq> at_size (ao_attr out)")
    case True
    with run lk v show thesis
      by (intro that [of "nsb_update (vfs (Invalidate_pages2 i) \<circ> vfs (Truncate_pagecache i (at_size (ao_attr out)))) ns1"])
        (auto simp: setattr_success_def Let_def)
  next
    case False
    then show thesis using run lk v by (intro that [of ns1]) (auto simp: setattr_success_def Let_def)
  qed
  from same have "writes_held i ns2 = writes_held i ns1" and "\<And>sz. resized i sz ns2 = resized i sz ns1"
    by (simp_all add: writes_held_def resized_def)
  with locked_resized [OF lk nh] show "writes_free i ns'" and "trunc \<Longrightarrow> resized i (Some (at_size (ao_attr out))) ns'"
    by (simp_all add: ns' clear_frees)
qed

lemma hold_quiet:
  assumes "setattr_hold se trust i attr ns = Some (attr', ns')" and "ATTR_SIZE \<in> ia_valid attr"
  obtains h where "fuse_set_nowrite (se_waitq se) i ns = Some h" and "writes_quiet i (ns_wb h)" and "ns' = set_size_unstable i h"
    and "ia_size attr' = ia_size attr" and "ATTR_SIZE \<in> ia_valid attr'"
proof -
  from assms obtain h where set: "fuse_set_nowrite (se_waitq se) i ns = Some h" and ns': "ns' = set_size_unstable i h"
    by (auto simp: setattr_hold_def Let_def elim!: bind_Some_E)
  from set have "writes_quiet i (ns_wb h)" by (auto simp: fuse_set_nowrite_def elim!: bind_Some_E split: if_split_asm)
  moreover have "ia_size attr' = ia_size attr" "ATTR_SIZE \<in> ia_valid attr'"
    using assms set by (auto simp: setattr_hold_def Let_def elim!: bind_Some_E)
  ultimately show thesis using that set ns' by blast
qed

lemma fattr_if_size [simp]:
  "FATTR_SIZE \<in> sa_valid (fattr_if b FATTR_SIZE (sa_size_update (\<lambda>_. sz)) a) \<longleftrightarrow> b \<or> FATTR_SIZE \<in> sa_valid a"
  "sa_size (fattr_if b FATTR_SIZE (sa_size_update (\<lambda>_. sz)) a) = (if b then sz else sa_size a)"
  by (simp_all add: fattr_if_def)

lemma fattr_if_other [simp]:
  assumes "\<And>a. sa_size (g a) = sa_size a" and "\<And>a. sa_valid (g a) = sa_valid a"
  shows "sa_size (fattr_if b f g a) = sa_size a" and "f \<noteq> FATTR_SIZE \<Longrightarrow> FATTR_SIZE \<in> sa_valid (fattr_if b f g a) \<longleftrightarrow> FATTR_SIZE \<in> sa_valid a"
  using assms by (auto simp: fattr_if_def)

lemma inarg_size:
  assumes "setattr_inarg se trust attr file ns = Some a" and "ATTR_SIZE \<in> ia_valid attr"
  shows "FATTR_SIZE \<in> sa_valid a" and "sa_size a = ia_size attr"
proof -
  have "FATTR_SIZE \<in> sa_valid (iattr_to_fattr attr trust zero_setattr)" "sa_size (iattr_to_fattr attr trust zero_setattr) = ia_size attr"
    using assms(2) by (simp_all add: iattr_to_fattr_def Let_def)
  then show "FATTR_SIZE \<in> sa_valid a" "sa_size a = ia_size attr"
    using assms(1) by (auto simp: setattr_inarg_def Let_def elim!: bind_Some_E)
qed

lemma hold_nothing: "setattr_hold se trust i attr ns = Some (attr', ns') \<Longrightarrow> ATTR_SIZE \<notin> ia_valid attr \<Longrightarrow> ns' = ns"
  by (simp add: setattr_hold_def)

lemma marks_held [simp]:
  "writes_held i (invalidate_attr j ns) = writes_held i ns" "writes_held i (nsb_update (make_bad_inode j) ns) = writes_held i ns"
  by (auto simp: writes_held_def invalidate_attr_def fuse_invalidate_attr_def make_bad_inode_def nsb_update_def)

text \<open>
  The server's reply \<open>out\<close> to the size \<open>sz\<close>, given right after the wait for the writes that were under way, when
  none is.
\<close>

definition truncation_reply :: "setattr_env \<Rightarrow> ino_id \<Rightarrow> u64 \<Rightarrow> fuse_ns \<Rightarrow> fuse_attr_out \<Rightarrow> bool" where
  "truncation_reply se i sz ns out \<longleftrightarrow> (\<exists>h v a ns'. fuse_set_nowrite (se_waitq se) i ns = Some h \<and> writes_quiet i (ns_wb h) \<and>
     FATTR_SIZE \<in> sa_valid a \<and> sa_size a = sz \<and> inodes (nsb h) i = Some v \<and>
     se_ask se (fuse_setattr_fill (se_enc se) (nconn h) v a) (set_size_unstable i h) = Some (0, out, ns'))"

lemma fill_unstable [simp]:
  "fuse_setattr_fill enc s (v\<lparr>fi_state := st\<rparr>) a = fuse_setattr_fill enc s v a"
  by (simp add: fuse_setattr_fill_def)

lemma send_frees:
  assumes run: "setattr_send se is_wb trust attr file i ns = Some (err, ns')" and nh: "\<not> writes_held i ns"
    and keeps: "\<And>args ns e out ns'. se_ask se args ns = Some (e, out, ns') \<Longrightarrow> writes_held i ns' = writes_held i ns"
  shows "writes_free i ns'"
    and "err = 0 \<Longrightarrow> ATTR_SIZE \<in> ia_valid attr \<Longrightarrow>
      \<exists>out. truncation_reply se i (ia_size attr) ns out \<and> resized i (Some (at_size (ao_attr out))) ns'"
proof -
  from run obtain attr1 ns1 v a where hold: "setattr_hold se trust i attr ns = Some (attr1, ns1)"
      and v: "inodes (nsb ns1) i = Some v" and a: "setattr_inarg se trust attr1 file ns1 = Some a"
    by (auto simp: setattr_send_def Let_def elim!: bind_Some_E)
  from run hold v a obtain e out ns2 where
      ask: "se_ask se (fuse_setattr_fill (se_enc se) (nconn ns1) v a) ns1 = Some (e, out, ns2)"
    by (auto simp: setattr_send_def Let_def elim!: bind_Some_E)
  from run hold v a ask obtain w where w: "inodes (nsb ns2) i = Some w" by (auto simp: setattr_send_def Let_def elim!: bind_Some_E)
  let ?t = "ATTR_SIZE \<in> ia_valid attr"
  have nh2: "?t \<or> \<not> writes_held i ns2" using keeps [OF ask] nh hold_nothing [OF hold] by auto
  have rest: "(if e \<noteq> 0 then map_option (Pair e) (setattr_error se ?t i (if e = - EINTR then invalidate_attr i ns2 else ns2))
     else if attr_type_differs w out
     then map_option (Pair (- EIO)) (setattr_error se ?t i (nsb_update (make_bad_inode i) ns2))
     else map_option (Pair 0) (setattr_success se is_wb trust ?t attr1 i out ns2)) = Some (err, ns')"
    using run hold v a ask w by (simp add: setattr_send_def Let_def)
  then show "writes_free i ns'"
    using error_frees success_frees(1) nh2 by (fastforce split: if_split_asm)
  assume "err = 0" and t: ?t
  with rest have e: "e = 0" and succ: "setattr_success se is_wb trust ?t attr1 i out ns2 = Some ns'"
    by (auto simp: errno_defs split: if_split_asm)
  have "truncation_reply se i (ia_size attr) ns out"
  proof (rule hold_quiet [OF hold t])
    fix h
    assume h: "fuse_set_nowrite (se_waitq se) i ns = Some h" "writes_quiet i (ns_wb h)" "ns1 = set_size_unstable i h"
      and keep: "ia_size attr1 = ia_size attr" "ATTR_SIZE \<in> ia_valid attr1"
    from v h(3) obtain u where u: "inodes (nsb h) i = Some u" "v = u\<lparr>fi_state := insert FUSE_I_SIZE_UNSTABLE (fi_state u)\<rparr>"
      by (auto simp: set_size_unstable_def nsb_update_def)
    moreover have "nconn ns1 = nconn h" by (simp add: h(3) set_size_unstable_def nsb_update_def)
    ultimately show ?thesis
      unfolding truncation_reply_def using h(1,2) ask e inarg_size [OF a keep(2)] keep(1) by (auto simp: h(3))
  qed
  with success_frees(2) [OF succ nh2 t] show "\<exists>out. truncation_reply se i (ia_size attr) ns out \<and> resized i (Some (at_size (ao_attr out))) ns'" by blast
qed

definition prepared :: "setattr_env \<Rightarrow> iattr \<Rightarrow> fuse_ns \<Rightarrow> iattr" where
  "prepared se attr ns = snd (se_prepare se (if Default_permissions \<in> fc_bits (nconn ns) then attr
     else attr\<lparr>ia_valid := insert ATTR_FORCE (ia_valid attr)\<rparr>))"

definition asks_size :: "setattr_env \<Rightarrow> iattr \<Rightarrow> fuse_ns \<Rightarrow> bool" where
  "asks_size se attr ns \<longleftrightarrow> ATTR_SIZE \<in> ia_valid (prepared se attr ns) \<and>
     \<not> (ATTR_OPEN \<in> ia_valid (prepared se attr ns) \<and> Atomic_o_trunc \<in> fc_bits (nconn ns))"

text \<open>
  C6: On every path through \<open>fuse_do_setattr\<close> the writes of the inode may go on and the bit for an unstable size is
  clear. A truncation that succeeded asked the server while no write of the inode was under way, has sent the writes that
  waited meanwhile, and leaves the size of the reply. The server's replies do not hold back or release writes.
\<close>

theorem setattr_releases_writes:
  assumes "fuse_do_setattr se d attr file ns = Some (err, ns')" and "dentry_inode ns d = Some i" and "writes_free i ns"
    and "\<And>args ns e out ns'. se_ask se args ns = Some (e, out, ns') \<Longrightarrow> writes_held i ns' = writes_held i ns"
  shows "writes_free i ns' \<and> (err = 0 \<and> asks_size se attr ns \<longrightarrow>
    (\<exists>out. truncation_reply se i (ia_size (prepared se attr ns)) ns out \<and> resized i (Some (at_size (ao_attr out))) ns'))"
proof -
  from assms(3) have nh: "\<not> writes_held i ns" by (simp add: writes_free_def)
  obtain e attr1 where p: "se_prepare se (if Default_permissions \<in> fc_bits (nconn ns) then attr
      else attr\<lparr>ia_valid := insert ATTR_FORCE (ia_valid attr)\<rparr>) = (e, attr1)" by fastforce
  then have attr1: "prepared se attr ns = attr1" by (simp add: prepared_def)
  from assms(1,2) p have res: "(err, ns') = (e, ns) \<and> e \<noteq> 0 \<or>
      (err, ns') = (0, ns) \<and> ATTR_OPEN \<in> ia_valid attr1 \<and> Atomic_o_trunc \<in> fc_bits (nconn ns) \<or>
      (\<exists>is_wb trust file. setattr_send se is_wb trust attr1 file i ns = Some (err, ns'))"
    by (auto simp: fuse_do_setattr_def Let_def elim!: bind_Some_E split: if_split_asm)
  then consider "ns' = ns" "\<not> (err = 0 \<and> asks_size se attr ns)"
    | is_wb trust fp where "setattr_send se is_wb trust attr1 fp i ns = Some (err, ns')"
    by (auto simp: asks_size_def attr1)
  then show ?thesis
  proof cases
    case 1
    then show ?thesis using assms(3) by auto
  next
    case 2
    from send_frees [OF this nh assms(4)] show ?thesis by (auto simp: asks_size_def attr1)
  qed
qed

subsection \<open>Permissions\<close>

text \<open>The check that decides locally, by the options of the mount and what is asked for.\<close>

definition local_check :: "(may set \<Rightarrow> fuse_inode \<Rightarrow> int) \<Rightarrow> may set \<Rightarrow> fuse_ns \<Rightarrow> fuse_inode \<Rightarrow> fuse_inode \<Rightarrow> int" where
  "local_check gperm msk ns v =
     (if Default_permissions \<in> fc_bits (nconn ns) then gperm msk
      else if MAY_EXEC \<in> msk \<and> S_ISREG (i_mode v) then exec_check
      else (\<lambda>_. 0))"

text \<open>What the exchange with the server does not change: the option, and the kind of the inode.\<close>

definition same_kind :: "ino_id \<Rightarrow> fuse_ns \<Rightarrow> fuse_ns \<Rightarrow> bool" where
  "same_kind i ns ns' \<longleftrightarrow> (Default_permissions \<in> fc_bits (nconn ns') \<longleftrightarrow> Default_permissions \<in> fc_bits (nconn ns)) \<and>
     (\<forall>v v'. inodes (nsb ns) i = Some v \<longrightarrow> inodes (nsb ns') i = Some v' \<longrightarrow> S_ISREG (i_mode v') = S_ISREG (i_mode v))"

lemma regular_common [simp]: "S_ISREG (i_mode (common_change sb attr valid v)) = S_ISREG (i_mode v)"
  by (simp add: S_ISREG_def)

lemma change_kind:
  assumes "fuse_change_attributes i attr valid ver sb = Some sb'"
  shows "fc_bits (conn sb') = fc_bits (conn sb)" and "inodes sb i = Some v \<Longrightarrow> inodes sb' i = Some w \<Longrightarrow> S_ISREG (i_mode w) = S_ISREG (i_mode v)"
proof -
  show "fc_bits (conn sb') = fc_bits (conn sb)"
    using assms by (auto simp: fuse_change_attributes_def change_common_alt Let_def split: option.split_asm if_split_asm)
  assume "inodes sb i = Some v" and "inodes sb' i = Some w"
  then show "S_ISREG (i_mode w) = S_ISREG (i_mode v)"
    using assms by (auto simp: fuse_change_attributes_def change_common_alt Let_def elim!: bind_Some_E split: if_split_asm)
qed

lemma getattr_kind:
  assumes run: "fuse_do_getattr env enc ask i file ns = Some (0, st, ns')" and v: "inodes (nsb ns) i = Some v"
    and keeps: "\<And>args ns e out ns'. ask args ns = Some (e, out, ns') \<Longrightarrow> same_kind i ns ns'"
  obtains w where "inodes (nsb ns') i = Some w" and "same_kind i ns ns'"
proof -
  from run v obtain fh where fh: "getattr_handle v file ns = Some fh" by (auto simp: fuse_do_getattr_def elim!: bind_Some_E)
  with run v obtain e out ns1 where ask: "ask (attr_args enc (nconn ns) FUSE_GETATTR (nodeid v) W_getattr_in (Getattr_in fh)) ns = Some (e, out, ns1)"
    by (auto simp: fuse_do_getattr_def elim!: bind_Some_E)
  with run v fh have "getattr_reply env i out (fuse_get_attr_version (nsb ns)) ns1 = Some (0, st, ns')"
    by (auto simp: fuse_do_getattr_def split: if_split_asm)
  then obtain u sb w where u: "inodes (nsb ns1) i = Some u" and sb: "fuse_change_attributes i (ao_attr out) (attr_timeout env ns1 out)
        (fuse_get_attr_version (nsb ns)) (nsb ns1) = Some sb" and w: "inodes sb i = Some w" and ns': "ns' = set_nsb ns1 sb"
    by (auto simp: getattr_reply_def errno_defs elim!: bind_Some_E split: if_split_asm)
  from change_kind [OF sb] u w have "same_kind i ns1 ns'" by (auto simp: same_kind_def ns' set_nsb_def nsb_update_def)
  with keeps [OF ask] u have "same_kind i ns ns'" by (auto simp: same_kind_def)
  with that w show thesis by (simp add: ns' set_nsb_def nsb_update_def)
qed

lemma perm_getattr_kind:
  assumes "fuse_perm_getattr env enc ask i msk ns = Some (0, ns')" and "inodes (nsb ns) i = Some v"
    and "\<And>args ns e out ns'. ask args ns = Some (e, out, ns') \<Longrightarrow> same_kind i ns ns'"
  obtains w where "inodes (nsb ns') i = Some w" and "Default_permissions \<in> fc_bits (nconn ns') \<longleftrightarrow> Default_permissions \<in> fc_bits (nconn ns)"
    and "S_ISREG (i_mode w) = S_ISREG (i_mode v)"
proof -
  let ?ns = "nsb_update (vfs (Forget_acls i)) ns"
  have v: "inodes (nsb ?ns) i = Some v" using assms(2) by simp
  from assms(1) obtain st where "fuse_do_getattr env enc ask i None ?ns = Some (0, st, ns')"
    by (auto simp: fuse_perm_getattr_def errno_defs split: if_split_asm)
  then obtain w where w: "inodes (nsb ns') i = Some w" and "same_kind i ?ns ns'" 
    by (rule getattr_kind [where ask = ask, OF _ v assms(3)])
  with v have "Default_permissions \<in> fc_bits (nconn ns') \<longleftrightarrow> Default_permissions \<in> fc_bits (nconn ns)"
    and "S_ISREG (i_mode w) = S_ISREG (i_mode v)"
    by (auto simp: same_kind_def nsb_update_def)
  with that w show thesis by blast
qed

lemma local_fresh: "permission_local env enc ask check True i msk ns = Some (r, ns') \<longleftrightarrow>
    (\<exists>v. inodes (nsb ns) i = Some v \<and> r = check v) \<and> ns' = ns"
  by (auto simp: permission_local_def elim!: bind_Some_E)

lemma local_cached:
  assumes "permission_local env enc ask check False i msk ns = Some (r, ns')" and "inodes (nsb ns) i = Some v"
  shows "(r = check v \<and> r \<noteq> - EACCES \<and> ns' = ns) \<or>
    (\<exists>err. fuse_perm_getattr env enc ask i msk ns = Some (err, ns') \<and>
      (if err = 0 then \<exists>w. inodes (nsb ns') i = Some w \<and> r = check w else r = err))"
  using assms by (auto simp: permission_local_def elim!: bind_Some_E split: if_split_asm)

text \<open>
  C37: With local checks (\<open>default_permissions\<close>, or no check but that of the execute bits) \<open>fuse_permission\<close> never denies
  access because of attributes it had in its cache. Either the attributes at hand do not deny it and nothing is asked, and
  they have not expired if the check looks at them; or exactly the GETATTR of this call decides, by its error or by the
  check of the attributes it brought.
\<close>

theorem permission_denials_fresh:
  assumes "fuse_permission c env enc ask aska gperm i msk ns = Some (r, ns')" and "fuse_allow_current_process c (nconn ns)"
    and "inodes (nsb ns) i = Some v" and "Default_permissions \<in> fc_bits (nconn ns) \<or> msk \<inter> {MAY_ACCESS, MAY_CHDIR} = {}"
    and "\<And>args ns e out ns'. ask args ns = Some (e, out, ns') \<Longrightarrow> same_kind i ns ns'"
  shows "(r = local_check gperm msk ns v v \<and> r \<noteq> - EACCES \<and> ns' = ns \<and>
      (Default_permissions \<in> fc_bits (nconn ns) \<or> MAY_EXEC \<in> msk \<and> S_ISREG (i_mode v) \<longrightarrow> \<not> time_before64 (i_time v) (jiffies ns))) \<or>
    (\<exists>err. fuse_perm_getattr env enc ask i msk ns = Some (err, ns') \<and>
      (if err = 0 then \<exists>w. inodes (nsb ns') i = Some w \<and> r = local_check gperm msk ns v w else r = err))"
proof -
  let ?need = "Default_permissions \<in> fc_bits (nconn ns) \<or> MAY_EXEC \<in> msk \<and> S_ISREG (i_mode v)"
  show ?thesis
  proof (cases "?need \<and> time_before64 (i_time v) (jiffies ns)")
    case True
    with assms(1-3) obtain err ns1 where perm: "fuse_perm_getattr env enc ask i msk ns = Some (err, ns1)"
      by (auto simp: fuse_permission_def permission_refresh_def elim!: bind_Some_E)
    show ?thesis
    proof (cases "err = 0")
      case False
      with assms(1-3) True perm show ?thesis by (auto simp: fuse_permission_def permission_refresh_def elim!: bind_Some_E)
    next
      case err: True
      show ?thesis
      proof (rule perm_getattr_kind [where ask = ask, OF perm [unfolded err] assms(3,5)])
        fix w
        assume "inodes (nsb ns1) i = Some w" and "Default_permissions \<in> fc_bits (nconn ns1) \<longleftrightarrow> Default_permissions \<in> fc_bits (nconn ns)"
          and "S_ISREG (i_mode w) = S_ISREG (i_mode v)"
        with assms(1-4) True perm err have "ns' = ns1 \<and> r = local_check gperm msk ns v w"
          by (auto simp: fuse_permission_def permission_refresh_def local_fresh local_check_def split: if_split_asm)
        with perm err show ?thesis using \<open>inodes (nsb ns1) i = Some w\<close> by auto
      qed
    qed
  next
    case False
    with assms(1-3) have "?need \<and> permission_local env enc ask (local_check gperm msk ns v) False i msk ns = Some (r, ns') \<or>
        \<not> ?need \<and> r = 0 \<and> ns' = ns"
      using assms(4) by (auto simp: fuse_permission_def permission_refresh_def local_check_def split: if_split_asm)
    then show ?thesis
    proof
      assume "?need \<and> permission_local env enc ask (local_check gperm msk ns v) False i msk ns = Some (r, ns')"
      then show ?thesis using local_cached [OF _ assms(3)] False by blast
    next
      assume "\<not> ?need \<and> r = 0 \<and> ns' = ns"
      then show ?thesis by (auto simp: local_check_def errno_defs)
    qed
  qed
qed

subsection \<open>Examples\<close>

definition example_out :: "u32 \<Rightarrow> u64 \<Rightarrow> fuse_attr_out" where
  "example_out mode sz = \<lparr>ao_attr_valid = 1, ao_attr_valid_nsec = 0, ao_attr = example_attr mode sz\<rparr>"

definition example_cred :: cred where
  "example_cred = \<lparr>cr_uid = 0, cr_euid = 0, cr_suid = 0, cr_gid = 0, cr_egid = 0, cr_sgid = 0\<rparr>"

text \<open>Whatever is asked, the server reports a regular file with 5 bytes; nothing is under way.\<close>

definition example_se :: setattr_env where
  "example_se = \<lparr>se_env = example_env, se_enc = (\<lambda>_. []), se_ask = (\<lambda>_ ns. Some (0, example_out 0x81a4 5, ns)),
     se_encw = (\<lambda>_. []), se_wait = (\<lambda>_ _. Some), se_waitq = (\<lambda>_. Some), se_prepare = Pair 0, se_files = 0\<rparr>"

definition example_iattr :: iattr where
  "example_iattr = \<lparr>ia_valid = {ATTR_SIZE}, ia_mode = 0, ia_uid = 0, ia_gid = 0, ia_size = 5, ia_atime = zero_time,
     ia_mtime = zero_time, ia_ctime = zero_time\<rparr>"

lemmas example_attr_defs = example_out_def example_ns_def example_wb_of_def example_dentry_def example_env_def example_sb_defs

abbreviation example_hold :: fuse_ns where
  "example_hold \<equiv> set_size_unstable 1 (the (fuse_set_nowrite (\<lambda>_. Some) 1 example_ns))"

lemma example_hold:
  shows "fuse_set_nowrite (\<lambda>_. Some) 1 example_ns \<noteq> None" and "inodes (nsb example_hold) 1 =
      Some ((example_inode 8)\<lparr>writectr := FUSE_NOWRITE, fi_state := {FUSE_I_SIZE_UNSTABLE}\<rparr>)"
    and "fc_bits (nconn example_hold) = {}"
  by (simp_all add: fuse_set_nowrite_def set_nowrite_start_def writes_quiet_def winode_update_def set_size_unstable_def
      nsb_update_def example_attr_defs)

lemma example_success:
  assumes v: "inodes (nsb ns) i = Some v" "writectr v = FUSE_NOWRITE" "queued_writes v = []" "fc_bits (nconn ns) = {}"
  shows "\<exists>ns'. setattr_success example_se False False True attr i out ns = Some ns'"
proof -
  have "\<exists>old ns1 w. setattr_locked example_se False False True attr i out ns = Some (old, ns1) \<and> inodes (nsb ns1) i = Some w"
    using v by (simp add: setattr_locked_def example_se_def setattr_times_def change_common_alt common_change_def Let_def ns_release_nowrite_def
      fuse_release_nowrite_def fuse_flush_writepages_def flush_queued.simps winode_update_def set_nsb_def nsb_update_def)
  then show ?thesis by (auto simp: setattr_success_def Let_def)
qed

lemma setattr_releases_writes_witness:
  "\<exists>ns'. fuse_do_setattr example_se 2 example_iattr None example_ns = Some (0, ns') \<and> writes_free 1 ns' \<and> resized 1 (Some 5) ns'"
proof -
  let ?a = "example_iattr\<lparr>ia_valid := {ATTR_FORCE, ATTR_SIZE}\<rparr>" and ?o = "example_out 0x81a4 5"
  have d: "dentry_inode example_ns 2 = Some 1" "inodes (nsb example_ns) 1 = Some (example_inode 8)" "fc_bits (nconn example_ns) = {}"
    by (simp_all add: dentry_inode_def example_attr_defs)
  have f: "writes_free 1 example_ns" by (simp add: writes_free_def writes_held_def example_attr_defs)
  have k: "writes_held 1 ns' = writes_held 1 ns" if "se_ask example_se args ns = Some (e, out, ns')" for args ns e out ns'
    using that by (simp add: example_se_def)
  have hold: "setattr_hold example_se False 1 ?a example_ns = Some (?a, example_hold)"
    using example_hold by (auto simp: setattr_hold_def Let_def example_se_def)
  have arg: "setattr_inarg example_se False ?a None example_hold \<noteq> None" by (simp add: setattr_inarg_def Let_def)
  have type: "\<not> attr_type_differs ((example_inode 8)\<lparr>writectr := FUSE_NOWRITE, fi_state := {FUSE_I_SIZE_UNSTABLE}\<rparr>) ?o"
    by (simp add: attr_type_differs_def attr_umode_def mode_defs example_attr_defs)
  obtain ns' where succ: "setattr_success example_se False False True ?a 1 ?o example_hold = Some ns'"
    using example_success [OF example_hold(2) _ _ example_hold(3)] by (auto simp: example_inode_def new_inode_def)
  have "setattr_send example_se False False ?a None 1 example_ns = Some (0, ns')"
    using hold arg type succ example_hold(2) by (auto simp: setattr_send_def Let_def example_iattr_def) (auto simp: example_se_def)
  then have run: "fuse_do_setattr example_se 2 example_iattr None example_ns = Some (0, ns')"
    using d by (auto simp: fuse_do_setattr_def Let_def example_iattr_def example_se_def)
  moreover have "asks_size example_se example_iattr example_ns"
    using d by (simp add: asks_size_def prepared_def example_se_def example_iattr_def)
  moreover have "out = ?o" if "truncation_reply example_se 1 sz example_ns out" for sz out
    using that by (auto simp: truncation_reply_def example_se_def)
  ultimately show ?thesis using setattr_releases_writes [OF run d(1) f k] 
    by (fastforce simp: example_out_def example_attr_def)
qed

abbreviation example_ask :: "fuse_attr_out dask" where
  "example_ask \<equiv> \<lambda>_ ns. Some (0, example_out 0x81ed 5, ns)"

lemma permission_denials_fresh_witness:
  "\<exists>ns'. fuse_permission example_cred example_env (\<lambda>_. []) example_ask (\<lambda>_ ns. Some (0, (), ns)) (\<lambda>_ _. 0) 1 {MAY_EXEC} example_ns = Some (0, ns') \<and>
     fuse_perm_getattr example_env (\<lambda>_. []) example_ask 1 {MAY_EXEC} example_ns = Some (0, ns')"
proof -
  have v: "inodes (nsb example_ns) 1 = Some (example_inode 8)" by (simp add: example_ns_def example_wb_of_def example_sb_def)
  have e: "time_before64 (i_time (example_inode 8)) (jiffies example_ns)" "S_ISREG (i_mode (example_inode 8))" "fc_bits (nconn example_ns) = {}"
    by (simp_all add: time_before64_def S_ISREG_def mode_defs word_sless_alt example_attr_defs)
  have a: "fuse_allow_current_process example_cred (nconn example_ns)"
    by (simp add: fuse_allow_current_process_def example_cred_def example_attr_defs)
  have "\<exists>ns' w. fuse_perm_getattr example_env (\<lambda>_. []) example_ask 1 {MAY_EXEC} example_ns = Some (0, ns') \<and>
      inodes (nsb ns') 1 = Some w \<and> fc_bits (nconn ns') = {} \<and> i_mode w = 0x81ed"
    by (simp add: fuse_perm_getattr_def fuse_do_getattr_def getattr_handle_def getattr_reply_def v attr_type_differs_def
        fuse_change_attributes_def nsb_update_def set_nsb_def attr_stale_def change_common_alt Let_def common_change_def
        S_ISREG_def mode_defs attr_umode_def example_env_def fuse_get_attr_version_def example_attr_defs)
  then obtain ns' w where g: "fuse_perm_getattr example_env (\<lambda>_. []) example_ask 1 {MAY_EXEC} example_ns = Some (0, ns')"
    and w: "inodes (nsb ns') 1 = Some w" "fc_bits (nconn ns') = {}" "i_mode w = 0x81ed" by blast
  have run: "fuse_permission example_cred example_env (\<lambda>_. []) example_ask (\<lambda>_ ns. Some (0, (), ns)) (\<lambda>_ _. 0) 1 {MAY_EXEC} example_ns = Some (0, ns')"
    using v e a g w by (simp add: fuse_permission_def permission_refresh_def permission_local_def exec_check_def S_IXUGO_def)
  have "same_kind 1 ns n" if "example_ask args ns = Some (x, out, n)" for args ns x out n
    using that by (auto simp: same_kind_def)
  from permission_denials_fresh [OF run a v _ this] e run g show ?thesis by auto
qed

end
