(* ===== verification/Fuse_Readdir.thy ===== *)
theory Fuse_Readdir
  imports Fuse_Dir
begin

text \<open>
  Reading directories (\<open>dir.c\<close>, with \<open>fuse_read_fill\<close> of \<open>file.c\<close>): READDIR, whose records go to the caller, and
  READDIRPLUS, whose records also carry what a LOOKUP of each name would have returned.

  \<^item> The layout of a record is in \<open>linux/fuse.h\<close>, which is not in the repository: \<open>layout\<close> has the size of its fixed
    part, the size of a record with a name of a given length, and the fields at the start of a buffer.
  \<^item> \<open>dir_ctx\<close> is \<open>struct dir_context\<close>: the position, the entries the actor of the caller has taken, and whether
    it has room for one more.
  \<^item> The content of the page the reply is copied to is the value of the output argument. The argument of the
    request, which the code keeps in \<open>misc.read\<close>, is its byte image.
  \<^item> What \<open>d_lookup\<close> and \<open>d_alloc_parallel\<close> find is in \<open>link_env\<close>, one answer for each time they are called.
\<close>

subsection \<open>Records\<close>

record 'e layout =
  lay_fixed :: nat
  lay_size :: "nat \<Rightarrow> nat"
  lay_namelen :: "u8 list \<Rightarrow> nat"
  lay_ino :: "u8 list \<Rightarrow> u64"
  lay_off :: "u8 list \<Rightarrow> u64"
  lay_type :: "u8 list \<Rightarrow> u32"
  lay_entry :: "u8 list \<Rightarrow> 'e"

record emitted =
  em_name :: "u8 list"
  em_pos :: u64
  em_ino :: u64
  em_type :: u32

record dir_ctx =
  cx_pos :: u64
  cx_out :: "emitted list"
  cx_room :: "emitted list \<Rightarrow> emitted \<Rightarrow> bool"

definition rec_name :: "'e layout \<Rightarrow> u8 list \<Rightarrow> u8 list" where
  "rec_name lay buf = take (lay_namelen lay buf) (drop (lay_fixed lay) buf)"

definition dir_emit :: "'e layout \<Rightarrow> u8 list \<Rightarrow> dir_ctx \<Rightarrow> bool \<times> dir_ctx" where
  "dir_emit lay buf ctx =
     (let e = \<lparr>em_name = rec_name lay buf, em_pos = cx_pos ctx, em_ino = lay_ino lay buf, em_type = lay_type lay buf\<rparr>
      in if cx_room ctx (cx_out ctx) e then (True, ctx\<lparr>cx_out := cx_out ctx @ [e]\<rparr>) else (False, ctx))"

text \<open>The slash.\<close>

definition SLASH :: u8 where "SLASH = 0x2f"

text \<open>The checks of a record in both loops: 0 to take it, 1 at a record that is cut off, or an error.\<close>

definition rec_check :: "'e layout \<Rightarrow> u8 list \<Rightarrow> int" where
  "rec_check lay buf =
     (if lay_namelen lay buf = 0 \<or> FUSE_NAME_MAX < lay_namelen lay buf then - EIO
      else if length buf < lay_size lay (lay_namelen lay buf) then 1
      else if SLASH \<in> set (rec_name lay buf) then - EIO
      else 0)"

definition rec_rest :: "'e layout \<Rightarrow> u8 list \<Rightarrow> u8 list" where
  "rec_rest lay buf = drop (lay_size lay (lay_namelen lay buf)) buf"

text \<open>\<open>buf\<close> has the \<open>nbytes\<close> bytes that are left. A loop that does not end is \<open>None\<close>.\<close>

partial_function (option) parse_dirfile :: "'e layout \<Rightarrow> u8 list \<Rightarrow> dir_ctx \<Rightarrow> (int \<times> dir_ctx) option" where
  "parse_dirfile lay buf ctx =
     (if length buf < lay_fixed lay then Some (0, ctx)
      else if rec_check lay buf = 1 then Some (0, ctx)
      else if rec_check lay buf \<noteq> 0 then Some (rec_check lay buf, ctx)
      else if \<not> fst (dir_emit lay buf ctx) then Some (0, snd (dir_emit lay buf ctx))
      else parse_dirfile lay (rec_rest lay buf) ((snd (dir_emit lay buf ctx))\<lparr>cx_pos := lay_off lay buf\<rparr>))"

subsection \<open>Linking the entries of READDIRPLUS\<close>

datatype dfound = Found_error int | Found_name de_id | Found_new de_id

record link_env =
  le_ok :: oom
  le_found :: "dfound list"
  le_splice :: splice

definition d_alloc :: "de_id \<Rightarrow> de_id \<Rightarrow> u8 list \<Rightarrow> fuse_ns \<Rightarrow> fuse_ns" where
  "d_alloc d parent nm ns = ns\<lparr>dcache := (dcache ns)(d \<mapsto> \<lparr>d_inode = None, d_parent = parent, d_name = nm, d_time = 0,
     d_hashed = False, d_in_lookup = True, d_count = 1\<rparr>)\<rparr>"

definition d_lookup_done :: "de_id \<Rightarrow> fuse_ns \<Rightarrow> fuse_ns" where
  "d_lookup_done d = upd_dentry d (d_in_lookup_update (\<lambda>_. False))"

definition link_matches :: "fuse_entry_out \<Rightarrow> de_id \<Rightarrow> fuse_ns \<Rightarrow> bool option" where
  "link_matches out d ns = do {
     e \<leftarrow> dcache ns d;
     (case d_inode e of
        None \<Rightarrow> Some False
      | Some i \<Rightarrow> map_option (\<lambda>v. nodeid v = eo_nodeid out \<and> \<not> type_differs out (i_mode v)) (inodes (nsb ns) i))}"

text \<open>The dentry of the name, and whether it is new. A cached name that does not match is dropped and asked for again.\<close>

fun direntplus_dentry ::
    "fuse_entry_out \<Rightarrow> de_id \<Rightarrow> u8 list \<Rightarrow> dfound list \<Rightarrow> fuse_ns \<Rightarrow> ((int + de_id \<times> bool) \<times> fuse_ns) option" where
  "direntplus_dentry out parent nm [] ns = None"
| "direntplus_dentry out parent nm (Found_error e # fs) ns = Some (Inl e, ns)"
| "direntplus_dentry out parent nm (Found_new d # fs) ns = Some (Inr (d, True), d_alloc d parent nm ns)"
| "direntplus_dentry out parent nm (Found_name d # fs) ns = do {
     m \<leftarrow> link_matches out d ns;
     if m then Some (Inr (d, False), dget d ns)
     else direntplus_dentry out parent nm fs (dput d (d_invalidate d (dget d ns)))}"

definition direntplus_done :: "dir_env \<Rightarrow> fuse_entry_out \<Rightarrow> de_id \<Rightarrow> ino_id \<Rightarrow> fuse_ns \<Rightarrow> fuse_ns" where
  "direntplus_done env out d i ns =
     (let ns1 = (if Readdirplus_auto \<in> fc_bits (nconn ns)
                 then nsb_update (upd_inode i (\<lambda>v. v\<lparr>fi_state := insert FUSE_I_INIT_RDPLUS (fi_state v)\<rparr>)) ns else ns)
      in dput d (fuse_change_entry_timeout env d out ns1))"

definition direntplus_known ::
    "dir_env \<Rightarrow> fuse_entry_out \<Rightarrow> u64 \<Rightarrow> de_id \<Rightarrow> fuse_ns \<Rightarrow> (int \<times> fuse_ns) option" where
  "direntplus_known env out ver d ns = do {
     i \<leftarrow> dentry_inode ns d;
     v \<leftarrow> inodes (nsb ns) i;
     if is_bad_inode v then Some (- EIO, dput d ns)
     else map_option (\<lambda>ns1. (0, direntplus_done env out d i ns1)) (refresh_attributes env i out ver (inc_nlookup i ns))}"

definition direntplus_new ::
    "dir_env \<Rightarrow> link_env \<Rightarrow> fuse_entry_out \<Rightarrow> u64 \<Rightarrow> de_id \<Rightarrow> fuse_ns \<Rightarrow> (int \<times> fuse_ns) option" where
  "direntplus_new env le out ver d ns = do {
     (found, ns1) \<leftarrow> entry_iget env (le_ok le) out ver ns;
     (case found of
        None \<Rightarrow> Some (- ENOMEM, dput d (d_lookup_done d ns1))
      | Some i \<Rightarrow> do {
          (res, ns2) \<leftarrow> d_splice_alias (le_splice le) (Some i) d ns1;
          let ns3 = d_lookup_done d ns2;
          (case res of
             Inl e \<Rightarrow> Some (e, dput d ns3)
           | Inr None \<Rightarrow> Some (0, direntplus_done env out d i ns3)
           | Inr (Some a) \<Rightarrow> Some (0, direntplus_done env out a i (dput d ns3)))})}"

definition dot_name :: "u8 list \<Rightarrow> bool" where
  "dot_name nm \<longleftrightarrow> nm = [0x2e] \<or> nm = [0x2e, 0x2e]"

definition fuse_direntplus_link ::
    "dir_env \<Rightarrow> link_env \<Rightarrow> de_id \<Rightarrow> u8 list \<Rightarrow> fuse_entry_out \<Rightarrow> u64 \<Rightarrow> fuse_ns \<Rightarrow> (int \<times> fuse_ns) option" where
  "fuse_direntplus_link env le parent nm out ver ns =
     (if eo_nodeid out = 0 \<or> dot_name nm then Some (0, ns)
      else if invalid_nodeid (eo_nodeid out) \<or> \<not> fuse_valid_type (attr_umode (eo_attr out)) then Some (- EIO, ns)
      else do {
        (res, ns1) \<leftarrow> direntplus_dentry out parent nm (le_found le) ns;
        (case res of
           Inl e \<Rightarrow> Some (e, ns1)
         | Inr (d, isnew) \<Rightarrow>
             if isnew then direntplus_new env le out ver d ns1 else direntplus_known env out ver d ns1)})"

text \<open>
  The loop of \<open>parse_dirplusfile\<close>: \<open>over\<close> says that the caller has no more room, \<open>k\<close> counts the records. \<open>forget\<close> is
  \<open>fuse_force_forget\<close>.
\<close>

partial_function (option) parse_dirplusfile ::
    "dir_env \<Rightarrow> (nat \<Rightarrow> link_env) \<Rightarrow> (u64 \<Rightarrow> fuse_ns \<Rightarrow> fuse_ns option) \<Rightarrow> fuse_entry_out layout \<Rightarrow> de_id \<Rightarrow> u64 \<Rightarrow> nat \<Rightarrow> bool \<Rightarrow>
      u8 list \<Rightarrow> dir_ctx \<Rightarrow> fuse_ns \<Rightarrow> (int \<times> dir_ctx \<times> fuse_ns) option" where
  "parse_dirplusfile env les forget lay parent ver k over buf ctx ns =
     (if length buf < lay_fixed lay then Some (0, ctx, ns)
      else if rec_check lay buf = 1 then Some (0, ctx, ns)
      else if rec_check lay buf \<noteq> 0 then Some (rec_check lay buf, ctx, ns)
      else do {
        let out = lay_entry lay buf;
        let (room, ctx1) = (if over then (False, ctx) else dir_emit lay buf ctx);
        let ctx2 = (if room then ctx1\<lparr>cx_pos := lay_off lay buf\<rparr> else ctx1);
        (ret, ns1) \<leftarrow> fuse_direntplus_link env (les k) parent (rec_name lay buf) out ver ns;
        ns2 \<leftarrow> (if ret \<noteq> 0 then forget (eo_nodeid out) ns1 else Some ns1);
        parse_dirplusfile env les forget lay parent ver (Suc k) (\<not> room) (rec_rest lay buf) ctx2 ns2})"

subsection \<open>Reading\<close>

record fuse_read_in =
  ri_fh :: u64
  ri_offset :: u64
  ri_size :: nat
  ri_flags :: u32

definition fuse_read_fill ::
    "(fuse_read_in \<Rightarrow> u8 list) \<Rightarrow> fuse_state \<Rightarrow> fuse_file \<Rightarrow> u32 \<Rightarrow> u64 \<Rightarrow> nat \<Rightarrow> fuse_opcode \<Rightarrow> fuse_req \<Rightarrow> fuse_req" where
  "fuse_read_fill enc s f flags pos count op q =
     (let inarg = \<lparr>ri_fh = ff_fh f, ri_offset = pos, ri_size = count, ri_flags = flags\<rparr>
      in q\<lparr>rq_in := (rq_in q)\<lparr>in_h := (in_h (rq_in q))\<lparr>ih_opcode := op, ih_nodeid := ff_nodeid f\<rparr>,
             in_args := [\<lparr>arg_size = wire_size s W_read_in, arg_value = enc inarg\<rparr>]\<rparr>,
           rq_out := (rq_out q)\<lparr>out_argvar := True, out_args := [\<lparr>arg_size = count, arg_value = []\<rparr>]\<rparr>\<rparr>)"

definition one_page :: "page_id \<Rightarrow> fuse_req \<Rightarrow> fuse_req" where
  "one_page pg q = q\<lparr>rq_out := (rq_out q)\<lparr>out_argpages := True\<rparr>, rq_num_pages := 1, rq_pages := (rq_pages q)[0 := Some pg],
     rq_page_descs := (rq_page_descs q)[0 := (rq_page_descs q ! 0)\<lparr>pd_length := PAGE_SIZE\<rparr>]\<rparr>"

text \<open>
  What \<open>fuse_readdir\<close> uses besides the file: the caller, its allocations (of the request, the page, and of each
  record), the waits for the answer and for the server to take a FORGET, the layouts of the records and the byte images.
\<close>

record readdir_env =
  rd_env :: dir_env
  rd_task :: task
  rd_killed :: bool
  rd_ok :: oom
  rd_page :: "page_id option"
  rd_wait :: "req_id \<Rightarrow> wait_phase \<Rightarrow> fuse_ns \<Rightarrow> fuse_ns option"
  rd_links :: "nat \<Rightarrow> link_env"
  rd_plain :: "unit layout"
  rd_plus :: "fuse_entry_out layout"
  rd_enc :: "fuse_read_in \<Rightarrow> u8 list"
  rd_enc_forget :: "u8 list"

definition set_conn :: "fuse_state \<Rightarrow> fuse_ns \<Rightarrow> fuse_ns" where
  "set_conn s = nsb_update (upd_conn (\<lambda>_. s))"

text \<open>\<open>fuse_force_forget\<close> with its wait.\<close>

definition force_forget :: "readdir_env \<Rightarrow> filp_id \<Rightarrow> u64 \<Rightarrow> fuse_ns \<Rightarrow> fuse_ns option" where
  "force_forget rd fp n ns = do {
     (g, ph, s1) \<leftarrow> fuse_force_forget (rd_ok rd) (rd_task rd) (nconn ns) fp n (rd_enc_forget rd);
     (case g of
        Got r \<Rightarrow> do {
          ns2 \<leftarrow> rd_wait rd r ph (set_conn s1 ns);
          s3 \<leftarrow> fuse_put_request (nconn ns2) r;
          Some (set_conn s3 ns2)}
      | _ \<Rightarrow> None)}"

text \<open>The bytes of the answer.\<close>

definition dir_bytes :: "fuse_arg list \<Rightarrow> u8 list" where
  "dir_bytes outs = (case outs of [] \<Rightarrow> [] | a # _ \<Rightarrow> take (arg_size a) (arg_value a))"

definition readdir_parse ::
    "readdir_env \<Rightarrow> bool \<Rightarrow> filp_id \<Rightarrow> de_id \<Rightarrow> u64 \<Rightarrow> u8 list \<Rightarrow> dir_ctx \<Rightarrow> fuse_ns \<Rightarrow> (int \<times> dir_ctx \<times> fuse_ns) option" where
  "readdir_parse rd isplus fp parent ver buf ctx ns =
     (if isplus then parse_dirplusfile (rd_env rd) (rd_links rd) (force_forget rd fp) (rd_plus rd) parent ver 0 False buf ctx ns
      else map_option (\<lambda>(err, ctx1). (err, ctx1, ns)) (parse_dirfile (rd_plain rd) buf ctx))"

text \<open>The exchange, once there are a request and a page: whether the records carry entries, the errno, the bytes.\<close>

definition readdir_ask ::
    "readdir_env \<Rightarrow> filp_id \<Rightarrow> u32 \<Rightarrow> ino_id \<Rightarrow> u64 \<Rightarrow> req_id \<Rightarrow> page_id \<Rightarrow> fuse_ns \<Rightarrow>
      (bool \<times> u64 \<times> int \<times> u8 list \<times> fuse_ns) option" where
  "readdir_ask rd fp flags i pos r pg ns = do {
     ff \<leftarrow> file_ff (nconn ns) fp;
     f \<leftarrow> ffs (nconn ns) ff;
     (isplus, ns1) \<leftarrow> fuse_use_readdirplus i pos ns;
     let ver = (if isplus then fuse_get_attr_version (nsb ns1) else 0);
     let s1 = upd_req r (fuse_read_fill (rd_enc rd) (nconn ns1) f flags pos PAGE_SIZE
                           (if isplus then FUSE_READDIRPLUS else FUSE_READDIR) \<circ> one_page pg) (nconn ns1);
     (ph, s2) \<leftarrow> fuse_request_send s1 r;
     ns2 \<leftarrow> rd_wait rd r ph (set_conn s2 ns1);
     q \<leftarrow> reqs (nconn ns2) r;
     s3 \<leftarrow> fuse_put_request (nconn ns2) r;
     Some (isplus, ver, oh_error (out_h (rq_out q)), dir_bytes (out_args (rq_out q)), set_conn s3 ns2)}"

definition readdir_got ::
    "readdir_env \<Rightarrow> filp_id \<Rightarrow> u32 \<Rightarrow> de_id \<Rightarrow> ino_id \<Rightarrow> dir_ctx \<Rightarrow> req_id \<Rightarrow> page_id \<Rightarrow> fuse_ns \<Rightarrow>
      (int \<times> dir_ctx \<times> fuse_ns) option" where
  "readdir_got rd fp flags parent i ctx r pg ns = do {
     (isplus, ver, err, buf, ns1) \<leftarrow> readdir_ask rd fp flags i (cx_pos ctx) r pg ns;
     (err2, ctx2, ns2) \<leftarrow> (if err = 0 then readdir_parse rd isplus fp parent ver buf ctx ns1 else Some (err, ctx, ns1));
     Some (err2, ctx2, fuse_invalidate_atime (rd_env rd) i ns2)}"

text \<open>\<open>fuse_readdir\<close>: \<open>fp\<close> is the file with its flags, \<open>parent\<close> its dentry and \<open>i\<close> its inode.\<close>

definition fuse_readdir ::
    "readdir_env \<Rightarrow> filp_id \<Rightarrow> u32 \<Rightarrow> de_id \<Rightarrow> ino_id \<Rightarrow> dir_ctx \<Rightarrow> fuse_ns \<Rightarrow> (int \<times> dir_ctx \<times> fuse_ns) option" where
  "fuse_readdir rd fp flags parent i ctx ns = do {
     v \<leftarrow> inodes (nsb ns) i;
     if is_bad_inode v then Some (- EIO, ctx, ns)
     else (case fuse_get_req (rd_ok rd) (rd_task rd) 1 (rd_killed rd) (nconn ns) of
         (Asleep, _) \<Rightarrow> None
       | (Err e, s1) \<Rightarrow> Some (e, ctx, set_conn s1 ns)
       | (Got r, s1) \<Rightarrow>
           (case rd_page rd of
              None \<Rightarrow> map_option (\<lambda>s2. (- ENOMEM, ctx, set_conn s2 ns)) (fuse_put_request s1 r)
            | Some pg \<Rightarrow> readdir_got rd fp flags parent i ctx r pg (set_conn s1 ns)))}"

end
