(* ===== verification/Fuse_Readdir_Correct.thy ===== *)
theory Fuse_Readdir_Correct
  imports Fuse_Readdir Fuse_Dir_Correct
begin

text \<open>
  What holds of reading directories: over any number of calls the caller gets the entries of the server in order, none
  lost and none twice; and READDIRPLUS settles every lookup the server has counted, except for a malformed reply and for
  a name that cannot be added to the dentry cache.
\<close>

subsection \<open>Encoded entries\<close>

record dirent =
  de_name :: "u8 list"
  de_off :: u64
  de_ino :: u64
  de_type :: u32

text \<open>What \<open>linux/fuse.h\<close> and the server promise of a record: its size, and that its fields are read as they were written.\<close>

definition encodes :: "'e layout \<Rightarrow> (dirent \<Rightarrow> u8 list) \<Rightarrow> dirent \<Rightarrow> bool" where
  "encodes lay enc d \<longleftrightarrow> length (enc d) = lay_size lay (length (de_name d)) \<and> lay_fixed lay \<le> length (enc d) \<and>
     (\<forall>rest. lay_namelen lay (enc d @ rest) = length (de_name d) \<and> rec_name lay (enc d @ rest) = de_name d \<and>
       lay_off lay (enc d @ rest) = de_off d \<and> lay_ino lay (enc d @ rest) = de_ino d \<and> lay_type lay (enc d @ rest) = de_type d)"

definition good_name :: "u8 list \<Rightarrow> bool" where
  "good_name nm \<longleftrightarrow> nm \<noteq> [] \<and> length nm \<le> FUSE_NAME_MAX \<and> SLASH \<notin> set nm"

definition good_entry :: "'e layout \<Rightarrow> (dirent \<Rightarrow> u8 list) \<Rightarrow> dirent \<Rightarrow> bool" where
  "good_entry lay enc d \<longleftrightarrow> encodes lay enc d \<and> good_name (de_name d)"

text \<open>The end of a buffer that holds no whole record.\<close>

definition cut_off :: "'e layout \<Rightarrow> u8 list \<Rightarrow> bool" where
  "cut_off lay bytes \<longleftrightarrow> length bytes < lay_fixed lay \<or> rec_check lay bytes = 1"

text \<open>What the caller is given for entries from position \<open>p\<close> on, the position after them, and those there is room for.\<close>

definition entry_at :: "u64 \<Rightarrow> dirent \<Rightarrow> emitted" where
  "entry_at p d = \<lparr>em_name = de_name d, em_pos = p, em_ino = de_ino d, em_type = de_type d\<rparr>"

fun emits :: "u64 \<Rightarrow> dirent list \<Rightarrow> emitted list" where
  "emits p [] = []"
| "emits p (d # ds) = entry_at p d # emits (de_off d) ds"

fun end_pos :: "u64 \<Rightarrow> dirent list \<Rightarrow> u64" where
  "end_pos p [] = p"
| "end_pos p (d # ds) = end_pos (de_off d) ds"

fun accepted :: "(emitted list \<Rightarrow> emitted \<Rightarrow> bool) \<Rightarrow> emitted list \<Rightarrow> u64 \<Rightarrow> dirent list \<Rightarrow> dirent list" where
  "accepted room es p [] = []"
| "accepted room es p (d # ds) =
     (if room es (entry_at p d) then d # accepted room (es @ [entry_at p d]) (de_off d) ds else [])"

definition given :: "dirent list \<Rightarrow> dir_ctx \<Rightarrow> dir_ctx" where
  "given ds ctx = ctx\<lparr>cx_out := cx_out ctx @ emits (cx_pos ctx) ds, cx_pos := end_pos (cx_pos ctx) ds\<rparr>"

definition taken :: "dirent list \<Rightarrow> dir_ctx \<Rightarrow> dir_ctx" where
  "taken ds ctx = given (accepted (cx_room ctx) (cx_out ctx) (cx_pos ctx) ds) ctx"

lemma emits_append: "emits p (as @ bs) = emits p as @ emits (end_pos p as) bs"
  by (induction as arbitrary: p) simp_all

lemma end_pos_append: "end_pos p (as @ bs) = end_pos (end_pos p as) bs"
  by (induction as arbitrary: p) simp_all

lemma accepted_prefix: "\<exists>bs. ds = accepted room es p ds @ bs"
  by (induction ds arbitrary: es p) auto

lemma taken_nil [simp]: "taken [] ctx = ctx"
  by (simp add: taken_def given_def)

lemma good_record:
  assumes "good_entry lay enc d"
  shows "rec_check lay (enc d @ rest) = 0" and "rec_rest lay (enc d @ rest) = rest" and "\<not> length (enc d @ rest) < lay_fixed lay"
    and "lay_off lay (enc d @ rest) = de_off d" and "rec_name lay (enc d @ rest) = de_name d"
    and "dir_emit lay (enc d @ rest) ctx = (if cx_room ctx (cx_out ctx) (entry_at (cx_pos ctx) d)
      then (True, ctx\<lparr>cx_out := cx_out ctx @ [entry_at (cx_pos ctx) d]\<rparr>) else (False, ctx))"
  using assms by (auto simp: good_entry_def encodes_def good_name_def rec_check_def rec_rest_def dir_emit_def entry_at_def Let_def)

lemma taken_cons:
  "taken (d # ds) ctx = (if cx_room ctx (cx_out ctx) (entry_at (cx_pos ctx) d)
     then taken ds (ctx\<lparr>cx_out := cx_out ctx @ [entry_at (cx_pos ctx) d], cx_pos := de_off d\<rparr>) else ctx)"
  by (simp add: taken_def given_def)

lemma parse_cut_off: "cut_off lay tail \<Longrightarrow> parse_dirfile lay tail ctx = Some (0, ctx)"
  by (subst parse_dirfile.simps) (auto simp: cut_off_def)

lemma parse_dirfile_run:
  assumes "\<forall>d \<in> set ds. good_entry lay enc d" and "cut_off lay tail"
  shows "parse_dirfile lay (concat (map enc ds) @ tail) ctx = Some (0, taken ds ctx)"
  using assms
proof (induction ds arbitrary: ctx)
  case Nil
  then show ?case by (simp add: parse_cut_off)
next
  case (Cons d ds)
  then have "good_entry lay enc d" by simp
  note rec = good_record [OF this, of "concat (map enc ds) @ tail"]
  show ?case using Cons rec by (subst parse_dirfile.simps) (simp add: taken_cons)
qed

text \<open>READDIRPLUS gives the caller the same; once there is no room (\<open>over\<close>) it only links.\<close>

lemma parse_plus_cut_off:
  "cut_off lay tail \<Longrightarrow> parse_dirplusfile env les forget lay parent ver k over tail ctx ns = Some (0, ctx, ns)"
  by (subst parse_dirplusfile.simps) (auto simp: cut_off_def)

lemma parse_plus_cons:
  assumes "good_entry lay enc d"
    and run: "parse_dirplusfile env les forget lay parent ver k over (enc d @ rest) ctx ns = Some (err, ctx', ns')"
  defines "room \<equiv> \<not> over \<and> cx_room ctx (cx_out ctx) (entry_at (cx_pos ctx) d)"
  obtains ret ns1 ns2
  where "fuse_direntplus_link env (les k) parent (de_name d) (lay_entry lay (enc d @ rest)) ver ns = Some (ret, ns1)"
    and "(if ret \<noteq> 0 then forget (eo_nodeid (lay_entry lay (enc d @ rest))) ns1 else Some ns1) = Some ns2"
    and "parse_dirplusfile env les forget lay parent ver (Suc k) (\<not> room) rest
      (if room then ctx\<lparr>cx_out := cx_out ctx @ [entry_at (cx_pos ctx) d], cx_pos := de_off d\<rparr> else ctx) ns2 = Some (err, ctx', ns')"
proof -
  note rec = good_record [OF assms(1), of rest]
  let ?out = "lay_entry lay (enc d @ rest)"
  let ?ctx = "if room then ctx\<lparr>cx_out := cx_out ctx @ [entry_at (cx_pos ctx) d], cx_pos := de_off d\<rparr> else ctx"
  have "parse_dirplusfile env les forget lay parent ver k over (enc d @ rest) ctx ns = do {
      (ret, ns1) \<leftarrow> fuse_direntplus_link env (les k) parent (de_name d) ?out ver ns;
      ns2 \<leftarrow> (if ret \<noteq> 0 then forget (eo_nodeid ?out) ns1 else Some ns1);
      parse_dirplusfile env les forget lay parent ver (Suc k) (\<not> room) rest ?ctx ns2}"
    by (subst parse_dirplusfile.simps) (use rec in \<open>auto simp: room_def Let_def\<close>)
  with run show thesis using that by (auto elim!: bind_Some_E)
qed

lemma parse_plus_run:
  assumes "\<forall>d \<in> set ds. good_entry lay enc d" and "cut_off lay tail"
    and "parse_dirplusfile env les forget lay parent ver k over (concat (map enc ds) @ tail) ctx ns = Some (err, ctx', ns')"
  shows "err = 0 \<and> ctx' = (if over then ctx else taken ds ctx)"
  using assms
proof (induction ds arbitrary: ctx k over ns)
  case Nil
  then show ?case by (simp add: parse_plus_cut_off)
next
  case (Cons d ds)
  from Cons.prems(1) have d: "good_entry lay enc d" by simp
  from Cons.prems(3) have "parse_dirplusfile env les forget lay parent ver k over (enc d @ concat (map enc ds) @ tail) ctx ns = Some (err, ctx', ns')"
    by simp
  then show ?case
  proof (rule parse_plus_cons [OF d])
    fix ret ns1 ns2
    let ?room = "\<not> over \<and> cx_room ctx (cx_out ctx) (entry_at (cx_pos ctx) d)"
    assume "parse_dirplusfile env les forget lay parent ver (Suc k) (\<not> ?room) (concat (map enc ds) @ tail)
      (if ?room then ctx\<lparr>cx_out := cx_out ctx @ [entry_at (cx_pos ctx) d], cx_pos := de_off d\<rparr> else ctx) ns2 = Some (err, ctx', ns')"
    from Cons.IH [OF _ Cons.prems(2) this] Cons.prems(1) show ?thesis by (auto simp: taken_cons)
  qed
qed

subsection \<open>The whole of a directory\<close>

text \<open>The entries of the directory after position \<open>p\<close>, where each entry's offset is the position after it.\<close>

definition after :: "dirent list \<Rightarrow> u64 \<Rightarrow> dirent list" where
  "after es p = (if p = 0 then es else tl (dropWhile (\<lambda>d. de_off d \<noteq> p) es))"

definition listing :: "dirent list \<Rightarrow> bool" where
  "listing es \<longleftrightarrow> distinct (map de_off es) \<and> 0 \<notin> de_off ` set es"

lemma end_pos_last: "end_pos p ds = (if ds = [] then p else de_off (last ds))"
  by (induction ds arbitrary: p) simp_all

lemma after_end:
  assumes "listing (a @ b)"
  shows "after (a @ b) (end_pos 0 a) = b"
proof (cases "a = []")
  case True
  then show ?thesis by (simp add: after_def)
next
  case False
  then obtain c d where a: "a = c @ [d]" by (metis append_butlast_last_id)
  with assms have "de_off d \<noteq> 0" and "\<forall>x \<in> set c. de_off x \<noteq> de_off d"
    by (auto simp: listing_def) (metis imageI)
  then have "dropWhile (\<lambda>x. de_off x \<noteq> de_off d) (c @ d # b) = d # b" by (subst dropWhile_append2) simp_all
  then show ?thesis using a \<open>de_off d \<noteq> 0\<close> by (simp add: after_def end_pos_last)
qed

text \<open>
  A server of the directory \<open>es\<close>: the answer to a READDIR or READDIRPLUS at an offset is a part of the entries after
  it, and perhaps a last record that is cut off.
\<close>

definition chunk :: "'e layout \<Rightarrow> (dirent \<Rightarrow> u8 list) \<Rightarrow> dirent list \<Rightarrow> u64 \<Rightarrow> u8 list \<Rightarrow> bool" where
  "chunk lay enc es p bytes \<longleftrightarrow> (\<exists>c rest tail. after es p = c @ rest \<and> (\<forall>d \<in> set c. good_entry lay enc d) \<and>
     cut_off lay tail \<and> bytes = concat (map enc c) @ tail)"

definition lists_directory ::
    "readdir_env \<Rightarrow> (dirent \<Rightarrow> u8 list) \<Rightarrow> (dirent \<Rightarrow> u8 list) \<Rightarrow> dirent list \<Rightarrow> bool" where
  "lists_directory rd enc encp es \<longleftrightarrow> (\<forall>r ph ns ns' q q' inarg. rd_wait rd r ph ns = Some ns' \<longrightarrow>
     reqs (nconn ns) r = Some q \<longrightarrow> reqs (nconn ns') r = Some q' \<longrightarrow> oh_error (out_h (rq_out q')) = 0 \<longrightarrow>
     map arg_value (in_args (rq_in q)) = [rd_enc rd inarg] \<longrightarrow>
     (ih_opcode (in_h (rq_in q)) = FUSE_READDIR \<longrightarrow> chunk (rd_plain rd) enc es (ri_offset inarg) (dir_bytes (out_args (rq_out q')))) \<and>
     (ih_opcode (in_h (rq_in q)) = FUSE_READDIRPLUS \<longrightarrow> chunk (rd_plus rd) encp es (ri_offset inarg) (dir_bytes (out_args (rq_out q')))))"

definition same_question :: "fuse_req \<Rightarrow> fuse_req \<Rightarrow> bool" where
  "same_question q q' \<longleftrightarrow> in_args (rq_in q') = in_args (rq_in q) \<and> ih_opcode (in_h (rq_in q')) = ih_opcode (in_h (rq_in q)) \<and>
     ih_nodeid (in_h (rq_in q')) = ih_nodeid (in_h (rq_in q))"

lemma start_keeps_question:
  assumes "request_send_start s r = Some (ph, s')" and "reqs s r = Some q"
  shows "\<exists>q'. reqs s' r = Some q' \<and> same_question q q'"
  using assms
  by (auto simp: request_send_start_def get_request_def queue_unique_def queue_request_def fuse_get_unique_def same_question_def
      set_in_unique_def set_in_len_def set_out_error_def Let_def elim!: bind_Some_E split: if_split_asm)

lemma send_keeps_question:
  assumes "fuse_request_send s r = Some (ph, s')" and "reqs s r = Some q"
  shows "\<exists>q'. reqs s' r = Some q' \<and> same_question q q'"
proof -
  from assms obtain s1 q1 where "mark_waiting (upd_req r (set_flag FR_ISREPLY) s) r = Some s1" and "request_send_start s1 r = Some (ph, s')"
    and "reqs s1 r = Some q1" and "same_question q q1"
    by (auto simp: fuse_request_send_def mark_waiting_def waiting_inc_def same_question_def set_flag_def elim!: bind_Some_E split: if_split_asm)
  then show ?thesis using start_keeps_question by (fastforce simp: same_question_def)
qed

lemma readdir_parse_run:
  assumes run: "readdir_parse rd isplus fp parent ver buf ctx ns = Some (err, ctx', ns')"
    and bytes: "if isplus then chunk (rd_plus rd) encp es (cx_pos ctx) buf else chunk (rd_plain rd) enc es (cx_pos ctx) buf"
  shows "\<exists>c rest. after es (cx_pos ctx) = c @ rest \<and> err = 0 \<and> ctx' = taken c ctx"
proof (cases isplus)
  case True
  with bytes obtain c rest tail where "after es (cx_pos ctx) = c @ rest" "\<forall>d \<in> set c. good_entry (rd_plus rd) encp d"
      "cut_off (rd_plus rd) tail" and buf: "buf = concat (map encp c) @ tail"
    by (auto simp: chunk_def)
  with parse_plus_run [OF this(2,3)] run True show ?thesis by (fastforce simp: readdir_parse_def buf)
next
  case False
  with bytes obtain c rest tail where "after es (cx_pos ctx) = c @ rest" "\<forall>d \<in> set c. good_entry (rd_plain rd) enc d"
      "cut_off (rd_plain rd) tail" and buf: "buf = concat (map enc c) @ tail"
    by (auto simp: chunk_def)
  with parse_dirfile_run [OF this(2,3)] run False show ?thesis by (auto simp: readdir_parse_def buf)
qed

lemma readdir_ask_bytes:
  assumes run: "readdir_ask rd fp flags i pos r pg ns = Some (isplus, ver, err, buf, ns')" and err: "err = 0"
    and srv: "lists_directory rd enc encp es"
  shows "if isplus then chunk (rd_plus rd) encp es pos buf else chunk (rd_plain rd) enc es pos buf"
proof -
  from run obtain ff f ns1 where f: "file_ff (nconn ns) fp = Some ff" "ffs (nconn ns) ff = Some f"
    and use: "fuse_use_readdirplus i pos ns = Some (isplus, ns1)"
    by (auto simp: readdir_ask_def Let_def elim!: bind_Some_E)
  let ?fill = "fuse_read_fill (rd_enc rd) (nconn ns1) f flags pos PAGE_SIZE (if isplus then FUSE_READDIRPLUS else FUSE_READDIR) \<circ> one_page pg"
  from run f use obtain ph s2 where send: "fuse_request_send (upd_req r ?fill (nconn ns1)) r = Some (ph, s2)"
    by (auto simp: readdir_ask_def Let_def elim!: bind_Some_E)
  from run f use send obtain ns2 where wt: "rd_wait rd r ph (set_conn s2 ns1) = Some ns2"
    by (auto simp: readdir_ask_def Let_def elim!: bind_Some_E)
  from run f use send wt obtain q' where q': "reqs (nconn ns2) r = Some q'" "oh_error (out_h (rq_out q')) = err"
      "buf = dir_bytes (out_args (rq_out q'))"
    by (auto simp: readdir_ask_def Let_def elim!: bind_Some_E)
  from send obtain q0 where q0: "reqs (nconn ns1) r = Some q0"
    by (cases "reqs (nconn ns1) r") (auto simp: fuse_request_send_def mark_waiting_def elim!: bind_Some_E)
  then have "reqs (upd_req r ?fill (nconn ns1)) r = Some (?fill q0)" by simp
  from send_keeps_question [OF send this] obtain q where "reqs s2 r = Some q" and same: "same_question (?fill q0) q" by blast
  then have q: "reqs (nconn (set_conn s2 ns1)) r = Some q" by (simp add: set_conn_def)
  have "map arg_value (in_args (rq_in q)) = [rd_enc rd \<lparr>ri_fh = ff_fh f, ri_offset = pos, ri_size = PAGE_SIZE, ri_flags = flags\<rparr>]"
    and "ih_opcode (in_h (rq_in q)) = (if isplus then FUSE_READDIRPLUS else FUSE_READDIR)"
    using same by (simp_all add: same_question_def fuse_read_fill_def Let_def)
  with srv wt q q' err show ?thesis unfolding lists_directory_def by fastforce
qed

text \<open>One call from position \<open>p\<close> gives the entries \<open>c\<close>, which are the next ones.\<close>

lemma readdir_call:
  assumes run: "fuse_readdir rd fp flags parent i ctx ns = Some (err, ctx', ns')" and srv: "lists_directory rd enc encp es"
  shows "\<exists>c rest. after es (cx_pos ctx) = c @ rest \<and> ctx' = given c ctx"
proof -
  have stay: "\<exists>c rest. after es (cx_pos ctx) = c @ rest \<and> ctx = given c ctx"
    by (rule exI [of _ "[]"]) (simp add: given_def)
  show ?thesis
  proof (cases "ctx' = ctx")
    case True
    then show ?thesis using stay by simp
  next
    case False
    with run obtain r pg s1 where "readdir_got rd fp flags parent i ctx r pg (set_conn s1 ns) = Some (err, ctx', ns')"
      by (auto simp: fuse_readdir_def elim!: bind_Some_E split: if_split_asm prod.split_asm getreq.split_asm option.split_asm)
    with False obtain isplus ver buf ns1 ns2 where ask: "readdir_ask rd fp flags i (cx_pos ctx) r pg (set_conn s1 ns) = Some (isplus, ver, 0, buf, ns1)"
      and parse: "readdir_parse rd isplus fp parent ver buf ctx ns1 = Some (err, ctx', ns2)"
      by (auto simp: readdir_got_def elim!: bind_Some_E split: if_split_asm)
    from readdir_parse_run [OF parse readdir_ask_bytes [OF ask refl srv]] obtain c rest where
      c: "after es (cx_pos ctx) = c @ rest" "ctx' = taken c ctx" by blast
    moreover obtain bs where "c = accepted (cx_room ctx) (cx_out ctx) (cx_pos ctx) c @ bs" using accepted_prefix by blast
    ultimately show ?thesis unfolding taken_def by (metis append_assoc)
  qed
qed

text \<open>
  Any number of calls, each with a buffer of its own and in a state that others have changed meanwhile. What is read is
  the pair of the position and the entries the caller has been given.
\<close>

inductive dir_reading :: "(dirent \<Rightarrow> u8 list) \<Rightarrow> (dirent \<Rightarrow> u8 list) \<Rightarrow> dirent list \<Rightarrow> u64 \<Rightarrow> emitted list \<Rightarrow> bool"
  for enc encp es where
  Open: "dir_reading enc encp es 0 []"
| Call: "dir_reading enc encp es p outl \<Longrightarrow> lists_directory rd enc encp es \<Longrightarrow>
     fuse_readdir rd fp flags parent i \<lparr>cx_pos = p, cx_out = [], cx_room = room\<rparr> ns = Some (err, ctx', ns') \<Longrightarrow>
     dir_reading enc encp es (cx_pos ctx') (outl @ cx_out ctx')"

text \<open>
  C7: However the calls of \<open>fuse_readdir\<close> cut a directory (by the room of the caller, the page, READDIR or READDIRPLUS,
  errors in between), the caller is given the entries of the server in their order, none lost and none twice, each with
  the position before it; and what is left to read is exactly the rest.
\<close>

theorem readdir_resumes:
  assumes "dir_reading enc encp es p outl" and "listing es"
  shows "\<exists>a. es = a @ after es p \<and> outl = emits 0 a \<and> p = end_pos 0 a"
  using assms(1)
proof induction
  case Open
  then show ?case by (intro exI [of _ "[]"]) (simp add: after_def)
next
  case (Call p outl rd fp flags parent i room ns err ctx' ns')
  then obtain a where a: "es = a @ after es p" "outl = emits 0 a" "p = end_pos 0 a" by blast
  from readdir_call [OF Call.hyps(3,2)] obtain c rest where c: "after es p = c @ rest"
    "ctx' = given c \<lparr>cx_pos = p, cx_out = [], cx_room = room\<rparr>" by auto
  from a c have es: "es = (a @ c) @ rest" by simp
  then have "after es (end_pos 0 (a @ c)) = rest" using after_end assms(2) by metis
  then show ?case using es a c
    by (intro exI [of _ "a @ c"]) (simp add: given_def emits_append end_pos_append)
qed

subsection \<open>The lookups of READDIRPLUS\<close>

text \<open>The nodes for which a server counts a lookup when it answers with these records.\<close>

definition record_names :: "fuse_entry_out layout \<Rightarrow> u8 list \<Rightarrow> u64 list" where
  "record_names lay buf =
     (if eo_nodeid (lay_entry lay buf) = 0 \<or> dot_name (rec_name lay buf) then [] else [eo_nodeid (lay_entry lay buf)])"

function plus_names :: "fuse_entry_out layout \<Rightarrow> u8 list \<Rightarrow> u64 list" where
  "plus_names lay buf =
     (let n = lay_size lay (lay_namelen lay buf)
      in if length buf < lay_fixed lay \<or> length buf < n \<or> n = 0 then []
         else record_names lay buf @ plus_names lay (rec_rest lay buf))"
  by pat_completeness auto
termination plus_names
  by (relation "measure (\<lambda>(lay, buf). length buf)") (auto simp: rec_rest_def)

text \<open>\<open>owed d ns\<close>: the server has counted \<open>d\<close> more than the inodes and the queued FORGETs hold.\<close>

definition owed :: "(u64 \<Rightarrow> u64) \<Rightarrow> fuse_ns \<Rightarrow> bool" where
  "owed d ns \<longleftrightarrow> sb_inv (nsb ns) \<and> telling (nsb ns) \<and> (\<forall>n. lookups n (nsb ns) + d n = srv_lookups ns n)"

lemma balanced_owed: "balanced E ns \<longleftrightarrow> owed (\<lambda>n. of_nat (count_list E n)) ns"
  by (simp add: balanced_def owed_def)

definition less_one :: "u64 \<Rightarrow> (u64 \<Rightarrow> u64) \<Rightarrow> u64 \<Rightarrow> u64" where
  "less_one n d = d(n := d n - 1)"

lemma owed_forgotten: "owed (less_one n (\<lambda>m. of_nat (count_list (n # E) m))) ns = balanced E ns"
proof -
  have "less_one n (\<lambda>m. of_nat (count_list (n # E) m)) = (\<lambda>m. of_nat (count_list E m))"
    by (simp add: less_one_def fun_eq_iff)
  then show ?thesis by (simp add: balanced_owed)
qed

lemma owed_conn:
  assumes "owed d ns" and "same_forgets (nconn ns) s"
  shows "owed d (set_conn s ns)"
  using assms by (simp add: owed_def telling_def lookups_def same_forgets_def set_conn_def)

definition forgets_one :: "(u64 \<Rightarrow> fuse_ns \<Rightarrow> fuse_ns option) \<Rightarrow> bool" where
  "forgets_one forget \<longleftrightarrow> (\<forall>d n ns ns'. owed d ns \<longrightarrow> forget n ns = Some ns' \<longrightarrow> owed (less_one n d) ns')"

text \<open>An error of \<open>d_alloc_parallel\<close> is not 0, and the name can be added to the dentry cache.\<close>

definition links_well :: "link_env \<Rightarrow> bool" where
  "links_well le \<longleftrightarrow> Found_error 0 \<notin> set (le_found le) \<and> (\<forall>e. le_splice le \<noteq> Splice_error e)"

lemma balanced_alloc [simp]: "balanced E (d_alloc d p nm ns) = balanced E ns" "balanced E (d_lookup_done d ns) = balanced E ns"
  by (rule balanced_cong; simp add: d_alloc_def d_lookup_done_def)+

lemma dentry_found:
  assumes "direntplus_dentry out parent nm fs ns = Some (res, ns')"
  shows "balanced E ns' = balanced E ns" and "res = Inl e \<Longrightarrow> Found_error e \<in> set fs"
    and "res = Inr (d, False) \<Longrightarrow> dentry_inode ns' d = Some i \<Longrightarrow> inodes (nsb ns') i = Some v \<Longrightarrow> nodeid v = eo_nodeid out"
proof -
  have "(balanced E ns' = balanced E ns) \<and> (\<forall>e. res = Inl e \<longrightarrow> Found_error e \<in> set fs) \<and>
    (\<forall>d i v. res = Inr (d, False) \<longrightarrow> dentry_inode ns' d = Some i \<longrightarrow> inodes (nsb ns') i = Some v \<longrightarrow> nodeid v = eo_nodeid out)"
    using assms
  proof (induction out parent nm fs ns rule: direntplus_dentry.induct)
    case (4 out parent nm d fs ns)
    then obtain m where m: "link_matches out d ns = Some m" by (auto elim!: bind_Some_E)
    show ?case
    proof (cases m)
      case True
      with 4 m have r: "res = Inr (d, False)" "ns' = dget d ns" by simp_all
      have "nodeid v = eo_nodeid out" if "dentry_inode (dget d ns) d = Some i" "inodes (nsb ns) i = Some v" for i v
        using that m True
        by (auto simp: link_matches_def dentry_inode_def dget_def upd_dentry_def elim!: bind_Some_E split: option.split_asm)
      then show ?thesis using r by (simp add: dget_def)
    next
      case False
      with 4 m show ?thesis by auto
    qed
  qed auto
  then show "balanced E ns' = balanced E ns" and "res = Inl e \<Longrightarrow> Found_error e \<in> set fs"
    and "res = Inr (d, False) \<Longrightarrow> dentry_inode ns' d = Some i \<Longrightarrow> inodes (nsb ns') i = Some v \<Longrightarrow> nodeid v = eo_nodeid out" by blast+
qed

lemma balanced_done [simp]: "balanced E ns \<Longrightarrow> balanced E (direntplus_done env out d i ns)"
  by (simp add: direntplus_done_def Let_def balanced_upd_inode count_freeI)

text \<open>A record is linked, or its lookup is still in hand.\<close>

definition linked :: "u64 list \<Rightarrow> u64 \<Rightarrow> int \<Rightarrow> fuse_ns \<Rightarrow> bool" where
  "linked E n ret ns \<longleftrightarrow> balanced (if ret = 0 then E else n # E) ns"

lemma known_linked:
  assumes "direntplus_known env out ver d ns = Some (ret, ns')" and b: "balanced (eo_nodeid out # E) ns"
    and node: "\<And>i v. dentry_inode ns d = Some i \<Longrightarrow> inodes (nsb ns) i = Some v \<Longrightarrow> nodeid v = eo_nodeid out"
  shows "linked E (eo_nodeid out) ret ns'"
proof -
  from assms(1) obtain i v where i: "dentry_inode ns d = Some i" "inodes (nsb ns) i = Some v"
    by (auto simp: direntplus_known_def elim!: bind_Some_E)
  from balanced_inc [OF b i(2) node [OF i]] have "balanced E (inc_nlookup i ns)" .
  then show ?thesis using assms(1) i b
    by (auto simp: direntplus_known_def linked_def errno_defs dest: balanced_attributes split: if_split_asm)
qed

lemma new_linked:
  assumes run: "direntplus_new env le out ver d ns = Some (ret, ns')" and b: "balanced (eo_nodeid out # E) ns"
    and "fuse_valid_type (attr_umode (eo_attr out))" and le: "links_well le"
  shows "linked E (eo_nodeid out) ret ns'"
proof (rule balanced_iget [OF b assms(3), of env "le_ok le" ver])
  fix found ns1
  assume g: "entry_iget env (le_ok le) out ver ns = Some (found, ns1)" and b1: "balanced (if found = None then eo_nodeid out # E else E) ns1"
  show ?thesis
  proof (cases found)
    case None
    then show ?thesis using run g b1 by (auto simp: direntplus_new_def linked_def errno_defs)
  next
    case (Some i)
    from run g Some obtain res ns2 where sp: "d_splice_alias (le_splice le) (Some i) d ns1 = Some (res, ns2)"
      by (auto simp: direntplus_new_def Let_def elim!: bind_Some_E)
    have "balanced E ns2" using balanced_splice [OF sp] b1 Some by simp
    moreover have "\<exists>a. res = Inr a" using sp le by (auto simp: d_splice_alias_def links_well_def split: splice.split_asm)
    ultimately show ?thesis using run g Some sp
      by (auto simp: direntplus_new_def linked_def Let_def split: option.split_asm)
  qed
qed

lemma link_linked:
  assumes run: "fuse_direntplus_link env le parent (rec_name lay buf) (lay_entry lay buf) ver ns = Some (ret, ns')"
    and b: "balanced (record_names lay buf @ E) ns" and le: "links_well le"
  shows "linked E (eo_nodeid (lay_entry lay buf)) ret ns'"
proof (cases "eo_nodeid (lay_entry lay buf) = 0 \<or> dot_name (rec_name lay buf)")
  case True
  then show ?thesis using run b by (auto simp: fuse_direntplus_link_def linked_def record_names_def)
next
  case False
  let ?out = "lay_entry lay buf"
  from False b have b: "balanced (eo_nodeid ?out # E) ns" by (simp add: record_names_def)
  show ?thesis
  proof (cases "invalid_nodeid (eo_nodeid ?out) \<or> \<not> fuse_valid_type (attr_umode (eo_attr ?out))")
    case True
    then show ?thesis using run False b by (auto simp: fuse_direntplus_link_def linked_def errno_defs)
  next
    case fine: False
    with run False obtain res ns1 where d: "direntplus_dentry ?out parent (rec_name lay buf) (le_found le) ns = Some (res, ns1)"
      by (auto simp: fuse_direntplus_link_def elim!: bind_Some_E)
    note found = dentry_found [OF d]
    have b1: "balanced (eo_nodeid ?out # E) ns1" using found(1) b by simp
    show ?thesis
    proof (cases res)
      case (Inl e)
      with found(2) le have "e \<noteq> 0" by (auto simp: links_well_def)
      then show ?thesis using run False fine d Inl b1 by (simp add: fuse_direntplus_link_def linked_def)
    next
      case (Inr dn)
      obtain dd isnew where dn: "dn = (dd, isnew)" by (cases dn)
      show ?thesis
      proof (cases isnew)
        case True
        then show ?thesis using run False fine d Inr dn new_linked [OF _ b1 _ le] by (simp add: fuse_direntplus_link_def)
      next
        case False
        with Inr dn have "direntplus_known env ?out ver dd ns1 = Some (ret, ns')"
          using run \<open>\<not> (eo_nodeid ?out = 0 \<or> dot_name (rec_name lay buf))\<close> fine d by (simp add: fuse_direntplus_link_def)
        then show ?thesis using known_linked [OF _ b1] found(3) Inr dn False by simp
      qed
    qed
  qed
qed

lemma forgets_balanced: "forgets_one forget \<Longrightarrow> balanced (n # E) ns \<Longrightarrow> forget n ns = Some ns' \<Longrightarrow> balanced E ns'"
  unfolding forgets_one_def using owed_forgotten balanced_owed by metis

lemma plus_names_end: "cut_off lay buf \<Longrightarrow> plus_names lay buf = []"
  by (auto simp: cut_off_def rec_check_def errno_defs split: if_split_asm)

lemma plus_names_step:
  assumes "\<not> length buf < lay_fixed lay" and "rec_check lay buf = 0" and "\<And>n. 0 < lay_size lay n"
  shows "plus_names lay buf = record_names lay buf @ plus_names lay (rec_rest lay buf)"
proof -
  have "\<not> length buf < lay_size lay (lay_namelen lay buf)" and "lay_size lay (lay_namelen lay buf) \<noteq> 0"
    using assms(2,3) by (auto simp: rec_check_def errno_defs split: if_split_asm)
  then show ?thesis using assms(1) by (subst plus_names.simps) (simp add: Let_def)
qed

declare plus_names.simps [simp del]

lemma rec_check_cases: "rec_check lay buf \<in> {0, 1, - EIO}"
  by (simp add: rec_check_def)

lemma parse_plus_balanced:
  assumes "parse_dirplusfile env les forget lay parent ver k over buf ctx ns = Some res"
    and "balanced (plus_names lay buf @ E) ns" and les: "\<And>k. links_well (les k)" and fo: "forgets_one forget" and sz: "\<And>n. 0 < lay_size lay n"
  shows "\<exists>L. balanced (L @ E) (snd (snd res)) \<and> (fst res \<noteq> - EIO \<longrightarrow> L = [])"
  using assms
proof (induction rule: parse_dirplusfile.raw_induct [rotated, consumes 1])
  case (1 parse env les forget lay parent ver k over buf ctx ns res)
  consider "length buf < lay_fixed lay \<or> rec_check lay buf = 1" | "\<not> length buf < lay_fixed lay" "rec_check lay buf = - EIO"
    | "\<not> length buf < lay_fixed lay" "rec_check lay buf = 0" using rec_check_cases [of lay buf] by blast
  then show ?case
  proof cases
    case 1
    then have "plus_names lay buf = []" using plus_names_end by (auto simp: cut_off_def)
    moreover have "res = (0, ctx, ns)" using "1.hyps" 1 by (cases "length buf < lay_fixed lay") simp_all
    ultimately show ?thesis using "1.prems"(1) by (intro exI [of _ "[]"]) simp
  next
    case 2
    then have "res = (- EIO, ctx, ns)" using "1.hyps" by (simp add: errno_defs)
    then show ?thesis using "1.prems"(1) by auto
  next
    case 3
    let ?out = "lay_entry lay buf"
    from "1.hyps" 3 obtain ret ns1 where link: "fuse_direntplus_link env (les k) parent (rec_name lay buf) ?out ver ns = Some (ret, ns1)"
      by (auto simp: Let_def elim!: bind_Some_E split: prod.split_asm)
    from "1.hyps" 3 link obtain ns2 k' over' ctx' where fg: "(if ret \<noteq> 0 then forget (eo_nodeid ?out) ns1 else Some ns1) = Some ns2"
      and rest: "parse env les forget lay parent ver k' over' (rec_rest lay buf) ctx' ns2 = Some res"
      by (auto simp: Let_def elim!: bind_Some_E split: prod.split_asm)
    have "balanced (record_names lay buf @ (plus_names lay (rec_rest lay buf) @ E)) ns"
      using "1.prems"(1) plus_names_step [OF 3 "1.prems"(4)] by simp
    from link_linked [OF link this "1.prems"(2)] have "balanced (plus_names lay (rec_rest lay buf) @ E) ns2"
      using fg forgets_balanced [OF "1.prems"(3)] by (auto simp: linked_def split: if_split_asm)
    from "1.IH" [OF rest this "1.prems"(2-4)] show ?thesis .
  qed
qed

subsection \<open>The exchange of a directory\<close>

text \<open>
  What happens until a request has been dealt with: a READDIRPLUS counts the lookups of its records, any other question
  none, and a FORGET that is sent by itself is taken.
\<close>

locale dir_server =
  fixes wt :: "req_id \<Rightarrow> wait_phase \<Rightarrow> fuse_ns \<Rightarrow> fuse_ns option" and lay :: "fuse_entry_out layout"
  assumes answers: "balanced E ns \<Longrightarrow> wt r ph ns = Some ns' \<Longrightarrow> reqs (nconn ns) r = Some q \<Longrightarrow> reqs (nconn ns') r = Some q' \<Longrightarrow>
      ih_opcode (in_h (rq_in q)) \<noteq> FUSE_FORGET \<Longrightarrow>
      balanced ((if ih_opcode (in_h (rq_in q)) = FUSE_READDIRPLUS then reply_names dir_bytes (plus_names lay) (reply_of q') else []) @ E) ns'"
    and takes: "owed d ns \<Longrightarrow> wt r ph ns = Some ns' \<Longrightarrow> reqs (nconn ns) r = Some q \<Longrightarrow> ih_opcode (in_h (rq_in q)) = FUSE_FORGET \<Longrightarrow>
      owed (less_one (ih_nodeid (in_h (rq_in q))) d) ns'"

lemma same_forgets_start: "request_send_start s r = Some (ph, s') \<Longrightarrow> same_forgets s s'"
  by (auto simp: request_send_start_def get_request_def same_forgets_def elim!: bind_Some_E split: option.split_asm if_split_asm)

lemma force_begin:
  assumes "fuse_force_forget ok cur s fp n inarg = Some (Got r, ph, s')"
  obtains q where "same_forgets s s'" and "reqs s' r = Some q" and "ih_opcode (in_h (rq_in q)) = FUSE_FORGET" and "ih_nodeid (in_h (rq_in q)) = n"
proof -
  from assms obtain s1 where get: "fuse_get_req_nofail_nopages ok cur fp s = Some (Got r, s1)"
    and send: "request_send_start (upd_req r (force_forget_fill s1 n inarg) s1) r = Some (ph, s')"
    by (auto simp: fuse_force_forget_def elim!: bind_Some_E split: prod.split_asm getreq.split_asm)
  have "same_forgets s s1"
    by (rule same_forgets_iq)
      (use get in \<open>auto simp: fuse_get_req_nofail_nopages_def get_req_nofail_resume_def fuse_request_alloc_def get_reserved_req_def
        waiting_inc_def Let_def elim!: bind_Some_E split: if_split_asm option.split_asm prod.split_asm\<close>)
  moreover have "same_forgets s1 s'" using same_forgets_start [OF send] by (simp add: same_forgets_def)
  moreover obtain q1 where "reqs s1 r = Some q1"
    using send by (cases "reqs s1 r") (auto simp: request_send_start_def)
  moreover from this have "reqs (upd_req r (force_forget_fill s1 n inarg) s1) r = Some (force_forget_fill s1 n inarg q1)" by simp
  from start_keeps_question [OF send this] obtain q where "reqs s' r = Some q" "same_question (force_forget_fill s1 n inarg q1) q" by blast
  ultimately show thesis using that same_forgets_trans by (force simp: same_question_def force_forget_fill_def)
qed

context dir_server begin

lemma force_forgets:
  assumes "rd_wait rd = wt"
  shows "forgets_one (force_forget rd fp)"
  unfolding forgets_one_def
proof (intro allI impI)
  fix d n ns ns'
  assume o: "owed d ns" and run: "force_forget rd fp n ns = Some ns'"
  from run obtain r ph s1 where b: "fuse_force_forget (rd_ok rd) (rd_task rd) (nconn ns) fp n (rd_enc_forget rd) = Some (Got r, ph, s1)"
    by (auto simp: force_forget_def elim!: bind_Some_E split: getreq.split_asm)
  from run b obtain ns2 s3 where wt: "wt r ph (set_conn s1 ns) = Some ns2" and put: "fuse_put_request (nconn ns2) r = Some s3"
    and ns': "ns' = set_conn s3 ns2"
    by (auto simp: force_forget_def assms elim!: bind_Some_E)
  show "owed (less_one n d) ns'"
  proof (rule force_begin [OF b])
    fix q
    assume s: "same_forgets (nconn ns) s1" and q: "reqs s1 r = Some q" "ih_opcode (in_h (rq_in q)) = FUSE_FORGET" "ih_nodeid (in_h (rq_in q)) = n"
    have "reqs (nconn (set_conn s1 ns)) r = Some q" using q by (simp add: set_conn_def)
    from takes [OF owed_conn [OF o s] wt this q(2)] have "owed (less_one n d) ns2" using q(3) by simp
    then show ?thesis unfolding ns' by (rule owed_conn) (rule same_forgets_put [OF put])
  qed
qed

lemma ask_balanced:
  assumes run: "readdir_ask rd fp flags i pos r pg ns = Some (isplus, ver, err, buf, ns')" and rd: "rd_wait rd = wt" "rd_plus rd = lay"
    and b: "balanced E ns"
  shows "balanced ((if isplus \<and> err = 0 then plus_names lay buf else []) @ E) ns'"
proof -
  from run obtain ff f ns1 where f: "file_ff (nconn ns) fp = Some ff" "ffs (nconn ns) ff = Some f"
    and use: "fuse_use_readdirplus i pos ns = Some (isplus, ns1)"
    by (auto simp: readdir_ask_def Let_def elim!: bind_Some_E)
  have b1: "balanced E ns1" using use b by (auto simp: fuse_use_readdirplus_def elim!: bind_Some_E split: if_split_asm)
  let ?fill = "fuse_read_fill (rd_enc rd) (nconn ns1) f flags pos PAGE_SIZE (if isplus then FUSE_READDIRPLUS else FUSE_READDIR) \<circ> one_page pg"
  from run f use obtain ph s2 where send: "fuse_request_send (upd_req r ?fill (nconn ns1)) r = Some (ph, s2)"
    by (auto simp: readdir_ask_def Let_def elim!: bind_Some_E)
  from run f use send obtain ns2 where wt: "wt r ph (set_conn s2 ns1) = Some ns2"
    by (auto simp: readdir_ask_def Let_def rd elim!: bind_Some_E)
  from run f use send wt obtain q' s3 where q': "reqs (nconn ns2) r = Some q'" and put: "fuse_put_request (nconn ns2) r = Some s3"
    and res: "oh_error (out_h (rq_out q')) = err" "buf = dir_bytes (out_args (rq_out q'))" "ns' = set_conn s3 ns2"
    by (auto simp: readdir_ask_def Let_def rd elim!: bind_Some_E)
  from send obtain q0 where q0: "reqs (nconn ns1) r = Some q0"
    by (cases "reqs (nconn ns1) r") (auto simp: fuse_request_send_def mark_waiting_def elim!: bind_Some_E)
  then have "reqs (upd_req r ?fill (nconn ns1)) r = Some (?fill q0)" by simp
  from send_keeps_question [OF send this] obtain q where q: "reqs (nconn (set_conn s2 ns1)) r = Some q" and "same_question (?fill q0) q"
    by (auto simp: set_conn_def)
  then have op: "ih_opcode (in_h (rq_in q)) = (if isplus then FUSE_READDIRPLUS else FUSE_READDIR)"
    by (simp add: same_question_def fuse_read_fill_def Let_def)
  have "balanced E (set_conn s2 ns1)"
    unfolding set_conn_def by (rule balanced_conn [OF b1]) (use same_forgets_send [OF send] in \<open>simp add: same_forgets_def\<close>)
  from answers [OF this wt q q'] op have "balanced ((if isplus then reply_names dir_bytes (plus_names lay) (reply_of q') else []) @ E) ns2"
    by (auto split: if_split_asm)
  then have "balanced ((if isplus then reply_names dir_bytes (plus_names lay) (reply_of q') else []) @ E) ns'"
    unfolding res(3) set_conn_def by (rule balanced_conn) (rule same_forgets_put [OF put])
  then show ?thesis using res(1,2) by (auto simp: reply_names_def reply_of_def split: if_split_asm)
qed

lemma readdir_balanced:
  assumes run: "fuse_readdir rd fp flags parent i ctx ns = Some (err, ctx', ns')" and rd: "rd_wait rd = wt" "rd_plus rd = lay"
    and b: "balanced E ns" and les: "\<And>k. links_well (rd_links rd k)" and sz: "\<And>n. 0 < lay_size lay n"
  shows "\<exists>L. balanced (L @ E) ns' \<and> (err \<noteq> - EIO \<longrightarrow> L = [])"
proof -
  from run obtain v where v: "inodes (nsb ns) i = Some v" by (auto simp: fuse_readdir_def elim!: bind_Some_E)
  obtain g s1 where g: "fuse_get_req (rd_ok rd) (rd_task rd) 1 (rd_killed rd) (nconn ns) = (g, s1)" by force
  have b1: "balanced E (set_conn s1 ns)"
    unfolding set_conn_def by (rule balanced_conn [OF b]) (rule same_forgets_get_req [OF g])
  have b2: "balanced E (set_conn s2 ns)" if "fuse_put_request s1 r = Some s2" for r s2
    unfolding set_conn_def
    by (rule balanced_conn [OF b]) (rule same_forgets_trans [OF same_forgets_get_req [OF g] same_forgets_put [OF that]])
  consider "balanced E ns'" | r pg where "readdir_got rd fp flags parent i ctx r pg (set_conn s1 ns) = Some (err, ctx', ns')"
    using run v g b b1 b2
    by (auto simp: fuse_readdir_def split: if_split_asm getreq.split_asm option.split_asm)
  then show ?thesis
  proof cases
    case 1
    then show ?thesis by (intro exI [of _ "[]"]) simp
  next
    case 2
    then obtain isplus ver err1 buf ns1 where ask: "readdir_ask rd fp flags i (cx_pos ctx) r pg (set_conn s1 ns) = Some (isplus, ver, err1, buf, ns1)"
      by (auto simp: readdir_got_def elim!: bind_Some_E)
    with 2 obtain ns2 where parse: "(if err1 = 0 then readdir_parse rd isplus fp parent ver buf ctx ns1 else Some (err1, ctx, ns1)) = Some (err, ctx', ns2)"
      and ns': "ns' = fuse_invalidate_atime (rd_env rd) i ns2"
      by (auto simp: readdir_got_def elim!: bind_Some_E)
    have h: "balanced ((if isplus \<and> err1 = 0 then plus_names lay buf else []) @ E) ns1" using ask_balanced [OF ask rd b1] .
    have "\<exists>L. balanced (L @ E) ns2 \<and> (err \<noteq> - EIO \<longrightarrow> L = [])"
    proof (cases "isplus \<and> err1 = 0")
      case True
      then have "parse_dirplusfile (rd_env rd) (rd_links rd) (force_forget rd fp) lay parent ver 0 False buf ctx ns1 = Some (err, ctx', ns2)"
        using parse by (simp add: readdir_parse_def rd)
      from parse_plus_balanced [OF this _ les force_forgets [OF rd(1)] sz] h True show ?thesis by simp
    next
      case False
      then have "balanced E ns2" using parse h by (auto simp: readdir_parse_def split: if_split_asm)
      then show ?thesis by (intro exI [of _ "[]"]) simp
    qed
    then show ?thesis unfolding ns' using balanced_state(4) by blast
  qed
qed

end

text \<open>
  A server as it is meant to be, for any function \<open>reply\<close> from questions to answers: it ends the request, counts the
  lookups of a READDIRPLUS and takes a FORGET off its count.
\<close>

definition uncount :: "u64 \<Rightarrow> fuse_ns \<Rightarrow> fuse_ns" where
  "uncount n ns = ns\<lparr>srv_lookups := (srv_lookups ns)(n := srv_lookups ns n - 1)\<rparr>"

definition serve_dir ::
    "(fuse_req \<Rightarrow> int \<times> fuse_arg list) \<Rightarrow> fuse_entry_out layout \<Rightarrow> req_id \<Rightarrow> wait_phase \<Rightarrow> fuse_ns \<Rightarrow> fuse_ns option" where
  "serve_dir reply lay r ph ns = do {
     q \<leftarrow> reqs (nconn ns) r;
     if \<not> waited_for q then None
     else if ih_opcode (in_h (rq_in q)) = FUSE_FORGET then do {
       s1 \<leftarrow> request_end (upd_req r (clear_flag FR_PENDING) (list_del r (nconn ns))) r;
       Some (uncount (ih_nodeid (in_h (rq_in q))) (set_conn s1 ns))}
     else do {
       s1 \<leftarrow> request_end (upd_req r (clear_flag FR_PENDING \<circ> answer (reply q)) (list_del r (nconn ns))) r;
       Some (count_lookups (if ih_opcode (in_h (rq_in q)) = FUSE_READDIRPLUS
                            then reply_names dir_bytes (plus_names lay) (reply q) else []) (set_conn s1 ns))}}"

lemma owed_uncount: "owed d ns \<Longrightarrow> owed (less_one n d) (uncount n ns)"
  by (simp add: owed_def uncount_def less_one_def algebra_simps)

interpretation dir_served: dir_server "serve_dir reply lay" lay for reply lay
proof
  fix E ns r ph ns' q q'
  assume b: "balanced E ns" and run: "serve_dir reply lay r ph ns = Some ns'" and q: "reqs (nconn ns) r = Some q"
    and q': "reqs (nconn ns') r = Some q'" and op: "ih_opcode (in_h (rq_in q)) \<noteq> FUSE_FORGET"
  let ?s = "upd_req r (clear_flag FR_PENDING \<circ> answer (reply q)) (list_del r (nconn ns))"
  let ?L = "if ih_opcode (in_h (rq_in q)) = FUSE_READDIRPLUS then reply_names dir_bytes (plus_names lay) (reply q) else []"
  from run q op obtain s1 where w: "waited_for q" and e: "request_end ?s r = Some s1"
    and ns': "ns' = count_lookups ?L (set_conn s1 ns)"
    by (auto simp: serve_dir_def elim!: bind_Some_E split: if_split_asm)
  have qs: "reqs ?s r = Some (clear_flag FR_PENDING (answer (reply q) q))" "waited_for (clear_flag FR_PENDING (answer (reply q) q))"
    using q w by (simp_all add: waited_for_def answer_def clear_flag_def)
  have "reqs s1 r = Some q'" using q' by (simp add: ns' count_lookups_def set_conn_def)
  from serve_end(2) [OF e qs this] have "reply_of q' = reply q" by (simp add: reply_of_def answer_def clear_flag_def)
  moreover have "balanced E (set_conn s1 ns)"
    using owed_conn [of _ ns s1] b serve_end(1) [OF e qs] by (simp add: balanced_owed same_forgets_def)
  then have "balanced (?L @ E) ns'" unfolding ns' by (rule balanced_count)
  ultimately show "balanced ((if ih_opcode (in_h (rq_in q)) = FUSE_READDIRPLUS then reply_names dir_bytes (plus_names lay) (reply_of q') else []) @ E) ns'"
    by (auto split: if_split_asm)
next
  fix d ns r ph ns' q
  assume o: "owed d ns" and run: "serve_dir reply lay r ph ns = Some ns'" and q: "reqs (nconn ns) r = Some q"
    and op: "ih_opcode (in_h (rq_in q)) = FUSE_FORGET"
  let ?s = "upd_req r (clear_flag FR_PENDING) (list_del r (nconn ns))"
  from run q op obtain s1 where w: "waited_for q" and e: "request_end ?s r = Some s1"
    and ns': "ns' = uncount (ih_nodeid (in_h (rq_in q))) (set_conn s1 ns)"
    by (auto simp: serve_dir_def elim!: bind_Some_E split: if_split_asm)
  have qs: "reqs ?s r = Some (clear_flag FR_PENDING q)" "waited_for (clear_flag FR_PENDING q)"
    using q w by (simp_all add: waited_for_def clear_flag_def)
  have "owed d (set_conn s1 ns)" using owed_conn [OF o] serve_end(1) [OF e qs] by (simp add: same_forgets_def)
  then show "owed (less_one (ih_nodeid (in_h (rq_in q))) d) ns'" unfolding ns' by (rule owed_uncount)
qed

text \<open>
  C8: A call of \<open>fuse_readdir\<close> settles every lookup a READDIRPLUS reply has counted (each record is linked to an
  inode that takes it or forgotten), except that with \<open>-EIO\<close>, the result of a malformed record, the lookups of the rest
  of the reply may be left. The dentry cache can take every name.
\<close>

theorem readdirplus_settles:
  assumes "fuse_readdir rd fp flags parent i ctx ns = Some (err, ctx', ns')" and "dir_server (rd_wait rd) (rd_plus rd)"
    and "balanced E ns" and "\<And>k. links_well (rd_links rd k)" and "\<And>n. 0 < lay_size (rd_plus rd) n"
  shows "\<exists>L. balanced (L @ E) ns' \<and> (err \<noteq> - EIO \<longrightarrow> L = [])"
  by (rule dir_server.readdir_balanced [OF assms(2,1) refl refl assms(3-5)])

lemma splice_error_link:
  assumes run: "fuse_direntplus_link env le parent (rec_name lay buf) (lay_entry lay buf) ver ns = Some (ret, ns')"
    and b: "balanced (eo_nodeid (lay_entry lay buf) # E) ns" and names: "record_names lay buf = [eo_nodeid (lay_entry lay buf)]"
    and ok: "\<not> invalid_nodeid (eo_nodeid (lay_entry lay buf))" "fuse_valid_type (attr_umode (eo_attr (lay_entry lay buf)))"
    and le: "le_found le = Found_new d # fs" "le_splice le = Splice_error e" "le_ok le 0" "le_ok le 1"
  shows "ret = e \<and> balanced E ns'"
proof (rule balanced_iget [of "lay_entry lay buf" E "d_alloc d parent (rec_name lay buf) ns" env "le_ok le" ver])
  let ?ns = "d_alloc d parent (rec_name lay buf) ns" and ?out = "lay_entry lay buf"
  show "balanced (eo_nodeid ?out # E) ?ns" using b by simp
  show "fuse_valid_type (attr_umode (eo_attr ?out))" using ok(2) .
  fix found ns1
  assume g: "entry_iget env (le_ok le) ?out ver ?ns = Some (found, ns1)" and "balanced (if found = None then eo_nodeid ?out # E else E) ns1"
    and "found = None \<Longrightarrow> \<not> (le_ok le 0 \<and> le_ok le 1)"
  then obtain i where i: "found = Some i" and b1: "balanced E ns1" using le(3,4) by (cases found) auto
  have nm: "eo_nodeid ?out \<noteq> 0" "\<not> dot_name (rec_name lay buf)" using names by (auto simp: record_names_def split: if_split_asm)
  from run nm ok le(1) have "direntplus_new env le ?out ver d ?ns = Some (ret, ns')" by (simp add: fuse_direntplus_link_def)
  then show ?thesis using g i le(2) b1 balanced_iput by (auto simp: direntplus_new_def d_splice_alias_def elim!: bind_Some_E)
qed

text \<open>
  C38: When the dentry cache refuses the inode of a READDIRPLUS record (\<open>d_splice_alias\<close> fails), the lookup of the record
  is given back twice: the inode has taken it, and tells the server when it goes, and \<open>fuse_force_forget\<close> tells the server
  at once. The server is then one short of what the inodes and the queued FORGETs hold.
\<close>

theorem splice_error_forgets_twice:
  assumes "fuse_direntplus_link env le parent (rec_name lay buf) (lay_entry lay buf) ver ns = Some (ret, ns1)"
    and "force_forget rd fp (eo_nodeid (lay_entry lay buf)) ns1 = Some ns2" and "dir_server (rd_wait rd) (rd_plus rd)"
    and "balanced (record_names lay buf @ E) ns" and "record_names lay buf = [n]" and "n \<noteq> 1"
    and "fuse_valid_type (attr_umode (eo_attr (lay_entry lay buf)))"
    and "le_found le = Found_new d # fs" and "le_splice le = Splice_error e" and "le_ok le 0" and "le_ok le 1"
  shows "ret = e \<and> owed (less_one n (\<lambda>m. of_nat (count_list E m))) ns2"
proof -
  have n: "n = eo_nodeid (lay_entry lay buf)" "n \<noteq> 0" using assms(5) by (auto simp: record_names_def split: if_split_asm)
  with assms(4-6) have "balanced (eo_nodeid (lay_entry lay buf) # E) ns" and "record_names lay buf = [eo_nodeid (lay_entry lay buf)]"
    and "\<not> invalid_nodeid (eo_nodeid (lay_entry lay buf))" by (auto simp: invalid_nodeid_def)
  from splice_error_link [OF assms(1) this assms(7-11)] have "ret = e" and b: "balanced E ns1" by auto
  moreover have "forgets_one (force_forget rd fp)" using dir_server.force_forgets [OF assms(3) refl] .
  ultimately show ?thesis using assms(2) n(1) by (auto simp: forgets_one_def balanced_owed)
qed

subsection \<open>Examples\<close>

text \<open>Records of four bytes and the name, and a directory with one entry.\<close>

definition example_layout :: "(u8 list \<Rightarrow> 'e) \<Rightarrow> 'e layout" where
  "example_layout f = \<lparr>lay_fixed = 4, lay_size = (\<lambda>n. n + 4), lay_namelen = (\<lambda>b. unat (b ! 2)), lay_ino = (\<lambda>b. ucast (b ! 0)),
     lay_off = (\<lambda>b. ucast (b ! 1)), lay_type = (\<lambda>b. ucast (b ! 3)), lay_entry = f\<rparr>"

definition example_enc_dirent :: "dirent \<Rightarrow> u8 list" where
  "example_enc_dirent d = [ucast (de_ino d), ucast (de_off d), of_nat (length (de_name d)), ucast (de_type d)] @ de_name d"

definition example_dirent :: dirent where
  "example_dirent = \<lparr>de_name = [97], de_off = 1, de_ino = 8, de_type = 8\<rparr>"

definition example_plus :: "fuse_entry_out layout" where
  "example_plus = example_layout (\<lambda>b. example_entry (ucast (b ! 0)) 0x81a4)"

text \<open>The server answers with the entry at offset 0, and with nothing behind it.\<close>

definition example_dir_reply :: "fuse_req \<Rightarrow> int \<times> fuse_arg list" where
  "example_dir_reply q = (let b = (if map arg_value (in_args (rq_in q)) = [[0]] then example_enc_dirent example_dirent else [])
     in (0, [\<lparr>arg_size = length b, arg_value = b\<rparr>]))"

definition example_rd :: readdir_env where
  "example_rd = \<lparr>rd_env = example_env, rd_task = \<lparr>t_fsuid = 0, t_fsgid = 0, t_pid = 1\<rparr>, rd_killed = False, rd_ok = (\<lambda>_. True),
     rd_page = Some 0, rd_wait = serve_dir example_dir_reply example_plus,
     rd_links = (\<lambda>_. \<lparr>le_ok = (\<lambda>_. True), le_found = [Found_name 2], le_splice = Splice_here\<rparr>),
     rd_plain = example_layout (\<lambda>_. ()), rd_plus = example_plus,
     rd_enc = (\<lambda>a. if ri_offset a = 0 then [0] else [1]), rd_enc_forget = []\<rparr>"

text \<open>The example of \<open>Fuse_Dir_Correct\<close> with an open directory.\<close>

definition open_dir :: "fuse_conn_bit set \<Rightarrow> fuse_state \<Rightarrow> fuse_state" where
  "open_dir bits s = s\<lparr>fc_bits := bits, ffs := [200 \<mapsto> example_ff], filps := [300 \<mapsto> \<lparr>f_count = 1, private_data = Some 200\<rparr>]\<rparr>"

definition example_rns :: "fuse_conn_bit set \<Rightarrow> fuse_ns" where
  "example_rns bits = nsb_update (upd_conn (open_dir bits)) example_ns"

lemma example_good: "good_entry (example_layout f) example_enc_dirent example_dirent"
  by (simp add: good_entry_def encodes_def good_name_def example_layout_def example_enc_dirent_def example_dirent_def rec_name_def
      FUSE_NAME_MAX_def SLASH_def)

lemmas example_rd_defs = example_rd_def example_rns_def open_dir_def example_plus_def example_ff_def example_ns_def example_wb_of_def example_sb_defs
  nsb_update_def

lemmas readdir_eval = fuse_get_req_def fuse_get_req_common_def get_req_resume_def fuse_request_alloc_def waiting_inc_def mark_new_def fuse_req_init_context_def
  fuse_block_alloc_def readdir_got_def readdir_ask_def fuse_use_readdirplus_def fuse_request_send_def mark_waiting_def request_send_start_def
  get_request_def queue_unique_def queue_request_def fuse_get_unique_def serve_dir_def waited_for_def request_end_def file_ff_def set_flag_def clear_flag_def
  fuse_read_fill_def one_page_def answer_def set_conn_def


text \<open>A new request that is sent is answered by \<open>serve_dir\<close>, and nothing else changes that the caller looks at.\<close>

definition fresh :: "fuse_req \<Rightarrow> bool" where
  "fresh q \<longleftrightarrow> rq_count q = 1 \<and> FR_WAITING \<in> rq_flags q \<and> rq_flags q \<inter> {FR_BACKGROUND, FR_FINISHED} = {} \<and> rq_end q = None \<and> rq_stolen_file q = None"

lemma start_fresh:
  assumes "reqs s r = Some q" and "FR_BACKGROUND \<notin> rq_flags q" and "iq_connected (iq s)"
  shows "\<exists>ph s' q'. request_send_start s r = Some (ph, s') \<and> reqs s' r = Some q' \<and> rq_count q' = rq_count q + 1 \<and>
    rq_flags q' = rq_flags q \<and> rq_end q' = rq_end q \<and> rq_stolen_file q' = rq_stolen_file q \<and> same_question q q'"
  using assms
  by (simp add: request_send_start_def get_request_def queue_unique_def queue_request_def fuse_get_unique_def same_question_def
      set_in_unique_def set_in_len_def Let_def)

lemma end_sent:
  assumes "reqs s r = Some q" and "rq_count q = 2" and "FR_FINISHED \<notin> rq_flags q" and "FR_BACKGROUND \<notin> rq_flags q"
    and "rq_end q = None" and "rq_stolen_file q = None"
  shows "\<exists>s' q'. request_end s r = Some s' \<and> reqs s' r = Some q' \<and> rq_count q' = 1 \<and> rq_out q' = rq_out q \<and>
    rq_stolen_file q' = None"
  using assms by (simp add: request_end_def intr_del_def fuse_put_request_def set_flag_def Let_def)

lemma put_replied:
  assumes "reqs s r = Some q" and "rq_count q = 1" and "rq_stolen_file q = None"
  shows "\<exists>s'. fuse_put_request s r = Some s'"
  using assms by (simp add: fuse_put_request_def put_last_ref_def fuse_request_free_def waiting_dec_def Let_def)

definition others_same :: "fuse_ns \<Rightarrow> fuse_ns \<Rightarrow> bool" where
  "others_same ns ns' \<longleftrightarrow> inodes (nsb ns') = inodes (nsb ns) \<and> dcache ns' = dcache ns"

lemma serve_sent:
  assumes q: "reqs (nconn ns) r = Some q" and "rq_count q = 2" and "rq_flags q \<inter> {FR_BACKGROUND, FR_FINISHED} = {}"
    and "rq_end q = None" and "rq_stolen_file q = None"
  shows "\<exists>ns' q'. serve_dir reply lay r ph ns = Some ns' \<and> reqs (nconn ns') r = Some q' \<and> rq_count q' = 1 \<and> rq_stolen_file q' = None \<and>
    (ih_opcode (in_h (rq_in q)) \<noteq> FUSE_FORGET \<longrightarrow> reply_of q' = reply q) \<and> others_same ns ns'"
proof -
  have w: "waited_for q" using assms by (auto simp: waited_for_def)
  have "\<exists>s1 q1. request_end (upd_req r (clear_flag FR_PENDING) (list_del r (nconn ns))) r = Some s1 \<and> reqs s1 r = Some q1 \<and>
      rq_count q1 = 1 \<and> rq_stolen_file q1 = None"
    using end_sent [of "upd_req r (clear_flag FR_PENDING) (list_del r (nconn ns))" r "clear_flag FR_PENDING q"] assms
    by (auto simp: clear_flag_def)
  moreover have "\<exists>s1 q1. request_end (upd_req r (clear_flag FR_PENDING \<circ> answer (reply q)) (list_del r (nconn ns))) r = Some s1 \<and>
      reqs s1 r = Some q1 \<and> rq_count q1 = 1 \<and> rq_stolen_file q1 = None \<and> reply_of q1 = reply q"
    using end_sent [of "upd_req r (clear_flag FR_PENDING \<circ> answer (reply q)) (list_del r (nconn ns))" r
        "clear_flag FR_PENDING (answer (reply q) q)"] assms
    by (auto simp: clear_flag_def answer_def reply_of_def)
  ultimately show ?thesis
    using q w by (auto simp: serve_dir_def others_same_def set_conn_def uncount_def count_lookups_def)
qed

lemma ask_progress:
  assumes f: "file_ff (nconn ns) fp = Some ff" "ffs (nconn ns) ff = Some f" and use: "fuse_use_readdirplus i pos ns = Some (isplus, ns)"
    and q: "reqs (nconn ns) r = Some q" "fresh q" and c: "iq_connected (iq (nconn ns))" and rd: "rd_wait rd = serve_dir reply lay"
  obtains ver q1 ns' where "readdir_ask rd fp flags i pos r pg ns = Some (isplus, ver, fst (reply q1), dir_bytes (snd (reply q1)), ns')"
    and "map arg_value (in_args (rq_in q1)) = [rd_enc rd \<lparr>ri_fh = ff_fh f, ri_offset = pos, ri_size = PAGE_SIZE, ri_flags = flags\<rparr>]"
    and "others_same ns ns'"
proof -
  let ?fill = "fuse_read_fill (rd_enc rd) (nconn ns) f flags pos PAGE_SIZE (if isplus then FUSE_READDIRPLUS else FUSE_READDIR) \<circ> one_page pg"
  let ?s = "upd_req r ?fill (nconn ns)"
  let ?q = "set_flag FR_ISREPLY (?fill q)"
  have "mark_waiting (upd_req r (set_flag FR_ISREPLY) ?s) r = Some (upd_req r (set_flag FR_ISREPLY) ?s)"
    using q by (simp add: mark_waiting_def fresh_def set_flag_def fuse_read_fill_def one_page_def Let_def)
  moreover have "reqs (upd_req r (set_flag FR_ISREPLY) ?s) r = Some ?q" using q by simp
  moreover have "FR_BACKGROUND \<notin> rq_flags ?q" "iq_connected (iq (upd_req r (set_flag FR_ISREPLY) ?s))"
    using q c by (simp_all add: fresh_def set_flag_def fuse_read_fill_def one_page_def Let_def)
  ultimately obtain ph s2 q1 where send: "fuse_request_send ?s r = Some (ph, s2)" and q1: "reqs s2 r = Some q1" "rq_count q1 = rq_count ?q + 1"
      "rq_flags q1 = rq_flags ?q" "rq_end q1 = rq_end ?q" "rq_stolen_file q1 = rq_stolen_file ?q" "same_question ?q q1"
    using start_fresh [of "upd_req r (set_flag FR_ISREPLY) ?s" r ?q] by (auto simp: fuse_request_send_def)
  have arg: "map arg_value (in_args (rq_in q1)) = [rd_enc rd \<lparr>ri_fh = ff_fh f, ri_offset = pos, ri_size = PAGE_SIZE, ri_flags = flags\<rparr>]"
      "ih_opcode (in_h (rq_in q1)) \<noteq> FUSE_FORGET"
    using q1(6) by (simp_all add: same_question_def set_flag_def fuse_read_fill_def Let_def)
  have "reqs (nconn (set_conn s2 ns)) r = Some q1" using q1(1) by (simp add: set_conn_def)
  moreover have "rq_count q1 = 2" "rq_flags q1 \<inter> {FR_BACKGROUND, FR_FINISHED} = {}" "rq_end q1 = None" "rq_stolen_file q1 = None"
    using q q1 by (auto simp: fresh_def set_flag_def fuse_read_fill_def one_page_def Let_def)
  ultimately obtain ns2 q2 where wt: "serve_dir reply lay r ph (set_conn s2 ns) = Some ns2" and q2: "reqs (nconn ns2) r = Some q2"
      "rq_count q2 = 1" "rq_stolen_file q2 = None" "reply_of q2 = reply q1" and o: "others_same (set_conn s2 ns) ns2"
    using serve_sent [of "set_conn s2 ns" r q1 reply lay ph] arg(2) by blast
  obtain s3 where put: "fuse_put_request (nconn ns2) r = Some s3" using put_replied q2 by blast
  have "readdir_ask rd fp flags i pos r pg ns = Some (isplus, if isplus then fuse_get_attr_version (nsb ns) else 0,
      fst (reply q1), dir_bytes (snd (reply q1)), set_conn s3 ns2)"
    using f use send wt q2(1) put by (simp add: readdir_ask_def Let_def rd q2(4) [symmetric]) (simp add: reply_of_def)
  moreover have "others_same ns (set_conn s3 ns2)" using o by (simp add: others_same_def set_conn_def)
  ultimately show thesis by (rule that [OF _ arg(1)])
qed

lemma get_req_fresh:
  assumes "initialized s" and "connected s" and "Conn_error \<notin> fc_bits s"
  shows "\<exists>s' q. fuse_get_req (\<lambda>_. True) cur 1 False s = (Got (next_id s), s') \<and> reqs s' (next_id s) = Some q \<and> fresh q \<and>
    filps s' = filps s \<and> ffs s' = ffs s \<and> iq s' = iq s \<and> fc_bits s' = fc_bits s"
  using assms
  by (simp add: fuse_get_req_def fuse_get_req_common_def get_req_resume_def fuse_block_alloc_def fuse_request_alloc_def waiting_inc_def
      fresh_def fuse_request_init_def FUSE_REQ_INLINE_PAGES_def)

text \<open>\<open>fuse_readdir\<close> on the example, up to the answer.\<close>

lemma example_rns_parts:
  "filps (nconn (example_rns bits)) = [300 \<mapsto> \<lparr>f_count = 1, private_data = Some 200\<rparr>]" "ffs (nconn (example_rns bits)) = [200 \<mapsto> example_ff]"
  "iq_connected (iq (nconn (example_rns bits)))" "initialized (nconn (example_rns bits))" "connected (nconn (example_rns bits))"
  "fc_bits (nconn (example_rns bits)) = bits" "inodes (nsb (example_rns bits)) = inodes example_sb" "dcache (example_rns bits) = dcache example_ns"
  by (simp_all add: example_rns_def open_dir_def example_ns_def example_wb_of_def example_sb_defs)

lemma example_readdir:
  assumes "bits = {} \<or> bits = {Do_readdirplus}"
  obtains r ns1 ver ns2 where "fuse_readdir example_rd 300 0 0 0 ctx (example_rns bits) = readdir_got example_rd 300 0 0 0 ctx r 0 ns1"
    and "readdir_ask example_rd 300 0 0 (cx_pos ctx) r 0 ns1 = Some (bits \<noteq> {}, ver, 0, if cx_pos ctx = 0 then example_enc_dirent example_dirent else [], ns2)"
    and "others_same (example_rns bits) ns2"
proof -
  let ?ns = "example_rns bits"
  obtain s1 q where g: "fuse_get_req (\<lambda>_. True) (rd_task example_rd) 1 False (nconn ?ns) = (Got (next_id (nconn ?ns)), s1)"
    and q: "reqs s1 (next_id (nconn ?ns)) = Some q" "fresh q" and s1: "filps s1 = filps (nconn ?ns)" "ffs s1 = ffs (nconn ?ns)"
      "iq s1 = iq (nconn ?ns)" "fc_bits s1 = fc_bits (nconn ?ns)"
    using get_req_fresh [of "nconn ?ns" "rd_task example_rd"] example_rns_parts [of bits] assms by auto
  let ?r = "next_id (nconn ?ns)" and ?ns1 = "set_conn s1 ?ns"
  have i: "inodes (nsb ?ns) 0 = Some (example_inode 7)" "\<not> is_bad_inode (example_inode 7)"
    by (simp_all add: example_rns_parts example_sb_def is_bad_inode_def example_inode_def new_inode_def)
  have 1: "fuse_readdir example_rd 300 0 0 0 ctx ?ns = readdir_got example_rd 300 0 0 0 ctx ?r 0 ?ns1"
    using g i by (simp add: fuse_readdir_def) (simp add: example_rd_def)
  have f: "file_ff (nconn ?ns1) 300 = Some 200" "ffs (nconn ?ns1) 200 = Some example_ff"
    by (simp_all add: file_ff_def set_conn_def s1 example_rns_parts)
  have use: "fuse_use_readdirplus 0 (cx_pos ctx) ?ns1 = Some (bits \<noteq> {}, ?ns1)"
    using assms i by (auto simp: fuse_use_readdirplus_def set_conn_def s1 example_rns_parts)
  have q1: "reqs (nconn ?ns1) ?r = Some q" "iq_connected (iq (nconn ?ns1))" using q by (simp_all add: set_conn_def s1 example_rns_parts)
  have rd: "rd_wait example_rd = serve_dir example_dir_reply example_plus" by (simp add: example_rd_def)
  show thesis
  proof (rule ask_progress [OF f use q1(1) q(2) q1(2) rd, of 0 0])
    fix ver q1 ns'
    assume ask: "readdir_ask example_rd 300 0 0 (cx_pos ctx) ?r 0 ?ns1 =
        Some (bits \<noteq> {}, ver, fst (example_dir_reply q1), dir_bytes (snd (example_dir_reply q1)), ns')"
      and arg: "map arg_value (in_args (rq_in q1)) =
        [rd_enc example_rd \<lparr>ri_fh = ff_fh example_ff, ri_offset = cx_pos ctx, ri_size = PAGE_SIZE, ri_flags = 0\<rparr>]"
      and o: "others_same ?ns1 ns'"
    have "fst (example_dir_reply q1) = 0" "dir_bytes (snd (example_dir_reply q1)) = (if cx_pos ctx = 0 then example_enc_dirent example_dirent else [])"
      using arg by (simp_all add: example_dir_reply_def Let_def dir_bytes_def example_rd_def)
    moreover have "others_same ?ns ns'" using o by (simp add: others_same_def set_conn_def)
    ultimately show thesis using that [OF 1] ask by simp
  qed
qed

lemma serve_dir_reply:
  assumes run: "serve_dir reply lay r ph ns = Some ns'" and q: "reqs (nconn ns) r = Some q" and q': "reqs (nconn ns') r = Some q'"
    and op: "ih_opcode (in_h (rq_in q)) \<noteq> FUSE_FORGET"
  shows "reply_of q' = reply q"
proof -
  let ?s = "upd_req r (clear_flag FR_PENDING \<circ> answer (reply q)) (list_del r (nconn ns))"
  from run q q' op obtain s1 where w: "waited_for q" and e: "request_end ?s r = Some s1" and s1: "reqs s1 r = Some q'"
    by (auto simp: serve_dir_def count_lookups_def set_conn_def elim!: bind_Some_E split: if_split_asm)
  have "reqs ?s r = Some (clear_flag FR_PENDING (answer (reply q) q))" "waited_for (clear_flag FR_PENDING (answer (reply q) q))"
    using q w by (simp_all add: waited_for_def answer_def clear_flag_def)
  from serve_end(2) [OF e this s1] show ?thesis by (simp add: reply_of_def answer_def clear_flag_def)
qed

lemma example_chunk:
  "chunk (example_layout f) example_enc_dirent [example_dirent] p (if p = 0 then example_enc_dirent example_dirent else [])"
proof -
  have tail: "cut_off (example_layout f) []" by (simp add: cut_off_def example_layout_def)
  have "\<forall>d \<in> set [example_dirent]. good_entry (example_layout f) example_enc_dirent d" using example_good by simp
  with tail show ?thesis unfolding chunk_def
    by (intro exI [of _ "if p = 0 then [example_dirent] else []"] exI [of _ "[]"]) (simp add: after_def)
qed

lemma example_lists: "lists_directory example_rd example_enc_dirent example_enc_dirent [example_dirent]"
  unfolding lists_directory_def
proof (intro allI impI)
  fix r ph ns ns' q q' inarg
  assume run: "rd_wait example_rd r ph ns = Some ns'" and q: "reqs (nconn ns) r = Some q" "reqs (nconn ns') r = Some q'"
    and arg: "map arg_value (in_args (rq_in q)) = [rd_enc example_rd inarg]"
  have "dir_bytes (out_args (rq_out q')) = (if ri_offset inarg = 0 then example_enc_dirent example_dirent else [])"
    if "ih_opcode (in_h (rq_in q)) \<noteq> FUSE_FORGET"
  proof -
    have "reply_of q' = example_dir_reply q" using serve_dir_reply [OF _ q that] run by (simp add: example_rd_def)
    then have "out_args (rq_out q') = snd (example_dir_reply q)" by (metis reply_of_def snd_conv)
    then show ?thesis using arg by (simp add: example_dir_reply_def Let_def dir_bytes_def example_rd_def)
  qed
  then show "(ih_opcode (in_h (rq_in q)) = FUSE_READDIR \<longrightarrow> chunk (rd_plain example_rd) example_enc_dirent [example_dirent] (ri_offset inarg) (dir_bytes (out_args (rq_out q')))) \<and>
     (ih_opcode (in_h (rq_in q)) = FUSE_READDIRPLUS \<longrightarrow> chunk (rd_plus example_rd) example_enc_dirent [example_dirent] (ri_offset inarg) (dir_bytes (out_args (rq_out q'))))"
    using example_chunk [of "\<lambda>_. ()" "ri_offset inarg"] example_chunk [of "\<lambda>b. example_entry (ucast (b ! 0)) 0x81a4" "ri_offset inarg"]
    by (auto simp: example_rd_def example_plus_def split del: if_split)
qed

lemma readdir_resumes_witness:
  "\<exists>p. dir_reading example_enc_dirent example_enc_dirent [example_dirent] p [entry_at 0 example_dirent] \<and> after [example_dirent] p = []"
proof -
  let ?ctx = "\<lparr>cx_pos = 0, cx_out = [], cx_room = \<lambda>_ _. True\<rparr>"
  obtain ns' where run: "fuse_readdir example_rd 300 0 0 0 ?ctx (example_rns {}) = Some (0, taken [example_dirent] ?ctx, ns')"
  proof (rule example_readdir [of "{}" ?ctx])
    fix r ns1 ver ns2
    assume "fuse_readdir example_rd 300 0 0 0 ?ctx (example_rns {}) = readdir_got example_rd 300 0 0 0 ?ctx r 0 ns1"
      and "readdir_ask example_rd 300 0 0 (cx_pos ?ctx) r 0 ns1 =
        Some ({} \<noteq> ({} :: fuse_conn_bit set), ver, 0, if cx_pos ?ctx = 0 then example_enc_dirent example_dirent else [], ns2)"
    moreover have "parse_dirfile (example_layout (\<lambda>_. ())) (concat (map example_enc_dirent [example_dirent]) @ []) ?ctx = Some (0, taken [example_dirent] ?ctx)"
      using example_good by (intro parse_dirfile_run) (simp_all add: cut_off_def example_layout_def)
    ultimately show thesis using that by (simp add: readdir_got_def readdir_parse_def) (simp add: example_rd_def)
  qed simp
  have "dir_reading example_enc_dirent example_enc_dirent [example_dirent] (cx_pos (taken [example_dirent] ?ctx)) ([] @ cx_out (taken [example_dirent] ?ctx))"
    by (rule dir_reading.Call [OF dir_reading.Open example_lists run])
  then have r: "dir_reading example_enc_dirent example_enc_dirent [example_dirent] 1 [entry_at 0 example_dirent]"
    by (simp add: taken_def given_def) (simp add: example_dirent_def)
  have "listing [example_dirent]" by (simp add: listing_def example_dirent_def)
  from readdir_resumes [OF r this] obtain a where "[example_dirent] = a @ after [example_dirent] 1" "[entry_at 0 example_dirent] = emits 0 a" by blast
  then have "after [example_dirent] 1 = []" by (cases a) auto
  with r show ?thesis by blast
qed

lemma example_link_ok: "links_well (rd_links example_rd k)" "0 < lay_size (rd_plus example_rd) n"
  by (simp_all add: links_well_def example_rd_def example_plus_def example_layout_def)

lemma readdirplus_settles_witness:
  "\<exists>ctx' ns'. fuse_readdir example_rd 300 0 0 0 \<lparr>cx_pos = 0, cx_out = [], cx_room = \<lambda>_ _. False\<rparr> (example_rns {Do_readdirplus}) =
     Some (0, ctx', ns') \<and> balanced [] ns'"
proof -
  let ?ctx = "\<lparr>cx_pos = 0, cx_out = [], cx_room = \<lambda>_ _. False\<rparr>" and ?ns = "example_rns {Do_readdirplus}"
  obtain ctx' ns' where run: "fuse_readdir example_rd 300 0 0 0 ?ctx ?ns = Some (0, ctx', ns')"
  proof (rule example_readdir [of "{Do_readdirplus}" ?ctx])
    fix r ns1 ver ns2
    assume 1: "fuse_readdir example_rd 300 0 0 0 ?ctx ?ns = readdir_got example_rd 300 0 0 0 ?ctx r 0 ns1"
      "readdir_ask example_rd 300 0 0 (cx_pos ?ctx) r 0 ns1 =
        Some ({Do_readdirplus} \<noteq> {}, ver, 0, if cx_pos ?ctx = 0 then example_enc_dirent example_dirent else [], ns2)"
      and o: "others_same ?ns ns2"
    have i: "inodes (nsb ns2) 1 = Some (example_inode 8)" "dcache ns2 2 = Some (example_dentry (Some 1) 0 [98])"
      using o by (simp_all add: others_same_def example_rns_parts example_sb_def example_ns_def)
    have "\<exists>ns3. fuse_direntplus_link example_env (rd_links example_rd 0) 0 [97] (example_entry 8 0x81a4) ver ns2 = Some (0, ns3)"
      using i by (simp add: fuse_direntplus_link_def dot_name_def example_rd_def link_matches_def type_differs_def dentry_inode_def
        dget_def upd_dentry_def direntplus_known_def refresh_attributes_def fuse_change_attributes_def is_bad_inode_def example_entry_def
        invalid_nodeid_def fuse_valid_type_def S_ISREG_def attr_umode_def mode_defs inc_nlookup_def nsb_update_def example_attr_def
        example_inode_def new_inode_def example_dentry_def Let_def)
    then obtain ns3 where link: "fuse_direntplus_link example_env (rd_links example_rd 0) 0 [97] (example_entry 8 0x81a4) ver ns2 = Some (0, ns3)"
      by blast
    have good: "good_entry example_plus example_enc_dirent example_dirent" using example_good by (simp add: example_plus_def)
    have out: "lay_entry example_plus (example_enc_dirent example_dirent @ []) = example_entry 8 0x81a4" "de_name example_dirent = [97]"
      by (simp_all add: example_plus_def example_layout_def example_enc_dirent_def example_dirent_def)
    have stop: "parse_dirplusfile env les forget example_plus parent ver k over [] ctx ns = Some (0, ctx, ns)" for env les forget parent ver k over ctx ns
      by (rule parse_plus_cut_off) (simp add: cut_off_def example_plus_def example_layout_def)
    have "parse_dirplusfile example_env (rd_links example_rd) (force_forget example_rd 300) example_plus 0 ver 0 False
        (example_enc_dirent example_dirent @ []) ?ctx ns2 = Some (0, ?ctx, ns3)"
      using good_record [OF good, of "[]"] link out stop by (subst parse_dirplusfile.simps) simp
    then show thesis using 1 that by (simp add: readdir_got_def readdir_parse_def) (simp add: example_rd_def)
  qed simp
  have b: "balanced [] ?ns"
    unfolding example_rns_def by (rule balanced_conn [OF example_balanced]) (simp add: same_forgets_def open_dir_def)
  have s: "dir_server (rd_wait example_rd) (rd_plus example_rd)"
    using dir_served.dir_server_axioms by (simp add: example_rd_def)
  from readdirplus_settles [OF run s b example_link_ok] have "balanced [] ns'" by (auto simp: errno_defs)
  with run show ?thesis by blast
qed

lemma nofail_fresh:
  assumes "initialized s"
  shows "\<exists>s' q. fuse_get_req_nofail_nopages (\<lambda>_. True) cur fp s = Some (Got (next_id s), s') \<and> reqs s' (next_id s) = Some q \<and> fresh q \<and> iq s' = iq s"
  using assms
  by (simp add: fuse_get_req_nofail_nopages_def get_req_nofail_resume_def fuse_request_alloc_def waiting_inc_def fresh_def
      fuse_request_init_def FUSE_REQ_INLINE_PAGES_def)

lemma force_progress:
  assumes "initialized (nconn ns)" and c: "iq_connected (iq (nconn ns))" and rd: "rd_ok rd = (\<lambda>_. True)" "rd_wait rd = serve_dir reply lay"
  shows "\<exists>ns'. force_forget rd fp n ns = Some ns'"
proof -
  let ?r = "next_id (nconn ns)"
  obtain s1 q where g: "fuse_get_req_nofail_nopages (\<lambda>_. True) (rd_task rd) fp (nconn ns) = Some (Got ?r, s1)"
    and q: "reqs s1 ?r = Some q" "fresh q" "iq s1 = iq (nconn ns)"
    using nofail_fresh [OF assms(1)] by blast
  let ?q = "force_forget_fill s1 n (rd_enc_forget rd) q" and ?s = "upd_req ?r (force_forget_fill s1 n (rd_enc_forget rd)) s1"
  have "reqs ?s ?r = Some ?q" "FR_BACKGROUND \<notin> rq_flags ?q" "iq_connected (iq ?s)"
    using q c by (auto simp: fresh_def force_forget_fill_def clear_flag_def)
  then obtain ph s2 q2 where send: "request_send_start ?s ?r = Some (ph, s2)" and q2: "reqs s2 ?r = Some q2" "rq_count q2 = rq_count ?q + 1"
      "rq_flags q2 = rq_flags ?q" "rq_end q2 = rq_end ?q" "rq_stolen_file q2 = rq_stolen_file ?q"
    using start_fresh by blast
  have "reqs (nconn (set_conn s2 ns)) ?r = Some q2" using q2(1) by (simp add: set_conn_def)
  moreover have "rq_count q2 = 2" "rq_flags q2 \<inter> {FR_BACKGROUND, FR_FINISHED} = {}" "rq_end q2 = None" "rq_stolen_file q2 = None"
    using q q2 by (auto simp: fresh_def force_forget_fill_def clear_flag_def)
  ultimately obtain ns2 q3 where wt: "serve_dir reply lay ?r ph (set_conn s2 ns) = Some ns2" and q3: "reqs (nconn ns2) ?r = Some q3"
      "rq_count q3 = 1" "rq_stolen_file q3 = None"
    using serve_sent [of "set_conn s2 ns" ?r q2 reply lay ph] by blast
  obtain s4 where "fuse_put_request (nconn ns2) ?r = Some s4" using put_replied q3 by blast
  then show ?thesis using g send wt by (simp add: force_forget_def fuse_force_forget_def rd)
qed

text \<open>The record names node 8, whose inode the dentry cache refuses.\<close>

lemma splice_error_forgets_twice_witness:
  "\<exists>ret ns1 ns2. fuse_direntplus_link example_env \<lparr>le_ok = \<lambda>_. True, le_found = [Found_new 5], le_splice = Splice_error (- ENOMEM)\<rparr> 0 [97]
       (example_entry 8 0x81a4) 1 (count_lookups [8] (example_rns {})) = Some (ret, ns1) \<and>
     force_forget example_rd 300 8 ns1 = Some ns2 \<and> owed (less_one 8 (\<lambda>_. 0)) ns2"
proof -
  let ?buf = "example_enc_dirent example_dirent" and ?ns = "count_lookups [8] (example_rns {})"
  let ?le = "\<lparr>le_ok = \<lambda>_. True, le_found = [Found_new 5], le_splice = Splice_error (- ENOMEM)\<rparr>"
  have rec: "rec_name example_plus ?buf = [97]" "lay_entry example_plus ?buf = example_entry 8 0x81a4"
    by (simp_all add: rec_name_def example_plus_def example_layout_def example_enc_dirent_def example_dirent_def)
  have names: "record_names example_plus ?buf = [8]" by (simp add: record_names_def rec dot_name_def example_entry_def)
  have ns: "inodes (nsb ?ns) = inodes example_sb" "ihash (nsb ?ns) = ihash example_sb"
    by (simp_all add: count_lookups_def example_rns_def example_ns_def example_wb_of_def)
  have get: "ilookup5 8 (nsb ?ns) = (Some 1, upd_inode 1 (\<lambda>v. v\<lparr>i_count := i_count v + 1\<rparr>) (nsb ?ns))"
    using ns by (simp add: ilookup5_def example_sb_def)
  have c: "initialized (nconn ?ns)" "iq_connected (iq (nconn ?ns))"
    using example_rns_parts [of "{}"] by (simp_all add: count_lookups_def)
  have "\<exists>ret ns1. fuse_direntplus_link example_env ?le 0 [97] (example_entry 8 0x81a4) 1 ?ns = Some (ret, ns1) \<and>
      initialized (nconn ns1) \<and> iq_connected (iq (nconn ns1))"
    using ns c
    by (simp add: fuse_direntplus_link_def dot_name_def invalid_nodeid_def direntplus_new_def entry_iget_def fuse_iget_def iget_find_def get
       d_splice_alias_def ns_iput_def iput_def example_entry_def d_alloc_def fuse_valid_type_def S_ISREG_def attr_umode_def mode_defs example_attr_def
       fuse_change_attributes_def example_sb_def example_inode_def new_inode_def set_nsb_def nsb_update_def change_common_alt Let_def attr_stale_def
       dput_def d_lookup_done_def upd_dentry_def)
  then obtain ret ns1 where link: "fuse_direntplus_link example_env ?le 0 [97] (example_entry 8 0x81a4) 1 ?ns = Some (ret, ns1)"
    and c1: "initialized (nconn ns1)" "iq_connected (iq (nconn ns1))" by blast
  have rd: "rd_ok example_rd = (\<lambda>_. True)" "rd_wait example_rd = serve_dir example_dir_reply example_plus" by (simp_all add: example_rd_def)
  from force_progress [OF c1 rd] obtain ns2 where forget: "force_forget example_rd 300 8 ns1 = Some ns2" by blast
  have s: "dir_server (rd_wait example_rd) (rd_plus example_rd)"
    using dir_served.dir_server_axioms by (simp add: example_rd_def)
  have b0: "balanced [] (example_rns {})"
    unfolding example_rns_def by (rule balanced_conn [OF example_balanced]) (simp add: same_forgets_def open_dir_def)
  have b: "balanced (record_names example_plus ?buf @ []) ?ns" using balanced_count [OF b0, of "[8]"] by (simp add: names)
  have "owed (less_one 8 (\<lambda>m. of_nat (count_list [] m))) ns2"
    using splice_error_forgets_twice [where lay = example_plus and buf = ?buf and le = ?le and E = "[]" and n = 8, OF _ _ s b names]
      link forget example_attr_valid [of 10] by (auto simp: rec example_entry_def)
  then show ?thesis using link forget by auto
qed

end
