(* ===== verification/Fuse_Notify.thy ===== *)
theory Fuse_Notify
  imports Fuse_Dir "HOL-Library.Tree"
begin

text \<open>
  Notifications of the server (\<open>dev.c\<close>, with the wake-up of polled files of \<open>file.c\<close>): messages without a request that
  invalidate attributes, pages or names, store data in the page cache, ask for data of it, or wake a poll.

  \<^item> \<open>nt_cache\<close> is the page cache: the page of an inode at an index, whose content and flags are in \<open>cs_mem\<close> of the
    copy. A page that is added to the cache keeps the bytes its memory had. The locks of pages are not part of the
    state; a reference that is taken and dropped in one round of a loop is left out.
  \<^item> \<open>nt_polled\<close> is the tree of polled files, \<open>nt_poll_wakes\<close> are the files whose waiting pollers were woken, newest first.
    How \<open>rb_insert_color\<close> balances a tree is an argument.
  \<^item> \<open>ne_others\<close> is what other threads do to the connection while \<open>fuse_retrieve\<close> looks for pages.
  \<^item> A caller that sleeps until INIT is answered (\<open>fuse_get_req\<close>) is \<open>None\<close>.
  \<^item> The codes and the layout of the messages are in \<open>linux/fuse.h\<close>, which is not in the repository: \<open>notify_env\<close> has
    their decoders.
\<close>

record store_out =
  so_nodeid :: u64
  so_offset :: u64
  so_size :: u32

record retrieve_out =
  ro_unique :: u64
  ro_nodeid :: u64
  ro_offset :: u64
  ro_size :: u32

record entry_note =
  en_parent :: u64
  en_child :: u64
  en_namelen :: u32

datatype notify_code =
    FUSE_NOTIFY_POLL | FUSE_NOTIFY_INVAL_INODE | FUSE_NOTIFY_INVAL_ENTRY | FUSE_NOTIFY_STORE | FUSE_NOTIFY_RETRIEVE
  | FUSE_NOTIFY_DELETE

record notify_env =
  ne_code :: "int \<Rightarrow> notify_code option"
  ne_poll :: "u8 list \<Rightarrow> u64"
  ne_inval :: "u8 list \<Rightarrow> u64 \<times> u64 \<times> u64"
  ne_entry :: "u8 list \<Rightarrow> entry_note"
  ne_delete :: "u8 list \<Rightarrow> entry_note"
  ne_store :: "u8 list \<Rightarrow> store_out"
  ne_retrieve :: "u8 list \<Rightarrow> retrieve_out"
  ne_enc_retrieve :: "u64 \<Rightarrow> nat \<Rightarrow> u8 list"
  ne_dc :: dcache_env
  ne_task :: task
  ne_killed :: bool
  ne_ok :: oom
  ne_new :: "nat \<Rightarrow> page_id option"
  ne_others :: "fuse_state \<Rightarrow> fuse_state"

record notify_state =
  nt_ns :: fuse_ns
  nt_cache :: "ino_id \<Rightarrow> nat \<Rightarrow> page_id option"
  nt_polled :: "ff_id tree"
  nt_poll_wakes :: "ff_id list"

abbreviation nt_conn :: "notify_state \<Rightarrow> fuse_state" where "nt_conn st \<equiv> nconn (nt_ns st)"

definition upd_nt_conn :: "(fuse_state \<Rightarrow> fuse_state) \<Rightarrow> notify_state \<Rightarrow> notify_state" where
  "upd_nt_conn f st = st\<lparr>nt_ns := nsb_update (upd_conn f) (nt_ns st)\<rparr>"

text \<open>\<open>fc->sb\<close>, which does not change while \<open>fc->killsb\<close> is held.\<close>

definition has_sb :: "notify_state \<Rightarrow> bool" where
  "has_sb st \<longleftrightarrow> sb_time_gran (nt_conn st) \<noteq> None"

type_synonym notify_result = "(int \<times> fuse_copy_state \<times> notify_state) option"

definition read_struct :: "nat \<Rightarrow> fuse_copy_state \<Rightarrow> (int \<times> u8 list \<times> fuse_copy_state) option" where
  "read_struct n cs = fuse_copy_one cs (replicate n 0)"

subsection \<open>Polled files\<close>

text \<open>The search in the tree of polled files, which is ordered by their kernel handles.\<close>

fun fuse_find_polled_node :: "(ff_id \<Rightarrow> u64) \<Rightarrow> u64 \<Rightarrow> ff_id tree \<Rightarrow> ff_id option" where
  "fuse_find_polled_node kh_of kh Leaf = None"
| "fuse_find_polled_node kh_of kh (Node l ff r) =
     (if kh < kh_of ff then fuse_find_polled_node kh_of kh l
      else if kh_of ff < kh then fuse_find_polled_node kh_of kh r
      else Some ff)"

definition kh_in :: "fuse_state \<Rightarrow> ff_id \<Rightarrow> u64" where
  "kh_in s ff = (case ffs s ff of None \<Rightarrow> 0 | Some f \<Rightarrow> ff_kh f)"

text \<open>The link where the search for a file that is not there ends takes the file.\<close>

fun link_polled :: "(ff_id \<Rightarrow> u64) \<Rightarrow> ff_id \<Rightarrow> ff_id tree \<Rightarrow> ff_id tree" where
  "link_polled kh_of new Leaf = Node Leaf new Leaf"
| "link_polled kh_of new (Node l ff r) =
     (if kh_of new < kh_of ff then Node (link_polled kh_of new l) ff r
      else Node l ff (link_polled kh_of new r))"

definition fuse_register_polled_file :: "(ff_id tree \<Rightarrow> ff_id tree) \<Rightarrow> ff_id \<Rightarrow> notify_state \<Rightarrow> notify_state option" where
  "fuse_register_polled_file balance ff st = do {
     f \<leftarrow> ffs (nt_conn st) ff;
     if ff_polled f then Some st
     else if fuse_find_polled_node (kh_in (nt_conn st)) (ff_kh f) (nt_polled st) \<noteq> None then None
     else Some (upd_nt_conn (\<lambda>s. s\<lparr>ffs := (ffs s)(ff \<mapsto> f\<lparr>ff_polled := True\<rparr>)\<rparr>)
            (st\<lparr>nt_polled := balance (link_polled (kh_in (nt_conn st)) ff (nt_polled st))\<rparr>))}"

definition fuse_notify_poll_wakeup :: "u64 \<Rightarrow> notify_state \<Rightarrow> notify_state" where
  "fuse_notify_poll_wakeup kh st =
     (case fuse_find_polled_node (kh_in (nt_conn st)) kh (nt_polled st) of
        None \<Rightarrow> st
      | Some ff \<Rightarrow> st\<lparr>nt_poll_wakes := ff # nt_poll_wakes st\<rparr>)"

definition fuse_notify_poll :: "notify_env \<Rightarrow> nat \<Rightarrow> fuse_copy_state \<Rightarrow> notify_state \<Rightarrow> notify_result" where
  "fuse_notify_poll ne sz cs st =
     (let n = wire_size (nt_conn st) W_notify_poll_wakeup_out in
      if sz \<noteq> n then Some (- EINVAL, fuse_copy_finish cs, st)
      else do {
        (err, b, cs1) \<leftarrow> read_struct n cs;
        if err \<noteq> 0 then Some (err, fuse_copy_finish cs1, st)
        else Some (0, fuse_copy_finish cs1, fuse_notify_poll_wakeup (ne_poll ne b) st)})"

text \<open>
  \<open>fuse_file_poll\<close>: \<open>waiters\<close> says that somebody waits on \<open>ff->poll_wait\<close>. The result is the mask of the server, or one of
  the two constants of the kernel.
\<close>

datatype pollmask = DEFAULT_POLLMASK | POLLERR | Revents u32

record fuse_poll_in =
  pi_fh :: u64
  pi_kh :: u64
  pi_schedule_notify :: bool
  pi_events :: u32

definition fuse_file_poll ::
    "(fuse_poll_in \<Rightarrow> u8 list) \<Rightarrow> u32 dask \<Rightarrow> (ff_id tree \<Rightarrow> ff_id tree) \<Rightarrow> bool \<Rightarrow> u32 \<Rightarrow> ff_id \<Rightarrow> notify_state \<Rightarrow>
      (pollmask \<times> notify_state) option" where
  "fuse_file_poll enc ask balance waiters wanted ff st = do {
     f \<leftarrow> ffs (nt_conn st) ff;
     if No_poll \<in> fc_bits (nt_conn st) then Some (DEFAULT_POLLMASK, st)
     else do {
       st1 \<leftarrow> (if waiters then fuse_register_polled_file balance ff st else Some st);
       let inarg = \<lparr>pi_fh = ff_fh f, pi_kh = ff_kh f, pi_schedule_notify = waiters, pi_events = wanted\<rparr>;
       (err, revents, ns2) \<leftarrow> ask \<lparr>a_opcode = FUSE_POLL, a_nodeid = ff_nodeid f,
           a_in_args = [\<lparr>arg_size = wire_size (nt_conn st) W_poll_in, arg_value = enc inarg\<rparr>], a_out_argvar = False,
           a_out_args = [\<lparr>arg_size = wire_size (nt_conn st) W_poll_out, arg_value = []\<rparr>]\<rparr> (nt_ns st1);
       let st2 = st1\<lparr>nt_ns := ns2\<rparr>;
       Some (if err = 0 then (Revents revents, st2)
             else if err = - ENOSYS
             then (DEFAULT_POLLMASK, upd_nt_conn (\<lambda>s. s\<lparr>fc_bits := insert No_poll (fc_bits s)\<rparr>) st2)
             else (POLLERR, st2))}}"

subsection \<open>Invalidation\<close>

definition on_ns :: "(int \<times> fuse_ns) option \<Rightarrow> fuse_copy_state \<Rightarrow> notify_state \<Rightarrow> notify_result" where
  "on_ns res cs st = map_option (\<lambda>(err, ns). (err, cs, st\<lparr>nt_ns := ns\<rparr>)) res"

definition fuse_notify_inval_inode :: "notify_env \<Rightarrow> nat \<Rightarrow> fuse_copy_state \<Rightarrow> notify_state \<Rightarrow> notify_result" where
  "fuse_notify_inval_inode ne sz cs st =
     (let n = wire_size (nt_conn st) W_notify_inval_inode_out in
      if sz \<noteq> n then Some (- EINVAL, fuse_copy_finish cs, st)
      else do {
        (err, b, cs1) \<leftarrow> read_struct n cs;
        if err \<noteq> 0 then Some (err, fuse_copy_finish cs1, st)
        else if \<not> has_sb st then Some (- ENOENT, fuse_copy_finish cs1, st)
        else (let (ino, off, len) = ne_inval ne b in
          on_ns (map_option (\<lambda>(e, sb). (e, set_nsb (nt_ns st) sb)) (fuse_reverse_inval_inode ino off len (nsb (nt_ns st))))
            (fuse_copy_finish cs1) st)})"

text \<open>The name behind the structure, with its zero byte.\<close>

definition notify_name ::
    "notify_env \<Rightarrow> nat \<Rightarrow> nat \<Rightarrow> entry_note \<Rightarrow> fuse_copy_state \<Rightarrow> notify_state \<Rightarrow> notify_result" where
  "notify_name ne n sz e cs st =
     (let len = unat (en_namelen e) in
      if FUSE_NAME_MAX < len then Some (- ENAMETOOLONG, fuse_copy_finish cs, st)
      else if sz \<noteq> n + len + 1 then Some (- EINVAL, fuse_copy_finish cs, st)
      else do {
        (err, b, cs1) \<leftarrow> read_struct (len + 1) cs;
        if err \<noteq> 0 then Some (err, fuse_copy_finish cs1, st)
        else if \<not> has_sb st then Some (- ENOENT, fuse_copy_finish cs1, st)
        else on_ns (fuse_reverse_inval_entry (ne_dc ne) (en_parent e) (en_child e) (take len b) (nt_ns st))
               (fuse_copy_finish cs1) st})"

definition fuse_notify_inval_entry :: "notify_env \<Rightarrow> nat \<Rightarrow> fuse_copy_state \<Rightarrow> notify_state \<Rightarrow> notify_result" where
  "fuse_notify_inval_entry ne sz cs st =
     (let n = wire_size (nt_conn st) W_notify_inval_entry_out in
      if \<not> ne_ok ne 0 then Some (- ENOMEM, fuse_copy_finish cs, st)
      else if sz < n then Some (- EINVAL, fuse_copy_finish cs, st)
      else do {
        (err, b, cs1) \<leftarrow> read_struct n cs;
        if err \<noteq> 0 then Some (err, fuse_copy_finish cs1, st)
        else notify_name ne n sz ((ne_entry ne b)\<lparr>en_child := 0\<rparr>) cs1 st})"

definition fuse_notify_delete :: "notify_env \<Rightarrow> nat \<Rightarrow> fuse_copy_state \<Rightarrow> notify_state \<Rightarrow> notify_result" where
  "fuse_notify_delete ne sz cs st =
     (let n = wire_size (nt_conn st) W_notify_delete_out in
      if \<not> ne_ok ne 0 then Some (- ENOMEM, fuse_copy_finish cs, st)
      else if sz < n then Some (- EINVAL, fuse_copy_finish cs, st)
      else do {
        (err, b, cs1) \<leftarrow> read_struct n cs;
        if err \<noteq> 0 then Some (err, fuse_copy_finish cs1, st)
        else notify_name ne n sz (ne_delete ne b) cs1 st})"

subsection \<open>Storing data\<close>

text \<open>\<open>find_or_create_page\<close>: a page that was not there is new, and not up to date.\<close>

definition cache_put :: "ino_id \<Rightarrow> nat \<Rightarrow> page_id \<Rightarrow> notify_state \<Rightarrow> notify_state" where
  "cache_put i ix pg st = st\<lparr>nt_cache := (nt_cache st)(i := (nt_cache st i)(ix \<mapsto> pg))\<rparr>"

definition set_page_flags :: "page_id \<Rightarrow> (page_flag set \<Rightarrow> page_flag set) \<Rightarrow> fuse_copy_state \<Rightarrow> fuse_copy_state" where
  "set_page_flags pg f cs = cs\<lparr>cs_mem := (cs_mem cs)(pg := (cs_mem cs pg)\<lparr>pg_flags := f (pg_flags (cs_mem cs pg))\<rparr>)\<rparr>"

definition find_or_create_page ::
    "notify_env \<Rightarrow> ino_id \<Rightarrow> nat \<Rightarrow> fuse_copy_state \<Rightarrow> notify_state \<Rightarrow> page_id option \<times> fuse_copy_state \<times> notify_state" where
  "find_or_create_page ne i ix cs st =
     (case nt_cache st i ix of
        Some pg \<Rightarrow> (Some pg, cs, st)
      | None \<Rightarrow>
          (case ne_new ne ix of
             None \<Rightarrow> (None, cs, st)
           | Some pg \<Rightarrow> (Some pg, set_page_flags pg (\<lambda>f. f - {PG_uptodate}) cs, cache_put i ix pg st)))"

text \<open>
  The loop of \<open>fuse_notify_store\<close>; \<open>at_end\<close> is \<open>file_size == end\<close>. A loop that does not end is \<open>None\<close>.
\<close>

partial_function (option) store_pages ::
    "notify_env \<Rightarrow> ino_id \<Rightarrow> bool \<Rightarrow> nat \<Rightarrow> nat \<Rightarrow> nat \<Rightarrow> fuse_copy_state \<Rightarrow> notify_state \<Rightarrow> notify_result" where
  "store_pages ne i at_end ix offset num cs st =
     (if num = 0 then Some (0, cs, st)
      else (case find_or_create_page ne i ix cs st of
          (None, cs1, st1) \<Rightarrow> Some (- ENOMEM, cs1, st1)
        | (Some pg, cs1, st1) \<Rightarrow> do {
            (err, pgo, cs2) \<leftarrow> fuse_copy_page cs1 (Some pg) offset (min num (PAGE_SIZE - offset)) False;
            pg1 \<leftarrow> pgo;
            (if err \<noteq> 0 then Some (err, cs2, st1)
             else store_pages ne i at_end (Suc ix) 0 (num - min num (PAGE_SIZE - offset))
               (if offset = 0 \<and> (min num PAGE_SIZE = PAGE_SIZE \<or> at_end) then set_page_flags pg1 (insert PG_uptodate) cs2 else cs2)
               st1)}))"

text \<open>The inode has been found: its size, the pages, and the reference.\<close>

definition store_found ::
    "notify_env \<Rightarrow> store_out \<Rightarrow> ino_id \<Rightarrow> fuse_copy_state \<Rightarrow> notify_state \<Rightarrow> notify_result" where
  "store_found ne o' i cs st = do {
     v \<leftarrow> inodes (nsb (nt_ns st)) i;
     let endp = so_offset o' + ucast (so_size o');
     let grow = (i_size v <s endp);
     sb1 \<leftarrow> (if grow then map_option snd (fuse_write_update_size i endp (nsb (nt_ns st))) else Some (nsb (nt_ns st)));
     (err, cs1, st1) \<leftarrow> store_pages ne i (grow \<or> i_size v = endp) (unat (drop_bit PAGE_SHIFT (so_offset o')))
        (unat (so_offset o') mod PAGE_SIZE) (unat (so_size o')) cs (st\<lparr>nt_ns := set_nsb (nt_ns st) sb1\<rparr>);
     ns2 \<leftarrow> ns_iput i (nt_ns st1);
     Some (err, fuse_copy_finish cs1, st1\<lparr>nt_ns := ns2\<rparr>)}"

definition fuse_notify_store :: "notify_env \<Rightarrow> nat \<Rightarrow> fuse_copy_state \<Rightarrow> notify_state \<Rightarrow> notify_result" where
  "fuse_notify_store ne sz cs st =
     (let n = wire_size (nt_conn st) W_notify_store_out in
      if sz < n then Some (- EINVAL, fuse_copy_finish cs, st)
      else do {
        (err, b, cs1) \<leftarrow> read_struct n cs;
        let o' = ne_store ne b;
        if err \<noteq> 0 then Some (err, fuse_copy_finish cs1, st)
        else if sz - n \<noteq> unat (so_size o') then Some (- EINVAL, fuse_copy_finish cs1, st)
        else if \<not> has_sb st then Some (- ENOENT, fuse_copy_finish cs1, st)
        else (case ilookup5 (so_nodeid o') (nsb (nt_ns st)) of
            (None, _) \<Rightarrow> Some (- ENOENT, fuse_copy_finish cs1, st)
          | (Some i, sb1) \<Rightarrow> store_found ne o' i cs1 (st\<lparr>nt_ns := set_nsb (nt_ns st) sb1\<rparr>))})"

subsection \<open>Retrieving data\<close>

text \<open>
  How many bytes are asked for, and how many pages they take. The end of the range is compared at 64 bits, but the
  sum for the number of pages is computed at 32 bits.
\<close>

definition retrieve_num :: "retrieve_out \<Rightarrow> u64 \<Rightarrow> u32" where
  "retrieve_num o' fsize =
     (if fsize < ro_offset o' then 0
      else if fsize < ro_offset o' + ucast (ro_size o') then ucast (fsize - ro_offset o')
      else ro_size o')"

definition retrieve_pages :: "u32 \<Rightarrow> u32 \<Rightarrow> nat" where
  "retrieve_pages num offset = min (unat (drop_bit PAGE_SHIFT (ucast (num + offset) + 4096 - 1 :: u64))) FUSE_MAX_PAGES_PER_REQ"

text \<open>The loop of \<open>fuse_retrieve\<close> with room for \<open>k\<close> more pages: the pages it finds with the number of bytes of each.\<close>

fun retrieve_loop :: "(nat \<Rightarrow> page_id option) \<Rightarrow> nat \<Rightarrow> nat \<Rightarrow> nat \<Rightarrow> nat \<Rightarrow> (page_id \<times> nat) list" where
  "retrieve_loop cache ix offset num 0 = []"
| "retrieve_loop cache ix offset num (Suc k) =
     (if num = 0 then []
      else (case cache ix of
          None \<Rightarrow> []
        | Some pg \<Rightarrow> (pg, min num (PAGE_SIZE - offset)) #
            retrieve_loop cache (Suc ix) 0 (num - min num (PAGE_SIZE - offset)) k))"

definition page_ref :: "int \<Rightarrow> page_id \<Rightarrow> fuse_copy_state \<Rightarrow> fuse_copy_state" where
  "page_ref n pg cs = cs\<lparr>cs_mem := (cs_mem cs)(pg := (cs_mem cs pg)\<lparr>pg_count := pg_count (cs_mem cs pg) + n\<rparr>)\<rparr>"

definition fuse_retrieve_end :: "fuse_req \<Rightarrow> fuse_copy_state \<Rightarrow> fuse_copy_state" where
  "fuse_retrieve_end q cs = fold (page_ref (- 1)) (map the (take (rq_num_pages q) (rq_pages q))) cs"

definition set_pages :: "nat \<Rightarrow> (page_id \<times> nat) list \<Rightarrow> fuse_req \<Rightarrow> fuse_req" where
  "set_pages offset ps q =
     (let ds = (rq_page_descs q)[0 := (rq_page_descs q ! 0)\<lparr>pd_offset := offset\<rparr>]
      in q\<lparr>rq_pages := map (\<lambda>(pg, n). Some pg) ps @ drop (length ps) (rq_pages q),
          rq_page_descs := map (\<lambda>(d, pg, n). d\<lparr>pd_length := n\<rparr>) (zip ds ps) @ drop (length ps) ds,
          rq_num_pages := length ps\<rparr>)"

definition retrieve_fill :: "notify_env \<Rightarrow> nat \<Rightarrow> retrieve_out \<Rightarrow> nat \<Rightarrow> (page_id \<times> nat) list \<Rightarrow> fuse_req \<Rightarrow> fuse_req" where
  "retrieve_fill ne n o' offset ps q =
     (let total = sum_list (map snd ps)
      in (set_pages offset ps q)\<lparr>
          rq_in := (rq_in q)\<lparr>in_h := (in_h (rq_in q))\<lparr>ih_opcode := FUSE_NOTIFY_REPLY, ih_nodeid := ro_nodeid o'\<rparr>,
            in_argpages := True,
            in_args := [\<lparr>arg_size = n, arg_value = ne_enc_retrieve ne (ro_offset o') total\<rparr>, \<lparr>arg_size = total, arg_value = []\<rparr>]\<rparr>,
          rq_misc := Misc_retrieve (ro_offset o') total,
          rq_end := Some End_retrieve\<rparr>)"

definition fuse_retrieve :: "notify_env \<Rightarrow> ino_id \<Rightarrow> retrieve_out \<Rightarrow> fuse_copy_state \<Rightarrow> notify_state \<Rightarrow> notify_result" where
  "fuse_retrieve ne i o' cs st = do {
     v \<leftarrow> inodes (nsb (nt_ns st)) i;
     let offset = unat (ro_offset o') mod PAGE_SIZE;
     let num = retrieve_num o' (i_size v);
     let np = retrieve_pages num (of_nat offset);
     (case fuse_get_req (ne_ok ne) (ne_task ne) np (ne_killed ne) (nt_conn st) of
        (Asleep, _) \<Rightarrow> None
      | (Err e, s1) \<Rightarrow> Some (e, cs, upd_nt_conn (\<lambda>_. s1) st)
      | (Got r, s1) \<Rightarrow> do {
          let ps = retrieve_loop (nt_cache st i) (unat (drop_bit PAGE_SHIFT (ro_offset o'))) offset (unat num) np;
          let cs1 = fold (page_ref 1) (map fst ps) cs;
          let s2 = ne_others ne (upd_req r (retrieve_fill ne (wire_size s1 W_notify_retrieve_in) o' offset ps) s1);
          (err, s3) \<leftarrow> fuse_request_send_notify_reply s2 r (ro_unique o');
          q \<leftarrow> reqs s3 r;
          Some (err, if err \<noteq> 0 then fuse_retrieve_end q cs1 else cs1, upd_nt_conn (\<lambda>_. s3) st)})}"

definition fuse_notify_retrieve :: "notify_env \<Rightarrow> nat \<Rightarrow> fuse_copy_state \<Rightarrow> notify_state \<Rightarrow> notify_result" where
  "fuse_notify_retrieve ne sz cs st =
     (let n = wire_size (nt_conn st) W_notify_retrieve_out in
      if sz \<noteq> n then Some (- EINVAL, fuse_copy_finish cs, st)
      else do {
        (err, b, cs1) \<leftarrow> read_struct n cs;
        let o' = ne_retrieve ne b;
        let cs2 = fuse_copy_finish cs1;
        if err \<noteq> 0 then Some (err, cs2, st)
        else if \<not> has_sb st then Some (- ENOENT, cs2, st)
        else (case ilookup5 (ro_nodeid o') (nsb (nt_ns st)) of
            (None, _) \<Rightarrow> Some (- ENOENT, cs2, st)
          | (Some i, sb1) \<Rightarrow> do {
              (err2, cs3, st2) \<leftarrow> fuse_retrieve ne i o' cs2 (st\<lparr>nt_ns := set_nsb (nt_ns st) sb1\<rparr>);
              ns3 \<leftarrow> ns_iput i (nt_ns st2);
              Some (err2, cs3, st2\<lparr>nt_ns := ns3\<rparr>)})})"

subsection \<open>Dispatch\<close>

definition fuse_notify :: "notify_env \<Rightarrow> int \<Rightarrow> nat \<Rightarrow> fuse_copy_state \<Rightarrow> notify_state \<Rightarrow> notify_result" where
  "fuse_notify ne code sz cs0 st =
     (let cs = cs0\<lparr>cs_move_pages := False\<rparr> in
      (case ne_code ne code of
         Some FUSE_NOTIFY_POLL \<Rightarrow> fuse_notify_poll ne sz cs st
       | Some FUSE_NOTIFY_INVAL_INODE \<Rightarrow> fuse_notify_inval_inode ne sz cs st
       | Some FUSE_NOTIFY_INVAL_ENTRY \<Rightarrow> fuse_notify_inval_entry ne sz cs st
       | Some FUSE_NOTIFY_STORE \<Rightarrow> fuse_notify_store ne sz cs st
       | Some FUSE_NOTIFY_RETRIEVE \<Rightarrow> fuse_notify_retrieve ne sz cs st
       | Some FUSE_NOTIFY_DELETE \<Rightarrow> fuse_notify_delete ne sz cs st
       | None \<Rightarrow> Some (- EINVAL, fuse_copy_finish cs, st)))"

text \<open>\<open>fuse_notify\<close> as \<open>fuse_dev_do_write\<close> calls it, for the file system \<open>st0\<close>.\<close>

definition notify_write :: "notify_env \<Rightarrow> notify_state \<Rightarrow> notify_handler" where
  "notify_write ne st0 = (\<lambda>code sz cs s.
     map_option (\<lambda>(err, cs1, st). (err, cs1, nt_conn st)) (fuse_notify ne code sz cs (upd_nt_conn (\<lambda>_. s) st0)))"

end
