(* ===== verification/Fuse_Notify_Correct.thy ===== *)
theory Fuse_Notify_Correct
  imports Fuse_Notify Fuse_Dir_Correct
begin

text \<open>
  Notifications are carried out as the message says: what a store leaves in the page cache, what a retrieve sends, and
  whom the wake-up of a poll reaches.
\<close>

subsection \<open>Copying without a request\<close>

text \<open>A message has no request that could be aborted: its copy does not fail while there are bytes left.\<close>

definition reading :: "fuse_copy_state \<Rightarrow> bool" where
  "reading cs \<longleftrightarrow> cs_ready cs \<and> cs_req cs = None \<and> \<not> cs_write cs \<and> \<not> cs_move_pages cs"

lemma reading_frame: "reading cs \<Longrightarrow> cs_frame cs cs' \<Longrightarrow> cs_ready cs' \<Longrightarrow> reading cs' \<and> \<not> cs_aborted cs'"
  by (auto simp: reading_def cs_frame_def cs_aborted_def)

lemma not_aborted_frame: "cs_req cs = None \<Longrightarrow> cs_frame cs cs' \<Longrightarrow> \<not> cs_aborted cs'"
  by (auto simp: cs_frame_def cs_aborted_def)

lemma read_struct_ready:
  assumes r: "reading cs" and len: "n \<le> length (cs_stream cs)"
  obtains cs1 where "read_struct n cs = Some (0, take n (cs_stream cs), cs1)" "reading cs1"
    "cs_stream cs1 = drop n (cs_stream cs)" "cs_mem cs1 = cs_mem cs"
proof -
  have rr: "cs_ready cs" "cs_req cs = None" "\<not> cs_write cs" using r by (auto simp: reading_def)
  from copy_one_ready [of cs "replicate n 0"] rr(1) len obtain e got cs1 where
      one: "fuse_copy_one cs (replicate n 0) = Some (e, got, cs1)" "cs_frame cs cs1" "cs_mem cs1 = cs_mem cs"
        "e = 0 \<and> copy_one_ok cs (replicate n 0) got cs1 \<or> e = - ENOENT \<and> cs_aborted cs1"
    by (auto simp: copy_one_post_def)
  then have "e = 0" "copy_one_ok cs (replicate n 0) got cs1" using not_aborted_frame [OF rr(2) one(2)] by auto
  then show thesis using that one r rr reading_frame [OF r one(2)] by (auto simp: read_struct_def copy_one_ok_def)
qed

lemma fuse_copy_fill_mem:
  assumes "fuse_copy_fill cs = Some (e, cs')"
  shows "cs_mem cs' = cs_mem cs \<and> cs_move_pages cs' = cs_move_pages cs"
proof -
  obtain e1 cs1 where u: "unlock_request cs = (e1, cs1)" by force
  note uc = unlock_cases [OF u]
  have np: "cs_mem y = cs_mem x \<and> cs_move_pages y = cs_move_pages x" if "next_page x = Some (e2, y)" for x y e2
    using that by (auto simp: next_page_def map_page_def split: if_split_asm list.split_asm sum.split_asm)
  have lk: "cs_mem y = cs_mem x \<and> cs_move_pages y = cs_move_pages x" if "lock_request x = (e2, y)" for x y e2
    using lock_cases [OF that] by (simp add: cs_frame_def)
  show ?thesis
  proof (cases "e1 = 0")
    case False
    then show ?thesis using assms u uc by (simp add: fuse_copy_fill_def cs_frame_def)
  next
    case True
    with assms u obtain e2 cs2 where n: "next_page (fuse_copy_finish cs1) = Some (e2, cs2)"
        and l: "(if e2 \<noteq> 0 then (e2, cs2) else lock_request cs2) = (e, cs')"
      by (auto simp: fuse_copy_fill_def)
    have "cs_mem cs' = cs_mem cs2 \<and> cs_move_pages cs' = cs_move_pages cs2" using l lk by (auto split: if_split_asm)
    then show ?thesis using np [OF n] uc by (simp add: cs_frame_def fuse_copy_finish_def)
  qed
qed

lemma copy_page_bytes_flags:
  assumes "copy_page_bytes cs pgo offset count = Some (n, cs')"
  shows "pg_flags (cs_mem cs' x) = pg_flags (cs_mem cs x) \<and> cs_move_pages cs' = cs_move_pages cs"
  using assms by (cases pgo) (auto simp: copy_page_bytes_def fuse_copy_do_def Let_def set_page_data_def split: option.split_asm if_split_asm)

lemma fuse_ref_page_mem:
  "fuse_ref_page cs pg offset count = (e, cs') \<Longrightarrow> cs_mem cs' = cs_mem cs"
  using unlock_cases [of cs]
  by (fastforce simp: fuse_ref_page_def Let_def fuse_copy_finish_def split: if_split_asm prod.split_asm)

lemma copy_page_prepare_mem:
  assumes "copy_page_prepare cs pgo offset count = Some (e, pg1, cs')" and "\<not> cs_move_pages cs"
  shows "cs_mem cs' = cs_mem cs"
  using assms fuse_copy_fill_mem fuse_ref_page_mem
  by (fastforce simp: copy_page_prepare_def copy_page_next_def split: if_split_asm prod.split_asm)

lemma copy_page_loop_flags:
  assumes "copy_page_loop cs pgo offset count = Some (e, pg1, cs')" and "\<not> cs_move_pages cs"
  shows "pg_flags (cs_mem cs' x) = pg_flags (cs_mem cs x)"
  using assms
proof (induction cs pgo offset count arbitrary: e pg1 cs' rule: copy_page_loop.induct)
  case (1 cs pgo offset count)
  show ?case
  proof (cases "count = 0")
    case True
    then show ?thesis using "1.prems" by (simp add: copy_page_loop.simps)
  next
    case False
    from "1.prems"(1) False obtain er pg2 cs1 where p: "copy_page_prepare cs pgo offset count = Some (er, pg2, cs1)"
      by (subst (asm) copy_page_loop.simps) (auto split: option.split_asm prod.split_asm)
    note pm = copy_page_prepare_mem [OF p "1.prems"(2)]
    show ?thesis
    proof (cases er)
      case (Some err)
      then show ?thesis using "1.prems" False p pm by (subst (asm) copy_page_loop.simps) auto
    next
      case None
      from "1.prems"(1) False p None obtain n cs2 where b: "copy_page_bytes cs1 pgo offset count = Some (n, cs2)"
          and r: "copy_page_loop cs2 pgo (offset + n) (count - n) = Some (e, pg1, cs')"
        by (subst (asm) copy_page_loop.simps) (auto split: option.split_asm prod.split_asm)
      have "cs_move_pages cs1 = cs_move_pages cs"
        using p None "1.prems"(2) fuse_copy_fill_mem
        by (fastforce simp: copy_page_prepare_def copy_page_next_def Let_def split: if_split_asm prod.split_asm)
      then show ?thesis
        using "1.IH" [OF False p [unfolded None] refl refl refl b refl r] copy_page_bytes_flags [OF b] "1.prems"(2) pm by simp
    qed
  qed
qed

text \<open>One page of a message.\<close>

lemma copy_page_reading:
  assumes r: "reading cs" and fits: "offset + count \<le> length (page.pg_data (cs_mem cs pg))" "count \<le> length (cs_stream cs)"
  obtains cs1 where "fuse_copy_page cs (Some pg) offset count False = Some (0, Some pg, cs1)" "reading cs1"
    "cs_stream cs1 = drop count (cs_stream cs)"
    "page.pg_data (cs_mem cs1 pg) = take offset (page.pg_data (cs_mem cs pg)) @ take count (cs_stream cs) @ drop (offset + count) (page.pg_data (cs_mem cs pg))"
    "\<And>x. x \<noteq> pg \<Longrightarrow> cs_mem cs1 x = cs_mem cs x" "\<And>x. pg_flags (cs_mem cs1 x) = pg_flags (cs_mem cs x)"
proof -
  have rr: "cs_ready cs" "cs_req cs = None" "\<not> cs_write cs" "\<not> cs_move_pages cs" using r by (auto simp: reading_def)
  from copy_page_loop_ready [OF rr(1,4) fits] obtain e cs1 where
      one: "copy_page_loop cs (Some pg) offset count = Some (e, Some pg, cs1)" "cs_frame cs cs1"
        "e = 0 \<and> copy_page_ok cs pg offset count cs1 \<or> e = - ENOENT \<and> cs_aborted cs1"
    by (auto simp: copy_page_post_def)
  then have ok: "e = 0" "copy_page_ok cs pg offset count cs1" using not_aborted_frame [OF rr(2) one(2)] by auto
  show thesis
    by (rule that [of cs1])
      (use one ok rr reading_frame [OF r one(2)] copy_page_loop_flags [OF one(1) rr(4)] in
        \<open>auto simp: fuse_copy_page_def copy_page_ok_def Let_def\<close>)
qed

subsection \<open>Storing\<close>

text \<open>
  The page of an inode at an index once it is needed: the one in the cache, or the one the allocator gives. A store does not
  change it; the contents of an inode \<open>i\<close> are the bytes of its pages.
\<close>

definition cache_page :: "notify_env \<Rightarrow> ino_id \<Rightarrow> notify_state \<Rightarrow> ino_id \<Rightarrow> nat \<Rightarrow> page_id option" where
  "cache_page ne i st j ix = (case nt_cache st j ix of Some pg \<Rightarrow> Some pg | None \<Rightarrow> if j = i then ne_new ne ix else None)"

definition pages_apart :: "(ino_id \<Rightarrow> nat \<Rightarrow> page_id option) \<Rightarrow> bool" where
  "pages_apart C \<longleftrightarrow> (\<forall>i ix j jx pg. C i ix = Some pg \<and> C j jx = Some pg \<longrightarrow> i = j \<and> ix = jx)"

definition file_byte :: "(ino_id \<Rightarrow> nat \<Rightarrow> page_id option) \<Rightarrow> (page_id \<Rightarrow> page) \<Rightarrow> ino_id \<Rightarrow> nat \<Rightarrow> u8 option" where
  "file_byte C mem j p = map_option (\<lambda>pg. page.pg_data (mem pg) ! (p mod PAGE_SIZE)) (C j (p div PAGE_SIZE))"

definition touched :: "nat \<Rightarrow> nat \<Rightarrow> nat \<Rightarrow> bool" where
  "touched start n k \<longleftrightarrow> 0 < n \<and> start < (k + 1) * PAGE_SIZE \<and> k * PAGE_SIZE < start + n"

definition page_covered :: "nat \<Rightarrow> nat \<Rightarrow> bool \<Rightarrow> nat \<Rightarrow> bool" where
  "page_covered start n at_end k \<longleftrightarrow> start \<le> k * PAGE_SIZE \<and> ((k + 1) * PAGE_SIZE \<le> start + n \<or> at_end)"

text \<open>
  \<open>n\<close> bytes have been stored from the position \<open>start\<close> on: they are the next bytes of the message, no other byte has
  changed, the pages are in the cache, and a page that is covered is up to date.
\<close>

definition stored ::
    "notify_env \<Rightarrow> ino_id \<Rightarrow> bool \<Rightarrow> nat \<Rightarrow> nat \<Rightarrow> fuse_copy_state \<Rightarrow> notify_state \<Rightarrow> fuse_copy_state \<Rightarrow> notify_state \<Rightarrow> bool" where
  "stored ne i at_end start n cs st cs' st' \<longleftrightarrow>
     reading cs' \<and> n \<le> length (cs_stream cs) \<and> cs_stream cs' = drop n (cs_stream cs) \<and>
     (\<exists>C. st' = st\<lparr>nt_cache := C\<rparr>) \<and> cache_page ne i st' = cache_page ne i st \<and>
     (\<forall>j k. nt_cache st' j k = (if j = i \<and> touched start n k then cache_page ne i st j k else nt_cache st j k)) \<and>
     (\<forall>pg. length (page.pg_data (cs_mem cs' pg)) = length (page.pg_data (cs_mem cs pg))) \<and>
     (\<forall>j p. file_byte (cache_page ne i st) (cs_mem cs') j p =
        (if j = i \<and> start \<le> p \<and> p < start + n then Some (cs_stream cs ! (p - start)) else file_byte (cache_page ne i st) (cs_mem cs) j p)) \<and>
     (\<forall>j k pg. cache_page ne i st j k = Some pg \<longrightarrow> pg_flags (cs_mem cs' pg) =
        (if j = i \<and> touched start n k
         then (if nt_cache st j k = None then pg_flags (cs_mem cs pg) - {PG_uptodate} else pg_flags (cs_mem cs pg)) \<union>
           (if page_covered start n at_end k then {PG_uptodate} else {})
         else pg_flags (cs_mem cs pg)))"

lemma set_page_flags_simps [simp]:
  "page.pg_data (cs_mem (set_page_flags pg f cs) x) = page.pg_data (cs_mem cs x)"
  "pg_flags (cs_mem (set_page_flags pg f cs) x) = (if x = pg then f (pg_flags (cs_mem cs x)) else pg_flags (cs_mem cs x))"
  "reading (set_page_flags pg f cs) = reading cs" "cs_stream (set_page_flags pg f cs) = cs_stream cs"
  by (simp_all add: set_page_flags_def reading_def cs_ready_def cs_stream_def)

lemma find_or_create_spec:
  assumes "cache_page ne i st i ix = Some pg"
  obtains cs1 st1 where "find_or_create_page ne i ix cs st = (Some pg, cs1, st1)"
    "cs1 = (if nt_cache st i ix = None then set_page_flags pg (\<lambda>f. f - {PG_uptodate}) cs else cs)"
    "st1 = st\<lparr>nt_cache := (nt_cache st)(i := (nt_cache st i)(ix \<mapsto> pg))\<rparr>" "cache_page ne i st1 = cache_page ne i st"
proof -
  have same: "cache_page ne i (st\<lparr>nt_cache := (nt_cache st)(i := (nt_cache st i)(ix \<mapsto> pg))\<rparr>) = cache_page ne i st"
    using assms by (auto simp: cache_page_def fun_eq_iff split: option.split option.split_asm)
  have "(nt_cache st)(i := (nt_cache st i)(ix \<mapsto> pg)) = nt_cache st" if "nt_cache st i ix = Some pg"
    using that by (simp add: map_upd_triv)
  then show thesis using assms that same
    by (cases "nt_cache st i ix") (auto simp: find_or_create_page_def cache_page_def cache_put_def)
qed

lemma file_byte_flags [simp]: "file_byte C (cs_mem (set_page_flags pg f cs)) = file_byte C (cs_mem cs)"
  by (simp add: file_byte_def fun_eq_iff)

lemma touched_one:
  assumes "offset < PAGE_SIZE" and "0 < m" and "m \<le> PAGE_SIZE - offset"
  shows "touched (ix * PAGE_SIZE + offset) m k \<longleftrightarrow> k = ix"
proof
  assume "touched (ix * PAGE_SIZE + offset) m k"
  then have "ix * PAGE_SIZE < (k + 1) * PAGE_SIZE" "k * PAGE_SIZE < (ix + 1) * PAGE_SIZE"
    using assms by (auto simp: touched_def)
  then show "k = ix" unfolding mult_less_cancel2 by simp
qed (use assms in \<open>simp add: touched_def\<close>)

lemma in_page:
  assumes "offset < PAGE_SIZE" and "m \<le> PAGE_SIZE - offset"
  shows "ix * PAGE_SIZE + offset \<le> p \<and> p < ix * PAGE_SIZE + offset + m \<longleftrightarrow>
    p div PAGE_SIZE = ix \<and> offset \<le> p mod PAGE_SIZE \<and> p mod PAGE_SIZE < offset + m"
proof
  assume p: "ix * PAGE_SIZE + offset \<le> p \<and> p < ix * PAGE_SIZE + offset + m"
  then have "p = ix * PAGE_SIZE + (p - ix * PAGE_SIZE)" "p - ix * PAGE_SIZE < PAGE_SIZE" using assms by auto
  then have "p div PAGE_SIZE = ix" "p mod PAGE_SIZE = p - ix * PAGE_SIZE"
    by (metis div_mult_self3 div_less PAGE_SIZE_pos add_0_right less_irrefl, metis mod_mult_self3 mod_less)
  then show "p div PAGE_SIZE = ix \<and> offset \<le> p mod PAGE_SIZE \<and> p mod PAGE_SIZE < offset + m" using p by auto
next
  assume "p div PAGE_SIZE = ix \<and> offset \<le> p mod PAGE_SIZE \<and> p mod PAGE_SIZE < offset + m"
  then show "ix * PAGE_SIZE + offset \<le> p \<and> p < ix * PAGE_SIZE + offset + m"
    using div_mult_mod_eq [of p PAGE_SIZE] by auto
qed

lemma touched_split:
  assumes "PAGE_SIZE dvd start + m" and "0 < m"
  shows "touched start (m + n) k \<longleftrightarrow> touched start m k \<or> touched (start + m) n k"
    and "\<not> (touched start m k \<and> touched (start + m) n k)"
    and "touched start m k \<Longrightarrow> page_covered start (m + n) e k = page_covered start m e k"
    and "touched (start + m) n k \<Longrightarrow> page_covered start (m + n) e k = page_covered (start + m) n e k"
proof -
  obtain q where q: "start + m = PAGE_SIZE * q" using assms(1) by (auto elim: dvdE)
  have lt: "start + m < (k + 1) * PAGE_SIZE \<longleftrightarrow> start + m \<le> k * PAGE_SIZE"
      "k * PAGE_SIZE < start + m \<longleftrightarrow> (k + 1) * PAGE_SIZE \<le> start + m"
    unfolding q mult.commute [of PAGE_SIZE] mult_less_cancel2 mult_le_cancel2 by auto
  show "touched start (m + n) k \<longleftrightarrow> touched start m k \<or> touched (start + m) n k"
    using lt assms(2) unfolding touched_def by (auto simp: algebra_simps)
  show "\<not> (touched start m k \<and> touched (start + m) n k)"
    using lt unfolding touched_def by auto
  show "page_covered start (m + n) e k = page_covered start m e k" if "touched start m k"
    using that lt unfolding touched_def page_covered_def by auto
  show "page_covered start (m + n) e k = page_covered (start + m) n e k" if "touched (start + m) n k"
    using that lt unfolding touched_def page_covered_def by (auto simp: add.assoc)
qed

lemma stored_trans:
  assumes one: "stored ne i e start m cs st cs1 st1" and two: "stored ne i e (start + m) n cs1 st1 cs2 st2"
    and page: "PAGE_SIZE dvd start + m" "0 < m"
  shows "stored ne i e start (m + n) cs st cs2 st2"
proof -
  note s1 = one [unfolded stored_def] and s2 = two [unfolded stored_def]
  note t = touched_split [OF page, where n = n]
  have pa: "cache_page ne i st1 = cache_page ne i st" "cache_page ne i st2 = cache_page ne i st" using s1 s2 by simp_all
  have cache: "nt_cache st2 j k = (if j = i \<and> touched start (m + n) k then cache_page ne i st j k else nt_cache st j k)" for j k
    using s1 s2 t(1) [where k = k] pa by auto
  have bytes: "file_byte (cache_page ne i st) (cs_mem cs2) j p = (if j = i \<and> start \<le> p \<and> p < start + (m + n)
      then Some (cs_stream cs ! (p - start)) else file_byte (cache_page ne i st) (cs_mem cs) j p)" for j p
  proof -
    have st1: "cs_stream cs1 = drop m (cs_stream cs)" using s1 by blast
    have "file_byte (cache_page ne i st) (cs_mem cs2) j p = (if j = i \<and> start + m \<le> p \<and> p < start + m + n
        then Some (cs_stream cs1 ! (p - (start + m))) else file_byte (cache_page ne i st) (cs_mem cs1) j p)"
      using s2 pa by metis
    moreover have "file_byte (cache_page ne i st) (cs_mem cs1) j p = (if j = i \<and> start \<le> p \<and> p < start + m
        then Some (cs_stream cs ! (p - start)) else file_byte (cache_page ne i st) (cs_mem cs) j p)"
      using s1 by metis
    moreover have "drop m (cs_stream cs) ! (p - (start + m)) = cs_stream cs ! (p - start)" if "start + m \<le> p"
      using that s1 by (auto simp: nth_drop)
    ultimately show ?thesis using st1 by (auto simp: not_less)
  qed
  have flags: "pg_flags (cs_mem cs2 pg) =
        (if j = i \<and> touched start (m + n) k
         then (if nt_cache st j k = None then pg_flags (cs_mem cs pg) - {PG_uptodate} else pg_flags (cs_mem cs pg)) \<union>
           (if page_covered start (m + n) e k then {PG_uptodate} else {})
         else pg_flags (cs_mem cs pg))" if pg: "cache_page ne i st j k = Some pg" for j k pg
  proof -
    have f2: "pg_flags (cs_mem cs2 pg) =
        (if j = i \<and> touched (start + m) n k
         then (if nt_cache st1 j k = None then pg_flags (cs_mem cs1 pg) - {PG_uptodate} else pg_flags (cs_mem cs1 pg)) \<union>
           (if page_covered (start + m) n e k then {PG_uptodate} else {})
         else pg_flags (cs_mem cs1 pg))" using s2 pg pa by metis
    have f1: "pg_flags (cs_mem cs1 pg) =
        (if j = i \<and> touched start m k
         then (if nt_cache st j k = None then pg_flags (cs_mem cs pg) - {PG_uptodate} else pg_flags (cs_mem cs pg)) \<union>
           (if page_covered start m e k then {PG_uptodate} else {})
         else pg_flags (cs_mem cs pg))" using s1 pg by metis
    have c1: "nt_cache st1 j k = (if j = i \<and> touched start m k then cache_page ne i st j k else nt_cache st j k)" using s1 by metis
    consider (first) "j = i" "touched start m k" "\<not> touched (start + m) n k" | (second) "j = i" "touched (start + m) n k" "\<not> touched start m k"
      | (none) "\<not> (j = i \<and> touched start m k)" "\<not> (j = i \<and> touched (start + m) n k)" using t(2) [where k = k] by blast
    then show ?thesis
    proof cases
      case first
      then show ?thesis using f1 f2 t(1,3) [where k = k] by simp
    next
      case second
      then show ?thesis using f1 f2 c1 t(1,4) [where k = k] by simp
    next
      case none
      then show ?thesis using f1 f2 t(1) [where k = k] by auto
    qed
  qed
  show ?thesis
    unfolding stored_def using s1 s2 pa cache bytes flags by (auto simp: add.commute)
qed

lemma stored_none: "reading cs \<Longrightarrow> stored ne i e start 0 cs st cs st"
  by (auto simp: stored_def touched_def intro: exI [of _ "nt_cache st"])

lemma store_one_page:
  assumes r: "reading cs" and pg: "cache_page ne i st i ix = Some pg" and apart: "pages_apart (cache_page ne i st)"
    and len: "length (page.pg_data (cs_mem cs pg)) = PAGE_SIZE" and off: "offset < PAGE_SIZE"
    and m: "0 < m" "m \<le> PAGE_SIZE - offset" "m \<le> length (cs_stream cs)"
  obtains cs1 st1 cs2 where "find_or_create_page ne i ix cs st = (Some pg, cs1, st1)"
    "fuse_copy_page cs1 (Some pg) offset m False = Some (0, Some pg, cs2)"
    "stored ne i e (ix * PAGE_SIZE + offset) m cs st
       (if offset = 0 \<and> (m = PAGE_SIZE \<or> e) then set_page_flags pg (insert PG_uptodate) cs2 else cs2) st1"
proof -
  from find_or_create_spec [OF pg, of cs] obtain cs1 st1 where f: "find_or_create_page ne i ix cs st = (Some pg, cs1, st1)"
      and cs1: "cs1 = (if nt_cache st i ix = None then set_page_flags pg (\<lambda>f. f - {PG_uptodate}) cs else cs)"
      and st1: "st1 = st\<lparr>nt_cache := (nt_cache st)(i := (nt_cache st i)(ix \<mapsto> pg))\<rparr>" and pa: "cache_page ne i st1 = cache_page ne i st" .
  have same: "reading cs1" "cs_stream cs1 = cs_stream cs" "\<And>x. page.pg_data (cs_mem cs1 x) = page.pg_data (cs_mem cs x)"
    using r by (simp_all add: cs1)
  have "offset + m \<le> length (page.pg_data (cs_mem cs1 pg))" "m \<le> length (cs_stream cs1)" using same len m off by auto
  from copy_page_reading [OF same(1) this] obtain cs2 where c: "fuse_copy_page cs1 (Some pg) offset m False = Some (0, Some pg, cs2)"
      and r2: "reading cs2" and s2: "cs_stream cs2 = drop m (cs_stream cs)"
      and d2: "page.pg_data (cs_mem cs2 pg) = take offset (page.pg_data (cs_mem cs pg)) @ take m (cs_stream cs) @ drop (offset + m) (page.pg_data (cs_mem cs pg))"
      and o2: "\<And>x. x \<noteq> pg \<Longrightarrow> cs_mem cs2 x = cs_mem cs1 x" and fl: "\<And>x. pg_flags (cs_mem cs2 x) = pg_flags (cs_mem cs1 x)"
    unfolding same(2,3) by blast
  let ?start = "ix * PAGE_SIZE + offset"
  let ?cs3 = "if offset = 0 \<and> (m = PAGE_SIZE \<or> e) then set_page_flags pg (insert PG_uptodate) cs2 else cs2"
  note one = touched_one [OF off m(1,2), where ix = ix]
  have cov: "page_covered ?start m e ix \<longleftrightarrow> offset = 0 \<and> (m = PAGE_SIZE \<or> e)" using m off by (auto simp: page_covered_def)
  have only: "j = i \<and> k = ix" if "cache_page ne i st j k = Some pg" for j k using apart pg that unfolding pages_apart_def by blast
  have bytes: "file_byte (cache_page ne i st) (cs_mem cs2) j p = (if j = i \<and> ?start \<le> p \<and> p < ?start + m
      then Some (cs_stream cs ! (p - ?start)) else file_byte (cache_page ne i st) (cs_mem cs) j p)" for j p
  proof (cases "cache_page ne i st j (p div PAGE_SIZE) = Some pg")
    case True
    then have jp: "j = i" "p div PAGE_SIZE = ix" using only by auto
    then have p: "p = ix * PAGE_SIZE + p mod PAGE_SIZE" using div_mult_mod_eq [of p PAGE_SIZE] by simp
    let ?r = "p mod PAGE_SIZE" and ?old = "page.pg_data (cs_mem cs pg)"
    have "page.pg_data (cs_mem cs2 pg) ! ?r = (if offset \<le> ?r \<and> ?r < offset + m then cs_stream cs ! (?r - offset) else ?old ! ?r)"
      unfolding d2 using len m off by (auto simp: nth_append nth_drop)
    moreover have "p - ?start = ?r - offset" using p by simp
    ultimately show ?thesis using True jp in_page [OF off m(2), of ix p] by (simp add: file_byte_def)
  next
    case False
    then have "\<not> (j = i \<and> p div PAGE_SIZE = ix)" using pg by auto
    moreover have "page.pg_data (cs_mem cs2 x) = page.pg_data (cs_mem cs x)" if "cache_page ne i st j (p div PAGE_SIZE) = Some x" for x
      using False that o2 same(3) by (metis)
    ultimately show ?thesis using in_page [OF off m(2), of ix p]
      by (cases "cache_page ne i st j (p div PAGE_SIZE)") (auto simp: file_byte_def)
  qed
  have flags: "pg_flags (cs_mem ?cs3 x) = (if j = i \<and> touched ?start m k
        then (if nt_cache st j k = None then pg_flags (cs_mem cs x) - {PG_uptodate} else pg_flags (cs_mem cs x)) \<union>
          (if page_covered ?start m e k then {PG_uptodate} else {})
        else pg_flags (cs_mem cs x))" if "cache_page ne i st j k = Some x" for j k x
  proof (cases "x = pg")
    case True
    then have "j = i" "k = ix" using only that by auto
    then show ?thesis using True fl one cov by (auto simp: cs1)
  next
    case False
    then have "\<not> (j = i \<and> k = ix)" using that pg by auto
    then show ?thesis using False fl one by (auto simp: cs1)
  qed
  have "length (page.pg_data (cs_mem ?cs3 x)) = length (page.pg_data (cs_mem cs x))" for x
    using d2 o2 [of x] same(3) [of x] len m off by (cases "x = pg") auto
  then have "stored ne i e ?start m cs st ?cs3 st1"
    unfolding stored_def using r2 s2 m(3) pa one pg bytes flags by (auto simp: st1)
  then show thesis using that f c by blast
qed

lemma store_pages_stored:
  assumes "reading cs" and "pages_apart (cache_page ne i st)" and "\<And>pg. length (page.pg_data (cs_mem cs pg)) = PAGE_SIZE"
    and "offset < PAGE_SIZE" and "num \<le> length (cs_stream cs)"
  shows "\<exists>err cs' st' m. store_pages ne i e ix offset num cs st = Some (err, cs', st') \<and>
    stored ne i e (ix * PAGE_SIZE + offset) m cs st cs' st' \<and>
    (err = 0 \<and> m = num \<or>
     err = - ENOMEM \<and> m < num \<and> cache_page ne i st i ((ix * PAGE_SIZE + offset + m) div PAGE_SIZE) = None)"
  using assms
proof (induction num arbitrary: ix offset cs st rule: less_induct)
  case (less num)
  show ?case
  proof (cases "num = 0")
    case True
    then show ?thesis using stored_none [OF less.prems(1)] by (subst store_pages.simps) auto
  next
    case False
    let ?m = "min num (PAGE_SIZE - offset)" and ?start = "ix * PAGE_SIZE + offset"
    show ?thesis
    proof (cases "cache_page ne i st i ix")
      case None
      then have "find_or_create_page ne i ix cs st = (None, cs, st)"
        by (auto simp: find_or_create_page_def cache_page_def split: option.splits)
      then have "store_pages ne i e ix offset num cs st = Some (- ENOMEM, cs, st)"
        using False by (subst store_pages.simps) simp
      moreover have "?start div PAGE_SIZE = ix" using less.prems(4) by simp
      ultimately show ?thesis using stored_none [OF less.prems(1)] None False by fastforce
    next
      case (Some pg)
      have m: "0 < ?m" "?m \<le> PAGE_SIZE - offset" "?m \<le> length (cs_stream cs)" using False less.prems by auto
      from store_one_page [OF less.prems(1) Some less.prems(2,3,4) m, of e] obtain cs1 st1 cs2 where
          f: "find_or_create_page ne i ix cs st = (Some pg, cs1, st1)"
          and c: "fuse_copy_page cs1 (Some pg) offset ?m False = Some (0, Some pg, cs2)"
          and one: "stored ne i e ?start ?m cs st
            (if offset = 0 \<and> (?m = PAGE_SIZE \<or> e) then set_page_flags pg (insert PG_uptodate) cs2 else cs2) st1" .
      define cs3 where "cs3 = (if offset = 0 \<and> (?m = PAGE_SIZE \<or> e) then set_page_flags pg (insert PG_uptodate) cs2 else cs2)"
      have cs3: "(if offset = 0 \<and> (min num PAGE_SIZE = PAGE_SIZE \<or> e) then set_page_flags pg (insert PG_uptodate) cs2 else cs2) = cs3"
        unfolding cs3_def by (cases "offset = 0") simp_all
      have run: "store_pages ne i e ix offset num cs st = store_pages ne i e (Suc ix) 0 (num - ?m) cs3 st1"
        using False f c by (subst store_pages.simps) (simp add: cs3)
      have one': "stored ne i e ?start ?m cs st cs3 st1" using one by (simp add: cs3_def)
      show ?thesis
      proof (cases "num = ?m")
        case True
        then have "store_pages ne i e (Suc ix) 0 (num - ?m) cs3 st1 = Some (0, cs3, st1)" by (subst store_pages.simps) simp
        then show ?thesis using run one' True by metis
      next
        case False
        then have next_page: "?start + ?m = Suc ix * PAGE_SIZE" using less.prems(4) by (simp add: min_def split: if_split_asm)
        have p3: "cache_page ne i st1 = cache_page ne i st" "reading cs3" "\<And>x. length (page.pg_data (cs_mem cs3 x)) = PAGE_SIZE"
            "num - ?m \<le> length (cs_stream cs3)"
          using one' less.prems(3,5) by (auto simp: stored_def)
        have "num - ?m < num" using m(1) by simp
        from less.IH [OF this p3(2) _ p3(3) PAGE_SIZE_pos p3(4), of st1 "Suc ix"] less.prems(2) obtain err cs' st' m2 where
            r2: "store_pages ne i e (Suc ix) 0 (num - ?m) cs3 st1 = Some (err, cs', st')"
            and s2: "stored ne i e (Suc ix * PAGE_SIZE + 0) m2 cs3 st1 cs' st'"
            and d2: "err = 0 \<and> m2 = num - ?m \<or> err = - ENOMEM \<and> m2 < num - ?m \<and>
              cache_page ne i st i ((Suc ix * PAGE_SIZE + 0 + m2) div PAGE_SIZE) = None"
          unfolding p3(1) by auto
        have "stored ne i e (?start + ?m) m2 cs3 st1 cs' st'" "PAGE_SIZE dvd ?start + ?m"
          using s2 unfolding next_page by simp_all
        then have "stored ne i e ?start (?m + m2) cs st cs' st'" using stored_trans [OF one' _ _ m(1)] by blast
        moreover have "err = 0 \<and> ?m + m2 = num \<or> err = - ENOMEM \<and> ?m + m2 < num \<and>
            cache_page ne i st i ((?start + (?m + m2)) div PAGE_SIZE) = None"
        proof -
          have "?start + (?m + m2) = Suc ix * PAGE_SIZE + 0 + m2" using next_page by simp
          then show ?thesis using d2 by (metis add_less_cancel_left le_add_diff_inverse min.cobounded1)
        qed
        ultimately show ?thesis using run r2 by metis
      qed
    qed
  qed
qed

lemma position_split: "unat (drop_bit PAGE_SHIFT (w :: u64)) * PAGE_SIZE + unat w mod PAGE_SIZE = unat w"
  unfolding unat_drop_bit_eq by (simp add: drop_bit_eq_div PAGE_SIZE_shift div_mult_mod_eq)

lemma cache_page_ns [simp]: "cache_page ne i (st\<lparr>nt_ns := x\<rparr>) = cache_page ne i st"
  by (simp add: cache_page_def fun_eq_iff)

lemma stored_ns: "stored ne i e start n cs (st\<lparr>nt_ns := x\<rparr>) cs' st' \<Longrightarrow> nt_ns st' = x"
  by (auto simp: stored_def)

lemma store_found_run:
  assumes r: "reading cs" and apart: "pages_apart (cache_page ne i st)" and len: "\<And>pg. length (page.pg_data (cs_mem cs pg)) = PAGE_SIZE"
    and avail: "unat (so_size o') \<le> length (cs_stream cs)"
    and v: "inodes (nsb (nt_ns st)) i = Some v" "1 < i_count v"
    and e: "e = (i_size v \<le>s so_offset o' + ucast (so_size o'))"
  shows "\<exists>err cs' st' st'' m w. store_found ne o' i cs st = Some (err, fuse_copy_finish cs', st'') \<and>
    stored ne i e (unat (so_offset o')) m cs (st\<lparr>nt_ns := nt_ns st'\<rparr>) cs' st' \<and>
    (err = 0 \<and> m = unat (so_size o') \<or>
     err = - ENOMEM \<and> m < unat (so_size o') \<and> cache_page ne i st i ((unat (so_offset o') + m) div PAGE_SIZE) = None) \<and>
    nt_cache st'' = nt_cache st' \<and> nt_polled st'' = nt_polled st \<and> nt_poll_wakes st'' = nt_poll_wakes st \<and>
    inodes (nsb (nt_ns st'')) = (inodes (nsb (nt_ns st)))(i \<mapsto> w) \<and> i_count w = i_count v - 1 \<and>
    i_size w = (if e then so_offset o' + ucast (so_size o') else i_size v)"
proof -
  let ?stop = "so_offset o' + ucast (so_size o') :: u64" and ?sb = "nsb (nt_ns st)"
  let ?grow = "i_size v <s ?stop"
  have eq: "(?grow \<or> i_size v = ?stop) = e" unfolding e by (rule signed.le_less [symmetric])
  obtain sb1 w1 where sb1: "(if ?grow then map_option snd (fuse_write_update_size i ?stop ?sb) else Some ?sb) = Some sb1"
      and w1: "inodes sb1 = (inodes ?sb)(i \<mapsto> w1)" "i_count w1 = i_count v" "i_size w1 = (if ?grow then ?stop else i_size v)"
  proof (cases ?grow)
    case True
    let ?ver = "attr_version (conn ?sb) + 1"
    have "fuse_write_update_size i ?stop ?sb = Some (True, upd_inode i (\<lambda>w. w\<lparr>fi_attr_version := ?ver, i_size := ?stop\<rparr>)
        (?sb\<lparr>conn := (conn ?sb)\<lparr>attr_version := ?ver\<rparr>\<rparr>))"
      using True v(1) by (simp add: fuse_write_update_size_def Let_def)
    then show thesis
      by (intro that [of _ "v\<lparr>fi_attr_version := ?ver, i_size := ?stop\<rparr>"]) (use True v(1) in \<open>auto simp: upd_inode_def\<close>)
  next
    case False
    show thesis by (rule that [of ?sb v]) (use False v(1) in \<open>auto simp: fun_upd_idem\<close>)
  qed
  let ?st1 = "st\<lparr>nt_ns := set_nsb (nt_ns st) sb1\<rparr>"
  have "pages_apart (cache_page ne i ?st1)" "unat (so_offset o') mod PAGE_SIZE < PAGE_SIZE" using apart by simp_all
  from store_pages_stored [OF r this(1) len this(2) avail, of e "unat (drop_bit PAGE_SHIFT (so_offset o'))"] obtain err cs' st' m where
      run: "store_pages ne i e (unat (drop_bit PAGE_SHIFT (so_offset o'))) (unat (so_offset o') mod PAGE_SIZE) (unat (so_size o')) cs ?st1
        = Some (err, cs', st')"
      and s: "stored ne i e (unat (so_offset o')) m cs ?st1 cs' st'"
      and d: "err = 0 \<and> m = unat (so_size o') \<or>
        err = - ENOMEM \<and> m < unat (so_size o') \<and> cache_page ne i st i ((unat (so_offset o') + m) div PAGE_SIZE) = None"
    unfolding position_split by auto
  have ns: "nt_ns st' = set_nsb (nt_ns st) sb1" "nt_polled st' = nt_polled st" "nt_poll_wakes st' = nt_poll_wakes st"
    using s by (auto simp: stored_def)
  let ?w = "w1\<lparr>i_count := i_count w1 - 1\<rparr>"
  have put: "ns_iput i (nt_ns st') = Some (set_nsb (nt_ns st') (upd_inode i (\<lambda>w. w\<lparr>i_count := i_count w - 1\<rparr>) sb1))"
    using w1 v(2) by (simp add: ns_iput_def iput_def ns)
  let ?sb3 = "upd_inode i (\<lambda>w. w\<lparr>i_count := i_count w - 1\<rparr>) sb1"
  have found: "store_found ne o' i cs st = Some (err, fuse_copy_finish cs', st'\<lparr>nt_ns := set_nsb (nt_ns st') ?sb3\<rparr>)"
    unfolding store_found_def by (simp only: v(1) Option.bind.simps Let_def sb1 eq run put prod.case)
  have ns3: "inodes ?sb3 = (inodes ?sb)(i \<mapsto> ?w)" using w1 by (simp add: upd_inode_def)
  have "stored ne i e (unat (so_offset o')) m cs (st\<lparr>nt_ns := nt_ns st'\<rparr>) cs' st'" using s ns(1) by simp
  moreover have "i_count ?w = i_count v - 1" "i_size ?w = (if e then ?stop else i_size v)" using w1 eq by auto
  ultimately show ?thesis
    using found d ns ns3 by (intro exI conjI) (assumption | simp)+
qed

text \<open>
  What a store of the bytes \<open>bs\<close> from the position \<open>start\<close> on leaves behind, for the memory before and after: the bytes
  are the contents of the inode there and nothing else has changed, their pages are in the cache, and a page is marked
  up to date when it was written from its beginning to its end, or to the end of the file.
\<close>

definition store_effect ::
    "notify_env \<Rightarrow> ino_id \<Rightarrow> bool \<Rightarrow> nat \<Rightarrow> u8 list \<Rightarrow> notify_state \<Rightarrow> (page_id \<Rightarrow> page) \<Rightarrow> notify_state \<Rightarrow> (page_id \<Rightarrow> page) \<Rightarrow> bool" where
  "store_effect ne i at_end start bs st mem st' mem' \<longleftrightarrow>
     (\<forall>j p. file_byte (cache_page ne i st) mem' j p =
        (if j = i \<and> start \<le> p \<and> p < start + length bs then Some (bs ! (p - start)) else file_byte (cache_page ne i st) mem j p)) \<and>
     (\<forall>j k. nt_cache st' j k = (if j = i \<and> touched start (length bs) k then cache_page ne i st j k else nt_cache st j k)) \<and>
     (\<forall>j k pg. cache_page ne i st j k = Some pg \<longrightarrow> pg_flags (mem' pg) =
        (if j = i \<and> touched start (length bs) k
         then (if nt_cache st j k = None then pg_flags (mem pg) - {PG_uptodate} else pg_flags (mem pg)) \<union>
           (if page_covered start (length bs) at_end k then {PG_uptodate} else {})
         else pg_flags (mem pg)))"

lemma stored_effect:
  assumes "stored ne i e start m cs (st\<lparr>nt_ns := x\<rparr>) cs' st'" and "data = take n (cs_stream cs)" and "m \<le> n"
    and "cs_mem cs = mem" and "nt_cache st'' = nt_cache st'" and "cs_mem cs'' = cs_mem cs'"
  shows "store_effect ne i e start (take m data) st mem st'' (cs_mem cs'')"
  using assms by (auto simp: stored_def store_effect_def min_def)

lemma notify_store_run:
  assumes code: "ne_code ne code = Some FUSE_NOTIFY_STORE"
    and cs: "cs_ready cs" "cs_req cs = None" "\<not> cs_write cs"
    and n: "n = wire_size (nt_conn st) W_notify_store_out" and o': "o' = ne_store ne (take n (cs_stream cs))"
    and sz: "sz = n + unat (so_size o')" "sz \<le> length (cs_stream cs)"
    and sb: "has_sb st" "ihash (nsb (nt_ns st)) (so_nodeid o') = Some i" "inodes (nsb (nt_ns st)) i = Some v" "0 < i_count v"
    and pages: "pages_apart (cache_page ne i st)" "\<And>pg. length (page.pg_data (cs_mem cs pg)) = PAGE_SIZE"
    and e: "e = (i_size v \<le>s so_offset o' + ucast (so_size o'))"
  shows "\<exists>err cs' st' m w. fuse_notify ne code sz cs st = Some (err, cs', st') \<and>
    (err = 0 \<and> m = unat (so_size o') \<or>
     err = - ENOMEM \<and> m < unat (so_size o') \<and> cache_page ne i st i ((unat (so_offset o') + m) div PAGE_SIZE) = None) \<and>
    store_effect ne i e (unat (so_offset o')) (take m (drop n (take sz (cs_stream cs)))) st (cs_mem cs) st' (cs_mem cs') \<and>
    inodes (nsb (nt_ns st')) = (inodes (nsb (nt_ns st)))(i \<mapsto> w) \<and> i_count w = i_count v \<and>
    i_size w = (if e then so_offset o' + ucast (so_size o') else i_size v)"
proof -
  let ?cs = "cs\<lparr>cs_move_pages := False\<rparr>" and ?sb = "nsb (nt_ns st)"
  have r: "reading ?cs" using cs by (simp add: reading_def cs_ready_def)
  have str: "cs_stream ?cs = cs_stream cs" by (simp add: cs_stream_def)
  have "n \<le> length (cs_stream ?cs)" using sz str by simp
  from read_struct_ready [OF r this] obtain cs1 where rd: "read_struct n ?cs = Some (0, take n (cs_stream cs), cs1)"
      and r1: "reading cs1" and s1: "cs_stream cs1 = drop n (cs_stream cs)" and m1: "cs_mem cs1 = cs_mem cs"
    unfolding str by auto
  let ?sb1 = "upd_inode i (\<lambda>v. v\<lparr>i_count := i_count v + 1\<rparr>) ?sb"
  let ?st = "st\<lparr>nt_ns := set_nsb (nt_ns st) ?sb1\<rparr>"
  have v1: "inodes (nsb (nt_ns ?st)) i = Some (v\<lparr>i_count := i_count v + 1\<rparr>)" using sb by (simp add: upd_inode_def)
  have "pages_apart (cache_page ne i ?st)" "unat (so_size o') \<le> length (cs_stream cs1)" using pages sz s1 by simp_all
  from store_found_run [OF r1 this(1) _ this(2) v1, of e] pages(2) m1 sb(4) e obtain err cs' st' st'' m w where
      f: "store_found ne o' i cs1 ?st = Some (err, fuse_copy_finish cs', st'')"
      and s: "stored ne i e (unat (so_offset o')) m cs1 (?st\<lparr>nt_ns := nt_ns st'\<rparr>) cs' st'"
      and d: "err = 0 \<and> m = unat (so_size o') \<or>
        err = - ENOMEM \<and> m < unat (so_size o') \<and> cache_page ne i st i ((unat (so_offset o') + m) div PAGE_SIZE) = None"
      and c: "nt_cache st'' = nt_cache st'"
      and ns: "inodes (nsb (nt_ns st'')) = (inodes (nsb (nt_ns ?st)))(i \<mapsto> w)" "i_count w = i_count v"
        "i_size w = (if e then so_offset o' + ucast (so_size o') else i_size v)"
    by auto
  have "\<not> sz < n" "sz - n = unat (so_size o')" using sz by simp_all
  then have run: "fuse_notify ne code sz cs st = Some (err, fuse_copy_finish cs', st'')"
    using code rd sb f unfolding fuse_notify_def fuse_notify_store_def n [symmetric]
    by (simp add: o' ilookup5_def Let_def)
  have "drop n (take sz (cs_stream cs)) = take (unat (so_size o')) (cs_stream cs1)"
    unfolding s1 sz(1) by (simp add: take_drop add.commute)
  moreover have "m \<le> unat (so_size o')" using d by auto
  ultimately have "store_effect ne i e (unat (so_offset o')) (take m (drop n (take sz (cs_stream cs)))) st (cs_mem cs) st'' (cs_mem (fuse_copy_finish cs'))"
    using s by (intro stored_effect [where x = "nt_ns st'" and cs' = cs' and st' = st' and cs = cs1 and n = "unat (so_size o')"])
      (simp_all add: m1 c)
  moreover have "inodes (nsb (nt_ns st'')) = (inodes ?sb)(i \<mapsto> w)" using ns(1) by (simp add: upd_inode_def)
  ultimately show ?thesis using run d ns(2,3) by blast
qed

subsection \<open>Retrieving\<close>

text \<open>The bytes a list of pages stands for: the first page from \<open>offset\<close> on, the others from their beginning.\<close>

fun parts :: "(page_id \<Rightarrow> page) \<Rightarrow> nat \<Rightarrow> (page_id \<times> nat) list \<Rightarrow> u8 list" where
  "parts mem offset [] = []"
| "parts mem offset ((pg, n) # ps) = take n (drop offset (page.pg_data (mem pg))) @ parts mem 0 ps"

text \<open>The bytes of the pages of a request.\<close>

definition req_data :: "(page_id \<Rightarrow> page) \<Rightarrow> fuse_req \<Rightarrow> u8 list" where
  "req_data mem q = concat (map (\<lambda>(pgo, d). take (pd_length d) (drop (pd_offset d) (page.pg_data (mem (the pgo)))))
     (take (rq_num_pages q) (zip (rq_pages q) (rq_page_descs q))))"

lemma retrieve_loop_spec:
  assumes "offset < PAGE_SIZE" and "ps = retrieve_loop c ix offset num k"
  shows "length ps \<le> k \<and> sum_list (map snd ps) \<le> num \<and>
    (sum_list (map snd ps) = num \<or> c ((ix * PAGE_SIZE + offset + sum_list (map snd ps)) div PAGE_SIZE) = None \<or>
     length ps = k \<and> k * PAGE_SIZE \<le> offset + sum_list (map snd ps) \<or> k = 0)"
  using assms
proof (induction k arbitrary: ps ix offset num)
  case (Suc k)
  let ?m = "min num (PAGE_SIZE - offset)"
  show ?case
  proof (cases "num = 0 \<or> c ix = None")
    case True
    then show ?thesis using Suc.prems by auto
  next
    case False
    then obtain pg where pg: "c ix = Some pg" "num \<noteq> 0" by auto
    define ps' where "ps' = retrieve_loop c (Suc ix) 0 (num - ?m) k"
    have ps: "ps = (pg, ?m) # ps'" using Suc.prems pg by (simp add: ps'_def)
    note IH = Suc.IH [OF PAGE_SIZE_pos ps'_def]
    show ?thesis
    proof (cases "num = ?m")
      case True
      then have "ps' = []" unfolding ps'_def by (cases k) auto
      then show ?thesis using ps True by simp
    next
      case False
      then have m: "?m = PAGE_SIZE - offset" by simp
      have at: "ix * PAGE_SIZE + offset + sum_list (map snd ps) = Suc ix * PAGE_SIZE + 0 + sum_list (map snd ps')"
        using ps m Suc.prems(1) by simp
      have "sum_list (map snd ps) = ?m + sum_list (map snd ps')" "length ps = Suc (length ps')" using ps by simp_all
      then show ?thesis
        using IH m Suc.prems(1) False unfolding at by (cases "k = 0") auto
    qed
  qed
qed auto

lemma parts_loop:
  assumes "offset < PAGE_SIZE" and "ps = retrieve_loop (C i) ix offset num k"
    and "\<And>pg. length (page.pg_data (mem pg)) = PAGE_SIZE"
  shows "length (parts mem offset ps) = sum_list (map snd ps) \<and>
    (\<forall>p < sum_list (map snd ps). file_byte C mem i (ix * PAGE_SIZE + offset + p) = Some (parts mem offset ps ! p))"
  using assms
proof (induction k arbitrary: ps ix offset num)
  case (Suc k)
  let ?m = "min num (PAGE_SIZE - offset)"
  show ?case
  proof (cases "num = 0 \<or> C i ix = None")
    case True
    then show ?thesis using Suc.prems by auto
  next
    case False
    then obtain pg where pg: "num \<noteq> 0" "C i ix = Some pg" by auto
    define ps' where "ps' = retrieve_loop (C i) (Suc ix) 0 (num - ?m) k"
    have ps: "ps = (pg, ?m) # ps'" using Suc.prems pg by (simp add: ps'_def)
    from Suc.IH [OF PAGE_SIZE_pos ps'_def Suc.prems(3)] have
        l: "length (parts mem 0 ps') = sum_list (map snd ps')"
        and b: "\<And>p. p < sum_list (map snd ps') \<Longrightarrow> file_byte C mem i (Suc ix * PAGE_SIZE + 0 + p) = Some (parts mem 0 ps' ! p)" by auto
    have first: "length (take ?m (drop offset (page.pg_data (mem pg)))) = ?m" using Suc.prems(3) [of pg] by simp
    have byte: "file_byte C mem i (ix * PAGE_SIZE + offset + p) = Some (parts mem offset ps ! p)"
      if p: "p < sum_list (map snd ps)" for p
    proof (cases "p < ?m")
      case True
      then have "offset + p < PAGE_SIZE" by auto
      then have "(ix * PAGE_SIZE + offset + p) div PAGE_SIZE = ix" "(ix * PAGE_SIZE + offset + p) mod PAGE_SIZE = offset + p"
        using Suc.prems(1) by (simp_all add: add.assoc)
      then show ?thesis using True pg first Suc.prems(3) [of pg] Suc.prems(1) by (simp add: ps file_byte_def nth_append)
    next
      case False
      have s: "sum_list (map snd ps) = ?m + sum_list (map snd ps')" using ps by simp
      have "?m = PAGE_SIZE - offset"
      proof (rule ccontr)
        assume "?m \<noteq> PAGE_SIZE - offset"
        then have "ps' = []" unfolding ps'_def by (cases k) auto
        then show False using p s False by simp
      qed
      then have at: "ix * PAGE_SIZE + offset + p = Suc ix * PAGE_SIZE + 0 + (p - ?m)" using False Suc.prems(1) by simp
      have "parts mem offset ps ! p = parts mem 0 ps' ! (p - ?m)"
        using False first by (simp add: ps nth_append del: min_less_iff_conj)
      moreover have "p - ?m < sum_list (map snd ps')" using False p unfolding s by linarith
      ultimately show ?thesis unfolding at using b [of "p - ?m"] by metis
    qed
    show ?thesis using byte l first by (simp add: ps)
  qed
qed simp

lemma set_pages_data:
  assumes "length ps \<le> k" and "rq_pages q = replicate k None" and "rq_page_descs q = replicate k \<lparr>pd_length = 0, pd_offset = 0\<rparr>"
  shows "req_data mem (set_pages offset ps q) = parts mem offset ps"
proof -
  have zip0: "concat (map (\<lambda>(pgo, d). take (pd_length d) (drop (pd_offset d) (page.pg_data (mem (the pgo)))))
      (take (length ps) (zip (map (\<lambda>(pg, n). Some pg) ps @ xs)
        (map (\<lambda>(d, pg, n). d\<lparr>pd_length := n\<rparr>) (zip (replicate k \<lparr>pd_length = 0, pd_offset = 0\<rparr>) ps) @ ys)))) = parts mem 0 ps"
    if "length ps \<le> k" for ps k xs ys
    using that
  proof (induction ps arbitrary: k)
    case (Cons x ps)
    then obtain k' where "k = Suc k'" by (cases k) auto
    then show ?case using Cons by (cases x) simp
  qed simp
  show ?thesis
  proof (cases ps)
    case Nil
    then show ?thesis by (simp add: req_data_def set_pages_def)
  next
    case (Cons x ps')
    then obtain k' where k': "k = Suc k'" using assms(1) by (cases k) auto
    obtain pg n where x: "x = (pg, n)" by force
    show ?thesis
      using assms Cons k' zip0 [of ps' k'] by (simp add: req_data_def set_pages_def Let_def x)
  qed
qed

text \<open>The references to pages that are taken and dropped.\<close>

lemma page_refs:
  "fold (page_ref n) pgs cs = cs\<lparr>cs_mem := (\<lambda>x. (cs_mem cs x)\<lparr>pg_count := pg_count (cs_mem cs x) + n * int (count_list pgs x)\<rparr>)\<rparr>"
proof (induction pgs arbitrary: cs)
  case (Cons pg pgs)
  have "page_ref n pg cs = cs\<lparr>cs_mem := (\<lambda>x. (cs_mem cs x)\<lparr>pg_count := pg_count (cs_mem cs x) + n * int (count_list [pg] x)\<rparr>)\<rparr>"
    by (auto simp: page_ref_def fun_eq_iff intro!: fuse_copy_state.fold_congs)
  then show ?case using Cons by (auto simp: fun_eq_iff algebra_simps intro!: fuse_copy_state.fold_congs)
qed simp

lemma page_refs_back: "fold (page_ref (- 1)) pgs (fold (page_ref 1) pgs cs) = cs"
  by (simp add: page_refs)

lemma page_refs_data [simp]: "page.pg_data (cs_mem (fold (page_ref n) pgs cs) x) = page.pg_data (cs_mem cs x)"
  by (simp add: page_refs)

lemma req_data_cong: "(\<And>x. page.pg_data (mem' x) = page.pg_data (mem x)) \<Longrightarrow> req_data mem' q = req_data mem q"
  by (simp add: req_data_def)

text \<open>The pages of a request that carries a retrieved range.\<close>

lemma retrieve_end_pages:
  "rq_num_pages q = length ps \<Longrightarrow> rq_pages q = map (\<lambda>(pg, n). Some pg) ps @ xs \<Longrightarrow>
     fuse_retrieve_end q cs = fold (page_ref (- 1)) (map fst ps) cs"
  by (simp add: fuse_retrieve_end_def comp_def case_prod_beta)

text \<open>
  The run of \<open>fuse_retrieve\<close> on a connection that takes requests; \<open>s2\<close> is the state at the critical section that queues
  the request.
\<close>

definition takes_requests :: "notify_env \<Rightarrow> fuse_state \<Rightarrow> bool" where
  "takes_requests ne s \<longleftrightarrow> initialized s \<and> connected s \<and> Conn_error \<notin> fc_bits s \<and> (\<forall>k. ne_ok ne k) \<and>
     (\<forall>t. reqs (ne_others ne t) (next_id s) = reqs t (next_id s))"

lemma fuse_retrieve_run:
  assumes v: "inodes (nsb (nt_ns st)) i = Some v" and ready: "takes_requests ne (nt_conn st)"
    and r: "r = next_id (nt_conn st)" and num: "num = retrieve_num o' (i_size v)" and offset: "offset = unat (ro_offset o') mod PAGE_SIZE"
    and np: "np = retrieve_pages num (of_nat offset)"
    and ps: "ps = retrieve_loop (nt_cache st i) (unat (drop_bit PAGE_SHIFT (ro_offset o'))) offset (unat num) np"
  obtains s2 q where "s2 = ne_others ne ((waiting_inc (nt_conn st))\<lparr>reqs := (reqs (nt_conn st))(r \<mapsto> q), next_id := Suc r\<rparr>)"
    and "q = retrieve_fill ne (wire_size (nt_conn st) W_notify_retrieve_in) o' offset ps (mark_new (ne_task ne) False (fuse_request_init np))"
    and "reqs s2 r = Some q"
    and "fuse_retrieve ne i o' cs st =
      (let s3 = upd_req r (set_in_unique (ro_unique o')) (upd_req r (clear_flag FR_ISREPLY) s2)
       in Some (if iq_connected (iq s2) then (0, fold (page_ref 1) (map fst ps) cs, upd_nt_conn (\<lambda>_. queue_request r s3) st)
                else (- ENODEV, cs, upd_nt_conn (\<lambda>_. s3) st)))"
proof -
  let ?s = "nt_conn st" and ?n = "wire_size (nt_conn st) W_notify_retrieve_in"
  define q where "q = retrieve_fill ne ?n o' offset ps (mark_new (ne_task ne) False (fuse_request_init np))"
  define s1 where "s1 = (waiting_inc ?s)\<lparr>reqs := (reqs ?s)(r \<mapsto> q), next_id := Suc r\<rparr>"
  have got: "fuse_get_req (ne_ok ne) (ne_task ne) np (ne_killed ne) ?s =
      (Got r, upd_req r (mark_new (ne_task ne) False) ((waiting_inc ?s)\<lparr>reqs := (reqs ?s)(r \<mapsto> fuse_request_init np), next_id := Suc r\<rparr>))"
    using ready by (simp add: r takes_requests_def fuse_get_req_def fuse_get_req_common_def get_req_resume_def fuse_block_alloc_def
        fuse_request_alloc_def waiting_inc_def)
  have fill: "upd_req r (retrieve_fill ne ?n o' offset ps) (upd_req r (mark_new (ne_task ne) False)
      ((waiting_inc ?s)\<lparr>reqs := (reqs ?s)(r \<mapsto> fuse_request_init np), next_id := Suc r\<rparr>)) = s1"
    by (auto simp: s1_def q_def upd_req_def waiting_inc_def fun_eq_iff intro!: fuse_state.fold_congs)
  have s2: "reqs (ne_others ne s1) r = Some q" using ready by (simp add: takes_requests_def r s1_def)
  have put_back: "fuse_retrieve_end (set_in_unique (ro_unique o') (clear_flag FR_ISREPLY q)) (fold (page_ref 1) (map fst ps) cs) = cs"
    by (subst retrieve_end_pages [of _ ps "drop (length ps) (rq_pages (mark_new (ne_task ne) False (fuse_request_init np)))"])
      (simp_all add: q_def retrieve_fill_def set_pages_def Let_def set_in_unique_def clear_flag_def page_refs_back)
  have "fuse_retrieve ne i o' cs st =
      (let s2 = ne_others ne s1; s3 = upd_req r (set_in_unique (ro_unique o')) (upd_req r (clear_flag FR_ISREPLY) s2)
       in Some (if iq_connected (iq s2) then (0, fold (page_ref 1) (map fst ps) cs, upd_nt_conn (\<lambda>_. queue_request r s3) st)
                else (- ENODEV, cs, upd_nt_conn (\<lambda>_. s3) st)))"
    unfolding fuse_retrieve_def v Option.bind.simps Let_def offset [symmetric] num [symmetric] np [symmetric] got
    using fill s2 put_back
    by (simp add: ps [symmetric] waiting_inc_def upd_req_def [of r "mark_new (ne_task ne) False"] fuse_request_send_notify_reply_def Let_def
        queue_request_def ENODEV_def)
  then show thesis using that [OF refl, of q] s2 by (simp add: s1_def q_def Let_def)
qed

lemma notify_retrieve_run:
  assumes code: "ne_code ne code = Some FUSE_NOTIFY_RETRIEVE"
    and cs: "cs_ready cs" "cs_req cs = None" "\<not> cs_write cs"
    and n: "n = wire_size (nt_conn st) W_notify_retrieve_out" "n \<le> length (cs_stream cs)"
    and o': "o' = ne_retrieve ne (take n (cs_stream cs))"
    and sb: "has_sb st" "ihash (nsb (nt_ns st)) (ro_nodeid o') = Some i" "inodes (nsb (nt_ns st)) i = Some v" "0 < i_count v"
  obtains cs2 st1 v1 where "cs_mem cs2 = cs_mem cs" and "nt_conn st1 = nt_conn st" and "nt_cache st1 = nt_cache st"
    and "inodes (nsb (nt_ns st1)) i = Some v1" and "i_size v1 = i_size v"
    and "\<And>err cs3 f. fuse_retrieve ne i o' cs2 st1 = Some (err, cs3, upd_nt_conn f st1) \<Longrightarrow>
      \<exists>st'. fuse_notify ne code n cs st = Some (err, cs3, st') \<and> nt_conn st' = f (nt_conn st)"
proof -
  let ?cs = "cs\<lparr>cs_move_pages := False\<rparr>" and ?sb = "nsb (nt_ns st)"
  have r: "reading ?cs" using cs by (simp add: reading_def cs_ready_def)
  have str: "cs_stream ?cs = cs_stream cs" by (simp add: cs_stream_def)
  have "n \<le> length (cs_stream ?cs)" using n str by simp
  from read_struct_ready [OF r this] obtain cs1 where rd: "read_struct n ?cs = Some (0, take n (cs_stream cs), cs1)"
      and m1: "cs_mem cs1 = cs_mem cs"
    unfolding str by auto
  let ?sb1 = "upd_inode i (\<lambda>v. v\<lparr>i_count := i_count v + 1\<rparr>) ?sb"
  let ?st = "st\<lparr>nt_ns := set_nsb (nt_ns st) ?sb1\<rparr>"
  have run: "\<exists>st'. fuse_notify ne code n cs st = Some (err, cs3, st') \<and> nt_conn st' = f (nt_conn st)"
    if f: "fuse_retrieve ne i o' (fuse_copy_finish cs1) ?st = Some (err, cs3, upd_nt_conn f ?st)" for err cs3 f
  proof -
    have "inodes (nsb (nt_ns (upd_nt_conn f ?st))) i = Some (v\<lparr>i_count := i_count v + 1\<rparr>)"
      using sb(3) by (simp add: upd_nt_conn_def upd_conn_def upd_inode_def)
    then have put: "ns_iput i (nt_ns (upd_nt_conn f ?st)) =
        Some (set_nsb (nt_ns (upd_nt_conn f ?st)) (upd_inode i (\<lambda>w. w\<lparr>i_count := i_count w - 1\<rparr>) (nsb (nt_ns (upd_nt_conn f ?st)))))"
      using sb(4) by (simp add: ns_iput_def iput_def)
    have "fuse_notify ne code n cs st = Some (err, cs3, (upd_nt_conn f ?st)\<lparr>nt_ns := set_nsb (nt_ns (upd_nt_conn f ?st))
        (upd_inode i (\<lambda>w. w\<lparr>i_count := i_count w - 1\<rparr>) (nsb (nt_ns (upd_nt_conn f ?st))))\<rparr>)"
      using code rd sb f put unfolding fuse_notify_def fuse_notify_retrieve_def n(1) [symmetric]
      by (simp add: o' ilookup5_def Let_def)
    then show ?thesis by (simp add: upd_nt_conn_def upd_conn_def upd_inode_def)
  qed
  show thesis
    by (rule that [of "fuse_copy_finish cs1" ?st "v\<lparr>i_count := i_count v + 1\<rparr>"])
      (use run m1 sb in \<open>simp_all add: upd_inode_def\<close>)
qed

lemma retrieve_pages_enough:
  assumes "offset < PAGE_SIZE" and "unat num + offset < 2 ^ 32" and "retrieve_pages num (of_nat offset) < FUSE_MAX_PAGES_PER_REQ"
  shows "unat num + offset \<le> retrieve_pages num (of_nat offset) * PAGE_SIZE"
proof -
  have "unat (num + of_nat offset :: u32) = unat num + offset"
    using assms(1,2) by (simp add: unat_word_ariths unat_of_nat PAGE_SIZE_def)
  then have u: "unat (ucast (num + of_nat offset :: u32) :: u64) = unat num + offset"
    using assms(2) by (simp add: unsigned_ucast_eq take_bit_nat_eq_self_iff)
  have "(ucast (num + of_nat offset :: u32) + 4096 - 1 :: u64) = ucast (num + of_nat offset :: u32) + 4095" by simp
  then have "unat (ucast (num + of_nat offset :: u32) + 4096 - 1 :: u64) = unat num + offset + 4095"
    using u assms(2) by (simp only: unat_word_ariths) simp
  then have "unat (drop_bit PAGE_SHIFT (ucast (num + of_nat offset :: u32) + 4096 - 1 :: u64)) = (unat num + offset + 4095) div 4096"
    unfolding unat_drop_bit_eq by (simp add: drop_bit_eq_div PAGE_SHIFT_def)
  then show ?thesis using assms(3) unfolding retrieve_pages_def PAGE_SIZE_def by (simp only: min_def split: if_split_asm) simp_all
qed

lemma retrieve_request_parts:
  assumes "length ps \<le> np" and "q = retrieve_fill ne n o' offset ps (mark_new cur False (fuse_request_init np))"
    and "tot = sum_list (map snd ps)"
  shows "req_data mem q = parts mem offset ps" "rq_num_pages q = length ps"
    "ih_opcode (in_h (rq_in q)) = FUSE_NOTIFY_REPLY" "rq_misc q = Misc_retrieve (ro_offset o') tot"
    "map arg_size (in_args (rq_in q)) = [n, tot]" "rq_count q = 1" "FR_WAITING \<in> rq_flags q"
    "ih_nodeid (in_h (rq_in q)) = ro_nodeid o'"
    "fuse_retrieve_end q cs = fold (page_ref (- 1)) (map fst ps) cs"
proof -
  let ?q = "mark_new cur False (fuse_request_init np)"
  have "rq_pages ?q = replicate np None" "rq_page_descs ?q = replicate np \<lparr>pd_length = 0, pd_offset = 0\<rparr>"
    by (simp_all add: mark_new_def Let_def fuse_req_init_context_def set_flag_def fuse_request_init_def)
  from set_pages_data [OF assms(1) this] show "req_data mem q = parts mem offset ps"
    by (simp add: assms(2) retrieve_fill_def req_data_def Let_def)
  show "fuse_retrieve_end q cs = fold (page_ref (- 1)) (map fst ps) cs"
    by (rule retrieve_end_pages) (simp_all add: assms(2) retrieve_fill_def set_pages_def Let_def)
qed (simp_all add: assms(2,3) retrieve_fill_def set_pages_def Let_def fuse_request_init_def mark_new_def fuse_req_init_context_def set_flag_def)

lemma req_header_data [simp]:
  "req_data mem (set_in_unique u q) = req_data mem q" "req_data mem (clear_flag b q) = req_data mem q"
  "req_data mem (set_in_len k q) = req_data mem q"
  "fuse_retrieve_end (set_in_unique u q) = fuse_retrieve_end q" "fuse_retrieve_end (clear_flag b q) = fuse_retrieve_end q"
  "fuse_retrieve_end (set_in_len k q) = fuse_retrieve_end q"
  by (simp_all add: req_data_def fuse_retrieve_end_def fun_eq_iff set_in_unique_def clear_flag_def set_in_len_def)

text \<open>
  C12: The answer to a NOTIFY_RETRIEVE of the server is a request whose data are the cached bytes of the range that was asked
  for, from its beginning on: they end where the range or the file ends, at the first page that is not in the cache, after the pages
  of one request, or where the number of pages has overflowed. Giving the pages of the request back restores the memory.
\<close>

theorem retrieve_sends_cached:
  assumes code: "ne_code ne code = Some FUSE_NOTIFY_RETRIEVE"
    and cs: "cs_ready cs" "cs_req cs = None" "\<not> cs_write cs"
    and n: "n = wire_size (nt_conn st) W_notify_retrieve_out" "n \<le> length (cs_stream cs)"
    and o': "o' = ne_retrieve ne (take n (cs_stream cs))"
    and sb: "has_sb st" "ihash (nsb (nt_ns st)) (ro_nodeid o') = Some i" "inodes (nsb (nt_ns st)) i = Some v" "0 < i_count v"
    and ready: "takes_requests ne (nt_conn st)" "\<And>t. iq_connected (iq (ne_others ne t))"
    and pages: "\<And>pg. length (page.pg_data (cs_mem cs pg)) = PAGE_SIZE"
  shows "\<exists>cs' st' r q d. fuse_notify ne code n cs st = Some (0, cs', st') \<and>
    reqs (nt_conn st') r = Some q \<and> pending (iq (nt_conn st')) \<noteq> [] \<and> last (pending (iq (nt_conn st'))) = r \<and>
    ih_opcode (in_h (rq_in q)) = FUSE_NOTIFY_REPLY \<and> ih_unique (in_h (rq_in q)) = ro_unique o' \<and> FR_ISREPLY \<notin> rq_flags q \<and>
    d = req_data (cs_mem cs') q \<and> rq_misc q = Misc_retrieve (ro_offset o') (length d) \<and>
    map arg_size (in_args (rq_in q)) = [wire_size (nt_conn st) W_notify_retrieve_in, length d] \<and>
    (\<forall>p < length d. file_byte (nt_cache st) (cs_mem cs') i (unat (ro_offset o') + p) = Some (d ! p)) \<and>
    length d \<le> unat (retrieve_num o' (i_size v)) \<and>
    (length d = unat (retrieve_num o' (i_size v)) \<or> nt_cache st i ((unat (ro_offset o') + length d) div PAGE_SIZE) = None \<or>
     FUSE_MAX_PAGES_PER_REQ * PAGE_SIZE \<le> unat (ro_offset o') mod PAGE_SIZE + length d \<or>
     2 ^ 32 \<le> unat (retrieve_num o' (i_size v)) + unat (ro_offset o') mod PAGE_SIZE) \<and>
    cs_mem (fuse_retrieve_end q cs') = cs_mem cs"
proof -
  obtain cs2 st1 v1 where m2: "cs_mem cs2 = cs_mem cs"
      and conn: "nt_conn st1 = nt_conn st" and cache: "nt_cache st1 = nt_cache st"
      and v1: "inodes (nsb (nt_ns st1)) i = Some v1" "i_size v1 = i_size v"
      and run: "\<And>err cs3 f. fuse_retrieve ne i o' cs2 st1 = Some (err, cs3, upd_nt_conn f st1) \<Longrightarrow>
        \<exists>st'. fuse_notify ne code n cs st = Some (err, cs3, st') \<and> nt_conn st' = f (nt_conn st)"
    by (rule notify_retrieve_run [OF code cs n o' sb]) blast
  define num where "num = retrieve_num o' (i_size v1)"
  define offset where "offset = unat (ro_offset o') mod PAGE_SIZE"
  define np where "np = retrieve_pages num (of_nat offset)"
  define ps where "ps = retrieve_loop (nt_cache st1 i) (unat (drop_bit PAGE_SHIFT (ro_offset o'))) offset (unat num) np"
  define r where "r = next_id (nt_conn st1)"
  have ready1: "takes_requests ne (nt_conn st1)" using ready(1) conn by simp
  from fuse_retrieve_run [OF v1(1) ready1 r_def num_def offset_def np_def ps_def, of cs2] obtain s2 q where
      s2: "s2 = ne_others ne ((waiting_inc (nt_conn st1))\<lparr>reqs := (reqs (nt_conn st1))(r \<mapsto> q), next_id := Suc r\<rparr>)"
      and q: "q = retrieve_fill ne (wire_size (nt_conn st1) W_notify_retrieve_in) o' offset ps (mark_new (ne_task ne) False (fuse_request_init np))"
      and q2: "reqs s2 r = Some q"
      and fr: "fuse_retrieve ne i o' cs2 st1 =
        (let s3 = upd_req r (set_in_unique (ro_unique o')) (upd_req r (clear_flag FR_ISREPLY) s2)
         in Some (if iq_connected (iq s2) then (0, fold (page_ref 1) (map fst ps) cs2, upd_nt_conn (\<lambda>_. queue_request r s3) st1)
                  else (- ENODEV, cs2, upd_nt_conn (\<lambda>_. s3) st1)))" .
  let ?cs3 = "fold (page_ref 1) (map fst ps) cs2"
  let ?s3 = "upd_req r (set_in_unique (ro_unique o')) (upd_req r (clear_flag FR_ISREPLY) s2)"
  have "fuse_retrieve ne i o' cs2 st1 = Some (0, ?cs3, upd_nt_conn (\<lambda>_. queue_request r ?s3) st1)"
    using fr ready(2) by (simp add: s2 Let_def)
  from run [OF this] obtain st' where st': "fuse_notify ne code n cs st = Some (0, ?cs3, st')" "nt_conn st' = queue_request r ?s3" by auto
  let ?q1 = "set_in_unique (ro_unique o') (clear_flag FR_ISREPLY q)"
  let ?q = "set_in_len (in_len ?s3 ?q1) ?q1"
  have queued: "reqs (nt_conn st') r = Some ?q" "pending (iq (nt_conn st')) \<noteq> []" "last (pending (iq (nt_conn st'))) = r"
    using q2 by (simp_all add: st'(2) queue_request_def)
  have off: "offset < PAGE_SIZE" by (simp add: offset_def)
  note loop = retrieve_loop_spec [OF off ps_def]
  note part = retrieve_request_parts [OF conjunct1 [OF loop] q refl]
  have mem: "page.pg_data (cs_mem ?cs3 x) = page.pg_data (cs_mem cs x)" for x by (simp add: m2)
  from parts_loop [where C = "nt_cache st1" and mem = "cs_mem cs", OF off ps_def] pages cache have
      len: "length (parts (cs_mem cs) offset ps) = sum_list (map snd ps)" and
      bytes: "\<And>p. p < sum_list (map snd ps) \<Longrightarrow> file_byte (nt_cache st) (cs_mem cs) i (unat (ro_offset o') + p) = Some (parts (cs_mem cs) offset ps ! p)"
    using position_split [of "ro_offset o'"] by (auto simp: offset_def)
  have data: "req_data (cs_mem ?cs3) ?q = parts (cs_mem cs) offset ps" using req_data_cong [OF mem, where q = q] part(1) by simp
  have fb: "file_byte C (cs_mem ?cs3) = file_byte C (cs_mem cs)" for C by (simp add: file_byte_def fun_eq_iff m2)
  have refs: "cs_mem (fuse_retrieve_end ?q ?cs3) = cs_mem cs" by (simp add: part(9) page_refs_back m2)
  have ends: "sum_list (map snd ps) = unat num \<or> nt_cache st i ((unat (ro_offset o') + sum_list (map snd ps)) div PAGE_SIZE) = None \<or>
      FUSE_MAX_PAGES_PER_REQ * PAGE_SIZE \<le> offset + sum_list (map snd ps) \<or> 2 ^ 32 \<le> unat num + offset"
  proof (cases "unat num + offset < 2 ^ 32 \<and> np < FUSE_MAX_PAGES_PER_REQ")
    case True
    from retrieve_pages_enough [OF off _ ] True have "unat num + offset \<le> np * PAGE_SIZE" by (simp add: np_def)
    then show ?thesis using loop position_split [of "ro_offset o'"] by (auto simp: offset_def cache)
  next
    case False
    have "np \<le> FUSE_MAX_PAGES_PER_REQ" by (simp add: np_def retrieve_pages_def)
    then show ?thesis using False loop position_split [of "ro_offset o'"] by (auto simp: offset_def cache FUSE_MAX_PAGES_PER_REQ_def)
  qed
  show ?thesis
    by (rule exI [of _ ?cs3], rule exI [of _ st'], rule exI [of _ r], rule exI [of _ ?q], rule exI [of _ "parts (cs_mem cs) offset ps"])
      (use st'(1) queued data fb refs ends part len bytes loop conn v1(2) in
        \<open>simp add: num_def offset_def set_in_unique_def clear_flag_def set_in_len_def\<close>)
qed

text \<open>
  C40: A retrieve whose reply cannot be queued, because the connection is aborted after the request was allocated, gives its
  pages back but not the request: it stays allocated with the one reference nobody holds, and is counted as waiting forever.
\<close>

theorem retrieve_leaks_request:
  assumes code: "ne_code ne code = Some FUSE_NOTIFY_RETRIEVE"
    and cs: "cs_ready cs" "cs_req cs = None" "\<not> cs_write cs"
    and n: "n = wire_size (nt_conn st) W_notify_retrieve_out" "n \<le> length (cs_stream cs)"
    and o': "o' = ne_retrieve ne (take n (cs_stream cs))"
    and sb: "has_sb st" "ihash (nsb (nt_ns st)) (ro_nodeid o') = Some i" "inodes (nsb (nt_ns st)) i = Some v" "0 < i_count v"
    and ready: "takes_requests ne (nt_conn st)" "\<And>t. \<not> iq_connected (iq (ne_others ne t))"
  shows "\<exists>cs' st' s1 s2 q. fuse_notify ne code n cs st = Some (- ENODEV, cs', st') \<and> cs_mem cs' = cs_mem cs \<and>
    num_waiting s1 = num_waiting (nt_conn st) + 1 \<and> s2 = ne_others ne s1 \<and>
    nt_conn st' = s2\<lparr>reqs := (reqs s2)(next_id (nt_conn st) \<mapsto> q)\<rparr> \<and> rq_count q = 1 \<and> FR_WAITING \<in> rq_flags q"
proof -
  obtain cs2 st1 v1 where m2: "cs_mem cs2 = cs_mem cs"
      and conn: "nt_conn st1 = nt_conn st" and cache: "nt_cache st1 = nt_cache st"
      and v1: "inodes (nsb (nt_ns st1)) i = Some v1" "i_size v1 = i_size v"
      and run: "\<And>err cs3 f. fuse_retrieve ne i o' cs2 st1 = Some (err, cs3, upd_nt_conn f st1) \<Longrightarrow>
        \<exists>st'. fuse_notify ne code n cs st = Some (err, cs3, st') \<and> nt_conn st' = f (nt_conn st)"
    by (rule notify_retrieve_run [OF code cs n o' sb]) blast
  have ready1: "takes_requests ne (nt_conn st1)" using ready(1) conn by simp
  let ?r = "next_id (nt_conn st1)"
  from fuse_retrieve_run [OF v1(1) ready1 refl refl refl refl refl, of o' cs2] obtain s2 q ps np n' offset where
      s2: "s2 = ne_others ne ((waiting_inc (nt_conn st1))\<lparr>reqs := (reqs (nt_conn st1))(?r \<mapsto> q), next_id := Suc ?r\<rparr>)"
      and q: "q = retrieve_fill ne n' o' offset ps (mark_new (ne_task ne) False (fuse_request_init np))"
      and q2: "reqs s2 ?r = Some q"
      and fr: "fuse_retrieve ne i o' cs2 st1 =
        (let s3 = upd_req ?r (set_in_unique (ro_unique o')) (upd_req ?r (clear_flag FR_ISREPLY) s2)
         in Some (if iq_connected (iq s2) then (0, fold (page_ref 1) (map fst ps) cs2, upd_nt_conn (\<lambda>_. queue_request ?r s3) st1)
                  else (- ENODEV, cs2, upd_nt_conn (\<lambda>_. s3) st1)))" by blast
  let ?s3 = "upd_req ?r (set_in_unique (ro_unique o')) (upd_req ?r (clear_flag FR_ISREPLY) s2)"
  let ?q = "set_in_unique (ro_unique o') (clear_flag FR_ISREPLY q)"
  have "fuse_retrieve ne i o' cs2 st1 = Some (- ENODEV, cs2, upd_nt_conn (\<lambda>_. ?s3) st1)"
    using fr ready(2) by (simp add: s2 Let_def)
  from run [OF this] obtain st' where st': "fuse_notify ne code n cs st = Some (- ENODEV, cs2, st')" "nt_conn st' = ?s3" by auto
  have s3: "?s3 = s2\<lparr>reqs := (reqs s2)(?r \<mapsto> ?q)\<rparr>"
    using q2 by (auto simp: upd_req_def fun_eq_iff intro!: fuse_state.fold_congs)
  have "rq_count ?q = 1" "FR_WAITING \<in> rq_flags ?q"
    by (simp_all add: q retrieve_fill_def set_pages_def Let_def fuse_request_init_def set_in_unique_def clear_flag_def)
  moreover have "num_waiting ((waiting_inc (nt_conn st1))\<lparr>reqs := (reqs (nt_conn st1))(?r \<mapsto> q), next_id := Suc ?r\<rparr>) =
      num_waiting (nt_conn st) + 1" by (simp add: waiting_inc_def conn)
  ultimately show ?thesis using st' s2 s3 m2 conn by metis
qed

subsection \<open>Polled files\<close>

text \<open>
  The tree is ordered and has exactly the files that are marked as polled. No two files of a connection have the same
  kernel handle, since \<open>fuse_file_alloc\<close> counts \<open>khctr\<close> up.
\<close>

definition polled_ok :: "notify_state \<Rightarrow> bool" where
  "polled_ok st \<longleftrightarrow> sorted_wrt (\<lambda>a b. kh_in (nt_conn st) a < kh_in (nt_conn st) b) (inorder (nt_polled st)) \<and>
     set (inorder (nt_polled st)) = {ff. \<exists>f. ffs (nt_conn st) ff = Some f \<and> ff_polled f}"

definition kh_apart :: "fuse_state \<Rightarrow> bool" where
  "kh_apart s \<longleftrightarrow> (\<forall>a b f g. ffs s a = Some f \<and> ffs s b = Some g \<and> ff_kh f = ff_kh g \<longrightarrow> a = b)"

lemma find_polled:
  assumes "sorted_wrt (\<lambda>a b. kh_of a < kh_of b) (inorder t)"
  shows "fuse_find_polled_node kh_of kh t = Some ff \<longleftrightarrow> ff \<in> set (inorder t) \<and> kh_of ff = kh"
    and "fuse_find_polled_node kh_of kh t = None \<longleftrightarrow> (\<forall>ff \<in> set (inorder t). kh_of ff \<noteq> kh)"
proof -
  have both: "(\<forall>ff. fuse_find_polled_node kh_of kh t = Some ff \<longleftrightarrow> ff \<in> set (inorder t) \<and> kh_of ff = kh)"
    using assms
  proof (induction t)
    case (Node l x r)
    from Node.prems have o: "sorted_wrt (\<lambda>a b. kh_of a < kh_of b) (inorder l)" "sorted_wrt (\<lambda>a b. kh_of a < kh_of b) (inorder r)"
        "\<And>a. a \<in> set (inorder l) \<Longrightarrow> kh_of a < kh_of x" "\<And>a. a \<in> set (inorder r) \<Longrightarrow> kh_of x < kh_of a"
      by (auto simp: sorted_wrt_append)
    have l: "a \<in> set (inorder l) \<Longrightarrow> kh_of x \<le> kh \<Longrightarrow> kh_of a \<noteq> kh"
        and r: "a \<in> set (inorder r) \<Longrightarrow> kh \<le> kh_of x \<Longrightarrow> kh_of a \<noteq> kh" for a
      using o(3,4) [of a] by auto
    show ?case using Node.IH(1) [OF o(1)] Node.IH(2) [OF o(2)] l r
      by (cases kh "kh_of x" rule: linorder_cases) (auto simp: less_imp_le)
  qed simp
  then show "fuse_find_polled_node kh_of kh t = Some ff \<longleftrightarrow> ff \<in> set (inorder t) \<and> kh_of ff = kh" by blast
  show "fuse_find_polled_node kh_of kh t = None \<longleftrightarrow> (\<forall>ff \<in> set (inorder t). kh_of ff \<noteq> kh)"
    using both by (cases "fuse_find_polled_node kh_of kh t") auto
qed

lemma link_polled_spec:
  assumes "sorted_wrt (\<lambda>a b. kh_of a < kh_of b) (inorder t)" and "\<forall>x \<in> set (inorder t). kh_of x \<noteq> kh_of new"
  shows "set (inorder (link_polled kh_of new t)) = insert new (set (inorder t)) \<and>
    sorted_wrt (\<lambda>a b. kh_of a < kh_of b) (inorder (link_polled kh_of new t))"
  using assms
proof (induction t)
  case (Node l x r)
  then show ?case by (auto simp: sorted_wrt_append not_less le_less)
qed simp

lemma register_polled:
  assumes ok: "polled_ok st" and kh: "kh_apart (nt_conn st)" and ff: "ffs (nt_conn st) ff = Some f"
    and bal: "\<And>t. inorder (balance t) = inorder t"
  shows "\<exists>st'. fuse_register_polled_file balance ff st = Some st' \<and> polled_ok st' \<and> kh_apart (nt_conn st') \<and>
    ffs (nt_conn st') = (ffs (nt_conn st))(ff \<mapsto> f\<lparr>ff_polled := True\<rparr>)"
proof (cases "ff_polled f")
  case True
  then show ?thesis using ok kh ff by (auto simp: fuse_register_polled_file_def fun_eq_iff)
next
  case False
  let ?kh = "kh_in (nt_conn st)" and ?f = "f\<lparr>ff_polled := True\<rparr>"
  have absent: "\<forall>x \<in> set (inorder (nt_polled st)). ?kh x \<noteq> ?kh ff"
    using ok kh ff False by (fastforce simp: polled_ok_def kh_apart_def kh_in_def)
  then have none: "fuse_find_polled_node ?kh (ff_kh f) (nt_polled st) = None"
    using find_polled(2) ok ff by (simp add: polled_ok_def kh_in_def)
  let ?st = "upd_nt_conn (\<lambda>s. s\<lparr>ffs := (ffs s)(ff \<mapsto> ?f)\<rparr>) (st\<lparr>nt_polled := balance (link_polled ?kh ff (nt_polled st))\<rparr>)"
  have run: "fuse_register_polled_file balance ff st = Some ?st"
    using ff False none by (simp add: fuse_register_polled_file_def)
  have ffs': "ffs (nt_conn ?st) = (ffs (nt_conn st))(ff \<mapsto> ?f)" by (simp add: upd_nt_conn_def upd_conn_def)
  have same: "kh_in (nt_conn ?st) = ?kh" using ff by (simp add: kh_in_def ffs' fun_eq_iff)
  have tree: "inorder (nt_polled ?st) = inorder (link_polled ?kh ff (nt_polled st))" by (simp add: upd_nt_conn_def bal)
  from link_polled_spec [OF _ absent] ok have link: "set (inorder (nt_polled ?st)) = insert ff (set (inorder (nt_polled st)))"
      "sorted_wrt (\<lambda>a b. ?kh a < ?kh b) (inorder (nt_polled ?st))"
    unfolding tree by (auto simp: polled_ok_def)
  have "polled_ok ?st"
    unfolding polled_ok_def same ffs' using link ok by (auto simp: polled_ok_def)
  moreover have "kh_apart (nt_conn ?st)" using kh ff unfolding kh_apart_def ffs' by (auto split: if_split_asm)
  ultimately show ?thesis using run ffs' by blast
qed

lemma poll_message:
  assumes code: "ne_code ne code = Some FUSE_NOTIFY_POLL"
    and cs: "cs_ready cs" "cs_req cs = None" "\<not> cs_write cs"
    and n: "n = wire_size (nt_conn st) W_notify_poll_wakeup_out" "n \<le> length (cs_stream cs)"
  shows "\<exists>cs'. fuse_notify ne code n cs st = Some (0, cs', fuse_notify_poll_wakeup (ne_poll ne (take n (cs_stream cs))) st)"
proof -
  let ?cs = "cs\<lparr>cs_move_pages := False\<rparr>"
  have r: "reading ?cs" using cs by (simp add: reading_def cs_ready_def)
  have str: "cs_stream ?cs = cs_stream cs" by (simp add: cs_stream_def)
  have "n \<le> length (cs_stream ?cs)" using n str by simp
  from read_struct_ready [OF r this] obtain cs1 where "read_struct n ?cs = Some (0, take n (cs_stream cs), cs1)" unfolding str by auto
  then show ?thesis using code unfolding fuse_notify_def fuse_notify_poll_def n(1) [symmetric] by (simp add: Let_def)
qed

lemma wakeup_spec:
  assumes ok: "polled_ok st" and kh: "kh_apart (nt_conn st)"
  shows "ffs (nt_conn st) g = Some h \<Longrightarrow> ff_polled h \<Longrightarrow> ff_kh h = k \<Longrightarrow>
      fuse_notify_poll_wakeup k st = st\<lparr>nt_poll_wakes := g # nt_poll_wakes st\<rparr>"
    and "(\<And>g h. ffs (nt_conn st) g = Some h \<Longrightarrow> ff_polled h \<Longrightarrow> ff_kh h \<noteq> k) \<Longrightarrow> fuse_notify_poll_wakeup k st = st"
proof -
  note find = find_polled [OF conjunct1 [OF ok [unfolded polled_ok_def]]]
  show "fuse_notify_poll_wakeup k st = st\<lparr>nt_poll_wakes := g # nt_poll_wakes st\<rparr>"
    if "ffs (nt_conn st) g = Some h" "ff_polled h" "ff_kh h = k"
  proof -
    have "fuse_find_polled_node (kh_in (nt_conn st)) k (nt_polled st) = Some g"
      using that ok by (auto simp: find(1) polled_ok_def kh_in_def)
    then show ?thesis by (simp add: fuse_notify_poll_wakeup_def)
  qed
  show "fuse_notify_poll_wakeup k st = st"
    if "\<And>g h. ffs (nt_conn st) g = Some h \<Longrightarrow> ff_polled h \<Longrightarrow> ff_kh h \<noteq> k"
  proof -
    have "fuse_find_polled_node (kh_in (nt_conn st)) k (nt_polled st) = None"
      using that ok unfolding find(2) by (fastforce simp: polled_ok_def kh_in_def)
    then show ?thesis by (simp add: fuse_notify_poll_wakeup_def)
  qed
qed

text \<open>
  C13: Polling a file puts it on the tree of polled files unless it is there, which does not fail; from then on a NOTIFY_POLL of the
  server with a kernel handle wakes those who wait for the polled file with this handle, and nobody when no polled file has it.
\<close>

theorem poll_notification_wakes:
  assumes tree: "polled_ok st" "kh_apart (nt_conn st)" "\<And>t. inorder (balance t) = inorder t" and ff: "ffs (nt_conn st) ff = Some f"
    and code: "ne_code ne code = Some FUSE_NOTIFY_POLL"
    and cs: "cs_ready cs" "cs_req cs = None" "\<not> cs_write cs"
    and n: "n = wire_size (nt_conn st) W_notify_poll_wakeup_out" "n \<le> length (cs_stream cs)"
    and kh: "kh = ne_poll ne (take n (cs_stream cs))"
  shows "\<exists>st1 cs' st2. fuse_register_polled_file balance ff st = Some st1 \<and> polled_ok st1 \<and> kh_apart (nt_conn st1) \<and>
    ffs (nt_conn st1) = (ffs (nt_conn st))(ff \<mapsto> f\<lparr>ff_polled := True\<rparr>) \<and> fuse_notify ne code n cs st1 = Some (0, cs', st2) \<and>
    (\<forall>g h. ffs (nt_conn st1) g = Some h \<and> ff_polled h \<and> ff_kh h = kh \<longrightarrow> st2 = st1\<lparr>nt_poll_wakes := g # nt_poll_wakes st1\<rparr>) \<and>
    ((\<forall>g h. ffs (nt_conn st1) g = Some h \<and> ff_polled h \<longrightarrow> ff_kh h \<noteq> kh) \<longrightarrow> st2 = st1)"
proof -
  from register_polled [where balance = balance, OF tree(1,2) ff tree(3)] obtain st1 where
      st1: "fuse_register_polled_file balance ff st = Some st1" "polled_ok st1" "kh_apart (nt_conn st1)"
        "ffs (nt_conn st1) = (ffs (nt_conn st))(ff \<mapsto> f\<lparr>ff_polled := True\<rparr>)" by blast
  have "wire_size (nt_conn st1) = wire_size (nt_conn st)"
    using st1(1) by (auto simp: fuse_register_polled_file_def upd_nt_conn_def upd_conn_def elim!: bind_Some_E split: if_split_asm)
  with poll_message [OF code cs, of n st1] n obtain cs' where
      m: "fuse_notify ne code n cs st1 = Some (0, cs', fuse_notify_poll_wakeup kh st1)" by (auto simp: kh)
  show ?thesis
    by (rule exI [of _ st1], rule exI [of _ cs'], rule exI [of _ "fuse_notify_poll_wakeup kh st1"])
      (use st1 m wakeup_spec [OF st1(2,3)] in blast)
qed

text \<open>
  C11: A store writes the bytes of its message, and no others, to their place in the page cache, makes the file at
  least as long as their end and returns 0, unless the memory for a page is missing: then the bytes before that page have
  been written and the result is \<open>-ENOMEM\<close>. The pages are in the cache, marked up to date when they were covered.
\<close>

theorem store_writes_message:
  assumes code: "ne_code ne code = Some FUSE_NOTIFY_STORE"
    and cs: "cs_ready cs" "cs_req cs = None" "\<not> cs_write cs"
    and n: "n = wire_size (nt_conn st) W_notify_store_out" and o': "o' = ne_store ne (take n (cs_stream cs))"
    and sz: "sz = n + unat (so_size o')" "sz \<le> length (cs_stream cs)"
    and sb: "has_sb st" "ihash (nsb (nt_ns st)) (so_nodeid o') = Some i" "inodes (nsb (nt_ns st)) i = Some v" "0 < i_count v"
    and pages: "pages_apart (cache_page ne i st)" "\<And>pg. length (page.pg_data (cs_mem cs pg)) = PAGE_SIZE"
    and e: "e = (i_size v \<le>s so_offset o' + ucast (so_size o'))"
  shows "\<exists>err cs' st' m w. fuse_notify ne code sz cs st = Some (err, cs', st') \<and>
    (err = 0 \<and> m = unat (so_size o') \<or>
     err = - ENOMEM \<and> m < unat (so_size o') \<and> cache_page ne i st i ((unat (so_offset o') + m) div PAGE_SIZE) = None) \<and>
    store_effect ne i e (unat (so_offset o')) (take m (drop n (take sz (cs_stream cs)))) st (cs_mem cs) st' (cs_mem cs') \<and>
    inodes (nsb (nt_ns st')) = (inodes (nsb (nt_ns st)))(i \<mapsto> w) \<and> i_count w = i_count v \<and>
    i_size w = (if e then so_offset o' + ucast (so_size o') else i_size v)"
  using assms by (rule notify_store_run)

text \<open>
  C39: A store of less than a page at a page boundary, into a page that is not cached and up to the end of the file or beyond,
  marks the page up to date although the bytes behind the data are those its memory had before.
\<close>

theorem store_exposes_stale_bytes:
  assumes code: "ne_code ne code = Some FUSE_NOTIFY_STORE"
    and cs: "cs_ready cs" "cs_req cs = None" "\<not> cs_write cs"
    and n: "n = wire_size (nt_conn st) W_notify_store_out" and o': "o' = ne_store ne (take n (cs_stream cs))"
    and sz: "sz = n + unat (so_size o')" "sz \<le> length (cs_stream cs)"
    and sb: "has_sb st" "ihash (nsb (nt_ns st)) (so_nodeid o') = Some i" "inodes (nsb (nt_ns st)) i = Some v" "0 < i_count v"
    and pages: "pages_apart (cache_page ne i st)" "\<And>pg. length (page.pg_data (cs_mem cs pg)) = PAGE_SIZE"
    and tail: "unat (so_offset o') = k * PAGE_SIZE" "0 < so_size o'" "unat (so_size o') < PAGE_SIZE"
      "i_size v \<le>s so_offset o' + ucast (so_size o')"
    and fresh: "nt_cache st i k = None" "ne_new ne k = Some pg"
  shows "\<exists>cs' st'. fuse_notify ne code sz cs st = Some (0, cs', st') \<and> nt_cache st' i k = Some pg \<and>
    PG_uptodate \<in> pg_flags (cs_mem cs' pg) \<and>
    (\<forall>p. unat (so_size o') \<le> p \<and> p < PAGE_SIZE \<longrightarrow> page.pg_data (cs_mem cs' pg) ! p = page.pg_data (cs_mem cs pg) ! p)"
proof -
  let ?len = "unat (so_size o')" and ?C = "cache_page ne i st"
  have at: "?C i k = Some pg" using fresh by (simp add: cache_page_def)
  from notify_store_run [OF code cs n o' sz sb pages refl] obtain err cs' st' m where
      run: "fuse_notify ne code sz cs st = Some (err, cs', st')"
      and d: "err = 0 \<and> m = ?len \<or> err = - ENOMEM \<and> m < ?len \<and> ?C i ((unat (so_offset o') + m) div PAGE_SIZE) = None"
      and s: "store_effect ne i (i_size v \<le>s so_offset o' + ucast (so_size o')) (unat (so_offset o')) (take m (drop n (take sz (cs_stream cs))))
        st (cs_mem cs) st' (cs_mem cs')" by blast
  have "(k * PAGE_SIZE + m) div PAGE_SIZE = k" if "m < ?len" using that tail(3) by simp
  then have ok: "err = 0" "m = ?len" using d at tail(1) by auto
  let ?bs = "take m (drop n (take sz (cs_stream cs)))"
  have len: "length ?bs = ?len" using sz ok by simp
  have pos: "0 < ?len" using tail(2) by (simp add: unat_gt_0 word_gt_0_no)
  have t: "touched (k * PAGE_SIZE) ?len k" "page_covered (k * PAGE_SIZE) ?len True k" using pos by (simp_all add: touched_def page_covered_def)
  note eff = s [unfolded store_effect_def len tail(1)]
  have "nt_cache st' i k = Some pg" using eff t(1) at by simp
  moreover have "PG_uptodate \<in> pg_flags (cs_mem cs' pg)" using eff t at tail(4) by simp
  moreover have "page.pg_data (cs_mem cs' pg) ! p = page.pg_data (cs_mem cs pg) ! p" if "?len \<le> p" "p < PAGE_SIZE" for p
  proof -
    have "file_byte ?C (cs_mem cs') i (k * PAGE_SIZE + p) = file_byte ?C (cs_mem cs) i (k * PAGE_SIZE + p)"
      using eff that(1) by simp
    then show ?thesis using that(2) at by (simp add: file_byte_def)
  qed
  ultimately show ?thesis using run ok(1) by blast
qed

subsection \<open>Examples\<close>

text \<open>
  Page 0 of the inode 0 (node 7, 100 bytes long) is in the cache, as the page 5; the allocator gives the page \<open>10 + ix\<close> for the
  index \<open>ix\<close>. The file 200 is open.
\<close>

definition example_note_page :: page where
  "example_note_page = \<lparr>page.pg_data = replicate PAGE_SIZE 0xaa, pg_mapcount = 0, pg_mapping = False, pg_count = 1, pg_flags = {}\<rparr>"

definition example_note_env :: "u64 \<Rightarrow> u64 \<Rightarrow> u32 \<Rightarrow> (fuse_state \<Rightarrow> fuse_state) \<Rightarrow> notify_env" where
  "example_note_env n off len others = \<lparr>ne_code = (\<lambda>c. if c = 1 then Some FUSE_NOTIFY_POLL else if c = 4 then Some FUSE_NOTIFY_STORE
       else if c = 5 then Some FUSE_NOTIFY_RETRIEVE else None),
     ne_poll = (\<lambda>b. n), ne_inval = (\<lambda>b. (n, off, 0)),
     ne_entry = (\<lambda>b. \<lparr>en_parent = n, en_child = 0, en_namelen = 1\<rparr>), ne_delete = (\<lambda>b. \<lparr>en_parent = n, en_child = 0, en_namelen = 1\<rparr>),
     ne_store = (\<lambda>b. \<lparr>so_nodeid = n, so_offset = off, so_size = len\<rparr>),
     ne_retrieve = (\<lambda>b. \<lparr>ro_unique = 9, ro_nodeid = n, ro_offset = off, ro_size = len\<rparr>), ne_enc_retrieve = (\<lambda>o' n. []),
     ne_dc = \<lparr>dc_alias = (\<lambda>_. None), dc_lookup = (\<lambda>_ _. None), dc_mountpoint = (\<lambda>_. False), dc_empty = (\<lambda>_. True), dc_unused = (\<lambda>_. True)\<rparr>,
     ne_task = \<lparr>t_fsuid = 0, t_fsgid = 0, t_pid = 1\<rparr>, ne_killed = False, ne_ok = (\<lambda>_. True), ne_new = (\<lambda>ix. Some (10 + ix)),
     ne_others = others\<rparr>"

definition example_note_state :: notify_state where
  "example_note_state = upd_nt_conn (\<lambda>s. s\<lparr>sb_time_gran := Some 1, ffs := [200 \<mapsto> example_ff]\<rparr>)
     \<lparr>nt_ns = example_ns, nt_cache = (\<lambda>i ix. if i = 0 \<and> ix = 0 then Some 5 else None), nt_polled = Leaf, nt_poll_wakes = []\<rparr>"

definition example_message :: "u8 list \<Rightarrow> fuse_copy_state" where
  "example_message bs = fuse_copy_init False [Inr bs] (\<lambda>_. example_note_page) []"

lemmas example_note_defs = example_note_page_def example_note_env_def example_note_state_def example_message_def example_ns_def
  example_wb_of_def upd_nt_conn_def upd_conn_def nsb_update_def has_sb_def fuse_copy_init_def cs_stream_def

lemma example_message_fits [simp]:
  "bs \<noteq> [] \<Longrightarrow> cs_ready (example_message bs)" "cs_req (example_message bs) = None" "\<not> cs_write (example_message bs)"
  "cs_stream (example_message bs) = bs" "cs_mem (example_message bs) pg = example_note_page"
  "length (page.pg_data example_note_page) = PAGE_SIZE" "pg_flags example_note_page = {}"
  "p < PAGE_SIZE \<Longrightarrow> page.pg_data example_note_page ! p = 0xaa"
  by (simp_all add: example_note_defs cs_ready_def)

lemma example_note_conn [simp]:
  "wire_size (nt_conn example_note_state) = example_wire" "has_sb example_note_state"
  "ihash (nsb (nt_ns example_note_state)) = [7 \<mapsto> 0, 8 \<mapsto> 1]"
  "inodes (nsb (nt_ns example_note_state)) = [0 \<mapsto> example_inode 7, 1 \<mapsto> example_inode 8]"
  "ffs (nt_conn example_note_state) = [200 \<mapsto> example_ff]" "next_id (nt_conn example_note_state) = 101"
  "nt_cache example_note_state i ix = (if i = 0 \<and> ix = 0 then Some 5 else None)" "nt_polled example_note_state = Leaf"
  by (simp_all add: example_note_defs example_sb_defs)

lemma example_note_fields [simp]:
  "ne_code (example_note_env n off len f) 1 = Some FUSE_NOTIFY_POLL"
  "ne_code (example_note_env n off len f) 4 = Some FUSE_NOTIFY_STORE"
  "ne_code (example_note_env n off len f) 5 = Some FUSE_NOTIFY_RETRIEVE"
  "ne_store (example_note_env n off len f) b = \<lparr>so_nodeid = n, so_offset = off, so_size = len\<rparr>"
  "ne_retrieve (example_note_env n off len f) b = \<lparr>ro_unique = 9, ro_nodeid = n, ro_offset = off, ro_size = len\<rparr>"
  "ne_poll (example_note_env n off len f) b = n"
  "ne_new (example_note_env n off len f) ix = Some (10 + ix)" "ne_others (example_note_env n off len f) = f"
  by (simp_all add: example_note_env_def)

lemma example_note_inode [simp]: "i_size (example_inode n) = 100" "i_count (example_inode n) = 1"
  by (simp_all add: example_inode_def new_inode_def)

lemma example_note_page_at: "cache_page (example_note_env n off len f) i example_note_state j ix =
    (if j = 0 \<and> ix = 0 then Some 5 else if j = i then Some (10 + ix) else None)"
  by (simp add: cache_page_def)

lemma example_note_pages_apart: "pages_apart (cache_page (example_note_env n off len f) i example_note_state)"
  by (auto simp: pages_apart_def example_note_page_at split: if_split_asm)

lemma store_writes_message_witness:
  "\<exists>cs' st'. fuse_notify (example_note_env 7 98 3 id) 4 27 (example_message (replicate 24 0 @ [1, 2, 3])) example_note_state = Some (0, cs', st') \<and>
     page.pg_data (cs_mem cs' 5) ! 98 = 1 \<and> page.pg_data (cs_mem cs' 5) ! 100 = 3 \<and> page.pg_data (cs_mem cs' 5) ! 101 = 0xaa"
proof -
  let ?ne = "example_note_env 7 98 3 id" and ?cs = "example_message (replicate 24 0 @ [1, 2, 3])"
    and ?o = "\<lparr>so_nodeid = 7, so_offset = 98, so_size = 3\<rparr> :: store_out"
  have h: "ne_code ?ne 4 = Some FUSE_NOTIFY_STORE" "cs_ready ?cs" "cs_req ?cs = None" "\<not> cs_write ?cs"
      "24 = wire_size (nt_conn example_note_state) W_notify_store_out" "?o = ne_store ?ne (take 24 (cs_stream ?cs))"
      "27 = 24 + unat (so_size ?o)" "27 \<le> length (cs_stream ?cs)" "has_sb example_note_state"
      "ihash (nsb (nt_ns example_note_state)) (so_nodeid ?o) = Some 0"
      "inodes (nsb (nt_ns example_note_state)) 0 = Some (example_inode 7)" "0 < i_count (example_inode 7)"
    by (simp_all add: example_wire_def)
  have h2: "length (page.pg_data (cs_mem ?cs pg)) = PAGE_SIZE" for pg by simp
  obtain err cs' st' m where run: "fuse_notify ?ne 4 27 ?cs example_note_state = Some (err, cs', st')"
      and d: "err = 0 \<and> m = unat (so_size ?o) \<or> err = - ENOMEM \<and> m < unat (so_size ?o) \<and>
        cache_page ?ne 0 example_note_state 0 ((unat (so_offset ?o) + m) div PAGE_SIZE) = None"
      and e: "store_effect ?ne 0 (i_size (example_inode 7) \<le>s so_offset ?o + ucast (so_size ?o)) (unat (so_offset ?o))
        (take m (drop 24 (take 27 (cs_stream ?cs)))) example_note_state (cs_mem ?cs) st' (cs_mem cs')"
    using store_writes_message [OF h example_note_pages_apart h2 refl] by (elim exE conjE) (rule that)
  have m: "err = 0" "m = 3" using d by (auto simp: example_note_page_at PAGE_SIZE_def ENOMEM_def)
  have "file_byte (cache_page ?ne 0 example_note_state) (cs_mem cs') 0 p = (if 98 \<le> p \<and> p < 101 then Some ([1, 2, 3] ! (p - 98)) else
      file_byte (cache_page ?ne 0 example_note_state) (cs_mem ?cs) 0 p)" for p
    using e by (simp add: store_effect_def m)
  from this [of 98] this [of 100] this [of 101]
  have "page.pg_data (cs_mem cs' 5) ! 98 = 1" "page.pg_data (cs_mem cs' 5) ! 100 = 3" "page.pg_data (cs_mem cs' 5) ! 101 = 0xaa"
    by (simp_all add: file_byte_def example_note_page_at PAGE_SIZE_def)
  then show ?thesis using run m by blast
qed

lemma store_exposes_stale_bytes_witness:
  "\<exists>cs' st'. fuse_notify (example_note_env 8 4096 3 id) 4 27 (example_message (replicate 24 0 @ [1, 2, 3])) example_note_state = Some (0, cs', st') \<and>
     nt_cache st' 1 1 = Some 11 \<and> PG_uptodate \<in> pg_flags (cs_mem cs' 11) \<and> page.pg_data (cs_mem cs' 11) ! 3 = 0xaa"
proof -
  let ?ne = "example_note_env 8 4096 3 id" and ?cs = "example_message (replicate 24 0 @ [1, 2, 3])"
    and ?o = "\<lparr>so_nodeid = 8, so_offset = 4096, so_size = 3\<rparr> :: store_out"
  have h: "ne_code ?ne 4 = Some FUSE_NOTIFY_STORE" "cs_ready ?cs" "cs_req ?cs = None" "\<not> cs_write ?cs"
      "24 = wire_size (nt_conn example_note_state) W_notify_store_out" "?o = ne_store ?ne (take 24 (cs_stream ?cs))"
      "27 = 24 + unat (so_size ?o)" "27 \<le> length (cs_stream ?cs)" "has_sb example_note_state"
      "ihash (nsb (nt_ns example_note_state)) (so_nodeid ?o) = Some 1"
      "inodes (nsb (nt_ns example_note_state)) 1 = Some (example_inode 8)" "0 < i_count (example_inode 8)"
    by (simp_all add: example_wire_def)
  have h2: "length (page.pg_data (cs_mem ?cs pg)) = PAGE_SIZE" for pg by simp
  have h3: "unat (so_offset ?o) = 1 * PAGE_SIZE" "0 < so_size ?o" "unat (so_size ?o) < PAGE_SIZE"
      "i_size (example_inode 8) \<le>s so_offset ?o + ucast (so_size ?o)" "nt_cache example_note_state 1 1 = None" "ne_new ?ne 1 = Some 11"
    by (simp_all add: PAGE_SIZE_def word_sle_eq)
  obtain cs' st' where run: "fuse_notify ?ne 4 27 ?cs example_note_state = Some (0, cs', st')" "nt_cache st' 1 1 = Some 11"
      "PG_uptodate \<in> pg_flags (cs_mem cs' 11)"
      and b: "\<And>p. unat (so_size ?o) \<le> p \<Longrightarrow> p < PAGE_SIZE \<Longrightarrow> page.pg_data (cs_mem cs' 11) ! p = page.pg_data (cs_mem ?cs 11) ! p"
    using store_exposes_stale_bytes [OF h example_note_pages_apart h2 h3] by blast
  have "page.pg_data (cs_mem cs' 11) ! 3 = 0xaa" using b [of 3] by (simp add: PAGE_SIZE_def)
  then show ?thesis using run by blast
qed

lemma example_takes_requests: "takes_requests (example_note_env n off len (\<lambda>s. s\<lparr>iq := f (iq s), connected := c\<rparr>)) (nt_conn example_note_state)"
  by (simp add: takes_requests_def example_note_defs example_sb_defs)

lemma retrieve_sends_cached_witness:
  "\<exists>cs' st' r q. fuse_notify (example_note_env 7 10 20 (\<lambda>s. s\<lparr>iq := (iq s)\<lparr>iq_connected := True\<rparr>, connected := True\<rparr>)) 5 32
       (example_message (replicate 32 0)) example_note_state = Some (0, cs', st') \<and>
     pending (iq (nt_conn st')) \<noteq> [] \<and> last (pending (iq (nt_conn st'))) = r \<and> reqs (nt_conn st') r = Some q \<and>
     rq_misc q = Misc_retrieve 10 20 \<and> ih_unique (in_h (rq_in q)) = 9"
proof -
  let ?ne = "example_note_env 7 10 20 (\<lambda>s. s\<lparr>iq := (iq s)\<lparr>iq_connected := True\<rparr>, connected := True\<rparr>)"
    and ?cs = "example_message (replicate 32 0)"
    and ?o = "\<lparr>ro_unique = 9, ro_nodeid = 7, ro_offset = 10, ro_size = 20\<rparr> :: retrieve_out"
  have h: "ne_code ?ne 5 = Some FUSE_NOTIFY_RETRIEVE" "cs_ready ?cs" "cs_req ?cs = None" "\<not> cs_write ?cs"
      "32 = wire_size (nt_conn example_note_state) W_notify_retrieve_out" "32 \<le> length (cs_stream ?cs)"
      "?o = ne_retrieve ?ne (take 32 (cs_stream ?cs))" "has_sb example_note_state"
      "ihash (nsb (nt_ns example_note_state)) (ro_nodeid ?o) = Some 0"
      "inodes (nsb (nt_ns example_note_state)) 0 = Some (example_inode 7)" "0 < i_count (example_inode 7)"
    by (simp_all add: example_wire_def)
  have h2: "takes_requests ?ne (nt_conn example_note_state)" by (rule example_takes_requests)
  have h3: "iq_connected (iq (ne_others ?ne t))" for t by simp
  have h4: "length (page.pg_data (cs_mem ?cs pg)) = PAGE_SIZE" for pg by simp
  have num: "unat (retrieve_num ?o (i_size (example_inode 7))) = 20" by (simp add: retrieve_num_def)
  have cached: "nt_cache example_note_state 0 ((unat (ro_offset ?o) + k) div PAGE_SIZE) \<noteq> None" if "k \<le> 20" for k
    using that by (simp add: PAGE_SIZE_def)
  obtain cs' st' r q and d :: "u8 list" where run: "fuse_notify ?ne 5 32 ?cs example_note_state = Some (0, cs', st')"
      "pending (iq (nt_conn st')) \<noteq> []" "last (pending (iq (nt_conn st'))) = r" "reqs (nt_conn st') r = Some q"
      and q: "rq_misc q = Misc_retrieve (ro_offset ?o) (length d)" "ih_unique (in_h (rq_in q)) = ro_unique ?o"
      and d: "length d \<le> unat (retrieve_num ?o (i_size (example_inode 7)))"
        "length d = unat (retrieve_num ?o (i_size (example_inode 7))) \<or>
         nt_cache example_note_state 0 ((unat (ro_offset ?o) + length d) div PAGE_SIZE) = None \<or>
         FUSE_MAX_PAGES_PER_REQ * PAGE_SIZE \<le> unat (ro_offset ?o) mod PAGE_SIZE + length d \<or>
         2 ^ 32 \<le> unat (retrieve_num ?o (i_size (example_inode 7))) + unat (ro_offset ?o) mod PAGE_SIZE"
    using retrieve_sends_cached [OF h h2 h3 h4] by (elim exE conjE) (rule that; assumption)
  have "length d \<le> 20" using d(1) num by simp
  then have "length d = 20" using d(2) num cached [of "length d"] by (auto simp: PAGE_SIZE_def FUSE_MAX_PAGES_PER_REQ_def)
  then show ?thesis using run q by auto
qed

lemma retrieve_leaks_request_witness:
  "\<exists>cs' st' q. fuse_notify (example_note_env 7 10 20 (\<lambda>s. s\<lparr>iq := (iq s)\<lparr>iq_connected := False\<rparr>, connected := False\<rparr>)) 5 32
       (example_message (replicate 32 0)) example_note_state = Some (- ENODEV, cs', st') \<and>
     reqs (nt_conn st') 101 = Some q \<and> rq_count q = 1 \<and> num_waiting (nt_conn st') = 1"
proof -
  let ?f = "\<lambda>s :: fuse_state. s\<lparr>iq := (iq s)\<lparr>iq_connected := False\<rparr>, connected := False\<rparr>"
  let ?ne = "example_note_env 7 10 20 ?f" and ?cs = "example_message (replicate 32 0)"
    and ?o = "\<lparr>ro_unique = 9, ro_nodeid = 7, ro_offset = 10, ro_size = 20\<rparr> :: retrieve_out"
  have h: "ne_code ?ne 5 = Some FUSE_NOTIFY_RETRIEVE" "cs_ready ?cs" "cs_req ?cs = None" "\<not> cs_write ?cs"
      "32 = wire_size (nt_conn example_note_state) W_notify_retrieve_out" "32 \<le> length (cs_stream ?cs)"
      "?o = ne_retrieve ?ne (take 32 (cs_stream ?cs))" "has_sb example_note_state"
      "ihash (nsb (nt_ns example_note_state)) (ro_nodeid ?o) = Some 0"
      "inodes (nsb (nt_ns example_note_state)) 0 = Some (example_inode 7)" "0 < i_count (example_inode 7)"
    by (simp_all add: example_wire_def)
  have h2: "takes_requests ?ne (nt_conn example_note_state)" by (rule example_takes_requests)
  have h3: "\<not> iq_connected (iq (ne_others ?ne t))" for t by simp
  obtain cs' st' s1 s2 q where run: "fuse_notify ?ne 5 32 ?cs example_note_state = Some (- ENODEV, cs', st')"
      and s: "num_waiting s1 = num_waiting (nt_conn example_note_state) + 1" "s2 = ne_others ?ne s1"
      and st': "nt_conn st' = s2\<lparr>reqs := (reqs s2)(next_id (nt_conn example_note_state) \<mapsto> q)\<rparr>" "rq_count q = 1"
    using retrieve_leaks_request [OF h h2 h3] by (elim exE conjE) (rule that; assumption)
  have "num_waiting (nt_conn example_note_state) = 0" by (simp add: example_note_defs example_sb_defs)
  then have "reqs (nt_conn st') 101 = Some q" "num_waiting (nt_conn st') = 1" unfolding st'(1) s(2) using s(1) by simp_all
  then show ?thesis using run st'(2) by blast
qed

lemma poll_notification_wakes_witness:
  "\<exists>st1 cs'. fuse_register_polled_file id 200 example_note_state = Some st1 \<and>
     fuse_notify (example_note_env 1 0 0 id) 1 8 (example_message (replicate 8 0)) st1 = Some (0, cs', st1\<lparr>nt_poll_wakes := [200]\<rparr>)"
proof -
  let ?ne = "example_note_env 1 0 0 id" and ?cs = "example_message (replicate 8 0)"
  have h: "polled_ok example_note_state" "kh_apart (nt_conn example_note_state)"
    by (auto simp: polled_ok_def kh_apart_def example_ff_def split: if_split_asm)
  have h2: "ffs (nt_conn example_note_state) 200 = Some example_ff" "ne_code ?ne 1 = Some FUSE_NOTIFY_POLL"
      "cs_ready ?cs" "cs_req ?cs = None" "\<not> cs_write ?cs"
      "8 = wire_size (nt_conn example_note_state) W_notify_poll_wakeup_out" "8 \<le> length (cs_stream ?cs)"
      "1 = ne_poll ?ne (take 8 (cs_stream ?cs))"
    by (simp_all add: example_wire_def)
  have h3: "inorder (id t) = inorder t" for t :: "ff_id tree" by simp
  from poll_notification_wakes [where balance = id, OF h h3 h2] obtain st1 cs' st2 where
      st1: "fuse_register_polled_file id 200 example_note_state = Some st1"
        "ffs (nt_conn st1) = (ffs (nt_conn example_note_state))(200 \<mapsto> example_ff\<lparr>ff_polled := True\<rparr>)"
      and run: "fuse_notify ?ne 1 8 ?cs st1 = Some (0, cs', st2)"
      and w: "\<forall>g h. ffs (nt_conn st1) g = Some h \<and> ff_polled h \<and> ff_kh h = 1 \<longrightarrow> st2 = st1\<lparr>nt_poll_wakes := g # nt_poll_wakes st1\<rparr>"
    by (elim exE conjE) (rule that; assumption)
  have "nt_poll_wakes st1 = []"
    using st1(1) by (auto simp: fuse_register_polled_file_def upd_nt_conn_def example_note_state_def elim!: bind_Some_E split: if_split_asm)
  then have "st2 = st1\<lparr>nt_poll_wakes := [200]\<rparr>" using w st1(2) by (simp add: example_ff_def)
  then show ?thesis using st1(1) run by blast
qed

end
