(* ===== verification/Fuse_Xattr.thy ===== *)
theory Fuse_Xattr
  imports Fuse_Attr
begin

text \<open>
  Extended attributes (\<open>xattr.c\<close>) and access control lists (\<open>acl.c\<close>).

  \<^item> A function that fills a buffer of its caller returns the bytes it filled in, after its return value.
  \<^item> \<open>xattr_ask\<close> is the exchange with the server: the reply is the size the server answers with when it is asked for a
    size, and otherwise the bytes of the value, whose number is the return value.
  \<^item> The conversion of an access control list from and to a value, and the names of the two attributes, belong to the
    kernel and are in \<open>acl_env\<close>: \<open>ae_to_xattr\<close> fills a buffer of \<open>ae_size\<close> bytes, or fails; \<open>ae_ok\<close> is the allocation of that buffer.
\<close>

definition XATTR_SIZE_MAX :: int where "XATTR_SIZE_MAX = 65536"
definition XATTR_LIST_MAX :: int where "XATTR_LIST_MAX = 65536"

type_synonym xattr_ask = "(u32 \<times> u8 list) dask"

record xattr_env =
  xe_dir :: dir_env
  xe_enc_set :: "u32 \<Rightarrow> u32 \<Rightarrow> u8 list"
  xe_enc_get :: "u32 \<Rightarrow> u8 list"

definition set_bit_of :: "fuse_conn_bit \<Rightarrow> fuse_ns \<Rightarrow> fuse_ns" where
  "set_bit_of b = nsb_update (upd_conn (\<lambda>s. s\<lparr>fc_bits := insert b (fc_bits s)\<rparr>))"

subsection \<open>Setting and removing\<close>

text \<open>The common end of \<open>fuse_setxattr\<close> and \<open>fuse_removexattr\<close>; \<open>b\<close> is the bit of the operation.\<close>

definition xattr_changed :: "dir_env \<Rightarrow> fuse_conn_bit \<Rightarrow> ino_id \<Rightarrow> int \<Rightarrow> fuse_ns \<Rightarrow> (int \<times> fuse_ns) option" where
  "xattr_changed env b i err ns =
     (if err = - ENOSYS then Some (- EOPNOTSUPP, set_bit_of b ns)
      else if err = 0 then map_option (Pair 0) (fuse_update_ctime env i (invalidate_attr i ns))
      else Some (err, ns))"

definition fuse_setxattr :: "xattr_env \<Rightarrow> unit dask \<Rightarrow> ino_id \<Rightarrow> u8 list \<Rightarrow> u8 list \<Rightarrow> u32 \<Rightarrow> fuse_ns \<Rightarrow> (int \<times> fuse_ns) option" where
  "fuse_setxattr xe ask i nm val flags ns =
     (if No_setxattr \<in> fc_bits (nconn ns) then Some (- EOPNOTSUPP, ns)
      else do {
        n \<leftarrow> node_of ns i;
        let ins = [\<lparr>arg_size = wire_size (nconn ns) W_setxattr_in, arg_value = xe_enc_set xe (of_nat (length val)) flags\<rparr>,
                   name_arg nm, \<lparr>arg_size = length val, arg_value = val\<rparr>];
        (err, _, ns1) \<leftarrow> ask (plain_args FUSE_SETXATTR n ins) ns;
        xattr_changed (xe_dir xe) No_setxattr i err ns1})"

definition fuse_removexattr :: "xattr_env \<Rightarrow> unit dask \<Rightarrow> ino_id \<Rightarrow> u8 list \<Rightarrow> fuse_ns \<Rightarrow> (int \<times> fuse_ns) option" where
  "fuse_removexattr xe ask i nm ns =
     (if No_removexattr \<in> fc_bits (nconn ns) then Some (- EOPNOTSUPP, ns)
      else do {
        n \<leftarrow> node_of ns i;
        (err, _, ns1) \<leftarrow> ask (plain_args FUSE_REMOVEXATTR n [name_arg nm]) ns;
        xattr_changed (xe_dir xe) No_removexattr i err ns1})"

subsection \<open>Getting and listing\<close>

text \<open>
  GETXATTR and LISTXATTR ask for the size of the value when the caller has no buffer, and for the value otherwise.
\<close>

definition xattr_args :: "xattr_env \<Rightarrow> fuse_state \<Rightarrow> fuse_opcode \<Rightarrow> u64 \<Rightarrow> fuse_arg list \<Rightarrow> nat \<Rightarrow> fuse_args" where
  "xattr_args xe s op n names sz = \<lparr>a_opcode = op, a_nodeid = n,
     a_in_args = \<lparr>arg_size = wire_size s W_getxattr_in, arg_value = xe_enc_get xe (of_nat sz)\<rparr> # names,
     a_out_argvar = (sz \<noteq> 0),
     a_out_args = [if sz \<noteq> 0 then \<lparr>arg_size = sz, arg_value = []\<rparr> else \<lparr>arg_size = wire_size s W_getxattr_out, arg_value = []\<rparr>]\<rparr>"

definition fuse_getxattr ::
    "xattr_env \<Rightarrow> xattr_ask \<Rightarrow> ino_id \<Rightarrow> u8 list \<Rightarrow> nat \<Rightarrow> fuse_ns \<Rightarrow> (int \<times> u8 list \<times> fuse_ns) option" where
  "fuse_getxattr xe ask i nm sz ns =
     (if No_getxattr \<in> fc_bits (nconn ns) then Some (- EOPNOTSUPP, [], ns)
      else do {
        n \<leftarrow> node_of ns i;
        (ret, (osize, val), ns1) \<leftarrow> ask (xattr_args xe (nconn ns) FUSE_GETXATTR n [name_arg nm] sz) ns;
        let ret1 = (if ret = 0 \<and> sz = 0 then min (uint osize) XATTR_SIZE_MAX else ret);
        Some (if ret1 = - ENOSYS then (- EOPNOTSUPP, val, set_bit_of No_getxattr ns1) else (ret1, val, ns1))})"

text \<open>\<open>strnlen\<close>, and the check that a list is a sequence of names with their zero bytes.\<close>

definition strnlen :: "u8 list \<Rightarrow> nat" where
  "strnlen bs = length (takeWhile (\<lambda>b. b \<noteq> 0) bs)"

function verify_xattr_names :: "u8 list \<Rightarrow> bool" where
  "verify_xattr_names bs =
     (if bs = [] then True
      else if strnlen bs = 0 \<or> strnlen bs = length bs then False
      else verify_xattr_names (drop (strnlen bs + 1) bs))"
  by pat_completeness auto
termination by (relation "measure length") auto

declare verify_xattr_names.simps [simp del]

definition fuse_verify_xattr_list :: "u8 list \<Rightarrow> int" where
  "fuse_verify_xattr_list bs = (if verify_xattr_names bs then int (length bs) else - EIO)"

definition fuse_listxattr ::
    "cred \<Rightarrow> xattr_env \<Rightarrow> xattr_ask \<Rightarrow> de_id \<Rightarrow> nat \<Rightarrow> fuse_ns \<Rightarrow> (int \<times> u8 list \<times> fuse_ns) option" where
  "fuse_listxattr c xe ask d sz ns = do {
     i \<leftarrow> dentry_inode ns d;
     n \<leftarrow> node_of ns i;
     if \<not> fuse_allow_current_process c (nconn ns) then Some (- EACCES, [], ns)
     else if No_listxattr \<in> fc_bits (nconn ns) then Some (- EOPNOTSUPP, [], ns)
     else do {
       (ret, (osize, val), ns1) \<leftarrow> ask (xattr_args xe (nconn ns) FUSE_LISTXATTR n [] sz) ns;
       let ret1 = (if ret = 0 \<and> sz = 0 then min (uint osize) XATTR_LIST_MAX else ret);
       let ret2 = (if 0 < ret1 \<and> sz \<noteq> 0 then fuse_verify_xattr_list (take (nat ret1) val) else ret1);
       Some (if ret2 = - ENOSYS then (- EOPNOTSUPP, val, set_bit_of No_listxattr ns1) else (ret2, val, ns1))}}"

definition fuse_xattr_set ::
    "xattr_env \<Rightarrow> unit dask \<Rightarrow> ino_id \<Rightarrow> u8 list \<Rightarrow> u8 list option \<Rightarrow> u32 \<Rightarrow> fuse_ns \<Rightarrow> (int \<times> fuse_ns) option" where
  "fuse_xattr_set xe ask i nm val flags ns =
     (case val of None \<Rightarrow> fuse_removexattr xe ask i nm ns | Some v \<Rightarrow> fuse_setxattr xe ask i nm v flags ns)"

definition fuse_xattr_get ::
    "xattr_env \<Rightarrow> xattr_ask \<Rightarrow> ino_id \<Rightarrow> u8 list \<Rightarrow> nat \<Rightarrow> fuse_ns \<Rightarrow> (int \<times> u8 list \<times> fuse_ns) option" where
  "fuse_xattr_get xe ask i nm sz ns = fuse_getxattr xe ask i nm sz ns"

subsection \<open>Access control lists\<close>

datatype acl_type = ACL_TYPE_ACCESS | ACL_TYPE_DEFAULT | ACL_TYPE_other

record 'a acl_env =
  ae_access_name :: "u8 list"
  ae_default_name :: "u8 list"
  ae_from_xattr :: "u8 list \<Rightarrow> int + 'a option"
  ae_size :: "'a \<Rightarrow> nat"
  ae_to_xattr :: "'a \<Rightarrow> int + u8 list"
  ae_ok :: bool

definition acl_name :: "'a acl_env \<Rightarrow> acl_type \<Rightarrow> u8 list option" where
  "acl_name ae t = (case t of ACL_TYPE_ACCESS \<Rightarrow> Some (ae_access_name ae) | ACL_TYPE_DEFAULT \<Rightarrow> Some (ae_default_name ae)
     | ACL_TYPE_other \<Rightarrow> None)"

text \<open>The value of GETXATTR as an access control list: an error, or no list.\<close>

definition acl_of :: "'a acl_env \<Rightarrow> int \<Rightarrow> u8 list \<Rightarrow> fuse_state \<Rightarrow> int + 'a option" where
  "acl_of ae sz val s =
     (if 0 < sz then ae_from_xattr ae (take (nat sz) val)
      else if sz = 0 \<or> sz = - ENODATA \<or> (sz = - EOPNOTSUPP \<and> No_getxattr \<in> fc_bits s) then Inr None
      else if sz = - ERANGE then Inl (- E2BIG)
      else Inl sz)"

definition fuse_get_acl ::
    "'a acl_env \<Rightarrow> xattr_env \<Rightarrow> xattr_ask \<Rightarrow> ino_id \<Rightarrow> acl_type \<Rightarrow> fuse_ns \<Rightarrow> ((int + 'a option) \<times> fuse_ns) option" where
  "fuse_get_acl ae xe ask i t ns =
     (if Posix_acl \<notin> fc_bits (nconn ns) \<or> No_getxattr \<in> fc_bits (nconn ns) then Some (Inr None, ns)
      else (case acl_name ae t of
          None \<Rightarrow> Some (Inl (- EOPNOTSUPP), ns)
        | Some nm \<Rightarrow>
            if \<not> ae_ok ae then Some (Inl (- ENOMEM), ns)
            else map_option (\<lambda>(sz, val, ns1). (acl_of ae sz val (nconn ns1), ns1)) (fuse_getxattr xe ask i nm PAGE_SIZE ns)))"

definition acl_cleared :: "ino_id \<Rightarrow> int \<times> fuse_ns \<Rightarrow> int \<times> fuse_ns" where
  "acl_cleared i = (\<lambda>(ret, ns). (ret, invalidate_attr i (nsb_update (vfs (Forget_acls i)) ns)))"

definition fuse_set_acl ::
    "'a acl_env \<Rightarrow> xattr_env \<Rightarrow> unit dask \<Rightarrow> ino_id \<Rightarrow> 'a option \<Rightarrow> acl_type \<Rightarrow> fuse_ns \<Rightarrow> (int \<times> fuse_ns) option" where
  "fuse_set_acl ae xe ask i acl t ns =
     (if Posix_acl \<notin> fc_bits (nconn ns) \<or> No_setxattr \<in> fc_bits (nconn ns) then Some (- EOPNOTSUPP, ns)
      else (case acl_name ae t of
          None \<Rightarrow> Some (- EINVAL, ns)
        | Some nm \<Rightarrow>
            (case acl of
               None \<Rightarrow> map_option (acl_cleared i) (fuse_removexattr xe ask i nm ns)
             | Some a \<Rightarrow>
                 if PAGE_SIZE < ae_size ae a then Some (- E2BIG, ns)
                 else if \<not> ae_ok ae then Some (- ENOMEM, ns)
                 else (case ae_to_xattr ae a of
                     Inl e \<Rightarrow> Some (e, ns)
                   | Inr val \<Rightarrow> map_option (acl_cleared i) (fuse_setxattr xe ask i nm val 0 ns)))))"

end
