(* ===== verification/Fuse_File_Ops.thy ===== *)
theory Fuse_File_Ops
  imports Fuse_Xattr
begin

text \<open>
  The operations of an open file beside reading and writing (\<open>file.c\<close>): flush, fsync, locks, block mapping, seeking and
  allocation of space.

  \<^item> What these functions call of the page cache and the VFS is in \<open>file_env\<close>: \<open>fe_sync\<close> writes the dirty pages of an
    inode and waits for them, \<open>fe_check\<close> and \<open>fe_meta\<close> are \<open>filemap_check_errors\<close> and \<open>sync_inode_metadata\<close>, \<open>fe_punch\<close> is
    \<open>truncate_pagecache_range\<close>. Each may run other threads.
  \<^item> \<open>fe_wait\<close> is the wait for the answer to a request, as in \<open>Fuse_Readdir\<close>. The inode lock is not part of the state.
\<close>

record file_env =
  fe_dir :: dir_env
  fe_enc :: enc_attr
  fe_ask_attr :: "fuse_attr_out dask"
  fe_fill :: "fuse_inode \<Rightarrow> kstat"
  fe_encw :: enc_write
  fe_waitw :: wait
  fe_waitq :: "ino_id \<Rightarrow> fuse_ns \<Rightarrow> fuse_ns option"
  fe_sync :: "ino_id \<Rightarrow> (u64 \<times> u64) option \<Rightarrow> fuse_ns \<Rightarrow> (int \<times> fuse_ns) option"
  fe_check :: "filp_id \<Rightarrow> fuse_ns \<Rightarrow> (int \<times> fuse_ns) option"
  fe_meta :: "ino_id \<Rightarrow> fuse_ns \<Rightarrow> (int \<times> fuse_ns) option"
  fe_punch :: "ino_id \<Rightarrow> u64 \<Rightarrow> u64 \<Rightarrow> fuse_ns \<Rightarrow> fuse_ns"
  fe_task :: task
  fe_ok :: oom
  fe_wait :: "req_id \<Rightarrow> wait_phase \<Rightarrow> fuse_ns \<Rightarrow> fuse_ns option"

datatype lk_type = F_RDLCK | F_WRLCK | F_UNLCK | F_other u32

record fuse_file_lock =
  lk_start :: u64
  lk_end :: u64
  lk_type :: lk_type
  lk_pid :: u32

record file_lock =
  fl_start :: u64
  fl_end :: u64
  fl_type :: lk_type
  fl_pid :: u32
  fl_owner :: u64
  fl_sleep :: bool
  fl_close :: bool
  fl_grant :: bool

record fuse_lk_in =
  lki_fh :: u64
  lki_owner :: u64
  lki_lk :: fuse_file_lock
  lki_flock :: bool

datatype falloc_flag = FALLOC_FL_KEEP_SIZE | FALLOC_FL_PUNCH_HOLE | FALLOC_FL_other

datatype seek = SEEK_SET | SEEK_CUR | SEEK_END | SEEK_HOLE | SEEK_DATA | SEEK_other

text \<open>The structures of the requests.\<close>

datatype file_msg =
    Flush_in u64 u64
  | Fsync_in u64 bool
  | Lk_in fuse_lk_in
  | Bmap_in u64 u32
  | Lseek_in u64 u64 seek
  | Fallocate_in u64 u64 u64 "falloc_flag set"

type_synonym enc_file = "file_msg \<Rightarrow> u8 list"

definition file_arg :: "enc_file \<Rightarrow> fuse_state \<Rightarrow> wire \<Rightarrow> file_msg \<Rightarrow> fuse_arg" where
  "file_arg enc s w m = \<lparr>arg_size = wire_size s w, arg_value = enc m\<rparr>"

definition reply_args :: "fuse_opcode \<Rightarrow> u64 \<Rightarrow> fuse_arg \<Rightarrow> nat \<Rightarrow> fuse_args" where
  "reply_args op n inarg out = \<lparr>a_opcode = op, a_nodeid = n, a_in_args = [inarg], a_out_argvar = False,
     a_out_args = [\<lparr>arg_size = out, arg_value = []\<rparr>]\<rparr>"

text \<open>The open file of a \<open>struct file\<close>.\<close>

definition open_file_of :: "fuse_ns \<Rightarrow> filp_id \<Rightarrow> (ff_id \<times> fuse_file) option" where
  "open_file_of ns fp = do {
     ff \<leftarrow> file_ff (nconn ns) fp;
     f \<leftarrow> ffs (nconn ns) ff;
     Some (ff, f)}"

subsection \<open>Flush and fsync\<close>

definition fuse_sync_writes :: "file_env \<Rightarrow> ino_id \<Rightarrow> fuse_ns \<Rightarrow> fuse_ns option" where
  "fuse_sync_writes fe i ns = do {
     ns1 \<leftarrow> fuse_set_nowrite (fe_waitq fe) i ns;
     ns_release_nowrite (fe_encw fe) (fe_waitw fe) i ns1}"

definition flush_fill :: "enc_file \<Rightarrow> fuse_state \<Rightarrow> u64 \<Rightarrow> fuse_file \<Rightarrow> u64 \<Rightarrow> fuse_req \<Rightarrow> fuse_req" where
  "flush_fill enc s n f owner q = set_flag FR_FORCE (q\<lparr>
     rq_in := (rq_in q)\<lparr>in_h := (in_h (rq_in q))\<lparr>ih_opcode := FUSE_FLUSH, ih_nodeid := n\<rparr>,
       in_args := [file_arg enc s W_flush_in (Flush_in (ff_fh f) (fuse_lock_owner_id (scramble_key s) owner))]\<rparr>\<rparr>)"

text \<open>The request of \<open>fuse_flush\<close>, which is not refused: \<open>None\<close> includes a wait that does not end.\<close>

definition flush_send :: "enc_file \<Rightarrow> file_env \<Rightarrow> filp_id \<Rightarrow> u64 \<Rightarrow> fuse_file \<Rightarrow> u64 \<Rightarrow> fuse_ns \<Rightarrow> (int \<times> fuse_ns) option" where
  "flush_send enc fe fp n f owner ns = do {
     (g, s1) \<leftarrow> fuse_get_req_nofail_nopages (fe_ok fe) (fe_task fe) fp (nconn ns);
     (case g of
        Got r \<Rightarrow> do {
          (ph, s2) \<leftarrow> fuse_request_send (upd_req r (flush_fill enc s1 n f owner) s1) r;
          ns2 \<leftarrow> fe_wait fe r ph (nsb_update (upd_conn (\<lambda>_. s2)) ns);
          q \<leftarrow> reqs (nconn ns2) r;
          s3 \<leftarrow> fuse_put_request (nconn ns2) r;
          Some (oh_error (out_h (rq_out q)), nsb_update (upd_conn (\<lambda>_. s3)) ns2)}
      | _ \<Rightarrow> None)}"

definition fuse_flush :: "enc_file \<Rightarrow> file_env \<Rightarrow> ino_id \<Rightarrow> filp_id \<Rightarrow> u64 \<Rightarrow> fuse_ns \<Rightarrow> (int \<times> fuse_ns) option" where
  "fuse_flush enc fe i fp owner ns = do {
     v \<leftarrow> inodes (nsb ns) i;
     if is_bad_inode v then Some (- EIO, ns)
     else if No_flush \<in> fc_bits (nconn ns) then Some (0, ns)
     else do {
       (err1, ns1) \<leftarrow> fe_sync fe i None ns;
       if err1 \<noteq> 0 then Some (err1, ns1)
       else do {
         ns2 \<leftarrow> fuse_sync_writes fe i ns1;
         (err2, ns3) \<leftarrow> fe_check fe fp ns2;
         if err2 \<noteq> 0 then Some (err2, ns3)
         else do {
           (ff, f) \<leftarrow> open_file_of ns3 fp;
           (err3, ns4) \<leftarrow> flush_send enc fe fp (nodeid v) f owner ns3;
           Some (if err3 = - ENOSYS then (0, set_bit_of No_flush ns4) else (err3, ns4))}}}}"

text \<open>The request of \<open>fuse_fsync_common\<close>.\<close>

definition fsync_bit :: "bool \<Rightarrow> fuse_conn_bit" where
  "fsync_bit isdir = (if isdir then No_fsyncdir else No_fsync)"

definition fsync_send :: "enc_file \<Rightarrow> unit dask \<Rightarrow> ino_id \<Rightarrow> filp_id \<Rightarrow> bool \<Rightarrow> bool \<Rightarrow> fuse_ns \<Rightarrow> (int \<times> fuse_ns) option" where
  "fsync_send enc ask i fp datasync isdir ns =
     (if fsync_bit isdir \<in> fc_bits (nconn ns) then Some (0, ns)
      else do {
        n \<leftarrow> node_of ns i;
        (ff, f) \<leftarrow> open_file_of ns fp;
        (err, _, ns1) \<leftarrow> ask (plain_args (if isdir then FUSE_FSYNCDIR else FUSE_FSYNC) n
            [file_arg enc (nconn ns) W_fsync_in (Fsync_in (ff_fh f) datasync)]) ns;
        Some (if err = - ENOSYS then (0, set_bit_of (fsync_bit isdir) ns1) else (err, ns1))})"

definition fuse_fsync_common ::
    "enc_file \<Rightarrow> file_env \<Rightarrow> unit dask \<Rightarrow> ino_id \<Rightarrow> filp_id \<Rightarrow> u64 \<Rightarrow> u64 \<Rightarrow> bool \<Rightarrow> bool \<Rightarrow> fuse_ns \<Rightarrow> (int \<times> fuse_ns) option" where
  "fuse_fsync_common enc fe ask i fp start last_byte datasync isdir ns = do {
     v \<leftarrow> inodes (nsb ns) i;
     if is_bad_inode v then Some (- EIO, ns)
     else do {
       (err1, ns1) \<leftarrow> fe_sync fe i (Some (start, last_byte)) ns;
       if err1 \<noteq> 0 then Some (err1, ns1)
       else do {
         ns2 \<leftarrow> fuse_sync_writes fe i ns1;
         (err2, ns3) \<leftarrow> fe_check fe fp ns2;
         if err2 \<noteq> 0 then Some (err2, ns3)
         else do {
           (err3, ns4) \<leftarrow> fe_meta fe i ns3;
           if err3 \<noteq> 0 then Some (err3, ns4)
           else fsync_send enc ask i fp datasync isdir ns4}}}}"

definition fuse_fsync ::
    "enc_file \<Rightarrow> file_env \<Rightarrow> unit dask \<Rightarrow> ino_id \<Rightarrow> filp_id \<Rightarrow> u64 \<Rightarrow> u64 \<Rightarrow> bool \<Rightarrow> fuse_ns \<Rightarrow> (int \<times> fuse_ns) option" where
  "fuse_fsync enc fe ask i fp start last_byte datasync ns = fuse_fsync_common enc fe ask i fp start last_byte datasync False ns"

subsection \<open>Locks\<close>

definition OFFSET_MAX :: u64 where "OFFSET_MAX = 2 ^ 63 - 1"

definition convert_fuse_file_lock :: "fuse_file_lock \<Rightarrow> file_lock \<Rightarrow> int \<times> file_lock" where
  "convert_fuse_file_lock ffl fl =
     (case lk_type ffl of
        F_UNLCK \<Rightarrow> (0, fl\<lparr>fl_type := F_UNLCK\<rparr>)
      | F_other _ \<Rightarrow> (- EIO, fl)
      | t \<Rightarrow>
          if OFFSET_MAX < lk_start ffl \<or> OFFSET_MAX < lk_end ffl \<or> lk_end ffl < lk_start ffl then (- EIO, fl)
          else (0, fl\<lparr>fl_start := lk_start ffl, fl_end := lk_end ffl, fl_pid := lk_pid ffl, fl_type := t\<rparr>))"

definition fuse_lk_fill ::
    "enc_file \<Rightarrow> fuse_ns \<Rightarrow> u64 \<Rightarrow> fuse_file \<Rightarrow> file_lock \<Rightarrow> fuse_opcode \<Rightarrow> u32 \<Rightarrow> bool \<Rightarrow> fuse_args" where
  "fuse_lk_fill enc ns n f fl op pid flock =
     plain_args op n [file_arg enc (nconn ns) W_lk_in (Lk_in \<lparr>lki_fh = ff_fh f,
       lki_owner = fuse_lock_owner_id (scramble_key (nconn ns)) (fl_owner fl),
       lki_lk = \<lparr>lk_start = fl_start fl, lk_end = fl_end fl, lk_type = fl_type fl, lk_pid = pid\<rparr>, lki_flock = flock\<rparr>)]"

definition fuse_getlk ::
    "enc_file \<Rightarrow> fuse_file_lock dask \<Rightarrow> ino_id \<Rightarrow> filp_id \<Rightarrow> file_lock \<Rightarrow> fuse_ns \<Rightarrow> (int \<times> file_lock \<times> fuse_ns) option" where
  "fuse_getlk enc ask i fp fl ns = do {
     n \<leftarrow> node_of ns i;
     (ff, f) \<leftarrow> open_file_of ns fp;
     (err, lk, ns1) \<leftarrow> ask ((fuse_lk_fill enc ns n f fl FUSE_GETLK 0 False)\<lparr>
         a_out_args := [\<lparr>arg_size = wire_size (nconn ns) W_lk_out, arg_value = []\<rparr>]\<rparr>) ns;
     Some (if err \<noteq> 0 then (err, fl, ns1)
           else (fst (convert_fuse_file_lock lk fl), snd (convert_fuse_file_lock lk fl), ns1))}"

definition fuse_setlk ::
    "enc_file \<Rightarrow> unit dask \<Rightarrow> u32 \<Rightarrow> ino_id \<Rightarrow> filp_id \<Rightarrow> file_lock \<Rightarrow> bool \<Rightarrow> fuse_ns \<Rightarrow> (int \<times> fuse_ns) option" where
  "fuse_setlk enc ask tgid i fp fl flock ns =
     (if fl_grant fl then Some (- ENOLCK, ns)
      else if fl_close fl then Some (0, ns)
      else do {
        n \<leftarrow> node_of ns i;
        (ff, f) \<leftarrow> open_file_of ns fp;
        (err, _, ns1) \<leftarrow> ask (fuse_lk_fill enc ns n f fl (if fl_sleep fl then FUSE_SETLKW else FUSE_SETLK)
            (if fl_type fl \<noteq> F_UNLCK then tgid else 0) flock) ns;
        Some (if err = - EINTR then - ERESTARTSYS else err, ns1)})"

datatype lk_cmd = F_CANCELLK | F_GETLK | F_SETLK

text \<open>\<open>local_test\<close> and \<open>local_lock\<close> are \<open>posix_test_lock\<close> and the local locks of the VFS.\<close>

definition fuse_file_lock_op ::
    "enc_file \<Rightarrow> fuse_file_lock dask \<Rightarrow> unit dask \<Rightarrow> (file_lock \<Rightarrow> file_lock) \<Rightarrow> (file_lock \<Rightarrow> int) \<Rightarrow> u32 \<Rightarrow> ino_id \<Rightarrow> filp_id \<Rightarrow>
      lk_cmd \<Rightarrow> file_lock \<Rightarrow> fuse_ns \<Rightarrow> (int \<times> file_lock \<times> fuse_ns) option" where
  \<comment> \<open>\<open>fuse_file_lock\<close>\<close>
  "fuse_file_lock_op enc askg asks local_test local_lock tgid i fp cmd fl ns =
     (case cmd of
        F_CANCELLK \<Rightarrow> Some (0, fl, ns)
      | F_GETLK \<Rightarrow>
          if No_lock \<in> fc_bits (nconn ns) then Some (0, local_test fl, ns) else fuse_getlk enc askg i fp fl ns
      | F_SETLK \<Rightarrow>
          if No_lock \<in> fc_bits (nconn ns) then Some (local_lock fl, fl, ns)
          else map_option (\<lambda>(err, ns1). (err, fl, ns1)) (fuse_setlk enc asks tgid i fp fl False ns))"

definition fuse_file_flock ::
    "enc_file \<Rightarrow> unit dask \<Rightarrow> (file_lock \<Rightarrow> int) \<Rightarrow> u32 \<Rightarrow> ino_id \<Rightarrow> filp_id \<Rightarrow> file_lock \<Rightarrow> fuse_ns \<Rightarrow> (int \<times> fuse_ns) option" where
  "fuse_file_flock enc ask local_lock tgid i fp fl ns =
     (if No_flock \<in> fc_bits (nconn ns) then Some (local_lock fl, ns)
      else do {
        (ff, f) \<leftarrow> open_file_of ns fp;
        fuse_setlk enc ask tgid i fp fl True
          (nsb_update (upd_conn (\<lambda>s. s\<lparr>ffs := (ffs s)(ff \<mapsto> f\<lparr>ff_flock := True\<rparr>)\<rparr>)) ns)})"

subsection \<open>Block mapping and seeking\<close>

definition fuse_bmap :: "enc_file \<Rightarrow> u64 dask \<Rightarrow> bool \<Rightarrow> u32 \<Rightarrow> ino_id \<Rightarrow> u64 \<Rightarrow> fuse_ns \<Rightarrow> (u64 \<times> fuse_ns) option" where
  "fuse_bmap enc ask has_bdev blocksize i block ns =
     (if \<not> has_bdev \<or> No_bmap \<in> fc_bits (nconn ns) then Some (0, ns)
      else do {
        n \<leftarrow> node_of ns i;
        (err, out, ns1) \<leftarrow> ask (reply_args FUSE_BMAP n (file_arg enc (nconn ns) W_bmap_in (Bmap_in block blocksize))
            (wire_size (nconn ns) W_bmap_out)) ns;
        Some (if err \<noteq> 0 then 0 else out, if err = - ENOSYS then set_bit_of No_bmap ns1 else ns1)})"

text \<open>\<open>generic\<close> and \<open>setpos\<close> are \<open>generic_file_llseek\<close> and \<open>vfs_setpos\<close>.\<close>

definition seek_generic ::
    "file_env \<Rightarrow> (fuse_ns \<Rightarrow> u64 \<Rightarrow> seek \<Rightarrow> int) \<Rightarrow> ino_id \<Rightarrow> filp_id \<Rightarrow> u64 \<Rightarrow> seek \<Rightarrow> fuse_ns \<Rightarrow> (int \<times> fuse_ns) option" where
  "seek_generic fe generic i fp offset whence ns =
     map_option (\<lambda>(err, _, _, ns1). (if err = 0 then generic ns1 offset whence else err, ns1))
       (fuse_update_attributes (fe_dir fe) (fe_enc fe) (fe_ask_attr fe) (fe_fill fe) i (Some fp) ns)"

definition fuse_lseek ::
    "enc_file \<Rightarrow> file_env \<Rightarrow> u64 dask \<Rightarrow> (fuse_ns \<Rightarrow> u64 \<Rightarrow> seek \<Rightarrow> int) \<Rightarrow> (u64 \<Rightarrow> int) \<Rightarrow> ino_id \<Rightarrow> filp_id \<Rightarrow> u64 \<Rightarrow> seek \<Rightarrow>
      fuse_ns \<Rightarrow> (int \<times> fuse_ns) option" where
  "fuse_lseek enc fe ask generic setpos i fp offset whence ns = do {
     (ff, f) \<leftarrow> open_file_of ns fp;
     if No_lseek \<in> fc_bits (nconn ns) then seek_generic fe generic i fp offset whence ns
     else do {
       (err, out, ns1) \<leftarrow> ask (reply_args FUSE_LSEEK (ff_nodeid f)
           (file_arg enc (nconn ns) W_lseek_in (Lseek_in (ff_fh f) offset whence)) (wire_size (nconn ns) W_lseek_out)) ns;
       if err = - ENOSYS then seek_generic fe generic i fp offset whence (set_bit_of No_lseek ns1)
       else if err \<noteq> 0 then Some (err, ns1)
       else Some (setpos out, ns1)}}"

definition fuse_file_llseek ::
    "enc_file \<Rightarrow> file_env \<Rightarrow> u64 dask \<Rightarrow> (fuse_ns \<Rightarrow> u64 \<Rightarrow> seek \<Rightarrow> int) \<Rightarrow> (u64 \<Rightarrow> int) \<Rightarrow> ino_id \<Rightarrow> filp_id \<Rightarrow> u64 \<Rightarrow> seek \<Rightarrow>
      fuse_ns \<Rightarrow> (int \<times> fuse_ns) option" where
  "fuse_file_llseek enc fe ask generic setpos i fp offset whence ns =
     (case whence of
        SEEK_SET \<Rightarrow> Some (generic ns offset whence, ns)
      | SEEK_CUR \<Rightarrow> Some (generic ns offset whence, ns)
      | SEEK_END \<Rightarrow> seek_generic fe generic i fp offset whence ns
      | SEEK_other \<Rightarrow> Some (- EINVAL, ns)
      | _ \<Rightarrow> fuse_lseek enc fe ask generic setpos i fp offset whence ns)"

subsection \<open>Allocation of space\<close>

text \<open>What precedes the request: the pages of a hole are written and its writes are over.\<close>

definition falloc_prepare :: "file_env \<Rightarrow> ino_id \<Rightarrow> falloc_flag set \<Rightarrow> u64 \<Rightarrow> u64 \<Rightarrow> fuse_ns \<Rightarrow> (int \<times> fuse_ns) option" where
  "falloc_prepare fe i mode offset len ns =
     (if FALLOC_FL_PUNCH_HOLE \<notin> mode then Some (0, ns)
      else do {
        (err, ns1) \<leftarrow> fe_sync fe i (Some (offset, offset + len - 1)) ns;
        if err \<noteq> 0 then Some (err, ns1) else map_option (Pair 0) (fuse_sync_writes fe i ns1)})"

definition falloc_grown :: "ino_id \<Rightarrow> filp_id \<Rightarrow> falloc_flag set \<Rightarrow> u64 \<Rightarrow> u64 \<Rightarrow> fuse_ns \<Rightarrow> fuse_ns option" where
  "falloc_grown i fp mode offset len ns =
     (if FALLOC_FL_KEEP_SIZE \<in> mode then Some ns
      else do {
        (changed, sb) \<leftarrow> fuse_write_update_size i (offset + len) (nsb ns);
        Some (set_nsb ns (if changed \<and> Writeback_cache \<in> fc_bits (conn sb) then vfs (File_update_time fp) sb else sb))})"

definition falloc_stable :: "ino_id \<Rightarrow> falloc_flag set \<Rightarrow> fuse_ns \<Rightarrow> fuse_ns" where
  "falloc_stable i mode ns = (if FALLOC_FL_KEEP_SIZE \<in> mode then ns else clear_state FUSE_I_SIZE_UNSTABLE i ns)"

definition falloc_reply ::
    "file_env \<Rightarrow> ino_id \<Rightarrow> filp_id \<Rightarrow> falloc_flag set \<Rightarrow> u64 \<Rightarrow> u64 \<Rightarrow> int \<Rightarrow> fuse_ns \<Rightarrow> (int \<times> fuse_ns) option" where
  "falloc_reply fe i fp mode offset len err ns =
     (if err = - ENOSYS then Some (- EOPNOTSUPP, set_bit_of No_fallocate ns)
      else if err \<noteq> 0 then Some (err, ns)
      else do {
        ns1 \<leftarrow> falloc_grown i fp mode offset len ns;
        let ns2 = (if FALLOC_FL_PUNCH_HOLE \<in> mode then fe_punch fe i offset (offset + len - 1) ns1 else ns1);
        Some (0, invalidate_attr i ns2)})"

definition fuse_file_fallocate ::
    "enc_file \<Rightarrow> file_env \<Rightarrow> unit dask \<Rightarrow> ino_id \<Rightarrow> filp_id \<Rightarrow> falloc_flag set \<Rightarrow> u64 \<Rightarrow> u64 \<Rightarrow> fuse_ns \<Rightarrow> (int \<times> fuse_ns) option" where
  "fuse_file_fallocate enc fe ask i fp mode offset len ns = do {
     (ff, f) \<leftarrow> open_file_of ns fp;
     if FALLOC_FL_other \<in> mode \<or> No_fallocate \<in> fc_bits (nconn ns) then Some (- EOPNOTSUPP, ns)
     else do {
       (err1, ns1) \<leftarrow> falloc_prepare fe i mode offset len ns;
       if err1 \<noteq> 0 then Some (err1, falloc_stable i mode ns1)
       else do {
         let ns2 = (if FALLOC_FL_KEEP_SIZE \<in> mode then ns1 else set_size_unstable i ns1);
         (err2, _, ns3) \<leftarrow> ask (plain_args FUSE_FALLOCATE (ff_nodeid f)
             [file_arg enc (nconn ns2) W_fallocate_in (Fallocate_in (ff_fh f) offset len mode)]) ns2;
         (err3, ns4) \<leftarrow> falloc_reply fe i fp mode offset len err2 ns3;
         Some (err3, falloc_stable i mode ns4)}}}"

end
