(* ===== verification/Fuse_File_Ops_Correct.thy ===== *)
theory Fuse_File_Ops_Correct
  imports Fuse_File_Ops Fuse_Dir_Correct Fuse_Notify
begin

text \<open>
  The operations a server need not provide, and the values of the extended attributes.

  \<^item> The locale \<open>optional_op\<close> states the contract of an operation with a bit of the connection that says that the server
    does not provide it. Its interpretations are twelve operations of \<open>xattr.c\<close>, \<open>dir.c\<close> and \<open>file.c\<close>.
  \<^item> The list of names a server sends is compared with its grammar, and the access control lists with the attributes.
\<close>

abbreviation ns_bits :: "fuse_ns \<Rightarrow> fuse_conn_bit set" where "ns_bits ns \<equiv> fc_bits (nconn ns)"

lemma bits_set_bit_of [simp]: "ns_bits (set_bit_of b ns) = insert b (ns_bits ns)"
  by (simp add: set_bit_of_def upd_conn_def)

subsection \<open>Operations a server need not provide\<close>

text \<open>
  \<open>run\<close> is the operation: the server, the arguments and the state give a result and a state. A server that \<open>refuses\<close>
  leaves the bit behind, or it was not asked.
\<close>

locale optional_op =
  fixes bits :: "'s \<Rightarrow> fuse_conn_bit set"
    and b :: fuse_conn_bit
    and refuses :: "'v \<Rightarrow> bool"
    and run :: "'v \<Rightarrow> 'x \<Rightarrow> 's \<Rightarrow> ('r \<times> 's) option"
  assumes known: "b \<in> bits s \<Longrightarrow> run v x s = run w x s"
    and learns: "refuses v \<Longrightarrow> run v x s = Some (r, t) \<Longrightarrow> b \<in> bits t \<or> (\<forall>w. run w x s = run v x s)"
begin

lemma later:
  assumes "refuses v" "run v x s = Some (r, t)" "run w x s \<noteq> run v x s" "bits t \<subseteq> bits t'"
  shows "run u y t' = run u' y t'"
proof (rule known)
  show "b \<in> bits t'" using learns [OF assms(1,2)] assms(3,4) by auto
qed

end

text \<open>
  A server is asked once: after a call in which it refused, no call in a state with the bits of then asks it. A call does
  not ask the server when every server gives the same result.
\<close>

definition asked_once ::
    "('s \<Rightarrow> fuse_conn_bit set) \<Rightarrow> ('v \<Rightarrow> bool) \<Rightarrow> ('v \<Rightarrow> 'x \<Rightarrow> 's \<Rightarrow> ('r \<times> 's) option) \<Rightarrow> bool" where
  "asked_once bits refuses run \<longleftrightarrow>
     (\<forall>v w x s r t. refuses v \<longrightarrow> run v x s = Some (r, t) \<longrightarrow> run w x s \<noteq> run v x s \<longrightarrow>
        (\<forall>t' y u u'. bits t \<subseteq> bits t' \<longrightarrow> run u y t' = run u' y t'))"

context optional_op
begin

lemma once: "asked_once bits refuses run"
  unfolding asked_once_def by (intro allI impI) (rule later)

end

definition says_enosys :: "'o dask \<Rightarrow> bool" where
  "says_enosys ask \<longleftrightarrow> (\<forall>a ns err out ns'. ask a ns = Some (err, out, ns') \<longrightarrow> err = - ENOSYS)"

lemma says_enosysD: "says_enosys ask \<Longrightarrow> ask a ns = Some (err, out, ns') \<Longrightarrow> err = - ENOSYS"
  unfolding says_enosys_def by blast

lemma enosys_facts [simp]: "ENOSYS \<noteq> 0" "0 < ENOSYS" "\<not> ENOSYS < 0"
  by (simp_all add: ENOSYS_def)

interpretation op_setxattr: optional_op ns_bits No_setxattr says_enosys
    "\<lambda>ask (i, nm, val, flags). fuse_setxattr xe ask i nm val flags" for xe
  by (unfold_locales; (auto simp: fuse_setxattr_def xattr_changed_def Let_def elim!: bind_Some_E split: if_splits; drule (1) says_enosysD; simp))

interpretation op_removexattr: optional_op ns_bits No_removexattr says_enosys
    "\<lambda>ask (i, nm). fuse_removexattr xe ask i nm" for xe
  by (unfold_locales; (auto simp: fuse_removexattr_def xattr_changed_def elim!: bind_Some_E split: if_splits; drule (1) says_enosysD; simp))

text \<open>The result of GETXATTR and LISTXATTR has the filled buffer beside the return value.\<close>

definition pack_result :: "(int \<times> 'a \<times> 's) option \<Rightarrow> ((int \<times> 'a) \<times> 's) option" where
  "pack_result res = map_option (\<lambda>(ret, a, s). ((ret, a), s)) res"

interpretation op_getxattr: optional_op ns_bits No_getxattr says_enosys
    "\<lambda>ask (i, nm, sz) ns. pack_result (fuse_getxattr xe ask i nm sz ns)" for xe
  by (unfold_locales; (auto simp: fuse_getxattr_def pack_result_def Let_def elim!: bind_Some_E split: if_splits; drule (1) says_enosysD; simp))

lemma fuse_listxattr_enosys:
  assumes "says_enosys ask" "fuse_listxattr c xe ask d sz ns = Some (ret, val, ns')" "fuse_allow_current_process c (nconn ns)"
  shows "No_listxattr \<in> ns_bits ns'"
proof (cases "No_listxattr \<in> ns_bits ns")
  case False
  obtain i n where i: "dentry_inode ns d = Some i" "node_of ns i = Some n"
    using assms(2) unfolding fuse_listxattr_def by (elim bind_Some_E) (rule that)
  obtain r osz v ns1 where a: "ask (xattr_args xe (nconn ns) FUSE_LISTXATTR n [] sz) ns = Some (r, (osz, v), ns1)"
    using assms(2,3) False i unfolding fuse_listxattr_def by (auto elim: bind_Some_E)
  have "r = - ENOSYS" using assms(1) a by (rule says_enosysD)
  with a assms(2,3) False i show ?thesis by (simp add: fuse_listxattr_def Let_def) auto
qed (use assms in \<open>auto simp: fuse_listxattr_def elim!: bind_Some_E\<close>)

interpretation op_listxattr: optional_op ns_bits No_listxattr says_enosys
    "\<lambda>ask (c, d, sz) ns. pack_result (fuse_listxattr c xe ask d sz ns)" for xe
proof (unfold_locales, goal_cases)
  case (2 v x s r t)
  obtain c d sz where x: "x = (c, d, sz)" by (cases x)
  with 2(2) obtain ret val where l: "fuse_listxattr c xe v d sz s = Some (ret, val, t)" by (auto simp: pack_result_def)
  show ?case
  proof (cases "fuse_allow_current_process c (nconn s)")
    case True with 2(1) l show ?thesis by (blast intro: fuse_listxattr_enosys)
  next
    case False with l x show ?thesis by (simp add: fuse_listxattr_def pack_result_def)
  qed
qed (auto simp: fuse_listxattr_def pack_result_def cong: if_cong)

interpretation op_access: optional_op ns_bits No_access says_enosys "\<lambda>ask (i, msk). fuse_access enc ask i msk" for enc
  by (unfold_locales; (auto simp: fuse_access_def upd_conn_def elim!: bind_Some_E split: if_splits; drule (1) says_enosysD; simp))

interpretation op_bmap: optional_op ns_bits No_bmap says_enosys
    "\<lambda>ask (has_bdev, bs, i, blk). fuse_bmap enc ask has_bdev bs i blk" for enc
  by (unfold_locales; (auto simp: fuse_bmap_def elim!: bind_Some_E split: if_splits; drule (1) says_enosysD; simp))

interpretation op_fsync: optional_op ns_bits "fsync_bit isdir" says_enosys
    "\<lambda>ask (i, fp, datasync). fsync_send enc ask i fp datasync isdir" for enc isdir
  by (unfold_locales; (auto simp: fsync_send_def elim!: bind_Some_E split: if_splits; drule (1) says_enosysD; simp))

text \<open>Flush waits for its request itself: the server is the wait, which refuses when the reply it leaves is an ENOSYS.\<close>

definition wait_enosys :: "(req_id \<Rightarrow> wait_phase \<Rightarrow> fuse_ns \<Rightarrow> fuse_ns option) \<Rightarrow> bool" where
  "wait_enosys w \<longleftrightarrow> (\<forall>r ph ns ns' q. w r ph ns = Some ns' \<longrightarrow> reqs (nconn ns') r = Some q \<longrightarrow> oh_error (out_h (rq_out q)) = - ENOSYS)"

lemma flush_send_enosys:
  "wait_enosys (fe_wait fe) \<Longrightarrow> flush_send enc fe fp n f owner ns = Some (err, ns') \<Longrightarrow> err = - ENOSYS"
  by (auto simp: flush_send_def wait_enosys_def elim!: bind_Some_E split: getreq.splits)

lemma fuse_sync_writes_wait: "fuse_sync_writes (fe\<lparr>fe_wait := w\<rparr>) i ns = fuse_sync_writes fe i ns"
  by (simp add: fuse_sync_writes_def)

text \<open>A flush either does not come to its request, whatever the wait, or it sends it.\<close>

lemma fuse_flush_cases:
  assumes "fuse_flush enc (fe\<lparr>fe_wait := w\<rparr>) i fp owner ns = Some (r, ns')" "No_flush \<notin> ns_bits ns"
  obtains (not_sent) "\<And>u. fuse_flush enc (fe\<lparr>fe_wait := u\<rparr>) i fp owner ns = Some (r, ns')"
    | (sent) n f ns1 err ns2 where "flush_send enc (fe\<lparr>fe_wait := w\<rparr>) fp n f owner ns1 = Some (err, ns2)"
      and "(r, ns') = (if err = - ENOSYS then (0, set_bit_of No_flush ns2) else (err, ns2))"
  using assms by (auto simp: fuse_flush_def fuse_sync_writes_wait elim!: bind_Some_E split: if_splits)

interpretation op_flush: optional_op ns_bits No_flush wait_enosys
    "\<lambda>w (i, fp, owner). fuse_flush enc (fe\<lparr>fe_wait := w\<rparr>) i fp owner" for enc fe
proof (unfold_locales, goal_cases)
  case (2 w x s r t)
  obtain i fp owner where x: "x = (i, fp, owner)" by (cases x)
  show ?case
  proof (cases "No_flush \<in> ns_bits s")
    case True with 2(2) x show ?thesis by (auto simp: fuse_flush_def elim!: bind_Some_E split: if_splits)
  next
    case False
    from 2(2) x have "fuse_flush enc (fe\<lparr>fe_wait := w\<rparr>) i fp owner s = Some (r, t)" by simp
    from this False show ?thesis
    proof (cases rule: fuse_flush_cases)
      case not_sent with x 2(2) show ?thesis by simp
    next
      case (sent n f ns1 err ns2)
      have "err = - ENOSYS" using flush_send_enosys [OF _ sent(1)] 2(1) by simp
      with sent(2) show ?thesis by simp
    qed
  qed
qed (auto simp: fuse_flush_def cong: if_cong)

interpretation op_poll: optional_op "\<lambda>st. fc_bits (nt_conn st)" No_poll says_enosys
    "\<lambda>ask (waiters, wanted, ff). fuse_file_poll enc ask balance waiters wanted ff" for enc balance
  by (unfold_locales; (auto simp: fuse_file_poll_def upd_nt_conn_def Let_def upd_conn_def elim!: bind_Some_E split: if_splits; drule (1) says_enosysD; simp))

text \<open>A seek that is not asked for falls back on the attributes of the inode, which the server is asked for.\<close>

definition keeps_bits :: "'o dask \<Rightarrow> bool" where
  "keeps_bits ask \<longleftrightarrow> (\<forall>a ns err out ns'. ask a ns = Some (err, out, ns') \<longrightarrow> ns_bits ns \<subseteq> ns_bits ns')"

lemma change_attributes_bits: "fuse_change_attributes i attr v ver sb = Some sb' \<Longrightarrow> fc_bits (conn sb') = fc_bits (conn sb)"
  by (auto simp: fuse_change_attributes_def fuse_change_attributes_common_def Let_def upd_conn_def upd_inode_def vfs_def
      split: option.splits if_splits)

lemma getattr_reply_bits: "getattr_reply env i out ver ns = Some (err, st, ns') \<Longrightarrow> ns_bits ns' = ns_bits ns"
  by (auto simp: getattr_reply_def make_bad_inode_def upd_inode_def elim!: bind_Some_E split: if_splits dest!: change_attributes_bits)

lemma keeps_bitsD: "keeps_bits ask \<Longrightarrow> ask a ns = Some (err, out, ns') \<Longrightarrow> ns_bits ns \<subseteq> ns_bits ns'"
  unfolding keeps_bits_def by blast

lemma do_getattr_bits:
  assumes "keeps_bits ask" "fuse_do_getattr env enc ask i file ns = Some (err, st, ns')"
  shows "ns_bits ns \<subseteq> ns_bits ns'"
proof -
  from assms(2) obtain v fh where "inodes (nsb ns) i = Some v" "getattr_handle v file ns = Some fh"
    unfolding fuse_do_getattr_def by (elim bind_Some_E)
  with assms(2) obtain e out ns1 where a: "ask (attr_args enc (nconn ns) FUSE_GETATTR (nodeid v) W_getattr_in (Getattr_in fh)) ns
      = Some (e, out, ns1)" and r: "(if e \<noteq> 0 then Some (e, None, ns1) else getattr_reply env i out (fuse_get_attr_version (nsb ns)) ns1)
      = Some (err, st, ns')"
    unfolding fuse_do_getattr_def by (auto elim!: bind_Some_E)
  have "ns_bits ns' = ns_bits ns1" using r by (auto split: if_splits dest: getattr_reply_bits)
  with keeps_bitsD [OF assms(1) a] show ?thesis by simp
qed

lemma update_attributes_bits:
  assumes "keeps_bits ask" "fuse_update_attributes env enc ask fill i file ns = Some (err, st, upd, ns')" "b \<in> ns_bits ns"
  shows "b \<in> ns_bits ns'"
  using assms(2,3) do_getattr_bits [OF assms(1)]
  by (fastforce simp: fuse_update_attributes_def vfs_def elim!: bind_Some_E split: if_splits)

lemma seek_generic_bits:
  "keeps_bits (fe_ask_attr fe) \<Longrightarrow> seek_generic fe generic i fp offset whence ns = Some (r, ns') \<Longrightarrow> b \<in> ns_bits ns \<Longrightarrow>
   b \<in> ns_bits ns'"
  by (auto simp: seek_generic_def dest: update_attributes_bits)

interpretation op_lseek: optional_op ns_bits No_lseek "\<lambda>ask. says_enosys ask \<and> keeps_bits (fe_ask_attr fe)"
    "\<lambda>ask (i, fp, offset, whence). fuse_lseek enc fe ask generic setpos i fp offset whence" for enc fe generic setpos
  by (unfold_locales; (auto simp: fuse_lseek_def elim!: bind_Some_E split: if_splits;
      (drule (1) says_enosysD)?; auto dest: seek_generic_bits))

lemma stable_bits [simp]: "ns_bits (falloc_stable i mode ns) = ns_bits ns"
  by (simp add: falloc_stable_def clear_state_def upd_inode_def)

interpretation op_fallocate: optional_op ns_bits No_fallocate says_enosys
    "\<lambda>ask (i, fp, mode, offset, len). fuse_file_fallocate enc fe ask i fp mode offset len" for enc fe
  by (unfold_locales; (auto simp: fuse_file_fallocate_def falloc_reply_def Let_def elim!: bind_Some_E split: if_splits;
      (drule (1) says_enosysD)?; auto))

subsection \<open>Lists of names\<close>

definition xattr_name_ok :: "u8 list \<Rightarrow> bool" where
  "xattr_name_ok nm \<longleftrightarrow> nm \<noteq> [] \<and> 0 \<notin> set nm"

definition xattr_list :: "u8 list list \<Rightarrow> u8 list" where
  "xattr_list names = concat (map (\<lambda>nm. nm @ [0]) names)"

lemma xattr_list_Cons: "xattr_list (nm # names) = nm @ 0 # xattr_list names"
  by (simp add: xattr_list_def)

lemma strnlen_append [simp]: "0 \<notin> set nm \<Longrightarrow> strnlen (nm @ 0 # rest) = length nm"
  unfolding strnlen_def by (subst takeWhile_append2) auto

lemma strnlen_le: "strnlen bs \<le> length bs"
  unfolding strnlen_def by (rule length_takeWhile_le)

text \<open>A string that ends in the list is the name and its zero byte.\<close>

lemma strnlen_split:
  assumes "strnlen bs \<noteq> length bs"
  shows "bs = take (strnlen bs) bs @ 0 # drop (strnlen bs + 1) bs" and "0 \<notin> set (take (strnlen bs) bs)"
proof -
  let ?n = "strnlen bs"
  have n: "?n < length bs" using assms strnlen_le [of bs] by simp
  have "bs ! ?n = 0" using nth_length_takeWhile [of "\<lambda>b. b \<noteq> 0" bs] n unfolding strnlen_def by simp
  then show "bs = take ?n bs @ 0 # drop (?n + 1) bs" using id_take_nth_drop [OF n] by (simp only: Suc_eq_plus1)
  have "take ?n bs = takeWhile (\<lambda>b. b \<noteq> 0) bs" unfolding strnlen_def by (rule takeWhile_eq_take [symmetric])
  then show "0 \<notin> set (take ?n bs)" by (auto dest: set_takeWhileD)
qed

lemma verify_xattr_list_names: "list_all xattr_name_ok names \<Longrightarrow> verify_xattr_names (xattr_list names)"
proof (induction names)
  case Nil
  show ?case by (simp add: xattr_list_def verify_xattr_names.simps)
next
  case (Cons nm names)
  then have "strnlen (nm @ 0 # xattr_list names) = length nm" "nm \<noteq> []" by (auto simp: xattr_name_ok_def)
  with Cons show ?case by (simp add: xattr_list_def verify_xattr_names.simps [of "nm @ _"])
qed

lemma verified_xattr_list: "verify_xattr_names bs \<Longrightarrow> \<exists>names. list_all xattr_name_ok names \<and> bs = xattr_list names"
proof (induction bs rule: verify_xattr_names.induct)
  case (1 bs)
  show ?case
  proof (cases "bs = []")
    case True then show ?thesis by (intro exI [of _ "[]"]) (simp add: xattr_list_def)
  next
    case False
    with "1.prems" have n: "strnlen bs \<noteq> 0" "strnlen bs \<noteq> length bs" and v: "verify_xattr_names (drop (strnlen bs + 1) bs)"
      by (auto simp: verify_xattr_names.simps [of bs] split: if_splits)
    with False "1.IH" obtain names where names: "list_all xattr_name_ok names" "drop (strnlen bs + 1) bs = xattr_list names" by auto
    have "take (strnlen bs) bs \<noteq> []" using n(1) False by simp
    with strnlen_split(2) [OF n(2)] have "xattr_name_ok (take (strnlen bs) bs)" unfolding xattr_name_ok_def by blast
    with names(1) have "list_all xattr_name_ok (take (strnlen bs) bs # names)" by simp
    moreover have "bs = xattr_list (take (strnlen bs) bs # names)"
      using strnlen_split(1) [OF n(2)] unfolding xattr_list_Cons names(2) .
    ultimately show ?thesis by blast
  qed
qed

text \<open>
  The check of a list of extended attributes accepts exactly the sequences of names, none of them empty, each with its
  zero byte, and returns their length; every other list the server sends is an -EIO.
\<close>

theorem xattr_list_checked:
  "fuse_verify_xattr_list bs =
     (if \<exists>names. list_all xattr_name_ok names \<and> bs = xattr_list names then int (length bs) else - EIO)"
  unfolding fuse_verify_xattr_list_def by (auto simp: verify_xattr_list_names dest: verified_xattr_list)

text \<open>What a caller with a buffer is given by LISTXATTR is a sequence of names.\<close>

lemma fuse_listxattr_names:
  assumes "fuse_listxattr c xe ask d sz ns = Some (r, val, ns')" "0 < r" "sz \<noteq> 0"
  shows "\<exists>names. list_all xattr_name_ok names \<and> take (nat r) val = xattr_list names"
proof -
  obtain i n where i: "dentry_inode ns d = Some i" "node_of ns i = Some n"
    using assms(1) unfolding fuse_listxattr_def by (elim bind_Some_E) (rule that)
  have e: "0 < EACCES" "0 < EOPNOTSUPP" "0 < EIO" by (simp_all add: EACCES_def EOPNOTSUPP_def EIO_def)
  from assms i e obtain ret osz ns1
    where a: "ask (xattr_args xe (nconn ns) FUSE_LISTXATTR n [] sz) ns = Some (ret, (osz, val), ns1)"
      and "r = (if 0 < ret then fuse_verify_xattr_list (take (nat ret) val) else ret)"
    unfolding fuse_listxattr_def by (auto elim!: bind_Some_E simp: Let_def split: if_split_asm)
  with assms(2) have r: "r = fuse_verify_xattr_list (take (nat ret) val)" by (simp split: if_split_asm)
  with assms(2) e have v: "verify_xattr_names (take (nat ret) val)" and "r = int (length (take (nat ret) val))"
    by (auto simp: fuse_verify_xattr_list_def split: if_splits)
  then have "take (nat r) val = take (nat ret) val" by (simp add: min_def)
  with verified_xattr_list [OF v] show ?thesis by simp
qed

subsection \<open>Access control lists\<close>

text \<open>Where the server knows no extended attributes an inode has no access control list, at the first question and later.\<close>

lemma xattr_enosys:
  assumes "says_enosys ask"
  shows "fuse_setxattr xe ask i nm v fl ns = Some (r, ns') \<Longrightarrow> r = - EOPNOTSUPP"
    and "fuse_removexattr xe ask i nm ns = Some (r, ns') \<Longrightarrow> r = - EOPNOTSUPP"
  by (auto simp: fuse_setxattr_def fuse_removexattr_def xattr_changed_def Let_def elim!: bind_Some_E split: if_splits;
      insert assms; drule (1) says_enosysD; simp)+

lemma getxattr_enosys:
  "says_enosys ask \<Longrightarrow> fuse_getxattr xe ask i nm sz ns = Some (r, val, ns') \<Longrightarrow> r = - EOPNOTSUPP \<and> No_getxattr \<in> ns_bits ns'"
  by (auto simp: fuse_getxattr_def Let_def elim!: bind_Some_E split: if_splits; drule (1) says_enosysD; simp)

lemma get_acl_unsupported:
  assumes "says_enosys ask" "acl_name ae t \<noteq> None" "ae_ok ae" "fuse_get_acl ae xe ask i t ns = Some (res, ns')"
  shows "res = Inr None"
proof -
  have absent: "acl_of ae (- EOPNOTSUPP) val s = Inr None" if "No_getxattr \<in> fc_bits s" for val s
    using that by (simp add: acl_of_def EOPNOTSUPP_def)
  from assms(2-4) show ?thesis
    by (auto simp: fuse_get_acl_def absent split: if_splits option.splits dest!: getxattr_enosys [OF assms(1)])
qed

lemma set_acl_unsupported:
  assumes "says_enosys ask" "acl_name ae t \<noteq> None" "fuse_set_acl ae xe ask i None t ns = Some (err, ns')"
  shows "err = - EOPNOTSUPP"
  using assms(2,3)
  by (auto simp: fuse_set_acl_def acl_cleared_def split: if_splits option.splits dest!: xattr_enosys [OF assms(1)])

text \<open>
  A server is asked at most once for an operation it does not provide. After a call in which it was asked and answered
  ENOSYS, no later call on any object of the connection asks it, as long as the connection loses no bit: setting, getting,
  listing and removing extended attributes, checking access, flush, fsync and fsyncdir, block mapping, seeking, allocation
  of space and polling.
\<close>

theorem unsupported_asked_once:
  "asked_once ns_bits says_enosys (\<lambda>ask (i, nm, val, flags). fuse_setxattr xe ask i nm val flags) \<and>
   asked_once ns_bits says_enosys (\<lambda>ask (i, nm, sz) ns. pack_result (fuse_getxattr xe ask i nm sz ns)) \<and>
   asked_once ns_bits says_enosys (\<lambda>ask (c, d, sz) ns. pack_result (fuse_listxattr c xe ask d sz ns)) \<and>
   asked_once ns_bits says_enosys (\<lambda>ask (i, nm). fuse_removexattr xe ask i nm) \<and>
   asked_once ns_bits says_enosys (\<lambda>ask (i, msk). fuse_access enca ask i msk) \<and>
   asked_once ns_bits wait_enosys (\<lambda>w (i, fp, owner). fuse_flush enc (fe\<lparr>fe_wait := w\<rparr>) i fp owner) \<and>
   asked_once ns_bits says_enosys (\<lambda>ask (i, fp, datasync). fsync_send enc ask i fp datasync isdir) \<and>
   asked_once ns_bits says_enosys (\<lambda>ask (has_bdev, bs, i, blk). fuse_bmap enc ask has_bdev bs i blk) \<and>
   asked_once ns_bits (\<lambda>ask. says_enosys ask \<and> keeps_bits (fe_ask_attr fe))
     (\<lambda>ask (i, fp, offset, whence). fuse_lseek enc fe ask generic setpos i fp offset whence) \<and>
   asked_once ns_bits says_enosys
     (\<lambda>ask (i, fp, mode, offset, len). fuse_file_fallocate enc fe ask i fp mode offset len) \<and>
   asked_once (\<lambda>st. fc_bits (nt_conn st)) says_enosys
     (\<lambda>ask (waiters, wanted, ff). fuse_file_poll encp ask balance waiters wanted ff)"
  by (intro conjI op_setxattr.once op_getxattr.once op_listxattr.once op_removexattr.once op_access.once op_flush.once
      op_fsync.once op_bmap.once op_lseek.once op_fallocate.once op_poll.once)

definition example_xe :: xattr_env where
  "example_xe = \<lparr>xe_dir = example_env, xe_enc_set = (\<lambda>_ _. []), xe_enc_get = (\<lambda>_. [])\<rparr>"

definition example_asks :: "int \<Rightarrow> unit dask" where
  "example_asks err = (\<lambda>_ ns. Some (err, (), ns))"

lemma unsupported_asked_once_witness:
  "\<exists>t. fuse_setxattr example_xe (example_asks (- ENOSYS)) 0 [97] [98] 0 example_ns = Some (- EOPNOTSUPP, t) \<and>
     fuse_setxattr example_xe (example_asks 0) 1 [99] [] 0 t = fuse_setxattr example_xe (\<lambda>_ _. None) 1 [99] [] 0 t"
proof -
  let ?run = "\<lambda>ask (i, nm, val, flags). fuse_setxattr example_xe ask i nm val flags"
  let ?t = "set_bit_of No_setxattr example_ns"
  have once: "asked_once ns_bits says_enosys ?run" by (rule unsupported_asked_once [THEN conjunct1])
  have node: "node_of example_ns 0 = Some 7" and bits: "No_setxattr \<notin> ns_bits example_ns"
    by (simp_all add: node_of_def example_ns_def example_wb_of_def example_sb_def example_inode_def example_conn_def example_new_def fuse_conn_init_def)
  have r: "?run (example_asks (- ENOSYS)) (0, [97], [98], 0) example_ns = Some (- EOPNOTSUPP, ?t)"
    and n: "?run (\<lambda>_ _. None) (0, [97], [98], 0) example_ns = None"
    by (auto simp: fuse_setxattr_def xattr_changed_def example_asks_def node bits)
  have "says_enosys (example_asks (- ENOSYS))" by (simp add: says_enosys_def example_asks_def)
  with once r n have "?run (example_asks 0) (1, [99], [], 0) ?t = ?run (\<lambda>_ _. None) (1, [99], [], 0) ?t"
    unfolding asked_once_def by (metis option.distinct(1) order_refl)
  with r show ?thesis by auto
qed

end
