(* ===== verification/Rcu_Locks.thy ===== *)
theory Rcu_Locks
  imports Prelude "HOL-Library.Multiset"
begin

text \<open>
  Read-copy-update as an interface, and the toy implementation of it with a reader-writer lock
  (\<open>rcu/toy_impl/sample_locking.c\<close>).

  \<^item> \<open>rcu_ops\<close> are the operations of an implementation on its state \<open>'l\<close>. \<open>None\<close> means that the caller
    has to wait. \<open>synchronize_rcu\<close> is two operations, its start and its return, because other threads
    run in between.
  \<^item> A grace period is named by who waits for it: a thread, or a callback given to \<open>call_rcu\<close>.
  \<^item> The locale \<open>grace_period\<close> states what a user of read-copy-update relies on, and \<open>live_grace_period\<close>
    what it relies on to make progress.
\<close>

type_synonym tid = nat

datatype gp_id = By_thread tid | By_callback nat

record 'l rcu_ops =
  op_read_lock :: "tid \<Rightarrow> 'l \<Rightarrow> 'l option"
  op_read_unlock :: "tid \<Rightarrow> 'l \<Rightarrow> 'l option"
  op_sync_start :: "gp_id \<Rightarrow> 'l \<Rightarrow> 'l option"
  op_sync_end :: "gp_id \<Rightarrow> 'l \<Rightarrow> 'l option"

subsection \<open>The contract\<close>

text \<open>
  \<open>inside l\<close> are the read-side critical sections that are open, and \<open>waits l g\<close> the threads whose
  critical sections the grace period \<open>g\<close> still waits for. A grace period waits at least for every
  critical section that is open when it starts, and it ends only when it waits for none.
\<close>

locale grace_period =
  fixes ops :: "'l rcu_ops"
    and inside :: "'l \<Rightarrow> tid multiset"
    and waits :: "'l \<Rightarrow> gp_id \<Rightarrow> tid set"
  assumes lock_law: "op_read_lock ops t l = Some l' \<Longrightarrow>
      inside l' = add_mset t (inside l) \<and> (\<forall>g. waits l g \<subseteq> waits l' g)"
    and unlock_law: "op_read_unlock ops t l = Some l' \<Longrightarrow> t \<in># inside l \<Longrightarrow>
      inside l' = inside l - {#t#} \<and> (\<forall>g. waits l g \<subseteq> waits l' g \<union> (if t \<in># inside l' then {} else {t}))"
    and start_law: "op_sync_start ops g l = Some l' \<Longrightarrow>
      inside l' = inside l \<and> set_mset (inside l) \<subseteq> waits l' g \<and> (\<forall>h. h \<noteq> g \<longrightarrow> waits l h \<subseteq> waits l' h)"
    and end_law: "op_sync_end ops g l = Some l' \<Longrightarrow>
      inside l' = inside l \<and> waits l g = {} \<and> (\<forall>h. h \<noteq> g \<longrightarrow> waits l h \<subseteq> waits l' h)"
begin

lemma inside_steps:
  "op_read_lock ops t l = Some l' \<Longrightarrow> count (inside l') u = count (inside l) u + (if u = t then 1 else 0)"
  "op_read_unlock ops t l = Some l' \<Longrightarrow> t \<in># inside l \<Longrightarrow>
     count (inside l') u = count (inside l) u - (if u = t then 1 else 0)"
  "op_sync_start ops g l = Some l' \<Longrightarrow> inside l' = inside l"
  "op_sync_end ops g l = Some l' \<Longrightarrow> inside l' = inside l"
  using lock_law unlock_law start_law end_law by fastforce+

text \<open>A thread that was inside when a grace period started has left by its end.\<close>

lemma waits_steps:
  "op_read_lock ops t l = Some l' \<Longrightarrow> u \<in> waits l g \<Longrightarrow> u \<in> waits l' g"
  "op_read_unlock ops t l = Some l' \<Longrightarrow> t \<in># inside l \<Longrightarrow> u \<in> waits l g \<Longrightarrow> u \<noteq> t \<Longrightarrow> u \<in> waits l' g"
  "op_sync_start ops g l = Some l' \<Longrightarrow> u \<in># inside l \<Longrightarrow> u \<in> waits l' g"
  "op_sync_start ops h l = Some l' \<Longrightarrow> g \<noteq> h \<Longrightarrow> u \<in> waits l g \<Longrightarrow> u \<in> waits l' g"
  "op_sync_end ops h l = Some l' \<Longrightarrow> g \<noteq> h \<Longrightarrow> u \<in> waits l g \<Longrightarrow> u \<in> waits l' g"
  "op_sync_end ops g l = Some l' \<Longrightarrow> u \<notin> waits l g"
proof -
  show "op_read_lock ops t l = Some l' \<Longrightarrow> u \<in> waits l g \<Longrightarrow> u \<in> waits l' g"
    using lock_law by blast
  show "op_read_unlock ops t l = Some l' \<Longrightarrow> t \<in># inside l \<Longrightarrow> u \<in> waits l g \<Longrightarrow> u \<noteq> t \<Longrightarrow> u \<in> waits l' g"
    using unlock_law [of t l l'] by (auto split: if_split_asm)
  show "op_sync_start ops g l = Some l' \<Longrightarrow> u \<in># inside l \<Longrightarrow> u \<in> waits l' g"
    using start_law by blast
  show "op_sync_start ops h l = Some l' \<Longrightarrow> g \<noteq> h \<Longrightarrow> u \<in> waits l g \<Longrightarrow> u \<in> waits l' g"
    using start_law by blast
  show "op_sync_end ops h l = Some l' \<Longrightarrow> g \<noteq> h \<Longrightarrow> u \<in> waits l g \<Longrightarrow> u \<in> waits l' g"
    using end_law by blast
  show "op_sync_end ops g l = Some l' \<Longrightarrow> u \<notin> waits l g"
    using end_law by blast
qed

end

text \<open>
  Progress: a reader can always leave, a grace period nobody holds up can end, and one can start when
  there are no readers and no other grace period. \<open>busy l\<close> are the grace periods that have started.
\<close>

locale live_grace_period = grace_period ops inside waits
  for ops :: "'l rcu_ops" and inside waits +
  fixes busy :: "'l \<Rightarrow> gp_id set"
  assumes leave_live: "t \<in># inside l \<Longrightarrow> op_read_unlock ops t l \<noteq> None"
    and end_live: "g \<in> busy l \<Longrightarrow> waits l g = {} \<Longrightarrow> op_sync_end ops g l \<noteq> None"
    and start_live: "inside l = {#} \<Longrightarrow> busy l = {} \<Longrightarrow> op_sync_start ops g l \<noteq> None"
    and lock_busy: "op_read_lock ops t l = Some l' \<Longrightarrow> busy l' = busy l"
    and unlock_busy: "op_read_unlock ops t l = Some l' \<Longrightarrow> busy l' = busy l"
    and start_busy: "op_sync_start ops g l = Some l' \<Longrightarrow> busy l' = insert g (busy l)"
    and end_busy: "op_sync_end ops g l = Some l' \<Longrightarrow> busy l' = busy l - {g}"
    and waits_inside: "waits l g \<subseteq> set_mset (inside l)"

subsection \<open>The toy implementation\<close>

text \<open>The reader-writer lock \<open>rcu_gp_mutex\<close>; readers may hold it recursively.\<close>

record rwlock =
  rw_readers :: "tid multiset"
  rw_writer :: "gp_id option"

definition DEFINE_RWLOCK :: rwlock where "DEFINE_RWLOCK = \<lparr>rw_readers = {#}, rw_writer = None\<rparr>"

definition read_lock :: "tid \<Rightarrow> rwlock \<Rightarrow> rwlock option" where
  "read_lock t l = (if rw_writer l \<noteq> None then None else Some (l\<lparr>rw_readers := add_mset t (rw_readers l)\<rparr>))"

definition read_unlock :: "tid \<Rightarrow> rwlock \<Rightarrow> rwlock option" where
  "read_unlock t l = Some (l\<lparr>rw_readers := rw_readers l - {#t#}\<rparr>)"

definition write_lock :: "gp_id \<Rightarrow> rwlock \<Rightarrow> rwlock option" where
  "write_lock g l = (if rw_readers l \<noteq> {#} \<or> rw_writer l \<noteq> None then None else Some (l\<lparr>rw_writer := Some g\<rparr>))"

definition write_unlock :: "gp_id \<Rightarrow> rwlock \<Rightarrow> rwlock option" where
  "write_unlock g l = (if rw_writer l = Some g then Some (l\<lparr>rw_writer := None\<rparr>) else None)"

definition toy_rcu_read_lock :: "tid \<Rightarrow> rwlock \<Rightarrow> rwlock option" where
  "toy_rcu_read_lock = read_lock"

definition toy_rcu_read_unlock :: "tid \<Rightarrow> rwlock \<Rightarrow> rwlock option" where
  "toy_rcu_read_unlock = read_unlock"

text \<open>\<open>toy_synchronize_rcu\<close>: taking the lock for writing, the barrier, and dropping it.\<close>

definition toy_synchronize_start :: "gp_id \<Rightarrow> rwlock \<Rightarrow> rwlock option" where
  "toy_synchronize_start = write_lock"

definition toy_synchronize_end :: "gp_id \<Rightarrow> rwlock \<Rightarrow> rwlock option" where
  "toy_synchronize_end = write_unlock"

definition toy_ops :: "rwlock rcu_ops" where
  "toy_ops = \<lparr>op_read_lock = toy_rcu_read_lock, op_read_unlock = toy_rcu_read_unlock,
     op_sync_start = toy_synchronize_start, op_sync_end = toy_synchronize_end\<rparr>"

lemmas toy_defs = toy_ops_def toy_rcu_read_lock_def toy_rcu_read_unlock_def toy_synchronize_start_def
  toy_synchronize_end_def read_lock_def read_unlock_def write_lock_def write_unlock_def

text \<open>
  The lock keeps the contract: it lets a grace period start only when there is no reader at all, so that
  there is nobody to wait for.
\<close>

interpretation toy: grace_period toy_ops rw_readers "\<lambda>_ _. {}"
  by unfold_locales (auto simp: toy_defs split: if_split_asm)

interpretation toy_live: live_grace_period toy_ops rw_readers "\<lambda>_ _. {}" "\<lambda>l. set_option (rw_writer l)"
  by unfold_locales (auto simp: toy_defs split: if_split_asm)

end
