(* ===== verification/Rcu_Sample.thy ===== *)
theory Rcu_Sample
  imports Rcu_Locks
begin

text \<open>
  The samples that protect one structure with read-copy-update: \<open>rcu/toy_impl/sample_use.c\<close>,
  \<open>rcu/use_example/sample_synchronize_rcu.c\<close> and \<open>rcu/use_example/sample_call_rcu.c\<close>.

  \<^item> The three files have the same threads; they differ in the implementation of read-copy-update, in the
    number of readers, and in how the old structure is reclaimed. These are the fields of \<open>foo_config\<close>.
  \<^item> Every thread is at one of the points of \<open>foo_pc\<close>; a step of a thread is one access to memory that
    other threads can see, or one operation on a lock. \<open>foo_reachable\<close> are the states any interleaving
    of such steps leads to.
  \<^item> A step can wait, run, or fault: dereference NULL or memory that is not allocated, or free it twice.
  \<^item> Memory accesses are sequentially consistent: what \<open>rcu_assign_pointer\<close> and \<open>rcu_dereference\<close>
    guarantee on weaker machines is taken as given.
\<close>

subsection \<open>State\<close>

type_synonym foo_ptr = nat

record foo =
  foo_a :: u32
  foo_b :: u8
  foo_c :: u64

datatype reclaim = Synchronize | Call_rcu

record 'l foo_config =
  cf_ops :: "'l rcu_ops"
  cf_readers :: nat
  cf_reclaim :: reclaim
  cf_oom :: bool

text \<open>
  The points of a thread: between two rounds of its loop, finished, in \<open>foo_get_a\<close> and in \<open>foo_update_a\<close>.
  A pointer that may be NULL is an option.
\<close>

datatype foo_pc =
    Idle | Stopped
  | R_inside | R_at "foo_ptr option" | R_read u32
  | W_new "foo_ptr option" u32 | W_held "foo_ptr option" u32
  | W_old "foo_ptr option" "foo_ptr option" u32
  | W_copied foo_ptr foo_ptr u32 | W_set foo_ptr foo_ptr
  | W_swapped foo_ptr | W_unlocked foo_ptr | W_syncing foo_ptr | W_synced foo_ptr

datatype print = Print_reader tid u32 | Print_writer tid u32

text \<open>\<open>printed\<close> is newest first; \<open>callbacks\<close> are the calls of \<open>foo_reclaim\<close> that \<open>call_rcu\<close> has queued.\<close>

record 'l foo_state =
  lk :: 'l
  heap :: "foo_ptr \<rightharpoonup> foo"
  next_ptr :: foo_ptr
  gbl_foo :: "foo_ptr option"
  foo_mutex :: "tid option"
  pcs :: "tid \<Rightarrow> foo_pc"
  callbacks :: "nat \<rightharpoonup> foo_ptr"
  next_cb :: nat
  printed :: "print list"

text \<open>
  What a thread meets in a step: whether it is told to stop, the random number, whether \<open>kmalloc\<close> finds
  memory, and what that memory holds.
\<close>

record foo_choice =
  ch_stop :: bool
  ch_val :: u32
  ch_alloc :: bool
  ch_junk :: foo

datatype 'a outcome = Waits | Faults | Runs 'a

definition goto :: "tid \<Rightarrow> foo_pc \<Rightarrow> 'l foo_state \<Rightarrow> 'l foo_state" where
  "goto t pc s = s\<lparr>pcs := (pcs s)(t := pc)\<rparr>"

definition NUM_WRITER_THREADS :: nat where "NUM_WRITER_THREADS = 1"

definition NUM_THREADS :: "'l foo_config \<Rightarrow> nat" where
  "NUM_THREADS cf = NUM_WRITER_THREADS + cf_readers cf"

subsection \<open>Steps of the threads\<close>

definition lock_step :: "'l option \<Rightarrow> tid \<Rightarrow> foo_pc \<Rightarrow> 'l foo_state \<Rightarrow> 'l foo_state outcome" where
  "lock_step lo t pc s = (case lo of None \<Rightarrow> Waits | Some l \<Rightarrow> Runs (goto t pc (s\<lparr>lk := l\<rparr>)))"

definition kfree :: "foo_ptr \<Rightarrow> 'l foo_state \<Rightarrow> 'l foo_state outcome" where
  "kfree p s = (if heap s p = None then Faults else Runs (s\<lparr>heap := (heap s)(p := None)\<rparr>))"

text \<open>\<open>foo_get_a\<close>, with the \<open>pr_info\<close> of its caller.\<close>

definition foo_get_a :: "'l rcu_ops \<Rightarrow> tid \<Rightarrow> 'l foo_state \<Rightarrow> 'l foo_state outcome" where
  "foo_get_a ops t s = (case pcs s t of
      Idle \<Rightarrow> lock_step (op_read_lock ops t (lk s)) t R_inside s
    | R_inside \<Rightarrow> Runs (goto t (R_at (gbl_foo s)) s)
    | R_at p \<Rightarrow> (case Option.bind p (heap s) of None \<Rightarrow> Faults | Some f \<Rightarrow> Runs (goto t (R_read (foo_a f)) s))
    | R_read v \<Rightarrow> lock_step (op_read_unlock ops t (lk s)) t Idle (s\<lparr>printed := Print_reader t v # printed s\<rparr>)
    | _ \<Rightarrow> Waits)"

text \<open>The end of \<open>foo_update_a\<close>: the old structure is freed after a grace period, or left to \<open>call_rcu\<close>.\<close>

definition foo_retire :: "'l rcu_ops \<Rightarrow> reclaim \<Rightarrow> tid \<Rightarrow> foo_ptr \<Rightarrow> 'l foo_state \<Rightarrow> 'l foo_state outcome" where
  "foo_retire ops rc t p s = (case rc of
      Synchronize \<Rightarrow> lock_step (op_sync_start ops (By_thread t) (lk s)) t (W_syncing p) s
    | Call_rcu \<Rightarrow> lock_step (op_sync_start ops (By_callback (next_cb s)) (lk s)) t Idle
        (s\<lparr>callbacks := (callbacks s)(next_cb s \<mapsto> p), next_cb := Suc (next_cb s)\<rparr>))"

definition foo_update_a :: "'l foo_config \<Rightarrow> foo_choice \<Rightarrow> tid \<Rightarrow> 'l foo_state \<Rightarrow> 'l foo_state outcome" where
  "foo_update_a cf ch t s = (case pcs s t of
      Idle \<Rightarrow>
        let s1 = s\<lparr>printed := Print_writer t (ch_val ch) # printed s\<rparr> in
        Runs (if ch_alloc ch
              then goto t (W_new (Some (next_ptr s)) (ch_val ch))
                     (s1\<lparr>heap := (heap s)(next_ptr s \<mapsto> ch_junk ch), next_ptr := Suc (next_ptr s)\<rparr>)
              else goto t (W_new None (ch_val ch)) s1)
    | W_new n v \<Rightarrow> (if foo_mutex s = None then Runs (goto t (W_held n v) (s\<lparr>foo_mutex := Some t\<rparr>)) else Waits)
    | W_held n v \<Rightarrow> Runs (goto t (W_old n (gbl_foo s) v) s)
    | W_old no oo v \<Rightarrow>
        (case (no, oo) of
           (Some n, Some p) \<Rightarrow>
             (case (heap s n, heap s p) of
                (Some _, Some f) \<Rightarrow> Runs (goto t (W_copied n p v) (s\<lparr>heap := (heap s)(n \<mapsto> f)\<rparr>))
              | _ \<Rightarrow> Faults)
         | _ \<Rightarrow> Faults)
    | W_copied n p v \<Rightarrow>
        (case heap s n of None \<Rightarrow> Faults
         | Some f \<Rightarrow> Runs (goto t (W_set n p) (s\<lparr>heap := (heap s)(n \<mapsto> f\<lparr>foo_a := v\<rparr>)\<rparr>)))
    | W_set n p \<Rightarrow> Runs (goto t (W_swapped p) (s\<lparr>gbl_foo := Some n\<rparr>))
    | W_swapped p \<Rightarrow> Runs (goto t (W_unlocked p) (s\<lparr>foo_mutex := None\<rparr>))
    | W_unlocked p \<Rightarrow> foo_retire (cf_ops cf) (cf_reclaim cf) t p s
    | W_syncing p \<Rightarrow> lock_step (op_sync_end (cf_ops cf) (By_thread t) (lk s)) t (W_synced p) s
    | W_synced p \<Rightarrow> (case kfree p s of Runs s1 \<Rightarrow> Runs (goto t Idle s1) | _ \<Rightarrow> Faults)
    | _ \<Rightarrow> Waits)"

text \<open>The loops of the threads: the first \<open>cf_readers\<close> of them are readers.\<close>

definition kthread_step :: "'l foo_config \<Rightarrow> foo_choice \<Rightarrow> tid \<Rightarrow> 'l foo_state \<Rightarrow> 'l foo_state outcome" where
  "kthread_step cf ch t s =
     (if pcs s t = Idle \<and> ch_stop ch then Runs (goto t Stopped s)
      else if t < cf_readers cf then foo_get_a (cf_ops cf) t s else foo_update_a cf ch t s)"

text \<open>A queued call of \<open>foo_reclaim\<close> runs when its grace period is over.\<close>

definition foo_reclaim :: "'l rcu_ops \<Rightarrow> nat \<Rightarrow> 'l foo_state \<Rightarrow> 'l foo_state outcome" where
  "foo_reclaim ops n s = (case callbacks s n of
      None \<Rightarrow> Waits
    | Some p \<Rightarrow>
        (case op_sync_end ops (By_callback n) (lk s) of
           None \<Rightarrow> Waits
         | Some l \<Rightarrow> kfree p (s\<lparr>lk := l, callbacks := (callbacks s)(n := None)\<rparr>)))"

subsection \<open>Loading and unloading\<close>

definition init_foo :: "bool \<Rightarrow> foo \<Rightarrow> 'l foo_state \<Rightarrow> int \<times> 'l foo_state" where
  "init_foo alloc junk s =
     (if \<not> alloc then (- 1, s\<lparr>gbl_foo := None\<rparr>)
      else (0, s\<lparr>heap := (heap s)(next_ptr s \<mapsto> junk\<lparr>foo_a := 5\<rparr>), gbl_foo := Some (next_ptr s),
                 next_ptr := Suc (next_ptr s)\<rparr>))"

text \<open>
  \<open>init_kthread\<close>: \<open>ks\<close> are the results of \<open>kthread_run\<close>, \<open>False\<close> for an error pointer. The code tests
  \<open>IS_ERR (k)\<close>, the address of the array, which is no error pointer, and then follows \<open>k[i]\<close>.
\<close>

fun init_kthread :: "bool list \<Rightarrow> int outcome" where
  "init_kthread [] = Runs 0"
| "init_kthread (ok # ks) = (if \<not> ok then Faults else init_kthread ks)"

definition init_sample :: "bool \<Rightarrow> foo \<Rightarrow> bool list \<Rightarrow> 'l foo_state \<Rightarrow> (int \<times> 'l foo_state) outcome" where
  "init_sample alloc junk ks s =
     (let (err, s1) = init_foo alloc junk s in
      if err \<noteq> 0 then Runs (err, s1)
      else case init_kthread ks of
          Runs e \<Rightarrow>
            if e \<noteq> 0
            then (case gbl_foo s1 of
                None \<Rightarrow> Runs (e, s1)
              | Some p \<Rightarrow> (case kfree p s1 of Runs s2 \<Rightarrow> Runs (e, s2) | _ \<Rightarrow> Faults))
            else Runs (0, s1\<lparr>pcs := (\<lambda>_. Idle)\<rparr>)
        | _ \<Rightarrow> Faults)"

text \<open>\<open>exit_sample\<close>: \<open>kthread_stop\<close> waits for each thread; then the last structure is freed.\<close>

definition exit_sample :: "'l foo_config \<Rightarrow> 'l foo_state \<Rightarrow> 'l foo_state outcome" where
  "exit_sample cf s =
     (if \<exists>t \<in> {..<NUM_THREADS cf}. pcs s t \<noteq> Stopped then Waits
      else case gbl_foo s of None \<Rightarrow> Runs s | Some p \<Rightarrow> kfree p s)"

subsection \<open>Reachable states\<close>

inductive foo_step :: "'l foo_config \<Rightarrow> 'l foo_state \<Rightarrow> 'l foo_state \<Rightarrow> bool" for cf where
  thread: "foo_step cf s s'" if "t < NUM_THREADS cf" and "ch_alloc ch \<or> cf_oom cf" and "kthread_step cf ch t s = Runs s'"
| callback: "foo_step cf s s'" if "foo_reclaim (cf_ops cf) n s = Runs s'"

inductive foo_reachable :: "'l foo_config \<Rightarrow> 'l foo_state \<Rightarrow> 'l foo_state \<Rightarrow> bool" for cf s0 where
  start: "foo_reachable cf s0 s0"
| step: "foo_reachable cf s0 s'" if "foo_reachable cf s0 s" and "foo_step cf s s'"

inductive_cases foo_stepE: "foo_step cf s s'"

text \<open>A thread or a callback that would fault if it ran now.\<close>

definition foo_faults :: "'l foo_config \<Rightarrow> 'l foo_state \<Rightarrow> bool" where
  "foo_faults cf s \<longleftrightarrow> (\<exists>t ch. t < NUM_THREADS cf \<and> (ch_alloc ch \<or> cf_oom cf) \<and> kthread_step cf ch t s = Faults) \<or>
     (\<exists>n. foo_reclaim (cf_ops cf) n s = Faults)"

text \<open>The state after a successful \<open>init_sample\<close> on a fresh module.\<close>

definition foo_module :: "'l \<Rightarrow> 'l foo_state" where
  "foo_module l = \<lparr>lk = l, heap = (\<lambda>_. None), next_ptr = 0, gbl_foo = None, foo_mutex = None, pcs = (\<lambda>_. Stopped),
     callbacks = (\<lambda>_. None), next_cb = 0, printed = []\<rparr>"

definition foo_started :: "'l \<Rightarrow> foo \<Rightarrow> 'l foo_state" where
  "foo_started l junk = (snd (init_foo True junk (foo_module l)))\<lparr>pcs := (\<lambda>_. Idle)\<rparr>"

end
