(* ===== verification/Rcu_Invariants.thy ===== *)
theory Rcu_Invariants
  imports Rcu_Sample
begin

text \<open>
  The invariants of the read-copy-update samples, proved for every implementation that keeps the contract
  \<open>grace_period\<close>: who owns which structure (\<open>heap_inv\<close>), who holds the mutex (\<open>mutex_inv\<close>), which structures
  a reader may still know (\<open>reader_inv\<close>), what they contain (\<open>val_inv\<close>), and progress on an implementation
  that keeps \<open>live_grace_period\<close>.
\<close>

subsection \<open>Who owns which structure\<close>

text \<open>
  What a thread or a queued callback alone may free or change: the new structure until it is published,
  the old one from then on. Of the old one, readers may still know it before its grace period has
  started (\<open>pending\<close>), and those the grace period waits for may know it while it lasts (\<open>waited\<close>).
\<close>

fun pc_owned :: "foo_pc \<Rightarrow> foo_ptr set" where
  "pc_owned (W_new n v) = set_option n"
| "pc_owned (W_held n v) = set_option n"
| "pc_owned (W_old n p v) = set_option n"
| "pc_owned (W_copied n p v) = {n}"
| "pc_owned (W_set n p) = {n}"
| "pc_owned (W_swapped p) = {p}"
| "pc_owned (W_unlocked p) = {p}"
| "pc_owned (W_syncing p) = {p}"
| "pc_owned (W_synced p) = {p}"
| "pc_owned _ = {}"

fun pc_pending :: "foo_pc \<Rightarrow> foo_ptr set" where
  "pc_pending (W_swapped p) = {p}"
| "pc_pending (W_unlocked p) = {p}"
| "pc_pending _ = {}"

fun pc_waited :: "foo_pc \<Rightarrow> foo_ptr set" where
  "pc_waited (W_syncing p) = {p}"
| "pc_waited _ = {}"

fun pc_holds :: "foo_pc \<Rightarrow> bool" where
  "pc_holds (W_held n v) \<longleftrightarrow> True"
| "pc_holds (W_old n p v) \<longleftrightarrow> True"
| "pc_holds (W_copied n p v) \<longleftrightarrow> True"
| "pc_holds (W_set n p) \<longleftrightarrow> True"
| "pc_holds (W_swapped p) \<longleftrightarrow> True"
| "pc_holds _ \<longleftrightarrow> False"

fun pc_reads :: "foo_pc \<Rightarrow> bool" where
  "pc_reads R_inside \<longleftrightarrow> True"
| "pc_reads (R_at p) \<longleftrightarrow> True"
| "pc_reads (R_read v) \<longleftrightarrow> True"
| "pc_reads _ \<longleftrightarrow> False"

text \<open>The old structure a thread has read the pointer to under the mutex.\<close>

fun pc_old :: "foo_pc \<Rightarrow> foo_ptr option set" where
  "pc_old (W_old n p v) = {p}"
| "pc_old (W_copied n p v) = {Some p}"
| "pc_old (W_set n p) = {Some p}"
| "pc_old _ = {}"

fun pc_new :: "foo_pc \<Rightarrow> foo_ptr option set" where
  "pc_new (W_new n v) = {n}"
| "pc_new (W_held n v) = {n}"
| "pc_new (W_old n p v) = {n}"
| "pc_new _ = {}"

definition owned :: "'l foo_state \<Rightarrow> gp_id \<Rightarrow> foo_ptr set" where
  "owned s i = (case i of By_thread t \<Rightarrow> pc_owned (pcs s t) | By_callback n \<Rightarrow> set_option (callbacks s n))"

definition waited :: "'l foo_state \<Rightarrow> gp_id \<Rightarrow> foo_ptr set" where
  "waited s i = (case i of By_thread t \<Rightarrow> pc_waited (pcs s t) | By_callback n \<Rightarrow> set_option (callbacks s n))"

lemma pc_waited_owned: "pc_waited pc \<subseteq> pc_owned pc" "pc_pending pc \<subseteq> pc_owned pc"
  by (cases pc; simp)+

lemma owned_simps [simp]:
  "owned (goto t pc s) = (owned s)(By_thread t := pc_owned pc)"
  "waited (goto t pc s) = (waited s)(By_thread t := pc_waited pc)"
  by (auto simp: fun_eq_iff owned_def waited_def goto_def split: gp_id.split)

lemma owned_frame [simp]:
  "owned (s\<lparr>lk := l\<rparr>) = owned s" "owned (s\<lparr>heap := h\<rparr>) = owned s" "owned (s\<lparr>next_ptr := n\<rparr>) = owned s"
  "owned (s\<lparr>gbl_foo := g\<rparr>) = owned s" "owned (s\<lparr>foo_mutex := m\<rparr>) = owned s" "owned (s\<lparr>printed := ps\<rparr>) = owned s"
  "owned (s\<lparr>next_cb := n\<rparr>) = owned s"
  "owned (s\<lparr>callbacks := (callbacks s)(n := x)\<rparr>) = (owned s)(By_callback n := set_option x)"
  "waited (s\<lparr>lk := l\<rparr>) = waited s" "waited (s\<lparr>heap := h\<rparr>) = waited s" "waited (s\<lparr>next_ptr := n\<rparr>) = waited s"
  "waited (s\<lparr>gbl_foo := g\<rparr>) = waited s" "waited (s\<lparr>foo_mutex := m\<rparr>) = waited s" "waited (s\<lparr>printed := ps\<rparr>) = waited s"
  "waited (s\<lparr>next_cb := n\<rparr>) = waited s"
  "waited (s\<lparr>callbacks := (callbacks s)(n := x)\<rparr>) = (waited s)(By_callback n := set_option x)"
  by (auto simp: fun_eq_iff owned_def waited_def split: gp_id.split)

lemma goto_fields [simp]:
  "lk (goto t pc s) = lk s" "heap (goto t pc s) = heap s" "next_ptr (goto t pc s) = next_ptr s"
  "gbl_foo (goto t pc s) = gbl_foo s" "foo_mutex (goto t pc s) = foo_mutex s" "callbacks (goto t pc s) = callbacks s"
  "next_cb (goto t pc s) = next_cb s" "printed (goto t pc s) = printed s" "pcs (goto t pc s) = (pcs s)(t := pc)"
  by (simp_all add: goto_def)

text \<open>
  The invariant, in three parts: the heap is exactly the published structure and what somebody owns,
  and nothing is owned twice; the mutex; and what the readers hold.
\<close>

definition owners_ok :: "foo_ptr set \<Rightarrow> foo_ptr \<Rightarrow> (gp_id \<Rightarrow> foo_ptr set) \<Rightarrow> bool" where
  "owners_ok live g own \<longleftrightarrow> live = insert g (\<Union>i. own i) \<and> (\<forall>i. g \<notin> own i) \<and> (\<forall>i j. i \<noteq> j \<longrightarrow> own i \<inter> own j = {})"

definition heap_inv :: "'l foo_state \<Rightarrow> bool" where
  "heap_inv s \<longleftrightarrow> (\<exists>g. gbl_foo s = Some g \<and> owners_ok (dom (heap s)) g (owned s)) \<and>
     (\<forall>p \<ge> next_ptr s. p \<notin> dom (heap s)) \<and> (\<forall>n \<ge> next_cb s. callbacks s n = None)"

definition mutex_inv :: "'l foo_state \<Rightarrow> bool" where
  "mutex_inv s \<longleftrightarrow> (\<forall>t. pc_holds (pcs s t) \<longleftrightarrow> foo_mutex s = Some t) \<and>
     (\<forall>t p. p \<in> pc_old (pcs s t) \<longrightarrow> p = gbl_foo s)"

definition known :: "('l \<Rightarrow> gp_id \<Rightarrow> tid set) \<Rightarrow> 'l foo_state \<Rightarrow> tid \<Rightarrow> foo_ptr \<Rightarrow> bool" where
  "known waits s t p \<longleftrightarrow> gbl_foo s = Some p \<or> (\<exists>u. p \<in> pc_pending (pcs s u)) \<or>
     (\<exists>i. p \<in> waited s i \<and> t \<in> waits (lk s) i)"

definition reader_inv :: "('l \<Rightarrow> tid multiset) \<Rightarrow> ('l \<Rightarrow> gp_id \<Rightarrow> tid set) \<Rightarrow> 'l foo_state \<Rightarrow> bool" where
  "reader_inv inside waits s \<longleftrightarrow> (\<forall>t. count (inside (lk s)) t = (if pc_reads (pcs s t) then 1 else 0)) \<and>
     (\<forall>t po. pcs s t = R_at po \<longrightarrow> (\<exists>p. po = Some p \<and> known waits s t p))"

definition alloc_inv :: "'l foo_config \<Rightarrow> 'l foo_state \<Rightarrow> bool" where
  "alloc_inv cf s \<longleftrightarrow> (\<forall>t. \<not> cf_oom cf \<longrightarrow> None \<notin> pc_new (pcs s t))"

text \<open>One owner exchanges what it owns, and perhaps what is published.\<close>

lemma owners_ok_upd:
  assumes "owners_ok live g own" and "others = live - insert g (own i)"
    and "g' \<notin> others" and "B \<inter> others = {}" and "g' \<notin> B"
  shows "owners_ok (insert g' (B \<union> others)) g' (own(i := B))"
proof -
  have live: "live = insert g (\<Union>j. own j)" "\<forall>j. g \<notin> own j" "\<forall>j k. j \<noteq> k \<longrightarrow> own j \<inter> own k = {}"
    using assms(1) by (simp_all add: owners_ok_def)
  define R where "R = (\<Union>j \<in> - {i}. own j)"
  have "(\<Union>j. own j) = own i \<union> R" unfolding R_def by blast
  then have "live = insert g (own i \<union> R)" using live(1) by simp
  moreover have "own i \<inter> own j = {}" if "j \<noteq> i" for j using live(3) that by metis
  then have "own i \<inter> R = {}" unfolding R_def by blast
  moreover have "g \<notin> R" using live(2) by (simp add: R_def)
  ultimately have "others = R" unfolding assms(2) by blast
  then have o: "others = (\<Union>j \<in> - {i}. own j)" by (simp only: R_def)
  have "insert g' (B \<union> others) = insert g' (\<Union>j. (own(i := B)) j)" unfolding o by (auto split: if_split_asm)
  moreover have "g' \<notin> (own(i := B)) j" for j using assms(3,5) unfolding o by auto
  moreover have "(own(i := B)) j \<inter> (own(i := B)) k = {}" if "j \<noteq> k" for j k
    using that assms(1,4) unfolding o owners_ok_def by (cases "j = i"; cases "k = i") auto
  ultimately show ?thesis unfolding owners_ok_def by blast
qed

fun pc_writes :: "foo_pc \<Rightarrow> bool" where
  "pc_writes Idle \<longleftrightarrow> False"
| "pc_writes Stopped \<longleftrightarrow> False"
| "pc_writes pc \<longleftrightarrow> \<not> pc_reads pc"

text \<open>Who does what: readers read and writers write, and only \<open>call_rcu\<close> queues callbacks.\<close>

definition role_inv :: "'l foo_config \<Rightarrow> 'l foo_state \<Rightarrow> bool" where
  "role_inv cf s \<longleftrightarrow> (\<forall>t. pc_reads (pcs s t) \<longrightarrow> t < cf_readers cf) \<and>
     (\<forall>t. pc_writes (pcs s t) \<longrightarrow> cf_readers cf \<le> t \<and> t < NUM_THREADS cf) \<and>
     (cf_reclaim cf = Synchronize \<longrightarrow> callbacks s = (\<lambda>_. None)) \<and> (\<forall>t \<ge> NUM_THREADS cf. pcs s t = Idle)"

lemma heap_invD:
  assumes "heap_inv s"
  shows "\<exists>g. gbl_foo s = Some g \<and> g \<in> dom (heap s)"
    and "p \<in> owned s i \<Longrightarrow> p \<in> dom (heap s)" and "p \<in> owned s i \<Longrightarrow> gbl_foo s \<noteq> Some p"
    and "p \<in> owned s i \<Longrightarrow> p \<in> owned s j \<Longrightarrow> i = j"
    and "next_ptr s \<notin> dom (heap s)" and "callbacks s (next_cb s) = None"
proof -
  from assms obtain g where g: "gbl_foo s = Some g" "dom (heap s) = insert g (\<Union>i. owned s i)" "\<And>i. g \<notin> owned s i"
      "\<And>i j. i \<noteq> j \<Longrightarrow> owned s i \<inter> owned s j = {}" "\<forall>p \<ge> next_ptr s. p \<notin> dom (heap s)" "\<forall>n \<ge> next_cb s. callbacks s n = None"
    unfolding heap_inv_def owners_ok_def by blast
  show "\<exists>g. gbl_foo s = Some g \<and> g \<in> dom (heap s)" "next_ptr s \<notin> dom (heap s)" "callbacks s (next_cb s) = None"
    using g(1,2,5,6) by simp_all
  show "p \<in> owned s i \<Longrightarrow> p \<in> dom (heap s)" unfolding g(2) by blast
  show "p \<in> owned s i \<Longrightarrow> gbl_foo s \<noteq> Some p" using g(1,3) by auto
  show "p \<in> owned s i \<Longrightarrow> p \<in> owned s j \<Longrightarrow> i = j" using g(4) [of i j] by auto
qed

lemma heap_inv_upd:
  assumes inv: "heap_inv s" and g: "gbl_foo s = Some g" "gbl_foo s' = Some g'" and own: "owned s' = (owned s)(i := B)"
    and others: "others = dom (heap s) - insert g (owned s i)" and live: "dom (heap s') = insert g' (B \<union> others)"
    and ok: "g' \<notin> others" "B \<inter> others = {}" "g' \<notin> B"
    and fresh: "\<forall>p \<ge> next_ptr s'. p \<notin> dom (heap s')" "\<forall>n \<ge> next_cb s'. callbacks s' n = None"
  shows "heap_inv s'"
proof -
  have "owners_ok (dom (heap s)) g (owned s)" using inv g(1) by (auto simp: heap_inv_def)
  from owners_ok_upd [OF this others ok] show ?thesis using g(2) fresh by (simp add: heap_inv_def own live)
qed

lemma thread_owned: "owned s (By_thread t) = pc_owned (pcs s t)"
  "owned s (By_callback n) = set_option (callbacks s n)"
  by (simp_all add: owned_def)

text \<open>A step that moves one thread without changing what is owned, or the heap's domain.\<close>

lemma heap_inv_goto:
  assumes "heap_inv s" and "pc_owned pc = pc_owned (pcs s t)"
  shows "heap_inv (goto t pc s)"
proof -
  have "owned (goto t pc s) = owned s" using assms(2) by (auto simp: fun_eq_iff thread_owned)
  then show ?thesis using assms(1) by (simp add: heap_inv_def)
qed

lemma heap_inv_frame [simp]:
  "heap_inv (s\<lparr>lk := l\<rparr>) = heap_inv s" "heap_inv (s\<lparr>foo_mutex := m\<rparr>) = heap_inv s" "heap_inv (s\<lparr>printed := ps\<rparr>) = heap_inv s"
  by (simp_all add: heap_inv_def)


text \<open>Every step a thread can make.\<close>

lemma lock_step_Runs: "lock_step lo t pc s = Runs s' \<longleftrightarrow> (\<exists>l. lo = Some l \<and> s' = goto t pc (s\<lparr>lk := l\<rparr>))"
  by (auto simp: lock_step_def split: option.split)

lemma thread_stepE:
  assumes "kthread_step cf ch t s = Runs s'" and "ch_alloc ch \<or> cf_oom cf"
  obtains (stop) "pcs s t = Idle" and "s' = goto t Stopped s"
  | (lock) l where "pcs s t = Idle" and "op_read_lock (cf_ops cf) t (lk s) = Some l" and "s' = goto t R_inside (s\<lparr>lk := l\<rparr>)"
      and "t < cf_readers cf"
  | (deref) "pcs s t = R_inside" and "s' = goto t (R_at (gbl_foo s)) s"
  | (load) p f where "pcs s t = R_at (Some p)" and "heap s p = Some f" and "s' = goto t (R_read (foo_a f)) s"
  | (unlock) v l where "pcs s t = R_read v" and "op_read_unlock (cf_ops cf) t (lk s) = Some l"
      and "s' = goto t Idle (s\<lparr>printed := Print_reader t v # printed s, lk := l\<rparr>)"
  | (new) v f where "pcs s t = Idle"
      and "s' = goto t (W_new (Some (next_ptr s)) v) (s\<lparr>printed := Print_writer t v # printed s,
             heap := (heap s)(next_ptr s \<mapsto> f), next_ptr := Suc (next_ptr s)\<rparr>)" and "cf_readers cf \<le> t"
  | (oom) v where "pcs s t = Idle" and "cf_oom cf" and "s' = goto t (W_new None v) (s\<lparr>printed := Print_writer t v # printed s\<rparr>)"
      and "cf_readers cf \<le> t"
  | (take) n v where "pcs s t = W_new n v" and "foo_mutex s = None" and "s' = goto t (W_held n v) (s\<lparr>foo_mutex := Some t\<rparr>)"
  | (old) n v where "pcs s t = W_held n v" and "s' = goto t (W_old n (gbl_foo s) v) s"
  | (copy) n p v x f where "pcs s t = W_old (Some n) (Some p) v" and "heap s n = Some x" and "heap s p = Some f"
      and "s' = goto t (W_copied n p v) (s\<lparr>heap := (heap s)(n \<mapsto> f)\<rparr>)"
  | (set) n p v f where "pcs s t = W_copied n p v" and "heap s n = Some f"
      and "s' = goto t (W_set n p) (s\<lparr>heap := (heap s)(n \<mapsto> f\<lparr>foo_a := v\<rparr>)\<rparr>)"
  | (publish) n p where "pcs s t = W_set n p" and "s' = goto t (W_swapped p) (s\<lparr>gbl_foo := Some n\<rparr>)"
  | (drop) p where "pcs s t = W_swapped p" and "s' = goto t (W_unlocked p) (s\<lparr>foo_mutex := None\<rparr>)"
  | (sync) p l where "pcs s t = W_unlocked p" and "op_sync_start (cf_ops cf) (By_thread t) (lk s) = Some l"
      and "s' = goto t (W_syncing p) (s\<lparr>lk := l\<rparr>)"
  | (call) p l where "pcs s t = W_unlocked p" and "op_sync_start (cf_ops cf) (By_callback (next_cb s)) (lk s) = Some l"
      and "s' = goto t Idle (s\<lparr>callbacks := (callbacks s)(next_cb s \<mapsto> p), next_cb := Suc (next_cb s), lk := l\<rparr>)"
      and "cf_reclaim cf = Call_rcu"
  | (synced) p l where "pcs s t = W_syncing p" and "op_sync_end (cf_ops cf) (By_thread t) (lk s) = Some l"
      and "s' = goto t (W_synced p) (s\<lparr>lk := l\<rparr>)"
  | (free) p where "pcs s t = W_synced p" and "heap s p \<noteq> None" and "s' = goto t Idle (s\<lparr>heap := (heap s)(p := None)\<rparr>)"
proof -
  note step = assms(1) [unfolded kthread_step_def foo_get_a_def foo_update_a_def foo_retire_def kfree_def Let_def]
  show thesis
  proof (cases "pcs s t")
    case Idle
    then show thesis using step assms(2) stop lock new oom
      by (auto simp: lock_step_Runs split: if_split_asm)
  next
    case (R_at po)
    then show thesis using step load
      by (cases po) (auto split: if_split_asm option.split_asm)
  next
    case (W_old no oo v)
    then show thesis using step copy
      by (cases no; cases oo) (auto split: if_split_asm option.split_asm)
  next
    case (W_unlocked p)
    then show thesis using step sync call
      by (auto simp: lock_step_Runs split: if_split_asm reclaim.split_asm)
  qed (use step deref unlock take old set publish drop synced free in
    \<open>auto simp: lock_step_Runs split: if_split_asm option.split_asm\<close>)
qed


lemma heap_inv_write:
  assumes "heap_inv s" and "heap s n = Some x"
  shows "heap_inv (s\<lparr>heap := (heap s)(n \<mapsto> f)\<rparr>)"
  using assms by (simp add: heap_inv_def insert_absorb domI)

lemma heap_inv_new:
  assumes inv: "heap_inv s" and "pc_owned (pcs s t) = {}"
  shows "heap_inv (goto t (W_new (Some (next_ptr s)) v) (s\<lparr>heap := (heap s)(next_ptr s \<mapsto> f), next_ptr := Suc (next_ptr s)\<rparr>))"
proof -
  obtain g where g: "gbl_foo s = Some g" "g \<in> dom (heap s)" using heap_invD(1) [OF inv] by blast
  have mine: "owned s (By_thread t) = {}" using assms(2) by (simp add: thread_owned)
  show ?thesis
    using g heap_invD(5) [OF inv] inv
    by (intro heap_inv_upd [OF inv g(1), where g' = g and i = "By_thread t" and B = "{next_ptr s}" and others = "dom (heap s) - {g}"])
      (auto simp: mine heap_inv_def)
qed

lemma heap_inv_publish:
  assumes inv: "heap_inv s" and at: "pcs s t = W_set n p" and old: "gbl_foo s = Some p"
  shows "heap_inv (goto t (W_swapped p) (s\<lparr>gbl_foo := Some n\<rparr>))"
proof -
  have mine: "owned s (By_thread t) = {n}" using at by (simp add: thread_owned)
  then have n: "p \<noteq> n" "n \<in> dom (heap s)" "p \<in> dom (heap s)" using heap_invD(1,2,3) [OF inv] old by fastforce+
  show ?thesis
    using n inv
    by (intro heap_inv_upd [OF inv old, where g' = n and i = "By_thread t" and B = "{p}" and others = "dom (heap s) - {p, n}"])
      (auto simp: mine heap_inv_def)
qed

lemma heap_inv_free:
  assumes inv: "heap_inv s" and own: "owned s i = {p}" and "owned s' = (owned s)(i := {})"
    and "heap s' = (heap s)(p := None)" and "gbl_foo s' = gbl_foo s" and "next_ptr s' = next_ptr s"
    and "\<forall>n \<ge> next_cb s'. callbacks s' n = None"
  shows "heap_inv s'"
proof -
  obtain g where g: "gbl_foo s = Some g" "g \<in> dom (heap s)" using heap_invD(1) [OF inv] by blast
  have "g \<noteq> p" using heap_invD(3) [OF inv, of p i] own g(1) by auto
  then show ?thesis
    using g inv assms(3-7)
    by (intro heap_inv_upd [OF inv g(1), where g' = g and i = i and B = "{}" and others = "dom (heap s) - {g, p}"])
      (auto simp: own heap_inv_def)
qed

lemma heap_inv_call:
  assumes inv: "heap_inv s" and at: "pcs s t = W_unlocked p"
  shows "heap_inv (goto t Idle (s\<lparr>callbacks := (callbacks s)(next_cb s \<mapsto> p), next_cb := Suc (next_cb s)\<rparr>))"
proof -
  have mine: "owned s (By_thread t) = {p}" using at by (simp add: thread_owned)
  obtain g f where g: "gbl_foo s = Some g" "g \<in> dom (heap s)" "heap s p = Some f"
    using heap_invD(1,2) [OF inv] mine by fastforce
  have "g \<noteq> p" using heap_invD(3) [OF inv, of p "By_thread t"] mine g(1) by auto
  let ?s1 = "goto t Idle (s\<lparr>heap := (heap s)(p := None)\<rparr>)"
  let ?s2 = "goto t Idle (s\<lparr>callbacks := (callbacks s)(next_cb s \<mapsto> p), next_cb := Suc (next_cb s)\<rparr>)"
  have inv1: "heap_inv ?s1"
    by (rule heap_inv_free [OF inv mine]) (use inv in \<open>auto simp: heap_inv_def\<close>)
  have none: "owned s (By_callback (next_cb s)) = {}" using heap_invD(6) [OF inv] by (simp add: thread_owned)
  have g1: "gbl_foo ?s1 = Some g" using g by simp
  show ?thesis
    using g \<open>g \<noteq> p\<close> inv
    by (intro heap_inv_upd [OF inv1 g1, where g' = g and i = "By_callback (next_cb s)" and B = "{p}"
          and others = "dom (heap s) - {g, p}" and s' = ?s2])
      (auto simp: none heap_inv_def simp del: owned_simps simp add: owned_simps fun_upd_twist)
qed

lemma heap_inv_lk [simp]: "heap_inv (goto t pc (s\<lparr>lk := l\<rparr>)) = heap_inv (goto t pc s)"
  by (simp add: heap_inv_def)

lemma heap_inv_thread:
  assumes inv: "heap_inv s" and mx: "mutex_inv s" and step: "kthread_step cf ch t s = Runs s'" and ch: "ch_alloc ch \<or> cf_oom cf"
  shows "heap_inv s'"
  using step ch
proof (cases rule: thread_stepE)
  case (new v f)
  then show ?thesis using heap_inv_new [of "s\<lparr>printed := Print_writer t v # printed s\<rparr>" t v f] inv by simp
next
  case (copy n p v x f)
  then show ?thesis using heap_inv_write [OF inv copy(2), of f] by (auto intro!: heap_inv_goto)
next
  case (set n p v f)
  then show ?thesis using heap_inv_write [OF inv set(2), of "f\<lparr>foo_a := v\<rparr>"] by (auto intro!: heap_inv_goto)
next
  case (publish n p)
  then have "Some p \<in> pc_old (pcs s t)" by simp
  then have "gbl_foo s = Some p" using mx unfolding mutex_inv_def by metis
  then show ?thesis using publish heap_inv_publish [OF inv] by simp
next
  case (call p l)
  then show ?thesis using heap_inv_call [OF inv] by simp
next
  case (free p)
  then show ?thesis using inv
    by (intro heap_inv_free [OF inv, of "By_thread t" p]) (auto simp: thread_owned heap_inv_def)
qed (auto intro!: heap_inv_goto simp: inv)

lemma reclaimE:
  assumes "foo_reclaim ops n s = Runs s'"
  obtains p l where "callbacks s n = Some p" and "op_sync_end ops (By_callback n) (lk s) = Some l" and "heap s p \<noteq> None"
    and "s' = s\<lparr>lk := l, callbacks := (callbacks s)(n := None), heap := (heap s)(p := None)\<rparr>"
  using assms by (auto simp: foo_reclaim_def kfree_def split: option.split_asm if_split_asm)

lemma heap_inv_reclaim:
  assumes inv: "heap_inv s" and step: "foo_reclaim ops n s = Runs s'"
  shows "heap_inv s'"
  using step
proof (cases rule: reclaimE)
  case (1 p l)
  then show ?thesis
    by (intro heap_inv_free [OF inv, of "By_callback n" p]) (use inv in \<open>auto simp: fun_eq_iff owned_def heap_inv_def split: gp_id.split\<close>)
qed

lemma mutex_inv_step:
  assumes "mutex_inv s" and "foo_step cf s s'"
  shows "mutex_inv s'"
  using assms(2)
proof (cases rule: foo_step.cases)
  case (thread t ch)
  have h: "pc_holds (pcs s u) \<longleftrightarrow> foo_mutex s = Some u" "p \<in> pc_old (pcs s u) \<Longrightarrow> p = gbl_foo s" for u p
    using assms(1) by (auto simp: mutex_inv_def)
  note ht = h(1) [of t] h(2) [of _ t]
  have o: "p \<in> pc_old pc \<Longrightarrow> pc_holds pc" for p pc by (cases pc) auto
  from thread(3,2) show ?thesis
  proof (cases rule: thread_stepE)
    case (publish n p)
    then have mine: "foo_mutex s = Some t" using h(1) [of t] by simp
    then have none: "p \<notin> pc_old (pcs s u)" if "u \<noteq> t" for u p using that o [of p "pcs s u"] h(1) [of u] by auto
    then show ?thesis using publish h(1) none mine by (auto simp: mutex_inv_def)
  qed (use h ht in \<open>auto simp: mutex_inv_def\<close>)
next
  case (callback n)
  then show ?thesis using assms(1) by (elim reclaimE) (simp add: mutex_inv_def)
qed

lemma alloc_inv_step:
  assumes "alloc_inv cf s" and "heap_inv s" and "foo_step cf s s'"
  shows "alloc_inv cf s'"
  using assms(3)
proof (cases rule: foo_step.cases)
  case (thread t ch)
  from thread(3,2) show ?thesis
    by (cases rule: thread_stepE) (use assms(1) in \<open>auto simp: alloc_inv_def dest: spec [of _ t]\<close>)
next
  case (callback n)
  then show ?thesis using assms(1) by (elim reclaimE) (simp add: alloc_inv_def)
qed


lemma role_inv_step:
  assumes inv: "role_inv cf s" and step: "foo_step cf s s'"
  shows "role_inv cf s'"
  using step
proof (cases rule: foo_step.cases)
  case (thread t ch)
  from thread(3,2) show ?thesis
    by (cases rule: thread_stepE) (use inv thread(1) in \<open>auto simp: role_inv_def NUM_THREADS_def\<close>)
next
  case (callback n)
  then show ?thesis using inv by (elim reclaimE) (auto simp: role_inv_def)
qed

subsection \<open>Readers\<close>

lemma known_mono:
  assumes "known waits s u p" and "\<And>q. gbl_foo s = Some q \<Longrightarrow> known waits s' u q"
    and "\<And>v q. q \<in> pc_pending (pcs s v) \<Longrightarrow> known waits s' u q"
    and "\<And>i q. q \<in> waited s i \<Longrightarrow> u \<in> waits (lk s) i \<Longrightarrow> known waits s' u q"
  shows "known waits s' u p"
  using assms unfolding known_def by blast

lemma known_waited: "p \<in> waited s i \<Longrightarrow> u \<in> waits (lk s) i \<Longrightarrow> known waits s u p"
  unfolding known_def by blast

lemma known_pending: "p \<in> pc_pending (pcs s v) \<Longrightarrow> known waits s u p"
  unfolding known_def by blast

lemma known_gbl: "gbl_foo s = Some p \<Longrightarrow> known waits s u p"
  unfolding known_def by blast

lemma known_same:
  assumes "gbl_foo s' = gbl_foo s" and "\<And>v. pc_pending (pcs s' v) = pc_pending (pcs s v)" and "waited s' = waited s"
    and "\<And>i. u \<in> waits (lk s) i \<Longrightarrow> u \<in> waits (lk s') i" and "known waits s u p"
  shows "known waits s' u p"
  using assms unfolding known_def by metis

lemma waited_thread: "waited s (By_thread t) = pc_waited (pcs s t)" "waited s (By_callback n) = set_option (callbacks s n)"
  by (simp_all add: waited_def)

context grace_period
begin

text \<open>What a step does to what a reader \<open>u\<close> inside its critical section knows.\<close>

lemma known_thread:
  assumes ops: "cf_ops cf = ops" and step: "kthread_step cf ch t s = Runs s'" and ch: "ch_alloc ch \<or> cf_oom cf"
    and mx: "mutex_inv s" and hp: "heap_inv s" and cnt: "\<And>v. pc_reads (pcs s v) \<Longrightarrow> v \<in># inside (lk s)"
    and u: "pc_reads (pcs s u)" "u \<noteq> t \<or> \<not> (\<exists>v. pcs s t = R_read v)" and k: "known waits s u p"
  shows "known waits s' u p"
  using step ch
proof (cases rule: thread_stepE)
  case (lock l)
  show ?thesis
    by (rule known_same [OF _ _ _ _ k]) (use lock waits_steps(1) ops in \<open>auto simp: fun_eq_iff waited_thread\<close>)
next
  case (unlock v l)
  have "t \<in># inside (lk s)" "u \<noteq> t" using cnt u unlock by auto
  then show ?thesis
    by (intro known_same [OF _ _ _ _ k]) (use unlock waits_steps(2) ops in \<open>auto simp: fun_eq_iff waited_thread\<close>)
next
  case (publish n q)
  have "Some q \<in> pc_old (pcs s t)" using publish by simp
  then have g: "gbl_foo s = Some q" using mx unfolding mutex_inv_def by metis
  show ?thesis
  proof (rule known_mono [OF k])
    fix x assume "gbl_foo s = Some x"
    then show "known waits s' u x" using g publish by (intro known_pending [of _ _ t]) simp
  next
    fix v x assume "x \<in> pc_pending (pcs s v)"
    then show "known waits s' u x" using publish by (intro known_pending [of _ _ v]) auto
  next
    fix i x assume "x \<in> waited s i" "u \<in> waits (lk s) i"
    then show "known waits s' u x" using publish by (intro known_waited [of _ _ i]) (auto simp: waited_thread)
  qed
next
  case (sync q l)
  show ?thesis
  proof (rule known_mono [OF k])
    fix v x assume "x \<in> pc_pending (pcs s v)"
    then show "known waits s' u x"
      using sync waits_steps(3) [of "By_thread t" "lk s" l u] cnt u ops
      by (cases "v = t") (auto intro: known_waited [of _ _ "By_thread t"] known_pending [of _ _ v])
  next
    fix i x assume "x \<in> waited s i" "u \<in> waits (lk s) i"
    moreover have "i \<noteq> By_thread t" using calculation(1) sync(1) by (auto simp: waited_thread)
    ultimately show "known waits s' u x"
      using sync waits_steps(4) [of "By_thread t" "lk s" l i u] ops
      by (intro known_waited [of _ _ i]) (auto simp: waited_thread)
  qed (use sync in \<open>auto intro: known_gbl\<close>)
next
  case (call q l)
  have new: "waited s (By_callback (next_cb s)) = {}" using heap_invD(6) [OF hp] by (simp add: waited_thread)
  show ?thesis
  proof (rule known_mono [OF k])
    fix v x assume "x \<in> pc_pending (pcs s v)"
    then show "known waits s' u x"
      using call waits_steps(3) [of "By_callback (next_cb s)" "lk s" l u] cnt u ops
      by (cases "v = t") (auto intro: known_waited [of _ _ "By_callback (next_cb s)"] known_pending [of _ _ v])
  next
    fix i x assume "x \<in> waited s i" "u \<in> waits (lk s) i"
    moreover have "i \<noteq> By_callback (next_cb s)" using calculation(1) new by auto
    ultimately show "known waits s' u x"
      using call new waits_steps(4) [of "By_callback (next_cb s)" "lk s" l i u] ops
      by (intro known_waited [of _ _ i]) (auto simp: waited_thread)
  qed (use call in \<open>auto intro: known_gbl\<close>)
next
  case (synced q l)
  show ?thesis
  proof (rule known_mono [OF k])
    fix i x assume "x \<in> waited s i" "u \<in> waits (lk s) i"
    moreover have "i \<noteq> By_thread t"
      using calculation(2) synced waits_steps(6) [of "By_thread t" "lk s" l u] ops by auto
    ultimately show "known waits s' u x"
      using synced waits_steps(5) [of "By_thread t" "lk s" l i u] ops
      by (intro known_waited [of _ _ i]) (auto simp: waited_thread)
  next
    fix v x assume "x \<in> pc_pending (pcs s v)"
    then show "known waits s' u x" using synced by (intro known_pending [of _ _ v]) auto
  qed (use synced in \<open>auto intro: known_gbl\<close>)
qed (rule known_same [OF _ _ _ _ k]; use waited_thread [of s t] in \<open>auto simp: fun_eq_iff\<close>)+

lemma known_reclaim:
  assumes step: "foo_reclaim ops n s = Runs s'" and k: "known waits s u p"
  shows "known waits s' u p"
  using step
proof (cases rule: reclaimE)
  case (1 q l)
  have w: "waited s' = (waited s)(By_callback n := {})"
    unfolding 1(4) by (auto simp: fun_eq_iff waited_def split: gp_id.split)
  show ?thesis
  proof (rule known_mono [OF k])
    fix i x assume "x \<in> waited s i" "u \<in> waits (lk s) i"
    moreover have "i \<noteq> By_callback n"
      using calculation(2) waits_steps(6) [OF 1(2), of u] by auto
    ultimately show "known waits s' u x"
      using waits_steps(5) [OF 1(2), of i u] 1 w by (intro known_waited [of _ _ i]) auto
  next
    fix v x assume "x \<in> pc_pending (pcs s v)"
    then show "known waits s' u x" using 1 by (intro known_pending [of _ _ v]) auto
  qed (use 1 in \<open>auto intro: known_gbl\<close>)
qed

lemma reader_inv_step:
  assumes ops: "cf_ops cf = ops" and step: "foo_step cf s s'" and inv: "reader_inv inside waits s"
    and mx: "mutex_inv s" and hp: "heap_inv s"
  shows "reader_inv inside waits s'"
proof -
  have cnt: "count (inside (lk s)) t = (if pc_reads (pcs s t) then 1 else 0)" for t using inv by (simp add: reader_inv_def)
  have ins: "pc_reads (pcs s v) \<Longrightarrow> v \<in># inside (lk s)" for v using cnt [of v] by (metis count_eq_zero_iff one_neq_zero)
  have at: "pcs s t = R_at po \<Longrightarrow> \<exists>p. po = Some p \<and> known waits s t p" for t po using inv by (simp add: reader_inv_def)
  obtain g where g: "gbl_foo s = Some g" using heap_invD(1) [OF hp] by blast
  from step show ?thesis
  proof (cases rule: foo_step.cases)
    case (thread t ch)
    have c: "count (inside (lk s')) u = (if pc_reads (pcs s' u) then 1 else 0)" for u
      using thread(3,2)
    proof (cases rule: thread_stepE)
      case (lock l)
      then show ?thesis using cnt [of u] inside_steps(1) [of t "lk s" l u] ops by auto
    next
      case (unlock v l)
      moreover have "t \<in># inside (lk s)" using ins [of t] unlock by simp
      ultimately show ?thesis using cnt [of u] inside_steps(2) [of t "lk s" l u] ops by auto
    qed (use cnt [of u] inside_steps(3,4) ops in auto)
    moreover have "\<exists>p. po = Some p \<and> known waits s' u p" if u: "pcs s' u = R_at po" for u po
    proof (cases "pcs s t = R_inside \<and> u = t")
      case True
      then have "s' = goto t (R_at (gbl_foo s)) s"
        using thread(3) ops by (auto simp: kthread_step_def foo_get_a_def foo_update_a_def split: if_split_asm)
      then show ?thesis using u g True by (auto intro!: known_gbl)
    next
      case False
      have old: "pcs s u = R_at po" "u \<noteq> t"
        using thread(3,2) u False by (cases rule: thread_stepE; auto split: if_split_asm)+
      then obtain p where p: "po = Some p" "known waits s u p" using at by blast
      then show ?thesis using known_thread [OF ops thread(3,2) mx hp ins _ _ p(2)] old by auto
    qed
    ultimately show ?thesis by (simp add: reader_inv_def)
  next
    case (callback n)
    then obtain p l where r: "op_sync_end ops (By_callback n) (lk s) = Some l" "lk s' = l" "pcs s' = pcs s"
      using ops by (auto elim!: reclaimE)
    then show ?thesis
      using inv inside_steps(4) known_reclaim [OF callback [unfolded ops]] by (fastforce simp: reader_inv_def)
  qed
qed

text \<open>The whole invariant, for every reachable state.\<close>

definition foo_inv :: "'l foo_config \<Rightarrow> 'l foo_state \<Rightarrow> bool" where
  "foo_inv cf s \<longleftrightarrow> heap_inv s \<and> mutex_inv s \<and> alloc_inv cf s \<and> role_inv cf s \<and> reader_inv inside waits s"

lemma foo_inv_reachable:
  assumes "foo_reachable cf s0 s" and "cf_ops cf = ops" and "foo_inv cf s0"
  shows "foo_inv cf s"
  using assms
proof (induction rule: foo_reachable.induct)
  case (step s s')
  then have inv: "heap_inv s" "mutex_inv s" "alloc_inv cf s" "reader_inv inside waits s" "role_inv cf s"
    by (simp_all add: foo_inv_def)
  have "heap_inv s'"
    using step(2) by (cases rule: foo_step.cases) (use inv heap_inv_thread heap_inv_reclaim in blast)+
  then show ?case
    using mutex_inv_step [OF inv(2) step(2)] alloc_inv_step [OF inv(3,1) step(2)] reader_inv_step [OF step(4,2) inv(4,2,1)]
      role_inv_step [OF inv(5) step(2)]
    by (simp add: foo_inv_def)
qed

lemma foo_inv_started:
  assumes "inside l = {#}"
  shows "foo_inv cf (foo_started l junk)"
proof -
  let ?s = "foo_started l junk"
  have f: "pcs ?s = (\<lambda>_. Idle)" "callbacks ?s = (\<lambda>_. None)" "gbl_foo ?s = Some 0" "foo_mutex ?s = None" "lk ?s = l"
      "dom (heap ?s) = {0}" "next_ptr ?s = 1"
    by (simp_all add: foo_started_def foo_module_def init_foo_def)
  have "owned ?s = (\<lambda>_. {})" by (auto simp: fun_eq_iff owned_def f split: gp_id.split)
  then show ?thesis
    using assms by (simp add: foo_inv_def heap_inv_def owners_ok_def mutex_inv_def alloc_inv_def role_inv_def reader_inv_def f)
qed

text \<open>No thread follows NULL or a freed structure, and nothing is freed twice.\<close>

lemma no_fault:
  assumes inv: "foo_inv cf s" and oom: "\<not> cf_oom cf"
  shows "\<not> foo_faults cf s"
proof
  note hp = heap_invD [of s]
  have i: "heap_inv s" "mutex_inv s" "alloc_inv cf s" "reader_inv inside waits s" using inv by (simp_all add: foo_inv_def)
  have own: "p \<in> pc_owned (pcs s t) \<Longrightarrow> \<exists>f. heap s p = Some f" for p t
    using hp(2) [OF i(1), of p "By_thread t"] by (auto simp: thread_owned)
  have cb: "callbacks s n = Some p \<Longrightarrow> \<exists>f. heap s p = Some f" for p n
    using hp(2) [OF i(1), of p "By_callback n"] by (auto simp: thread_owned)
  have new: "None \<notin> pc_new (pcs s t)" for t using i(3) oom by (auto simp: alloc_inv_def)
  have old: "p \<in> pc_old (pcs s t) \<Longrightarrow> \<exists>g f. p = Some g \<and> heap s g = Some f" for p t
    using i(2) hp(1) [OF i(1)] by (fastforce simp: mutex_inv_def)
  have live: "known waits s t p \<Longrightarrow> \<exists>f. heap s p = Some f" for t p
  proof -
    have "p \<in> waited s j \<Longrightarrow> p \<in> owned s j" for j
      using pc_waited_owned(1) by (cases j) (auto simp: waited_thread thread_owned)
    moreover have "p \<in> pc_pending (pcs s u) \<Longrightarrow> p \<in> owned s (By_thread u)" for u
      using pc_waited_owned(2) by (auto simp: thread_owned)
    ultimately show "known waits s t p \<Longrightarrow> \<exists>f. heap s p = Some f"
      using hp(1,2) [OF i(1)] unfolding known_def by (metis domD option.sel)
  qed
  have at: "pcs s t = R_at po \<Longrightarrow> \<exists>f. Option.bind po (heap s) = Some f" for t po
    using i(4) live unfolding reader_inv_def by fastforce
  assume "foo_faults cf s"
  then consider (t) t ch where "kthread_step cf ch t s = Faults" | (c) n where "foo_reclaim (cf_ops cf) n s = Faults"
    unfolding foo_faults_def by blast
  then show False
  proof cases
    case (t t ch)
    show False
    proof (cases "pcs s t")
      case (R_at po)
      then show False using t at by (fastforce simp: kthread_step_def foo_get_a_def foo_update_a_def split: if_split_asm)
    next
      case (W_old no oo v)
      then obtain n g where "no = Some n" "oo = Some g" using new [of t] old [of oo t] by (cases no) auto
      then show False using t W_old own [of n t] old [of oo t]
        by (auto simp: kthread_step_def foo_get_a_def foo_update_a_def split: if_split_asm)
    next
      case (W_copied n p v)
      then show False using t own [of n t] by (auto simp: kthread_step_def foo_get_a_def foo_update_a_def split: if_split_asm)
    next
      case (W_synced p)
      then show False using t own [of p t]
        by (auto simp: kthread_step_def foo_get_a_def foo_update_a_def kfree_def split: if_split_asm)
    qed (use t in \<open>auto simp: kthread_step_def foo_get_a_def foo_update_a_def foo_retire_def lock_step_def Let_def
          split: if_split_asm option.split_asm reclaim.split_asm\<close>)
  next
    case (c n)
    then show False using cb by (fastforce simp: foo_reclaim_def kfree_def split: option.split_asm if_split_asm)
  qed
qed

text \<open>What is left when all threads have stopped: what queued callbacks will free.\<close>

lemma exit_leaves:
  assumes inv: "foo_inv cf s" and run: "exit_sample cf s = Runs s'"
  shows "dom (heap s') = ran (callbacks s) \<and> callbacks s' = callbacks s"
proof -
  have i: "heap_inv s" "role_inv cf s" using inv by (simp_all add: foo_inv_def)
  obtain g where g: "gbl_foo s = Some g" "dom (heap s) = insert g (\<Union>i. owned s i)" "\<And>i. g \<notin> owned s i"
    using i(1) unfolding heap_inv_def owners_ok_def by blast
  have idle: "pcs s t = Idle \<or> pcs s t = Stopped" for t
    using i(2) run by (cases "t < NUM_THREADS cf") (auto simp: exit_sample_def role_inv_def split: if_split_asm)
  have none: "owned s (By_thread t) = {}" for t using idle [of t] by (auto simp: thread_owned)
  have "p \<in> (\<Union>i. owned s i) \<longleftrightarrow> p \<in> ran (callbacks s)" for p
  proof
    assume "p \<in> (\<Union>i. owned s i)"
    then obtain i where "p \<in> owned s i" by blast
    then show "p \<in> ran (callbacks s)" using none by (cases i) (auto simp: thread_owned ran_def)
  next
    assume "p \<in> ran (callbacks s)"
    then obtain n where "callbacks s n = Some p" by (auto simp: ran_def)
    then have "p \<in> owned s (By_callback n)" by (simp add: thread_owned)
    then show "p \<in> (\<Union>i. owned s i)" by blast
  qed
  moreover have "g \<notin> (\<Union>i. owned s i)" using g(3) by blast
  moreover have "s' = s\<lparr>heap := (heap s)(g := None)\<rparr>"
    using run g(1) by (auto simp: exit_sample_def kfree_def split: if_split_asm)
  ultimately show ?thesis using g(2) by auto
qed

end

subsection \<open>Values\<close>

text \<open>The number every reader sees is the first one or one a writer has announced; \<open>b\<close> and \<open>c\<close> never change.\<close>

definition val_ok :: "'l foo_state \<Rightarrow> u32 \<Rightarrow> bool" where
  "val_ok s v \<longleftrightarrow> v = 5 \<or> (\<exists>t. Print_writer t v \<in> set (printed s))"

definition shared :: "'l foo_state \<Rightarrow> foo_ptr \<Rightarrow> bool" where
  "shared s p \<longleftrightarrow> gbl_foo s = Some p \<or> (\<exists>u. p \<in> pc_pending (pcs s u)) \<or> (\<exists>i. p \<in> waited s i)"

definition foo_ok :: "foo \<Rightarrow> 'l foo_state \<Rightarrow> foo_ptr \<Rightarrow> bool" where
  "foo_ok f0 s p \<longleftrightarrow> (\<exists>f. heap s p = Some f \<and> val_ok s (foo_a f) \<and> foo_b f = foo_b f0 \<and> foo_c f = foo_c f0)"

fun pc_ok :: "foo \<Rightarrow> 'l foo_state \<Rightarrow> foo_pc \<Rightarrow> bool" where
  "pc_ok f0 s (R_read v) \<longleftrightarrow> val_ok s v"
| "pc_ok f0 s (W_new n v) \<longleftrightarrow> val_ok s v"
| "pc_ok f0 s (W_held n v) \<longleftrightarrow> val_ok s v"
| "pc_ok f0 s (W_old n p v) \<longleftrightarrow> val_ok s v"
| "pc_ok f0 s (W_copied n p v) \<longleftrightarrow> val_ok s v \<and> foo_ok f0 s n"
| "pc_ok f0 s (W_set n p) \<longleftrightarrow> foo_ok f0 s n"
| "pc_ok f0 s _ \<longleftrightarrow> True"

definition prints_ok :: "print list \<Rightarrow> bool" where
  "prints_ok ps \<longleftrightarrow> (\<forall>new t v old. ps = new @ Print_reader t v # old \<longrightarrow> v = 5 \<or> (\<exists>u. Print_writer u v \<in> set old))"

definition val_inv :: "foo \<Rightarrow> 'l foo_state \<Rightarrow> bool" where
  "val_inv f0 s \<longleftrightarrow> (\<forall>p. shared s p \<longrightarrow> foo_ok f0 s p) \<and> (\<forall>t. pc_ok f0 s (pcs s t)) \<and> prints_ok (printed s)"

lemma prints_ok_Cons:
  "prints_ok (Print_writer t v # ps) = prints_ok ps"
  "prints_ok ps \<Longrightarrow> v = 5 \<or> (\<exists>u. Print_writer u v \<in> set ps) \<Longrightarrow> prints_ok (Print_reader t v # ps)"
  by (auto simp: prints_ok_def Cons_eq_append_conv) blast

lemma pc_ok_mono:
  assumes "pc_ok f0 s pc" and "\<And>v. val_ok s v \<Longrightarrow> val_ok s' v"
    and "\<And>n. n \<in> pc_owned pc \<Longrightarrow> foo_ok f0 s n \<Longrightarrow> foo_ok f0 s' n"
  shows "pc_ok f0 s' pc"
  using assms by (cases pc) auto

lemma foo_ok_mono:
  assumes "foo_ok f0 s p" and "heap s' p = heap s p" and "\<And>v. val_ok s v \<Longrightarrow> val_ok s' v"
  shows "foo_ok f0 s' p"
  using assms by (auto simp: foo_ok_def)

text \<open>A step of thread \<open>t\<close> that writes only what \<open>t\<close> owns.\<close>

lemma val_inv_upd:
  assumes inv: "val_inv f0 s" and hp: "heap_inv s" and pcs: "pcs s' = (pcs s)(t := pc)"
    and vals: "\<And>v. val_ok s v \<Longrightarrow> val_ok s' v"
    and heap: "\<And>p. p \<notin> pc_owned (pcs s t) \<Longrightarrow> p \<in> dom (heap s) \<Longrightarrow> heap s' p = heap s p"
    and shared: "\<And>p. shared s' p \<Longrightarrow> foo_ok f0 s' p"
    and pc: "pc_ok f0 s' pc" and prints: "prints_ok (printed s')"
  shows "val_inv f0 s'"
proof -
  have "pc_ok f0 s' (pcs s u)" if "u \<noteq> t" for u
  proof (rule pc_ok_mono [OF _ vals])
    show "pc_ok f0 s (pcs s u)" using inv by (simp add: val_inv_def)
    fix n assume n: "n \<in> pc_owned (pcs s u)" "foo_ok f0 s n"
    then have "n \<notin> pc_owned (pcs s t)" using heap_invD(4) [OF hp, of n "By_thread u" "By_thread t"] that by (auto simp: thread_owned)
    moreover have "n \<in> dom (heap s)" using n(2) by (auto simp: foo_ok_def)
    ultimately show "foo_ok f0 s' n" using foo_ok_mono [OF n(2) _ vals] heap by blast
  qed
  then show ?thesis using shared pc prints by (auto simp: val_inv_def pcs)
qed

lemma shared_not_private:
  assumes hp: "heap_inv s" and n: "n \<in> pc_owned (pcs s t)" and pv: "pc_pending (pcs s t) = {}" "pc_waited (pcs s t) = {}"
    and sh: "shared s p"
  shows "p \<noteq> n"
proof
  assume "p = n"
  have own: "n \<in> owned s (By_thread t)" using n by (simp add: thread_owned)
  from sh [unfolded \<open>p = n\<close> shared_def] show False
  proof (elim disjE exE)
    assume "gbl_foo s = Some n"
    then show False using heap_invD(3) [OF hp own] by simp
  next
    fix u assume u: "n \<in> pc_pending (pcs s u)"
    then have "n \<in> owned s (By_thread u)" using pc_waited_owned(2) by (auto simp: thread_owned)
    then have "u = t" using heap_invD(4) [OF hp own] by blast
    then show False using u pv by simp
  next
    fix i assume i: "n \<in> waited s i"
    then have "n \<in> owned s i" using pc_waited_owned(1) by (cases i) (auto simp: waited_thread thread_owned)
    then have "i = By_thread t" using heap_invD(4) [OF hp own] by blast
    then show False using i pv by (simp add: waited_thread)
  qed
qed

lemma shared_live:
  assumes "heap_inv s" and "shared s p"
  shows "p \<in> dom (heap s)"
proof -
  have "p \<in> waited s j \<Longrightarrow> p \<in> owned s j" for j
    using pc_waited_owned(1) by (cases j) (auto simp: waited_thread thread_owned)
  moreover have "p \<in> pc_pending (pcs s u) \<Longrightarrow> p \<in> owned s (By_thread u)" for u
    using pc_waited_owned(2) by (auto simp: thread_owned)
  ultimately show ?thesis using heap_invD(1,2) [OF assms(1)] assms(2) unfolding shared_def by (metis option.sel)
qed

lemma waited_old: "pcs s t = pc \<Longrightarrow> waited s (By_thread t) = pc_waited pc"
  by (simp add: waited_thread)

text \<open>The steps that leave the heap and what is shared alone.\<close>

lemma val_inv_quiet:
  assumes inv: "val_inv f0 s" and hp: "heap_inv s" and pcs: "pcs s' = (pcs s)(t := pc)" and heap: "heap s' = heap s"
    and new: "printed s' = ps @ printed s" and shared: "\<And>p. shared s' p \<Longrightarrow> shared s p"
    and pc: "pc_ok f0 s' pc" and prints: "prints_ok (printed s')"
  shows "val_inv f0 s'"
proof (rule val_inv_upd [OF inv hp pcs _ _ _ pc prints])
  have vals: "val_ok s v \<Longrightarrow> val_ok s' v" for v using new by (auto simp: val_ok_def)
  then show "val_ok s v \<Longrightarrow> val_ok s' v" for v .
  show "shared s' p \<Longrightarrow> foo_ok f0 s' p" for p
    using inv shared heap vals by (intro foo_ok_mono [of f0 s p s']) (auto simp: val_inv_def)
qed (simp add: heap)

lemma val_inv_thread:
  assumes inv: "val_inv f0 s" and hp: "heap_inv s" and mx: "mutex_inv s"
    and rd: "\<And>p. pcs s t = R_at (Some p) \<Longrightarrow> shared s p"
    and step: "kthread_step cf ch t s = Runs s'" and ch: "ch_alloc ch \<or> cf_oom cf"
  shows "val_inv f0 s'"
proof -
  have sh: "shared s p \<Longrightarrow> foo_ok f0 s p" and pc: "pc_ok f0 s (pcs s t)" and pr: "prints_ok (printed s)" for p
    using inv by (simp_all add: val_inv_def)
  have pc': "pc_ok f0 s pc" if "pcs s t = pc" for pc using pc that by simp
  from step ch show ?thesis
  proof (cases rule: thread_stepE)
    case (load p f)
    then have "val_ok s (foo_a f)" using rd sh by (fastforce simp: foo_ok_def)
    then show ?thesis using load pr
      by (intro val_inv_quiet [OF inv hp, where t = t]) (auto simp: shared_def waited_old val_ok_def split: if_split_asm)
  next
    case (unlock v l)
    then have "val_ok s v" using pc by simp
    then show ?thesis using unlock pr
      by (intro val_inv_quiet [OF inv hp, where t = t])
        (auto simp: shared_def waited_old val_ok_def intro: prints_ok_Cons(2) split: if_split_asm)
  next
    case (new v f)
    let ?s = "s\<lparr>printed := Print_writer t v # printed s, heap := (heap s)(next_ptr s \<mapsto> f), next_ptr := Suc (next_ptr s)\<rparr>"
    have fresh: "next_ptr s \<notin> dom (heap s)" using heap_invD(5) [OF hp] .
    have vals: "val_ok s x \<Longrightarrow> val_ok s' x" for x using new by (auto simp: val_ok_def)
    show ?thesis
    proof (rule val_inv_upd [OF inv hp, where t = t])
      show "pcs s' = (pcs s)(t := W_new (Some (next_ptr s)) v)" using new by simp
      show "heap s' p = heap s p" if "p \<in> dom (heap s)" for p using new fresh that by auto
      show "shared s' p \<Longrightarrow> foo_ok f0 s' p" for p
      proof -
        assume "shared s' p"
        then have p: "shared s p" using new by (auto simp: shared_def waited_old split: if_split_asm)
        then have "p \<noteq> next_ptr s" using shared_live [OF hp] fresh by blast
        then have "heap s' p = heap s p" using new by simp
        then show "foo_ok f0 s' p" using foo_ok_mono [OF sh [OF p] _ vals] by blast
      qed
      show "pc_ok f0 s' (W_new (Some (next_ptr s)) v)" using new by (auto simp: val_ok_def)
      show "prints_ok (printed s')" using new pr by (simp add: prints_ok_Cons)
    qed (use vals in simp)
  next
    case (oom v)
    then show ?thesis using pr
      by (intro val_inv_quiet [OF inv hp, where t = t])
        (auto simp: shared_def waited_old val_ok_def prints_ok_Cons split: if_split_asm)
  next
    case (copy n p v x f)
    have vals: "val_ok s' v = val_ok s v" for v using copy by (simp add: val_ok_def)
    have priv: "q \<noteq> n" if "shared s q" for q using shared_not_private [OF hp _ _ _ that, of n t] copy by simp
    have "Some p \<in> pc_old (pcs s t)" using copy by simp
    then have g: "gbl_foo s = Some p" using mx unfolding mutex_inv_def by metis
    then have "foo_ok f0 s p" by (intro sh) (simp add: shared_def)
    then have f: "foo_ok f0 s' n" using copy vals by (simp add: foo_ok_def)
    show ?thesis
    proof (rule val_inv_upd [OF inv hp, where t = t])
      show "pcs s' = (pcs s)(t := W_copied n p v)" using copy by simp
      show "pc_ok f0 s' (W_copied n p v)" using f pc' [OF copy(1)] by (simp add: vals)
      show "shared s' q \<Longrightarrow> foo_ok f0 s' q" for q
      proof -
        assume "shared s' q"
        then have q: "shared s q" using copy by (auto simp: shared_def waited_old split: if_split_asm)
        have "heap s' q = heap s q" using copy priv [OF q] by simp
        then show "foo_ok f0 s' q" by (rule foo_ok_mono [OF sh [OF q]]) (simp add: vals)
      qed
    qed (use copy pr vals in auto)
  next
    case (set n p v f)
    have vals: "val_ok s' v = val_ok s v" for v using set by (simp add: val_ok_def)
    have priv: "q \<noteq> n" if "shared s q" for q using shared_not_private [OF hp _ _ _ that, of n t] set by simp
    show ?thesis
    proof (rule val_inv_upd [OF inv hp, where t = t])
      show "pcs s' = (pcs s)(t := W_set n p)" using set by simp
      show "pc_ok f0 s' (W_set n p)" using vals [of v] pc' [OF set(1)] set(2,3) by (auto simp: foo_ok_def)
      show "shared s' q \<Longrightarrow> foo_ok f0 s' q" for q
      proof -
        assume "shared s' q"
        then have q: "shared s q" using set by (auto simp: shared_def waited_old split: if_split_asm)
        have "heap s' q = heap s q" using set priv [OF q] by simp
        then show "foo_ok f0 s' q" by (rule foo_ok_mono [OF sh [OF q]]) (simp add: vals)
      qed
    qed (use set pr vals in auto)
  next
    case (publish n p)
    have vals: "val_ok s' v = val_ok s v" and foos: "foo_ok f0 s' q = foo_ok f0 s q" for v q
      using publish by (simp_all add: val_ok_def foo_ok_def)
    have "Some p \<in> pc_old (pcs s t)" using publish by simp
    then have g: "gbl_foo s = Some p" using mx unfolding mutex_inv_def by metis
    show ?thesis
    proof (rule val_inv_upd [OF inv hp, where t = t])
      show "pcs s' = (pcs s)(t := W_swapped p)" using publish by simp
      show "shared s' q \<Longrightarrow> foo_ok f0 s' q" for q
      proof -
        assume "shared s' q"
        then have "q = n \<or> shared s q" using publish g by (auto simp: shared_def waited_old split: if_split_asm)
        then show "foo_ok f0 s' q" using sh pc' [OF publish(1)] foos by auto
      qed
    qed (use publish pr vals in auto)
  next
    case (free p)
    have vals: "val_ok s' v = val_ok s v" for v using free by (simp add: val_ok_def)
    have priv: "q \<noteq> p" if "shared s q" for q using shared_not_private [OF hp _ _ _ that, of p t] free by simp
    show ?thesis
    proof (rule val_inv_upd [OF inv hp, where t = t])
      show "pcs s' = (pcs s)(t := Idle)" using free by simp
      show "shared s' q \<Longrightarrow> foo_ok f0 s' q" for q
      proof -
        assume "shared s' q"
        then have q: "shared s q" using free by (auto simp: shared_def waited_old split: if_split_asm)
        have "heap s' q = heap s q" using free priv [OF q] by simp
        then show "foo_ok f0 s' q" by (rule foo_ok_mono [OF sh [OF q]]) (simp add: vals)
      qed
    qed (use free pr vals in auto)
  next
    case (call p l)
    have "p \<in> pc_pending (pcs s t)" using call by simp
    then have p: "shared s p" unfolding shared_def by blast
    have "shared s q" if "shared s' q" for q
      using that call p by (cases "q = p") (auto simp: shared_def waited_old split: if_split_asm)
    then show ?thesis using call pr
      by (intro val_inv_quiet [OF inv hp, where t = t]) auto
  next
    case stop
    then show ?thesis using pr
      by (intro val_inv_quiet [OF inv hp, where t = t]) (auto simp: shared_def waited_old val_ok_def split: if_split_asm)
  next
    case (lock l)
    then show ?thesis using pr
      by (intro val_inv_quiet [OF inv hp, where t = t]) (auto simp: shared_def waited_old val_ok_def split: if_split_asm)
  next
    case deref
    then show ?thesis using pr
      by (intro val_inv_quiet [OF inv hp, where t = t]) (auto simp: shared_def waited_old val_ok_def split: if_split_asm)
  next
    case (take n v)
    then show ?thesis using pr pc' [OF take(1)]
      by (intro val_inv_quiet [OF inv hp, where t = t]) (auto simp: shared_def waited_old val_ok_def split: if_split_asm)
  next
    case (old n v)
    then show ?thesis using pr pc' [OF old(1)]
      by (intro val_inv_quiet [OF inv hp, where t = t]) (auto simp: shared_def waited_old val_ok_def split: if_split_asm)
  next
    case (drop p)
    have "p \<in> pc_pending (pcs s t)" using drop by simp
    then have p: "shared s p" unfolding shared_def by blast
    have "shared s q" if "shared s' q" for q
      using that drop p by (cases "q = p") (auto simp: shared_def waited_old split: if_split_asm)
    then show ?thesis using drop pr by (intro val_inv_quiet [OF inv hp, where t = t]) auto
  next
    case (sync p l)
    have "p \<in> pc_pending (pcs s t)" using sync by simp
    then have p: "shared s p" unfolding shared_def by blast
    have "shared s q" if "shared s' q" for q
      using that sync p by (cases "q = p") (auto simp: shared_def waited_old split: if_split_asm)
    then show ?thesis using sync pr by (intro val_inv_quiet [OF inv hp, where t = t]) auto
  next
    case (synced p l)
    then show ?thesis using pr
      by (intro val_inv_quiet [OF inv hp, where t = t]) (auto simp: shared_def waited_old val_ok_def split: if_split_asm)
  qed
qed

lemma val_inv_reclaim:
  assumes inv: "val_inv f0 s" and hp: "heap_inv s" and step: "foo_reclaim ops n s = Runs s'"
  shows "val_inv f0 s'"
  using step
proof (cases rule: reclaimE)
  case (1 p l)
  have vals: "val_ok s' v = val_ok s v" for v using 1 by (simp add: val_ok_def)
  have own: "p \<in> owned s (By_callback n)" using 1(1) by (simp add: thread_owned)
  have mine: "q \<noteq> p" if "q \<in> owned s i" "i \<noteq> By_callback n" for q i using heap_invD(4) [OF hp own] that by blast
  have keep: "foo_ok f0 s q \<Longrightarrow> q \<noteq> p \<Longrightarrow> foo_ok f0 s' q" for q
    using foo_ok_mono [of f0 s q s'] 1(4) vals by simp
  have w: "waited s' = (waited s)(By_callback n := {})"
    unfolding 1(4) by (auto simp: fun_eq_iff waited_def split: gp_id.split)
  have "foo_ok f0 s' q" if "shared s' q" for q
  proof -
    have "q \<noteq> p"
      using that [unfolded shared_def w]
    proof (elim disjE exE)
      assume "gbl_foo s' = Some q"
      then show "q \<noteq> p" using 1(4) heap_invD(3) [OF hp own] by auto
    next
      fix u assume "q \<in> pc_pending (pcs s' u)"
      then have "q \<in> owned s (By_thread u)" using 1(4) pc_waited_owned(2) by (auto simp: thread_owned)
      then show "q \<noteq> p" using mine by blast
    next
      fix i assume "q \<in> ((waited s)(By_callback n := {})) i"
      then have "i \<noteq> By_callback n" "q \<in> owned s i"
        using pc_waited_owned(1) by (cases i; auto simp: waited_thread thread_owned split: if_split_asm)+
      then show "q \<noteq> p" using mine by blast
    qed
    moreover have "shared s q" using that 1(4) unfolding shared_def w by (auto split: if_split_asm)
    ultimately show ?thesis using inv keep by (simp add: val_inv_def)
  qed
  moreover have "pc_ok f0 s' (pcs s' t)" for t
  proof -
    have "pc_ok f0 s' (pcs s t)"
    proof (rule pc_ok_mono)
      show "pc_ok f0 s (pcs s t)" using inv by (simp add: val_inv_def)
      fix m assume "m \<in> pc_owned (pcs s t)" "foo_ok f0 s m"
      then show "foo_ok f0 s' m" using keep mine [of m "By_thread t"] by (simp add: thread_owned)
    qed (simp add: vals)
    then show ?thesis using 1(4) by simp
  qed
  moreover have "prints_ok (printed s')" using inv 1(4) by (simp add: val_inv_def)
  ultimately show ?thesis by (simp add: val_inv_def)
qed

context grace_period
begin

lemma val_inv_reachable:
  assumes "foo_reachable cf s0 s" and "cf_ops cf = ops" and "foo_inv cf s0" and "val_inv f0 s0"
  shows "val_inv f0 s"
  using assms
proof (induction rule: foo_reachable.induct)
  case (step s s')
  have inv: "foo_inv cf s" using foo_inv_reachable [OF step(1)] step by blast
  then have i: "heap_inv s" "mutex_inv s" "reader_inv inside waits s" by (simp_all add: foo_inv_def)
  have rd: "pcs s t = R_at (Some p) \<Longrightarrow> shared s p" for t p
    using i(3) unfolding reader_inv_def known_def shared_def by blast
  from step(2) show ?case
  proof (cases rule: foo_step.cases)
    case (thread t ch)
    show ?thesis by (rule val_inv_thread [OF _ i(1,2) rd thread(3,2)]) (use step in auto)
  next
    case (callback n)
    show ?thesis by (rule val_inv_reclaim [OF _ i(1) callback]) (use step in auto)
  qed
qed

end

lemma val_inv_started: "val_inv junk (foo_started l junk)"
proof -
  let ?s = "foo_started l junk"
  have f: "pcs ?s = (\<lambda>_. Idle)" "callbacks ?s = (\<lambda>_. None)" "gbl_foo ?s = Some 0" "heap ?s = [0 \<mapsto> junk\<lparr>foo_a := 5\<rparr>]"
      "printed ?s = []"
    by (simp_all add: foo_started_def foo_module_def init_foo_def)
  have "waited ?s = (\<lambda>_. {})" by (auto simp: fun_eq_iff waited_def f split: gp_id.split)
  then show ?thesis by (auto simp: val_inv_def shared_def f foo_ok_def val_ok_def prints_ok_def)
qed

subsection \<open>Progress\<close>

definition busy_inv :: "('l \<Rightarrow> gp_id set) \<Rightarrow> 'l foo_state \<Rightarrow> bool" where
  "busy_inv busy s \<longleftrightarrow> (\<forall>g. g \<in> busy (lk s) \<longleftrightarrow> waited s g \<noteq> {})"

definition active :: "foo_pc \<Rightarrow> bool" where
  "active pc \<longleftrightarrow> pc \<noteq> Idle \<and> pc \<noteq> Stopped"

lemma active_split: "active pc \<longleftrightarrow> pc_reads pc \<or> pc_writes pc"
  by (cases pc) (auto simp: active_def)

context live_grace_period
begin

lemma busy_inv_step:
  assumes ops: "cf_ops cf = ops" and inv: "busy_inv busy s" and hp: "heap_inv s" and step: "foo_step cf s s'"
  shows "busy_inv busy s'"
proof -
  have b: "g \<in> busy (lk s) \<longleftrightarrow> waited s g \<noteq> {}" for g using inv by (simp add: busy_inv_def)
  from step show ?thesis
  proof (cases rule: foo_step.cases)
    case (thread t ch)
    have new: "waited s (By_callback (next_cb s)) = {}" using heap_invD(6) [OF hp] by (simp add: waited_thread)
    from thread(3,2) show ?thesis
    proof (cases rule: thread_stepE)
      case (lock l)
      then show ?thesis using b lock_busy [of t "lk s" l] ops by (auto simp: busy_inv_def waited_old)
    next
      case (unlock v l)
      then show ?thesis using b unlock_busy [of t "lk s" l] ops by (auto simp: busy_inv_def waited_old)
    next
      case (sync p l)
      then show ?thesis using b start_busy [of "By_thread t" "lk s" l] ops by (auto simp: busy_inv_def waited_old)
    next
      case (call p l)
      then show ?thesis using b new start_busy [of "By_callback (next_cb s)" "lk s" l] ops
        by (auto simp: busy_inv_def waited_old)
    next
      case (synced p l)
      then show ?thesis using b end_busy [of "By_thread t" "lk s" l] ops by (auto simp: busy_inv_def waited_old)
    qed (use b in \<open>auto simp: busy_inv_def waited_old\<close>)
  next
    case (callback n)
    then show ?thesis
    proof (cases rule: reclaimE)
      case (1 p l)
      have w: "waited s' = (waited s)(By_callback n := {})"
        unfolding 1(4) by (auto simp: fun_eq_iff waited_def split: gp_id.split)
      show ?thesis using b end_busy [of "By_callback n" "lk s" l] ops 1 w by (auto simp: busy_inv_def)
    qed
  qed
qed

lemma busy_inv_reachable:
  assumes "foo_reachable cf s0 s" and "cf_ops cf = ops" and "foo_inv cf s0" and "busy_inv busy s0"
  shows "busy_inv busy s"
  using assms
proof (induction rule: foo_reachable.induct)
  case (step s s')
  have "heap_inv s" using foo_inv_reachable [OF step(1)] step by (simp add: foo_inv_def)
  then show ?case using busy_inv_step [OF step(4) _ _ step(2)] step by blast
qed

text \<open>Some active thread, or a callback, can make a step as long as a thread is active.\<close>

lemma progress:
  assumes ops: "cf_ops cf = ops" and inv: "foo_inv cf s" and bz: "busy_inv busy s" and oom: "\<not> cf_oom cf"
    and act: "active (pcs s t0)" and ch: "ch_alloc ch"
  shows "(\<exists>t s'. t < NUM_THREADS cf \<and> active (pcs s t) \<and> kthread_step cf ch t s = Runs s') \<or>
     (\<exists>n s'. foo_reclaim ops n s = Runs s')"
proof -
  have i: "mutex_inv s" "role_inv cf s" "reader_inv inside waits s" using inv by (simp_all add: foo_inv_def)
  have nf: "kthread_step cf ch t s \<noteq> Faults" if "t < NUM_THREADS cf" for t
    using no_fault [OF inv oom] ch that unfolding foo_faults_def by blast
  have nr: "foo_reclaim ops n s \<noteq> Faults" for n
    using no_fault [OF inv oom] ops unfolding foo_faults_def by blast
  have lt: "t < NUM_THREADS cf" if "active (pcs s t)" for t
    using i(2) that by (fastforce simp: role_inv_def active_split NUM_THREADS_def)
  have go: ?thesis if a: "active (pcs s t)" "kthread_step cf ch t s \<noteq> Waits" for t
  proof -
    obtain s' where "kthread_step cf ch t s = Runs s'" using a(2) nf [OF lt [OF a(1)]] by (cases "kthread_step cf ch t s") auto
    then show ?thesis using a(1) lt by blast
  qed
  show ?thesis
  proof (cases "\<exists>t. pc_reads (pcs s t)")
    case True
    then obtain t where t: "pc_reads (pcs s t)" by blast
    then have "t < cf_readers cf" using i(2) by (simp add: role_inv_def)
    moreover have "count (inside (lk s)) t = 1" using t i(3) by (simp add: reader_inv_def)
    then have "t \<in># inside (lk s)" by (metis count_inI zero_neq_one)
    then have "op_read_unlock ops t (lk s) \<noteq> None" by (rule leave_live)
    ultimately have "kthread_step cf ch t s \<noteq> Waits"
      using t ops by (cases "pcs s t") (auto simp: kthread_step_def foo_get_a_def lock_step_def split: option.split)
    then show ?thesis using go [of t] t by (simp add: active_split)
  next
    case False
    then have "count (inside (lk s)) u = 0" for u using i(3) by (simp add: reader_inv_def)
    then have none: "inside (lk s) = {#}" by (simp add: multiset_eq_iff)
    have wt: "waits (lk s) g = {}" for g using waits_inside [of "lk s" g] none by simp
    have writer: "cf_readers cf \<le> t" if "pc_writes (pcs s t)" for t using i(2) that by (simp add: role_inv_def)
    show ?thesis
    proof (cases "\<exists>t. pc_holds (pcs s t)")
      case True
      then obtain t where t: "pc_holds (pcs s t)" by blast
      then have w: "pc_writes (pcs s t)" by (cases "pcs s t") auto
      have "kthread_step cf ch t s \<noteq> Waits"
        using t writer [OF w] by (cases "pcs s t")
          (auto simp: kthread_step_def foo_update_a_def split: option.split)
      then show ?thesis using go [of t] w by (simp add: active_split)
    next
      case free: False
      have mx: "foo_mutex s = None" using i(1) free by (cases "foo_mutex s") (auto simp: mutex_inv_def)
      show ?thesis
      proof (cases "busy (lk s) = {}")
        case True
        have w: "pc_writes (pcs s t0)" using act False by (simp add: active_split)
        have st: "op_sync_start ops g (lk s) \<noteq> None" for g using start_live [OF none True] .
        have "pcs s t0 \<noteq> W_syncing p" for p using bz True waited_thread(1) [of s t0] by (auto simp: busy_inv_def)
        then have "kthread_step cf ch t0 s \<noteq> Waits"
          using w writer [OF w] mx st [of "By_thread t0"] st [of "By_callback (next_cb s)"] free ops by (cases "pcs s t0")
            (auto simp: kthread_step_def foo_update_a_def foo_retire_def kfree_def lock_step_def split: option.split reclaim.split)
        then show ?thesis using go act by blast
      next
        case False
        then obtain g where g: "g \<in> busy (lk s)" by blast
        obtain l where l: "op_sync_end ops g (lk s) = Some l" using end_live [OF g wt] by auto
        have wg: "waited s g \<noteq> {}" using bz g by (simp add: busy_inv_def)
        show ?thesis
        proof (cases g)
          case (By_thread t)
          then obtain p where p: "pcs s t = W_syncing p" using wg by (cases "pcs s t") (auto simp: waited_thread)
          have "kthread_step cf ch t s \<noteq> Waits"
            using p writer [of t] l By_thread ops by (simp add: kthread_step_def foo_update_a_def lock_step_def)
          then show ?thesis using go [of t] p by (simp add: active_def)
        next
          case (By_callback n)
          then obtain p where "callbacks s n = Some p" using wg by (auto simp: waited_thread)
          then have "foo_reclaim ops n s \<noteq> Waits" using l By_callback by (simp add: foo_reclaim_def kfree_def)
          then show ?thesis using nr [of n] by (cases "foo_reclaim ops n s") auto
        qed
      qed
    qed
  qed
qed

end

lemma busy_inv_started: "busy l = {} \<Longrightarrow> busy_inv busy (foo_started l junk)"
proof -
  assume b: "busy l = {}"
  let ?s = "foo_started l junk"
  have f: "pcs ?s = (\<lambda>_. Idle)" "callbacks ?s = (\<lambda>_. None)" "lk ?s = l"
    by (simp_all add: foo_started_def foo_module_def init_foo_def)
  have "waited ?s = (\<lambda>_. {})" by (auto simp: fun_eq_iff waited_def f split: gp_id.split)
  then show ?thesis using b by (simp add: busy_inv_def f)
qed

end
