(* ===== verification/Rcu_Correct.thy ===== *)
theory Rcu_Correct
  imports Rcu_Invariants
begin

text \<open>
  The correctness of the three read-copy-update samples: memory safety, progress, the values readers
  see, what unloading leaves behind, and what a failed allocation does.
\<close>

subsection \<open>Properties\<close>

text \<open>
  The three samples. \<open>sample_use.c\<close> runs on the toy implementation; the other two run on that of the
  kernel, which is the argument \<open>ops\<close>.
\<close>

definition toy_config :: "rwlock foo_config" where
  "toy_config = \<lparr>cf_ops = toy_ops, cf_readers = 2, cf_reclaim = Synchronize, cf_oom = False\<rparr>"

definition sync_config :: "'l rcu_ops \<Rightarrow> 'l foo_config" where
  "sync_config ops = \<lparr>cf_ops = ops, cf_readers = 10, cf_reclaim = Synchronize, cf_oom = False\<rparr>"

definition call_config :: "'l rcu_ops \<Rightarrow> 'l foo_config" where
  "call_config ops = \<lparr>cf_ops = ops, cf_readers = 10, cf_reclaim = Call_rcu, cf_oom = False\<rparr>"

text \<open>Running threads in a given order.\<close>

fun foo_run :: "'l foo_config \<Rightarrow> (tid \<times> foo_choice) list \<Rightarrow> 'l foo_state \<Rightarrow> 'l foo_state option" where
  "foo_run cf [] s = Some s"
| "foo_run cf ((t, ch) # ts) s =
     (if t < NUM_THREADS cf \<and> (ch_alloc ch \<or> cf_oom cf)
      then case kthread_step cf ch t s of Runs s1 \<Rightarrow> foo_run cf ts s1 | _ \<Rightarrow> None
      else None)"

lemma foo_run_reachable: "foo_reachable cf s0 s \<Longrightarrow> foo_run cf ts s = Some s' \<Longrightarrow> foo_reachable cf s0 s'"
proof (induction ts arbitrary: s)
  case (Cons tc ts)
  obtain t ch where tc: "tc = (t, ch)" by (cases tc)
  with Cons.prems(2) obtain s1 where s1: "t < NUM_THREADS cf" "ch_alloc ch \<or> cf_oom cf" "kthread_step cf ch t s = Runs s1"
      "foo_run cf ts s1 = Some s'"
    by (auto split: if_split_asm outcome.split_asm)
  then have "foo_reachable cf s0 s1" using Cons.prems(1) foo_step.thread foo_reachable.step by blast
  then show ?case using Cons.IH s1(4) by blast
qed simp

lemmas foo_run_defs = kthread_step_def foo_get_a_def foo_update_a_def foo_retire_def lock_step_def kfree_def goto_def
  toy_defs foo_started_def foo_module_def init_foo_def DEFINE_RWLOCK_def NUM_THREADS_def NUM_WRITER_THREADS_def

text \<open>
  C16: on any implementation of read-copy-update that keeps the contract, no interleaving of the readers and
  the writer, with \<open>synchronize_rcu\<close> or with \<open>call_rcu\<close>, makes a thread or a callback follow NULL or a
  structure that was freed, or free one twice, as long as \<open>kmalloc\<close> finds memory.
\<close>

theorem rcu_samples_safe:
  assumes "grace_period ops inside waits" and "inside l = {#}" and "cf \<in> {sync_config ops, call_config ops}"
    and "foo_reachable cf (foo_started l junk) s"
  shows "\<not> foo_faults cf s"
proof -
  have cf: "cf_ops cf = ops" "\<not> cf_oom cf" using assms(3) by (auto simp: sync_config_def call_config_def)
  show ?thesis
    by (rule grace_period.no_fault [OF assms(1) grace_period.foo_inv_reachable [OF assms(1,4) cf(1)] cf(2)])
      (rule grace_period.foo_inv_started [OF assms(1,2)])
qed

text \<open>
  The sample on the toy implementation is safe and never stuck: no thread faults, and whenever a thread is
  inside \<open>foo_get_a\<close> or \<open>foo_update_a\<close>, some thread that is can make a step.
\<close>

theorem toy_sample_runs:
  assumes "foo_reachable toy_config (foo_started DEFINE_RWLOCK junk) s"
  shows "\<not> foo_faults toy_config s \<and>
     (active (pcs s t) \<longrightarrow> (\<exists>u s'. active (pcs s u) \<and> kthread_step toy_config \<lparr>ch_stop = False, ch_val = v,
        ch_alloc = True, ch_junk = junk\<rparr> u s = Runs s'))"
proof -
  have cf: "cf_ops toy_config = toy_ops" "\<not> cf_oom toy_config" "cf_reclaim toy_config = Synchronize"
    by (simp_all add: toy_config_def)
  have "rw_readers DEFINE_RWLOCK = {#}" "set_option (rw_writer DEFINE_RWLOCK) = {}" by (simp_all add: DEFINE_RWLOCK_def)
  note i0 = toy.foo_inv_started [of DEFINE_RWLOCK toy_config junk, OF this(1)]
    and b0 = busy_inv_started [of "\<lambda>l. set_option (rw_writer l)" DEFINE_RWLOCK junk, OF this(2)]
  have inv: "toy.foo_inv toy_config s" by (rule toy.foo_inv_reachable [OF assms cf(1) i0])
  have bz: "busy_inv (\<lambda>l. set_option (rw_writer l)) s" by (rule toy_live.busy_inv_reachable [OF assms cf(1) i0 b0])
  have none: "callbacks s = (\<lambda>_. None)" using inv cf(3) by (simp add: toy.foo_inv_def role_inv_def)
  have "\<not> foo_faults toy_config s" by (rule toy.no_fault [OF inv cf(2)])
  moreover have "\<exists>u s'. active (pcs s u) \<and> kthread_step toy_config \<lparr>ch_stop = False, ch_val = v,
        ch_alloc = True, ch_junk = junk\<rparr> u s = Runs s'" if "active (pcs s t)"
    using toy_live.progress [OF cf(1) inv bz cf(2) that, of "\<lparr>ch_stop = False, ch_val = v, ch_alloc = True, ch_junk = junk\<rparr>"]
      none by (auto simp: foo_reclaim_def)
  ultimately show ?thesis by blast
qed

text \<open>
  Every number a reader prints is the initial 5 or one that the writer had printed before, and an update
  changes nothing but the field \<open>a\<close>: the published structure always has the fields \<open>b\<close> and \<open>c\<close> that
  \<open>init_foo\<close> left in it.
\<close>

theorem rcu_samples_values:
  assumes "grace_period ops inside waits" and "inside l = {#}" and "cf \<in> {sync_config ops, call_config ops}"
    and "foo_reachable cf (foo_started l junk) s"
  shows "(\<forall>new t v old. printed s = new @ Print_reader t v # old \<longrightarrow> v = 5 \<or> (\<exists>u. Print_writer u v \<in> set old)) \<and>
     (\<exists>p f. gbl_foo s = Some p \<and> heap s p = Some f \<and> (foo_a f = 5 \<or> (\<exists>u. Print_writer u (foo_a f) \<in> set (printed s))) \<and>
        foo_b f = foo_b junk \<and> foo_c f = foo_c junk)"
proof -
  have cf: "cf_ops cf = ops" using assms(3) by (auto simp: sync_config_def call_config_def)
  note i0 = grace_period.foo_inv_started [OF assms(1,2)]
  have "val_inv junk s" by (rule grace_period.val_inv_reachable [OF assms(1,4) cf i0 val_inv_started])
  moreover have "heap_inv s"
    using grace_period.foo_inv_reachable [OF assms(1,4) cf i0] by (simp add: grace_period.foo_inv_def [OF assms(1)])
  then obtain p where "gbl_foo s = Some p" using heap_invD(1) by blast
  ultimately show ?thesis by (auto simp: val_inv_def shared_def foo_ok_def val_ok_def prints_ok_def)
qed

text \<open>
  C27: unloading a sample frees every structure that was ever allocated, except those whose callbacks are
  still queued; with \<open>synchronize_rcu\<close> there are none, so that nothing leaks. With \<open>call_rcu\<close> nothing waits
  for the callbacks.
\<close>

theorem rcu_samples_exit:
  assumes "grace_period ops inside waits" and "inside l = {#}" and "cf \<in> {sync_config ops, call_config ops}"
    and "foo_reachable cf (foo_started l junk) s" and "exit_sample cf s = Runs s'"
  shows "dom (heap s') = ran (callbacks s') \<and> (cf = sync_config ops \<longrightarrow> heap s' = (\<lambda>_. None))"
proof -
  have cf: "cf_ops cf = ops" using assms(3) by (auto simp: sync_config_def call_config_def)
  have inv: "grace_period.foo_inv inside waits cf s"
    by (rule grace_period.foo_inv_reachable [OF assms(1,4) cf grace_period.foo_inv_started [OF assms(1,2)]])
  have left: "dom (heap s') = ran (callbacks s)" "callbacks s' = callbacks s"
    using grace_period.exit_leaves [OF assms(1) inv assms(5)] by auto
  moreover have "callbacks s = (\<lambda>_. None)" if "cf = sync_config ops"
    using inv that by (simp add: grace_period.foo_inv_def [OF assms(1)] role_inv_def sync_config_def)
  ultimately show ?thesis by (auto simp: ran_def)
qed

text \<open>
  The result of \<open>kmalloc\<close> is not checked in \<open>foo_update_a\<close>: when it fails, the writer gets to a point where
  it follows NULL, while it holds the mutex.
\<close>

theorem failed_kmalloc_faults:
  "\<exists>s. foo_reachable (toy_config\<lparr>cf_oom := True\<rparr>) (foo_started DEFINE_RWLOCK junk) s \<and>
     foo_faults (toy_config\<lparr>cf_oom := True\<rparr>) s \<and> foo_mutex s \<noteq> None"
proof -
  let ?cf = "toy_config\<lparr>cf_oom := True\<rparr>" and ?ch = "\<lparr>ch_stop = False, ch_val = 1, ch_alloc = False, ch_junk = junk\<rparr>"
  let ?s0 = "foo_started DEFINE_RWLOCK junk"
  obtain s where s: "foo_run ?cf (replicate 3 (2, ?ch)) ?s0 = Some s" "pcs s 2 = W_old None (Some 0) 1" "foo_mutex s = Some 2"
    by (simp add: numeral_3_eq_3 foo_run_defs toy_config_def)
  have "kthread_step ?cf ?ch 2 s = Faults"
    using s(2) by (simp add: kthread_step_def foo_update_a_def toy_config_def)
  moreover have "2 < NUM_THREADS ?cf" by (simp add: NUM_THREADS_def NUM_WRITER_THREADS_def toy_config_def)
  ultimately have "foo_faults ?cf s" unfolding foo_faults_def by (intro disjI1 exI [of _ 2] exI [of _ ?ch]) (simp add: toy_config_def)
  then show ?thesis using foo_run_reachable [OF foo_reachable.start s(1)] s(3) by blast
qed

subsection \<open>Examples\<close>

lemma toy_contract: "grace_period toy_ops rw_readers (\<lambda>_ _. {})"
  by (rule toy.grace_period_axioms)

lemma toy_free: "rw_readers DEFINE_RWLOCK = {#}"
  by (simp add: DEFINE_RWLOCK_def)

definition example_foo :: foo where "example_foo = \<lparr>foo_a = 0, foo_b = 1, foo_c = 2\<rparr>"

text \<open>A reader that still knows the old structure while the writer has published a new one.\<close>

definition example_choice :: "bool \<Rightarrow> foo_choice" where
  "example_choice stop = \<lparr>ch_stop = stop, ch_val = 42, ch_alloc = True, ch_junk = example_foo\<rparr>"

definition example_schedule :: "(tid \<times> foo_choice) list" where
  "example_schedule = map (\<lambda>t. (t, example_choice False)) [0, 0, 10, 10, 10, 10, 10, 10, 10]"

definition example_finish :: "(tid \<times> foo_choice) list" where
  "example_finish = map (\<lambda>t. (t, example_choice False)) [0, 0, 10, 10, 10, 1, 1, 1, 1] @
     map (\<lambda>t. (t, example_choice True)) [0 ..< 11]"

lemma example_schedule_runs:
  "\<exists>s. foo_run (sync_config toy_ops) example_schedule (foo_started DEFINE_RWLOCK example_foo) = Some s \<and>
     pcs s 10 = W_unlocked 0 \<and> pcs s 0 = R_at (Some 0) \<and>
     (\<exists>s1 s2. foo_run (sync_config toy_ops) example_finish s = Some s1 \<and> exit_sample (sync_config toy_ops) s1 = Runs s2 \<and>
        printed s1 = [Print_reader 1 42, Print_reader 0 5, Print_writer 10 42])"
  by (simp add: example_schedule_def example_finish_def example_choice_def foo_run_defs sync_config_def exit_sample_def
      upt_rec lessThan_nat_numeral lessThan_Suc)

definition example_pending :: "(tid \<times> foo_choice) list" where
  "example_pending = map (\<lambda>t. (t, example_choice False)) [10, 10, 10, 10, 10, 10, 10, 10] @
     map (\<lambda>t. (t, example_choice True)) [0 ..< 11]"

lemma example_pending_runs:
  "\<exists>s1 s2. foo_run (call_config toy_ops) example_pending (foo_started DEFINE_RWLOCK example_foo) = Some s1 \<and>
     exit_sample (call_config toy_ops) s1 = Runs s2 \<and> callbacks s2 = [0 \<mapsto> 0]"
  by (simp add: example_pending_def example_choice_def foo_run_defs call_config_def exit_sample_def
      upt_rec lessThan_nat_numeral lessThan_Suc)

lemma rcu_samples_safe_witness:
  "\<exists>s. pcs s 10 = W_unlocked 0 \<and> pcs s 0 = R_at (Some 0) \<and> \<not> foo_faults (sync_config toy_ops) s"
proof -
  obtain s where s: "foo_run (sync_config toy_ops) example_schedule (foo_started DEFINE_RWLOCK example_foo) = Some s"
      "pcs s 10 = W_unlocked 0" "pcs s 0 = R_at (Some 0)" using example_schedule_runs by blast
  have "\<not> foo_faults (sync_config toy_ops) s"
    by (rule rcu_samples_safe [OF toy_contract toy_free _ foo_run_reachable [OF foo_reachable.start s(1)]]) simp
  then show ?thesis using s by blast
qed

lemma toy_sample_runs_witness:
  "\<exists>s u s'. pcs s 2 = W_held (Some 1) 42 \<and> active (pcs s u) \<and> \<not> foo_faults toy_config s \<and>
     kthread_step toy_config \<lparr>ch_stop = False, ch_val = 7, ch_alloc = True, ch_junk = example_foo\<rparr> u s = Runs s'"
proof -
  obtain s where s: "foo_run toy_config [(2, example_choice False), (2, example_choice False)]
      (foo_started DEFINE_RWLOCK example_foo) = Some s" "pcs s 2 = W_held (Some 1) 42"
    by (simp add: example_choice_def foo_run_defs toy_config_def)
  then have "active (pcs s 2)" by (simp add: active_def)
  then show ?thesis
    using toy_sample_runs [OF foo_run_reachable [OF foo_reachable.start s(1)], of 2 7] s(2) by blast
qed

lemma rcu_samples_values_witness:
  "\<exists>s :: rwlock foo_state. printed s = [Print_reader 1 42, Print_reader 0 5, Print_writer 10 42] \<and>
     (\<exists>p f. gbl_foo s = Some p \<and> heap s p = Some f \<and> foo_c f = 2)"
proof -
  obtain s s1 where s: "foo_run (sync_config toy_ops) example_schedule (foo_started DEFINE_RWLOCK example_foo) = Some s"
      "foo_run (sync_config toy_ops) example_finish s = Some s1"
      "printed s1 = [Print_reader 1 42, Print_reader 0 5, Print_writer 10 42]" using example_schedule_runs by blast
  note r = foo_run_reachable [OF foo_run_reachable [OF foo_reachable.start s(1)] s(2)]
  have "\<exists>p f. gbl_foo s1 = Some p \<and> heap s1 p = Some f \<and> foo_c f = foo_c example_foo"
    using rcu_samples_values [OF toy_contract toy_free _ r] by blast
  then show ?thesis using s(3) by (intro exI [of _ s1]) (auto simp: example_foo_def)
qed

lemma rcu_samples_exit_witness:
  "(\<exists>s :: rwlock foo_state. heap s = (\<lambda>_. None) \<and> length (printed s) = 3) \<and>
   (\<exists>s :: rwlock foo_state. dom (heap s) = {0} \<and> callbacks s = [0 \<mapsto> 0])"
proof -
  obtain s s1 s2 where s: "foo_run (sync_config toy_ops) example_schedule (foo_started DEFINE_RWLOCK example_foo) = Some s"
      "foo_run (sync_config toy_ops) example_finish s = Some s1" "exit_sample (sync_config toy_ops) s1 = Runs s2"
      "printed s1 = [Print_reader 1 42, Print_reader 0 5, Print_writer 10 42]" using example_schedule_runs by blast
  note r = foo_run_reachable [OF foo_run_reachable [OF foo_reachable.start s(1)] s(2)]
  have "printed s2 = printed s1"
    using s(3) by (auto simp: exit_sample_def kfree_def split: if_split_asm option.split_asm)
  then have a: "heap s2 = (\<lambda>_. None)" "length (printed s2) = 3"
    using rcu_samples_exit [OF toy_contract toy_free _ r s(3)] s(4) by simp_all
  obtain t1 t2 where t: "foo_run (call_config toy_ops) example_pending (foo_started DEFINE_RWLOCK example_foo) = Some t1"
      "exit_sample (call_config toy_ops) t1 = Runs t2" "callbacks t2 = [0 \<mapsto> 0]" using example_pending_runs by blast
  have "dom (heap t2) = {0}"
    using rcu_samples_exit [OF toy_contract toy_free _ foo_run_reachable [OF foo_reachable.start t(1)] t(2)] t(3) by simp
  then show ?thesis using a t(3) by blast
qed

end
