(* ===== verification/Spec2Isabelle.thy ===== *)
theory Spec2Isabelle
  imports Fuse_Mount Fuse_Writeback_Correct Fuse_Attr_Correct Fuse_Readdir_Correct Fuse_Notify_Correct Fuse_File_Ops_Correct Rcu_Correct
begin

text \<open>
  A model of the FUSE kernel module of this repository (\<open>src/old/fuse\<close>) and of its samples of
  read-copy-update (\<open>src/rcu\<close>), with the theorems that make them correct.

  \<^bold>\<open>The program.\<close> FUSE lets a server in user space implement a file system. The virtual file system
  calls the module (\<open>dir.c\<close>, \<open>file.c\<close>, \<open>inode.c\<close>), which turns every call into a request to the server; the
  server reads requests from a device and writes the replies back (\<open>dev.c\<close>). A connection
  (\<open>struct fuse_conn\<close> of \<open>fuse_i.h\<close>) holds what both sides share: the queue of requests the server has not
  read (with the interrupts and the FORGET messages), the queue of background requests and the limits that
  throttle them, and the open devices with the requests the server has read and not yet answered. A
  connection is created by a mount (\<open>inode.c\<close>) or by a character device in user space, is negotiated by
  INIT, appears as a directory of the control file system (\<open>control.c\<close>), and ends by an abort or when its
  last device is closed.

  \<^bold>\<open>Theories and the code they model\<close>, in the order of their imports:

  \<^item> \<open>Prelude\<close>: errno values, the allocator, generic lemmas on options, maps, lists and words, and the
    collections of facts the components share.
  \<^item> \<open>Fuse_Types\<close>: \<open>fuse_i.h\<close>, the records and enumerations. \<open>fuse_state\<close> is a connection with everything
    reached from it by pointers, as stores from identifiers to records.
  \<^item> \<open>Fuse_Request\<close>: the first part of \<open>dev.c\<close>, allocation of requests, their references, the count of
    waiting requests and the admission of new ones.
  \<^item> \<open>Fuse_Init\<close>: \<open>inode.c\<close>, the initial connection, the INIT request and its reply. \<open>Example_State\<close> holds the
    concrete states on which witnesses are evaluated.
  \<^item> \<open>Fuse_Queue\<close>, \<open>Fuse_Background\<close>, \<open>Fuse_Send\<close>: \<open>dev.c\<close>, queueing, sending and completion of requests, the
    wait for an answer with its interrupts, the accounting of background requests, and what sending keeps.
  \<^item> \<open>Fuse_Forget\<close>: \<open>dev.c\<close>, the FORGET messages, as the linked list of the source and as a list.
  \<^item> \<open>Fuse_Copy\<close>, \<open>Fuse_Dev_Read\<close>, \<open>Fuse_Dev_Write\<close>: \<open>dev.c\<close>, copying between the kernel and the server,
    \<open>fuse_dev_do_read\<close> and \<open>fuse_dev_do_write\<close>.
  \<^item> \<open>Fuse_Abort\<close>: \<open>dev.c\<close> and \<open>inode.c\<close>, abort and release, devices and references to the connection.
  \<^item> \<open>Fuse_Inode\<close>: \<open>inode.c\<close>, attributes, lookup counts, invalidation, file handles for export.
  \<^item> \<open>Fuse_Control\<close>: \<open>control.c\<close>, the control file system.
  \<^item> \<open>Fuse_Mount\<close>: \<open>inode.c\<close>, mount options, \<open>fuse_fill_super\<close> with its error paths, unmounting.
  \<^item> \<open>Fuse_File\<close>: \<open>file.c\<close>, opening and releasing files, and lock owners.
  \<^item> \<open>Fuse_Writeback\<close>: \<open>file.c\<close> and \<open>dir.c\<close>, writeback of dirty pages and its suspension.
    \<open>Writeback_Spec\<close> is an abstract specification of it, \<open>Writeback_Refine\<close> shows that the code
    implements the specification, \<open>Fuse_Writeback_Correct\<close> puts the threads together.
  \<^item> \<open>Fuse_Dir\<close>: \<open>dir.c\<close>, names and directories: lookup, revalidation, creation, links, atomic open, removal,
    renaming, invalidation. \<open>fuse_ns\<close> is a mounted file system with its dentries and the lookup counts of the
    server. \<open>Fuse_Dir_Correct\<close> has the balance of lookups.
  \<^item> \<open>Fuse_Attr\<close>, \<open>Fuse_Attr_Correct\<close>: \<open>dir.c\<close>, permission checks, GETATTR and SETATTR, with truncation.
  \<^item> \<open>Fuse_Readdir\<close>, \<open>Fuse_Readdir_Correct\<close>: \<open>dir.c\<close>, reading of directories with READDIR and READDIRPLUS, and the
    linking of an entry into the dentry cache. A reply is a list of records, whose layout is an argument.
  \<^item> \<open>Fuse_Notify\<close>, \<open>Fuse_Notify_Correct\<close>: \<open>dev.c\<close> and \<open>file.c\<close>, the notifications of the server (invalidation, store
    and retrieve of cached data, wake-up of polls) and the tree of polled files.
  \<^item> \<open>Fuse_Xattr\<close>: \<open>xattr.c\<close> and \<open>acl.c\<close>, extended attributes and access control lists. \<open>Fuse_File_Ops\<close>: \<open>file.c\<close>, flush,
    fsync, locks, block mapping, seeking and allocation. \<open>Fuse_File_Ops_Correct\<close> has their lemmas.
  \<^item> \<open>Rcu_Locks\<close>, \<open>Rcu_Sample\<close>: the toy implementation of read-copy-update of \<open>src/rcu/toy_impl\<close> and the
    programs of \<open>toy_impl\<close> and \<open>use_example\<close>; \<open>Rcu_Invariants\<close> and \<open>Rcu_Correct\<close> their proofs.

  \<^bold>\<open>How the code is modelled.\<close> A struct is a record, a set of flag bits is a set of constructors, a machine
  integer is a word of its width, a pointer is an identifier into a store of the state. A C function is a
  function on the state, in the order of its statements. A function that can crash (\<open>BUG_ON\<close>, a pointer to a
  freed or absent object, a loop that does not end) returns an option, and \<open>None\<close> is the crash; errors are
  negative integers as in the source. Whether an allocation succeeds is an argument. A function that
  drops its locks or sleeps in the middle is split there, or has an argument for what the rest
  of the system does meanwhile; the theorems hold for every such argument that keeps the stated
  contract. What a test observes outside the module (the virtual file system, page cache, user memory)
  is an argument or a recorded list of calls (newest first). The wire encoding, which is in
  \<open>linux/fuse.h\<close> and not in this repository, is an argument: the sizes of its structures and a codec.

  \<^bold>\<open>What the lemmas show.\<close>

  \<^item> Requests and queues: the counters of background requests are exact and their limit is respected,
    messages of the FORGET queue are neither lost nor reordered, reads alternate fairly, a request is
    delivered to the server byte by byte and its reply to the waiting thread; a malformed message is refused with
    its errno and changes nothing.
  \<^item> The end of a connection: after an abort every request is finished or marked for whoever holds it,
    references to connection and devices balance; a request ended by the abort is never freed.
  \<^item> Inodes: the lookup count of every inode is the count the server holds, minus the FORGETs under way;
    stale attributes are dropped; a file handle decodes to what was encoded; an invalidated range is exact.
  \<^item> Names: no directory operation loses or doubles a lookup the server has counted, except for replies that are
    refused. Attributes: a denial rests on attributes fetched in the same call; SETATTR lets the writes of the
    inode go again on every path. Reading a directory: over any number of calls the entries of the server arrive
    in order, none lost and none twice. Every lookup a READDIRPLUS reply counts is settled, except those behind
    a malformed record; a failed splice of a dentry sends the same FORGET twice.
  \<^item> Notifications: a store puts exactly the bytes of its message into the page cache, and a retrieve sends exactly
    cached bytes; a poll notification wakes the file with its handle. A page stored at the end of a file is marked
    up to date with stale bytes behind the data, and a retrieve that meets an abort leaks its request.
  \<^item> Optional operations: a server that answered ENOSYS to one is not asked for it again; a list of names is passed on
    only when it is a sequence of names.
  \<^item> Mounting: a failed mount leaves nothing behind except a dangling \<open>s_fs_info\<close>, on which the
    destruction of the superblock then crashes.
  \<^item> Files: RELEASE is sent exactly when the last reference is dropped (the server implements OPEN, the connection
    is up) and carries the server's handle.
  \<^item> Writeback: requests under way for one inode never overlap unless a page is laundered while its write is
    under way, which the code allows; the write counter is exact, nothing is in flight while writes are held
    back, and the queue is emptied when they are released.
  \<^item> Read-copy-update: the samples never touch freed memory on any implementation that keeps the contract
    of a grace period, and the toy implementation keeps it.

  Where the code does not keep what it should, the theorem states what it does instead, and is listed
  as such beside its property.

  \<^bold>\<open>Interfaces.\<close> A locale states each contract between parts: \<open>forget_fifo\<close> (the FORGET queue),
  \<open>grace_period\<close> and \<open>live_grace_period\<close> (read-copy-update), \<open>exchange\<close> (a request and the lookups its reply
  counts, with a sublocale for each kind of reply) and \<open>server\<close> (what happens until the answer is there, from
  which \<open>exchange\<close> follows for \<open>fuse_simple_request\<close>), \<open>dir_server\<close> (the wait for a page of directory entries),
  \<open>optional_op\<close> (an operation that a bit of the connection turns off), and others in the theories of their users;
  each is interpreted on the model of the code that provides it.

  \<^bold>\<open>Loops.\<close> No loop runs on fuel. Loops over lists are structural recursion; the others are functions with
  a termination proof by a measure, or partial functions into options, where \<open>None\<close> includes not
  returning and the theorems prove that a result exists.

  \<^bold>\<open>Not modelled.\<close> Reading, writing, mapping and ioctl of files in \<open>file.c\<close>; the tables of operations
  and the wrappers of \<open>dir.c\<close> that only call \<open>file.c\<close>; \<open>cuse.c\<close>; splicing in \<open>dev.c\<close>;
  the loading of the module. The second copy of the module in \<open>src/old/tmp/fuse\<close> and the fragment
  \<open>src/old/tuse\<close>; the small samples of \<open>src/old\<close> and \<open>src/get_user_pages\<close>, and the programs of \<open>src/old/usr\<close>,
  which call the kernel or the C library only. Races inside a critical section of one lock cannot
  occur; races between an access under a lock and one without it are modelled only where the text of a
  theory says so.
\<close>

end
